(* ===== verification/Prelude.thy ===== *)
theory Prelude
  imports Complex_Main "HOL-Library.Word"
begin

text \<open>
  Shared vocabulary of the development: the machine integers of the C++ sources, the values
  that stand for exceptions and aborted simulations, sequencing of fallible operations, and the
  generic lemmas on lists, words and folds that the component theories use.
\<close>

unbundle bit_operations_syntax

section \<open>Machine integers\<close>

text \<open>
  A fixed-width integer of the sources is a word of that width. The C++ type \<open>unsigned\<close> used
  for counters is a natural number; where the code adds to such a counter, the addition is
  written with \<open>u32_add\<close>, which wraps at $2^{32}$.
\<close>

type_synonym u8 = "8 word"
type_synonym u16 = "16 word"
type_synonym u32 = "32 word"
type_synonym u64 = "64 word"

definition u32_add :: "nat \<Rightarrow> nat \<Rightarrow> nat" where
  "u32_add a b = (a + b) mod 2 ^ 32"

text \<open>
  The memory simulator computes cycles, addresses and capacities in \<open>std::uint64_t\<close>; there they
  are natural numbers below $2^{64}$, and every sum and product wraps explicitly. An \<open>int\<close> of
  the sources is an integer within \<open>int32\<close>.
\<close>

definition u64_max :: nat where
  "u64_max = 2 ^ 64 - 1"

definition u64_add :: "nat \<Rightarrow> nat \<Rightarrow> nat" where
  "u64_add a b = (a + b) mod 2 ^ 64"

definition u64_mul :: "nat \<Rightarrow> nat \<Rightarrow> nat" where
  "u64_mul a b = (a * b) mod 2 ^ 64"

definition int_max :: int where
  "int_max = 2 ^ 31 - 1"

definition int32 :: "int \<Rightarrow> bool" where
  "int32 x \<longleftrightarrow> - (2 ^ 31) \<le> x \<and> x < 2 ^ 31"

lemma u64_add_exact: "a + b < 2 ^ 64 \<Longrightarrow> u64_add a b = a + b"
  by (simp add: u64_add_def)

lemma u64_mul_exact: "a * b < 2 ^ 64 \<Longrightarrow> u64_mul a b = a * b"
  by (simp add: u64_mul_def)

lemma u64_add_less [simp]: "u64_add a b < 2 ^ 64"
  by (simp add: u64_add_def)

lemma u64_mul_less [simp]: "u64_mul a b < 2 ^ 64"
  by (simp add: u64_mul_def)

text \<open>The overflow test \<open>rhs > max / lhs\<close> of the sources is exact.\<close>

lemma mul_guard_exact: "0 < (a :: nat) \<Longrightarrow> b \<le> m div a \<longleftrightarrow> a * b \<le> m"
  by (simp add: less_eq_div_iff_mult_less_eq mult.commute)

section \<open>Exceptions and aborts as values\<close>

text \<open>
  \<open>InvalidArgument\<close>, \<open>RuntimeError\<close>, \<open>OverflowError\<close>, \<open>OutOfRange\<close> and \<open>LogicError\<close> are
  the exception classes the sources throw (all of them \<open>std::exception\<close>),
  \<open>ScFatal\<close> is \<open>SC_REPORT_FATAL\<close>, \<open>AssertFailed\<close> a failing \<open>assert\<close> or \<open>sc_assert\<close>, and
  \<open>Undefined\<close> an operation whose behaviour C++ leaves undefined.
\<close>

datatype cpp_error =
    InvalidArgument string
  | RuntimeError string
  | OverflowError string
  | OutOfRange string
  | LogicError string
  | ScFatal string
  | AssertFailed string
  | Undefined string

type_synonym 'a res = "cpp_error + 'a"

definition rbind :: "'a res \<Rightarrow> ('a \<Rightarrow> 'b res) \<Rightarrow> 'b res" where
  "rbind r f = (case r of Inl e \<Rightarrow> Inl e | Inr x \<Rightarrow> f x)"

definition rassert :: "bool \<Rightarrow> string \<Rightarrow> 'a res \<Rightarrow> 'a res" where
  "rassert b msg r = (if b then r else Inl (AssertFailed msg))"

fun rfold :: "('x \<Rightarrow> 's \<Rightarrow> 's res) \<Rightarrow> 'x list \<Rightarrow> 's \<Rightarrow> 's res" where
  "rfold f [] s = Inr s"
| "rfold f (x # xs) s = rbind (f x s) (rfold f xs)"

definition the_res :: "'a res \<Rightarrow> 'a option" where
  "the_res r = (case r of Inl _ \<Rightarrow> None | Inr x \<Rightarrow> Some x)"

named_theorems wf_simps \<open>well-formedness of the states and messages of the model\<close>
named_theorems const_simps \<open>numerical constants of the sources\<close>

lemma rbind_Inr [simp]: "rbind (Inr x) f = f x"
  by (simp add: rbind_def)

lemma rbind_Inl [simp]: "rbind (Inl e) f = Inl e"
  by (simp add: rbind_def)

lemma rbind_eq_Inr: "rbind r f = Inr y \<longleftrightarrow> (\<exists>x. r = Inr x \<and> f x = Inr y)"
  by (cases r) auto

lemma rbind_eq_Inl: "rbind r f = Inl e \<longleftrightarrow> r = Inl e \<or> (\<exists>x. r = Inr x \<and> f x = Inl e)"
  by (cases r) auto

lemma rassert_eq_Inr [simp]: "rassert b msg r = Inr y \<longleftrightarrow> b \<and> r = Inr y"
  by (simp add: rassert_def)

lemma rassert_True [simp]: "rassert True msg r = r"
  by (simp add: rassert_def)

lemma rassert_False [simp]: "rassert False msg r = Inl (AssertFailed msg)"
  by (simp add: rassert_def)

text \<open>Invariants of a fold, and of a fold that may fail.\<close>

lemma rfold_invariant:
  assumes "rfold f xs s = Inr t" and "P s"
    and "\<And>x s t. x \<in> set xs \<Longrightarrow> P s \<Longrightarrow> f x s = Inr t \<Longrightarrow> P t"
  shows "P t"
  using assms
proof (induction xs arbitrary: s)
  case Nil
  then show ?case by simp
next
  case (Cons x xs)
  then obtain u where u: "f x s = Inr u" "rfold f xs u = Inr t"
    by (auto simp: rbind_eq_Inr)
  with Cons.prems(2,3) have "P u"
    by (meson list.set_intros(1))
  with u(2) show ?case
    by (rule Cons.IH) (meson Cons.prems(3) list.set_intros(2))
qed

lemma fold_keeps:
  assumes "P s" and "\<And>x s. x \<in> set xs \<Longrightarrow> P s \<Longrightarrow> P (f x s)"
  shows "P (fold f xs s)"
  using assms by (induction xs arbitrary: s) auto

lemma fold_keeps_eq:
  assumes "\<And>x s. g (f x s) = g s"
  shows "g (fold f xs s) = g s"
  using assms by (induction xs arbitrary: s) auto

text \<open>Loops that may fail, as folds.\<close>

lemma rfold_append: "rfold f (xs @ ys) s = rbind (rfold f xs s) (rfold f ys)"
proof (induction xs arbitrary: s)
  case (Cons x xs)
  then show ?case by (cases "f x s") simp_all
qed simp

lemma rfold_single: "rfold f [x] = f x"
proof
  show "rfold f [x] s = f x s" for s by (cases "f x s") simp_all
qed

lemma rfold_map: "rfold f (map h xs) s = rfold (\<lambda>x. f (h x)) xs s"
proof (induction xs arbitrary: s)
  case (Cons x xs)
  then show ?case by (cases "f (h x) s") simp_all
qed simp

lemma rfold_map_fun: "rfold f (map h xs) = rfold (\<lambda>x. f (h x)) xs"
  by (rule ext) (rule rfold_map)

lemma rfold_cong_set: "(\<And>x s. x \<in> set xs \<Longrightarrow> f x s = g x s) \<Longrightarrow> rfold f xs s = rfold g xs s"
proof (induction xs arbitrary: s)
  case (Cons x xs)
  then show ?case by (cases "g x s") simp_all
qed simp

text \<open>A nested loop over beats and bytes is one loop over the bytes of the burst.\<close>

lemma rfold_nested:
  assumes "0 < w"
  shows "rfold (\<lambda>n. rfold (f n) [0..<w]) [0..<m] s = rfold (\<lambda>k. f (k div w) (k mod w)) [0..<m * w] s"
proof (induction m)
  case (Suc m)
  have split: "[0..<Suc m * w] = [0..<m * w] @ map (\<lambda>j. m * w + j) [0..<w]"
    using upt_add_eq_append [of 0 "m * w" w] map_add_upt [of "m * w" w] by (simp add: add.commute)
  have row: "rfold (\<lambda>j. f ((m * w + j) div w) ((m * w + j) mod w)) [0..<w] = rfold (f m) [0..<w]"
    using assms by (intro ext rfold_cong_set) simp
  have "rfold (\<lambda>n. rfold (f n) [0..<w]) [0..<Suc m] s
      = rbind (rfold (\<lambda>n. rfold (f n) [0..<w]) [0..<m] s) (rfold (f m) [0..<w])"
    by (simp add: rfold_append rfold_single)
  also have "\<dots> = rfold (\<lambda>k. f (k div w) (k mod w)) [0..<Suc m * w] s"
    unfolding split rfold_append Suc.IH by (simp only: rfold_map_fun row)
  finally show ?case .
qed simp

lemma rfold_total:
  assumes "P s" and "\<And>x s. x \<in> set xs \<Longrightarrow> P s \<Longrightarrow> f x s = Inr (g x s) \<and> P (g x s)"
  shows "rfold f xs s = Inr (fold g xs s) \<and> P (fold g xs s)"
  using assms
proof (induction xs arbitrary: s)
  case (Cons x xs)
  then show ?case by simp
qed simp

lemma rfold_collect:
  assumes "\<And>n. n \<in> set ns \<Longrightarrow> f n = Inr (g n)"
  shows "rfold (\<lambda>n acc. rbind (f n) (\<lambda>b. Inr (acc @ [b]))) ns acc = Inr (acc @ map g ns)"
  using assms by (induction ns arbitrary: acc) simp_all

section \<open>Lists\<close>

text \<open>Element access of a C++ vector or array; outside the bounds its behaviour is undefined.\<close>

definition arr_at :: "'a list \<Rightarrow> nat \<Rightarrow> 'a res" where
  "arr_at xs i = (if i < length xs then Inr (xs ! i) else Inl (Undefined ''index out of bounds''))"

definition arr_put :: "nat \<Rightarrow> 'a \<Rightarrow> 'a list \<Rightarrow> 'a list res" where
  "arr_put i v xs = (if i < length xs then Inr (xs[i := v]) else Inl (Undefined ''index out of bounds''))"

text \<open>An array segment overwritten element by element is the array with the segment replaced.\<close>

lemma fold_update_segment:
  assumes "base + n \<le> length d"
  shows "fold (\<lambda>i d. d[base + i := g i]) [0..<n] d = take base d @ map g [0..<n] @ drop (base + n) d"
  using assms
proof (induction n)
  case 0
  then show ?case by simp
next
  case (Suc n)
  let ?e = "take base d @ map g [0..<n] @ drop (base + n) d"
  have eq: "fold (\<lambda>i d. d[base + i := g i]) [0..<Suc n] d = ?e[base + n := g n]"
    using Suc by simp
  have "drop (base + n) d = (d ! (base + n)) # drop (base + Suc n) d"
    using Suc.prems by (simp add: Cons_nth_drop_Suc)
  moreover have "length (take base d) = base"
    using Suc.prems by simp
  ultimately have "?e[base + n := g n]
      = take base d @ map g [0..<n] @ (g n # drop (base + Suc n) d)"
    by (simp add: list_update_append)
  with eq show ?case by simp
qed

lemma map_nth_take: "n \<le> length xs \<Longrightarrow> map (\<lambda>i. xs ! i) [0..<n] = take n xs"
  by (rule nth_equalityI) simp_all

lemma map_nth_take_drop:
  "b + n \<le> length xs \<Longrightarrow> map (\<lambda>i. xs ! (b + i)) [0..<n] = take n (drop b xs)"
  by (rule nth_equalityI) (simp_all add: add.commute)

lemma map_nth_rev_take:
  "n \<le> length xs \<Longrightarrow> map (\<lambda>i. xs ! (n - 1 - i)) [0..<n] = rev (take n xs)"
  by (rule nth_equalityI) (simp_all add: rev_nth)

lemma sum_list_filter_append_one:
  "sum_list (map f (filter P (xs @ [x]))) = sum_list (map f (filter P xs)) + (if P x then f x else (0::nat))"
  by simp

section \<open>Words\<close>

lemma and_one_bit: "((x::'a::len word) AND 1 \<noteq> 0) = bit x 0"
  by (simp add: and_one_eq odd_iff_mod_2_eq_one [symmetric] bit_0)

lemma drop_bit_and_one: "(drop_bit n (x::'a::len word) AND 1 \<noteq> 0) = bit x n"
  by (simp add: and_one_bit bit_drop_bit_eq)

lemma unat_lt_256: "unat (x::u8) < 256"
  using unsigned_less [of x, where ?'a = nat] by simp

end
