(* ===== verification/Bit_Stream.thy ===== *)
theory Bit_Stream
  imports Prelude
begin

text \<open>
  The classes BitWriter and BitReader of components/axi2flit/systemc/include/aou_types.h.
  A writer ORs bits into a byte array, most significant bit of each byte first, and a reader
  takes them out in the same order. The array is a list of bytes; \<open>bits_of\<close> is the sequence of
  its bits in wire order. The lemmas show that a sequence of writes appends the fields to that
  sequence, and that a read returns the bits at the read position.
\<close>

section \<open>The writer\<close>

text \<open>
  \<open>bw_fail\<close> records a failed \<open>sc_assert\<close> (an unaligned byte copy), which ends the simulation.
\<close>

record bit_writer =
  bw_dst :: "u8 list"
  bw_bit :: nat
  bw_fail :: bool

definition bw_new :: "u8 list \<Rightarrow> bit_writer" where
  "bw_new dst = \<lparr>bw_dst = dst, bw_bit = 0, bw_fail = False\<rparr>"

definition bw_put_bit :: "bool \<Rightarrow> bit_writer \<Rightarrow> bit_writer" where
  "bw_put_bit b bw =
     (let k = bw_bit bw; d = bw_dst bw
      in bw\<lparr>bw_dst := (if b then d[k div 8 := d ! (k div 8) OR push_bit (7 - k mod 8) 1] else d),
            bw_bit := Suc k\<rparr>)"

definition bw_put :: "u64 \<Rightarrow> nat \<Rightarrow> bit_writer \<Rightarrow> bit_writer" where
  "bw_put val width bw =
     fold (\<lambda>i. bw_put_bit (drop_bit (width - 1 - i) val AND 1 \<noteq> 0)) [0..<width] bw"

definition bw_skip :: "nat \<Rightarrow> bit_writer \<Rightarrow> bit_writer" where
  "bw_skip width bw = bw\<lparr>bw_bit := bw_bit bw + width\<rparr>"

definition bw_put_bytes :: "u8 list \<Rightarrow> nat \<Rightarrow> bit_writer \<Rightarrow> bit_writer" where
  "bw_put_bytes src n bw =
     (let base = bw_bit bw div 8
      in bw\<lparr>bw_fail := (bw_fail bw \<or> bw_bit bw mod 8 \<noteq> 0),
            bw_dst := fold (\<lambda>i d. d[base + i := src ! i]) [0..<n] (bw_dst bw),
            bw_bit := bw_bit bw + n * 8\<rparr>)"

definition bw_put_bytes_msb_first :: "u8 list \<Rightarrow> nat \<Rightarrow> bit_writer \<Rightarrow> bit_writer" where
  "bw_put_bytes_msb_first src n bw =
     (let base = bw_bit bw div 8
      in bw\<lparr>bw_fail := (bw_fail bw \<or> bw_bit bw mod 8 \<noteq> 0),
            bw_dst := fold (\<lambda>i d. d[base + i := src ! (n - 1 - i)]) [0..<n] (bw_dst bw),
            bw_bit := bw_bit bw + n * 8\<rparr>)"

definition bw_bits :: "bit_writer \<Rightarrow> nat" where
  "bw_bits bw = bw_bit bw"

definition bw_bytes :: "bit_writer \<Rightarrow> nat" where
  "bw_bytes bw = (bw_bit bw + 7) div 8"

section \<open>The reader\<close>

record bit_reader =
  br_src :: "u8 list"
  br_bit :: nat
  br_fail :: bool

definition br_new :: "u8 list \<Rightarrow> bit_reader" where
  "br_new src = \<lparr>br_src = src, br_bit = 0, br_fail = False\<rparr>"

definition br_get_bit :: "nat \<Rightarrow> u64 \<times> bit_reader \<Rightarrow> u64 \<times> bit_reader" where
  "br_get_bit i vb =
     (let (v, br) = vb; k = br_bit br; v1 = push_bit 1 v
      in (if br_src br ! (k div 8) AND push_bit (7 - k mod 8) 1 \<noteq> 0 then v1 OR 1 else v1,
          br\<lparr>br_bit := Suc k\<rparr>))"

definition br_get :: "nat \<Rightarrow> bit_reader \<Rightarrow> u64 \<times> bit_reader" where
  "br_get width br = fold br_get_bit [0..<width] (0, br)"

definition br_skip :: "nat \<Rightarrow> bit_reader \<Rightarrow> bit_reader" where
  "br_skip width br = br\<lparr>br_bit := br_bit br + width\<rparr>"

definition br_get_bytes :: "nat \<Rightarrow> bit_reader \<Rightarrow> u8 list \<Rightarrow> u8 list \<times> bit_reader" where
  "br_get_bytes n br dst =
     (let base = br_bit br div 8
      in (fold (\<lambda>i d. d[i := br_src br ! (base + i)]) [0..<n] dst,
          br\<lparr>br_fail := (br_fail br \<or> br_bit br mod 8 \<noteq> 0), br_bit := br_bit br + n * 8\<rparr>))"

definition br_get_bytes_msb_first :: "nat \<Rightarrow> bit_reader \<Rightarrow> u8 list \<Rightarrow> u8 list \<times> bit_reader" where
  "br_get_bytes_msb_first n br dst =
     (let base = br_bit br div 8
      in (fold (\<lambda>i d. d[n - 1 - i := br_src br ! (base + i)]) [0..<n] dst,
          br\<lparr>br_fail := (br_fail br \<or> br_bit br mod 8 \<noteq> 0), br_bit := br_bit br + n * 8\<rparr>))"

definition br_bits :: "bit_reader \<Rightarrow> nat" where
  "br_bits br = br_bit br"

section \<open>Bit sequences in wire order\<close>

definition byte_bits :: "u8 \<Rightarrow> bool list" where
  "byte_bits b = map (\<lambda>i. bit b (7 - i)) [0..<8]"

definition bits_of :: "u8 list \<Rightarrow> bool list" where
  "bits_of bs = concat (map byte_bits bs)"

text \<open>The low \<open>w\<close> bits of a value, most significant first, and the value of such a sequence.\<close>

definition to_bits :: "nat \<Rightarrow> u64 \<Rightarrow> bool list" where
  "to_bits w v = map (\<lambda>i. bit v (w - 1 - i)) [0..<w]"

definition of_bits :: "bool list \<Rightarrow> u64" where
  "of_bits bs = fold (\<lambda>b v. push_bit 1 v OR of_bool b) bs 0"

lemma length_byte_bits [simp]: "length (byte_bits b) = 8"
  by (simp add: byte_bits_def)

lemma nth_byte_bits: "i < 8 \<Longrightarrow> byte_bits b ! i = bit b (7 - i)"
  by (simp add: byte_bits_def)

lemma bits_of_Nil [simp]: "bits_of [] = []"
  by (simp add: bits_of_def)

lemma bits_of_Cons [simp]: "bits_of (b # bs) = byte_bits b @ bits_of bs"
  by (simp add: bits_of_def)

lemma bits_of_append [simp]: "bits_of (as @ bs) = bits_of as @ bits_of bs"
  by (simp add: bits_of_def)

lemma length_bits_of [simp]: "length (bits_of bs) = 8 * length bs"
  by (induction bs) simp_all

lemma nth_bits_of:
  "i < 8 * length bs \<Longrightarrow> bits_of bs ! i = bit (bs ! (i div 8)) (7 - i mod 8)"
proof (induction bs arbitrary: i)
  case Nil
  then show ?case by simp
next
  case (Cons b bs)
  show ?case
  proof (cases "i < 8")
    case True
    then show ?thesis by (simp add: nth_append nth_byte_bits)
  next
    case False
    then obtain j where j: "i = 8 + j"
      using le_Suc_ex not_less by blast
    with Cons.prems have "bits_of bs ! j = bit (bs ! (j div 8)) (7 - j mod 8)"
      by (intro Cons.IH) simp
    moreover have "(8 + j) div 8 = Suc (j div 8)"
      by simp
    ultimately show ?thesis
      using j by (simp add: nth_append del: div_add_self1)
  qed
qed

lemma byte_bits_inject: "byte_bits a = byte_bits b \<Longrightarrow> a = b"
proof (rule bit_word_eqI)
  fix n
  assume eq: "byte_bits a = byte_bits b" and "n < LENGTH(8)"
  then have "byte_bits a ! (7 - n) = byte_bits b ! (7 - n)" and "n < 8"
    by simp_all
  then show "bit a n = bit b n"
    by (simp add: nth_byte_bits)
qed

lemma bits_of_inject: "bits_of as = bits_of bs \<Longrightarrow> as = bs"
proof (induction as arbitrary: bs)
  case Nil
  then show ?case by (cases bs) (auto dest: arg_cong [where f = length])
next
  case (Cons a as)
  then obtain b bs' where bs: "bs = b # bs'"
    by (cases bs) (auto dest: arg_cong [where f = length])
  with Cons.prems have "byte_bits a = byte_bits b \<and> bits_of as = bits_of bs'"
    by (simp add: append_eq_append_conv)
  with Cons.IH bs show ?case
    by (auto dest: byte_bits_inject)
qed

lemma byte_bits_zero [simp]: "byte_bits 0 = replicate 8 False"
  by (rule nth_equalityI) (simp_all add: nth_byte_bits)

lemma bits_of_replicate_zero [simp]: "bits_of (replicate n 0) = replicate (8 * n) False"
proof (induction n)
  case 0
  then show ?case by simp
next
  case (Suc n)
  then show ?case by (simp only: replicate_Suc bits_of_Cons byte_bits_zero
        replicate_add [symmetric] mult_Suc_right)
qed

lemma take_bits_of: "take (8 * n) (bits_of bs) = bits_of (take n bs)"
proof (cases "n \<le> length bs")
  case True
  have "bits_of bs = bits_of (take n bs) @ bits_of (drop n bs)"
    by (metis append_take_drop_id bits_of_append)
  with True show ?thesis by simp
next
  case False
  then show ?thesis by simp
qed

lemma drop_bits_of: "drop (8 * n) (bits_of bs) = bits_of (drop n bs)"
proof (cases "n \<le> length bs")
  case True
  have "bits_of bs = bits_of (take n bs) @ bits_of (drop n bs)"
    by (metis append_take_drop_id bits_of_append)
  with True show ?thesis by simp
next
  case False
  then show ?thesis by simp
qed

lemma length_to_bits [simp]: "length (to_bits w v) = w"
  by (simp add: to_bits_def)

lemma nth_to_bits: "i < w \<Longrightarrow> to_bits w v ! i = bit v (w - 1 - i)"
  by (simp add: to_bits_def)

lemma to_bits_zero [simp]: "to_bits 0 v = []"
  by (simp add: to_bits_def)

lemma to_bits_Suc: "to_bits (Suc w) v = bit v w # to_bits w v"
proof -
  have "map (\<lambda>i. bit v (w - i)) [0..<Suc w] = bit v w # map (\<lambda>i. bit v (w - Suc i)) [0..<w]"
    by (rule nth_equalityI) (auto simp: nth_Cons simp del: upt_Suc split: nat.split)
  then show ?thesis by (simp add: to_bits_def)
qed

lemma of_bits_snoc: "of_bits (bs @ [b]) = push_bit 1 (of_bits bs) OR of_bool b"
  by (simp add: of_bits_def)

lemma of_bits_Nil [simp]: "of_bits [] = 0"
  by (simp add: of_bits_def)

lemma bit_shift_in:
  "bit (push_bit 1 (v::u64) OR of_bool b) n \<longleftrightarrow> n < 64 \<and> (if n = 0 then b else bit v (n - 1))"
  by (simp only: bit_or_iff bit_push_bit_iff bit_of_bool_iff) (auto simp: not_less_eq_eq)

lemma bit_of_bits: "bit (of_bits bs) n \<longleftrightarrow> n < 64 \<and> n < length bs \<and> bs ! (length bs - 1 - n)"
proof (induction bs arbitrary: n rule: rev_induct)
  case Nil
  then show ?case by simp
next
  case (snoc b bs)
  show ?case
  proof (cases n)
    case 0
    then show ?thesis by (simp only: of_bits_snoc bit_shift_in) simp
  next
    case (Suc m)
    have "bit (of_bits (bs @ [b])) n \<longleftrightarrow> n < 64 \<and> bit (of_bits bs) m"
      using Suc by (simp only: of_bits_snoc bit_shift_in) simp
    also have "\<dots> \<longleftrightarrow> n < 64 \<and> m < length bs \<and> bs ! (length bs - 1 - m)"
      unfolding snoc using Suc by auto
    finally show ?thesis
      using Suc by (cases "m < length bs") (auto simp: nth_append)
  qed
qed

lemma of_to_bits: "w \<le> 64 \<Longrightarrow> of_bits (to_bits w v) = take_bit w v"
  by (rule bit_word_eqI)
     (auto simp: bit_of_bits to_bits_def bit_take_bit_iff dest: bit_imp_le_length)


section \<open>What the writer leaves in the array\<close>

text \<open>
  \<open>bw_holds n S bw\<close>: the array has \<open>n\<close> bytes, the writer has written exactly the bits \<open>S\<close> and
  all bits after the write position are zero, as they are in a freshly cleared message.
\<close>

definition bw_holds :: "nat \<Rightarrow> bool list \<Rightarrow> bit_writer \<Rightarrow> bool" where
  "bw_holds n S bw \<longleftrightarrow> length (bw_dst bw) = n \<and> bw_bit bw = length S \<and> length S \<le> 8 * n \<and>
     bits_of (bw_dst bw) = S @ replicate (8 * n - length S) False \<and> \<not> bw_fail bw"

lemma bw_holds_new: "bw_holds n [] (bw_new (replicate n 0))"
  by (simp add: bw_holds_def bw_new_def)

lemma byte_bits_or_bit:
  "j < 8 \<Longrightarrow> byte_bits (b OR 2 ^ (7 - j)) = (byte_bits b)[j := True]"
  by (rule nth_equalityI)
     (auto simp: nth_byte_bits nth_list_update bit_simps)

lemma bits_of_update:
  "k < length d \<Longrightarrow> j < 8 \<Longrightarrow> byte_bits c = (byte_bits (d ! k))[j := v] \<Longrightarrow>
   bits_of (d[k := c]) = (bits_of d)[8 * k + j := v]"
proof (induction d arbitrary: k)
  case Nil
  then show ?case by simp
next
  case (Cons b d)
  then show ?case
    by (cases k) (simp_all add: list_update_append)
qed

lemma bw_put_bit_holds:
  assumes "bw_holds n S bw" and "length S < 8 * n"
  shows "bw_holds n (S @ [b]) (bw_put_bit b bw)"
proof -
  let ?k = "length S" and ?d = "bw_dst bw"
  from assms have len: "length ?d = n" and pos: "bw_bit bw = ?k"
    and bits: "bits_of ?d = S @ replicate (8 * n - ?k) False"
    by (simp_all add: bw_holds_def)
  have kn: "?k div 8 < length ?d"
    using assms(2) len by simp
  have rest: "replicate (8 * n - ?k) False = False # replicate (8 * n - Suc ?k) False"
    using assms(2) by (metis Suc_diff_Suc replicate_Suc)
  have "bits_of (?d[?k div 8 := ?d ! (?k div 8) OR push_bit (7 - ?k mod 8) 1])
      = (bits_of ?d)[8 * (?k div 8) + ?k mod 8 := True]"
    by (rule bits_of_update) (simp_all add: kn byte_bits_or_bit)
  also have "\<dots> = S @ True # replicate (8 * n - Suc ?k) False"
    using bits rest by (simp add: list_update_append)
  finally show ?thesis
    using assms bits rest len pos by (auto simp: bw_holds_def bw_put_bit_def Let_def)
qed

lemma bw_put_holds:
  assumes "bw_holds n S bw" and "length S + w \<le> 8 * n"
  shows "bw_holds n (S @ to_bits w v) (bw_put v w bw)"
proof -
  have step: "j \<le> w \<Longrightarrow>
      bw_holds n (S @ map (\<lambda>i. bit v (w - 1 - i)) [0..<j])
        (fold (\<lambda>i. bw_put_bit (drop_bit (w - 1 - i) v AND 1 \<noteq> 0)) [0..<j] bw)" for j
  proof (induction j)
    case 0
    then show ?case using assms(1) by simp
  next
    case (Suc j)
    then have "bw_holds n (S @ map (\<lambda>i. bit v (w - 1 - i)) [0..<j])
        (fold (\<lambda>i. bw_put_bit (drop_bit (w - 1 - i) v AND 1 \<noteq> 0)) [0..<j] bw)"
      by simp
    then have "bw_holds n ((S @ map (\<lambda>i. bit v (w - 1 - i)) [0..<j]) @ [bit v (w - 1 - j)])
        (bw_put_bit (bit v (w - 1 - j))
          (fold (\<lambda>i. bw_put_bit (drop_bit (w - 1 - i) v AND 1 \<noteq> 0)) [0..<j] bw))"
      by (rule bw_put_bit_holds) (use Suc.prems assms(2) in simp)
    then show ?case
      by (simp add: drop_bit_and_one)
  qed
  from step [of w] show ?thesis
    by (simp add: bw_put_def to_bits_def)
qed

lemma bw_skip_holds:
  assumes "bw_holds n S bw" and "length S + w \<le> 8 * n"
  shows "bw_holds n (S @ replicate w False) (bw_skip w bw)"
proof -
  have "replicate (8 * n - length S) False
      = replicate w False @ replicate (8 * n - (length S + w)) False"
    using assms(2) by (simp add: replicate_add [symmetric])
  with assms show ?thesis
    by (simp add: bw_holds_def bw_skip_def)
qed

lemma bw_put_bytes_msb_first_holds:
  assumes "bw_holds n S bw" and "length S + 8 * k \<le> 8 * n" and "8 dvd length S"
    and "k \<le> length src"
  shows "bw_holds n (S @ bits_of (rev (take k src))) (bw_put_bytes_msb_first src k bw)"
proof -
  let ?d = "bw_dst bw" and ?m = "length S div 8"
  from assms(3) have m: "8 * ?m = length S"
    by simp
  from assms(1) have len: "length ?d = n" and pos: "bw_bit bw = length S"
    and bits: "bits_of ?d = S @ replicate (8 * n - length S) False"
    by (simp_all add: bw_holds_def)
  have fit: "?m + k \<le> length ?d"
    using assms(2) m len by simp
  have seg: "fold (\<lambda>i d. d[?m + i := src ! (k - 1 - i)]) [0..<k] ?d
      = take ?m ?d @ rev (take k src) @ drop (?m + k) ?d"
    using fold_update_segment [OF fit, of "\<lambda>i. src ! (k - 1 - i)"] map_nth_rev_take [OF assms(4)]
    by simp
  have "bits_of (take ?m ?d) = S"
    using take_bits_of [of ?m ?d] m bits by simp
  moreover have "bits_of (drop (?m + k) ?d) = replicate (8 * n - (length S + 8 * k)) False"
    using drop_bits_of [of "?m + k" ?d] m bits by (simp add: distrib_left)
  ultimately show ?thesis
    using assms seg len pos fit
    by (auto simp add: bw_holds_def bw_put_bytes_msb_first_def Let_def dvd_eq_mod_eq_0)
qed

lemma bw_put_bytes_holds:
  assumes "bw_holds n S bw" and "length S + 8 * k \<le> 8 * n" and "8 dvd length S"
    and "k \<le> length src"
  shows "bw_holds n (S @ bits_of (take k src)) (bw_put_bytes src k bw)"
proof -
  have "bw_put_bytes src k bw = bw_put_bytes_msb_first (rev (take k src)) k bw"
  proof -
    have "fold (\<lambda>i d. d[b + i := src ! i]) [0..<k] d
        = fold (\<lambda>i d. d[b + i := rev (take k src) ! (k - 1 - i)]) [0..<k] d" for b d
      by (rule fold_cong) (use assms(4) in \<open>auto simp: rev_nth\<close>)
    then show ?thesis
      by (simp add: bw_put_bytes_def bw_put_bytes_msb_first_def Let_def)
  qed
  with bw_put_bytes_msb_first_holds [OF assms(1-3), of "rev (take k src)"] assms(4)
  show ?thesis by simp
qed

lemma bw_holds_bits: "bw_holds n S bw \<Longrightarrow> bw_bits bw = length S"
  by (simp add: bw_holds_def bw_bits_def)

lemmas bw_holds_intros = bw_holds_new bw_put_holds bw_skip_holds bw_put_bytes_msb_first_holds

section \<open>What the reader returns\<close>

lemma and_two_power: "((x::u8) AND 2 ^ j = 0) = (\<not> (j < 8 \<and> bit x j))"
proof -
  have "(x AND 2 ^ j = 0) = (\<forall>n. \<not> bit (x AND 2 ^ j) n)"
    by (metis bit_0_eq bit_eqI bot_apply bot_bool_def)
  also have "\<dots> = (\<not> (j < 8 \<and> bit x j))"
    by (auto simp: bit_simps)
  finally show ?thesis .
qed

lemma shift_in_simps:
  "push_bit 1 (v::u64) OR of_bool True = v * 2 OR 1"
  "push_bit 1 (v::u64) OR of_bool False = v * 2"
  by simp_all

lemma br_get_eq:
  assumes "br_bit br + w \<le> 8 * length (br_src br)"
  shows "br_get w br =
    (of_bits (take w (drop (br_bit br) (bits_of (br_src br)))), br\<lparr>br_bit := br_bit br + w\<rparr>)"
  using assms
proof (induction w)
  case 0
  then show ?case by (simp add: br_get_def)
next
  case (Suc w)
  let ?k = "br_bit br" and ?s = "bits_of (br_src br)"
  have in_range: "?k + w < length ?s"
    using Suc.prems by simp
  have "br_get (Suc w) br = br_get_bit w (br_get w br)"
    by (simp add: br_get_def)
  also have "br_get w br = (of_bits (take w (drop ?k ?s)), br\<lparr>br_bit := ?k + w\<rparr>)"
    using Suc by simp
  also have "br_get_bit w \<dots> = (of_bits (take w (drop ?k ?s) @ [?s ! (?k + w)]),
      br\<lparr>br_bit := Suc (?k + w)\<rparr>)"
    using in_range by (simp add: br_get_bit_def Let_def nth_bits_of of_bits_snoc and_two_power)
  also have "take w (drop ?k ?s) @ [?s ! (?k + w)] = take (Suc w) (drop ?k ?s)"
    using in_range by (simp add: take_Suc_conv_app_nth)
  finally show ?case by simp
qed

lemma br_get_bytes_msb_first_eq:
  assumes "br_bit br + 8 * n \<le> 8 * length (br_src br)" and "8 dvd br_bit br" and "length dst = n"
  shows "br_get_bytes_msb_first n br dst =
    (rev (take n (drop (br_bit br div 8) (br_src br))), br\<lparr>br_bit := br_bit br + 8 * n\<rparr>)"
proof -
  let ?b = "br_bit br div 8"
  have fit: "?b + n \<le> length (br_src br)"
    using assms(1,2) by auto
  have upd: "j \<le> n \<Longrightarrow> fold (\<lambda>i d. d[n - 1 - i := br_src br ! (?b + i)]) [0..<j] dst
      = take (n - j) dst @ rev (take j (drop ?b (br_src br)))" for j
  proof (induction j)
    case 0
    then show ?case using assms(3) by simp
  next
    case (Suc j)
    have "n - j = Suc (n - Suc j)" and "n - Suc j < length dst"
      using Suc.prems assms(3) by simp_all
    then have "take (n - j) dst = take (n - Suc j) dst @ [dst ! (n - Suc j)]"
      by (simp add: take_Suc_conv_app_nth)
    moreover have "take (Suc j) (drop ?b (br_src br))
        = take j (drop ?b (br_src br)) @ [br_src br ! (?b + j)]"
      using Suc.prems fit by (simp add: take_Suc_conv_app_nth)
    ultimately show ?case
      using Suc assms(3) by (simp add: list_update_append)
  qed
  show ?thesis
    using upd [of n] assms(2) by (simp add: br_get_bytes_msb_first_def Let_def dvd_eq_mod_eq_0 mult.commute)
qed

end
