(* ===== verification/Aou_Types.thy ===== *)
theory Aou_Types
  imports Bit_Stream
begin

text \<open>
  The data model of the bridge, from components/axi2flit/systemc/include/aou_types.h: the frame
  geometry, the message types with their granule lengths, the message and flit structures, and
  the operations that write a message or a fragment of it into a flit.

  The fixed-size arrays \<open>data\<close> and \<open>payload\<close> are lists; \<open>msg_ok\<close> and \<open>flit_ok\<close> state their
  lengths and the ranges of the C++ integers, and every operation keeps them.
\<close>

section \<open>Constants\<close>

definition FLIT_TOTAL_BYTES :: nat where "FLIT_TOTAL_BYTES = 256"
definition FLIT_LINK_OVERHEAD :: nat where "FLIT_LINK_OVERHEAD = 6"
definition PROTO_HEADER_BYTES :: nat where "PROTO_HEADER_BYTES = 10"
definition PAYLOAD_BYTES :: nat where "PAYLOAD_BYTES = 240"
definition GRANULE_BYTES :: int where "GRANULE_BYTES = 5"
definition GRANULE_COUNT :: int where "GRANULE_COUNT = 48"
definition MAX_RESOURCE_PLANES :: nat where "MAX_RESOURCE_PLANES = 4"
definition DEFAULT_RESOURCE_PLANES :: nat where "DEFAULT_RESOURCE_PLANES = 1"
definition FIFO_MARGIN_ENTRIES :: nat where "FIFO_MARGIN_ENTRIES = 4"
definition MSG_MAX_BYTES :: int where "MSG_MAX_BYTES = GRANULE_COUNT * GRANULE_BYTES"

lemmas aou_consts [const_simps] =
  FLIT_TOTAL_BYTES_def FLIT_LINK_OVERHEAD_def PROTO_HEADER_BYTES_def PAYLOAD_BYTES_def
  GRANULE_BYTES_def GRANULE_COUNT_def MAX_RESOURCE_PLANES_def DEFAULT_RESOURCE_PLANES_def
  FIFO_MARGIN_ENTRIES_def MSG_MAX_BYTES_def

section \<open>Message types and lengths\<close>

text \<open>
  A C++ scoped enumeration can hold values without an enumerator: a four-bit type code read from
  the wire may be 7 to 14 (\<open>UnnamedType\<close>) and a two-bit length code may be 3 (\<open>UnnamedLength\<close>).
\<close>

datatype MsgType =
    Misc
  | WriteReq
  | ReadReq
  | WriteData
  | ReadData
  | WriteResp
  | WriteDataFull
  | Reserved
  | UnnamedType u8

datatype DataLength = B256 | B512 | B1024 | UnnamedLength u8

fun msg_type_code :: "MsgType \<Rightarrow> u8" where
  "msg_type_code Misc = 0"
| "msg_type_code WriteReq = 1"
| "msg_type_code ReadReq = 2"
| "msg_type_code WriteData = 3"
| "msg_type_code ReadData = 4"
| "msg_type_code WriteResp = 5"
| "msg_type_code WriteDataFull = 6"
| "msg_type_code Reserved = 15"
| "msg_type_code (UnnamedType c) = c"

definition msg_type_of_code :: "u8 \<Rightarrow> MsgType" where
  "msg_type_of_code c =
     (if c = 0 then Misc else if c = 1 then WriteReq else if c = 2 then ReadReq
      else if c = 3 then WriteData else if c = 4 then ReadData else if c = 5 then WriteResp
      else if c = 6 then WriteDataFull else if c = 15 then Reserved else UnnamedType c)"

fun dlength_code :: "DataLength \<Rightarrow> u8" where
  "dlength_code B256 = 0"
| "dlength_code B512 = 1"
| "dlength_code B1024 = 2"
| "dlength_code (UnnamedLength c) = c"

definition dlength_of_code :: "u8 \<Rightarrow> DataLength" where
  "dlength_of_code c =
     (if c = 0 then B256 else if c = 1 then B512 else if c = 2 then B1024 else UnnamedLength c)"

definition MISCOP_CRDT_GRANT :: u8 where "MISCOP_CRDT_GRANT = 4"
definition MISCOP_ACTIVATION :: u8 where "MISCOP_ACTIVATION = 0"

fun dlength_to_bytes :: "DataLength \<Rightarrow> nat" where
  "dlength_to_bytes B256 = 32"
| "dlength_to_bytes B512 = 64"
| "dlength_to_bytes B1024 = 128"
| "dlength_to_bytes _ = 32"

definition WREQ_GRANULES :: int where "WREQ_GRANULES = 3"
definition RREQ_GRANULES :: int where "RREQ_GRANULES = 3"
definition WRESP_GRANULES :: int where "WRESP_GRANULES = 1"
definition MISC_ACTIVATION_GRANULES :: int where "MISC_ACTIVATION_GRANULES = 1"
definition MISC_CRDTGRANT_GRANULES :: int where "MISC_CRDTGRANT_GRANULES = 2"

lemmas granule_consts [const_simps] =
  WREQ_GRANULES_def RREQ_GRANULES_def WRESP_GRANULES_def MISC_ACTIVATION_GRANULES_def
  MISC_CRDTGRANT_GRANULES_def MISCOP_CRDT_GRANT_def MISCOP_ACTIVATION_def

fun wdata_granules :: "DataLength \<Rightarrow> int" where
  "wdata_granules B256 = 8"
| "wdata_granules B512 = 15"
| "wdata_granules B1024 = 30"
| "wdata_granules _ = 8"

fun wdatafull_granules :: "DataLength \<Rightarrow> int" where
  "wdatafull_granules B256 = 7"
| "wdatafull_granules B512 = 14"
| "wdatafull_granules B1024 = 27"
| "wdatafull_granules _ = 7"

fun rdata_granules :: "DataLength \<Rightarrow> int" where
  "rdata_granules B256 = 8"
| "rdata_granules B512 = 14"
| "rdata_granules B1024 = 27"
| "rdata_granules _ = 8"

definition msg_type_of :: "u8 \<Rightarrow> MsgType" where
  "msg_type_of b0 = msg_type_of_code (drop_bit 4 b0 AND 15)"

definition msg_rp_of :: "u8 \<Rightarrow> u8" where
  "msg_rp_of b0 = drop_bit 2 b0 AND 3"

definition msg_dlength_of :: "u8 \<Rightarrow> DataLength" where
  "msg_dlength_of b0 = dlength_of_code (b0 AND 3)"

definition misc_op_of :: "u8 \<Rightarrow> u8" where
  "misc_op_of b0 = drop_bit 1 b0 AND 7"

definition message_granules_from_header :: "u8 \<Rightarrow> int" where
  "message_granules_from_header b0 =
     (if (msg_type_of b0 = WriteData \<or> msg_type_of b0 = WriteDataFull \<or> msg_type_of b0 = ReadData)
         \<and> b0 AND 3 = 3 then 0
      else case msg_type_of b0 of
             WriteReq \<Rightarrow> WREQ_GRANULES
           | ReadReq \<Rightarrow> RREQ_GRANULES
           | WriteResp \<Rightarrow> WRESP_GRANULES
           | WriteData \<Rightarrow> wdata_granules (msg_dlength_of b0)
           | WriteDataFull \<Rightarrow> wdatafull_granules (msg_dlength_of b0)
           | ReadData \<Rightarrow> rdata_granules (msg_dlength_of b0)
           | Misc \<Rightarrow> (if misc_op_of b0 = MISCOP_CRDT_GRANT then MISC_CRDTGRANT_GRANULES
                      else if misc_op_of b0 = MISCOP_ACTIVATION then MISC_ACTIVATION_GRANULES
                      else 0)
           | _ \<Rightarrow> 0)"

section \<open>Configuration-dependent sizes\<close>

text \<open>
  The sources are compiled for one AXI data width; the model is the shipped default of 256 bits.
  The depth formulas use \<open>double\<close> constants with exact values for the default link
  (16 lanes, 24 GT/s, one bit per symbol, 40 ns turn-around); they are computed here in rationals.
\<close>

definition AXI_DATA_WIDTH_CFG :: nat where "AXI_DATA_WIDTH_CFG = 256"

definition CFG_DLENGTH :: DataLength where
  "CFG_DLENGTH = (if AXI_DATA_WIDTH_CFG = 256 then B256
                  else if AXI_DATA_WIDTH_CFG = 512 then B512 else B1024)"

definition CFG_RDATA_GRANULES :: int where "CFG_RDATA_GRANULES = rdata_granules CFG_DLENGTH"
definition CFG_WDATA_GRANULES :: int where "CFG_WDATA_GRANULES = wdata_granules CFG_DLENGTH"
definition CFG_WDATAFULL_GRANULES :: int where
  "CFG_WDATAFULL_GRANULES = wdatafull_granules CFG_DLENGTH"
definition CFG_DATA_BYTES :: nat where "CFG_DATA_BYTES = dlength_to_bytes CFG_DLENGTH"

definition LINK_LANES :: nat where "LINK_LANES = 16"
definition LINK_BITS_PER_SYMBOL :: nat where "LINK_BITS_PER_SYMBOL = 1"
definition LINK_RATE_GTPS :: rat where "LINK_RATE_GTPS = 24"
definition LINK_TAT_NS :: rat where "LINK_TAT_NS = 40"
definition LINK_BYTES_PER_NS :: rat where
  "LINK_BYTES_PER_NS = of_nat LINK_LANES * LINK_RATE_GTPS * of_nat LINK_BITS_PER_SYMBOL / 8"
definition FLIT_PERIOD_NS :: rat where
  "FLIT_PERIOD_NS = of_nat FLIT_TOTAL_BYTES / LINK_BYTES_PER_NS"
definition CREDIT_RETURN_OVERHEAD_FLITS :: rat where "CREDIT_RETURN_OVERHEAD_FLITS = 3"
definition CREDIT_LOOP_NS :: rat where
  "CREDIT_LOOP_NS = LINK_TAT_NS + CREDIT_RETURN_OVERHEAD_FLITS * FLIT_PERIOD_NS"

definition message_wire_bytes :: "int \<Rightarrow> rat" where
  "message_wire_bytes granules =
     of_int granules * of_int GRANULE_BYTES * of_nat FLIT_TOTAL_BYTES / of_nat PAYLOAD_BYTES"

definition messages_in_flight :: "int \<Rightarrow> nat" where
  "messages_in_flight granules =
     nat \<lfloor>CREDIT_LOOP_NS * LINK_BYTES_PER_NS / message_wire_bytes granules\<rfloor> + 1"

definition MODEL_CLK_PERIOD_NS :: rat where "MODEL_CLK_PERIOD_NS = 2"
definition CREDIT_LOOP_CYCLES :: nat where
  "CREDIT_LOOP_CYCLES = nat \<lfloor>CREDIT_LOOP_NS / MODEL_CLK_PERIOD_NS\<rfloor>"

definition RX_RDATA_FIFO_DEPTH_PER_RP :: nat where
  "RX_RDATA_FIFO_DEPTH_PER_RP = messages_in_flight CFG_RDATA_GRANULES + FIFO_MARGIN_ENTRIES"
definition RX_WRESP_FIFO_DEPTH_PER_RP :: nat where
  "RX_WRESP_FIFO_DEPTH_PER_RP = CREDIT_LOOP_CYCLES + FIFO_MARGIN_ENTRIES"
definition RX_RDATA_CREDITS_PER_RP :: nat where
  "RX_RDATA_CREDITS_PER_RP = RX_RDATA_FIFO_DEPTH_PER_RP * nat CFG_RDATA_GRANULES"
definition RX_WRESP_CREDITS_PER_RP :: nat where
  "RX_WRESP_CREDITS_PER_RP = RX_WRESP_FIFO_DEPTH_PER_RP * nat WRESP_GRANULES"
definition TX_REQ_FIFO_DEPTH_PER_RP :: nat where "TX_REQ_FIFO_DEPTH_PER_RP = 16"
definition TX_WDATA_FIFO_DEPTH_PER_RP :: nat where "TX_WDATA_FIFO_DEPTH_PER_RP = 16"

section \<open>Messages and flits\<close>

record AouMessage =
  msg_type :: MsgType
  msg_rp :: u8
  msg_granules :: int
  msg_byte_len :: int
  msg_data :: "u8 list"
  msg_axi_id :: u32
  msg_axi_addr :: u64

definition AouMessage_init :: AouMessage where
  "AouMessage_init = \<lparr>msg_type = Misc, msg_rp = 0, msg_granules = 0, msg_byte_len = 0,
     msg_data = replicate (nat MSG_MAX_BYTES) 0, msg_axi_id = 0, msg_axi_addr = 0\<rparr>"

record AouFlit =
  flit_fdid :: u8
  flit_msg_start :: u64
  flit_msg_credit :: u16
  flit_payload :: "u8 list"
  flit_used_granules :: int
  flit_valid :: bool

definition AouFlit_init :: AouFlit where
  "AouFlit_init = \<lparr>flit_fdid = 0, flit_msg_start = 0, flit_msg_credit = 0,
     flit_payload = replicate PAYLOAD_BYTES 0, flit_used_granules = 0, flit_valid = False\<rparr>"

definition pack_fragment :: "AouFlit \<Rightarrow> AouMessage \<Rightarrow> int \<Rightarrow> int \<times> AouFlit" where
  "pack_fragment f msg granule_offset =
     (if msg_granules msg \<le> 0 \<or> granule_offset < 0 \<or> granule_offset \<ge> msg_granules msg then (0, f)
      else
        let remain_msg = msg_granules msg - granule_offset;
            remain_flit = GRANULE_COUNT - flit_used_granules f;
            taken = min remain_msg remain_flit
        in if taken \<le> 0 then (0, f)
           else
             let start = (if granule_offset = 0
                          then flit_msg_start f OR push_bit (nat (flit_used_granules f)) 1
                          else flit_msg_start f);
                 dst = nat (flit_used_granules f * GRANULE_BYTES);
                 src = nat (granule_offset * GRANULE_BYTES)
             in (taken,
                 f\<lparr>flit_msg_start := start,
                   flit_payload := fold (\<lambda>i p. p[dst + i :=
                        (if int (src + i) < msg_byte_len msg then msg_data msg ! (src + i) else 0)])
                      [0..<nat (taken * GRANULE_BYTES)] (flit_payload f),
                   flit_used_granules := flit_used_granules f + taken,
                   flit_valid := True\<rparr>))"

definition pack_message :: "AouFlit \<Rightarrow> AouMessage \<Rightarrow> bool \<times> AouFlit" where
  "pack_message f msg =
     (if msg_granules msg \<le> 0 \<or> msg_byte_len msg < 0
         \<or> msg_byte_len msg > msg_granules msg * GRANULE_BYTES
         \<or> msg_byte_len msg > MSG_MAX_BYTES
         \<or> flit_used_granules f + msg_granules msg > GRANULE_COUNT then (False, f)
      else let (taken, f') = pack_fragment f msg 0 in (taken = msg_granules msg, f'))"

definition remaining_granules :: "AouFlit \<Rightarrow> int" where
  "remaining_granules f = GRANULE_COUNT - flit_used_granules f"

definition flit_clear :: "AouFlit \<Rightarrow> AouFlit" where
  "flit_clear f = f\<lparr>flit_fdid := 0, flit_msg_start := 0, flit_msg_credit := 0,
     flit_used_granules := 0, flit_valid := False,
     flit_payload := map (\<lambda>_. 0) (flit_payload f)\<rparr>"

record FlitTransfer =
  ft_valid :: bool
  ft_flit :: AouFlit

definition FlitTransfer_none :: FlitTransfer where
  "FlitTransfer_none = \<lparr>ft_valid = False, ft_flit = AouFlit_init\<rparr>"

definition FlitTransfer_of :: "AouFlit \<Rightarrow> FlitTransfer" where
  "FlitTransfer_of f = \<lparr>ft_valid = True, ft_flit = f\<rparr>"


text \<open>
  The comparison operators that \<open>sc_signal\<close> uses to detect a change, field by field as the sources
  write them.
\<close>

definition AouMessage_eq :: "AouMessage \<Rightarrow> AouMessage \<Rightarrow> bool" where
  "AouMessage_eq a b \<longleftrightarrow> msg_type a = msg_type b \<and> msg_rp a = msg_rp b
     \<and> msg_granules a = msg_granules b \<and> msg_byte_len a = msg_byte_len b
     \<and> msg_axi_id a = msg_axi_id b \<and> msg_axi_addr a = msg_axi_addr b
     \<and> take (nat MSG_MAX_BYTES) (msg_data a) = take (nat MSG_MAX_BYTES) (msg_data b)"

definition FlitTransfer_eq :: "FlitTransfer \<Rightarrow> FlitTransfer \<Rightarrow> bool" where
  "FlitTransfer_eq a b \<longleftrightarrow>
     (if ft_valid a \<noteq> ft_valid b \<or> flit_fdid (ft_flit a) \<noteq> flit_fdid (ft_flit b)
         \<or> flit_msg_start (ft_flit a) \<noteq> flit_msg_start (ft_flit b)
         \<or> flit_msg_credit (ft_flit a) \<noteq> flit_msg_credit (ft_flit b)
         \<or> flit_used_granules (ft_flit a) \<noteq> flit_used_granules (ft_flit b)
         \<or> flit_valid (ft_flit a) \<noteq> flit_valid (ft_flit b) then False
      else take PAYLOAD_BYTES (flit_payload (ft_flit a)) = take PAYLOAD_BYTES (flit_payload (ft_flit b)))"

section \<open>Well-formedness\<close>

definition msg_ok :: "AouMessage \<Rightarrow> bool" where
  "msg_ok m \<longleftrightarrow> length (msg_data m) = 240 \<and> 0 < msg_granules m \<and> msg_granules m \<le> 48
     \<and> 0 \<le> msg_byte_len m \<and> msg_byte_len m \<le> 5 * msg_granules m"

definition flit_ok :: "AouFlit \<Rightarrow> bool" where
  "flit_ok f \<longleftrightarrow> length (flit_payload f) = 240
     \<and> 0 \<le> flit_used_granules f \<and> flit_used_granules f \<le> 48"

abbreviation gran :: "AouMessage \<Rightarrow> nat" where "gran m \<equiv> nat (msg_granules m)"
abbreviation used :: "AouFlit \<Rightarrow> nat" where "used f \<equiv> nat (flit_used_granules f)"

text \<open>
  The bytes a message puts on the wire: its data, with zeros past \<open>byte_len\<close>.
\<close>

definition wire_image :: "AouMessage \<Rightarrow> u8 list" where
  "wire_image m = map (\<lambda>i. if int i < msg_byte_len m then msg_data m ! i else 0) [0..<5 * gran m]"

lemma length_wire_image [simp]: "length (wire_image m) = 5 * gran m"
  by (simp add: wire_image_def)

lemma wire_image_full:
  "msg_ok m \<Longrightarrow> msg_byte_len m = 5 * msg_granules m \<Longrightarrow> wire_image m = take (5 * gran m) (msg_data m)"
  by (rule nth_equalityI) (auto simp: wire_image_def msg_ok_def nat_less_iff zless_nat_eq_int_zless)

lemma flit_ok_init [simp]: "flit_ok AouFlit_init"
  by (simp add: flit_ok_def AouFlit_init_def aou_consts)

lemma flit_ok_clear: "flit_ok f \<Longrightarrow> flit_ok (flit_clear f)"
  by (simp add: flit_ok_def flit_clear_def)

lemma flit_clear_eq: "flit_ok f \<Longrightarrow> flit_clear f = AouFlit_init"
  by (cases f) (simp add: flit_clear_def flit_ok_def AouFlit_init_def aou_consts map_replicate_const)

lemma pack_fragment_eq:
  assumes "flit_ok f" and "msg_ok m" and "0 \<le> off" and "off < msg_granules m"
    and "flit_used_granules f < 48"
    and t: "t = min (gran m - nat off) (48 - used f)"
  shows "pack_fragment f m off = (int t,
     f\<lparr>flit_msg_start := (if off = 0 then flit_msg_start f OR push_bit (used f) 1 else flit_msg_start f),
       flit_payload := take (5 * used f) (flit_payload f)
          @ take (5 * t) (drop (5 * nat off) (wire_image m)) @ drop (5 * used f + 5 * t) (flit_payload f),
       flit_used_granules := flit_used_granules f + int t, flit_valid := True\<rparr>)"
proof -
  from assms have ranges: "0 \<le> off" "off < msg_granules m" "0 \<le> flit_used_granules f"
      "flit_used_granules f < 48" "length (flit_payload f) = 240"
    by (simp_all add: flit_ok_def)
  then have "int (gran m - nat off) = msg_granules m - off"
      "int (48 - used f) = 48 - flit_used_granules f"
    by linarith+
  then have ti: "min (msg_granules m - off) (48 - flit_used_granules f) = int t"
    by (simp add: t of_nat_min)
  have tpos: "0 < t" and tle: "t \<le> gran m - nat off" "t \<le> 48 - used f"
    using ranges by (simp_all add: t)
  have dst: "nat (flit_used_granules f * 5) = 5 * used f" and src: "nat (off * 5) = 5 * nat off"
    using ranges by (simp_all add: nat_mult_distrib)
  have n: "nat (int t * 5) = 5 * t"
    by (simp add: nat_mult_distrib)
  have fit: "5 * used f + 5 * t \<le> length (flit_payload f)"
    using ranges tle by simp
  have img: "map (\<lambda>i. if int (5 * nat off + i) < msg_byte_len m then msg_data m ! (5 * nat off + i) else 0) [0..<5 * t]
      = take (5 * t) (drop (5 * nat off) (wire_image m))"
    using tle by (intro nth_equalityI) (auto simp: wire_image_def)
  have "fold (\<lambda>i p. p[5 * used f + i := (if int (5 * nat off + i) < msg_byte_len m
            then msg_data m ! (5 * nat off + i) else 0)]) [0..<5 * t] (flit_payload f)
      = take (5 * used f) (flit_payload f) @ take (5 * t) (drop (5 * nat off) (wire_image m))
          @ drop (5 * used f + 5 * t) (flit_payload f)"
    unfolding img [symmetric] by (rule fold_update_segment [OF fit])
  then show ?thesis
    using ranges ti tpos by (simp add: pack_fragment_def aou_consts Let_def dst src n)
qed

lemma pack_fragment_none:
  "msg_granules m \<le> 0 \<or> off < 0 \<or> off \<ge> msg_granules m \<or> flit_used_granules f \<ge> 48 \<Longrightarrow>
   pack_fragment f m off = (0, f)"
  by (auto simp: pack_fragment_def aou_consts Let_def)

lemma pack_fragment_ok:
  assumes "flit_ok f" and "msg_ok m"
  shows "flit_ok (snd (pack_fragment f m off))"
proof (cases "0 \<le> off \<and> off < msg_granules m \<and> flit_used_granules f < 48")
  case True
  define t where "t = min (gran m - nat off) (48 - used f)"
  have t: "t \<le> 48 - used f" "t \<le> gran m - nat off"
    by (simp_all add: t_def)
  then have "min (5 * gran m - 5 * nat off) (5 * t) = 5 * t"
    by simp
  with t pack_fragment_eq [OF assms _ _ _ t_def] show ?thesis
    using True assms by (auto simp: flit_ok_def)
next
  case False
  then have "pack_fragment f m off = (0, f)"
    by (intro pack_fragment_none) auto
  with assms show ?thesis by simp
qed

lemma AouMessage_eq_iff:
  "length (msg_data a) = 240 \<Longrightarrow> length (msg_data b) = 240 \<Longrightarrow> AouMessage_eq a b \<longleftrightarrow> a = b"
  by (cases a; cases b) (auto simp: AouMessage_eq_def aou_consts)

lemma FlitTransfer_eq_iff:
  "length (flit_payload (ft_flit a)) = 240 \<Longrightarrow> length (flit_payload (ft_flit b)) = 240 \<Longrightarrow>
   FlitTransfer_eq a b \<longleftrightarrow> a = b"
  by (cases a; cases b; cases "ft_flit a"; cases "ft_flit b")
     (auto simp: FlitTransfer_eq_def aou_consts)

text \<open>The receive buffers, in messages and in granule credits, for the default link.\<close>

lemma rx_depths:
  "RX_RDATA_FIFO_DEPTH_PER_RP = 68" "RX_WRESP_FIFO_DEPTH_PER_RP = 32"
  "RX_RDATA_CREDITS_PER_RP = 544" "RX_WRESP_CREDITS_PER_RP = 32"
proof -
  have p: "CREDIT_LOOP_NS = 56" "LINK_BYTES_PER_NS = 48"
    by (simp_all add: CREDIT_LOOP_NS_def LINK_TAT_NS_def CREDIT_RETURN_OVERHEAD_FLITS_def
        FLIT_PERIOD_NS_def LINK_BYTES_PER_NS_def LINK_LANES_def LINK_RATE_GTPS_def
        LINK_BITS_PER_SYMBOL_def aou_consts)
  have g: "CFG_RDATA_GRANULES = 8"
    by (simp add: CFG_RDATA_GRANULES_def CFG_DLENGTH_def AXI_DATA_WIDTH_CFG_def)
  have "messages_in_flight 8 = 64"
    by (simp add: messages_in_flight_def p message_wire_bytes_def aou_consts)
  then show d: "RX_RDATA_FIFO_DEPTH_PER_RP = 68"
    by (simp add: RX_RDATA_FIFO_DEPTH_PER_RP_def g aou_consts)
  show w: "RX_WRESP_FIFO_DEPTH_PER_RP = 32"
    by (simp add: RX_WRESP_FIFO_DEPTH_PER_RP_def CREDIT_LOOP_CYCLES_def p MODEL_CLK_PERIOD_NS_def
        aou_consts)
  show "RX_RDATA_CREDITS_PER_RP = 544"
    by (simp add: RX_RDATA_CREDITS_PER_RP_def d g)
  show "RX_WRESP_CREDITS_PER_RP = 32"
    by (simp add: RX_WRESP_CREDITS_PER_RP_def w granule_consts)
qed

lemma message_granules_bounds:
  "0 \<le> message_granules_from_header b" "message_granules_from_header b \<le> 30"
  by (auto simp: message_granules_from_header_def granule_consts split: MsgType.splits
      elim!: wdata_granules.elims)
     (cases "msg_dlength_of b"; simp)+

end
