(* ===== verification/Aou_Wire.thy ===== *)
theory Aou_Wire
  imports Aou_Types
begin

text \<open>
  The 250-byte protocol content of a flit (components/axi2flit/systemc/include/aou_wire.h) and its
  placement in the 256-byte physical frame (common/interfaces/aou_format6.h).
\<close>

section \<open>Serialising a flit\<close>

text \<open>The ten header bytes, with the C++ conversions to \<open>uint8_t\<close> as \<open>ucast\<close>.\<close>

definition wire_header :: "AouFlit \<Rightarrow> u8 list" where
  "wire_header f =
     (let ms = flit_msg_start f; mc = flit_msg_credit f in
      [flit_fdid f OR ucast (push_bit 4 (ms AND 0xF)),
       ucast (drop_bit 4 ms AND 0xFF),
       ucast (push_bit 4 (drop_bit 12 ms AND 0xF)),
       ucast (drop_bit 16 ms AND 0xFF),
       ucast (mc AND 0xFF),
       ucast (drop_bit 8 mc),
       ucast (push_bit 4 (drop_bit 24 ms AND 0xF)),
       ucast (drop_bit 28 ms AND 0xFF),
       ucast (push_bit 4 (drop_bit 36 ms AND 0xF)),
       ucast (drop_bit 40 ms AND 0xFF)])"

definition serialize_aou :: "AouFlit \<Rightarrow> u8 list res" where
  "serialize_aou f =
     (if flit_fdid f > 3 \<or> drop_bit (nat GRANULE_COUNT) (flit_msg_start f) \<noteq> 0
      then Inl (InvalidArgument ''AoU FDId/MsgStart exceeds the wire field width'')
      else Inr (wire_header f @ take PAYLOAD_BYTES (flit_payload f)))"

definition wire_msg_start :: "u8 list \<Rightarrow> u64" where
  "wire_msg_start b =
     ucast (drop_bit 4 (b ! 0)) OR push_bit 4 (ucast (b ! 1)) OR
     push_bit 12 (ucast (drop_bit 4 (b ! 2))) OR push_bit 16 (ucast (b ! 3)) OR
     push_bit 24 (ucast (drop_bit 4 (b ! 6))) OR push_bit 28 (ucast (b ! 7)) OR
     push_bit 36 (ucast (drop_bit 4 (b ! 8))) OR push_bit 40 (ucast (b ! 9))"

definition deserialize_aou :: "u8 list \<Rightarrow> AouFlit res" where
  "deserialize_aou b =
     (if b ! 0 AND 0x0C \<noteq> 0 \<or> b ! 2 AND 0x0F \<noteq> 0 \<or> b ! 6 AND 0x0F \<noteq> 0 \<or> b ! 8 AND 0x0F \<noteq> 0
      then Inl (InvalidArgument ''AoU Protocol Header reserved bits not zero'')
      else Inr (AouFlit_init\<lparr>flit_fdid := b ! 0 AND 3,
             flit_msg_start := wire_msg_start b,
             flit_msg_credit := ucast (b ! 4) OR push_bit 8 (ucast (b ! 5)),
             flit_payload := take PAYLOAD_BYTES (drop PROTO_HEADER_BYTES b),
             flit_used_granules := -1,
             flit_valid := True\<rparr>))"

section \<open>Format 6 placement\<close>

definition ph_offsets :: "nat list" where
  "ph_offsets = [62, 63, 64, 65, 128, 129, 190, 191, 192, 193]"

definition copy_n :: "u8 list \<Rightarrow> nat \<Rightarrow> nat \<Rightarrow> nat \<Rightarrow> u8 list \<Rightarrow> u8 list" where
  "copy_n src from n to dst = fold (\<lambda>i d. d[to + i := src ! (from + i)]) [0..<n] dst"

definition scatter :: "u8 list \<Rightarrow> u8 list \<Rightarrow> u8 list \<Rightarrow> u8 list" where
  "scatter plp fh crc =
     (let frame = copy_n fh 0 2 0 (replicate 256 0);
          frame = fold (\<lambda>i d. d[ph_offsets ! i := plp ! i]) [0..<length ph_offsets] frame;
          frame = fold (\<lambda>block. copy_n plp (10 + block * 60) 60 (block * 64 + 2)) [0..<4] frame
      in frame[126 := crc ! 0, 127 := crc ! 1, 254 := crc ! 2, 255 := crc ! 3])"

definition gather :: "u8 list \<Rightarrow> u8 list" where
  "gather frame =
     (let plp = replicate 250 0;
          plp = fold (\<lambda>i d. d[i := frame ! (ph_offsets ! i)]) [0..<length ph_offsets] plp
      in fold (\<lambda>block. copy_n frame (block * 64 + 2) 60 (10 + block * 60)) [0..<4] plp)"

section \<open>Serialisation is lossless\<close>

lemma length_wire_header [simp]: "length (wire_header f) = 10"
  by (simp add: wire_header_def Let_def)

lemma word_mask_eqs:
  "(x::'a::len word) AND 0xF = take_bit 4 x" "x AND 0xFF = take_bit 8 x" "x AND 3 = take_bit 2 x"
  by (simp_all only: take_bit_eq_mask) (simp_all add: mask_eq_exp_minus_1)

lemma word_zero_iff_bits: "((x::'a::len word) = 0) = (\<forall>n<LENGTH('a). \<not> bit x n)"
  by (auto intro: bit_word_eqI)

lemma and_12_zero: "((x::u8) AND 12 = 0) = (\<not> bit x 2 \<and> \<not> bit x 3)"
proof -
  have mask: "(12::u8) = push_bit 2 (mask 2)"
    by (simp add: mask_eq_exp_minus_1)
  have "(x AND 12 = 0) = (\<forall>n<LENGTH(8). \<not> (bit x n \<and> 2 \<le> n \<and> n < 8 \<and> n - 2 < 2))"
    by (simp only: mask word_zero_iff_bits bit_and_iff bit_push_bit_iff bit_mask_iff) auto
  also have "\<dots> = (\<not> bit x 2 \<and> \<not> bit x 3)"
    by (auto simp: less_diff_conv2 le_Suc_eq numeral_eq_Suc less_Suc_eq)
  finally show ?thesis .
qed

lemma take_bit_zero_iff: "(take_bit k (x::'a::len word) = 0) = (\<forall>n<k. \<not> bit x n)"
  by (auto simp: word_zero_iff_bits bit_simps dest: bit_imp_le_length)

lemma drop_bit_zero_iff: "(drop_bit k (x::'a::len word) = 0) = (\<forall>n\<ge>k. \<not> bit x n)"
proof -
  have "(drop_bit k x = 0) = (\<forall>n<LENGTH('a). \<not> bit x (k + n))"
    by (simp add: word_zero_iff_bits bit_drop_bit_eq)
  also have "\<dots> = (\<forall>n\<ge>k. \<not> bit x n)"
  proof (intro iffI allI impI notI)
    fix n
    assume all: "\<forall>n<LENGTH('a). \<not> bit x (k + n)" and "k \<le> n" and b: "bit x n"
    then obtain m where m: "n = k + m"
      using le_Suc_ex by blast
    with b have "m < LENGTH('a)"
      using bit_imp_le_length [of x n] by simp
    with all b m show False by simp
  qed simp
  finally show ?thesis .
qed

lemma gt_3_iff: "((x::u8) > 3) = (drop_bit 2 x \<noteq> 0)"
proof -
  have "(drop_bit 2 x = 0) = (unat x div 4 = 0)"
    by (simp add: drop_bit_eq_div unat_eq_zero [symmetric] unat_div del: unat_eq_zero)
  also have "\<dots> = (unat x \<le> 3)"
    by linarith
  finally show ?thesis
    by (auto simp: word_less_nat_alt)
qed

lemmas bitw = bit_or_iff bit_and_iff bit_push_bit_iff bit_ucast_iff bit_drop_bit_eq bit_take_bit_iff

lemma u8_bit_high: "8 \<le> n \<Longrightarrow> \<not> bit (x::u8) n"
  using bit_imp_le_length [of x n] by auto

lemma bit_push_ucast:
  "bit (push_bit k (ucast (x::u8) :: u64)) n \<longleftrightarrow> k \<le> n \<and> n < 64 \<and> bit x (n - k)"
  by (simp only: bit_push_bit_iff bit_ucast_iff) auto

lemma bit_ucast_u8: "bit (ucast (x::u8) :: u64) n \<longleftrightarrow> n < 64 \<and> bit x n"
  by (simp only: bit_ucast_iff) auto

lemma serialize_aou_ok:
  "serialize_aou f = Inr b \<longleftrightarrow> drop_bit 2 (flit_fdid f) = 0 \<and> drop_bit 48 (flit_msg_start f) = 0
     \<and> b = wire_header f @ take 240 (flit_payload f)"
  by (auto simp: serialize_aou_def aou_consts gt_3_iff)

lemma wire_header_nth:
  "wire_header f ! 0 = flit_fdid f OR ucast (push_bit 4 (flit_msg_start f AND 0xF))"
  "wire_header f ! 1 = ucast (drop_bit 4 (flit_msg_start f) AND 0xFF)"
  "wire_header f ! 2 = ucast (push_bit 4 (drop_bit 12 (flit_msg_start f) AND 0xF))"
  "wire_header f ! 3 = ucast (drop_bit 16 (flit_msg_start f) AND 0xFF)"
  "wire_header f ! 4 = ucast (flit_msg_credit f AND 0xFF)"
  "wire_header f ! 5 = ucast (drop_bit 8 (flit_msg_credit f))"
  "wire_header f ! 6 = ucast (push_bit 4 (drop_bit 24 (flit_msg_start f) AND 0xF))"
  "wire_header f ! 7 = ucast (drop_bit 28 (flit_msg_start f) AND 0xFF)"
  "wire_header f ! 8 = ucast (push_bit 4 (drop_bit 36 (flit_msg_start f) AND 0xF))"
  "wire_header f ! 9 = ucast (drop_bit 40 (flit_msg_start f) AND 0xFF)"
  by (simp_all add: wire_header_def Let_def)

lemma bit_wire_msg_start:
  "bit (wire_msg_start b) n \<longleftrightarrow>
     (if n < 4 then bit (b ! 0) (n + 4)
      else if n < 12 then bit (b ! 1) (n - 4)
      else if n < 16 then bit (b ! 2) (n - 8)
      else if n < 24 then bit (b ! 3) (n - 16)
      else if n < 28 then bit (b ! 6) (n - 20)
      else if n < 36 then bit (b ! 7) (n - 28)
      else if n < 40 then bit (b ! 8) (n - 32)
      else n < 48 \<and> bit (b ! 9) (n - 40))"
proof -
  consider "n < 4" | "4 \<le> n" "n < 12" | "12 \<le> n" "n < 16" | "16 \<le> n" "n < 24" | "24 \<le> n" "n < 28"
    | "28 \<le> n" "n < 36" | "36 \<le> n" "n < 40" | "40 \<le> n" "n < 48" | "48 \<le> n"
    by linarith
  then show ?thesis
    by cases (simp_all add: wire_msg_start_def bit_or_iff bit_push_ucast bit_ucast_u8 bit_drop_bit_eq
        u8_bit_high add.commute)
qed

lemma bit_wire_header:
  assumes "n < 8"
  shows "bit (wire_header f ! 0) n \<longleftrightarrow> bit (flit_fdid f) n \<or> (4 \<le> n \<and> bit (flit_msg_start f) (n - 4))"
    "bit (wire_header f ! 1) n \<longleftrightarrow> bit (flit_msg_start f) (n + 4)"
    "bit (wire_header f ! 2) n \<longleftrightarrow> 4 \<le> n \<and> bit (flit_msg_start f) (n + 8)"
    "bit (wire_header f ! 3) n \<longleftrightarrow> bit (flit_msg_start f) (n + 16)"
    "bit (wire_header f ! 4) n \<longleftrightarrow> bit (flit_msg_credit f) n"
    "bit (wire_header f ! 5) n \<longleftrightarrow> bit (flit_msg_credit f) (n + 8)"
    "bit (wire_header f ! 6) n \<longleftrightarrow> 4 \<le> n \<and> bit (flit_msg_start f) (n + 20)"
    "bit (wire_header f ! 7) n \<longleftrightarrow> bit (flit_msg_start f) (n + 28)"
    "bit (wire_header f ! 8) n \<longleftrightarrow> 4 \<le> n \<and> bit (flit_msg_start f) (n + 32)"
    "bit (wire_header f ! 9) n \<longleftrightarrow> bit (flit_msg_start f) (n + 40)"
  using assms unfolding wire_header_nth word_mask_eqs bitw
  by (auto simp: add.commute le_iff_add)

lemmas bit_wire_header_simps = bit_wire_header bit_wire_header(2) [unfolded One_nat_def]

lemma wire_header_reserved:
  assumes "drop_bit 2 (flit_fdid f) = 0"
  shows "wire_header f ! 0 AND 12 = 0" "wire_header f ! 2 AND 15 = 0"
    "wire_header f ! 6 AND 15 = 0" "wire_header f ! 8 AND 15 = 0"
proof -
  have "\<not> bit (flit_fdid f) 2" "\<not> bit (flit_fdid f) 3"
    using assms by (simp_all add: drop_bit_zero_iff)
  then show "wire_header f ! 0 AND 12 = 0"
    by (simp add: and_12_zero bit_wire_header)
qed (simp_all add: word_mask_eqs take_bit_zero_iff bit_wire_header)

lemma wire_msg_start_header:
  assumes "drop_bit 48 (flit_msg_start f) = 0" and "drop_bit 2 (flit_fdid f) = 0"
  shows "wire_msg_start (wire_header f @ p) = flit_msg_start f"
proof (rule bit_word_eqI)
  fix n
  have hi: "48 \<le> n \<Longrightarrow> \<not> bit (flit_msg_start f) n" and fd: "2 \<le> m \<Longrightarrow> \<not> bit (flit_fdid f) m" for m
    using assms by (auto simp: drop_bit_zero_iff)
  consider "n < 4" | "4 \<le> n" "n < 12" | "12 \<le> n" "n < 16" | "16 \<le> n" "n < 24" | "24 \<le> n" "n < 28"
    | "28 \<le> n" "n < 36" | "36 \<le> n" "n < 40" | "40 \<le> n" "n < 48" | "48 \<le> n"
    by linarith
  then show "bit (wire_msg_start (wire_header f @ p)) n = bit (flit_msg_start f) n"
    by cases (auto simp: bit_wire_msg_start bit_wire_header_simps hi fd nth_append)
qed

lemma msg_credit_header:
  "ucast (wire_header f ! 4) OR push_bit 8 (ucast (wire_header f ! 5)) = flit_msg_credit f"
proof (rule bit_word_eqI)
  fix n :: nat
  assume "n < LENGTH(16)"
  then consider "n < 8" | "8 \<le> n" "n - 8 < 8" "n < 16"
    by fastforce
  then show "bit (ucast (wire_header f ! 4) OR push_bit 8 (ucast (wire_header f ! 5)) :: u16) n
      = bit (flit_msg_credit f) n"
    by cases (auto simp: bitw bit_wire_header u8_bit_high)
qed

lemma deserialize_serialize:
  assumes "serialize_aou f = Inr b" and "length (flit_payload f) = 240"
  shows "deserialize_aou b = Inr (f\<lparr>flit_used_granules := -1, flit_valid := True\<rparr>)"
proof -
  from assms(1) have fd: "drop_bit 2 (flit_fdid f) = 0" and ms: "drop_bit 48 (flit_msg_start f) = 0"
    and b: "b = wire_header f @ take 240 (flit_payload f)"
    by (simp_all add: serialize_aou_ok)
  have id: "wire_header f ! 0 AND 3 = flit_fdid f"
    unfolding word_mask_eqs
    by (rule bit_word_eqI) (use fd in \<open>auto simp: bitw bit_wire_header drop_bit_zero_iff intro: ccontr\<close>)
  show ?thesis
    using assms(2)
    by (cases f) (use wire_header_reserved [OF fd] id wire_msg_start_header [OF ms fd]
        msg_credit_header [of f] in
        \<open>simp add: deserialize_aou_def b nth_append aou_consts AouFlit_init_def\<close>)
qed

lemma serialize_deserialize:
  assumes "deserialize_aou b = Inr f" and "length b = 250"
  shows "serialize_aou f = Inr b"
proof -
  from assms(1) have res: "b ! 0 AND 12 = 0" "b ! 2 AND 15 = 0" "b ! 6 AND 15 = 0" "b ! 8 AND 15 = 0"
    and f: "f = AouFlit_init\<lparr>flit_fdid := b ! 0 AND 3, flit_msg_start := wire_msg_start b,
             flit_msg_credit := ucast (b ! 4) OR push_bit 8 (ucast (b ! 5)),
             flit_payload := take 240 (drop 10 b), flit_used_granules := -1, flit_valid := True\<rparr>"
    by (auto simp: deserialize_aou_def aou_consts split: if_splits)
  have b0: "\<not> bit (b ! 0) 2" "\<not> bit (b ! 0) 3" and low: "\<And>n. n < 4 \<Longrightarrow> \<not> bit (b ! 2) n"
    "\<And>n. n < 4 \<Longrightarrow> \<not> bit (b ! 6) n" "\<And>n. n < 4 \<Longrightarrow> \<not> bit (b ! 8) n"
    using res by (simp_all add: and_12_zero word_mask_eqs take_bit_zero_iff)
  have fd: "drop_bit 2 (flit_fdid f) = 0" and ms: "drop_bit 48 (flit_msg_start f) = 0"
    by (auto simp: f drop_bit_zero_iff word_mask_eqs bit_take_bit_iff bit_wire_msg_start)
  have bytes: "wire_header f ! i = b ! i" if "i < 10" for i
  proof (rule bit_word_eqI)
    fix n :: nat
    assume n: "n < LENGTH(8)"
    have split: "n < 4 \<or> (4 \<le> n \<and> n < 8)" and n8: "n < 8"
      using n by auto
    have small: "n < 4 \<Longrightarrow> n = 0 \<or> n = 1 \<or> n = 2 \<or> n = 3"
      by auto
    from that have "i \<in> {0, 1, 2, 3, 4, 5, 6, 7, 8, 9}"
      by auto
    then show "bit (wire_header f ! i) n = bit (b ! i) n"
      using split small n8
      by (auto simp: bit_wire_header_simps f word_mask_eqs bitw bit_wire_msg_start b0 low u8_bit_high
          split: if_splits)
  qed
  have "wire_header f = take 10 b"
    using bytes assms(2) by (intro nth_equalityI) simp_all
  then show ?thesis
    using fd ms assms(2) by (simp add: serialize_aou_ok f)
qed

section \<open>Format 6 places every byte exactly once\<close>

lemma length_copy_n [simp]: "length (copy_n src from n to d) = length d"
  unfolding copy_n_def by (rule fold_keeps_eq) simp

lemma nth_copy_n:
  assumes "to + n \<le> length d" and "j < length d"
  shows "copy_n src from n to d ! j = (if to \<le> j \<and> j < to + n then src ! (from + (j - to)) else d ! j)"
  using fold_update_segment [OF assms(1), of "\<lambda>i. src ! (from + i)"] assms
  by (auto simp: copy_n_def nth_append)

lemma fold_blocks: "fold f [0..<4] s = f 3 (f 2 (f 1 (f 0 s)))"
  by (simp add: upt_rec numeral_eq_Suc)

lemma fold_ten: "fold f [0..<10] s = f 9 (f 8 (f 7 (f 6 (f 5 (f 4 (f 3 (f 2 (f 1 (f 0 s)))))))))"
  by (simp add: upt_rec numeral_eq_Suc)

lemmas ph_nth = ph_offsets_def nth_Cons_numeral nth_Cons_0

lemma length_scatter [simp]: "length (scatter plp fh crc) = 256"
  by (simp add: scatter_def Let_def ph_offsets_def fold_blocks fold_ten)

lemma length_gather [simp]: "length (gather frame) = 250"
  by (simp add: gather_def Let_def ph_offsets_def fold_blocks fold_ten)

lemma scatter_data:
  assumes "block < 4" and "k < 60"
  shows "scatter plp fh crc ! (block * 64 + 2 + k) = plp ! (10 + block * 60 + k)"
proof -
  from assms(1) have "block = 0 \<or> block = 1 \<or> block = 2 \<or> block = 3" by auto
  then show ?thesis
    using assms(2)
    by (elim disjE)
       (simp_all add: scatter_def Let_def ph_offsets_def fold_blocks fold_ten nth_list_update nth_copy_n)
qed

lemma scatter_header:
  assumes "i < 10"
  shows "scatter plp fh crc ! (ph_offsets ! i) = plp ! i"
proof -
  from assms have "i \<in> {0, 1, 2, 3, 4, 5, 6, 7, 8, 9}" by auto
  then show ?thesis
    apply (elim insertE emptyE)
             apply (simp_all add: scatter_def Let_def ph_offsets_def fold_blocks fold_ten nth_list_update nth_copy_n)
          apply (simp_all add: eval_nat_numeral)
    done
qed

lemma scatter_link_bytes:
  "scatter plp fh crc ! 0 = fh ! 0" "scatter plp fh crc ! 1 = fh ! 1"
  "scatter plp fh crc ! 126 = crc ! 0" "scatter plp fh crc ! 127 = crc ! 1"
  "scatter plp fh crc ! 254 = crc ! 2" "scatter plp fh crc ! 255 = crc ! 3"
  by (simp_all add: scatter_def Let_def ph_offsets_def fold_blocks fold_ten nth_list_update nth_copy_n)

lemma gather_header: "i < 10 \<Longrightarrow> gather frame ! i = frame ! (ph_offsets ! i)"
proof -
  assume "i < 10"
  then have "i \<in> {0, 1, 2, 3, 4, 5, 6, 7, 8, 9}" by auto
  then show ?thesis
    by (elim insertE emptyE)
       (simp_all add: gather_def Let_def ph_offsets_def fold_blocks fold_ten nth_list_update nth_copy_n)
qed

lemma gather_data:
  assumes "block < 4" and "k < 60"
  shows "gather frame ! (10 + block * 60 + k) = frame ! (block * 64 + 2 + k)"
proof -
  from assms(1) have "block = 0 \<or> block = 1 \<or> block = 2 \<or> block = 3" by auto
  then show ?thesis
    using assms(2)
    by (elim disjE)
       (simp_all add: gather_def Let_def ph_offsets_def fold_blocks fold_ten nth_list_update nth_copy_n)
qed

lemma payload_index:
  fixes i :: nat
  assumes "i < 250" and "10 \<le> i"
  obtains block k where "block < 4" "k < 60" "i = 10 + block * 60 + k"
proof
  show "(i - 10) div 60 < 4" "(i - 10) mod 60 < 60" "i = 10 + (i - 10) div 60 * 60 + (i - 10) mod 60"
    using assms by (auto simp: div_less_iff_less_mult)
qed

lemma gather_scatter:
  assumes "length plp = 250"
  shows "gather (scatter plp fh crc) = plp"
proof (rule nth_equalityI)
  show "length (gather (scatter plp fh crc)) = length plp"
    using assms by simp
  fix i
  assume "i < length (gather (scatter plp fh crc))"
  then have i: "i < 250" by simp
  show "gather (scatter plp fh crc) ! i = plp ! i"
  proof (cases "i < 10")
    case True
    then show ?thesis by (simp add: gather_header scatter_header)
  next
    case False
    with i obtain block k where "block < 4" "k < 60" "i = 10 + block * 60 + k"
      by (auto elim: payload_index)
    then show ?thesis
      using gather_data [of block k] scatter_data [of block k] by metis
  qed
qed

section \<open>Properties\<close>

text \<open>
  C19: whenever \<open>serialize_aou\<close> accepts a flit, \<open>deserialize_aou\<close> reads back the same FDId, MsgStart,
  MsgCredit and payload from the 250 bytes; only the model-internal granule count is lost and the
  valid mark is set.
\<close>

theorem aou_wire_roundtrip:
  assumes "serialize_aou f = Inr b" and "length (flit_payload f) = 240"
  shows "length b = 250 \<and> deserialize_aou b = Inr (f\<lparr>flit_used_granules := -1, flit_valid := True\<rparr>)"
  using deserialize_serialize [OF assms] assms by (simp add: serialize_aou_ok)

theorem aou_wire_roundtrip_witness:
  "length (wire_header AouFlit_init @ replicate 240 0) = 250 \<and>
   deserialize_aou (wire_header AouFlit_init @ replicate 240 0)
     = Inr (AouFlit_init\<lparr>flit_used_granules := -1, flit_valid := True\<rparr>)"
proof (rule aou_wire_roundtrip)
  show "serialize_aou AouFlit_init = Inr (wire_header AouFlit_init @ replicate 240 0)"
    by (simp add: serialize_aou_ok) (simp add: AouFlit_init_def aou_consts)
qed (simp add: AouFlit_init_def aou_consts)

text \<open>
  \<open>deserialize_aou\<close> accepts only canonical headers (all reserved bits zero), so serializing what it
  accepted gives back the 250 bytes that were received, bit for bit.
\<close>

theorem aou_wire_canonical:
  assumes "deserialize_aou b = Inr f" and "length b = 250"
  shows "serialize_aou f = Inr b"
  by (rule serialize_deserialize [OF assms])

theorem aou_wire_canonical_witness:
  "serialize_aou (AouFlit_init\<lparr>flit_fdid := 1, flit_used_granules := -1, flit_valid := True\<rparr>)
    = Inr (1 # replicate 249 0)"
proof (rule aou_wire_canonical)
  show "deserialize_aou (1 # replicate 249 0)
      = Inr (AouFlit_init\<lparr>flit_fdid := 1, flit_used_granules := -1, flit_valid := True\<rparr>)"
    by (simp add: deserialize_aou_def AouFlit_init_def aou_consts wire_msg_start_def nth_Cons'
        numeral_eq_Suc)
qed simp

text \<open>
  The Format 6 layout places every byte of the 250-byte protocol part in the 256-byte frame
  exactly once: gathering a scattered frame returns it whatever the link layer writes into the flit
  header and CRC bytes, and those six link bytes hold exactly what the link layer supplied.
\<close>

theorem format6_roundtrip:
  assumes "length plp = 250"
  shows "length (scatter plp fh crc) = 256 \<and> gather (scatter plp fh crc) = plp
    \<and> scatter plp fh crc ! 0 = fh ! 0 \<and> scatter plp fh crc ! 1 = fh ! 1
    \<and> scatter plp fh crc ! 126 = crc ! 0 \<and> scatter plp fh crc ! 127 = crc ! 1
    \<and> scatter plp fh crc ! 254 = crc ! 2 \<and> scatter plp fh crc ! 255 = crc ! 3"
  using gather_scatter [OF assms] scatter_link_bytes [of plp fh crc] by simp

theorem format6_roundtrip_witness:
  "length (scatter (replicate 250 7) [1, 2] [3, 4, 5, 6]) = 256
    \<and> gather (scatter (replicate 250 7) [1, 2] [3, 4, 5, 6]) = replicate 250 7
    \<and> scatter (replicate 250 7) [1, 2] [3, 4, 5, 6] ! 0 = [1, 2] ! 0
    \<and> scatter (replicate 250 7) [1, 2] [3, 4, 5, 6] ! 1 = [1, 2] ! 1
    \<and> scatter (replicate 250 7) [1, 2] [3, 4, 5, 6] ! 126 = [3, 4, 5, 6] ! 0
    \<and> scatter (replicate 250 7) [1, 2] [3, 4, 5, 6] ! 127 = [3, 4, 5, 6] ! 1
    \<and> scatter (replicate 250 7) [1, 2] [3, 4, 5, 6] ! 254 = [3, 4, 5, 6] ! 2
    \<and> scatter (replicate 250 7) [1, 2] [3, 4, 5, 6] ! 255 = [3, 4, 5, 6] ! 3"
  by (rule format6_roundtrip) simp

end
