(* ===== verification/Axi_If.thy ===== *)
theory Axi_If
  imports Aou_Types
begin

text \<open>
  The AXI channel structures (axi_if.h), the admission checks of the bridge (axi_contract.h) and
  the burst-level request and response types of the memory side (simple_mem_if.h), under
  components/axi2flit/systemc/include.
\<close>

section \<open>Channel structures\<close>

definition AXI_ID_WIDTH :: nat where "AXI_ID_WIDTH = 10"
definition AXI_ID_MASK :: u32 where "AXI_ID_MASK = push_bit AXI_ID_WIDTH 1 - 1"
definition AXI_DATA_WIDTH :: nat where "AXI_DATA_WIDTH = AXI_DATA_WIDTH_CFG"
definition AXI_DATA_BYTES :: nat where "AXI_DATA_BYTES = AXI_DATA_WIDTH div 8"
definition AXI_STRB_WIDTH :: nat where "AXI_STRB_WIDTH = AXI_DATA_BYTES"
definition AXI_STRB_BYTES :: nat where "AXI_STRB_BYTES = AXI_DATA_BYTES div 8"
definition AXI_SIZE_CODE :: u8 where
  "AXI_SIZE_CODE = (if AXI_DATA_WIDTH = 256 then 5 else if AXI_DATA_WIDTH = 512 then 6 else 7)"
definition AXI_USER_MASK :: u32 where "AXI_USER_MASK = 0xFFFF"
definition AXI_DLENGTH :: DataLength where "AXI_DLENGTH = CFG_DLENGTH"

lemma axi_consts [const_simps]:
  "AXI_ID_MASK = 1023" "AXI_DATA_BYTES = 32" "AXI_STRB_WIDTH = 32" "AXI_STRB_BYTES = 4"
  "AXI_SIZE_CODE = 5" "AXI_USER_MASK = 65535" "AXI_DLENGTH = B256"
  by (simp_all add: AXI_ID_MASK_def AXI_ID_WIDTH_def AXI_DATA_BYTES_def AXI_DATA_WIDTH_def
      AXI_DATA_WIDTH_CFG_def AXI_STRB_WIDTH_def AXI_STRB_BYTES_def AXI_SIZE_CODE_def
      AXI_USER_MASK_def AXI_DLENGTH_def CFG_DLENGTH_def)

record AxChannel =
  ax_valid :: bool
  ax_ready :: bool
  ax_id :: u16
  ax_addr :: u64
  ax_len :: u8
  ax_size :: u8
  ax_burst :: u8
  ax_lock :: u8
  ax_cache :: u8
  ax_prot :: u8
  ax_qos :: u8
  ax_user :: u16

definition AxChannel_init :: AxChannel where
  "AxChannel_init = \<lparr>ax_valid = False, ax_ready = False, ax_id = 0, ax_addr = 0, ax_len = 0,
     ax_size = AXI_SIZE_CODE, ax_burst = 1, ax_lock = 0, ax_cache = 0, ax_prot = 0, ax_qos = 0,
     ax_user = 0\<rparr>"

record WChannel =
  w_valid :: bool
  w_ready :: bool
  w_data :: "u8 list"
  w_strb :: "u8 list"
  w_last :: bool
  w_user :: u16

definition WChannel_init :: WChannel where
  "WChannel_init = \<lparr>w_valid = False, w_ready = False, w_data = replicate AXI_DATA_BYTES 0,
     w_strb = replicate AXI_STRB_WIDTH 0, w_last = False, w_user = 0\<rparr>"

record BChannel =
  b_valid :: bool
  b_ready :: bool
  b_id :: u16
  b_resp :: u8
  b_user :: u16

definition BChannel_init :: BChannel where
  "BChannel_init = \<lparr>b_valid = False, b_ready = False, b_id = 0, b_resp = 0, b_user = 0\<rparr>"

record RChannel =
  r_valid :: bool
  r_ready :: bool
  r_id :: u16
  r_data :: "u8 list"
  r_resp :: u8
  r_last :: bool
  r_user :: u16

definition RChannel_init :: RChannel where
  "RChannel_init = \<lparr>r_valid = False, r_ready = False, r_id = 0,
     r_data = replicate AXI_DATA_BYTES 0, r_resp = 0, r_last = False, r_user = 0\<rparr>"

definition AxChannel_eq :: "AxChannel \<Rightarrow> AxChannel \<Rightarrow> bool" where
  "AxChannel_eq a b \<longleftrightarrow> ax_valid a = ax_valid b \<and> ax_ready a = ax_ready b \<and> ax_id a = ax_id b
     \<and> ax_addr a = ax_addr b \<and> ax_len a = ax_len b \<and> ax_size a = ax_size b
     \<and> ax_burst a = ax_burst b \<and> ax_lock a = ax_lock b \<and> ax_cache a = ax_cache b
     \<and> ax_prot a = ax_prot b \<and> ax_qos a = ax_qos b \<and> ax_user a = ax_user b"

definition WChannel_eq :: "WChannel \<Rightarrow> WChannel \<Rightarrow> bool" where
  "WChannel_eq a b \<longleftrightarrow> w_valid a = w_valid b \<and> w_ready a = w_ready b \<and> w_last a = w_last b
     \<and> w_user a = w_user b \<and> take AXI_DATA_BYTES (w_data a) = take AXI_DATA_BYTES (w_data b)
     \<and> take AXI_STRB_WIDTH (w_strb a) = take AXI_STRB_WIDTH (w_strb b)"

definition BChannel_eq :: "BChannel \<Rightarrow> BChannel \<Rightarrow> bool" where
  "BChannel_eq a b \<longleftrightarrow> b_valid a = b_valid b \<and> b_ready a = b_ready b \<and> b_id a = b_id b
     \<and> b_resp a = b_resp b \<and> b_user a = b_user b"

definition RChannel_eq :: "RChannel \<Rightarrow> RChannel \<Rightarrow> bool" where
  "RChannel_eq a b \<longleftrightarrow> r_valid a = r_valid b \<and> r_ready a = r_ready b \<and> r_id a = r_id b
     \<and> r_resp a = r_resp b \<and> r_last a = r_last b \<and> r_user a = r_user b
     \<and> take AXI_DATA_BYTES (r_data a) = take AXI_DATA_BYTES (r_data b)"

section \<open>Admission checks\<close>

definition axi_request_error :: "AxChannel \<Rightarrow> string option" where
  "axi_request_error ax =
     (if ax_burst ax \<noteq> 1 then Some ''only AXI INCR bursts are supported''
      else if ax_size ax > AXI_SIZE_CODE then Some ''AxSIZE exceeds the local AXI data width''
      else
        let beat_bytes = push_bit (unat (ax_size ax)) (1::u64)
        in if ax_addr ax AND (beat_bytes - 1) \<noteq> 0 then Some ''AxADDR not aligned to AxSIZE''
           else if (ax_addr ax AND 4095) + (ucast (ax_len ax) + 1) * beat_bytes > 4096
           then Some ''AXI burst crosses a 4KB boundary''
           else None)"

definition axi_wlast_matches :: "nat \<Rightarrow> bool \<Rightarrow> bool" where
  "axi_wlast_matches beats_remaining is_last \<longleftrightarrow>
     beats_remaining > 0 \<and> is_last = (beats_remaining = 1)"

section \<open>Burst-level memory requests and responses\<close>

record SimpleMemWriteBeat =
  wb_data :: "u8 list"
  wb_strobe :: "u8 list"
  wb_user :: u16

record SimpleMemReadBeat =
  rb_data :: "u8 list"
  rb_resp :: u8
  rb_user :: u16

definition SimpleMemReadBeat_init :: SimpleMemReadBeat where
  "SimpleMemReadBeat_init = \<lparr>rb_data = replicate AXI_DATA_BYTES 0, rb_resp = 0, rb_user = 0\<rparr>"

record SimpleMemRequest =
  mrq_write :: bool
  mrq_rp :: u8
  mrq_address :: AxChannel
  mrq_write_beats :: "SimpleMemWriteBeat list"

record SimpleMemResponse =
  mrs_write :: bool
  mrs_rp :: u8
  mrs_id :: u16
  mrs_resp :: u8
  mrs_user :: u16
  mrs_read_beats :: "SimpleMemReadBeat list"

definition mrq_beats :: "SimpleMemRequest \<Rightarrow> nat" where
  "mrq_beats r = unat (ax_len (mrq_address r)) + 1"

section \<open>Properties\<close>

definition w_ok :: "WChannel \<Rightarrow> bool" where
  "w_ok w \<longleftrightarrow> length (w_data w) = 32 \<and> length (w_strb w) = 32"

definition r_ok :: "RChannel \<Rightarrow> bool" where
  "r_ok r \<longleftrightarrow> length (r_data r) = 32"

lemma channel_eq_iff:
  "AxChannel_eq x y \<longleftrightarrow> x = y"
  "w_ok w \<Longrightarrow> w_ok w' \<Longrightarrow> WChannel_eq w w' \<longleftrightarrow> w = w'"
  "BChannel_eq b b' \<longleftrightarrow> b = b'"
  "r_ok r \<Longrightarrow> r_ok r' \<Longrightarrow> RChannel_eq r r' \<longleftrightarrow> r = r'"
     apply (cases x; cases y; auto simp: AxChannel_eq_def)
    apply (cases w; cases w'; auto simp: WChannel_eq_def w_ok_def axi_consts)
   apply (cases b; cases b'; auto simp: BChannel_eq_def)
  apply (cases r; cases r'; auto simp: RChannel_eq_def r_ok_def axi_consts)
  done

text \<open>
  The bytes of a burst: \<open>len + 1\<close> beats of \<open>2 ^ size\<close> bytes from the start address.
\<close>

definition burst_bytes :: "AxChannel \<Rightarrow> nat" where
  "burst_bytes ax = (unat (ax_len ax) + 1) * 2 ^ unat (ax_size ax)"

definition axi_legal :: "AxChannel \<Rightarrow> bool" where
  "axi_legal ax \<longleftrightarrow> ax_burst ax = 1 \<and> unat (ax_size ax) \<le> 5
     \<and> 2 ^ unat (ax_size ax) dvd unat (ax_addr ax)
     \<and> unat (ax_addr ax) div 4096 = (unat (ax_addr ax) + burst_bytes ax - 1) div 4096"

lemma same_page_iff:
  fixes a n :: nat
  assumes "0 < n"
  shows "a div 4096 = (a + n - 1) div 4096 \<longleftrightarrow> a mod 4096 + n \<le> 4096"
proof -
  obtain m where n: "n = Suc m" using assms by (cases n) auto
  have "(a + m) div 4096 = a div 4096 + (a mod 4096 + m) div 4096"
    by (metis add.assoc div_mult_mod_eq div_mult_self3 mult.commute zero_neq_numeral)
  then show ?thesis
    by (simp add: n) (use div_less_iff_less_mult [of 4096 "a mod 4096 + m" 1] in linarith)
qed

lemma and_exp_minus_one: "(x::u64) AND (2 ^ n - 1) = take_bit n x"
  by (simp add: take_bit_eq_mask mask_eq_exp_minus_1)

lemma unat_take_bit_u64: "unat (take_bit n (x::u64)) = unat x mod 2 ^ n"
  by (simp only: unsigned_take_bit_eq) (simp add: take_bit_eq_mod)

lemma unat_beat_bytes: "n \<le> 5 \<Longrightarrow> unat (2 ^ n :: u64) = 2 ^ n"
proof -
  assume "n \<le> 5"
  then have "n \<in> {0, 1, 2, 3, 4, 5}" by auto
  then show ?thesis by auto
qed

lemma axi_request_error_None_iff:
  "axi_request_error ax = None \<longleftrightarrow> axi_legal ax"
proof (cases "ax_burst ax = 1 \<and> unat (ax_size ax) \<le> 5")
  case False
  moreover have "(ax_size ax > 5) = (unat (ax_size ax) > 5)"
    by (simp add: word_less_nat_alt)
  ultimately show ?thesis
    by (auto simp: axi_request_error_def axi_legal_def axi_consts)
next
  case True
  let ?n = "unat (ax_size ax)" and ?a = "ax_addr ax"
  let ?total = "(?a AND 4095) + (ucast (ax_len ax) + 1) * (2 ^ ?n :: u64)"
  have size: "\<not> ax_size ax > 5"
    using True by (simp add: word_less_nat_alt)
  have aligned: "(?a AND (2 ^ ?n - 1) = 0) = (2 ^ ?n dvd unat ?a)"
    by (simp add: and_exp_minus_one unat_eq_zero [symmetric] unat_take_bit_u64 dvd_eq_mod_eq_0)
  have page: "unat (?a AND 4095) = unat ?a mod 4096"
    using and_exp_minus_one [of ?a 12] unat_take_bit_u64 [of 12 ?a] by simp
  have len: "unat (ucast (ax_len ax) + 1 :: u64) = unat (ax_len ax) + 1"
    using unat_lt_256 [of "ax_len ax"]
    by (simp add: unat_word_ariths unsigned_ucast_eq take_bit_nat_eq_self)
  have bb: "unat (2 ^ ?n :: u64) = 2 ^ ?n"
    using True by (intro unat_beat_bytes) simp
  have pw: "(2::nat) ^ ?n \<le> 32"
    using True power_increasing [of ?n 5 "2::nat"] by simp
  have small: "burst_bytes ax \<le> 256 * 32"
    using pw unat_lt_256 [of "ax_len ax"] unfolding burst_bytes_def by (intro mult_le_mono) simp_all
  have prod: "unat ((ucast (ax_len ax) + 1) * (2 ^ ?n :: u64)) = burst_bytes ax"
    using small by (simp add: unat_word_ariths(2) len bb burst_bytes_def)
  have total: "unat ?total = unat ?a mod 4096 + burst_bytes ax"
    using small by (simp add: unat_word_ariths(1) prod page)
  have "burst_bytes ax > 0"
    by (simp add: burst_bytes_def)
  then have "(unat ?a div 4096 = (unat ?a + burst_bytes ax - 1) div 4096)
      = (unat ?a mod 4096 + burst_bytes ax \<le> 4096)"
    by (rule same_page_iff)
  then show ?thesis
    using True size aligned total
    by (auto simp: axi_request_error_def axi_legal_def axi_consts Let_def word_less_nat_alt)
qed

end
