(* ===== verification/Msg_Codec.thy ===== *)
theory Msg_Codec
  imports Axi_If
begin

text \<open>
  MsgBuilder (msg_builder.h) and MsgDecoder (msg_decoder.h): AXI channel beats to and from bridge
  messages. Each builder is the sequence of writes of the source; the lemmas give the bit layout
  it produces and show that the matching decoder returns the beat it was built from.
\<close>

section \<open>Strobes\<close>

definition is_full_strobe :: "WChannel \<Rightarrow> bool" where
  "is_full_strobe w \<longleftrightarrow> (\<forall>i\<in>set [0..<AXI_STRB_WIDTH]. w_strb w ! i \<noteq> 0)"

definition pack_strobe :: "u8 list \<Rightarrow> u8 list \<Rightarrow> u8 list" where
  "pack_strobe strb packed =
     fold (\<lambda>i p. if strb ! i \<noteq> 0 then p[i div 8 := p ! (i div 8) OR push_bit (i mod 8) 1] else p)
       [0..<AXI_STRB_WIDTH] packed"

definition unpack_strobe :: "u8 list \<Rightarrow> u8 list \<Rightarrow> u8 list" where
  "unpack_strobe packed strb =
     fold (\<lambda>i s. s[i := (if drop_bit (i mod 8) (packed ! (i div 8)) AND 1 \<noteq> 0 then 0xFF else 0x00)])
       [0..<AXI_STRB_WIDTH] strb"

section \<open>Builders\<close>

text \<open>
  The writer after the field writes of a builder, and the message whose data array it filled.
\<close>

definition req_writer :: "AxChannel \<Rightarrow> u8 \<Rightarrow> MsgType \<Rightarrow> bit_writer" where
  "req_writer ax rp type =
     bw_put (ax_addr ax) 64
     (bw_put (ucast (ax_qos ax AND 0xF)) 4
     (bw_put (ucast (ax_cache ax AND 0xF)) 4
     (bw_put (ucast (ax_len ax)) 8
     (bw_put (ucast (ax_prot ax AND 0x7)) 3
     (bw_put (ucast (ax_size ax AND 0x7)) 3
     (bw_put (ucast (ucast (ax_id ax) AND AXI_ID_MASK)) 10
     (bw_put (ucast (ucast (ax_user ax) AND AXI_USER_MASK)) 16
     (bw_put (ucast (ax_lock ax AND 0x1)) 1
     (bw_skip 1
     (bw_put (ucast (rp AND 0x3)) 2
     (bw_put (ucast (msg_type_code type)) 4
     (bw_new (msg_data AouMessage_init)))))))))))))"

definition build_req :: "AxChannel \<Rightarrow> u8 \<Rightarrow> MsgType \<Rightarrow> int \<Rightarrow> AouMessage" where
  "build_req ax rp type granules =
     AouMessage_init\<lparr>msg_type := type, msg_rp := rp AND 0x3, msg_granules := granules,
       msg_byte_len := granules * GRANULE_BYTES,
       msg_axi_id := ucast (ax_id ax) AND AXI_ID_MASK, msg_axi_addr := ax_addr ax,
       msg_data := bw_dst (req_writer ax rp type)\<rparr>"

definition build_write_req :: "AxChannel \<Rightarrow> u8 \<Rightarrow> AouMessage" where
  "build_write_req aw rp = build_req aw rp WriteReq WREQ_GRANULES"

definition build_read_req :: "AxChannel \<Rightarrow> u8 \<Rightarrow> AouMessage" where
  "build_read_req ar rp = build_req ar rp ReadReq RREQ_GRANULES"

definition wdata_header :: "MsgType \<Rightarrow> u8 \<Rightarrow> DataLength \<Rightarrow> u16 \<Rightarrow> bit_writer" where
  "wdata_header type rp dl user =
     bw_put (ucast (ucast user AND AXI_USER_MASK)) 16
     (bw_put (ucast (dlength_code dl)) 2
     (bw_put (ucast (rp AND 0x3)) 2
     (bw_put (ucast (msg_type_code type)) 4
     (bw_new (msg_data AouMessage_init)))))"

definition write_data_writer :: "WChannel \<Rightarrow> u8 \<Rightarrow> DataLength \<Rightarrow> bit_writer" where
  "write_data_writer w rp dl =
     bw_put_bytes_msb_first (pack_strobe (w_strb w) (replicate AXI_STRB_BYTES 0)) AXI_STRB_BYTES
     (bw_put_bytes_msb_first (w_data w) AXI_DATA_BYTES (wdata_header WriteData rp dl (w_user w)))"

definition build_write_data :: "WChannel \<Rightarrow> u8 \<Rightarrow> DataLength \<Rightarrow> AouMessage" where
  "build_write_data w rp dl =
     AouMessage_init\<lparr>msg_type := WriteData, msg_rp := rp AND 0x3, msg_granules := wdata_granules dl,
       msg_byte_len := wdata_granules dl * GRANULE_BYTES,
       msg_data := bw_dst (write_data_writer w rp dl)\<rparr>"

definition write_data_full_writer :: "WChannel \<Rightarrow> u8 \<Rightarrow> DataLength \<Rightarrow> bit_writer" where
  "write_data_full_writer w rp dl =
     bw_put_bytes_msb_first (w_data w) AXI_DATA_BYTES (wdata_header WriteDataFull rp dl (w_user w))"

definition build_write_data_full :: "WChannel \<Rightarrow> u8 \<Rightarrow> DataLength \<Rightarrow> AouMessage" where
  "build_write_data_full w rp dl =
     AouMessage_init\<lparr>msg_type := WriteDataFull, msg_rp := rp AND 0x3,
       msg_granules := wdatafull_granules dl,
       msg_byte_len := wdatafull_granules dl * GRANULE_BYTES,
       msg_data := bw_dst (write_data_full_writer w rp dl)\<rparr>"

definition read_data_writer :: "RChannel \<Rightarrow> u8 \<Rightarrow> DataLength \<Rightarrow> bit_writer" where
  "read_data_writer r rp dl =
     bw_put_bytes_msb_first (r_data r) AXI_DATA_BYTES
     (bw_skip 3
     (bw_put (if r_last r then 1 else 0) 1
     (bw_put (ucast (r_resp r AND 0x3)) 2
     (bw_put (ucast (ucast (r_id r) AND AXI_ID_MASK)) 10
     (bw_put (ucast (ucast (r_user r) AND AXI_USER_MASK)) 16
     (bw_put (ucast (dlength_code dl)) 2
     (bw_put (ucast (rp AND 0x3)) 2
     (bw_put (ucast (msg_type_code ReadData)) 4
     (bw_new (msg_data AouMessage_init))))))))))"

definition build_read_data :: "RChannel \<Rightarrow> u8 \<Rightarrow> DataLength \<Rightarrow> AouMessage" where
  "build_read_data r rp dl =
     AouMessage_init\<lparr>msg_type := ReadData, msg_rp := rp AND 0x3, msg_granules := rdata_granules dl,
       msg_byte_len := rdata_granules dl * GRANULE_BYTES,
       msg_axi_id := ucast (r_id r) AND AXI_ID_MASK,
       msg_data := bw_dst (read_data_writer r rp dl)\<rparr>"

definition write_resp_writer :: "BChannel \<Rightarrow> u8 \<Rightarrow> bit_writer" where
  "write_resp_writer b rp =
     bw_skip 4
     (bw_put (ucast (b_resp b AND 0x3)) 2
     (bw_put (ucast (ucast (b_id b) AND AXI_ID_MASK)) 10
     (bw_put (ucast (ucast (b_user b) AND AXI_USER_MASK)) 16
     (bw_skip 2
     (bw_put (ucast (rp AND 0x3)) 2
     (bw_put (ucast (msg_type_code WriteResp)) 4
     (bw_new (msg_data AouMessage_init))))))))"

definition build_write_resp :: "BChannel \<Rightarrow> u8 \<Rightarrow> AouMessage" where
  "build_write_resp b rp =
     AouMessage_init\<lparr>msg_type := WriteResp, msg_rp := rp AND 0x3, msg_granules := WRESP_GRANULES,
       msg_byte_len := WRESP_GRANULES * GRANULE_BYTES,
       msg_axi_id := ucast (b_id b) AND AXI_ID_MASK,
       msg_data := bw_dst (write_resp_writer b rp)\<rparr>"

section \<open>Decoders\<close>

text \<open>
  A decoder returns \<open>None\<close> where the source returns \<open>false\<close>. The reader's final position, which
  the sources assert, is part of the result of the \<open>_at\<close> functions.
\<close>

definition decode_write_resp_at :: "AouMessage \<Rightarrow> (BChannel \<times> bit_reader) option" where
  "decode_write_resp_at msg =
     (if msg_type msg \<noteq> WriteResp \<or> msg_byte_len msg < WRESP_GRANULES * GRANULE_BYTES then None
      else
        let br = br_skip 2 (br_skip 2 (br_skip 4 (br_new (msg_data msg))));
            (user, br) = br_get 16 br;
            (id, br) = br_get 10 br;
            (resp, br) = br_get 2 br
        in Some (BChannel_init\<lparr>b_user := ucast user, b_id := ucast id, b_resp := ucast resp\<rparr>,
                 br_skip 4 br))"

definition decode_write_resp :: "AouMessage \<Rightarrow> BChannel option" where
  "decode_write_resp msg = map_option fst (decode_write_resp_at msg)"

definition decode_read_data :: "AouMessage \<Rightarrow> RChannel option" where
  "decode_read_data msg =
     (if msg_type msg \<noteq> ReadData \<or> msg_byte_len msg < 5 + int AXI_DATA_BYTES then None
      else
        let br = br_skip 2 (br_skip 4 (br_new (msg_data msg)));
            (dl, br) = br_get 2 br;
            (user, br) = br_get 16 br;
            (id, br) = br_get 10 br;
            (resp, br) = br_get 2 br;
            (lst, br) = br_get 1 br;
            br = br_skip 3 br
        in if dlength_of_code (ucast dl) \<noteq> AXI_DLENGTH then None
           else Some (RChannel_init\<lparr>r_user := ucast user, r_id := ucast id, r_resp := ucast resp,
                  r_last := (lst \<noteq> 0),
                  r_data := fst (br_get_bytes_msb_first AXI_DATA_BYTES br (r_data RChannel_init))\<rparr>))"

definition decode_req_at :: "AouMessage \<Rightarrow> (AxChannel \<times> bit_reader) option" where
  "decode_req_at msg =
     (if (msg_type msg \<noteq> WriteReq \<and> msg_type msg \<noteq> ReadReq)
         \<or> msg_byte_len msg < WREQ_GRANULES * GRANULE_BYTES then None
      else
        let br = br_skip 1 (br_skip 2 (br_skip 4 (br_new (msg_data msg))));
            (lock, br) = br_get 1 br;
            (user, br) = br_get 16 br;
            (id, br) = br_get 10 br;
            (size, br) = br_get 3 br;
            (prot, br) = br_get 3 br;
            (len, br) = br_get 8 br;
            (cache, br) = br_get 4 br;
            (qos, br) = br_get 4 br;
            (addr, br) = br_get 64 br
        in Some (AxChannel_init\<lparr>ax_lock := ucast lock, ax_user := ucast user, ax_id := ucast id,
                   ax_size := ucast size, ax_prot := ucast prot, ax_len := ucast len,
                   ax_cache := ucast cache, ax_qos := ucast qos, ax_addr := addr, ax_burst := 1\<rparr>,
                 br))"

definition decode_req :: "AouMessage \<Rightarrow> AxChannel option" where
  "decode_req msg = map_option fst (decode_req_at msg)"

definition decode_write_data :: "AouMessage \<Rightarrow> WChannel option" where
  "decode_write_data msg =
     (let full = (msg_type msg = WriteDataFull) in
      if msg_type msg \<noteq> WriteData \<and> \<not> full then None
      else if msg_byte_len msg < 3 + int AXI_DATA_BYTES then None
      else
        let br = br_skip 2 (br_skip 4 (br_new (msg_data msg)));
            (dl, br) = br_get 2 br;
            (user, br) = br_get 16 br
        in if dlength_of_code (ucast dl) \<noteq> AXI_DLENGTH then None
           else
             let (data, br) = br_get_bytes_msb_first AXI_DATA_BYTES br (w_data WChannel_init)
             in Some (WChannel_init\<lparr>w_user := ucast user, w_data := data,
                  w_strb := (if full then replicate AXI_STRB_WIDTH 0xFF
                     else unpack_strobe
                       (fst (br_get_bytes_msb_first AXI_STRB_BYTES br (replicate AXI_STRB_BYTES 0)))
                       (w_strb WChannel_init))\<rparr>))"


section \<open>Words and their fields\<close>

lemma ucast_take_bit_ucast:
  assumes "LENGTH('a::len) \<le> 64"
  shows "ucast (take_bit n (ucast (x::'a word) :: u64)) = take_bit n x"
  by (rule bit_word_eqI) (use assms in \<open>auto simp: bit_simps\<close>)

lemma and_mask_low:
  "(x::'a::len word) AND 3 = take_bit 2 x" "x AND 7 = take_bit 3 x"
  "x AND 15 = take_bit 4 x" "x AND 1023 = take_bit 10 x" "x AND 65535 = take_bit 16 x"
  by (simp_all only: take_bit_eq_mask) (simp_all add: mask_eq_exp_minus_1)

lemma ucast_take_bit_u32: "ucast (take_bit n (ucast (x::u16) :: u32)) = (take_bit n (ucast x) :: u64)"
  by (rule bit_word_eqI) (auto simp: bit_simps dest: bit_imp_le_length)

lemma ucast_and_u8: "ucast (take_bit n (x::u8)) = (take_bit n (ucast x) :: u64)"
  by (rule bit_word_eqI) (auto simp: bit_simps)

lemma to_bits_take_bit [simp]: "w \<le> n \<Longrightarrow> to_bits w (take_bit n v) = to_bits w v"
  by (auto simp: to_bits_def bit_simps)

lemma to_bits_and_one: "to_bits (Suc 0) (ucast ((x::u8) AND 1)) = to_bits (Suc 0) (ucast x)"
  by (simp add: to_bits_def bit_simps)

lemma odd_ucast_u8: "odd (ucast (x::u8) :: u64) = odd x"
  by (simp only: bit_0 [symmetric] bit_ucast_iff) simp

lemma ucast_mod_2: "ucast (ucast (x::u8) mod 2 :: u64) = x AND 1"
  by (simp add: mod_2_eq_odd odd_ucast_u8 and_one_eq)

lemma take_bit_full [simp]:
  "take_bit 64 (a::u64) = a" "take_bit 16 (b::u16) = b" "take_bit 8 (c::u8) = c"
  by (rule bit_word_eqI; simp add: bit_simps)+

lemmas field_simps_codec = to_bits_and_one axi_consts and_mask_low ucast_take_bit_u32 ucast_and_u8

section \<open>Bit layouts\<close>

lemma data_init: "msg_data AouMessage_init = replicate 240 0"
  by (simp add: AouMessage_init_def aou_consts)

lemma req_writer_holds:
  "bw_holds 240
     (to_bits 4 (ucast (msg_type_code type)) @ to_bits 2 (ucast rp) @ replicate 1 False
      @ to_bits 1 (ucast (ax_lock ax)) @ to_bits 16 (ucast (ax_user ax)) @ to_bits 10 (ucast (ax_id ax))
      @ to_bits 3 (ucast (ax_size ax)) @ to_bits 3 (ucast (ax_prot ax)) @ to_bits 8 (ucast (ax_len ax))
      @ to_bits 4 (ucast (ax_cache ax)) @ to_bits 4 (ucast (ax_qos ax)) @ to_bits 64 (ax_addr ax))
     (req_writer ax rp type)"
proof -
  have "bw_holds 240
     (((((((((((([] @ to_bits 4 (ucast (msg_type_code type))) @ to_bits 2 (ucast (rp AND 3)))
       @ replicate 1 False) @ to_bits 1 (ucast (ax_lock ax AND 1)))
       @ to_bits 16 (ucast (ucast (ax_user ax) AND AXI_USER_MASK)))
       @ to_bits 10 (ucast (ucast (ax_id ax) AND AXI_ID_MASK))) @ to_bits 3 (ucast (ax_size ax AND 7)))
       @ to_bits 3 (ucast (ax_prot ax AND 7))) @ to_bits 8 (ucast (ax_len ax)))
       @ to_bits 4 (ucast (ax_cache ax AND 15))) @ to_bits 4 (ucast (ax_qos ax AND 15)))
       @ to_bits 64 (ax_addr ax))
     (req_writer ax rp type)"
    unfolding req_writer_def data_init by (intro bw_holds_intros) simp_all
  then show ?thesis
    by (simp add: field_simps_codec)
qed

lemma wdata_header_holds:
  "bw_holds 240
     (to_bits 4 (ucast (msg_type_code type)) @ to_bits 2 (ucast rp) @ to_bits 2 (ucast (dlength_code dl))
      @ to_bits 16 (ucast user)) (wdata_header type rp dl user)"
proof -
  have "bw_holds 240
     (((([] @ to_bits 4 (ucast (msg_type_code type))) @ to_bits 2 (ucast (rp AND 3)))
       @ to_bits 2 (ucast (dlength_code dl))) @ to_bits 16 (ucast (ucast user AND AXI_USER_MASK)))
     (wdata_header type rp dl user)"
    unfolding wdata_header_def data_init by (intro bw_holds_intros) simp_all
  then show ?thesis
    by (simp add: field_simps_codec)
qed

lemma write_data_full_writer_holds:
  assumes "w_ok w"
  shows "bw_holds 240
     (to_bits 4 (ucast (msg_type_code WriteDataFull)) @ to_bits 2 (ucast rp)
      @ to_bits 2 (ucast (dlength_code dl)) @ to_bits 16 (ucast (w_user w)) @ bits_of (rev (w_data w)))
     (write_data_full_writer w rp dl)"
  using bw_put_bytes_msb_first_holds [OF wdata_header_holds [of WriteDataFull rp dl "w_user w"],
      of 32 "w_data w"] assms
  by (simp add: write_data_full_writer_def axi_consts w_ok_def)

lemma length_pack_strobe [simp]: "length (pack_strobe s p) = length p"
  unfolding pack_strobe_def by (rule fold_keeps_eq) simp

lemma write_data_writer_holds:
  assumes "w_ok w"
  shows "bw_holds 240
     (to_bits 4 (ucast (msg_type_code WriteData)) @ to_bits 2 (ucast rp)
      @ to_bits 2 (ucast (dlength_code dl)) @ to_bits 16 (ucast (w_user w)) @ bits_of (rev (w_data w))
      @ bits_of (rev (pack_strobe (w_strb w) (replicate 4 0))))
     (write_data_writer w rp dl)"
proof -
  have "bw_holds 240
     ((to_bits 4 (ucast (msg_type_code WriteData)) @ to_bits 2 (ucast rp)
      @ to_bits 2 (ucast (dlength_code dl)) @ to_bits 16 (ucast (w_user w))) @ bits_of (rev (take 32 (w_data w))))
     (bw_put_bytes_msb_first (w_data w) 32 (wdata_header WriteData rp dl (w_user w)))"
    by (rule bw_put_bytes_msb_first_holds [OF wdata_header_holds]) (use assms in \<open>simp_all add: w_ok_def\<close>)
  from bw_put_bytes_msb_first_holds [OF this, of 4 "pack_strobe (w_strb w) (replicate 4 0)"]
  show ?thesis
    using assms by (simp add: write_data_writer_def axi_consts w_ok_def)
qed

lemma read_data_writer_holds:
  assumes "r_ok r"
  shows "bw_holds 240
     (to_bits 4 (ucast (msg_type_code ReadData)) @ to_bits 2 (ucast rp)
      @ to_bits 2 (ucast (dlength_code dl)) @ to_bits 16 (ucast (r_user r)) @ to_bits 10 (ucast (r_id r))
      @ to_bits 2 (ucast (r_resp r)) @ to_bits 1 (if r_last r then 1 else 0) @ replicate 3 False
      @ bits_of (rev (r_data r)))
     (read_data_writer r rp dl)"
proof -
  have "bw_holds 240
     ((((((((([] @ to_bits 4 (ucast (msg_type_code ReadData))) @ to_bits 2 (ucast (rp AND 3)))
      @ to_bits 2 (ucast (dlength_code dl))) @ to_bits 16 (ucast (ucast (r_user r) AND AXI_USER_MASK)))
      @ to_bits 10 (ucast (ucast (r_id r) AND AXI_ID_MASK)))
      @ to_bits 2 (ucast (r_resp r AND 3))) @ to_bits 1 (if r_last r then 1 else 0)) @ replicate 3 False)
      @ bits_of (rev (take AXI_DATA_BYTES (r_data r))))
     (read_data_writer r rp dl)"
    unfolding read_data_writer_def data_init
    by (intro bw_holds_intros) (use assms in \<open>simp_all add: axi_consts r_ok_def\<close>)
  then show ?thesis
    using assms by (simp add: field_simps_codec r_ok_def)
qed

lemma write_resp_writer_holds:
  "bw_holds 240
     (to_bits 4 (ucast (msg_type_code WriteResp)) @ to_bits 2 (ucast rp) @ replicate 2 False
      @ to_bits 16 (ucast (b_user b)) @ to_bits 10 (ucast (b_id b)) @ to_bits 2 (ucast (b_resp b))
      @ replicate 4 False)
     (write_resp_writer b rp)"
proof -
  have "bw_holds 240
     ((((((([] @ to_bits 4 (ucast (msg_type_code WriteResp))) @ to_bits 2 (ucast (rp AND 3)))
      @ replicate 2 False) @ to_bits 16 (ucast (ucast (b_user b) AND AXI_USER_MASK)))
      @ to_bits 10 (ucast (ucast (b_id b) AND AXI_ID_MASK)))
      @ to_bits 2 (ucast (b_resp b AND 3))) @ replicate 4 False)
     (write_resp_writer b rp)"
    unfolding write_resp_writer_def data_init by (intro bw_holds_intros) simp_all
  then show ?thesis
    by (simp add: field_simps_codec)
qed

lemmas writer_holds = req_writer_holds write_data_full_writer_holds write_data_writer_holds
  read_data_writer_holds write_resp_writer_holds

text \<open>The assertions of the builders hold: the expected number of bits, and aligned byte copies.\<close>

lemma builder_assertions:
  "bw_bits (req_writer ax rp type) = 120" "\<not> bw_fail (req_writer ax rp type)"
  "w_ok w \<Longrightarrow> \<not> bw_fail (write_data_writer w rp dl)"
  "w_ok w \<Longrightarrow> \<not> bw_fail (write_data_full_writer w rp dl)"
  "r_ok r \<Longrightarrow> \<not> bw_fail (read_data_writer r rp dl)"
  using req_writer_holds [of type rp ax] write_data_writer_holds [of w rp dl]
    write_data_full_writer_holds [of w rp dl] read_data_writer_holds [of r rp dl]
  by (simp_all add: bw_holds_def bw_bits_def)

section \<open>Round trips\<close>

text \<open>
  What a decoder returns, from the bit sequence of the message data alone.
\<close>

lemma decode_req_at_bits:
  assumes "msg_type msg = WriteReq \<or> msg_type msg = ReadReq" and "msg_byte_len msg \<ge> 15"
    and "length (msg_data msg) = 240" and "length hdr = 7"
    and "bits_of (msg_data msg) = hdr @ to_bits 1 lock @ to_bits 16 user @ to_bits 10 xid
      @ to_bits 3 sz @ to_bits 3 prot @ to_bits 8 len @ to_bits 4 cache @ to_bits 4 qos
      @ to_bits 64 addr @ rest"
  shows "decode_req_at msg =
    Some (\<lparr>ax_valid = False, ax_ready = False, ax_id = ucast (take_bit 10 xid), ax_addr = addr,
        ax_len = ucast (take_bit 8 len), ax_size = ucast (take_bit 3 sz), ax_burst = 1,
        ax_lock = ucast (take_bit 1 lock), ax_cache = ucast (take_bit 4 cache),
        ax_prot = ucast (take_bit 3 prot), ax_qos = ucast (take_bit 4 qos),
        ax_user = ucast (take_bit 16 user)\<rparr>,
      \<lparr>br_src = msg_data msg, br_bit = 120, br_fail = False\<rparr>)"
  using assms(1,2,4)
  by (auto simp: decode_req_at_def aou_consts granule_consts br_new_def br_skip_def br_get_eq
      assms(3,5) of_to_bits AxChannel_init_def Let_def)

lemma decode_req_at_build:
  assumes "type = WriteReq \<or> type = ReadReq" and "granules \<ge> 3"
  shows "decode_req_at (build_req ax rp type granules) =
    Some (ax\<lparr>ax_valid := False, ax_ready := False, ax_burst := 1, ax_lock := ax_lock ax AND 1,
        ax_id := take_bit 10 (ax_id ax), ax_size := take_bit 3 (ax_size ax),
        ax_prot := take_bit 3 (ax_prot ax), ax_cache := take_bit 4 (ax_cache ax),
        ax_qos := take_bit 4 (ax_qos ax)\<rparr>,
      \<lparr>br_src = bw_dst (req_writer ax rp type), br_bit = 120, br_fail = False\<rparr>)"
proof -
  let ?msg = "build_req ax rp type granules"
  let ?hdr = "to_bits 4 (ucast (msg_type_code type)) @ to_bits 2 (ucast rp) @ [False]"
  note h = req_writer_holds [of type rp ax, unfolded bw_holds_def]
  have data: "msg_data ?msg = bw_dst (req_writer ax rp type)"
    by (simp add: build_req_def)
  have "bits_of (msg_data ?msg) = ?hdr @ to_bits 1 (ucast (ax_lock ax))
      @ to_bits 16 (ucast (ax_user ax)) @ to_bits 10 (ucast (ax_id ax))
      @ to_bits 3 (ucast (ax_size ax)) @ to_bits 3 (ucast (ax_prot ax)) @ to_bits 8 (ucast (ax_len ax))
      @ to_bits 4 (ucast (ax_cache ax)) @ to_bits 4 (ucast (ax_qos ax)) @ to_bits 64 (ax_addr ax)
      @ replicate 1800 False"
    using h data by simp
  from decode_req_at_bits [OF _ _ _ _ this] show ?thesis
    using assms h
    by (simp add: data build_req_def aou_consts ucast_take_bit_ucast ucast_mod_2)
qed

lemma decode_write_resp_at_bits:
  assumes "msg_type msg = WriteResp" and "msg_byte_len msg \<ge> 5"
    and "length (msg_data msg) = 240" and "length hdr = 8"
    and "bits_of (msg_data msg) = hdr @ to_bits 16 user @ to_bits 10 xid @ to_bits 2 resp @ rest"
  shows "decode_write_resp_at msg =
    Some (\<lparr>b_valid = False, b_ready = False, b_id = ucast (take_bit 10 xid),
        b_resp = ucast (take_bit 2 resp), b_user = ucast (take_bit 16 user)\<rparr>,
      \<lparr>br_src = msg_data msg, br_bit = 40, br_fail = False\<rparr>)"
  using assms(1,2,4)
  by (auto simp: decode_write_resp_at_def aou_consts granule_consts br_new_def br_skip_def br_get_eq
      assms(3,5) of_to_bits BChannel_init_def Let_def)

lemma decode_write_resp_at_build:
  "decode_write_resp_at (build_write_resp b rp) =
    Some (b\<lparr>b_valid := False, b_ready := False, b_id := take_bit 10 (b_id b),
        b_resp := take_bit 2 (b_resp b)\<rparr>,
      \<lparr>br_src = bw_dst (write_resp_writer b rp), br_bit = 40, br_fail = False\<rparr>)"
proof -
  let ?msg = "build_write_resp b rp"
  let ?hdr = "to_bits 4 (ucast (msg_type_code WriteResp)) @ to_bits 2 (ucast rp) @ replicate 2 False"
  note h = write_resp_writer_holds [of rp b, unfolded bw_holds_def]
  have data: "msg_data ?msg = bw_dst (write_resp_writer b rp)"
    by (simp add: build_write_resp_def)
  have "bits_of (msg_data ?msg) = ?hdr @ to_bits 16 (ucast (b_user b)) @ to_bits 10 (ucast (b_id b))
      @ to_bits 2 (ucast (b_resp b)) @ replicate 4 False @ replicate 1880 False"
    using h data by simp
  from decode_write_resp_at_bits [OF _ _ _ _ this] show ?thesis
    using h by (simp add: data build_write_resp_def aou_consts granule_consts ucast_take_bit_ucast)
qed

lemma drop_bits_of_bytes:
  "bits_of bs = hdr @ bits_of xs @ rest \<Longrightarrow> length hdr = 8 * k \<Longrightarrow>
   take (length xs) (drop k bs) = xs"
proof -
  assume eq: "bits_of bs = hdr @ bits_of xs @ rest" and "length hdr = 8 * k"
  then have "bits_of (take (length xs) (drop k bs)) = bits_of xs"
    by (simp add: take_bits_of [symmetric] drop_bits_of [symmetric])
  then show ?thesis by (rule bits_of_inject)
qed

lemma decode_read_data_bits:
  assumes "msg_type msg = ReadData" and "msg_byte_len msg \<ge> 37"
    and "length (msg_data msg) = 240" and "length hdr = 6" and "length xs = 32"
    and bits: "bits_of (msg_data msg) = hdr @ to_bits 2 0 @ to_bits 16 user @ to_bits 10 xid
      @ to_bits 2 resp @ to_bits 1 lst @ replicate 3 False @ bits_of (rev xs) @ rest"
  shows "decode_read_data msg =
    Some \<lparr>r_valid = False, r_ready = False, r_id = ucast (take_bit 10 xid), r_data = xs,
        r_resp = ucast (take_bit 2 resp), r_last = (take_bit 1 lst \<noteq> 0),
        r_user = ucast (take_bit 16 user)\<rparr>"
proof -
  have "take 32 (drop 5 (msg_data msg)) = rev xs"
    using drop_bits_of_bytes [of "msg_data msg" "hdr @ to_bits 2 0 @ to_bits 16 user @ to_bits 10 xid
      @ to_bits 2 resp @ to_bits 1 lst @ replicate 3 False" "rev xs" rest 5] assms by simp
  with assms(1,2,4) show ?thesis
    by (auto simp: decode_read_data_def aou_consts axi_consts br_new_def br_skip_def br_get_eq
        br_get_bytes_msb_first_eq assms(3) bits of_to_bits RChannel_init_def Let_def
        dlength_of_code_def)
qed

lemma decode_write_data_bits:
  assumes "msg_type msg = WriteData \<or> msg_type msg = WriteDataFull" and "msg_byte_len msg \<ge> 35"
    and "length (msg_data msg) = 240" and "length hdr = 6" and "length xs = 32" and "length ss = 4"
    and bits: "bits_of (msg_data msg) = hdr @ to_bits 2 0 @ to_bits 16 user @ bits_of (rev xs)
      @ bits_of (rev ss) @ rest"
  shows "decode_write_data msg =
    Some \<lparr>w_valid = False, w_ready = False, w_data = xs,
        w_strb = (if msg_type msg = WriteDataFull then replicate 32 255
                  else unpack_strobe ss (replicate 32 0)),
        w_last = False, w_user = ucast (take_bit 16 user)\<rparr>"
proof -
  have "take 32 (drop 3 (msg_data msg)) = rev xs"
    using drop_bits_of_bytes [of "msg_data msg" "hdr @ to_bits 2 0 @ to_bits 16 user" "rev xs"
        "bits_of (rev ss) @ rest" 3] assms by simp
  moreover have "take 4 (drop 35 (msg_data msg)) = rev ss"
    using drop_bits_of_bytes [of "msg_data msg" "hdr @ to_bits 2 0 @ to_bits 16 user @ bits_of (rev xs)"
        "rev ss" rest 35] assms by simp
  ultimately show ?thesis
    using assms(1,2,4)
    by (auto simp: decode_write_data_def aou_consts axi_consts br_new_def br_skip_def br_get_eq
        br_get_bytes_msb_first_eq assms(3) bits of_to_bits WChannel_init_def Let_def
        dlength_of_code_def)
qed

text \<open>Strobes survive packing up to the canonical value 0xFF of an enabled byte.\<close>

definition canon_strobe :: "u8 list \<Rightarrow> u8 list" where
  "canon_strobe s = map (\<lambda>b. if b \<noteq> 0 then 0xFF else 0x00) s"

lemma bit_pack_strobe:
  assumes "n \<le> 32" and "length p = 4"
  shows "i < 32 \<Longrightarrow>
    bit (fold (\<lambda>i p. if s ! i \<noteq> 0 then p[i div 8 := p ! (i div 8) OR push_bit (i mod 8) (1::u8)] else p)
       [0..<n] p ! (i div 8)) (i mod 8) \<longleftrightarrow> bit (p ! (i div 8)) (i mod 8) \<or> (i < n \<and> s ! i \<noteq> (0::u8))"
  using assms(1)
proof (induction n)
  case 0
  then show ?case by simp
next
  case (Suc n)
  let ?f = "\<lambda>i p. if s ! i \<noteq> 0 then p[i div 8 := p ! (i div 8) OR push_bit (i mod 8) (1::u8)] else p"
  let ?q = "fold ?f [0..<n] p"
  have len: "length ?q = 4"
    using fold_keeps_eq [of length ?f "[0..<n]" p] assms(2) by simp
  have IH: "bit (?q ! (i div 8)) (i mod 8) \<longleftrightarrow> bit (p ! (i div 8)) (i mod 8) \<or> (i < n \<and> s ! i \<noteq> 0)"
    using Suc by simp
  have same: "(i div 8 = n div 8 \<and> i mod 8 = n mod 8) = (i = n)"
    by (metis div_mult_mod_eq)
  have "n div 8 < 4" using Suc.prems by simp
  with len IH same show ?case
    by (auto simp: nth_list_update bit_simps less_Suc_eq)
qed

lemma unpack_pack_strobe:
  assumes "length s = 32"
  shows "unpack_strobe (pack_strobe s (replicate 4 0)) (replicate 32 0) = canon_strobe s"
proof -
  let ?p = "pack_strobe s (replicate 4 0)"
  have bits: "bit (?p ! (i div 8)) (i mod 8) \<longleftrightarrow> s ! i \<noteq> 0" if "i < 32" for i
    using that bit_pack_strobe [of 32 "replicate 4 0" i s] by (simp add: pack_strobe_def axi_consts)
  have "unpack_strobe ?p (replicate 32 0)
      = map (\<lambda>i. if bit (?p ! (i div 8)) (i mod 8) then 0xFF else 0x00) [0..<32]"
    using fold_update_segment [of 0 32 "replicate 32 0"
        "\<lambda>i. if bit (?p ! (i div 8)) (i mod 8) then 0xFF else (0::u8)"]
    by (simp add: unpack_strobe_def axi_consts drop_bit_and_one)
  also have "\<dots> = canon_strobe s"
    using assms bits by (intro nth_equalityI) (simp_all add: canon_strobe_def)
  finally show ?thesis .
qed

lemma decode_read_data_build:
  assumes "r_ok r"
  shows "decode_read_data (build_read_data r rp AXI_DLENGTH) =
    Some (r\<lparr>r_valid := False, r_ready := False, r_id := take_bit 10 (r_id r),
      r_resp := take_bit 2 (r_resp r)\<rparr>)"
proof -
  let ?msg = "build_read_data r rp B256"
  let ?hdr = "to_bits 4 (ucast (msg_type_code ReadData)) @ to_bits 2 (ucast rp)"
  note h = read_data_writer_holds [OF assms, of rp B256, unfolded bw_holds_def]
  have data: "msg_data ?msg = bw_dst (read_data_writer r rp B256)"
    by (simp add: build_read_data_def)
  have "bits_of (msg_data ?msg) = ?hdr @ to_bits 2 0 @ to_bits 16 (ucast (r_user r))
      @ to_bits 10 (ucast (r_id r)) @ to_bits 2 (ucast (r_resp r)) @ to_bits 1 (if r_last r then 1 else 0)
      @ replicate 3 False @ bits_of (rev (r_data r))
      @ replicate (1920 - (40 + 8 * length (r_data r))) False"
    using h data by simp
  from decode_read_data_bits [OF _ _ _ _ _ this] show ?thesis
    using h assms by (auto simp: data build_read_data_def aou_consts axi_consts ucast_take_bit_ucast r_ok_def)
qed

lemma decode_write_data_full_build:
  assumes "w_ok w"
  shows "decode_write_data (build_write_data_full w rp AXI_DLENGTH) =
    Some (w\<lparr>w_valid := False, w_ready := False, w_last := False, w_strb := replicate 32 0xFF\<rparr>)"
proof -
  let ?msg = "build_write_data_full w rp B256"
  let ?hdr = "to_bits 4 (ucast (msg_type_code WriteDataFull)) @ to_bits 2 (ucast rp)"
  note h = write_data_full_writer_holds [OF assms, of rp B256, unfolded bw_holds_def]
  have data: "msg_data ?msg = bw_dst (write_data_full_writer w rp B256)"
    by (simp add: build_write_data_full_def)
  have z: "replicate 1640 False = replicate 32 False @ replicate 1608 False"
    by (simp only: replicate_add [symmetric]) simp
  have "bits_of (msg_data ?msg) = ?hdr @ to_bits 2 0 @ to_bits 16 (ucast (w_user w))
      @ bits_of (rev (w_data w)) @ bits_of (rev (replicate 4 0)) @ replicate 1608 False"
    using h data assms z by (simp add: w_ok_def)
  from decode_write_data_bits [OF _ _ _ _ _ _ this] show ?thesis
    using h assms
    by (simp add: data build_write_data_full_def aou_consts axi_consts ucast_take_bit_ucast w_ok_def)
qed

lemma decode_write_data_build:
  assumes "w_ok w"
  shows "decode_write_data (build_write_data w rp AXI_DLENGTH) =
    Some (w\<lparr>w_valid := False, w_ready := False, w_last := False, w_strb := canon_strobe (w_strb w)\<rparr>)"
proof -
  let ?msg = "build_write_data w rp B256"
  let ?hdr = "to_bits 4 (ucast (msg_type_code WriteData)) @ to_bits 2 (ucast rp)"
  note h = write_data_writer_holds [OF assms, of rp B256, unfolded bw_holds_def]
  have data: "msg_data ?msg = bw_dst (write_data_writer w rp B256)"
    by (simp add: build_write_data_def)
  have "bits_of (msg_data ?msg) = ?hdr @ to_bits 2 0 @ to_bits 16 (ucast (w_user w))
      @ bits_of (rev (w_data w)) @ bits_of (rev (pack_strobe (w_strb w) (replicate 4 0)))
      @ replicate 1608 False"
    using h data assms by (simp add: w_ok_def)
  from decode_write_data_bits [OF _ _ _ _ _ _ this] show ?thesis
    using h assms
    by (simp add: data build_write_data_def aou_consts axi_consts ucast_take_bit_ucast w_ok_def
        unpack_pack_strobe)
qed

section \<open>Message headers\<close>

text \<open>
  \<open>msg_wf m\<close>: the first byte of the message states its type and length, the data ends with the last
  granule, and (except for Misc messages, which carry no plane) the first byte states the plane.
  This is what a receiver needs to cut the message out of a granule stream.
\<close>

definition msg_wf :: "AouMessage \<Rightarrow> bool" where
  "msg_wf m \<longleftrightarrow> msg_ok m \<and> msg_byte_len m = 5 * msg_granules m
     \<and> message_granules_from_header (msg_data m ! 0) = msg_granules m
     \<and> msg_type_of (msg_data m ! 0) = msg_type m
     \<and> (msg_type m \<noteq> Misc \<longrightarrow> msg_rp_of (msg_data m ! 0) = msg_rp m)
     \<and> drop (5 * gran m) (msg_data m) = replicate (240 - 5 * gran m) 0"

lemma first_byte_bits:
  "bs \<noteq> [] \<Longrightarrow> byte_bits (bs ! 0) = take 8 (bits_of bs)"
  by (cases bs) simp_all

lemma byte_bits_split:
  assumes "byte_bits b = to_bits 4 t @ to_bits 2 r @ xs" and "length xs = 2"
  shows "drop_bit 4 b AND 15 = ucast (take_bit 4 t)" "drop_bit 2 b AND 3 = ucast (take_bit 2 r)"
    and "b AND 3 = of_bool (xs ! 1) + 2 * of_bool (xs ! 0)"
proof -
  have bit: "bit b k = (to_bits 4 t @ to_bits 2 r @ xs) ! (7 - k)" if "k < 8" for k
    using nth_byte_bits [of "7 - k" b] that assms(1) by simp
  have hi: "bit b (n + 4) = bit t n" if "n < 4" for n
    using bit [of "n + 4"] that by (simp add: nth_append nth_to_bits) linarith
  have mid: "bit b (n + 2) = bit r n" if "n < 2" for n
  proof -
    from that have "n = 0 \<or> n = 1" by auto
    then show ?thesis
      using bit [of 2] bit [of 3] by (auto simp: nth_append nth_to_bits eval_nat_numeral)
  qed
  show "drop_bit 4 b AND 15 = ucast (take_bit 4 t)"
    by (rule bit_word_eqI) (auto simp: and_mask_low bit_simps hi add.commute)
  show "drop_bit 2 b AND 3 = ucast (take_bit 2 r)"
    by (rule bit_word_eqI) (use mid in \<open>auto simp: and_mask_low bit_simps\<close>)
  have "bit b 0 = xs ! 1" "bit b 1 = xs ! 0"
    using bit [of 0] bit [of 1] by (simp_all add: nth_append)
  then show "b AND 3 = of_bool (xs ! 1) + 2 * of_bool (xs ! 0)"
    by (simp add: and_mask_low take_bit_Suc bit_0 bit_Suc numeral_2_eq_2 mod_2_eq_odd)
qed

text \<open>The common argument: type, plane and tail of a message from what its writer holds.\<close>

lemma msg_wf_from_writer:
  assumes holds: "bw_holds 240 (to_bits 4 (ucast (msg_type_code (msg_type m)))
      @ to_bits 2 (ucast rp) @ xs @ rest) bw" and "length xs = 2"
    and data: "msg_data m = bw_dst bw"
    and fits: "6 + 2 + length rest \<le> 8 * (5 * gran m)"
    and "0 < msg_granules m" "msg_granules m \<le> 48" "msg_byte_len m = 5 * msg_granules m"
    and "msg_rp m = rp AND 3"
    and type: "msg_type_of_code (msg_type_code (msg_type m)) = msg_type m"
    and "take_bit 4 (msg_type_code (msg_type m)) = msg_type_code (msg_type m)"
    and len: "\<And>b. msg_type_of b = msg_type m \<Longrightarrow>
      b AND 3 = of_bool (xs ! 1) + 2 * of_bool (xs ! 0) \<Longrightarrow>
      message_granules_from_header b = msg_granules m"
  shows "msg_wf m"
proof -
  from holds have dlen: "length (msg_data m) = 240"
    and bits: "bits_of (msg_data m) = to_bits 4 (ucast (msg_type_code (msg_type m)))
      @ to_bits 2 (ucast rp) @ xs @ rest @ replicate (1920 - (8 + length rest)) False"
    using assms(2) by (simp_all add: bw_holds_def data)
  moreover from dlen have "msg_data m \<noteq> []"
    by auto
  ultimately have "byte_bits (msg_data m ! 0) = to_bits 4 (ucast (msg_type_code (msg_type m)))
      @ to_bits 2 (ucast rp) @ xs"
    using first_byte_bits [of "msg_data m"] assms(2) by simp
  note b = byte_bits_split [OF this assms(2)]
  have t: "msg_type_of (msg_data m ! 0) = msg_type m"
    using type assms(10) by (simp add: msg_type_of_def b ucast_take_bit_ucast)
  have r: "msg_rp_of (msg_data m ! 0) = msg_rp m"
    unfolding msg_rp_of_def b(2) assms(8) by (simp add: ucast_take_bit_ucast and_mask_low)
  have g: "message_granules_from_header (msg_data m ! 0) = msg_granules m"
    by (rule len [OF t b(3)])
  have gm: "5 * gran m \<le> 240"
    using assms(5,6) by simp
  have "bits_of (drop (5 * gran m) (msg_data m)) = replicate (1920 - 8 * (5 * gran m)) False"
    unfolding drop_bits_of [symmetric] bits using fits assms(2) by simp
  also have "\<dots> = bits_of (replicate (240 - 5 * gran m) 0)"
    using gm by (simp add: right_diff_distrib')
  finally have "drop (5 * gran m) (msg_data m) = replicate (240 - 5 * gran m) 0"
    by (rule bits_of_inject)
  then show ?thesis
    using t r g dlen assms(5-7) by (simp add: msg_wf_def msg_ok_def)
qed

lemma take_bit_type_code:
  "take_bit 4 (0::u8) = 0" "take_bit 4 (1::u8) = 1" "take_bit 4 (2::u8) = 2" "take_bit 4 (3::u8) = 3"
  "take_bit 4 (4::u8) = 4" "take_bit 4 (5::u8) = 5" "take_bit 4 (6::u8) = 6"
  by simp_all

lemma build_req_wf:
  assumes "type = WriteReq \<or> type = ReadReq"
  shows "msg_wf (build_req ax rp type 3)"
proof (rule msg_wf_from_writer [where rp = rp and bw = "req_writer ax rp type"])
  show "bw_holds 240
     (to_bits 4 (ucast (msg_type_code (msg_type (build_req ax rp type 3)))) @ to_bits 2 (ucast rp)
      @ ([False] @ to_bits 1 (ucast (ax_lock ax))) @ to_bits 16 (ucast (ax_user ax))
      @ to_bits 10 (ucast (ax_id ax))
      @ to_bits 3 (ucast (ax_size ax)) @ to_bits 3 (ucast (ax_prot ax)) @ to_bits 8 (ucast (ax_len ax))
      @ to_bits 4 (ucast (ax_cache ax)) @ to_bits 4 (ucast (ax_qos ax)) @ to_bits 64 (ax_addr ax))
     (req_writer ax rp type)"
    using req_writer_holds [of type rp ax] by (simp add: build_req_def)
qed (use assms in \<open>auto simp: build_req_def aou_consts granule_consts msg_type_of_code_def
       message_granules_from_header_def\<close>)

lemma build_write_req_wf: "msg_wf (build_write_req ax rp)"
  and build_read_req_wf: "msg_wf (build_read_req ax rp)"
  using build_req_wf [of _ ax rp] by (simp_all add: build_write_req_def build_read_req_def granule_consts)

lemma build_write_data_wf:
  assumes "w_ok w"
  shows "msg_wf (build_write_data w rp AXI_DLENGTH)"
proof (rule msg_wf_from_writer [where rp = rp and bw = "write_data_writer w rp B256"
      and xs = "to_bits 2 0"])
  show "bw_holds 240
     (to_bits 4 (ucast (msg_type_code (msg_type (build_write_data w rp AXI_DLENGTH))))
      @ to_bits 2 (ucast rp) @ to_bits 2 0 @ to_bits 16 (ucast (w_user w)) @ bits_of (rev (w_data w))
      @ bits_of (rev (pack_strobe (w_strb w) (replicate 4 0))))
     (write_data_writer w rp B256)"
    using write_data_writer_holds [OF assms, of rp B256] by (simp add: build_write_data_def)
qed (use assms in \<open>auto simp: build_write_data_def axi_consts aou_consts granule_consts
       msg_type_of_code_def message_granules_from_header_def w_ok_def nth_to_bits msg_dlength_of_def
       dlength_of_code_def\<close>)

lemma build_write_data_full_wf:
  assumes "w_ok w"
  shows "msg_wf (build_write_data_full w rp AXI_DLENGTH)"
proof (rule msg_wf_from_writer [where rp = rp and bw = "write_data_full_writer w rp B256"
      and xs = "to_bits 2 0"])
  show "bw_holds 240
     (to_bits 4 (ucast (msg_type_code (msg_type (build_write_data_full w rp AXI_DLENGTH))))
      @ to_bits 2 (ucast rp) @ to_bits 2 0 @ to_bits 16 (ucast (w_user w)) @ bits_of (rev (w_data w)))
     (write_data_full_writer w rp B256)"
    using write_data_full_writer_holds [OF assms, of rp B256] by (simp add: build_write_data_full_def)
qed (use assms in \<open>auto simp: build_write_data_full_def axi_consts aou_consts granule_consts
       msg_type_of_code_def message_granules_from_header_def w_ok_def nth_to_bits msg_dlength_of_def
       dlength_of_code_def\<close>)

lemma build_read_data_wf:
  assumes "r_ok r"
  shows "msg_wf (build_read_data r rp AXI_DLENGTH)"
proof (rule msg_wf_from_writer [where rp = rp and bw = "read_data_writer r rp B256"
      and xs = "to_bits 2 0"])
  show "bw_holds 240
     (to_bits 4 (ucast (msg_type_code (msg_type (build_read_data r rp AXI_DLENGTH))))
      @ to_bits 2 (ucast rp) @ to_bits 2 0 @ to_bits 16 (ucast (r_user r)) @ to_bits 10 (ucast (r_id r))
      @ to_bits 2 (ucast (r_resp r)) @ to_bits 1 (if r_last r then 1 else 0) @ replicate 3 False
      @ bits_of (rev (r_data r)))
     (read_data_writer r rp B256)"
    using read_data_writer_holds [OF assms, of rp B256] by (simp add: build_read_data_def)
qed (use assms in \<open>auto simp: build_read_data_def axi_consts aou_consts granule_consts
       msg_type_of_code_def message_granules_from_header_def r_ok_def nth_to_bits msg_dlength_of_def
       dlength_of_code_def\<close>)

lemma build_write_resp_wf: "msg_wf (build_write_resp b rp)"
proof (rule msg_wf_from_writer [where rp = rp and bw = "write_resp_writer b rp"
      and xs = "replicate 2 False"])
  show "bw_holds 240
     (to_bits 4 (ucast (msg_type_code (msg_type (build_write_resp b rp)))) @ to_bits 2 (ucast rp)
      @ replicate 2 False @ to_bits 16 (ucast (b_user b)) @ to_bits 10 (ucast (b_id b))
      @ to_bits 2 (ucast (b_resp b)) @ replicate 4 False)
     (write_resp_writer b rp)"
    using write_resp_writer_holds [of rp b] by (simp add: build_write_resp_def)
qed (auto simp: build_write_resp_def axi_consts aou_consts granule_consts
       msg_type_of_code_def message_granules_from_header_def)

lemmas builders_wf [wf_simps] = build_write_req_wf build_read_req_wf build_write_data_wf
  build_write_data_full_wf build_read_data_wf build_write_resp_wf

end
