(* ===== verification/Stream_Decoder.thy ===== *)
theory Stream_Decoder
  imports Aou_Wire Msg_Codec
begin

text \<open>
  Message framing (components/axi2flit/systemc/include/aou_stream_decoder.h): a receiver finds
  message starts from the MsgStart bitmap, message lengths from the first byte, and keeps the part
  of a message that continues at granule 0 of the next flit. The lemmas show that it recovers
  exactly the messages that \<open>AouFlit::pack_fragment\<close> put into a sequence of flits.
\<close>

section \<open>AouStreamDecoder\<close>

record AouStreamDecoder =
  sd_carry :: AouMessage
  sd_have :: int

record sd_result =
  sr_messages :: "AouMessage list"
  sr_used_granules :: nat

definition sd_reset :: AouStreamDecoder where
  "sd_reset = \<lparr>sd_carry = AouMessage_init, sd_have = 0\<rparr>"

definition carry_active :: "AouStreamDecoder \<Rightarrow> bool" where
  "carry_active d \<longleftrightarrow> sd_have d \<noteq> 0"

text \<open>The part of \<open>parse\<close> before its loop: \<open>g\<close>, the decoder, the messages and the granule count.\<close>

definition parse_carry :: "AouFlit \<Rightarrow> AouStreamDecoder \<Rightarrow> (nat \<times> AouStreamDecoder \<times> AouMessage list \<times> nat) res" where
  "parse_carry f d =
     (if sd_have d = 0 then Inr (0, d, [], 0)
      else
        let tk = nat (min (msg_granules (sd_carry d) - sd_have d) GRANULE_COUNT)
        in if flit_msg_start f AND (push_bit tk 1 - 1) \<noteq> 0
           then Inl (InvalidArgument ''MsgStart overlaps the continuation at G0'')
           else
             let carry = (sd_carry d)\<lparr>msg_data := copy_n (flit_payload f) 0 (tk * nat GRANULE_BYTES)
                            (nat (sd_have d * GRANULE_BYTES)) (msg_data (sd_carry d))\<rparr>;
                 have_g = sd_have d + int tk
             in if have_g = msg_granules carry
                then Inr (tk, \<lparr>sd_carry = carry, sd_have = 0\<rparr>, [carry], tk)
                else Inr (tk, \<lparr>sd_carry = carry, sd_have = have_g\<rparr>, [], tk))"

text \<open>One message start at granule \<open>g\<close>: its granules in this flit and its content so far.\<close>

definition parse_start :: "AouFlit \<Rightarrow> nat \<Rightarrow> (nat \<times> AouMessage) res" where
  "parse_start f g =
     (let b0 = flit_payload f ! (g * nat GRANULE_BYTES);
          total = message_granules_from_header b0
      in if total \<le> 0 \<or> total * GRANULE_BYTES > MSG_MAX_BYTES
         then Inl (InvalidArgument ''illegal message type, MiscOp or DLENGTH'')
         else
           let tk = min (nat total) (nat GRANULE_COUNT - g);
               interior = (push_bit tk 1 - 1) AND NOT 1
           in if drop_bit g (flit_msg_start f) AND interior \<noteq> 0
              then Inl (InvalidArgument ''MsgStart inside the previous message'')
              else Inr (tk, AouMessage_init\<lparr>msg_type := msg_type_of b0, msg_rp := msg_rp_of b0,
                      msg_granules := total, msg_byte_len := total * GRANULE_BYTES,
                      msg_data := copy_n (flit_payload f) (g * nat GRANULE_BYTES)
                        (tk * nat GRANULE_BYTES) 0 (msg_data AouMessage_init)\<rparr>))"

function parse_loop :: "AouFlit \<Rightarrow> nat \<Rightarrow> AouStreamDecoder \<Rightarrow> AouMessage list \<Rightarrow> nat
    \<Rightarrow> (AouStreamDecoder \<times> sd_result) res" where
  "parse_loop f g d msgs n =
     (if g \<ge> nat GRANULE_COUNT then Inr (d, \<lparr>sr_messages = msgs, sr_used_granules = n\<rparr>)
      else if drop_bit g (flit_msg_start f) AND 1 = 0 then parse_loop f (g + 1) d msgs n
      else case parse_start f g of
             Inl e \<Rightarrow> Inl e
           | Inr (tk, msg) \<Rightarrow>
               if int tk = msg_granules msg then parse_loop f (g + tk) d (msgs @ [msg]) (n + tk)
               else parse_loop f (g + tk) \<lparr>sd_carry = msg, sd_have = int tk\<rparr> msgs (n + tk))"
  by pat_completeness auto
termination
  by (relation "measure (\<lambda>(f, g, d, msgs, n). 48 - g)")
     (auto simp: aou_consts parse_start_def Let_def split: if_splits)

declare parse_loop.simps [simp del]

definition sd_parse :: "AouFlit \<Rightarrow> AouStreamDecoder \<Rightarrow> (AouStreamDecoder \<times> sd_result) res" where
  "sd_parse f d =
     (if drop_bit (nat GRANULE_COUNT) (flit_msg_start f) \<noteq> 0
      then Inl (InvalidArgument ''MsgStart exceeds 48 bits'')
      else rbind (parse_carry f d) (\<lambda>(g, d', msgs, n). parse_loop f g d' msgs n))"

text \<open>\<open>consume\<close> parses with a copy and commits it only when parsing succeeded.\<close>

definition sd_consume :: "AouFlit \<Rightarrow> AouStreamDecoder \<Rightarrow> sd_result res \<times> AouStreamDecoder" where
  "sd_consume f d =
     (case sd_parse f d of Inl e \<Rightarrow> (Inl e, d) | Inr (candidate, result) \<Rightarrow> (Inr result, candidate))"

section \<open>What a flit holds\<close>

text \<open>
  A segment \<open>(m, off, len)\<close> is \<open>len\<close> granules of message \<open>m\<close> from its granule \<open>off\<close> on. A flit
  holds a list of segments, packed from granule 0 without gaps.
\<close>

type_synonym segment = "AouMessage \<times> nat \<times> nat"

definition seg_bytes :: "segment \<Rightarrow> u8 list" where
  "seg_bytes s = (case s of (m, off, len) \<Rightarrow> take (5 * len) (drop (5 * off) (wire_image m)))"

definition seg_ok :: "segment \<Rightarrow> bool" where
  "seg_ok s = (case s of (m, off, len) \<Rightarrow> msg_ok m \<and> 0 < len \<and> off + len \<le> gran m)"

fun seg_len :: "segment list \<Rightarrow> nat" where
  "seg_len [] = 0"
| "seg_len ((m, off, len) # ss) = len + seg_len ss"

fun seg_starts :: "nat \<Rightarrow> segment list \<Rightarrow> nat set" where
  "seg_starts g [] = {}"
| "seg_starts g ((m, off, len) # ss) = (if off = 0 then {g} else {}) \<union> seg_starts (g + len) ss"

definition flit_holds :: "AouFlit \<Rightarrow> segment list \<Rightarrow> bool" where
  "flit_holds f ss \<longleftrightarrow> flit_ok f \<and> used f = seg_len ss \<and> list_all seg_ok ss
     \<and> take (5 * used f) (flit_payload f) = concat (map seg_bytes ss)
     \<and> (\<forall>i. bit (flit_msg_start f) i \<longleftrightarrow> i \<in> seg_starts 0 ss)"

lemma seg_simps [simp]:
  "seg_ok (m, off, len) \<longleftrightarrow> msg_ok m \<and> 0 < len \<and> off + len \<le> gran m"
  "seg_bytes (m, off, len) = take (5 * len) (drop (5 * off) (wire_image m))"
  by (simp_all add: seg_ok_def seg_bytes_def)

lemma seg_len_append [simp]: "seg_len (ss @ ts) = seg_len ss + seg_len ts"
  by (induction ss rule: seg_len.induct) simp_all

lemma seg_starts_append [simp]:
  "seg_starts g (ss @ ts) = seg_starts g ss \<union> seg_starts (g + seg_len ss) ts"
  by (induction ss arbitrary: g rule: seg_len.induct) (auto simp: add.assoc)

lemma seg_starts_bounds:
  assumes "list_all seg_ok ss" and "i \<in> seg_starts g ss"
  shows "g \<le> i \<and> i < g + seg_len ss"
  using assms
proof (induction ss arbitrary: g rule: seg_len.induct)
  case (2 m off len ss)
  then have pos: "0 < len" and tail: "list_all seg_ok ss"
    by simp_all
  show ?case
    using 2(1) [OF tail, of "g + len"] 2(3) pos by (auto split: if_splits)
qed simp

lemma length_seg_bytes_concat:
  "list_all seg_ok ss \<Longrightarrow> length (concat (map seg_bytes ss)) = 5 * seg_len ss"
  by (induction ss rule: seg_len.induct) auto

lemma flit_holds_init: "flit_holds AouFlit_init []"
  by (simp add: flit_holds_def) (simp add: AouFlit_init_def)

text \<open>Packing a fragment appends one segment.\<close>

lemma pack_fragment_holds:
  assumes "flit_holds f ss" and "msg_ok m" and "off < gran m" and "used f < 48"
    and t: "t = min (gran m - off) (48 - used f)"
  shows "\<exists>f'. pack_fragment f m (int off) = (int t, f') \<and> flit_holds f' (ss @ [(m, off, t)])
    \<and> flit_valid f' \<and> flit_used_granules f' = flit_used_granules f + int t
    \<and> flit_fdid f' = flit_fdid f \<and> flit_msg_credit f' = flit_msg_credit f"
proof -
  from assms(1) have f: "flit_ok f" "used f = seg_len ss" "list_all seg_ok ss"
      "take (5 * used f) (flit_payload f) = concat (map seg_bytes ss)"
      "\<And>i. bit (flit_msg_start f) i \<longleftrightarrow> i \<in> seg_starts 0 ss"
    by (auto simp: flit_holds_def)
  have u: "flit_used_granules f = int (used f)" "length (flit_payload f) = 240"
    using f(1) by (simp_all add: flit_ok_def)
  have off: "0 \<le> int off" "int off < msg_granules m" "flit_used_granules f < 48"
    using assms(3,4) u by linarith+
  note eq = pack_fragment_eq [OF f(1) assms(2) off, unfolded nat_int, OF t]
  have tle: "t \<le> gran m - off" "t \<le> 48 - used f" "0 < t"
    using assms(3,4) by (simp_all add: t)
  let ?bytes = "take (5 * t) (drop (5 * off) (wire_image m))"
  have lb: "length ?bytes = 5 * t"
    using tle by simp
  have ok': "flit_ok (snd (pack_fragment f m (int off)))"
    by (rule pack_fragment_ok [OF f(1) assms(2)])
  have used': "nat (flit_used_granules f + int t) = used f + t"
    using u by linarith
  have pay: "take (5 * (used f + t)) (take (5 * used f) (flit_payload f) @ ?bytes
      @ drop (5 * used f + 5 * t) (flit_payload f)) = concat (map seg_bytes ss) @ ?bytes"
    using u assms(4) lb unfolding f(4) [symmetric] by simp
  have starts: "bit (if int off = 0 then flit_msg_start f OR push_bit (used f) 1 else flit_msg_start f) i
      \<longleftrightarrow> i \<in> seg_starts 0 (ss @ [(m, off, t)])" for i
    using assms(4) by (cases "off = 0") (auto simp: f(2,5) bit_or_iff bit_exp_iff simp flip: f(2))
  show ?thesis
    using ok' pay starts used' f(2,3) tle assms(2) unfolding eq
    by (simp add: flit_holds_def del: push_bit_of_1)
qed

section \<open>The decoder recovers the segments\<close>

text \<open>
  A message as the receiver reconstructs it: the bridge-internal fields are not on the wire, and the
  plane is read from the first byte.
\<close>

definition wire_msg :: "AouMessage \<Rightarrow> AouMessage" where
  "wire_msg m = m\<lparr>msg_rp := msg_rp_of (msg_data m ! 0), msg_axi_id := 0, msg_axi_addr := 0\<rparr>"

definition wire_part :: "AouMessage \<Rightarrow> nat \<Rightarrow> AouMessage" where
  "wire_part m len = (wire_msg m)\<lparr>msg_data := take (5 * len) (msg_data m) @ replicate (240 - 5 * len) 0\<rparr>"

fun segs_done :: "segment list \<Rightarrow> AouMessage list" where
  "segs_done [] = []"
| "segs_done ((m, off, len) # ss) = (if off + len = gran m then wire_msg m # segs_done ss else [])"

type_synonym carry = "(AouMessage \<times> nat) option"

fun segs_carry :: "segment list \<Rightarrow> carry" where
  "segs_carry [] = None"
| "segs_carry ((m, off, len) # ss) = (if off + len = gran m then segs_carry ss else Some (m, off + len))"

text \<open>New messages from granule \<open>g\<close> on; only the last may be cut, and only at the end of the flit.\<close>

fun segs_new :: "nat \<Rightarrow> segment list \<Rightarrow> bool" where
  "segs_new g [] \<longleftrightarrow> g \<le> 48"
| "segs_new g ((m, off, len) # ss) \<longleftrightarrow> off = 0 \<and> msg_wf m \<and> 0 < len \<and>
     (len = gran m \<and> segs_new (g + len) ss \<or> len < gran m \<and> g + len = 48 \<and> ss = [])"

definition segs_from :: "carry \<Rightarrow> segment list \<Rightarrow> bool" where
  "segs_from c ss = (case c of None \<Rightarrow> segs_new 0 ss
     | Some (m, d) \<Rightarrow> (case ss of [] \<Rightarrow> False
        | (m', off, len) # rest \<Rightarrow> m' = m \<and> off = d \<and> d + len = gran m \<and> segs_new len rest))"

definition decoder_at :: "carry \<Rightarrow> AouStreamDecoder \<Rightarrow> bool" where
  "decoder_at c d = (case c of None \<Rightarrow> sd_have d = 0
     | Some (m, k) \<Rightarrow> msg_wf m \<and> 0 < k \<and> k < gran m \<and> sd_have d = int k \<and> sd_carry d = wire_part m k)"

lemma msg_wfD:
  assumes "msg_wf m"
  shows "msg_ok m" "length (msg_data m) = 240" "0 < gran m" "gran m \<le> 30" "msg_granules m = int (gran m)"
    "message_granules_from_header (msg_data m ! 0) = int (gran m)" "msg_byte_len m = 5 * int (gran m)"
    "msg_type_of (msg_data m ! 0) = msg_type m" "wire_image m = take (5 * gran m) (msg_data m)"
    "drop (5 * gran m) (msg_data m) = replicate (240 - 5 * gran m) 0"
proof -
  note w = assms [unfolded msg_wf_def]
  from w show ok: "msg_ok m" and "drop (5 * gran m) (msg_data m) = replicate (240 - 5 * gran m) 0"
    and "msg_type_of (msg_data m ! 0) = msg_type m" and bl: "wire_image m = take (5 * gran m) (msg_data m)"
    by (simp_all add: wire_image_full)
  from ok show "length (msg_data m) = 240" "0 < gran m" and g: "msg_granules m = int (gran m)"
    by (simp_all add: msg_ok_def)
  from w g show h: "message_granules_from_header (msg_data m ! 0) = int (gran m)"
      "msg_byte_len m = 5 * int (gran m)"
    by simp_all
  show "gran m \<le> 30"
    using message_granules_bounds(2) [of "msg_data m ! 0"] h(1) by linarith
qed

lemma wire_part_full: "msg_wf m \<Longrightarrow> wire_part m (gran m) = wire_msg m"
  using msg_wfD(10) [of m, symmetric] by (simp add: wire_part_def wire_msg_def)

lemma segs_new_ok: "segs_new g ss \<Longrightarrow> list_all seg_ok ss"
  by (induction g ss rule: segs_new.induct) (auto dest: msg_wfD(1))

lemma segs_new_bound: "segs_new g ss \<Longrightarrow> g + seg_len ss \<le> 48"
  by (induction g ss rule: segs_new.induct) auto

lemma parse_loop_idle:
  assumes "\<And>i. g \<le> i \<Longrightarrow> i < 48 \<Longrightarrow> \<not> bit (flit_msg_start f) i"
  shows "parse_loop f g d msgs n = Inr (d, \<lparr>sr_messages = msgs, sr_used_granules = n\<rparr>)"
  using assms
proof (induction "48 - g" arbitrary: g)
  case 0
  then show ?case
    by (subst parse_loop.simps) (simp add: aou_consts)
next
  case (Suc x)
  have "\<not> bit (flit_msg_start f) g"
    using Suc.prems [of g] Suc.hyps(2) by simp
  then have "drop_bit g (flit_msg_start f) AND 1 = 0"
    using drop_bit_and_one [of g "flit_msg_start f"] by blast
  then have "parse_loop f g d msgs n = parse_loop f (g + 1) d msgs n"
    using Suc.hyps(2) by (subst parse_loop.simps) (auto simp: aou_consts)
  with Suc.hyps(1) [of "g + 1"] Suc.prems Suc.hyps(2) show ?case
    by simp
qed

lemma interior_clear:
  assumes "\<And>i. g < i \<Longrightarrow> i < g + t \<Longrightarrow> \<not> bit s i" and "t \<le> 48"
  shows "drop_bit g (s::u64) AND ((push_bit t 1 - 1) AND NOT 1) = 0"
proof (rule bit_word_eqI)
  fix n :: nat
  assume "n < LENGTH(64)"
  have m: "push_bit t 1 - 1 = (mask t :: u64)"
    by (simp add: mask_eq_exp_minus_1)
  show "bit (drop_bit g s AND ((push_bit t 1 - 1) AND NOT 1)) n = bit (0::u64) n"
    unfolding m using assms(1) [of "g + n"]
    by (auto simp: bit_and_iff bit_mask_iff bit_not_iff bit_1_iff bit_drop_bit_eq)
qed

lemma copy_n_eq:
  assumes "to + n \<le> length d" and "from + n \<le> length src"
  shows "copy_n src from n to d = take to d @ take n (drop from src) @ drop (to + n) d"
proof -
  have "min (length src - from) n = n" "min (length d) to = to"
    using assms by simp_all
  then show ?thesis
    using assms by (intro nth_equalityI) (auto simp: nth_copy_n nth_append)
qed

lemma parse_start_wf:
  assumes m: "msg_wf m" and len: "len = min (gran m) (48 - g)" "g < 48"
    and f: "length (flit_payload f) = 240"
    and bytes: "take (5 * len) (drop (5 * g) (flit_payload f)) = take (5 * len) (wire_image m)"
    and inner: "\<And>i. g < i \<Longrightarrow> i < g + len \<Longrightarrow> \<not> bit (flit_msg_start f) i"
  shows "parse_start f g = Inr (len, wire_part m len)"
proof -
  note w = msg_wfD [OF m]
  have l: "0 < len" "len \<le> gran m" "len \<le> 48 - g"
    using len w(3) by auto
  have img: "take (5 * len) (wire_image m) = take (5 * len) (msg_data m)"
    using l by (simp add: w(9))
  have "flit_payload f ! (5 * g) = take (5 * len) (drop (5 * g) (flit_payload f)) ! 0"
    using l f len(2) by simp
  also have "\<dots> = msg_data m ! 0"
    unfolding bytes img using l(1) by simp
  finally have b0: "flit_payload f ! (g * 5) = msg_data m ! 0"
    by (simp add: mult.commute)
  have data: "copy_n (flit_payload f) (g * 5) (len * 5) 0 (msg_data AouMessage_init)
      = take (5 * len) (msg_data m) @ replicate (240 - 5 * len) 0"
    using l f bytes img by (subst copy_n_eq) (simp_all add: data_init mult.commute)
  have clear: "drop_bit g (flit_msg_start f) AND ((push_bit len 1 - 1) AND NOT 1) = 0"
    using l inner by (intro interior_clear) auto
  have "message_granules_from_header (msg_data m ! 0) * 5 \<le> 240"
    using message_granules_bounds(2) [of "msg_data m ! 0"] by linarith
  then show ?thesis
    using w(3) clear data
    by (simp add: parse_start_def Let_def aou_consts b0 w(6,8) len(1) [symmetric] del: push_bit_of_1 mult_Suc_right)
       (simp add: wire_part_def wire_msg_def AouMessage_init_def w(5) [symmetric] w(7,8))
qed

lemma parse_loop_segs:
  assumes "segs_new g ss" and "length (flit_payload f) = 240"
    and "take (5 * seg_len ss) (drop (5 * g) (flit_payload f)) = concat (map seg_bytes ss)"
    and "\<And>i. g \<le> i \<Longrightarrow> bit (flit_msg_start f) i \<longleftrightarrow> i \<in> seg_starts g ss"
  shows "\<exists>d'. parse_loop f g d msgs n =
      Inr (d', \<lparr>sr_messages = msgs @ segs_done ss, sr_used_granules = n + seg_len ss\<rparr>)
    \<and> (segs_carry ss = None \<longrightarrow> d' = d) \<and> (segs_carry ss \<noteq> None \<longrightarrow> decoder_at (segs_carry ss) d')"
  using assms
proof (induction ss arbitrary: g d msgs n rule: segs_done.induct)
  case 1
  then show ?case
    by (subst parse_loop_idle) simp_all
next
  case (2 m off len ss)
  from 2(2) have m: "msg_wf m" "off = 0" "0 < len" "len \<le> gran m"
    by auto
  have g: "g + len + seg_len ss \<le> 48"
    using segs_new_bound [OF 2(2)] by simp
  have tail_ok: "list_all seg_ok ss"
    using segs_new_ok [OF 2(2)] by simp
  have len: "len = min (gran m) (48 - g)" "g < 48"
    using 2(2) g m by auto
  have split: "take (5 * len) (drop (5 * g) (flit_payload f)) = take (5 * len) (wire_image m)"
    "take (5 * seg_len ss) (drop (5 * (g + len)) (flit_payload f)) = concat (map seg_bytes ss)"
    using arg_cong [OF 2(4), of "take (5 * len)"] arg_cong [OF 2(4), of "drop (5 * len)"] m
    by (simp_all add: drop_take add.commute distrib_left)
  have bit_g: "drop_bit g (flit_msg_start f) AND 1 \<noteq> 0"
    unfolding drop_bit_and_one using 2(5) [of g] m by simp
  have rest: "bit (flit_msg_start f) i \<longleftrightarrow> i \<in> seg_starts (g + len) ss" if "g < i" for i
    using 2(5) [of i] that m by auto
  have inner: "\<not> bit (flit_msg_start f) i" if "g < i" "i < g + len" for i
    using rest [OF that(1)] seg_starts_bounds [OF tail_ok, of i "g + len"] that by auto
  note start = parse_start_wf [OF m(1) len 2(3) split(1) inner]
  have unf: "parse_loop f g d msgs n = (if int len = msg_granules m
      then parse_loop f (g + len) d (msgs @ [wire_part m len]) (n + len)
      else parse_loop f (g + len) \<lparr>sd_carry = wire_part m len, sd_have = int len\<rparr> msgs (n + len))"
    using bit_g len(2) start
    by (subst parse_loop.simps) (simp add: aou_consts wire_part_def wire_msg_def)
  show ?case
  proof (cases "len = gran m")
    case True
    with 2(2) g have "segs_new (g + len) ss"
      by (cases ss) auto
    from 2(1) [OF _ this 2(3) split(2) rest, of d "msgs @ [wire_msg m]" "n + len"] show ?thesis
      using True m msg_wfD(5) [OF m(1)] by (simp add: unf wire_part_full add.assoc)
  next
    case False
    with 2(2) have "ss = []" "g + len = 48"
      by auto
    then show ?thesis
      using False m msg_wfD(5) [OF m(1)]
      by (simp add: unf parse_loop_idle decoder_at_def)
  qed
qed

lemma parse_carry_segs:
  assumes hold: "flit_holds f ss" and frm: "segs_from (Some (m, k)) ss" and d: "decoder_at (Some (m, k)) d"
  obtains len rest where "ss = (m, k, len) # rest" and "segs_new len rest"
    and "parse_carry f d = Inr (len, \<lparr>sd_carry = wire_msg m, sd_have = 0\<rparr>, [wire_msg m], len)"
proof -
  from frm obtain len rest where ss: "ss = (m, k, len) # rest" and kl: "k + len = gran m"
    and new: "segs_new len rest"
    by (cases ss) (auto simp: segs_from_def)
  from d have m: "msg_wf m" "0 < k" "k < gran m" and sd: "sd_have d = int k" "sd_carry d = wire_part m k"
    by (simp_all add: decoder_at_def)
  note w = msg_wfD [OF m(1)]
  have ok: "list_all seg_ok rest" "length (flit_payload f) = 240"
    using hold by (simp_all add: flit_holds_def flit_ok_def ss)
  have len: "0 < len" "len \<le> 30"
    using m kl w(4) by simp_all
  have g: "gran m = k + len"
    using kl by simp
  have "take (5 * len + 5 * seg_len rest) (flit_payload f)
      = take (5 * len) (drop (5 * k) (wire_image m)) @ concat (map seg_bytes rest)"
  proof -
    have "used f = seg_len ss" "take (5 * used f) (flit_payload f) = concat (map seg_bytes ss)"
      using hold unfolding flit_holds_def by blast+
    then show ?thesis
      by (simp add: ss distrib_left)
  qed
  note part = arg_cong [OF this, of "take (5 * len)"]
  have "5 * len \<le> length (msg_data m) - 5 * k"
    using w(2,4) g by linarith
  with part have bytes: "take (5 * len) (flit_payload f) = take (5 * len) (drop (5 * k) (msg_data m))"
    by (simp add: w(9) drop_take g)
  have "push_bit len 1 - 1 = (mask len :: u64)"
    by (simp add: mask_eq_exp_minus_1)
  moreover have "\<not> bit (flit_msg_start f) i" if "i < len" for i
    using hold seg_starts_bounds [OF ok(1), of i len] that m(2) by (auto simp: flit_holds_def ss)
  ultimately have clear: "flit_msg_start f AND (push_bit len 1 - 1) = 0"
    by (intro bit_word_eqI) (auto simp: bit_and_iff bit_mask_iff)
  have to: "nat (int k * 5) = 5 * k" and n: "len * 5 = 5 * len"
    by simp_all
  have dp: "msg_data (wire_part m k) = take (5 * k) (msg_data m) @ replicate (240 - 5 * k) 0"
    by (simp add: wire_part_def)
  have lens: "k + len \<le> 30" "length (take (5 * k) (msg_data m)) = 5 * k"
    using w(2,4) g by auto
  have "copy_n (flit_payload f) 0 (len * 5) (nat (int k * 5)) (msg_data (wire_part m k))
      = take (5 * k) (msg_data m) @ take (5 * len) (flit_payload f) @ replicate (240 - 5 * k - 5 * len) 0"
    unfolding to n dp using lens ok(2) by (subst copy_n_eq) simp_all
  also have "\<dots> = take (5 * k) (msg_data m) @ take (5 * len) (drop (5 * k) (msg_data m))
      @ replicate (240 - 5 * gran m) 0"
    by (simp add: bytes g)
  also have "\<dots> = msg_data m"
    using append_take_drop_id [of "5 * k + 5 * len" "msg_data m"] w(10) [symmetric]
    by (simp add: take_add g distrib_left)
  finally have data: "copy_n (flit_payload f) 0 (len * 5) (nat (int k * 5)) (msg_data (wire_part m k)) = msg_data m" .
  show thesis
  proof (rule that [OF ss new])
    show "parse_carry f d = Inr (len, \<lparr>sd_carry = wire_msg m, sd_have = 0\<rparr>, [wire_msg m], len)"
    proof -
      have gm: "msg_granules (wire_part m k) = int k + int len" "msg_granules m = int k + int len"
        using w(5) g by (simp_all add: wire_part_def wire_msg_def)
      have mn: "min (int len) 48 = int len"
        using len by simp
      have "(wire_part m k)\<lparr>msg_data := msg_data m\<rparr> = wire_msg m"
        by (simp add: wire_part_def wire_msg_def)
      then show ?thesis
        using m(2) clear data
        by (simp add: parse_carry_def sd gm mn aou_consts Let_def wire_msg_def del: push_bit_of_1)
    qed
  qed
qed

text \<open>One flit: the receiver delivers exactly the messages that end in it and keeps the cut one.\<close>

lemma sd_consume_segs:
  assumes hold: "flit_holds f ss" and frm: "segs_from c ss" and d: "decoder_at c d"
  shows "\<exists>d'. sd_consume f d = (Inr \<lparr>sr_messages = segs_done ss, sr_used_granules = seg_len ss\<rparr>, d')
    \<and> decoder_at (segs_carry ss) d'"
proof -
  from hold have f: "length (flit_payload f) = 240" "list_all seg_ok ss" "seg_len ss \<le> 48"
      "take (5 * seg_len ss) (flit_payload f) = concat (map seg_bytes ss)"
      "\<And>i. bit (flit_msg_start f) i \<longleftrightarrow> i \<in> seg_starts 0 ss"
    by (auto simp: flit_holds_def flit_ok_def)
  have high: "drop_bit 48 (flit_msg_start f) = 0"
    using f(2,3,5) seg_starts_bounds [of ss _ 0] by (force simp: drop_bit_zero_iff)
  show ?thesis
  proof (cases c)
    case None
    with frm d have "segs_new 0 ss" "sd_have d = 0"
      by (simp_all add: segs_from_def decoder_at_def)
    with parse_loop_segs [OF this(1) f(1), of d "[]" 0] f(4,5) high show ?thesis
      by (cases "segs_carry ss")
         (auto simp: sd_consume_def sd_parse_def parse_carry_def aou_consts decoder_at_def)
  next
    case (Some mk)
    then obtain m k where c: "c = Some (m, k)"
      by (cases mk) auto
    obtain len rest where ss: "ss = (m, k, len) # rest" and new: "segs_new len rest"
      and carry: "parse_carry f d = Inr (len, \<lparr>sd_carry = wire_msg m, sd_have = 0\<rparr>, [wire_msg m], len)"
      using parse_carry_segs hold frm d unfolding c by blast
    have k: "0 < k" "k + len = gran m"
      using frm d by (simp_all add: c decoder_at_def segs_from_def ss)
    have bytes: "take (5 * seg_len rest) (drop (5 * len) (flit_payload f)) = concat (map seg_bytes rest)"
      using arg_cong [OF f(4), of "drop (5 * len)"] k(2) [symmetric]
      by (simp add: ss drop_take distrib_left)
    have starts: "bit (flit_msg_start f) i \<longleftrightarrow> i \<in> seg_starts len rest" for i
      using f(5) [of i] k(1) by (simp add: ss)
    from parse_loop_segs [OF new f(1) bytes starts, of "\<lparr>sd_carry = wire_msg m, sd_have = 0\<rparr>" "[wire_msg m]" len]
    show ?thesis
      using carry high k(2)
      by (cases "segs_carry rest") (auto simp: sd_consume_def sd_parse_def aou_consts decoder_at_def ss)
  qed
qed

section \<open>Any input\<close>

text \<open>
  The decoder reads nothing but MsgStart and the payload, so the auxiliary fields of a flit, which
  are not on the wire, cannot influence it.
\<close>

lemma parse_start_cong:
  "flit_msg_start f = flit_msg_start f' \<Longrightarrow> flit_payload f = flit_payload f' \<Longrightarrow>
    parse_start f g = parse_start f' g"
  by (simp only: parse_start_def)

lemma parse_loop_cong:
  assumes "flit_msg_start f = flit_msg_start f'" and "flit_payload f = flit_payload f'"
  shows "parse_loop f g d msgs n = parse_loop f' g d msgs n"
proof (induction "48 - g" arbitrary: g d msgs n rule: less_induct)
  case less
  have pos: "0 < tk" if "parse_start f' g = Inr (tk, msg)" "\<not> 48 \<le> g" for tk msg
    using that by (auto simp: parse_start_def Let_def aou_consts split: if_splits)
  have "parse_loop f (g + tk) d msgs n = parse_loop f' (g + tk) d msgs n"
    if "0 < tk" "\<not> 48 \<le> g" for tk d msgs n
    using that by (intro less) simp
  note step = this this [of 1, simplified]
  show ?case
    unfolding parse_loop.simps [of f g] parse_loop.simps [of f' g] assms(1) parse_start_cong [OF assms]
    using pos step by (auto simp: aou_consts split: sum.splits)
qed

lemma sd_consume_cong:
  "flit_msg_start f = flit_msg_start f' \<Longrightarrow> flit_payload f = flit_payload f' \<Longrightarrow>
    sd_consume f d = sd_consume f' d"
  by (simp only: sd_consume_def sd_parse_def parse_carry_def parse_loop_cong [of f f'])

text \<open>Whatever arrives, the carry stays within its buffer and only complete messages come out.\<close>

definition decoder_safe :: "AouStreamDecoder \<Rightarrow> bool" where
  "decoder_safe d \<longleftrightarrow> length (msg_data (sd_carry d)) = 240 \<and>
     (sd_have d = 0 \<or> 0 < sd_have d \<and> sd_have d < msg_granules (sd_carry d) \<and> msg_granules (sd_carry d) \<le> 30
        \<and> msg_byte_len (sd_carry d) = 5 * msg_granules (sd_carry d))"

definition msg_complete :: "AouMessage \<Rightarrow> bool" where
  "msg_complete m \<longleftrightarrow> msg_ok m \<and> msg_granules m \<le> 30 \<and> msg_byte_len m = 5 * msg_granules m"

lemma parse_start_safe:
  assumes "parse_start f g = Inr (tk, msg)" and "g < 48"
  shows "0 < tk" "tk \<le> 48 - g" "int tk \<le> msg_granules msg" "msg_complete msg"
  using assms message_granules_bounds [of "flit_payload f ! (g * 5)"]
  by (auto simp: parse_start_def Let_def aou_consts msg_complete_def msg_ok_def AouMessage_init_def
      split: if_splits)

lemma parse_loop_safe:
  assumes "decoder_safe d" and "list_all msg_complete msgs" and "n \<le> g" and "g \<le> 48"
    and "parse_loop f g d msgs n = Inr (d', r)"
  shows "decoder_safe d' \<and> list_all msg_complete (sr_messages r) \<and> sr_used_granules r \<le> 48"
  using assms
proof (induction "48 - g" arbitrary: g d msgs n rule: less_induct)
  case less
  consider "48 \<le> g" | "g < 48" "drop_bit g (flit_msg_start f) AND 1 = 0"
    | "g < 48" "drop_bit g (flit_msg_start f) AND 1 \<noteq> 0"
    by linarith
  then show ?case
  proof cases
    case 1
    with less.prems show ?thesis
      by (subst (asm) parse_loop.simps) (auto simp: aou_consts)
  next
    case 2
    with less.prems(5) have "parse_loop f (g + 1) d msgs n = Inr (d', r)"
      by (subst (asm) parse_loop.simps) (simp add: aou_consts)
    with 2 less.prems(1-4) show ?thesis
      by (intro less.hyps [of "g + 1" d msgs n]) auto
  next
    case 3
    obtain tk msg where ps: "parse_start f g = Inr (tk, msg)"
      using less.prems(5) 3 by (subst (asm) parse_loop.simps) (auto simp: aou_consts split: sum.splits)
    note safe = parse_start_safe [OF ps 3(1)]
    have lp: "parse_loop f g d msgs n =
        (if int tk = msg_granules msg then parse_loop f (g + tk) d (msgs @ [msg]) (n + tk)
         else parse_loop f (g + tk) \<lparr>sd_carry = msg, sd_have = int tk\<rparr> msgs (n + tk))"
      using 3 ps by (subst parse_loop.simps) (simp add: aou_consts)
    show ?thesis
    proof (cases "int tk = msg_granules msg")
      case True
      then show ?thesis
        using less.prems safe 3(1) lp by (intro less.hyps [of "g + tk" d "msgs @ [msg]" "n + tk"]) auto
    next
      case False
      moreover have "decoder_safe \<lparr>sd_carry = msg, sd_have = int tk\<rparr>"
        using safe False by (auto simp: decoder_safe_def msg_complete_def msg_ok_def)
      ultimately show ?thesis
        using less.prems safe 3(1) lp
        by (intro less.hyps [of "g + tk" "\<lparr>sd_carry = msg, sd_have = int tk\<rparr>" msgs "n + tk"]) auto
    qed
  qed
qed

lemma parse_carry_safe:
  assumes "decoder_safe d" and "parse_carry f d = Inr (g, d', msgs, n)"
  shows "decoder_safe d'" "list_all msg_complete msgs" "n \<le> g" "g \<le> 48"
  using assms
  by (auto simp: parse_carry_def decoder_safe_def msg_complete_def msg_ok_def aou_consts Let_def
      split: if_splits)

lemma sd_consume_safe:
  assumes "decoder_safe d" and "sd_consume f d = (res, d')"
  shows "decoder_safe d'" and "res = Inl e \<Longrightarrow> d' = d"
    and "res = Inr r \<Longrightarrow> list_all msg_complete (sr_messages r) \<and> sr_used_granules r \<le> 48"
proof -
  have step: "decoder_safe d' \<and> list_all msg_complete (sr_messages r) \<and> sr_used_granules r \<le> 48"
    if "sd_parse f d = Inr (d', r)" for d' r
  proof -
    from that obtain g d1 msgs n where "parse_carry f d = Inr (g, d1, msgs, n)"
      "parse_loop f g d1 msgs n = Inr (d', r)"
      by (auto simp: sd_parse_def rbind_eq_Inr split: if_splits)
    with parse_carry_safe [OF assms(1)] show ?thesis
      by (intro parse_loop_safe [of d1 msgs n g f]) blast+
  qed
  show "decoder_safe d'" "res = Inl e \<Longrightarrow> d' = d"
    "res = Inr r \<Longrightarrow> list_all msg_complete (sr_messages r) \<and> sr_used_granules r \<le> 48"
    using assms step by (auto simp: sd_consume_def split: sum.splits prod.splits)
qed

end
