(* ===== verification/Credit.thy ===== *)
theory Credit
  imports Msg_Codec
begin

text \<open>
  Granule credits (components/axi2flit/systemc/include/credit_manager.h): the per-plane, per-kind
  counters of a CreditManager, the coarse encodings in which credits travel, the header field and
  the dedicated CrdtGrant message. The lemmas show that what leaves the pending counters is exactly
  what the other side's decoder announces.
\<close>

section \<open>Kinds, updates and matrices\<close>

datatype CreditKind = WriteReq | ReadReq | WriteData | ReadData | WriteResp | Count

definition CREDIT_KIND_COUNT :: nat where "CREDIT_KIND_COUNT = 5"
definition CREDIT_COUNTER_MAX :: nat where "CREDIT_COUNTER_MAX = 4095"

fun msgtype_to_credit_kind :: "MsgType \<Rightarrow> CreditKind" where
  "msgtype_to_credit_kind MsgType.WriteReq = CreditKind.WriteReq"
| "msgtype_to_credit_kind MsgType.ReadReq = CreditKind.ReadReq"
| "msgtype_to_credit_kind MsgType.WriteData = CreditKind.WriteData"
| "msgtype_to_credit_kind MsgType.WriteDataFull = CreditKind.WriteData"
| "msgtype_to_credit_kind MsgType.ReadData = CreditKind.ReadData"
| "msgtype_to_credit_kind MsgType.WriteResp = CreditKind.WriteResp"
| "msgtype_to_credit_kind _ = CreditKind.Count"

fun credit_kind_index :: "CreditKind \<Rightarrow> nat" where
  "credit_kind_index CreditKind.WriteReq = 0"
| "credit_kind_index CreditKind.ReadReq = 1"
| "credit_kind_index CreditKind.WriteData = 2"
| "credit_kind_index CreditKind.ReadData = 3"
| "credit_kind_index CreditKind.WriteResp = 4"
| "credit_kind_index CreditKind.Count = 5"

definition credit_kind_of_index :: "nat \<Rightarrow> CreditKind" where
  "credit_kind_of_index k =
     (if k = 0 then CreditKind.WriteReq else if k = 1 then CreditKind.ReadReq
      else if k = 2 then CreditKind.WriteData else if k = 3 then CreditKind.ReadData
      else if k = 4 then CreditKind.WriteResp else CreditKind.Count)"

record CreditUpdate =
  cu_rp :: u8
  cu_kind :: CreditKind
  cu_granules :: nat

text \<open>
  \<open>std::array<std::array<unsigned, 5>, 4>\<close>, indexed by plane and kind; the code never indexes
  outside these bounds.
\<close>

type_synonym CreditMatrix = "nat \<Rightarrow> nat \<Rightarrow> nat"

definition mat_set :: "CreditMatrix \<Rightarrow> nat \<Rightarrow> nat \<Rightarrow> nat \<Rightarrow> CreditMatrix" where
  "mat_set m rp k v = m(rp := (m rp)(k := v))"

section \<open>Credit encodings\<close>

definition decode_credit_encoding :: "u8 \<Rightarrow> nat" where
  "decode_credit_encoding encoding = [0, 1, 4, 8, 16, 32, 64, 128] ! unat (encoding AND 0x7)"

fun encode_credit_loop :: "nat \<Rightarrow> nat \<Rightarrow> u8" where
  "encode_credit_loop pending enc =
     (if decode_credit_encoding (of_nat enc) \<le> pending then of_nat enc
      else case enc of 0 \<Rightarrow> 0 | Suc e \<Rightarrow> encode_credit_loop pending e)"

declare encode_credit_loop.simps [simp del]

definition encode_credit_amount :: "nat \<Rightarrow> nat \<Rightarrow> u8" where
  "encode_credit_amount pending max_encoding = encode_credit_loop pending max_encoding"

section \<open>CreditManager\<close>

record CreditManager =
  cm_rp_count :: nat
  cm_next_header_rp :: nat
  cm_tx_available :: CreditMatrix
  cm_rx_capacity :: CreditMatrix
  cm_rx_pending_return :: CreditMatrix

definition clear_matrix :: CreditMatrix where
  "clear_matrix = (\<lambda>_ _. 0)"

definition CreditManager_new :: "nat \<Rightarrow> CreditMatrix \<Rightarrow> CreditManager res" where
  "CreditManager_new rp_count rx_capacity =
     rassert (rp_count \<ge> 1 \<and> rp_count \<le> MAX_RESOURCE_PLANES) ''rp_count''
       (Inr \<lparr>cm_rp_count = rp_count, cm_next_header_rp = 0, cm_tx_available = clear_matrix,
             cm_rx_capacity = (\<lambda>rp. if rp \<ge> rp_count then (\<lambda>_. 0) else rx_capacity rp),
             cm_rx_pending_return = clear_matrix\<rparr>)"

definition make_capacity :: "nat \<Rightarrow> nat \<Rightarrow> nat \<Rightarrow> CreditMatrix" where
  "make_capacity rp_count rdata_per_rp wresp_per_rp =
     fold (\<lambda>rp m. mat_set (mat_set m rp (credit_kind_index CreditKind.ReadData) rdata_per_rp)
                    rp (credit_kind_index CreditKind.WriteResp) wresp_per_rp)
       [0..<rp_count] clear_matrix"

definition CreditManager_new_initiator :: "nat \<Rightarrow> nat \<Rightarrow> nat \<Rightarrow> CreditManager res" where
  "CreditManager_new_initiator rp_count rdata_capacity_per_rp wresp_capacity_per_rp =
     CreditManager_new rp_count (make_capacity rp_count rdata_capacity_per_rp wresp_capacity_per_rp)"

definition cm_reset :: "CreditManager \<Rightarrow> CreditManager" where
  "cm_reset c = c\<lparr>cm_tx_available := clear_matrix, cm_rx_pending_return := clear_matrix,
     cm_next_header_rp := 0\<rparr>"

definition publish_initial_capacity :: "CreditManager \<Rightarrow> CreditManager" where
  "publish_initial_capacity c = c\<lparr>cm_rx_pending_return := cm_rx_capacity c\<rparr>"

definition cu_valid :: "CreditManager \<Rightarrow> CreditUpdate \<Rightarrow> bool" where
  "cu_valid c update \<longleftrightarrow> unat (cu_rp update) < cm_rp_count c \<and> cu_kind update \<noteq> CreditKind.Count
     \<and> cu_granules update \<noteq> 0"

definition add_tx_credit :: "CreditUpdate \<Rightarrow> CreditManager \<Rightarrow> CreditManager" where
  "add_tx_credit update c =
     (if \<not> cu_valid c update then c
      else
        let rp = unat (cu_rp update); k = credit_kind_index (cu_kind update)
        in c\<lparr>cm_tx_available := mat_set (cm_tx_available c) rp k
               (min CREDIT_COUNTER_MAX (u32_add (cm_tx_available c rp k) (cu_granules update)))\<rparr>)"

definition can_consume :: "CreditManager \<Rightarrow> nat \<Rightarrow> MsgType \<Rightarrow> nat \<Rightarrow> bool" where
  "can_consume c rp type granules =
     (let kind = msgtype_to_credit_kind type
      in if rp \<ge> cm_rp_count c \<or> kind = CreditKind.Count then False
         else cm_tx_available c rp (credit_kind_index kind) \<ge> granules)"

definition cm_consume :: "CreditManager \<Rightarrow> nat \<Rightarrow> MsgType \<Rightarrow> nat \<Rightarrow> CreditManager res" where
  "cm_consume c rp type granules =
     (let kind = msgtype_to_credit_kind type; k = credit_kind_index kind
      in rassert (rp < cm_rp_count c \<and> kind \<noteq> CreditKind.Count) ''plane or kind''
           (rassert (cm_tx_available c rp k \<ge> granules) ''counter''
             (Inr (c\<lparr>cm_tx_available :=
                mat_set (cm_tx_available c) rp k (cm_tx_available c rp k - granules)\<rparr>))))"

definition return_rx_credit :: "CreditUpdate \<Rightarrow> CreditManager \<Rightarrow> CreditManager" where
  "return_rx_credit returned c =
     (if \<not> cu_valid c returned then c
      else
        let rp = unat (cu_rp returned); idx = credit_kind_index (cu_kind returned)
        in c\<lparr>cm_rx_pending_return := mat_set (cm_rx_pending_return c) rp idx
               (min (cm_rx_capacity c rp idx)
                    (u32_add (cm_rx_pending_return c rp idx) (cu_granules returned)))\<rparr>)"

definition plane_pending :: "CreditManager \<Rightarrow> nat \<Rightarrow> bool" where
  "plane_pending c rp = list_ex (\<lambda>k. cm_rx_pending_return c rp k \<noteq> 0) [0..<CREDIT_KIND_COUNT]"

definition has_pending_returns :: "CreditManager \<Rightarrow> bool" where
  "has_pending_returns c = list_ex (plane_pending c) [0..<cm_rp_count c]"

definition take_encoded :: "nat \<Rightarrow> CreditKind \<Rightarrow> nat \<Rightarrow> nat \<Rightarrow> u16 \<times> CreditManager \<Rightarrow> u16 \<times> CreditManager" where
  "take_encoded rp kind shift width fc =
     (let (field, c) = fc;
          idx = credit_kind_index kind;
          enc = encode_credit_amount (cm_rx_pending_return c rp idx) (2 ^ width - 1)
      in (field OR push_bit shift (ucast enc),
          c\<lparr>cm_rx_pending_return := mat_set (cm_rx_pending_return c) rp idx
             (cm_rx_pending_return c rp idx - decode_credit_encoding enc)\<rparr>))"

fun header_grant_scan :: "CreditManager \<Rightarrow> nat list \<Rightarrow> u16 \<times> CreditManager" where
  "header_grant_scan c [] = (0, c)"
| "header_grant_scan c (checked # rest) =
     (let rp = (cm_next_header_rp c + checked) mod cm_rp_count c
      in if \<not> plane_pending c rp then header_grant_scan c rest
         else
           let (field, c') =
                 take_encoded rp CreditKind.WriteResp 12 2
                 (take_encoded rp CreditKind.ReadData 9 3
                 (take_encoded rp CreditKind.WriteData 6 3
                 (take_encoded rp CreditKind.ReadReq 3 3
                 (take_encoded rp CreditKind.WriteReq 0 3 (of_nat (rp * 2 ^ 14), c)))))
           in (field, c'\<lparr>cm_next_header_rp := (rp + 1) mod cm_rp_count c\<rparr>))"

definition take_header_grant :: "CreditManager \<Rightarrow> u16 \<times> CreditManager" where
  "take_header_grant c = header_grant_scan c [0..<cm_rp_count c]"

definition misc_max_enc :: "nat \<Rightarrow> nat" where
  "misc_max_enc k = (if k = credit_kind_index CreditKind.WriteResp then 3 else 7)"

definition take_misc_one :: "nat \<times> nat \<Rightarrow> CreditMatrix \<times> CreditManager \<Rightarrow> CreditMatrix \<times> CreditManager" where
  "take_misc_one rk gc =
     (let (rp, k) = rk; (grants, c) = gc;
          enc = encode_credit_amount (cm_rx_pending_return c rp k) (misc_max_enc k);
          g = decode_credit_encoding enc
      in (mat_set grants rp k g,
          c\<lparr>cm_rx_pending_return := mat_set (cm_rx_pending_return c) rp k
             (cm_rx_pending_return c rp k - g)\<rparr>))"

definition take_misc_grants :: "CreditManager \<Rightarrow> CreditMatrix \<times> CreditManager" where
  "take_misc_grants c =
     fold take_misc_one (List.product [0..<cm_rp_count c] [0..<CREDIT_KIND_COUNT]) (clear_matrix, c)"

section \<open>CrdtGrant messages and header fields\<close>

definition grant_amount :: "CreditMatrix \<Rightarrow> nat \<Rightarrow> nat \<Rightarrow> nat \<Rightarrow> nat" where
  "grant_amount grants rp_count k rp = (if rp < rp_count then grants rp k else 0)"

definition crdt_grant_writer :: "CreditMatrix \<Rightarrow> nat \<Rightarrow> bit_writer" where
  "crdt_grant_writer grants rp_count =
     (let bw = bw_put (ucast (msg_type_code Misc)) 4 (bw_new (msg_data AouMessage_init));
          bw = bw_put (ucast MISCOP_CRDT_GRANT) 3 bw;
          bw = fold (\<lambda>kind bw. fold (\<lambda>rp.
                   bw_put (ucast (encode_credit_amount
                     (grant_amount grants rp_count (credit_kind_index kind) rp) 7)) 3)
                 [0..<MAX_RESOURCE_PLANES] bw)
               [CreditKind.WriteReq, CreditKind.ReadReq, CreditKind.WriteData, CreditKind.ReadData] bw;
          bw = fold (\<lambda>rp. bw_put (ucast (encode_credit_amount
                   (grant_amount grants rp_count (credit_kind_index CreditKind.WriteResp) rp) 3)) 2)
               [0..<MAX_RESOURCE_PLANES] bw
      in bw_skip 17 bw)"

definition build_crdt_grant_message :: "CreditMatrix \<Rightarrow> nat \<Rightarrow> AouMessage" where
  "build_crdt_grant_message grants rp_count =
     AouMessage_init\<lparr>msg_type := Misc, msg_rp := 0, msg_granules := MISC_CRDTGRANT_GRANULES,
       msg_byte_len := MISC_CRDTGRANT_GRANULES * GRANULE_BYTES,
       msg_data := bw_dst (crdt_grant_writer grants rp_count)\<rparr>"

definition read_grant :: "nat \<Rightarrow> nat \<Rightarrow> nat \<Rightarrow> nat \<Rightarrow> bit_reader \<times> CreditMatrix \<Rightarrow> bit_reader \<times> CreditMatrix" where
  "read_grant rp_count k width rp bg =
     (let (br, grants) = bg;
          (v, br) = br_get width br;
          amount = decode_credit_encoding (ucast v)
      in (br, if rp < rp_count then mat_set grants rp k amount else grants))"

definition decode_crdt_grant_message :: "AouMessage \<Rightarrow> nat \<Rightarrow> CreditMatrix option" where
  "decode_crdt_grant_message msg rp_count =
     (if msg_type msg \<noteq> Misc \<or> msg_byte_len msg < MISC_CRDTGRANT_GRANULES * GRANULE_BYTES then None
      else
        let br = br_new (msg_data msg);
            (msgtype, br) = br_get 4 br;
            (opcode, br) = br_get 3 br
        in if msgtype \<noteq> ucast (msg_type_code Misc) \<or> opcode \<noteq> ucast MISCOP_CRDT_GRANT then None
           else
             let bg = fold (\<lambda>kind bg. fold (read_grant rp_count (credit_kind_index kind) 3)
                        [0..<MAX_RESOURCE_PLANES] bg)
                      [CreditKind.WriteReq, CreditKind.ReadReq, CreditKind.WriteData, CreditKind.ReadData]
                      (br, clear_matrix);
                 (br, grants) = fold (read_grant rp_count (credit_kind_index CreditKind.WriteResp) 2)
                      [0..<MAX_RESOURCE_PLANES] bg;
                 br = br_skip 17 br
             in if br_bits br = 80 then Some grants else None)"

text \<open>
  The callback of \<open>decode_header_credits\<close> is called once per non-zero field, in this order; the
  model returns the list of its arguments.
\<close>

definition decode_header_credits :: "u16 \<Rightarrow> nat \<Rightarrow> CreditUpdate list" where
  "decode_header_credits field rp_count =
     (let rp = ucast (drop_bit 14 field AND 0x3) :: u8
      in if unat rp \<ge> rp_count then []
         else concat (map (\<lambda>(kind, shift, mask).
                let amount = decode_credit_encoding (ucast (drop_bit shift field AND mask))
                in if amount \<noteq> 0 then [\<lparr>cu_rp = rp, cu_kind = kind, cu_granules = amount\<rparr>] else [])
              [(CreditKind.WriteReq, 0, 7), (CreditKind.ReadReq, 3, 7), (CreditKind.WriteData, 6, 7),
               (CreditKind.ReadData, 9, 7), (CreditKind.WriteResp, 12, 3)]))"

section \<open>Encodings are exact and greedy\<close>

lemmas credit_consts = CREDIT_KIND_COUNT_def CREDIT_COUNTER_MAX_def

abbreviation credit_value :: "nat \<Rightarrow> nat" where
  "credit_value e \<equiv> [0, 1, 4, 8, 16, 32, 64, 128] ! e"

lemma less_8_cases: "(e::nat) < 8 \<longleftrightarrow> e \<in> {0, 1, 2, 3, 4, 5, 6, 7}"
  by auto

lemma decode_credit_encoding_of_nat:
  "e < 8 \<Longrightarrow> decode_credit_encoding (of_nat e) = credit_value e"
  by (auto simp: decode_credit_encoding_def less_8_cases)

lemma credit_value_mono: "a \<le> b \<Longrightarrow> b < 8 \<Longrightarrow> credit_value a \<le> credit_value b"
proof -
  have "sorted [0, 1, 4, 8, 16, 32, 64, 128 :: nat]"
    by simp
  then show "a \<le> b \<Longrightarrow> b < 8 \<Longrightarrow> credit_value a \<le> credit_value b"
    by (rule sorted_nth_mono) simp_all
qed

lemma encode_credit_loop_spec:
  assumes "m < 8"
  shows "\<exists>e\<le>m. encode_credit_loop p m = of_nat e \<and> credit_value e \<le> p
    \<and> (\<forall>j\<le>m. credit_value j \<le> p \<longrightarrow> j \<le> e)"
  using assms
proof (induction m)
  case 0
  then show ?case
    by (subst encode_credit_loop.simps) (simp add: decode_credit_encoding_def)
next
  case (Suc m)
  show ?case
  proof (cases "credit_value (Suc m) \<le> p")
    case True
    then show ?thesis
      using Suc.prems decode_credit_encoding_of_nat [of "Suc m"]
      by (subst encode_credit_loop.simps) (auto intro!: exI [of _ "Suc m"])
  next
    case False
    then have "encode_credit_loop p (Suc m) = encode_credit_loop p m"
      using Suc.prems decode_credit_encoding_of_nat [of "Suc m"]
      by (subst encode_credit_loop.simps) simp
    with Suc False show ?thesis
      by (metis Suc_lessD le_Suc_eq)
  qed
qed

text \<open>The greatest representable amount that does not exceed the pending count.\<close>

lemma encode_credit_amount_greatest:
  assumes "m < 8"
  obtains e where "encode_credit_amount p m = of_nat e" and "e \<le> m"
    and "decode_credit_encoding (encode_credit_amount p m) = credit_value e"
    and "credit_value e \<le> p" and "\<And>j. j \<le> m \<Longrightarrow> credit_value j \<le> p \<Longrightarrow> credit_value j \<le> credit_value e"
proof -
  from encode_credit_loop_spec [OF assms, of p] obtain e where e: "e \<le> m"
    "encode_credit_loop p m = of_nat e" "credit_value e \<le> p"
    "\<forall>j\<le>m. credit_value j \<le> p \<longrightarrow> j \<le> e"
    by blast
  show thesis
  proof (rule that [of e])
    show "decode_credit_encoding (encode_credit_amount p m) = credit_value e"
      using e assms by (simp add: encode_credit_amount_def decode_credit_encoding_of_nat)
    show "credit_value j \<le> credit_value e" if "j \<le> m" "credit_value j \<le> p" for j
      using that e assms by (intro credit_value_mono) auto
  qed (use e in \<open>simp_all add: encode_credit_amount_def\<close>)
qed

lemma encode_credit_amount_bound:
  assumes "m < 8"
  shows "unat (encode_credit_amount p m) \<le> m"
    and "decode_credit_encoding (encode_credit_amount p m) \<le> p"
proof -
  obtain e where e: "encode_credit_amount p m = of_nat e" "e \<le> m"
    "decode_credit_encoding (encode_credit_amount p m) = credit_value e" "credit_value e \<le> p"
    by (rule encode_credit_amount_greatest [OF assms, of p]) blast
  then show "unat (encode_credit_amount p m) \<le> m"
    "decode_credit_encoding (encode_credit_amount p m) \<le> p"
    using assms by (simp_all add: unat_of_nat)
qed

lemma encode_credit_amount_progress:
  assumes "0 < m" and "m < 8" and "0 < p"
  shows "0 < decode_credit_encoding (encode_credit_amount p m)"
proof -
  obtain e where "decode_credit_encoding (encode_credit_amount p m) = credit_value e"
    "\<And>j. j \<le> m \<Longrightarrow> credit_value j \<le> p \<Longrightarrow> credit_value j \<le> credit_value e"
    by (rule encode_credit_amount_greatest [OF assms(2), of p]) blast
  from this(1) this(2) [of 1] show ?thesis
    using assms by simp
qed

text \<open>Amounts that came out of the encoder encode back to themselves.\<close>

lemma encode_representable:
  assumes "e \<le> m" and "m < 8"
  shows "encode_credit_amount (credit_value e) m = of_nat e"
proof -
  obtain e' where e': "encode_credit_amount (credit_value e) m = of_nat e'" "e' \<le> m"
    "credit_value e' \<le> credit_value e"
    "\<And>j. j \<le> m \<Longrightarrow> credit_value j \<le> credit_value e \<Longrightarrow> credit_value j \<le> credit_value e'"
    by (rule encode_credit_amount_greatest [OF assms(2), of "credit_value e"]) blast
  have "credit_value e' = credit_value e"
    using e'(3) e'(4) [of e] assms by simp
  moreover have "distinct [0, 1, 4, 8, 16, 32, 64, 128 :: nat]"
    by simp
  ultimately have "e' = e"
    using e'(2) assms by (simp add: nth_eq_iff_index_eq del: distinct.simps)
  with e' show ?thesis by simp
qed

section \<open>Header grants\<close>

text \<open>The credit of plane \<open>rp\<close> and kind index \<open>k\<close> that a list of updates carries.\<close>

definition announced :: "CreditUpdate list \<Rightarrow> nat \<Rightarrow> nat \<Rightarrow> nat" where
  "announced us rp k =
     sum_list (map cu_granules (filter (\<lambda>u. unat (cu_rp u) = rp \<and> credit_kind_index (cu_kind u) = k) us))"

lemma announced_simps [simp]:
  "announced [] rp k = 0"
  "announced (u # us) rp k =
    (if unat (cu_rp u) = rp \<and> credit_kind_index (cu_kind u) = k then cu_granules u else 0)
    + announced us rp k"
  "announced (us @ vs) rp k = announced us rp k + announced vs rp k"
  by (simp_all add: announced_def)

lemma mat_set_apply [simp]: "mat_set m rp k v rp' k' = (if rp' = rp \<and> k' = k then v else m rp' k')"
  by (simp add: mat_set_def)

lemma less_4_cases: "(rp::nat) < 4 \<longleftrightarrow> rp \<in> {0, 1, 2, 3}"
  by auto

lemma small_bits:
  assumes "unat (e::u8) < 2 ^ w" and "w \<le> n"
  shows "\<not> bit e n"
proof
  assume "bit e n"
  then have "odd (unat e div 2 ^ n)"
    by (metis bit_unsigned_iff bit_iff_odd possible_bit_nat)
  then have "2 ^ n \<le> unat e"
    by (metis div_less even_zero not_le)
  with assms show False
    by (meson leD less_le_trans one_le_numeral order.trans power_increasing)
qed

lemma bit_rp_field:
  assumes "rp < 4"
  shows "bit (of_nat rp * 16384 :: u16) n \<longleftrightarrow> 14 \<le> n \<and> n < 16 \<and> bit (of_nat rp :: u8) (n - 14)"
proof -
  have "(of_nat rp * 16384 :: u16) = push_bit 14 (of_nat rp)"
    by (simp add: push_bit_eq_mult)
  moreover have "rp \<in> {0, 1, 2, 3}"
    using assms by auto
  ultimately show ?thesis
    by (auto simp: bit_push_bit_iff bit_of_nat_iff)
qed

abbreviation header_field :: "nat \<Rightarrow> u8 \<Rightarrow> u8 \<Rightarrow> u8 \<Rightarrow> u8 \<Rightarrow> u8 \<Rightarrow> u16" where
  "header_field rp e0 e1 e2 e3 e4 \<equiv> of_nat (rp * 2 ^ 14) OR push_bit 0 (ucast e0) OR push_bit 3 (ucast e1)
     OR push_bit 6 (ucast e2) OR push_bit 9 (ucast e3) OR push_bit 12 (ucast e4)"

lemma header_field_parts:
  assumes rp: "rp < 4" and e: "unat e0 < 8" "unat e1 < 8" "unat e2 < 8" "unat e3 < 8" "unat e4 < 4"
  shows "drop_bit 14 (header_field rp e0 e1 e2 e3 e4) AND 3 = of_nat rp" (is ?r)
    and "drop_bit 0 (header_field rp e0 e1 e2 e3 e4) AND 7 = ucast e0" (is ?a)
    and "drop_bit 3 (header_field rp e0 e1 e2 e3 e4) AND 7 = ucast e1" (is ?b)
    and "drop_bit 6 (header_field rp e0 e1 e2 e3 e4) AND 7 = ucast e2" (is ?c)
    and "drop_bit 9 (header_field rp e0 e1 e2 e3 e4) AND 7 = ucast e3" (is ?d)
    and "drop_bit 12 (header_field rp e0 e1 e2 e3 e4) AND 3 = ucast e4" (is ?e)
proof -
  have b: "3 \<le> n \<Longrightarrow> \<not> bit e0 n" "3 \<le> n \<Longrightarrow> \<not> bit e1 n" "3 \<le> n \<Longrightarrow> \<not> bit e2 n"
    "3 \<le> n \<Longrightarrow> \<not> bit e3 n" "2 \<le> n \<Longrightarrow> \<not> bit e4 n" for n
    using small_bits [of _ 3 n] small_bits [of e4 2 n] e by simp_all
  then have bd: "bit e0 n \<Longrightarrow> n < 3" "bit e1 n \<Longrightarrow> n < 3" "bit e2 n \<Longrightarrow> n < 3"
    "bit e3 n \<Longrightarrow> n < 3" "bit e4 n \<Longrightarrow> n < 2" for n
    by (meson not_le)+
  have m: "(7::u16) = mask 3" "(3::u16) = mask 2"
    by (simp_all add: mask_eq_exp_minus_1)
  note bits = bit_and_iff bit_mask_iff bit_drop_bit_eq bit_or_iff bit_push_bit_iff bit_ucast_iff
    bit_rp_field [OF rp]
  have r: "of_nat rp = (ucast (of_nat rp :: u8) :: u16)"
    using rp by (auto simp: less_4_cases)
  have rb: "n < 2" if "bit (of_nat rp :: u8) n" for n
    using that small_bits [of "of_nat rp" 2 n] rp by (intro not_le_imp_less notI) (simp add: unat_of_nat)
  have lt3: "n < 3 \<longleftrightarrow> n = 0 \<or> n = 1 \<or> n = 2" and lt2: "n < 2 \<longleftrightarrow> n = 0 \<or> n = 1" for n :: nat
    by auto
  show ?r
    unfolding m r by (rule bit_word_eqI) (auto simp: bits b dest: rb)
  show ?a
    unfolding m by (rule bit_word_eqI) (auto simp: bits b dest: bd)
  show ?b
    unfolding m by (rule bit_word_eqI) (auto simp: bits b dest: bd)
  show ?c
    unfolding m by (rule bit_word_eqI) (auto simp: bits b dest: bd)
  show ?d
    unfolding m by (rule bit_word_eqI) (auto simp: bits b dest: bd)
  show ?e
    unfolding m by (rule bit_word_eqI) (auto simp: bits b dest: bd)
qed

lemma ucast_enc: "(ucast (ucast (e::u8) :: u16) :: u8) = e"
  by (rule bit_word_eqI) (simp add: bit_ucast_iff)

lemma announced_one:
  "announced (if a \<noteq> 0 then [\<lparr>cu_rp = rp, cu_kind = kind, cu_granules = a\<rparr>] else []) rp' k =
    (if unat rp = rp' \<and> credit_kind_index kind = k then a else 0)"
  by simp

abbreviation header_enc :: "CreditManager \<Rightarrow> nat \<Rightarrow> nat \<Rightarrow> u8" where
  "header_enc c rp k \<equiv> encode_credit_amount (cm_rx_pending_return c rp k) (misc_max_enc k)"

lemma decode_header_field:
  assumes "rp < rp_count" and "rp_count \<le> 4"
    and "unat e0 < 8" "unat e1 < 8" "unat e2 < 8" "unat e3 < 8" "unat e4 < 4"
  shows "announced (decode_header_credits (header_field rp e0 e1 e2 e3 e4) rp_count) rp' k =
    (if rp' \<noteq> rp then 0 else if k = 0 then decode_credit_encoding e0
     else if k = 1 then decode_credit_encoding e1 else if k = 2 then decode_credit_encoding e2
     else if k = 3 then decode_credit_encoding e3 else if k = 4 then decode_credit_encoding e4 else 0)"
proof -
  have rp: "rp < 4"
    using assms by simp
  have r: "unat (ucast (of_nat rp :: u16) :: u8) = rp"
    using rp by (auto simp: less_4_cases)
  show ?thesis
    unfolding decode_header_credits_def header_field_parts(1) [OF rp assms(3-7)] Let_def
    unfolding list.map concat.simps prod.case append_Nil2 announced_simps(3) announced_one
      header_field_parts(2-6) [OF rp assms(3-7)] r ucast_enc
    using assms(1) by (auto simp: r)
qed

lemma decode_header_zero: "announced (decode_header_credits 0 rp_count) rp k = 0"
  by (simp add: decode_header_credits_def decode_credit_encoding_def)

lemma take_five:
  "take_encoded rp CreditKind.WriteResp 12 2
     (take_encoded rp CreditKind.ReadData 9 3
     (take_encoded rp CreditKind.WriteData 6 3
     (take_encoded rp CreditKind.ReadReq 3 3
     (take_encoded rp CreditKind.WriteReq 0 3 (of_nat (rp * 2 ^ 14), c))))) =
   (header_field rp (header_enc c rp 0) (header_enc c rp 1) (header_enc c rp 2)
      (header_enc c rp 3) (header_enc c rp 4),
    c\<lparr>cm_rx_pending_return := (\<lambda>r k. cm_rx_pending_return c r k -
       (if r = rp \<and> k < 5 then decode_credit_encoding (header_enc c rp k) else 0))\<rparr>)"
proof -
  have five: "k < 5 \<Longrightarrow> k \<in> {0, Suc 0, 2, 3, 4}" for k :: nat
    by auto
  show ?thesis
    by (simp add: take_encoded_def misc_max_enc_def Let_def or.assoc,
        rule arg_cong [where f = "\<lambda>p. c\<lparr>cm_rx_pending_return := p\<rparr>"])
       (intro ext, auto simp: misc_max_enc_def dest!: five)
qed

lemma header_grant_scan_spec:
  "header_grant_scan c is = (case find (\<lambda>i. plane_pending c ((cm_next_header_rp c + i) mod cm_rp_count c)) is of
      None \<Rightarrow> (0, c)
    | Some i \<Rightarrow>
        let rp = (cm_next_header_rp c + i) mod cm_rp_count c
        in (header_field rp (header_enc c rp 0) (header_enc c rp 1) (header_enc c rp 2)
              (header_enc c rp 3) (header_enc c rp 4),
            c\<lparr>cm_rx_pending_return := (\<lambda>r k. cm_rx_pending_return c r k -
                (if r = rp \<and> k < 5 then decode_credit_encoding (header_enc c rp k) else 0)),
              cm_next_header_rp := (rp + 1) mod cm_rp_count c\<rparr>))"
  by (induction "is") (simp_all only: header_grant_scan.simps take_five Let_def prod.case find.simps
      option.case if_distrib [of "case_option _ _"] split: if_splits, auto)

definition cm_wf :: "CreditManager \<Rightarrow> bool" where
  "cm_wf c \<longleftrightarrow> 1 \<le> cm_rp_count c \<and> cm_rp_count c \<le> MAX_RESOURCE_PLANES"

lemma misc_max_enc_less: "misc_max_enc k < 8" "0 < misc_max_enc k"
  by (simp_all add: misc_max_enc_def)

lemma header_enc_small:
  "unat (header_enc c rp 0) < 8" "unat (header_enc c rp 1) < 8" "unat (header_enc c rp 2) < 8"
  "unat (header_enc c rp 3) < 8" "unat (header_enc c rp 4) < 4"
proof -
  have lt: "unat (header_enc c rp k) \<le> misc_max_enc k" for k
    by (rule encode_credit_amount_bound(1) [OF misc_max_enc_less(1)])
  show "unat (header_enc c rp 0) < 8" "unat (header_enc c rp 1) < 8" "unat (header_enc c rp 2) < 8"
    "unat (header_enc c rp 3) < 8" "unat (header_enc c rp 4) < 4"
    using lt [of 0] lt [of 1] lt [of 2] lt [of 3] lt [of 4] by (simp_all add: misc_max_enc_def)
qed

lemma decode_header_enc:
  assumes "cm_wf c" and "rp < cm_rp_count c"
  shows "announced (decode_header_credits (header_field rp (header_enc c rp 0) (header_enc c rp 1)
      (header_enc c rp 2) (header_enc c rp 3) (header_enc c rp 4)) (cm_rp_count c)) rp' k =
    (if rp' = rp \<and> k < 5 then decode_credit_encoding (header_enc c rp k) else 0)"
proof -
  have five: "k < 5 \<Longrightarrow> k \<in> {0, 1, 2, 3, 4}"
    by auto
  show ?thesis
    using assms five
    by (subst decode_header_field [OF _ _ header_enc_small])
       (auto simp: cm_wf_def aou_consts)
qed

text \<open>
  A header field announces to the peer exactly what leaves the pending counters, and it announces
  something whenever there is something to return.
\<close>

lemma take_header_grant_conserves:
  assumes "cm_wf c" and "take_header_grant c = (field, c')"
  shows "announced (decode_header_credits field (cm_rp_count c)) rp k + cm_rx_pending_return c' rp k
    = cm_rx_pending_return c rp k"
proof (cases "find (\<lambda>i. plane_pending c ((cm_next_header_rp c + i) mod cm_rp_count c)) [0..<cm_rp_count c]")
  case None
  then show ?thesis
    using assms(2) decode_header_zero by (simp add: take_header_grant_def header_grant_scan_spec)
next
  case (Some i)
  let ?rp = "(cm_next_header_rp c + i) mod cm_rp_count c"
  have "?rp < cm_rp_count c"
    using assms(1) by (simp add: cm_wf_def)
  note dec = decode_header_enc [OF assms(1) this, of rp k]
  have field: "field = header_field ?rp (header_enc c ?rp 0) (header_enc c ?rp 1) (header_enc c ?rp 2)
      (header_enc c ?rp 3) (header_enc c ?rp 4)"
    and c': "cm_rx_pending_return c' rp k = cm_rx_pending_return c rp k -
      (if rp = ?rp \<and> k < 5 then decode_credit_encoding (header_enc c ?rp k) else 0)"
    using assms(2) Some unfolding take_header_grant_def header_grant_scan_spec
    by (auto simp: Let_def)
  show ?thesis
    unfolding field dec c'
    using encode_credit_amount_bound(2) [OF misc_max_enc_less(1), of "cm_rx_pending_return c rp k" k]
    by auto
qed

lemma plane_scan_complete:
  assumes "rp < n"
  obtains i where "i < n" and "(s + i) mod n = (rp::nat)"
proof (rule that [of "(rp + (n - s mod n)) mod n"])
  have "(s + (rp + (n - s mod n)) mod n) mod n = (s mod n + (rp + (n - s mod n))) mod n"
    by (simp add: mod_simps)
  also have "\<dots> = (rp + n) mod n"
    using mod_less_divisor [of n s] assms by (intro arg_cong [where f = "\<lambda>x. x mod n"]) linarith
  finally show "(s + (rp + (n - s mod n)) mod n) mod n = rp"
    using assms by simp
qed (use assms in simp)

lemma take_header_grant_progress:
  assumes "cm_wf c" and "has_pending_returns c" and "take_header_grant c = (field, c')"
  shows "\<exists>rp<cm_rp_count c. \<exists>k<5. 0 < announced (decode_header_credits field (cm_rp_count c)) rp k"
proof -
  from assms(2) obtain rp0 where "rp0 < cm_rp_count c" "plane_pending c rp0"
    by (auto simp: has_pending_returns_def list_ex_iff)
  then obtain i0 where "i0 < cm_rp_count c"
    "plane_pending c ((cm_next_header_rp c + i0) mod cm_rp_count c)"
    using plane_scan_complete [of rp0 "cm_rp_count c" "cm_next_header_rp c"] by metis
  then obtain i where i: "find (\<lambda>i. plane_pending c ((cm_next_header_rp c + i) mod cm_rp_count c))
      [0..<cm_rp_count c] = Some i"
    by (metis (no_types, lifting) atLeastLessThan_iff find_None_iff option.exhaust set_upt zero_le)
  let ?rp = "(cm_next_header_rp c + i) mod cm_rp_count c"
  have rp: "?rp < cm_rp_count c"
    using assms(1) by (simp add: cm_wf_def)
  from i have "plane_pending c ?rp"
    by (auto simp: find_Some_iff)
  then obtain k where k: "k < 5" "0 < cm_rx_pending_return c ?rp k"
    by (auto simp: plane_pending_def list_ex_iff credit_consts)
  have field: "field = header_field ?rp (header_enc c ?rp 0) (header_enc c ?rp 1) (header_enc c ?rp 2)
      (header_enc c ?rp 3) (header_enc c ?rp 4)"
    using assms(3) i unfolding take_header_grant_def header_grant_scan_spec by (auto simp: Let_def)
  have "0 < announced (decode_header_credits field (cm_rp_count c)) ?rp k"
    unfolding field decode_header_enc [OF assms(1) rp]
    using k encode_credit_amount_progress [OF misc_max_enc_less(2,1)] by simp
  with rp k show ?thesis by blast
qed

end
