(* ===== verification/Credit_Grant.thy ===== *)
theory Credit_Grant
  imports Credit
begin

text \<open>
  The dedicated CrdtGrant message (credit_manager.h): what \<open>take_misc_grants\<close> removes from the
  pending counters, how the amounts travel through \<open>build_crdt_grant_message\<close> and
  \<open>decode_crdt_grant_message\<close>, and the credit events the receiver makes of them
  (\<open>FlitUnpacker::emit_credit_matrix\<close>). The locale \<open>credit_channel\<close> states what both ways of
  returning credit promise; it is interpreted for the header field and for the message.
\<close>

section \<open>Taking the grants\<close>

abbreviation grant_of :: "CreditManager \<Rightarrow> nat \<Rightarrow> nat \<Rightarrow> nat" where
  "grant_of c rp k \<equiv>
     decode_credit_encoding (encode_credit_amount (cm_rx_pending_return c rp k) (misc_max_enc k))"

lemma grant_of_le: "grant_of c rp k \<le> cm_rx_pending_return c rp k"
  by (rule encode_credit_amount_bound(2) [OF misc_max_enc_less(1)])

lemma grant_of_progress: "0 < cm_rx_pending_return c rp k \<Longrightarrow> 0 < grant_of c rp k"
  by (rule encode_credit_amount_progress [OF misc_max_enc_less(2,1)])

lemma grant_of_representable:
  obtains e where "e \<le> misc_max_enc k" and "grant_of c rp k = credit_value e"
  by (rule encode_credit_amount_greatest [OF misc_max_enc_less(1)])

lemma fold_take_misc:
  "distinct xs \<Longrightarrow> fold take_misc_one xs (g, c) =
    ((\<lambda>rp k. if (rp, k) \<in> set xs then grant_of c rp k else g rp k),
     c\<lparr>cm_rx_pending_return := (\<lambda>rp k. cm_rx_pending_return c rp k -
        (if (rp, k) \<in> set xs then grant_of c rp k else 0))\<rparr>)"
proof (induction xs arbitrary: g c)
  case (Cons x xs)
  obtain rp k where x: "x = (rp, k)"
    by (cases x)
  let ?c = "c\<lparr>cm_rx_pending_return := mat_set (cm_rx_pending_return c) rp k
     (cm_rx_pending_return c rp k - grant_of c rp k)\<rparr>"
  have "fold take_misc_one (x # xs) (g, c) = fold take_misc_one xs (mat_set g rp k (grant_of c rp k), ?c)"
    by (simp add: x take_misc_one_def Let_def)
  also have "\<dots> = ((\<lambda>rp' k'. if (rp', k') \<in> set xs then grant_of ?c rp' k' else mat_set g rp k (grant_of c rp k) rp' k'),
     ?c\<lparr>cm_rx_pending_return := (\<lambda>rp' k'. cm_rx_pending_return ?c rp' k' -
        (if (rp', k') \<in> set xs then grant_of ?c rp' k' else 0))\<rparr>)"
    using Cons by simp
  also have "\<dots> = ((\<lambda>rp k. if (rp, k) \<in> set (x # xs) then grant_of c rp k else g rp k),
     c\<lparr>cm_rx_pending_return := (\<lambda>rp k. cm_rx_pending_return c rp k -
        (if (rp, k) \<in> set (x # xs) then grant_of c rp k else 0))\<rparr>)"
    using Cons.prems
    by (auto simp: x intro!: ext arg_cong [where f = "\<lambda>p. c\<lparr>cm_rx_pending_return := p\<rparr>"])
  finally show ?case .
qed simp

lemma take_misc_grants_eq:
  "take_misc_grants c =
    ((\<lambda>rp k. if rp < cm_rp_count c \<and> k < 5 then grant_of c rp k else 0),
     c\<lparr>cm_rx_pending_return := (\<lambda>rp k. cm_rx_pending_return c rp k -
        (if rp < cm_rp_count c \<and> k < 5 then grant_of c rp k else 0))\<rparr>)"
  unfolding take_misc_grants_def
  by (subst fold_take_misc) (simp_all add: distinct_product credit_consts clear_matrix_def fun_eq_iff)

section \<open>Building and decoding the message\<close>

text \<open>Amounts the encoder of the message can represent, on the planes that exist.\<close>

definition grants_ok :: "nat \<Rightarrow> CreditMatrix \<Rightarrow> bool" where
  "grants_ok n g \<longleftrightarrow> (\<forall>rp k. if rp < n \<and> k < 5 then \<exists>e\<le>misc_max_enc k. g rp k = credit_value e
      else g rp k = 0)"

lemma take_misc_grants_ok: "grants_ok (cm_rp_count c) (fst (take_misc_grants c))"
proof -
  have "\<exists>e\<le>misc_max_enc k. grant_of c rp k = credit_value e" for rp k
    by (rule grant_of_representable [of k c rp]) blast
  then show ?thesis
    by (simp add: take_misc_grants_eq grants_ok_def)
qed

lemma fold_bw_put_holds:
  assumes "bw_holds n S bw" and "length S + w * length xs \<le> 8 * n"
  shows "bw_holds n (S @ concat (map (\<lambda>x. to_bits w (f x)) xs)) (fold (\<lambda>x. bw_put (f x) w) xs bw)"
  using assms
proof (induction xs arbitrary: S bw)
  case (Cons x xs)
  have "bw_holds n (S @ to_bits w (f x)) (bw_put (f x) w bw)"
    using Cons.prems by (intro bw_put_holds) simp_all
  from Cons.IH [OF this] show ?case
    using Cons.prems by simp
qed simp

abbreviation grant_enc :: "CreditMatrix \<Rightarrow> nat \<Rightarrow> nat \<Rightarrow> nat \<Rightarrow> u8" where
  "grant_enc g n k rp \<equiv> encode_credit_amount (grant_amount g n k rp) (misc_max_enc k)"

abbreviation grant_bits :: "CreditMatrix \<Rightarrow> nat \<Rightarrow> nat \<Rightarrow> nat \<Rightarrow> bool list" where
  "grant_bits g n w k \<equiv> concat (map (\<lambda>rp. to_bits w (ucast (grant_enc g n k rp))) [0..<4])"

lemma length_grant_bits: "length (concat (map (\<lambda>rp. to_bits w (f rp)) [0..<4])) = 4 * w"
  by (simp add: length_concat upt_rec numeral_eq_Suc)

lemma crdt_grant_writer_holds:
  "bw_holds 240
    (to_bits 4 0 @ to_bits 3 4 @ grant_bits g n 3 0 @ grant_bits g n 3 1 @ grant_bits g n 3 2
      @ grant_bits g n 3 3 @ grant_bits g n 2 4 @ replicate 17 False)
    (crdt_grant_writer g n)"
proof -
  have hdr: "bw_holds 240 (to_bits 4 0 @ to_bits 3 4)
      (bw_put (ucast MISCOP_CRDT_GRANT) 3 (bw_put (ucast (msg_type_code Misc)) 4 (bw_new (msg_data AouMessage_init))))"
    unfolding data_init granule_consts
    using bw_put_holds [OF bw_put_holds [OF bw_holds_new, of 4 240 0], of 3 4] by simp
  have step: "bw_holds 240 (S @ grant_bits g n w k)
      (fold (\<lambda>rp. bw_put (ucast (grant_enc g n k rp)) w) [0..<4] bw)"
    if "bw_holds 240 S bw" "length S + 4 * w \<le> 1920" for S w k bw
    using that by (intro fold_bw_put_holds) simp_all
  have m: "misc_max_enc 0 = 7" "misc_max_enc 1 = 7" "misc_max_enc 2 = 7" "misc_max_enc 3 = 7"
    "misc_max_enc 4 = 3"
    by (simp_all add: misc_max_enc_def)
  note st = step [of _ _ 3 0, unfolded m] step [of _ _ 3 1, unfolded m] step [of _ _ 3 2, unfolded m]
    step [of _ _ 3 3, unfolded m] step [of _ _ 2 4, unfolded m]
  have "bw_holds 240 (((((((to_bits 4 0 @ to_bits 3 4) @ grant_bits g n 3 0) @ grant_bits g n 3 1)
      @ grant_bits g n 3 2) @ grant_bits g n 3 3) @ grant_bits g n 2 4) @ replicate 17 False)
    (crdt_grant_writer g n)"
    unfolding crdt_grant_writer_def Let_def fold_simps credit_kind_index.simps aou_consts id_apply comp_apply m
    by (intro bw_skip_holds st hdr) (simp_all add: length_grant_bits)
  then show ?thesis
    by simp
qed

lemma fold_read_grant:
  assumes "drop pos (bits_of src) = concat (map (\<lambda>rp. to_bits w (ucast (e rp))) rps) @ rest"
    and "pos + w * length rps \<le> 8 * length src" and "w \<le> 8" and "\<And>rp. unat (e rp :: u8) < 2 ^ w"
  shows "fold (read_grant n k w) rps (\<lparr>br_src = src, br_bit = pos, br_fail = False\<rparr>, g) =
    (\<lparr>br_src = src, br_bit = pos + w * length rps, br_fail = False\<rparr>,
     \<lambda>r k'. if r \<in> set rps \<and> r < n \<and> k' = k then decode_credit_encoding (e r) else g r k')"
  using assms(1,2)
proof (induction rps arbitrary: pos g)
  case (Cons rp rps)
  have v: "ucast (take_bit w (ucast (e rp) :: u64)) = e rp"
  proof (rule bit_word_eqI)
    fix i assume "i < LENGTH(8)"
    then show "bit (ucast (take_bit w (ucast (e rp) :: u64)) :: u8) i = bit (e rp) i"
      using small_bits [OF assms(4), of i rp] by (auto simp: bit_ucast_iff bit_take_bit_iff not_less [symmetric])
  qed
  have "take w (drop pos (bits_of src)) = to_bits w (ucast (e rp))"
    by (simp add: Cons.prems(1))
  then have "read_grant n k w rp (\<lparr>br_src = src, br_bit = pos, br_fail = False\<rparr>, g) =
      (\<lparr>br_src = src, br_bit = pos + w, br_fail = False\<rparr>,
       if rp < n then mat_set g rp k (decode_credit_encoding (e rp)) else g)"
    using Cons.prems(2) assms(3) v by (simp add: read_grant_def br_get_eq of_to_bits)
  moreover have "drop (pos + w) (bits_of src) = concat (map (\<lambda>rp. to_bits w (ucast (e rp))) rps) @ rest"
    using arg_cong [OF Cons.prems(1), of "drop w"] by (simp add: add.commute)
  ultimately show ?case
    using Cons.IH Cons.prems(2) by (simp add: add.assoc) (auto simp: fun_eq_iff)
qed auto

abbreviation grants_read :: "(nat \<Rightarrow> nat \<Rightarrow> u8) \<Rightarrow> nat \<Rightarrow> nat \<Rightarrow> CreditMatrix" where
  "grants_read e n m \<equiv> (\<lambda>r k. if r < 4 \<and> r < n \<and> k < m then decode_credit_encoding (e k r) else 0)"

lemma decode_crdt_grant_bits:
  assumes msg: "msg_type msg = Misc" "10 \<le> msg_byte_len msg" "length (msg_data msg) = 240"
    and bits: "bits_of (msg_data msg) = to_bits 4 0 @ to_bits 3 4
      @ concat (map (\<lambda>rp. to_bits 3 (ucast (e 0 rp))) [0..<4])
      @ concat (map (\<lambda>rp. to_bits 3 (ucast (e 1 rp))) [0..<4])
      @ concat (map (\<lambda>rp. to_bits 3 (ucast (e 2 rp))) [0..<4])
      @ concat (map (\<lambda>rp. to_bits 3 (ucast (e 3 rp))) [0..<4])
      @ concat (map (\<lambda>rp. to_bits 2 (ucast (e 4 rp))) [0..<4]) @ rest"
    and small: "\<And>k rp. k < 4 \<Longrightarrow> unat (e k rp :: u8) < 8" "\<And>rp. unat (e 4 rp) < 4"
  shows "decode_crdt_grant_message msg n = Some (grants_read e n 5)"
proof -
  let ?src = "msg_data msg"
  let ?br = "\<lambda>pos. \<lparr>br_src = ?src, br_bit = pos, br_fail = False\<rparr>"
  have g1: "br_get 4 (br_new ?src) = (0, ?br 4)"
    using msg(3) by (simp add: br_new_def br_get_eq bits of_to_bits)
  have g2: "br_get 3 (?br 4) = (4, ?br 7)"
    using msg(3) by (simp add: br_get_eq bits of_to_bits)
  have rd: "fold (read_grant n k 3) [0..<4] (?br pos, g) =
      (?br (pos + 12), \<lambda>r k'. if r < 4 \<and> r < n \<and> k' = k then decode_credit_encoding (e k r) else g r k')"
    if "drop pos (bits_of ?src) = concat (map (\<lambda>rp. to_bits 3 (ucast (e k rp))) [0..<4]) @ xs"
      "pos \<le> 1900" "k < 4" for pos k g xs
    using fold_read_grant [OF that(1)] that msg(3) small(1) by simp
  have "fold (read_grant n 0 3) [0..<4] (?br 7, clear_matrix) = (?br 19, grants_read e n 1)"
    by (subst rd [where pos = 7 and k = 0])
       (auto simp: bits length_grant_bits clear_matrix_def fun_eq_iff)
  moreover have "fold (read_grant n 1 3) [0..<4] (?br 19, grants_read e n 1) = (?br 31, grants_read e n 2)"
    by (subst rd [where pos = 19 and k = 1])
       (auto simp: bits length_grant_bits fun_eq_iff less_2_cases_iff)
  moreover have "fold (read_grant n 2 3) [0..<4] (?br 31, grants_read e n 2) = (?br 43, grants_read e n 3)"
    by (subst rd [where pos = 31 and k = 2]) (auto simp: bits length_grant_bits fun_eq_iff)
  moreover have "fold (read_grant n 3 3) [0..<4] (?br 43, grants_read e n 3) = (?br 55, grants_read e n 4)"
    by (subst rd [where pos = 43 and k = 3]) (auto simp: bits length_grant_bits fun_eq_iff)
  moreover have "fold (read_grant n 4 2) [0..<4] (?br 55, grants_read e n 4) = (?br 63, grants_read e n 5)"
    by (subst fold_read_grant [where e = "e 4" and rest = rest])
       (use msg(3) small(2) in \<open>auto simp: bits length_grant_bits fun_eq_iff\<close>)
  ultimately show ?thesis
    using msg(1,2) g1 g2
    by (simp add: decode_crdt_grant_message_def Let_def aou_consts granule_consts br_skip_def br_bits_def)
qed

lemma decode_crdt_grant_build:
  assumes "grants_ok n g" and "n \<le> 4"
  shows "decode_crdt_grant_message (build_crdt_grant_message g n) n = Some g"
proof -
  note h = crdt_grant_writer_holds [of g n, unfolded bw_holds_def]
  have small: "unat (grant_enc g n k rp) \<le> misc_max_enc k" for k rp
    by (rule encode_credit_amount_bound(1) [OF misc_max_enc_less(1)])
  have "grants_read (grant_enc g n) n 5 = g"
  proof (intro ext)
    fix rp k
    show "grants_read (grant_enc g n) n 5 rp k = g rp k"
    proof (cases "rp < n \<and> k < 5")
      case True
      with assms(1) obtain e where e: "e \<le> misc_max_enc k" "g rp k = credit_value e"
        unfolding grants_ok_def by meson
      then have "e < 8"
        using misc_max_enc_less(1) [of k] by linarith
      then show ?thesis
        using True assms(2) e encode_representable [OF e(1) misc_max_enc_less(1)]
          decode_credit_encoding_of_nat [of e]
        by (simp add: grant_amount_def)
    next
      case False
      with assms show ?thesis
        by (auto simp: grants_ok_def)
    qed
  qed
  moreover have "decode_crdt_grant_message (build_crdt_grant_message g n) n =
      Some (grants_read (grant_enc g n) n 5)"
  proof (rule decode_crdt_grant_bits)
    show "unat (grant_enc g n k rp) < 8" for k rp
      using small [of k rp] misc_max_enc_less(1) [of k] by simp
    show "unat (grant_enc g n 4 rp) < 4" for rp
      using small [of 4 rp] by (simp add: misc_max_enc_def)
  qed (use h in \<open>simp_all add: build_crdt_grant_message_def aou_consts granule_consts\<close>)
  ultimately show ?thesis by simp
qed

text \<open>The first byte of a CrdtGrant: type 0 and opcode 4, followed by one bit of the first amount.\<close>

lemma crdt_grant_first_byte:
  "msg_data (build_crdt_grant_message g n) ! 0 \<in> {8, 9}"
proof -
  let ?d = "msg_data (build_crdt_grant_message g n)"
  note h = crdt_grant_writer_holds [of g n, unfolded bw_holds_def]
  have four: "[0..<4] = 0 # [1..<4]"
    by (simp add: upt_rec)
  have ne: "?d \<noteq> []"
    using h by (auto simp: build_crdt_grant_message_def)
  have "byte_bits (?d ! 0) = to_bits 4 0 @ to_bits 3 4 @ take 1 (to_bits 3 (ucast (grant_enc g n 0 0)))"
    using h by (subst first_byte_bits [OF ne]) (simp add: build_crdt_grant_message_def four)
  also have "\<dots> = [False, False, False, False, True, False, False,
      bit (ucast (grant_enc g n 0 0) :: u64) 2]"
    using to_bits_Suc [of 2] by (simp add: to_bits_def [of 4] to_bits_def [of 2 4] upt_rec)
  also have "\<dots> = byte_bits 8 \<or> \<dots> = byte_bits 9"
    by (cases "bit (ucast (grant_enc g n 0 0) :: u64) 2") (simp_all add: byte_bits_def upt_rec)
  finally show ?thesis
    by (auto dest: byte_bits_inject)
qed

lemma build_crdt_grant_wf [wf_simps]: "msg_wf (build_crdt_grant_message g n)"
proof -
  let ?m = "build_crdt_grant_message g n"
  note h = crdt_grant_writer_holds [of g n, unfolded bw_holds_def]
  have "bits_of (drop 10 (msg_data ?m)) = bits_of (replicate 230 0)"
    unfolding drop_bits_of [symmetric] using h by (simp add: build_crdt_grant_message_def length_grant_bits)
  then have tail: "drop 10 (msg_data ?m) = replicate 230 0"
    by (rule bits_of_inject)
  have hdr: "message_granules_from_header b = 2 \<and> msg_type_of b = Misc" if "b \<in> {8, 9}" for b
    using that by (auto simp: message_granules_from_header_def msg_type_of_def msg_type_of_code_def
        misc_op_of_def granule_consts)
  show ?thesis
    using hdr [OF crdt_grant_first_byte [of g n]] tail h
    by (simp add: msg_wf_def msg_ok_def) (simp add: build_crdt_grant_message_def aou_consts granule_consts)
qed

section \<open>Credit events of the receiver\<close>

definition emit_credit_matrix :: "nat \<Rightarrow> CreditMatrix \<Rightarrow> CreditUpdate list" where
  "emit_credit_matrix rp_count grants =
     concat (map (\<lambda>rp. concat (map (\<lambda>k.
         let amount = grants rp k
         in if amount \<noteq> 0 then [\<lparr>cu_rp = of_nat rp, cu_kind = credit_kind_of_index k, cu_granules = amount\<rparr>]
            else [])
       [0..<CREDIT_KIND_COUNT])) [0..<rp_count])"

lemma credit_kind_index_of_index: "k < 5 \<Longrightarrow> credit_kind_index (credit_kind_of_index k) = k"
  by (auto simp: credit_kind_of_index_def less_Suc_eq numeral_eq_Suc)

lemma announced_concat: "announced (concat uss) rp k = sum_list (map (\<lambda>us. announced us rp k) uss)"
  by (induction uss) simp_all

lemma sum_list_delta: "distinct xs \<Longrightarrow> sum_list (map (\<lambda>x. if x = a then f x else 0) xs)
    = (if a \<in> set xs then f a else (0::nat))"
  by (induction xs) auto

lemma announced_emit:
  assumes "n \<le> 4"
  shows "announced (emit_credit_matrix n g) rp k = (if rp < n \<and> k < 5 then g rp k else 0)"
proof -
  have one: "announced (let amount = g r j in if amount \<noteq> 0
        then [\<lparr>cu_rp = of_nat r, cu_kind = credit_kind_of_index j, cu_granules = amount\<rparr>] else []) rp k
      = (if j = k then if r = rp then g r j else 0 else 0)" if "r < n" "j < 5" for r j
    using that assms by (auto simp: Let_def credit_kind_index_of_index unat_of_nat)
  have "announced (emit_credit_matrix n g) rp k =
      sum_list (map (\<lambda>r. sum_list (map (\<lambda>j. if j = k then if r = rp then g r j else 0 else 0) [0..<5])) [0..<n])"
    unfolding emit_credit_matrix_def announced_concat map_map comp_def credit_consts
    by (intro arg_cong [where f = sum_list] map_cong refl one) simp_all
  also have "\<dots> = sum_list (map (\<lambda>r. if r = rp then if k < 5 then g r k else 0 else 0) [0..<n])"
    by (intro arg_cong [where f = sum_list] map_cong refl) (simp add: sum_list_delta)
  also have "\<dots> = (if rp < n \<and> k < 5 then g rp k else 0)"
    by (simp add: sum_list_delta)
  finally show ?thesis .
qed

section \<open>The contract of a credit channel\<close>

text \<open>
  A channel takes credit out of the pending counters (\<open>tk\<close>) and the peer reads updates from what
  was taken (\<open>upd\<close>). The laws: nothing is lost or invented, something moves whenever something is
  pending, and nothing but the pending counters and the rotation changes.
\<close>

locale credit_channel =
  fixes tk :: "CreditManager \<Rightarrow> 'w \<times> CreditManager"
    and upd :: "nat \<Rightarrow> 'w \<Rightarrow> CreditUpdate list"
  assumes conserves: "cm_wf c \<Longrightarrow> tk c = (w, c') \<Longrightarrow>
      announced (upd (cm_rp_count c) w) rp k + cm_rx_pending_return c' rp k = cm_rx_pending_return c rp k"
    and progress: "cm_wf c \<Longrightarrow> has_pending_returns c \<Longrightarrow> tk c = (w, c') \<Longrightarrow>
      \<exists>rp<cm_rp_count c. \<exists>k<5. 0 < announced (upd (cm_rp_count c) w) rp k"
    and frame: "tk c = (w, c') \<Longrightarrow> cm_rp_count c' = cm_rp_count c
      \<and> cm_tx_available c' = cm_tx_available c \<and> cm_rx_capacity c' = cm_rx_capacity c"
begin

abbreviation after :: "nat \<Rightarrow> CreditManager \<Rightarrow> CreditManager" where
  "after i c \<equiv> ((\<lambda>c. snd (tk c)) ^^ i) c"

abbreviation total :: "CreditManager \<Rightarrow> nat" where
  "total c \<equiv> (\<Sum>rp<cm_rp_count c. \<Sum>k<5. cm_rx_pending_return c rp k)"

lemma frame_after:
  "cm_rp_count (after i c) = cm_rp_count c \<and> cm_tx_available (after i c) = cm_tx_available c
    \<and> cm_rx_capacity (after i c) = cm_rx_capacity c"
proof (induction i)
  case (Suc i)
  then show ?case
    using frame [of "after i c" "fst (tk (after i c))" "snd (tk (after i c))"] by simp
qed simp

lemma wf_after: "cm_wf c \<Longrightarrow> cm_wf (after i c)"
  using frame_after by (simp add: cm_wf_def)

lemma announced_upto:
  assumes "cm_wf c"
  shows "(\<Sum>j<i. announced (upd (cm_rp_count c) (fst (tk (after j c)))) rp k)
    + cm_rx_pending_return (after i c) rp k = cm_rx_pending_return c rp k"
proof (induction i)
  case (Suc i)
  from conserves [OF wf_after [OF assms, of i], of "fst (tk (after i c))" "snd (tk (after i c))" rp k]
  show ?case
    using Suc frame_after by simp
qed simp

lemma total_decreases:
  assumes "cm_wf c" and "has_pending_returns c"
  shows "total (snd (tk c)) < total c"
proof -
  obtain w c' where t: "tk c = (w, c')"
    by fastforce
  note cons = conserves [OF assms(1) t] and fr = frame [OF t]
  obtain r j where rj: "r < cm_rp_count c" "j < 5" "0 < announced (upd (cm_rp_count c) w) r j"
    using progress [OF assms t] by blast
  have le: "cm_rx_pending_return c' rp k \<le> cm_rx_pending_return c rp k" for rp k
    using cons [of rp k] by linarith
  have "cm_rx_pending_return c' r j < cm_rx_pending_return c r j"
    using cons [of r j] rj(3) by linarith
  with rj(2) le have "(\<Sum>k<5. cm_rx_pending_return c' r k) < (\<Sum>k<5. cm_rx_pending_return c r k)"
    by (intro sum_strict_mono_ex1) auto
  with rj(1) le have "(\<Sum>rp<cm_rp_count c. \<Sum>k<5. cm_rx_pending_return c' rp k) < total c"
    by (intro sum_strict_mono_ex1) (auto intro!: sum_mono)
  with t fr show ?thesis
    by simp
qed

text \<open>Enough grants return everything, exactly once.\<close>

lemma drains:
  assumes "cm_wf c"
  shows "\<exists>i\<le>total c. \<not> has_pending_returns (after i c)"
  using assms
proof (induction "total c" arbitrary: c rule: less_induct)
  case less
  show ?case
  proof (cases "has_pending_returns c")
    case True
    have wf: "cm_wf (snd (tk c))"
      using wf_after [OF less.prems, of 1] by simp
    from less.hyps [OF total_decreases [OF less.prems True] wf]
    obtain i where "i \<le> total (snd (tk c))" "\<not> has_pending_returns (after i (snd (tk c)))"
      by blast
    with total_decreases [OF less.prems True] show ?thesis
      by (intro exI [of _ "Suc i"]) (simp add: funpow_swap1 del: funpow.simps add: funpow_Suc_right)
  qed (auto intro: exI [of _ 0])
qed

lemma drained_all:
  assumes "cm_wf c" and "\<not> has_pending_returns (after i c)" and "rp < cm_rp_count c" and "k < 5"
  shows "(\<Sum>j<i. announced (upd (cm_rp_count c) (fst (tk (after j c)))) rp k) = cm_rx_pending_return c rp k"
proof -
  have "cm_rx_pending_return (after i c) rp k = 0"
    using assms(2-4) frame_after
    by (auto simp: has_pending_returns_def plane_pending_def list_ex_iff credit_consts)
  with announced_upto [OF assms(1), where i = i and rp = rp and k = k] show ?thesis
    by simp
qed

end

lemma take_header_grant_frame:
  assumes "take_header_grant c = (w, c')"
  shows "cm_rp_count c' = cm_rp_count c \<and> cm_tx_available c' = cm_tx_available c
    \<and> cm_rx_capacity c' = cm_rx_capacity c"
  using assms unfolding take_header_grant_def header_grant_scan_spec
  by (auto simp: Let_def split: option.splits)

interpretation header: credit_channel take_header_grant "\<lambda>n field. decode_header_credits field n"
  by unfold_locales (rule take_header_grant_conserves take_header_grant_progress take_header_grant_frame; assumption)+

definition crdt_grant_updates :: "nat \<Rightarrow> AouMessage \<Rightarrow> CreditUpdate list" where
  "crdt_grant_updates n msg =
     (case decode_crdt_grant_message msg n of Some grants \<Rightarrow> emit_credit_matrix n grants | None \<Rightarrow> [])"

definition dedicated_grant :: "CreditManager \<Rightarrow> AouMessage \<times> CreditManager" where
  "dedicated_grant c =
     (let (grants, c') = take_misc_grants c in (build_crdt_grant_message grants (cm_rp_count c), c'))"

lemma dedicated_grant_announces:
  assumes "cm_wf c" and "dedicated_grant c = (w, c')"
  shows "announced (crdt_grant_updates (cm_rp_count c) w) rp k =
    (if rp < cm_rp_count c \<and> k < 5 then grant_of c rp k else 0)"
proof -
  have n: "cm_rp_count c \<le> 4"
    using assms(1) by (simp add: cm_wf_def aou_consts)
  have w: "w = build_crdt_grant_message (fst (take_misc_grants c)) (cm_rp_count c)"
    using assms(2) by (auto simp: dedicated_grant_def split: prod.splits)
  show ?thesis
    unfolding w crdt_grant_updates_def
    by (simp add: decode_crdt_grant_build [OF take_misc_grants_ok n] announced_emit [OF n])
       (simp add: take_misc_grants_eq)
qed

interpretation dedicated: credit_channel dedicated_grant crdt_grant_updates
proof unfold_locales
  fix c w c' and rp k :: nat
  assume t: "dedicated_grant c = (w, c')"
  then have c': "c' = snd (take_misc_grants c)"
    by (auto simp: dedicated_grant_def split: prod.splits)
  show "cm_rp_count c' = cm_rp_count c \<and> cm_tx_available c' = cm_tx_available c
      \<and> cm_rx_capacity c' = cm_rx_capacity c"
    by (simp add: c' take_misc_grants_eq)
  assume wf: "cm_wf c"
  show "announced (crdt_grant_updates (cm_rp_count c) w) rp k + cm_rx_pending_return c' rp k
      = cm_rx_pending_return c rp k"
    using grant_of_le [of c rp k]
    by (simp add: dedicated_grant_announces [OF wf t] c' take_misc_grants_eq)
  assume "has_pending_returns c"
  then obtain r j where "r < cm_rp_count c" "j < 5" "0 < cm_rx_pending_return c r j"
    by (auto simp: has_pending_returns_def plane_pending_def list_ex_iff credit_consts)
  then show "\<exists>rp<cm_rp_count c. \<exists>k<5. 0 < announced (crdt_grant_updates (cm_rp_count c) w) rp k"
    using dedicated_grant_announces [OF wf t, of r j] grant_of_progress [of c r j] by metis
qed

section \<open>Properties\<close>

lemma cm_wf_new:
  assumes "CreditManager_new n cap = Inr c"
  shows "cm_wf c" "cm_rp_count c = n" "\<And>rp k. rp < n \<Longrightarrow> cm_rx_capacity c rp k = cap rp k"
  using assms by (auto simp: CreditManager_new_def cm_wf_def)

definition demo_manager :: CreditManager where
  "demo_manager = \<lparr>cm_rp_count = 2, cm_next_header_rp = 1, cm_tx_available = clear_matrix,
     cm_rx_capacity = (\<lambda>_ _. 100), cm_rx_pending_return = (\<lambda>rp k. if rp = 0 then 70 + k else 0)\<rparr>"

lemma demo_manager_wf: "cm_wf demo_manager" "has_pending_returns demo_manager"
  by (simp_all add: cm_wf_def demo_manager_def aou_consts has_pending_returns_def plane_pending_def
      credit_consts upt_rec)

text \<open>
  C17: a header credit field announces to the peer exactly what it removes from the pending counters,
  per plane and kind, and it announces something whenever anything is pending.
\<close>

theorem header_grant_exact:
  assumes "cm_wf c" and "take_header_grant c = (field, c')"
  shows "(\<forall>rp k. announced (decode_header_credits field (cm_rp_count c)) rp k
      + cm_rx_pending_return c' rp k = cm_rx_pending_return c rp k)
    \<and> (has_pending_returns c \<longrightarrow>
        (\<exists>rp<cm_rp_count c. \<exists>k<5. 0 < announced (decode_header_credits field (cm_rp_count c)) rp k))"
  using header.conserves [OF assms] header.progress [OF assms(1) _ assms(2)] by blast

theorem header_grant_exact_witness:
  "(\<forall>rp k. announced (decode_header_credits (fst (take_header_grant demo_manager)) 2) rp k
      + cm_rx_pending_return (snd (take_header_grant demo_manager)) rp k
      = cm_rx_pending_return demo_manager rp k)
    \<and> (\<exists>rp<2. \<exists>k<5. 0 < announced
          (decode_header_credits (fst (take_header_grant demo_manager)) 2) rp k)"
  using header_grant_exact [OF demo_manager_wf(1) prod.collapse [symmetric]] demo_manager_wf(2)
  by (simp add: demo_manager_def)

text \<open>
  A dedicated CrdtGrant message built from the pending counters decodes at the peer to exactly the
  amounts that were removed from them, on every plane and kind.
\<close>

theorem crdt_grant_exact:
  assumes "cm_wf c" and "take_misc_grants c = (grants, c')"
  shows "decode_crdt_grant_message (build_crdt_grant_message grants (cm_rp_count c)) (cm_rp_count c) = Some grants
    \<and> (\<forall>rp k. grants rp k + cm_rx_pending_return c' rp k = cm_rx_pending_return c rp k)
    \<and> (\<forall>rp<cm_rp_count c. \<forall>k<5. 0 < cm_rx_pending_return c rp k \<longrightarrow> 0 < grants rp k)"
proof -
  have "grants_ok (cm_rp_count c) grants" "cm_rp_count c \<le> 4"
    using take_misc_grants_ok [of c] assms by (simp_all add: cm_wf_def aou_consts)
  then show ?thesis
    using decode_crdt_grant_build assms(2) grant_of_le [of c] grant_of_progress [of c]
    by (auto simp: take_misc_grants_eq)
qed

theorem crdt_grant_exact_witness:
  "decode_crdt_grant_message (build_crdt_grant_message (fst (take_misc_grants demo_manager)) 2) 2
      = Some (fst (take_misc_grants demo_manager))
    \<and> (\<forall>rp k. fst (take_misc_grants demo_manager) rp k
        + cm_rx_pending_return (snd (take_misc_grants demo_manager)) rp k = cm_rx_pending_return demo_manager rp k)
    \<and> 0 < fst (take_misc_grants demo_manager) 0 3"
  using crdt_grant_exact [OF demo_manager_wf(1) prod.collapse [symmetric]]
  by (simp add: demo_manager_def)

text \<open>
  C18: repeating \<open>take_header_grant\<close> returns all pending credit after finitely many flits (at most one
  per pending granule), and the fields announce in total exactly what was pending.
\<close>

theorem header_grants_drain:
  assumes "cm_wf c"
  shows "\<exists>n \<le> (\<Sum>rp<cm_rp_count c. \<Sum>k<5. cm_rx_pending_return c rp k).
    \<not> has_pending_returns (((\<lambda>c. snd (take_header_grant c)) ^^ n) c) \<and>
    (\<forall>rp<cm_rp_count c. \<forall>k<5. (\<Sum>j<n. announced (decode_header_credits
        (fst (take_header_grant (((\<lambda>c. snd (take_header_grant c)) ^^ j) c))) (cm_rp_count c)) rp k)
      = cm_rx_pending_return c rp k)"
  using header.drains [OF assms] header.drained_all [OF assms] by blast

theorem header_grants_drain_witness:
  "\<exists>n. \<not> has_pending_returns (((\<lambda>c. snd (take_header_grant c)) ^^ n) demo_manager) \<and>
    (\<Sum>j<n. announced (decode_header_credits
        (fst (take_header_grant (((\<lambda>c. snd (take_header_grant c)) ^^ j) demo_manager))) 2) 0 2) = 72"
proof -
  from header_grants_drain [OF demo_manager_wf(1)] obtain n where
    "\<not> has_pending_returns (((\<lambda>c. snd (take_header_grant c)) ^^ n) demo_manager)"
    "\<forall>rp<cm_rp_count demo_manager. \<forall>k<5. (\<Sum>j<n. announced (decode_header_credits
        (fst (take_header_grant (((\<lambda>c. snd (take_header_grant c)) ^^ j) demo_manager)))
        (cm_rp_count demo_manager)) rp k) = cm_rx_pending_return demo_manager rp k"
    by blast
  then show ?thesis
    by (intro exI [of _ n]) (simp add: demo_manager_def)
qed

end
