(* ===== verification/Sc_Fifo.thy ===== *)
theory Sc_Fifo
  imports Prelude
begin

text \<open>
  The SystemC channel \<open>sc_fifo\<close> that connects the threads of the bridge
  (axi_StorageStacked/third_party/systemc/src/sysc/communication/sc_fifo.h): non-blocking reads and
  writes take effect for the other side only at the update phase of the delta cycle. The locale
  \<open>bounded_queue\<close> states what the threads rely on; it is interpreted on the model of the channel.
\<close>

section \<open>The channel\<close>

record 'a sc_fifo =
  ff_size :: nat
  ff_readable :: "'a list"
  ff_num_read :: nat
  ff_written :: "'a list"

definition fifo_new :: "nat \<Rightarrow> 'a sc_fifo" where
  "fifo_new sz = \<lparr>ff_size = sz, ff_readable = [], ff_num_read = 0, ff_written = []\<rparr>"

definition num_available :: "'a sc_fifo \<Rightarrow> nat" where
  "num_available q = length (ff_readable q)"

text \<open>\<open>m_num_readable\<close> still counts the entries that were read in this delta cycle.\<close>

definition num_free :: "'a sc_fifo \<Rightarrow> nat" where
  "num_free q = ff_size q - (length (ff_readable q) + ff_num_read q) - length (ff_written q)"

definition nb_read :: "'a sc_fifo \<Rightarrow> 'a option \<times> 'a sc_fifo" where
  "nb_read q = (case ff_readable q of [] \<Rightarrow> (None, q)
     | x # xs \<Rightarrow> (Some x, q\<lparr>ff_readable := xs, ff_num_read := ff_num_read q + 1\<rparr>))"

definition nb_write :: "'a \<Rightarrow> 'a sc_fifo \<Rightarrow> bool \<times> 'a sc_fifo" where
  "nb_write x q = (if num_free q = 0 then (False, q) else (True, q\<lparr>ff_written := ff_written q @ [x]\<rparr>))"

definition fifo_update :: "'a sc_fifo \<Rightarrow> 'a sc_fifo" where
  "fifo_update q = q\<lparr>ff_readable := ff_readable q @ ff_written q, ff_num_read := 0, ff_written := []\<rparr>"

text \<open>\<open>while (fifo.nb_read(x)) {}\<close>: the values read, in order, and the channel afterwards.\<close>

function read_all :: "'a sc_fifo \<Rightarrow> 'a list \<times> 'a sc_fifo" where
  "read_all q = (case nb_read q of (None, q') \<Rightarrow> ([], q')
     | (Some x, q') \<Rightarrow> (let (xs, q'') = read_all q' in (x # xs, q'')))"
  by pat_completeness auto
termination
  by (relation "measure (\<lambda>q. length (ff_readable q))") (auto simp: nb_read_def split: list.splits)

declare read_all.simps [simp del]

section \<open>Contents and capacity\<close>

definition fifo_list :: "'a sc_fifo \<Rightarrow> 'a list" where
  "fifo_list q = ff_readable q @ ff_written q"

definition fifo_inv :: "'a sc_fifo \<Rightarrow> bool" where
  "fifo_inv q \<longleftrightarrow> length (ff_readable q) + ff_num_read q + length (ff_written q) \<le> ff_size q"

lemma read_all_eq:
  "read_all q = (ff_readable q, q\<lparr>ff_readable := [], ff_num_read := ff_num_read q + length (ff_readable q)\<rparr>)"
proof (induction "ff_readable q" arbitrary: q)
  case Nil
  then show ?case
    by (subst read_all.simps) (cases q, simp add: nb_read_def)
next
  case (Cons x xs)
  have "read_all (q\<lparr>ff_readable := xs, ff_num_read := ff_num_read q + 1\<rparr>) =
      (xs, q\<lparr>ff_readable := [], ff_num_read := ff_num_read q + 1 + length xs\<rparr>)"
    using Cons(1) [of "q\<lparr>ff_readable := xs, ff_num_read := ff_num_read q + 1\<rparr>"] by simp
  then show ?case
    using Cons(2) by (subst read_all.simps) (simp add: nb_read_def flip: Cons(2))
qed

section \<open>The contract of a bounded queue\<close>

locale bounded_queue =
  fixes wr :: "'a \<Rightarrow> 'q \<Rightarrow> bool \<times> 'q"
    and rd :: "'q \<Rightarrow> 'a option \<times> 'q"
    and up :: "'q \<Rightarrow> 'q"
    and free :: "'q \<Rightarrow> nat"
    and cont :: "'q \<Rightarrow> 'a list"
    and cap :: "'q \<Rightarrow> nat"
    and ok :: "'q \<Rightarrow> bool"
  assumes wr_fails: "free q = 0 \<Longrightarrow> wr x q = (False, q)"
    and wr_succeeds: "0 < free q \<Longrightarrow> \<exists>q'. wr x q = (True, q') \<and> cont q' = cont q @ [x] \<and> free q' = free q - 1
        \<and> cap q' = cap q"
    and wr_ok: "ok q \<Longrightarrow> ok (snd (wr x q))"
    and rd_some: "rd q = (Some x, q') \<Longrightarrow> cont q = x # cont q' \<and> free q' = free q \<and> cap q' = cap q"
    and rd_none: "rd q = (None, q') \<Longrightarrow> q' = q"
    and rd_ok: "ok q \<Longrightarrow> ok (snd (rd q))"
    and up_cont: "cont (up q) = cont q" and up_cap: "cap (up q) = cap q"
    and up_ok: "ok q \<Longrightarrow> ok (up q)" and up_free: "ok q \<Longrightarrow> free (up q) = cap q - length (cont q)"
    and bounded: "ok q \<Longrightarrow> length (cont q) + free q \<le> cap q"
begin

text \<open>
  A single writer that saw space still has it when it writes later: reads and updates by others do
  not take space away.
\<close>

lemma space_kept_rd: "0 < free q \<Longrightarrow> 0 < free (snd (rd q))"
  by (cases "rd q"; cases "fst (rd q)") (auto dest: rd_some rd_none)

lemma space_kept_up: "ok q \<Longrightarrow> 0 < free q \<Longrightarrow> 0 < free (up q)"
  using bounded [of q] up_free [of q] by simp

lemma write_after_space: "0 < free q \<Longrightarrow> fst (wr x q)"
  using wr_succeeds [of q x] by auto

text \<open>Whatever is read was written, in the order of writing.\<close>

lemma fifo_order:
  "cont (snd (wr x q)) = (if fst (wr x q) then cont q @ [x] else cont q)"
  using wr_fails [of q x] wr_succeeds [of q x] by (cases "free q = 0") auto

end

interpretation sc_fifo: bounded_queue nb_write nb_read fifo_update num_free fifo_list ff_size fifo_inv
proof unfold_locales
  show "num_free q = 0 \<Longrightarrow> nb_write x q = (False, q)" for x :: 'a and q
    by (simp add: nb_write_def)
  show "0 < num_free q \<Longrightarrow> \<exists>q'. nb_write x q = (True, q') \<and> fifo_list q' = fifo_list q @ [x]
      \<and> num_free q' = num_free q - 1 \<and> ff_size q' = ff_size q" for x :: 'a and q
    by (simp add: nb_write_def fifo_list_def num_free_def)
  show "fifo_inv q \<Longrightarrow> fifo_inv (snd (nb_write x q))" for x :: 'a and q
    by (auto simp: nb_write_def fifo_inv_def num_free_def)
  show "nb_read q = (Some x, q') \<Longrightarrow> fifo_list q = x # fifo_list q' \<and> num_free q' = num_free q
      \<and> ff_size q' = ff_size q" for x :: 'a and q q'
    by (auto simp: nb_read_def fifo_list_def num_free_def split: list.splits)
  show "nb_read q = (None, q') \<Longrightarrow> q' = q" for q q' :: "'a sc_fifo"
    by (auto simp: nb_read_def split: list.splits)
  show "fifo_inv q \<Longrightarrow> fifo_inv (snd (nb_read q))" for q :: "'a sc_fifo"
    by (auto simp: nb_read_def fifo_inv_def split: list.splits)
  show "fifo_list (fifo_update q) = fifo_list q" for q :: "'a sc_fifo"
    by (simp add: fifo_update_def fifo_list_def)
  show "ff_size (fifo_update q) = ff_size q" for q :: "'a sc_fifo"
    by (simp add: fifo_update_def)
  show "fifo_inv q \<Longrightarrow> fifo_inv (fifo_update q)" for q :: "'a sc_fifo"
    by (simp add: fifo_update_def fifo_inv_def)
  show "fifo_inv q \<Longrightarrow> num_free (fifo_update q) = ff_size q - length (fifo_list q)" for q :: "'a sc_fifo"
    by (simp add: fifo_update_def fifo_list_def num_free_def)
  show "fifo_inv q \<Longrightarrow> length (fifo_list q) + num_free q \<le> ff_size q" for q :: "'a sc_fifo"
    by (simp add: fifo_inv_def fifo_list_def num_free_def)
qed

lemma fifo_inv_new [simp]: "fifo_inv (fifo_new sz)" "fifo_list (fifo_new sz) = []" "ff_size (fifo_new sz) = sz"
  by (simp_all add: fifo_new_def fifo_inv_def fifo_list_def)

lemma read_all_list: "read_all q = (xs, q') \<Longrightarrow> fifo_list q = xs @ fifo_list q' \<and> ff_size q' = ff_size q"
  by (auto simp: read_all_eq fifo_list_def)

lemma read_all_inv: "fifo_inv q \<Longrightarrow> fifo_inv (snd (read_all q))"
  by (simp add: read_all_eq fifo_inv_def)

end
