(* ===== verification/Flit_Packer.thy ===== *)
theory Flit_Packer
  imports Stream_Decoder Credit_Grant Sc_Fifo
begin

text \<open>
  The transmit side of the bridge (components/axi2flit/systemc/src/flit_packer.cpp and
  include/flit_packer.h): per-plane staging slots, selection by priority and rotation, credit
  consumption, packing of messages into flits with continuation into the next one, dedicated credit
  grants and the output register with its ready/valid handshake. \<open>pk_cycle\<close> is one pass of the
  loop of \<open>packing_thread\<close>.
\<close>

section \<open>State and ports\<close>

definition DEFAULT_FLUSH_TIMEOUT_CYCLES :: int where "DEFAULT_FLUSH_TIMEOUT_CYCLES = 0"
definition CREDIT_RETURN_TIMEOUT_CYCLES :: int where "CREDIT_RETURN_TIMEOUT_CYCLES = 2"
definition PACK_MSGS_PER_CYCLE :: nat where "PACK_MSGS_PER_CYCLE = 8"

type_synonym slots = "nat \<Rightarrow> AouMessage option"

record FlitPacker =
  pk_rp_count :: nat
  pk_flush_timeout_cycles :: int
  pk_credits :: CreditManager
  pk_cur_flit :: AouFlit
  pk_output_transfer :: FlitTransfer
  pk_output_active :: bool
  pk_spill_active :: bool
  pk_spill_msg :: AouMessage
  pk_spill_done :: int
  pk_timeout_cnt :: int
  pk_credit_return_idle_cnt :: int
  pk_next_rp :: nat
  pk_flits_sent :: nat
  pk_granules_sent :: nat
  pk_staged_rreq :: slots
  pk_staged_wreq :: slots
  pk_staged_wdata :: slots
  pk_flit_out :: FlitTransfer

text \<open>The channels the packer reads; the vectors are indexed by plane.\<close>

record pk_ports =
  pp_rreq_in :: "nat \<Rightarrow> AouMessage sc_fifo"
  pp_wreq_in :: "nat \<Rightarrow> AouMessage sc_fifo"
  pp_wdata_in :: "nat \<Rightarrow> AouMessage sc_fifo"
  pp_credit_update_in :: "CreditUpdate sc_fifo"
  pp_credit_return_in :: "CreditUpdate sc_fifo"

definition FlitPacker_new :: "nat \<Rightarrow> nat \<Rightarrow> nat \<Rightarrow> int \<Rightarrow> FlitPacker res" where
  "FlitPacker_new rp_count rdata_capacity wresp_capacity flush_timeout =
     rbind (CreditManager_new_initiator rp_count rdata_capacity wresp_capacity) (\<lambda>credits.
       Inr \<lparr>pk_rp_count = rp_count, pk_flush_timeout_cycles = flush_timeout, pk_credits = credits,
         pk_cur_flit = AouFlit_init, pk_output_transfer = FlitTransfer_none, pk_output_active = False,
         pk_spill_active = False, pk_spill_msg = AouMessage_init, pk_spill_done = 0,
         pk_timeout_cnt = 0, pk_credit_return_idle_cnt = 0, pk_next_rp = 0, pk_flits_sent = 0,
         pk_granules_sent = 0, pk_staged_rreq = (\<lambda>_. None), pk_staged_wreq = (\<lambda>_. None),
         pk_staged_wdata = (\<lambda>_. None), pk_flit_out = FlitTransfer_none\<rparr>)"

text \<open>The part of \<open>packing_thread\<close> before its loop, run at every reset.\<close>

definition pk_reset :: "FlitPacker \<Rightarrow> FlitPacker" where
  "pk_reset s = s\<lparr>pk_cur_flit := flit_clear (pk_cur_flit s),
     pk_credits := publish_initial_capacity (cm_reset (pk_credits s)),
     pk_timeout_cnt := 0, pk_credit_return_idle_cnt := CREDIT_RETURN_TIMEOUT_CYCLES - 1,
     pk_next_rp := 0, pk_output_active := False, pk_output_transfer := FlitTransfer_none,
     pk_spill_active := False, pk_spill_done := 0, pk_flits_sent := 0, pk_granules_sent := 0,
     pk_staged_rreq := (\<lambda>_. None), pk_staged_wreq := (\<lambda>_. None), pk_staged_wdata := (\<lambda>_. None),
     pk_flit_out := FlitTransfer_none\<rparr>"

section \<open>Operations\<close>

definition drain_credit_events :: "FlitPacker \<times> pk_ports \<Rightarrow> FlitPacker \<times> pk_ports" where
  "drain_credit_events sp =
     (let (s, p) = sp;
          (ups, qu) = read_all (pp_credit_update_in p);
          c = fold add_tx_credit ups (pk_credits s);
          (rets, qr) = read_all (pp_credit_return_in p);
          c = fold return_rx_credit rets c
      in (s\<lparr>pk_credits := c\<rparr>, p\<lparr>pp_credit_update_in := qu, pp_credit_return_in := qr\<rparr>))"

text \<open>\<open>if (!staged[rp] && in[rp].nb_read(msg)) staged[rp] = msg\<close>\<close>

definition fill_slot :: "nat \<Rightarrow> slots \<times> (nat \<Rightarrow> AouMessage sc_fifo) \<Rightarrow> slots \<times> (nat \<Rightarrow> AouMessage sc_fifo)" where
  "fill_slot rp sq =
     (let (slots, qs) = sq
      in if slots rp \<noteq> None then (slots, qs)
         else case nb_read (qs rp) of
                (None, q') \<Rightarrow> (slots, qs(rp := q'))
              | (Some msg, q') \<Rightarrow> (slots(rp := Some msg), qs(rp := q')))"

definition fill_plane :: "nat \<Rightarrow> FlitPacker \<times> pk_ports \<Rightarrow> FlitPacker \<times> pk_ports" where
  "fill_plane rp sp =
     (let (s, p) = sp;
          (r, rq) = fill_slot rp (pk_staged_rreq s, pp_rreq_in p);
          (w, wq) = fill_slot rp (pk_staged_wreq s, pp_wreq_in p);
          (d, dq) = fill_slot rp (pk_staged_wdata s, pp_wdata_in p)
      in (s\<lparr>pk_staged_rreq := r, pk_staged_wreq := w, pk_staged_wdata := d\<rparr>,
          p\<lparr>pp_rreq_in := rq, pp_wreq_in := wq, pp_wdata_in := dq\<rparr>))"

definition fill_staging_slots :: "FlitPacker \<times> pk_ports \<Rightarrow> FlitPacker \<times> pk_ports" where
  "fill_staging_slots sp = fold fill_plane [0..<pk_rp_count (fst sp)] sp"

text \<open>A candidate is the staged message and its plane; \<open>None\<close> is the null pointer.\<close>

fun select_scan :: "FlitPacker \<Rightarrow> slots \<Rightarrow> nat list \<Rightarrow> (AouMessage \<times> nat) option" where
  "select_scan s slots [] = None"
| "select_scan s slots (checked # rest) =
     (let rp = (pk_next_rp s + checked) mod pk_rp_count s
      in case slots rp of
           None \<Rightarrow> select_scan s slots rest
         | Some msg \<Rightarrow>
             if can_consume (pk_credits s) rp (msg_type msg) (nat (msg_granules msg)) then Some (msg, rp)
             else select_scan s slots rest)"

definition select_from :: "FlitPacker \<Rightarrow> slots \<Rightarrow> (AouMessage \<times> nat) option" where
  "select_from s slots = select_scan s slots [0..<pk_rp_count s]"

definition select_candidate :: "FlitPacker \<Rightarrow> (AouMessage \<times> nat) option" where
  "select_candidate s =
     (case select_from s (pk_staged_rreq s) of
        Some c \<Rightarrow> Some c
      | None \<Rightarrow> (case select_from s (pk_staged_wreq s) of
                  Some c \<Rightarrow> Some c
                | None \<Rightarrow> select_from s (pk_staged_wdata s)))"

definition consume_candidate :: "AouMessage \<times> nat \<Rightarrow> FlitPacker \<Rightarrow> FlitPacker res" where
  "consume_candidate cand s =
     (let (msg, rp) = cand
      in rbind (cm_consume (pk_credits s) rp (msg_type msg) (nat (msg_granules msg))) (\<lambda>c.
           let (took, f) = pack_fragment (pk_cur_flit s) msg 0
           in rassert (took > 0) ''took > 0''
                (let s = s\<lparr>pk_credits := c, pk_cur_flit := f\<rparr>;
                     s = (if took < msg_granules msg
                          then s\<lparr>pk_spill_msg := msg, pk_spill_done := took, pk_spill_active := True\<rparr>
                          else s);
                     s = (if msg_type msg = MsgType.ReadReq
                          then s\<lparr>pk_staged_rreq := (pk_staged_rreq s)(rp := None)\<rparr>
                          else if msg_type msg = MsgType.WriteReq
                          then s\<lparr>pk_staged_wreq := (pk_staged_wreq s)(rp := None)\<rparr>
                          else s\<lparr>pk_staged_wdata := (pk_staged_wdata s)(rp := None)\<rparr>)
                 in Inr (s\<lparr>pk_next_rp := (rp + 1) mod pk_rp_count s\<rparr>))))"

text \<open>
  The packing loop; \<open>fuel\<close> is what is left of the \<open>PACK_MSGS_PER_CYCLE\<close> messages that one cycle may
  start, so it is the loop's own bound.
\<close>

fun pack_loop :: "nat \<Rightarrow> FlitPacker \<times> pk_ports \<Rightarrow> (bool \<times> FlitPacker \<times> pk_ports) res" where
  "pack_loop 0 sp = Inr (False, sp)"
| "pack_loop (Suc fuel) sp =
     (if remaining_granules (pk_cur_flit (fst sp)) \<le> 0 then Inr (False, sp)
      else
        let (s, p) = fill_staging_slots sp
        in case select_candidate s of
             None \<Rightarrow> Inr (True, s, p)
           | Some cand \<Rightarrow> rbind (consume_candidate cand s) (\<lambda>s.
               if pk_spill_active s then Inr (False, s, p) else pack_loop fuel (s, p)))"

definition pack_cycle :: "FlitPacker \<times> pk_ports \<Rightarrow> (bool \<times> FlitPacker \<times> pk_ports) res" where
  "pack_cycle sp =
     (let (s, p) = sp
      in if pk_spill_active s then
           if flit_used_granules (pk_cur_flit s) \<noteq> 0 then Inr (False, s, p)
           else
             let (took, f) = pack_fragment (pk_cur_flit s) (pk_spill_msg s) (pk_spill_done s);
                 s = s\<lparr>pk_cur_flit := f, pk_spill_done := pk_spill_done s + took\<rparr>
             in if pk_spill_done s \<ge> msg_granules (pk_spill_msg s)
                then pack_loop PACK_MSGS_PER_CYCLE (s\<lparr>pk_spill_active := False, pk_spill_done := 0\<rparr>, p)
                else Inr (False, s, p)
         else pack_loop PACK_MSGS_PER_CYCLE (s, p))"

definition flush_flit :: "bool \<Rightarrow> FlitPacker \<Rightarrow> FlitPacker res" where
  "flush_flit allow_header_credit s =
     rassert (flit_valid (pk_cur_flit s) \<and> \<not> pk_output_active s) ''cur_flit valid and output free''
       (let s = (if allow_header_credit
                 then let (credit, c) = take_header_grant (pk_credits s)
                      in s\<lparr>pk_credits := c, pk_cur_flit := (pk_cur_flit s)\<lparr>flit_msg_credit := credit\<rparr>,
                           pk_credit_return_idle_cnt := (if credit \<noteq> 0 then 0 else pk_credit_return_idle_cnt s)\<rparr>
                 else s)
        in Inr (s\<lparr>pk_flits_sent := pk_flits_sent s + 1,
              pk_granules_sent := pk_granules_sent s + nat (flit_used_granules (pk_cur_flit s)),
              pk_output_transfer := FlitTransfer_of (pk_cur_flit s), pk_output_active := True,
              pk_flit_out := FlitTransfer_of (pk_cur_flit s),
              pk_cur_flit := flit_clear (pk_cur_flit s), pk_timeout_cnt := 0\<rparr>))"

definition send_dedicated_credit_grant :: "FlitPacker \<Rightarrow> FlitPacker res" where
  "send_dedicated_credit_grant s =
     (let (grants, c) = take_misc_grants (pk_credits s);
          grant = build_crdt_grant_message grants (pk_rp_count s);
          (packed, f) = pack_message (pk_cur_flit s) grant
      in rassert packed ''packed'' (flush_flit False (s\<lparr>pk_credits := c, pk_cur_flit := f\<rparr>)))"

section \<open>One clock cycle\<close>

definition pk_handshake :: "bool \<Rightarrow> FlitPacker \<Rightarrow> FlitPacker" where
  "pk_handshake ready s =
     (if \<not> pk_output_active s then s
      else if ready then s\<lparr>pk_output_active := False, pk_output_transfer := FlitTransfer_none,
                          pk_flit_out := FlitTransfer_none\<rparr>
      else s\<lparr>pk_flit_out := pk_output_transfer s\<rparr>)"

definition pk_decide :: "bool \<Rightarrow> FlitPacker \<Rightarrow> FlitPacker res" where
  "pk_decide exhausted s =
     (if pk_output_active s then Inr s
      else if flit_valid (pk_cur_flit s) then
        if remaining_granules (pk_cur_flit s) = 0 then flush_flit True s
        else if exhausted then
          if pk_timeout_cnt s \<ge> pk_flush_timeout_cycles s then flush_flit True s
          else Inr (s\<lparr>pk_timeout_cnt := pk_timeout_cnt s + 1\<rparr>)
        else Inr (s\<lparr>pk_timeout_cnt := 0\<rparr>)
      else if has_pending_returns (pk_credits s) then
        let s = s\<lparr>pk_credit_return_idle_cnt := pk_credit_return_idle_cnt s + 1\<rparr>
        in if pk_credit_return_idle_cnt s \<ge> CREDIT_RETURN_TIMEOUT_CYCLES
           then rbind (send_dedicated_credit_grant s) (\<lambda>s. Inr (s\<lparr>pk_credit_return_idle_cnt := 0\<rparr>))
           else Inr s
      else Inr s)"

definition pk_cycle :: "bool \<Rightarrow> FlitPacker \<times> pk_ports \<Rightarrow> (FlitPacker \<times> pk_ports) res" where
  "pk_cycle ready sp =
     (let (s, p) = drain_credit_events sp;
          s = pk_handshake ready s
      in rbind (pack_cycle (s, p)) (\<lambda>(exhausted, s, p).
           rbind (pk_decide exhausted s) (\<lambda>s. Inr (s, p))))"

end
