(* ===== verification/Packer_Stream.thy ===== *)
theory Packer_Stream
  imports Flit_Packer
begin

text \<open>
  What the packer sends: decoding the flits that the link accepted gives the messages the packer
  took from its queues, whole, in order and exactly once, interleaved with its own credit grants.
\<close>

section \<open>Decoding a sequence of flits\<close>

fun decode_flits :: "AouFlit list \<Rightarrow> AouStreamDecoder \<Rightarrow> (AouMessage list \<times> AouStreamDecoder) res" where
  "decode_flits [] d = Inr ([], d)"
| "decode_flits (f # fs) d =
     (case sd_consume f d of
        (Inl e, d') \<Rightarrow> Inl e
      | (Inr r, d') \<Rightarrow> rbind (decode_flits fs d') (\<lambda>(ms, d''). Inr (sr_messages r @ ms, d'')))"

definition framed :: "AouFlit list \<Rightarrow> AouMessage list \<Rightarrow> carry \<Rightarrow> bool" where
  "framed fs ms c \<longleftrightarrow> (\<exists>d. decode_flits fs sd_reset = Inr (ms, d) \<and> decoder_at c d)"

lemma decode_flits_snoc:
  assumes "decode_flits fs d = Inr (ms, d')" and "sd_consume f d' = (Inr r, d'')"
  shows "decode_flits (fs @ [f]) d = Inr (ms @ sr_messages r, d'')"
  using assms
proof (induction fs arbitrary: d ms)
  case (Cons g fs)
  then show ?case
    by (fastforce simp: rbind_eq_Inr split: prod.splits sum.splits)
qed simp

lemma framed_Nil: "framed [] [] None"
  by (simp add: framed_def decoder_at_def sd_reset_def)

lemma framed_snoc:
  assumes "framed fs ms c" and "flit_holds f ss" and "segs_from c ss"
  shows "framed (fs @ [f]) (ms @ segs_done ss) (segs_carry ss)"
proof -
  from assms(1) obtain d where d: "decode_flits fs sd_reset = Inr (ms, d)" "decoder_at c d"
    by (auto simp: framed_def)
  from sd_consume_segs [OF assms(2,3) d(2)] decode_flits_snoc [OF d(1)] show ?thesis
    by (fastforce simp: framed_def)
qed

lemma framed_carry:
  "framed fs ms (Some (m, k)) \<Longrightarrow> msg_wf m \<and> 0 < k \<and> k < gran m"
  by (auto simp: framed_def decoder_at_def)

section \<open>Appending to the segments of a flit\<close>

lemma segs_new_snoc:
  assumes "segs_new g ss" and "segs_carry ss = None" and "g + seg_len ss < 48" and "msg_wf m"
    and "t = min (gran m) (48 - (g + seg_len ss))"
  shows "segs_new g (ss @ [(m, 0, t)])"
  using assms
proof (induction ss arbitrary: g rule: segs_done.induct)
  case 1
  then show ?case
    using msg_wfD(3) by auto
next
  case (2 m' off len ss)
  then have len: "len = gran m'" "off = 0" "segs_new (g + len) ss" "segs_carry ss = None"
    by (auto split: if_splits)
  then have "segs_new (g + len) (ss @ [(m, 0, t)])"
    using 2 by (intro 2(1)) (auto simp: add.assoc)
  then show ?case
    using 2(2) len by simp
qed

lemma segs_snoc:
  assumes "segs_carry ss = None"
  shows "segs_done (ss @ [(m, off, t)]) = segs_done ss @ (if off + t = gran m then [wire_msg m] else [])"
    and "segs_carry (ss @ [(m, off, t)]) = (if off + t = gran m then None else Some (m, off + t))"
  using assms by (induction ss rule: segs_done.induct) (auto split: if_splits)

lemma segs_from_snoc:
  assumes "segs_from c ss" and "segs_carry ss = None" and "seg_len ss < 48" and "msg_wf m"
    and "t = min (gran m) (48 - seg_len ss)"
  shows "segs_from c (ss @ [(m, 0, t)])"
proof (cases c)
  case None
  with assms show ?thesis
    using segs_new_snoc [of 0 ss m t] by (simp add: segs_from_def)
next
  case (Some mk)
  then obtain m' k len rest where c: "c = Some (m', k)" and ss: "ss = (m', k, len) # rest"
    and new: "k + len = gran m'" "segs_new len rest"
    using assms(1) by (cases mk; cases ss) (auto simp: segs_from_def)
  have "segs_new len (rest @ [(m, 0, t)])"
    using assms new by (intro segs_new_snoc) (auto simp: ss split: if_splits)
  with c ss new show ?thesis
    by (simp add: segs_from_def)
qed

lemma segs_from_carry:
  assumes "msg_wf m" "0 < k" "k < gran m"
  shows "segs_from (Some (m, k)) [(m, k, gran m - k)]" "segs_carry [(m, k, gran m - k)] = None"
    "segs_done [(m, k, gran m - k)] = [wire_msg m]"
  using assms msg_wfD(4) [OF assms(1)] by (simp_all add: segs_from_def)

section \<open>The stream invariant\<close>

definition spill_of :: "FlitPacker \<Rightarrow> carry" where
  "spill_of s = (if pk_spill_active s then Some (pk_spill_msg s, nat (pk_spill_done s)) else None)"

definition spill_tail :: "carry \<Rightarrow> AouMessage list" where
  "spill_tail c = (case c of None \<Rightarrow> [] | Some (m, k) \<Rightarrow> [wire_msg m])"

definition out_reg :: "FlitPacker \<Rightarrow> AouFlit list" where
  "out_reg s = (if pk_output_active s then [ft_flit (pk_output_transfer s)] else [])"

text \<open>Flits as the link layer may receive them.\<close>

definition sendable :: "AouFlit \<Rightarrow> bool" where
  "sendable f \<longleftrightarrow> flit_fdid f = 0 \<and> (\<exists>ss. flit_holds f ss)"

text \<open>
  \<open>fs\<close> are the flits the link took, \<open>G\<close> all messages that were packed, the cut one included: the
  flits in the output register and under construction continue the stream.
\<close>

definition pk_stream :: "FlitPacker \<Rightarrow> AouFlit list \<Rightarrow> AouMessage list \<Rightarrow> bool" where
  "pk_stream s fs G \<longleftrightarrow> (\<exists>ms c ss.
      framed (fs @ out_reg s) ms c \<and> list_all sendable (fs @ out_reg s)
    \<and> flit_holds (pk_cur_flit s) ss \<and> flit_fdid (pk_cur_flit s) = 0
    \<and> (flit_valid (pk_cur_flit s) \<longleftrightarrow> ss \<noteq> [])
    \<and> (pk_spill_active s \<longrightarrow> 0 \<le> pk_spill_done s)
    \<and> (if ss = [] then spill_of s = c else segs_from c ss \<and> spill_of s = segs_carry ss)
    \<and> G = ms @ segs_done ss @ spill_tail (spill_of s))"

lemma flit_holds_credit: "flit_holds (f\<lparr>flit_msg_credit := x\<rparr>) ss = flit_holds f ss"
  by (simp add: flit_holds_def flit_ok_def)

lemma flit_holds_empty:
  assumes "flit_holds f ss" shows "ss = [] \<longleftrightarrow> flit_used_granules f = 0"
proof (cases ss)
  case (Cons s ss')
  obtain m off len where "s = (m, off, len)" by (cases s)
  with assms Cons show ?thesis
    by (auto simp: flit_holds_def)
qed (use assms in \<open>auto simp: flit_holds_def flit_ok_def\<close>)

text \<open>With nothing cut, the flit under construction is ready for the next message.\<close>

lemma pk_stream_open:
  assumes "pk_stream s fs G" and "\<not> pk_spill_active s"
  obtains ms c ss where "framed (fs @ out_reg s) ms c" "list_all sendable (fs @ out_reg s)"
    "flit_holds (pk_cur_flit s) ss" "flit_fdid (pk_cur_flit s) = 0"
    "flit_valid (pk_cur_flit s) \<longleftrightarrow> ss \<noteq> []" "segs_from c ss" "segs_carry ss = None" "G = ms @ segs_done ss"
proof -
  from assms obtain ms c ss where *: "framed (fs @ out_reg s) ms c" "list_all sendable (fs @ out_reg s)"
    "flit_holds (pk_cur_flit s) ss" "flit_fdid (pk_cur_flit s) = 0"
    "flit_valid (pk_cur_flit s) \<longleftrightarrow> ss \<noteq> []"
    "if ss = [] then spill_of s = c else segs_from c ss \<and> spill_of s = segs_carry ss"
    "G = ms @ segs_done ss @ spill_tail (spill_of s)"
    by (auto simp: pk_stream_def)
  have none: "spill_of s = None"
    using assms(2) by (simp add: spill_of_def)
  have "segs_from c ss \<and> segs_carry ss = None"
    using *(6) none by (cases "ss = []") (auto simp: segs_from_def)
  with * none show thesis
    by (intro that [of ms c ss]) (simp_all add: spill_tail_def)
qed

text \<open>Packing a new message.\<close>

lemma pk_stream_pack:
  assumes "pk_stream s fs G" and "\<not> pk_spill_active s" and "flit_used_granules (pk_cur_flit s) < 48"
    and m: "msg_wf m"
  obtains t f' where "pack_fragment (pk_cur_flit s) m 0 = (int t, f')" "0 < t" "t \<le> gran m"
    "\<And>s'. pk_cur_flit s' = f' \<Longrightarrow> out_reg s' = out_reg s \<Longrightarrow> (pk_spill_active s' \<longrightarrow> 0 \<le> pk_spill_done s') \<Longrightarrow>
       spill_of s' = (if t = gran m then None else Some (m, t)) \<Longrightarrow> pk_stream s' fs (G @ [wire_msg m])"
proof -
  from assms(1,2) obtain ms c ss where *: "framed (fs @ out_reg s) ms c" "list_all sendable (fs @ out_reg s)"
    "flit_holds (pk_cur_flit s) ss" "flit_fdid (pk_cur_flit s) = 0"
    "flit_valid (pk_cur_flit s) \<longleftrightarrow> ss \<noteq> []" "segs_from c ss" "segs_carry ss = None" "G = ms @ segs_done ss"
    by (rule pk_stream_open)
  have u: "used (pk_cur_flit s) = seg_len ss" "seg_len ss < 48"
    using *(3) assms(3) by (auto simp: flit_holds_def)
  define t where "t = min (gran m) (48 - seg_len ss)"
  note w = msg_wfD [OF m]
  obtain f' where f': "pack_fragment (pk_cur_flit s) m 0 = (int t, f')"
    "flit_holds f' (ss @ [(m, 0, t)])" "flit_valid f'" "flit_fdid f' = 0"
    using pack_fragment_holds [OF *(3) w(1,3), of t] u *(4) by (auto simp: t_def)
  have t: "0 < t" "t \<le> gran m"
    using u w(3) by (simp_all add: t_def)
  show thesis
  proof (rule that [OF f'(1) t])
    fix s'
    assume s': "pk_cur_flit s' = f'" "out_reg s' = out_reg s" "pk_spill_active s' \<longrightarrow> 0 \<le> pk_spill_done s'"
      "spill_of s' = (if t = gran m then None else Some (m, t))"
    have "segs_from c (ss @ [(m, 0, t)])"
      by (rule segs_from_snoc [OF *(6,7) u(2) m t_def])
    then show "pk_stream s' fs (G @ [wire_msg m])"
      using * f' s' segs_snoc [OF *(7), of m 0 t] unfolding pk_stream_def
      by (intro exI [of _ ms] exI [of _ c] exI [of _ "ss @ [(m, 0, t)]"]) (auto simp: spill_tail_def)
  qed
qed

text \<open>Resuming the cut message at granule 0 of an empty flit.\<close>

lemma pk_stream_resume:
  assumes "pk_stream s fs G" and "pk_spill_active s" and "flit_used_granules (pk_cur_flit s) = 0"
  obtains f' where "pack_fragment (pk_cur_flit s) (pk_spill_msg s) (pk_spill_done s)
      = (msg_granules (pk_spill_msg s) - pk_spill_done s, f')"
    "\<And>s'. pk_cur_flit s' = f' \<Longrightarrow> out_reg s' = out_reg s \<Longrightarrow> \<not> pk_spill_active s' \<Longrightarrow> pk_stream s' fs G"
proof -
  from assms(1) obtain ms c ss where *: "framed (fs @ out_reg s) ms c" "list_all sendable (fs @ out_reg s)"
    "flit_holds (pk_cur_flit s) ss" "flit_fdid (pk_cur_flit s) = 0" "0 \<le> pk_spill_done s"
    "if ss = [] then spill_of s = c else segs_from c ss \<and> spill_of s = segs_carry ss"
    "G = ms @ segs_done ss @ spill_tail (spill_of s)"
    using assms(2) by (auto simp: pk_stream_def)
  have ss: "ss = []"
    using flit_holds_empty [OF *(3)] assms(3) by simp
  let ?m = "pk_spill_msg s" and ?k = "nat (pk_spill_done s)"
  have c: "c = Some (?m, ?k)" and tail: "spill_tail (spill_of s) = [wire_msg ?m]"
    using *(6) ss assms(2) by (auto simp: spill_of_def spill_tail_def)
  have k: "msg_wf ?m" "0 < ?k" "?k < gran ?m"
    using framed_carry [OF *(1) [unfolded c]] by blast+
  note w = msg_wfD [OF k(1)]
  have t: "gran ?m - ?k = min (gran ?m - ?k) (48 - used (pk_cur_flit s))"
    using w(4) assms(3) by simp
  have u: "used (pk_cur_flit s) < 48"
    using assms(3) by simp
  obtain f' where f': "pack_fragment (pk_cur_flit s) ?m (int ?k) = (int (gran ?m - ?k), f')"
    "flit_holds f' ([] @ [(?m, ?k, gran ?m - ?k)])" "flit_valid f'" "flit_fdid f' = 0"
    using pack_fragment_holds [OF *(3) w(1) k(3) u t] *(4) unfolding ss by (elim exE conjE) simp
  have "int ?k = pk_spill_done s" "int (gran ?m - ?k) = msg_granules ?m - pk_spill_done s"
    using *(5) k(3) by linarith+
  with f'(1) show thesis
  proof (rule_tac that [of f'], simp_all)
    fix s'
    assume s': "pk_cur_flit s' = f'" "out_reg s' = out_reg s" "\<not> pk_spill_active s'"
    then show "pk_stream s' fs G"
      using * f' segs_from_carry [OF k] c ss tail unfolding pk_stream_def
      by (intro exI [of _ ms] exI [of _ c] exI [of _ "[(?m, ?k, gran ?m - ?k)]"])
         (auto simp: spill_tail_def spill_of_def)
  qed
qed

text \<open>Moving the flit under construction to the output register.\<close>

lemma pk_stream_flush:
  assumes "pk_stream s fs G" and "flit_valid (pk_cur_flit s)" and "\<not> pk_output_active s"
    and "pk_output_active s'" "ft_flit (pk_output_transfer s') = (pk_cur_flit s)\<lparr>flit_msg_credit := x\<rparr>"
    and "pk_cur_flit s' = AouFlit_init" "spill_of s' = spill_of s"
    "pk_spill_active s' \<longrightarrow> 0 \<le> pk_spill_done s'"
  shows "pk_stream s' fs G"
proof -
  from assms(1,2) obtain ms c ss where *: "framed (fs @ out_reg s) ms c" "list_all sendable (fs @ out_reg s)"
    "flit_holds (pk_cur_flit s) ss" "flit_fdid (pk_cur_flit s) = 0" "ss \<noteq> []"
    "segs_from c ss" "spill_of s = segs_carry ss"
    "G = ms @ segs_done ss @ spill_tail (spill_of s)"
    by (auto simp: pk_stream_def)
  have out: "out_reg s = []" "out_reg s' = [(pk_cur_flit s)\<lparr>flit_msg_credit := x\<rparr>]"
    using assms(3-5) by (simp_all add: out_reg_def)
  have "flit_holds ((pk_cur_flit s)\<lparr>flit_msg_credit := x\<rparr>) ss"
    using *(3) by (simp add: flit_holds_credit)
  from framed_snoc [OF *(1) this *(6)] this show ?thesis
    using * out assms(6-8) flit_holds_init unfolding pk_stream_def
    by (intro exI [of _ "ms @ segs_done ss"] exI [of _ "segs_carry ss"] exI [of _ "[]"])
       (auto simp: sendable_def AouFlit_init_def)
qed

text \<open>The link takes the flit in the output register.\<close>

lemma pk_stream_accept:
  assumes "pk_stream s fs G" and "out_reg s' = []" "pk_cur_flit s' = pk_cur_flit s"
    "spill_of s' = spill_of s" "pk_spill_active s' \<longrightarrow> 0 \<le> pk_spill_done s'"
  shows "pk_stream s' (fs @ out_reg s) G"
  using assms unfolding pk_stream_def by (simp only: append_Nil2) blast

lemma pk_stream_cong:
  assumes "pk_stream s fs G" and "out_reg s' = out_reg s" "pk_cur_flit s' = pk_cur_flit s"
    "spill_of s' = spill_of s" "pk_spill_active s' \<longrightarrow> 0 \<le> pk_spill_done s'"
  shows "pk_stream s' fs G"
  using assms unfolding pk_stream_def by (simp only:) blast

lemma pk_stream_fields:
  assumes "pk_output_active s' = pk_output_active s" "pk_output_transfer s' = pk_output_transfer s"
    "pk_cur_flit s' = pk_cur_flit s" "pk_spill_active s' = pk_spill_active s"
    "pk_spill_msg s' = pk_spill_msg s" "pk_spill_done s' = pk_spill_done s"
  shows "pk_stream s' fs G = pk_stream s fs G"
  by (simp only: pk_stream_def out_reg_def spill_of_def assms)

end
