(* ===== verification/Packer_Correct.thy ===== *)
theory Packer_Correct
  imports Packer_Stream
begin

text \<open>
  Per-queue correctness of the packer: for every class of messages and every plane, what the peer
  decodes from the accepted flits is what was written into that queue, in order.
\<close>

section \<open>Queues\<close>

datatype qclass = QRreq | QWreq | QWdata

fun qtypes :: "qclass \<Rightarrow> MsgType set" where
  "qtypes QRreq = {MsgType.ReadReq}"
| "qtypes QWreq = {MsgType.WriteReq}"
| "qtypes QWdata = {MsgType.WriteData, MsgType.WriteDataFull}"

fun staged_of :: "qclass \<Rightarrow> FlitPacker \<Rightarrow> slots" where
  "staged_of QRreq s = pk_staged_rreq s"
| "staged_of QWreq s = pk_staged_wreq s"
| "staged_of QWdata s = pk_staged_wdata s"

fun port_of :: "qclass \<Rightarrow> pk_ports \<Rightarrow> nat \<Rightarrow> AouMessage sc_fifo" where
  "port_of QRreq p = pp_rreq_in p"
| "port_of QWreq p = pp_wreq_in p"
| "port_of QWdata p = pp_wdata_in p"

definition in_queue :: "qclass \<Rightarrow> nat \<Rightarrow> AouMessage \<Rightarrow> bool" where
  "in_queue q rp m \<longleftrightarrow> msg_type m \<in> qtypes q \<and> msg_rp m = of_nat rp"

definition qmsg :: "qclass \<Rightarrow> nat \<Rightarrow> AouMessage \<Rightarrow> bool" where
  "qmsg q rp m \<longleftrightarrow> msg_wf m \<and> in_queue q rp m"

text \<open>What waits for the packer in one queue: the staging slot, then the channel.\<close>

definition pipe :: "qclass \<Rightarrow> nat \<Rightarrow> FlitPacker \<Rightarrow> pk_ports \<Rightarrow> AouMessage list" where
  "pipe q rp s p = (case staged_of q s rp of None \<Rightarrow> [] | Some m \<Rightarrow> [m]) @ fifo_list (port_of q p rp)"

definition pk_ok :: "FlitPacker \<Rightarrow> pk_ports \<Rightarrow> bool" where
  "pk_ok s p \<longleftrightarrow> cm_wf (pk_credits s) \<and> cm_rp_count (pk_credits s) = pk_rp_count s
     \<and> (\<forall>q rp. rp < pk_rp_count s \<longrightarrow> list_all (qmsg q rp) (pipe q rp s p))"

definition pk_rel :: "(qclass \<Rightarrow> nat \<Rightarrow> AouMessage list) \<Rightarrow> AouFlit list \<Rightarrow> FlitPacker \<Rightarrow> pk_ports \<Rightarrow> bool" where
  "pk_rel A fs s p \<longleftrightarrow> pk_ok s p \<and> (\<exists>G. pk_stream s fs G \<and> (\<forall>q rp. rp < pk_rp_count s \<longrightarrow>
     map wire_msg (A q rp) = filter (in_queue q rp) G @ map wire_msg (pipe q rp s p)))"

lemma in_queue_wire: "msg_wf m \<Longrightarrow> msg_type m \<noteq> Misc \<Longrightarrow> in_queue q rp (wire_msg m) = in_queue q rp m"
  by (simp add: in_queue_def wire_msg_def msg_wf_def)

lemma in_queue_wire_misc: "msg_type m = Misc \<Longrightarrow> \<not> in_queue q rp (wire_msg m)"
  by (cases q) (simp_all add: in_queue_def wire_msg_def)

lemma qtypes_not_misc: "t \<in> qtypes q \<Longrightarrow> t \<noteq> Misc"
  by (cases q) auto

lemma qtypes_inj: "t \<in> qtypes q \<Longrightarrow> t \<in> qtypes q' \<Longrightarrow> q = q'"
  by (cases q; cases q') auto

lemma in_queue_inj:
  "in_queue q rp m \<Longrightarrow> in_queue q' rp' m \<Longrightarrow> rp < 4 \<Longrightarrow> rp' < 4 \<Longrightarrow> q = q' \<and> rp = rp'"
  by (auto simp: in_queue_def less_4_cases dest: qtypes_inj)

section \<open>Filling the staging slots\<close>

lemma fill_slot_pipe:
  assumes "fill_slot rp (sl, qs) = (sl', qs')"
  shows "(case sl' r of None \<Rightarrow> [] | Some m \<Rightarrow> [m]) @ fifo_list (qs' r)
    = (case sl r of None \<Rightarrow> [] | Some m \<Rightarrow> [m]) @ fifo_list (qs r)"
proof (cases "sl rp")
  case None
  obtain x q' where rd: "nb_read (qs rp) = (x, q')"
    by fastforce
  show ?thesis
  proof (cases x)
    case None': None
    with rd have "q' = qs rp"
      using sc_fifo.rd_none [of "qs rp" q'] by simp
    with assms None None' rd show ?thesis
      by (simp add: fill_slot_def)
  next
    case (Some msg)
    with rd have "fifo_list (qs rp) = msg # fifo_list q'"
      using sc_fifo.rd_some [of "qs rp" msg q'] by simp
    with assms None Some rd show ?thesis
      by (auto simp: fill_slot_def)
  qed
qed (use assms in \<open>simp add: fill_slot_def\<close>)

definition refilled :: "FlitPacker \<times> pk_ports \<Rightarrow> FlitPacker \<times> pk_ports \<Rightarrow> bool" where
  "refilled sp sp' \<longleftrightarrow> (\<exists>r w d. fst sp' = (fst sp)\<lparr>pk_staged_rreq := r, pk_staged_wreq := w, pk_staged_wdata := d\<rparr>)
     \<and> (\<forall>q rp. pipe q rp (fst sp') (snd sp') = pipe q rp (fst sp) (snd sp))"

lemma refilled_refl: "refilled sp sp"
  unfolding refilled_def by (intro conjI exI [of _ "pk_staged_rreq (fst sp)"] exI [of _ "pk_staged_wreq (fst sp)"]
      exI [of _ "pk_staged_wdata (fst sp)"]) simp_all

lemma refilled_trans:
  assumes "refilled a b" and "refilled b c"
  shows "refilled a c"
proof -
  from assms(2) obtain r w d where
    "fst c = (fst b)\<lparr>pk_staged_rreq := r, pk_staged_wreq := w, pk_staged_wdata := d\<rparr>"
    by (auto simp: refilled_def)
  moreover from assms(1) obtain r' w' d' where
    "fst b = (fst a)\<lparr>pk_staged_rreq := r', pk_staged_wreq := w', pk_staged_wdata := d'\<rparr>"
    by (auto simp: refilled_def)
  ultimately have "fst c = (fst a)\<lparr>pk_staged_rreq := r, pk_staged_wreq := w, pk_staged_wdata := d\<rparr>"
    by simp
  with assms show ?thesis
    unfolding refilled_def by metis
qed

lemma fill_plane_refilled: "refilled sp (fill_plane rp sp)"
proof -
  obtain s p where sp: "sp = (s, p)"
    by (cases sp)
  obtain r rq w wq d dq where f: "fill_slot rp (pk_staged_rreq s, pp_rreq_in p) = (r, rq)"
    "fill_slot rp (pk_staged_wreq s, pp_wreq_in p) = (w, wq)"
    "fill_slot rp (pk_staged_wdata s, pp_wdata_in p) = (d, dq)"
    by (metis surj_pair)
  have "pipe q x (s\<lparr>pk_staged_rreq := r, pk_staged_wreq := w, pk_staged_wdata := d\<rparr>)
      (p\<lparr>pp_rreq_in := rq, pp_wreq_in := wq, pp_wdata_in := dq\<rparr>) = pipe q x s p" for q x
    using fill_slot_pipe [OF f(1)] fill_slot_pipe [OF f(2)] fill_slot_pipe [OF f(3)]
    by (cases q) (simp_all add: pipe_def)
  then show ?thesis
    unfolding refilled_def sp fill_plane_def f Let_def prod.case fst_conv snd_conv
    by (intro conjI exI [of _ r] exI [of _ w] exI [of _ d]) simp_all
qed

lemma fill_staging_refilled: "refilled sp (fill_staging_slots sp)"
  unfolding fill_staging_slots_def
  by (rule fold_invariant [where Q = "\<lambda>_. True" and P = "refilled sp"])
     (auto intro: refilled_refl refilled_trans fill_plane_refilled)

lemma pk_rel_refilled:
  assumes "pk_rel A fs s p" and "refilled (s, p) (s', p')"
  shows "pk_rel A fs s' p'"
proof -
  from assms(2) obtain r w d where s': "s' = s\<lparr>pk_staged_rreq := r, pk_staged_wreq := w, pk_staged_wdata := d\<rparr>"
    and pipe: "\<And>q rp. pipe q rp s' p' = pipe q rp s p"
    by (auto simp: refilled_def)
  have "pk_stream s' fs G" if "pk_stream s fs G" for G
    using that by (rule pk_stream_cong) (use that in \<open>auto simp: s' out_reg_def spill_of_def pk_stream_def\<close>)
  then show ?thesis
    using assms(1) pipe by (auto simp: pk_rel_def pk_ok_def s')
qed

section \<open>Selection\<close>

lemma select_scan_sound:
  assumes "select_scan s sl is = Some (msg, rp)" and "0 < pk_rp_count s"
  shows "rp < pk_rp_count s \<and> sl rp = Some msg
    \<and> can_consume (pk_credits s) rp (msg_type msg) (nat (msg_granules msg))"
  using assms by (induction "is") (auto simp: Let_def split: option.splits if_splits)

lemma select_candidate_sound:
  assumes "select_candidate s = Some (msg, rp)" and "0 < pk_rp_count s"
  obtains q where "rp < pk_rp_count s" "staged_of q s rp = Some msg"
    "can_consume (pk_credits s) rp (msg_type msg) (nat (msg_granules msg))"
proof -
  from assms(1) consider "select_from s (pk_staged_rreq s) = Some (msg, rp)"
    | "select_from s (pk_staged_wreq s) = Some (msg, rp)" | "select_from s (pk_staged_wdata s) = Some (msg, rp)"
    by (auto simp: select_candidate_def split: option.splits)
  then show thesis
    using that [of QRreq] that [of QWreq] that [of QWdata]
    by cases (auto simp: select_from_def dest!: select_scan_sound [OF _ assms(2)])
qed

section \<open>Packing\<close>

definition unstage :: "qclass \<Rightarrow> nat \<Rightarrow> FlitPacker \<Rightarrow> FlitPacker" where
  "unstage q rp s = (case q of
     QRreq \<Rightarrow> s\<lparr>pk_staged_rreq := (pk_staged_rreq s)(rp := None)\<rparr>
   | QWreq \<Rightarrow> s\<lparr>pk_staged_wreq := (pk_staged_wreq s)(rp := None)\<rparr>
   | QWdata \<Rightarrow> s\<lparr>pk_staged_wdata := (pk_staged_wdata s)(rp := None)\<rparr>)"

lemma pipe_unstage:
  "pipe q' rp' (unstage q rp s) p = (if q' = q \<and> rp' = rp then fifo_list (port_of q p rp) else pipe q' rp' s p)"
  by (cases q; cases q') (auto simp: unstage_def pipe_def)

lemma unstage_fields [simp]:
  "pk_rp_count (unstage q rp s) = pk_rp_count s" "pk_credits (unstage q rp s) = pk_credits s"
  "pk_cur_flit (unstage q rp s) = pk_cur_flit s" "out_reg (unstage q rp s) = out_reg s"
  "spill_of (unstage q rp s) = spill_of s" "pk_spill_active (unstage q rp s) = pk_spill_active s"
  "pk_spill_done (unstage q rp s) = pk_spill_done s" "pk_output_active (unstage q rp s) = pk_output_active s"
  by (cases q; simp add: unstage_def out_reg_def spill_of_def)+

lemma pipe_cong:
  "staged_of q s' rp = staged_of q s rp \<Longrightarrow> pipe q rp s' p = pipe q rp s p"
  by (simp add: pipe_def)

text \<open>What \<open>consume_candidate\<close> computes when its assertions hold.\<close>

lemma consume_candidate_eq:
  assumes "cm_consume (pk_credits s) rp (msg_type msg) (nat (msg_granules msg)) = Inr c"
    and "pack_fragment (pk_cur_flit s) msg 0 = (int t, f')" and "0 < t" and "msg_type msg \<in> qtypes q"
    and "0 < msg_granules msg" and "t \<le> gran msg"
  obtains s' where "consume_candidate (msg, rp) s = Inr s'"
    "pk_rp_count s' = pk_rp_count s" "pk_credits s' = c" "pk_cur_flit s' = f'" "out_reg s' = out_reg s"
    "pk_output_active s' = pk_output_active s"
    "\<And>q' rp' p. pipe q' rp' s' p = pipe q' rp' (unstage q rp s) p"
    "t = gran msg \<Longrightarrow> pk_spill_active s' = pk_spill_active s \<and> spill_of s' = spill_of s \<and> pk_spill_done s' = pk_spill_done s"
    "t \<noteq> gran msg \<Longrightarrow> pk_spill_active s' \<and> spill_of s' = Some (msg, t) \<and> pk_spill_done s' = int t"
proof -
  define s1 where "s1 = (if int t < msg_granules msg
     then s\<lparr>pk_credits := c, pk_cur_flit := f', pk_spill_msg := msg, pk_spill_done := int t, pk_spill_active := True\<rparr>
     else s\<lparr>pk_credits := c, pk_cur_flit := f'\<rparr>)"
  define s' where "s' = (unstage q rp s1)\<lparr>pk_next_rp := (rp + 1) mod pk_rp_count s\<rparr>"
  have tl: "int t < msg_granules msg \<longleftrightarrow> t \<noteq> gran msg"
    using assms(5,6) by linarith
  have un: "(if msg_type msg = MsgType.ReadReq then x\<lparr>pk_staged_rreq := (pk_staged_rreq x)(rp := None)\<rparr>
      else if msg_type msg = MsgType.WriteReq then x\<lparr>pk_staged_wreq := (pk_staged_wreq x)(rp := None)\<rparr>
      else x\<lparr>pk_staged_wdata := (pk_staged_wdata x)(rp := None)\<rparr>) = unstage q rp x" for x
  proof -
    have "msg_type msg = MsgType.ReadReq \<longleftrightarrow> q = QRreq" "msg_type msg = MsgType.WriteReq \<longleftrightarrow> q = QWreq"
      using assms(4) by (cases q; auto)+
    then show ?thesis
      by (cases q) (simp_all add: unstage_def)
  qed
  have cnt: "pk_rp_count (unstage q rp s1) = pk_rp_count s"
    by (simp add: s1_def)
  have eq: "consume_candidate (msg, rp) s = Inr s'"
    unfolding consume_candidate_def prod.case assms(1,2) rbind_Inr Let_def un s'_def s1_def [symmetric] cnt
    using assms(3) by simp
  show thesis
  proof (rule that [OF eq])
    show "pipe q' rp' s' p = pipe q' rp' (unstage q rp s) p" for q' rp' p
      by (rule pipe_cong) (cases q'; cases q; simp add: s'_def s1_def unstage_def)
    show "pk_rp_count s' = pk_rp_count s" "pk_credits s' = c" "pk_cur_flit s' = f'"
      "pk_output_active s' = pk_output_active s"
      by (simp_all add: s'_def s1_def)
    show "out_reg s' = out_reg s"
      by (simp add: s'_def s1_def out_reg_def unstage_def split: qclass.splits)
    have sp: "spill_of s' = spill_of s1" "pk_spill_active s' = pk_spill_active s1" "pk_spill_done s' = pk_spill_done s1"
      by (simp_all add: s'_def spill_of_def unstage_def split: qclass.splits)
    show "t = gran msg \<Longrightarrow> pk_spill_active s' = pk_spill_active s \<and> spill_of s' = spill_of s \<and> pk_spill_done s' = pk_spill_done s"
      "t \<noteq> gran msg \<Longrightarrow> pk_spill_active s' \<and> spill_of s' = Some (msg, t) \<and> pk_spill_done s' = int t"
      unfolding sp by (simp_all add: s1_def tl spill_of_def)
  qed
qed

lemma pk_rel_consume:
  assumes rel: "pk_rel A fs s p" and "\<not> pk_spill_active s" and "flit_used_granules (pk_cur_flit s) < 48"
    and sel: "select_candidate s = Some (msg, rp)"
  obtains s' where "consume_candidate (msg, rp) s = Inr s'" "pk_rel A fs s' p"
    "pk_output_active s' = pk_output_active s" "out_reg s' = out_reg s" "flit_valid (pk_cur_flit s')"
proof -
  from rel obtain G where ok: "pk_ok s p" and str: "pk_stream s fs G"
    and acc: "\<And>q rp. rp < pk_rp_count s \<Longrightarrow>
      map wire_msg (A q rp) = filter (in_queue q rp) G @ map wire_msg (pipe q rp s p)"
    by (auto simp: pk_rel_def)
  have n: "0 < pk_rp_count s" "pk_rp_count s \<le> 4"
    using ok by (auto simp: pk_ok_def cm_wf_def aou_consts)
  obtain q where q: "rp < pk_rp_count s" "staged_of q s rp = Some msg"
    "can_consume (pk_credits s) rp (msg_type msg) (nat (msg_granules msg))"
    by (rule select_candidate_sound [OF sel n(1)])
  have pipe: "pipe q rp s p = msg # fifo_list (port_of q p rp)"
    using q(2) by (simp add: pipe_def)
  have "list_all (qmsg q rp) (pipe q rp s p)"
    using ok q(1) by (simp add: pk_ok_def)
  then have "qmsg q rp msg"
    by (simp add: pipe)
  then have m: "msg_wf msg" "in_queue q rp msg" "msg_type msg \<in> qtypes q"
    by (simp_all add: qmsg_def in_queue_def)
  obtain t f' where t: "pack_fragment (pk_cur_flit s) msg 0 = (int t, f')" "0 < t" "t \<le> gran msg"
    and str': "\<And>s'. pk_cur_flit s' = f' \<Longrightarrow> out_reg s' = out_reg s \<Longrightarrow> (pk_spill_active s' \<longrightarrow> 0 \<le> pk_spill_done s') \<Longrightarrow>
       spill_of s' = (if t = gran msg then None else Some (msg, t)) \<Longrightarrow> pk_stream s' fs (G @ [wire_msg msg])"
    by (rule pk_stream_pack [OF str assms(2,3) m(1)]) blast
  define c where "c = (pk_credits s)\<lparr>cm_tx_available := mat_set (cm_tx_available (pk_credits s)) rp
     (credit_kind_index (msgtype_to_credit_kind (msg_type msg)))
     (cm_tx_available (pk_credits s) rp (credit_kind_index (msgtype_to_credit_kind (msg_type msg))) - gran msg)\<rparr>"
  have c: "cm_consume (pk_credits s) rp (msg_type msg) (gran msg) = Inr c"
    using q(3) by (auto simp: can_consume_def cm_consume_def c_def Let_def split: if_splits)
  have g: "0 < msg_granules msg"
    using msg_wfD(3) [OF m(1)] by simp
  obtain s' where s': "consume_candidate (msg, rp) s = Inr s'"
    "pk_rp_count s' = pk_rp_count s" "pk_credits s' = c" "pk_cur_flit s' = f'" "out_reg s' = out_reg s"
    "pk_output_active s' = pk_output_active s"
    "\<And>q' rp' p. pipe q' rp' s' p = pipe q' rp' (unstage q rp s) p"
    "t = gran msg \<Longrightarrow> pk_spill_active s' = pk_spill_active s \<and> spill_of s' = spill_of s \<and> pk_spill_done s' = pk_spill_done s"
    "t \<noteq> gran msg \<Longrightarrow> pk_spill_active s' \<and> spill_of s' = Some (msg, t) \<and> pk_spill_done s' = int t"
    by (rule consume_candidate_eq [OF c t(1,2) m(3) g t(3)]) blast
  have "pk_stream s' fs (G @ [wire_msg msg])"
  proof (rule str' [OF s'(4,5)])
    show "spill_of s' = (if t = gran msg then None else Some (msg, t))"
      "pk_spill_active s' \<longrightarrow> 0 \<le> pk_spill_done s'"
      using s'(8,9) assms(2) by (cases "t = gran msg"; simp add: spill_of_def)+
  qed
  moreover have "pk_ok s' p"
    using ok \<open>list_all (qmsg q rp) (pipe q rp s p)\<close> pipe unfolding pk_ok_def s'(2,3,7) pipe_unstage
    by (auto simp: c_def cm_wf_def)
  moreover have "map wire_msg (A q' rp') = filter (in_queue q' rp') (G @ [wire_msg msg]) @ map wire_msg (pipe q' rp' s' p)"
    if "rp' < pk_rp_count s" for q' rp'
  proof -
    have iq: "in_queue q' rp' (wire_msg msg) \<longleftrightarrow> q' = q \<and> rp' = rp"
      using in_queue_inj [OF m(2), of q' rp'] in_queue_wire [OF m(1) qtypes_not_misc [OF m(3)], of q' rp']
        m(2) q(1) that n(2) by auto
    show ?thesis
    proof (cases "q' = q \<and> rp' = rp")
      case True
      then show ?thesis
        using acc [OF that, of q'] iq by (simp add: s'(7) pipe_unstage pipe)
    next
      case False
      then show ?thesis
        using acc [OF that, of q'] iq by (simp only: s'(7) pipe_unstage if_False filter_append filter.simps append_Nil2)
    qed
  qed
  moreover have "flit_valid f'"
    using \<open>pk_stream s' fs (G @ [wire_msg msg])\<close> t pack_fragment_none [of msg 0 "pk_cur_flit s"]
    by (auto simp: pack_fragment_def Let_def split: if_splits)
  ultimately show thesis
    using s' by (intro that [of s']) (auto simp: pk_rel_def)
qed

section \<open>One cycle\<close>

lemma pk_rel_n: "pk_rel A fs s p \<Longrightarrow> 0 < pk_rp_count s \<and> pk_rp_count s \<le> 4"
  by (auto simp: pk_rel_def pk_ok_def cm_wf_def aou_consts)

lemma pk_rel_stream: "pk_rel A fs s p \<Longrightarrow> \<exists>G. pk_stream s fs G"
  by (auto simp: pk_rel_def)

text \<open>A step that changes neither the queues nor the stream keeps the relation.\<close>

lemma pk_rel_keep:
  assumes "pk_rel A fs s p" and "\<And>G. pk_stream s fs G \<Longrightarrow> pk_stream s' fs' G"
    and "cm_wf (pk_credits s')" "cm_rp_count (pk_credits s') = pk_rp_count s'" "pk_rp_count s' = pk_rp_count s"
    and "\<And>q rp. pipe q rp s' p' = pipe q rp s p"
  shows "pk_rel A fs' s' p'"
  using assms unfolding pk_rel_def pk_ok_def by metis

lemma pack_loop_rel:
  assumes "pk_rel A fs s p" and "\<not> pk_spill_active s"
  obtains e s' p' where "pack_loop k (s, p) = Inr (e, s', p')" "pk_rel A fs s' p'"
    "pk_spill_active s' \<longrightarrow> flit_valid (pk_cur_flit s')"
    "pk_output_active s' = pk_output_active s" "out_reg s' = out_reg s"
  using assms
proof (induction k arbitrary: s p thesis)
  case 0
  then show ?case by simp
next
  case (Suc k)
  show ?case
  proof (cases "remaining_granules (pk_cur_flit s) \<le> 0")
    case True
    with Suc.prems show ?thesis by simp
  next
    case False
    obtain s1 p1 where fill: "fill_staging_slots (s, p) = (s1, p1)"
      by fastforce
    have ref: "refilled (s, p) (s1, p1)"
      using fill_staging_refilled [of "(s, p)"] fill by simp
    have rel1: "pk_rel A fs s1 p1"
      by (rule pk_rel_refilled [OF Suc.prems(2) ref])
    from ref have s1: "pk_spill_active s1 = pk_spill_active s" "pk_cur_flit s1 = pk_cur_flit s"
      "pk_output_active s1 = pk_output_active s" "out_reg s1 = out_reg s"
      by (auto simp: refilled_def out_reg_def)
    show ?thesis
    proof (cases "select_candidate s1")
      case None
      with False fill rel1 s1 Suc.prems show ?thesis by simp
    next
      case (Some cand)
      obtain msg rp where cand: "cand = (msg, rp)"
        by (cases cand)
      have "\<not> pk_spill_active s1" "flit_used_granules (pk_cur_flit s1) < 48"
        using s1 Suc.prems(3) False by (simp_all add: remaining_granules_def aou_consts)
      then obtain s2 where s2: "consume_candidate (msg, rp) s1 = Inr s2" "pk_rel A fs s2 p1"
        "pk_output_active s2 = pk_output_active s1" "out_reg s2 = out_reg s1" "flit_valid (pk_cur_flit s2)"
        using pk_rel_consume [OF rel1] Some cand by blast
      show ?thesis
      proof (cases "pk_spill_active s2")
        case True
        with False fill Some cand s2 s1 Suc.prems show ?thesis by simp
      next
        case no_spill: False
        from Suc.IH [OF _ s2(2) this] obtain e s' p' where "pack_loop k (s2, p1) = Inr (e, s', p')"
          "pk_rel A fs s' p'" "pk_spill_active s' \<longrightarrow> flit_valid (pk_cur_flit s')"
          "pk_output_active s' = pk_output_active s2" "out_reg s' = out_reg s2"
          by blast
        with False fill Some cand s2 s1 no_spill show ?thesis
          by (intro Suc.prems(1) [of e s' p']) simp_all
      qed
    qed
  qed
qed

lemma pack_cycle_rel:
  assumes "pk_rel A fs s p"
  obtains e s' p' where "pack_cycle (s, p) = Inr (e, s', p')" "pk_rel A fs s' p'"
    "pk_spill_active s' \<longrightarrow> flit_valid (pk_cur_flit s')"
    "pk_output_active s' = pk_output_active s" "out_reg s' = out_reg s"
proof (cases "pk_spill_active s")
  case False
  with assms that show thesis
    using pack_loop_rel [OF assms False, of PACK_MSGS_PER_CYCLE] unfolding pack_cycle_def by simp blast
next
  case True
  from assms obtain G where str: "pk_stream s fs G"
    by (auto simp: pk_rel_def)
  show thesis
  proof (cases "flit_used_granules (pk_cur_flit s) = 0")
    case False
    then have "flit_valid (pk_cur_flit s)"
      using str flit_holds_empty by (auto simp: pk_stream_def)
    with True False assms that show thesis
      by (simp add: pack_cycle_def)
  next
    case empty: True
    obtain f' where f': "pack_fragment (pk_cur_flit s) (pk_spill_msg s) (pk_spill_done s)
        = (msg_granules (pk_spill_msg s) - pk_spill_done s, f')"
      using pk_stream_resume [OF str True empty] by blast
    let ?s = "s\<lparr>pk_cur_flit := f', pk_spill_active := False, pk_spill_done := 0\<rparr>"
    have "pk_rel A fs ?s p"
    proof (rule pk_rel_keep [OF assms])
      fix G'
      assume "pk_stream s fs G'"
      then show "pk_stream ?s fs G'"
        using f' by (elim pk_stream_resume [OF _ True empty]) (simp add: out_reg_def)
    next
      show "pipe q rp ?s p = pipe q rp s p" for q rp
        by (rule pipe_cong) (cases q; simp)
    qed (use assms in \<open>auto simp: pk_rel_def pk_ok_def\<close>)
    moreover have ns: "\<not> pk_spill_active ?s" and o: "out_reg ?s = out_reg s"
      by (simp_all add: out_reg_def)
    ultimately obtain e s' p' where
      "pack_loop PACK_MSGS_PER_CYCLE (?s, p) = Inr (e, s', p')" "pk_rel A fs s' p'"
      "pk_spill_active s' \<longrightarrow> flit_valid (pk_cur_flit s')"
      "pk_output_active s' = pk_output_active ?s" "out_reg s' = out_reg ?s"
      using pack_loop_rel by blast
    with True empty f' show thesis
      by (intro that [of e s' p']) (simp_all add: pack_cycle_def Let_def o)
  qed
qed

lemma flush_flit_rel:
  assumes rel: "pk_rel A fs s p" and "flit_valid (pk_cur_flit s)" and "\<not> pk_output_active s"
  obtains s' where "flush_flit b s = Inr s'" "pk_rel A fs s' p"
proof -
  from rel have wf: "cm_wf (pk_credits s)" "cm_rp_count (pk_credits s) = pk_rp_count s"
    by (simp_all add: pk_rel_def pk_ok_def)
  have cur: "flit_ok (pk_cur_flit s)" "flit_ok ((pk_cur_flit s)\<lparr>flit_msg_credit := x\<rparr>)" for x
    using rel by (auto simp: pk_rel_def pk_stream_def flit_holds_def flit_ok_def)
  obtain x c where t: "take_header_grant (pk_credits s) = (x, c)"
    by fastforce
  note fr = header.frame [OF t]
  let ?out = "\<lambda>s cr f. s\<lparr>pk_credits := cr, pk_flits_sent := pk_flits_sent s + 1,
      pk_granules_sent := pk_granules_sent s + nat (flit_used_granules (pk_cur_flit s)),
      pk_output_transfer := FlitTransfer_of f, pk_output_active := True, pk_flit_out := FlitTransfer_of f,
      pk_cur_flit := AouFlit_init, pk_timeout_cnt := 0\<rparr>"
  have keep: "pk_rel A fs s' p"
    if "\<And>q rp. pipe q rp s' p = pipe q rp s p" "pk_rp_count s' = pk_rp_count s"
      "cm_wf (pk_credits s')" "cm_rp_count (pk_credits s') = pk_rp_count s"
      "pk_output_active s'" "ft_flit (pk_output_transfer s') = (pk_cur_flit s)\<lparr>flit_msg_credit := y\<rparr>"
      "pk_cur_flit s' = AouFlit_init" "spill_of s' = spill_of s" "pk_spill_active s' = pk_spill_active s"
      "pk_spill_done s' = pk_spill_done s" for s' y
  proof (rule pk_rel_keep [OF rel _ that(3)])
    fix G
    assume "pk_stream s fs G"
    moreover from this have "pk_spill_active s' \<longrightarrow> 0 \<le> pk_spill_done s'"
      unfolding pk_stream_def that(9,10) by blast
    ultimately show "pk_stream s' fs G"
      by (rule pk_stream_flush [OF _ assms(2,3) that(5-8)])
  qed (use that in simp_all)
  define s' where "s' = (if b then (?out s c ((pk_cur_flit s)\<lparr>flit_msg_credit := x\<rparr>))
      \<lparr>pk_credit_return_idle_cnt := (if x \<noteq> 0 then 0 else pk_credit_return_idle_cnt s)\<rparr>
    else ?out s (pk_credits s) (pk_cur_flit s))"
  have "flush_flit b s = Inr s'"
    using assms(2,3) cur by (simp add: flush_flit_def s'_def t flit_clear_eq)
  moreover have "pk_rel A fs s' p"
  proof (rule keep)
    show "pipe q rp s' p = pipe q rp s p" for q rp
      by (rule pipe_cong) (cases q; simp add: s'_def)
    show "ft_flit (pk_output_transfer s') = (pk_cur_flit s)\<lparr>flit_msg_credit := (if b then x else flit_msg_credit (pk_cur_flit s))\<rparr>"
      by (simp add: s'_def FlitTransfer_of_def)
  qed (use wf fr in \<open>simp_all add: s'_def spill_of_def cm_wf_def\<close>)
  ultimately show thesis
    by (rule that)
qed

lemma dedicated_grant_rel:
  assumes rel: "pk_rel A fs s p" and "\<not> flit_valid (pk_cur_flit s)" and "\<not> pk_output_active s"
    and "\<not> pk_spill_active s"
  obtains s' where "send_dedicated_credit_grant s = Inr s'" "pk_rel A fs s' p"
proof -
  obtain g c where t: "take_misc_grants (pk_credits s) = (g, c)"
    by fastforce
  let ?m = "build_crdt_grant_message g (pk_rp_count s)"
  note wf = build_crdt_grant_wf [of g "pk_rp_count s"]
  from rel obtain G where ok: "pk_ok s p" and str: "pk_stream s fs G"
    and acc: "\<And>q rp. rp < pk_rp_count s \<Longrightarrow>
      map wire_msg (A q rp) = filter (in_queue q rp) G @ map wire_msg (pipe q rp s p)"
    by (auto simp: pk_rel_def)
  have empty: "flit_used_granules (pk_cur_flit s) = 0"
    using str assms(2) flit_holds_empty by (auto simp: pk_stream_def)
  then have u: "flit_used_granules (pk_cur_flit s) < 48"
    by simp
  obtain t' f' where f': "pack_fragment (pk_cur_flit s) ?m 0 = (int t', f')" "0 < t'" "t' \<le> gran ?m"
    and str': "\<And>s'. pk_cur_flit s' = f' \<Longrightarrow> out_reg s' = out_reg s \<Longrightarrow> (pk_spill_active s' \<longrightarrow> 0 \<le> pk_spill_done s') \<Longrightarrow>
       spill_of s' = (if t' = gran ?m then None else Some (?m, t')) \<Longrightarrow> pk_stream s' fs (G @ [wire_msg ?m])"
    by (rule pk_stream_pack [OF str assms(4) u wf]) blast
  have m2: "msg_granules ?m = 2" "msg_byte_len ?m = 10" "msg_type ?m = Misc"
    by (simp_all add: build_crdt_grant_message_def granule_consts aou_consts)
  have t2: "t' = 2"
    using f'(1) empty by (simp add: pack_fragment_def m2 aou_consts Let_def)
  let ?s = "s\<lparr>pk_credits := c, pk_cur_flit := f'\<rparr>"
  have pm: "pack_message (pk_cur_flit s) ?m = (True, f')"
    using f'(1) t2 empty by (simp add: pack_message_def m2 aou_consts)
  have str2: "pk_stream ?s fs (G @ [wire_msg ?m])"
    using assms(4) by (intro str') (simp_all add: out_reg_def spill_of_def m2 t2)
  have pipe: "pipe q rp ?s p = pipe q rp s p" for q rp
    by (rule pipe_cong) (cases q; simp)
  have c: "cm_wf c" "cm_rp_count c = pk_rp_count s"
    using t ok by (auto simp: take_misc_grants_eq pk_ok_def cm_wf_def)
  have "pk_rel A fs ?s p"
    using ok str2 acc c pipe in_queue_wire_misc [OF m2(3)] unfolding pk_rel_def pk_ok_def
    by (intro conjI exI [of _ "G @ [wire_msg ?m]"]) simp_all
  moreover have "flit_valid (pk_cur_flit ?s)"
    using f'(1,2) by (auto simp: pack_fragment_def Let_def split: if_splits)
  moreover have "\<not> pk_output_active ?s"
    using assms(3) by simp
  ultimately obtain s' where "flush_flit False ?s = Inr s'" "pk_rel A fs s' p"
    by (rule flush_flit_rel)
  then show thesis
    using pm t by (intro that [of s']) (simp_all add: send_dedicated_credit_grant_def)
qed

lemma pk_rel_counters:
  assumes "pk_rel A fs s p"
  shows "pk_rel A fs (s\<lparr>pk_timeout_cnt := x\<rparr>) p" "pk_rel A fs (s\<lparr>pk_credit_return_idle_cnt := x\<rparr>) p"
proof -
  have wf: "cm_wf (pk_credits s)" "cm_rp_count (pk_credits s) = pk_rp_count s"
    using assms by (simp_all add: pk_rel_def pk_ok_def)
  show "pk_rel A fs (s\<lparr>pk_timeout_cnt := x\<rparr>) p"
  proof (rule pk_rel_keep [OF assms])
    show "pk_stream (s\<lparr>pk_timeout_cnt := x\<rparr>) fs G" if "pk_stream s fs G" for G
      using that by (subst pk_stream_fields) simp_all
    show "pipe q rp (s\<lparr>pk_timeout_cnt := x\<rparr>) p = pipe q rp s p" for q rp
      by (rule pipe_cong) (cases q; simp)
  qed (use wf in simp_all)
  show "pk_rel A fs (s\<lparr>pk_credit_return_idle_cnt := x\<rparr>) p"
  proof (rule pk_rel_keep [OF assms])
    show "pk_stream (s\<lparr>pk_credit_return_idle_cnt := x\<rparr>) fs G" if "pk_stream s fs G" for G
      using that by (subst pk_stream_fields) simp_all
    show "pipe q rp (s\<lparr>pk_credit_return_idle_cnt := x\<rparr>) p = pipe q rp s p" for q rp
      by (rule pipe_cong) (cases q; simp)
  qed (use wf in simp_all)
qed

lemma pk_decide_rel:
  assumes rel: "pk_rel A fs s p" and "pk_spill_active s \<longrightarrow> flit_valid (pk_cur_flit s)"
  obtains s' where "pk_decide e s = Inr s'" "pk_rel A fs s' p"
proof -
  consider "pk_output_active s" | "\<not> pk_output_active s" "flit_valid (pk_cur_flit s)"
    | "\<not> pk_output_active s" "\<not> flit_valid (pk_cur_flit s)"
    by blast
  then show thesis
  proof cases
    case 1
    with rel that show thesis by (simp add: pk_decide_def)
  next
    case 2
    obtain s1 where "flush_flit True s = Inr s1" "pk_rel A fs s1 p"
      by (rule flush_flit_rel [OF rel 2(2,1)])
    then have "\<exists>s'. pk_decide e s = Inr s' \<and> pk_rel A fs s' p"
      using 2 pk_rel_counters(1) [OF rel] unfolding pk_decide_def by simp
    then show thesis
      using that by blast
  next
    case 3
    let ?s = "s\<lparr>pk_credit_return_idle_cnt := pk_credit_return_idle_cnt s + 1\<rparr>"
    have r1: "pk_rel A fs ?s p"
      by (rule pk_rel_counters(2) [OF rel])
    obtain s1 where "send_dedicated_credit_grant ?s = Inr s1" "pk_rel A fs s1 p"
      by (rule dedicated_grant_rel [OF r1]) (use 3 assms(2) in simp_all)
    then have "\<exists>s'. pk_decide e s = Inr s' \<and> pk_rel A fs s' p"
      using 3 rel r1 pk_rel_counters(2) [of A fs s1 p 0] unfolding pk_decide_def Let_def by simp
    then show thesis
      using that by blast
  qed
qed

lemma fold_credit_frame:
  "cm_rp_count (fold add_tx_credit us c) = cm_rp_count c"
  "cm_rp_count (fold return_rx_credit us c) = cm_rp_count c"
  by (induction us arbitrary: c) (simp_all add: add_tx_credit_def return_rx_credit_def Let_def)

lemma drain_rel:
  assumes rel: "pk_rel A fs s p" and d: "drain_credit_events (s, p) = (s', p')"
  shows "pk_rel A fs s' p'" "out_reg s' = out_reg s"
proof -
  from d obtain c qu qr where s': "s' = s\<lparr>pk_credits := c\<rparr>"
    and p': "p' = p\<lparr>pp_credit_update_in := qu, pp_credit_return_in := qr\<rparr>"
    and c: "cm_rp_count c = cm_rp_count (pk_credits s)"
    by (auto simp: drain_credit_events_def Let_def fold_credit_frame split: prod.splits)
  show "out_reg s' = out_reg s"
    by (simp add: s' out_reg_def)
  show "pk_rel A fs s' p'"
  proof (rule pk_rel_keep [OF rel])
    show "pk_stream s' fs G" if "pk_stream s fs G" for G
      using that unfolding s' by (subst pk_stream_fields) simp_all
    show "pipe q rp s' p' = pipe q rp s p" for q rp
      by (cases q) (simp_all add: pipe_def s' p')
  qed (use rel c in \<open>auto simp: s' pk_rel_def pk_ok_def cm_wf_def\<close>)
qed

lemma handshake_rel:
  assumes rel: "pk_rel A fs s p"
  shows "pk_rel A (fs @ (if ready then out_reg s else [])) (pk_handshake ready s) p"
proof (cases "pk_output_active s")
  case False
  with rel show ?thesis
    by (simp add: pk_handshake_def out_reg_def)
next
  case True
  show ?thesis
  proof (rule pk_rel_keep [OF rel])
    show "pk_stream (pk_handshake ready s) (fs @ (if ready then out_reg s else [])) G"
      if "pk_stream s fs G" for G
    proof (cases ready)
      case True
      have "pk_spill_active s \<longrightarrow> 0 \<le> pk_spill_done s"
        using that unfolding pk_stream_def by blast
      then show ?thesis
        using pk_stream_accept [OF that, of "pk_handshake ready s"] True \<open>pk_output_active s\<close>
        by (simp add: pk_handshake_def out_reg_def spill_of_def)
    next
      case False
      then show ?thesis
        using that by (subst pk_stream_fields [of _ s]) (simp_all add: pk_handshake_def)
    qed
    show "pipe q rp (pk_handshake ready s) p = pipe q rp s p" for q rp
      by (rule pipe_cong) (cases q; simp add: pk_handshake_def)
  qed (use rel in \<open>auto simp: pk_handshake_def pk_rel_def pk_ok_def\<close>)
qed

lemma pk_cycle_rel:
  assumes rel: "pk_rel A fs s p"
  obtains s' p' where "pk_cycle ready (s, p) = Inr (s', p')"
    "pk_rel A (fs @ (if ready then out_reg s else [])) s' p'"
proof -
  obtain s1 p1 where d: "drain_credit_events (s, p) = (s1, p1)"
    by fastforce
  note r1 = drain_rel [OF rel d]
  from handshake_rel [OF r1(1), of ready]
  have r2: "pk_rel A (fs @ (if ready then out_reg s else [])) (pk_handshake ready s1) p1"
    unfolding r1(2) .
  obtain e s3 p3 where r3: "pack_cycle (pk_handshake ready s1, p1) = Inr (e, s3, p3)"
    "pk_rel A (fs @ (if ready then out_reg s else [])) s3 p3"
    "pk_spill_active s3 \<longrightarrow> flit_valid (pk_cur_flit s3)"
    by (rule pack_cycle_rel [OF r2])
  obtain s4 where r4: "pk_decide e s3 = Inr s4" "pk_rel A (fs @ (if ready then out_reg s else [])) s4 p3"
    by (rule pk_decide_rel [OF r3(2,3)])
  with d r3 show thesis
    by (intro that [of s4 p3]) (simp_all add: pk_cycle_def)
qed

end
