(* ===== verification/Packer_System.thy ===== *)
theory Packer_System
  imports Packer_Correct
begin

text \<open>
  The packer in its surroundings: the other threads of the bridge write messages and credit events
  into its channels at any time, the delta cycles of the simulator make them visible, and the link
  accepts flits whenever it is ready. Every interleaving is allowed, which includes the schedules of
  the SystemC kernel. The properties speak about what the link accepted.
\<close>

section \<open>The number of planes is fixed\<close>

lemma fill_staging_count: "pk_rp_count (fst (fill_staging_slots sp)) = pk_rp_count (fst sp)"
  using fill_staging_refilled [of sp] by (auto simp: refilled_def)

lemma consume_candidate_count: "consume_candidate cand s = Inr s' \<Longrightarrow> pk_rp_count s' = pk_rp_count s"
proof -
  assume a: "consume_candidate cand s = Inr s'"
  obtain msg rp where c: "cand = (msg, rp)"
    by (cases cand)
  obtain t f where p: "pack_fragment (pk_cur_flit s) msg 0 = (t, f)"
    by (cases "pack_fragment (pk_cur_flit s) msg 0")
  have "case consume_candidate cand s of Inl e \<Rightarrow> True | Inr x \<Rightarrow> pk_rp_count x = pk_rp_count s"
    by (cases "cm_consume (pk_credits s) rp (msg_type msg) (gran msg)")
       (simp_all add: consume_candidate_def c p Let_def rassert_def)
  with a show ?thesis
    by simp
qed

lemma pack_loop_count: "pack_loop k sp = Inr (e, s', p') \<Longrightarrow> pk_rp_count s' = pk_rp_count (fst sp)"
proof (induction k arbitrary: sp)
  case (Suc k)
  obtain s1 p1 where f: "fill_staging_slots sp = (s1, p1)"
    by fastforce
  have c: "pk_rp_count s1 = pk_rp_count (fst sp)"
    using fill_staging_count [of sp] f by simp
  from Suc.prems show ?case
    using Suc.IH c by (auto simp: f rbind_eq_Inr consume_candidate_count split: if_splits option.splits)
qed auto

lemma flush_flit_count: "flush_flit b s = Inr s' \<Longrightarrow> pk_rp_count s' = pk_rp_count s"
  by (auto simp: flush_flit_def Let_def split: prod.splits if_splits)

lemma pk_decide_count: "pk_decide e s = Inr s' \<Longrightarrow> pk_rp_count s' = pk_rp_count s"
  by (auto simp: pk_decide_def send_dedicated_credit_grant_def rbind_eq_Inr Let_def
      dest!: flush_flit_count split: prod.splits if_splits)

lemma pk_cycle_count: "pk_cycle ready (s, p) = Inr (s', p') \<Longrightarrow> pk_rp_count s' = pk_rp_count s"
  by (auto simp: pk_cycle_def pack_cycle_def drain_credit_events_def pk_handshake_def rbind_eq_Inr Let_def
      dest!: pk_decide_count pack_loop_count split: prod.splits if_splits)

section \<open>The closed system\<close>

record pk_sys =
  sy_packer :: FlitPacker
  sy_ports :: pk_ports
  sy_sent :: "AouFlit list"
  sy_in :: "qclass \<Rightarrow> nat \<Rightarrow> AouMessage list"

definition set_port :: "qclass \<Rightarrow> nat \<Rightarrow> AouMessage sc_fifo \<Rightarrow> pk_ports \<Rightarrow> pk_ports" where
  "set_port q rp f p = (case q of
     QRreq \<Rightarrow> p\<lparr>pp_rreq_in := (pp_rreq_in p)(rp := f)\<rparr>
   | QWreq \<Rightarrow> p\<lparr>pp_wreq_in := (pp_wreq_in p)(rp := f)\<rparr>
   | QWdata \<Rightarrow> p\<lparr>pp_wdata_in := (pp_wdata_in p)(rp := f)\<rparr>)"

definition ports_update :: "pk_ports \<Rightarrow> pk_ports" where
  "ports_update p = \<lparr>pp_rreq_in = (\<lambda>rp. fifo_update (pp_rreq_in p rp)),
     pp_wreq_in = (\<lambda>rp. fifo_update (pp_wreq_in p rp)), pp_wdata_in = (\<lambda>rp. fifo_update (pp_wdata_in p rp)),
     pp_credit_update_in = fifo_update (pp_credit_update_in p),
     pp_credit_return_in = fifo_update (pp_credit_return_in p)\<rparr>"

definition ports_new :: pk_ports where
  "ports_new = \<lparr>pp_rreq_in = (\<lambda>_. fifo_new TX_REQ_FIFO_DEPTH_PER_RP),
     pp_wreq_in = (\<lambda>_. fifo_new TX_REQ_FIFO_DEPTH_PER_RP),
     pp_wdata_in = (\<lambda>_. fifo_new TX_WDATA_FIFO_DEPTH_PER_RP),
     pp_credit_update_in = fifo_new 64, pp_credit_return_in = fifo_new 64\<rparr>"

definition sys_init :: "FlitPacker \<Rightarrow> pk_sys" where
  "sys_init pk = \<lparr>sy_packer = pk_reset pk, sy_ports = ports_new, sy_sent = [], sy_in = (\<lambda>_ _. [])\<rparr>"

inductive sys_step :: "pk_sys \<Rightarrow> pk_sys \<Rightarrow> bool" where
  sys_clock: "pk_cycle ready (sy_packer y, sy_ports y) = Inr (s', p') \<Longrightarrow>
    sys_step y (y\<lparr>sy_packer := s', sy_ports := p',
      sy_sent := sy_sent y @ (if ready then out_reg (sy_packer y) else [])\<rparr>)"
| sys_write: "rp < pk_rp_count (sy_packer y) \<Longrightarrow> qmsg q rp m \<Longrightarrow>
    nb_write m (port_of q (sy_ports y) rp) = (True, f) \<Longrightarrow>
    sys_step y (y\<lparr>sy_ports := set_port q rp f (sy_ports y),
      sy_in := (sy_in y)(q := (sy_in y q)(rp := sy_in y q rp @ [m]))\<rparr>)"
| sys_credit: "sys_step y (y\<lparr>sy_ports := (sy_ports y)\<lparr>pp_credit_update_in := u, pp_credit_return_in := r\<rparr>\<rparr>)"
| sys_update: "sys_step y (y\<lparr>sy_ports := ports_update (sy_ports y)\<rparr>)"

inductive_cases sys_stepE: "sys_step y y'"

abbreviation sys_rel :: "pk_sys \<Rightarrow> bool" where
  "sys_rel y \<equiv> pk_rel (sy_in y) (sy_sent y) (sy_packer y) (sy_ports y)"

lemma pipe_set_port:
  "pipe q' rp' s (set_port q rp f p) =
    (if q' = q \<and> rp' = rp then (case staged_of q s rp of None \<Rightarrow> [] | Some m \<Rightarrow> [m]) @ fifo_list f
     else pipe q' rp' s p)"
  by (cases q; cases q') (auto simp: set_port_def pipe_def)

lemma pipe_ports_update: "pipe q rp s (ports_update p) = pipe q rp s p"
  by (cases q) (simp_all add: ports_update_def pipe_def sc_fifo.up_cont)

lemma sys_rel_init:
  assumes "FlitPacker_new n rc wc ft = Inr pk"
  shows "sys_rel (sys_init pk)" "pk_rp_count (sy_packer (sys_init pk)) = n"
proof -
  from assms obtain c where pk: "pk_rp_count pk = n" "pk_credits pk = c" "pk_cur_flit pk = AouFlit_init"
    and c: "CreditManager_new n (make_capacity n rc wc) = Inr c"
    by (auto simp: FlitPacker_new_def CreditManager_new_initiator_def rbind_eq_Inr)
  note cw = cm_wf_new [OF c]
  show n: "pk_rp_count (sy_packer (sys_init pk)) = n"
    by (simp add: sys_init_def pk_reset_def pk)
  have e: "pipe q rp (pk_reset pk) ports_new = []" for q rp
    by (cases q) (simp_all add: pipe_def pk_reset_def ports_new_def)
  have "pk_stream (pk_reset pk) [] []"
    unfolding pk_stream_def
    by (intro exI [of _ "[]"] exI [of _ None])
       (simp add: pk_reset_def out_reg_def spill_of_def spill_tail_def framed_Nil pk flit_clear_eq
         flit_holds_init, simp add: AouFlit_init_def)
  moreover have "pk_ok (pk_reset pk) ports_new"
    using cw by (simp add: pk_ok_def e) (simp add: pk_reset_def pk cm_wf_def publish_initial_capacity_def cm_reset_def)
  ultimately show "sys_rel (sys_init pk)"
    by (auto simp: pk_rel_def sys_init_def e)
qed

lemma sys_step_rel:
  assumes "sys_step y y'" and "sys_rel y"
  shows "sys_rel y' \<and> pk_rp_count (sy_packer y') = pk_rp_count (sy_packer y)"
  using assms(1)
proof cases
  case (sys_clock ready s' p')
  from pk_cycle_rel [OF assms(2), of ready] obtain s'' p'' where
    "pk_cycle ready (sy_packer y, sy_ports y) = Inr (s'', p'')"
    "pk_rel (sy_in y) (sy_sent y @ (if ready then out_reg (sy_packer y) else [])) s'' p''"
    by blast
  with sys_clock pk_cycle_count [OF sys_clock(2)] show ?thesis
    by simp
next
  case (sys_write rp q m f)
  have "0 < num_free (port_of q (sy_ports y) rp)"
    using sys_write(4) sc_fifo.wr_fails [of "port_of q (sy_ports y) rp" m] by (cases "num_free (port_of q (sy_ports y) rp)") auto
  with sys_write(4) have f: "fifo_list f = fifo_list (port_of q (sy_ports y) rp) @ [m]"
    using sc_fifo.wr_succeeds [of "port_of q (sy_ports y) rp" m] by auto
  have pipe: "pipe q' rp' (sy_packer y) (set_port q rp f (sy_ports y)) = pipe q' rp' (sy_packer y) (sy_ports y)
      @ (if q' = q \<and> rp' = rp then [m] else [])" for q' rp'
    by (simp add: pipe_set_port f) (simp add: pipe_def)
  from assms(2) obtain G where ok: "pk_ok (sy_packer y) (sy_ports y)"
    and str: "pk_stream (sy_packer y) (sy_sent y) G"
    and acc: "\<And>q rp. rp < pk_rp_count (sy_packer y) \<Longrightarrow> map wire_msg (sy_in y q rp)
      = filter (in_queue q rp) G @ map wire_msg (pipe q rp (sy_packer y) (sy_ports y))"
    by (auto simp: pk_rel_def)
  have "pk_ok (sy_packer y) (set_port q rp f (sy_ports y))"
    using ok sys_write(3) by (auto simp: pk_ok_def pipe)
  with str acc show ?thesis
    unfolding sys_write(1) by (auto simp: pk_rel_def pipe)
next
  case (sys_credit u r)
  have "pipe q rp (sy_packer y) ((sy_ports y)\<lparr>pp_credit_update_in := u, pp_credit_return_in := r\<rparr>)
      = pipe q rp (sy_packer y) (sy_ports y)" for q rp u r
    by (cases q) (simp_all add: pipe_def)
  with assms(2) show ?thesis
    unfolding sys_credit by (simp add: pk_rel_def pk_ok_def)
next
  case sys_update
  with assms(2) show ?thesis
    by (simp add: pk_rel_def pk_ok_def pipe_ports_update)
qed

lemma sys_reachable:
  assumes "sys_step\<^sup>*\<^sup>* (sys_init pk) y" and "FlitPacker_new n rc wc ft = Inr pk"
  shows "sys_rel y \<and> pk_rp_count (sy_packer y) = n"
  using assms(1)
proof (induction rule: rtranclp_induct)
  case base
  then show ?case
    using sys_rel_init [OF assms(2)] by simp
next
  case (step y z)
  then show ?case
    using sys_step_rel by simp
qed

section \<open>What the link has received\<close>

lemma decode_flits_append:
  "decode_flits (fs @ gs) d = rbind (decode_flits fs d) (\<lambda>(ms, d').
     rbind (decode_flits gs d') (\<lambda>(ms', d''). Inr (ms @ ms', d'')))"
proof (induction fs arbitrary: d)
  case Nil
  then show ?case
    by (cases "decode_flits gs d") auto
next
  case (Cons f fs)
  obtain r d1 where c: "sd_consume f d = (r, d1)"
    by fastforce
  show ?case
  proof (cases r)
    case (Inr x)
    then show ?thesis
      using Cons [of d1] c by (cases "decode_flits fs d1"; cases "decode_flits gs (snd (projr (decode_flits fs d1)))")
        (auto simp: rbind_def split: sum.splits prod.splits)
  qed (simp add: c)
qed

lemma decode_flits_prefix:
  assumes "decode_flits (fs @ gs) d = Inr (ms, d')"
  obtains ms1 d1 ms2 where "decode_flits fs d = Inr (ms1, d1)" "ms = ms1 @ ms2"
    "gs = [] \<longrightarrow> ms2 = []"
proof -
  from assms obtain ms1 d1 ms2 where "decode_flits fs d = Inr (ms1, d1)" "decode_flits gs d1 = Inr (ms2, d')"
    "ms = ms1 @ ms2"
    unfolding decode_flits_append by (auto simp: rbind_eq_Inr)
  with that [of ms1 d1 ms2] show thesis
    by (cases gs) auto
qed

lemma sys_rel_received:
  assumes rel: "sys_rel y"
  obtains D d rest where "decode_flits (sy_sent y) sd_reset = Inr (D, d)"
    "\<And>q rp. rp < pk_rp_count (sy_packer y) \<Longrightarrow> map wire_msg (sy_in y q rp) = filter (in_queue q rp) (D @ rest)
        @ map wire_msg (pipe q rp (sy_packer y) (sy_ports y))"
    "\<not> pk_output_active (sy_packer y) \<Longrightarrow> \<not> flit_valid (pk_cur_flit (sy_packer y)) \<Longrightarrow>
      \<not> pk_spill_active (sy_packer y) \<Longrightarrow> rest = []"
proof -
  from rel obtain G where str: "pk_stream (sy_packer y) (sy_sent y) G"
    and acc: "\<And>q rp. rp < pk_rp_count (sy_packer y) \<Longrightarrow> map wire_msg (sy_in y q rp)
      = filter (in_queue q rp) G @ map wire_msg (pipe q rp (sy_packer y) (sy_ports y))"
    by (auto simp: pk_rel_def)
  from str obtain ms c ss where fr: "framed (sy_sent y @ out_reg (sy_packer y)) ms c"
    and v: "flit_valid (pk_cur_flit (sy_packer y)) \<longleftrightarrow> ss \<noteq> []"
    and G: "G = ms @ segs_done ss @ spill_tail (spill_of (sy_packer y))"
    by (auto simp: pk_stream_def)
  from fr obtain dd where "decode_flits (sy_sent y @ out_reg (sy_packer y)) sd_reset = Inr (ms, dd)"
    by (auto simp: framed_def)
  then obtain D d ms2 where D: "decode_flits (sy_sent y) sd_reset = Inr (D, d)" "ms = D @ ms2"
      "out_reg (sy_packer y) = [] \<longrightarrow> ms2 = []"
    by (rule decode_flits_prefix)
  show thesis
  proof (rule that [OF D(1), of "ms2 @ segs_done ss @ spill_tail (spill_of (sy_packer y))"])
    show "map wire_msg (sy_in y q rp) = filter (in_queue q rp)
          (D @ ms2 @ segs_done ss @ spill_tail (spill_of (sy_packer y)))
        @ map wire_msg (pipe q rp (sy_packer y) (sy_ports y))" if "rp < pk_rp_count (sy_packer y)" for q rp
      using acc [OF that] G D(2) by simp
  qed (use D(3) v in \<open>simp add: out_reg_def spill_of_def spill_tail_def\<close>)
qed

section \<open>Properties\<close>

text \<open>
  C2: from reset on, under every interleaving of clock cycles, queue writes, credit events and link
  readiness, the flits the link accepted decode without error, and for every message class and plane
  the decoded messages are a prefix of what was written to that queue, in order, nothing lost,
  duplicated, reordered or altered; once the packer holds nothing and the queue is drained, they are
  all of it.
\<close>

theorem packer_delivers_in_order:
  assumes "FlitPacker_new n rc wc ft = Inr pk" and "sys_step\<^sup>*\<^sup>* (sys_init pk) y"
  shows "\<exists>D d. decode_flits (sy_sent y) sd_reset = Inr (D, d) \<and>
    (\<forall>q. \<forall>rp<n. (\<exists>rest. map wire_msg (sy_in y q rp) = filter (in_queue q rp) D @ rest) \<and>
      (\<not> pk_output_active (sy_packer y) \<and> \<not> flit_valid (pk_cur_flit (sy_packer y))
        \<and> \<not> pk_spill_active (sy_packer y) \<and> pipe q rp (sy_packer y) (sy_ports y) = [] \<longrightarrow>
        map wire_msg (sy_in y q rp) = filter (in_queue q rp) D))"
proof -
  have rel: "sys_rel y" and n: "pk_rp_count (sy_packer y) = n"
    using sys_reachable [OF assms(2,1)] by simp_all
  obtain D d rest where "decode_flits (sy_sent y) sd_reset = Inr (D, d)"
    "\<And>q rp. rp < n \<Longrightarrow> map wire_msg (sy_in y q rp) = filter (in_queue q rp) (D @ rest)
        @ map wire_msg (pipe q rp (sy_packer y) (sy_ports y))"
    "\<not> pk_output_active (sy_packer y) \<Longrightarrow> \<not> flit_valid (pk_cur_flit (sy_packer y)) \<Longrightarrow>
      \<not> pk_spill_active (sy_packer y) \<Longrightarrow> rest = []"
    using sys_rel_received [OF rel] unfolding n by metis
  then show ?thesis
    by (intro exI [of _ D] exI [of _ d]) auto
qed

text \<open>A concrete packer with one plane, after a read request was written to its queue.\<close>

definition demo_pk :: FlitPacker where
  "demo_pk = projr (FlitPacker_new 1 RX_RDATA_CREDITS_PER_RP RX_WRESP_CREDITS_PER_RP 0)"

definition demo_msg :: AouMessage where
  "demo_msg = build_read_req AxChannel_init 0"

definition demo_sys :: pk_sys where
  "demo_sys = (sys_init demo_pk)\<lparr>sy_ports := set_port QRreq 0
       (snd (nb_write demo_msg (pp_rreq_in ports_new 0))) ports_new,
     sy_in := (\<lambda>_ _. [])(QRreq := (\<lambda>_. [])(0 := [demo_msg]))\<rparr>"

lemma demo_pk_new: "FlitPacker_new 1 RX_RDATA_CREDITS_PER_RP RX_WRESP_CREDITS_PER_RP 0 = Inr demo_pk"
  by (simp add: demo_pk_def FlitPacker_new_def CreditManager_new_initiator_def CreditManager_new_def
      rassert_def aou_consts)

lemma demo_msg_ok: "qmsg QRreq 0 demo_msg"
  by (simp add: demo_msg_def qmsg_def wf_simps in_queue_def) (simp add: build_read_req_def build_req_def)

lemma demo_sys_reachable: "sys_step\<^sup>*\<^sup>* (sys_init demo_pk) demo_sys"
proof -
  let ?y = "sys_init demo_pk"
  have port: "nb_write demo_msg (port_of QRreq (sy_ports ?y) 0)
      = (True, snd (nb_write demo_msg (pp_rreq_in ports_new 0)))"
    by (simp add: sys_init_def ports_new_def nb_write_def num_free_def fifo_new_def TX_REQ_FIFO_DEPTH_PER_RP_def)
  have "0 < pk_rp_count (sy_packer ?y)"
    using sys_rel_init(2) [OF demo_pk_new] by simp
  from sys_write [OF this demo_msg_ok port] show ?thesis
    by (intro r_into_rtranclp) (simp add: demo_sys_def sys_init_def)
qed

theorem packer_delivers_in_order_witness:
  "\<exists>D d rest. decode_flits (sy_sent demo_sys) sd_reset = Inr (D, d) \<and>
    [wire_msg demo_msg] = filter (in_queue QRreq 0) D @ rest"
proof -
  from packer_delivers_in_order [OF demo_pk_new demo_sys_reachable] obtain D d where
    "decode_flits (sy_sent demo_sys) sd_reset = Inr (D, d)"
    "\<exists>rest. map wire_msg (sy_in demo_sys QRreq 0) = filter (in_queue QRreq 0) D @ rest"
    by (auto simp del: One_nat_def)
  then show ?thesis
    by (auto simp: demo_sys_def)
qed

text \<open>
  C13: no assertion of the packer (\<open>sc_assert\<close> in consume_candidate, send_dedicated_credit_grant and
  flush_flit, and the asserts of the credit counters) can fail: from reset on, every clock cycle
  completes, whatever the link's ready signal is.
\<close>

theorem packer_asserts_hold:
  assumes "FlitPacker_new n rc wc ft = Inr pk" and "sys_step\<^sup>*\<^sup>* (sys_init pk) y"
  shows "\<exists>s' p'. pk_cycle ready (sy_packer y, sy_ports y) = Inr (s', p')"
  using pk_cycle_rel [of "sy_in y" "sy_sent y" "sy_packer y" "sy_ports y" ready]
    sys_reachable [OF assms(2,1)] by blast

theorem packer_asserts_hold_witness:
  "\<exists>s' p'. pk_cycle True (sy_packer demo_sys, sy_ports demo_sys) = Inr (s', p')"
  by (rule packer_asserts_hold [OF demo_pk_new demo_sys_reachable])

lemma sendable_wire:
  assumes "sendable f"
  shows "\<exists>b. serialize_aou f = Inr b \<and> (\<exists>f'. deserialize_aou b = Inr f' \<and> flit_msg_start f' = flit_msg_start f
    \<and> flit_payload f' = flit_payload f \<and> flit_msg_credit f' = flit_msg_credit f \<and> flit_fdid f' = 0)"
proof -
  from assms obtain ss where h: "flit_holds f ss" and fd: "flit_fdid f = 0"
    by (auto simp: sendable_def)
  have "seg_len ss \<le> 48" "list_all seg_ok ss"
    using h by (auto simp: flit_holds_def flit_ok_def)
  then have ms: "drop_bit 48 (flit_msg_start f) = 0"
    using h seg_starts_bounds [of ss _ 0] by (force simp: drop_bit_zero_iff flit_holds_def)
  have len: "length (flit_payload f) = 240"
    using h by (simp add: flit_holds_def flit_ok_def)
  have ser: "serialize_aou f = Inr (wire_header f @ take 240 (flit_payload f))"
    using ms fd by (simp add: serialize_aou_ok)
  with deserialize_serialize [OF ser len] fd show ?thesis
    by (intro exI [of _ "wire_header f @ take 240 (flit_payload f)"]) simp
qed

text \<open>
  every flit the packer hands to the link can be serialized (its MsgStart fits 48 bits and its FDId
  is the bridge's), and the 250 bytes carry all that the peer's stream decoder uses: decoding after
  serialization and deserialization gives the same messages.
\<close>

theorem packer_flits_on_wire:
  assumes "FlitPacker_new n rc wc ft = Inr pk" and "sys_step\<^sup>*\<^sup>* (sys_init pk) y"
  shows "list_all (\<lambda>f. \<exists>b f'. serialize_aou f = Inr b \<and> deserialize_aou b = Inr f'
      \<and> flit_fdid f' = 0 \<and> flit_msg_credit f' = flit_msg_credit f
      \<and> (\<forall>d. sd_consume f' d = sd_consume f d)) (sy_sent y @ out_reg (sy_packer y))"
proof -
  have "list_all sendable (sy_sent y @ out_reg (sy_packer y))"
    using sys_reachable [OF assms(2,1)] by (auto simp: pk_rel_def pk_stream_def)
  then show ?thesis
  proof (rule list.pred_mono_strong)
    fix f
    assume "sendable f"
    from sendable_wire [OF this] sd_consume_cong
    show "\<exists>b f'. serialize_aou f = Inr b \<and> deserialize_aou b = Inr f' \<and> flit_fdid f' = 0
        \<and> flit_msg_credit f' = flit_msg_credit f \<and> (\<forall>d. sd_consume f' d = sd_consume f d)"
      by metis
  qed
qed

text \<open>The first cycle after reset publishes the receive capacity in a CrdtGrant flit.\<close>

lemma flush_flit_active: "flush_flit b s = Inr s' \<Longrightarrow> pk_output_active s'"
  by (auto simp: flush_flit_def Let_def split: prod.splits if_splits)

lemma first_cycle_active:
  assumes "pk_cycle False (pk_reset demo_pk, ports_new) = Inr (s', p')"
  shows "pk_output_active s'"
proof -
  let ?s = "pk_reset demo_pk"
  have pk: "pk_rp_count ?s = 1" "pk_cur_flit ?s = AouFlit_init" "\<not> pk_spill_active ?s" "\<not> pk_output_active ?s"
    "pk_staged_rreq ?s = (\<lambda>_. None)" "pk_staged_wreq ?s = (\<lambda>_. None)" "pk_staged_wdata ?s = (\<lambda>_. None)"
    "pk_credit_return_idle_cnt ?s = 1" "0 < cm_rx_pending_return (pk_credits ?s) 0 3" "cm_rp_count (pk_credits ?s) = 1"
    by (simp_all add: demo_pk_def FlitPacker_new_def CreditManager_new_initiator_def CreditManager_new_def
      rassert_def aou_consts pk_reset_def flit_clear_eq CREDIT_RETURN_TIMEOUT_CYCLES_def
      publish_initial_capacity_def cm_reset_def make_capacity_def rx_depths clear_matrix_def)
  have d: "drain_credit_events (?s, ports_new) = (?s, ports_new)"
    by (simp add: drain_credit_events_def read_all_eq ports_new_def fifo_new_def)
  have nr: "nb_read (fifo_new n) = (None, fifo_new n)" for n :: nat
    by (simp add: nb_read_def fifo_new_def)
  have f: "fill_staging_slots (?s, ports_new) = (?s, ports_new)"
    by (simp add: fill_staging_slots_def pk fill_plane_def fill_slot_def ports_new_def nr upt_rec fun_upd_idem)
  have sel: "select_candidate ?s = None"
    by (simp add: select_candidate_def select_from_def pk)
  have pend: "has_pending_returns (pk_credits ?s)"
    using pk(9) by (auto simp: has_pending_returns_def pk plane_pending_def list_ex_iff credit_consts intro!: bexI [of _ 3])
  have c: "pack_cycle (?s, ports_new) = Inr (True, ?s, ports_new)"
    by (simp add: pack_cycle_def pk PACK_MSGS_PER_CYCLE_def numeral_eq_Suc f sel remaining_granules_def)
       (simp add: AouFlit_init_def aou_consts)
  have "pk_handshake False ?s = ?s"
    by (simp add: pk_handshake_def pk)
  with assms d c pk pend show ?thesis
    by (auto simp: pk_cycle_def rbind_eq_Inr pk_decide_def Let_def CREDIT_RETURN_TIMEOUT_CYCLES_def
        AouFlit_init_def send_dedicated_credit_grant_def dest!: flush_flit_active split: prod.splits if_splits)
qed

theorem packer_flits_on_wire_witness:
  "\<exists>f b f'. serialize_aou f = Inr b \<and> deserialize_aou b = Inr f' \<and> flit_fdid f' = 0
    \<and> flit_msg_credit f' = flit_msg_credit f \<and> (\<forall>d. sd_consume f' d = sd_consume f d)
    \<and> (\<exists>s' p'. pk_cycle False (pk_reset demo_pk, ports_new) = Inr (s', p') \<and> out_reg s' = [f])"
proof -
  let ?y = "sys_init demo_pk"
  have y: "sy_packer ?y = pk_reset demo_pk" "sy_ports ?y = ports_new" "sy_sent ?y = []"
    by (simp_all add: sys_init_def)
  obtain s' p' where c: "pk_cycle False (sy_packer ?y, sy_ports ?y) = Inr (s', p')"
    using pk_cycle_rel [OF sys_rel_init(1) [OF demo_pk_new], of False] by blast
  have out: "out_reg s' = [ft_flit (pk_output_transfer s')]"
    using first_cycle_active c unfolding y by (simp add: out_reg_def)
  from packer_flits_on_wire [OF demo_pk_new r_into_rtranclp [of sys_step, OF sys_clock [OF c]]]
  have "\<exists>b f'. serialize_aou (ft_flit (pk_output_transfer s')) = Inr b \<and> deserialize_aou b = Inr f'
      \<and> flit_fdid f' = 0 \<and> flit_msg_credit f' = flit_msg_credit (ft_flit (pk_output_transfer s'))
      \<and> (\<forall>d. sd_consume f' d = sd_consume (ft_flit (pk_output_transfer s')) d)"
    by (simp add: out y)
  with c out show ?thesis
    unfolding y by blast
qed

end
