(* ===== verification/Flit_Unpacker.thy ===== *)
theory Flit_Unpacker
  imports Packer_Stream
begin

text \<open>
  The receive side of the bridge (components/axi2flit/systemc/src/flit_unpacker.cpp and
  include/flit_unpacker.h): a holding register for one flit, the stream decoder, the list of decoded
  messages and credit events that still have to be written to the response channels, and the
  registered ready output. \<open>un_cycle\<close> is one pass of the loop of \<open>unpacking_thread\<close>.
\<close>

section \<open>State and ports\<close>

definition UNPACK_MSGS_PER_CYCLE :: nat where "UNPACK_MSGS_PER_CYCLE = 8"

record FlitUnpacker =
  un_rp_count :: nat
  un_holding_valid :: bool
  un_holding_flit :: FlitTransfer
  un_pending_messages :: "AouMessage list"
  un_pending_index :: nat
  un_pending_credits :: "CreditUpdate list"
  un_pending_credit_index :: nat
  un_stream_decoder :: AouStreamDecoder
  un_flits_received :: nat
  un_granules_received :: nat
  un_flit_in_ready :: bool

record un_ports =
  uo_rdata_out :: "nat \<Rightarrow> AouMessage sc_fifo"
  uo_wresp_out :: "nat \<Rightarrow> AouMessage sc_fifo"
  uo_credit_update_out :: "CreditUpdate sc_fifo"

definition FlitUnpacker_new :: "nat \<Rightarrow> FlitUnpacker res" where
  "FlitUnpacker_new rp_count =
     rassert (rp_count \<ge> 1 \<and> rp_count \<le> MAX_RESOURCE_PLANES) ''rp_count''
       (Inr \<lparr>un_rp_count = rp_count, un_holding_valid = False, un_holding_flit = FlitTransfer_none,
         un_pending_messages = [], un_pending_index = 0, un_pending_credits = [],
         un_pending_credit_index = 0, un_stream_decoder = sd_reset, un_flits_received = 0,
         un_granules_received = 0, un_flit_in_ready = False\<rparr>)"

definition un_reset :: "FlitUnpacker \<Rightarrow> FlitUnpacker" where
  "un_reset u = u\<lparr>un_holding_valid := False, un_holding_flit := FlitTransfer_none,
     un_pending_messages := [], un_pending_index := 0, un_pending_credits := [],
     un_pending_credit_index := 0, un_stream_decoder := sd_reset, un_flits_received := 0,
     un_granules_received := 0, un_flit_in_ready := True\<rparr>"

section \<open>Operations\<close>

text \<open>
  \<open>dispatch_message\<close> sorts one decoded message: credit grants become credit events, read data and
  write responses wait for their channel, anything else is dropped with a warning.
\<close>

definition dispatch_message :: "AouMessage \<Rightarrow> FlitUnpacker \<Rightarrow> FlitUnpacker" where
  "dispatch_message msg u =
     (if msg_type msg = Misc then
        (case decode_crdt_grant_message msg (un_rp_count u) of
           Some grants \<Rightarrow> u\<lparr>un_pending_credits := un_pending_credits u @ emit_credit_matrix (un_rp_count u) grants\<rparr>
         | None \<Rightarrow> u)
      else if unat (msg_rp msg) \<ge> un_rp_count u then u
      else if msg_type msg = MsgType.ReadData \<or> msg_type msg = MsgType.WriteResp
      then u\<lparr>un_pending_messages := un_pending_messages u @ [msg]\<rparr>
      else u)"

definition parse_holding_flit :: "FlitUnpacker \<Rightarrow> FlitUnpacker res" where
  "parse_holding_flit u =
     (let u = u\<lparr>un_pending_messages := [], un_pending_index := 0\<rparr>;
          flit = ft_flit (un_holding_flit u)
      in if flit_fdid flit \<noteq> 0 then Inl (ScFatal ''FlitUnpacker/Protocol: only FDId 0'')
         else case sd_consume flit (un_stream_decoder u) of
                (Inl e, d) \<Rightarrow> Inl (ScFatal ''FlitUnpacker/Protocol'')
              | (Inr decoded, d) \<Rightarrow>
                  let u = u\<lparr>un_stream_decoder := d,
                        un_granules_received := un_granules_received u + sr_used_granules decoded,
                        un_pending_credits := un_pending_credits u
                          @ decode_header_credits (flit_msg_credit flit) (un_rp_count u)\<rparr>
                  in Inr (fold dispatch_message (sr_messages decoded) u))"

text \<open>The first loop of \<open>route_messages\<close>; \<open>False\<close> is its early return when the channel is full.\<close>

function route_credits :: "CreditUpdate list \<Rightarrow> nat \<Rightarrow> CreditUpdate sc_fifo \<Rightarrow> bool \<times> nat \<times> CreditUpdate sc_fifo" where
  "route_credits us i q =
     (if i < length us then
        (case nb_write (us ! i) q of
           (False, q') \<Rightarrow> (False, i, q')
         | (True, q') \<Rightarrow> route_credits us (i + 1) q')
      else (True, i, q))"
  by pat_completeness auto
termination
  by (relation "measure (\<lambda>(us, i, q). length us - i)") auto

declare route_credits.simps [simp del]

text \<open>The second loop; \<open>k\<close> is what is left of the messages one call may route.\<close>

fun route_loop :: "nat \<Rightarrow> AouMessage list \<Rightarrow> nat \<Rightarrow> un_ports \<Rightarrow> nat \<times> un_ports" where
  "route_loop 0 ms i p = (i, p)"
| "route_loop (Suc k) ms i p =
     (if i < length ms then
        let msg = ms ! i; rp = unat (msg_rp msg);
            (written, p') =
              (if msg_type msg = MsgType.ReadData then
                 let (w, q) = nb_write msg (uo_rdata_out p rp)
                 in (w, p\<lparr>uo_rdata_out := (uo_rdata_out p)(rp := q)\<rparr>)
               else if msg_type msg = MsgType.WriteResp then
                 let (w, q) = nb_write msg (uo_wresp_out p rp)
                 in (w, p\<lparr>uo_wresp_out := (uo_wresp_out p)(rp := q)\<rparr>)
               else (True, p))
        in if \<not> written then (i, p') else route_loop k ms (i + 1) p'
      else (i, p))"

definition route_messages :: "FlitUnpacker \<times> un_ports \<Rightarrow> FlitUnpacker \<times> un_ports" where
  "route_messages up =
     (let (u, p) = up;
          (go, ci, qc) = route_credits (un_pending_credits u) (un_pending_credit_index u) (uo_credit_update_out p);
          u = u\<lparr>un_pending_credit_index := ci\<rparr>;
          p = p\<lparr>uo_credit_update_out := qc\<rparr>
      in if \<not> go then (u, p)
         else let (i, p) = route_loop UNPACK_MSGS_PER_CYCLE (un_pending_messages u) (un_pending_index u) p
              in (u\<lparr>un_pending_index := i\<rparr>, p))"

text \<open>Steps 2 and 3 of the loop body: taking a flit, and releasing the holding register.\<close>

definition un_accept :: "FlitTransfer \<Rightarrow> FlitUnpacker \<times> un_ports \<Rightarrow> (FlitUnpacker \<times> un_ports) res" where
  "un_accept incoming up =
     (let (u, p) = up
      in if \<not> un_holding_valid u \<and> un_flit_in_ready u \<and> ft_valid incoming
         then rbind (parse_holding_flit (u\<lparr>un_holding_flit := incoming, un_holding_valid := True,
                       un_flits_received := un_flits_received u + 1\<rparr>))
                (\<lambda>u. Inr (route_messages (u, p)))
         else Inr (u, p))"

definition un_release :: "FlitUnpacker \<Rightarrow> FlitUnpacker" where
  "un_release u =
     (if un_holding_valid u \<and> un_pending_index u \<ge> length (un_pending_messages u)
         \<and> un_pending_credit_index u \<ge> length (un_pending_credits u)
      then u\<lparr>un_holding_valid := False, un_holding_flit := FlitTransfer_none,
             un_pending_messages := [], un_pending_index := 0, un_pending_credits := [],
             un_pending_credit_index := 0\<rparr>
      else u)"

definition un_cycle :: "FlitTransfer \<Rightarrow> FlitUnpacker \<times> un_ports \<Rightarrow> (FlitUnpacker \<times> un_ports) res" where
  "un_cycle incoming up =
     rbind (un_accept incoming (route_messages up)) (\<lambda>(u, p).
       let u = un_release u in Inr (u\<lparr>un_flit_in_ready := \<not> un_holding_valid u\<rparr>, p))"

section \<open>What routing does\<close>

lemma nb_write_list:
  "nb_write x q = (b, q') \<Longrightarrow> fifo_list q' = fifo_list q @ (if b then [x] else [])"
  using sc_fifo.fifo_order [of x q] by simp

lemma route_credits_spec:
  assumes "route_credits us i q = (go, j, q')" and "i \<le> length us"
  shows "i \<le> j \<and> j \<le> length us \<and> (go \<longleftrightarrow> j = length us)
    \<and> fifo_list q' @ drop j us = fifo_list q @ drop i us"
  using assms
proof (induction "length us - i" arbitrary: i q)
  case (Suc n)
  show ?case
  proof (cases "i < length us")
    case True
    obtain b q1 where w: "nb_write (us ! i) q = (b, q1)"
      by fastforce
    note l = nb_write_list [OF w]
    have d: "drop i us = us ! i # drop (Suc i) us"
      using True by (simp add: Cons_nth_drop_Suc)
    show ?thesis
    proof (cases b)
      case True
      have "route_credits us (i + 1) q1 = (go, j, q')"
        using Suc.prems(1) \<open>i < length us\<close> w True by (subst (asm) route_credits.simps) simp
      moreover have "n = length us - (i + 1)"
        using Suc.hyps(2) by simp
      ultimately have "i + 1 \<le> j \<and> j \<le> length us \<and> (go \<longleftrightarrow> j = length us)
          \<and> fifo_list q' @ drop j us = fifo_list q1 @ drop (i + 1) us"
        using Suc.hyps(1) [of "i + 1" q1] \<open>i < length us\<close> by simp
      then show ?thesis
        using True l d by simp
    next
      case False
      then show ?thesis
        using Suc.prems(1) \<open>i < length us\<close> w l by (subst (asm) route_credits.simps) auto
    qed
  next
    case False
    then show ?thesis
      using Suc.hyps(2) by simp
  qed
next
  case 0
  then show ?case
    by (subst (asm) route_credits.simps) auto
qed

datatype rclass = RData | WResp

fun rtype :: "rclass \<Rightarrow> MsgType" where
  "rtype RData = MsgType.ReadData"
| "rtype WResp = MsgType.WriteResp"

fun rport :: "rclass \<Rightarrow> un_ports \<Rightarrow> nat \<Rightarrow> AouMessage sc_fifo" where
  "rport RData p = uo_rdata_out p"
| "rport WResp p = uo_wresp_out p"

definition for_resp :: "rclass \<Rightarrow> nat \<Rightarrow> AouMessage \<Rightarrow> bool" where
  "for_resp c rp m \<longleftrightarrow> msg_type m = rtype c \<and> unat (msg_rp m) = rp"

lemma route_loop_spec:
  assumes "route_loop k ms i p = (j, p')" and "i \<le> length ms"
  shows "i \<le> j \<and> j \<le> length ms \<and> uo_credit_update_out p' = uo_credit_update_out p \<and>
    (\<forall>c rp. fifo_list (rport c p' rp) @ filter (for_resp c rp) (drop j ms)
      = fifo_list (rport c p rp) @ filter (for_resp c rp) (drop i ms))"
  using assms
proof (induction k arbitrary: i p)
  case (Suc k)
  show ?case
  proof (cases "i < length ms")
    case True
    let ?m = "ms ! i" and ?rp = "unat (msg_rp (ms ! i))"
    define wp where "wp = (if msg_type ?m = MsgType.ReadData then
         let (w, q) = nb_write ?m (uo_rdata_out p ?rp) in (w, p\<lparr>uo_rdata_out := (uo_rdata_out p)(?rp := q)\<rparr>)
       else if msg_type ?m = MsgType.WriteResp then
         let (w, q) = nb_write ?m (uo_wresp_out p ?rp) in (w, p\<lparr>uo_wresp_out := (uo_wresp_out p)(?rp := q)\<rparr>)
       else (True, p))"
    have one: "fifo_list (rport c (snd wp) rp) = fifo_list (rport c p rp) @ (if fst wp \<and> for_resp c rp ?m then [?m] else [])"
      for c rp
      by (cases c) (auto simp: wp_def Let_def for_resp_def split: prod.splits dest!: nb_write_list)
    have cr: "uo_credit_update_out (snd wp) = uo_credit_update_out p"
      by (simp add: wp_def Let_def split: prod.splits)
    have d: "drop i ms = ?m # drop (Suc i) ms"
      using True by (simp add: Cons_nth_drop_Suc)
    have unf: "route_loop (Suc k) ms i p = (if \<not> fst wp then (i, snd wp) else route_loop k ms (i + 1) (snd wp))"
      using True unfolding route_loop.simps Let_def wp_def [symmetric, unfolded Let_def] by (simp add: case_prod_beta)
    show ?thesis
    proof (cases "fst wp")
      case True
      with Suc.prems(1) unf have "route_loop k ms (i + 1) (snd wp) = (j, p')"
        by simp
      with Suc.IH [of "i + 1" "snd wp"] \<open>i < length ms\<close> have ih: "i + 1 \<le> j" "j \<le> length ms"
        "uo_credit_update_out p' = uo_credit_update_out (snd wp)"
        "\<And>c rp. fifo_list (rport c p' rp) @ filter (for_resp c rp) (drop j ms)
          = fifo_list (rport c (snd wp) rp) @ filter (for_resp c rp) (drop (i + 1) ms)"
        by simp_all
      then show ?thesis
        using True cr one d by auto
    next
      case False
      with Suc.prems unf have "j = i" "p' = snd wp"
        by simp_all
      with False cr one Suc.prems(2) show ?thesis
        by simp
    qed
  qed (use Suc.prems in auto)
qed auto

text \<open>Routing moves a prefix of the pending work to the channels and changes nothing else.\<close>

definition u_rest :: "rclass \<Rightarrow> nat \<Rightarrow> FlitUnpacker \<Rightarrow> AouMessage list" where
  "u_rest c rp u = filter (for_resp c rp) (drop (un_pending_index u) (un_pending_messages u))"

definition u_credits :: "FlitUnpacker \<Rightarrow> CreditUpdate list" where
  "u_credits u = drop (un_pending_credit_index u) (un_pending_credits u)"

definition u_bounds :: "FlitUnpacker \<Rightarrow> bool" where
  "u_bounds u \<longleftrightarrow> un_pending_index u \<le> length (un_pending_messages u)
     \<and> un_pending_credit_index u \<le> length (un_pending_credits u)"

lemma route_messages_spec:
  assumes "route_messages (u, p) = (u', p')" and "u_bounds u"
  shows "u_bounds u'" "\<exists>i j. u' = u\<lparr>un_pending_credit_index := i, un_pending_index := j\<rparr>"
    "fifo_list (uo_credit_update_out p') @ u_credits u' = fifo_list (uo_credit_update_out p) @ u_credits u"
    "fifo_list (rport c p' rp) @ u_rest c rp u' = fifo_list (rport c p rp) @ u_rest c rp u"
proof -
  obtain go ci qc where rc: "route_credits (un_pending_credits u) (un_pending_credit_index u)
      (uo_credit_update_out p) = (go, ci, qc)"
    using prod_cases3 by blast
  obtain i p1 where rl: "route_loop UNPACK_MSGS_PER_CYCLE (un_pending_messages u) (un_pending_index u)
      (p\<lparr>uo_credit_update_out := qc\<rparr>) = (i, p1)"
    by fastforce
  note c = route_credits_spec [OF rc] and l = route_loop_spec [OF rl]
  have rp: "rport c (p\<lparr>uo_credit_update_out := qc\<rparr>) rp = rport c p rp" for c rp
    by (cases c) simp_all
  have u': "u' = (if go then u\<lparr>un_pending_credit_index := ci, un_pending_index := i\<rparr>
      else u\<lparr>un_pending_credit_index := ci, un_pending_index := un_pending_index u\<rparr>)"
    and p': "p' = (if go then p1 else p\<lparr>uo_credit_update_out := qc\<rparr>)"
    using assms(1) by (auto simp: route_messages_def rc rl Let_def)
  show "u_bounds u'"
    using assms(2) c l by (auto simp: u_bounds_def u')
  show "\<exists>i j. u' = u\<lparr>un_pending_credit_index := i, un_pending_index := j\<rparr>"
    by (intro exI [of _ ci] exI [of _ "if go then i else un_pending_index u"]) (simp add: u')
  show "fifo_list (uo_credit_update_out p') @ u_credits u' = fifo_list (uo_credit_update_out p) @ u_credits u"
    using assms(2) c l by (auto simp: u' p' u_credits_def u_bounds_def)
  show "fifo_list (rport c p' rp) @ u_rest c rp u' = fifo_list (rport c p rp) @ u_rest c rp u"
    using assms(2) c l by (auto simp: u' p' u_rest_def u_bounds_def rp)
qed

end
