(* ===== verification/Unpacker_System.thy ===== *)
theory Unpacker_System
  imports Flit_Unpacker Packer_System
begin

text \<open>
  The unpacker in its surroundings: flits arrive on its input signal, the response threads of the
  bridge and the packer read its output channels at any time, and delta cycles make writes visible.
  The properties relate the flits it accepted with the messages and credit events its readers saw.
\<close>

section \<open>Dispatching a whole flit\<close>

definition msg_credits :: "nat \<Rightarrow> AouMessage \<Rightarrow> CreditUpdate list" where
  "msg_credits n m = (if msg_type m = Misc then
     (case decode_crdt_grant_message m n of Some g \<Rightarrow> emit_credit_matrix n g | None \<Rightarrow> []) else [])"

definition kept :: "nat \<Rightarrow> AouMessage \<Rightarrow> bool" where
  "kept n m \<longleftrightarrow> unat (msg_rp m) < n \<and> (msg_type m = MsgType.ReadData \<or> msg_type m = MsgType.WriteResp)"

lemma dispatch_message_eq:
  "dispatch_message m u = u\<lparr>un_pending_messages := un_pending_messages u @ filter (kept (un_rp_count u)) [m],
     un_pending_credits := un_pending_credits u @ msg_credits (un_rp_count u) m\<rparr>"
  by (cases u) (auto simp: dispatch_message_def kept_def msg_credits_def split: option.splits)

lemma fold_dispatch:
  "fold dispatch_message ms u = u\<lparr>un_pending_messages := un_pending_messages u @ filter (kept (un_rp_count u)) ms,
     un_pending_credits := un_pending_credits u @ concat (map (msg_credits (un_rp_count u)) ms)\<rparr>"
proof (induction ms arbitrary: u)
  case (Cons m ms)
  have "fold dispatch_message (m # ms) u = fold dispatch_message ms (dispatch_message m u)"
    by simp
  then show ?case
    by (simp only: Cons) (simp add: dispatch_message_eq)
qed simp

lemma filter_kept: "rp < n \<Longrightarrow> filter (for_resp c rp) (filter (kept n) ms) = filter (for_resp c rp) ms"
  by (induction ms; cases c) (auto simp: for_resp_def kept_def)

lemma parse_holding_flit_eq:
  "parse_holding_flit u =
    (if flit_fdid (ft_flit (un_holding_flit u)) \<noteq> 0 then Inl (ScFatal ''FlitUnpacker/Protocol: only FDId 0'')
     else case sd_consume (ft_flit (un_holding_flit u)) (un_stream_decoder u) of
       (Inl e, d) \<Rightarrow> Inl (ScFatal ''FlitUnpacker/Protocol'')
     | (Inr r, d) \<Rightarrow> Inr (u\<lparr>un_pending_messages := filter (kept (un_rp_count u)) (sr_messages r), un_pending_index := 0,
         un_stream_decoder := d, un_granules_received := un_granules_received u + sr_used_granules r,
         un_pending_credits := un_pending_credits u
           @ decode_header_credits (flit_msg_credit (ft_flit (un_holding_flit u))) (un_rp_count u)
           @ concat (map (msg_credits (un_rp_count u)) (sr_messages r))\<rparr>))"
  by (simp add: parse_holding_flit_def Let_def fold_dispatch split: prod.splits sum.splits)

section \<open>The closed system\<close>

record un_sys =
  uy_un :: FlitUnpacker
  uy_ports :: un_ports
  uy_in :: "AouFlit list"
  uy_out :: "rclass \<Rightarrow> nat \<Rightarrow> AouMessage list"
  uy_credits :: "CreditUpdate list"

definition un_ports_new :: un_ports where
  "un_ports_new = \<lparr>uo_rdata_out = (\<lambda>_. fifo_new RX_RDATA_FIFO_DEPTH_PER_RP),
     uo_wresp_out = (\<lambda>_. fifo_new RX_WRESP_FIFO_DEPTH_PER_RP), uo_credit_update_out = fifo_new 64\<rparr>"

definition un_ports_update :: "un_ports \<Rightarrow> un_ports" where
  "un_ports_update p = \<lparr>uo_rdata_out = (\<lambda>rp. fifo_update (uo_rdata_out p rp)),
     uo_wresp_out = (\<lambda>rp. fifo_update (uo_wresp_out p rp)),
     uo_credit_update_out = fifo_update (uo_credit_update_out p)\<rparr>"

definition set_rport :: "rclass \<Rightarrow> nat \<Rightarrow> AouMessage sc_fifo \<Rightarrow> un_ports \<Rightarrow> un_ports" where
  "set_rport c rp f p = (case c of
     RData \<Rightarrow> p\<lparr>uo_rdata_out := (uo_rdata_out p)(rp := f)\<rparr>
   | WResp \<Rightarrow> p\<lparr>uo_wresp_out := (uo_wresp_out p)(rp := f)\<rparr>)"

definition un_takes :: "FlitTransfer \<Rightarrow> FlitUnpacker \<Rightarrow> bool" where
  "un_takes ft u \<longleftrightarrow> un_flit_in_ready u \<and> \<not> un_holding_valid u \<and> ft_valid ft"

definition un_init :: "FlitUnpacker \<Rightarrow> un_sys" where
  "un_init u = \<lparr>uy_un = un_reset u, uy_ports = un_ports_new, uy_in = [], uy_out = (\<lambda>_ _. []), uy_credits = []\<rparr>"

inductive un_step :: "un_sys \<Rightarrow> un_sys \<Rightarrow> bool" where
  un_clock: "un_cycle ft (uy_un y, uy_ports y) = Inr (u', p') \<Longrightarrow>
    un_step y (y\<lparr>uy_un := u', uy_ports := p',
      uy_in := uy_in y @ (if un_takes ft (uy_un y) then [ft_flit ft] else [])\<rparr>)"
| un_read: "nb_read (rport c (uy_ports y) rp) = (Some m, f) \<Longrightarrow>
    un_step y (y\<lparr>uy_ports := set_rport c rp f (uy_ports y),
      uy_out := (uy_out y)(c := (uy_out y c)(rp := uy_out y c rp @ [m]))\<rparr>)"
| un_read_credit: "nb_read (uo_credit_update_out (uy_ports y)) = (Some c, f) \<Longrightarrow>
    un_step y (y\<lparr>uy_ports := (uy_ports y)\<lparr>uo_credit_update_out := f\<rparr>, uy_credits := uy_credits y @ [c]\<rparr>)"
| un_update: "un_step y (y\<lparr>uy_ports := un_ports_update (uy_ports y)\<rparr>)"

text \<open>The credit events a sequence of flits carries, in headers and in CrdtGrant messages.\<close>

fun credit_stream :: "nat \<Rightarrow> AouFlit list \<Rightarrow> AouStreamDecoder \<Rightarrow> CreditUpdate list" where
  "credit_stream n [] d = []"
| "credit_stream n (f # fs) d = (case sd_consume f d of
     (Inl e, d') \<Rightarrow> []
   | (Inr r, d') \<Rightarrow> decode_header_credits (flit_msg_credit f) n
       @ concat (map (msg_credits n) (sr_messages r)) @ credit_stream n fs d')"

section \<open>The invariant\<close>

definition u_idle :: "FlitUnpacker \<Rightarrow> bool" where
  "u_idle u \<longleftrightarrow> (\<not> un_holding_valid u \<longrightarrow> un_pending_messages u = [] \<and> un_pending_index u = 0
     \<and> un_pending_credits u = [] \<and> un_pending_credit_index u = 0)"

definition un_rel :: "AouFlit list \<Rightarrow> (rclass \<Rightarrow> nat \<Rightarrow> AouMessage list) \<Rightarrow> CreditUpdate list \<Rightarrow>
    FlitUnpacker \<Rightarrow> un_ports \<Rightarrow> bool" where
  "un_rel fs outs cs u p \<longleftrightarrow> u_bounds u \<and> u_idle u \<and> (\<exists>D. decode_flits fs sd_reset = Inr (D, un_stream_decoder u) \<and>
     (\<forall>c. \<forall>rp<un_rp_count u. filter (for_resp c rp) D = outs c rp @ fifo_list (rport c p rp) @ u_rest c rp u)) \<and>
     credit_stream (un_rp_count u) fs sd_reset = cs @ fifo_list (uo_credit_update_out p) @ u_credits u"

lemma un_rel_route:
  assumes "un_rel fs outs cs u p" and "route_messages (u, p) = (u', p')"
  shows "un_rel fs outs cs u' p'" "un_rp_count u' = un_rp_count u" "un_holding_valid u' = un_holding_valid u"
    "un_flit_in_ready u' = un_flit_in_ready u" "un_stream_decoder u' = un_stream_decoder u"
proof -
  have b: "u_bounds u"
    using assms(1) by (simp add: un_rel_def)
  note r = route_messages_spec [OF assms(2) b]
  from r(2) show f: "un_rp_count u' = un_rp_count u" "un_holding_valid u' = un_holding_valid u"
    "un_flit_in_ready u' = un_flit_in_ready u" "un_stream_decoder u' = un_stream_decoder u"
    by auto
  have "u_idle u'"
    using assms(1) r(1,2) by (auto simp: un_rel_def u_idle_def u_bounds_def)
  with assms(1) r(1,3,4) f show "un_rel fs outs cs u' p'"
    by (auto simp: un_rel_def)
qed

lemma un_rel_release:
  assumes "un_rel fs outs cs u p"
  shows "un_rel fs outs cs (un_release u) p" "un_rp_count (un_release u) = un_rp_count u"
    "un_rel fs outs cs (u\<lparr>un_flit_in_ready := b\<rparr>) p"
  using assms
  by (auto simp: un_rel_def un_release_def u_bounds_def u_idle_def u_rest_def u_credits_def)

lemma credit_stream_append:
  "decode_flits fs d = Inr (D, d') \<Longrightarrow> credit_stream n (fs @ gs) d = credit_stream n fs d @ credit_stream n gs d'"
proof (induction fs arbitrary: d D)
  case (Cons f fs)
  obtain r d1 where c: "sd_consume f d = (r, d1)"
    by fastforce
  with Cons.prems obtain x ms where r: "r = Inr x" and "decode_flits fs d1 = Inr (ms, d')"
    by (cases r) (auto simp: rbind_eq_Inr)
  with Cons.IH [of d1 ms] c show ?case
    by simp
qed simp

lemma un_rel_parse:
  assumes rel: "un_rel fs outs cs u p" and idle: "\<not> un_holding_valid u"
    and parse: "parse_holding_flit (u\<lparr>un_holding_flit := ft, un_holding_valid := True, un_flits_received := k\<rparr>) = Inr u'"
  shows "un_rel (fs @ [ft_flit ft]) outs cs u' p" "un_rp_count u' = un_rp_count u"
proof -
  from parse obtain r d where c: "sd_consume (ft_flit ft) (un_stream_decoder u) = (Inr r, d)"
    by (auto simp: parse_holding_flit_eq split: if_splits prod.splits sum.splits)
  with parse have u': "u' = u\<lparr>un_holding_flit := ft, un_holding_valid := True, un_flits_received := k,
      un_pending_messages := filter (kept (un_rp_count u)) (sr_messages r), un_pending_index := 0,
      un_stream_decoder := d, un_granules_received := un_granules_received u + sr_used_granules r,
      un_pending_credits := un_pending_credits u @ decode_header_credits (flit_msg_credit (ft_flit ft)) (un_rp_count u)
        @ concat (map (msg_credits (un_rp_count u)) (sr_messages r))\<rparr>"
    by (simp add: parse_holding_flit_eq split: if_splits)
  show n: "un_rp_count u' = un_rp_count u"
    by (simp add: u')
  from rel idle obtain D where e: "un_pending_messages u = []" "un_pending_index u = 0" "un_pending_credits u = []"
      "un_pending_credit_index u = 0"
    and D: "decode_flits fs sd_reset = Inr (D, un_stream_decoder u)"
    and f: "\<And>c rp. rp < un_rp_count u \<Longrightarrow> filter (for_resp c rp) D = outs c rp @ fifo_list (rport c p rp)"
    and cr: "credit_stream (un_rp_count u) fs sd_reset = cs @ fifo_list (uo_credit_update_out p)"
    by (auto simp: un_rel_def u_idle_def u_rest_def u_credits_def)
  have "decode_flits (fs @ [ft_flit ft]) sd_reset = Inr (D @ sr_messages r, d)"
    by (simp add: decode_flits_append D c)
  moreover have "credit_stream (un_rp_count u) (fs @ [ft_flit ft]) sd_reset = cs @ fifo_list (uo_credit_update_out p)
      @ decode_header_credits (flit_msg_credit (ft_flit ft)) (un_rp_count u)
      @ concat (map (msg_credits (un_rp_count u)) (sr_messages r))"
    by (simp add: credit_stream_append [OF D] cr c)
  ultimately show "un_rel (fs @ [ft_flit ft]) outs cs u' p"
    unfolding un_rel_def using f e
    by (auto simp: u' u_bounds_def u_idle_def u_rest_def u_credits_def filter_kept simp del: filter_filter)
qed

lemma un_cycle_rel:
  assumes rel: "un_rel fs outs cs u p" and cyc: "un_cycle ft (u, p) = Inr (u', p')"
  shows "un_rel (fs @ (if un_takes ft u then [ft_flit ft] else [])) outs cs u' p' \<and> un_rp_count u' = un_rp_count u"
proof -
  obtain u1 p1 where r1: "route_messages (u, p) = (u1, p1)"
    by fastforce
  note rel1 = un_rel_route [OF rel r1]
  from cyc r1 obtain u2 where acc: "un_accept ft (u1, p1) = Inr (u2, p')"
    and u': "u' = (un_release u2)\<lparr>un_flit_in_ready := \<not> un_holding_valid (un_release u2)\<rparr>"
    by (auto simp: un_cycle_def rbind_eq_Inr Let_def)
  have "un_rel (fs @ (if un_takes ft u then [ft_flit ft] else [])) outs cs u2 p' \<and> un_rp_count u2 = un_rp_count u"
  proof (cases "un_takes ft u")
    case True
    with acc rel1 obtain u3 where r3: "route_messages (u3, p1) = (u2, p')"
      and ph: "parse_holding_flit (u1\<lparr>un_holding_flit := ft, un_holding_valid := True,
        un_flits_received := un_flits_received u1 + 1\<rparr>) = Inr u3"
      by (auto simp: un_accept_def un_takes_def rbind_eq_Inr)
    have "\<not> un_holding_valid u1"
      using True rel1(3) by (simp add: un_takes_def)
    note rel3 = un_rel_parse [OF rel1(1) this ph]
    show ?thesis
      using un_rel_route(1,2) [OF rel3(1) r3] rel3(2) rel1(2) True by simp
  next
    case False
    with acc rel1 show ?thesis
      by (auto simp: un_accept_def un_takes_def split: if_splits)
  qed
  with un_rel_release [of "fs @ (if un_takes ft u then [ft_flit ft] else [])" outs cs u2 p'] show ?thesis
    by (simp add: u' un_rel_release(3))
qed

lemma un_rel_init:
  assumes "FlitUnpacker_new n = Inr u"
  shows "un_rel [] (\<lambda>_ _. []) [] (un_reset u) un_ports_new \<and> un_rp_count (un_reset u) = n"
proof -
  have "fifo_list (rport c un_ports_new rp) = []" for c rp
    by (cases c) (simp_all add: un_ports_new_def)
  with assms show ?thesis
    by (auto simp: FlitUnpacker_new_def rassert_def un_rel_def un_reset_def u_bounds_def u_idle_def u_rest_def
        u_credits_def un_ports_new_def split: if_splits)
qed

abbreviation un_sys_rel :: "un_sys \<Rightarrow> bool" where
  "un_sys_rel y \<equiv> un_rel (uy_in y) (uy_out y) (uy_credits y) (uy_un y) (uy_ports y)"

lemma rport_set:
  "rport c' (set_rport c rp f p) rp' = (if c' = c \<and> rp' = rp then f else rport c' p rp')"
  "uo_credit_update_out (set_rport c rp f p) = uo_credit_update_out p"
  "rport c' (p\<lparr>uo_credit_update_out := g\<rparr>) rp' = rport c' p rp'"
  by (cases c; cases c'; simp add: set_rport_def)+

lemma rport_update: "fifo_list (rport c (un_ports_update p) rp) = fifo_list (rport c p rp)"
  by (cases c) (simp_all add: un_ports_update_def sc_fifo.up_cont)

lemma un_step_rel:
  assumes "un_step y y'" and "un_sys_rel y"
  shows "un_sys_rel y' \<and> un_rp_count (uy_un y') = un_rp_count (uy_un y)"
  using assms(1)
proof cases
  case (un_clock ft u' p')
  with un_cycle_rel [OF assms(2) un_clock(2)] show ?thesis
    by simp
next
  case (un_read c rp m f)
  have "fifo_list (rport c (uy_ports y) rp) = m # fifo_list f"
    using sc_fifo.rd_some [OF un_read(2)] by simp
  with assms(2) show ?thesis
    unfolding un_read(1) by (auto simp: un_rel_def rport_set)
next
  case (un_read_credit c f)
  have "fifo_list (uo_credit_update_out (uy_ports y)) = c # fifo_list f"
    using sc_fifo.rd_some [OF un_read_credit(2)] by simp
  with assms(2) show ?thesis
    unfolding un_read_credit(1) by (auto simp: un_rel_def rport_set)
next
  case un_update
  with assms(2) show ?thesis
    by (simp add: un_rel_def rport_update) (simp add: un_ports_update_def sc_fifo.up_cont)
qed

lemma un_reachable:
  assumes "un_step\<^sup>*\<^sup>* (un_init u) y" and "FlitUnpacker_new n = Inr u"
  shows "un_sys_rel y \<and> un_rp_count (uy_un y) = n"
  using assms(1)
proof (induction rule: rtranclp_induct)
  case base
  then show ?case
    using un_rel_init [OF assms(2)] by (simp add: un_init_def)
next
  case (step y z)
  then show ?case
    using un_step_rel by simp
qed

section \<open>Properties\<close>

lemma un_cycle_fatal:
  "(\<exists>e. un_cycle ft (u, p) = Inl e) \<longleftrightarrow> un_takes ft u \<and>
    (flit_fdid (ft_flit ft) \<noteq> 0 \<or> (\<exists>e d. sd_consume (ft_flit ft) (un_stream_decoder u) = (Inl e, d)))"
proof -
  obtain u1 p1 where r: "route_messages (u, p) = (u1, p1)"
    by fastforce
  have f: "un_flit_in_ready u1 = un_flit_in_ready u" "un_holding_valid u1 = un_holding_valid u"
    "un_stream_decoder u1 = un_stream_decoder u"
    using r by (auto simp: route_messages_def Let_def split: prod.splits if_splits)
  show ?thesis
    by (auto simp: un_takes_def un_cycle_def r un_accept_def f rbind_def Let_def parse_holding_flit_eq
        split: sum.splits prod.splits)
qed

text \<open>
  C3: from reset on, whatever flits arrive and however slowly the readers drain the channels, the
  accepted flits decoded without error, for every response class and plane the messages handed out
  are a prefix of the decoded messages of that class and plane, in order, nothing lost, duplicated or
  altered, and likewise for the credit events; what is missing is still in the channel or pending,
  so with an idle unpacker and empty channels everything has been handed out.
\<close>

theorem unpacker_delivers_in_order:
  assumes "FlitUnpacker_new n = Inr u" and "un_step\<^sup>*\<^sup>* (un_init u) y"
  shows "\<exists>D d. decode_flits (uy_in y) sd_reset = Inr (D, d) \<and>
    (\<forall>c. \<forall>rp<n. filter (for_resp c rp) D = uy_out y c rp @ fifo_list (rport c (uy_ports y) rp) @ u_rest c rp (uy_un y)) \<and>
    credit_stream n (uy_in y) sd_reset
      = uy_credits y @ fifo_list (uo_credit_update_out (uy_ports y)) @ u_credits (uy_un y) \<and>
    (\<not> un_holding_valid (uy_un y) \<longrightarrow> (\<forall>c rp. u_rest c rp (uy_un y) = []) \<and> u_credits (uy_un y) = [])"
  using un_reachable [OF assms(2,1)]
  by (auto simp: un_rel_def u_idle_def u_rest_def u_credits_def)

text \<open>One flit without messages is taken in the first cycle.\<close>

definition demo_un :: FlitUnpacker where
  "demo_un = projr (FlitUnpacker_new 1)"

definition demo_ft :: FlitTransfer where
  "demo_ft = FlitTransfer_none\<lparr>ft_valid := True, ft_flit := AouFlit_init\<rparr>"

definition demo_un_sys :: un_sys where
  "demo_un_sys = (let (u, p) = projr (un_cycle demo_ft (un_reset demo_un, un_ports_new))
     in (un_init demo_un)\<lparr>uy_un := u, uy_ports := p, uy_in := [AouFlit_init]\<rparr>)"

lemma demo_un_new: "FlitUnpacker_new 1 = Inr demo_un"
  by (simp add: demo_un_def FlitUnpacker_new_def rassert_def aou_consts)

lemma demo_un_reach: "un_step\<^sup>*\<^sup>* (un_init demo_un) demo_un_sys"
proof -
  have c: "\<exists>d'. sd_consume AouFlit_init sd_reset = (Inr \<lparr>sr_messages = segs_done [], sr_used_granules = seg_len []\<rparr>, d')
    \<and> decoder_at (segs_carry []) d'"
    by (rule sd_consume_segs [OF flit_holds_init, of None]) (simp_all add: decoder_at_def sd_reset_def segs_from_def)
  have "\<not> (\<exists>e. un_cycle demo_ft (un_reset demo_un, un_ports_new) = Inl e)"
    unfolding un_cycle_fatal using c by (auto simp: demo_ft_def un_reset_def AouFlit_init_def)
  then obtain u p where "un_cycle demo_ft (un_reset demo_un, un_ports_new) = Inr (u, p)"
    by (cases "un_cycle demo_ft (un_reset demo_un, un_ports_new)") auto
  moreover have "un_takes demo_ft (un_reset demo_un)" "ft_flit demo_ft = AouFlit_init"
    by (simp_all add: un_takes_def demo_ft_def un_reset_def)
  ultimately have "un_step (un_init demo_un) demo_un_sys"
    using un_clock [of demo_ft "un_init demo_un" u p] by (simp add: demo_un_sys_def un_init_def)
  then show ?thesis
    by blast
qed

theorem unpacker_delivers_in_order_witness:
  "\<exists>D d. decode_flits [AouFlit_init] sd_reset = Inr (D, d) \<and>
    filter (for_resp RData 0) D = fifo_list (uo_rdata_out (uy_ports demo_un_sys) 0) @ u_rest RData 0 (uy_un demo_un_sys)"
  using unpacker_delivers_in_order [OF demo_un_new demo_un_reach]
  by (auto simp: demo_un_sys_def un_init_def split: prod.splits dest!: spec [of _ RData])

text \<open>The registered ready output is the complement of the holding register.\<close>

lemma un_ready_reachable:
  assumes "un_step\<^sup>*\<^sup>* (un_init u) y"
  shows "un_flit_in_ready (uy_un y) \<longleftrightarrow> \<not> un_holding_valid (uy_un y)"
  using assms
proof (induction rule: rtranclp_induct)
  case base
  then show ?case by (simp add: un_init_def un_reset_def)
next
  case (step y z)
  from step.hyps(2) show ?case
  proof cases
    case (un_clock ft u' p')
    then show ?thesis by (auto simp: un_cycle_def rbind_eq_Inr Let_def)
  qed (use step.IH in simp_all)
qed

text \<open>
  C14: in every reachable state, however far the readers are behind, a cycle stops the simulation exactly when
  a flit is offered while the ready signal is up and its protocol identifier is not 0 or the sequence of all
  flits accepted since reset followed by it does not decode. In every other case the cycle
  completes, and a flit offered while ready is up has then been decoded behind the earlier ones: back-pressure on
  the response channels never loses a flit nor stops the simulation.
\<close>

theorem unpacker_fatal_iff:
  assumes "FlitUnpacker_new n = Inr u" and "un_step\<^sup>*\<^sup>* (un_init u) y"
  shows "((\<exists>e. un_cycle ft (uy_un y, uy_ports y) = Inl e) \<longleftrightarrow>
      un_flit_in_ready (uy_un y) \<and> ft_valid ft \<and>
        (flit_fdid (ft_flit ft) \<noteq> 0 \<or> (\<exists>e. decode_flits (uy_in y @ [ft_flit ft]) sd_reset = Inl e)))
    \<and> (\<forall>u' p'. un_cycle ft (uy_un y, uy_ports y) = Inr (u', p') \<longrightarrow>
        (\<exists>D. decode_flits (uy_in y @ (if un_flit_in_ready (uy_un y) \<and> ft_valid ft then [ft_flit ft] else [])) sd_reset
          = Inr (D, un_stream_decoder u')))"
proof -
  have takes: "un_takes ft (uy_un y) \<longleftrightarrow> un_flit_in_ready (uy_un y) \<and> ft_valid ft"
    using un_ready_reachable [OF assms(2)] by (auto simp: un_takes_def)
  have rel: "un_sys_rel y" using un_reachable [OF assms(2,1)] by blast
  then obtain D where D: "decode_flits (uy_in y) sd_reset = Inr (D, un_stream_decoder (uy_un y))"
    by (auto simp: un_rel_def)
  have "(\<exists>e. decode_flits (uy_in y @ [ft_flit ft]) sd_reset = Inl e) \<longleftrightarrow>
      (\<exists>e d. sd_consume (ft_flit ft) (un_stream_decoder (uy_un y)) = (Inl e, d))"
    by (simp add: decode_flits_append D rbind_eq_Inl split: prod.split sum.split)
  moreover have "\<exists>D. decode_flits (uy_in y @ (if un_takes ft (uy_un y) then [ft_flit ft] else [])) sd_reset
      = Inr (D, un_stream_decoder u')" if "un_cycle ft (uy_un y, uy_ports y) = Inr (u', p')" for u' p'
    using un_cycle_rel [OF rel that] by (auto simp: un_rel_def)
  ultimately show ?thesis
    using un_cycle_fatal [of ft "uy_un y" "uy_ports y"] unfolding takes by blast
qed

theorem unpacker_fatal_iff_witness:
  "(\<exists>e. un_cycle (demo_ft\<lparr>ft_flit := AouFlit_init\<lparr>flit_fdid := 1\<rparr>\<rparr>) (uy_un (un_init demo_un), uy_ports (un_init demo_un)) = Inl e)
   \<and> (\<exists>u p. un_cycle demo_ft (uy_un demo_un_sys, uy_ports demo_un_sys) = Inr (u, p))"
proof -
  have "un_flit_in_ready (uy_un (un_init demo_un))" by (simp add: un_init_def un_reset_def)
  then have 1: "\<exists>e. un_cycle (demo_ft\<lparr>ft_flit := AouFlit_init\<lparr>flit_fdid := 1\<rparr>\<rparr>)
      (uy_un (un_init demo_un), uy_ports (un_init demo_un)) = Inl e"
    using unpacker_fatal_iff [OF demo_un_new rtranclp.rtrancl_refl, of "demo_ft\<lparr>ft_flit := AouFlit_init\<lparr>flit_fdid := 1\<rparr>\<rparr>"]
    by (simp add: demo_ft_def)
  have fl: "\<exists>D. decode_flits ([AouFlit_init] @ [AouFlit_init]) sd_reset = Inr D"
  proof -
    have "\<exists>d'. sd_consume AouFlit_init d = (Inr \<lparr>sr_messages = segs_done [], sr_used_granules = seg_len []\<rparr>, d')
      \<and> decoder_at (segs_carry []) d'" if "decoder_at None d" for d
      using that by (intro sd_consume_segs [OF flit_holds_init, of None]) (simp_all add: segs_from_def)
    moreover have "decoder_at None sd_reset" by (simp add: decoder_at_def sd_reset_def)
    moreover have "segs_carry [] = None" by simp
    ultimately obtain d1 d2 where "sd_consume AouFlit_init sd_reset = (Inr \<lparr>sr_messages = segs_done [], sr_used_granules = seg_len []\<rparr>, d1)"
      "sd_consume AouFlit_init d1 = (Inr \<lparr>sr_messages = segs_done [], sr_used_granules = seg_len []\<rparr>, d2)"
      by metis
    then show ?thesis by simp
  qed
  have "uy_in demo_un_sys = [AouFlit_init]" by (simp add: demo_un_sys_def split: prod.split)
  then have "\<not> (\<exists>e. un_cycle demo_ft (uy_un demo_un_sys, uy_ports demo_un_sys) = Inl e)"
    using unpacker_fatal_iff [OF demo_un_new demo_un_reach, of demo_ft] fl by (auto simp: demo_ft_def AouFlit_init_def)
  with 1 show ?thesis
    by (cases "un_cycle demo_ft (uy_un demo_un_sys, uy_ports demo_un_sys)") auto
qed

end
