(* ===== verification/Rp_Order_Guard.thy ===== *)
theory Rp_Order_Guard
  imports Axi_If
begin

text \<open>
  The same-ID ordering check (components/axi2flit/systemc/include/rp_order_guard.h): a table indexed
  by the low bits of the AXI ID remembers the resource plane of the outstanding transactions, and a
  counter records transactions that were mapped to another plane while older ones were outstanding.
\<close>

section \<open>The guard\<close>

record Entry =
  en_rp :: u8
  en_outstanding :: u32

definition Entry_init :: Entry where
  "Entry_init = \<lparr>en_rp = 0, en_outstanding = 0\<rparr>"

record RpOrderGuard =
  og_table :: "u16 \<Rightarrow> Entry"
  og_violations :: u64

definition og_key :: "u16 \<Rightarrow> u16" where
  "og_key i = i AND ucast AXI_ID_MASK"

definition og_reset :: RpOrderGuard where
  "og_reset = \<lparr>og_table = (\<lambda>_. Entry_init), og_violations = 0\<rparr>"

definition og_bind :: "u16 \<Rightarrow> u8 \<Rightarrow> RpOrderGuard \<Rightarrow> bool \<times> RpOrderGuard" where
  "og_bind i rp g =
     (let e = og_table g (og_key i)
      in if en_outstanding e \<noteq> 0 \<and> en_rp e \<noteq> rp
         then (False, g\<lparr>og_violations := og_violations g + 1,
                 og_table := (og_table g)(og_key i := e\<lparr>en_outstanding := en_outstanding e + 1\<rparr>)\<rparr>)
         else (True, g\<lparr>og_table := (og_table g)(og_key i :=
                 e\<lparr>en_rp := rp, en_outstanding := en_outstanding e + 1\<rparr>)\<rparr>))"

definition og_retire :: "u16 \<Rightarrow> RpOrderGuard \<Rightarrow> RpOrderGuard" where
  "og_retire i g =
     (let e = og_table g (og_key i)
      in if en_outstanding e \<noteq> 0
         then g\<lparr>og_table := (og_table g)(og_key i := e\<lparr>en_outstanding := en_outstanding e - 1\<rparr>)\<rparr>
         else g)"

section \<open>Reference: the list of outstanding transactions\<close>

datatype guard_op = Bind u16 u8 | Retire u16

fun og_step :: "guard_op \<Rightarrow> RpOrderGuard \<Rightarrow> RpOrderGuard" where
  "og_step (Bind i rp) g = snd (og_bind i rp g)"
| "og_step (Retire i) g = og_retire i g"

fun drop_first :: "u16 \<Rightarrow> (u16 \<times> u8) list \<Rightarrow> (u16 \<times> u8) list" where
  "drop_first k [] = []"
| "drop_first k ((k', r) # xs) = (if k' = k then xs else (k', r) # drop_first k xs)"

text \<open>No transaction is issued while an older one with the same ID is outstanding on another plane.\<close>

fun order_ok :: "guard_op list \<Rightarrow> (u16 \<times> u8) list \<Rightarrow> bool" where
  "order_ok [] xs = True"
| "order_ok (Bind i rp # ops) xs =
     (list_all (\<lambda>(k, r). k = og_key i \<longrightarrow> r = rp) xs \<and> order_ok ops (xs @ [(og_key i, rp)]))"
| "order_ok (Retire i # ops) xs = order_ok ops (drop_first (og_key i) xs)"

definition outstanding :: "u16 \<Rightarrow> (u16 \<times> u8) list \<Rightarrow> nat" where
  "outstanding k xs = length (filter (\<lambda>p. fst p = k) xs)"

lemma outstanding_drop_first:
  "outstanding k (drop_first k' xs) = (if k = k' then outstanding k xs - 1 else outstanding k xs)"
  by (induction k' xs rule: drop_first.induct) (auto simp: outstanding_def)

lemma drop_first_subset: "set (drop_first k xs) \<subseteq> set xs" "length (drop_first k xs) \<le> length xs"
  by (induction k xs rule: drop_first.induct) auto

definition guard_rel :: "RpOrderGuard \<Rightarrow> (u16 \<times> u8) list \<Rightarrow> bool" where
  "guard_rel g xs \<longleftrightarrow> og_violations g = 0 \<and> (\<forall>k. unat (en_outstanding (og_table g k)) = outstanding k xs)
     \<and> (\<forall>k r. (k, r) \<in> set xs \<longrightarrow> en_rp (og_table g k) = r)"

lemma outstanding_0: "outstanding k xs = 0 \<longleftrightarrow> (\<forall>r. (k, r) \<notin> set xs)"
  by (induction xs) (auto simp: outstanding_def)

lemma unat_inc32: "unat (w::u32) + 1 < 2 ^ 32 \<Longrightarrow> unat (w + 1) = unat w + 1"
  by (subst unat_add_lem [THEN iffD1]) auto

lemma guard_conflict:
  assumes "guard_rel g xs"
  shows "(en_outstanding (og_table g k) \<noteq> 0 \<and> en_rp (og_table g k) \<noteq> rp) \<longleftrightarrow>
    \<not> list_all (\<lambda>(k', r). k' = k \<longrightarrow> r = rp) xs"
proof -
  have "en_outstanding (og_table g k) = 0 \<longleftrightarrow> outstanding k xs = 0"
    using assms by (metis guard_rel_def unat_eq_zero)
  with assms show ?thesis
    by (auto simp: guard_rel_def outstanding_0 list_all_iff)
qed

lemma guard_rel_bind:
  assumes rel: "guard_rel g xs" and len: "length xs + 1 < 2 ^ 32"
    and ok: "list_all (\<lambda>(k, r). k = og_key i \<longrightarrow> r = rp) xs"
  shows "guard_rel (snd (og_bind i rp g)) (xs @ [(og_key i, rp)])"
proof -
  have nc: "\<not> (en_outstanding (og_table g (og_key i)) \<noteq> 0 \<and> en_rp (og_table g (og_key i)) \<noteq> rp)"
    using guard_conflict [OF rel] ok by blast
  have "outstanding k xs \<le> length xs" for k
    by (simp add: outstanding_def)
  then have "unat (en_outstanding (og_table g k)) + 1 < 2 ^ 32" for k
    using rel len by (metis (no_types, lifting) add_le_mono1 guard_rel_def le_less_trans)
  then show ?thesis
    using rel nc ok unat_inc32
    by (auto simp: guard_rel_def og_bind_def Let_def outstanding_def list_all_iff)
qed

lemma guard_rel_retire:
  assumes "guard_rel g xs"
  shows "guard_rel (og_retire i g) (drop_first (og_key i) xs)"
proof -
  have u: "unat (en_outstanding (og_table g k)) = outstanding k xs" for k
    using assms by (simp add: guard_rel_def)
  have m: "unat (en_outstanding (og_table g k) - 1) = outstanding k xs - 1"
    if "en_outstanding (og_table g k) \<noteq> 0" for k
    using that u [of k] by (simp add: unat_minus_one)
  have z: "outstanding k xs = 0" if "en_outstanding (og_table g k) = 0" for k
    using that u [of k] by simp
  show ?thesis
    using assms m z drop_first_subset(1) [of "og_key i" xs]
    by (auto simp: guard_rel_def og_retire_def Let_def outstanding_drop_first)
qed

lemma violations_step:
  "unat (og_violations g) + 1 < 2 ^ 64 \<Longrightarrow>
    unat (og_violations (og_step op g)) \<in> {unat (og_violations g), unat (og_violations g) + 1}"
  by (cases op) (auto simp: og_bind_def og_retire_def Let_def unat_word_ariths(1))

lemma violations_mono:
  "unat (og_violations g) + length ops < 2 ^ 64 \<Longrightarrow>
    unat (og_violations g) \<le> unat (og_violations (fold og_step ops g))"
proof (induction ops arbitrary: g)
  case (Cons op ops)
  then have "unat (og_violations (og_step op g)) \<in> {unat (og_violations g), unat (og_violations g) + 1}"
    by (intro violations_step) simp
  with Cons.IH [of "og_step op g"] Cons.prems show ?case
    by auto
qed simp

lemma violations_zero:
  assumes "guard_rel g xs" and "length xs + length ops < 2 ^ 32"
  shows "og_violations (fold og_step ops g) = 0 \<longleftrightarrow> order_ok ops xs"
  using assms
proof (induction ops arbitrary: g xs)
  case Nil
  then show ?case
    by (simp add: guard_rel_def)
next
  case (Cons op ops)
  show ?case
  proof (cases op)
    case (Retire i)
    then show ?thesis
      using Cons.IH [OF guard_rel_retire [OF Cons.prems(1)], of i] Cons.prems(2)
        drop_first_subset(2) [of "og_key i" xs] by simp
  next
    case (Bind i rp)
    show ?thesis
    proof (cases "list_all (\<lambda>(k, r). k = og_key i \<longrightarrow> r = rp) xs")
      case True
      then have "guard_rel (snd (og_bind i rp g)) (xs @ [(og_key i, rp)])"
        using guard_rel_bind [OF Cons.prems(1)] Cons.prems(2) by simp
      from Cons.IH [OF this] show ?thesis
        using True Bind Cons.prems(2) by simp
    next
      case False
      have "unat (og_violations (snd (og_bind i rp g))) = 1"
        using guard_conflict [OF Cons.prems(1), of "og_key i" rp] False Cons.prems(1)
        by (simp add: og_bind_def Let_def guard_rel_def)
      moreover have "unat (og_violations (snd (og_bind i rp g)))
          \<le> unat (og_violations (fold og_step ops (snd (og_bind i rp g))))"
        using Cons.prems(2) calculation by (intro violations_mono) simp
      ultimately show ?thesis
        using False Bind by auto
    qed
  qed
qed

section \<open>Properties\<close>

text \<open>
  C15: from reset on, for fewer than $2^{32}$ bind and retire calls, the violation counter the
  integration is told to check is zero exactly when no transaction was issued while an older one with
  the same (10-bit) ID was outstanding on another resource plane: the table of counters is equivalent
  to keeping the list of all outstanding transactions.
\<close>

theorem order_guard_exact:
  assumes "length ops < 2 ^ 32"
  shows "og_violations (fold og_step ops og_reset) = 0 \<longleftrightarrow> order_ok ops []"
proof (rule violations_zero)
  show "guard_rel og_reset []"
    by (simp add: guard_rel_def og_reset_def Entry_init_def outstanding_def)
qed (use assms in simp)

theorem order_guard_exact_witness:
  "og_violations (fold og_step [Bind 5 0, Bind 6 1, Retire 5, Bind 5 1] og_reset) = 0
   \<and> og_violations (fold og_step [Bind 5 0, Bind 1029 1] og_reset) \<noteq> 0"
proof -
  have k: "og_key 5 = 5" "og_key 6 = 6" "og_key 1029 = 5"
    by (simp_all add: og_key_def AXI_ID_MASK_def AXI_ID_WIDTH_def)
  show ?thesis
    using order_guard_exact [of "[Bind 5 0, Bind 6 1, Retire 5, Bind 5 1]"]
      order_guard_exact [of "[Bind 5 0, Bind 1029 1]"]
    by (simp add: k)
qed

end
