(* ===== verification/Axi_Bridge.thy ===== *)
theory Axi_Bridge
  imports Packer_System Unpacker_System Rp_Order_Guard
begin

text \<open>
  The initiator-side bridge (components/axi2flit/systemc/include/axi2flit.h and src/axi2flit.cpp): five
  AXI channel threads around the packer and the unpacker, joined by bounded channels. Each thread is
  a function from the bridge to the bridge for one pass of its loop; its local variables are fields
  of the record. \<open>SC_REPORT_FATAL\<close> aborts the simulation and \<open>SC_REPORT_ERROR\<close> throws, so both are
  error values.
\<close>

section \<open>State\<close>

record WriteRoute =
  wr_rp :: u8
  wr_beats_remaining :: nat

record Axi2Flit =
  br_rp_count :: nat
  br_packer :: FlitPacker
  br_unpacker :: FlitUnpacker
  br_rreq_fifo :: "nat \<Rightarrow> AouMessage sc_fifo"
  br_wreq_fifo :: "nat \<Rightarrow> AouMessage sc_fifo"
  br_wdata_fifo :: "nat \<Rightarrow> AouMessage sc_fifo"
  br_rdata_fifo :: "nat \<Rightarrow> AouMessage sc_fifo"
  br_wresp_fifo :: "nat \<Rightarrow> AouMessage sc_fifo"
  br_credit_update_fifo :: "CreditUpdate sc_fifo"
  br_credit_return_fifo :: "CreditUpdate sc_fifo"
  br_write_route_fifo :: "WriteRoute sc_fifo"
  br_rd_order_guard :: RpOrderGuard
  br_wr_order_guard :: RpOrderGuard
  br_aw_ready :: bool
  br_w_ready :: bool
  br_have_route :: bool
  br_route :: WriteRoute
  br_ar_ready :: bool
  br_b_active :: bool
  br_b_msg :: AouMessage
  br_b_id :: u16
  br_b_next_rp :: nat
  br_b_ch :: BChannel
  br_r_active :: bool
  br_r_msg :: AouMessage
  br_r_id :: u16
  br_r_last :: bool
  br_r_next_rp :: nat
  br_r_ch :: RChannel

definition Axi2Flit_new :: "nat \<Rightarrow> Axi2Flit res" where
  "Axi2Flit_new rp_count =
     rbind (FlitPacker_new rp_count RX_RDATA_CREDITS_PER_RP RX_WRESP_CREDITS_PER_RP
            DEFAULT_FLUSH_TIMEOUT_CYCLES) (\<lambda>pk.
     rbind (FlitUnpacker_new rp_count) (\<lambda>un.
     rassert (rp_count \<ge> 1 \<and> rp_count \<le> MAX_RESOURCE_PLANES) ''rp_count''
       (Inr \<lparr>br_rp_count = rp_count, br_packer = pk, br_unpacker = un,
         br_rreq_fifo = (\<lambda>_. fifo_new TX_REQ_FIFO_DEPTH_PER_RP),
         br_wreq_fifo = (\<lambda>_. fifo_new TX_REQ_FIFO_DEPTH_PER_RP),
         br_wdata_fifo = (\<lambda>_. fifo_new TX_WDATA_FIFO_DEPTH_PER_RP),
         br_rdata_fifo = (\<lambda>_. fifo_new RX_RDATA_FIFO_DEPTH_PER_RP),
         br_wresp_fifo = (\<lambda>_. fifo_new RX_WRESP_FIFO_DEPTH_PER_RP),
         br_credit_update_fifo = fifo_new 64, br_credit_return_fifo = fifo_new 64,
         br_write_route_fifo = fifo_new (TX_REQ_FIFO_DEPTH_PER_RP * rp_count),
         br_rd_order_guard = og_reset, br_wr_order_guard = og_reset,
         br_aw_ready = False, br_w_ready = False, br_have_route = False,
         br_route = \<lparr>wr_rp = 0, wr_beats_remaining = 0\<rparr>, br_ar_ready = False,
         br_b_active = False, br_b_msg = AouMessage_init, br_b_id = 0, br_b_next_rp = 0, br_b_ch = BChannel_init,
         br_r_active = False, br_r_msg = AouMessage_init, br_r_id = 0, br_r_last = False, br_r_next_rp = 0,
         br_r_ch = RChannel_init\<rparr>)))"

definition map_qos_to_rp :: "Axi2Flit \<Rightarrow> u8 \<Rightarrow> u8" where
  "map_qos_to_rp br qos = word_of_nat (unat qos mod br_rp_count br)"

definition order_violations :: "Axi2Flit \<Rightarrow> u64" where
  "order_violations br = og_violations (br_rd_order_guard br) + og_violations (br_wr_order_guard br)"

section \<open>Reset\<close>

definition drain_planes :: "nat \<Rightarrow> (nat \<Rightarrow> 'a sc_fifo) \<Rightarrow> nat \<Rightarrow> 'a sc_fifo" where
  "drain_planes n q = (\<lambda>rp. if rp < n then snd (read_all (q rp)) else q rp)"

definition reset_queues_and_order :: "bool \<Rightarrow> Axi2Flit \<Rightarrow> Axi2Flit" where
  "reset_queues_and_order rst_n br =
     (if rst_n then br
      else br\<lparr>br_rd_order_guard := og_reset, br_wr_order_guard := og_reset,
        br_rreq_fifo := drain_planes (br_rp_count br) (br_rreq_fifo br),
        br_wreq_fifo := drain_planes (br_rp_count br) (br_wreq_fifo br),
        br_wdata_fifo := drain_planes (br_rp_count br) (br_wdata_fifo br),
        br_rdata_fifo := drain_planes (br_rp_count br) (br_rdata_fifo br),
        br_wresp_fifo := drain_planes (br_rp_count br) (br_wresp_fifo br),
        br_credit_update_fifo := snd (read_all (br_credit_update_fifo br)),
        br_credit_return_fifo := snd (read_all (br_credit_return_fifo br)),
        br_write_route_fifo := snd (read_all (br_write_route_fifo br))\<rparr>)"

text \<open>What the threads run before their first \<open>wait\<close>, at every reset.\<close>

definition aw_start :: "Axi2Flit \<Rightarrow> Axi2Flit" where
  "aw_start br = br\<lparr>br_aw_ready := False\<rparr>"

definition w_start :: "Axi2Flit \<Rightarrow> Axi2Flit" where
  "w_start br = br\<lparr>br_w_ready := False, br_have_route := False,
     br_route := \<lparr>wr_rp = 0, wr_beats_remaining = 0\<rparr>\<rparr>"

definition ar_start :: "Axi2Flit \<Rightarrow> Axi2Flit" where
  "ar_start br = br\<lparr>br_ar_ready := False\<rparr>"

definition b_start :: "Axi2Flit \<Rightarrow> Axi2Flit" where
  "b_start br = br\<lparr>br_b_ch := BChannel_init, br_b_active := False, br_b_msg := AouMessage_init,
     br_b_id := 0, br_b_next_rp := 0\<rparr>"

definition r_start :: "Axi2Flit \<Rightarrow> Axi2Flit" where
  "r_start br = br\<lparr>br_r_ch := RChannel_init, br_r_active := False, br_r_msg := AouMessage_init,
     br_r_id := 0, br_r_last := False, br_r_next_rp := 0\<rparr>"

definition br_start :: "Axi2Flit \<Rightarrow> Axi2Flit" where
  "br_start br = (let br = r_start (b_start (ar_start (w_start (aw_start br))))
     in br\<lparr>br_packer := pk_reset (br_packer br), br_unpacker := un_reset (br_unpacker br)\<rparr>)"

section \<open>The channel threads\<close>

definition planes_have_space :: "nat \<Rightarrow> (nat \<Rightarrow> 'a sc_fifo) \<Rightarrow> bool" where
  "planes_have_space n q = list_all (\<lambda>rp. num_free (q rp) > 0) [0..<n]"

definition aw_accept :: "AxChannel \<Rightarrow> Axi2Flit \<Rightarrow> Axi2Flit res" where
  "aw_accept aw br =
     (case axi_request_error aw of
        Some e \<Rightarrow> Inl (ScFatal e)
      | None \<Rightarrow>
          let rp = map_qos_to_rp br (ax_qos aw);
              msg = build_write_req aw rp;
              (msg_ok, q) = nb_write msg (br_wreq_fifo br (unat rp));
              (route_ok, qr) = nb_write \<lparr>wr_rp = rp, wr_beats_remaining = unat (ax_len aw) + 1\<rparr>
                 (br_write_route_fifo br)
          in rassert (msg_ok \<and> route_ok) ''msg_ok && route_ok''
               (Inr (br\<lparr>br_wr_order_guard := snd (og_bind (ax_id aw) rp (br_wr_order_guard br)),
                  br_wreq_fifo := (br_wreq_fifo br)(unat rp := q), br_write_route_fifo := qr\<rparr>)))"

definition aw_channel_thread :: "bool \<Rightarrow> AxChannel \<Rightarrow> Axi2Flit \<Rightarrow> Axi2Flit res" where
  "aw_channel_thread valid aw_ch br =
     rbind (if br_aw_ready br \<and> valid then aw_accept aw_ch br else Inr br) (\<lambda>br.
       Inr (br\<lparr>br_aw_ready := num_free (br_write_route_fifo br) > 0
              \<and> planes_have_space (br_rp_count br) (br_wreq_fifo br)\<rparr>))"

definition w_accept :: "WChannel \<Rightarrow> Axi2Flit \<Rightarrow> Axi2Flit res" where
  "w_accept w br =
     (let route = br_route br
      in if \<not> axi_wlast_matches (wr_beats_remaining route) (w_last w)
         then Inl (ScFatal ''AWLEN and WLAST disagree'')
         else
           let msg = (if is_full_strobe w then build_write_data_full w (wr_rp route) AXI_DLENGTH
                      else build_write_data w (wr_rp route) AXI_DLENGTH);
               (written, q) = nb_write msg (br_wdata_fifo br (unat (wr_rp route)));
               route' = (if wr_beats_remaining route > 0
                         then route\<lparr>wr_beats_remaining := wr_beats_remaining route - 1\<rparr> else route)
           in rassert written ''written''
                (Inr (br\<lparr>br_wdata_fifo := (br_wdata_fifo br)(unat (wr_rp route) := q), br_route := route',
                   br_have_route := (if wr_beats_remaining route' = 0 then False else br_have_route br)\<rparr>)))"

definition w_route :: "Axi2Flit \<Rightarrow> Axi2Flit" where
  "w_route br =
     (if br_have_route br then br
      else case nb_read (br_write_route_fifo br) of
             (Some route, q) \<Rightarrow> br\<lparr>br_write_route_fifo := q, br_have_route := True, br_route := route\<rparr>
           | (None, q) \<Rightarrow> br\<lparr>br_write_route_fifo := q, br_have_route := False\<rparr>)"

definition w_channel_thread :: "bool \<Rightarrow> WChannel \<Rightarrow> Axi2Flit \<Rightarrow> Axi2Flit res" where
  "w_channel_thread valid w_ch br =
     rbind (if br_w_ready br \<and> valid then w_accept w_ch br else Inr br) (\<lambda>br.
       let br = w_route br
       in Inr (br\<lparr>br_w_ready := br_have_route br
              \<and> num_free (br_wdata_fifo br (unat (wr_rp (br_route br)))) > 0\<rparr>))"

definition ar_accept :: "AxChannel \<Rightarrow> Axi2Flit \<Rightarrow> Axi2Flit res" where
  "ar_accept ar br =
     (case axi_request_error ar of
        Some e \<Rightarrow> Inl (ScFatal e)
      | None \<Rightarrow>
          let rp = map_qos_to_rp br (ax_qos ar);
              (written, q) = nb_write (build_read_req ar rp) (br_rreq_fifo br (unat rp))
          in rassert written ''written''
               (Inr (br\<lparr>br_rd_order_guard := snd (og_bind (ax_id ar) rp (br_rd_order_guard br)),
                  br_rreq_fifo := (br_rreq_fifo br)(unat rp := q)\<rparr>)))"

definition ar_channel_thread :: "bool \<Rightarrow> AxChannel \<Rightarrow> Axi2Flit \<Rightarrow> Axi2Flit res" where
  "ar_channel_thread valid ar_ch br =
     rbind (if br_ar_ready br \<and> valid then ar_accept ar_ch br else Inr br) (\<lambda>br.
       Inr (br\<lparr>br_ar_ready := planes_have_space (br_rp_count br) (br_rreq_fifo br)\<rparr>))"

definition b_complete :: "Axi2Flit \<Rightarrow> Axi2Flit res" where
  "b_complete br =
     (let (ok, q) = nb_write \<lparr>cu_rp = msg_rp (br_b_msg br), cu_kind = CreditKind.WriteResp,
            cu_granules = nat (msg_granules (br_b_msg br))\<rparr> (br_credit_return_fifo br)
      in rassert ok ''ok''
           (Inr (br\<lparr>br_credit_return_fifo := q,
              br_wr_order_guard := og_retire (br_b_id br) (br_wr_order_guard br), br_b_active := False\<rparr>)))"

text \<open>The scan over the planes; the list holds the values of \<open>checked\<close> that are left.\<close>

fun b_fetch :: "nat list \<Rightarrow> Axi2Flit \<Rightarrow> Axi2Flit res" where
  "b_fetch [] br = Inr br"
| "b_fetch (checked # rest) br =
     (let rp = (br_b_next_rp br + checked) mod br_rp_count br
      in case nb_read (br_wresp_fifo br rp) of
           (None, q) \<Rightarrow> b_fetch rest br
         | (Some msg, q) \<Rightarrow>
             let br = br\<lparr>br_wresp_fifo := (br_wresp_fifo br)(rp := q), br_b_msg := msg\<rparr>
             in case decode_write_resp msg of
                  None \<Rightarrow> Inl (RuntimeError ''Axi2Flit: WriteResp'')
                | Some b \<Rightarrow> Inr (br\<lparr>br_b_ch := b, br_b_id := b_id b, br_b_active := True,
                               br_b_next_rp := (rp + 1) mod br_rp_count br\<rparr>))"

definition b_channel_thread :: "bool \<Rightarrow> Axi2Flit \<Rightarrow> Axi2Flit res" where
  "b_channel_thread ready br =
     rbind (if br_b_active br \<and> ready then b_complete br else Inr br) (\<lambda>br.
       if \<not> br_b_active br then b_fetch [0..<br_rp_count br] br else Inr br)"

definition r_complete :: "Axi2Flit \<Rightarrow> Axi2Flit res" where
  "r_complete br =
     (let (ok, q) = nb_write \<lparr>cu_rp = msg_rp (br_r_msg br), cu_kind = CreditKind.ReadData,
            cu_granules = nat (msg_granules (br_r_msg br))\<rparr> (br_credit_return_fifo br)
      in rassert ok ''ok''
           (Inr (br\<lparr>br_credit_return_fifo := q,
              br_rd_order_guard := (if br_r_last br then og_retire (br_r_id br) (br_rd_order_guard br)
                                    else br_rd_order_guard br), br_r_active := False\<rparr>)))"

fun r_fetch :: "nat list \<Rightarrow> Axi2Flit \<Rightarrow> Axi2Flit res" where
  "r_fetch [] br = Inr br"
| "r_fetch (checked # rest) br =
     (let rp = (br_r_next_rp br + checked) mod br_rp_count br
      in case nb_read (br_rdata_fifo br rp) of
           (None, q) \<Rightarrow> r_fetch rest br
         | (Some msg, q) \<Rightarrow>
             let br = br\<lparr>br_rdata_fifo := (br_rdata_fifo br)(rp := q), br_r_msg := msg\<rparr>
             in case decode_read_data msg of
                  None \<Rightarrow> Inl (RuntimeError ''Axi2Flit: ReadData'')
                | Some r \<Rightarrow> Inr (br\<lparr>br_r_ch := r, br_r_id := r_id r, br_r_last := r_last r, br_r_active := True,
                               br_r_next_rp := (rp + 1) mod br_rp_count br\<rparr>))"

definition r_channel_thread :: "bool \<Rightarrow> Axi2Flit \<Rightarrow> Axi2Flit res" where
  "r_channel_thread ready br =
     rbind (if br_r_active br \<and> ready then r_complete br else Inr br) (\<lambda>br.
       if \<not> br_r_active br then r_fetch [0..<br_rp_count br] br else Inr br)"

section \<open>The bound modules\<close>

definition packer_ports :: "Axi2Flit \<Rightarrow> pk_ports" where
  "packer_ports br = \<lparr>pp_rreq_in = br_rreq_fifo br, pp_wreq_in = br_wreq_fifo br,
     pp_wdata_in = br_wdata_fifo br, pp_credit_update_in = br_credit_update_fifo br,
     pp_credit_return_in = br_credit_return_fifo br\<rparr>"

definition unpacker_ports :: "Axi2Flit \<Rightarrow> un_ports" where
  "unpacker_ports br = \<lparr>uo_rdata_out = br_rdata_fifo br, uo_wresp_out = br_wresp_fifo br,
     uo_credit_update_out = br_credit_update_fifo br\<rparr>"

definition packer_thread :: "bool \<Rightarrow> Axi2Flit \<Rightarrow> Axi2Flit res" where
  "packer_thread ready br =
     rbind (pk_cycle ready (br_packer br, packer_ports br)) (\<lambda>(pk, p).
       Inr (br\<lparr>br_packer := pk, br_rreq_fifo := pp_rreq_in p, br_wreq_fifo := pp_wreq_in p,
              br_wdata_fifo := pp_wdata_in p, br_credit_update_fifo := pp_credit_update_in p,
              br_credit_return_fifo := pp_credit_return_in p\<rparr>))"

definition unpacker_thread :: "FlitTransfer \<Rightarrow> Axi2Flit \<Rightarrow> Axi2Flit res" where
  "unpacker_thread incoming br =
     rbind (un_cycle incoming (br_unpacker br, unpacker_ports br)) (\<lambda>(un, p).
       Inr (br\<lparr>br_unpacker := un, br_rdata_fifo := uo_rdata_out p, br_wresp_fifo := uo_wresp_out p,
              br_credit_update_fifo := uo_credit_update_out p\<rparr>))"

text \<open>The update phase of the simulator, after all processes of a clock edge have run.\<close>

definition update_channels :: "Axi2Flit \<Rightarrow> Axi2Flit" where
  "update_channels br = br\<lparr>br_rreq_fifo := (\<lambda>rp. fifo_update (br_rreq_fifo br rp)),
     br_wreq_fifo := (\<lambda>rp. fifo_update (br_wreq_fifo br rp)),
     br_wdata_fifo := (\<lambda>rp. fifo_update (br_wdata_fifo br rp)),
     br_rdata_fifo := (\<lambda>rp. fifo_update (br_rdata_fifo br rp)),
     br_wresp_fifo := (\<lambda>rp. fifo_update (br_wresp_fifo br rp)),
     br_credit_update_fifo := fifo_update (br_credit_update_fifo br),
     br_credit_return_fifo := fifo_update (br_credit_return_fifo br),
     br_write_route_fifo := fifo_update (br_write_route_fifo br)\<rparr>"

text \<open>The input signals sampled at a clock edge, and one process of that edge.\<close>

record br_in =
  bi_aw_valid :: bool
  bi_aw :: AxChannel
  bi_w_valid :: bool
  bi_w :: WChannel
  bi_ar_valid :: bool
  bi_ar :: AxChannel
  bi_b_ready :: bool
  bi_r_ready :: bool
  bi_flit_ready :: bool
  bi_flit_in :: FlitTransfer

datatype br_process = P_AW | P_W | P_AR | P_B | P_R | P_Pack | P_Unpack

fun run_process :: "br_in \<Rightarrow> br_process \<Rightarrow> Axi2Flit \<Rightarrow> Axi2Flit res" where
  "run_process i P_AW br = aw_channel_thread (bi_aw_valid i) (bi_aw i) br"
| "run_process i P_W br = w_channel_thread (bi_w_valid i) (bi_w i) br"
| "run_process i P_AR br = ar_channel_thread (bi_ar_valid i) (bi_ar i) br"
| "run_process i P_B br = b_channel_thread (bi_b_ready i) br"
| "run_process i P_R br = r_channel_thread (bi_r_ready i) br"
| "run_process i P_Pack br = packer_thread (bi_flit_ready i) br"
| "run_process i P_Unpack br = unpacker_thread (bi_flit_in i) br"

definition clock_edge :: "br_process list \<Rightarrow> br_in \<Rightarrow> Axi2Flit \<Rightarrow> Axi2Flit res" where
  "clock_edge ps i br = rbind (rfold (run_process i) ps br) (\<lambda>br. Inr (update_channels br))"

end
