(* ===== verification/Bridge_Correct.thy ===== *)
theory Bridge_Correct
  imports Axi_Bridge "HOL-Library.Multiset"
begin

text \<open>
  The bridge as a system: any interleaving of its processes and of the update phases, with the AXI
  and link signals chosen freely. The invariant ties the AXI beats that were accepted to the flits
  the link took, and the flits that arrived to the responses presented on B and R.
\<close>

section \<open>The packer only reads its channels\<close>

definition only_read :: "'a sc_fifo \<Rightarrow> 'a sc_fifo \<Rightarrow> bool" where
  "only_read q q' \<longleftrightarrow> num_free q' = num_free q \<and> (fifo_inv q \<longrightarrow> fifo_inv q')"

lemma only_read_refl [simp]: "only_read q q"
  by (simp add: only_read_def)

lemma only_read_trans: "only_read a b \<Longrightarrow> only_read b c \<Longrightarrow> only_read a c"
  by (simp add: only_read_def)

lemma nb_read_only: "nb_read q = (r, q') \<Longrightarrow> only_read q q'"
  using sc_fifo.rd_ok [of q] sc_fifo.rd_none [of q q'] sc_fifo.rd_some [of q _ q']
  by (cases r) (auto simp: only_read_def)

lemma fill_slot_only: "fill_slot rp (sl, qs) = (sl', qs') \<Longrightarrow> only_read (qs r) (qs' r)"
  by (auto simp: fill_slot_def split: if_splits prod.splits option.splits dest!: nb_read_only)

definition ports_read :: "pk_ports \<Rightarrow> pk_ports \<Rightarrow> bool" where
  "ports_read p p' \<longleftrightarrow> (\<forall>q rp. only_read (port_of q p rp) (port_of q p' rp))
     \<and> pp_credit_update_in p' = pp_credit_update_in p \<and> pp_credit_return_in p' = pp_credit_return_in p"

lemma ports_read_refl [simp]: "ports_read p p"
  by (simp add: ports_read_def)

lemma ports_read_trans: "ports_read a b \<Longrightarrow> ports_read b c \<Longrightarrow> ports_read a c"
  unfolding ports_read_def using only_read_trans by metis

lemma fill_plane_read: "ports_read (snd sp) (snd (fill_plane rp sp))"
proof -
  obtain s p where sp: "sp = (s, p)"
    by (cases sp)
  obtain r rq w wq d dq where f: "fill_slot rp (pk_staged_rreq s, pp_rreq_in p) = (r, rq)"
    "fill_slot rp (pk_staged_wreq s, pp_wreq_in p) = (w, wq)"
    "fill_slot rp (pk_staged_wdata s, pp_wdata_in p) = (d, dq)"
    by (metis surj_pair)
  have "only_read (port_of q p i) (port_of q (p\<lparr>pp_rreq_in := rq, pp_wreq_in := wq, pp_wdata_in := dq\<rparr>) i)" for q i
    using f [THEN fill_slot_only] by (cases q) simp_all
  then show ?thesis
    by (simp add: sp fill_plane_def f ports_read_def)
qed

lemma fill_staging_read: "ports_read (snd sp) (snd (fill_staging_slots sp))"
  unfolding fill_staging_slots_def
  by (rule fold_invariant [where Q = "\<lambda>_. True" and P = "\<lambda>x. ports_read (snd sp) (snd x)"])
     (auto intro: ports_read_trans fill_plane_read)

lemma pack_loop_read: "pack_loop k sp = Inr (e, s', p') \<Longrightarrow> ports_read (snd sp) p'"
proof (induction k arbitrary: sp)
  case (Suc k)
  obtain s1 p1 where f: "fill_staging_slots sp = (s1, p1)"
    by fastforce
  have c: "ports_read (snd sp) p1"
    using fill_staging_read [of sp] f by simp
  from Suc.prems show ?case
    using Suc.IH ports_read_trans [OF c] c by (fastforce simp: f rbind_eq_Inr split: if_splits option.splits)
qed auto

lemma pack_cycle_read: "pack_cycle (s, p) = Inr (e, s', p') \<Longrightarrow> ports_read p p'"
  by (auto simp: pack_cycle_def Let_def split: prod.splits if_splits dest!: pack_loop_read)

lemma pk_cycle_read:
  assumes "pk_cycle ready (s, p) = Inr (s', p')"
  shows "only_read (port_of q p rp) (port_of q p' rp)"
    "pp_credit_update_in p' = snd (read_all (pp_credit_update_in p))"
    "pp_credit_return_in p' = snd (read_all (pp_credit_return_in p))"
proof -
  obtain s1 p1 where d: "drain_credit_events (s, p) = (s1, p1)"
    by fastforce
  with assms obtain e s2 where "pack_cycle (pk_handshake ready s1, p1) = Inr (e, s2, p')"
    by (auto simp: pk_cycle_def rbind_eq_Inr)
  then have r: "ports_read p1 p'"
    by (rule pack_cycle_read)
  have p1: "p1 = p\<lparr>pp_credit_update_in := snd (read_all (pp_credit_update_in p)),
      pp_credit_return_in := snd (read_all (pp_credit_return_in p))\<rparr>"
    using d by (auto simp: drain_credit_events_def Let_def split: prod.splits)
  have "port_of q p1 rp = port_of q p rp"
    by (cases q) (simp_all add: p1)
  with r p1 show "only_read (port_of q p rp) (port_of q p' rp)"
    "pp_credit_update_in p' = snd (read_all (pp_credit_update_in p))"
    "pp_credit_return_in p' = snd (read_all (pp_credit_return_in p))"
    by (auto simp: ports_read_def dest!: spec [of _ q] spec [of _ rp])
qed

section \<open>What each process changes\<close>

lemma nb_write_True:
  assumes "nb_write x q = (True, q')"
  shows "fifo_list q' = fifo_list q @ [x]" "fifo_inv q \<Longrightarrow> fifo_inv q'" "num_free q' = num_free q - 1"
  using assms sc_fifo.wr_ok [of q x]
  by (auto simp: nb_write_def fifo_list_def num_free_def split: if_splits)

lemma aw_threadE:
  assumes "aw_channel_thread v aw br = Inr br'"
  obtains (idle) "\<not> (br_aw_ready br \<and> v)" "br' = br\<lparr>br_aw_ready := br_aw_ready br'\<rparr>"
  | (accept) rp q qr g where "br_aw_ready br" "v" "axi_request_error aw = None" "rp = map_qos_to_rp br (ax_qos aw)"
    "nb_write (build_write_req aw rp) (br_wreq_fifo br (unat rp)) = (True, q)"
    "nb_write \<lparr>wr_rp = rp, wr_beats_remaining = unat (ax_len aw) + 1\<rparr> (br_write_route_fifo br) = (True, qr)"
    "br' = br\<lparr>br_wr_order_guard := g, br_wreq_fifo := (br_wreq_fifo br)(unat rp := q),
       br_write_route_fifo := qr, br_aw_ready := br_aw_ready br'\<rparr>"
proof (cases "br_aw_ready br \<and> v")
  case True
  then show ?thesis
    using assms accept
    by (auto simp: aw_channel_thread_def aw_accept_def rbind_eq_Inr Let_def split: option.splits prod.splits)
next
  case False
  then show ?thesis
    using assms idle by (auto simp: aw_channel_thread_def)
qed

lemma aw_thread_ready:
  "aw_channel_thread v aw br = Inr br' \<Longrightarrow> br_aw_ready br' \<Longrightarrow>
    num_free (br_write_route_fifo br') > 0 \<and> planes_have_space (br_rp_count br') (br_wreq_fifo br')"
  by (auto simp: aw_channel_thread_def rbind_eq_Inr)

lemma ar_threadE:
  assumes "ar_channel_thread v ar br = Inr br'"
  obtains (idle) "\<not> (br_ar_ready br \<and> v)" "br' = br\<lparr>br_ar_ready := br_ar_ready br'\<rparr>"
  | (accept) rp q g where "br_ar_ready br" "v" "axi_request_error ar = None" "rp = map_qos_to_rp br (ax_qos ar)"
    "nb_write (build_read_req ar rp) (br_rreq_fifo br (unat rp)) = (True, q)"
    "br' = br\<lparr>br_rd_order_guard := g, br_rreq_fifo := (br_rreq_fifo br)(unat rp := q),
       br_ar_ready := br_ar_ready br'\<rparr>"
proof (cases "br_ar_ready br \<and> v")
  case True
  then show ?thesis
    using assms accept
    by (auto simp: ar_channel_thread_def ar_accept_def rbind_eq_Inr Let_def split: option.splits prod.splits)
next
  case False
  then show ?thesis
    using assms idle by (auto simp: ar_channel_thread_def)
qed

lemma ar_thread_ready:
  "ar_channel_thread v ar br = Inr br' \<Longrightarrow> br_ar_ready br' \<Longrightarrow>
    planes_have_space (br_rp_count br') (br_rreq_fifo br')"
  by (auto simp: ar_channel_thread_def rbind_eq_Inr)

definition w_message :: "WChannel \<Rightarrow> u8 \<Rightarrow> AouMessage" where
  "w_message w rp = (if is_full_strobe w then build_write_data_full w rp AXI_DLENGTH
     else build_write_data w rp AXI_DLENGTH)"

lemma w_acceptE:
  assumes "w_accept w br = Inr br'"
  obtains q where "0 < wr_beats_remaining (br_route br)"
    "w_last w = (wr_beats_remaining (br_route br) = 1)"
    "nb_write (w_message w (wr_rp (br_route br))) (br_wdata_fifo br (unat (wr_rp (br_route br)))) = (True, q)"
    "br' = br\<lparr>br_wdata_fifo := (br_wdata_fifo br)(unat (wr_rp (br_route br)) := q),
       br_route := (br_route br)\<lparr>wr_beats_remaining := wr_beats_remaining (br_route br) - 1\<rparr>,
       br_have_route := (wr_beats_remaining (br_route br) \<noteq> 1 \<and> br_have_route br)\<rparr>"
proof -
  let ?r = "br_route br"
  obtain ok q where w: "nb_write (w_message w (wr_rp ?r)) (br_wdata_fifo br (unat (wr_rp ?r))) = (ok, q)"
    by fastforce
  from assms have m: "axi_wlast_matches (wr_beats_remaining ?r) (w_last w)"
    by (auto simp: w_accept_def Let_def split: if_splits)
  then have pos: "0 < wr_beats_remaining ?r"
    by (simp add: axi_wlast_matches_def)
  from assms m pos have r: "ok" "br' = br\<lparr>br_wdata_fifo := (br_wdata_fifo br)(unat (wr_rp ?r) := q),
      br_route := ?r\<lparr>wr_beats_remaining := wr_beats_remaining ?r - 1\<rparr>,
      br_have_route := (if wr_beats_remaining ?r - 1 = 0 then False else br_have_route br)\<rparr>"
    unfolding w_accept_def Let_def w_message_def [symmetric] w prod.case by simp_all
  have "(if wr_beats_remaining ?r - 1 = 0 then False else br_have_route br)
      = (wr_beats_remaining ?r \<noteq> 1 \<and> br_have_route br)"
    using pos by auto
  with r m pos w that [of q] show thesis
    by (simp only: axi_wlast_matches_def simp_thms)
qed

lemma w_threadE:
  assumes "w_channel_thread v w br = Inr br'"
  obtains br1 where "if br_w_ready br \<and> v then w_accept w br = Inr br1 else br1 = br"
    "br' = (w_route br1)\<lparr>br_w_ready := br_have_route (w_route br1)
              \<and> num_free (br_wdata_fifo (w_route br1) (unat (wr_rp (br_route (w_route br1))))) > 0\<rparr>"
  using assms by (auto simp: w_channel_thread_def rbind_eq_Inr Let_def split: if_splits)

lemma b_fetch_cases:
  assumes "b_fetch cs br = Inr br'"
  shows "br' = br \<or> (\<exists>k rp msg q b. rp = (br_b_next_rp br + k) mod br_rp_count br
    \<and> nb_read (br_wresp_fifo br rp) = (Some msg, q) \<and> decode_write_resp msg = Some b
    \<and> br' = br\<lparr>br_wresp_fifo := (br_wresp_fifo br)(rp := q), br_b_msg := msg, br_b_ch := b,
       br_b_id := b_id b, br_b_active := True, br_b_next_rp := (rp + 1) mod br_rp_count br\<rparr>)"
  using assms
proof (induction cs)
  case (Cons k cs)
  let ?rp = "(br_b_next_rp br + k) mod br_rp_count br"
  obtain m q where rd: "nb_read (br_wresp_fifo br ?rp) = (m, q)"
    by fastforce
  show ?case
  proof (cases m)
    case None
    with Cons rd show ?thesis
      by simp
  next
    case (Some msg)
    from Cons.prems rd Some obtain b where d: "decode_write_resp msg = Some b"
      by (auto simp: Let_def split: option.splits)
    with Cons.prems rd Some have "br' = br\<lparr>br_wresp_fifo := (br_wresp_fifo br)(?rp := q), br_b_msg := msg, br_b_ch := b,
       br_b_id := b_id b, br_b_active := True, br_b_next_rp := (?rp + 1) mod br_rp_count br\<rparr>"
      by (simp add: Let_def)
    with rd d Some show ?thesis
      by blast
  qed
qed simp

lemma r_fetch_cases:
  assumes "r_fetch cs br = Inr br'"
  shows "br' = br \<or> (\<exists>k rp msg q r. rp = (br_r_next_rp br + k) mod br_rp_count br
    \<and> nb_read (br_rdata_fifo br rp) = (Some msg, q) \<and> decode_read_data msg = Some r
    \<and> br' = br\<lparr>br_rdata_fifo := (br_rdata_fifo br)(rp := q), br_r_msg := msg, br_r_ch := r,
       br_r_id := r_id r, br_r_last := r_last r, br_r_active := True, br_r_next_rp := (rp + 1) mod br_rp_count br\<rparr>)"
  using assms
proof (induction cs)
  case (Cons k cs)
  let ?rp = "(br_r_next_rp br + k) mod br_rp_count br"
  obtain m q where rd: "nb_read (br_rdata_fifo br ?rp) = (m, q)"
    by fastforce
  show ?case
  proof (cases m)
    case None
    with Cons rd show ?thesis
      by simp
  next
    case (Some msg)
    from Cons.prems rd Some obtain r where d: "decode_read_data msg = Some r"
      by (auto simp: Let_def split: option.splits)
    with Cons.prems rd Some have "br' = br\<lparr>br_rdata_fifo := (br_rdata_fifo br)(?rp := q), br_r_msg := msg, br_r_ch := r,
       br_r_id := r_id r, br_r_last := r_last r, br_r_active := True, br_r_next_rp := (?rp + 1) mod br_rp_count br\<rparr>"
      by (simp add: Let_def)
    with rd d Some show ?thesis
      by blast
  qed
qed simp

text \<open>The credit return of a completed response: nothing, or one event written.\<close>

definition returned :: "CreditUpdate sc_fifo \<Rightarrow> CreditUpdate sc_fifo \<Rightarrow> bool" where
  "returned q q' \<longleftrightarrow> q' = q \<or> (\<exists>c. nb_write c q = (True, q'))"

lemma b_threadE:
  assumes "b_channel_thread ready br = Inr br'"
  obtains (keep) "br_b_active br" "\<not> ready" "br' = br"
  | (none) cq g where "\<not> (br_b_active br \<and> \<not> ready)" "returned (br_credit_return_fifo br) cq"
    "br' = br\<lparr>br_credit_return_fifo := cq, br_wr_order_guard := g, br_b_active := False\<rparr>"
  | (fetch) cq g rp msg q b nx k where "\<not> (br_b_active br \<and> \<not> ready)" "returned (br_credit_return_fifo br) cq"
    "rp = k mod br_rp_count br" "nb_read (br_wresp_fifo br rp) = (Some msg, q)" "decode_write_resp msg = Some b"
    "br' = br\<lparr>br_credit_return_fifo := cq, br_wr_order_guard := g, br_wresp_fifo := (br_wresp_fifo br)(rp := q),
       br_b_msg := msg, br_b_ch := b, br_b_id := b_id b, br_b_active := True, br_b_next_rp := nx\<rparr>"
proof (cases "br_b_active br \<and> \<not> ready")
  case True
  with assms have "br' = br"
    by (simp add: b_channel_thread_def)
  with True show thesis
    by (intro keep) simp_all
next
  case False
  obtain cq g where c: "returned (br_credit_return_fifo br) cq" and
    f: "b_fetch [0..<br_rp_count br] (br\<lparr>br_credit_return_fifo := cq, br_wr_order_guard := g, br_b_active := False\<rparr>) = Inr br'"
  proof (cases "br_b_active br")
    case True
    with assms False obtain br1 where one: "b_complete br = Inr br1"
      and two: "(if \<not> br_b_active br1 then b_fetch [0..<br_rp_count br1] br1 else Inr br1) = Inr br'"
      by (auto simp: b_channel_thread_def rbind_eq_Inr simp del: b_fetch.simps)
    from one obtain cq g where "returned (br_credit_return_fifo br) cq"
      and br1: "br1 = br\<lparr>br_credit_return_fifo := cq, br_wr_order_guard := g, br_b_active := False\<rparr>"
      by (auto simp: b_complete_def returned_def Let_def split: prod.splits)
    with two show thesis
      by (intro that) simp_all
  next
    case False
    have "br = br\<lparr>br_credit_return_fifo := br_credit_return_fifo br, br_wr_order_guard := br_wr_order_guard br,
        br_b_active := False\<rparr>"
      using False by simp
    moreover have "b_fetch [0..<br_rp_count br] br = Inr br'"
      using assms False by (simp add: b_channel_thread_def)
    ultimately show thesis
      using that [of "br_credit_return_fifo br" "br_wr_order_guard br"] by (simp add: returned_def)
  qed
  from b_fetch_cases [OF f] show thesis
  proof (elim disjE exE conjE)
    assume "br' = br\<lparr>br_credit_return_fifo := cq, br_wr_order_guard := g, br_b_active := False\<rparr>"
    with False c show thesis
      by (rule none)
  next
    fix k rp msg q b
    assume "rp = (br_b_next_rp (br\<lparr>br_credit_return_fifo := cq, br_wr_order_guard := g, br_b_active := False\<rparr>) + k)
        mod br_rp_count (br\<lparr>br_credit_return_fifo := cq, br_wr_order_guard := g, br_b_active := False\<rparr>)"
      "nb_read (br_wresp_fifo (br\<lparr>br_credit_return_fifo := cq, br_wr_order_guard := g, br_b_active := False\<rparr>) rp)
        = (Some msg, q)" "decode_write_resp msg = Some b"
      and br': "br' = (br\<lparr>br_credit_return_fifo := cq, br_wr_order_guard := g, br_b_active := False\<rparr>)\<lparr>br_wresp_fifo := (br_wresp_fifo (br\<lparr>br_credit_return_fifo := cq, br_wr_order_guard := g, br_b_active := False\<rparr>))(rp := q), br_b_msg := msg, br_b_ch := b,
       br_b_id := b_id b, br_b_active := True, br_b_next_rp := (rp + 1) mod br_rp_count (br\<lparr>br_credit_return_fifo := cq, br_wr_order_guard := g, br_b_active := False\<rparr>)\<rparr>"
    then show thesis
      by (intro fetch [OF False c _ _ _ br' [simplified]]) simp_all
  qed
qed

lemma r_threadE:
  assumes "r_channel_thread ready br = Inr br'"
  obtains (keep) "br_r_active br" "\<not> ready" "br' = br"
  | (none) cq g where "\<not> (br_r_active br \<and> \<not> ready)" "returned (br_credit_return_fifo br) cq"
    "br' = br\<lparr>br_credit_return_fifo := cq, br_rd_order_guard := g, br_r_active := False\<rparr>"
  | (fetch) cq g rp msg q r nx k where "\<not> (br_r_active br \<and> \<not> ready)" "returned (br_credit_return_fifo br) cq"
    "rp = k mod br_rp_count br" "nb_read (br_rdata_fifo br rp) = (Some msg, q)" "decode_read_data msg = Some r"
    "br' = br\<lparr>br_credit_return_fifo := cq, br_rd_order_guard := g, br_rdata_fifo := (br_rdata_fifo br)(rp := q),
       br_r_msg := msg, br_r_ch := r, br_r_id := r_id r, br_r_last := r_last r, br_r_active := True,
       br_r_next_rp := nx\<rparr>"
proof (cases "br_r_active br \<and> \<not> ready")
  case True
  with assms have "br' = br"
    by (simp add: r_channel_thread_def)
  with True show thesis
    by (intro keep) simp_all
next
  case False
  obtain cq g where c: "returned (br_credit_return_fifo br) cq" and
    f: "r_fetch [0..<br_rp_count br] (br\<lparr>br_credit_return_fifo := cq, br_rd_order_guard := g, br_r_active := False\<rparr>) = Inr br'"
  proof (cases "br_r_active br")
    case True
    with assms False obtain br1 where one: "r_complete br = Inr br1"
      and two: "(if \<not> br_r_active br1 then r_fetch [0..<br_rp_count br1] br1 else Inr br1) = Inr br'"
      by (auto simp: r_channel_thread_def rbind_eq_Inr simp del: r_fetch.simps)
    from one obtain cq g where "returned (br_credit_return_fifo br) cq"
      and br1: "br1 = br\<lparr>br_credit_return_fifo := cq, br_rd_order_guard := g, br_r_active := False\<rparr>"
      by (auto simp: r_complete_def returned_def Let_def split: prod.splits)
    with two show thesis
      by (intro that) simp_all
  next
    case False
    have "br = br\<lparr>br_credit_return_fifo := br_credit_return_fifo br, br_rd_order_guard := br_rd_order_guard br,
        br_r_active := False\<rparr>"
      using False by simp
    moreover have "r_fetch [0..<br_rp_count br] br = Inr br'"
      using assms False by (simp add: r_channel_thread_def)
    ultimately show thesis
      using that [of "br_credit_return_fifo br" "br_rd_order_guard br"] by (simp add: returned_def)
  qed
  from r_fetch_cases [OF f] show thesis
  proof (elim disjE exE conjE)
    assume "br' = br\<lparr>br_credit_return_fifo := cq, br_rd_order_guard := g, br_r_active := False\<rparr>"
    with False c show thesis
      by (rule none)
  next
    fix k rp msg q r
    assume "rp = (br_r_next_rp (br\<lparr>br_credit_return_fifo := cq, br_rd_order_guard := g, br_r_active := False\<rparr>) + k)
        mod br_rp_count (br\<lparr>br_credit_return_fifo := cq, br_rd_order_guard := g, br_r_active := False\<rparr>)"
      "nb_read (br_rdata_fifo (br\<lparr>br_credit_return_fifo := cq, br_rd_order_guard := g, br_r_active := False\<rparr>) rp)
        = (Some msg, q)" "decode_read_data msg = Some r"
      and br': "br' = (br\<lparr>br_credit_return_fifo := cq, br_rd_order_guard := g, br_r_active := False\<rparr>)\<lparr>br_rdata_fifo := (br_rdata_fifo (br\<lparr>br_credit_return_fifo := cq, br_rd_order_guard := g, br_r_active := False\<rparr>))(rp := q), br_r_msg := msg, br_r_ch := r,
       br_r_id := r_id r, br_r_last := r_last r, br_r_active := True, br_r_next_rp := (rp + 1) mod br_rp_count (br\<lparr>br_credit_return_fifo := cq, br_rd_order_guard := g, br_r_active := False\<rparr>)\<rparr>"
    then show thesis
      by (intro fetch [OF False c _ _ _ br' [simplified]]) simp_all
  qed
qed

section \<open>Space for accepted beats\<close>

definition br_space :: "Axi2Flit \<Rightarrow> bool" where
  "br_space br \<longleftrightarrow> fifo_inv (br_write_route_fifo br) \<and> fifo_inv (br_credit_return_fifo br)
     \<and> (\<forall>rp. fifo_inv (br_wreq_fifo br rp) \<and> fifo_inv (br_wdata_fifo br rp) \<and> fifo_inv (br_rreq_fifo br rp))
     \<and> (br_aw_ready br \<longrightarrow> 0 < num_free (br_write_route_fifo br) \<and> (\<forall>rp<br_rp_count br. 0 < num_free (br_wreq_fifo br rp)))
     \<and> (br_w_ready br \<longrightarrow> br_have_route br \<and> 0 < num_free (br_wdata_fifo br (unat (wr_rp (br_route br)))))
     \<and> (br_ar_ready br \<longrightarrow> (\<forall>rp<br_rp_count br. 0 < num_free (br_rreq_fifo br rp)))"

lemma planes_have_space_iff: "planes_have_space n q \<longleftrightarrow> (\<forall>rp<n. 0 < num_free (q rp))"
  by (auto simp: planes_have_space_def list_all_iff)

lemma space_aw:
  assumes "br_space br" and t: "aw_channel_thread v aw br = Inr br'"
  shows "br_space br'"
proof -
  note r = aw_thread_ready [OF t]
  from t show ?thesis
  proof (cases rule: aw_threadE)
    case idle
    then obtain b where "br' = br\<lparr>br_aw_ready := b\<rparr>"
      by blast
    with assms(1) r show ?thesis
      by (simp add: br_space_def planes_have_space_iff)
  next
    case (accept rp q qr g)
    from accept(7) obtain b where br': "br' = br\<lparr>br_wr_order_guard := g, br_wreq_fifo := (br_wreq_fifo br)(unat rp := q),
        br_write_route_fifo := qr, br_aw_ready := b\<rparr>"
      by blast
    have "fifo_inv q" "fifo_inv qr"
      using assms(1) nb_write_True(2) [OF accept(5)] nb_write_True(2) [OF accept(6)] by (simp_all add: br_space_def)
    with assms(1) r show ?thesis
      by (simp add: br' br_space_def planes_have_space_iff)
  qed
qed

lemma space_ar:
  assumes "br_space br" and t: "ar_channel_thread v ar br = Inr br'"
  shows "br_space br'"
proof -
  note r = ar_thread_ready [OF t]
  from t show ?thesis
  proof (cases rule: ar_threadE)
    case idle
    then obtain b where "br' = br\<lparr>br_ar_ready := b\<rparr>"
      by blast
    with assms(1) r show ?thesis
      by (simp add: br_space_def planes_have_space_iff)
  next
    case (accept rp q g)
    from accept(6) obtain b where br': "br' = br\<lparr>br_rd_order_guard := g,
        br_rreq_fifo := (br_rreq_fifo br)(unat rp := q), br_ar_ready := b\<rparr>"
      by blast
    have "fifo_inv q"
      using assms(1) nb_write_True(2) [OF accept(5)] by (simp add: br_space_def)
    with assms(1) r show ?thesis
      by (simp add: br' br_space_def planes_have_space_iff)
  qed
qed

lemma w_routeE:
  obtains (kept) "br_have_route br" "w_route br = br"
  | (next_route) r q where "\<not> br_have_route br" "nb_read (br_write_route_fifo br) = (Some r, q)"
    "w_route br = br\<lparr>br_write_route_fifo := q, br_have_route := True, br_route := r\<rparr>"
  | (no_route) "\<not> br_have_route br" "w_route br = br"
proof (cases "br_have_route br")
  case True
  then show thesis
    by (intro kept) (simp_all add: w_route_def)
next
  case False
  obtain m q where r: "nb_read (br_write_route_fifo br) = (m, q)"
    by fastforce
  show thesis
  proof (cases m)
    case None
    then have "w_route br = br"
      using False r sc_fifo.rd_none [of "br_write_route_fifo br" q] by (simp add: w_route_def)
    with False show thesis
      by (rule no_route)
  next
    case (Some x)
    with r False show thesis
      by (intro next_route) (simp_all add: w_route_def)
  qed
qed

text \<open>The part of the invariant the W thread relies on before it recomputes its ready.\<close>

definition br_space0 :: "Axi2Flit \<Rightarrow> bool" where
  "br_space0 br \<longleftrightarrow> br_space (br\<lparr>br_w_ready := False\<rparr>)"

lemma space0I: "br_space br \<Longrightarrow> br_space0 br"
  by (simp add: br_space0_def br_space_def)

lemma space_w:
  assumes "br_space br" and "w_channel_thread v w br = Inr br'"
  shows "br_space br'"
  using assms(2)
proof (cases rule: w_threadE)
  case (1 br1)
  have s1: "br_space0 br1"
  proof (cases "br_w_ready br \<and> v")
    case True
    with 1 have "w_accept w br = Inr br1"
      by simp
    then obtain q where w: "nb_write (w_message w (wr_rp (br_route br))) (br_wdata_fifo br (unat (wr_rp (br_route br)))) = (True, q)"
      and br1: "br1 = br\<lparr>br_wdata_fifo := (br_wdata_fifo br)(unat (wr_rp (br_route br)) := q),
        br_route := (br_route br)\<lparr>wr_beats_remaining := wr_beats_remaining (br_route br) - 1\<rparr>,
        br_have_route := (wr_beats_remaining (br_route br) \<noteq> 1 \<and> br_have_route br)\<rparr>"
      by (rule w_acceptE)
    have "fifo_inv q"
      using assms(1) nb_write_True(2) [OF w] by (simp add: br_space_def)
    with assms(1) show ?thesis
      by (simp add: br1 br_space0_def br_space_def)
  next
    case False
    with 1 assms(1) show ?thesis
      using space0I by simp
  qed
  have "br_space0 (w_route br1)"
  proof (rule w_routeE [of br1])
    fix r q
    assume r: "nb_read (br_write_route_fifo br1) = (Some r, q)"
      "w_route br1 = br1\<lparr>br_write_route_fifo := q, br_have_route := True, br_route := r\<rparr>"
    with s1 nb_read_only [OF r(1)] show "br_space0 (w_route br1)"
      by (simp add: br_space0_def br_space_def only_read_def)
  qed (use s1 in simp_all)
  with 1(2) show ?thesis
    by (simp add: br_space0_def br_space_def)
qed

lemma returned_inv: "returned q q' \<Longrightarrow> fifo_inv q \<Longrightarrow> fifo_inv q'"
  by (auto simp: returned_def dest: nb_write_True(2))

lemma space_b: "br_space br \<Longrightarrow> b_channel_thread ready br = Inr br' \<Longrightarrow> br_space br'"
  by (erule b_threadE) (simp_all add: br_space_def returned_inv)

lemma space_r: "br_space br \<Longrightarrow> r_channel_thread ready br = Inr br' \<Longrightarrow> br_space br'"
  by (erule r_threadE) (simp_all add: br_space_def returned_inv)

lemma space_pack:
  assumes s: "br_space br" and "packer_thread ready br = Inr br'"
  shows "br_space br'"
proof -
  from assms(2) obtain pk p where c: "pk_cycle ready (br_packer br, packer_ports br) = Inr (pk, p)"
    and br': "br' = br\<lparr>br_packer := pk, br_rreq_fifo := pp_rreq_in p, br_wreq_fifo := pp_wreq_in p,
              br_wdata_fifo := pp_wdata_in p, br_credit_update_fifo := pp_credit_update_in p,
              br_credit_return_fifo := pp_credit_return_in p\<rparr>"
    by (auto simp: packer_thread_def rbind_eq_Inr)
  note rd = pk_cycle_read [OF c]
  have "only_read (br_rreq_fifo br i) (pp_rreq_in p i)" "only_read (br_wreq_fifo br i) (pp_wreq_in p i)"
    "only_read (br_wdata_fifo br i) (pp_wdata_in p i)" for i
    using rd(1) [of QRreq i] rd(1) [of QWreq i] rd(1) [of QWdata i] by (simp_all add: packer_ports_def)
  moreover have "fifo_inv (pp_credit_return_in p)"
    using s rd(3) read_all_inv [of "br_credit_return_fifo br"] by (simp add: br_space_def packer_ports_def)
  ultimately show ?thesis
    using s by (simp add: br' br_space_def only_read_def)
qed

lemma space_unpack: "br_space br \<Longrightarrow> unpacker_thread ft br = Inr br' \<Longrightarrow> br_space br'"
  by (auto simp: unpacker_thread_def rbind_eq_Inr br_space_def)

lemma space_process: "br_space br \<Longrightarrow> run_process i P br = Inr br' \<Longrightarrow> br_space br'"
  by (cases P) (auto dest: space_aw space_w space_ar space_b space_r space_pack space_unpack)

lemma space_update: "br_space br \<Longrightarrow> br_space (update_channels br)"
  by (auto simp: br_space_def update_channels_def sc_fifo.up_ok intro!: sc_fifo.space_kept_up)

end
