(* ===== verification/Bridge_System.thy ===== *)
theory Bridge_System
  imports Bridge_Correct
begin

text \<open>
  The history of a run of the bridge and the invariant that relates it to the state; the properties
  of the bridge as a whole.
\<close>

section \<open>Runs with history\<close>

record br_sys =
  by_br :: Axi2Flit
  by_aw :: "AxChannel list"
  by_w :: "WChannel list"
  by_ar :: "AxChannel list"
  by_sent :: "AouFlit list"
  by_in :: "AouFlit list"
  by_b :: "(AouMessage \<times> BChannel) list"
  by_r :: "(AouMessage \<times> RChannel) list"

text \<open>What one process adds to the history; a response counts when it is put on its channel.\<close>

definition note_run :: "br_in \<Rightarrow> br_process \<Rightarrow> Axi2Flit \<Rightarrow> br_sys \<Rightarrow> br_sys" where
  "note_run i P br' y = (let br = by_br y; y = y\<lparr>by_br := br'\<rparr> in case P of
     P_AW \<Rightarrow> y\<lparr>by_aw := by_aw y @ (if br_aw_ready br \<and> bi_aw_valid i then [bi_aw i] else [])\<rparr>
   | P_W \<Rightarrow> y\<lparr>by_w := by_w y @ (if br_w_ready br \<and> bi_w_valid i then [bi_w i] else [])\<rparr>
   | P_AR \<Rightarrow> y\<lparr>by_ar := by_ar y @ (if br_ar_ready br \<and> bi_ar_valid i then [bi_ar i] else [])\<rparr>
   | P_B \<Rightarrow> y\<lparr>by_b := by_b y @ (if br_b_active br' \<and> \<not> (br_b_active br \<and> \<not> bi_b_ready i)
                then [(br_b_msg br', br_b_ch br')] else [])\<rparr>
   | P_R \<Rightarrow> y\<lparr>by_r := by_r y @ (if br_r_active br' \<and> \<not> (br_r_active br \<and> \<not> bi_r_ready i)
                then [(br_r_msg br', br_r_ch br')] else [])\<rparr>
   | P_Pack \<Rightarrow> y\<lparr>by_sent := by_sent y @ (if bi_flit_ready i then out_reg (br_packer br) else [])\<rparr>
   | P_Unpack \<Rightarrow> y\<lparr>by_in := by_in y @ (if un_takes (bi_flit_in i) (br_unpacker br)
                then [ft_flit (bi_flit_in i)] else [])\<rparr>)"

definition br_init :: "Axi2Flit \<Rightarrow> br_sys" where
  "br_init br = \<lparr>by_br = br_start br, by_aw = [], by_w = [], by_ar = [], by_sent = [], by_in = [], by_b = [], by_r = []\<rparr>"

text \<open>The arrays of a write beat have the length their C++ type fixes.\<close>

inductive br_step :: "br_sys \<Rightarrow> br_sys \<Rightarrow> bool" where
  br_run: "w_ok (bi_w i) \<Longrightarrow> run_process i P (by_br y) = Inr br' \<Longrightarrow> br_step y (note_run i P br' y)"
| br_update: "br_step y (y\<lparr>by_br := update_channels (by_br y)\<rparr>)"

section \<open>What should reach the link\<close>

definition plane :: "nat \<Rightarrow> AxChannel \<Rightarrow> nat" where
  "plane n ax = unat (ax_qos ax) mod n"

text \<open>The planes of the write beats, in the order of the write addresses.\<close>

definition beat_planes :: "nat \<Rightarrow> AxChannel list \<Rightarrow> nat list" where
  "beat_planes n aws = concat (map (\<lambda>aw. replicate (unat (ax_len aw) + 1) (plane n aw)) aws)"

definition expected :: "nat \<Rightarrow> AxChannel list \<Rightarrow> WChannel list \<Rightarrow> AxChannel list \<Rightarrow> qclass \<Rightarrow> nat \<Rightarrow> AouMessage list" where
  "expected n aws ws ars q rp = (case q of
     QRreq \<Rightarrow> map (\<lambda>ar. build_read_req ar (of_nat rp)) (filter (\<lambda>ar. plane n ar = rp) ars)
   | QWreq \<Rightarrow> map (\<lambda>aw. build_write_req aw (of_nat rp)) (filter (\<lambda>aw. plane n aw = rp) aws)
   | QWdata \<Rightarrow> map (\<lambda>(w, r). w_message w (of_nat r)) (filter (\<lambda>(w, r). r = rp) (zip ws (beat_planes n aws))))"

definition route_planes :: "WriteRoute \<Rightarrow> nat list" where
  "route_planes r = replicate (wr_beats_remaining r) (unat (wr_rp r))"

definition route_left :: "Axi2Flit \<Rightarrow> nat list" where
  "route_left br = (if br_have_route br then route_planes (br_route br) else [])
     @ concat (map route_planes (fifo_list (br_write_route_fifo br)))"

definition route_rel :: "br_sys \<Rightarrow> bool" where
  "route_rel y \<longleftrightarrow> length (by_w y) \<le> length (beat_planes (br_rp_count (by_br y)) (by_aw y))
     \<and> drop (length (by_w y)) (beat_planes (br_rp_count (by_br y)) (by_aw y)) = route_left (by_br y)"

definition tx_rel :: "br_sys \<Rightarrow> bool" where
  "tx_rel y \<longleftrightarrow> pk_rel (expected (br_rp_count (by_br y)) (by_aw y) (by_w y) (by_ar y)) (by_sent y)
     (br_packer (by_br y)) (packer_ports (by_br y))"

definition responses :: "(AouMessage \<times> BChannel) list \<Rightarrow> (AouMessage \<times> RChannel) list \<Rightarrow> rclass \<Rightarrow> nat \<Rightarrow>
    AouMessage list" where
  "responses bs rs c rp = filter (for_resp c rp) (case c of WResp \<Rightarrow> map fst bs | RData \<Rightarrow> map fst rs)"

definition rx_rel :: "br_sys \<Rightarrow> bool" where
  "rx_rel y \<longleftrightarrow> (\<exists>cs. un_rel (by_in y) (responses (by_b y) (by_r y)) cs (br_unpacker (by_br y)) (unpacker_ports (by_br y)))
     \<and> list_all (\<lambda>(m, b). decode_write_resp m = Some b) (by_b y)
     \<and> list_all (\<lambda>(m, r). decode_read_data m = Some r) (by_r y)"

definition br_shape :: "Axi2Flit \<Rightarrow> bool" where
  "br_shape br \<longleftrightarrow> 1 \<le> br_rp_count br \<and> br_rp_count br \<le> 4 \<and> pk_rp_count (br_packer br) = br_rp_count br
     \<and> un_rp_count (br_unpacker br) = br_rp_count br"

definition br_inv :: "br_sys \<Rightarrow> bool" where
  "br_inv y \<longleftrightarrow> br_shape (by_br y) \<and> br_space (by_br y) \<and> route_rel y \<and> tx_rel y \<and> rx_rel y"

lemma plane_rp:
  assumes "br_shape br"
  shows "unat (map_qos_to_rp br (ax_qos ax)) = plane (br_rp_count br) ax"
    "map_qos_to_rp br (ax_qos ax) = of_nat (plane (br_rp_count br) ax)" "plane (br_rp_count br) ax < br_rp_count br"
proof -
  show "plane (br_rp_count br) ax < br_rp_count br"
    using assms by (simp add: plane_def br_shape_def)
  then have "plane (br_rp_count br) ax < 2 ^ LENGTH(8)"
    using assms by (simp add: br_shape_def)
  then show "unat (map_qos_to_rp br (ax_qos ax)) = plane (br_rp_count br) ax"
    by (simp add: map_qos_to_rp_def plane_def unat_of_nat)
  show "map_qos_to_rp br (ax_qos ax) = of_nat (plane (br_rp_count br) ax)"
    by (simp add: map_qos_to_rp_def plane_def)
qed

lemma beat_planes_append: "beat_planes n (aws @ bws) = beat_planes n aws @ beat_planes n bws"
  by (simp add: beat_planes_def)

section \<open>Writing a message to a transmit queue\<close>

lemma pk_rel_write:
  assumes rel: "pk_rel A fs s p" and m: "qmsg q rp m"
    and w: "nb_write m (port_of q p rp) = (True, f)"
    and A': "\<And>q' rp'. rp' < pk_rp_count s \<Longrightarrow> A' q' rp' = A q' rp' @ (if q' = q \<and> rp' = rp then [m] else [])"
  shows "pk_rel A' fs s (set_port q rp f p)"
proof -
  have pipe: "pipe q' rp' s (set_port q rp f p) = pipe q' rp' s p @ (if q' = q \<and> rp' = rp then [m] else [])" for q' rp'
    using nb_write_True(1) [OF w] by (simp add: pipe_set_port) (simp add: pipe_def)
  have "pk_ok s (set_port q rp f p)"
    using rel m by (auto simp: pk_ok_def pk_rel_def pipe)
  with rel show ?thesis
    by (auto simp: pk_rel_def pipe A')
qed

lemma pk_rel_cong:
  assumes "pk_rel A fs s p" and "\<And>q rp. rp < pk_rp_count s \<Longrightarrow> A' q rp = A q rp"
    and "\<And>q rp. fifo_list (port_of q p' rp) = fifo_list (port_of q p rp)"
  shows "pk_rel A' fs s p'"
proof -
  have "pipe q rp s p' = pipe q rp s p" for q rp
    using assms(3) by (simp add: pipe_def)
  with assms(1,2) show ?thesis
    by (auto simp: pk_rel_def pk_ok_def)
qed

lemma rp_and_3: "rp < 4 \<Longrightarrow> (of_nat rp :: u8) AND 3 = of_nat rp"
  by (cases "rp = 0"; cases "rp = 1"; cases "rp = 2"; cases "rp = 3") simp_all

lemma request_qmsg:
  assumes "rp < 4"
  shows "qmsg QWreq rp (build_write_req ax (of_nat rp))" "qmsg QRreq rp (build_read_req ax (of_nat rp))"
    "w_ok w \<Longrightarrow> qmsg QWdata rp (w_message w (of_nat rp))"
  unfolding qmsg_def w_message_def
  by (auto simp: wf_simps)
     (auto simp: in_queue_def build_write_req_def build_read_req_def build_req_def
      build_write_data_def build_write_data_full_def rp_and_3 assms)

section \<open>The processes keep the invariant\<close>

lemma zip_short: "length xs \<le> length ys \<Longrightarrow> zip xs (ys @ zs) = zip xs ys"
  by (simp add: zip_append2)

lemma zip_snoc:
  assumes "drop (length xs) ys = y # rs"
  shows "zip (xs @ [x]) ys = zip xs ys @ [(x, y)]"
proof -
  have len: "length xs < length ys"
    using assms by (metis drop_eq_Nil list.distinct(1) not_le)
  have ys: "ys = take (length xs) ys @ y # rs"
    using assms by (metis append_take_drop_id)
  have "zip (xs @ [x]) (take (length xs) ys @ y # rs) = zip xs (take (length xs) ys) @ [(x, y)]"
    using len by (subst zip_append) simp_all
  also have "zip xs (take (length xs) ys) = zip xs (take (length xs) ys @ y # rs)"
    using len by (intro zip_short [symmetric]) simp
  finally show ?thesis
    using ys by simp
qed

lemma expected_aw:
  "expected n (aws @ [aw]) ws ars q rp = expected n aws ws ars q rp
     @ (if q = QWreq \<and> rp = plane n aw then [build_write_req aw (of_nat rp)] else [])"
  if "length ws \<le> length (beat_planes n aws)"
  using that by (cases q) (auto simp: expected_def beat_planes_append zip_short)

lemma expected_ar:
  "expected n aws ws (ars @ [ar]) q rp = expected n aws ws ars q rp
     @ (if q = QRreq \<and> rp = plane n ar then [build_read_req ar (of_nat rp)] else [])"
  by (cases q) (auto simp: expected_def)

lemma expected_w:
  assumes "drop (length ws) (beat_planes n aws) = r # rs"
  shows "expected n aws (ws @ [w]) ars q rp = expected n aws ws ars q rp
     @ (if q = QWdata \<and> rp = r then [w_message w (of_nat rp)] else [])"
  by (cases q) (auto simp: expected_def zip_snoc [OF assms])

lemma set_packer_port:
  "set_port QWreq rp f (packer_ports br) = packer_ports (br\<lparr>br_wreq_fifo := (br_wreq_fifo br)(rp := f)\<rparr>)"
  "set_port QRreq rp f (packer_ports br) = packer_ports (br\<lparr>br_rreq_fifo := (br_rreq_fifo br)(rp := f)\<rparr>)"
  "set_port QWdata rp f (packer_ports br) = packer_ports (br\<lparr>br_wdata_fifo := (br_wdata_fifo br)(rp := f)\<rparr>)"
  by (simp_all add: set_port_def packer_ports_def)

lemma inv_aw:
  assumes inv: "br_inv y" and t: "aw_channel_thread (bi_aw_valid i) (bi_aw i) (by_br y) = Inr br'"
  shows "br_inv (note_run i P_AW br' y)"
  using t
proof (cases rule: aw_threadE)
  case idle
  from idle(2) obtain b where "br' = (by_br y)\<lparr>br_aw_ready := b\<rparr>"
    by blast
  moreover have "note_run i P_AW br' y = y\<lparr>by_br := br'\<rparr>"
    using idle(1) by (simp add: note_run_def)
  moreover have "br_space br'"
    using inv t space_aw by (auto simp: br_inv_def)
  ultimately show ?thesis
    using inv
    by (simp add: br_inv_def br_shape_def route_rel_def route_left_def tx_rel_def rx_rel_def
        packer_ports_def unpacker_ports_def)
next
  case (accept rp q qr g)
  let ?br = "by_br y" and ?n = "br_rp_count (by_br y)"
  from accept(7) obtain b where br': "br' = ?br\<lparr>br_wr_order_guard := g, br_wreq_fifo := (br_wreq_fifo ?br)(unat rp := q),
      br_write_route_fifo := qr, br_aw_ready := b\<rparr>"
    by blast
  have sh: "br_shape ?br" and rr: "route_rel y" and tx: "tx_rel y"
    using inv by (simp_all add: br_inv_def)
  note pl = plane_rp [OF sh, of "bi_aw i", folded accept(4)]
  have n4: "plane ?n (bi_aw i) < 4"
    using pl(3) sh by (simp add: br_shape_def)
  have y': "note_run i P_AW br' y = y\<lparr>by_br := br', by_aw := by_aw y @ [bi_aw i]\<rparr>"
    using accept(1,2) by (simp add: note_run_def)
  have "br_space br'"
    using inv t space_aw by (auto simp: br_inv_def)
  moreover have "route_rel (note_run i P_AW br' y)"
    using rr nb_write_True(1) [OF accept(6)] pl(1)
    unfolding y' by (simp add: br' route_rel_def route_left_def beat_planes_append)
       (simp add: beat_planes_def route_planes_def)
  moreover have "tx_rel (note_run i P_AW br' y)"
  proof -
    have "pk_rel (expected ?n (by_aw y @ [bi_aw i]) (by_w y) (by_ar y)) (by_sent y) (br_packer ?br)
        (set_port QWreq (plane ?n (bi_aw i)) q (packer_ports ?br))"
    proof (rule pk_rel_write)
      show "pk_rel (expected ?n (by_aw y) (by_w y) (by_ar y)) (by_sent y) (br_packer ?br) (packer_ports ?br)"
        using tx by (simp add: tx_rel_def)
      show "qmsg QWreq (plane ?n (bi_aw i)) (build_write_req (bi_aw i) rp)"
        unfolding pl(2) by (rule request_qmsg(1) [OF n4])
      show "nb_write (build_write_req (bi_aw i) rp) (port_of QWreq (packer_ports ?br) (plane ?n (bi_aw i))) = (True, q)"
        using accept(5) pl(1) by (simp add: packer_ports_def)
    qed (use rr pl(2) in \<open>simp add: expected_aw route_rel_def\<close>)
    then show ?thesis
      unfolding y' by (simp add: br' tx_rel_def set_packer_port pl(1)) (simp add: packer_ports_def)
  qed
  moreover have "rx_rel (note_run i P_AW br' y)"
    using inv unfolding y' by (simp add: br' br_inv_def rx_rel_def unpacker_ports_def)
  ultimately show ?thesis
    using sh unfolding br_inv_def y' by (simp add: br' br_shape_def)
qed

lemma inv_ar:
  assumes inv: "br_inv y" and t: "ar_channel_thread (bi_ar_valid i) (bi_ar i) (by_br y) = Inr br'"
  shows "br_inv (note_run i P_AR br' y)"
  using t
proof (cases rule: ar_threadE)
  case idle
  from idle(2) obtain b where "br' = (by_br y)\<lparr>br_ar_ready := b\<rparr>"
    by blast
  moreover have "note_run i P_AR br' y = y\<lparr>by_br := br'\<rparr>"
    using idle(1) by (simp add: note_run_def)
  moreover have "br_space br'"
    using inv t space_ar by (auto simp: br_inv_def)
  ultimately show ?thesis
    using inv
    by (simp add: br_inv_def br_shape_def route_rel_def route_left_def tx_rel_def rx_rel_def
        packer_ports_def unpacker_ports_def)
next
  case (accept rp q g)
  let ?br = "by_br y" and ?n = "br_rp_count (by_br y)"
  from accept(6) obtain b where br': "br' = ?br\<lparr>br_rd_order_guard := g, br_rreq_fifo := (br_rreq_fifo ?br)(unat rp := q),
      br_ar_ready := b\<rparr>"
    by blast
  have sh: "br_shape ?br" and tx: "tx_rel y"
    using inv by (simp_all add: br_inv_def)
  note pl = plane_rp [OF sh, of "bi_ar i", folded accept(4)]
  have n4: "plane ?n (bi_ar i) < 4"
    using pl(3) sh by (simp add: br_shape_def)
  have y': "note_run i P_AR br' y = y\<lparr>by_br := br', by_ar := by_ar y @ [bi_ar i]\<rparr>"
    using accept(1,2) by (simp add: note_run_def)
  have "br_space br'"
    using inv t space_ar by (auto simp: br_inv_def)
  moreover have "tx_rel (note_run i P_AR br' y)"
  proof -
    have "pk_rel (expected ?n (by_aw y) (by_w y) (by_ar y @ [bi_ar i])) (by_sent y) (br_packer ?br)
        (set_port QRreq (plane ?n (bi_ar i)) q (packer_ports ?br))"
    proof (rule pk_rel_write)
      show "pk_rel (expected ?n (by_aw y) (by_w y) (by_ar y)) (by_sent y) (br_packer ?br) (packer_ports ?br)"
        using tx by (simp add: tx_rel_def)
      show "qmsg QRreq (plane ?n (bi_ar i)) (build_read_req (bi_ar i) rp)"
        unfolding pl(2) by (rule request_qmsg(2) [OF n4])
      show "nb_write (build_read_req (bi_ar i) rp) (port_of QRreq (packer_ports ?br) (plane ?n (bi_ar i))) = (True, q)"
        using accept(5) pl(1) by (simp add: packer_ports_def)
    qed (use pl(2) in \<open>simp add: expected_ar\<close>)
    then show ?thesis
      unfolding y' by (simp add: br' tx_rel_def set_packer_port pl(1)) (simp add: packer_ports_def)
  qed
  ultimately show ?thesis
    using sh inv unfolding br_inv_def y'
    by (simp add: br' br_shape_def route_rel_def route_left_def rx_rel_def unpacker_ports_def)
qed

text \<open>The W thread in two parts: the accepted beat, then the next route.\<close>

lemma inv_w_accept:
  assumes inv: "br_inv y" and wok: "w_ok w" and rdy: "br_w_ready (by_br y)" and t: "w_accept w (by_br y) = Inr br1"
  shows "route_rel (y\<lparr>by_br := br1, by_w := by_w y @ [w]\<rparr>)" "tx_rel (y\<lparr>by_br := br1, by_w := by_w y @ [w]\<rparr>)"
    "br_shape br1" "rx_rel (y\<lparr>by_br := br1, by_w := by_w y @ [w]\<rparr>)"
proof -
  let ?br = "by_br y" and ?n = "br_rp_count (by_br y)" and ?rp = "wr_rp (br_route (by_br y))"
  from t obtain q where pos: "0 < wr_beats_remaining (br_route ?br)"
    and wr: "nb_write (w_message w ?rp) (br_wdata_fifo ?br (unat ?rp)) = (True, q)"
    and br1: "br1 = ?br\<lparr>br_wdata_fifo := (br_wdata_fifo ?br)(unat ?rp := q),
      br_route := (br_route ?br)\<lparr>wr_beats_remaining := wr_beats_remaining (br_route ?br) - 1\<rparr>,
      br_have_route := (wr_beats_remaining (br_route ?br) \<noteq> 1 \<and> br_have_route ?br)\<rparr>"
    by (rule w_acceptE)
  have sh: "br_shape ?br" and rr: "route_rel y" and tx: "tx_rel y" and hv: "br_have_route ?br"
    using inv rdy by (simp_all add: br_inv_def br_space_def)
  obtain k where k: "wr_beats_remaining (br_route ?br) = Suc k"
    using pos gr0_implies_Suc by blast
  define rest where "rest = replicate k (unat ?rp) @ concat (map route_planes (fifo_list (br_write_route_fifo ?br)))"
  have d: "drop (length (by_w y)) (beat_planes ?n (by_aw y)) = unat ?rp # rest"
    using rr hv k by (simp add: route_rel_def route_left_def route_planes_def rest_def)
  have len: "length (by_w y) < length (beat_planes ?n (by_aw y))"
    using d by (metis drop_eq_Nil list.distinct(1) not_le)
  have "drop (Suc (length (by_w y))) (beat_planes ?n (by_aw y)) = rest"
    using d by (metis drop_Suc list.sel(3) tl_drop)
  moreover have "route_left br1 = rest"
    using k hv by (cases k) (simp_all add: br1 route_left_def route_planes_def rest_def)
  ultimately show "route_rel (y\<lparr>by_br := br1, by_w := by_w y @ [w]\<rparr>)"
    using len by (simp add: route_rel_def) (simp add: br1)
  have "unat ?rp \<in> set (beat_planes ?n (by_aw y))"
    using d by (metis in_set_dropD list.set_intros(1))
  then have "unat ?rp < ?n"
    using plane_rp(3) [OF sh] by (auto simp: beat_planes_def)
  then have rp4: "unat ?rp < 4" "of_nat (unat ?rp) = ?rp"
    using sh by (simp_all add: br_shape_def)
  have "pk_rel (expected ?n (by_aw y) (by_w y @ [w]) (by_ar y)) (by_sent y) (br_packer ?br)
      (set_port QWdata (unat ?rp) q (packer_ports ?br))"
  proof (rule pk_rel_write)
    show "pk_rel (expected ?n (by_aw y) (by_w y) (by_ar y)) (by_sent y) (br_packer ?br) (packer_ports ?br)"
      using tx by (simp add: tx_rel_def)
    show "qmsg QWdata (unat ?rp) (w_message w ?rp)"
      using request_qmsg(3) [OF rp4(1) wok] rp4(2) by simp
    show "nb_write (w_message w ?rp) (port_of QWdata (packer_ports ?br) (unat ?rp)) = (True, q)"
      using wr by (simp add: packer_ports_def)
  qed (use rp4(2) in \<open>simp add: expected_w [OF d]\<close>)
  then show "tx_rel (y\<lparr>by_br := br1, by_w := by_w y @ [w]\<rparr>)"
    by (simp add: br1 tx_rel_def set_packer_port) (simp add: packer_ports_def)
  show "br_shape br1" "rx_rel (y\<lparr>by_br := br1, by_w := by_w y @ [w]\<rparr>)"
    using inv by (simp_all add: br1 br_inv_def br_shape_def rx_rel_def unpacker_ports_def)
qed

lemma route_left_w_route: "route_left (w_route br) = route_left br"
proof (rule w_routeE [of br])
  fix r q
  assume h: "\<not> br_have_route br" and n: "nb_read (br_write_route_fifo br) = (Some r, q)"
    and "w_route br = br\<lparr>br_write_route_fifo := q, br_have_route := True, br_route := r\<rparr>"
  moreover have "fifo_list (br_write_route_fifo br) = r # fifo_list q"
    using sc_fifo.rd_some [OF n] by simp
  ultimately show "route_left (w_route br) = route_left br"
    by (simp add: route_left_def)
qed simp_all

lemma w_route_fields:
  "br_rp_count (w_route br) = br_rp_count br" "br_packer (w_route br) = br_packer br"
  "packer_ports (w_route br) = packer_ports br" "br_unpacker (w_route br) = br_unpacker br"
  "unpacker_ports (w_route br) = unpacker_ports br"
  by (simp_all add: w_route_def packer_ports_def unpacker_ports_def split: prod.splits option.splits)

lemma w_ready_fields:
  "packer_ports (br\<lparr>br_w_ready := b\<rparr>) = packer_ports br" "unpacker_ports (br\<lparr>br_w_ready := b\<rparr>) = unpacker_ports br"
  "route_left (br\<lparr>br_w_ready := b\<rparr>) = route_left br"
  by (simp_all add: packer_ports_def unpacker_ports_def route_left_def)

lemma inv_w:
  assumes inv: "br_inv y" and wok: "w_ok (bi_w i)" and t: "w_channel_thread (bi_w_valid i) (bi_w i) (by_br y) = Inr br'"
  shows "br_inv (note_run i P_W br' y)"
proof -
  define ws where "ws = by_w y @ (if br_w_ready (by_br y) \<and> bi_w_valid i then [bi_w i] else [])"
  from t obtain br1 b where
    br1: "if br_w_ready (by_br y) \<and> bi_w_valid i then w_accept (bi_w i) (by_br y) = Inr br1 else br1 = by_br y"
    and br': "br' = (w_route br1)\<lparr>br_w_ready := b\<rparr>"
    by (cases rule: w_threadE) blast
  have "route_rel (y\<lparr>by_br := br1, by_w := ws\<rparr>) \<and> tx_rel (y\<lparr>by_br := br1, by_w := ws\<rparr>) \<and> br_shape br1
      \<and> rx_rel (y\<lparr>by_br := br1, by_w := ws\<rparr>)"
  proof (cases "br_w_ready (by_br y) \<and> bi_w_valid i")
    case True
    with br1 inv_w_accept [OF inv wok] show ?thesis
      by (simp add: ws_def)
  next
    case False
    with br1 inv show ?thesis
      by (auto simp: ws_def br_inv_def)
  qed
  moreover have "br_space br'"
    using inv t space_w by (auto simp: br_inv_def)
  moreover have "note_run i P_W br' y = y\<lparr>by_br := br', by_w := ws\<rparr>"
    by (simp add: note_run_def ws_def)
  ultimately show ?thesis
    by (simp add: br' br_inv_def br_shape_def route_rel_def tx_rel_def rx_rel_def w_route_fields w_ready_fields
        route_left_w_route)
qed

lemma un_rel_read:
  assumes rel: "un_rel fs outs cs u p" and rd: "nb_read (rport c p rp) = (Some m, f)" and rp: "rp < un_rp_count u"
  shows "for_resp c rp m" "un_rel fs (outs(c := (outs c)(rp := outs c rp @ [m]))) cs u (set_rport c rp f p)"
proof -
  have l: "fifo_list (rport c p rp) = m # fifo_list f"
    using sc_fifo.rd_some [OF rd] by simp
  from rel rp obtain D where "filter (for_resp c rp) D = outs c rp @ fifo_list (rport c p rp) @ u_rest c rp u"
    by (auto simp: un_rel_def)
  then have "m \<in> set (filter (for_resp c rp) D)"
    by (simp add: l)
  then show "for_resp c rp m"
    by simp
  show "un_rel fs (outs(c := (outs c)(rp := outs c rp @ [m]))) cs u (set_rport c rp f p)"
    using rel l by (auto simp: un_rel_def rport_set)
qed

lemma responses_snoc:
  "for_resp WResp rp m \<Longrightarrow> responses (bs @ [(m, b)]) rs = (responses bs rs)(WResp := (responses bs rs WResp)(rp := responses bs rs WResp rp @ [m]))"
  "for_resp RData rp m \<Longrightarrow> responses bs (rs @ [(m, r)]) = (responses bs rs)(RData := (responses bs rs RData)(rp := responses bs rs RData rp @ [m]))"
  by (auto simp: fun_eq_iff responses_def for_resp_def split: rclass.splits)

lemma set_unpacker_port:
  "set_rport WResp rp f (unpacker_ports br) = unpacker_ports (br\<lparr>br_wresp_fifo := (br_wresp_fifo br)(rp := f)\<rparr>)"
  "set_rport RData rp f (unpacker_ports br) = unpacker_ports (br\<lparr>br_rdata_fifo := (br_rdata_fifo br)(rp := f)\<rparr>)"
  by (simp_all add: set_rport_def unpacker_ports_def)

lemma tx_rel_credit:
  "pk_rel A fs s (packer_ports br) \<Longrightarrow> pk_rel A fs s (packer_ports (br\<lparr>br_credit_return_fifo := cq\<rparr>))"
  "pk_rel A fs s (packer_ports br) \<Longrightarrow> pk_rel A fs s (packer_ports (br\<lparr>br_credit_update_fifo := uq\<rparr>))"
proof -
  have e: "fifo_list (port_of q (packer_ports (br\<lparr>br_credit_return_fifo := cq\<rparr>)) rp) = fifo_list (port_of q (packer_ports br) rp)"
    "fifo_list (port_of q (packer_ports (br\<lparr>br_credit_update_fifo := uq\<rparr>)) rp) = fifo_list (port_of q (packer_ports br) rp)"
    for q rp
    by (cases q; simp add: packer_ports_def)+
  show "pk_rel A fs s (packer_ports br) \<Longrightarrow> pk_rel A fs s (packer_ports (br\<lparr>br_credit_return_fifo := cq\<rparr>))"
    by (erule pk_rel_cong) (simp_all add: e)
  show "pk_rel A fs s (packer_ports br) \<Longrightarrow> pk_rel A fs s (packer_ports (br\<lparr>br_credit_update_fifo := uq\<rparr>))"
    by (erule pk_rel_cong) (simp_all add: e)
qed

lemma inv_b:
  assumes inv: "br_inv y" and t: "b_channel_thread (bi_b_ready i) (by_br y) = Inr br'"
  shows "br_inv (note_run i P_B br' y)"
proof -
  have sp: "br_space br'"
    using inv t space_b by (auto simp: br_inv_def)
  have tx: "pk_rel (expected (br_rp_count (by_br y)) (by_aw y) (by_w y) (by_ar y)) (by_sent y)
      (br_packer (by_br y)) (packer_ports (by_br y))"
    using inv by (simp add: br_inv_def tx_rel_def)
  from t show ?thesis
  proof (cases rule: b_threadE)
    case keep
    then have "note_run i P_B br' y = y"
      by (simp add: note_run_def)
    with inv show ?thesis
      by simp
  next
    case (none cq g)
    have "note_run i P_B br' y = y\<lparr>by_br := br'\<rparr>"
      by (simp add: note_run_def none(3))
    with inv sp tx_rel_credit(1) [OF tx, of cq] show ?thesis
      by (simp add: none(3) br_inv_def br_shape_def route_rel_def route_left_def tx_rel_def rx_rel_def
          packer_ports_def unpacker_ports_def)
  next
    case (fetch cq g rp msg q b nx k)
    have y': "note_run i P_B br' y = y\<lparr>by_br := br', by_b := by_b y @ [(msg, b)]\<rparr>"
      using fetch(1) by (simp add: note_run_def fetch(6))
    have rp: "rp < un_rp_count (br_unpacker (by_br y))"
      using inv fetch(3) by (simp add: br_inv_def br_shape_def)
    from inv obtain cs where un: "un_rel (by_in y) (responses (by_b y) (by_r y)) cs (br_unpacker (by_br y)) (unpacker_ports (by_br y))"
      by (auto simp: br_inv_def rx_rel_def)
    have "nb_read (rport WResp (unpacker_ports (by_br y)) rp) = (Some msg, q)"
      using fetch(4) by (simp add: unpacker_ports_def)
    note r = un_rel_read [OF un this rp]
    have "rx_rel (note_run i P_B br' y)"
      using inv r(2) fetch(5) unfolding y' set_unpacker_port
      by (auto simp: responses_snoc(1) [OF r(1)] rx_rel_def fetch(6) br_inv_def unpacker_ports_def)
    with inv sp tx_rel_credit(1) [OF tx, of cq] show ?thesis
      unfolding y' by (simp add: fetch(6) br_inv_def br_shape_def route_rel_def route_left_def tx_rel_def
          packer_ports_def)
  qed
qed

lemma inv_r:
  assumes inv: "br_inv y" and t: "r_channel_thread (bi_r_ready i) (by_br y) = Inr br'"
  shows "br_inv (note_run i P_R br' y)"
proof -
  have sp: "br_space br'"
    using inv t space_r by (auto simp: br_inv_def)
  have tx: "pk_rel (expected (br_rp_count (by_br y)) (by_aw y) (by_w y) (by_ar y)) (by_sent y)
      (br_packer (by_br y)) (packer_ports (by_br y))"
    using inv by (simp add: br_inv_def tx_rel_def)
  from t show ?thesis
  proof (cases rule: r_threadE)
    case keep
    then have "note_run i P_R br' y = y"
      by (simp add: note_run_def)
    with inv show ?thesis
      by simp
  next
    case (none cq g)
    have "note_run i P_R br' y = y\<lparr>by_br := br'\<rparr>"
      by (simp add: note_run_def none(3))
    with inv sp tx_rel_credit(1) [OF tx, of cq] show ?thesis
      by (simp add: none(3) br_inv_def br_shape_def route_rel_def route_left_def tx_rel_def rx_rel_def
          packer_ports_def unpacker_ports_def)
  next
    case (fetch cq g rp msg q b nx k)
    have y': "note_run i P_R br' y = y\<lparr>by_br := br', by_r := by_r y @ [(msg, b)]\<rparr>"
      using fetch(1) by (simp add: note_run_def fetch(6))
    have rp: "rp < un_rp_count (br_unpacker (by_br y))"
      using inv fetch(3) by (simp add: br_inv_def br_shape_def)
    from inv obtain cs where un: "un_rel (by_in y) (responses (by_b y) (by_r y)) cs (br_unpacker (by_br y)) (unpacker_ports (by_br y))"
      by (auto simp: br_inv_def rx_rel_def)
    have "nb_read (rport RData (unpacker_ports (by_br y)) rp) = (Some msg, q)"
      using fetch(4) by (simp add: unpacker_ports_def)
    note r = un_rel_read [OF un this rp]
    have "rx_rel (note_run i P_R br' y)"
      using inv r(2) fetch(5) unfolding y' set_unpacker_port
      by (auto simp: responses_snoc(2) [OF r(1)] rx_rel_def fetch(6) br_inv_def unpacker_ports_def)
    with inv sp tx_rel_credit(1) [OF tx, of cq] show ?thesis
      unfolding y' by (simp add: fetch(6) br_inv_def br_shape_def route_rel_def route_left_def tx_rel_def
          packer_ports_def)
  qed
qed

lemma un_rel_drain:
  assumes "un_rel fs outs cs u p" and "read_all (uo_credit_update_out p) = (xs, q)"
  shows "un_rel fs outs (cs @ xs) u (p\<lparr>uo_credit_update_out := q\<rparr>)"
  using assms read_all_list [OF assms(2)] by (auto simp: un_rel_def rport_set)

lemma inv_pack:
  assumes inv: "br_inv y" and t: "packer_thread (bi_flit_ready i) (by_br y) = Inr br'"
  shows "br_inv (note_run i P_Pack br' y)"
proof -
  let ?br = "by_br y"
  from t obtain pk p where c: "pk_cycle (bi_flit_ready i) (br_packer ?br, packer_ports ?br) = Inr (pk, p)"
    and br': "br' = ?br\<lparr>br_packer := pk, br_rreq_fifo := pp_rreq_in p, br_wreq_fifo := pp_wreq_in p,
              br_wdata_fifo := pp_wdata_in p, br_credit_update_fifo := pp_credit_update_in p,
              br_credit_return_fifo := pp_credit_return_in p\<rparr>"
    by (auto simp: packer_thread_def rbind_eq_Inr)
  have y': "note_run i P_Pack br' y
      = y\<lparr>by_br := br', by_sent := by_sent y @ (if bi_flit_ready i then out_reg (br_packer ?br) else [])\<rparr>"
    by (simp add: note_run_def)
  have pp: "packer_ports br' = p"
    by (simp add: br' packer_ports_def)
  have tx0: "pk_rel (expected (br_rp_count ?br) (by_aw y) (by_w y) (by_ar y)) (by_sent y) (br_packer ?br) (packer_ports ?br)"
    using inv by (simp add: br_inv_def tx_rel_def)
  obtain s'' p'' where "pk_cycle (bi_flit_ready i) (br_packer ?br, packer_ports ?br) = Inr (s'', p'')"
    "pk_rel (expected (br_rp_count ?br) (by_aw y) (by_w y) (by_ar y))
      (by_sent y @ (if bi_flit_ready i then out_reg (br_packer ?br) else [])) s'' p''"
    by (rule pk_cycle_rel [OF tx0])
  with c have tx: "pk_rel (expected (br_rp_count ?br) (by_aw y) (by_w y) (by_ar y))
      (by_sent y @ (if bi_flit_ready i then out_reg (br_packer ?br) else [])) pk p"
    by simp
  obtain xs q where q: "read_all (br_credit_update_fifo ?br) = (xs, q)"
    by fastforce
  have up: "unpacker_ports br' = (unpacker_ports ?br)\<lparr>uo_credit_update_out := q\<rparr>"
    using pk_cycle_read(2) [OF c] q by (simp add: br' unpacker_ports_def packer_ports_def)
  have "\<exists>cs. un_rel (by_in y) (responses (by_b y) (by_r y)) cs (br_unpacker ?br) (unpacker_ports br')"
    using inv un_rel_drain [of _ _ _ _ "unpacker_ports ?br" xs q] q
    unfolding up br_inv_def rx_rel_def by (simp add: unpacker_ports_def) blast
  then have "rx_rel (note_run i P_Pack br' y)"
    using inv unfolding y' by (simp add: rx_rel_def br_inv_def) (simp add: br')
  moreover have "tx_rel (note_run i P_Pack br' y)"
    using tx unfolding y' by (simp add: tx_rel_def pp) (simp add: br' split: if_splits)
  moreover have "br_space br'"
    using inv t space_pack by (auto simp: br_inv_def)
  ultimately show ?thesis
    using inv pk_cycle_count [OF c] unfolding br_inv_def y'
    by (simp add: br' br_shape_def route_rel_def route_left_def)
qed

lemma inv_unpack:
  assumes inv: "br_inv y" and t: "unpacker_thread (bi_flit_in i) (by_br y) = Inr br'"
  shows "br_inv (note_run i P_Unpack br' y)"
proof -
  let ?br = "by_br y"
  from t obtain un p where c: "un_cycle (bi_flit_in i) (br_unpacker ?br, unpacker_ports ?br) = Inr (un, p)"
    and br': "br' = ?br\<lparr>br_unpacker := un, br_rdata_fifo := uo_rdata_out p, br_wresp_fifo := uo_wresp_out p,
              br_credit_update_fifo := uo_credit_update_out p\<rparr>"
    by (auto simp: unpacker_thread_def rbind_eq_Inr)
  have y': "note_run i P_Unpack br' y
      = y\<lparr>by_br := br', by_in := by_in y @ (if un_takes (bi_flit_in i) (br_unpacker ?br) then [ft_flit (bi_flit_in i)] else [])\<rparr>"
    by (simp add: note_run_def)
  have up: "unpacker_ports br' = p"
    by (simp add: br' unpacker_ports_def)
  from inv obtain cs where un: "un_rel (by_in y) (responses (by_b y) (by_r y)) cs (br_unpacker ?br) (unpacker_ports ?br)"
    by (auto simp: br_inv_def rx_rel_def)
  note r = un_cycle_rel [OF un c]
  have "rx_rel (note_run i P_Unpack br' y)"
    using inv r unfolding y' by (simp add: rx_rel_def br_inv_def up) (auto simp: br')
  moreover have "tx_rel (note_run i P_Unpack br' y)"
  proof -
    have "pk_rel (expected (br_rp_count ?br) (by_aw y) (by_w y) (by_ar y)) (by_sent y) (br_packer ?br)
        (packer_ports (?br\<lparr>br_credit_update_fifo := uo_credit_update_out p\<rparr>))"
      using inv by (intro tx_rel_credit(2)) (simp add: br_inv_def tx_rel_def)
    then show ?thesis
      unfolding y' by (simp add: tx_rel_def br' packer_ports_def)
  qed
  moreover have "br_space br'"
    using inv t space_unpack by (auto simp: br_inv_def)
  ultimately show ?thesis
    using inv r unfolding br_inv_def y'
    by (simp add: br' br_shape_def route_rel_def route_left_def)
qed

lemma inv_update:
  assumes inv: "br_inv y"
  shows "br_inv (y\<lparr>by_br := update_channels (by_br y)\<rparr>)"
proof -
  let ?br = "by_br y"
  have tx: "pk_rel (expected (br_rp_count ?br) (by_aw y) (by_w y) (by_ar y)) (by_sent y) (br_packer ?br)
      (packer_ports (update_channels ?br))"
    using inv unfolding br_inv_def tx_rel_def
  proof (elim conjE pk_rel_cong)
    show "fifo_list (port_of q (packer_ports (update_channels ?br)) rp) = fifo_list (port_of q (packer_ports ?br) rp)" for q rp
      by (cases q) (simp_all add: packer_ports_def update_channels_def sc_fifo.up_cont)
  qed simp
  have up: "fifo_list (rport c (unpacker_ports (update_channels ?br)) rp) = fifo_list (rport c (unpacker_ports ?br) rp)"
    "fifo_list (uo_credit_update_out (unpacker_ports (update_channels ?br))) = fifo_list (uo_credit_update_out (unpacker_ports ?br))"
    for c rp
    by (cases c; simp add: unpacker_ports_def update_channels_def sc_fifo.up_cont)+
  have "un_rel fs outs cs (br_unpacker ?br) (unpacker_ports (update_channels ?br))"
    if "un_rel fs outs cs (br_unpacker ?br) (unpacker_ports ?br)" for fs outs cs
    using that by (simp add: un_rel_def up)
  then have "rx_rel (y\<lparr>by_br := update_channels ?br\<rparr>)"
    using inv by (auto simp: br_inv_def rx_rel_def) (auto simp: update_channels_def)
  moreover have "tx_rel (y\<lparr>by_br := update_channels ?br\<rparr>)"
    using tx by (simp add: tx_rel_def) (simp add: update_channels_def)
  ultimately show ?thesis
    using inv space_update [of ?br]
    by (simp add: br_inv_def) (simp add: update_channels_def br_shape_def route_rel_def route_left_def sc_fifo.up_cont)
qed

lemma inv_process:
  assumes "br_inv y" and "w_ok (bi_w i)" and "run_process i P (by_br y) = Inr br'"
  shows "br_inv (note_run i P br' y)"
  using assms by (cases P) (simp_all add: inv_aw inv_w inv_ar inv_b inv_r inv_pack inv_unpack)

lemma w_accept_count: "w_accept w br = Inr br' \<Longrightarrow> br_rp_count br' = br_rp_count br"
  by (erule w_acceptE) simp

lemma process_count:
  assumes "run_process i P br = Inr br'"
  shows "br_rp_count br' = br_rp_count br"
proof (cases P)
  case P_AW
  with assms have "aw_channel_thread (bi_aw_valid i) (bi_aw i) br = Inr br'"
    by simp
  then show ?thesis
    by (auto simp: aw_channel_thread_def aw_accept_def rbind_eq_Inr Let_def split: if_splits option.splits prod.splits)
next
  case P_W
  with assms show ?thesis
    by (auto simp: w_channel_thread_def rbind_eq_Inr Let_def w_route_fields w_accept_count split: if_splits)
next
  case P_AR
  with assms have "ar_channel_thread (bi_ar_valid i) (bi_ar i) br = Inr br'"
    by simp
  then show ?thesis
    by (auto simp: ar_channel_thread_def ar_accept_def rbind_eq_Inr Let_def split: if_splits option.splits prod.splits)
next
  case P_B
  with assms have "b_channel_thread (bi_b_ready i) br = Inr br'"
    by simp
  then show ?thesis
    by (cases rule: b_threadE) simp_all
next
  case P_R
  with assms have "r_channel_thread (bi_r_ready i) br = Inr br'"
    by simp
  then show ?thesis
    by (cases rule: r_threadE) simp_all
qed (use assms in \<open>auto simp: packer_thread_def unpacker_thread_def rbind_eq_Inr\<close>)

lemma note_run_br [simp]: "by_br (note_run i P br' y) = br'"
  by (cases P) (simp_all add: note_run_def)

lemma br_step_inv:
  assumes "br_step y y'" and "br_inv y"
  shows "br_inv y' \<and> br_rp_count (by_br y') = br_rp_count (by_br y)"
  using assms(1)
proof cases
  case (br_run i P br')
  with assms(2) show ?thesis
    by (simp add: inv_process process_count)
next
  case br_update
  with assms(2) show ?thesis
    using inv_update by (simp add: update_channels_def)
qed

lemma br_init_inv:
  assumes "Axi2Flit_new n = Inr br"
  shows "br_inv (br_init br)" "br_rp_count (by_br (br_init br)) = n"
proof -
  from assms obtain pk un where pk: "FlitPacker_new n RX_RDATA_CREDITS_PER_RP RX_WRESP_CREDITS_PER_RP
      DEFAULT_FLUSH_TIMEOUT_CYCLES = Inr pk"
    and un: "FlitUnpacker_new n = Inr un" and n: "1 \<le> n" "n \<le> 4"
    and br: "br_rp_count br = n" "br_packer br = pk" "br_unpacker br = un"
      "packer_ports br = ports_new" "unpacker_ports br = un_ports_new"
      "br_write_route_fifo br = fifo_new (TX_REQ_FIFO_DEPTH_PER_RP * n)"
    by (auto simp: Axi2Flit_new_def rbind_eq_Inr packer_ports_def ports_new_def unpacker_ports_def un_ports_new_def
        aou_consts)
  let ?b = "br_start br"
  have st: "br_rp_count ?b = n" "br_packer ?b = pk_reset pk" "br_unpacker ?b = un_reset un" "packer_ports ?b = ports_new"
      "unpacker_ports ?b = un_ports_new" "br_write_route_fifo ?b = fifo_new (TX_REQ_FIFO_DEPTH_PER_RP * n)"
      "\<not> br_have_route ?b" "\<not> br_aw_ready ?b" "\<not> br_w_ready ?b" "\<not> br_ar_ready ?b"
    using br by (simp_all add: br_start_def aw_start_def w_start_def ar_start_def b_start_def r_start_def Let_def
        packer_ports_def unpacker_ports_def)
  note pk0 = sys_rel_init [OF pk] and un0 = un_rel_init [OF un]
  have e: "expected n [] [] [] = (\<lambda>_ _. [])" "responses [] [] = (\<lambda>_ _. [])"
    by (auto simp: fun_eq_iff expected_def responses_def split: qclass.splits rclass.splits)
  have "tx_rel (br_init br)"
    using pk0(1) by (simp add: tx_rel_def br_init_def st e sys_init_def)
  moreover have "rx_rel (br_init br)"
    using un0 by (auto simp: rx_rel_def br_init_def st e)
  moreover have "route_rel (br_init br)"
    by (simp add: route_rel_def br_init_def st route_left_def beat_planes_def)
  moreover have "br_rreq_fifo ?b = pp_rreq_in ports_new" "br_wreq_fifo ?b = pp_wreq_in ports_new"
    "br_wdata_fifo ?b = pp_wdata_in ports_new" "br_credit_return_fifo ?b = pp_credit_return_in ports_new"
    using st(4) by (simp_all add: packer_ports_def ports_new_def)
  then have "br_space ?b"
    using st by (simp add: br_space_def ports_new_def)
  moreover have "br_shape ?b"
    using n pk0(2) un0 by (simp add: br_shape_def st sys_init_def)
  ultimately show "br_inv (br_init br)"
    by (simp add: br_inv_def) (simp add: br_init_def)
  show "br_rp_count (by_br (br_init br)) = n"
    by (simp add: br_init_def st)
qed

lemma br_reachable:
  assumes "br_step\<^sup>*\<^sup>* (br_init br) y" and "Axi2Flit_new n = Inr br"
  shows "br_inv y \<and> br_rp_count (by_br y) = n"
  using assms(1)
proof (induction rule: rtranclp_induct)
  case base
  then show ?case
    using br_init_inv [OF assms(2)] by simp
next
  case (step y z)
  then show ?case
    using br_step_inv by simp
qed

section \<open>The assertions of the threads\<close>

text \<open>
  Within a clock edge every process runs once, in the order the simulator picks. The credit-return
  channel then receives at most one event from B and one from R, and the packer empties it every edge.
\<close>

definition writes_return :: "br_process \<Rightarrow> nat" where
  "writes_return P = (if P = P_B \<or> P = P_R then 1 else 0)"

text \<open>
  The reports a clock edge may end in, by the inputs of the edge and the bridge before it: an illegal AXI
  request, a WLAST that does not match the burst, a flit the stream decoder rejects, and a response whose
  fields do not decode, at the head of its channel.
\<close>

definition edge_report :: "br_in \<Rightarrow> Axi2Flit \<Rightarrow> cpp_error \<Rightarrow> bool" where
  "edge_report i br e \<longleftrightarrow>
     (\<exists>m. e = ScFatal m \<and> (bi_aw_valid i \<and> axi_request_error (bi_aw i) = Some m \<or> bi_ar_valid i \<and> axi_request_error (bi_ar i) = Some m))
     \<or> e = ScFatal ''AWLEN and WLAST disagree'' \<and> bi_w_valid i
         \<and> \<not> axi_wlast_matches (wr_beats_remaining (br_route br)) (w_last (bi_w i))
     \<or> e = ScFatal ''FlitUnpacker/Protocol: only FDId 0'' \<and> ft_valid (bi_flit_in i) \<and> flit_fdid (ft_flit (bi_flit_in i)) \<noteq> 0
     \<or> e = ScFatal ''FlitUnpacker/Protocol'' \<and> ft_valid (bi_flit_in i)
         \<and> (\<exists>x d. sd_consume (ft_flit (bi_flit_in i)) (un_stream_decoder (br_unpacker br)) = (Inl x, d))
     \<or> e = RuntimeError ''Axi2Flit: WriteResp'' \<and> (\<exists>rp m ms. ff_readable (br_wresp_fifo br rp) = m # ms \<and> decode_write_resp m = None)
     \<or> e = RuntimeError ''Axi2Flit: ReadData'' \<and> (\<exists>rp m ms. ff_readable (br_rdata_fifo br rp) = m # ms \<and> decode_read_data m = None)"

text \<open>What a report depends on is changed only by the process that makes it.\<close>

definition same_for :: "br_process \<Rightarrow> Axi2Flit \<Rightarrow> Axi2Flit \<Rightarrow> bool" where
  "same_for P br br' \<longleftrightarrow> (case P of P_W \<Rightarrow> br_route br' = br_route br
     | P_Unpack \<Rightarrow> un_stream_decoder (br_unpacker br') = un_stream_decoder (br_unpacker br)
     | P_B \<Rightarrow> (\<forall>rp. ff_readable (br_wresp_fifo br' rp) = ff_readable (br_wresp_fifo br rp))
     | P_R \<Rightarrow> (\<forall>rp. ff_readable (br_rdata_fifo br' rp) = ff_readable (br_rdata_fifo br rp))
     | _ \<Rightarrow> True)"

lemma same_for_refl: "same_for P br br"
  by (cases P) (simp_all add: same_for_def)

lemma same_for_trans: "same_for P a b \<Longrightarrow> same_for P b c \<Longrightarrow> same_for P a c"
  by (cases P) (simp_all add: same_for_def)

lemma nb_write_readable: "nb_write x q = (b, q') \<Longrightarrow> ff_readable q' = ff_readable q"
  by (auto simp: nb_write_def split: if_splits)

lemma route_loop_readable:
  "route_loop k ms j p = (j', p') \<Longrightarrow> ff_readable (rport c p' rp) = ff_readable (rport c p rp)"
proof (induction k arbitrary: j p)
  case (Suc k)
  then show ?case
    by (cases c) (auto simp: Let_def split: if_splits prod.splits dest!: nb_write_readable)
qed simp

lemma route_messages_readable:
  assumes "route_messages (u, p) = (u', p')"
  shows "ff_readable (rport c p' rp) = ff_readable (rport c p rp)"
proof -
  have "rport c (p\<lparr>uo_credit_update_out := q\<rparr>) rp = rport c p rp" for q by (cases c) simp_all
  then show ?thesis
    using assms by (auto simp: route_messages_def Let_def split: if_splits prod.splits dest!: route_loop_readable [of _ _ _ _ _ _ c rp])
qed

lemma un_cycle_readable:
  assumes "un_cycle ft (u, p) = Inr (u', p')"
  shows "ff_readable (rport c p' rp) = ff_readable (rport c p rp)"
proof -
  obtain u1 p1 where r1: "route_messages (u, p) = (u1, p1)" by fastforce
  from assms r1 have "ff_readable (rport c p' rp) = ff_readable (rport c p1 rp)"
    by (auto simp: un_cycle_def un_accept_def rbind_eq_Inr Let_def split: if_splits dest!: route_messages_readable [of _ _ _ _ c rp])
  then show ?thesis using route_messages_readable [OF r1] by simp
qed

lemma process_same:
  assumes run: "run_process i P br = Inr br'" and other: "P \<noteq> Q"
  shows "same_for Q br br'"
proof (cases P)
  case P_AW
  with run have "aw_channel_thread (bi_aw_valid i) (bi_aw i) br = Inr br'" by simp
  then show ?thesis
    by (cases Q) (auto simp: same_for_def aw_channel_thread_def aw_accept_def rbind_eq_Inr rassert_def Let_def
        split: if_splits option.splits prod.splits)
next
  case P_AR
  with run have "ar_channel_thread (bi_ar_valid i) (bi_ar i) br = Inr br'" by simp
  then show ?thesis
    by (cases Q) (auto simp: same_for_def ar_channel_thread_def ar_accept_def rbind_eq_Inr rassert_def Let_def
        split: if_splits option.splits prod.splits)
next
  case P_W
  have wr: "same_for Q br1 (w_route br1)" for br1
    using other P_W by (cases Q) (simp_all add: same_for_def w_route_def split: prod.splits option.splits)
  have wa: "w_accept w br = Inr br1 \<Longrightarrow> same_for Q br br1" for w br1
    using other P_W by (erule_tac w_acceptE) (cases Q; simp add: same_for_def)
  have rd: "same_for Q br1 (br2\<lparr>br_w_ready := b\<rparr>) = same_for Q br1 br2" for br1 br2 b
    by (cases Q) (simp_all add: same_for_def)
  from P_W run show ?thesis
    using same_for_trans [OF wa wr]
    by (auto simp: w_channel_thread_def rbind_eq_Inr Let_def rd wr split: if_splits)
next
  case P_B
  with run have "b_channel_thread (bi_b_ready i) br = Inr br'" by simp
  then show ?thesis
    using other P_B by (cases rule: b_threadE; cases Q) (simp_all add: same_for_def)
next
  case P_R
  with run have "r_channel_thread (bi_r_ready i) br = Inr br'" by simp
  then show ?thesis
    using other P_R by (cases rule: r_threadE; cases Q) (simp_all add: same_for_def)
next
  case P_Pack
  with run show ?thesis by (cases Q) (auto simp: same_for_def packer_thread_def rbind_eq_Inr)
next
  case P_Unpack
  with run obtain u p where c: "un_cycle (bi_flit_in i) (br_unpacker br, unpacker_ports br) = Inr (u, p)"
    and br': "br' = br\<lparr>br_unpacker := u, br_rdata_fifo := uo_rdata_out p, br_wresp_fifo := uo_wresp_out p,
      br_credit_update_fifo := uo_credit_update_out p\<rparr>"
    by (auto simp: unpacker_thread_def rbind_eq_Inr)
  have "ff_readable (uo_rdata_out p rp) = ff_readable (br_rdata_fifo br rp)"
    "ff_readable (uo_wresp_out p rp) = ff_readable (br_wresp_fifo br rp)" for rp
    using un_cycle_readable [OF c, of RData rp] un_cycle_readable [OF c, of WResp rp] by (simp_all add: unpacker_ports_def)
  then show ?thesis using other P_Unpack by (cases Q) (simp_all add: same_for_def br')
qed

lemma process_return:
  assumes "run_process i P br = Inr br'"
  shows "if P = P_Pack then br_credit_return_fifo br' = snd (read_all (br_credit_return_fifo br))
    else if P = P_B \<or> P = P_R then returned (br_credit_return_fifo br) (br_credit_return_fifo br')
    else br_credit_return_fifo br' = br_credit_return_fifo br"
proof (cases P)
  case P_AW
  with assms have "aw_channel_thread (bi_aw_valid i) (bi_aw i) br = Inr br'"
    by simp
  then have "br_credit_return_fifo br' = br_credit_return_fifo br"
    by (auto simp: aw_channel_thread_def aw_accept_def rbind_eq_Inr Let_def split: if_splits option.splits prod.splits)
  with P_AW show ?thesis
    by simp
next
  case P_W
  have wr: "br_credit_return_fifo (w_route br1) = br_credit_return_fifo br1" for br1
    by (simp add: w_route_def split: prod.splits option.splits)
  have wa: "w_accept w br = Inr br1 \<Longrightarrow> br_credit_return_fifo br1 = br_credit_return_fifo br" for w br1
    by (erule w_acceptE) simp
  from P_W assms show ?thesis
    by (auto simp: w_channel_thread_def rbind_eq_Inr Let_def wr wa split: if_splits)
next
  case P_AR
  with assms have "ar_channel_thread (bi_ar_valid i) (bi_ar i) br = Inr br'"
    by simp
  then have "br_credit_return_fifo br' = br_credit_return_fifo br"
    by (auto simp: ar_channel_thread_def ar_accept_def rbind_eq_Inr Let_def split: if_splits option.splits prod.splits)
  with P_AR show ?thesis
    by simp
next
  case P_B
  with assms have "b_channel_thread (bi_b_ready i) br = Inr br'"
    by simp
  then have "returned (br_credit_return_fifo br) (br_credit_return_fifo br')"
    by (cases rule: b_threadE) (simp_all add: returned_def)
  with P_B show ?thesis
    by simp
next
  case P_R
  with assms have "r_channel_thread (bi_r_ready i) br = Inr br'"
    by simp
  then have "returned (br_credit_return_fifo br) (br_credit_return_fifo br')"
    by (cases rule: r_threadE) (simp_all add: returned_def)
  with P_R show ?thesis
    by simp
next
  case P_Pack
  with assms obtain pk p where c: "pk_cycle (bi_flit_ready i) (br_packer br, packer_ports br) = Inr (pk, p)"
    and "br_credit_return_fifo br' = pp_credit_return_in p"
    by (auto simp: packer_thread_def rbind_eq_Inr)
  with P_Pack pk_cycle_read(3) [OF c] show ?thesis
    by (simp add: packer_ports_def)
qed (use assms in \<open>auto simp: unpacker_thread_def rbind_eq_Inr\<close>)

text \<open>The load of the channel within an edge: what was readable before it, and what it added.\<close>

definition ret_inv :: "nat \<Rightarrow> Axi2Flit \<Rightarrow> bool" where
  "ret_inv k br \<longleftrightarrow> (let q = br_credit_return_fifo br in ff_size q = 64
     \<and> length (ff_readable q) + ff_num_read q \<le> 2 \<and> length (ff_written q) \<le> k)"

lemma returned_eq:
  "returned q q' \<longleftrightarrow> q' = q \<or> (\<exists>c. 0 < num_free q \<and> q' = q\<lparr>ff_written := ff_written q @ [c]\<rparr>)"
  by (auto simp: returned_def nb_write_def)

lemma ret_inv_step:
  assumes "run_process i P br = Inr br'" and "ret_inv k br"
  shows "ret_inv (k + writes_return P) br'"
    "P = P_Pack \<or> ff_readable (br_credit_return_fifo br) = [] \<Longrightarrow> ff_readable (br_credit_return_fifo br') = []"
  using process_return [OF assms(1)] assms(2)
  by (auto simp: ret_inv_def writes_return_def read_all_eq returned_eq Let_def split: if_splits)

lemma nb_write_space: "0 < num_free q \<Longrightarrow> \<exists>q'. nb_write x q = (True, q')"
  by (simp add: nb_write_def)

lemma nb_read_head: "nb_read q = (Some m, q') \<Longrightarrow> \<exists>ms. ff_readable q = m # ms"
  by (auto simp: nb_read_def split: list.splits)

lemma b_fetch_reports:
  "b_fetch ks br = Inl e \<Longrightarrow>
    e = RuntimeError ''Axi2Flit: WriteResp'' \<and> (\<exists>rp m ms. ff_readable (br_wresp_fifo br rp) = m # ms \<and> decode_write_resp m = None)"
  by (induction ks) (fastforce simp: Let_def split: prod.splits option.splits dest: nb_read_head)+

lemma r_fetch_reports:
  "r_fetch ks br = Inl e \<Longrightarrow>
    e = RuntimeError ''Axi2Flit: ReadData'' \<and> (\<exists>rp m ms. ff_readable (br_rdata_fifo br rp) = m # ms \<and> decode_read_data m = None)"
  by (induction ks) (fastforce simp: Let_def split: prod.splits option.splits dest: nb_read_head)+

lemma process_reports:
  assumes inv: "br_inv y" and free: "0 < num_free (br_credit_return_fifo (by_br y))"
    and run: "run_process i P (by_br y) = Inl e" and same: "same_for P br0 (by_br y)"
  shows "edge_report i br0 e"
proof -
  let ?br = "by_br y"
  have sh: "br_shape ?br" and sp: "br_space ?br"
    using inv by (simp_all add: br_inv_def)
  note pl = plane_rp [OF sh]
  show ?thesis
  proof (cases P)
    case P_AW
    with run have r: "br_aw_ready ?br" "aw_accept (bi_aw i) ?br = Inl e" "bi_aw_valid i"
      by (auto simp: aw_channel_thread_def rbind_eq_Inl split: if_splits)
    obtain q qr where "nb_write (build_write_req (bi_aw i) (map_qos_to_rp ?br (ax_qos (bi_aw i))))
        (br_wreq_fifo ?br (plane (br_rp_count ?br) (bi_aw i))) = (True, q)"
      "nb_write \<lparr>wr_rp = map_qos_to_rp ?br (ax_qos (bi_aw i)), wr_beats_remaining = unat (ax_len (bi_aw i)) + 1\<rparr>
        (br_write_route_fifo ?br) = (True, qr)"
      using sp r(1) pl(3) by (meson br_space_def nb_write_space)
    with r(2,3) show ?thesis
      by (auto simp: aw_accept_def Let_def pl(1) rassert_def edge_report_def split: option.splits)
  next
    case P_AR
    with run have r: "br_ar_ready ?br" "ar_accept (bi_ar i) ?br = Inl e" "bi_ar_valid i"
      by (auto simp: ar_channel_thread_def rbind_eq_Inl split: if_splits)
    obtain q where "nb_write (build_read_req (bi_ar i) (map_qos_to_rp ?br (ax_qos (bi_ar i))))
        (br_rreq_fifo ?br (plane (br_rp_count ?br) (bi_ar i))) = (True, q)"
      using sp r(1) pl(3) by (meson br_space_def nb_write_space)
    with r(2,3) show ?thesis
      by (auto simp: ar_accept_def Let_def pl(1) rassert_def edge_report_def split: option.splits)
  next
    case P_W
    with run have r: "br_w_ready ?br" "w_accept (bi_w i) ?br = Inl e" "bi_w_valid i"
      by (auto simp: w_channel_thread_def Let_def rbind_eq_Inl split: if_splits)
    obtain q where "nb_write (w_message (bi_w i) (wr_rp (br_route ?br)))
        (br_wdata_fifo ?br (unat (wr_rp (br_route ?br)))) = (True, q)"
      using sp r(1) by (meson br_space_def nb_write_space)
    with r(2,3) same P_W show ?thesis
      unfolding w_accept_def Let_def w_message_def [symmetric]
      by (auto simp: rassert_def edge_report_def same_for_def split: if_splits)
  next
    case P_B
    obtain x where x: "b_complete ?br = Inr x" "br_wresp_fifo x = br_wresp_fifo ?br"
      using free by (auto simp: b_complete_def nb_write_def rassert_def)
    with run P_B have "\<exists>br1. b_fetch [0..<br_rp_count br1] br1 = Inl e \<and> br_wresp_fifo br1 = br_wresp_fifo ?br"
      by (auto simp: b_channel_thread_def rbind_eq_Inl simp del: b_fetch.simps split: if_splits)
    then obtain br1 where "b_fetch [0..<br_rp_count br1] br1 = Inl e" and f: "br_wresp_fifo br1 = br_wresp_fifo ?br" by blast
    from b_fetch_reports [OF this(1), unfolded f] same P_B show ?thesis
      unfolding edge_report_def same_for_def by simp
  next
    case P_R
    obtain x where x: "r_complete ?br = Inr x" "br_rdata_fifo x = br_rdata_fifo ?br"
      using free by (auto simp: r_complete_def nb_write_def rassert_def)
    with run P_R have "\<exists>br1. r_fetch [0..<br_rp_count br1] br1 = Inl e \<and> br_rdata_fifo br1 = br_rdata_fifo ?br"
      by (auto simp: r_channel_thread_def rbind_eq_Inl simp del: r_fetch.simps split: if_splits)
    then obtain br1 where "r_fetch [0..<br_rp_count br1] br1 = Inl e" and f: "br_rdata_fifo br1 = br_rdata_fifo ?br" by blast
    from r_fetch_reports [OF this(1), unfolded f] same P_R show ?thesis
      unfolding edge_report_def same_for_def by simp
  next
    case P_Pack
    have "\<exists>x. pk_cycle (bi_flit_ready i) (br_packer ?br, packer_ports ?br) = Inr x"
      using inv unfolding br_inv_def tx_rel_def by (meson pk_cycle_rel)
    with run P_Pack show ?thesis
      by (auto simp: packer_thread_def)
  next
    case P_Unpack
    obtain u p where up: "route_messages (br_unpacker ?br, unpacker_ports ?br) = (u, p)"
      by fastforce
    then have "un_stream_decoder u = un_stream_decoder (br_unpacker ?br)"
      by (auto simp: route_messages_def Let_def split: prod.splits if_splits)
    moreover have "un_stream_decoder (br_unpacker ?br) = un_stream_decoder (br_unpacker br0)"
      using same P_Unpack by (simp add: same_for_def)
    ultimately show ?thesis
      using run P_Unpack up by (auto simp: unpacker_thread_def un_cycle_def un_accept_def rbind_def edge_report_def Let_def
          parse_holding_flit_eq split: sum.splits prod.splits if_splits)
  qed
qed

text \<open>A clock edge: every process once, in any order, then the update phase.\<close>

definition all_processes :: "br_process list" where
  "all_processes = [P_AW, P_W, P_AR, P_B, P_R, P_Pack, P_Unpack]"

inductive edge_step :: "Axi2Flit \<Rightarrow> Axi2Flit \<Rightarrow> bool" where
  edge: "w_ok (bi_w i) \<Longrightarrow> mset ps = mset all_processes \<Longrightarrow> clock_edge ps i br = Inr br' \<Longrightarrow> edge_step br br'"

lemma edge_run:
  assumes "br_inv y" and "w_ok (bi_w i)" and "ret_inv k (by_br y)" and "k + sum_list (map writes_return ps) \<le> 2"
    and "distinct ps" and "\<forall>P \<in> set ps. same_for P br0 (by_br y)"
  shows "case rfold (run_process i) ps (by_br y) of Inl e \<Rightarrow> edge_report i br0 e
    | Inr br' \<Rightarrow> \<exists>y'. br_inv y' \<and> by_br y' = br' \<and> ret_inv 2 br'
        \<and> (P_Pack \<in> set ps \<or> ff_readable (br_credit_return_fifo (by_br y)) = [] \<longrightarrow> ff_readable (br_credit_return_fifo br') = [])"
  using assms(1,3,4,5,6)
proof (induction ps arbitrary: y k)
  case Nil
  then show ?case
    by (auto simp: ret_inv_def Let_def)
next
  case (Cons P ps)
  have free: "0 < num_free (br_credit_return_fifo (by_br y))"
    using Cons.prems(2,3) by (simp add: ret_inv_def num_free_def Let_def)
  show ?case
  proof (cases "run_process i P (by_br y)")
    case (Inl e)
    with process_reports [OF Cons.prems(1) free Inl] Cons.prems(5) show ?thesis
      by simp
  next
    case (Inr br')
    note r = ret_inv_step [OF Inr Cons.prems(2)]
    have "br_inv (note_run i P br' y)"
      using inv_process [OF Cons.prems(1) assms(2) Inr] .
    moreover have "\<forall>Q \<in> set ps. same_for Q br0 br'"
    proof
      fix Q assume Q: "Q \<in> set ps"
      then have "P \<noteq> Q" using Cons.prems(4) by auto
      from same_for_trans [OF _ process_same [OF Inr this]] Q Cons.prems(5) show "same_for Q br0 br'" by simp
    qed
    ultimately show ?thesis
      using Cons.IH [of "note_run i P br' y" "k + writes_return P"] r Cons.prems(3,4) Inr
      by (auto split: sum.splits simp: ac_simps)
  qed
qed

lemma edge_sum: "mset ps = mset all_processes \<Longrightarrow> sum_list (map writes_return ps) = 2 \<and> P_Pack \<in> set ps \<and> distinct ps"
proof -
  assume m: "mset ps = mset all_processes"
  then have "sum_mset (image_mset writes_return (mset ps)) = sum_mset (image_mset writes_return (mset all_processes))"
    by simp
  then have "sum_list (map writes_return ps) = sum_list (map writes_return all_processes)"
    unfolding mset_map [symmetric] sum_mset_sum_list .
  moreover from m have "set ps = set all_processes"
    by (metis set_mset_mset)
  moreover from m have "distinct ps"
    using mset_eq_imp_distinct_iff [of ps all_processes] by (simp add: all_processes_def)
  ultimately show ?thesis
    by (simp add: all_processes_def writes_return_def)
qed

lemma edge_inv:
  assumes "br_inv y" and "w_ok (bi_w i)" and "ret_inv 0 (by_br y)" and ps: "mset ps = mset all_processes"
  shows "case clock_edge ps i (by_br y) of Inl e \<Rightarrow> edge_report i (by_br y) e
    | Inr br' \<Rightarrow> \<exists>y'. br_inv y' \<and> by_br y' = br' \<and> ret_inv 0 br'"
proof (cases "rfold (run_process i) ps (by_br y)")
  case (Inl e)
  then show ?thesis
    using edge_run [OF assms(1-3), of ps "by_br y"] edge_sum [OF ps] same_for_refl by (simp add: clock_edge_def)
next
  case (Inr br1)
  then obtain y1 where y1: "br_inv y1" "by_br y1 = br1" "ret_inv 2 br1" "ff_readable (br_credit_return_fifo br1) = []"
    using edge_run [OF assms(1-3), of ps "by_br y"] edge_sum [OF ps] same_for_refl by auto
  have "ret_inv 0 (update_channels br1)"
    using y1(3,4) by (simp add: ret_inv_def update_channels_def fifo_update_def Let_def)
  moreover have "br_inv (y1\<lparr>by_br := update_channels br1\<rparr>)"
    using inv_update [OF y1(1)] y1(2) by simp
  ultimately show ?thesis
    using Inr by (auto simp: clock_edge_def intro!: exI [of _ "y1\<lparr>by_br := update_channels br1\<rparr>"])
qed

lemma edge_reachable:
  assumes "edge_step\<^sup>*\<^sup>* (br_start br) br'" and "Axi2Flit_new n = Inr br"
  shows "\<exists>y. br_inv y \<and> by_br y = br' \<and> ret_inv 0 br'"
  using assms(1)
proof (induction rule: rtranclp_induct)
  case base
  have "ret_inv 0 (br_start br)"
    using assms(2)
    by (auto simp: Axi2Flit_new_def rbind_eq_Inr br_start_def aw_start_def w_start_def ar_start_def b_start_def
        r_start_def ret_inv_def fifo_new_def Let_def)
  moreover have "by_br (br_init br) = br_start br"
    by (simp add: br_init_def)
  ultimately show ?case
    using br_init_inv(1) [OF assms(2)] by blast
next
  case (step b c)
  from step(2) show ?case
  proof cases
    case (edge i ps)
    with step(3) edge_inv [of _ i ps] show ?thesis
      by fastforce
  qed
qed

section \<open>Properties\<close>

lemma tx_received:
  assumes "br_inv y"
  shows "\<exists>D d. decode_flits (by_sent y) sd_reset = Inr (D, d) \<and>
    (\<forall>q. \<forall>rp<br_rp_count (by_br y). \<exists>rest. map wire_msg (expected (br_rp_count (by_br y)) (by_aw y) (by_w y) (by_ar y) q rp)
       = filter (in_queue q rp) D @ rest)"
proof -
  let ?z = "\<lparr>sy_packer = br_packer (by_br y), sy_ports = packer_ports (by_br y), sy_sent = by_sent y,
    sy_in = expected (br_rp_count (by_br y)) (by_aw y) (by_w y) (by_ar y)\<rparr>"
  have rel: "sys_rel ?z"
    using assms by (simp add: br_inv_def tx_rel_def)
  have n: "pk_rp_count (br_packer (by_br y)) = br_rp_count (by_br y)"
    using assms by (simp add: br_inv_def br_shape_def)
  obtain D d rest where "decode_flits (by_sent y) sd_reset = Inr (D, d)"
    "\<And>q rp. rp < br_rp_count (by_br y) \<Longrightarrow> map wire_msg (expected (br_rp_count (by_br y)) (by_aw y) (by_w y) (by_ar y) q rp)
      = filter (in_queue q rp) (D @ rest) @ map wire_msg (pipe q rp (br_packer (by_br y)) (packer_ports (by_br y)))"
    by (rule sys_rel_received [OF rel]) (simp add: n)
  then show ?thesis
    by (intro exI [of _ D] exI [of _ d]) auto
qed

lemma rx_presented:
  assumes "br_inv y"
  shows "\<exists>D d. decode_flits (by_in y) sd_reset = Inr (D, d) \<and> (\<forall>rp<br_rp_count (by_br y).
    (\<exists>rest. map decode_write_resp (filter (for_resp WResp rp) D)
       = map (Some \<circ> snd) (filter (for_resp WResp rp \<circ> fst) (by_b y)) @ rest) \<and>
    (\<exists>rest. map decode_read_data (filter (for_resp RData rp) D)
       = map (Some \<circ> snd) (filter (for_resp RData rp \<circ> fst) (by_r y)) @ rest))"
proof -
  have dec: "map dec (filter P (map fst xs)) = map (Some \<circ> snd) (filter (P \<circ> fst) xs)"
    if "list_all (\<lambda>(m, b). dec m = Some b) xs" for dec P and xs :: "(AouMessage \<times> 'a) list"
    using that by (induction xs) auto
  from assms obtain cs D where D: "decode_flits (by_in y) sd_reset = Inr (D, un_stream_decoder (br_unpacker (by_br y)))"
    and f: "\<And>c rp. rp < br_rp_count (by_br y) \<Longrightarrow> filter (for_resp c rp) D = responses (by_b y) (by_r y) c rp
       @ fifo_list (rport c (unpacker_ports (by_br y)) rp) @ u_rest c rp (br_unpacker (by_br y))"
    by (auto simp: br_inv_def rx_rel_def un_rel_def br_shape_def)
  have "list_all (\<lambda>(m, b). decode_write_resp m = Some b) (by_b y)" "list_all (\<lambda>(m, r). decode_read_data m = Some r) (by_r y)"
    using assms by (simp_all add: br_inv_def rx_rel_def)
  note d = dec [OF this(1)] dec [OF this(2)]
  show ?thesis
    by (intro exI [of _ D] exI [of _ "un_stream_decoder (br_unpacker (by_br y))"] conjI allI impI D)
       (simp_all add: f responses_def d)
qed

text \<open>
  C1: for any interleaving of the bridge's processes, delta cycles, AXI traffic and link readiness
  from reset on, the flits accepted by the link decode without error, and per message class and
  resource plane the decoded messages are a prefix of the messages built from the accepted AXI beats
  in their order of acceptance: read and write requests on the plane their QoS selects, and every
  write data beat on the plane of the write address it belongs to, counted off by AWLEN in AW order.
\<close>

theorem bridge_forwards_requests:
  assumes "Axi2Flit_new n = Inr br" and "br_step\<^sup>*\<^sup>* (br_init br) y"
  shows "\<exists>D d. decode_flits (by_sent y) sd_reset = Inr (D, d) \<and>
    (\<forall>q. \<forall>rp<n. \<exists>rest. map wire_msg (expected n (by_aw y) (by_w y) (by_ar y) q rp) = filter (in_queue q rp) D @ rest)"
  using tx_received [of y] br_reachable [OF assms(2,1)] by simp

text \<open>
  C11: for any such run, the responses put on B and R are, per plane and in order, the decoded
  contents of the WriteResp and ReadData messages in the flits that arrived: none is lost, repeated,
  reordered within its plane or altered.
\<close>

theorem bridge_presents_responses:
  assumes "Axi2Flit_new n = Inr br" and "br_step\<^sup>*\<^sup>* (br_init br) y"
  shows "\<exists>D d. decode_flits (by_in y) sd_reset = Inr (D, d) \<and> (\<forall>rp<n.
    (\<exists>rest. map decode_write_resp (filter (for_resp WResp rp) D)
       = map (Some \<circ> snd) (filter (for_resp WResp rp \<circ> fst) (by_b y)) @ rest) \<and>
    (\<exists>rest. map decode_read_data (filter (for_resp RData rp) D)
       = map (Some \<circ> snd) (filter (for_resp RData rp \<circ> fst) (by_r y)) @ rest))"
  using rx_presented [of y] br_reachable [OF assms(2,1)] by simp

text \<open>
  C12: no assertion of the bridge fails: if every process runs once per clock edge, in any order, then
  whatever the AXI masters and the link drive, a queue that was offered through a registered ready
  still has space when the beat arrives, and the credit-return channel never overflows. An edge can end only in the
  reports of \<open>edge_report\<close>, each under its condition on the inputs and the state before the edge: an
  AW or AR request that the AXI check rejects, a WLAST that disagrees with the beats left, a flit with another
  protocol identifier or that the stream decoder rejects, and a write response or read data message at the head of
  its channel whose fields do not decode.
\<close>

theorem bridge_asserts_hold:
  assumes "Axi2Flit_new n = Inr br" and "edge_step\<^sup>*\<^sup>* (br_start br) br'"
    and "w_ok (bi_w i)" and "mset ps = mset all_processes"
  shows "clock_edge ps i br' \<noteq> Inl (AssertFailed s) \<and> (clock_edge ps i br' = Inl e \<longrightarrow> edge_report i br' e)"
proof -
  from edge_reachable [OF assms(2,1)] obtain y where "br_inv y" "by_br y = br'" "ret_inv 0 br'"
    by blast
  with edge_inv [OF _ assms(3) _ assms(4), of y] have "clock_edge ps i br' = Inl e \<longrightarrow> edge_report i br' e" for e
    by auto
  then show ?thesis
    by (auto simp: edge_report_def)
qed

section \<open>A concrete run\<close>

definition demo_br :: Axi2Flit where
  "demo_br = projr (Axi2Flit_new 1)"

definition demo_ar :: AxChannel where
  "demo_ar = AxChannel_init\<lparr>ax_burst := 1\<rparr>"

definition demo_in :: br_in where
  "demo_in = \<lparr>bi_aw_valid = False, bi_aw = AxChannel_init, bi_w_valid = False, bi_w = WChannel_init,
     bi_ar_valid = True, bi_ar = demo_ar, bi_b_ready = True, bi_r_ready = True, bi_flit_ready = True,
     bi_flit_in = FlitTransfer_none\<rparr>"

lemma demo_br_new: "Axi2Flit_new 1 = Inr demo_br"
  by (simp add: demo_br_def Axi2Flit_new_def FlitPacker_new_def CreditManager_new_initiator_def
      CreditManager_new_def FlitUnpacker_new_def rassert_def aou_consts)

lemma new_fields:
  "Axi2Flit_new n = Inr br \<Longrightarrow> br_rp_count br = n \<and> br_rreq_fifo br = (\<lambda>_. fifo_new 16)"
  by (auto simp: Axi2Flit_new_def rbind_eq_Inr TX_REQ_FIFO_DEPTH_PER_RP_def)

lemma demo_w_ok: "w_ok (bi_w demo_in)"
  by (simp add: demo_in_def w_ok_def WChannel_init_def axi_consts)

lemma demo_br_run: "\<exists>y. br_step\<^sup>*\<^sup>* (br_init demo_br) y \<and> by_ar y = [demo_ar]"
proof -
  let ?b = "br_start demo_br"
  have n: "br_rp_count ?b = 1" "br_rreq_fifo ?b = (\<lambda>_. fifo_new 16)" "br_ar_ready ?b = False"
    using new_fields [OF demo_br_new]
    by (simp_all add: br_start_def aw_start_def w_start_def ar_start_def b_start_def r_start_def Let_def)
  have err: "axi_request_error demo_ar = None"
    by (simp add: demo_ar_def AxChannel_init_def axi_request_error_def axi_consts)
  have one: "run_process demo_in P_AR ?b = Inr (?b\<lparr>br_ar_ready := True\<rparr>)"
    by (simp add: ar_channel_thread_def n planes_have_space_def num_free_def fifo_new_def)
  have "\<exists>br'. run_process demo_in P_AR (?b\<lparr>br_ar_ready := True\<rparr>) = Inr br'"
    by (simp add: ar_channel_thread_def demo_in_def ar_accept_def err n Let_def nb_write_def num_free_def
        fifo_new_def rassert_def)
  then obtain br' where two: "run_process demo_in P_AR (?b\<lparr>br_ar_ready := True\<rparr>) = Inr br'"
    by blast
  let ?y1 = "note_run demo_in P_AR (?b\<lparr>br_ar_ready := True\<rparr>) (br_init demo_br)"
  have "br_step (br_init demo_br) ?y1"
    by (rule br_run [OF demo_w_ok]) (simp only: br_init_def br_sys.simps one)
  moreover have "br_step ?y1 (note_run demo_in P_AR br' ?y1)"
    by (rule br_run [OF demo_w_ok]) (simp only: note_run_br two)
  ultimately have "br_step\<^sup>*\<^sup>* (br_init demo_br) (note_run demo_in P_AR br' ?y1)"
    by simp
  moreover have "by_ar (note_run demo_in P_AR br' ?y1) = [demo_ar]"
    by (simp add: note_run_def br_init_def n demo_in_def)
  ultimately show ?thesis
    by blast
qed

theorem bridge_forwards_requests_witness:
  "\<exists>y D d rest. br_step\<^sup>*\<^sup>* (br_init demo_br) y \<and> by_ar y = [demo_ar] \<and> decode_flits (by_sent y) sd_reset = Inr (D, d)
    \<and> map wire_msg (expected 1 (by_aw y) (by_w y) [demo_ar] QRreq 0) = filter (in_queue QRreq 0) D @ rest"
proof -
  obtain y where y: "br_step\<^sup>*\<^sup>* (br_init demo_br) y" "by_ar y = [demo_ar]"
    using demo_br_run by blast
  from bridge_forwards_requests [OF demo_br_new y(1)] show ?thesis
    using y by (metis zero_less_one)
qed

theorem bridge_presents_responses_witness:
  "\<exists>y D d rest. br_step\<^sup>*\<^sup>* (br_init demo_br) y \<and> by_ar y = [demo_ar] \<and> decode_flits (by_in y) sd_reset = Inr (D, d)
    \<and> map decode_read_data (filter (for_resp RData 0) D)
       = map (Some \<circ> snd) (filter (for_resp RData 0 \<circ> fst) (by_r y)) @ rest"
proof -
  obtain y where y: "br_step\<^sup>*\<^sup>* (br_init demo_br) y" "by_ar y = [demo_ar]"
    using demo_br_run by blast
  from bridge_presents_responses [OF demo_br_new y(1)] show ?thesis
    using y by (metis zero_less_one)
qed

theorem bridge_asserts_hold_witness:
  "clock_edge [P_Pack, P_B, P_R, P_AW, P_W, P_AR, P_Unpack] demo_in (br_start demo_br) \<noteq> Inl (AssertFailed ''ok'')"
  using bridge_asserts_hold [OF demo_br_new rtranclp.rtrancl_refl demo_w_ok, of "[P_Pack, P_B, P_R, P_AW, P_W, P_AR, P_Unpack]"]
  by (simp add: all_processes_def)

end
