(* ===== verification/Credit_Loop.thy ===== *)
theory Credit_Loop
  imports Credit_Grant
begin

text \<open>
  The closed credit loop between one sender and one receiver, built from the operations of
  credit_manager.h: the sender spends credit with \<open>consume\<close> as FlitPacker does
  (flit_packer.cpp:174-200), the receiver publishes its capacity after reset
  (flit_packer.cpp:34-38), gives space back with \<open>return_rx_credit\<close> when a message leaves its
  buffer, and returns credit in header fields and CrdtGrant messages. The invariant accounts for
  every granule of capacity; it follows that the receive buffers cannot overflow.
\<close>

section \<open>State and steps\<close>

datatype credit_item = HeaderField u16 | GrantMessage AouMessage

definition item_updates :: "nat \<Rightarrow> credit_item \<Rightarrow> CreditUpdate list" where
  "item_updates n i = (case i of HeaderField f \<Rightarrow> decode_header_credits f n
     | GrantMessage m \<Rightarrow> crdt_grant_updates n m)"

record credit_loop =
  cl_tx :: CreditManager
  cl_rx :: CreditManager
  cl_back :: "credit_item list"
  cl_forward :: "(nat \<times> MsgType \<times> nat) list"
  cl_buffer :: "(nat \<times> MsgType \<times> nat) list"

definition occupied :: "(nat \<times> MsgType \<times> nat) list \<Rightarrow> nat \<Rightarrow> nat \<Rightarrow> nat" where
  "occupied ms rp k = sum_list (map (\<lambda>(r, t, g).
     if r = rp \<and> credit_kind_index (msgtype_to_credit_kind t) = k then g else 0) ms)"

definition loop_init :: "CreditManager \<Rightarrow> CreditManager \<Rightarrow> credit_loop" where
  "loop_init tx rx = \<lparr>cl_tx = cm_reset tx, cl_rx = publish_initial_capacity (cm_reset rx),
     cl_back = [], cl_forward = [], cl_buffer = []\<rparr>"

inductive loop_step :: "credit_loop \<Rightarrow> credit_loop \<Rightarrow> bool" where
  send: "can_consume (cl_tx s) rp t g \<Longrightarrow> cm_consume (cl_tx s) rp t g = Inr tx' \<Longrightarrow>
    loop_step s (s\<lparr>cl_tx := tx', cl_forward := cl_forward s @ [(rp, t, g)]\<rparr>)"
| deliver: "cl_forward s = m # fw \<Longrightarrow>
    loop_step s (s\<lparr>cl_forward := fw, cl_buffer := cl_buffer s @ [m]\<rparr>)"
| drain: "cl_buffer s = us @ (rp, t, g) # vs \<Longrightarrow>
    loop_step s (s\<lparr>cl_buffer := us @ vs, cl_rx := return_rx_credit
      \<lparr>cu_rp = of_nat rp, cu_kind = msgtype_to_credit_kind t, cu_granules = g\<rparr> (cl_rx s)\<rparr>)"
| header_grant: "take_header_grant (cl_rx s) = (f, rx') \<Longrightarrow>
    loop_step s (s\<lparr>cl_rx := rx', cl_back := cl_back s @ [HeaderField f]\<rparr>)"
| misc_grant: "dedicated_grant (cl_rx s) = (m, rx') \<Longrightarrow>
    loop_step s (s\<lparr>cl_rx := rx', cl_back := cl_back s @ [GrantMessage m]\<rparr>)"
| learn: "cl_back s = i # bk \<Longrightarrow>
    loop_step s (s\<lparr>cl_back := bk,
      cl_tx := fold add_tx_credit (item_updates (cm_rp_count (cl_tx s)) i) (cl_tx s)\<rparr>)"

section \<open>Every granule is accounted for\<close>

definition in_flight :: "nat \<Rightarrow> credit_item list \<Rightarrow> nat \<Rightarrow> nat \<Rightarrow> nat" where
  "in_flight n is rp k = sum_list (map (\<lambda>i. announced (item_updates n i) rp k) is)"

definition balance :: "nat \<Rightarrow> credit_loop \<Rightarrow> nat \<Rightarrow> nat \<Rightarrow> nat" where
  "balance n s rp k = cm_tx_available (cl_tx s) rp k + in_flight n (cl_back s) rp k
     + cm_rx_pending_return (cl_rx s) rp k + occupied (cl_forward s) rp k + occupied (cl_buffer s) rp k"

definition loop_shape :: "nat \<Rightarrow> CreditMatrix \<Rightarrow> credit_loop \<Rightarrow> bool" where
  "loop_shape n cap s \<longleftrightarrow> cm_wf (cl_rx s) \<and> cm_rp_count (cl_rx s) = n \<and> cm_rp_count (cl_tx s) = n
     \<and> cm_rx_capacity (cl_rx s) = cap
     \<and> (\<forall>(rp, t, g) \<in> set (cl_forward s) \<union> set (cl_buffer s).
          rp < n \<and> msgtype_to_credit_kind t \<noteq> CreditKind.Count)"

definition loop_inv :: "nat \<Rightarrow> CreditMatrix \<Rightarrow> credit_loop \<Rightarrow> bool" where
  "loop_inv n cap s \<longleftrightarrow> loop_shape n cap s \<and> (\<forall>rp<n. \<forall>k<5. balance n s rp k = cap rp k)"

lemma occupied_simps [simp]:
  "occupied [] rp k = 0"
  "occupied ((r, t, g) # ms) rp k =
    (if r = rp \<and> credit_kind_index (msgtype_to_credit_kind t) = k then g else 0) + occupied ms rp k"
  "occupied (ms @ ns) rp k = occupied ms rp k + occupied ns rp k"
  by (simp_all add: occupied_def)

lemma in_flight_simps [simp]:
  "in_flight n [] rp k = 0"
  "in_flight n (i # is) rp k = announced (item_updates n i) rp k + in_flight n is rp k"
  "in_flight n (is @ js) rp k = in_flight n is rp k + in_flight n js rp k"
  by (simp_all add: in_flight_def)

lemma kind_index_less: "x \<noteq> CreditKind.Count \<Longrightarrow> credit_kind_index x < 5"
  by (cases x) simp_all

text \<open>Adding credit below the saturation bound is exact.\<close>

lemma add_tx_exact:
  assumes "cm_tx_available c rp k + announced [u] rp k \<le> CREDIT_COUNTER_MAX"
    and "rp < cm_rp_count c" and "k < 5"
  shows "cm_tx_available (add_tx_credit u c) rp k = cm_tx_available c rp k + announced [u] rp k"
    and "cm_rp_count (add_tx_credit u c) = cm_rp_count c"
proof -
  show "cm_rp_count (add_tx_credit u c) = cm_rp_count c"
    by (simp add: add_tx_credit_def Let_def)
  show "cm_tx_available (add_tx_credit u c) rp k = cm_tx_available c rp k + announced [u] rp k"
    using assms
    by (cases "cu_kind u") (auto simp: add_tx_credit_def Let_def cu_valid_def u32_add_def credit_consts)
qed

lemma fold_add_tx_exact:
  assumes "\<And>rp k. rp < n \<Longrightarrow> k < 5 \<Longrightarrow> cm_tx_available c rp k + announced us rp k \<le> CREDIT_COUNTER_MAX"
    and "cm_rp_count c = n"
  shows "cm_rp_count (fold add_tx_credit us c) = n \<and> (\<forall>rp<n. \<forall>k<5.
    cm_tx_available (fold add_tx_credit us c) rp k = cm_tx_available c rp k + announced us rp k)"
  using assms
proof (induction us arbitrary: c)
  case (Cons u us)
  have one: "cm_tx_available (add_tx_credit u c) rp k = cm_tx_available c rp k + announced [u] rp k"
    if "rp < n" "k < 5" for rp k
    using Cons.prems(1) [OF that] that Cons.prems(2) by (intro add_tx_exact(1)) (simp_all split: if_splits)
  have cnt: "cm_rp_count (add_tx_credit u c) = n"
    using Cons.prems(2) by (simp add: add_tx_credit_def Let_def)
  have "cm_rp_count (fold add_tx_credit us (add_tx_credit u c)) = n \<and> (\<forall>rp<n. \<forall>k<5.
      cm_tx_available (fold add_tx_credit us (add_tx_credit u c)) rp k
        = cm_tx_available (add_tx_credit u c) rp k + announced us rp k)"
    using Cons.prems(1) one by (intro Cons.IH cnt) (force simp: add.assoc)
  with one show ?case
    by (auto simp: add.assoc)
qed simp

lemma return_rx_exact:
  assumes "rp < cm_rp_count c" and "rp < 256" and "t \<noteq> CreditKind.Count"
    and "cm_rx_pending_return c rp (credit_kind_index t) + g \<le> cm_rx_capacity c rp (credit_kind_index t)"
    and "cm_rx_capacity c rp (credit_kind_index t) \<le> CREDIT_COUNTER_MAX"
  shows "return_rx_credit \<lparr>cu_rp = of_nat rp, cu_kind = t, cu_granules = g\<rparr> c =
    c\<lparr>cm_rx_pending_return := mat_set (cm_rx_pending_return c) rp (credit_kind_index t)
       (cm_rx_pending_return c rp (credit_kind_index t) + g)\<rparr>"
proof -
  have "unat (of_nat rp :: u8) = rp"
    using assms(2) by (simp add: unat_of_nat)
  moreover have "mat_set m rp k (m rp k) = m" for m :: CreditMatrix and k
    by (simp add: mat_set_def)
  ultimately show ?thesis
    using assms by (auto simp: return_rx_credit_def cu_valid_def Let_def u32_add_def credit_consts)
qed

section \<open>The invariant\<close>

lemma loop_inv_init:
  assumes "cm_wf rx" and "cm_rp_count tx = cm_rp_count rx"
  shows "loop_inv (cm_rp_count rx) (cm_rx_capacity rx) (loop_init tx rx)"
  using assms
  by (simp add: loop_inv_def loop_shape_def balance_def loop_init_def cm_wf_def cm_reset_def
      publish_initial_capacity_def clear_matrix_def)

lemma loop_inv_keep:
  assumes "loop_inv n cap s" and "loop_shape n cap s'"
    and "\<And>rp k. rp < n \<Longrightarrow> k < 5 \<Longrightarrow> balance n s' rp k = balance n s rp k"
  shows "loop_inv n cap s'"
  using assms by (simp add: loop_inv_def)

lemma loop_invD:
  assumes "loop_inv n cap s" and "rp < n" and "k < 5"
  shows "balance n s rp k = cap rp k"
  using assms by (simp add: loop_inv_def)

lemma loop_inv_shape: "loop_inv n cap s \<Longrightarrow> loop_shape n cap s"
  by (simp add: loop_inv_def)

text \<open>A channel that obeys its contract keeps the balance when it moves credit to the return path.\<close>

lemma loop_inv_channel:
  assumes "loop_inv n cap s" and "cm_rp_count rx' = n" "cm_rx_capacity rx' = cap"
    and "\<And>rp k. announced (item_updates n i) rp k + cm_rx_pending_return rx' rp k
      = cm_rx_pending_return (cl_rx s) rp k"
  shows "loop_inv n cap (s\<lparr>cl_rx := rx', cl_back := cl_back s @ [i]\<rparr>)"
  using loop_inv_shape [OF assms(1)] assms(2,3)
  by (intro loop_inv_keep [OF assms(1)])
     (auto simp: loop_shape_def balance_def cm_wf_def assms(4) [symmetric])

lemma loop_step_inv:
  assumes "loop_step s s'" and inv: "loop_inv n cap s"
    and small: "\<And>rp k. cap rp k \<le> CREDIT_COUNTER_MAX"
  shows "loop_inv n cap s'"
  using assms(1)
proof cases
  case (send rp t g tx')
  then show ?thesis
    using loop_inv_shape [OF inv]
    by (intro loop_inv_keep [OF inv]) (auto simp: cm_consume_def Let_def loop_shape_def balance_def)
next
  case (deliver m fw)
  then show ?thesis
    using loop_inv_shape [OF inv]
    by (cases m, intro loop_inv_keep [OF inv]) (auto simp: loop_shape_def balance_def)
next
  case (drain us rp t g vs)
  let ?k = "credit_kind_index (msgtype_to_credit_kind t)"
  have wf: "rp < n" "msgtype_to_credit_kind t \<noteq> CreditKind.Count" "n \<le> 4" "cm_rp_count (cl_rx s) = n"
      "cm_rx_capacity (cl_rx s) = cap"
    using loop_inv_shape [OF inv] drain(2) by (auto simp: loop_shape_def cm_wf_def aou_consts)
  have "cm_rx_pending_return (cl_rx s) rp ?k + g \<le> cap rp ?k"
    using loop_invD [OF inv wf(1) kind_index_less [OF wf(2)]] by (simp add: drain(2) balance_def)
  then have "return_rx_credit \<lparr>cu_rp = of_nat rp, cu_kind = msgtype_to_credit_kind t, cu_granules = g\<rparr> (cl_rx s)
      = (cl_rx s)\<lparr>cm_rx_pending_return := mat_set (cm_rx_pending_return (cl_rx s)) rp ?k
          (cm_rx_pending_return (cl_rx s) rp ?k + g)\<rparr>"
    using wf small by (intro return_rx_exact) simp_all
  then show ?thesis
    using loop_inv_shape [OF inv] unfolding drain(1)
    by (intro loop_inv_keep [OF inv]) (auto simp: loop_shape_def balance_def drain(2) cm_wf_def)
next
  case (header_grant f rx')
  then show ?thesis
    using loop_inv_shape [OF inv] header.conserves [OF _ header_grant(2)] header.frame [OF header_grant(2)]
    unfolding header_grant(1)
    by (intro loop_inv_channel inv) (simp_all add: item_updates_def loop_shape_def)
next
  case (misc_grant m rx')
  then show ?thesis
    using loop_inv_shape [OF inv] dedicated.conserves [OF _ misc_grant(2)] dedicated.frame [OF misc_grant(2)]
    unfolding misc_grant(1)
    by (intro loop_inv_channel inv) (simp_all add: item_updates_def loop_shape_def)
next
  case (learn i bk)
  let ?tx = "fold add_tx_credit (item_updates n i) (cl_tx s)"
  have n: "cm_rp_count (cl_tx s) = n"
    using loop_inv_shape [OF inv] by (simp add: loop_shape_def)
  have "cm_tx_available (cl_tx s) rp k + announced (item_updates n i) rp k \<le> CREDIT_COUNTER_MAX"
    if "rp < n" "k < 5" for rp k
    using loop_invD [OF inv that] small [of rp k] by (simp add: learn(2) balance_def)
  from fold_add_tx_exact [OF this n] have "cm_rp_count ?tx = n"
    "\<And>rp k. rp < n \<Longrightarrow> k < 5 \<Longrightarrow>
      cm_tx_available ?tx rp k = cm_tx_available (cl_tx s) rp k + announced (item_updates n i) rp k"
    by blast+
  then show ?thesis
    using loop_inv_shape [OF inv] unfolding learn(1) n
    by (intro loop_inv_keep [OF inv]) (auto simp: loop_shape_def balance_def learn(2))
qed

lemma loop_reachable_inv:
  assumes "loop_step\<^sup>*\<^sup>* (loop_init tx rx) s" and "cm_wf rx" and "cm_rp_count tx = cm_rp_count rx"
    and "\<And>rp k. cm_rx_capacity rx rp k \<le> CREDIT_COUNTER_MAX"
  shows "loop_inv (cm_rp_count rx) (cm_rx_capacity rx) s"
  using assms(1)
  by (induction rule: rtranclp_induct) (use assms loop_inv_init loop_step_inv in blast)+

section \<open>Properties\<close>

text \<open>
  C16: when both sides have the same number of planes and no capacity exceeds the 4095 granules of a
  counter, then from reset on, whatever the order of sending, delivery, draining and credit return, the
  messages in a receive buffer (and those still on their way to it) never occupy more granules of a
  plane and kind than the capacity the receiver published, and no credit is lost: every granule of
  capacity is available, announced, pending, in flight or occupied.
\<close>

theorem credit_loop_no_overflow:
  assumes "loop_step\<^sup>*\<^sup>* (loop_init tx rx) s" and "cm_wf rx" and "cm_rp_count tx = cm_rp_count rx"
    and "\<And>rp k. cm_rx_capacity rx rp k \<le> CREDIT_COUNTER_MAX"
  shows "\<forall>rp<cm_rp_count rx. \<forall>k<5.
    occupied (cl_buffer s) rp k + occupied (cl_forward s) rp k \<le> cm_rx_capacity rx rp k
    \<and> cm_tx_available (cl_tx s) rp k + in_flight (cm_rp_count rx) (cl_back s) rp k
      + cm_rx_pending_return (cl_rx s) rp k + occupied (cl_forward s) rp k
      + occupied (cl_buffer s) rp k = cm_rx_capacity rx rp k"
proof (intro allI impI)
  fix rp k
  assume "rp < cm_rp_count rx" and "k < (5::nat)"
  from loop_invD [OF loop_reachable_inv [OF assms] this, unfolded balance_def]
  show "occupied (cl_buffer s) rp k + occupied (cl_forward s) rp k \<le> cm_rx_capacity rx rp k
    \<and> cm_tx_available (cl_tx s) rp k + in_flight (cm_rp_count rx) (cl_back s) rp k
      + cm_rx_pending_return (cl_rx s) rp k + occupied (cl_forward s) rp k
      + occupied (cl_buffer s) rp k = cm_rx_capacity rx rp k"
    by linarith
qed

text \<open>A run that publishes credit, learns it, spends it and delivers a message.\<close>

definition demo_rx :: CreditManager where
  "demo_rx = \<lparr>cm_rp_count = 1, cm_next_header_rp = 0, cm_tx_available = clear_matrix,
     cm_rx_capacity = (\<lambda>rp k. if rp = 0 then 8 else 0), cm_rx_pending_return = clear_matrix\<rparr>"

definition demo_s1 :: credit_loop where
  "demo_s1 = (let s = loop_init demo_rx demo_rx; (f, rx') = take_header_grant (cl_rx s)
     in s\<lparr>cl_rx := rx', cl_back := [HeaderField f]\<rparr>)"

lemma demo_s1_reachable: "loop_step\<^sup>*\<^sup>* (loop_init demo_rx demo_rx) demo_s1"
proof -
  let ?s = "loop_init demo_rx demo_rx"
  obtain f rx' where t: "take_header_grant (cl_rx ?s) = (f, rx')"
    by fastforce
  have "cl_back ?s = []"
    by (simp add: loop_init_def)
  with loop_step.header_grant [OF t] show ?thesis
    by (intro r_into_rtranclp) (simp add: demo_s1_def t)
qed

theorem credit_loop_no_overflow_witness:
  "occupied (cl_buffer demo_s1) 0 2 + occupied (cl_forward demo_s1) 0 2 \<le> 8
    \<and> cm_tx_available (cl_tx demo_s1) 0 2 + in_flight 1 (cl_back demo_s1) 0 2
      + cm_rx_pending_return (cl_rx demo_s1) 0 2 + occupied (cl_forward demo_s1) 0 2
      + occupied (cl_buffer demo_s1) 0 2 = 8"
proof -
  have "cm_wf demo_rx" "\<And>rp k. cm_rx_capacity demo_rx rp k \<le> CREDIT_COUNTER_MAX"
    by (simp_all add: demo_rx_def cm_wf_def aou_consts credit_consts)
  from credit_loop_no_overflow [OF demo_s1_reachable this(1) refl this(2)] show ?thesis
    by (simp add: demo_rx_def)
qed

end
