(* ===== verification/Ucie_Common.thy ===== *)
theory Ucie_Common
  imports Aou_Wire
begin

text \<open>
  Configuration, flit format and CRC of the UCIe link model (components/ucie-model/src/ucie_common.h
  and ucie_fdi.h). Values of type \<open>double\<close> are real numbers; the standard library's rounding is not
  modelled.
\<close>

section \<open>Configuration\<close>

datatype Modulation = PAM4 | NRZ

datatype FlitFormat = Standard256 | Compact68 | AouFormat6

record Config =
  cf_flit_count :: nat
  cf_flit_format :: FlitFormat
  cf_payload_file :: string
  cf_response_file :: string
  cf_memory_delay_ui :: nat
  cf_num_lanes :: nat
  cf_lane_rate_gtps :: real
  cf_modulation :: Modulation
  cf_fdi_queue_size :: nat
  cf_retry_buffer_size :: nat
  cf_tx_pipe_ui :: nat
  cf_rx_pipe_ui :: nat
  cf_channel_ui :: nat
  cf_feedback_ui :: nat
  cf_train_ui :: nat
  cf_fdi_interval_ui :: nat
  cf_awgn_sigma :: real
  cf_jitter_sigma_ui :: real
  cf_jitter_isi_gain :: real
  cf_isi_h0 :: real
  cf_isi_h1 :: real
  cf_isi_h2 :: real
  cf_lane_skew_max_ui :: nat
  cf_deskew_depth_ui :: nat
  cf_extra_flit_error_rate :: real
  cf_cdr_relock_ui :: nat
  cf_cdr_loss_error_fraction :: real
  cf_cdr_loss_bad_flit_threshold :: nat
  cf_cdr_unlocked_noise_multiplier :: real
  cf_nak_repeat_frames :: nat
  cf_seed :: u32
  cf_max_time_ui :: nat
  cf_verbose :: bool
  cf_csv_path :: string

definition Config_init :: Config where
  "Config_init = \<lparr>cf_flit_count = 2000, cf_flit_format = Standard256, cf_payload_file = [], cf_response_file = [],
     cf_memory_delay_ui = 32, cf_num_lanes = 16, cf_lane_rate_gtps = 24, cf_modulation = PAM4,
     cf_fdi_queue_size = 64, cf_retry_buffer_size = 64, cf_tx_pipe_ui = 4, cf_rx_pipe_ui = 4,
     cf_channel_ui = 8, cf_feedback_ui = 32, cf_train_ui = 512, cf_fdi_interval_ui = 0,
     cf_awgn_sigma = 5 / 100, cf_jitter_sigma_ui = 1 / 100, cf_jitter_isi_gain = 40 / 100,
     cf_isi_h0 = 1, cf_isi_h1 = 8 / 100, cf_isi_h2 = 3 / 100, cf_lane_skew_max_ui = 2, cf_deskew_depth_ui = 8,
     cf_extra_flit_error_rate = 0, cf_cdr_relock_ui = 512, cf_cdr_loss_error_fraction = 10 / 100,
     cf_cdr_loss_bad_flit_threshold = 4, cf_cdr_unlocked_noise_multiplier = 4, cf_nak_repeat_frames = 8,
     cf_seed = 7, cf_max_time_ui = 50000000, cf_verbose = False, cf_csv_path = []\<rparr>"

definition bits_per_ui :: "Config \<Rightarrow> nat" where
  "bits_per_ui cfg = (if cf_modulation cfg = PAM4 then 2 else 1)"

definition flit_bytes :: "Config \<Rightarrow> nat" where
  "flit_bytes cfg = (if cf_flit_format cfg = Compact68 then 68 else 256)"

definition payload_bytes :: "Config \<Rightarrow> nat" where
  "payload_bytes cfg = (if cf_flit_format cfg = AouFormat6 then 250
     else if cf_flit_format cfg = Standard256 then 236 else 64)"

definition flit_bits :: "Config \<Rightarrow> nat" where
  "flit_bits cfg = flit_bytes cfg * 8"

definition serialize_ui :: "Config \<Rightarrow> nat" where
  "serialize_ui cfg = (let per_ui = cf_num_lanes cfg * bits_per_ui cfg in (flit_bits cfg + per_ui - 1) div per_ui)"

definition ui_fs :: "Config \<Rightarrow> real" where
  "ui_fs cfg = 10 ^ 6 / cf_lane_rate_gtps cfg"

definition flit_efficiency :: "Config \<Rightarrow> real" where
  "flit_efficiency cfg = real (payload_bytes cfg) / real (flit_bytes cfg)"

definition require_valid_config :: "Config \<Rightarrow> unit res" where
  "require_valid_config cfg =
     (if cf_num_lanes cfg = 0 then Inl (RuntimeError ''num_lanes must be positive'')
      else if cf_lane_rate_gtps cfg \<le> 0 then Inl (RuntimeError ''lane_rate_gtps must be positive'')
      else if cf_fdi_queue_size cfg = 0 then Inl (RuntimeError ''fdi_queue_size must be positive'')
      else if cf_retry_buffer_size cfg = 0 \<or> cf_retry_buffer_size cfg > 127
      then Inl (RuntimeError ''retry_buffer_size must be in [1,127] (7-bit seq window)'')
      else if cf_flit_count cfg = 0 then Inl (RuntimeError ''flit_count must be positive'')
      else if cf_cdr_loss_bad_flit_threshold cfg = 0
      then Inl (RuntimeError ''cdr_loss_bad_flit_threshold must be positive'')
      else if cf_nak_repeat_frames cfg = 0 then Inl (RuntimeError ''nak_repeat_frames must be positive'')
      else Inr ())"

section \<open>CRC and workload generator\<close>

definition crc_shift :: "u16 \<Rightarrow> u16" where
  "crc_shift crc = (if crc AND 0x8000 \<noteq> 0 then push_bit 1 crc XOR 0x1021 else push_bit 1 crc)"

definition crc_byte :: "u8 \<Rightarrow> u16 \<Rightarrow> u16" where
  "crc_byte b crc = (crc_shift ^^ 8) (crc XOR push_bit 8 (ucast b))"

definition crc16_ccitt :: "u8 list \<Rightarrow> nat \<Rightarrow> u16" where
  "crc16_ccitt data n = fold crc_byte (take n data) 0xFFFF"

definition splitmix64 :: "u64 \<Rightarrow> u64" where
  "splitmix64 x0 =
     (let x = x0 + 0x9e3779b97f4a7c15;
          x = (x XOR drop_bit 30 x) * 0xbf58476d1ce4e5b9;
          x = (x XOR drop_bit 27 x) * 0x94d049bb133111eb
      in x XOR drop_bit 31 x)"

definition fill_payload_step :: "nat \<Rightarrow> nat \<Rightarrow> u8 list \<times> u64 \<Rightarrow> u8 list \<times> u64" where
  "fill_payload_step off i bs = (let (bytes, s) = bs;
     s = (if i mod 8 = 0 then splitmix64 (s + of_nat i) else s)
     in (bytes[off + i := ucast (drop_bit ((i mod 8) * 8) s AND 0xFF)], s))"

definition fill_payload :: "u8 list \<Rightarrow> nat \<Rightarrow> nat \<Rightarrow> u64 \<Rightarrow> u8 list" where
  "fill_payload bytes off len transaction_id =
     fst (fold (fill_payload_step off) [0..<len] (bytes, splitmix64 (transaction_id XOR 0xC001D00D12345678)))"

section \<open>Building and checking a flit\<close>

definition hi_byte :: "u16 \<Rightarrow> u8" where "hi_byte c = ucast (drop_bit 8 c)"
definition lo_byte :: "u16 \<Rightarrow> u8" where "lo_byte c = ucast (c AND 0xFF)"

definition be16 :: "u8 \<Rightarrow> u8 \<Rightarrow> u16" where
  "be16 h l = push_bit 8 (ucast h) OR ucast l"

definition build_flit :: "Config \<Rightarrow> nat \<Rightarrow> u8 list \<Rightarrow> bool \<Rightarrow> u8 list res" where
  "build_flit cfg seq payload replay =
     (if length payload > payload_bytes cfg
      then Inl (RuntimeError ''FDI payload exceeds configured flit payload capacity'')
      else if cf_flit_format cfg = AouFormat6 then
        if length payload \<noteq> 250 then Inl (RuntimeError ''AoU PLP must be exactly 250B'')
        else
          let frame = scatter payload [of_nat seq, if replay then 1 else 0] [0, 0, 0, 0];
              ca = crc16_ccitt frame 126;
              cb = crc16_ccitt (drop 128 frame) 126
          in Inr (frame[126 := hi_byte ca, 127 := lo_byte ca, 254 := hi_byte cb, 255 := lo_byte cb])
      else
        let b = replicate (flit_bytes cfg) 0;
            b = b[0 := of_nat seq, 1 := (if replay then 1 else 0)];
            b = copy_n payload 0 (length payload) 2 b
        in if cf_flit_format cfg = Standard256 then
             let ca = crc16_ccitt b 128;
                 cb = crc16_ccitt (drop 128 b) 124
             in Inr (b[252 := hi_byte ca, 253 := lo_byte ca, 254 := hi_byte cb, 255 := lo_byte cb])
           else
             let c = crc16_ccitt b 66
             in Inr (b[66 := hi_byte c, 67 := lo_byte c]))"

record FlitCheck =
  fc_crc_ok :: bool
  fc_seq8 :: u8
  fc_replay_flag :: bool

definition FlitCheck_init :: FlitCheck where
  "FlitCheck_init = \<lparr>fc_crc_ok = False, fc_seq8 = 0, fc_replay_flag = False\<rparr>"

definition check_flit :: "Config \<Rightarrow> u8 list \<Rightarrow> FlitCheck" where
  "check_flit cfg b =
     (if length b \<noteq> flit_bytes cfg then FlitCheck_init
      else
        let r = FlitCheck_init\<lparr>fc_seq8 := b ! 0, fc_replay_flag := (b ! 1 AND 1 \<noteq> 0)\<rparr>
        in if cf_flit_format cfg = AouFormat6 then
             r\<lparr>fc_crc_ok := (crc16_ccitt b 126 = be16 (b ! 126) (b ! 127)
                 \<and> crc16_ccitt (drop 128 b) 126 = be16 (b ! 254) (b ! 255))\<rparr>
           else if cf_flit_format cfg = Standard256 then
             r\<lparr>fc_crc_ok := (crc16_ccitt b 128 = be16 (b ! 252) (b ! 253)
                 \<and> crc16_ccitt (drop 128 b) 124 = be16 (b ! 254) (b ! 255))\<rparr>
           else
             r\<lparr>fc_crc_ok := (crc16_ccitt b 66 = be16 (b ! 66) (b ! 67))\<rparr>)"

section \<open>FDI transactions\<close>

datatype BusinessKind = Request | Response

datatype LinkState = LsReset | LsTraining | LsActive | LsDegraded | LsFailed

text \<open>Simulation times are natural numbers of the kernel's resolution.\<close>

record FdiFlit =
  fd_payload :: "u8 list"
  fd_valid_bytes :: nat
  fd_transaction_id :: nat
  fd_vc :: u8
  fd_kind :: BusinessKind
  fd_transaction_start :: nat
  fd_fdi_time :: nat

section \<open>The CRC detects every change of one byte\<close>

lemma xor_right_cancel: "(a :: u16) XOR c = b XOR c \<Longrightarrow> a = b"
proof -
  assume "a XOR c = b XOR c"
  then have "(a XOR c) XOR c = (b XOR c) XOR c"
    by simp
  then show ?thesis
    by (simp add: xor.assoc)
qed

lemma crc_shift_top: "x AND 0x8000 \<noteq> 0 \<longleftrightarrow> bit (x :: u16) 15"
  using and_exp_eq_0_iff_not_bit [of x 15] by simp

lemma crc_shift_inj:
  assumes "crc_shift a = crc_shift b"
  shows "a = b"
proof -
  have low: "\<not> bit (push_bit 1 x) 0" for x :: u16
    by (simp only: bit_push_bit_iff) simp
  have one: "bit (0x1021 :: u16) 0"
    by simp
  have "bit (crc_shift x) 0 = bit x 15" for x
    by (simp only: crc_shift_def crc_shift_top bit_xor_iff if_distrib [of "\<lambda>w. bit w 0"] low one)
       (auto simp: low)
  then have top: "bit a 15 = bit b 15"
    using assms by metis
  then have p: "push_bit 1 a = push_bit 1 b"
    using assms unfolding crc_shift_def crc_shift_top
    by (cases "bit b 15") (simp_all only: if_True if_False simp_thms, erule xor_right_cancel)
  have "bit a n = bit b n" if "n < 15" for n
  proof -
    have "bit (push_bit 1 a) (Suc n) = bit (push_bit 1 b) (Suc n)"
      by (simp only: p)
    with that show ?thesis
      by (simp only: bit_push_bit_iff) simp
  qed
  moreover have "n = 15" if "n < LENGTH(16)" "\<not> n < 15" for n :: nat
    using that by simp
  ultimately show ?thesis
    using top by (intro bit_word_eqI) blast
qed

lemma crc_shift_pow_inj: "(crc_shift ^^ n) a = (crc_shift ^^ n) b \<Longrightarrow> a = b"
  by (induction n) (auto dest: crc_shift_inj)

lemma crc_byte_inj:
  "crc_byte b x = crc_byte b y \<Longrightarrow> x = y" "crc_byte b x = crc_byte c x \<Longrightarrow> b = c"
proof -
  show "crc_byte b x = crc_byte b y \<Longrightarrow> x = y"
    unfolding crc_byte_def by (drule crc_shift_pow_inj) (rule xor_right_cancel)
  assume "crc_byte b x = crc_byte c x"
  then have "push_bit 8 (ucast b :: u16) = push_bit 8 (ucast c)"
    unfolding crc_byte_def xor.commute [of x] by - (drule crc_shift_pow_inj, rule xor_right_cancel)
  note p = this
  have "bit b n = bit c n" if "n < 8" for n
  proof -
    have "bit (push_bit 8 (ucast b :: u16)) (n + 8) = bit (push_bit 8 (ucast c :: u16)) (n + 8)"
      by (simp only: p)
    with that show ?thesis
      by (simp only: bit_push_bit_iff bit_ucast_iff) simp
  qed
  then show "b = c"
    by (intro bit_word_eqI) simp
qed

lemma fold_crc_inj: "fold crc_byte xs a = fold crc_byte xs b \<Longrightarrow> a = b"
  by (induction xs arbitrary: a b) (auto dest: crc_byte_inj(1))

lemma crc16_change:
  assumes "i < n" and "n \<le> length d" and "x \<noteq> d ! i"
  shows "crc16_ccitt (d[i := x]) n \<noteq> crc16_ccitt d n"
proof
  assume e: "crc16_ccitt (d[i := x]) n = crc16_ccitt d n"
  have t: "take n d = take i d @ d ! i # drop (Suc i) (take n d)"
    using assms(1,2) id_take_nth_drop [of i "take n d"] by simp
  have "take n (d[i := x]) = take i d @ x # drop (Suc i) (take n d)"
    using assms(1,2) upd_conv_take_nth_drop [of i "take n d" x] by (simp add: take_update_swap)
  with e t have "fold crc_byte (take i d @ x # drop (Suc i) (take n d)) 0xFFFF
      = fold crc_byte (take i d @ d ! i # drop (Suc i) (take n d)) 0xFFFF"
    by (simp only: crc16_ccitt_def)
  then have "crc_byte x (fold crc_byte (take i d) 0xFFFF) = crc_byte (d ! i) (fold crc_byte (take i d) 0xFFFF)"
    by (auto dest: fold_crc_inj)
  with assms(3) show False
    by (auto dest: crc_byte_inj(2))
qed

lemma be16_parts: "be16 (hi_byte c) (lo_byte c) = c"
proof -
  have m: "(0xFF :: u16) = mask 8"
    by (simp add: mask_eq_exp_minus_1)
  show ?thesis
    unfolding be16_def hi_byte_def lo_byte_def m
    by (intro bit_word_eqI)
       (auto simp: bit_or_iff bit_and_iff bit_push_bit_iff bit_ucast_iff bit_drop_bit_eq bit_mask_iff)
qed

section \<open>What a built flit carries\<close>

lemma overwrite_four:
  "length F = 256 \<Longrightarrow> (F[126 := x, 127 := y, 254 := z, 255 := w])[126 := a, 127 := b, 254 := c, 255 := d]
     = F[126 := a, 127 := b, 254 := c, 255 := d]"
  for F :: "u8 list"
  by (rule nth_equalityI) (auto simp: nth_list_update)

lemma scatter_crc:
  "(scatter p fh [0, 0, 0, 0])[126 := a, 127 := b, 254 := c, 255 := d] = scatter p fh [a, b, c, d]"
proof -
  obtain F where F: "length F = 256" "scatter p fh crc = F[126 := crc ! 0, 127 := crc ! 1, 254 := crc ! 2, 255 := crc ! 3]" for crc
  proof
    let ?F = "fold (\<lambda>block. copy_n p (10 + block * 60) 60 (block * 64 + 2)) [0..<4]
      (fold (\<lambda>i d. d[ph_offsets ! i := p ! i]) [0..<length ph_offsets] (copy_n fh 0 2 0 (replicate 256 0)))"
    show e: "scatter p fh crc = ?F[126 := crc ! 0, 127 := crc ! 1, 254 := crc ! 2, 255 := crc ! 3]" for crc
      by (simp only: scatter_def Let_def)
    show "length ?F = 256"
      using length_scatter [of p fh "[]"] unfolding e by simp
  qed
  have n: "[x, y, z, w] ! 0 = x" "[x, y, z, w] ! 1 = y" "[x, y, z, w] ! 2 = z" "[x, y, z, w] ! 3 = w" for x y z w :: u8
    by (simp_all add: eval_nat_numeral)
  show ?thesis
    unfolding F(2) n by (rule overwrite_four [OF F(1)])
qed

lemma crc16_update: "n \<le> i \<Longrightarrow> crc16_ccitt (d[i := x]) n = crc16_ccitt d n"
  by (simp add: crc16_ccitt_def)

lemma crc16_drop_update:
  "i < m \<Longrightarrow> crc16_ccitt (drop m (d[i := x])) n = crc16_ccitt (drop m d) n"
  "m + n \<le> i \<Longrightarrow> crc16_ccitt (drop m (d[i := x])) n = crc16_ccitt (drop m d) n"
  by (simp_all add: drop_update_swap crc16_update)

text \<open>The payload bytes of a flit, as the receiving adapter cuts them out.\<close>

definition carried :: "Config \<Rightarrow> u8 list \<Rightarrow> u8 list" where
  "carried cfg b = (if cf_flit_format cfg = AouFormat6 then gather b else take (payload_bytes cfg) (drop 2 b))"

lemma copy_prefix:
  assumes "to + length src \<le> length d"
  shows "take (length src) (drop to (copy_n src 0 (length src) to d)) = src" "j < to \<Longrightarrow> copy_n src 0 (length src) to d ! j = d ! j"
  using assms by (auto intro!: nth_equalityI simp: nth_copy_n)

lemma drop_take_update:
  "to + n \<le> i \<Longrightarrow> take n (drop to (d[i := x])) = take n (drop to d)"
  by (simp add: drop_update_swap)

lemma build_flit_aou:
  assumes "cf_flit_format cfg = AouFormat6" and "length p = payload_bytes cfg"
  shows "\<exists>b. build_flit cfg seq p r = Inr b \<and> length b = flit_bytes cfg \<and> carried cfg b = p \<and>
    check_flit cfg b = \<lparr>fc_crc_ok = True, fc_seq8 = of_nat seq, fc_replay_flag = r\<rparr>"
proof -
  let ?f = "scatter p [of_nat seq, if r then 1 else 0] [0, 0, 0, 0]"
  let ?ca = "crc16_ccitt ?f 126" and ?cb = "crc16_ccitt (drop 128 ?f) 126"
  let ?b = "?f[126 := hi_byte ?ca, 127 := lo_byte ?ca, 254 := hi_byte ?cb, 255 := lo_byte ?cb]"
  have p: "length p = 250"
    using assms by (simp add: payload_bytes_def)
  have b: "build_flit cfg seq p r = Inr ?b"
    using assms p by (simp add: build_flit_def payload_bytes_def Let_def)
  have e: "?b = scatter p [of_nat seq, if r then 1 else 0] [hi_byte ?ca, lo_byte ?ca, hi_byte ?cb, lo_byte ?cb]"
    by (rule scatter_crc)
  have "carried cfg ?b = p"
    unfolding e using gather_scatter [OF p] assms(1) by (simp add: carried_def)
  moreover have "?b ! 0 = of_nat seq" "?b ! 1 = (if r then 1 else 0)" "?b ! 126 = hi_byte ?ca" "?b ! 127 = lo_byte ?ca"
    "?b ! 254 = hi_byte ?cb" "?b ! 255 = lo_byte ?cb"
    unfolding e by (simp_all only: scatter_link_bytes) (simp_all add: eval_nat_numeral)
  moreover have "crc16_ccitt ?b 126 = ?ca" "crc16_ccitt (drop 128 ?b) 126 = ?cb"
    by (simp_all add: crc16_update crc16_drop_update)
  moreover have "length ?b = flit_bytes cfg"
    using assms(1) by (simp add: flit_bytes_def)
  ultimately have "check_flit cfg ?b = \<lparr>fc_crc_ok = True, fc_seq8 = of_nat seq, fc_replay_flag = r\<rparr>"
    using assms(1) unfolding check_flit_def Let_def by (simp only: be16_parts FlitCheck_init_def) simp
  with b \<open>carried cfg ?b = p\<close> \<open>length ?b = flit_bytes cfg\<close> show ?thesis
    by blast
qed

lemma build_flit_std:
  assumes "cf_flit_format cfg = Standard256" and "length p = payload_bytes cfg"
  shows "\<exists>b. build_flit cfg seq p r = Inr b \<and> length b = flit_bytes cfg \<and> carried cfg b = p \<and>
    check_flit cfg b = \<lparr>fc_crc_ok = True, fc_seq8 = of_nat seq, fc_replay_flag = r\<rparr>"
proof -
  let ?f = "copy_n p 0 (length p) 2 ((replicate 256 0)[0 := of_nat seq, 1 := (if r then 1 else 0)])"
  let ?ca = "crc16_ccitt ?f 128" and ?cb = "crc16_ccitt (drop 128 ?f) 124"
  let ?b = "?f[252 := hi_byte ?ca, 253 := lo_byte ?ca, 254 := hi_byte ?cb, 255 := lo_byte ?cb]"
  have p: "length p = 236"
    using assms by (simp add: payload_bytes_def)
  have b: "build_flit cfg seq p r = Inr ?b"
    using assms p by (simp add: build_flit_def payload_bytes_def flit_bytes_def Let_def)
  have c: "carried cfg ?b = p"
    using copy_prefix(1) [of 2 p "(replicate 256 0)[0 := of_nat seq, 1 := (if r then 1 else 0)]"] assms(1) p
    by (simp add: carried_def payload_bytes_def drop_take_update)
  have "?f ! 0 = of_nat seq" "?f ! 1 = (if r then 1 else 0)"
    using p by (simp_all add: nth_copy_n)
  then have n: "?b ! 0 = of_nat seq" "?b ! 1 = (if r then 1 else 0)" "?b ! 252 = hi_byte ?ca" "?b ! 253 = lo_byte ?ca"
    "?b ! 254 = hi_byte ?cb" "?b ! 255 = lo_byte ?cb"
    by (simp_all add: nth_list_update)
  have k: "crc16_ccitt ?b 128 = ?ca" "crc16_ccitt (drop 128 ?b) 124 = ?cb"
    by (simp_all add: crc16_update crc16_drop_update)
  have l: "length ?b = flit_bytes cfg"
    using assms(1) by (simp add: flit_bytes_def)
  have "check_flit cfg ?b = \<lparr>fc_crc_ok = True, fc_seq8 = of_nat seq, fc_replay_flag = r\<rparr>"
    using assms(1) l unfolding check_flit_def Let_def n k by (simp add: be16_parts FlitCheck_init_def)
  with b c l show ?thesis
    by blast
qed

lemma build_flit_compact:
  assumes "cf_flit_format cfg = Compact68" and "length p = payload_bytes cfg"
  shows "\<exists>b. build_flit cfg seq p r = Inr b \<and> length b = flit_bytes cfg \<and> carried cfg b = p \<and>
    check_flit cfg b = \<lparr>fc_crc_ok = True, fc_seq8 = of_nat seq, fc_replay_flag = r\<rparr>"
proof -
  let ?f = "copy_n p 0 (length p) 2 ((replicate 68 0)[0 := of_nat seq, 1 := (if r then 1 else 0)])"
  let ?c = "crc16_ccitt ?f 66"
  let ?b = "?f[66 := hi_byte ?c, 67 := lo_byte ?c]"
  have p: "length p = 64"
    using assms by (simp add: payload_bytes_def)
  have b: "build_flit cfg seq p r = Inr ?b"
    using assms p by (simp add: build_flit_def payload_bytes_def flit_bytes_def Let_def)
  have c: "carried cfg ?b = p"
    using copy_prefix(1) [of 2 p "(replicate 68 0)[0 := of_nat seq, 1 := (if r then 1 else 0)]"] assms(1) p
    by (simp add: carried_def payload_bytes_def drop_take_update)
  have "?f ! 0 = of_nat seq" "?f ! 1 = (if r then 1 else 0)"
    using p by (simp_all add: nth_copy_n)
  then have n: "?b ! 0 = of_nat seq" "?b ! 1 = (if r then 1 else 0)" "?b ! 66 = hi_byte ?c" "?b ! 67 = lo_byte ?c"
    by (simp_all add: nth_list_update)
  have k: "crc16_ccitt ?b 66 = ?c"
    by (simp add: crc16_update)
  have l: "length ?b = flit_bytes cfg"
    using assms(1) by (simp add: flit_bytes_def)
  have "check_flit cfg ?b = \<lparr>fc_crc_ok = True, fc_seq8 = of_nat seq, fc_replay_flag = r\<rparr>"
    using assms(1) l unfolding check_flit_def Let_def n k by (simp add: be16_parts FlitCheck_init_def)
  with b c l show ?thesis
    by blast
qed

lemma build_flit_ok:
  assumes "length p = payload_bytes cfg"
  obtains b where "build_flit cfg seq p r = Inr b" "length b = flit_bytes cfg" "carried cfg b = p"
    "check_flit cfg b = \<lparr>fc_crc_ok = True, fc_seq8 = of_nat seq, fc_replay_flag = r\<rparr>"
  using build_flit_aou [of cfg p seq r] build_flit_std [of cfg p seq r] build_flit_compact [of cfg p seq r] assms
  by (cases "cf_flit_format cfg") blast+

lemma be16_inj: "be16 h l = be16 h' l' \<Longrightarrow> h = h' \<and> l = l'"
proof -
  have p: "hi_byte (be16 h l) = h \<and> lo_byte (be16 h l) = l" for h l
  proof -
    have m: "(0xFF :: u16) = mask 8"
      by (simp add: mask_eq_exp_minus_1)
    show ?thesis
      unfolding be16_def hi_byte_def lo_byte_def m
      by (intro conjI bit_word_eqI)
         (auto simp: bit_or_iff bit_and_iff bit_push_bit_iff bit_ucast_iff bit_drop_bit_eq bit_mask_iff dest: bit_imp_le_length)
  qed
  assume "be16 h l = be16 h' l'"
  with p [of h l] p [of h' l'] show ?thesis
    by metis
qed

text \<open>One CRC group: \<open>n\<close> covered bytes from \<open>m\<close> on, the check value in bytes \<open>j\<close> and \<open>j + 1\<close>.\<close>

lemma group_change:
  assumes ok: "crc16_ccitt (drop m b) n = be16 (b ! j) (b ! Suc j)" and len: "m + n \<le> j" "Suc j < length b"
    and i: "m \<le> i \<and> i < m + n \<or> i = j \<or> i = Suc j" and x: "x \<noteq> b ! i"
  shows "crc16_ccitt (drop m (b[i := x])) n \<noteq> be16 (b[i := x] ! j) (b[i := x] ! Suc j)"
proof (cases "m \<le> i \<and> i < m + n")
  case True
  then have "crc16_ccitt ((drop m b)[i - m := x]) n \<noteq> crc16_ccitt (drop m b) n"
    using len x by (intro crc16_change) auto
  moreover have "b[i := x] ! j = b ! j" "b[i := x] ! Suc j = b ! Suc j"
    using True len by auto
  ultimately show ?thesis
    using True ok by (simp add: drop_update_swap)
next
  case False
  then have "crc16_ccitt (drop m (b[i := x])) n = crc16_ccitt (drop m b) n"
    using i len by (auto simp: crc16_drop_update)
  moreover have "be16 (b[i := x] ! j) (b[i := x] ! Suc j) \<noteq> be16 (b ! j) (b ! Suc j)"
    using False i len x by (auto simp: nth_list_update dest: be16_inj)
  ultimately show ?thesis
    using ok by simp
qed

lemma check_flit_change:
  assumes ok: "fc_crc_ok (check_flit cfg b)" and i: "i < length b" and x: "x \<noteq> b ! i"
  shows "\<not> fc_crc_ok (check_flit cfg (b[i := x]))"
proof -
  have l: "length b = flit_bytes cfg"
    using ok by (auto simp: check_flit_def FlitCheck_init_def split: if_splits)
  note g = group_change [of 0 b 126 126] group_change [of 128 b 126 254] group_change [of 0 b 128 252]
    group_change [of 128 b 124 254] group_change [of 0 b 66 66]
  show ?thesis
  proof (cases "cf_flit_format cfg")
    case AouFormat6
    then have "i < 126 \<or> i = 126 \<or> i = 127 \<or> 128 \<le> i \<and> i < 254 \<or> i = 254 \<or> i = 255"
      using i l by (auto simp: flit_bytes_def)
    then show ?thesis
      using ok AouFormat6 l g(1,2) [of i x] x by (auto simp: check_flit_def Let_def flit_bytes_def)
  next
    case Standard256
    then have "i < 128 \<or> i = 252 \<or> i = 253 \<or> 128 \<le> i \<and> i < 252 \<or> i = 254 \<or> i = 255"
      using i l by (auto simp: flit_bytes_def)
    then show ?thesis
      using ok Standard256 l g(3,4) [of i x] x by (auto simp: check_flit_def Let_def flit_bytes_def)
  next
    case Compact68
    then have "i < 66 \<or> i = 66 \<or> i = 67"
      using i l by (auto simp: flit_bytes_def)
    then show ?thesis
      using ok Compact68 l g(5) [of i x] x by (auto simp: check_flit_def Let_def flit_bytes_def)
  qed
qed

section \<open>Properties\<close>

text \<open>
  For every flit format, sequence number and replay flag, a payload of the configured size is
  built into a flit of the configured length that passes the receiver's check with its CRC, reports
  the low eight bits of the sequence number and the replay flag, and yields the same payload.
\<close>

theorem ucie_flit_roundtrip:
  assumes "length p = payload_bytes cfg"
  shows "\<exists>b. build_flit cfg seq p r = Inr b \<and> length b = flit_bytes cfg \<and> carried cfg b = p \<and>
    check_flit cfg b = \<lparr>fc_crc_ok = True, fc_seq8 = of_nat seq, fc_replay_flag = r\<rparr>"
  using build_flit_ok [OF assms] by metis

theorem ucie_flit_roundtrip_witness:
  "\<exists>b. build_flit (Config_init\<lparr>cf_flit_format := AouFormat6\<rparr>) 300 (replicate 250 7) True = Inr b
    \<and> carried (Config_init\<lparr>cf_flit_format := AouFormat6\<rparr>) b = replicate 250 7
    \<and> fc_seq8 (check_flit (Config_init\<lparr>cf_flit_format := AouFormat6\<rparr>) b) = 44"
proof -
  have "length (replicate 250 (7 :: u8)) = payload_bytes (Config_init\<lparr>cf_flit_format := AouFormat6\<rparr>)"
    by (simp add: payload_bytes_def)
  from ucie_flit_roundtrip [OF this, of 300 True] show ?thesis
    by auto
qed

text \<open>
  C22: whatever flit passes the check (whether built by the sender or not), changing any single byte
  of it, header, payload, padding or check value alike, to any other value makes the check fail, in
  every flit format. In particular the injected single-bit errors are always detected.
\<close>

theorem crc_detects_byte_change:
  assumes "fc_crc_ok (check_flit cfg b)" and "i < length b" and "x \<noteq> b ! i"
  shows "\<not> fc_crc_ok (check_flit cfg (b[i := x]))"
  using assms by (rule check_flit_change)

theorem crc_detects_byte_change_witness:
  "\<exists>b. build_flit Config_init 3 (replicate 236 9) False = Inr b \<and> \<not> fc_crc_ok (check_flit Config_init (b[100 := b ! 100 + 1]))"
proof -
  have "length (replicate 236 (9 :: u8)) = payload_bytes Config_init"
    by (simp add: payload_bytes_def Config_init_def)
  then obtain b where b: "build_flit Config_init 3 (replicate 236 9) False = Inr b" "length b = flit_bytes Config_init"
    "check_flit Config_init b = \<lparr>fc_crc_ok = True, fc_seq8 = of_nat 3, fc_replay_flag = False\<rparr>"
    by (rule build_flit_ok)
  have "\<not> fc_crc_ok (check_flit Config_init (b[100 := b ! 100 + 1]))"
    by (rule crc_detects_byte_change) (use b in \<open>simp_all add: flit_bytes_def Config_init_def\<close>)
  with b(1) show ?thesis
    by blast
qed

end
