(* ===== verification/Ucie_Adapter.thy ===== *)
theory Ucie_Adapter
  imports Ucie_Common Aou_Wire Sc_Fifo
begin

text \<open>
  The adapter between the bridge's flit handshake and the FDI queues of the link
  (axi_StorageStacked/storage_axi/link/ucie_aou_adapter.h): the configuration both sides must share, and one
  pass of the loop of \<open>transfer\<close>.
\<close>

section \<open>Configuration\<close>

definition make_aou_ucie_config :: Config where
  "make_aou_ucie_config = Config_init\<lparr>cf_flit_format := AouFormat6, cf_num_lanes := LINK_LANES,
     cf_lane_rate_gtps := of_rat LINK_RATE_GTPS,
     cf_modulation := (if LINK_BITS_PER_SYMBOL = 1 then NRZ else PAM4)\<rparr>"

definition require_aou_ucie_config :: "Config \<Rightarrow> unit res" where
  "require_aou_ucie_config cfg =
     rbind (require_valid_config cfg) (\<lambda>_.
       if cf_flit_format cfg \<noteq> AouFormat6 \<or> cf_num_lanes cfg \<noteq> LINK_LANES
          \<or> bits_per_ui cfg \<noteq> LINK_BITS_PER_SYMBOL
          \<or> \<bar>cf_lane_rate_gtps cfg - of_rat LINK_RATE_GTPS\<bar> > 1 / 10 ^ 9
       then Inl (InvalidArgument ''UCIe format/rate differs from the AXI2Flit build configuration'')
       else Inr ())"

section \<open>The transfer thread\<close>

record UcieAouAdapter =
  ad_direction :: BusinessKind
  ad_ready :: bool
  ad_held :: bool
  ad_trace_id :: nat
  ad_tx_ready :: bool
  ad_rx :: FlitTransfer

definition UcieAouAdapter_new :: "Config \<Rightarrow> BusinessKind \<Rightarrow> UcieAouAdapter res" where
  "UcieAouAdapter_new cfg direction = rbind (require_aou_ucie_config cfg) (\<lambda>_.
     Inr \<lparr>ad_direction = direction, ad_ready = False, ad_held = False, ad_trace_id = 0, ad_tx_ready = False,
       ad_rx = FlitTransfer_none\<rparr>)"

text \<open>The part of \<open>transfer\<close> before its loop, run at every reset.\<close>

definition ad_reset :: "UcieAouAdapter \<Rightarrow> UcieAouAdapter" where
  "ad_reset s = s\<lparr>ad_ready := False, ad_held := False, ad_trace_id := 0, ad_tx_ready := False,
     ad_rx := FlitTransfer_none\<rparr>"

text \<open>\<open>catch (const std::exception& e) { SC_REPORT_FATAL(...); }\<close>\<close>

definition report_fatal :: "'a res \<Rightarrow> 'a res" where
  "report_fatal r = (case r of Inr x \<Rightarrow> Inr x
     | Inl (InvalidArgument what) \<Rightarrow> Inl (ScFatal what) | Inl (RuntimeError what) \<Rightarrow> Inl (ScFatal what)
     | Inl (OverflowError what) \<Rightarrow> Inl (ScFatal what) | Inl (OutOfRange what) \<Rightarrow> Inl (ScFatal what)
     | Inl (LogicError what) \<Rightarrow> Inl (ScFatal what) | Inl e \<Rightarrow> Inl e)"

definition fdi_of_bytes :: "BusinessKind \<Rightarrow> nat \<Rightarrow> nat \<Rightarrow> u8 list \<Rightarrow> FdiFlit" where
  "fdi_of_bytes kind tid now bytes = \<lparr>fd_payload = bytes, fd_valid_bytes = length bytes, fd_transaction_id = tid,
     fd_vc = 0, fd_kind = kind, fd_transaction_start = now, fd_fdi_time = now\<rparr>"

definition transfer_tx :: "nat \<Rightarrow> FlitTransfer \<Rightarrow> UcieAouAdapter \<times> FdiFlit sc_fifo \<Rightarrow> (UcieAouAdapter \<times> FdiFlit sc_fifo) res" where
  "transfer_tx now tx sq =
     (let (s, fifo_tx) = sq
      in if ad_ready s \<and> ft_valid tx then
           rbind (serialize_aou (ft_flit tx)) (\<lambda>bytes.
             let (ok, fifo_tx) = nb_write (fdi_of_bytes (ad_direction s) (ad_trace_id s) now bytes) fifo_tx
             in if ok then Inr (s\<lparr>ad_trace_id := ad_trace_id s + 1\<rparr>, fifo_tx)
                else Inl (RuntimeError ''FDI FIFO violates the single-writer reservation''))
         else Inr (s, fifo_tx))"

definition transfer_rx :: "bool \<Rightarrow> bool \<Rightarrow> UcieAouAdapter \<times> FdiFlit sc_fifo \<Rightarrow> (UcieAouAdapter \<times> FdiFlit sc_fifo) res" where
  "transfer_rx rx_ready active sq =
     (let (s, fifo_rx) = sq;
          s = (if ad_held s \<and> rx_ready then s\<lparr>ad_held := False, ad_rx := FlitTransfer_none\<rparr> else s)
      in if active \<and> \<not> ad_held s then
           case nb_read fifo_rx of
             (None, fifo_rx) \<Rightarrow> Inr (s, fifo_rx)
           | (Some fdi, fifo_rx) \<Rightarrow>
               if length (fd_payload fdi) \<noteq> 250 \<or> fd_valid_bytes fdi \<noteq> 250
               then Inl (InvalidArgument ''inbound AoU FDI must be exactly 250B'')
               else rbind (deserialize_aou (fd_payload fdi)) (\<lambda>flit.
                 Inr (s\<lparr>ad_rx := FlitTransfer_of flit, ad_held := True\<rparr>, fifo_rx))
         else Inr (s, fifo_rx))"

definition transfer :: "nat \<Rightarrow> LinkState \<Rightarrow> FlitTransfer \<Rightarrow> bool \<Rightarrow> UcieAouAdapter \<times> FdiFlit sc_fifo \<times> FdiFlit sc_fifo
    \<Rightarrow> (UcieAouAdapter \<times> FdiFlit sc_fifo \<times> FdiFlit sc_fifo) res" where
  "transfer now state tx rx_ready sqq =
     (let (s, fifo_tx, fifo_rx) = sqq; active = (state = LsActive \<or> state = LsDegraded)
      in report_fatal (rbind (transfer_tx now tx (s, fifo_tx)) (\<lambda>(s, fifo_tx).
           rbind (transfer_rx rx_ready active (s, fifo_rx)) (\<lambda>(s, fifo_rx).
             let ready = (active \<and> num_free fifo_tx > 0)
             in Inr (s\<lparr>ad_ready := ready, ad_tx_ready := ready\<rparr>, fifo_tx, fifo_rx)))))"

section \<open>The configuration check\<close>

lemma make_aou_config_accepted: "require_aou_ucie_config make_aou_ucie_config = Inr ()"
  by (simp add: require_aou_ucie_config_def make_aou_ucie_config_def require_valid_config_def Config_init_def
      bits_per_ui_def LINK_LANES_def LINK_BITS_PER_SYMBOL_def LINK_RATE_GTPS_def)

lemma default_config_rejected: "require_aou_ucie_config Config_init \<noteq> Inr ()"
  by (simp add: require_aou_ucie_config_def require_valid_config_def Config_init_def)

section \<open>The adapter in its environment\<close>

text \<open>
  A clock edge with any values on the input signals, the link reading the transmit queue and writing
  the receive queue, and the update phases of the queues. The logs record the flits the handshake
  accepted, the FDI flits the link took and gave, and the flits the consumer took.
\<close>

record ad_sys =
  as_ad :: UcieAouAdapter
  as_tx :: "FdiFlit sc_fifo"
  as_rx :: "FdiFlit sc_fifo"
  as_accepted :: "(nat \<times> AouFlit) list"
  as_taken :: "FdiFlit list"
  as_given :: "FdiFlit list"
  as_consumed :: "AouFlit list"

definition as_init :: "UcieAouAdapter \<Rightarrow> nat \<Rightarrow> nat \<Rightarrow> ad_sys" where
  "as_init ad ntx nrx = \<lparr>as_ad = ad_reset ad, as_tx = fifo_new ntx, as_rx = fifo_new nrx, as_accepted = [],
     as_taken = [], as_given = [], as_consumed = []\<rparr>"

inductive ad_step :: "ad_sys \<Rightarrow> ad_sys \<Rightarrow> bool" where
  a_clock: "transfer now st tx rdy (as_ad y, as_tx y, as_rx y) = Inr (s', qt, qr) \<Longrightarrow>
    ad_step y (y\<lparr>as_ad := s', as_tx := qt, as_rx := qr,
      as_accepted := as_accepted y @ (if ad_ready (as_ad y) \<and> ft_valid tx then [(now, ft_flit tx)] else []),
      as_consumed := as_consumed y @ (if ad_held (as_ad y) \<and> rdy then [ft_flit (ad_rx (as_ad y))] else [])\<rparr>)"
| a_take: "nb_read (as_tx y) = (Some f, q) \<Longrightarrow> ad_step y (y\<lparr>as_tx := q, as_taken := as_taken y @ [f]\<rparr>)"
| a_give: "nb_write f (as_rx y) = (True, q) \<Longrightarrow> ad_step y (y\<lparr>as_rx := q, as_given := as_given y @ [f]\<rparr>)"
| a_update: "ad_step y (y\<lparr>as_tx := fifo_update (as_tx y), as_rx := fifo_update (as_rx y)\<rparr>)"

text \<open>The FDI flits that stand for the accepted flits: numbered from 0, with the flit's bytes.\<close>

definition fdi_stream :: "BusinessKind \<Rightarrow> (nat \<times> AouFlit) list \<Rightarrow> FdiFlit list \<Rightarrow> bool" where
  "fdi_stream kind fs ds \<longleftrightarrow> length ds = length fs \<and> (\<forall>i < length fs. \<exists>b. serialize_aou (snd (fs ! i)) = Inr b
     \<and> ds ! i = fdi_of_bytes kind i (fst (fs ! i)) b)"

definition held_flit :: "UcieAouAdapter \<Rightarrow> AouFlit list" where
  "held_flit s = (if ad_held s then [ft_flit (ad_rx s)] else [])"

definition ad_inv :: "ad_sys \<Rightarrow> bool" where
  "ad_inv y \<longleftrightarrow> fifo_inv (as_tx y) \<and> fifo_inv (as_rx y)
     \<and> (ad_ready (as_ad y) \<longrightarrow> 0 < num_free (as_tx y)) \<and> ad_tx_ready (as_ad y) = ad_ready (as_ad y)
     \<and> ft_valid (ad_rx (as_ad y)) = ad_held (as_ad y)
     \<and> ad_trace_id (as_ad y) = length (as_accepted y)
     \<and> fdi_stream (ad_direction (as_ad y)) (as_accepted y) (as_taken y @ fifo_list (as_tx y))
     \<and> (\<exists>rd. as_given y = rd @ fifo_list (as_rx y)
          \<and> map (\<lambda>d. deserialize_aou (fd_payload d)) rd = map Inr (as_consumed y @ held_flit (as_ad y)))"

lemma ad_inv_init: "UcieAouAdapter_new cfg k = Inr ad \<Longrightarrow> ad_inv (as_init ad ntx nrx)"
  by (simp add: ad_inv_def as_init_def ad_reset_def fdi_stream_def held_flit_def FlitTransfer_none_def)

lemma fdi_stream_snoc:
  assumes "fdi_stream k fs ds" and "serialize_aou f = Inr b"
  shows "fdi_stream k (fs @ [(now, f)]) (ds @ [fdi_of_bytes k (length fs) now b])"
  using assms by (auto simp: fdi_stream_def nth_append less_Suc_eq)


section \<open>The halves of a clock edge\<close>

lemma transfer_tx_space:
  assumes "ad_ready s \<Longrightarrow> 0 < num_free q"
  shows "transfer_tx now tx (s, q) = (if ad_ready s \<and> ft_valid tx then
      rbind (serialize_aou (ft_flit tx)) (\<lambda>b. Inr (s\<lparr>ad_trace_id := ad_trace_id s + 1\<rparr>,
        snd (nb_write (fdi_of_bytes (ad_direction s) (ad_trace_id s) now b) q)))
      else Inr (s, q))"
proof (cases "ad_ready s \<and> ft_valid tx")
  case True
  then have "fst (nb_write f q)" for f
    using sc_fifo.write_after_space [of q f] assms by simp
  then show ?thesis
    using True by (simp add: transfer_tx_def case_prod_unfold)
qed (auto simp: transfer_tx_def)

lemma transfer_tx_Inr:
  assumes "transfer_tx now tx (s, q) = Inr (s', q')" and "ad_ready s \<Longrightarrow> 0 < num_free q" and "fifo_inv q"
    and "ad_trace_id s = length fs" and "fdi_stream (ad_direction s) fs (tk @ fifo_list q)"
  defines "acc \<equiv> (if ad_ready s \<and> ft_valid tx then [(now, ft_flit tx)] else [])"
  shows "s' = s\<lparr>ad_trace_id := length (fs @ acc)\<rparr>" "fifo_inv q'"
    "fdi_stream (ad_direction s) (fs @ acc) (tk @ fifo_list q')"
proof -
  show "s' = s\<lparr>ad_trace_id := length (fs @ acc)\<rparr>"
    using assms(1,4) transfer_tx_space [of s q now tx, OF assms(2)]
    by (auto simp: acc_def rbind_eq_Inr split: if_splits)
  show "fifo_inv q'"
    using assms(1,3) transfer_tx_space [of s q now tx, OF assms(2)] sc_fifo.wr_ok
    by (auto simp: rbind_eq_Inr split: if_splits)
  show "fdi_stream (ad_direction s) (fs @ acc) (tk @ fifo_list q')"
  proof (cases "ad_ready s \<and> ft_valid tx")
    case True
    then obtain b where b: "serialize_aou (ft_flit tx) = Inr b"
        "q' = snd (nb_write (fdi_of_bytes (ad_direction s) (ad_trace_id s) now b) q)"
      using assms(1) transfer_tx_space [of s q now tx, OF assms(2)] by (auto simp: rbind_eq_Inr)
    have "fifo_list q' = fifo_list q @ [fdi_of_bytes (ad_direction s) (length fs) now b]"
      using sc_fifo.fifo_order [of "fdi_of_bytes (ad_direction s) (ad_trace_id s) now b" q]
        sc_fifo.write_after_space [of q "fdi_of_bytes (ad_direction s) (ad_trace_id s) now b"] assms(2,4) True
      by (simp add: b(2))
    then show ?thesis
      using fdi_stream_snoc [OF assms(5) b(1), of now] True by (simp add: acc_def)
  next
    case False
    then show ?thesis
      using assms(1,5) by (auto simp: acc_def transfer_tx_def)
  qed
qed

lemma transfer_rx_Inr:
  assumes "transfer_rx rdy active (s, q) = Inr (s', q')" and "fifo_inv q"
    and "ft_valid (ad_rx s) = ad_held s"
    and "gv = rd @ fifo_list q" and "map (\<lambda>d. deserialize_aou (fd_payload d)) rd = map Inr (cs @ held_flit s)"
  defines "con \<equiv> (if ad_held s \<and> rdy then [ft_flit (ad_rx s)] else [])"
  shows "fifo_inv q'" "ft_valid (ad_rx s') = ad_held s'"
    "ad_direction s' = ad_direction s" "ad_trace_id s' = ad_trace_id s"
    "\<exists>rd. gv = rd @ fifo_list q' \<and> map (\<lambda>d. deserialize_aou (fd_payload d)) rd = map Inr (cs @ con @ held_flit s')"
proof -
  define s1 where "s1 = (if ad_held s \<and> rdy then s\<lparr>ad_held := False, ad_rx := FlitTransfer_none\<rparr> else s)"
  have s1: "ft_valid (ad_rx s1) = ad_held s1" "ad_direction s1 = ad_direction s" "ad_trace_id s1 = ad_trace_id s"
      "cs @ held_flit s = cs @ con @ held_flit s1"
    using assms(3) by (simp_all add: s1_def FlitTransfer_none_def con_def held_flit_def)
  have run: "(if active \<and> \<not> ad_held s1 then case nb_read q of (None, q) \<Rightarrow> Inr (s1, q)
      | (Some fdi, q) \<Rightarrow> if length (fd_payload fdi) \<noteq> 250 \<or> fd_valid_bytes fdi \<noteq> 250
           then Inl (InvalidArgument ''inbound AoU FDI must be exactly 250B'')
           else rbind (deserialize_aou (fd_payload fdi)) (\<lambda>flit.
             Inr (s1\<lparr>ad_rx := FlitTransfer_of flit, ad_held := True\<rparr>, q))
      else Inr (s1, q)) = Inr (s', q')"
    using assms(1) by (simp only: transfer_rx_def Let_def prod.case s1_def)
  consider (same) "s' = s1" "q' = q"
    | (got) fdi flit where "\<not> ad_held s1" "nb_read q = (Some fdi, q')" "deserialize_aou (fd_payload fdi) = Inr flit"
        "s' = s1\<lparr>ad_rx := FlitTransfer_of flit, ad_held := True\<rparr>"
  proof (cases "active \<and> \<not> ad_held s1")
    case True
    obtain o1 q1 where nb: "nb_read q = (o1, q1)" by (cases "nb_read q")
    show ?thesis
    proof (cases o1)
      case None
      then show ?thesis using run True nb sc_fifo.rd_none [of q q1] that(1) by auto
    next
      case (Some fdi)
      then show ?thesis using run True nb that(2) by (auto simp: rbind_eq_Inr split: if_splits)
    qed
  next
    case False
    then show ?thesis using run that(1) by (simp split: if_splits)
  qed
  then have "fifo_inv q' \<and> ft_valid (ad_rx s') = ad_held s' \<and> ad_direction s' = ad_direction s
      \<and> ad_trace_id s' = ad_trace_id s
      \<and> (\<exists>rd. gv = rd @ fifo_list q' \<and> map (\<lambda>d. deserialize_aou (fd_payload d)) rd = map Inr (cs @ con @ held_flit s'))"
  proof cases
    case same
    then show ?thesis using assms(2,4,5) s1 by auto
  next
    case got
    have "fifo_inv q'"
      using sc_fifo.rd_ok [OF assms(2)] got(2) by simp
    moreover have "gv = (rd @ [fdi]) @ fifo_list q'"
      using sc_fifo.rd_some [OF got(2)] assms(4) by simp
    moreover have "map (\<lambda>d. deserialize_aou (fd_payload d)) (rd @ [fdi]) = map Inr (cs @ con @ held_flit s')"
      using assms(5) s1(4) got(1,3,4) by (simp add: held_flit_def FlitTransfer_of_def)
    ultimately show ?thesis
      using got(4) s1(2,3) by (auto simp: FlitTransfer_of_def)
  qed
  then show "fifo_inv q'" "ft_valid (ad_rx s') = ad_held s'" "ad_direction s' = ad_direction s"
      "ad_trace_id s' = ad_trace_id s"
      "\<exists>rd. gv = rd @ fifo_list q' \<and> map (\<lambda>d. deserialize_aou (fd_payload d)) rd = map Inr (cs @ con @ held_flit s')"
    by blast+
qed

lemma report_fatal_eq_Inr [simp]: "report_fatal r = Inr x \<longleftrightarrow> r = Inr x"
  by (auto simp: report_fatal_def split: sum.splits cpp_error.splits)

lemma transfer_eq_Inr:
  "transfer now st tx rdy (s, qt, qr) = Inr (s', qt', qr') \<longleftrightarrow>
     (\<exists>s1 s2. transfer_tx now tx (s, qt) = Inr (s1, qt')
       \<and> transfer_rx rdy (st = LsActive \<or> st = LsDegraded) (s1, qr) = Inr (s2, qr')
       \<and> s' = s2\<lparr>ad_ready := (st = LsActive \<or> st = LsDegraded) \<and> num_free qt' > 0,
            ad_tx_ready := (st = LsActive \<or> st = LsDegraded) \<and> num_free qt' > 0\<rparr>)"
  by (auto simp: transfer_def Let_def rbind_eq_Inr)

lemma ad_clock_inv:
  assumes inv: "ad_inv y" and cy: "transfer now st tx rdy (as_ad y, as_tx y, as_rx y) = Inr (s', qt, qr)"
  shows "ad_inv (y\<lparr>as_ad := s', as_tx := qt, as_rx := qr,
      as_accepted := as_accepted y @ (if ad_ready (as_ad y) \<and> ft_valid tx then [(now, ft_flit tx)] else []),
      as_consumed := as_consumed y @ (if ad_held (as_ad y) \<and> rdy then [ft_flit (ad_rx (as_ad y))] else [])\<rparr>)"
proof -
  let ?s = "as_ad y"
  let ?acc = "if ad_ready ?s \<and> ft_valid tx then [(now, ft_flit tx)] else []"
  let ?con = "if ad_held ?s \<and> rdy then [ft_flit (ad_rx ?s)] else []"
  obtain s1 s2 where s: "transfer_tx now tx (?s, as_tx y) = Inr (s1, qt)"
      "transfer_rx rdy (st = LsActive \<or> st = LsDegraded) (s1, as_rx y) = Inr (s2, qr)"
      "s' = s2\<lparr>ad_ready := (st = LsActive \<or> st = LsDegraded) \<and> num_free qt > 0,
            ad_tx_ready := (st = LsActive \<or> st = LsDegraded) \<and> num_free qt > 0\<rparr>"
    using cy unfolding transfer_eq_Inr by blast
  note i = inv [unfolded ad_inv_def]
  have ti: "s1 = ?s\<lparr>ad_trace_id := length (as_accepted y @ ?acc)\<rparr>" "fifo_inv qt"
      "fdi_stream (ad_direction ?s) (as_accepted y @ ?acc) (as_taken y @ fifo_list qt)"
    using transfer_tx_Inr [OF s(1), where fs = "as_accepted y" and tk = "as_taken y"] i by blast+
  have f1: "ad_held s1 = ad_held ?s" "ad_rx s1 = ad_rx ?s" "ad_direction s1 = ad_direction ?s"
      "ad_trace_id s1 = length (as_accepted y @ ?acc)" "held_flit s1 = held_flit ?s"
    by (simp_all add: ti(1) held_flit_def)
  obtain rd where rd: "as_given y = rd @ fifo_list (as_rx y)"
      "map (\<lambda>d. deserialize_aou (fd_payload d)) rd = map Inr (as_consumed y @ held_flit s1)"
    using i f1(5) by auto
  have "ft_valid (ad_rx s1) = ad_held s1" "fifo_inv (as_rx y)"
    using i f1 by simp_all
  note ri = transfer_rx_Inr [OF s(2) this(2,1) rd, unfolded f1(1,2)]
  have f2: "ad_held s' = ad_held s2" "ad_rx s' = ad_rx s2" "ad_direction s' = ad_direction ?s"
      "ad_trace_id s' = length (as_accepted y @ ?acc)" "held_flit s' = held_flit s2"
      "ad_ready s' \<longrightarrow> 0 < num_free qt" "ad_tx_ready s' = ad_ready s'"
    using ri(3,4) f1(3,4) by (simp_all add: s(3) held_flit_def)
  show ?thesis
    unfolding ad_inv_def using ti(2,3) ri(1,2,5) f2 by simp
qed


lemma ad_step_inv: "ad_step y y' \<Longrightarrow> ad_inv y \<Longrightarrow> ad_inv y'"
proof (induction rule: ad_step.induct)
  case (a_clock now st tx rdy y s' qt qr)
  then show ?case using ad_clock_inv by blast
next
  case (a_take y f q)
  have "fifo_list (as_tx y) = f # fifo_list q" "num_free q = num_free (as_tx y)"
    using sc_fifo.rd_some [OF a_take(1)] by simp_all
  moreover have "fifo_inv (as_tx y) \<Longrightarrow> fifo_inv q"
    using sc_fifo.rd_ok [of "as_tx y"] a_take(1) by simp
  ultimately show ?case
    using a_take(2) by (simp add: ad_inv_def)
next
  case (a_give f y q)
  have "fifo_list q = fifo_list (as_rx y) @ [f]"
    using sc_fifo.fifo_order [of f "as_rx y"] a_give(1) by simp
  moreover have "fifo_inv (as_rx y) \<Longrightarrow> fifo_inv q"
    using sc_fifo.wr_ok [of "as_rx y" f] a_give(1) by simp
  ultimately show ?case
    using a_give(2) by (auto simp: ad_inv_def)
next
  case (a_update y)
  have "0 < num_free (as_tx y) \<Longrightarrow> fifo_inv (as_tx y) \<Longrightarrow> 0 < num_free (fifo_update (as_tx y))"
    by (rule sc_fifo.space_kept_up)
  then show ?case
    using a_update sc_fifo.up_ok [of "as_tx y"] sc_fifo.up_ok [of "as_rx y"]
    by (auto simp: ad_inv_def sc_fifo.up_cont)
qed

lemma ad_reachable:
  assumes "UcieAouAdapter_new cfg k = Inr ad" and "ad_step\<^sup>*\<^sup>* (as_init ad ntx nrx) y"
  shows "ad_inv y"
  using assms(2) by (induction rule: rtranclp_induct) (auto intro: ad_step_inv ad_inv_init [OF assms(1)])

section \<open>Properties\<close>

text \<open>What the transfer thread rejects: a flit that does not fit the wire header, or a bad inbound FDI flit.\<close>

definition bad_inbound :: "FdiFlit sc_fifo \<Rightarrow> bool" where
  "bad_inbound q \<longleftrightarrow> (\<exists>fdi rest. ff_readable q = fdi # rest \<and> (length (fd_payload fdi) \<noteq> 250
     \<or> fd_valid_bytes fdi \<noteq> 250 \<or> (\<exists>e. deserialize_aou (fd_payload fdi) = Inl e)))"

text \<open>
  C27: the registered ready signal is a reservation. In every reachable state of the adapter, whatever
  the link does with the queues, an accepted flit always finds space in the FDI queue: a clock edge fails
  only for a flit that cannot be serialized or an inbound FDI flit that is not a 250-byte AoU flit.
\<close>

theorem adapter_reservation_holds:
  assumes "UcieAouAdapter_new cfg k = Inr ad" and "ad_step\<^sup>*\<^sup>* (as_init ad ntx nrx) y"
    and "transfer now st tx rdy (as_ad y, as_tx y, as_rx y) = Inl e"
  shows "ad_ready (as_ad y) \<and> ft_valid tx \<and> (\<exists>e'. serialize_aou (ft_flit tx) = Inl e') \<or> bad_inbound (as_rx y)"
proof -
  let ?s = "as_ad y"
  have sp: "ad_ready ?s \<Longrightarrow> 0 < num_free (as_tx y)"
    using ad_reachable [OF assms(1,2)] by (simp add: ad_inv_def)
  have fails: "rbind (transfer_tx now tx (?s, as_tx y)) (\<lambda>(s, fifo_tx).
           rbind (transfer_rx rdy (st = LsActive \<or> st = LsDegraded) (s, as_rx y)) (\<lambda>(s, fifo_rx).
             let ready = ((st = LsActive \<or> st = LsDegraded) \<and> num_free fifo_tx > 0)
             in Inr (s\<lparr>ad_ready := ready, ad_tx_ready := ready\<rparr>, fifo_tx, fifo_rx))) \<noteq> Inr z" for z
    using assms(3) by (auto simp: transfer_def Let_def report_fatal_def)
  show ?thesis
  proof (cases "transfer_tx now tx (?s, as_tx y)")
    case (Inl e')
    then show ?thesis
      using transfer_tx_space [of ?s "as_tx y" now tx, OF sp] by (auto simp: rbind_eq_Inl split: if_splits)
  next
    case (Inr sq)
    then obtain s1 q1 where sq: "transfer_tx now tx (?s, as_tx y) = Inr (s1, q1)" by (cases sq) auto
    obtain e' where "transfer_rx rdy (st = LsActive \<or> st = LsDegraded) (s1, as_rx y) = Inl e'"
      using fails sq by (cases "transfer_rx rdy (st = LsActive \<or> st = LsDegraded) (s1, as_rx y)") (auto simp: Let_def)
    then have "bad_inbound (as_rx y)"
      unfolding transfer_rx_def Let_def prod.case bad_inbound_def nb_read_def
      by (auto simp: rbind_eq_Inl split: if_splits list.splits)
    then show ?thesis ..
  qed
qed

lemma adapter_first_cycle:
  assumes "UcieAouAdapter_new cfg k = Inr ad"
  shows "\<exists>y. ad_step\<^sup>*\<^sup>* (as_init ad 2 2) y \<and> ad_ready (as_ad y) \<and> ff_readable (as_rx y) = [] \<and> num_free (as_tx y) = 2"
proof -
  let ?y = "as_init ad 2 2"
  have "transfer 0 LsActive FlitTransfer_none False (as_ad ?y, as_tx ?y, as_rx ?y)
      = Inr ((ad_reset ad)\<lparr>ad_ready := True, ad_tx_ready := True\<rparr>, fifo_new 2, fifo_new 2)"
    by (simp add: transfer_def transfer_tx_def transfer_rx_def as_init_def ad_reset_def nb_read_def fifo_new_def
        num_free_def report_fatal_def)
  from a_clock [OF this] show ?thesis
    by (intro exI conjI, rule r_into_rtranclp) (auto simp: fifo_new_def num_free_def)
qed

lemma demo_adapter: "\<exists>ad. UcieAouAdapter_new make_aou_ucie_config Request = Inr ad"
  by (simp add: UcieAouAdapter_new_def make_aou_config_accepted)

theorem adapter_reservation_holds_witness:
  "\<exists>ad y e. UcieAouAdapter_new make_aou_ucie_config Request = Inr ad \<and> ad_step\<^sup>*\<^sup>* (as_init ad 2 2) y
    \<and> transfer 1 LsActive (FlitTransfer_of (AouFlit_init\<lparr>flit_fdid := 4\<rparr>)) True (as_ad y, as_tx y, as_rx y) = Inl e
    \<and> (\<exists>e'. serialize_aou (AouFlit_init\<lparr>flit_fdid := 4\<rparr>) = Inl e')"
proof -
  obtain ad where ad: "UcieAouAdapter_new make_aou_ucie_config Request = Inr ad"
    using demo_adapter by blast
  obtain y where y: "ad_step\<^sup>*\<^sup>* (as_init ad 2 2) y" "ad_ready (as_ad y)" "ff_readable (as_rx y) = []"
    using adapter_first_cycle [OF ad] by blast
  have f: "\<exists>e. transfer 1 LsActive (FlitTransfer_of (AouFlit_init\<lparr>flit_fdid := 4\<rparr>)) True (as_ad y, as_tx y, as_rx y) = Inl e"
    using y(2) by (simp add: transfer_def transfer_tx_def serialize_aou_def FlitTransfer_of_def report_fatal_def)
  then obtain e where e: "transfer 1 LsActive (FlitTransfer_of (AouFlit_init\<lparr>flit_fdid := 4\<rparr>)) True (as_ad y, as_tx y, as_rx y) = Inl e"
    by blast
  from adapter_reservation_holds [OF ad y(1) e] y(3)
  have "\<exists>e'. serialize_aou (AouFlit_init\<lparr>flit_fdid := 4\<rparr>) = Inl e'"
    by (simp add: bad_inbound_def FlitTransfer_of_def)
  with ad y(1) e show ?thesis by blast
qed

end
