(* ===== verification/Ucie_Phy.thy ===== *)
theory Ucie_Phy
  imports Ucie_Common
begin

text \<open>
  The behavioural PHY (components/ucie-model/src/ucie_phy.h): lane striping, PAM4 and NRZ coding, the
  impaired channel with its decision, skew and injected errors, and the CDR lock abstraction. The
  numbers drawn from the C++ random distributions are parameters (\<open>phy_draws\<close>).
\<close>

section \<open>Symbols\<close>

definition pam4_encode :: "u8 \<Rightarrow> u8 \<Rightarrow> int" where
  "pam4_encode b0 b1 = (if b0 = 0 \<and> b1 = 0 then -3 else if b0 = 0 \<and> b1 = 1 then -1
     else if b0 = 1 \<and> b1 = 1 then 1 else 3)"

definition pam4_decide :: "real \<Rightarrow> int" where
  "pam4_decide y = (if y < -2 then -3 else if y < 0 then -1 else if y < 2 then 1 else 3)"

definition pam4_bits :: "int \<Rightarrow> u8 \<times> u8" where
  "pam4_bits lvl = (if lvl = -3 then (0, 0) else if lvl = -1 then (0, 1) else if lvl = 1 then (1, 1) else (1, 0))"

definition nrz_decide :: "real \<Rightarrow> int" where
  "nrz_decide y = (if y < 0 then -1 else 1)"

section \<open>Striping\<close>

text \<open>The bit positions of the inner loop, from \<open>8 - bits_per_symbol\<close> down to 0.\<close>

definition symbol_bits :: "nat \<Rightarrow> nat list" where
  "symbol_bits bps = map (\<lambda>k. 8 - (k + 1) * bps) [0..<8 div bps]"

definition symbol_of :: "nat \<Rightarrow> u8 \<Rightarrow> nat \<Rightarrow> int" where
  "symbol_of bps b k =
     (if bps = 2 then pam4_encode (drop_bit (k + 1) b AND 1) (drop_bit k b AND 1)
      else if drop_bit k b AND 1 \<noteq> 0 then 1 else -1)"

definition stripe_byte :: "u8 list \<Rightarrow> nat \<Rightarrow> nat \<Rightarrow> nat \<Rightarrow> int list list \<Rightarrow> int list list" where
  "stripe_byte bytes lanes bps i levels =
     levels[i mod lanes := levels ! (i mod lanes) @ map (symbol_of bps (bytes ! i)) (symbol_bits bps)]"

definition stripe_bytes :: "u8 list \<Rightarrow> nat \<Rightarrow> nat \<Rightarrow> int list list res" where
  "stripe_bytes bytes lanes bps =
     (if lanes = 0 \<or> (bps \<noteq> 1 \<and> bps \<noteq> 2) then Inl (RuntimeError ''invalid lane mapping geometry'')
      else Inr (fold (stripe_byte bytes lanes bps) [0..<length bytes] (replicate lanes [])))"

text \<open>One symbol of the receiver: the byte so far, the read position of the lane.\<close>

definition destripe_symbol :: "int list \<Rightarrow> nat \<Rightarrow> u8 \<times> nat \<Rightarrow> (u8 \<times> nat) res" where
  "destripe_symbol stream bps bp =
     (let (byte, pos) = bp
      in if pos \<ge> length stream then Inl (RuntimeError ''lane stream is shorter than requested byte count'')
         else
           let level = stream ! pos
           in Inr (if bps = 2 then let (b0, b1) = pam4_bits level in push_bit 2 byte OR push_bit 1 b0 OR b1
                   else push_bit 1 byte OR (if level > 0 then 1 else 0), pos + 1))"

definition destripe_byte :: "int list list \<Rightarrow> nat \<Rightarrow> nat \<Rightarrow> nat \<Rightarrow> u8 list \<times> nat list \<Rightarrow> (u8 list \<times> nat list) res" where
  "destripe_byte levels lanes bps i bl =
     (let (bytes, lane_pos) = bl; lane = i mod lanes
      in rbind (rfold (\<lambda>_. destripe_symbol (levels ! lane) bps) [0..<8 div bps] (0, lane_pos ! lane)) (\<lambda>(byte, pos).
           Inr (bytes[i := byte], lane_pos[lane := pos])))"

definition destripe_bytes :: "int list list \<Rightarrow> nat \<Rightarrow> nat \<Rightarrow> nat \<Rightarrow> u8 list res" where
  "destripe_bytes levels byte_count lanes bps =
     (if lanes = 0 \<or> length levels \<noteq> lanes \<or> (bps \<noteq> 1 \<and> bps \<noteq> 2)
      then Inl (RuntimeError ''invalid lane de-mapping geometry'')
      else rbind (rfold (destripe_byte levels lanes bps) [0..<byte_count] (replicate byte_count 0, replicate lanes 0))
             (\<lambda>(bytes, _). Inr bytes))"

section \<open>The impaired channel\<close>

record PhyResult =
  pr_rx_bytes :: "u8 list"
  pr_total_symbols :: nat
  pr_symbol_errors :: nat
  pr_bit_errors :: nat
  pr_max_skew_ui :: nat
  pr_deskew_failure :: bool
  pr_extra_error :: bool
  pr_cdr_locked :: bool

record BehavioralPhy =
  ph_relock_until_ui :: real
  ph_bad_streak :: nat
  ph_lock_loss_count :: nat

definition BehavioralPhy_init :: BehavioralPhy where
  "BehavioralPhy_init = \<lparr>ph_relock_until_ui = 0, ph_bad_streak = 0, ph_lock_loss_count = 0\<rparr>"

text \<open>
  The random values one transmission draws: the skew of each lane, the jitter and noise of each
  symbol, the draw that decides on an injected error, and the bits that get flipped.
\<close>

record phy_draws =
  dr_skew :: "nat \<Rightarrow> nat"
  dr_jitter :: "nat \<Rightarrow> nat \<Rightarrow> real"
  dr_noise :: "nat \<Rightarrow> nat \<Rightarrow> real"
  dr_unit :: real
  dr_flip_deskew :: nat
  dr_flip_extra :: nat

definition is_cdr_locked :: "BehavioralPhy \<Rightarrow> real \<Rightarrow> bool" where
  "is_cdr_locked ph now_ui \<longleftrightarrow> now_ui \<ge> ph_relock_until_ui ph"

definition flip_random_bit :: "nat \<Rightarrow> u8 list \<Rightarrow> u8 list" where
  "flip_random_bit idx bytes =
     (if bytes = [] then bytes
      else bytes[idx div 8 := bytes ! (idx div 8) XOR push_bit (idx mod 8) 1])"

definition channel_sample :: "Config \<Rightarrow> real \<Rightarrow> real \<Rightarrow> real \<Rightarrow> int list \<Rightarrow> nat \<Rightarrow> real" where
  "channel_sample cfg sigma jitter noise lv k =
     (let x0 = real_of_int (lv ! k);
          x1 = (if k \<ge> 1 then real_of_int (lv ! (k - 1)) else 0);
          x2 = (if k \<ge> 2 then real_of_int (lv ! (k - 2)) else 0);
          jitter_ui = cf_jitter_sigma_ui cfg * jitter;
          y = cf_isi_h0 cfg * x0 + cf_isi_h1 cfg * x1 + cf_isi_h2 cfg * x2;
          y = y + sigma * noise
      in y + cf_jitter_isi_gain cfg * jitter_ui * (x0 - x1))"

definition decide :: "nat \<Rightarrow> real \<Rightarrow> int" where
  "decide bps y = (if bps = 2 then pam4_decide y else nrz_decide y)"

definition lane_receive :: "Config \<Rightarrow> real \<Rightarrow> phy_draws \<Rightarrow> nat \<Rightarrow> int list \<Rightarrow> int list" where
  "lane_receive cfg sigma dr lane lv =
     map (\<lambda>k. decide (bits_per_ui cfg) (channel_sample cfg sigma (dr_jitter dr lane k) (dr_noise dr lane k) lv k))
       [0..<length lv]"

definition popcount8 :: "u8 \<Rightarrow> nat" where
  "popcount8 w = length (filter (bit w) [0..<8])"

definition transmit :: "Config \<Rightarrow> phy_draws \<Rightarrow> u8 list \<Rightarrow> real \<Rightarrow> BehavioralPhy \<Rightarrow> PhyResult res" where
  "transmit cfg dr tx_bytes now_ui ph =
     (let locked = is_cdr_locked ph now_ui;
          lanes = cf_num_lanes cfg; bps = bits_per_ui cfg
      in rbind (stripe_bytes tx_bytes lanes bps) (\<lambda>lane_levels.
         let skews = map (dr_skew dr) [0..<lanes];
             deskew_failure = list_ex (\<lambda>s. s > cf_deskew_depth_ui cfg) skews;
             sigma = (if locked then cf_awgn_sigma cfg
                      else cf_awgn_sigma cfg * cf_cdr_unlocked_noise_multiplier cfg);
             lane_rx = map (\<lambda>lane. lane_receive cfg sigma dr lane (lane_levels ! lane)) [0..<lanes]
         in rbind (destripe_bytes lane_rx (length tx_bytes) lanes bps) (\<lambda>rx.
            let rx = (if deskew_failure then flip_random_bit (dr_flip_deskew dr) rx else rx);
                extra = dr_unit dr < cf_extra_flit_error_rate cfg;
                rx = (if extra then flip_random_bit (dr_flip_extra dr) rx else rx)
            in Inr \<lparr>pr_rx_bytes = rx,
                 pr_total_symbols = sum_list (map length lane_levels),
                 pr_symbol_errors = sum_list (map (\<lambda>(lv, rv). length (filter (\<lambda>(a, b). b \<noteq> a) (zip lv rv)))
                                      (zip lane_levels lane_rx)),
                 pr_bit_errors = sum_list (map (\<lambda>i. popcount8 (tx_bytes ! i XOR rx ! i)) [0..<length tx_bytes]),
                 pr_max_skew_ui = fold max skews 0, pr_deskew_failure = deskew_failure,
                 pr_extra_error = extra, pr_cdr_locked = locked\<rparr>)))"

definition phy_observe :: "Config \<Rightarrow> real \<Rightarrow> PhyResult \<Rightarrow> BehavioralPhy \<Rightarrow> BehavioralPhy" where
  "phy_observe cfg arrival_ui r ph =
     (let frac = (if pr_total_symbols r = 0 then 0 else real (pr_symbol_errors r) / real (pr_total_symbols r));
          ph = ph\<lparr>ph_bad_streak := (if frac > cf_cdr_loss_error_fraction cfg then ph_bad_streak ph + 1 else 0)\<rparr>
      in if ph_bad_streak ph \<ge> cf_cdr_loss_bad_flit_threshold cfg
         then ph\<lparr>ph_lock_loss_count := ph_lock_loss_count ph + 1,
                 ph_relock_until_ui := arrival_ui + real (cf_cdr_relock_ui cfg), ph_bad_streak := 0\<rparr>
         else ph)"

section \<open>Striping is lossless\<close>

lemma low_bit: "drop_bit k b AND 1 = of_bool (bit b k)" for b :: u8
  by (simp add: bit_iff_odd_drop_bit and_one_eq mod2_eq_if)

lemma pam4_roundtrip: "pam4_bits (pam4_encode (of_bool x) (of_bool y)) = (of_bool x, of_bool y)"
  by (simp add: pam4_bits_def pam4_encode_def)

lemma symbol_bits_eq: "symbol_bits 2 = [6, 4, 2, 0]" "symbol_bits 1 = [7, 6, 5, 4, 3, 2, 1, 0]"
  by code_simp+

lemma cases8: "n < 8 \<Longrightarrow> n = 0 \<or> n = 1 \<or> n = 2 \<or> n = 3 \<or> n = 4 \<or> n = 5 \<or> n = 6 \<or> n = (7::nat)"
  by arith

lemma byte_of_pairs:
  "push_bit 2 (push_bit 2 (push_bit 2 (push_bit 2 (0 :: u8) OR push_bit 1 (of_bool (bit b 7)) OR of_bool (bit b 6))
     OR push_bit 1 (of_bool (bit b 5)) OR of_bool (bit b 4))
     OR push_bit 1 (of_bool (bit b 3)) OR of_bool (bit b 2))
     OR push_bit 1 (of_bool (bit b 1)) OR of_bool (bit b 0) = b" for b :: u8
proof (rule bit_word_eqI)
  fix n
  assume "n < LENGTH(8)"
  then have "n = 0 \<or> n = 1 \<or> n = 2 \<or> n = 3 \<or> n = 4 \<or> n = 5 \<or> n = 6 \<or> n = 7"
    using cases8 by simp
  then show "bit (push_bit 2 (push_bit 2 (push_bit 2 (push_bit 2 (0 :: u8) OR push_bit 1 (of_bool (bit b 7)) OR of_bool (bit b 6))
     OR push_bit 1 (of_bool (bit b 5)) OR of_bool (bit b 4))
     OR push_bit 1 (of_bool (bit b 3)) OR of_bool (bit b 2))
     OR push_bit 1 (of_bool (bit b 1)) OR of_bool (bit b 0)) n = bit b n"
    by (elim disjE; hypsubst; simp only: bit_or_iff bit_push_bit_iff bit_of_bool_iff bit_0_eq; simp)
qed

lemma byte_of_singles:
  "push_bit 1 (push_bit 1 (push_bit 1 (push_bit 1 (push_bit 1 (push_bit 1 (push_bit 1 (push_bit 1 (0 :: u8)
     OR of_bool (bit b 7)) OR of_bool (bit b 6)) OR of_bool (bit b 5)) OR of_bool (bit b 4))
     OR of_bool (bit b 3)) OR of_bool (bit b 2)) OR of_bool (bit b 1)) OR of_bool (bit b 0) = b" for b :: u8
proof (rule bit_word_eqI)
  fix n
  assume "n < LENGTH(8)"
  then have "n = 0 \<or> n = 1 \<or> n = 2 \<or> n = 3 \<or> n = 4 \<or> n = 5 \<or> n = 6 \<or> n = 7"
    using cases8 by simp
  then show "bit (push_bit 1 (push_bit 1 (push_bit 1 (push_bit 1 (push_bit 1 (push_bit 1 (push_bit 1 (push_bit 1 (0 :: u8)
     OR of_bool (bit b 7)) OR of_bool (bit b 6)) OR of_bool (bit b 5)) OR of_bool (bit b 4))
     OR of_bool (bit b 3)) OR of_bool (bit b 2)) OR of_bool (bit b 1)) OR of_bool (bit b 0)) n = bit b n"
    by (elim disjE; hypsubst; simp only: bit_or_iff bit_push_bit_iff bit_of_bool_iff bit_0_eq; simp)
qed

text \<open>The byte after one more level.\<close>

definition rx_level :: "nat \<Rightarrow> int \<Rightarrow> u8 \<Rightarrow> u8" where
  "rx_level bps level byte = (if bps = 2 then let (b0, b1) = pam4_bits level in push_bit 2 byte OR push_bit 1 b0 OR b1
     else push_bit 1 byte OR (if level > 0 then 1 else 0))"

lemma destripe_symbols:
  "pos + length ks \<le> length stream \<Longrightarrow> rfold (\<lambda>_. destripe_symbol stream bps) ks (byte, pos)
    = Inr (fold (rx_level bps) (take (length ks) (drop pos stream)) byte, pos + length ks)"
proof (induction ks arbitrary: byte pos)
  case (Cons k ks)
  have "destripe_symbol stream bps (byte, pos) = Inr (rx_level bps (stream ! pos) byte, pos + 1)"
    using Cons.prems by (simp add: destripe_symbol_def rx_level_def Let_def)
  moreover have "drop pos stream = stream ! pos # drop (Suc pos) stream"
    using Cons.prems by (simp add: Cons_nth_drop_Suc)
  ultimately show ?case
    using Cons.IH [of "pos + 1"] Cons.prems by simp
qed simp

lemma rx_level_symbol:
  "rx_level 2 (symbol_of 2 b k) byte = push_bit 2 byte OR push_bit 1 (of_bool (bit b (k + 1))) OR of_bool (bit b k)"
  "rx_level 1 (symbol_of 1 b k) byte = push_bit 1 byte OR of_bool (bit b k)"
proof -
  have "symbol_of 2 b k = pam4_encode (of_bool (bit b (k + 1))) (of_bool (bit b k))"
    by (simp only: symbol_of_def low_bit if_True refl)
  then show "rx_level 2 (symbol_of 2 b k) byte = push_bit 2 byte OR push_bit 1 (of_bool (bit b (k + 1))) OR of_bool (bit b k)"
    by (simp only: rx_level_def pam4_roundtrip if_True refl Let_def prod.case)
  show "rx_level 1 (symbol_of 1 b k) byte = push_bit 1 byte OR of_bool (bit b k)"
    unfolding rx_level_def symbol_of_def low_bit by (cases "bit b k") simp_all
qed

lemma rx_byte:
  assumes "bps = 1 \<or> bps = 2"
  shows "fold (rx_level bps) (map (symbol_of bps b) (symbol_bits bps)) 0 = b"
proof -
  have sums: "6 + 1 = (7::nat)" "4 + 1 = (5::nat)" "2 + 1 = (3::nat)" "0 + 1 = (1::nat)"
    by simp_all
  from assms show ?thesis
    by (elim disjE; hypsubst)
       (simp_all only: symbol_bits_eq list.map fold_simps rx_level_symbol byte_of_singles byte_of_pairs sums)
qed

lemma length_symbols: "bps = 1 \<or> bps = 2 \<Longrightarrow> length (symbol_bits bps) = 8 div bps"
  by (simp add: symbol_bits_def)

lemma destripe_one:
  assumes "bps = 1 \<or> bps = 2"
  shows "rfold (\<lambda>_. destripe_symbol (pre @ map (symbol_of bps b) (symbol_bits bps) @ post) bps) [0..<8 div bps] (0, length pre)
    = Inr (b, length pre + 8 div bps)"
  using length_symbols [OF assms] by (subst destripe_symbols) (simp_all add: rx_byte [OF assms])

text \<open>The stream of a lane: the symbols of the bytes it carries, in order.\<close>

definition lane_bytes :: "nat \<Rightarrow> nat \<Rightarrow> nat \<Rightarrow> nat list" where
  "lane_bytes lanes lane n = filter (\<lambda>i. i mod lanes = lane) [0..<n]"

definition lane_stream :: "u8 list \<Rightarrow> nat \<Rightarrow> nat \<Rightarrow> nat \<Rightarrow> nat \<Rightarrow> int list" where
  "lane_stream bytes lanes bps n lane =
     concat (map (\<lambda>i. map (symbol_of bps (bytes ! i)) (symbol_bits bps)) (lane_bytes lanes lane n))"

lemma stripe_fold:
  "0 < lanes \<Longrightarrow> fold (stripe_byte bytes lanes bps) [0..<n] (replicate lanes []) = map (lane_stream bytes lanes bps n) [0..<lanes]"
proof (induction n)
  case 0
  then show ?case
    by (simp add: lane_stream_def lane_bytes_def map_replicate_const)
next
  case (Suc n)
  then show ?case
    by (intro nth_equalityI) (auto simp: stripe_byte_def lane_stream_def lane_bytes_def nth_list_update)
qed

lemma stripe_bytes_eq:
  "0 < lanes \<Longrightarrow> bps = 1 \<or> bps = 2 \<Longrightarrow>
    stripe_bytes bytes lanes bps = Inr (map (lane_stream bytes lanes bps (length bytes)) [0..<lanes])"
  by (auto simp: stripe_bytes_def stripe_fold)

lemma lane_bytes_split:
  "i < n \<Longrightarrow> \<exists>rest. lane_bytes lanes (i mod lanes) n = lane_bytes lanes (i mod lanes) i @ i # rest"
proof -
  assume "i < n"
  then have "[0..<n] = [0..<i] @ i # [Suc i..<n]"
    by (metis less_imp_le_nat upt_add_eq_append upt_conv_Cons le_add_diff_inverse le0 add_0)
  then show ?thesis
    by (simp add: lane_bytes_def)
qed

lemma destripe_fold:
  assumes "0 < lanes" and bps: "bps = 1 \<or> bps = 2" and "n \<le> length bytes"
  shows "rfold (destripe_byte (map (lane_stream bytes lanes bps (length bytes)) [0..<lanes]) lanes bps) [0..<n]
      (replicate (length bytes) 0, replicate lanes 0)
    = Inr (take n bytes @ replicate (length bytes - n) 0, map (\<lambda>lane. length (lane_bytes lanes lane n) * (8 div bps)) [0..<lanes])"
  using assms(3)
proof (induction n)
  case 0
  then show ?case
    by (simp add: lane_bytes_def map_replicate_const)
next
  case (Suc n)
  let ?lane = "n mod lanes" and ?ls = "map (lane_stream bytes lanes bps (length bytes)) [0..<lanes]"
  let ?sym = "\<lambda>i. map (symbol_of bps (bytes ! i)) (symbol_bits bps)"
  have lane: "?lane < lanes"
    using assms(1) by simp
  obtain rest where split: "lane_bytes lanes ?lane (length bytes) = lane_bytes lanes ?lane n @ n # rest"
    using lane_bytes_split [of n "length bytes" lanes] Suc.prems by auto
  let ?pre = "concat (map ?sym (lane_bytes lanes ?lane n))"
  have st: "?ls ! ?lane = ?pre @ ?sym n @ concat (map ?sym rest)"
    using lane by (simp add: lane_stream_def split)
  have "length ?pre = length (lane_bytes lanes ?lane n) * (8 div bps)"
    using length_symbols [OF bps] by (simp add: length_concat comp_def sum_list_triv)
  with destripe_one [OF bps, of ?pre "bytes ! n" "concat (map ?sym rest)"] st
  have one: "rfold (\<lambda>_. destripe_symbol (?ls ! ?lane) bps) [0..<8 div bps] (0, length (lane_bytes lanes ?lane n) * (8 div bps))
      = Inr (bytes ! n, length (lane_bytes lanes ?lane n) * (8 div bps) + 8 div bps)"
    by simp
  have upd: "(take n bytes @ replicate (length bytes - n) 0)[n := bytes ! n] = take (Suc n) bytes @ replicate (length bytes - Suc n) 0"
    using Suc.prems by (intro nth_equalityI) (auto simp: nth_append nth_list_update min_def)
  have pos: "(map (\<lambda>lane. length (lane_bytes lanes lane n) * (8 div bps)) [0..<lanes])
      [?lane := length (lane_bytes lanes ?lane n) * (8 div bps) + 8 div bps]
    = map (\<lambda>lane. length (lane_bytes lanes lane (Suc n)) * (8 div bps)) [0..<lanes]"
    using lane by (intro nth_equalityI) (auto simp: nth_list_update lane_bytes_def)
  show ?case
    using Suc lane one upd pos by (simp add: rfold_append destripe_byte_def Let_def)
qed

lemma destripe_stripe:
  assumes "0 < lanes" and "bps = 1 \<or> bps = 2"
  shows "destripe_bytes (map (lane_stream bytes lanes bps (length bytes)) [0..<lanes]) (length bytes) lanes bps = Inr bytes"
  using assms by (auto simp: destripe_bytes_def destripe_fold)

section \<open>Decisions within the noise margin\<close>

definition legal_level :: "nat \<Rightarrow> int \<Rightarrow> bool" where
  "legal_level bps l \<longleftrightarrow> (if bps = 2 then l = -3 \<or> l = -1 \<or> l = 1 \<or> l = 3 else l = -1 \<or> l = 1)"

lemma symbol_legal: "legal_level bps (symbol_of bps b k)"
  by (simp add: legal_level_def symbol_of_def pam4_encode_def)

lemma decide_margin: "legal_level bps l \<Longrightarrow> \<bar>y - real_of_int l\<bar> < 1 \<Longrightarrow> decide bps y = l"
  by (auto simp: legal_level_def decide_def pam4_decide_def nrz_decide_def split: if_splits)

lemma lane_stream_legal: "l \<in> set (lane_stream bytes lanes bps n lane) \<Longrightarrow> legal_level bps l"
  by (auto simp: lane_stream_def symbol_legal)

text \<open>All samples of a transmission stay within one level of what was sent.\<close>

definition eye_open :: "Config \<Rightarrow> phy_draws \<Rightarrow> u8 list \<Rightarrow> bool \<Rightarrow> bool" where
  "eye_open cfg dr bytes locked \<longleftrightarrow>
     (let sigma = (if locked then cf_awgn_sigma cfg else cf_awgn_sigma cfg * cf_cdr_unlocked_noise_multiplier cfg)
      in \<forall>lane<cf_num_lanes cfg. let lv = lane_stream bytes (cf_num_lanes cfg) (bits_per_ui cfg) (length bytes) lane
         in \<forall>k<length lv. \<bar>channel_sample cfg sigma (dr_jitter dr lane k) (dr_noise dr lane k) lv k - real_of_int (lv ! k)\<bar> < 1)"

lemma lane_receive_open:
  assumes "eye_open cfg dr bytes locked" and "lane < cf_num_lanes cfg"
    and "lv = lane_stream bytes (cf_num_lanes cfg) (bits_per_ui cfg) (length bytes) lane"
    and "sigma = (if locked then cf_awgn_sigma cfg else cf_awgn_sigma cfg * cf_cdr_unlocked_noise_multiplier cfg)"
  shows "lane_receive cfg sigma dr lane lv = lv"
proof (rule nth_equalityI)
  fix k
  assume "k < length (lane_receive cfg sigma dr lane lv)"
  then have k: "k < length lv"
    by (simp add: lane_receive_def)
  then have "\<bar>channel_sample cfg sigma (dr_jitter dr lane k) (dr_noise dr lane k) lv k - real_of_int (lv ! k)\<bar> < 1"
    using assms by (simp add: eye_open_def Let_def)
  moreover have "legal_level (bits_per_ui cfg) (lv ! k)"
    using k assms(3) lane_stream_legal nth_mem by blast
  ultimately show "lane_receive cfg sigma dr lane lv ! k = lv ! k"
    using k decide_margin by (simp add: lane_receive_def)
qed (simp add: lane_receive_def)

lemma zip_same_errors: "length (filter (\<lambda>(a, b). b \<noteq> a) (zip xs xs)) = 0"
  by (induction xs) auto

lemma transmit_open:
  assumes lanes: "0 < cf_num_lanes cfg" and eye: "eye_open cfg dr tx (is_cdr_locked ph now)"
    and skew: "\<forall>lane<cf_num_lanes cfg. dr_skew dr lane \<le> cf_deskew_depth_ui cfg"
  obtains r where "transmit cfg dr tx now ph = Inr r"
    "pr_rx_bytes r = (if dr_unit dr < cf_extra_flit_error_rate cfg then flip_random_bit (dr_flip_extra dr) tx else tx)"
    "pr_symbol_errors r = 0" "\<not> pr_deskew_failure r" "pr_extra_error r \<longleftrightarrow> dr_unit dr < cf_extra_flit_error_rate cfg"
    "pr_bit_errors r = sum_list (map (\<lambda>i. popcount8 (tx ! i XOR pr_rx_bytes r ! i)) [0..<length tx])"
proof -
  let ?n = "cf_num_lanes cfg" and ?bps = "bits_per_ui cfg"
  let ?ls = "map (lane_stream tx ?n ?bps (length tx)) [0..<?n]"
  let ?sigma = "if is_cdr_locked ph now then cf_awgn_sigma cfg else cf_awgn_sigma cfg * cf_cdr_unlocked_noise_multiplier cfg"
  have bps: "?bps = 1 \<or> ?bps = 2"
    by (simp add: bits_per_ui_def)
  have st: "stripe_bytes tx ?n ?bps = Inr ?ls"
    using stripe_bytes_eq [OF lanes bps] .
  have rx: "map (\<lambda>lane. lane_receive cfg ?sigma dr lane (?ls ! lane)) [0..<?n] = ?ls"
    using lane_receive_open [OF eye _ refl refl] by (intro nth_equalityI) simp_all
  have ds: "\<not> list_ex (\<lambda>s. s > cf_deskew_depth_ui cfg) (map (dr_skew dr) [0..<?n])"
    using skew by (auto simp: list_ex_iff)
  have err: "sum_list (map (\<lambda>(lv, rv). length (filter (\<lambda>(a, b). b \<noteq> a) (zip lv rv))) (zip xss xss)) = 0" for xss :: "int list list"
    by (induction xss) (auto simp: zip_same_errors)
  show thesis
    using that ds unfolding transmit_def Let_def st rbind_Inr rx destripe_stripe [OF lanes bps] err by simp
qed

text \<open>The default taps leave room for ten sigma of noise and five of jitter.\<close>

lemma level_bound: "legal_level bps l \<Longrightarrow> \<bar>real_of_int l\<bar> \<le> 3"
  by (auto simp: legal_level_def split: if_splits)

lemma sample_default:
  assumes "\<And>l. l \<in> set lv \<Longrightarrow> \<bar>real_of_int l\<bar> \<le> 3" and "k < length lv" and "\<bar>n\<bar> \<le> 10" and "\<bar>j\<bar> \<le> 5"
  shows "\<bar>channel_sample Config_init (cf_awgn_sigma Config_init) j n lv k - real_of_int (lv ! k)\<bar> < 1"
proof -
  define x0 x1 x2 where "x0 = real_of_int (lv ! k)" and "x1 = (if k \<ge> 1 then real_of_int (lv ! (k - 1)) else 0)"
    and "x2 = (if k \<ge> 2 then real_of_int (lv ! (k - 2)) else 0)"
  have b: "\<bar>x0\<bar> \<le> 3" "\<bar>x1\<bar> \<le> 3" "\<bar>x2\<bar> \<le> 3"
    using assms(1,2) by (auto simp: x0_def x1_def x2_def)
  have "\<bar>j * (x0 - x1)\<bar> \<le> 5 * 6"
    unfolding abs_mult using b assms(4) by (intro mult_mono) auto
  moreover have "channel_sample Config_init (cf_awgn_sigma Config_init) j n lv k - x0
      = 8 / 100 * x1 + 3 / 100 * x2 + 5 / 100 * n + 4 / 1000 * (j * (x0 - x1))"
    by (simp add: channel_sample_def Config_init_def Let_def x0_def x1_def x2_def field_simps)
  ultimately show ?thesis
    using b assms(3) unfolding x0_def [symmetric] by linarith
qed

lemma eye_default:
  assumes "\<And>lane k. \<bar>dr_noise dr lane k\<bar> \<le> 10" and "\<And>lane k. \<bar>dr_jitter dr lane k\<bar> \<le> 5"
  shows "eye_open Config_init dr bytes True"
proof -
  have "\<bar>real_of_int l\<bar> \<le> 3" if "l \<in> set (lane_stream bytes lanes bps n lane)" for l lanes bps n lane
    using level_bound lane_stream_legal that by blast
  then show ?thesis
    using assms by (simp add: eye_open_def Let_def sample_default)
qed

section \<open>Properties\<close>

text \<open>
  bytes striped over any positive number of lanes, with one or two bits per symbol, are recovered
  exactly by de-striping, and any other geometry is refused by both directions.
\<close>

theorem lane_striping_roundtrip:
  "if 0 < lanes \<and> (bps = 1 \<or> bps = 2)
   then \<exists>ls. stripe_bytes bytes lanes bps = Inr ls \<and> length ls = lanes \<and> destripe_bytes ls (length bytes) lanes bps = Inr bytes
   else (\<exists>e. stripe_bytes bytes lanes bps = Inl e) \<and> (\<exists>e. destripe_bytes ls (length bytes) lanes bps = Inl e)"
  using stripe_bytes_eq [of lanes bps bytes] destripe_stripe [of lanes bps bytes]
  by (auto simp: stripe_bytes_def destripe_bytes_def)

text \<open>
  with the default configuration and a locked receiver, as long as every noise sample is within
  ten and every jitter sample within five standard deviations, no lane skew exceeds the deskew depth
  and no error is injected, the channel delivers every byte unchanged and counts no error, for flits
  of any length and content.
\<close>

theorem phy_default_margin:
  assumes "\<And>lane k. \<bar>dr_noise dr lane k\<bar> \<le> 10" and "\<And>lane k. \<bar>dr_jitter dr lane k\<bar> \<le> 5"
    and "\<And>lane. dr_skew dr lane \<le> 8" and "0 \<le> dr_unit dr" and "is_cdr_locked ph now"
  shows "\<exists>r. transmit Config_init dr tx now ph = Inr r \<and> pr_rx_bytes r = tx \<and> pr_symbol_errors r = 0
    \<and> pr_bit_errors r = 0 \<and> \<not> pr_deskew_failure r \<and> \<not> pr_extra_error r"
proof -
  have c: "0 < cf_num_lanes Config_init" "cf_deskew_depth_ui Config_init = 8" "cf_extra_flit_error_rate Config_init = 0"
    by (simp_all add: Config_init_def)
  have "eye_open Config_init dr tx (is_cdr_locked ph now)"
    using eye_default assms by simp
  moreover have "\<forall>lane<cf_num_lanes Config_init. dr_skew dr lane \<le> cf_deskew_depth_ui Config_init"
    using assms(3) c by simp
  ultimately obtain r where r: "transmit Config_init dr tx now ph = Inr r"
    "pr_rx_bytes r = (if dr_unit dr < cf_extra_flit_error_rate Config_init then flip_random_bit (dr_flip_extra dr) tx else tx)"
    "pr_symbol_errors r = 0" "\<not> pr_deskew_failure r" "pr_extra_error r \<longleftrightarrow> dr_unit dr < cf_extra_flit_error_rate Config_init"
    "pr_bit_errors r = sum_list (map (\<lambda>i. popcount8 (tx ! i XOR pr_rx_bytes r ! i)) [0..<length tx])"
    using transmit_open [OF c(1)] by blast
  have "popcount8 0 = 0"
    by (simp add: popcount8_def)
  with r assms(4) c(3) show ?thesis
    by simp
qed

definition quiet_draws :: phy_draws where
  "quiet_draws = \<lparr>dr_skew = (\<lambda>_. 1), dr_jitter = (\<lambda>_ _. 2), dr_noise = (\<lambda>_ _. - 3), dr_unit = 1 / 2,
     dr_flip_deskew = 0, dr_flip_extra = 9\<rparr>"

theorem phy_default_margin_witness:
  "\<exists>r. transmit Config_init quiet_draws [1, 2, 250] 5 BehavioralPhy_init = Inr r \<and> pr_rx_bytes r = [1, 2, 250]"
proof -
  have "\<exists>r. transmit Config_init quiet_draws [1, 2, 250] 5 BehavioralPhy_init = Inr r \<and> pr_rx_bytes r = [1, 2, 250]
     \<and> pr_symbol_errors r = 0 \<and> pr_bit_errors r = 0 \<and> \<not> pr_deskew_failure r \<and> \<not> pr_extra_error r"
    by (rule phy_default_margin) (simp_all add: quiet_draws_def is_cdr_locked_def BehavioralPhy_init_def)
  then show ?thesis
    by blast
qed

text \<open>
  When the channel is otherwise clean, the single-bit error the model injects into a flit is
  always caught: the flit that arrives fails the CRC check of every flit format.
\<close>

theorem phy_injected_error_detected:
  assumes "0 < cf_num_lanes cfg" and "eye_open cfg dr tx (is_cdr_locked ph now)"
    and "\<And>lane. dr_skew dr lane \<le> cf_deskew_depth_ui cfg" and "dr_unit dr < cf_extra_flit_error_rate cfg"
    and "dr_flip_extra dr < 8 * length tx" and "fc_crc_ok (check_flit cfg tx)"
  shows "\<exists>r. transmit cfg dr tx now ph = Inr r \<and> pr_extra_error r \<and> \<not> fc_crc_ok (check_flit cfg (pr_rx_bytes r))"
proof -
  obtain r where r: "transmit cfg dr tx now ph = Inr r"
    "pr_rx_bytes r = flip_random_bit (dr_flip_extra dr) tx" "pr_extra_error r"
    using transmit_open [OF assms(1,2), of thesis] assms(3,4) by auto
  let ?i = "dr_flip_extra dr div 8" and ?k = "dr_flip_extra dr mod 8"
  have i: "?i < length tx" and ne: "tx \<noteq> []"
    using assms(5) by auto
  have "bit (tx ! ?i XOR push_bit ?k 1) ?k \<noteq> bit (tx ! ?i) ?k"
    by (simp add: bit_xor_iff bit_push_bit_iff bit_1_iff del: push_bit_of_1)
  then have "tx ! ?i XOR push_bit ?k 1 \<noteq> tx ! ?i"
    by metis
  from check_flit_change [OF assms(6) i this] r ne show ?thesis
    by (auto simp: flip_random_bit_def)
qed

text \<open>Every flit hit by an injected error; the draws are the ones above.\<close>

definition noisy_config :: Config where
  "noisy_config = Config_init\<lparr>cf_extra_flit_error_rate := 1\<rparr>"

lemma eye_noisy: "eye_open noisy_config quiet_draws bytes True"
proof -
  have "channel_sample noisy_config = channel_sample Config_init" "cf_awgn_sigma noisy_config = cf_awgn_sigma Config_init"
    "cf_num_lanes noisy_config = cf_num_lanes Config_init" "bits_per_ui noisy_config = bits_per_ui Config_init"
    by (simp_all add: noisy_config_def channel_sample_def bits_per_ui_def fun_eq_iff)
  then show ?thesis
    using eye_default [of quiet_draws bytes] by (simp add: eye_open_def quiet_draws_def)
qed

theorem phy_injected_error_detected_witness:
  "\<exists>tx r. build_flit noisy_config 5 (replicate 236 1) False = Inr tx \<and> transmit noisy_config quiet_draws tx 5 BehavioralPhy_init = Inr r
    \<and> \<not> fc_crc_ok (check_flit noisy_config (pr_rx_bytes r))"
proof -
  have "length (replicate 236 (1 :: u8)) = payload_bytes noisy_config"
    by (simp add: payload_bytes_def noisy_config_def Config_init_def)
  then obtain tx where tx: "build_flit noisy_config 5 (replicate 236 1) False = Inr tx" "length tx = flit_bytes noisy_config"
    "check_flit noisy_config tx = \<lparr>fc_crc_ok = True, fc_seq8 = of_nat 5, fc_replay_flag = False\<rparr>"
    by (rule build_flit_ok)
  have lock: "is_cdr_locked BehavioralPhy_init 5"
    by (simp add: is_cdr_locked_def BehavioralPhy_init_def)
  have "\<exists>r. transmit noisy_config quiet_draws tx 5 BehavioralPhy_init = Inr r \<and> pr_extra_error r
      \<and> \<not> fc_crc_ok (check_flit noisy_config (pr_rx_bytes r))"
    by (rule phy_injected_error_detected)
       (use tx(2,3) eye_noisy lock in \<open>simp_all add: noisy_config_def Config_init_def quiet_draws_def flit_bytes_def\<close>)
  with tx(1) show ?thesis
    by blast
qed

end
