(* ===== verification/Ucie_Link.thy ===== *)
theory Ucie_Link
  imports Ucie_Phy
begin

text \<open>
  One direction of the UCIe link (components/ucie-model/src/ucie_link.h): the transmit adapter with its
  retry buffer, the PHY channel, the receive adapter and the feedback path, as functions for the
  stretches of the threads between two \<open>wait\<close>s. Times are counted in unit intervals. The
  \<open>std::map\<close> of the retry buffer is an association list sorted by key.
\<close>

section \<open>Data\<close>

record LinkStats =
  st_tx_new_flits :: nat
  st_tx_replay_flits :: nat
  st_ack_count :: nat
  st_nak_count :: nat
  st_stale_nak_count :: nat
  st_crc_fail_count :: nat
  st_seq_fail_count :: nat
  st_duplicate_drop_count :: nat
  st_retry_buffer_full_events :: nat
  st_max_retry_buffer_occupancy :: nat
  st_replay_timeout_events :: nat
  st_total_phy_frames :: nat
  st_total_symbols :: nat
  st_symbol_errors :: nat
  st_total_bits :: nat
  st_bit_errors :: nat
  st_deskew_failures :: nat
  st_extra_error_flits :: nat
  st_cdr_lock_loss_count :: nat

definition LinkStats_init :: LinkStats where
  "LinkStats_init = \<lparr>st_tx_new_flits = 0, st_tx_replay_flits = 0, st_ack_count = 0, st_nak_count = 0,
     st_stale_nak_count = 0, st_crc_fail_count = 0, st_seq_fail_count = 0, st_duplicate_drop_count = 0,
     st_retry_buffer_full_events = 0, st_max_retry_buffer_occupancy = 0, st_replay_timeout_events = 0,
     st_total_phy_frames = 0, st_total_symbols = 0, st_symbol_errors = 0, st_total_bits = 0,
     st_bit_errors = 0, st_deskew_failures = 0, st_extra_error_flits = 0, st_cdr_lock_loss_count = 0\<rparr>"

definition require_valid_fdi :: "Config \<Rightarrow> FdiFlit \<Rightarrow> unit res" where
  "require_valid_fdi cfg flit =
     (if length (fd_payload flit) \<noteq> payload_bytes cfg
      then Inl (RuntimeError ''FDI payload is not padded to configured size'')
      else if fd_valid_bytes flit > length (fd_payload flit)
      then Inl (RuntimeError ''FDI valid_bytes exceeds payload'')
      else if cf_flit_format cfg = AouFormat6 \<and> fd_valid_bytes flit \<noteq> 250
      then Inl (RuntimeError ''AoU FDI valid_bytes must be exactly 250'')
      else Inr ())"

record Frame =
  fr_bytes :: "u8 list"
  fr_seq :: nat
  fr_transaction_id :: nat
  fr_vc :: u8
  fr_valid_bytes :: nat
  fr_kind :: BusinessKind
  fr_replay :: bool
  fr_transaction_start :: nat
  fr_fdi_time :: nat

record FbMsg =
  fb_is_nak :: bool
  fb_seq :: nat

definition unpack_fdi :: "Config \<Rightarrow> Frame \<Rightarrow> FdiFlit res" where
  "unpack_fdi cfg frame =
     (if length (fr_bytes frame) < 2 + payload_bytes cfg
      then Inl (RuntimeError ''received frame is shorter than the configured FDI payload'')
      else if cf_flit_format cfg = AouFormat6 \<and> length (fr_bytes frame) \<noteq> 256
      then Inl (RuntimeError ''AoU physical flit must be exactly 256B'')
      else
        let payload = (if cf_flit_format cfg = AouFormat6 then gather (fr_bytes frame)
                       else take (payload_bytes cfg) (drop 2 (fr_bytes frame)))
        in Inr \<lparr>fd_payload = payload, fd_valid_bytes = fr_valid_bytes frame,
             fd_transaction_id = fr_transaction_id frame, fd_vc = fr_vc frame, fd_kind = fr_kind frame,
             fd_transaction_start = fr_transaction_start frame, fd_fdi_time = fr_fdi_time frame\<rparr>)"

section \<open>The transmit adapter\<close>

datatype TxState = TxIdle | TxAckReceived | TxNakReceived | TxNakInProgress

text \<open>
  \<open>tx_sending\<close> is what \<open>send_one\<close> holds across its wait: the frame, and for a replay the key its
  iterator points to. The sequence numbers, 64 bits wide in the source, are natural numbers: the model
  agrees with it for the first \<open>2 ^ 64\<close> flits.
\<close>

record TxAdapter =
  tx_replay_timeout_ui :: nat
  tx_tx_state :: TxState
  tx_next_seq :: nat
  tx_retry_buffer :: "(nat \<times> FdiFlit) list"
  tx_replay_active :: bool
  tx_replay_cursor :: nat
  tx_replay_end :: nat
  tx_last_progress :: nat
  tx_sending :: "(Frame \<times> nat option) option"

definition TxAdapter_new :: "Config \<Rightarrow> TxAdapter" where
  "TxAdapter_new cfg = \<lparr>tx_replay_timeout_ui = (4 * (serialize_ui cfg + cf_tx_pipe_ui cfg + cf_channel_ui cfg
       + cf_rx_pipe_ui cfg + cf_feedback_ui cfg + 64)) mod 2 ^ 32,
     tx_tx_state = TxIdle, tx_next_seq = 0, tx_retry_buffer = [], tx_replay_active = False,
     tx_replay_cursor = 0, tx_replay_end = 0, tx_last_progress = 0, tx_sending = None\<rparr>"

definition lower_bound :: "nat \<Rightarrow> (nat \<times> 'a) list \<Rightarrow> (nat \<times> 'a) list" where
  "lower_bound k m = dropWhile (\<lambda>(s, _). s < k) m"

definition map_put :: "nat \<Rightarrow> 'a \<Rightarrow> (nat \<times> 'a) list \<Rightarrow> (nat \<times> 'a) list" where
  "map_put k v m = takeWhile (\<lambda>(s, _). s < k) m @ (k, v) # dropWhile (\<lambda>(s, _). s \<le> k) m"

text \<open>The part of \<open>send_one\<close> before its wait.\<close>

definition send_one_start :: "Config \<Rightarrow> nat \<Rightarrow> FdiFlit \<Rightarrow> bool \<Rightarrow> Frame res" where
  "send_one_start cfg seq flit replay =
     rbind (build_flit cfg seq (fd_payload flit) replay) (\<lambda>bytes.
       Inr \<lparr>fr_bytes = bytes, fr_seq = seq, fr_transaction_id = fd_transaction_id flit, fr_vc = fd_vc flit,
         fr_valid_bytes = fd_valid_bytes flit, fr_kind = fd_kind flit, fr_replay = replay,
         fr_transaction_start = fd_transaction_start flit, fr_fdi_time = fd_fdi_time flit\<rparr>)"

text \<open>
  One pass of the loop of \<open>sender\<close> up to its next wait. \<open>fdi\<close> is what is readable on the FDI input;
  the result returns what is left of it.
\<close>

definition sender_replay :: "Config \<Rightarrow> TxAdapter \<Rightarrow> TxAdapter res" where
  "sender_replay cfg tx =
     (if \<not> tx_replay_active tx then Inr tx
      else case lower_bound (tx_replay_cursor tx) (tx_retry_buffer tx) of
             [] \<Rightarrow> Inr (tx\<lparr>tx_replay_active := False, tx_tx_state := TxIdle\<rparr>)
           | (k, flit) # _ \<Rightarrow>
               if k > tx_replay_end tx then Inr (tx\<lparr>tx_replay_active := False, tx_tx_state := TxIdle\<rparr>)
               else rbind (send_one_start cfg k flit True) (\<lambda>frame. Inr (tx\<lparr>tx_sending := Some (frame, Some k)\<rparr>)))"

definition sender_new :: "Config \<Rightarrow> FdiFlit list \<Rightarrow> TxAdapter \<times> LinkStats \<Rightarrow> (FdiFlit list \<times> TxAdapter \<times> LinkStats) res" where
  "sender_new cfg fdi ts =
     (let (tx, st) = ts
      in case fdi of
           [] \<Rightarrow> Inr (fdi, tx, st)
         | flit # fdi' \<Rightarrow>
             if length (tx_retry_buffer tx) < cf_retry_buffer_size cfg then
               rbind (require_valid_fdi cfg flit) (\<lambda>_.
                 let seq = tx_next_seq tx;
                     rb = map_put seq flit (tx_retry_buffer tx);
                     st = st\<lparr>st_max_retry_buffer_occupancy := max (st_max_retry_buffer_occupancy st) (length rb)\<rparr>
                 in rbind (send_one_start cfg seq flit False) (\<lambda>frame.
                      Inr (fdi', tx\<lparr>tx_next_seq := seq + 1, tx_retry_buffer := rb,
                                 tx_sending := Some (frame, None)\<rparr>, st)))
             else Inr (fdi, tx, st\<lparr>st_retry_buffer_full_events := st_retry_buffer_full_events st + 1\<rparr>))"

definition sender_begin :: "Config \<Rightarrow> FdiFlit list \<Rightarrow> TxAdapter \<times> LinkStats \<Rightarrow> (FdiFlit list \<times> TxAdapter \<times> LinkStats) res" where
  "sender_begin cfg fdi ts =
     (let (tx, st) = ts
      in rbind (sender_replay cfg tx) (\<lambda>tx.
           if tx_sending tx \<noteq> None then Inr (fdi, tx, st) else sender_new cfg fdi (tx, st)))"

text \<open>
  The rest of \<open>send_one\<close> and of the loop body: the frame goes to the PHY, and a replay reads the key
  through its iterator again. If the entry was erased meanwhile, that read is undefined.
\<close>

definition sender_finish :: "nat \<Rightarrow> TxAdapter \<times> LinkStats \<Rightarrow> (Frame list \<times> TxAdapter \<times> LinkStats) res" where
  "sender_finish now ts =
     (let (tx, st) = ts
      in case tx_sending tx of
           None \<Rightarrow> Inr ([], tx, st)
         | Some (frame, None) \<Rightarrow>
             Inr ([frame], tx\<lparr>tx_sending := None, tx_last_progress := now\<rparr>,
                  st\<lparr>st_tx_new_flits := st_tx_new_flits st + 1\<rparr>)
         | Some (frame, Some k) \<Rightarrow>
             let st = st\<lparr>st_tx_replay_flits := st_tx_replay_flits st + 1\<rparr>;
                 tx = tx\<lparr>tx_sending := None, tx_last_progress := now\<rparr>
             in if k \<notin> set (map fst (tx_retry_buffer tx)) then Inl (Undefined ''iterator of an erased entry'')
                else
                  let tx = tx\<lparr>tx_replay_cursor := k + 1\<rparr>
                  in Inr ([frame], if tx_replay_cursor tx > tx_replay_end tx
                                   then tx\<lparr>tx_replay_active := False, tx_tx_state := TxIdle\<rparr> else tx, st))"

text \<open>What the sender does when it wakes up from the wait for new work.\<close>

definition sender_timeout :: "nat \<Rightarrow> TxAdapter \<times> LinkStats \<Rightarrow> TxAdapter \<times> LinkStats" where
  "sender_timeout now ts =
     (let (tx, st) = ts
      in case tx_retry_buffer tx of
           [] \<Rightarrow> (tx, st)
         | (k, _) # _ \<Rightarrow>
             if \<not> tx_replay_active tx \<and> now - tx_last_progress tx \<ge> tx_replay_timeout_ui tx
             then (tx\<lparr>tx_replay_active := True, tx_replay_cursor := k,
                     tx_replay_end := fst (last (tx_retry_buffer tx)), tx_tx_state := TxNakInProgress\<rparr>,
                   st\<lparr>st_replay_timeout_events := st_replay_timeout_events st + 1\<rparr>)
             else (tx, st))"

text \<open>One feedback message (the loop body of \<open>feedback\<close>).\<close>

definition tx_feedback :: "nat \<Rightarrow> FbMsg \<Rightarrow> TxAdapter \<times> LinkStats \<Rightarrow> TxAdapter \<times> LinkStats" where
  "tx_feedback now fb ts =
     (let (tx, st) = ts; tx = tx\<lparr>tx_last_progress := now\<rparr>
      in if \<not> fb_is_nak fb then
           (tx\<lparr>tx_retry_buffer := dropWhile (\<lambda>(s, _). s \<le> fb_seq fb) (tx_retry_buffer tx),
               tx_tx_state := (if \<not> tx_replay_active tx then TxIdle else TxAckReceived)\<rparr>,
            st\<lparr>st_ack_count := st_ack_count st + 1\<rparr>)
         else
           let st = st\<lparr>st_nak_count := st_nak_count st + 1\<rparr>; tx = tx\<lparr>tx_tx_state := TxNakReceived\<rparr>
           in case lower_bound (fb_seq fb) (tx_retry_buffer tx) of
                [] \<Rightarrow> (if \<not> tx_replay_active tx then tx\<lparr>tx_tx_state := TxIdle\<rparr> else tx,
                       st\<lparr>st_stale_nak_count := st_stale_nak_count st + 1\<rparr>)
              | (k, _) # _ \<Rightarrow>
                  (tx\<lparr>tx_replay_active := True, tx_replay_cursor := k,
                      tx_replay_end := fst (last (tx_retry_buffer tx)), tx_tx_state := TxNakInProgress\<rparr>, st))"

section \<open>The PHY channel and the feedback path\<close>

record PhyChannel =
  pc_phy :: BehavioralPhy
  pc_pending :: "(Frame \<times> nat) list"

definition phy_ingress :: "Config \<Rightarrow> phy_draws \<Rightarrow> nat \<Rightarrow> Frame \<Rightarrow> PhyChannel \<times> LinkStats \<Rightarrow> (PhyChannel \<times> LinkStats) res" where
  "phy_ingress cfg dr now frame cs =
     (let (pc, st) = cs
      in rbind (transmit cfg dr (fr_bytes frame) (real now) (pc_phy pc)) (\<lambda>r.
           let ph = phy_observe cfg (real now) r (pc_phy pc);
               st = st\<lparr>st_total_phy_frames := st_total_phy_frames st + 1,
                      st_total_symbols := st_total_symbols st + pr_total_symbols r,
                      st_symbol_errors := st_symbol_errors st + pr_symbol_errors r,
                      st_total_bits := st_total_bits st + length (fr_bytes frame) * 8,
                      st_bit_errors := st_bit_errors st + pr_bit_errors r,
                      st_deskew_failures := st_deskew_failures st + (if pr_deskew_failure r then 1 else 0),
                      st_extra_error_flits := st_extra_error_flits st + (if pr_extra_error r then 1 else 0),
                      st_cdr_lock_loss_count := ph_lock_loss_count ph\<rparr>;
               pipe_ui = cf_tx_pipe_ui cfg + cf_channel_ui cfg + pr_max_skew_ui r + cf_rx_pipe_ui cfg
           in Inr (pc\<lparr>pc_phy := ph, pc_pending := pc_pending pc @ [(frame\<lparr>fr_bytes := pr_rx_bytes r\<rparr>, now + pipe_ui)]\<rparr>, st)))"

text \<open>The front of a delay line, once its time has come.\<close>

definition delay_egress :: "nat \<Rightarrow> ('a \<times> nat) list \<Rightarrow> ('a \<times> ('a \<times> nat) list) option" where
  "delay_egress now pending = (case pending of [] \<Rightarrow> None
     | (x, t) # rest \<Rightarrow> if t > now then None else Some (x, rest))"

definition feedback_ingress :: "Config \<Rightarrow> nat \<Rightarrow> FbMsg \<Rightarrow> (FbMsg \<times> nat) list \<Rightarrow> (FbMsg \<times> nat) list" where
  "feedback_ingress cfg now msg pending = pending @ [(msg, now + cf_feedback_ui cfg)]"

section \<open>The receive adapter\<close>

datatype RxState = NoRetry | RetryInProgress

record RxAdapter =
  rx_state :: RxState
  rx_expected_seq :: nat
  rx_frames_since_nak :: nat

definition RxAdapter_init :: RxAdapter where
  "RxAdapter_init = \<lparr>rx_state = NoRetry, rx_expected_seq = 0, rx_frames_since_nak = 0\<rparr>"

text \<open>One frame (the loop body of \<open>run\<close>): the flits delivered and the feedback written.\<close>

definition rx_run :: "Config \<Rightarrow> Frame \<Rightarrow> RxAdapter \<times> LinkStats \<Rightarrow> (FdiFlit list \<times> FbMsg list \<times> RxAdapter \<times> LinkStats) res" where
  "rx_run cfg frame rs =
     (let (rx, st) = rs;
          check = check_flit cfg (fr_bytes frame);
          expected8 = (of_nat (rx_expected_seq rx) :: u8);
          diff = fc_seq8 check - expected8
      in if fc_crc_ok check \<and> diff = 0 then
           rbind (unpack_fdi cfg frame) (\<lambda>delivered.
             Inr ([delivered], [\<lparr>fb_is_nak = False, fb_seq = rx_expected_seq rx\<rparr>],
                  rx\<lparr>rx_state := NoRetry, rx_frames_since_nak := 0, rx_expected_seq := rx_expected_seq rx + 1\<rparr>, st))
         else if fc_crc_ok check \<and> diff > 127 then
           Inr ([], if rx_expected_seq rx > 0 then [\<lparr>fb_is_nak = False, fb_seq = rx_expected_seq rx - 1\<rparr>] else [],
                rx, st\<lparr>st_duplicate_drop_count := st_duplicate_drop_count st + 1\<rparr>)
         else
           let st = (if \<not> fc_crc_ok check then st\<lparr>st_crc_fail_count := st_crc_fail_count st + 1\<rparr>
                     else st\<lparr>st_seq_fail_count := st_seq_fail_count st + 1\<rparr>);
               rx = (if rx_state rx = NoRetry then rx
                     else rx\<lparr>rx_frames_since_nak := rx_frames_since_nak rx + 1\<rparr>);
               send_nak = (rx_state rx = NoRetry \<or> rx_frames_since_nak rx \<ge> cf_nak_repeat_frames cfg)
           in Inr ([], if send_nak then [\<lparr>fb_is_nak = True, fb_seq = rx_expected_seq rx\<rparr>] else [],
                   (if send_nak then rx\<lparr>rx_frames_since_nak := 0\<rparr> else rx)\<lparr>rx_state := RetryInProgress\<rparr>, st))"

section \<open>The link state process\<close>

text \<open>\<open>status_thread\<close>: where it waits, and the value of the \<open>link_state\<close> output.\<close>

datatype status_pc = SpTraining | SpRunning | SpReturned

record link_status =
  ls_pc :: status_pc
  ls_state :: LinkState

definition status_start :: link_status where
  "status_start = \<lparr>ls_pc = SpTraining, ls_state = LsTraining\<rparr>"

definition status_step :: "bool \<Rightarrow> bool \<Rightarrow> LinkStats \<Rightarrow> LinkStats \<Rightarrow> link_status \<Rightarrow> link_status" where
  "status_step failed watchdog_fired forward backward s = (case ls_pc s of
     SpTraining \<Rightarrow> if failed then \<lparr>ls_pc = SpReturned, ls_state = LsFailed\<rparr>
                   else \<lparr>ls_pc = SpRunning, ls_state = LsActive\<rparr>
   | SpRunning \<Rightarrow> if failed \<or> watchdog_fired then \<lparr>ls_pc = SpReturned, ls_state = LsFailed\<rparr>
                  else if st_cdr_lock_loss_count forward \<noteq> 0 \<or> st_cdr_lock_loss_count backward \<noteq> 0
                     \<or> st_deskew_failures forward \<noteq> 0 \<or> st_deskew_failures backward \<noteq> 0
                  then s\<lparr>ls_state := LsDegraded\<rparr> else s
   | SpReturned \<Rightarrow> s)"

section \<open>One direction of the link\<close>

text \<open>
  The adapters, the channel and the bounded queues between them. \<open>ud_pushed\<close>, \<open>ud_accepted\<close> and
  \<open>ud_delivered\<close> record the FDI flits offered, taken by the sender and handed out.
\<close>

record UcieDir =
  ud_now :: nat
  ud_fdi_in :: "FdiFlit list"
  ud_tx :: TxAdapter
  ud_tx_to_phy :: "Frame list"
  ud_phy :: PhyChannel
  ud_phy_to_rx :: "Frame list"
  ud_rx :: RxAdapter
  ud_rx_to_fb :: "FbMsg list"
  ud_fb_pending :: "(FbMsg \<times> nat) list"
  ud_fb_to_tx :: "FbMsg list"
  ud_stats :: LinkStats
  ud_pushed :: "FdiFlit list"
  ud_accepted :: "FdiFlit list"
  ud_delivered :: "FdiFlit list"

definition UcieDir_new :: "Config \<Rightarrow> UcieDir" where
  "UcieDir_new cfg = \<lparr>ud_now = 0, ud_fdi_in = [], ud_tx = TxAdapter_new cfg, ud_tx_to_phy = [],
     ud_phy = \<lparr>pc_phy = BehavioralPhy_init, pc_pending = []\<rparr>, ud_phy_to_rx = [], ud_rx = RxAdapter_init,
     ud_rx_to_fb = [], ud_fb_pending = [], ud_fb_to_tx = [], ud_stats = LinkStats_init,
     ud_pushed = [], ud_accepted = [], ud_delivered = []\<rparr>"

definition dir_begin :: "Config \<Rightarrow> UcieDir \<Rightarrow> UcieDir res" where
  "dir_begin cfg d = rbind (sender_begin cfg (ud_fdi_in d) (ud_tx d, ud_stats d)) (\<lambda>(fdi, tx, st).
     Inr (d\<lparr>ud_fdi_in := fdi, ud_tx := tx, ud_stats := st,
       ud_accepted := ud_accepted d @ take (length (ud_fdi_in d) - length fdi) (ud_fdi_in d)\<rparr>))"

definition dir_finish :: "UcieDir \<Rightarrow> UcieDir res" where
  "dir_finish d = rbind (sender_finish (ud_now d) (ud_tx d, ud_stats d)) (\<lambda>(out, tx, st).
     Inr (d\<lparr>ud_tx_to_phy := ud_tx_to_phy d @ out, ud_tx := tx, ud_stats := st\<rparr>))"

definition dir_rx :: "Config \<Rightarrow> Frame \<Rightarrow> UcieDir \<Rightarrow> UcieDir res" where
  "dir_rx cfg frame d = rbind (rx_run cfg frame (ud_rx d, ud_stats d)) (\<lambda>(out, fb, rx, st).
     Inr (d\<lparr>ud_rx := rx, ud_stats := st, ud_rx_to_fb := ud_rx_to_fb d @ fb,
       ud_delivered := ud_delivered d @ out\<rparr>))"

text \<open>
  The steps of a direction, in any interleaving: the thread pieces above, the environment that
  offers flits, and time. A write to a bounded queue waits until there is space. The PHY step carries
  the assumption of the retry protocol: what arrives is what was sent, or the CRC check rejects it.
\<close>

inductive dir_step :: "Config \<Rightarrow> UcieDir \<Rightarrow> UcieDir \<Rightarrow> bool" for cfg where
  d_push: "dir_step cfg d (d\<lparr>ud_fdi_in := ud_fdi_in d @ [f], ud_pushed := ud_pushed d @ [f]\<rparr>)"
| d_begin: "tx_sending (ud_tx d) = None \<Longrightarrow> dir_begin cfg d = Inr d' \<Longrightarrow> dir_step cfg d d'"
| d_finish: "length (ud_tx_to_phy d) < 4 \<Longrightarrow> dir_finish d = Inr d' \<Longrightarrow> dir_step cfg d d'"
| d_timeout: "tx_sending (ud_tx d) = None \<Longrightarrow> sender_timeout (ud_now d) (ud_tx d, ud_stats d) = (tx, st) \<Longrightarrow>
    dir_step cfg d (d\<lparr>ud_tx := tx, ud_stats := st\<rparr>)"
| d_feedback: "ud_fb_to_tx d = m # ms \<Longrightarrow> tx_feedback (ud_now d) m (ud_tx d, ud_stats d) = (tx, st) \<Longrightarrow>
    dir_step cfg d (d\<lparr>ud_fb_to_tx := ms, ud_tx := tx, ud_stats := st\<rparr>)"
| d_ingress: "ud_tx_to_phy d = f # fs \<Longrightarrow> phy_ingress cfg dr (ud_now d) f (ud_phy d, ud_stats d) = Inr (pc, st) \<Longrightarrow>
    fr_bytes (fst (last (pc_pending pc))) = fr_bytes f
      \<or> \<not> fc_crc_ok (check_flit cfg (fr_bytes (fst (last (pc_pending pc))))) \<Longrightarrow>
    dir_step cfg d (d\<lparr>ud_tx_to_phy := fs, ud_phy := pc, ud_stats := st\<rparr>)"
| d_egress: "delay_egress (ud_now d) (pc_pending (ud_phy d)) = Some (f, rest) \<Longrightarrow> length (ud_phy_to_rx d) < 4 \<Longrightarrow>
    dir_step cfg d (d\<lparr>ud_phy := (ud_phy d)\<lparr>pc_pending := rest\<rparr>, ud_phy_to_rx := ud_phy_to_rx d @ [f]\<rparr>)"
| d_rx: "ud_phy_to_rx d = f # fs \<Longrightarrow> length (ud_rx_to_fb d) < 64 \<Longrightarrow> dir_rx cfg f (d\<lparr>ud_phy_to_rx := fs\<rparr>) = Inr d' \<Longrightarrow>
    dir_step cfg d d'"
| d_fb_in: "ud_rx_to_fb d = m # ms \<Longrightarrow>
    dir_step cfg d (d\<lparr>ud_rx_to_fb := ms, ud_fb_pending := feedback_ingress cfg (ud_now d) m (ud_fb_pending d)\<rparr>)"
| d_fb_out: "delay_egress (ud_now d) (ud_fb_pending d) = Some (m, rest) \<Longrightarrow> length (ud_fb_to_tx d) < 64 \<Longrightarrow>
    dir_step cfg d (d\<lparr>ud_fb_pending := rest, ud_fb_to_tx := ud_fb_to_tx d @ [m]\<rparr>)"
| d_tick: "dir_step cfg d (d\<lparr>ud_now := ud_now d + 1\<rparr>)"

end
