(* ===== verification/Ucie_Retry.thy ===== *)
theory Ucie_Retry
  imports Ucie_Link
begin

text \<open>
  The retry protocol of one link direction: with a window of at most 127 flits the receiver's 8-bit
  sequence comparison is unambiguous, and flits are delivered in order, exactly once and unaltered,
  for every interleaving, delay, corruption, replay and timeout.
\<close>

section \<open>The invariant\<close>

definition flight :: "UcieDir \<Rightarrow> Frame list" where
  "flight d = ud_phy_to_rx d @ map fst (pc_pending (ud_phy d)) @ ud_tx_to_phy d
     @ (case tx_sending (ud_tx d) of None \<Rightarrow> [] | Some (f, _) \<Rightarrow> [f])"

definition feedbacks :: "UcieDir \<Rightarrow> FbMsg list" where
  "feedbacks d = ud_fb_to_tx d @ map fst (ud_fb_pending d) @ ud_rx_to_fb d"

definition frame_ok :: "Config \<Rightarrow> FdiFlit list \<Rightarrow> Frame \<Rightarrow> bool" where
  "frame_ok cfg acc f \<longleftrightarrow> fr_seq f < length acc \<and>
     (let a = acc ! fr_seq f in
        fr_transaction_id f = fd_transaction_id a \<and> fr_vc f = fd_vc a \<and> fr_valid_bytes f = fd_valid_bytes a
        \<and> fr_kind f = fd_kind a \<and> fr_transaction_start f = fd_transaction_start a \<and> fr_fdi_time f = fd_fdi_time a
        \<and> ((\<exists>r. build_flit cfg (fr_seq f) (fd_payload a) r = Inr (fr_bytes f))
            \<or> \<not> fc_crc_ok (check_flit cfg (fr_bytes f))))"

definition tx_inv :: "Config \<Rightarrow> UcieDir \<Rightarrow> bool" where
  "tx_inv cfg d \<longleftrightarrow> tx_next_seq (ud_tx d) = length (ud_accepted d) \<and> ud_pushed d = ud_accepted d @ ud_fdi_in d
     \<and> list_all (\<lambda>f. require_valid_fdi cfg f = Inr ()) (ud_accepted d)
     \<and> (\<exists>b. b \<le> rx_expected_seq (ud_rx d) \<and> length (ud_accepted d) \<le> b + cf_retry_buffer_size cfg
          \<and> tx_retry_buffer (ud_tx d) = map (\<lambda>s. (s, ud_accepted d ! s)) [b..<length (ud_accepted d)])"

definition rx_inv :: "UcieDir \<Rightarrow> bool" where
  "rx_inv d \<longleftrightarrow> rx_expected_seq (ud_rx d) \<le> length (ud_accepted d)
     \<and> ud_delivered d = take (rx_expected_seq (ud_rx d)) (ud_accepted d)
     \<and> list_all (\<lambda>m. fb_is_nak m \<or> fb_seq m < rx_expected_seq (ud_rx d)) (feedbacks d)"

definition flight_ok :: "Config \<Rightarrow> FdiFlit list \<Rightarrow> nat \<Rightarrow> Frame list \<Rightarrow> bool" where
  "flight_ok cfg acc e fs \<longleftrightarrow> list_all (frame_ok cfg acc) fs \<and> list_all (\<lambda>f. e \<le> fr_seq f + 127) fs
     \<and> sorted_wrt (\<lambda>f g. fr_seq f \<le> fr_seq g + 126) fs"

definition dir_inv :: "Config \<Rightarrow> UcieDir \<Rightarrow> bool" where
  "dir_inv cfg d \<longleftrightarrow> tx_inv cfg d \<and> rx_inv d \<and> flight_ok cfg (ud_accepted d) (rx_expected_seq (ud_rx d)) (flight d)"

lemma flight_ok_append:
  assumes "flight_ok cfg acc e fs" and "frame_ok cfg acc g" and "length acc \<le> fr_seq g + 127" and "e \<le> length acc"
  shows "flight_ok cfg acc e (fs @ [g])"
proof -
  have "fr_seq f \<le> fr_seq g + 126" if "f \<in> set fs" for f
    using assms(1,3) that by (auto simp: flight_ok_def frame_ok_def list_all_iff)
  with assms show ?thesis
    by (auto simp: flight_ok_def sorted_wrt_append)
qed

lemma flight_ok_accept: "flight_ok cfg acc e fs \<Longrightarrow> flight_ok cfg (acc @ [a]) e fs"
  by (auto simp: flight_ok_def frame_ok_def list_all_iff nth_append Let_def)

lemma flight_ok_update:
  assumes "flight_ok cfg acc e (xs @ f # ys)" and "fr_seq f' = fr_seq f" and "frame_ok cfg acc f'"
  shows "flight_ok cfg acc e (xs @ f' # ys)"
  using assms by (auto simp: flight_ok_def sorted_wrt_append)

lemma send_one_start_ok:
  assumes "require_valid_fdi cfg flit = Inr ()" and "s < length acc" and "acc ! s = flit"
  obtains frame where "send_one_start cfg s flit r = Inr frame" "fr_seq frame = s" "frame_ok cfg acc frame"
proof -
  have "length (fd_payload flit) = payload_bytes cfg"
    using assms(1) by (auto simp: require_valid_fdi_def split: if_splits)
  then obtain b where "build_flit cfg s (fd_payload flit) r = Inr b"
    by (rule build_flit_ok)
  with assms that show thesis
    by (auto simp: send_one_start_def frame_ok_def Let_def)
qed

lemma map_put_end: "(\<And>k v. (k, v) \<in> set m \<Longrightarrow> k < s) \<Longrightarrow> map_put s f m = m @ [(s, f)]"
proof -
  assume a: "\<And>k v. (k, v) \<in> set m \<Longrightarrow> k < s"
  have "takeWhile (\<lambda>(k, _). k < s) m = m" "dropWhile (\<lambda>(k, _). k \<le> s) m = []"
    using a by (auto intro: less_imp_le)
  then show ?thesis
    by (simp add: map_put_def)
qed

lemma flight_sending: "tx_sending (ud_tx d) = None \<Longrightarrow> flight d = ud_phy_to_rx d @ map fst (pc_pending (ud_phy d)) @ ud_tx_to_phy d"
  by (simp add: flight_def)

section \<open>The sender\<close>

lemma sender_replay_inv:
  assumes r: "sender_replay cfg tx = Inr tx'" and tx: "tx_sending tx = None"
    and rb: "tx_retry_buffer tx = map (\<lambda>s. (s, acc ! s)) [b..<length acc]"
    and v: "list_all (\<lambda>f. require_valid_fdi cfg f = Inr ()) acc"
  shows "tx_next_seq tx' = tx_next_seq tx \<and> tx_retry_buffer tx' = tx_retry_buffer tx \<and>
    (tx_sending tx' = None \<or> (\<exists>f k. tx_sending tx' = Some (f, Some k) \<and> frame_ok cfg acc f \<and> b \<le> fr_seq f \<and> fr_seq f < length acc))"
proof (cases "lower_bound (tx_replay_cursor tx) (tx_retry_buffer tx)")
  case Nil
  with r tx show ?thesis
    by (auto simp: sender_replay_def split: if_splits)
next
  case (Cons kf rest)
  obtain k flit where kf: "kf = (k, flit)"
    by (cases kf)
  have "(k, flit) \<in> set (tx_retry_buffer tx)"
    using Cons kf by (metis list.set_intros(1) lower_bound_def set_dropWhileD)
  then have k: "b \<le> k" "k < length acc" "acc ! k = flit"
    by (auto simp: rb)
  have "require_valid_fdi cfg flit = Inr ()"
    using v k by (auto simp: list_all_iff)
  from send_one_start_ok [OF this k(2,3), of True]
  obtain frame where f: "send_one_start cfg k flit True = Inr frame" "fr_seq frame = k" "frame_ok cfg acc frame" .
  from r tx show ?thesis
    using f k unfolding sender_replay_def Cons kf by (auto split: if_splits)
qed

lemma inv_begin:
  assumes inv: "dir_inv cfg d" and size: "cf_retry_buffer_size cfg \<le> 127"
    and idle: "tx_sending (ud_tx d) = None" and t: "dir_begin cfg d = Inr d'"
  shows "dir_inv cfg d'"
proof -
  let ?acc = "ud_accepted d"
  from inv obtain b where b: "b \<le> rx_expected_seq (ud_rx d)" "length ?acc \<le> b + cf_retry_buffer_size cfg"
    "tx_retry_buffer (ud_tx d) = map (\<lambda>s. (s, ?acc ! s)) [b..<length ?acc]"
    and n: "tx_next_seq (ud_tx d) = length ?acc" and p: "ud_pushed d = ?acc @ ud_fdi_in d"
    and v: "list_all (\<lambda>f. require_valid_fdi cfg f = Inr ()) ?acc"
    by (auto simp: dir_inv_def tx_inv_def)
  from t obtain tx1 where tx1: "sender_replay cfg (ud_tx d) = Inr tx1"
    and t2: "rbind (if tx_sending tx1 \<noteq> None then Inr (ud_fdi_in d, tx1, ud_stats d)
        else sender_new cfg (ud_fdi_in d) (tx1, ud_stats d)) (\<lambda>(fdi, tx, st).
          Inr (d\<lparr>ud_fdi_in := fdi, ud_tx := tx, ud_stats := st,
            ud_accepted := ?acc @ take (length (ud_fdi_in d) - length fdi) (ud_fdi_in d)\<rparr>)) = Inr d'"
    by (cases "sender_replay cfg (ud_tx d)") (auto simp: dir_begin_def sender_begin_def)
  note r = sender_replay_inv [OF tx1 idle b(3) v]
  have fl: "flight_ok cfg ?acc (rx_expected_seq (ud_rx d))
      (ud_phy_to_rx d @ map fst (pc_pending (ud_phy d)) @ ud_tx_to_phy d)" and e: "rx_expected_seq (ud_rx d) \<le> length ?acc"
    using inv flight_sending [OF idle] by (simp_all add: dir_inv_def rx_inv_def)
  show ?thesis
  proof (cases "tx_sending tx1 = None")
    case False
    with r obtain f k where f: "tx_sending tx1 = Some (f, Some k)" "frame_ok cfg ?acc f" "b \<le> fr_seq f" "fr_seq f < length ?acc"
      by auto
    from t2 False have d': "d' = d\<lparr>ud_tx := tx1\<rparr>"
      by simp
    have "flight_ok cfg ?acc (rx_expected_seq (ud_rx d)) (flight d')"
      using flight_ok_append [OF fl f(2) _ e] f(1,3) b(2) size by (simp add: d' flight_def)
    with inv r show ?thesis
      by (simp add: dir_inv_def d' tx_inv_def rx_inv_def feedbacks_def)
  next
    case True
    show ?thesis
    proof (cases "ud_fdi_in d")
      case Nil
      with t2 True have "d' = d\<lparr>ud_fdi_in := [], ud_tx := tx1\<rparr>"
        by (simp add: sender_new_def)
      with inv r True idle Nil show ?thesis
        by (simp add: dir_inv_def tx_inv_def rx_inv_def feedbacks_def flight_def)
    next
      case (Cons flit fdi)
      show ?thesis
      proof (cases "length (tx_retry_buffer tx1) < cf_retry_buffer_size cfg")
        case full: False
        with t2 True Cons have "d' = d\<lparr>ud_tx := tx1, ud_stats := ud_stats d'\<rparr>"
          by (auto simp: sender_new_def)
        then obtain st where "d' = d\<lparr>ud_tx := tx1, ud_stats := st\<rparr>"
          by blast
        with inv r True idle show ?thesis
          by (simp add: dir_inv_def tx_inv_def rx_inv_def feedbacks_def flight_def)
      next
        case space: True
        let ?acc' = "?acc @ [flit]"
        from t2 True Cons space have val: "require_valid_fdi cfg flit = Inr ()"
          by (cases "require_valid_fdi cfg flit") (auto simp: sender_new_def)
        obtain frame where fr: "send_one_start cfg (length ?acc) flit False = Inr frame" "fr_seq frame = length ?acc"
          "frame_ok cfg ?acc' frame"
          using send_one_start_ok [OF val, of "length ?acc" ?acc' False] by auto
        have put: "map_put (length ?acc) flit (tx_retry_buffer tx1) = tx_retry_buffer tx1 @ [(length ?acc, flit)]"
          using r b(3) by (intro map_put_end) auto
        define st where "st = (ud_stats d)\<lparr>st_max_retry_buffer_occupancy :=
          max (st_max_retry_buffer_occupancy (ud_stats d)) (length (tx_retry_buffer tx1 @ [(length ?acc, flit)]))\<rparr>"
        have n1: "tx_next_seq tx1 = length ?acc"
          using r n by simp
        have "sender_new cfg (flit # fdi) (tx1, ud_stats d) = Inr (fdi, tx1\<lparr>tx_next_seq := length ?acc + 1,
              tx_retry_buffer := tx_retry_buffer tx1 @ [(length ?acc, flit)], tx_sending := Some (frame, None)\<rparr>, st)"
          unfolding sender_new_def Let_def prod.case list.case n1 put st_def by (simp add: space val fr(1))
        with t2 True Cons have
          d': "d' = d\<lparr>ud_fdi_in := fdi, ud_tx := tx1\<lparr>tx_next_seq := length ?acc + 1,
              tx_retry_buffer := tx_retry_buffer tx1 @ [(length ?acc, flit)], tx_sending := Some (frame, None)\<rparr>,
            ud_stats := st, ud_accepted := ?acc'\<rparr>"
          by simp
        have size': "length ?acc' \<le> b + cf_retry_buffer_size cfg" and bl: "b \<le> length ?acc"
          using space r b e by simp_all
        have "tx_retry_buffer tx1 @ [(length ?acc, flit)] = map (\<lambda>s. (s, ?acc' ! s)) [b..<length ?acc']"
          using r b(3) bl by (simp add: nth_append)
        then have "tx_inv cfg d'"
          unfolding tx_inv_def using b(1) size' v val p Cons
          by (intro conjI exI [of _ b]) (simp_all add: d' del: upt_Suc)
        moreover have "rx_inv d'"
          using inv e by (simp add: dir_inv_def d' rx_inv_def feedbacks_def)
        moreover have "flight_ok cfg ?acc' (rx_expected_seq (ud_rx d)) (flight d')"
          using flight_ok_append [OF flight_ok_accept [OF fl] fr(3)] fr(2) e by (simp add: d' flight_def)
        ultimately show ?thesis
          by (simp add: dir_inv_def) (simp add: d')
      qed
    qed
  qed
qed

lemma sender_finish_fields:
  assumes "sender_finish now (tx, st) = Inr (out, tx', st')" and "tx_sending tx = Some (f, k)"
  shows "out = [f]" "tx_sending tx' = None" "tx_next_seq tx' = tx_next_seq tx" "tx_retry_buffer tx' = tx_retry_buffer tx"
  using assms by (cases k; auto simp: sender_finish_def Let_def split: if_splits)+

lemma inv_finish:
  assumes inv: "dir_inv cfg d" and t: "dir_finish d = Inr d'"
  shows "dir_inv cfg d'"
proof (cases "tx_sending (ud_tx d)")
  case None
  with t inv show ?thesis
    by (simp add: dir_finish_def sender_finish_def)
next
  case (Some fk)
  obtain f k where fk: "fk = (f, k)"
    by (cases fk)
  from t obtain out tx st where r: "sender_finish (ud_now d) (ud_tx d, ud_stats d) = Inr (out, tx, st)"
    and d0: "d' = d\<lparr>ud_tx_to_phy := ud_tx_to_phy d @ out, ud_tx := tx, ud_stats := st\<rparr>"
    by (auto simp: dir_finish_def rbind_eq_Inr)
  note tx = sender_finish_fields [OF r Some [unfolded fk]]
  have d': "d' = d\<lparr>ud_tx_to_phy := ud_tx_to_phy d @ [f], ud_tx := tx, ud_stats := st\<rparr>"
    by (simp add: d0 tx(1))
  have "flight d' = flight d"
    by (simp add: flight_def d' tx(2) Some fk)
  with inv tx(3,4) show ?thesis
    by (simp add: dir_inv_def) (simp add: d' tx_inv_def rx_inv_def feedbacks_def)
qed

lemma inv_timeout:
  assumes inv: "dir_inv cfg d" and t: "sender_timeout (ud_now d) (ud_tx d, ud_stats d) = (tx, st)"
  shows "dir_inv cfg (d\<lparr>ud_tx := tx, ud_stats := st\<rparr>)"
proof -
  have "tx_sending tx = tx_sending (ud_tx d)" "tx_next_seq tx = tx_next_seq (ud_tx d)"
    "tx_retry_buffer tx = tx_retry_buffer (ud_tx d)"
    using t by (auto simp: sender_timeout_def Let_def split: list.splits prod.splits if_splits)
  with inv show ?thesis
    by (simp add: dir_inv_def flight_def tx_inv_def rx_inv_def feedbacks_def)
qed

lemma erase_acked:
  "a < n \<Longrightarrow> dropWhile (\<lambda>(s, _). s \<le> a) (map (\<lambda>s. (s, g s)) [b..<n]) = map (\<lambda>s. (s, g s)) [max b (Suc a)..<n]"
proof (induction "n - b" arbitrary: b)
  case 0
  then show ?case
    by simp
next
  case (Suc k)
  then have u: "[b..<n] = b # [Suc b..<n]"
    by (simp add: upt_conv_Cons)
  show ?case
  proof (cases "b \<le> a")
    case True
    then have "max b (Suc a) = max (Suc b) (Suc a)"
      by simp
    moreover have "k = n - Suc b"
      using Suc.hyps(2) by simp
    ultimately show ?thesis
      using Suc True u by simp
  next
    case False
    then have "max b (Suc a) = b"
      by simp
    with False u show ?thesis
      by simp
  qed
qed

lemma inv_feedback:
  assumes inv: "dir_inv cfg d" and m: "ud_fb_to_tx d = m # ms"
    and t: "tx_feedback (ud_now d) m (ud_tx d, ud_stats d) = (tx, st)"
  shows "dir_inv cfg (d\<lparr>ud_fb_to_tx := ms, ud_tx := tx, ud_stats := st\<rparr>)"
proof -
  let ?acc = "ud_accepted d" and ?e = "rx_expected_seq (ud_rx d)"
  from inv obtain b where b: "b \<le> ?e" "length ?acc \<le> b + cf_retry_buffer_size cfg"
    "tx_retry_buffer (ud_tx d) = map (\<lambda>s. (s, ?acc ! s)) [b..<length ?acc]"
    by (auto simp: dir_inv_def tx_inv_def)
  have s: "tx_sending tx = tx_sending (ud_tx d)" "tx_next_seq tx = tx_next_seq (ud_tx d)"
    using t by (auto simp: tx_feedback_def Let_def split: list.splits prod.splits if_splits)
  have "\<exists>b'. b' \<le> ?e \<and> length ?acc \<le> b' + cf_retry_buffer_size cfg
      \<and> tx_retry_buffer tx = map (\<lambda>s. (s, ?acc ! s)) [b'..<length ?acc]"
  proof (cases "fb_is_nak m")
    case True
    then have "tx_retry_buffer tx = tx_retry_buffer (ud_tx d)"
      using t by (auto simp: tx_feedback_def Let_def split: list.splits prod.splits if_splits)
    with b show ?thesis
      by auto
  next
    case False
    with inv m have a: "fb_seq m < ?e" "?e \<le> length ?acc"
      by (auto simp: dir_inv_def rx_inv_def feedbacks_def)
    from t False have "tx_retry_buffer tx = dropWhile (\<lambda>(s, _). s \<le> fb_seq m) (tx_retry_buffer (ud_tx d))"
      by (auto simp: tx_feedback_def Let_def)
    also have "\<dots> = map (\<lambda>s. (s, ?acc ! s)) [max b (Suc (fb_seq m))..<length ?acc]"
      unfolding b(3) using a by (intro erase_acked) simp
    finally show ?thesis
      using a b by (intro exI [of _ "max b (Suc (fb_seq m))"]) auto
  qed
  with inv m s show ?thesis
    by (simp add: dir_inv_def flight_def tx_inv_def rx_inv_def feedbacks_def)
qed

section \<open>The channel\<close>

lemma inv_ingress:
  assumes inv: "dir_inv cfg d" and f: "ud_tx_to_phy d = f # fs"
    and t: "phy_ingress cfg dr (ud_now d) f (ud_phy d, ud_stats d) = Inr (pc, st)"
    and crc: "fr_bytes (fst (last (pc_pending pc))) = fr_bytes f
      \<or> \<not> fc_crc_ok (check_flit cfg (fr_bytes (fst (last (pc_pending pc)))))"
  shows "dir_inv cfg (d\<lparr>ud_tx_to_phy := fs, ud_phy := pc, ud_stats := st\<rparr>)"
proof -
  from t obtain bs w where pc: "pc_pending pc = pc_pending (ud_phy d) @ [(f\<lparr>fr_bytes := bs\<rparr>, w)]"
    by (auto simp: phy_ingress_def rbind_eq_Inr Let_def)
  let ?s = "case tx_sending (ud_tx d) of None \<Rightarrow> [] | Some (f, _) \<Rightarrow> [f]"
  have fl: "flight_ok cfg (ud_accepted d) (rx_expected_seq (ud_rx d))
      ((ud_phy_to_rx d @ map fst (pc_pending (ud_phy d))) @ f # fs @ ?s)"
    using inv f by (simp add: dir_inv_def flight_def)
  then have "frame_ok cfg (ud_accepted d) f"
    by (simp add: flight_ok_def)
  then have "frame_ok cfg (ud_accepted d) (f\<lparr>fr_bytes := bs\<rparr>)"
    using crc by (auto simp: pc frame_ok_def Let_def)
  from flight_ok_update [OF fl _ this] inv show ?thesis
    by (simp add: dir_inv_def flight_def pc tx_inv_def rx_inv_def feedbacks_def)
qed

lemma delay_egressD: "delay_egress now q = Some (x, rest) \<Longrightarrow> \<exists>t. q = (x, t) # rest"
  by (auto simp: delay_egress_def split: list.splits if_splits)

section \<open>The receiver\<close>

lemma seq8_eq:
  assumes "(of_nat s :: u8) = of_nat e" and "e \<le> s + 127" and "s \<le> e + 127"
  shows "s = e"
proof -
  have "s mod 256 = e mod 256"
    using arg_cong [OF assms(1), of unat] by (simp add: unat_of_nat)
  then have "256 dvd s - e" "256 dvd e - s"
    by (metis mod_eq_dvd_iff_nat diff_is_0_eq dvd_0_right nat_le_linear)+
  moreover have "s - e < 256" "e - s < 256"
    using assms(2,3) by simp_all
  ultimately have "s - e = 0" "e - s = 0"
    by (auto dest: nat_dvd_not_less)
  then show ?thesis
    by simp
qed

lemma unpack_ok:
  assumes "frame_ok cfg acc f" and "fc_crc_ok (check_flit cfg (fr_bytes f))"
    and "require_valid_fdi cfg (acc ! fr_seq f) = Inr ()"
  shows "unpack_fdi cfg f = Inr (acc ! fr_seq f)" "fc_seq8 (check_flit cfg (fr_bytes f)) = of_nat (fr_seq f)"
proof -
  let ?a = "acc ! fr_seq f"
  from assms(1,2) obtain r where bf: "build_flit cfg (fr_seq f) (fd_payload ?a) r = Inr (fr_bytes f)"
    by (auto simp: frame_ok_def Let_def)
  have "length (fd_payload ?a) = payload_bytes cfg"
    using assms(3) by (auto simp: require_valid_fdi_def split: if_splits)
  then obtain b where b: "build_flit cfg (fr_seq f) (fd_payload ?a) r = Inr b" "length b = flit_bytes cfg"
    "carried cfg b = fd_payload ?a" "check_flit cfg b = \<lparr>fc_crc_ok = True, fc_seq8 = of_nat (fr_seq f), fc_replay_flag = r\<rparr>"
    by (rule build_flit_ok)
  with bf show "fc_seq8 (check_flit cfg (fr_bytes f)) = of_nat (fr_seq f)"
    by simp
  have "fr_bytes f = b"
    using bf b by simp
  then show "unpack_fdi cfg f = Inr ?a"
    using b assms(1)
    by (cases "cf_flit_format cfg") (auto simp: unpack_fdi_def carried_def frame_ok_def Let_def flit_bytes_def payload_bytes_def)
qed

lemma rx_run_other:
  assumes "rx_run cfg f (rx, st) = Inr (out, fb, rx', st')"
    and "\<not> (fc_crc_ok (check_flit cfg (fr_bytes f)) \<and> fc_seq8 (check_flit cfg (fr_bytes f)) - of_nat (rx_expected_seq rx) = 0)"
  shows "out = []" "rx_expected_seq rx' = rx_expected_seq rx" "list_all (\<lambda>m. fb_is_nak m \<or> fb_seq m < rx_expected_seq rx) fb"
  using assms by (auto simp: rx_run_def Let_def split: if_splits)

lemma inv_rx:
  assumes inv: "dir_inv cfg d" and size: "cf_retry_buffer_size cfg \<le> 127" and f: "ud_phy_to_rx d = f # fs"
    and t: "dir_rx cfg f (d\<lparr>ud_phy_to_rx := fs\<rparr>) = Inr d'"
  shows "dir_inv cfg d'"
proof -
  let ?acc = "ud_accepted d" and ?e = "rx_expected_seq (ud_rx d)"
  have fl: "flight_ok cfg ?acc ?e (f # flight (d\<lparr>ud_phy_to_rx := fs\<rparr>))"
    using inv f by (simp add: dir_inv_def flight_def)
  then have ok: "frame_ok cfg ?acc f" and lo: "?e \<le> fr_seq f + 127" and fl': "flight_ok cfg ?acc ?e (flight (d\<lparr>ud_phy_to_rx := fs\<rparr>))"
    by (simp_all add: flight_ok_def)
  from inv obtain b where b: "b \<le> ?e" "length ?acc \<le> b + cf_retry_buffer_size cfg"
    by (auto simp: dir_inv_def tx_inv_def)
  have s: "fr_seq f < length ?acc"
    using ok by (simp add: frame_ok_def)
  then have v: "require_valid_fdi cfg (?acc ! fr_seq f) = Inr ()"
    using inv by (auto simp: dir_inv_def tx_inv_def list_all_iff)
  let ?c = "check_flit cfg (fr_bytes f)"
  show ?thesis
  proof (cases "fc_crc_ok ?c \<and> fc_seq8 ?c - (of_nat ?e :: u8) = 0")
    case True
    then have "(of_nat (fr_seq f) :: u8) = of_nat ?e"
      using unpack_ok(2) [OF ok _ v] by simp
    then have e: "fr_seq f = ?e"
      using lo s b size by (intro seq8_eq) simp_all
    have "unpack_fdi cfg f = Inr (?acc ! ?e)"
      using unpack_ok(1) [OF ok _ v] True e by simp
    with t True have
      d': "d' = d\<lparr>ud_phy_to_rx := fs,
          ud_rx := (ud_rx d)\<lparr>rx_state := NoRetry, rx_frames_since_nak := 0, rx_expected_seq := ?e + 1\<rparr>,
          ud_rx_to_fb := ud_rx_to_fb d @ [\<lparr>fb_is_nak = False, fb_seq = ?e\<rparr>], ud_delivered := ud_delivered d @ [?acc ! ?e]\<rparr>"
      by (simp add: dir_rx_def rx_run_def Let_def)
    have "flight d' = flight (d\<lparr>ud_phy_to_rx := fs\<rparr>)"
      by (simp add: d' flight_def)
    moreover have "?e + 1 \<le> fr_seq g + 127" if "g \<in> set (flight (d\<lparr>ud_phy_to_rx := fs\<rparr>))" for g
      using fl that e by (auto simp: flight_ok_def)
    ultimately have "flight_ok cfg ?acc (?e + 1) (flight d')"
      using fl' by (auto simp: flight_ok_def list_all_iff)
    moreover have "take (?e + 1) ?acc = take ?e ?acc @ [?acc ! ?e]"
      using s e by (simp add: take_Suc_conv_app_nth)
    ultimately show ?thesis
      using inv s e by (auto simp: dir_inv_def d' tx_inv_def rx_inv_def feedbacks_def list_all_iff intro: less_SucI le_SucI)
  next
    case False
    from t obtain out fb rx st where r: "rx_run cfg f (ud_rx d, ud_stats d) = Inr (out, fb, rx, st)"
      and d0: "d' = d\<lparr>ud_phy_to_rx := fs, ud_rx := rx, ud_stats := st, ud_rx_to_fb := ud_rx_to_fb d @ fb,
            ud_delivered := ud_delivered d @ out\<rparr>"
      by (auto simp: dir_rx_def rbind_eq_Inr)
    note rx = rx_run_other [OF r False]
    have d': "d' = d\<lparr>ud_phy_to_rx := fs, ud_rx := rx, ud_stats := st, ud_rx_to_fb := ud_rx_to_fb d @ fb\<rparr>"
      by (simp add: d0 rx(1))
    have "flight d' = flight (d\<lparr>ud_phy_to_rx := fs\<rparr>)"
      by (simp add: d' flight_def)
    with fl' inv rx(2,3) show ?thesis
      by (simp add: dir_inv_def) (simp add: d' tx_inv_def rx_inv_def feedbacks_def)
  qed
qed

section \<open>Reachable states\<close>

lemma dir_step_inv:
  assumes "dir_step cfg d d'" and "dir_inv cfg d" and "cf_retry_buffer_size cfg \<le> 127"
  shows "dir_inv cfg d'"
  using assms(1)
proof cases
  case (d_push f)
  with assms(2) show ?thesis
    by (simp add: dir_inv_def flight_def tx_inv_def rx_inv_def feedbacks_def)
next
  case d_begin
  then show ?thesis
    by (rule inv_begin [OF assms(2,3)])
next
  case d_finish
  show ?thesis
    by (rule inv_finish [OF assms(2) d_finish(2)])
next
  case (d_timeout tx st)
  show ?thesis
    unfolding d_timeout(1) by (rule inv_timeout [OF assms(2) d_timeout(3)])
next
  case (d_feedback m ms tx st)
  show ?thesis
    unfolding d_feedback(1) by (rule inv_feedback [OF assms(2) d_feedback(2,3)])
next
  case (d_ingress f fs dr pc st)
  show ?thesis
    unfolding d_ingress(1) by (rule inv_ingress [OF assms(2) d_ingress(2-4)])
next
  case (d_egress f rest)
  from delay_egressD [OF d_egress(2)] obtain t where "pc_pending (ud_phy d) = (f, t) # rest"
    by blast
  with d_egress(1) assms(2) show ?thesis
    by (simp add: dir_inv_def flight_def tx_inv_def rx_inv_def feedbacks_def)
next
  case (d_rx f fs)
  show ?thesis
    by (rule inv_rx [OF assms(2,3) d_rx(1,3)])
next
  case (d_fb_in m ms)
  with assms(2) show ?thesis
    by (simp add: dir_inv_def flight_def tx_inv_def rx_inv_def feedbacks_def feedback_ingress_def)
next
  case (d_fb_out m rest)
  from delay_egressD [OF d_fb_out(2)] obtain t where "ud_fb_pending d = (m, t) # rest"
    by blast
  with d_fb_out(1) assms(2) show ?thesis
    by (simp add: dir_inv_def flight_def tx_inv_def rx_inv_def feedbacks_def)
next
  case d_tick
  with assms(2) show ?thesis
    by (simp add: dir_inv_def flight_def tx_inv_def rx_inv_def feedbacks_def)
qed

lemma dir_inv_new: "dir_inv cfg (UcieDir_new cfg)"
  by (simp add: dir_inv_def tx_inv_def rx_inv_def flight_ok_def flight_def feedbacks_def UcieDir_new_def
      TxAdapter_new_def RxAdapter_init_def)

lemma dir_reachable:
  assumes "(dir_step cfg)\<^sup>*\<^sup>* (UcieDir_new cfg) d" and "cf_retry_buffer_size cfg \<le> 127"
  shows "dir_inv cfg d"
  using assms(1)
proof (induction rule: rtranclp_induct)
  case base
  then show ?case
    by (rule dir_inv_new)
next
  case (step y z)
  then show ?case
    using dir_step_inv assms(2) by blast
qed

end
