(* ===== verification/Ucie_Props.thy ===== *)
theory Ucie_Props
  imports Ucie_Retry
begin

text \<open>
  Properties of one link direction: delivery, the contents of the retry buffer, and the errors its
  threads can end in.
\<close>

section \<open>Delivery\<close>

lemma valid_config_size: "require_valid_config cfg = Inr () \<Longrightarrow> cf_retry_buffer_size cfg \<le> 127"
  by (auto simp: require_valid_config_def split: if_splits)

lemma dir_delivered:
  assumes "dir_inv cfg d"
  shows "ud_delivered d = take (rx_expected_seq (ud_rx d)) (ud_pushed d)"
    "rx_expected_seq (ud_rx d) \<le> tx_next_seq (ud_tx d)"
    "length (tx_retry_buffer (ud_tx d)) \<le> cf_retry_buffer_size cfg"
    "tx_next_seq (ud_tx d) - length (tx_retry_buffer (ud_tx d)) \<le> rx_expected_seq (ud_rx d)"
    "tx_retry_buffer (ud_tx d) = map (\<lambda>s. (s, ud_pushed d ! s))
       [tx_next_seq (ud_tx d) - length (tx_retry_buffer (ud_tx d))..<tx_next_seq (ud_tx d)]"
proof -
  from assms obtain b where b: "b \<le> rx_expected_seq (ud_rx d)" "length (ud_accepted d) \<le> b + cf_retry_buffer_size cfg"
      "tx_retry_buffer (ud_tx d) = map (\<lambda>s. (s, ud_accepted d ! s)) [b..<length (ud_accepted d)]"
    and i: "tx_next_seq (ud_tx d) = length (ud_accepted d)" "ud_pushed d = ud_accepted d @ ud_fdi_in d"
      "rx_expected_seq (ud_rx d) \<le> length (ud_accepted d)"
      "ud_delivered d = take (rx_expected_seq (ud_rx d)) (ud_accepted d)"
    by (auto simp: dir_inv_def tx_inv_def rx_inv_def)
  then show "ud_delivered d = take (rx_expected_seq (ud_rx d)) (ud_pushed d)"
    "rx_expected_seq (ud_rx d) \<le> tx_next_seq (ud_tx d)"
    "length (tx_retry_buffer (ud_tx d)) \<le> cf_retry_buffer_size cfg"
    "tx_next_seq (ud_tx d) - length (tx_retry_buffer (ud_tx d)) \<le> rx_expected_seq (ud_rx d)"
    by simp_all
  have "length (tx_retry_buffer (ud_tx d)) = length (ud_accepted d) - b" by (simp add: b(3))
  then have "tx_next_seq (ud_tx d) - length (tx_retry_buffer (ud_tx d)) = b" using b(1) i(1,3) by simp
  then show "tx_retry_buffer (ud_tx d) = map (\<lambda>s. (s, ud_pushed d ! s))
      [tx_next_seq (ud_tx d) - length (tx_retry_buffer (ud_tx d))..<tx_next_seq (ud_tx d)]"
    using b(3) i(1,2) by (simp add: nth_append)
qed

lemma dir_window:
  assumes inv: "dir_inv cfg d" and size: "cf_retry_buffer_size cfg \<le> 127" and f: "f \<in> set (flight d)"
  shows "(of_nat (fr_seq f) :: u8) = of_nat (rx_expected_seq (ud_rx d)) \<longleftrightarrow> fr_seq f = rx_expected_seq (ud_rx d)"
proof -
  from inv obtain b where "b \<le> rx_expected_seq (ud_rx d)" "length (ud_accepted d) \<le> b + cf_retry_buffer_size cfg"
    by (auto simp: dir_inv_def tx_inv_def)
  moreover have "fr_seq f < length (ud_accepted d)" "rx_expected_seq (ud_rx d) \<le> fr_seq f + 127"
    using inv f by (auto simp: dir_inv_def flight_ok_def frame_ok_def list_all_iff)
  ultimately show ?thesis
    using size seq8_eq [of "fr_seq f" "rx_expected_seq (ud_rx d)"] by auto
qed

section \<open>A run with a replay\<close>

text \<open>Runs from the initial state of the default configuration.\<close>

abbreviation reach :: "UcieDir \<Rightarrow> bool" where
  "reach d \<equiv> (dir_step Config_init)\<^sup>*\<^sup>* (UcieDir_new Config_init) d"

lemma reach_step: "reach d \<Longrightarrow> dir_step Config_init d d' \<Longrightarrow> reach d'"
  by (rule rtranclp.rtrancl_into_rtrancl)

lemma reach_ticks: "reach d \<Longrightarrow> reach (d\<lparr>ud_now := ud_now d + n\<rparr>)"
proof (induction n)
  case (Suc n)
  with d_tick [of Config_init "d\<lparr>ud_now := ud_now d + n\<rparr>"] show ?case
    by (auto intro: reach_step)
qed simp

definition one_flit :: FdiFlit where
  "one_flit = \<lparr>fd_payload = replicate 236 0, fd_valid_bytes = 236, fd_transaction_id = 1, fd_vc = 0,
     fd_kind = Request, fd_transaction_start = 0, fd_fdi_time = 0\<rparr>"

lemma one_flit_frame:
  obtains fr where "send_one_start Config_init 0 one_flit r = Inr fr" "fr_seq fr = 0"
    "fc_crc_ok (check_flit Config_init (fr_bytes fr))" "fc_seq8 (check_flit Config_init (fr_bytes fr)) = 0"
    "length (fr_bytes fr) = 256"
proof -
  have "length (fd_payload one_flit) = payload_bytes Config_init"
    by (simp add: one_flit_def payload_bytes_def Config_init_def)
  then obtain b where "build_flit Config_init 0 (fd_payload one_flit) r = Inr b" "length b = flit_bytes Config_init"
    "check_flit Config_init b = \<lparr>fc_crc_ok = True, fc_seq8 = of_nat 0, fc_replay_flag = r\<rparr>"
    by (rule build_flit_ok)
  with that show thesis
    by (auto simp: send_one_start_def flit_bytes_def Config_init_def)
qed

lemma timeout_ui: "tx_replay_timeout_ui (TxAdapter_new Config_init) = 704"
  by (simp add: TxAdapter_new_def serialize_ui_def flit_bits_def flit_bytes_def bits_per_ui_def Config_init_def Let_def)

lemma tx_new_fields:
  "tx_replay_active (TxAdapter_new cfg) = False" "tx_retry_buffer (TxAdapter_new cfg) = []" "tx_next_seq (TxAdapter_new cfg) = 0"
  "tx_sending (TxAdapter_new cfg) = None" "tx_last_progress (TxAdapter_new cfg) = 0"
  "cf_retry_buffer_size Config_init = 64" "st_max_retry_buffer_occupancy LinkStats_init = 0"
  by (simp_all add: TxAdapter_new_def Config_init_def LinkStats_init_def)

text \<open>The first flit is sent and waits in front of the receiver; the sender starts a replay of it.\<close>

lemma reach_sent:
  obtains d fr where "reach d" "send_one_start Config_init 0 one_flit False = Inr fr"
    "ud_now d = 0" "ud_fdi_in d = []" "tx_retry_buffer (ud_tx d) = [(0, one_flit)]" "tx_sending (ud_tx d) = None"
    "tx_replay_active (ud_tx d) = False" "tx_last_progress (ud_tx d) = 0" "tx_replay_timeout_ui (ud_tx d) = 704"
    "ud_tx_to_phy d = [fr]" "pc_pending (ud_phy d) = []" "pc_phy (ud_phy d) = BehavioralPhy_init" "ud_phy_to_rx d = []"
    "ud_rx d = RxAdapter_init" "ud_rx_to_fb d = []" "ud_fb_pending d = []" "ud_fb_to_tx d = []"
proof -
  obtain fr where fr: "send_one_start Config_init 0 one_flit False = Inr fr"
    by (rule one_flit_frame)
  let ?d0 = "UcieDir_new Config_init"
  let ?d1 = "?d0\<lparr>ud_fdi_in := [one_flit], ud_pushed := [one_flit]\<rparr>"
  have "dir_step Config_init ?d0 (?d0\<lparr>ud_fdi_in := ud_fdi_in ?d0 @ [one_flit], ud_pushed := ud_pushed ?d0 @ [one_flit]\<rparr>)"
    by (rule d_push)
  then have r1: "reach ?d1"
    by (intro reach_step [OF rtranclp.rtrancl_refl]) (simp add: UcieDir_new_def)
  have val: "require_valid_fdi Config_init one_flit = Inr ()"
    by (simp add: require_valid_fdi_def one_flit_def payload_bytes_def Config_init_def)
  define st where "st = LinkStats_init\<lparr>st_max_retry_buffer_occupancy := 1\<rparr>"
  let ?tx = "(TxAdapter_new Config_init)\<lparr>tx_next_seq := 1, tx_retry_buffer := [(0, one_flit)], tx_sending := Some (fr, None)\<rparr>"
  let ?d2 = "?d1\<lparr>ud_fdi_in := [], ud_tx := ?tx, ud_stats := st, ud_accepted := [one_flit]\<rparr>"
  have "sender_begin Config_init [one_flit] (TxAdapter_new Config_init, LinkStats_init) = Inr ([], ?tx, st)"
    by (simp add: sender_begin_def sender_replay_def sender_new_def val fr Let_def map_put_def st_def tx_new_fields)
  then have "dir_begin Config_init ?d1 = Inr ?d2"
    by (simp add: dir_begin_def UcieDir_new_def)
  then have r2: "reach ?d2"
    using r1 by (intro reach_step [OF r1] d_begin) (simp_all add: UcieDir_new_def tx_new_fields)
  obtain d3 where d3: "dir_finish ?d2 = Inr d3" and
    fields: "ud_now d3 = 0" "ud_fdi_in d3 = []" "tx_retry_buffer (ud_tx d3) = [(0, one_flit)]" "tx_sending (ud_tx d3) = None"
    "tx_replay_active (ud_tx d3) = False" "tx_last_progress (ud_tx d3) = 0" "tx_replay_timeout_ui (ud_tx d3) = 704"
    "ud_tx_to_phy d3 = [fr]" "pc_pending (ud_phy d3) = []" "pc_phy (ud_phy d3) = BehavioralPhy_init" "ud_phy_to_rx d3 = []"
    "ud_rx d3 = RxAdapter_init" "ud_rx_to_fb d3 = []" "ud_fb_pending d3 = []" "ud_fb_to_tx d3 = []"
    by (simp add: dir_finish_def sender_finish_def UcieDir_new_def tx_new_fields timeout_ui)
  have "reach d3"
    by (rule reach_step [OF r2 d_finish [OF _ d3]]) (simp add: UcieDir_new_def)
  with fr fields show thesis
    by (intro that)
qed

lemma clean_channel:
  assumes len: "length (fr_bytes fr) = 256"
  obtains pc st where "phy_ingress Config_init quiet_draws 0 fr (\<lparr>pc_phy = BehavioralPhy_init, pc_pending = []\<rparr>, st0) = Inr (pc, st)"
    "\<exists>w\<le>32. pc_pending pc = [(fr, w)]"
proof -
  have "\<exists>r. transmit Config_init quiet_draws (fr_bytes fr) 0 BehavioralPhy_init = Inr r \<and> pr_rx_bytes r = fr_bytes fr
      \<and> pr_max_skew_ui r = 1"
  proof -
    have lock: "is_cdr_locked BehavioralPhy_init 0"
      by (simp add: is_cdr_locked_def BehavioralPhy_init_def)
    have "eye_open Config_init quiet_draws (fr_bytes fr) (is_cdr_locked BehavioralPhy_init 0)"
      using eye_default [of quiet_draws] lock by (simp add: quiet_draws_def)
    moreover have "\<forall>lane<cf_num_lanes Config_init. dr_skew quiet_draws lane \<le> cf_deskew_depth_ui Config_init"
      by (simp add: quiet_draws_def Config_init_def)
    ultimately obtain r where r: "transmit Config_init quiet_draws (fr_bytes fr) 0 BehavioralPhy_init = Inr r"
      "pr_rx_bytes r = (if dr_unit quiet_draws < cf_extra_flit_error_rate Config_init
         then flip_random_bit (dr_flip_extra quiet_draws) (fr_bytes fr) else fr_bytes fr)"
      using transmit_open [of Config_init quiet_draws "fr_bytes fr" BehavioralPhy_init 0]
      by (auto simp: Config_init_def)
    moreover have "pr_max_skew_ui r = fold max (map (dr_skew quiet_draws) [0..<cf_num_lanes Config_init]) 0"
      using r(1) by (auto simp: transmit_def Let_def rbind_eq_Inr)
    ultimately show ?thesis
      by (simp add: quiet_draws_def Config_init_def upt_rec)
  qed
  then obtain r where "transmit Config_init quiet_draws (fr_bytes fr) 0 BehavioralPhy_init = Inr r"
    "pr_rx_bytes r = fr_bytes fr" "pr_max_skew_ui r = 1"
    by blast
  moreover have "cf_tx_pipe_ui Config_init = 4" "cf_channel_ui Config_init = 8" "cf_rx_pipe_ui Config_init = 4"
    by (simp_all add: Config_init_def)
  ultimately show thesis
    by (intro that) (simp add: phy_ingress_def Let_def, simp)
qed

lemma reach_replaying:
  obtains d fr fr1 where "reach d" "fc_crc_ok (check_flit Config_init (fr_bytes fr))"
    "fc_seq8 (check_flit Config_init (fr_bytes fr)) = 0" "length (fr_bytes fr) = 256"
    "tx_retry_buffer (ud_tx d) = [(0, one_flit)]" "tx_sending (ud_tx d) = Some (fr1, Some 0)" "ud_tx_to_phy d = []"
    "ud_phy_to_rx d = [fr]" "ud_rx d = RxAdapter_init" "ud_rx_to_fb d = []" "ud_fb_pending d = []" "ud_fb_to_tx d = []"
proof -
  obtain d fr where d: "reach d" "send_one_start Config_init 0 one_flit False = Inr fr"
    "ud_now d = 0" "ud_fdi_in d = []" "tx_retry_buffer (ud_tx d) = [(0, one_flit)]" "tx_sending (ud_tx d) = None"
    "tx_replay_active (ud_tx d) = False" "tx_last_progress (ud_tx d) = 0" "tx_replay_timeout_ui (ud_tx d) = 704"
    "ud_tx_to_phy d = [fr]" "pc_pending (ud_phy d) = []" "pc_phy (ud_phy d) = BehavioralPhy_init" "ud_phy_to_rx d = []"
    "ud_rx d = RxAdapter_init" "ud_rx_to_fb d = []" "ud_fb_pending d = []" "ud_fb_to_tx d = []"
    by (rule reach_sent)
  obtain fr' where fr': "send_one_start Config_init 0 one_flit False = Inr fr'"
    "fc_crc_ok (check_flit Config_init (fr_bytes fr'))" "fc_seq8 (check_flit Config_init (fr_bytes fr')) = 0"
    "length (fr_bytes fr') = 256"
    by (rule one_flit_frame)
  then have f: "fc_crc_ok (check_flit Config_init (fr_bytes fr))" "fc_seq8 (check_flit Config_init (fr_bytes fr)) = 0"
    "length (fr_bytes fr) = 256"
    using d(2) by simp_all
  have ph: "ud_phy d = \<lparr>pc_phy = BehavioralPhy_init, pc_pending = []\<rparr>"
    using d(11,12) by simp
  obtain pc st where pc: "phy_ingress Config_init quiet_draws (ud_now d) fr (ud_phy d, ud_stats d) = Inr (pc, st)"
    and w: "\<exists>w\<le>32. pc_pending pc = [(fr, w)]"
    using clean_channel [OF f(3), of "ud_stats d"] ph d(3) by metis
  obtain w where w: "w \<le> 32" "pc_pending pc = [(fr, w)]"
    using w by blast
  let ?d4 = "d\<lparr>ud_tx_to_phy := [], ud_phy := pc, ud_stats := st\<rparr>"
  have "reach ?d4"
    by (rule reach_step [OF d(1) d_ingress [OF d(10) pc]]) (simp add: w)
  then have r5: "reach (?d4\<lparr>ud_now := 704\<rparr>)"
    using reach_ticks [of ?d4 704] d(3) by simp
  let ?d5 = "?d4\<lparr>ud_now := 704\<rparr>"
  define tx6 where "tx6 = (ud_tx d)\<lparr>tx_replay_active := True, tx_replay_cursor := 0, tx_replay_end := 0,
    tx_tx_state := TxNakInProgress\<rparr>"
  obtain st6 where t6: "sender_timeout (ud_now ?d5) (ud_tx ?d5, ud_stats ?d5) = (tx6, st6)"
    using d by (simp add: sender_timeout_def tx6_def)
  let ?d6 = "?d5\<lparr>ud_tx := tx6, ud_stats := st6\<rparr>"
  have r6: "reach ?d6"
    using reach_step [OF r5 d_timeout [OF _ t6]] d(6) by simp
  obtain fr1 where fr1: "send_one_start Config_init 0 one_flit True = Inr fr1"
    by (rule one_flit_frame)
  have "sender_replay Config_init tx6 = Inr (tx6\<lparr>tx_sending := Some (fr1, Some 0)\<rparr>)"
    using d(5) fr1 by (simp add: sender_replay_def tx6_def lower_bound_def)
  then have "dir_begin Config_init ?d6 = Inr (?d6\<lparr>ud_tx := tx6\<lparr>tx_sending := Some (fr1, Some 0)\<rparr>\<rparr>)"
    using d(4) by (simp add: dir_begin_def sender_begin_def)
  then have r7: "reach (?d6\<lparr>ud_tx := tx6\<lparr>tx_sending := Some (fr1, Some 0)\<rparr>\<rparr>)"
    using d(6) by (intro reach_step [OF r6] d_begin) (simp_all add: tx6_def)
  let ?d7 = "?d6\<lparr>ud_tx := tx6\<lparr>tx_sending := Some (fr1, Some 0)\<rparr>\<rparr>"
  have "delay_egress (ud_now ?d7) (pc_pending (ud_phy ?d7)) = Some (fr, [])"
    using w by (simp add: delay_egress_def)
  from reach_step [OF r7 d_egress [OF this]] d(13)
  have "reach (?d7\<lparr>ud_phy := pc\<lparr>pc_pending := []\<rparr>, ud_phy_to_rx := [fr]\<rparr>)"
    by simp
  with d f show thesis
    by (intro that [of "?d7\<lparr>ud_phy := pc\<lparr>pc_pending := []\<rparr>, ud_phy_to_rx := [fr]\<rparr>" fr fr1]) (simp_all add: tx6_def)
qed

section \<open>Errors\<close>

lemma begin_errors:
  assumes inv: "dir_inv cfg d" and idle: "tx_sending (ud_tx d) = None" and e: "dir_begin cfg d = Inl e"
  shows "\<exists>f fs. ud_fdi_in d = f # fs \<and> require_valid_fdi cfg f = Inl e"
proof -
  let ?acc = "ud_accepted d"
  from inv obtain b where rb: "tx_retry_buffer (ud_tx d) = map (\<lambda>s. (s, ?acc ! s)) [b..<length ?acc]"
    and v: "list_all (\<lambda>f. require_valid_fdi cfg f = Inr ()) ?acc"
    by (auto simp: dir_inv_def tx_inv_def)
  have "\<exists>frame. send_one_start cfg k flit True = Inr frame"
    if "lower_bound c (tx_retry_buffer (ud_tx d)) = (k, flit) # rest" for c k flit rest
  proof -
    have "(k, flit) \<in> set (tx_retry_buffer (ud_tx d))"
      using that by (metis list.set_intros(1) lower_bound_def set_dropWhileD)
    then have k: "k < length ?acc" "?acc ! k = flit" by (auto simp: rb)
    then have "require_valid_fdi cfg flit = Inr ()" using v by (auto simp: list_all_iff)
    from send_one_start_ok [OF this k, of True] show ?thesis by blast
  qed
  then have "\<exists>tx. sender_replay cfg (ud_tx d) = Inr tx"
    by (fastforce simp: sender_replay_def split: list.split)
  then obtain tx where tx: "sender_replay cfg (ud_tx d) = Inr tx" by blast
  have "send_one_start cfg s flit False \<noteq> Inl e" if val: "require_valid_fdi cfg flit = Inr ()" for s flit e
  proof -
    have "length (fd_payload flit) = payload_bytes cfg"
      using val by (auto simp: require_valid_fdi_def split: if_splits)
    then obtain bs where "build_flit cfg s (fd_payload flit) False = Inr bs" by (rule build_flit_ok)
    then show ?thesis by (simp add: send_one_start_def)
  qed
  then show ?thesis
    using e tx by (auto simp: dir_begin_def sender_begin_def sender_new_def Let_def rbind_eq_Inl split: if_splits list.splits)
qed

lemma rx_total:
  assumes inv: "dir_inv cfg d" and f: "ud_phy_to_rx d = f # fs"
  shows "\<exists>d'. dir_rx cfg f (d\<lparr>ud_phy_to_rx := fs\<rparr>) = Inr d'"
proof -
  have ok: "frame_ok cfg (ud_accepted d) f"
    using inv f by (simp add: dir_inv_def flight_ok_def flight_def)
  moreover have "require_valid_fdi cfg (ud_accepted d ! fr_seq f) = Inr ()"
    using inv ok by (auto simp: dir_inv_def tx_inv_def frame_ok_def list_all_iff)
  ultimately have "fc_crc_ok (check_flit cfg (fr_bytes f)) \<longrightarrow> unpack_fdi cfg f = Inr (ud_accepted d ! fr_seq f)"
    using unpack_ok(1) by blast
  then show ?thesis
    by (auto simp: dir_rx_def rx_run_def Let_def)
qed

text \<open>A replay in progress sends the frame of the key its iterator points to.\<close>

definition sending_ok :: "TxAdapter \<Rightarrow> bool" where
  "sending_ok tx \<longleftrightarrow> (\<forall>f k. tx_sending tx = Some (f, Some k) \<longrightarrow> fr_seq f = k)"

lemma sender_replay_sending: "sender_replay cfg tx = Inr tx' \<Longrightarrow> sending_ok tx \<Longrightarrow> sending_ok tx'"
  by (auto simp: sender_replay_def sending_ok_def send_one_start_def rbind_eq_Inr split: if_splits list.splits)

lemma sender_new_sending: "sender_new cfg fdi (tx, st) = Inr (fdi', tx', st') \<Longrightarrow> sending_ok tx \<Longrightarrow> sending_ok tx'"
  by (auto simp: sender_new_def sending_ok_def rbind_eq_Inr Let_def split: if_splits list.splits)

lemma dir_step_sending:
  assumes "dir_step cfg d d'" and "sending_ok (ud_tx d)"
  shows "sending_ok (ud_tx d')"
  using assms(1)
proof cases
  case d_begin
  then show ?thesis
    using assms(2) sender_replay_sending sender_new_sending
    by (auto simp: dir_begin_def sender_begin_def rbind_eq_Inr split: if_splits)
next
  case d_finish
  then show ?thesis
    using assms(2)
    by (auto simp: dir_finish_def sender_finish_def rbind_eq_Inr sending_ok_def Let_def split: if_splits option.splits)
next
  case (d_timeout tx st)
  then show ?thesis
    using assms(2) by (auto simp: sender_timeout_def sending_ok_def Let_def split: list.splits if_splits)
next
  case (d_feedback m ms tx st)
  then show ?thesis
    using assms(2) by (auto simp: tx_feedback_def sending_ok_def Let_def split: list.splits if_splits)
next
  case (d_rx f fs)
  then show ?thesis
    using assms(2) by (auto simp: dir_rx_def rbind_eq_Inr)
qed (use assms(2) in simp_all)

lemma sending_reachable:
  assumes "(dir_step cfg)\<^sup>*\<^sup>* (UcieDir_new cfg) d"
  shows "sending_ok (ud_tx d)"
  using assms
proof (induction rule: rtranclp_induct)
  case base
  then show ?case by (simp add: UcieDir_new_def TxAdapter_new_def sending_ok_def)
next
  case (step y z)
  then show ?case using dir_step_sending by blast
qed

lemma finish_errors:
  assumes inv: "dir_inv cfg d" and s: "sending_ok (ud_tx d)"
  shows "(\<exists>e. dir_finish d = Inl e) \<longleftrightarrow> (\<exists>g k. tx_sending (ud_tx d) = Some (g, Some k)
    \<and> k < tx_next_seq (ud_tx d) - length (tx_retry_buffer (ud_tx d)) \<and> k < rx_expected_seq (ud_rx d))"
proof -
  note d = dir_delivered [OF inv]
  let ?n = "tx_next_seq (ud_tx d)" and ?rb = "tx_retry_buffer (ud_tx d)"
  have keys: "fst ` set ?rb = {?n - length ?rb..<?n}"
    by (subst d(5)) force
  have "k < ?n" if "tx_sending (ud_tx d) = Some (g, Some k)" for g k
    using that inv s by (auto simp: dir_inv_def flight_ok_def flight_def frame_ok_def tx_inv_def sending_ok_def)
  then have "k \<notin> fst ` set ?rb \<longleftrightarrow> k < ?n - length ?rb \<and> k < rx_expected_seq (ud_rx d)"
    if "tx_sending (ud_tx d) = Some (g, Some k)" for g k
    using that d(4) unfolding keys by fastforce
  then show ?thesis
    by (cases "tx_sending (ud_tx d)") (auto simp: dir_finish_def sender_finish_def Let_def rbind_eq_Inl split: option.splits)
qed

section \<open>Properties\<close>

text \<open>
  C4: for every accepted configuration and every run of one link direction (any interleaving of the
  sender, feedback, PHY and receiver threads, any delays, replays, timeouts and corruption that the
  CRC check rejects), the FDI flits handed out are exactly the first ones that were offered, in order,
  each once, with payload and metadata unchanged.
\<close>

theorem ucie_exactly_once:
  assumes "require_valid_config cfg = Inr ()" and "(dir_step cfg)\<^sup>*\<^sup>* (UcieDir_new cfg) d"
  shows "ud_delivered d = take (rx_expected_seq (ud_rx d)) (ud_pushed d)
    \<and> length (ud_delivered d) = rx_expected_seq (ud_rx d)"
  using dir_delivered [OF dir_reachable [OF assms(2) valid_config_size [OF assms(1)]]]
    dir_reachable [OF assms(2) valid_config_size [OF assms(1)]]
  by (auto simp: dir_inv_def rx_inv_def)

theorem ucie_exactly_once_witness:
  "\<exists>d. (dir_step Config_init)\<^sup>*\<^sup>* (UcieDir_new Config_init) d
    \<and> tx_sending (ud_tx d) \<noteq> None \<and> ud_delivered d = take (rx_expected_seq (ud_rx d)) (ud_pushed d)"
proof -
  obtain d fr fr1 where d: "reach d" "tx_sending (ud_tx d) = Some (fr1, Some 0)"
    by (rule reach_replaying)
  have "require_valid_config Config_init = Inr ()"
    by (simp add: require_valid_config_def Config_init_def)
  from ucie_exactly_once [OF this d(1)] d show ?thesis
    by auto
qed

text \<open>
  C20: in every reachable state the retry buffer holds at most the configured number of flits; it is exactly
  the last flits taken from the FDI queue, under their sequence numbers and unaltered, up to the newest, and
  among them every flit the receiver has not accepted yet; and for every frame on its way the
  receiver's 8-bit sequence comparison agrees with the full sequence numbers: no wrap-around can make a
  stale replay look like the expected flit.
\<close>

theorem ucie_retry_window:
  assumes "require_valid_config cfg = Inr ()" and "(dir_step cfg)\<^sup>*\<^sup>* (UcieDir_new cfg) d"
  shows "length (tx_retry_buffer (ud_tx d)) \<le> cf_retry_buffer_size cfg
    \<and> tx_retry_buffer (ud_tx d) = map (\<lambda>s. (s, ud_pushed d ! s))
        [tx_next_seq (ud_tx d) - length (tx_retry_buffer (ud_tx d))..<tx_next_seq (ud_tx d)]
    \<and> (\<forall>s. rx_expected_seq (ud_rx d) \<le> s \<and> s < tx_next_seq (ud_tx d) \<longrightarrow> (s, ud_pushed d ! s) \<in> set (tx_retry_buffer (ud_tx d)))
    \<and> rx_expected_seq (ud_rx d) \<le> tx_next_seq (ud_tx d)
    \<and> list_all (\<lambda>f. ((of_nat (fr_seq f) :: u8) = of_nat (rx_expected_seq (ud_rx d))) = (fr_seq f = rx_expected_seq (ud_rx d))) (flight d)"
proof -
  note inv = dir_reachable [OF assms(2) valid_config_size [OF assms(1)]]
  note d = dir_delivered [OF inv]
  have "(s, ud_pushed d ! s) \<in> set (tx_retry_buffer (ud_tx d))"
    if "rx_expected_seq (ud_rx d) \<le> s" "s < tx_next_seq (ud_tx d)" for s
    using that d(4) by (subst d(5)) auto
  then show ?thesis
    using d dir_window [OF inv valid_config_size [OF assms(1)]] by (auto simp: list_all_iff)
qed

theorem ucie_retry_window_witness:
  "\<exists>d. (dir_step Config_init)\<^sup>*\<^sup>* (UcieDir_new Config_init) d \<and> tx_sending (ud_tx d) \<noteq> None
    \<and> length (tx_retry_buffer (ud_tx d)) \<le> 64 \<and> (0, ud_pushed d ! 0) \<in> set (tx_retry_buffer (ud_tx d))"
proof -
  obtain d fr fr1 where d: "reach d" "tx_sending (ud_tx d) = Some (fr1, Some 0)" "tx_retry_buffer (ud_tx d) = [(0, one_flit)]"
    by (rule reach_replaying)
  have "require_valid_config Config_init = Inr ()"
    by (simp add: require_valid_config_def Config_init_def)
  note w = ucie_retry_window [OF this d(1)]
  then have eq: "tx_retry_buffer (ud_tx d) = map (\<lambda>s. (s, ud_pushed d ! s))
      [tx_next_seq (ud_tx d) - length (tx_retry_buffer (ud_tx d))..<tx_next_seq (ud_tx d)]"
    by blast
  from d(3) have "(0, one_flit) \<in> set (tx_retry_buffer (ud_tx d))"
    by simp
  with arg_cong [OF eq, of set] have "(0, one_flit) \<in> (\<lambda>s. (s, ud_pushed d ! s)) `
      {tx_next_seq (ud_tx d) - length (tx_retry_buffer (ud_tx d))..<tx_next_seq (ud_tx d)}"
    by (simp only: set_map set_upt)
  then have "ud_pushed d ! 0 = one_flit"
    by auto
  then show ?thesis
    using w d by (auto intro!: exI [of _ d])
qed

text \<open>
  C21: the errors of a link direction, in every reachable state. The sender's loop body fails only for
  a flit at the head of the FDI queue that the FDI check rejects: every entry of the retry buffer can be built
  into a frame. The receiver's loop body never fails. The code after the wait of \<open>send_one\<close> fails exactly when a
  replay reads its iterator after the acknowledgement of the replayed flit has erased the entry, and then
  the receiver has accepted that flit; it does not fail for a flit sent the first time.
\<close>

theorem ucie_direction_errors:
  assumes "require_valid_config cfg = Inr ()" and "(dir_step cfg)\<^sup>*\<^sup>* (UcieDir_new cfg) d"
  shows "(tx_sending (ud_tx d) = None \<and> dir_begin cfg d = Inl e \<longrightarrow>
        (\<exists>f fs. ud_fdi_in d = f # fs \<and> require_valid_fdi cfg f = Inl e))
    \<and> (ud_phy_to_rx d = f # fs \<longrightarrow> (\<exists>d'. dir_rx cfg f (d\<lparr>ud_phy_to_rx := fs\<rparr>) = Inr d'))
    \<and> ((\<exists>e. dir_finish d = Inl e) \<longleftrightarrow> (\<exists>g k. tx_sending (ud_tx d) = Some (g, Some k)
          \<and> k < tx_next_seq (ud_tx d) - length (tx_retry_buffer (ud_tx d)) \<and> k < rx_expected_seq (ud_rx d)))"
proof -
  note inv = dir_reachable [OF assms(2) valid_config_size [OF assms(1)]]
  show ?thesis
    using begin_errors [OF inv] rx_total [OF inv] finish_errors [OF inv sending_reachable [OF assms(2)]] by blast
qed

theorem ucie_direction_errors_witness:
  "\<exists>d. (dir_step Config_init)\<^sup>*\<^sup>* (UcieDir_new Config_init) d \<and> (\<exists>f k. tx_sending (ud_tx d) = Some (f, Some k))
    \<and> (\<exists>f fs d'. ud_phy_to_rx d = f # fs \<and> dir_rx Config_init f (d\<lparr>ud_phy_to_rx := fs\<rparr>) = Inr d')
    \<and> \<not> (\<exists>e. dir_finish d = Inl e)"
proof -
  obtain d fr fr1 where d: "reach d" "tx_sending (ud_tx d) = Some (fr1, Some 0)" "ud_phy_to_rx d = [fr]" "ud_rx d = RxAdapter_init"
    by (rule reach_replaying)
  have "require_valid_config Config_init = Inr ()"
    by (simp add: require_valid_config_def Config_init_def)
  from ucie_direction_errors [OF this d(1), of _ fr "[]"] d show ?thesis
    by (auto simp: RxAdapter_init_def)
qed

text \<open>The order in which the link states may be reported.\<close>

fun state_rank :: "LinkState \<Rightarrow> nat" where
  "state_rank LsReset = 0"
| "state_rank LsTraining = 1"
| "state_rank LsActive = 2"
| "state_rank LsDegraded = 3"
| "state_rank LsFailed = 4"

definition status_run :: "(bool \<times> bool \<times> LinkStats \<times> LinkStats) list \<Rightarrow> link_status" where
  "status_run ins = fold (\<lambda>(failed, watchdog, fwd, bwd). status_step failed watchdog fwd bwd) ins status_start"

definition status_ok :: "link_status \<Rightarrow> bool" where
  "status_ok s = (case ls_pc s of SpTraining \<Rightarrow> ls_state s = LsTraining
     | SpRunning \<Rightarrow> ls_state s = LsActive \<or> ls_state s = LsDegraded | SpReturned \<Rightarrow> ls_state s = LsFailed)"

lemma status_step_ok:
  "status_ok s \<Longrightarrow> status_ok (status_step f w a b s) \<and> state_rank (ls_state s) \<le> state_rank (ls_state (status_step f w a b s))"
  by (auto simp: status_ok_def status_step_def split: status_pc.splits)

lemma status_fold_ok:
  "status_ok s \<Longrightarrow> status_ok (fold (\<lambda>(f, w, a, b). status_step f w a b) ins s)
    \<and> state_rank (ls_state s) \<le> state_rank (ls_state (fold (\<lambda>(f, w, a, b). status_step f w a b) ins s))"
proof (induction ins arbitrary: s)
  case (Cons i ins)
  obtain f w a b where i: "i = (f, w, a, b)"
    by (metis prod_cases4)
  from Cons.IH [of "status_step f w a b s"] status_step_ok [OF Cons.prems, of f w a b] show ?case
    by (auto simp: i)
qed simp

text \<open>
  the link state the status process reports never goes back, whatever the counters, watchdog and
  failure flag do between its wake-ups: Training, then Active, then possibly Degraded, then possibly
  Failed, which is final.
\<close>

theorem link_state_monotone:
  "state_rank (ls_state (status_run xs)) \<le> state_rank (ls_state (status_run (xs @ ys)))"
proof -
  have "status_ok status_start"
    by (simp add: status_ok_def status_start_def)
  then show ?thesis
    using status_fold_ok by (simp add: status_run_def)
qed

end
