(* ===== verification/Link_System.thy ===== *)
theory Link_System
  imports Packer_System Ucie_Adapter Ucie_Props
begin

text \<open>
  The request path end to end: the packer of the bridge, the adapter in front of the link and one
  direction of the UCIe link run side by side, each under any interleaving of its own steps, connected
  through the logs of what one hands to the next.
\<close>

section \<open>Flits on the way\<close>

lemma decode_flits_cong:
  assumes "list_all2 (\<lambda>f f'. flit_msg_start f = flit_msg_start f' \<and> flit_payload f = flit_payload f') fs fs'"
  shows "decode_flits fs d = decode_flits fs' d"
  using assms
proof (induction arbitrary: d rule: list_all2_induct)
  case (Cons f fs f' fs')
  have "sd_consume f d = sd_consume f' d"
    using Cons(1) by (intro sd_consume_cong) simp_all
  then show ?case
    using Cons.IH by (simp split: prod.splits sum.splits)
qed simp

lemma fdi_stream_nth:
  assumes "fdi_stream k fs ds" and "i < length ds" and "length (flit_payload (snd (fs ! i))) = 240"
  shows "deserialize_aou (fd_payload (ds ! i)) = Inr ((snd (fs ! i))\<lparr>flit_used_granules := -1, flit_valid := True\<rparr>)"
  using assms deserialize_serialize by (auto simp: fdi_stream_def fdi_of_bytes_def)

text \<open>What comes out of the link is a prefix of what the adapter accepted.\<close>

lemma adapter_link_flits:
  assumes ad: "UcieAouAdapter_new cfg k = Inr ad" "ad_step\<^sup>*\<^sup>* (as_init ad ntx nrx) a"
    and link: "(dir_step cfg)\<^sup>*\<^sup>* (UcieDir_new cfg) l" and wire: "ud_pushed l = as_taken a"
    and pay: "\<And>f. f \<in> set (map snd (as_accepted a)) \<Longrightarrow> length (flit_payload f) = 240"
  shows "length (ud_delivered l) \<le> length (as_accepted a) \<and> map (\<lambda>d. deserialize_aou (fd_payload d)) (ud_delivered l)
    = map (\<lambda>f. Inr (f\<lparr>flit_used_granules := -1, flit_valid := True\<rparr>))
        (take (length (ud_delivered l)) (map snd (as_accepted a)))"
proof -
  have "require_valid_config cfg = Inr ()"
    using ad(1) by (auto simp: UcieAouAdapter_new_def require_aou_ucie_config_def rbind_eq_Inr)
  then have del: "ud_delivered l = take (rx_expected_seq (ud_rx l)) (ud_pushed l)"
    using dir_delivered(1) [OF dir_reachable [OF link valid_config_size]] by blast
  have st: "fdi_stream (ad_direction (as_ad a)) (as_accepted a) (as_taken a @ fifo_list (as_tx a))"
    using ad_reachable [OF ad] by (simp add: ad_inv_def)
  have len: "length (as_taken a) \<le> length (as_accepted a)"
    using st by (auto simp: fdi_stream_def)
  have nth: "deserialize_aou (fd_payload (as_taken a ! i))
      = Inr ((snd (as_accepted a ! i))\<lparr>flit_used_granules := -1, flit_valid := True\<rparr>)" if "i < length (as_taken a)" for i
    using fdi_stream_nth [OF st, of i] pay that len by (simp add: nth_append)
  show ?thesis
    using len unfolding del wire by (auto intro!: nth_equalityI simp: nth)
qed

section \<open>Property\<close>

text \<open>
  C5: the request path. The packer hands its flits to the adapter, the adapter its FDI flits to the
  link; then, whatever happened on the way (back-pressure, replays, corrupted frames), every FDI flit the
  link delivers deserializes, the flits decode without error, and for every message class and plane the
  decoded messages are a prefix of what the bridge wrote to that queue: in order, without gaps, none twice.
\<close>

theorem request_path_in_order:
  assumes "FlitPacker_new n rc wc ft = Inr pk" and "sys_step\<^sup>*\<^sup>* (sys_init pk) y"
    and "UcieAouAdapter_new cfg k = Inr ad" and "ad_step\<^sup>*\<^sup>* (as_init ad ntx nrx) a"
    and "(dir_step cfg)\<^sup>*\<^sup>* (UcieDir_new cfg) l"
    and "map snd (as_accepted a) = sy_sent y" and "ud_pushed l = as_taken a"
  shows "\<exists>fs D d. map (\<lambda>f. deserialize_aou (fd_payload f)) (ud_delivered l) = map Inr fs
    \<and> decode_flits fs sd_reset = Inr (D, d)
    \<and> (\<forall>q. \<forall>rp<n. \<exists>rest. map wire_msg (sy_in y q rp) = filter (in_queue q rp) D @ rest)"
proof -
  have rel: "sys_rel y" and n: "pk_rp_count (sy_packer y) = n"
    using sys_reachable [OF assms(2,1)] by simp_all
  then have "list_all sendable (sy_sent y)"
    by (auto simp: pk_rel_def pk_stream_def)
  then have pay: "f \<in> set (map snd (as_accepted a)) \<Longrightarrow> length (flit_payload f) = 240" for f
    using assms(6) by (auto simp: list_all_iff sendable_def flit_holds_def flit_ok_def)
  let ?m = "length (ud_delivered l)"
  let ?fs = "map (\<lambda>f. f\<lparr>flit_used_granules := -1, flit_valid := True\<rparr>) (take ?m (sy_sent y))"
  have out: "map (\<lambda>f. deserialize_aou (fd_payload f)) (ud_delivered l) = map Inr ?fs"
    using adapter_link_flits [OF assms(3,4,5,7) pay] assms(6) by simp
  obtain D d rest where D: "decode_flits (sy_sent y) sd_reset = Inr (D, d)"
    "\<And>q rp. rp < n \<Longrightarrow> map wire_msg (sy_in y q rp) = filter (in_queue q rp) (D @ rest)
        @ map wire_msg (pipe q rp (sy_packer y) (sy_ports y))"
    using sys_rel_received [OF rel] unfolding n by metis
  have "decode_flits (take ?m (sy_sent y) @ drop ?m (sy_sent y)) sd_reset = Inr (D, d)"
    using D(1) by simp
  from decode_flits_prefix [OF this] obtain D1 d1 D2
    where D1: "decode_flits (take ?m (sy_sent y)) sd_reset = Inr (D1, d1)" "D = D1 @ D2" by blast
  have "decode_flits ?fs sd_reset = Inr (D1, d1)"
    using D1(1) decode_flits_cong [of "take ?m (sy_sent y)" ?fs] by (simp add: list_all2_conv_all_nth)
  moreover have "\<exists>rest. map wire_msg (sy_in y q rp) = filter (in_queue q rp) D1 @ rest" if "rp < n" for q rp
    using D(2) [OF that] D1(2) by simp
  ultimately show ?thesis
    using out by blast
qed


text \<open>The credit grant of the first cycle, accepted by the adapter and handed to the link.\<close>

lemma demo_packer_sent:
  obtains y f where "sys_step\<^sup>*\<^sup>* (sys_init demo_pk) y" "sy_sent y = [f]" "sendable f"
proof -
  let ?y = "sys_init demo_pk"
  have y: "sy_packer ?y = pk_reset demo_pk" "sy_ports ?y = ports_new" "sy_sent ?y = []"
    by (simp_all add: sys_init_def)
  obtain s p where c: "pk_cycle False (sy_packer ?y, sy_ports ?y) = Inr (s, p)"
    using pk_cycle_rel [OF sys_rel_init(1) [OF demo_pk_new], of False] by blast
  have act: "out_reg s = [ft_flit (pk_output_transfer s)]"
    using first_cycle_active c unfolding y by (simp add: out_reg_def)
  let ?y1 = "?y\<lparr>sy_packer := s, sy_ports := p, sy_sent := []\<rparr>"
  have r1: "sys_step\<^sup>*\<^sup>* ?y ?y1"
    using r_into_rtranclp [of sys_step, OF sys_clock [OF c]] y(3) by simp
  have "sys_rel ?y1"
    using sys_reachable [OF r1 demo_pk_new] by simp
  then obtain s2 p2 where c2: "pk_cycle True (sy_packer ?y1, sy_ports ?y1) = Inr (s2, p2)"
    using pk_cycle_rel [of "sy_in ?y1" "sy_sent ?y1" "sy_packer ?y1" "sy_ports ?y1" True] by blast
  let ?y2 = "?y1\<lparr>sy_packer := s2, sy_ports := p2, sy_sent := [ft_flit (pk_output_transfer s)]\<rparr>"
  have r2: "sys_step\<^sup>*\<^sup>* ?y ?y2"
    using rtranclp.rtrancl_into_rtrancl [OF r1 sys_clock [OF c2]] act y(3) by simp
  have "list_all sendable (sy_sent ?y2)"
    using sys_reachable [OF r2 demo_pk_new] by (auto simp: pk_rel_def pk_stream_def)
  with r2 show thesis
    by (intro that [of ?y2]) simp_all
qed

lemma demo_adapter_took:
  assumes "UcieAouAdapter_new cfg k = Inr ad" and f: "sendable f"
  obtains a where "ad_step\<^sup>*\<^sup>* (as_init ad 2 2) a" "map snd (as_accepted a) = [f]" "length (as_taken a) = 1"
proof -
  let ?y = "as_init ad 2 2"
  let ?s1 = "(ad_reset ad)\<lparr>ad_ready := True, ad_tx_ready := True\<rparr>"
  let ?tx = "FlitTransfer_of f"
  obtain b where b: "serialize_aou f = Inr b"
    using sendable_wire [OF f] by blast
  let ?d = "fdi_of_bytes (ad_direction ad) 0 1 b"
  let ?s2 = "?s1\<lparr>ad_trace_id := 1\<rparr>" and ?q = "(fifo_new 2)\<lparr>ff_written := [?d]\<rparr>"
  have "transfer 0 LsActive FlitTransfer_none False (as_ad ?y, as_tx ?y, as_rx ?y) = Inr (?s1, fifo_new 2, fifo_new 2)"
    by (simp add: transfer_def transfer_tx_def transfer_rx_def as_init_def ad_reset_def nb_read_def fifo_new_def
        num_free_def report_fatal_def)
  from a_clock [OF this] have "ad_step ?y (?y\<lparr>as_ad := ?s1\<rparr>)"
    by (simp add: as_init_def ad_reset_def FlitTransfer_none_def)
  moreover have "transfer 1 LsActive ?tx False (?s1, fifo_new 2, fifo_new 2) = Inr (?s2, ?q, fifo_new 2)"
    by (simp add: transfer_def transfer_tx_def transfer_rx_def ad_reset_def nb_read_def nb_write_def fifo_new_def
        num_free_def report_fatal_def FlitTransfer_of_def b)
  then have "ad_step (?y\<lparr>as_ad := ?s1\<rparr>) (?y\<lparr>as_ad := ?s2, as_tx := ?q, as_accepted := [(1, f)]\<rparr>)"
    using a_clock [of 1 LsActive ?tx False "?y\<lparr>as_ad := ?s1\<rparr>"] by (simp add: as_init_def ad_reset_def FlitTransfer_of_def)
  moreover have "ad_step (?y\<lparr>as_ad := ?s2, as_tx := ?q, as_accepted := [(1, f)]\<rparr>)
      (?y\<lparr>as_ad := ?s2, as_tx := fifo_update ?q, as_accepted := [(1, f)]\<rparr>)"
    using a_update [of "?y\<lparr>as_ad := ?s2, as_tx := ?q, as_accepted := [(1, f)]\<rparr>"]
    by (simp add: as_init_def fifo_update_def fifo_new_def)
  moreover have "nb_read (fifo_update ?q) = (Some ?d, snd (nb_read (fifo_update ?q)))"
    by (simp add: nb_read_def fifo_update_def fifo_new_def)
  then have "ad_step (?y\<lparr>as_ad := ?s2, as_tx := fifo_update ?q, as_accepted := [(1, f)]\<rparr>)
      (?y\<lparr>as_ad := ?s2, as_tx := snd (nb_read (fifo_update ?q)), as_accepted := [(1, f)], as_taken := [?d]\<rparr>)"
    using a_take [of "?y\<lparr>as_ad := ?s2, as_tx := fifo_update ?q, as_accepted := [(1, f)]\<rparr>"] by (simp add: as_init_def)
  ultimately have "ad_step\<^sup>*\<^sup>* ?y (?y\<lparr>as_ad := ?s2, as_tx := snd (nb_read (fifo_update ?q)), as_accepted := [(1, f)], as_taken := [?d]\<rparr>)"
    by (meson converse_rtranclp_into_rtranclp r_into_rtranclp)
  then show thesis
    by (rule that) simp_all
qed

theorem request_path_in_order_witness:
  "\<exists>y (l :: UcieDir) fs D d. sys_step\<^sup>*\<^sup>* (sys_init demo_pk) y \<and> length (sy_sent y) = 1 \<and> length (ud_pushed l) = 1
    \<and> map (\<lambda>f. deserialize_aou (fd_payload f)) (ud_delivered l) = map Inr fs \<and> decode_flits fs sd_reset = Inr (D, d)
    \<and> (\<exists>rest. map wire_msg (sy_in y QRreq 0) = filter (in_queue QRreq 0) D @ rest)"
proof -
  obtain ad where ad: "UcieAouAdapter_new make_aou_ucie_config Request = Inr ad"
    using demo_adapter by blast
  obtain y f where y: "sys_step\<^sup>*\<^sup>* (sys_init demo_pk) y" "sy_sent y = [f]" "sendable f"
    by (rule demo_packer_sent)
  obtain a where a: "ad_step\<^sup>*\<^sup>* (as_init ad 2 2) a" "map snd (as_accepted a) = [f]" "length (as_taken a) = 1"
    by (rule demo_adapter_took [OF ad y(3)])
  let ?l0 = "UcieDir_new make_aou_ucie_config"
  obtain x where x: "as_taken a = [x]"
    using a(3) by (auto simp: length_Suc_conv)
  have l: "(dir_step make_aou_ucie_config)\<^sup>*\<^sup>* ?l0 (?l0\<lparr>ud_fdi_in := [x], ud_pushed := [x]\<rparr>)"
    using d_push [of make_aou_ucie_config ?l0 x] by (intro r_into_rtranclp) (simp add: UcieDir_new_def)
  from request_path_in_order [OF demo_pk_new y(1) ad a(1) l] a(2) y(2) x
  obtain fs D d where "map (\<lambda>f. deserialize_aou (fd_payload f)) (ud_delivered (?l0\<lparr>ud_fdi_in := [x], ud_pushed := [x]\<rparr>)) = map Inr fs"
      "decode_flits fs sd_reset = Inr (D, d)" "\<exists>rest. map wire_msg (sy_in y QRreq 0) = filter (in_queue QRreq 0) D @ rest"
    by auto
  moreover have "length (sy_sent y) = 1" "length (ud_pushed (?l0\<lparr>ud_fdi_in := [x], ud_pushed := [x]\<rparr>)) = 1"
    using y(2) by simp_all
  ultimately show ?thesis
    using y(1) by blast
qed

end
