(* ===== verification/Simple_Memory.thy ===== *)
theory Simple_Memory
  imports Axi_If
begin

text \<open>
  The serial burst memory of the storage side
  (axi_StorageStacked/storage_axi/link/simple_burst_memory.h): one request is served at a time, with byte
  strobes, narrow transfers and a window check. Every access to a vector or array of the C++ code is
  written with \<open>arr_at\<close> and \<open>arr_put\<close>, whose value outside the bounds is \<open>Undefined\<close>.
\<close>

section \<open>The module\<close>

record SimpleBurstMemory =
  sm_base :: u64
  sm_bytes :: "u8 list"
  sm_completed :: u64
  sm_error_responses :: u64

definition SimpleBurstMemory_new :: "u64 \<Rightarrow> u64 \<Rightarrow> SimpleBurstMemory res" where
  "SimpleBurstMemory_new base sz =
     (if sz = 0 \<or> base > - 1 - (sz - 1) then Inl (InvalidArgument ''invalid memory window'')
      else Inr \<lparr>sm_base = base, sm_bytes = replicate (unat sz) 0, sm_completed = 0, sm_error_responses = 0\<rparr>)"

definition sm_width :: "AxChannel \<Rightarrow> nat" where
  "sm_width a = 2 ^ unat (ax_size a)"

text \<open>The address of beat \<open>n\<close> and the bus lane it starts at.\<close>

definition beat_addr :: "AxChannel \<Rightarrow> nat \<Rightarrow> u64" where
  "beat_addr a n = ax_addr a + of_nat n * of_nat (sm_width a)"

definition beat_lane :: "AxChannel \<Rightarrow> nat \<Rightarrow> nat" where
  "beat_lane a n = unat (beat_addr a n mod of_nat AXI_DATA_BYTES)"

definition sm_in_range :: "SimpleBurstMemory \<Rightarrow> SimpleMemRequest \<Rightarrow> bool" where
  "sm_in_range m req =
     (let a = mrq_address req;
          len = (of_nat (sm_width a) * of_nat (mrq_beats req) :: u64);
          sz = (of_nat (length (sm_bytes m)) :: u64)
      in ax_addr a \<ge> sm_base m \<and> ax_addr a - sm_base m < sz \<and> len \<le> sz - (ax_addr a - sm_base m))"

definition bad_strobe :: "SimpleMemRequest \<Rightarrow> bool" where
  "bad_strobe req =
     (let a = mrq_address req
      in list_ex (\<lambda>n. list_ex (\<lambda>j. wb_strobe (mrq_write_beats req ! n) ! j \<noteq> 0
             \<and> (j < beat_lane a n \<or> j \<ge> beat_lane a n + sm_width a)) [0..<AXI_DATA_BYTES]) [0..<mrq_beats req])"

definition sm_status :: "SimpleBurstMemory \<Rightarrow> SimpleMemRequest \<Rightarrow> u8" where
  "sm_status m req =
     (if mrq_write req \<and> bad_strobe req then 2
      else if \<not> sm_in_range m req then 3
      else if ax_lock (mrq_address req) \<noteq> 0 then 2 else 0)"

definition write_byte :: "SimpleBurstMemory \<Rightarrow> SimpleMemRequest \<Rightarrow> nat \<Rightarrow> nat \<Rightarrow> u8 list \<Rightarrow> u8 list res" where
  "write_byte m req n j bytes =
     (let a = mrq_address req; beat = mrq_write_beats req ! n
      in rbind (arr_at (wb_strobe beat) (beat_lane a n + j)) (\<lambda>s.
           if s = 0 then Inr bytes
           else rbind (arr_at (wb_data beat) (beat_lane a n + j)) (\<lambda>d.
             arr_put (unat (beat_addr a n - sm_base m + of_nat j)) d bytes)))"

definition write_burst :: "SimpleBurstMemory \<Rightarrow> SimpleMemRequest \<Rightarrow> u8 list res" where
  "write_burst m req =
     rfold (\<lambda>n. rfold (write_byte m req n) [0..<sm_width (mrq_address req)]) [0..<mrq_beats req] (sm_bytes m)"

definition read_byte :: "SimpleBurstMemory \<Rightarrow> AxChannel \<Rightarrow> nat \<Rightarrow> nat \<Rightarrow> u8 list \<Rightarrow> u8 list res" where
  "read_byte m a n j dat =
     rbind (arr_at (sm_bytes m) (unat (beat_addr a n - sm_base m + of_nat j))) (\<lambda>v.
       arr_put (beat_lane a n + j) v dat)"

definition read_beat :: "SimpleBurstMemory \<Rightarrow> AxChannel \<Rightarrow> u8 \<Rightarrow> nat \<Rightarrow> SimpleMemReadBeat res" where
  "read_beat m a status n =
     (let beat = SimpleMemReadBeat_init\<lparr>rb_resp := status, rb_user := ax_user a\<rparr>
      in if status \<noteq> 0 then Inr beat
         else rbind (rfold (read_byte m a n) [0..<sm_width a] (rb_data beat)) (\<lambda>d. Inr (beat\<lparr>rb_data := d\<rparr>)))"

definition read_burst :: "SimpleBurstMemory \<Rightarrow> SimpleMemRequest \<Rightarrow> u8 \<Rightarrow> SimpleMemReadBeat list res" where
  "read_burst m req status =
     rfold (\<lambda>n beats. rbind (read_beat m (mrq_address req) status n) (\<lambda>b. Inr (beats @ [b])))
       [0..<mrq_beats req] []"

text \<open>The service of one request (the loop body of \<open>run\<close>).\<close>

definition sm_run :: "SimpleMemRequest \<Rightarrow> SimpleBurstMemory \<Rightarrow> (SimpleMemResponse \<times> SimpleBurstMemory) res" where
  "sm_run req m =
     (let a = mrq_address req;
          rsp = \<lparr>mrs_write = mrq_write req, mrs_rp = mrq_rp req, mrs_id = ax_id a, mrs_resp = 0,
                 mrs_user = ax_user a, mrs_read_beats = []\<rparr>
      in if axi_request_error a \<noteq> None \<or> (mrq_write req \<and> length (mrq_write_beats req) \<noteq> mrq_beats req)
         then Inl (ScFatal ''invalid burst transaction'')
         else
           let status = sm_status m req;
               m' = m\<lparr>sm_completed := sm_completed m + 1,
                      sm_error_responses := sm_error_responses m + (if status \<noteq> 0 then 1 else 0)\<rparr>
           in if mrq_write req
              then rbind (if status = 0 then write_burst m req else Inr (sm_bytes m)) (\<lambda>bytes.
                Inr (rsp\<lparr>mrs_resp := status\<rparr>, m'\<lparr>sm_bytes := bytes\<rparr>))
              else rbind (read_burst m req status) (\<lambda>beats.
                Inr (rsp\<lparr>mrs_read_beats := beats\<rparr>, m')))"

lemma fold_masked_update:
  assumes "off + m \<le> length b" and "i < length b"
  shows "fold (\<lambda>k b. if c k then b[off + k := g k] else b) [0..<m] b ! i
     = (if off \<le> i \<and> i < off + m \<and> c (i - off) then g (i - off) else b ! i)"
  using assms
proof (induction m)
  case (Suc m)
  let ?F = "fold (\<lambda>k b. if c k then b[off + k := g k] else b) [0..<m] b"
  have len: "length ?F = length b"
    by (rule fold_keeps_eq [where g = length]) simp
  have "fold (\<lambda>k b. if c k then b[off + k := g k] else b) [0..<Suc m] b
      = (if c m then ?F[off + m := g m] else ?F)"
    by simp
  then show ?case
    using Suc len by (cases "i = off + m") (auto simp: nth_list_update)
qed auto


section \<open>Address arithmetic of a legal burst\<close>

lemma legal_width:
  assumes "axi_request_error a = None"
  shows "sm_width a dvd 32" "0 < sm_width a" "sm_width a dvd unat (ax_addr a)"
    "unat (ax_addr a) + burst_bytes a \<le> 2 ^ 64"
proof -
  have legal: "axi_legal a"
    using assms by (simp add: axi_request_error_None_iff)
  then have size: "unat (ax_size a) \<le> 5"
    by (simp add: axi_legal_def)
  show "sm_width a dvd 32"
    using le_imp_power_dvd [OF size, of "2::nat"] by (simp add: sm_width_def)
  show "0 < sm_width a"
    by (simp add: sm_width_def)
  show "sm_width a dvd unat (ax_addr a)"
    using legal by (simp add: sm_width_def axi_legal_def)
  have "0 < burst_bytes a"
    by (simp add: burst_bytes_def)
  then have page: "unat (ax_addr a) mod 4096 + burst_bytes a \<le> 4096"
    using legal same_page_iff [of "burst_bytes a" "unat (ax_addr a)"] by (simp add: axi_legal_def)
  have "unat (ax_addr a) < 2 ^ 64"
    using unsigned_less [of "ax_addr a", where ?'a = nat] by simp
  then have "unat (ax_addr a) div 4096 < 2 ^ 52"
    by (simp add: less_mult_imp_div_less)
  then have "unat (ax_addr a) div 4096 * 4096 + 4096 \<le> 2 ^ 64"
    by simp
  moreover have "unat (ax_addr a) = unat (ax_addr a) div 4096 * 4096 + unat (ax_addr a) mod 4096"
    by simp
  ultimately show "unat (ax_addr a) + burst_bytes a \<le> 2 ^ 64"
    using page by linarith
qed

lemma mod_aligned:
  fixes w a :: nat
  assumes "w dvd 32" "w dvd a" "0 < w" "j < w"
  shows "a mod 32 + j = (a + j) mod 32" "a mod 32 + w \<le> 32"
proof -
  obtain q where q: "32 = w * q" using assms(1) by blast
  obtain r where r: "a = w * r" using assms(2) by blast
  have mod: "a mod 32 = w * (r mod q)"
    using mult_mod_right [of w r q] q r by metis
  have "0 < q" using q by (cases q) auto
  then have "r mod q + 1 \<le> q" by (simp add: Suc_leI)
  then have "w * (r mod q + 1) \<le> w * q" by (rule mult_le_mono2)
  then show le: "a mod 32 + w \<le> 32" using mod q by simp
  have "(a + j) mod 32 = (a mod 32 + j) mod 32" by presburger
  also have "\<dots> = a mod 32 + j" using le assms(4) by simp
  finally show "a mod 32 + j = (a + j) mod 32" by simp
qed

text \<open>Byte \<open>j\<close> of beat \<open>n\<close> is byte \<open>n * width + j\<close> of the burst; no address wraps.\<close>

lemma beat_arith:
  assumes legal: "axi_request_error a = None" and n: "n \<le> unat (ax_len a)"
  shows "unat (beat_addr a n) = unat (ax_addr a) + n * sm_width a"
    and "beat_lane a n = (unat (ax_addr a) + n * sm_width a) mod 32"
    and "beat_lane a n + sm_width a \<le> 32"
    and "j < sm_width a \<Longrightarrow> beat_lane a n + j = (unat (ax_addr a) + n * sm_width a + j) mod 32"
proof -
  note w = legal_width [OF legal]
  have "n * sm_width a + sm_width a \<le> burst_bytes a"
    using mult_le_mono1 [of "n + 1" "unat (ax_len a) + 1" "sm_width a"] n
    by (simp add: burst_bytes_def sm_width_def)
  then have small: "unat (ax_addr a) + n * sm_width a < 2 ^ 64"
    using w(2,4) by simp
  have "beat_addr a n = of_nat (unat (ax_addr a) + n * sm_width a)"
    by (simp add: beat_addr_def)
  then show addr: "unat (beat_addr a n) = unat (ax_addr a) + n * sm_width a"
    using small by (simp only: unat_of_nat) simp
  show lane: "beat_lane a n = (unat (ax_addr a) + n * sm_width a) mod 32"
    by (simp add: beat_lane_def unat_mod addr axi_consts)
  have al: "sm_width a dvd unat (ax_addr a) + n * sm_width a"
    using w(3) by simp
  show "beat_lane a n + sm_width a \<le> 32"
    using mod_aligned(2) [OF w(1) al w(2) w(2)] by (simp add: lane)
  show "j < sm_width a \<Longrightarrow> beat_lane a n + j = (unat (ax_addr a) + n * sm_width a + j) mod 32"
    using mod_aligned(1) [OF w(1) al w(2)] by (simp add: lane)
qed


section \<open>Specification\<close>

text \<open>
  The window as a partial map from addresses to bytes, and the AXI reading of a burst: the beat and
  the bus lane that carry the byte at address \<open>x\<close>.
\<close>

definition mem_view :: "SimpleBurstMemory \<Rightarrow> nat \<rightharpoonup> u8" where
  "mem_view m x = (if unat (sm_base m) \<le> x \<and> x < unat (sm_base m) + length (sm_bytes m)
     then Some (sm_bytes m ! (x - unat (sm_base m))) else None)"

definition covers :: "AxChannel \<Rightarrow> nat \<Rightarrow> bool" where
  "covers a x \<longleftrightarrow> unat (ax_addr a) \<le> x \<and> x < unat (ax_addr a) + burst_bytes a"

definition beat_of :: "AxChannel \<Rightarrow> nat \<Rightarrow> nat" where
  "beat_of a x = (x - unat (ax_addr a)) div sm_width a"

definition strobed :: "SimpleMemRequest \<Rightarrow> nat \<Rightarrow> bool" where
  "strobed req x \<longleftrightarrow> wb_strobe (mrq_write_beats req ! beat_of (mrq_address req) x) ! (x mod 32) \<noteq> 0"

definition written_byte :: "SimpleMemRequest \<Rightarrow> nat \<Rightarrow> u8" where
  "written_byte req x = wb_data (mrq_write_beats req ! beat_of (mrq_address req) x) ! (x mod 32)"

definition sm_wf :: "SimpleBurstMemory \<Rightarrow> bool" where
  "sm_wf m \<longleftrightarrow> length (sm_bytes m) < 2 ^ 64 \<and> unat (sm_base m) + length (sm_bytes m) \<le> 2 ^ 64"

text \<open>The array lengths the C++ types fix, and the number of beats the C++ code checks.\<close>

definition mrq_ok :: "SimpleMemRequest \<Rightarrow> bool" where
  "mrq_ok req \<longleftrightarrow> (\<forall>b \<in> set (mrq_write_beats req). length (wb_data b) = 32 \<and> length (wb_strobe b) = 32)"

definition mrq_legal :: "SimpleMemRequest \<Rightarrow> bool" where
  "mrq_legal req \<longleftrightarrow> axi_legal (mrq_address req) \<and> (mrq_write req \<longrightarrow> length (mrq_write_beats req) = mrq_beats req)"

lemma sm_new_wf: "SimpleBurstMemory_new base sz = Inr m \<Longrightarrow> sm_wf m"
proof -
  assume new: "SimpleBurstMemory_new base sz = Inr m"
  then have sz: "0 < unat sz" and le: "base \<le> - 1 - (sz - 1)"
    and m: "sm_base m = base" "length (sm_bytes m) = unat sz"
    by (auto simp: SimpleBurstMemory_new_def unat_gt_0 split: if_splits)
  have "unat (- 1 - (sz - 1)) = 2 ^ 64 - unat sz"
  proof -
    have "unat (- 1 - (sz - 1)) = unat (- 1 :: u64) - unat (sz - 1)"
      by (rule unat_sub) simp
    moreover have "unat (sz - 1) = unat sz - 1"
      using sz by (subst unat_sub) (simp_all add: word_le_nat_alt)
    moreover have "unat (- 1 :: u64) = 2 ^ 64 - 1"
      by (simp add: unsigned_minus_1_eq_mask mask_eq_exp_minus_1)
    ultimately show ?thesis using sz by simp
  qed
  moreover have "unat base \<le> unat (- 1 - (sz - 1))"
    using le by (simp only: word_le_nat_alt)
  moreover have "unat sz < 2 ^ 64"
    using unsigned_less [of sz, where ?'a = nat] by simp
  ultimately show ?thesis
    by (simp add: sm_wf_def m)
qed

lemma sm_in_range_iff:
  assumes wf: "sm_wf m" and legal: "axi_request_error (mrq_address req) = None"
  shows "sm_in_range m req \<longleftrightarrow> unat (sm_base m) \<le> unat (ax_addr (mrq_address req))
    \<and> unat (ax_addr (mrq_address req)) + burst_bytes (mrq_address req) \<le> unat (sm_base m) + length (sm_bytes m)"
proof -
  let ?a = "mrq_address req" and ?sz = "of_nat (length (sm_bytes m)) :: u64"
  have pos: "0 < burst_bytes ?a"
    by (simp add: burst_bytes_def)
  have "sm_width ?a \<le> 32"
    using legal_width(1) [OF legal] by (rule dvd_imp_le) simp
  then have "sm_width ?a * (unat (ax_len ?a) + 1) \<le> 32 * 256"
    using unat_lt_256 [of "ax_len ?a"] by (intro mult_le_mono) simp_all
  then have "burst_bytes ?a < 2 ^ 64"
    by (simp add: burst_bytes_def sm_width_def mult.commute)
  moreover have "of_nat (sm_width ?a) * of_nat (mrq_beats req) = (of_nat (burst_bytes ?a) :: u64)"
    by (simp add: burst_bytes_def sm_width_def mrq_beats_def algebra_simps)
  ultimately have len: "unat (of_nat (sm_width ?a) * of_nat (mrq_beats req) :: u64) = burst_bytes ?a"
    by (simp only: unat_of_nat) simp
  have sz: "unat ?sz = length (sm_bytes m)"
    using wf by (simp add: sm_wf_def unat_of_nat)
  show ?thesis
  proof (cases "sm_base m \<le> ax_addr ?a \<and> ax_addr ?a - sm_base m < ?sz")
    case True
    then have diff: "unat (ax_addr ?a - sm_base m) = unat (ax_addr ?a) - unat (sm_base m)"
      by (simp add: unat_sub word_le_nat_alt)
    have le: "unat (ax_addr ?a - sm_base m) \<le> unat ?sz"
      using True by (simp add: word_less_nat_alt)
    then have "unat (?sz - (ax_addr ?a - sm_base m)) = length (sm_bytes m) - unat (ax_addr ?a - sm_base m)"
      using sz by (simp add: unat_sub word_le_nat_alt)
    then show ?thesis
      using True le sz unfolding sm_in_range_def Let_def word_le_nat_alt word_less_nat_alt len diff by auto
  next
    case False
    have sub: "unat (ax_addr ?a - sm_base m) = unat (ax_addr ?a) - unat (sm_base m)" if "sm_base m \<le> ax_addr ?a"
      using that by (simp add: unat_sub word_le_nat_alt)
    show ?thesis
      using False pos sz sub unfolding sm_in_range_def Let_def word_le_nat_alt word_less_nat_alt len by auto
  qed
qed


section \<open>The loops compute the specification\<close>

lemma byte_index:
  assumes wf: "sm_wf m" and legal: "axi_request_error (mrq_address req) = None" and "in": "sm_in_range m req"
    and n: "n < mrq_beats req" and j: "j < sm_width (mrq_address req)"
  defines "k \<equiv> n * sm_width (mrq_address req) + j"
  shows "unat (beat_addr (mrq_address req) n - sm_base m + of_nat j)
      = unat (ax_addr (mrq_address req)) - unat (sm_base m) + k"
    and "unat (ax_addr (mrq_address req)) - unat (sm_base m) + k < length (sm_bytes m)"
    and "k < burst_bytes (mrq_address req)"
    and "beat_of (mrq_address req) (unat (ax_addr (mrq_address req)) + k) = n"
    and "beat_lane (mrq_address req) n + j = (unat (ax_addr (mrq_address req)) + k) mod 32"
    and "beat_lane (mrq_address req) n + j < 32"
proof -
  let ?a = "mrq_address req"
  have n': "n \<le> unat (ax_len ?a)"
    using n by (simp add: mrq_beats_def)
  note ar = beat_arith [OF legal n']
  have range: "unat (sm_base m) \<le> unat (ax_addr ?a)"
      "unat (ax_addr ?a) + burst_bytes ?a \<le> unat (sm_base m) + length (sm_bytes m)"
    using sm_in_range_iff [OF wf legal] "in" by simp_all
  have "n * sm_width ?a + sm_width ?a \<le> burst_bytes ?a"
    using mult_le_mono1 [of "n + 1" "unat (ax_len ?a) + 1" "sm_width ?a"] n'
    by (simp add: burst_bytes_def sm_width_def)
  then show k: "k < burst_bytes ?a"
    using j by (simp add: k_def)
  then show idx: "unat (ax_addr ?a) - unat (sm_base m) + k < length (sm_bytes m)"
    using range by linarith
  have le: "sm_base m \<le> beat_addr ?a n"
    using range(1) ar(1) by (simp add: word_le_nat_alt)
  have "unat (beat_addr ?a n - sm_base m) = unat (ax_addr ?a) - unat (sm_base m) + n * sm_width ?a"
    using le range(1) ar(1) by (simp add: unat_sub)
  moreover have "j < 2 ^ 64"
    using j dvd_imp_le [OF legal_width(1) [OF legal]] by simp
  then have "unat (of_nat j :: u64) = j"
    by (simp add: unat_of_nat)
  ultimately show "unat (beat_addr ?a n - sm_base m + of_nat j) = unat (ax_addr ?a) - unat (sm_base m) + k"
    using idx wf by (simp add: unat_word_ariths(1) k_def sm_wf_def)
  show "beat_of ?a (unat (ax_addr ?a) + k) = n"
    using j by (simp add: beat_of_def k_def)
  show "beat_lane ?a n + j = (unat (ax_addr ?a) + k) mod 32"
    using ar(4) [OF j] by (simp add: k_def add.assoc)
  show "beat_lane ?a n + j < 32"
    using ar(3) j by simp
qed

lemma write_byte_eq:
  assumes "sm_wf m" "axi_request_error (mrq_address req) = None" "sm_in_range m req"
    and n: "n < mrq_beats req" and j: "j < sm_width (mrq_address req)"
    and ok: "mrq_ok req" "length (mrq_write_beats req) = mrq_beats req" and b: "length b = length (sm_bytes m)"
  defines "k \<equiv> n * sm_width (mrq_address req) + j"
  defines "x \<equiv> unat (ax_addr (mrq_address req)) + k"
  shows "write_byte m req n j b = Inr (if strobed req x
      then b[unat (ax_addr (mrq_address req)) - unat (sm_base m) + k := written_byte req x] else b)"
proof -
  note ix = byte_index [OF assms(1-3) n j, folded k_def]
  have "mrq_write_beats req ! n \<in> set (mrq_write_beats req)"
    using n ok(2) by simp
  then have len: "length (wb_data (mrq_write_beats req ! n)) = 32" "length (wb_strobe (mrq_write_beats req ! n)) = 32"
    using ok(1) by (auto simp: mrq_ok_def)
  then show ?thesis
    using ix(2,6) b unfolding write_byte_def Let_def strobed_def written_byte_def x_def ix(1,4)
    by (simp add: arr_at_def arr_put_def ix(5) [symmetric])
qed

lemma burst_product: "mrq_beats req * sm_width (mrq_address req) = burst_bytes (mrq_address req)"
  by (simp add: mrq_beats_def burst_bytes_def sm_width_def)

lemma burst_split:
  assumes "k < burst_bytes (mrq_address req)"
  shows "k div sm_width (mrq_address req) < mrq_beats req" "k mod sm_width (mrq_address req) < sm_width (mrq_address req)"
  using assms by (simp_all add: burst_product [symmetric] less_mult_imp_div_less sm_width_def)

lemma write_burst_eq:
  assumes "sm_wf m" "axi_request_error (mrq_address req) = None" "sm_in_range m req"
    and "mrq_ok req" "length (mrq_write_beats req) = mrq_beats req"
  shows "write_burst m req = Inr (fold (\<lambda>k b. if strobed req (unat (ax_addr (mrq_address req)) + k)
      then b[unat (ax_addr (mrq_address req)) - unat (sm_base m) + k
        := written_byte req (unat (ax_addr (mrq_address req)) + k)] else b)
      [0..<burst_bytes (mrq_address req)] (sm_bytes m))"
proof -
  let ?w = "sm_width (mrq_address req)"
  have w: "0 < ?w" by (simp add: sm_width_def)
  have step: "write_byte m req (k div ?w) (k mod ?w) b = Inr (if strobed req (unat (ax_addr (mrq_address req)) + k)
      then b[unat (ax_addr (mrq_address req)) - unat (sm_base m) + k
        := written_byte req (unat (ax_addr (mrq_address req)) + k)] else b)"
    if "k \<in> set [0..<burst_bytes (mrq_address req)]" "length b = length (sm_bytes m)" for k b
    using write_byte_eq [OF assms(1-3) burst_split assms(4,5) that(2), of k] that(1) by simp
  show ?thesis
    unfolding write_burst_def rfold_nested [OF w] burst_product
    by (rule rfold_total [where P = "\<lambda>b. length b = length (sm_bytes m)", THEN conjunct1]) (simp_all add: step)
qed

lemma mem_view_write:
  assumes wf: "sm_wf m" and legal: "axi_request_error (mrq_address req) = None" and "in": "sm_in_range m req"
    and "mrq_ok req" "length (mrq_write_beats req) = mrq_beats req"
    and w: "write_burst m req = Inr bytes"
  shows "mem_view (m\<lparr>sm_bytes := bytes\<rparr>) = (\<lambda>x. if covers (mrq_address req) x \<and> strobed req x
      then Some (written_byte req x) else mem_view m x)" and "length bytes = length (sm_bytes m)"
proof -
  let ?a = "mrq_address req"
  let ?off = "unat (ax_addr ?a) - unat (sm_base m)"
  have range: "unat (sm_base m) \<le> unat (ax_addr ?a)" "?off + burst_bytes ?a \<le> length (sm_bytes m)"
    using sm_in_range_iff [OF wf legal] "in" by auto
  have bytes: "bytes = fold (\<lambda>k b. if strobed req (unat (ax_addr ?a) + k)
      then b[?off + k := written_byte req (unat (ax_addr ?a) + k)] else b) [0..<burst_bytes ?a] (sm_bytes m)"
    using write_burst_eq [OF assms(1-5)] w by simp
  show len: "length bytes = length (sm_bytes m)"
    unfolding bytes by (rule fold_keeps_eq [where g = length]) simp
  have nth: "bytes ! i = (if ?off \<le> i \<and> i < ?off + burst_bytes ?a \<and> strobed req (unat (ax_addr ?a) + (i - ?off))
      then written_byte req (unat (ax_addr ?a) + (i - ?off)) else sm_bytes m ! i)" if "i < length (sm_bytes m)" for i
    unfolding bytes using fold_masked_update [OF range(2) that] by simp
  show "mem_view (m\<lparr>sm_bytes := bytes\<rparr>) = (\<lambda>x. if covers ?a x \<and> strobed req x
      then Some (written_byte req x) else mem_view m x)"
  proof
    fix x
    show "mem_view (m\<lparr>sm_bytes := bytes\<rparr>) x = (if covers ?a x \<and> strobed req x
      then Some (written_byte req x) else mem_view m x)"
    proof (cases "unat (sm_base m) \<le> x \<and> x < unat (sm_base m) + length (sm_bytes m)")
      case True
      then have i: "x - unat (sm_base m) < length (sm_bytes m)" by linarith
      have "?off \<le> x - unat (sm_base m) \<and> x - unat (sm_base m) < ?off + burst_bytes ?a \<longleftrightarrow> covers ?a x"
        using True range by (auto simp: covers_def)
      moreover have "unat (ax_addr ?a) + (x - unat (sm_base m) - ?off) = x" if "covers ?a x"
        using True range that by (auto simp: covers_def)
      ultimately show ?thesis
        using True len nth [OF i] by (auto simp: mem_view_def)
    next
      case False
      then show ?thesis
        using range len by (auto simp: mem_view_def covers_def)
    qed
  qed
qed


text \<open>A read beat carries the bytes of the window on the lanes of the beat and zero elsewhere.\<close>

definition beat_view :: "(nat \<rightharpoonup> u8) \<Rightarrow> AxChannel \<Rightarrow> nat \<Rightarrow> u8 list" where
  "beat_view v a n = map (\<lambda>l. if beat_lane a n \<le> l \<and> l < beat_lane a n + sm_width a
     then the (v (unat (ax_addr a) + n * sm_width a + (l - beat_lane a n))) else 0) [0..<32]"

lemma read_beat_eq:
  assumes "sm_wf m" "axi_request_error (mrq_address req) = None" "sm_in_range m req" and n: "n < mrq_beats req"
  shows "read_beat m (mrq_address req) 0 n
    = Inr \<lparr>rb_data = beat_view (mem_view m) (mrq_address req) n, rb_resp = 0, rb_user = ax_user (mrq_address req)\<rparr>"
proof -
  let ?a = "mrq_address req"
  let ?w = "sm_width ?a" and ?l = "beat_lane ?a n"
  let ?x = "\<lambda>j. unat (ax_addr ?a) + n * ?w + j"
  have n': "n \<le> unat (ax_len ?a)"
    using n by (simp add: mrq_beats_def)
  note lane = beat_arith(3) [OF assms(2) n']
  have base: "unat (sm_base m) \<le> unat (ax_addr ?a)"
    using sm_in_range_iff [OF assms(1,2)] assms(3) by simp
  have view: "mem_view m (?x j) = Some (sm_bytes m ! (unat (ax_addr ?a) - unat (sm_base m) + (n * ?w + j)))" if "j < ?w" for j
    using byte_index(2) [OF assms(1-3) n that] base
    by (simp add: mem_view_def add.assoc)
  have step: "read_byte m ?a n j d = Inr (d[?l + j := the (mem_view m (?x j))])" if "j < ?w" "length d = 32" for j d
    using byte_index(1,2,6) [OF assms(1-3) n that(1)] that view
    by (simp add: read_byte_def arr_at_def arr_put_def)
  have "rfold (read_byte m ?a n) [0..<?w] (replicate 32 0)
      = Inr (fold (\<lambda>j d. d[?l + j := the (mem_view m (?x j))]) [0..<?w] (replicate 32 0))"
    by (rule rfold_total [where P = "\<lambda>d. length d = 32", THEN conjunct1]) (simp_all add: step)
  also have "fold (\<lambda>j d. d[?l + j := the (mem_view m (?x j))]) [0..<?w] (replicate 32 0) = beat_view (mem_view m) ?a n"
    using lane by (subst fold_update_segment)
      (auto intro!: nth_equalityI simp: beat_view_def nth_append)
  finally show ?thesis
    by (simp add: read_beat_def SimpleMemReadBeat_init_def axi_consts)
qed

lemma read_burst_eq:
  assumes "sm_wf m" "axi_request_error (mrq_address req) = None" "sm_in_range m req"
  shows "read_burst m req 0 = Inr (map (\<lambda>n. \<lparr>rb_data = beat_view (mem_view m) (mrq_address req) n, rb_resp = 0,
      rb_user = ax_user (mrq_address req)\<rparr>) [0..<mrq_beats req])"
  unfolding read_burst_def by (subst rfold_collect [OF read_beat_eq [OF assms]]) simp_all

lemma read_burst_error:
  "status \<noteq> 0 \<Longrightarrow> read_burst m req status = Inr (replicate (mrq_beats req)
     \<lparr>rb_data = replicate 32 0, rb_resp = status, rb_user = ax_user (mrq_address req)\<rparr>)"
  unfolding read_burst_def
  by (subst rfold_collect [where g = "\<lambda>_. \<lparr>rb_data = replicate 32 0, rb_resp = status, rb_user = ax_user (mrq_address req)\<rparr>"])
    (simp_all add: read_beat_def SimpleMemReadBeat_init_def axi_consts map_replicate_const)

lemma sm_status_ok: "sm_status m req = 0 \<Longrightarrow> sm_in_range m req \<and> \<not> (mrq_write req \<and> bad_strobe req) \<and> ax_lock (mrq_address req) = 0"
  by (auto simp: sm_status_def split: if_splits)

lemma beat_view_covers:
  assumes legal: "axi_request_error a = None" and x: "covers a x"
  shows "beat_view v a (beat_of a x) ! (x mod 32) = the (v x)" and "beat_of a x \<le> unat (ax_len a)"
proof -
  let ?k = "x - unat (ax_addr a)" and ?w = "sm_width a" and ?n = "beat_of a x"
  have w: "0 < ?w" by (simp add: sm_width_def)
  have k: "?k < burst_bytes a" and xk: "x = unat (ax_addr a) + ?k"
    using x by (auto simp: covers_def)
  have "?n < unat (ax_len a) + 1"
    unfolding beat_of_def by (rule less_mult_imp_div_less) (use k in \<open>simp add: burst_bytes_def sm_width_def\<close>)
  then show n: "?n \<le> unat (ax_len a)" by simp
  have split: "?k = ?n * ?w + ?k mod ?w"
    by (simp add: beat_of_def)
  have j: "?k mod ?w < ?w" using w by simp
  have x': "unat (ax_addr a) + ?n * ?w + ?k mod ?w = x"
    using xk split by linarith
  have "beat_lane a ?n + ?k mod ?w = x mod 32"
    using beat_arith(4) [OF legal n j] x' by simp
  moreover have "beat_lane a ?n + ?k mod ?w < 32"
    using beat_arith(3) [OF legal n] j by simp
  ultimately show "beat_view v a ?n ! (x mod 32) = the (v x)"
    using j x' by (auto simp: beat_view_def simp flip: \<open>beat_lane a ?n + ?k mod ?w = x mod 32\<close>)
qed


section \<open>Refinement\<close>

text \<open>
  The memory as a partial map: a burst that touches an address outside the map is answered with
  DECERR (3), a strobe outside the lanes of its beat and an exclusive access with SLVERR (2); only a
  write answered with OKAY changes the map, in the strobed bytes.
\<close>

definition status_spec :: "SimpleMemRequest \<Rightarrow> (nat \<rightharpoonup> u8) \<Rightarrow> u8" where
  "status_spec req v =
     (if mrq_write req \<and> (\<exists>n < mrq_beats req. \<exists>j < 32. wb_strobe (mrq_write_beats req ! n) ! j \<noteq> 0
           \<and> \<not> (\<exists>x. covers (mrq_address req) x \<and> beat_of (mrq_address req) x = n \<and> x mod 32 = j)) then 2
      else if \<exists>x. covers (mrq_address req) x \<and> v x = None then 3
      else if ax_lock (mrq_address req) \<noteq> 0 then 2 else 0)"

definition mem_spec :: "SimpleMemRequest \<Rightarrow> (nat \<rightharpoonup> u8) \<Rightarrow> SimpleMemResponse \<times> (nat \<rightharpoonup> u8)" where
  "mem_spec req v =
     (let a = mrq_address req; status = status_spec req v
      in (\<lparr>mrs_write = mrq_write req, mrs_rp = mrq_rp req, mrs_id = ax_id a,
           mrs_resp = (if mrq_write req then status else 0), mrs_user = ax_user a,
           mrs_read_beats = (if mrq_write req then [] else map (\<lambda>n. \<lparr>rb_data =
               (if status = 0 then beat_view v a n else replicate 32 0), rb_resp = status, rb_user = ax_user a\<rparr>)
             [0..<mrq_beats req])\<rparr>,
          if mrq_write req \<and> status = 0
          then (\<lambda>x. if covers a x \<and> strobed req x then Some (written_byte req x) else v x) else v))"

lemma lane_iff:
  assumes legal: "axi_request_error a = None" and n: "n \<le> unat (ax_len a)" and j: "j < 32"
  shows "(\<exists>x. covers a x \<and> beat_of a x = n \<and> x mod 32 = j) \<longleftrightarrow> beat_lane a n \<le> j \<and> j < beat_lane a n + sm_width a"
proof
  let ?w = "sm_width a"
  have w: "0 < ?w" by (simp add: sm_width_def)
  show "\<exists>x. covers a x \<and> beat_of a x = n \<and> x mod 32 = j" if r: "beat_lane a n \<le> j \<and> j < beat_lane a n + ?w"
  proof -
    let ?i = "j - beat_lane a n"
    let ?x = "unat (ax_addr a) + n * ?w + ?i"
    have i: "?i < ?w" using r by auto
    have "?x mod 32 = j"
      using beat_arith(4) [OF legal n i] r by simp
    moreover have "n * ?w + ?w \<le> burst_bytes a"
      using mult_le_mono1 [of "n + 1" "unat (ax_len a) + 1" ?w] n by (simp add: burst_bytes_def sm_width_def)
    then have "covers a ?x"
      using i by (simp add: covers_def)
    moreover have "beat_of a ?x = n"
      using i by (simp add: beat_of_def add.assoc)
    ultimately show ?thesis by blast
  qed
  assume "\<exists>x. covers a x \<and> beat_of a x = n \<and> x mod 32 = j"
  then obtain x where x: "covers a x" "beat_of a x = n" "x mod 32 = j" by blast
  let ?k = "x - unat (ax_addr a)"
  have "x = unat (ax_addr a) + n * ?w + ?k mod ?w"
    using x(1) div_mult_mod_eq [of ?k ?w] by (simp add: x(2) [symmetric] beat_of_def covers_def)
  then have "beat_lane a n + ?k mod ?w = j"
    using beat_arith(4) [OF legal n, of "?k mod ?w"] w x(3) by simp
  then show "beat_lane a n \<le> j \<and> j < beat_lane a n + ?w"
    using w mod_less_divisor [of ?w ?k] by linarith
qed

lemma in_range_view:
  assumes "sm_wf m" and "axi_request_error (mrq_address req) = None"
  shows "sm_in_range m req \<longleftrightarrow> (\<forall>x. covers (mrq_address req) x \<longrightarrow> mem_view m x \<noteq> None)" (is "_ \<longleftrightarrow> ?R")
proof
  let ?a = "mrq_address req"
  assume "sm_in_range m req"
  then show ?R
    unfolding sm_in_range_iff [OF assms] by (auto simp: covers_def mem_view_def)
next
  let ?a = "mrq_address req"
  have pos: "0 < burst_bytes ?a" by (simp add: burst_bytes_def)
  assume all: ?R
  have "mem_view m (unat (ax_addr ?a)) \<noteq> None"
    using all pos by (simp add: covers_def)
  moreover have "mem_view m (unat (ax_addr ?a) + (burst_bytes ?a - 1)) \<noteq> None"
    using all pos by (simp add: covers_def)
  ultimately show "sm_in_range m req"
    using pos unfolding sm_in_range_iff [OF assms] by (auto simp: mem_view_def split: if_splits)
qed

lemma status_view:
  assumes "sm_wf m" and legal: "axi_request_error (mrq_address req) = None"
  shows "sm_status m req = status_spec req (mem_view m)"
proof -
  let ?a = "mrq_address req"
  have "bad_strobe req \<longleftrightarrow> (\<exists>n < mrq_beats req. \<exists>j < 32. wb_strobe (mrq_write_beats req ! n) ! j \<noteq> 0
      \<and> \<not> (beat_lane ?a n \<le> j \<and> j < beat_lane ?a n + sm_width ?a))"
    by (auto simp: bad_strobe_def Let_def list_ex_iff axi_consts not_le not_less Bex_def)
  also have "\<dots> \<longleftrightarrow> (\<exists>n < mrq_beats req. \<exists>j < 32. wb_strobe (mrq_write_beats req ! n) ! j \<noteq> 0
      \<and> \<not> (\<exists>x. covers ?a x \<and> beat_of ?a x = n \<and> x mod 32 = j))"
    unfolding mrq_beats_def
    by (intro ex_cong1 conj_cong refl arg_cong [where f = Not]) (rule lane_iff [OF legal, symmetric], simp_all)
  finally have bad: "bad_strobe req \<longleftrightarrow> \<dots>" .
  have range: "\<not> sm_in_range m req \<longleftrightarrow> (\<exists>x. covers ?a x \<and> mem_view m x = None)"
    unfolding in_range_view [OF assms] by metis
  show ?thesis
    unfolding sm_status_def status_spec_def bad range ..
qed

lemma mem_view_cong: "sm_base m' = sm_base m \<Longrightarrow> sm_bytes m' = sm_bytes m \<Longrightarrow> mem_view m' = mem_view m"
  by (simp add: mem_view_def fun_eq_iff)

lemma sm_run_spec:
  assumes wf: "sm_wf m" and ok: "mrq_ok req" and legal: "mrq_legal req"
  shows "\<exists>m'. sm_run req m = Inr (fst (mem_spec req (mem_view m)), m')
    \<and> mem_view m' = snd (mem_spec req (mem_view m)) \<and> sm_wf m'"
proof -
  let ?a = "mrq_address req"
  have err: "axi_request_error ?a = None" and n: "mrq_write req \<Longrightarrow> length (mrq_write_beats req) = mrq_beats req"
    using legal by (simp_all add: mrq_legal_def axi_request_error_None_iff)
  note st = status_view [OF wf err]
  let ?c = "\<lambda>bytes. m\<lparr>sm_completed := sm_completed m + 1,
      sm_error_responses := sm_error_responses m + (if sm_status m req \<noteq> 0 then 1 else 0), sm_bytes := bytes\<rparr>"
  consider (w) "mrq_write req" "sm_status m req = 0" | (we) "mrq_write req" "sm_status m req \<noteq> 0"
    | (r) "\<not> mrq_write req" "sm_status m req = 0" | (re) "\<not> mrq_write req" "sm_status m req \<noteq> 0" by blast
  then show ?thesis
  proof cases
    case w
    then have "in": "sm_in_range m req" using sm_status_ok by blast
    obtain bytes where b: "write_burst m req = Inr bytes"
      using write_burst_eq [OF wf err "in" ok n [OF w(1)]] by blast
    note mv = mem_view_write [OF wf err "in" ok n [OF w(1)] b]
    have "mem_view (?c bytes) = mem_view (m\<lparr>sm_bytes := bytes\<rparr>)"
      by (rule mem_view_cong) simp_all
    moreover have "sm_wf (?c bytes)"
      using wf mv(2) by (simp add: sm_wf_def)
    ultimately show ?thesis
      using w b n err mv(1) by (simp add: sm_run_def Let_def mem_spec_def st)
  next
    case we
    moreover have "mem_view (?c (sm_bytes m)) = mem_view m" by (rule mem_view_cong) simp_all
    moreover have "sm_wf (?c (sm_bytes m))" using wf by (simp add: sm_wf_def)
    ultimately show ?thesis
      using n err by (simp add: sm_run_def Let_def mem_spec_def st)
  next
    case r
    then have "in": "sm_in_range m req" using sm_status_ok by blast
    moreover have "mem_view (?c (sm_bytes m)) = mem_view m" by (rule mem_view_cong) simp_all
    moreover have "sm_wf (?c (sm_bytes m))" using wf by (simp add: sm_wf_def)
    ultimately show ?thesis
      using r err read_burst_eq [OF wf err "in"] by (simp add: sm_run_def Let_def mem_spec_def st)
  next
    case re
    moreover have "mem_view (?c (sm_bytes m)) = mem_view m" by (rule mem_view_cong) simp_all
    moreover have "sm_wf (?c (sm_bytes m))" using wf by (simp add: sm_wf_def)
    ultimately show ?thesis
      using err read_burst_error [of "sm_status m req" m req]
      by (simp add: sm_run_def Let_def mem_spec_def st map_replicate_const)
  qed
qed


section \<open>Properties\<close>

text \<open>
  C23: The burst memory implements the partial-map memory: every legal request (an INCR burst that is
  aligned, stays in its 4 KB page and, for a write, has one beat per transfer) is served, without an
  out-of-bounds access, with exactly the response of the specification, and the window afterwards is
  the specified one. A request with an error response changes no byte.
\<close>

theorem simple_memory_refines:
  assumes "sm_wf m" and "mrq_ok req" and "mrq_legal req"
  shows "\<exists>m'. sm_run req m = Inr (fst (mem_spec req (mem_view m)), m')
    \<and> mem_view m' = snd (mem_spec req (mem_view m)) \<and> sm_wf m'"
  using assms by (rule sm_run_spec)

definition demo_memory :: SimpleBurstMemory where
  "demo_memory = \<lparr>sm_base = 0x1000, sm_bytes = replicate 64 7, sm_completed = 0, sm_error_responses = 0\<rparr>"

definition demo_write :: SimpleMemRequest where
  "demo_write = \<lparr>mrq_write = True, mrq_rp = 0,
     mrq_address = AxChannel_init\<lparr>ax_id := 5, ax_addr := 0x1008, ax_len := 1, ax_size := 3\<rparr>,
     mrq_write_beats = map (\<lambda>n. \<lparr>wb_data = map of_nat [100 * n..<100 * n + 32],
       wb_strobe = map (\<lambda>j. if 8 * (n + 1) \<le> j \<and> j < 8 * (n + 2) then 1 else 0) [0..<32], wb_user = 0\<rparr>) [0, 1]\<rparr>"

lemma demo_memory_wf: "sm_wf demo_memory"
  by (simp add: sm_wf_def demo_memory_def)

lemma demo_write_ok: "mrq_ok demo_write"
  by (simp add: mrq_ok_def demo_write_def)

lemma demo_write_legal: "mrq_legal demo_write"
  unfolding mrq_legal_def axi_request_error_None_iff [symmetric]
  by (simp add: demo_write_def AxChannel_init_def mrq_beats_def axi_request_error_def axi_consts)

theorem simple_memory_refines_witness:
  "\<exists>m'. sm_run demo_write demo_memory = Inr (fst (mem_spec demo_write (mem_view demo_memory)), m')
    \<and> mem_view m' = snd (mem_spec demo_write (mem_view demo_memory)) \<and> sm_wf m'"
  by (rule simple_memory_refines [OF demo_memory_wf demo_write_ok demo_write_legal])

text \<open>
  C25: The service loop fails on exactly the requests that break the burst contract, and then with
  the fatal report: no other error, in particular no out-of-bounds index, is reachable from any window
  the constructor accepts.
\<close>

theorem simple_memory_fatal_iff:
  assumes "sm_wf m" and "mrq_ok req"
  shows "sm_run req m = Inl e \<longleftrightarrow> \<not> mrq_legal req \<and> e = ScFatal ''invalid burst transaction''"
proof (cases "mrq_legal req")
  case True
  then show ?thesis using sm_run_spec [OF assms True] by auto
next
  case False
  then have "axi_request_error (mrq_address req) \<noteq> None \<or> mrq_write req \<and> length (mrq_write_beats req) \<noteq> mrq_beats req"
    by (auto simp: mrq_legal_def axi_request_error_None_iff [symmetric])
  then show ?thesis using False by (auto simp: sm_run_def Let_def)
qed

theorem simple_memory_fatal_iff_witness:
  "sm_run (demo_write\<lparr>mrq_write_beats := []\<rparr>) demo_memory = Inl (ScFatal ''invalid burst transaction'')"
proof -
  have "mrq_ok (demo_write\<lparr>mrq_write_beats := []\<rparr>)" by (simp add: mrq_ok_def)
  moreover have "\<not> mrq_legal (demo_write\<lparr>mrq_write_beats := []\<rparr>)"
    by (simp add: mrq_legal_def demo_write_def mrq_beats_def)
  ultimately show ?thesis
    using simple_memory_fatal_iff [OF demo_memory_wf] by blast
qed

text \<open>
  C24: A read that follows an accepted write of the same burst returns, for every address of the
  burst and on the bus lane of that address, the written byte where the strobe was set and the old byte
  elsewhere, with OKAY in every beat.
\<close>

theorem simple_memory_read_after_write:
  assumes "sm_wf m" and "mrq_ok req" and "mrq_legal req" and "mrq_write req" and "sm_status m req = 0"
    and "covers (mrq_address req) x"
  shows "\<exists>rsp m' rd m''. sm_run req m = Inr (rsp, m') \<and> mrs_resp rsp = 0
    \<and> sm_run (req\<lparr>mrq_write := False, mrq_write_beats := []\<rparr>) m' = Inr (rd, m'')
    \<and> rb_resp (mrs_read_beats rd ! beat_of (mrq_address req) x) = 0
    \<and> rb_data (mrs_read_beats rd ! beat_of (mrq_address req) x) ! (x mod 32)
      = (if strobed req x then written_byte req x else the (mem_view m x))"
proof -
  let ?a = "mrq_address req" and ?r = "req\<lparr>mrq_write := False, mrq_write_beats := []\<rparr>"
  have err: "axi_request_error ?a = None"
    using assms(3) by (simp add: mrq_legal_def axi_request_error_None_iff)
  note st = status_view [OF assms(1) err]
  obtain m' where m': "sm_run req m = Inr (fst (mem_spec req (mem_view m)), m')"
      "mem_view m' = snd (mem_spec req (mem_view m))" "sm_wf m'"
    using sm_run_spec [OF assms(1-3)] by blast
  have ok: "mrq_ok ?r" "mrq_legal ?r"
    using assms(3) by (simp_all add: mrq_ok_def mrq_legal_def)
  obtain m'' where m'': "sm_run ?r m' = Inr (fst (mem_spec ?r (mem_view m')), m'')"
    using sm_run_spec [OF m'(3) ok] by blast
  have v: "mem_view m' = (\<lambda>x. if covers ?a x \<and> strobed req x then Some (written_byte req x) else mem_view m x)"
    using m'(2) assms(4,5) st by (simp add: mem_spec_def Let_def)
  have "ax_lock ?a = 0" "\<forall>x. covers ?a x \<longrightarrow> mem_view m x \<noteq> None"
    using sm_status_ok [OF assms(5)] in_range_view [OF assms(1) err] by simp_all
  then have st': "status_spec ?r (mem_view m') = 0"
    by (auto simp: status_spec_def v)
  note bv = beat_view_covers [OF err assms(6)]
  have nth: "mrs_read_beats (fst (mem_spec ?r (mem_view m'))) ! beat_of ?a x
      = \<lparr>rb_data = beat_view (mem_view m') ?a (beat_of ?a x), rb_resp = 0, rb_user = ax_user ?a\<rparr>"
    using bv(2) by (simp add: mem_spec_def Let_def st' mrq_beats_def del: upt_Suc)
  have "rb_data (mrs_read_beats (fst (mem_spec ?r (mem_view m'))) ! beat_of ?a x) ! (x mod 32)
      = (if strobed req x then written_byte req x else the (mem_view m x))"
    unfolding nth using bv(1) [of "mem_view m'"] assms(6) by (simp add: v)
  moreover have "mrs_resp (fst (mem_spec req (mem_view m))) = 0"
    using assms(5) st by (simp add: mem_spec_def Let_def)
  moreover have "rb_resp (mrs_read_beats (fst (mem_spec ?r (mem_view m'))) ! beat_of ?a x) = 0"
    by (simp add: nth)
  ultimately show ?thesis
    using m'(1) m'' by blast
qed

lemma demo_write_status: "sm_status demo_memory demo_write = 0"
  by code_simp

theorem simple_memory_read_after_write_witness:
  "\<exists>rsp m' rd m''. sm_run demo_write demo_memory = Inr (rsp, m') \<and> mrs_resp rsp = 0
    \<and> sm_run (demo_write\<lparr>mrq_write := False, mrq_write_beats := []\<rparr>) m' = Inr (rd, m'')
    \<and> rb_resp (mrs_read_beats rd ! 1) = 0 \<and> rb_data (mrs_read_beats rd ! 1) ! 17 = 117"
proof -
  have "covers (mrq_address demo_write) 0x1011"
    by (simp add: covers_def demo_write_def AxChannel_init_def burst_bytes_def)
  moreover have "mrq_write demo_write" by (simp add: demo_write_def)
  moreover have "beat_of (mrq_address demo_write) 0x1011 = 1"
    by (simp add: beat_of_def demo_write_def AxChannel_init_def sm_width_def)
  moreover from this have "strobed demo_write 0x1011" "written_byte demo_write 0x1011 = 117"
    by (simp_all add: strobed_def written_byte_def demo_write_def)
  ultimately show ?thesis
    using simple_memory_read_after_write [OF demo_memory_wf demo_write_ok demo_write_legal _ demo_write_status,
        where x = "0x1011"] by simp
qed

end
