(* ===== verification/Aou_Target.thy ===== *)
theory Aou_Target
  imports Ucie_Adapter Packer_Stream
begin

text \<open>
  The storage-side endpoint (axi_StorageStacked/storage_axi/link/aou_target.h): it unpacks inbound flits,
  assembles write bursts, submits whole bursts to the memory, collects the responses and packs them into
  outbound flits together with the credits it returns. \<open>tg_cycle\<close> is one pass of the loop of \<open>run\<close>.
\<close>

section \<open>State\<close>

definition REQUEST_SLOTS :: nat where "REQUEST_SLOTS = 4"
definition WDATA_GRANULES :: nat where "WDATA_GRANULES = 64"
definition MAX_OUTSTANDING :: nat where "MAX_OUTSTANDING = 8"

record Ticket =
  tk_write :: bool
  tk_rp :: u8
  tk_id :: u16
  tk_beats :: nat

record Reply =
  ry_rsp :: SimpleMemResponse
  ry_beat :: nat

record target_stats =
  ts_reads :: nat
  ts_writes :: nat
  ts_read_beats :: nat
  ts_write_beats :: nat
  ts_rx_flits :: nat
  ts_tx_flits :: nat
  ts_rx_spanning :: nat
  ts_tx_spanning :: nat
  ts_response_credit_stalls :: nat
  ts_memory_stalls :: nat
  ts_tx_fifo_stalls :: nat
  ts_max_outstanding :: nat
  ts_max_wdata_granules :: nat

record AouTarget =
  tg_rp_count :: nat
  tg_outstanding :: nat
  tg_next_submit :: nat
  tg_next_reply :: nat
  tg_credits :: CreditManager
  tg_decoder :: AouStreamDecoder
  tg_writes :: "nat \<Rightarrow> SimpleMemRequest list"
  tg_reads :: "nat \<Rightarrow> SimpleMemRequest list"
  tg_data :: "nat \<Rightarrow> AouMessage list"
  tg_data_granules :: "nat \<Rightarrow> nat"
  tg_read_replies :: "nat \<Rightarrow> Reply list"
  tg_write_replies :: "nat \<Rightarrow> Reply list"
  tg_tickets :: "Ticket list"
  tg_spill :: AouMessage
  tg_spill_offset :: int
  tg_spill_completes :: bool
  tg_trace_id :: nat
  tg_stats :: target_stats

record target_ports =
  tp_link_rx :: "FdiFlit sc_fifo"
  tp_link_tx :: "FdiFlit sc_fifo"
  tp_mem_req :: "SimpleMemRequest sc_fifo"
  tp_mem_rsp :: "SimpleMemResponse sc_fifo"

definition target_capacity :: "nat \<Rightarrow> CreditMatrix res" where
  "target_capacity count =
     (if count < 1 \<or> count > MAX_RESOURCE_PLANES then Inl (InvalidArgument ''Target RP count must be 1..4'')
      else Inr (fold (\<lambda>rp c.
        mat_set (mat_set (mat_set c rp (credit_kind_index CreditKind.WriteReq) (REQUEST_SLOTS * nat WREQ_GRANULES))
          rp (credit_kind_index CreditKind.ReadReq) (REQUEST_SLOTS * nat RREQ_GRANULES))
          rp (credit_kind_index CreditKind.WriteData) WDATA_GRANULES) [0..<count] clear_matrix))"

definition AouTarget_new :: "Config \<Rightarrow> nat \<Rightarrow> AouTarget res" where
  "AouTarget_new cfg rp_count =
     rbind (target_capacity rp_count) (\<lambda>cap.
     rbind (CreditManager_new rp_count cap) (\<lambda>credits.
     rbind (require_aou_ucie_config cfg) (\<lambda>_.
       Inr \<lparr>tg_rp_count = rp_count, tg_outstanding = 0, tg_next_submit = 0, tg_next_reply = 0,
         tg_credits = credits, tg_decoder = sd_reset, tg_writes = (\<lambda>_. []), tg_reads = (\<lambda>_. []),
         tg_data = (\<lambda>_. []), tg_data_granules = (\<lambda>_. 0), tg_read_replies = (\<lambda>_. []),
         tg_write_replies = (\<lambda>_. []), tg_tickets = [], tg_spill = AouMessage_init, tg_spill_offset = 0,
         tg_spill_completes = False, tg_trace_id = 0,
         tg_stats = \<lparr>ts_reads = 0, ts_writes = 0, ts_read_beats = 0, ts_write_beats = 0, ts_rx_flits = 0,
           ts_tx_flits = 0, ts_rx_spanning = 0, ts_tx_spanning = 0, ts_response_credit_stalls = 0,
           ts_memory_stalls = 0, ts_tx_fifo_stalls = 0, ts_max_outstanding = 0, ts_max_wdata_granules = 0\<rparr>\<rparr>)))"

definition tg_idle :: "AouTarget \<Rightarrow> bool" where
  "tg_idle t = (if tg_outstanding t \<noteq> 0 \<or> tg_spill_offset t \<noteq> 0 \<or> carry_active (tg_decoder t)
        \<or> has_pending_returns (tg_credits t) then False
     else list_all (\<lambda>rp. tg_writes t rp = [] \<and> tg_reads t rp = [] \<and> tg_data t rp = []) [0..<tg_rp_count t])"

section \<open>Receiving\<close>

definition tg_require :: "bool \<Rightarrow> string \<Rightarrow> 'a res \<Rightarrow> 'a res" where
  "tg_require ok what r = (if ok then r else Inl (RuntimeError what))"

definition tg_release :: "nat \<Rightarrow> CreditKind \<Rightarrow> nat \<Rightarrow> AouTarget \<Rightarrow> AouTarget" where
  "tg_release rp kind n t = t\<lparr>tg_credits :=
     return_rx_credit \<lparr>cu_rp = of_nat rp, cu_kind = kind, cu_granules = n\<rparr> (tg_credits t)\<rparr>"

definition receive_request :: "AouMessage \<Rightarrow> AouTarget \<Rightarrow> AouTarget res" where
  "receive_request m t =
     (let rp = unat (msg_rp m); wr = (msg_type m = MsgType.WriteReq)
      in case decode_req m of
           None \<Rightarrow> Inl (RuntimeError ''Target request decode'')
         | Some address \<Rightarrow>
             tg_require (axi_request_error address = None) ''Target invalid AXI request''
             (let req = \<lparr>mrq_write = wr, mrq_rp = msg_rp m, mrq_address = address, mrq_write_beats = []\<rparr>
              in if wr then
                   tg_require (length (tg_writes t rp) < REQUEST_SLOTS) ''Target WREQ capacity exceeded''
                     (Inr (t\<lparr>tg_writes := (tg_writes t)(rp := tg_writes t rp @ [req]),
                        tg_stats := (tg_stats t)\<lparr>ts_writes := ts_writes (tg_stats t) + 1\<rparr>\<rparr>))
                 else
                   tg_require (length (tg_reads t rp) < REQUEST_SLOTS) ''Target RREQ capacity exceeded''
                     (Inr (t\<lparr>tg_reads := (tg_reads t)(rp := tg_reads t rp @ [req]),
                        tg_stats := (tg_stats t)\<lparr>ts_reads := ts_reads (tg_stats t) + 1\<rparr>\<rparr>))))"

definition receive_data :: "AouMessage \<Rightarrow> AouTarget \<Rightarrow> AouTarget res" where
  "receive_data m t =
     (let rp = unat (msg_rp m); used = tg_data_granules t rp + nat (msg_granules m)
      in tg_require (used \<le> WDATA_GRANULES) ''Target WDATA capacity exceeded''
           (Inr (t\<lparr>tg_data_granules := (tg_data_granules t)(rp := used), tg_data := (tg_data t)(rp := tg_data t rp @ [m]),
              tg_stats := (tg_stats t)\<lparr>ts_max_wdata_granules := max (ts_max_wdata_granules (tg_stats t)) used,
                ts_write_beats := ts_write_beats (tg_stats t) + 1\<rparr>\<rparr>)))"

definition receive_misc :: "AouMessage \<Rightarrow> AouTarget \<Rightarrow> AouTarget res" where
  "receive_misc m t = (case decode_crdt_grant_message m (tg_rp_count t) of
     None \<Rightarrow> Inl (RuntimeError ''Target unexpected Misc'')
   | Some grants \<Rightarrow> Inr (t\<lparr>tg_credits := fold (\<lambda>(rp, k). add_tx_credit \<lparr>cu_rp = of_nat rp,
        cu_kind = credit_kind_of_index k, cu_granules = grants rp k\<rparr>)
      (List.product [0..<tg_rp_count t] [0..<CREDIT_KIND_COUNT]) (tg_credits t)\<rparr>))"

definition receive_message :: "AouMessage \<Rightarrow> AouTarget \<Rightarrow> AouTarget res" where
  "receive_message m t =
     (if msg_type m = Misc then receive_misc m t
      else tg_require (unat (msg_rp m) < tg_rp_count t) ''Target invalid RP''
        (if msg_type m = MsgType.WriteReq \<or> msg_type m = MsgType.ReadReq then receive_request m t
         else if msg_type m = MsgType.WriteData \<or> msg_type m = MsgType.WriteDataFull then receive_data m t
         else Inl (RuntimeError ''Target received a response instead of a request'')))"

definition receive_flit :: "AouFlit \<Rightarrow> AouTarget \<Rightarrow> AouTarget res" where
  "receive_flit flit t =
     tg_require (flit_fdid flit = 0) ''Target unsupported FDId''
     (let had_carry = carry_active (tg_decoder t)
      in case sd_consume flit (tg_decoder t) of
           (Inl e, d) \<Rightarrow> Inl e
         | (Inr parsed, d) \<Rightarrow>
             let st = tg_stats t;
                 t = t\<lparr>tg_decoder := d, tg_stats := st\<lparr>ts_rx_flits := ts_rx_flits st + 1,
                        ts_rx_spanning := ts_rx_spanning st + (if had_carry then 1 else 0)\<rparr>,
                      tg_credits := fold add_tx_credit (decode_header_credits (flit_msg_credit flit) (tg_rp_count t))
                        (tg_credits t)\<rparr>
             in rfold receive_message (sr_messages parsed) t)"

definition tg_receive :: "AouTarget \<times> target_ports \<Rightarrow> (AouTarget \<times> target_ports) res" where
  "tg_receive tp =
     (let (t, p) = tp
      in case nb_read (tp_link_rx p) of
           (None, q) \<Rightarrow> Inr (t, p\<lparr>tp_link_rx := q\<rparr>)
         | (Some fdi, q) \<Rightarrow>
             tg_require (length (fd_payload fdi) = 250 \<and> fd_valid_bytes fdi = 250) ''Target FDI size''
             (rbind (deserialize_aou (fd_payload fdi)) (\<lambda>flit.
              rbind (receive_flit flit t) (\<lambda>t. Inr (t, p\<lparr>tp_link_rx := q\<rparr>)))))"

section \<open>Assembling, submitting and collecting\<close>

definition burst_complete :: "SimpleMemRequest \<Rightarrow> bool" where
  "burst_complete req \<longleftrightarrow> length (mrq_write_beats req) = mrq_beats req"

definition assemble_plane :: "nat \<Rightarrow> AouTarget \<Rightarrow> AouTarget res" where
  "assemble_plane rp t =
     (case (dropWhile burst_complete (tg_writes t rp), tg_data t rp) of
        (job # rest, m # ms) \<Rightarrow>
          (case decode_write_data m of
             None \<Rightarrow> Inl (RuntimeError ''Target WDATA decode'')
           | Some w \<Rightarrow>
               let beat = \<lparr>wb_data = take AXI_DATA_BYTES (w_data w), wb_strobe = take AXI_DATA_BYTES (w_strb w), wb_user = w_user w\<rparr>;
                   job = job\<lparr>mrq_write_beats := mrq_write_beats job @ [beat]\<rparr>
               in Inr (tg_release rp CreditKind.WriteData (nat (msg_granules m))
                    (t\<lparr>tg_writes := (tg_writes t)(rp := takeWhile burst_complete (tg_writes t rp) @ job # rest),
                       tg_data := (tg_data t)(rp := ms),
                       tg_data_granules := (tg_data_granules t)(rp := tg_data_granules t rp - nat (msg_granules m))\<rparr>)))
      | _ \<Rightarrow> Inr t)"

definition tg_assemble :: "AouTarget \<Rightarrow> AouTarget res" where
  "tg_assemble t = rfold assemble_plane [0..<tg_rp_count t] t"

text \<open>What stands at the head of a submit slot: slot \<open>2 * rp\<close> is a read, \<open>2 * rp + 1\<close> a write.\<close>

definition slot_head :: "AouTarget \<Rightarrow> nat \<Rightarrow> SimpleMemRequest option" where
  "slot_head t slot =
     (if slot mod 2 \<noteq> 0 then
        (case tg_writes t (slot div 2) of [] \<Rightarrow> None | req # _ \<Rightarrow> if burst_complete req then Some req else None)
      else (case tg_reads t (slot div 2) of [] \<Rightarrow> None | req # _ \<Rightarrow> Some req))"

definition submit_slot :: "nat \<Rightarrow> SimpleMemRequest \<Rightarrow> AouTarget \<times> target_ports \<Rightarrow> (AouTarget \<times> target_ports) res" where
  "submit_slot slot req tp =
     (let (t, p) = tp; rp = slot div 2; wr = (slot mod 2 \<noteq> 0);
          (ok, q) = nb_write req (tp_mem_req p)
      in tg_require ok ''Target memory reservation failed''
         (let out = tg_outstanding t + 1;
              t = t\<lparr>tg_tickets := tg_tickets t @ [\<lparr>tk_write = wr, tk_rp = of_nat rp, tk_id = ax_id (mrq_address req),
                     tk_beats = mrq_beats req\<rparr>],
                   tg_outstanding := out,
                   tg_stats := (tg_stats t)\<lparr>ts_max_outstanding := max (ts_max_outstanding (tg_stats t)) out\<rparr>\<rparr>;
              t = (if wr then t\<lparr>tg_writes := (tg_writes t)(rp := tl (tg_writes t rp))\<rparr>
                   else t\<lparr>tg_reads := (tg_reads t)(rp := tl (tg_reads t rp))\<rparr>);
              t = tg_release rp (if wr then CreditKind.WriteReq else CreditKind.ReadReq)
                    (nat (if wr then WREQ_GRANULES else RREQ_GRANULES)) t
          in Inr (t\<lparr>tg_next_submit := (slot + 1) mod (tg_rp_count t * 2)\<rparr>, p\<lparr>tp_mem_req := q\<rparr>)))"

fun submit_scan :: "nat list \<Rightarrow> AouTarget \<times> target_ports \<Rightarrow> (AouTarget \<times> target_ports) res" where
  "submit_scan [] tp = Inr tp"
| "submit_scan (n # ns) tp =
     (let (t, p) = tp; slot = (tg_next_submit t + n) mod (tg_rp_count t * 2)
      in case slot_head t slot of
           None \<Rightarrow> submit_scan ns tp
         | Some req \<Rightarrow>
             if tg_outstanding t = MAX_OUTSTANDING \<or> num_free (tp_mem_req p) = 0
             then Inr (t\<lparr>tg_stats := (tg_stats t)\<lparr>ts_memory_stalls := ts_memory_stalls (tg_stats t) + 1\<rparr>\<rparr>, p)
             else submit_slot slot req tp)"

definition tg_submit :: "AouTarget \<times> target_ports \<Rightarrow> (AouTarget \<times> target_ports) res" where
  "tg_submit tp = submit_scan [0..<tg_rp_count (fst tp) * 2] tp"

definition ticket_matches :: "SimpleMemResponse \<Rightarrow> Ticket \<Rightarrow> bool" where
  "ticket_matches rsp tk \<longleftrightarrow> tk_write tk = mrs_write rsp \<and> tk_rp tk = mrs_rp rsp \<and> tk_id tk = mrs_id rsp"

definition tg_collect :: "AouTarget \<times> target_ports \<Rightarrow> (AouTarget \<times> target_ports) res" where
  "tg_collect tp =
     (let (t, p) = tp
      in case nb_read (tp_mem_rsp p) of
           (None, q) \<Rightarrow> Inr (t, p\<lparr>tp_mem_rsp := q\<rparr>)
         | (Some rsp, q) \<Rightarrow>
             tg_require (unat (mrs_rp rsp) < tg_rp_count t) ''Target response RP''
             (case dropWhile (\<lambda>tk. \<not> ticket_matches rsp tk) (tg_tickets t) of
                [] \<Rightarrow> Inl (RuntimeError ''Target unmatched memory response'')
              | tk # rest \<Rightarrow>
                  tg_require (length (mrs_read_beats rsp) = (if mrs_write rsp then 0 else tk_beats tk)) ''Target response length''
                  (let rp = unat (mrs_rp rsp); ry = \<lparr>ry_rsp = rsp, ry_beat = 0\<rparr>;
                       t = t\<lparr>tg_tickets := takeWhile (\<lambda>tk. \<not> ticket_matches rsp tk) (tg_tickets t) @ rest\<rparr>;
                       t = (if mrs_write rsp
                            then t\<lparr>tg_write_replies := (tg_write_replies t)(rp := tg_write_replies t rp @ [ry])\<rparr>
                            else t\<lparr>tg_read_replies := (tg_read_replies t)(rp := tg_read_replies t rp @ [ry])\<rparr>)
                   in Inr (t, p\<lparr>tp_mem_rsp := q\<rparr>))))"

section \<open>Transmitting\<close>

text \<open>The message of the reply at the head of a queue; a read beat past the end would be undefined.\<close>

definition reply_message :: "bool \<Rightarrow> nat \<Rightarrow> Reply \<Rightarrow> AouMessage res" where
  "reply_message wr rp p =
     (if wr then Inr (build_write_resp (BChannel_init\<lparr>b_id := mrs_id (ry_rsp p), b_user := mrs_user (ry_rsp p),
          b_resp := mrs_resp (ry_rsp p)\<rparr>) (of_nat rp))
      else rbind (arr_at (mrs_read_beats (ry_rsp p)) (ry_beat p)) (\<lambda>b.
        Inr (build_read_data (RChannel_init\<lparr>r_id := mrs_id (ry_rsp p), r_user := rb_user b, r_resp := rb_resp b,
          r_last := (ry_beat p + 1 = length (mrs_read_beats (ry_rsp p))), r_data := rb_data b\<rparr>) (of_nat rp) AXI_DLENGTH)))"

text \<open>
  One entry of the double loop of \<open>next_message\<close>: the queue is popped after a write response or the
  last beat of a read, and otherwise its front moves to the next beat.
\<close>

definition reply_taken :: "bool \<Rightarrow> nat \<Rightarrow> Reply \<Rightarrow> Reply list \<Rightarrow> AouTarget \<Rightarrow> bool \<times> AouTarget" where
  "reply_taken wr rp p rest t =
     (let completes = (wr \<or> ry_beat p + 1 = length (mrs_read_beats (ry_rsp p)));
          queue = (if completes then rest else p\<lparr>ry_beat := ry_beat p + 1\<rparr> # rest);
          t = (if wr then t\<lparr>tg_write_replies := (tg_write_replies t)(rp := queue)\<rparr>
               else t\<lparr>tg_read_replies := (tg_read_replies t)(rp := queue),
                      tg_stats := (tg_stats t)\<lparr>ts_read_beats := ts_read_beats (tg_stats t) + 1\<rparr>\<rparr>)
      in (completes, t\<lparr>tg_next_reply := (rp + 1) mod tg_rp_count t\<rparr>))"

fun reply_scan :: "(bool \<times> nat) list \<Rightarrow> AouTarget \<Rightarrow> ((AouMessage \<times> bool) option \<times> AouTarget) res" where
  "reply_scan [] t = Inr (None, t)"
| "reply_scan ((wr, n) # rest) t =
     (let rp = (tg_next_reply t + n) mod tg_rp_count t
      in case (if wr then tg_write_replies t else tg_read_replies t) rp of
           [] \<Rightarrow> reply_scan rest t
         | p # ps \<Rightarrow>
             rbind (reply_message wr rp p) (\<lambda>msg.
               if \<not> can_consume (tg_credits t) rp (msg_type msg) (nat (msg_granules msg))
               then reply_scan rest (t\<lparr>tg_stats := (tg_stats t)\<lparr>ts_response_credit_stalls :=
                      ts_response_credit_stalls (tg_stats t) + 1\<rparr>\<rparr>)
               else rbind (cm_consume (tg_credits t) rp (msg_type msg) (nat (msg_granules msg))) (\<lambda>c.
                 let (completes, t) = reply_taken wr rp p ps (t\<lparr>tg_credits := c\<rparr>)
                 in Inr (Some (msg, completes), t))))"

definition next_message :: "AouTarget \<Rightarrow> ((AouMessage \<times> bool) option \<times> AouTarget) res" where
  "next_message t = reply_scan (List.product [True, False] [0..<tg_rp_count t]) t"

text \<open>
  The packing loop. Every pass fills at least one of the 48 granules of the flit, so 48 passes are
  enough; running out of fuel is an error of its own, which is shown never to happen.
\<close>

fun transmit_loop :: "nat \<Rightarrow> AouTarget \<times> AouFlit \<Rightarrow> (AouTarget \<times> AouFlit) res" where
  "transmit_loop fuel tf =
     (let (t, f) = tf
      in if tg_spill_offset t \<noteq> 0 \<or> remaining_granules f = 0 then Inr (t, f)
         else case fuel of
                0 \<Rightarrow> Inl (Undefined ''out of fuel'')
              | Suc fuel \<Rightarrow>
                  rbind (next_message t) (\<lambda>(r, t).
                    case r of
                      None \<Rightarrow> Inr (t, f)
                    | Some (m, completes) \<Rightarrow>
                        let (took, f) = pack_fragment f m 0;
                            t = (if took < msg_granules m
                                 then t\<lparr>tg_spill := m, tg_spill_offset := took, tg_spill_completes := completes,
                                        tg_stats := (tg_stats t)\<lparr>ts_tx_spanning := ts_tx_spanning (tg_stats t) + 1\<rparr>\<rparr>
                                 else if completes then t\<lparr>tg_outstanding := tg_outstanding t - 1\<rparr> else t)
                        in transmit_loop fuel (t, f)))"

declare transmit_loop.simps [simp del]

definition transmit_spill :: "AouTarget \<times> AouFlit \<Rightarrow> AouTarget \<times> AouFlit" where
  "transmit_spill tf =
     (let (t, f) = tf
      in if tg_spill_offset t = 0 then (t, f)
         else let (took, f) = pack_fragment f (tg_spill t) (tg_spill_offset t);
                  t = t\<lparr>tg_spill_offset := tg_spill_offset t + took\<rparr>
              in (if tg_spill_offset t = msg_granules (tg_spill t)
                  then t\<lparr>tg_spill_offset := 0,
                         tg_outstanding := (if tg_spill_completes t then tg_outstanding t - 1 else tg_outstanding t)\<rparr>
                  else t, f))"

definition tg_transmit :: "nat \<Rightarrow> AouTarget \<times> target_ports \<Rightarrow> (AouTarget \<times> target_ports) res" where
  "tg_transmit now tp =
     (let (t, p) = tp
      in if num_free (tp_link_tx p) = 0
         then Inr (t\<lparr>tg_stats := (tg_stats t)\<lparr>ts_tx_fifo_stalls := ts_tx_fifo_stalls (tg_stats t) + 1\<rparr>\<rparr>, p)
         else
           rbind (transmit_loop 48 (transmit_spill (t, AouFlit_init))) (\<lambda>(t, f).
             let (credit, c) = take_header_grant (tg_credits t);
                 f = f\<lparr>flit_msg_credit := credit\<rparr>; t = t\<lparr>tg_credits := c\<rparr>
             in if flit_used_granules f = 0 \<and> credit = 0 then Inr (t, p)
                else
                  rbind (serialize_aou f) (\<lambda>bytes.
                    let (ok, q) = nb_write (fdi_of_bytes Response (tg_trace_id t) now bytes) (tp_link_tx p)
                    in tg_require ok ''Target TX reservation failed''
                         (Inr (t\<lparr>tg_trace_id := tg_trace_id t + 1,
                             tg_stats := (tg_stats t)\<lparr>ts_tx_flits := ts_tx_flits (tg_stats t) + 1\<rparr>\<rparr>,
                           p\<lparr>tp_link_tx := q\<rparr>)))))"

section \<open>One clock cycle\<close>

definition tg_start :: "AouTarget \<Rightarrow> AouTarget" where
  "tg_start t = t\<lparr>tg_credits := publish_initial_capacity (tg_credits t)\<rparr>"

definition tg_cycle :: "nat \<Rightarrow> bool \<Rightarrow> AouTarget \<times> target_ports \<Rightarrow> (AouTarget \<times> target_ports) res" where
  "tg_cycle now rst_n tp =
     report_fatal (tg_require rst_n ''Target hot reset requires complete link reconstruction''
       (rbind (tg_receive tp) (\<lambda>tp.
        rbind (tg_collect tp) (\<lambda>tp.
        rbind (tg_assemble (fst tp)) (\<lambda>t.
        rbind (tg_submit (t, snd tp)) (tg_transmit now))))))"

end
