(* ===== verification/Target_Correct.thy ===== *)
theory Target_Correct
  imports Aou_Target Flit_Unpacker
begin

text \<open>
  The transmit side of the storage endpoint: every response collected from the memory leaves as its
  messages, in order, and the count of outstanding transactions is exact.
\<close>

section \<open>The messages of a response\<close>

definition read_message :: "nat \<Rightarrow> SimpleMemResponse \<Rightarrow> nat \<Rightarrow> AouMessage" where
  "read_message rp rsp i = (let b = mrs_read_beats rsp ! i in
     build_read_data (RChannel_init\<lparr>r_id := mrs_id rsp, r_user := rb_user b, r_resp := rb_resp b,
       r_last := (i + 1 = length (mrs_read_beats rsp)), r_data := rb_data b\<rparr>) (of_nat rp) AXI_DLENGTH)"

definition reply_msgs :: "bool \<Rightarrow> nat \<Rightarrow> SimpleMemResponse \<Rightarrow> AouMessage list" where
  "reply_msgs wr rp rsp =
     (if wr then [build_write_resp (BChannel_init\<lparr>b_id := mrs_id rsp, b_user := mrs_user rsp, b_resp := mrs_resp rsp\<rparr>) (of_nat rp)]
      else map (read_message rp rsp) [0..<length (mrs_read_beats rsp)])"

definition mrs_ok :: "SimpleMemResponse \<Rightarrow> bool" where
  "mrs_ok rsp \<longleftrightarrow> (\<forall>b \<in> set (mrs_read_beats rsp). length (rb_data b) = 32)"

definition reply_ok :: "bool \<Rightarrow> Reply \<Rightarrow> bool" where
  "reply_ok wr p \<longleftrightarrow> mrs_ok (ry_rsp p) \<and> ry_beat p < length (reply_msgs wr 0 (ry_rsp p))"

definition remaining :: "bool \<Rightarrow> nat \<Rightarrow> Reply \<Rightarrow> AouMessage list" where
  "remaining wr rp p = drop (ry_beat p) (reply_msgs wr rp (ry_rsp p))"

definition cls :: "bool \<Rightarrow> rclass" where
  "cls wr = (if wr then WResp else RData)"

lemma length_reply_msgs: "length (reply_msgs wr rp rsp) = length (reply_msgs wr 0 rsp)"
  by (simp add: reply_msgs_def)

lemma reply_message_eq:
  assumes "reply_ok wr p"
  shows "reply_message wr rp p = Inr (reply_msgs wr rp (ry_rsp p) ! ry_beat p)"
  using assms by (cases wr) (simp_all add: reply_message_def reply_ok_def reply_msgs_def arr_at_def read_message_def Let_def)

lemma reply_complete:
  assumes "reply_ok wr p"
  shows "(wr \<or> ry_beat p + 1 = length (mrs_read_beats (ry_rsp p)))
    \<longleftrightarrow> ry_beat p + 1 = length (reply_msgs wr rp (ry_rsp p))"
  using assms by (cases wr) (simp_all add: reply_ok_def reply_msgs_def)

lemma u8_plane: "rp < 4 \<Longrightarrow> unat (of_nat rp AND 3 :: u8) = rp"
  by (auto simp: less_4_cases)

lemma reply_msg_wf:
  assumes "reply_ok wr p" and "rp < 4"
  defines "m \<equiv> reply_msgs wr rp (ry_rsp p) ! ry_beat p"
  shows "msg_wf m" "for_resp c rp' (wire_msg m) \<longleftrightarrow> c = cls wr \<and> rp' = rp"
proof -
  have "msg_wf m \<and> msg_type m = rtype (cls wr) \<and> msg_rp m = of_nat rp AND 3"
  proof (cases wr)
    case True
    then have "m = build_write_resp (BChannel_init\<lparr>b_id := mrs_id (ry_rsp p), b_user := mrs_user (ry_rsp p),
        b_resp := mrs_resp (ry_rsp p)\<rparr>) (of_nat rp)"
      using assms(1) by (simp add: m_def reply_msgs_def reply_ok_def)
    then show ?thesis
      using True by (simp add: cls_def build_write_resp_wf) (simp add: build_write_resp_def)
  next
    case False
    let ?b = "mrs_read_beats (ry_rsp p) ! ry_beat p"
    have i: "ry_beat p < length (mrs_read_beats (ry_rsp p))"
      using False assms(1) by (simp add: reply_msgs_def reply_ok_def)
    then have "length (rb_data ?b) = 32"
      using assms(1) by (simp add: reply_ok_def mrs_ok_def)
    moreover have "m = read_message rp (ry_rsp p) (ry_beat p)"
      using False i by (simp add: m_def reply_msgs_def)
    ultimately show ?thesis
      using False by (simp add: read_message_def Let_def cls_def)
        (simp add: build_read_data_wf r_ok_def, simp add: build_read_data_def)
  qed
  then have w: "msg_wf m" "msg_type m = rtype (cls wr)" "msg_rp m = of_nat rp AND 3" by simp_all
  show "msg_wf m" by (rule w(1))
  have "msg_type m \<noteq> Misc"
    using w(2) by (cases wr) (simp_all add: cls_def)
  then have "msg_rp (wire_msg m) = of_nat rp AND 3" "msg_type (wire_msg m) = rtype (cls wr)"
    using w by (simp_all add: wire_msg_def msg_wf_def)
  then show "for_resp c rp' (wire_msg m) \<longleftrightarrow> c = cls wr \<and> rp' = rp"
    using u8_plane [OF assms(2)] by (cases c; cases wr) (auto simp: for_resp_def cls_def)
qed

lemma remaining_step:
  fixes rp :: nat
  assumes "reply_ok wr p"
  defines "m \<equiv> reply_msgs wr rp (ry_rsp p) ! ry_beat p"
  shows "ry_beat p + 1 = length (reply_msgs wr rp (ry_rsp p)) \<Longrightarrow> remaining wr rp p = [m]"
    and "ry_beat p + 1 \<noteq> length (reply_msgs wr rp (ry_rsp p)) \<Longrightarrow>
      remaining wr rp p = m # remaining wr rp (p\<lparr>ry_beat := ry_beat p + 1\<rparr>) \<and> reply_ok wr (p\<lparr>ry_beat := ry_beat p + 1\<rparr>)"
proof -
  have i: "ry_beat p < length (reply_msgs wr rp (ry_rsp p))"
    using assms(1) length_reply_msgs [of wr rp] by (simp add: reply_ok_def)
  have d: "remaining wr rp p = m # drop (ry_beat p + 1) (reply_msgs wr rp (ry_rsp p))"
    using i by (simp add: remaining_def m_def Cons_nth_drop_Suc)
  then show "ry_beat p + 1 = length (reply_msgs wr rp (ry_rsp p)) \<Longrightarrow> remaining wr rp p = [m]"
    by simp
  show "ry_beat p + 1 \<noteq> length (reply_msgs wr rp (ry_rsp p)) \<Longrightarrow>
      remaining wr rp p = m # remaining wr rp (p\<lparr>ry_beat := ry_beat p + 1\<rparr>) \<and> reply_ok wr (p\<lparr>ry_beat := ry_beat p + 1\<rparr>)"
    using d i assms(1) length_reply_msgs [of wr rp] by (simp add: remaining_def reply_ok_def)
qed

section \<open>Selecting the next message\<close>

definition tg_queue :: "bool \<Rightarrow> AouTarget \<Rightarrow> nat \<Rightarrow> Reply list" where
  "tg_queue wr t = (if wr then tg_write_replies t else tg_read_replies t)"

text \<open>The part of the state that selecting a message leaves alone.\<close>

definition tg_core :: "AouTarget \<Rightarrow> _" where
  "tg_core t = (tg_rp_count t, tg_outstanding t, tg_tickets t, tg_spill t, tg_spill_offset t, tg_spill_completes t,
     tg_writes t, tg_reads t, (tg_data t, tg_data_granules t, tg_decoder t, tg_next_submit t, tg_trace_id t,
     cm_rp_count (tg_credits t), cm_rx_pending_return (tg_credits t), cm_rx_capacity (tg_credits t)))"

definition scan_post :: "AouTarget \<Rightarrow> (AouMessage \<times> bool) option \<Rightarrow> AouTarget \<Rightarrow> bool" where
  "scan_post t r t' \<longleftrightarrow> tg_core t' = tg_core t \<and> (case r of
     None \<Rightarrow> (\<forall>wr. tg_queue wr t' = tg_queue wr t)
   | Some (m, completes) \<Rightarrow> \<exists>wr rp p ps. rp < tg_rp_count t \<and> tg_queue wr t rp = p # ps
       \<and> m = reply_msgs wr rp (ry_rsp p) ! ry_beat p
       \<and> completes = (ry_beat p + 1 = length (reply_msgs wr rp (ry_rsp p)))
       \<and> (\<forall>wr'. tg_queue wr' t' = (if wr' = wr then (tg_queue wr t)(rp := if completes then ps else p\<lparr>ry_beat := ry_beat p + 1\<rparr> # ps)
            else tg_queue wr' t)))"

definition queues_ok :: "AouTarget \<Rightarrow> bool" where
  "queues_ok t \<longleftrightarrow> 0 < tg_rp_count t \<and> tg_rp_count t \<le> 4 \<and> cm_rp_count (tg_credits t) = tg_rp_count t
     \<and> (\<forall>wr. \<forall>rp < tg_rp_count t. list_all (reply_ok wr) (tg_queue wr t rp))"

lemma tg_core_stats: "tg_core (t\<lparr>tg_stats := x\<rparr>) = tg_core t" "tg_queue wr (t\<lparr>tg_stats := x\<rparr>) = tg_queue wr t"
  by (simp_all add: tg_core_def tg_queue_def)

lemma cm_consume_frame:
  assumes "can_consume c rp ty g"
  obtains c' where "cm_consume c rp ty g = Inr c'" "cm_rp_count c' = cm_rp_count c"
    "cm_rx_pending_return c' = cm_rx_pending_return c" "cm_rx_capacity c' = cm_rx_capacity c"
  using assms by (auto simp: can_consume_def cm_consume_def Let_def rassert_def split: if_splits)

lemma reply_scan_ok: "queues_ok t \<Longrightarrow> \<exists>r t'. reply_scan ns t = Inr (r, t') \<and> scan_post t r t'"
proof (induction ns arbitrary: t)
  case Nil
  then show ?case by (simp add: scan_post_def)
next
  case (Cons wn rest)
  note IH = Cons.IH and prem = Cons.prems
  obtain wr n where wn: "wn = (wr, n)" by (cases wn)
  let ?rp = "(tg_next_reply t + n) mod tg_rp_count t"
  have rp: "?rp < tg_rp_count t" and n4: "tg_rp_count t \<le> 4"
    using prem by (simp_all add: queues_ok_def)
  have "\<exists>r t'. reply_scan ((wr, n) # rest) t = Inr (r, t') \<and> scan_post t r t'"
  proof (cases "tg_queue wr t ?rp")
    case Nil
    then have "reply_scan ((wr, n) # rest) t = reply_scan rest t"
      by (simp add: tg_queue_def Let_def)
    with IH [OF prem] show ?thesis
      by (simp only:)
  next
    case (Cons p ps)
    have ok: "reply_ok wr p"
      using prem rp Cons by (auto simp: queues_ok_def dest!: spec [of _ wr] spec [of _ ?rp])
    let ?m = "reply_msgs wr ?rp (ry_rsp p) ! ry_beat p"
    let ?g = "nat (msg_granules ?m)"
    show ?thesis
    proof (cases "can_consume (tg_credits t) ?rp (msg_type ?m) ?g")
      case False
      let ?t1 = "t\<lparr>tg_stats := (tg_stats t)\<lparr>ts_response_credit_stalls := ts_response_credit_stalls (tg_stats t) + 1\<rparr>\<rparr>"
      have "reply_scan ((wr, n) # rest) t = reply_scan rest ?t1"
        using Cons False by (simp add: tg_queue_def Let_def reply_message_eq [OF ok])
      moreover have "queues_ok ?t1"
        using prem by (simp add: queues_ok_def tg_core_stats)
      then have "\<exists>r t'. reply_scan rest ?t1 = Inr (r, t') \<and> scan_post ?t1 r t'"
        by (rule IH)
      moreover have "scan_post ?t1 r t' \<longleftrightarrow> scan_post t r t'" for r t'
        by (simp add: scan_post_def tg_core_stats split: option.split)
      ultimately show ?thesis
        by (simp only:)
    next
      case True
      then obtain c where c: "cm_consume (tg_credits t) ?rp (msg_type ?m) ?g = Inr c" "cm_rp_count c = cm_rp_count (tg_credits t)"
        "cm_rx_pending_return c = cm_rx_pending_return (tg_credits t)" "cm_rx_capacity c = cm_rx_capacity (tg_credits t)"
        by (rule cm_consume_frame)
      define t1 where "t1 = t\<lparr>tg_credits := c\<rparr>"
      have r: "reply_scan ((wr, n) # rest) t = (let (completes, t') = reply_taken wr ?rp p ps t1 in Inr (Some (?m, completes), t'))"
        using Cons True c(1) by (simp add: tg_queue_def Let_def reply_message_eq [OF ok] t1_def)
      have "scan_post t (Some (?m, fst (reply_taken wr ?rp p ps t1))) (snd (reply_taken wr ?rp p ps t1))"
      proof -
        have core: "tg_core (snd (reply_taken wr ?rp p ps t1)) = tg_core t"
          by (simp add: reply_taken_def Let_def tg_core_def t1_def c)
        have comp: "fst (reply_taken wr ?rp p ps t1) = (ry_beat p + 1 = length (reply_msgs wr ?rp (ry_rsp p)))"
          using reply_complete [OF ok, of ?rp] by (simp add: reply_taken_def Let_def)
        have q: "tg_queue wr' (snd (reply_taken wr ?rp p ps t1)) = (if wr' = wr then (tg_queue wr t)(?rp :=
            if fst (reply_taken wr ?rp p ps t1) then ps else p\<lparr>ry_beat := ry_beat p + 1\<rparr> # ps) else tg_queue wr' t)" for wr'
          by (cases wr; cases wr') (simp_all add: reply_taken_def Let_def tg_queue_def t1_def)
        show ?thesis
          unfolding scan_post_def option.case prod.case
          using core comp q rp Cons by (intro conjI exI [of _ wr] exI [of _ ?rp] exI [of _ p] exI [of _ ps]) blast+
      qed
      then show ?thesis
        unfolding r by (cases "reply_taken wr ?rp p ps t1") simp
    qed
  qed
  then show ?case by (simp only: wn)
qed


section \<open>The transmit invariant\<close>

text \<open>
  The flit under construction and the cut message, seen as those of a packer, so that the stream
  invariant of the packer applies.
\<close>

definition tg_view :: "AouTarget \<Rightarrow> AouFlit \<Rightarrow> FlitPacker" where
  "tg_view t f = (projr (FlitPacker_new 1 0 0 0))\<lparr>pk_cur_flit := f, pk_output_active := False,
     pk_spill_active := tg_spill_offset t \<noteq> 0, pk_spill_msg := tg_spill t, pk_spill_done := tg_spill_offset t\<rparr>"

lemma tg_view_simps [simp]:
  "pk_cur_flit (tg_view t f) = f" "out_reg (tg_view t f) = []" "pk_output_active (tg_view t f) = False"
  "pk_spill_active (tg_view t f) = (tg_spill_offset t \<noteq> 0)" "pk_spill_msg (tg_view t f) = tg_spill t"
  "pk_spill_done (tg_view t f) = tg_spill_offset t"
  by (simp_all add: tg_view_def out_reg_def)

definition tg_replies :: "AouTarget \<Rightarrow> nat" where
  "tg_replies t = (\<Sum>x \<in> UNIV \<times> {..<tg_rp_count t}. length (tg_queue (fst x) t (snd x)))"

definition tg_open :: "AouTarget \<Rightarrow> nat" where
  "tg_open t = length (tg_tickets t) + tg_replies t + (if tg_spill_offset t \<noteq> 0 \<and> tg_spill_completes t then 1 else 0)"

type_synonym collected = "bool \<Rightarrow> nat \<Rightarrow> SimpleMemResponse list"

definition tg_answers :: "AouTarget \<Rightarrow> AouMessage list \<Rightarrow> collected \<Rightarrow> bool" where
  "tg_answers t G Col \<longleftrightarrow> (\<forall>wr. \<forall>rp < tg_rp_count t. map wire_msg (concat (map (reply_msgs wr rp) (Col wr rp)))
     = filter (for_resp (cls wr) rp) G @ map wire_msg (concat (map (remaining wr rp) (tg_queue wr t rp))))"

definition tg_out :: "AouTarget \<Rightarrow> AouFlit \<Rightarrow> AouFlit list \<Rightarrow> AouMessage list \<Rightarrow> collected \<Rightarrow> bool" where
  "tg_out t f fs G Col \<longleftrightarrow> queues_ok t \<and> pk_stream (tg_view t f) fs G \<and> tg_answers t G Col
     \<and> tg_outstanding t = tg_open t"

lemma sum_update:
  fixes g h :: "'x \<Rightarrow> nat"
  assumes "finite A" and "a \<in> A" and "\<And>x. x \<in> A \<Longrightarrow> x \<noteq> a \<Longrightarrow> g x = h x"
  shows "sum g A + h a = sum h A + g a"
  using sum.remove [OF assms(1,2), of g] sum.remove [OF assms(1,2), of h] assms(3)
    sum.cong [of "A - {a}" "A - {a}" g h] by simp

lemma replies_update:
  assumes "rp < tg_rp_count t" and "tg_rp_count t' = tg_rp_count t"
    and "\<And>wr'. tg_queue wr' t' = (if wr' = wr then (tg_queue wr t)(rp := qs) else tg_queue wr' t)"
  shows "tg_replies t' + length (tg_queue wr t rp) = tg_replies t + length qs"
proof -
  let ?A = "(UNIV :: bool set) \<times> {..<tg_rp_count t}"
  have "sum (\<lambda>x. length (tg_queue (fst x) t' (snd x))) ?A + length (tg_queue (fst (wr, rp)) t (snd (wr, rp)))
      = sum (\<lambda>x. length (tg_queue (fst x) t (snd x))) ?A + length (tg_queue (fst (wr, rp)) t' (snd (wr, rp)))"
  proof (rule sum_update)
    show "x \<noteq> (wr, rp) \<Longrightarrow> length (tg_queue (fst x) t' (snd x)) = length (tg_queue (fst x) t (snd x))" for x
      by (cases x) (auto simp: assms(3))
  qed (use assms(1) in simp_all)
  then show ?thesis
    by (simp add: tg_replies_def assms(2,3))
qed

lemma tg_core_eqD:
  assumes "tg_core t' = tg_core t"
  shows "tg_rp_count t' = tg_rp_count t" "tg_outstanding t' = tg_outstanding t" "tg_tickets t' = tg_tickets t"
    "tg_spill t' = tg_spill t" "tg_spill_offset t' = tg_spill_offset t" "tg_spill_completes t' = tg_spill_completes t"
    "tg_writes t' = tg_writes t" "tg_reads t' = tg_reads t" "tg_data t' = tg_data t"
    "tg_data_granules t' = tg_data_granules t" "tg_decoder t' = tg_decoder t"
    "tg_next_submit t' = tg_next_submit t" "tg_trace_id t' = tg_trace_id t"
    "cm_rp_count (tg_credits t') = cm_rp_count (tg_credits t)"
    "cm_rx_pending_return (tg_credits t') = cm_rx_pending_return (tg_credits t)"
    "cm_rx_capacity (tg_credits t') = cm_rx_capacity (tg_credits t)"
  using assms by (simp_all add: tg_core_def)

lemma tg_view_cong:
  "tg_spill t' = tg_spill t \<Longrightarrow> tg_spill_offset t' = tg_spill_offset t \<Longrightarrow> tg_view t' f = tg_view t f"
  by (simp add: tg_view_def)

lemma tg_out_same:
  assumes "tg_out t f fs G Col" and "tg_core t' = tg_core t" and "\<And>wr. tg_queue wr t' = tg_queue wr t"
  shows "tg_out t' f fs G Col"
  using assms(1) tg_view_cong [of t' t f] unfolding tg_out_def queues_ok_def tg_answers_def tg_open_def tg_replies_def
  by (simp add: tg_core_eqD [OF assms(2)] assms(3))

text \<open>What taking a message from the head of a queue does to the queues and to the account of answers.\<close>

lemma scan_post_take:
  assumes ok: "queues_ok t" and ans: "tg_answers t G Col" and post: "scan_post t (Some (m, c)) t'"
  shows "queues_ok t'" "tg_answers t' (G @ [wire_msg m]) Col" "msg_wf m"
    "tg_replies t = tg_replies t' + (if c then 1 else 0)"
proof -
  from post obtain wr rp p ps where core: "tg_core t' = tg_core t" and rp: "rp < tg_rp_count t"
    and q: "tg_queue wr t rp = p # ps" and m: "m = reply_msgs wr rp (ry_rsp p) ! ry_beat p"
    and c: "c = (ry_beat p + 1 = length (reply_msgs wr rp (ry_rsp p)))"
    and q': "\<And>wr'. tg_queue wr' t' = (if wr' = wr then (tg_queue wr t)(rp := if c then ps else p\<lparr>ry_beat := ry_beat p + 1\<rparr> # ps)
            else tg_queue wr' t)"
    by (auto simp: scan_post_def)
  have all: "\<And>wr rp. rp < tg_rp_count t \<Longrightarrow> list_all (reply_ok wr) (tg_queue wr t rp)" and n4: "rp < 4"
    using ok rp by (auto simp: queues_ok_def)
  have pok: "reply_ok wr p" and psok: "list_all (reply_ok wr) ps"
    using all [OF rp, of wr] q by simp_all
  note st = remaining_step [OF pok, of rp, folded m]
  note wf = reply_msg_wf [OF pok n4, folded m]
  show "msg_wf m" by (rule wf(1))
  have "list_all (reply_ok wr) (if c then ps else p\<lparr>ry_beat := ry_beat p + 1\<rparr> # ps)"
    using psok st(2) c by simp
  then have "list_all (reply_ok wr') (tg_queue wr' t' rp')" if "rp' < tg_rp_count t" for wr' rp'
    using all [OF that, of wr'] by (auto simp: q')
  then show "queues_ok t'"
    using ok by (simp add: queues_ok_def tg_core_eqD [OF core])
  have "concat (map (remaining wr rp) (tg_queue wr t rp)) = m # concat (map (remaining wr rp) (tg_queue wr t' rp))"
    using st c by (simp add: q q')
  then have "map wire_msg (concat (map (reply_msgs wr' rp') (Col wr' rp'))) = filter (for_resp (cls wr') rp') (G @ [wire_msg m])
      @ map wire_msg (concat (map (remaining wr' rp') (tg_queue wr' t' rp')))" if "rp' < tg_rp_count t" for wr' rp'
    using ans [unfolded tg_answers_def, rule_format, OF that, of wr'] wf(2) [of "cls wr'" rp']
    by (cases "wr' = wr \<and> rp' = rp") (auto simp: q' cls_def split: if_splits)
  then show "tg_answers t' (G @ [wire_msg m]) Col"
    by (simp add: tg_answers_def tg_core_eqD(1) [OF core])
  show "tg_replies t = tg_replies t' + (if c then 1 else 0)"
    using replies_update [OF rp tg_core_eqD(1) [OF core] q'] q by (simp split: if_splits)
qed


section \<open>The packing loop\<close>

definition tg_rest :: "AouTarget \<Rightarrow> _" where
  "tg_rest t = (tg_rp_count t, tg_tickets t, tg_writes t, tg_reads t, tg_data t, tg_data_granules t,
     (tg_decoder t, tg_next_submit t, tg_trace_id t, cm_rp_count (tg_credits t),
     cm_rx_pending_return (tg_credits t), cm_rx_capacity (tg_credits t)))"

lemma tg_rest_core: "tg_core t' = tg_core t \<Longrightarrow> tg_rest t' = tg_rest t"
  by (simp add: tg_core_def tg_rest_def)

lemma stream_flit_ok: "pk_stream s fs G \<Longrightarrow> 0 \<le> flit_used_granules (pk_cur_flit s) \<and> flit_used_granules (pk_cur_flit s) \<le> 48"
  by (auto simp: pk_stream_def flit_holds_def flit_ok_def)

lemma transmit_pack:
  assumes out: "tg_out t f fs G Col" and off: "tg_spill_offset t = 0" and u: "flit_used_granules f < 48"
    and post: "scan_post t (Some (m, c)) t1"
  obtains took f' where "pack_fragment f m 0 = (int took, f')" "0 < took"
    "flit_used_granules f' = flit_used_granules f + int took"
    "tg_out (if int took < msg_granules m then t1\<lparr>tg_spill := m, tg_spill_offset := int took, tg_spill_completes := c,
        tg_stats := (tg_stats t1)\<lparr>ts_tx_spanning := ts_tx_spanning (tg_stats t1) + 1\<rparr>\<rparr>
      else if c then t1\<lparr>tg_outstanding := tg_outstanding t1 - 1\<rparr> else t1) f' fs (G @ [wire_msg m]) Col"
proof -
  have core: "tg_core t1 = tg_core t"
    using post by (simp add: scan_post_def)
  note ce = tg_core_eqD [OF core]
  have out': "queues_ok t" "pk_stream (tg_view t f) fs G" "tg_answers t G Col" "tg_outstanding t = tg_open t"
    using out by (simp_all add: tg_out_def)
  note tk = scan_post_take [OF out'(1,3) post]
  have wf: "msg_granules m = int (gran m)"
    using msg_wfD(5) [OF tk(3)] .
  have "\<not> pk_spill_active (tg_view t f)" "flit_used_granules (pk_cur_flit (tg_view t f)) < 48"
    using off u by simp_all
  from pk_stream_pack [OF out'(2) this tk(3)] obtain took f' where
    pk: "pack_fragment f m 0 = (int took, f')" "0 < took" "took \<le> gran m"
    and str: "\<And>s'. pk_cur_flit s' = f' \<Longrightarrow> out_reg s' = [] \<Longrightarrow> (pk_spill_active s' \<longrightarrow> 0 \<le> pk_spill_done s') \<Longrightarrow>
       spill_of s' = (if took = gran m then None else Some (m, took)) \<Longrightarrow> pk_stream s' fs (G @ [wire_msg m])"
    by (auto simp del: tg_view_simps(1,2) simp: tg_view_simps(1,2))
  have used: "flit_used_granules f' = flit_used_granules f + int took"
  proof -
    obtain ss where "flit_holds f ss"
      using out'(2) by (auto simp: pk_stream_def)
    moreover have "used f < 48"
      using u by linarith
    ultimately show ?thesis
      using pack_fragment_holds [of f ss m 0] msg_wfD(1,3) [OF tk(3)] pk(1) by fastforce
  qed
  let ?t = "if int took < msg_granules m then t1\<lparr>tg_spill := m, tg_spill_offset := int took, tg_spill_completes := c,
        tg_stats := (tg_stats t1)\<lparr>ts_tx_spanning := ts_tx_spanning (tg_stats t1) + 1\<rparr>\<rparr>
      else if c then t1\<lparr>tg_outstanding := tg_outstanding t1 - 1\<rparr> else t1"
  have q: "tg_queue wr ?t = tg_queue wr t1" "tg_rp_count ?t = tg_rp_count t1" "tg_credits ?t = tg_credits t1"
      "tg_tickets ?t = tg_tickets t1" for wr
    by (simp_all add: tg_queue_def)
  have "pk_stream (tg_view ?t f') fs (G @ [wire_msg m])"
    by (rule str) (use off ce(5) pk(2,3) wf in \<open>auto simp: spill_of_def\<close>)
  moreover have "queues_ok ?t"
    using tk(1) unfolding queues_ok_def q by simp
  moreover have "tg_answers ?t (G @ [wire_msg m]) Col"
    using tk(2) by (simp only: tg_answers_def q)
  moreover have "tg_outstanding ?t = tg_open ?t"
  proof -
    have "tg_replies ?t = tg_replies t1"
      by (simp only: tg_replies_def q)
    moreover have "tg_outstanding t1 = length (tg_tickets t) + tg_replies t1 + (if c then 1 else 0)"
      using out'(4) off tk(4) by (simp add: tg_open_def ce)
    ultimately show ?thesis
      using pk(2) wf ce(5) off unfolding tg_open_def q ce(3) by (simp split: if_splits)
  qed
  ultimately have "tg_out ?t f' fs (G @ [wire_msg m]) Col"
    by (simp only: tg_out_def)
  with pk(1,2) used show thesis
    by (rule that)
qed

lemma transmit_loop_out:
  assumes "tg_out t f fs G Col" and "48 - used f \<le> fuel"
  shows "\<exists>t' f' G'. transmit_loop fuel (t, f) = Inr (t', f') \<and> tg_out t' f' fs G' Col \<and> tg_rest t' = tg_rest t"
  using assms
proof (induction fuel arbitrary: t f G)
  case 0
  then have "0 \<le> flit_used_granules f \<and> flit_used_granules f \<le> 48"
    using stream_flit_ok [of "tg_view t f" fs G] by (simp add: tg_out_def)
  moreover have "48 \<le> used f"
    using 0(2) by simp
  ultimately have "flit_used_granules f = 48"
    by linarith
  then have "remaining_granules f = 0"
    by (simp add: remaining_granules_def aou_consts)
  then have "transmit_loop 0 (t, f) = Inr (t, f)"
    by (subst transmit_loop.simps) simp
  with 0 show ?case by blast
next
  case (Suc fuel)
  have u: "0 \<le> flit_used_granules f \<and> flit_used_granules f \<le> 48"
    using Suc.prems(1) stream_flit_ok [of "tg_view t f" fs G] by (simp add: tg_out_def)
  show ?case
  proof (cases "tg_spill_offset t \<noteq> 0 \<or> remaining_granules f = 0")
    case True
    then have "transmit_loop (Suc fuel) (t, f) = Inr (t, f)"
      by (subst transmit_loop.simps) auto
    with Suc.prems show ?thesis by blast
  next
    case False
    then have off: "tg_spill_offset t = 0" and lt: "flit_used_granules f < 48"
      using u by (auto simp: remaining_granules_def aou_consts)
    have "queues_ok t" using Suc.prems(1) by (simp add: tg_out_def)
    then obtain r t1 where r: "next_message t = Inr (r, t1)" "scan_post t r t1"
      unfolding next_message_def using reply_scan_ok by blast
    have core: "tg_core t1 = tg_core t" using r(2) by (simp add: scan_post_def)
    show ?thesis
    proof (cases r)
      case None
      then have "transmit_loop (Suc fuel) (t, f) = Inr (t1, f)"
        using False r(1) by (subst transmit_loop.simps) simp
      moreover have "tg_out t1 f fs G Col"
        using r(2) None by (intro tg_out_same [OF Suc.prems(1) core]) (simp add: scan_post_def)
      ultimately show ?thesis using tg_rest_core [OF core] by blast
    next
      case (Some mc)
      obtain m c where mc: "mc = (m, c)" by (cases mc)
      let ?t = "\<lambda>took. if int took < msg_granules m then t1\<lparr>tg_spill := m, tg_spill_offset := int took, tg_spill_completes := c,
          tg_stats := (tg_stats t1)\<lparr>ts_tx_spanning := ts_tx_spanning (tg_stats t1) + 1\<rparr>\<rparr>
        else if c then t1\<lparr>tg_outstanding := tg_outstanding t1 - 1\<rparr> else t1"
      obtain took f' where pk: "pack_fragment f m 0 = (int took, f')" "0 < took"
          "flit_used_granules f' = flit_used_granules f + int took" "tg_out (?t took) f' fs (G @ [wire_msg m]) Col"
        using transmit_pack [OF Suc.prems(1) off lt r(2) [unfolded Some mc]] by blast
      have "transmit_loop (Suc fuel) (t, f) = transmit_loop fuel (?t took, f')"
        using False r(1) Some mc pk(1) by (subst transmit_loop.simps) (simp add: Let_def)
      moreover have "48 - used f' \<le> fuel"
        using Suc.prems(2) pk(2,3) u by linarith
      then obtain t' f'' G' where "transmit_loop fuel (?t took, f') = Inr (t', f'')" "tg_out t' f'' fs G' Col"
          "tg_rest t' = tg_rest (?t took)"
        using Suc.IH [OF pk(4)] by blast
      moreover have "tg_rest (?t took) = tg_rest t"
        using tg_rest_core [OF core] by (simp add: tg_rest_def)
      ultimately show ?thesis by auto
    qed
  qed
qed

end
