(* ===== verification/Dram_Spec.thy ===== *)
theory Dram_Spec
  imports Prelude
begin

text \<open>
  The specification of a DRAM device (\<open>core/common.hpp\<close>, \<open>dram/spec.hpp\<close>, \<open>dram/spec.cpp\<close> of
  \<open>mem_sim\<close>): the enumerations, the organisation, the timing parameters in nCK, the table-driven
  timing constraints of the HBM and LPDDR families, the capacity computations with their overflow
  checks, and the validation every consumer of a specification performs first.

  \<open>DramSpec\<close> keeps the integer and enumeration fields that the modelled code reads. The two
  \<open>double\<close> fields (\<open>density_gb\<close>, \<open>tCK_ps\<close>) occur only in three conditions of
  \<open>validate_spec\<close>; the outcomes of these floating-point comparisons are a parameter of the model
  (\<open>FloatChecks\<close>). The string fields (names of profiles and policies) select presets outside this
  part and are left out.
\<close>

section \<open>Enumerations\<close>

datatype RequestType = ReqRead | ReqWrite | ReqMaintenance

datatype Command =
    ACT | ACT1 | ACT2 | PRE | PREPB | PREAB | CASRD | CASWR | RD | WR | RDA | WRA
  | REFAB | REFPB | REFDB | RFMAB | RFMPB | MRW | MRR | WCKSYNC | WCKTRAIN | DVFS
  | PDE | PDX | SREFEN | SREFEX | ECCSCRUB | RASERR | NOP

definition all_commands :: "Command list" where
  "all_commands = [ACT, ACT1, ACT2, PRE, PREPB, PREAB, CASRD, CASWR, RD, WR, RDA, WRA,
     REFAB, REFPB, REFDB, RFMAB, RFMPB, MRW, MRR, WCKSYNC, WCKTRAIN, DVFS,
     PDE, PDX, SREFEN, SREFEX, ECCSCRUB, RASERR, NOP]"

definition kCommandCount :: nat where
  "kCommandCount = 29"

fun command_index :: "Command \<Rightarrow> nat" where
  "command_index ACT = 0" | "command_index ACT1 = 1" | "command_index ACT2 = 2"
| "command_index PRE = 3" | "command_index PREPB = 4" | "command_index PREAB = 5"
| "command_index CASRD = 6" | "command_index CASWR = 7" | "command_index RD = 8"
| "command_index WR = 9" | "command_index RDA = 10" | "command_index WRA = 11"
| "command_index REFAB = 12" | "command_index REFPB = 13" | "command_index REFDB = 14"
| "command_index RFMAB = 15" | "command_index RFMPB = 16" | "command_index MRW = 17"
| "command_index MRR = 18" | "command_index WCKSYNC = 19" | "command_index WCKTRAIN = 20"
| "command_index DVFS = 21" | "command_index PDE = 22" | "command_index PDX = 23"
| "command_index SREFEN = 24" | "command_index SREFEX = 25" | "command_index ECCSCRUB = 26"
| "command_index RASERR = 27" | "command_index NOP = 28"

datatype SchedulerKind = FRFCFS | FCFS

datatype RowPolicyKind = OpenPage | ClosedPage | ClosedCap

datatype AddressMappingKind = MapDefault | RoBaRaCoCh | ChRaBaRoCo | RoCoRaBaCh

datatype LpddrEfficiencyMode = EffNormal | EffStatic | EffDynamic

datatype LpddrWckMode = CasSync | AlwaysOn | BurstSync

datatype MaintenancePolicyKind = PerBank | AllBank

datatype BusClass = RowBus | ColumnBus | UnifiedBus

datatype LowPowerMode = LowPowerOff | PowerDown | SelfRefresh

datatype RefreshTemperatureMode = TempNormal | TempHigh | TempExtended

datatype TimingScope = ScChannel | ScPseudoChannel | ScSid | ScRank | ScBankGroup | ScBank

datatype DramStandard = StdUnknown | Hbm3 | Hbm4 | Lpddr5 | Lpddr6

section \<open>Organisation, timing and specification\<close>

record Organization =
  channels :: int
  pseudo_channels :: int
  sids :: int
  ranks :: int
  bank_groups :: int
  banks_per_group :: int
  rows :: int
  columns :: int
  line_size :: int
  dram_transaction_bytes :: int

record Timing =
  nBL :: int
  nCL :: int
  nCWL :: int
  nRCDRD :: int
  nRCDWR :: int
  nRP :: int
  nRAS :: int
  nRC :: int
  nRTP :: int
  nWR :: int
  nCCDS :: int
  nCCDL :: int
  nRRDS :: int
  nRRDL :: int
  nFAW :: int
  nAADMin :: int
  nAADMax :: int
  nWCK2CK :: int
  nWCKPST :: int
  nCAS :: int
  nPPD :: int
  nRPab :: int
  nWTRS :: int
  nWTRL :: int
  nRTW :: int
  nCCDR :: int
  nRFC :: int
  nRFCpb :: int
  nRFMab :: int
  nRFMpb :: int
  nRREFD :: int
  nREFDB2ACT :: int
  nREFDB2REFDBS :: int
  nREFDB2REFDBL :: int
  nREFI :: int
  nREFIpb :: int
  nMRW :: int
  nMRR :: int
  nWCKSYNC :: int
  nWCKTRAIN :: int
  nDVFS :: int
  nPDEX :: int
  nSREFEX :: int
  nECCSCRUB :: int
  nRASERR :: int
  nLINKRETRY :: int

record TimingConstraint =
  tc_scope :: TimingScope
  tc_preceding :: "Command list"
  tc_following :: "Command list"
  tc_latency :: int
  tc_window :: int
  tc_is_sibling :: bool
  tc_note :: string
  tc_parameter :: string

record DramSpec =
  ds_standard :: DramStandard
  ds_org :: Organization
  ds_timing :: Timing
  ds_speed_bin_mbps :: int
  ds_density_reference_channels :: int
  ds_stack_height :: int
  ds_dual_command_bus :: bool
  ds_split_activate :: bool
  ds_lpddr_family :: bool
  ds_data_rate_mbps :: int
  ds_data_bus_bits :: int
  ds_internal_prefetch_size :: int
  ds_tick_multiplier :: int
  ds_supports_refresh :: bool
  ds_refresh_policy :: MaintenancePolicyKind
  ds_lpddr_dual_bank_refresh :: bool
  ds_supports_rfm :: bool
  ds_rfm_policy :: MaintenancePolicyKind
  ds_supports_ecc :: bool
  ds_hbm_edge_pairing :: bool
  ds_hbm_strict_edge_pairing :: bool
  ds_hbm_link_retry_enabled :: bool
  ds_hbm_link_crc_bits_per_request :: int
  ds_hbm_ras_metadata_bits_per_request :: int
  ds_hbm_ecc_bits_per_request :: int
  ds_rfm_act_threshold :: int
  ds_rfm_decrement :: int
  ds_lpddr_link_protection :: bool
  ds_lpddr_efficiency_mode :: LpddrEfficiencyMode
  ds_lpddr_wck_mode :: LpddrWckMode
  ds_lpddr_wck_ratio :: int
  ds_lpddr_link_ecc_enabled :: bool
  ds_lpddr_dbi_bits_per_request :: int
  ds_lpddr_link_ecc_bits_per_request :: int
  ds_lpddr_ca_parity_bits_per_command :: int
  ds_low_power_mode :: LowPowerMode
  ds_low_power_entry_cycles :: int
  ds_low_power_exit_cycles :: int
  ds_self_refresh_exit_cycles :: int
  ds_refresh_postpone_limit :: int
  ds_refresh_pullin_limit :: int
  ds_refresh_credit_limit :: int
  ds_refresh_temperature_mode :: RefreshTemperatureMode
  ds_refresh_high_temp_multiplier :: int
  ds_address_mapping :: AddressMappingKind
  ds_metadata_bits_per_request :: int
  ds_ecc_bits_per_request :: int
  ds_timing_constraints :: "TimingConstraint list"
  ds_activation_scope :: TimingScope
  ds_row_bus_scope :: TimingScope
  ds_column_bus_scope :: TimingScope
  ds_wck_scope :: TimingScope

text \<open>The default member initialisers.\<close>

definition Organization_init :: Organization where
  "Organization_init = \<lparr>channels = 1, pseudo_channels = 1, sids = 1, ranks = 1, bank_groups = 4,
     banks_per_group = 4, rows = 32768, columns = 64, line_size = 64, dram_transaction_bytes = 0\<rparr>"

definition Timing_init :: Timing where
  "Timing_init = \<lparr>nBL = 2, nCL = 20, nCWL = 10, nRCDRD = 20, nRCDWR = 14, nRP = 20, nRAS = 42, nRC = 62, nRTP = 8, nWR = 18,
     nCCDS = 2, nCCDL = 4, nRRDS = 4, nRRDL = 6, nFAW = 16, nAADMin = 1, nAADMax = 8, nWCK2CK = 1,
     nWCKPST = 8, nCAS = 0, nPPD = 2, nRPab =
     20, nWTRS = 8, nWTRL = 12, nRTW = 16, nCCDR = 2, nRFC = 0, nRFCpb = 0, nRFMab = 0, nRFMpb = 0, nRREFD = 0,
     nREFDB2ACT = 0, nREFDB2REFDBS = 0, nREFDB2REFDBL = 0, nREFI = 0, nREFIpb = 0, nMRW = 8, nMRR = 8, nWCKSYNC =
     8, nWCKTRAIN = 64, nDVFS = 128, nPDEX = 8, nSREFEX = 256, nECCSCRUB = 64, nRASERR = 64, nLINKRETRY = 16\<rparr>"

definition DramSpec_init :: DramSpec where
  "DramSpec_init = \<lparr>ds_standard = StdUnknown, ds_org = Organization_init, ds_timing = Timing_init,
     ds_speed_bin_mbps = 0, ds_density_reference_channels = 0, ds_stack_height = 0, ds_dual_command_bus = False, ds_split_activate = False,
     ds_lpddr_family = False, ds_data_rate_mbps = 6400, ds_data_bus_bits = 128, ds_internal_prefetch_size = 8,
     ds_tick_multiplier = 1, ds_supports_refresh = False, ds_refresh_policy = PerBank,
     ds_lpddr_dual_bank_refresh = False, ds_supports_rfm = False, ds_rfm_policy = PerBank,
     ds_supports_ecc = False, ds_hbm_edge_pairing = False, ds_hbm_strict_edge_pairing = True, ds_hbm_link_retry_enabled = False,
     ds_hbm_link_crc_bits_per_request = 0, ds_hbm_ras_metadata_bits_per_request = 0,
     ds_hbm_ecc_bits_per_request = 0, ds_rfm_act_threshold = 0, ds_rfm_decrement = 0,
     ds_lpddr_link_protection = False, ds_lpddr_efficiency_mode = EffNormal, ds_lpddr_wck_mode = CasSync, ds_lpddr_wck_ratio = 4,
     ds_lpddr_link_ecc_enabled = False, ds_lpddr_dbi_bits_per_request = 0, ds_lpddr_link_ecc_bits_per_request = 0,
     ds_lpddr_ca_parity_bits_per_command = 1, ds_low_power_mode = LowPowerOff, ds_low_power_entry_cycles = 0, ds_low_power_exit_cycles = 0,
     ds_self_refresh_exit_cycles = 0, ds_refresh_postpone_limit = 0, ds_refresh_pullin_limit = 0,
     ds_refresh_credit_limit = 0, ds_refresh_temperature_mode = TempNormal, ds_refresh_high_temp_multiplier = 2,
     ds_address_mapping = MapDefault, ds_metadata_bits_per_request = 0, ds_ecc_bits_per_request = 0,
     ds_timing_constraints = [], ds_activation_scope = ScRank, ds_row_bus_scope = ScPseudoChannel,
     ds_column_bus_scope = ScPseudoChannel, ds_wck_scope = ScPseudoChannel\<rparr>"

section \<open>Capacities\<close>

fun checked_product_from :: "nat \<Rightarrow> int list \<Rightarrow> string \<Rightarrow> nat res" where
  "checked_product_from result [] context_name = Inr result"
| "checked_product_from result (factor # factors) context_name =
     (if factor \<le> 0 then Inl (InvalidArgument (context_name @ '' requires positive dimensions''))
      else if result > u64_max div nat factor then Inl (OverflowError (context_name @ '' exceeds uint64 range''))
      else checked_product_from (u64_mul result (nat factor)) factors context_name)"

definition checked_product :: "int list \<Rightarrow> string \<Rightarrow> nat res" where
  "checked_product factors context_name = checked_product_from 1 factors context_name"

definition as_int :: "nat \<Rightarrow> string \<Rightarrow> int res" where
  "as_int count context_name =
     (if int count > int_max then Inl (OverflowError (context_name @ '' exceeds int range'')) else Inr (int count))"

definition banks_per_channel :: "DramSpec \<Rightarrow> int res" where
  "banks_per_channel spec = (let org = ds_org spec in
     rbind (checked_product [pseudo_channels org, sids org, ranks org, bank_groups org, banks_per_group org]
       ''banks_per_channel'') (\<lambda>count. as_int count ''banks_per_channel''))"

definition total_banks :: "DramSpec \<Rightarrow> int res" where
  "total_banks spec = (let org = ds_org spec in
     rbind (checked_product [channels org, pseudo_channels org, sids org, ranks org, bank_groups org,
       banks_per_group org] ''total_banks'') (\<lambda>count. as_int count ''total_banks''))"

definition total_addressable_transactions :: "DramSpec \<Rightarrow> nat res" where
  "total_addressable_transactions spec = (let org = ds_org spec in
     checked_product [channels org, pseudo_channels org, sids org, ranks org, bank_groups org,
       banks_per_group org, rows org, columns org] ''total_addressable_transactions'')"

definition transaction_bytes :: "DramSpec \<Rightarrow> int" where
  "transaction_bytes spec = (let org = ds_org spec in
     if dram_transaction_bytes org > 0 then dram_transaction_bytes org else max 1 (line_size org))"

definition addressable_capacity_bytes :: "DramSpec \<Rightarrow> nat res" where
  "addressable_capacity_bytes spec =
     rbind (total_addressable_transactions spec) (\<lambda>transactions.
       let bytes = nat (transaction_bytes spec)
       in if transactions \<noteq> 0 \<and> bytes > u64_max div transactions
          then Inl (OverflowError ''addressable_capacity_bytes exceeds uint64 range'')
          else Inr (u64_mul transactions bytes))"

section \<open>Validation\<close>

record FloatChecks =
  fc_positive :: bool
  fc_density :: "nat \<Rightarrow> int \<Rightarrow> bool"
  fc_tck :: "int \<Rightarrow> bool"

text \<open>
  \<open>fc_positive\<close> is \<open>density_gb\<close> and \<open>tCK_ps\<close> being positive and finite, \<open>fc_density capacity
  channels\<close> that \<open>density_gb\<close> agrees with the density derived from the capacity and the reference
  channel count, \<open>fc_tck ratio\<close> that \<open>tCK_ps\<close> agrees with the data rate at that clock ratio.
\<close>

definition check :: "bool \<Rightarrow> string \<Rightarrow> unit res" where
  "check ok what = (if ok then Inr () else Inl (InvalidArgument what))"

definition non_negative_fields :: "DramSpec \<Rightarrow> (string \<times> int) list" where
  "non_negative_fields spec =
    [(''metadata_bits_per_request'', ds_metadata_bits_per_request spec),
     (''ecc_bits_per_request'', ds_ecc_bits_per_request spec),
     (''hbm_link_crc_bits_per_request'', ds_hbm_link_crc_bits_per_request spec),
     (''hbm_ras_metadata_bits_per_request'', ds_hbm_ras_metadata_bits_per_request spec),
     (''hbm_ecc_bits_per_request'', ds_hbm_ecc_bits_per_request spec),
     (''lpddr_dbi_bits_per_request'', ds_lpddr_dbi_bits_per_request spec),
     (''lpddr_link_ecc_bits_per_request'', ds_lpddr_link_ecc_bits_per_request spec),
     (''lpddr_ca_parity_bits_per_command'', ds_lpddr_ca_parity_bits_per_command spec),
     (''low_power_entry_cycles'', ds_low_power_entry_cycles spec),
     (''low_power_exit_cycles'', ds_low_power_exit_cycles spec),
     (''self_refresh_exit_cycles'', ds_self_refresh_exit_cycles spec),
     (''refresh_postpone_limit'', ds_refresh_postpone_limit spec),
     (''refresh_pullin_limit'', ds_refresh_pullin_limit spec),
     (''refresh_credit_limit'', ds_refresh_credit_limit spec)]"

definition validate_geometry :: "FloatChecks \<Rightarrow> DramSpec \<Rightarrow> unit res" where
  "validate_geometry fc spec = (let org = ds_org spec in
     rbind (check (channels org > 0 \<and> pseudo_channels org > 0 \<and> sids org > 0 \<and> ranks org > 0
         \<and> bank_groups org > 0 \<and> banks_per_group org > 0 \<and> rows org > 0 \<and> columns org > 0 \<and> line_size org > 0)
       ''all DRAM organization dimensions must be > 0'') (\<lambda>_.
     rbind (check (\<not> (dram_transaction_bytes org < 0 \<or> (dram_transaction_bytes org > 0
         \<and> line_size org mod dram_transaction_bytes org \<noteq> 0)))
       ''dram_transaction_bytes must be 0 or a positive divisor of line_size'') (\<lambda>_.
     rbind (check (ds_data_rate_mbps spec > 0 \<and> ds_data_bus_bits spec > 0 \<and> ds_internal_prefetch_size spec > 0
         \<and> ds_speed_bin_mbps spec > 0 \<and> fc_positive fc \<and> ds_tick_multiplier spec > 0)
       ''data rate, bus width, prefetch, speed bin, density, tCK and tick_multiplier must be > 0'') (\<lambda>_.
     rbind (check (if ds_lpddr_family spec then ds_stack_height spec \<ge> 0 else ds_stack_height spec > 0)
       ''HBM stack_height must be > 0; LPDDR stack_height must be >= 0'') (\<lambda>_.
     rbind (addressable_capacity_bytes spec) (\<lambda>capacity.
     rbind (check (capacity \<noteq> 0) ''DRAM geometry capacity overflow'') (\<lambda>_.
     rbind (check (\<not> (ds_density_reference_channels spec < 0
         \<or> (ds_density_reference_channels spec > 0 \<and> channels org \<noteq> 1)))
       ''invalid channel-local density reference'') (\<lambda>_.
     let reference_channels = (if ds_density_reference_channels spec > 0 then ds_density_reference_channels spec
           else channels org)
     in check (fc_density fc capacity reference_channels) ''density_gb conflicts with geometry-derived density; use the config model resolver after changing organization''))))))))"

definition validate_clock :: "FloatChecks \<Rightarrow> DramSpec \<Rightarrow> unit res" where
  "validate_clock fc spec =
     rbind (check (ds_speed_bin_mbps spec = ds_data_rate_mbps spec) ''speed_bin_mbps must equal data_rate_mbps'') (\<lambda>_.
     let ratio = (if ds_standard spec = Lpddr5 then ds_lpddr_wck_ratio spec else 2)
     in rbind (check (\<not> ((ds_standard spec = Lpddr5 \<and> ratio \<noteq> 2 \<and> ratio \<noteq> 4)
           \<or> (ds_standard spec = Lpddr6 \<and> ds_lpddr_wck_ratio spec \<noteq> 2))) ''unsupported LPDDR WCK:CK ratio'') (\<lambda>_.
        check (fc_tck fc ratio) ''tCK_ps conflicts with data_rate_mbps and protocol clock ratio (maximum rounding error 0.5 ps)''))"

definition validate_modes :: "DramSpec \<Rightarrow> unit res" where
  "validate_modes spec = (let org = ds_org spec; t = ds_timing spec in
     rbind (rfold (\<lambda>(name, value) _. check (value \<ge> 0) (name @ '' must be >= 0'')) (non_negative_fields spec) ()) (\<lambda>_.
     rbind (check (ds_refresh_high_temp_multiplier spec > 0) ''refresh_high_temp_multiplier must be > 0'') (\<lambda>_.
     rbind (check (\<not> (ds_lpddr_family spec \<and> ds_lpddr_wck_ratio spec \<le> 0)) ''lpddr_wck_ratio must be > 0'') (\<lambda>_.
     rbind (check (\<not> (ds_supports_rfm spec \<and> (ds_rfm_act_threshold spec \<le> 0 \<or> ds_rfm_decrement spec \<le> 0)))
       ''RFM-enabled models require rfm_act_threshold and rfm_decrement > 0'') (\<lambda>_.
     rbind (check (ds_lpddr_wck_mode spec \<noteq> BurstSync)
       ''lpddr_wck_mode=burst_sync is reserved and has no executable semantics'') (\<lambda>_.
     rbind (check (\<not> (ds_split_activate spec \<and> nAADMin t \<le> 0)) ''nAADMin must be > 0 for split activate'') (\<lambda>_.
     rbind (check (\<not> (ds_split_activate spec \<and> nAADMax t < nAADMin t))
       ''nAADMax must be >= nAADMin for split activate'') (\<lambda>_.
     rbind (check (\<not> (ds_lpddr_dual_bank_refresh spec \<and> (bank_groups org < 2 \<or> bank_groups org mod 2 \<noteq> 0)))
       ''LPDDR REFdb adjacent-BG pair table requires an even bank_groups >= 2'') (\<lambda>_.
     check (\<not> (nRAS t < 0 \<or> nRP t < 0 \<or> nRC t < nRAS t + nRP t))
       ''nRC must be >= nRAS + nRP (non-negative model row timings)'')))))))))"

definition validate_spec :: "FloatChecks \<Rightarrow> DramSpec \<Rightarrow> unit res" where
  "validate_spec fc spec =
     rbind (validate_geometry fc spec) (\<lambda>_. rbind (validate_clock fc spec) (\<lambda>_. validate_modes spec))"

section \<open>The timing constraint tables\<close>

definition tc :: "TimingScope \<Rightarrow> Command list \<Rightarrow> Command list \<Rightarrow> int \<Rightarrow> string \<Rightarrow> int \<Rightarrow> string \<Rightarrow> TimingConstraint" where
  "tc scope preceding following latency parameter window note =
     \<lparr>tc_scope = scope, tc_preceding = preceding, tc_following = following, tc_latency = latency,
      tc_window = window, tc_is_sibling = False, tc_note = note, tc_parameter = parameter\<rparr>"

definition tc_sibling :: "TimingScope \<Rightarrow> Command list \<Rightarrow> Command list \<Rightarrow> int \<Rightarrow> string \<Rightarrow> string \<Rightarrow> TimingConstraint" where
  "tc_sibling scope preceding following latency parameter note =
     (tc scope preceding following latency parameter 0 note)\<lparr>tc_is_sibling := True\<rparr>"

definition make_hbm_constraints :: "Timing \<Rightarrow> TimingConstraint list" where
  "make_hbm_constraints t =
    (let nccdr = (if nCCDR t > 0 then nCCDR t else nCCDS t);
         nrrefd = (if nRREFD t > 0 then nRREFD t else nRFCpb t) in
     [tc ScPseudoChannel [RD, RDA] [RD, RDA] (nBL t) ''nBL'' 0 '''',
      tc ScPseudoChannel [WR, WRA] [WR, WRA] (nBL t) ''nBL'' 0 '''',
      tc ScPseudoChannel [RD, RDA] [WR, WRA] (nRTW t) ''nRTW'' 0 '''',
      tc ScPseudoChannel [WR, WRA] [RD, RDA] (nCWL t + nBL t + nWTRS t) ''nCWL+nBL+nWTRS'' 0 '''',
      tc ScPseudoChannel [ACT] [ACT] (nRRDS t) ''nRRDS'' 0 '''',
      tc ScPseudoChannel [ACT] [ACT] (nFAW t) ''nFAW'' 4 '''',
      tc ScSid [RD, RDA] [RD, RDA] (nCCDS t) ''nCCDS'' 0 '''',
      tc_sibling ScSid [RD, RDA] [RD, RDA] nccdr ''nCCDR'' ''Only consecutive READs to different SID.'',
      tc ScSid [WR, WRA] [WR, WRA] (nCCDS t) ''nCCDS'' 0 '''',
      tc ScBankGroup [RD, RDA] [RD, RDA] (nCCDL t) ''nCCDL'' 0 '''',
      tc ScBankGroup [WR, WRA] [WR, WRA] (nCCDL t) ''nCCDL'' 0 '''',
      tc ScBankGroup [WR, WRA] [RD, RDA] (nCWL t + nBL t + nWTRL t) ''nCWL+nBL+nWTRL'' 0 '''',
      tc ScBankGroup [ACT] [ACT] (nRRDL t) ''nRRDL'' 0 '''',
      tc ScPseudoChannel [PRE, PREPB, PREAB] [PRE, PREPB, PREAB] (nPPD t) ''nPPD'' 0 '''',
      tc ScBank [ACT] [ACT] (nRC t) ''nRC'' 0 '''',
      tc ScBank [ACT] [RD, RDA] (nRCDRD t) ''nRCDRD'' 0 '''',
      tc ScBank [ACT] [WR, WRA] (nRCDWR t) ''nRCDWR'' 0 '''',
      tc ScBank [ACT] [PREPB] (nRAS t) ''nRAS'' 0 '''',
      tc ScBank [PREPB] [ACT] (nRP t) ''nRP'' 0 '''',
      tc ScBank [RD] [PREPB] (nRTP t) ''nRTP'' 0 '''',
      tc ScBank [WR] [PREPB] (nCWL t + nBL t + nWR t) ''nCWL+nBL+nWR'' 0 '''',
      tc ScBank [REFPB] [ACT] (nRFCpb t) ''nRFCpb'' 0 '''',
      tc ScPseudoChannel [REFPB] [ACT] nrrefd ''nRREFD_or_nRFCpb'' 0 '''',
      tc ScPseudoChannel [REFAB] [ACT, PREPB, REFPB] (nRFC t) ''nRFC'' 0 '''',
      tc ScBank [RFMPB] [ACT] (nRFMpb t) ''nRFMpb'' 0 '''',
      tc ScPseudoChannel [RFMAB] [ACT, PREPB, RFMPB] (nRFMab t) ''nRFMab'' 0 '''',
      tc ScChannel [MRW] [ACT, RD, WR, MRW, MRR] (nMRW t) ''nMRW'' 0 '''',
      tc ScChannel [MRR] [ACT, RD, WR, MRW, MRR] (nMRR t) ''nMRR'' 0 '''',
      tc ScChannel [ECCSCRUB, RASERR] [ACT, REFPB, RFMPB, MRW, MRR] (max (nECCSCRUB t) (nRASERR t)) ''max(nECCSCRUB,nRASERR)'' 0 '''',
      tc ScChannel [RASERR] [RD, WR] (nLINKRETRY t) ''nLINKRETRY'' 0 ''''])"

definition make_lpddr_constraints :: "Timing \<Rightarrow> TimingConstraint list" where
  "make_lpddr_constraints t =
    (let nrefdb2act = (if nREFDB2ACT t > 0 then nREFDB2ACT t else if nRREFD t > 0 then nRREFD t else nRRDS t) in
     [tc ScChannel [RD, RDA] [RD, RDA] (nBL t) ''nBL'' 0 '''',
      tc ScChannel [WR, WRA] [WR, WRA] (nBL t) ''nBL'' 0 '''',
      tc ScBank [CASRD] [RD, RDA] (max 0 (nCAS t)) ''nCAS'' 0 '''',
      tc ScBank [CASWR] [WR, WRA] (max 0 (nCAS t)) ''nCAS'' 0 '''',
      tc ScRank [RD, RDA] [RD, RDA] (nCCDS t) ''nCCDS'' 0 '''',
      tc ScRank [WR, WRA] [WR, WRA] (nCCDS t) ''nCCDS'' 0 '''',
      tc ScRank [RD, RDA] [WR, WRA] (nCL t + nBL t + 2 - nCWL t) ''nCL+nBL+2-nCWL'' 0 '''',
      tc ScRank [WR, WRA] [RD, RDA] (nCWL t + nBL t + nWTRS t) ''nCWL+nBL+nWTRS'' 0 '''',
      tc ScRank [ACT1] [ACT1] (nRRDS t) ''nRRDS'' 0 '''',
      tc ScRank [ACT1] [ACT1] (nFAW t) ''nFAW'' 4 '''',
      tc ScBankGroup [RD, RDA] [RD, RDA] (nCCDL t) ''nCCDL'' 0 '''',
      tc ScBankGroup [WR, WRA] [WR, WRA] (nCCDL t) ''nCCDL'' 0 '''',
      tc ScBankGroup [WR, WRA] [RD, RDA] (nCWL t + nBL t + nWTRL t) ''nCWL+nBL+nWTRL'' 0 '''',
      tc ScBankGroup [ACT1] [ACT1] (nRRDL t) ''nRRDL'' 0 '''',
      tc ScChannel [PRE, PREPB, PREAB] [PRE, PREPB, PREAB] (nPPD t) ''nPPD'' 0 '''',
      tc ScBank [ACT1] [ACT1] (nRC t) ''nRC'' 0 '''',
      tc ScBank [ACT1] [RD, RDA] (nRCDRD t) ''nRCDRD'' 0 '''',
      tc ScBank [ACT1] [WR, WRA] (nRCDWR t) ''nRCDWR'' 0 '''',
      tc ScBank [ACT1] [PREPB] (nRAS t) ''nRAS'' 0 '''',
      tc ScBank [PREPB] [ACT1] (nRP t) ''nRP'' 0 '''',
      tc ScBank [PREPB] [REFDB] (nRP t) ''nRP'' 0 '''',
      tc ScRank [PREAB] [REFDB] (nRPab t) ''nRPab'' 0 '''',
      tc ScBank [RD] [PREPB] (nRTP t) ''nRTP'' 0 '''',
      tc ScBank [WR] [PREPB] (nCWL t + nBL t + nWR t) ''nCWL+nBL+nWR'' 0 '''',
      tc ScBank [REFPB] [ACT1] (nRFCpb t) ''nRFCpb'' 0 '''',
      tc ScBank [REFDB] [ACT1] (nRFCpb t) ''nRFCpb'' 0 '''',
      tc ScBank [RFMPB] [ACT1] (if nRFMpb t > 0 then nRFMpb t else nRFCpb t) ''nRFMpb_or_nRFCpb'' 0 '''',
      tc ScPseudoChannel [REFDB] [ACT1] nrefdb2act ''nREFDB2ACT'' 0 '''',
      tc ScBank [REFDB] [REFDB] (nRFCpb t) ''nRFCpb'' 0 '''',
      tc ScRank [REFDB] [REFAB] (nRFCpb t) ''nRFCpb'' 0 '''',
      tc ScRank [REFAB] [REFDB, REFAB] (nRFC t) ''nRFC'' 0 '''',
      tc ScPseudoChannel [RFMPB] [ACT1] nrefdb2act ''nREFDB2ACT'' 0 '''',
      tc ScPseudoChannel [RFMPB] [RFMPB] (nRRDL t) ''nRRDL'' 0 '''',
      tc ScRank [REFAB] [ACT1, PREAB] (nRFC t) ''nRFC'' 0 '''',
      tc ScRank [RFMAB] [ACT1, PREAB, RFMPB] (if nRFMab t > 0 then nRFMab t else nRFC t) ''nRFMab_or_nRFC'' 0 '''',
      tc ScChannel [MRW] [ACT1, CASRD, CASWR, MRW, MRR] (nMRW t) ''nMRW'' 0 '''',
      tc ScChannel [MRR] [ACT1, CASRD, CASWR, MRW, MRR] (nMRR t) ''nMRR'' 0 '''',
      tc ScPseudoChannel [WCKSYNC] [RD, WR] (nWCKSYNC t) ''nWCKSYNC'' 0 '''',
      tc ScChannel [WCKTRAIN] [ACT1, CASRD, CASWR] (nWCKTRAIN t) ''nWCKTRAIN'' 0 '''',
      tc ScChannel [DVFS] [ACT1, CASRD, CASWR, MRW] (nDVFS t) ''nDVFS'' 0 '''',
      tc ScChannel [PDE, PDX] [ACT1, CASRD, CASWR] (nPDEX t) ''nPDEX'' 0 '''',
      tc ScChannel [SREFEN, SREFEX] [ACT1, REFDB, RFMPB] (nSREFEX t) ''nSREFEX'' 0 '''',
      tc ScChannel [ECCSCRUB, RASERR] [ACT1, REFDB, RFMPB, CASRD, CASWR] (max (nECCSCRUB t) (nRASERR t)) ''max(nECCSCRUB,nRASERR)'' 0 ''''])"

text \<open>\<open>finalize_spec\<close> also rebuilds the audit table of timing sources, which no modelled code reads.\<close>

definition finalize_spec :: "FloatChecks \<Rightarrow> DramSpec \<Rightarrow> DramSpec res" where
  "finalize_spec fc spec =
     rbind (validate_spec fc spec) (\<lambda>_.
       Inr (spec\<lparr>ds_timing_constraints :=
         (if ds_lpddr_family spec then make_lpddr_constraints (ds_timing spec)
          else make_hbm_constraints (ds_timing spec))\<rparr>))"

section \<open>Lemmas\<close>

lemma command_index_less [simp]: "command_index c < kCommandCount"
  by (cases c) (simp_all add: kCommandCount_def)

lemma all_commands_nth [simp]: "all_commands ! command_index c = c"
  by (cases c) (simp_all add: all_commands_def)

lemma command_index_inj [simp]: "command_index c = command_index d \<longleftrightarrow> c = d"
  by (metis all_commands_nth)

text \<open>
  The checked product succeeds exactly when every factor is positive and the exact product fits
  into 64 bits; its value is then the exact product.
\<close>

lemma prod_list_ge_1: "(\<And>f. f \<in> set fs \<Longrightarrow> (0 :: int) < f) \<Longrightarrow> 1 \<le> prod_list fs"
proof (induction fs)
  case (Cons f fs)
  then have "1 \<le> prod_list fs" "0 < f" by simp_all
  then have "1 * 1 \<le> f * prod_list fs"
    by (intro mult_mono) simp_all
  then show ?case by simp
qed simp

lemma checked_product_from_eq:
  assumes "result \<le> u64_max" and "0 < result"
  shows "checked_product_from result fs c = Inr n \<longleftrightarrow>
    (\<forall>f \<in> set fs. 0 < f) \<and> int result * prod_list fs \<le> int u64_max \<and> int n = int result * prod_list fs"
  using assms
proof (induction fs arbitrary: result)
  case Nil
  then show ?case by auto
next
  case (Cons f fs)
  show ?case
  proof (cases "0 < f")
    case False
    then show ?thesis by simp
  next
    case pos: True
    have guard: "u64_max div nat f < result \<longleftrightarrow> u64_max < nat f * result"
      using mul_guard_exact [of "nat f" result u64_max] pos by auto
    show ?thesis
    proof (cases "u64_max < nat f * result")
      case True
      have "int u64_max < int result * (f * prod_list fs)" if "\<forall>f \<in> set fs. 0 < f"
      proof -
        have "int u64_max < int result * f"
          using True pos by (metis int_nat_eq less_le mult.commute of_nat_less_iff of_nat_mult)
        also have "\<dots> = int result * f * 1" by simp
        also have "\<dots> \<le> int result * f * prod_list fs"
          using pos prod_list_ge_1 [of fs] that by (intro mult_left_mono) auto
        finally show ?thesis by (simp add: mult.assoc)
      qed
      with True pos guard show ?thesis by (auto simp: not_le)
    next
      case False
      have m: "u64_mul result (nat f) = result * nat f"
        using False by (intro u64_mul_exact) (simp add: u64_max_def mult.commute)
      have "checked_product_from result (f # fs) c = checked_product_from (result * nat f) fs c"
        using pos False guard m by simp
      moreover have "result * nat f \<le> u64_max" "0 < result * nat f"
        using False pos Cons.prems(2) by (simp_all add: mult.commute)
      ultimately show ?thesis
        using Cons.IH [of "result * nat f"] pos by (simp add: mult.assoc)
    qed
  qed
qed

lemma checked_product_eq:
  "checked_product fs c = Inr n \<longleftrightarrow> (\<forall>f \<in> set fs. 0 < f) \<and> prod_list fs \<le> int u64_max \<and> int n = prod_list fs"
  unfolding checked_product_def by (subst checked_product_from_eq) (simp_all add: u64_max_def)

lemma check_eq_Inr [simp]: "check b w = Inr u \<longleftrightarrow> b"
  by (simp add: check_def)

definition dims_ok :: "DramSpec \<Rightarrow> bool" where
  "dims_ok spec \<longleftrightarrow> (let org = ds_org spec in
     channels org > 0 \<and> pseudo_channels org > 0 \<and> sids org > 0 \<and> ranks org > 0
     \<and> bank_groups org > 0 \<and> banks_per_group org > 0 \<and> rows org > 0 \<and> columns org > 0)"

definition bank_total :: "DramSpec \<Rightarrow> int" where
  "bank_total spec = (let org = ds_org spec in
     channels org * pseudo_channels org * sids org * ranks org * bank_groups org * banks_per_group org)"

lemma transaction_bytes_pos [simp]: "0 < transaction_bytes spec"
  by (simp add: transaction_bytes_def Let_def max_def)

lemma total_banks_eq:
  assumes "dims_ok spec"
  shows "total_banks spec = Inr n \<longleftrightarrow> n = bank_total spec \<and> n \<le> int_max"
proof -
  let ?fs = "[channels (ds_org spec), pseudo_channels (ds_org spec), sids (ds_org spec), ranks (ds_org spec),
    bank_groups (ds_org spec), banks_per_group (ds_org spec)]"
  have p: "prod_list ?fs = bank_total spec"
    by (simp add: bank_total_def Let_def mult.assoc)
  have ge: "1 \<le> bank_total spec"
    using assms unfolding p [symmetric] by (intro prod_list_ge_1) (auto simp: dims_ok_def Let_def)
  have eq: "checked_product ?fs ''total_banks'' = Inr m \<longleftrightarrow> bank_total spec \<le> int u64_max \<and> int m = bank_total spec" for m
    using assms unfolding checked_product_eq p by (auto simp: dims_ok_def Let_def)
  have small: "int_max \<le> int u64_max"
    by (simp add: int_max_def u64_max_def)
  show ?thesis
  proof
    assume "total_banks spec = Inr n"
    then obtain m where "checked_product ?fs ''total_banks'' = Inr m" "as_int m ''total_banks'' = Inr n"
      by (auto simp: total_banks_def Let_def rbind_eq_Inr)
    then show "n = bank_total spec \<and> n \<le> int_max"
      by (auto simp: eq as_int_def split: if_splits)
  next
    assume n: "n = bank_total spec \<and> n \<le> int_max"
    then have "checked_product ?fs ''total_banks'' = Inr (nat n)"
      using small ge by (simp add: eq)
    with n ge show "total_banks spec = Inr n"
      by (simp add: total_banks_def Let_def as_int_def)
  qed
qed

lemma capacity_eq:
  assumes "addressable_capacity_bytes spec = Inr n"
  shows "dims_ok spec" "int n = bank_total spec * rows (ds_org spec) * columns (ds_org spec) * transaction_bytes spec"
    "n \<le> u64_max"
proof -
  let ?org = "ds_org spec"
  let ?fs = "[channels ?org, pseudo_channels ?org, sids ?org, ranks ?org, bank_groups ?org, banks_per_group ?org,
    rows ?org, columns ?org]"
  let ?b = "nat (transaction_bytes spec)"
  obtain m where m: "checked_product ?fs ''total_addressable_transactions'' = Inr m"
    and g: "\<not> (m \<noteq> 0 \<and> ?b > u64_max div m)" and n: "n = u64_mul m ?b"
    using assms by (auto simp: addressable_capacity_bytes_def total_addressable_transactions_def Let_def rbind_eq_Inr
        split: if_splits)
  from m have pos: "\<forall>f \<in> set ?fs. 0 < f" and le: "prod_list ?fs \<le> int u64_max" and mp: "int m = prod_list ?fs"
    unfolding checked_product_eq by auto
  show dims: "dims_ok spec"
    using pos by (simp add: dims_ok_def Let_def)
  have "1 \<le> prod_list ?fs"
    using pos by (intro prod_list_ge_1) blast
  then have mpos: "0 < m" using mp by linarith
  then have "m * ?b \<le> u64_max"
    using g mul_guard_exact [of m ?b u64_max] by auto
  moreover from this have ne: "n = m * ?b"
    unfolding n by (intro u64_mul_exact) (simp add: u64_max_def)
  ultimately show "n \<le> u64_max" by simp
  have "int n = int m * transaction_bytes spec"
    using ne by (simp add: less_imp_le)
  then show "int n = bank_total spec * rows ?org * columns ?org * transaction_bytes spec"
    unfolding mp by (simp add: bank_total_def Let_def mult.assoc)
qed

text \<open>What the consumers of a validated specification rely on.\<close>

lemma validate_spec_dims:
  assumes "validate_spec fc spec = Inr ()"
  shows "dims_ok spec" and "0 < ds_tick_multiplier spec"
    and "\<exists>n. addressable_capacity_bytes spec = Inr n \<and> 0 < n"
  using assms by (auto simp: validate_spec_def validate_geometry_def Let_def rbind_eq_Inr dims_ok_def)

end
