(* ===== verification/Addr_Map.thy ===== *)
theory Addr_Map
  imports Dram_Spec
begin

text \<open>
  Address mapping (\<open>core/addr_map.hpp\<close>, \<open>core/addr_map.cpp\<close> of \<open>mem_sim\<close>): the split of a system
  address over several stacks and back, with its range and overflow checks, and the decoding of a
  stack-local byte address into DRAM coordinates by the four mapping templates. Addresses are
  \<open>std::uint64_t\<close>, natural numbers with explicit wrap-around.

  The lemmas show that the two directions of the stack mapper are inverse to each other wherever
  they succeed, and that every template is a bijection between the transactions of the device and
  its coordinates; each is read off from a mixed-radix numeral over a permutation of the
  dimensions.
\<close>

section \<open>Coordinates\<close>

record DecodedAddress =
  channel :: int
  pseudo_channel :: int
  sid :: int
  rank :: int
  bank_group :: int
  bank :: int
  row :: int
  column :: int

definition DecodedAddress_init :: DecodedAddress where
  "DecodedAddress_init = \<lparr>channel = 0, pseudo_channel = 0, sid = 0, rank = 0, bank_group = 0, bank = 0,
     row = 0, column = 0\<rparr>"

definition flat_bank :: "DramSpec \<Rightarrow> DecodedAddress \<Rightarrow> int" where
  "flat_bank spec d = (let org = ds_org spec; x = channel d; x = x * pseudo_channels org + pseudo_channel d;
     x = x * sids org + sid d; x = x * ranks org + rank d; x = x * bank_groups org + bank_group d
     in x * banks_per_group org + bank d)"

section \<open>Stacks\<close>

datatype StackMappingKind = Interleaved | Blocked

record StackAddress =
  sa_stack :: int
  sa_local_address :: nat

record StackAddressMapper =
  stack_count :: int
  interleave_bytes :: nat
  stack_capacity_bytes :: nat
  stack_kind :: StackMappingKind

definition checked_multiply :: "nat \<Rightarrow> nat \<Rightarrow> string \<Rightarrow> nat res" where
  "checked_multiply lhs rhs context_name =
     (if lhs \<noteq> 0 \<and> rhs > u64_max div lhs then Inl (OverflowError (context_name @ '' exceeds Address space''))
      else Inr (u64_mul lhs rhs))"

definition checked_add :: "nat \<Rightarrow> nat \<Rightarrow> string \<Rightarrow> nat res" where
  "checked_add lhs rhs context_name =
     (if rhs > u64_max - lhs then Inl (OverflowError (context_name @ '' exceeds Address space''))
      else Inr (u64_add lhs rhs))"

definition StackAddressMapper_new :: "int \<Rightarrow> nat \<Rightarrow> nat \<Rightarrow> StackMappingKind \<Rightarrow> StackAddressMapper res" where
  "StackAddressMapper_new n il cap kind =
     (if n \<le> 0 then Inl (InvalidArgument ''stack_count must be positive'')
      else if il = 0 then Inl (InvalidArgument ''stack_interleave_bytes must be positive'')
      else if kind = Blocked \<and> cap = 0
      then Inl (InvalidArgument ''blocked stack mapping requires non-zero stack capacity'')
      else Inr \<lparr>stack_count = n, interleave_bytes = il, stack_capacity_bytes = cap, stack_kind = kind\<rparr>)"

definition stack_decode :: "StackAddressMapper \<Rightarrow> nat \<Rightarrow> StackAddress res" where
  "stack_decode m a =
     (if stack_count m = 1 then
        (if stack_capacity_bytes m \<noteq> 0 \<and> a \<ge> stack_capacity_bytes m
         then Inl (OutOfRange ''system address exceeds stack capacity'')
         else Inr \<lparr>sa_stack = 0, sa_local_address = a\<rparr>)
      else if stack_kind m = Blocked then
        (let stack = a div stack_capacity_bytes m
         in if stack \<ge> nat (stack_count m)
            then Inl (OutOfRange ''system address exceeds aggregate multi-stack capacity'')
            else Inr \<lparr>sa_stack = int stack, sa_local_address = a mod stack_capacity_bytes m\<rparr>)
      else
        (let stripe = a div interleave_bytes m; offset = a mod interleave_bytes m;
             stack = int (stripe mod nat (stack_count m)); local_stripe = stripe div nat (stack_count m)
         in rbind (rbind (checked_multiply local_stripe (interleave_bytes m) ''decoded stack-local address'')
                (\<lambda>p. checked_add p offset ''decoded stack-local address'')) (\<lambda>local_address.
              if stack_capacity_bytes m \<noteq> 0 \<and> local_address \<ge> stack_capacity_bytes m
              then Inl (OutOfRange ''system address exceeds aggregate multi-stack capacity'')
              else Inr \<lparr>sa_stack = stack, sa_local_address = local_address\<rparr>)))"

definition stack_encode :: "StackAddressMapper \<Rightarrow> int \<Rightarrow> nat \<Rightarrow> nat res" where
  "stack_encode m stack la =
     (if stack < 0 \<or> stack \<ge> stack_count m then Inl (OutOfRange ''stack_id out of range'')
      else if stack_capacity_bytes m \<noteq> 0 \<and> la \<ge> stack_capacity_bytes m
      then Inl (OutOfRange ''local address exceeds stack capacity'')
      else if stack_count m = 1 then Inr la
      else if stack_kind m = Blocked then
        (if la \<ge> stack_capacity_bytes m then Inl (OutOfRange ''local address exceeds stack capacity'')
         else rbind (checked_multiply (nat stack) (stack_capacity_bytes m) ''blocked system address'')
                (\<lambda>p. checked_add p la ''blocked system address''))
      else
        (let local_stripe = la div interleave_bytes m; offset = la mod interleave_bytes m
         in rbind (rbind (checked_multiply local_stripe (nat (stack_count m)) ''interleaved system stripe'')
                (\<lambda>p. checked_add p (nat stack) ''interleaved system stripe'')) (\<lambda>stripe.
              rbind (checked_multiply stripe (interleave_bytes m) ''interleaved system address'')
                (\<lambda>p. checked_add p offset ''interleaved system address''))))"

section \<open>DRAM coordinates of a byte address\<close>

definition take_mod :: "nat \<Rightarrow> int \<Rightarrow> int \<times> nat" where
  "take_mod v m = (let safe_mod = nat (max 1 m) in (int (v mod safe_mod), v div safe_mod))"

definition apply_lpddr_efficiency :: "DramSpec \<Rightarrow> DecodedAddress \<Rightarrow> DecodedAddress" where
  "apply_lpddr_efficiency spec d =
     (if ds_lpddr_family spec \<and> ds_lpddr_efficiency_mode spec \<noteq> EffNormal then d\<lparr>pseudo_channel := 0\<rparr> else d)"

definition take_bank_composite :: "DramSpec \<Rightarrow> nat \<Rightarrow> DecodedAddress \<Rightarrow> DecodedAddress \<times> nat" where
  "take_bank_composite spec line d =
     (let (b, line) = take_mod line (banks_per_group (ds_org spec));
          (g, line) = take_mod line (bank_groups (ds_org spec));
          (p, line) = take_mod line (pseudo_channels (ds_org spec));
          (s, line) = take_mod line (sids (ds_org spec))
      in (d\<lparr>bank := b, bank_group := g, pseudo_channel := p, sid := s\<rparr>, line))"

definition decode_default :: "DramSpec \<Rightarrow> nat \<Rightarrow> DecodedAddress" where
  "decode_default spec line = (let org = ds_org spec; d = DecodedAddress_init;
     (c, line) = take_mod line (columns org); d = d\<lparr>column := c\<rparr>;
     (d, line) = take_bank_composite spec line d;
     (r, line) = take_mod line (ranks org); d = d\<lparr>rank := r\<rparr>;
     (h, line) = take_mod line (channels org); d = d\<lparr>channel := h\<rparr>;
     (w, line) = take_mod line (rows org)
     in d\<lparr>row := w\<rparr>)"

definition decode_RoBaRaCoCh :: "DramSpec \<Rightarrow> nat \<Rightarrow> DecodedAddress" where
  "decode_RoBaRaCoCh spec line = (let org = ds_org spec; d = DecodedAddress_init;
     (h, line) = take_mod line (channels org); d = d\<lparr>channel := h\<rparr>;
     (c, line) = take_mod line (columns org); d = d\<lparr>column := c\<rparr>;
     (r, line) = take_mod line (ranks org); d = d\<lparr>rank := r\<rparr>;
     (d, line) = take_bank_composite spec line d;
     (w, line) = take_mod line (rows org)
     in d\<lparr>row := w\<rparr>)"

definition decode_ChRaBaRoCo :: "DramSpec \<Rightarrow> nat \<Rightarrow> DecodedAddress" where
  "decode_ChRaBaRoCo spec line = (let org = ds_org spec; d = DecodedAddress_init;
     (c, line) = take_mod line (columns org); d = d\<lparr>column := c\<rparr>;
     (w, line) = take_mod line (rows org); d = d\<lparr>row := w\<rparr>;
     (d, line) = take_bank_composite spec line d;
     (r, line) = take_mod line (ranks org); d = d\<lparr>rank := r\<rparr>;
     (h, line) = take_mod line (channels org)
     in d\<lparr>channel := h\<rparr>)"

definition decode_RoCoRaBaCh :: "DramSpec \<Rightarrow> nat \<Rightarrow> DecodedAddress" where
  "decode_RoCoRaBaCh spec line = (let org = ds_org spec; d = DecodedAddress_init;
     (h, line) = take_mod line (channels org); d = d\<lparr>channel := h\<rparr>;
     (d, line) = take_bank_composite spec line d;
     (r, line) = take_mod line (ranks org); d = d\<lparr>rank := r\<rparr>;
     (c, line) = take_mod line (columns org); d = d\<lparr>column := c\<rparr>;
     (w, line) = take_mod line (rows org)
     in d\<lparr>row := w\<rparr>)"

definition decode :: "DramSpec \<Rightarrow> nat \<Rightarrow> DecodedAddress" where
  "decode spec address =
     (let line = address div nat (max 1 (transaction_bytes spec))
      in apply_lpddr_efficiency spec (case ds_address_mapping spec of
           MapDefault \<Rightarrow> decode_default spec line
         | RoBaRaCoCh \<Rightarrow> decode_RoBaRaCoCh spec line
         | ChRaBaRoCo \<Rightarrow> decode_ChRaBaRoCo spec line
         | RoCoRaBaCh \<Rightarrow> decode_RoCoRaBaCh spec line))"

section \<open>Stack round trips\<close>

lemma checked_multiply_eq: "checked_multiply a b c = Inr n \<longleftrightarrow> a * b \<le> u64_max \<and> n = a * b"
proof (cases "a = 0")
  case False
  have "u64_mul a b = a * b" if "a * b \<le> u64_max"
    using that by (intro u64_mul_exact) (simp add: u64_max_def)
  with mul_guard_exact [of a b u64_max] False show ?thesis
    by (auto simp: checked_multiply_def not_less)
qed (auto simp: checked_multiply_def u64_mul_def)

lemma checked_add_eq:
  assumes "a \<le> u64_max"
  shows "checked_add a b c = Inr n \<longleftrightarrow> a + b \<le> u64_max \<and> n = a + b"
proof -
  have "u64_add a b = a + b" if "a + b \<le> u64_max"
    using that by (intro u64_add_exact) (simp add: u64_max_def)
  with assms show ?thesis
    by (auto simp: checked_add_def)
qed

lemma checked_mul_add_eq:
  "rbind (checked_multiply a b c) (\<lambda>p. checked_add p r c') = Inr n \<longleftrightarrow> a * b + r \<le> u64_max \<and> n = a * b + r"
proof
  assume "rbind (checked_multiply a b c) (\<lambda>p. checked_add p r c') = Inr n"
  then show "a * b + r \<le> u64_max \<and> n = a * b + r"
    by (auto simp: rbind_eq_Inr checked_multiply_eq checked_add_eq)
next
  assume "a * b + r \<le> u64_max \<and> n = a * b + r"
  moreover from this have "checked_multiply a b c = Inr (a * b)"
    by (simp add: checked_multiply_eq)
  ultimately show "rbind (checked_multiply a b c) (\<lambda>p. checked_add p r c') = Inr n"
    by (simp add: checked_add_eq)
qed

definition mapper_ok :: "StackAddressMapper \<Rightarrow> bool" where
  "mapper_ok m \<longleftrightarrow> 0 < stack_count m \<and> 0 < interleave_bytes m \<and> (stack_kind m = Blocked \<longrightarrow> 0 < stack_capacity_bytes m)"

lemma StackAddressMapper_new_ok:
  "StackAddressMapper_new n il cap kind = Inr m \<longleftrightarrow>
     mapper_ok m \<and> m = \<lparr>stack_count = n, interleave_bytes = il, stack_capacity_bytes = cap, stack_kind = kind\<rparr>"
  by (auto simp: StackAddressMapper_new_def mapper_ok_def)

text \<open>The mathematical content of an encoding: where each local address lies in the system space.\<close>

definition stack_position :: "StackAddressMapper \<Rightarrow> nat \<Rightarrow> nat \<Rightarrow> nat" where
  "stack_position m s la =
     (if stack_count m = 1 then la
      else if stack_kind m = Blocked then s * stack_capacity_bytes m + la
      else (la div interleave_bytes m * nat (stack_count m) + s) * interleave_bytes m + la mod interleave_bytes m)"

definition local_ok :: "StackAddressMapper \<Rightarrow> nat \<Rightarrow> bool" where
  "local_ok m la \<longleftrightarrow> stack_capacity_bytes m = 0 \<or> la < stack_capacity_bytes m"

lemma stack_encode_eq:
  assumes "mapper_ok m" and "la \<le> u64_max"
  shows "stack_encode m s la = Inr a \<longleftrightarrow>
    0 \<le> s \<and> s < stack_count m \<and> local_ok m la \<and> a = stack_position m (nat s) la \<and> a \<le> u64_max"
proof (cases "0 \<le> s \<and> s < stack_count m \<and> local_ok m la \<and> stack_count m \<noteq> 1 \<and> stack_kind m \<noteq> Blocked")
  case True
  let ?x = "la div interleave_bytes m * nat (stack_count m) + nat s"
  let ?y = "?x * interleave_bytes m + la mod interleave_bytes m"
  have il: "0 < interleave_bytes m"
    using assms(1) by (simp add: mapper_ok_def)
  have x_le: "?x \<le> ?y"
  proof -
    have "x \<le> x * interleave_bytes m + r" for x r
      using il by (metis le_add1 le_trans mult.right_neutral mult_le_mono2 Suc_leI One_nat_def)
    then show ?thesis by blast
  qed
  have "stack_encode m s la = Inr a \<longleftrightarrow> ?x \<le> u64_max \<and> ?y \<le> u64_max \<and> a = ?y"
    using True by (auto simp: stack_encode_def local_ok_def Let_def rbind_eq_Inr [of "rbind _ _"] checked_mul_add_eq)
  with True x_le show ?thesis
    by (auto simp: stack_position_def)
next
  case False
  show ?thesis
    using False assms by (auto simp: stack_encode_def stack_position_def local_ok_def mapper_ok_def checked_mul_add_eq
        linorder_not_le linorder_not_less split: if_splits)
qed

lemma stack_decode_eq:
  assumes "mapper_ok m" and "a \<le> u64_max"
  shows "stack_decode m a = Inr \<lparr>sa_stack = s, sa_local_address = la\<rparr> \<longleftrightarrow>
    0 \<le> s \<and> s < stack_count m \<and> local_ok m la \<and> a = stack_position m (nat s) la"
proof -
  consider "stack_count m = 1" | "stack_count m > 1" "stack_kind m = Blocked" | "stack_count m > 1" "stack_kind m = Interleaved"
  proof -
    have "stack_count m = 1 \<or> stack_count m > 1"
      using assms(1) by (auto simp: mapper_ok_def)
    then show ?thesis
      using that by (cases "stack_kind m") blast+
  qed
  then show ?thesis
  proof cases
    case 1
    then show ?thesis
      by (auto simp: stack_decode_def stack_position_def local_ok_def)
  next
    case 2
    let ?c = "stack_capacity_bytes m"
    have c: "0 < ?c" using 2 assms(1) by (simp add: mapper_ok_def)
    have "stack_decode m a = Inr \<lparr>sa_stack = s, sa_local_address = la\<rparr> \<longleftrightarrow>
        a div ?c < nat (stack_count m) \<and> s = int (a div ?c) \<and> la = a mod ?c"
      using 2 by (auto simp: stack_decode_def Let_def)
    also have "\<dots> \<longleftrightarrow> 0 \<le> s \<and> s < stack_count m \<and> la < ?c \<and> a = nat s * ?c + la"
      using c by (auto simp: div_mult_mod_eq)
    also have "\<dots> \<longleftrightarrow> 0 \<le> s \<and> s < stack_count m \<and> local_ok m la \<and> a = stack_position m (nat s) la"
      using 2 c by (auto simp: stack_position_def local_ok_def)
    finally show ?thesis .
  next
    case 3
    define i where "i = interleave_bytes m"
    define n where "n = nat (stack_count m)"
    have i: "0 < i" and n: "0 < n"
      using 3 assms(1) by (auto simp: mapper_ok_def i_def n_def)
    let ?l = "a div i div n * i + a mod i"
    have "?l \<le> a"
      using mult_le_mono1 [OF div_le_dividend [of "a div i" n], of i] div_mult_mod_eq [of a i] by linarith
    then have fits: "?l \<le> u64_max"
      using assms(2) by linarith
    have "stack_decode m a = Inr \<lparr>sa_stack = s, sa_local_address = la\<rparr> \<longleftrightarrow>
        s = int (a div i mod n) \<and> la = ?l \<and> local_ok m ?l"
      using 3 fits by (auto simp: stack_decode_def Let_def rbind_eq_Inr [of "rbind _ _"] checked_mul_add_eq local_ok_def
          i_def [symmetric] n_def [symmetric])
    also have "\<dots> \<longleftrightarrow> 0 \<le> s \<and> s < int n \<and> local_ok m la \<and> a = (la div i * n + nat s) * i + la mod i"
    proof (intro iffI; elim conjE; intro conjI)
      assume s: "s = int (a div i mod n)" and l: "la = ?l"
      show "0 \<le> s" "s < int n" using n by (simp_all add: s)
      have "la div i = a div i div n" "la mod i = a mod i"
        using i by (simp_all add: l)
      then show "a = (la div i * n + nat s) * i + la mod i"
        by (simp add: s)
    next
      assume s: "0 \<le> s" "s < int n" and a: "a = (la div i * n + nat s) * i + la mod i"
      have "a div i = la div i * n + nat s" "a mod i = la mod i"
        using i by (simp_all add: a)
      moreover have "nat s < n" using s by linarith
      ultimately show "s = int (a div i mod n)" "la = ?l"
        using s(1) by simp_all
    next
      assume s: "0 \<le> s" "s < int n" and a: "a = (la div i * n + nat s) * i + la mod i" and ok: "local_ok m la"
      have "a div i = la div i * n + nat s" "a mod i = la mod i"
        using i by (simp_all add: a)
      moreover have "nat s < n" using s by linarith
      ultimately have "?l = la" by simp
      with ok show "local_ok m ?l" by simp
    qed simp
    also have "\<dots> \<longleftrightarrow> 0 \<le> s \<and> s < stack_count m \<and> local_ok m la \<and> a = stack_position m (nat s) la"
      using 3 by (auto simp: stack_position_def i_def n_def)
    finally show ?thesis .
  qed
qed

section \<open>Mixed-radix numerals\<close>

fun digits :: "int list \<Rightarrow> nat \<Rightarrow> int list" where
  "digits [] v = []"
| "digits (m # ms) v = int (v mod nat m) # digits ms (v div nat m)"

fun undigits :: "int list \<Rightarrow> int list \<Rightarrow> nat" where
  "undigits (m # ms) (d # ds) = nat d + nat m * undigits ms ds"
| "undigits _ _ = 0"

definition digit_ok :: "int \<Rightarrow> int \<Rightarrow> bool" where
  "digit_ok m d \<longleftrightarrow> 0 \<le> d \<and> d < m"

lemma digits_ok: "\<forall>m \<in> set ms. 0 < m \<Longrightarrow> list_all2 digit_ok ms (digits ms v)"
proof (induction ms arbitrary: v)
  case (Cons m ms)
  have "v mod nat m < nat m"
    using Cons.prems by simp
  then have "int (v mod nat m) < m" by linarith
  with Cons show ?case by (simp add: digit_ok_def del: of_nat_mod)
qed simp

lemma undigits_digits:
  "\<forall>m \<in> set ms. 0 < m \<Longrightarrow> int v < prod_list ms \<Longrightarrow> undigits ms (digits ms v) = v"
proof (induction ms arbitrary: v)
  case (Cons m ms)
  have m: "0 < m" using Cons.prems by simp
  have "int (v div nat m) = int v div m"
    using m by (simp add: zdiv_int)
  also have "\<dots> < prod_list ms"
  proof -
    have "m * (int v div m) \<le> int v"
      using m pos_mod_sign [of m "int v"] mult_div_mod_eq [of m "int v"] by linarith
    then have "m * (int v div m) < m * prod_list ms"
      using Cons.prems(2) by simp
    then show ?thesis using m by simp
  qed
  finally have "undigits ms (digits ms (v div nat m)) = v div nat m"
    using Cons by simp
  moreover have "nat (int (v mod nat m)) = v mod nat m" by (rule nat_int)
  ultimately show ?case
    by (simp only: digits.simps undigits.simps) simp
qed simp

lemma digits_undigits:
  "list_all2 digit_ok ms ds \<Longrightarrow> digits ms (undigits ms ds) = ds \<and> int (undigits ms ds) < prod_list ms"
proof (induction ms ds rule: list_all2_induct)
  case Nil
  then show ?case by simp
next
  case (Cons m ms d ds)
  let ?u = "undigits ms ds"
  have d: "0 \<le> d" "d < m" using Cons.hyps by (simp_all add: digit_ok_def)
  then have lt: "nat d < nat m" by simp
  have "int (nat d + nat m * ?u) = d + m * int ?u"
    using d by simp
  also have "\<dots> < m + m * int ?u" using d by simp
  also have "\<dots> = m * (int ?u + 1)" by (simp add: algebra_simps)
  also have "\<dots> \<le> m * prod_list ms"
    using Cons.IH d by (intro mult_left_mono) auto
  finally have "int (nat d + nat m * ?u) < m * prod_list ms" .
  moreover have "(nat d + nat m * ?u) mod nat m = nat d" "(nat d + nat m * ?u) div nat m = ?u"
    using lt by simp_all
  ultimately show ?case
    using Cons.IH d(1) by (simp only: digits.simps undigits.simps) simp
qed

section \<open>The templates as numerals\<close>

definition decode_line :: "DramSpec \<Rightarrow> nat \<Rightarrow> DecodedAddress" where
  "decode_line spec line = (case ds_address_mapping spec of
       MapDefault \<Rightarrow> decode_default spec line
     | RoBaRaCoCh \<Rightarrow> decode_RoBaRaCoCh spec line
     | ChRaBaRoCo \<Rightarrow> decode_ChRaBaRoCo spec line
     | RoCoRaBaCh \<Rightarrow> decode_RoCoRaBaCh spec line)"

definition radices :: "DramSpec \<Rightarrow> int list" where
  "radices spec = (let org = ds_org spec;
     ba = [banks_per_group org, bank_groups org, pseudo_channels org, sids org] in
     case ds_address_mapping spec of
       MapDefault \<Rightarrow> [columns org] @ ba @ [ranks org, channels org, rows org]
     | RoBaRaCoCh \<Rightarrow> [channels org, columns org, ranks org] @ ba @ [rows org]
     | ChRaBaRoCo \<Rightarrow> [columns org, rows org] @ ba @ [ranks org, channels org]
     | RoCoRaBaCh \<Rightarrow> [channels org] @ ba @ [ranks org, columns org, rows org])"

definition coords :: "AddressMappingKind \<Rightarrow> DecodedAddress \<Rightarrow> int list" where
  "coords k d = (let ba = [bank d, bank_group d, pseudo_channel d, sid d] in
     case k of
       MapDefault \<Rightarrow> [column d] @ ba @ [rank d, channel d, row d]
     | RoBaRaCoCh \<Rightarrow> [channel d, column d, rank d] @ ba @ [row d]
     | ChRaBaRoCo \<Rightarrow> [column d, row d] @ ba @ [rank d, channel d]
     | RoCoRaBaCh \<Rightarrow> [channel d] @ ba @ [rank d, column d, row d])"

definition in_range :: "DramSpec \<Rightarrow> DecodedAddress \<Rightarrow> bool" where
  "in_range spec d \<longleftrightarrow> (let org = ds_org spec in
     digit_ok (channels org) (channel d) \<and> digit_ok (pseudo_channels org) (pseudo_channel d)
     \<and> digit_ok (sids org) (sid d) \<and> digit_ok (ranks org) (rank d) \<and> digit_ok (bank_groups org) (bank_group d)
     \<and> digit_ok (banks_per_group org) (bank d) \<and> digit_ok (rows org) (row d) \<and> digit_ok (columns org) (column d))"

lemma coords_inj: "coords k d = coords k e \<longleftrightarrow> d = e"
  by (cases k) (auto simp: coords_def intro: DecodedAddress.equality)

lemma coords_in_range: "list_all2 digit_ok (radices spec) (coords (ds_address_mapping spec) d) \<longleftrightarrow> in_range spec d"
  by (cases "ds_address_mapping spec") (auto simp: coords_def radices_def in_range_def Let_def)

lemma radices_pos: "dims_ok spec \<Longrightarrow> \<forall>m \<in> set (radices spec). 0 < m"
  by (cases "ds_address_mapping spec") (simp_all add: radices_def dims_ok_def Let_def)

lemma radices_prod: "prod_list (radices spec) = bank_total spec * rows (ds_org spec) * columns (ds_org spec)"
  by (cases "ds_address_mapping spec") (simp_all add: radices_def bank_total_def Let_def ac_simps)

lemma take_mod_pos: "0 < m \<Longrightarrow> take_mod v m = (int (v mod nat m), v div nat m)"
  by (simp add: take_mod_def Let_def max_def)

lemma coords_decode_line:
  assumes "dims_ok spec"
  shows "coords (ds_address_mapping spec) (decode_line spec line) = digits (radices spec) line"
proof -
  have pos: "0 < channels (ds_org spec)" "0 < pseudo_channels (ds_org spec)" "0 < sids (ds_org spec)"
    "0 < ranks (ds_org spec)" "0 < bank_groups (ds_org spec)" "0 < banks_per_group (ds_org spec)"
    "0 < rows (ds_org spec)" "0 < columns (ds_org spec)"
    using assms by (simp_all add: dims_ok_def Let_def)
  show ?thesis
    by (cases "ds_address_mapping spec")
      (simp_all add: pos coords_def radices_def decode_line_def decode_default_def decode_RoBaRaCoCh_def
        decode_ChRaBaRoCo_def decode_RoCoRaBaCh_def take_bank_composite_def take_mod_pos Let_def
        del: of_nat_mod)
qed

lemma decode_line_bij:
  assumes "dims_ok spec"
  shows "bij_betw (decode_line spec) {line. int line < prod_list (radices spec)} {d. in_range spec d}"
proof (rule bij_betw_imageI)
  show "inj_on (decode_line spec) {line. int line < prod_list (radices spec)}"
  proof (rule inj_onI, simp)
    fix v w
    assume "int v < prod_list (radices spec)" "int w < prod_list (radices spec)" "decode_line spec v = decode_line spec w"
    then show "v = w"
      by (metis assms coords_decode_line radices_pos undigits_digits)
  qed
  show "decode_line spec ` {line. int line < prod_list (radices spec)} = {d. in_range spec d}"
  proof (intro equalityI subsetI)
    fix d assume "d \<in> decode_line spec ` {line. int line < prod_list (radices spec)}"
    then obtain v where "d = decode_line spec v" by blast
    then show "d \<in> {d. in_range spec d}"
      using digits_ok [OF radices_pos [OF assms], of v] coords_decode_line [OF assms, of v] coords_in_range [of spec d]
      by simp
  next
    fix d assume "d \<in> {d. in_range spec d}"
    then have "list_all2 digit_ok (radices spec) (coords (ds_address_mapping spec) d)"
      by (simp add: coords_in_range)
    from digits_undigits [OF this] obtain v where "digits (radices spec) v = coords (ds_address_mapping spec) d"
      "int v < prod_list (radices spec)" by blast
    moreover from this have "decode_line spec v = d"
      using coords_decode_line [OF assms, of v] coords_inj [of "ds_address_mapping spec"] by simp
    ultimately show "d \<in> decode_line spec ` {line. int line < prod_list (radices spec)}" by blast
  qed
qed

lemma decode_eq_line:
  "decode spec a = apply_lpddr_efficiency spec (decode_line spec (a div nat (transaction_bytes spec)))"
proof -
  have "max 1 (transaction_bytes spec) = transaction_bytes spec"
    using transaction_bytes_pos [of spec] by linarith
  then show ?thesis by (simp add: decode_def decode_line_def Let_def)
qed

section \<open>The bank number\<close>

lemma radix_step: "digit_ok n y \<Longrightarrow> digit_ok m x \<Longrightarrow> digit_ok (m * n) (x * n + y)"
proof -
  assume "digit_ok n y" "digit_ok m x"
  then have y: "0 \<le> y" "y < n" and x: "0 \<le> x" "x < m" by (simp_all add: digit_ok_def)
  have "x * n + y < (x + 1) * n" using y by (simp add: algebra_simps)
  also have "\<dots> \<le> m * n" using x y by (intro mult_right_mono) auto
  finally show ?thesis using x y by (simp add: digit_ok_def)
qed

lemma radix_inj: "digit_ok n y \<Longrightarrow> digit_ok n y' \<Longrightarrow> x * n + y = x' * n + y' \<longleftrightarrow> x = x' \<and> y = y'"
proof
  assume ok: "digit_ok n y" "digit_ok n y'" and eq: "x * n + y = x' * n + y'"
  from ok have y: "(x * n + y) mod n = y" "(x' * n + y') mod n = y'" and n: "n \<noteq> 0"
    by (auto simp: digit_ok_def)
  then have "y = y'" using eq by metis
  with eq n show "x = x' \<and> y = y'" by simp
qed simp

definition same_bank :: "DecodedAddress \<Rightarrow> DecodedAddress \<Rightarrow> bool" where
  "same_bank d e \<longleftrightarrow> channel d = channel e \<and> pseudo_channel d = pseudo_channel e \<and> sid d = sid e
     \<and> rank d = rank e \<and> bank_group d = bank_group e \<and> bank d = bank e"

lemma flat_bank_range: "in_range spec d \<Longrightarrow> digit_ok (bank_total spec) (flat_bank spec d)"
  unfolding flat_bank_def bank_total_def Let_def in_range_def by (intro radix_step) simp_all

lemma flat_bank_inj:
  "in_range spec d \<Longrightarrow> in_range spec e \<Longrightarrow> flat_bank spec d = flat_bank spec e \<longleftrightarrow> same_bank d e"
  unfolding in_range_def Let_def flat_bank_def same_bank_def by (simp add: radix_inj)

section \<open>Properties\<close>

text \<open>
  C32: For every mapper the constructor accepts, decoding a system address yields a stack and a local
  address exactly when encoding that stack and local address yields the system address: the two
  directions are inverse to each other on 64-bit addresses, in both mapping kinds, and fail together.
\<close>

theorem stack_mapper_round_trip:
  assumes "StackAddressMapper_new n il cap kind = Inr m" and "a \<le> u64_max" and "la \<le> u64_max"
  shows "stack_decode m a = Inr \<lparr>sa_stack = s, sa_local_address = la\<rparr> \<longleftrightarrow> stack_encode m s la = Inr a"
proof -
  have "mapper_ok m" using assms(1) unfolding StackAddressMapper_new_ok by blast
  then show ?thesis
    using assms(2,3) by (auto simp: stack_decode_eq stack_encode_eq)
qed

theorem stack_mapper_round_trip_witness:
  "stack_encode \<lparr>stack_count = 4, interleave_bytes = 256, stack_capacity_bytes = 0, stack_kind = Interleaved\<rparr> 1 260 = Inr 1284"
  using stack_mapper_round_trip [of 4 256 0 Interleaved
      "\<lparr>stack_count = 4, interleave_bytes = 256, stack_capacity_bytes = 0, stack_kind = Interleaved\<rparr>" 1284 260 1]
  by (simp add: StackAddressMapper_new_def u64_max_def stack_decode_def Let_def checked_multiply_def checked_add_def
      u64_mul_def u64_add_def)

text \<open>
  C31: Outside the LPDDR efficiency modes, every mapping template is a bijection between the
  transactions of the device and its DRAM coordinates: distinct transactions never share a
  coordinate, every coordinate is in range and every coordinate is addressed; the bytes of one
  transaction share its coordinate.
\<close>

theorem decode_bijective:
  assumes "total_addressable_transactions spec = Inr n"
    and "\<not> (ds_lpddr_family spec \<and> ds_lpddr_efficiency_mode spec \<noteq> EffNormal)"
  shows "bij_betw (\<lambda>t. decode spec (t * nat (transaction_bytes spec))) {..<n} {d. in_range spec d}
    \<and> decode spec a = decode spec (a div nat (transaction_bytes spec) * nat (transaction_bytes spec))"
proof -
  have dims: "dims_ok spec" and n: "int n = prod_list (radices spec)"
    using assms(1) unfolding total_addressable_transactions_def Let_def checked_product_eq radices_prod
    by (simp_all add: dims_ok_def Let_def bank_total_def mult.assoc)
  have eff: "apply_lpddr_efficiency spec d = d" for d
    using assms(2) by (auto simp: apply_lpddr_efficiency_def)
  have tb: "0 < nat (transaction_bytes spec)" by simp
  have line: "decode spec (t * nat (transaction_bytes spec)) = decode_line spec t" for t
    using tb by (simp add: decode_eq_line eff)
  moreover have "{..<n} = {line. int line < prod_list (radices spec)}"
    by (auto simp: n [symmetric])
  ultimately show ?thesis
    using decode_line_bij [OF dims] by (simp add: decode_eq_line eff)
qed

theorem decode_bijective_witness:
  "bij_betw (\<lambda>t. decode DramSpec_init (t * nat (transaction_bytes DramSpec_init))) {..<33554432}
     {d. in_range DramSpec_init d}"
  using decode_bijective [of DramSpec_init 33554432]
  by (simp add: total_addressable_transactions_def checked_product_def DramSpec_init_def Organization_init_def
      Let_def u64_max_def u64_mul_def)

text \<open>
  The flat bank number of an in-range coordinate is a valid index of the bank arrays, and two
  coordinates share it exactly when they name the same bank.
\<close>

theorem flat_bank_index:
  assumes "dims_ok spec" and "total_banks spec = Inr n" and "in_range spec d" and "in_range spec e"
  shows "0 \<le> flat_bank spec d \<and> flat_bank spec d < n \<and> n \<le> int_max
    \<and> (flat_bank spec d = flat_bank spec e \<longleftrightarrow> same_bank d e)"
  using assms flat_bank_range [of spec d] flat_bank_inj [of spec d e] total_banks_eq [of spec n]
  by (simp add: digit_ok_def)

theorem flat_bank_index_witness:
  "0 \<le> flat_bank DramSpec_init (DecodedAddress_init\<lparr>bank_group := 2, bank := 3\<rparr>)
    \<and> flat_bank DramSpec_init (DecodedAddress_init\<lparr>bank_group := 2, bank := 3\<rparr>) < 16"
  using flat_bank_index [of DramSpec_init 16 "DecodedAddress_init\<lparr>bank_group := 2, bank := 3\<rparr>" DecodedAddress_init]
  by (simp add: dims_ok_def total_banks_def checked_product_def as_int_def in_range_def digit_ok_def DramSpec_init_def
      Organization_init_def DecodedAddress_init_def Let_def u64_max_def u64_mul_def int_max_def)

text \<open>
  In an LPDDR efficiency mode the pseudo channel is cleared after the decoding, although the
  capacity still counts it: two transactions within the capacity then share a coordinate.
\<close>

lemma efficiency_mode_aliases:
  assumes "total_addressable_transactions spec = Inr n" and "ds_lpddr_family spec"
    and "ds_lpddr_efficiency_mode spec = EffStatic" and "1 < pseudo_channels (ds_org spec)"
  shows "\<exists>t u. t < n \<and> u < n \<and> t \<noteq> u
    \<and> decode spec (t * nat (transaction_bytes spec)) = decode spec (u * nat (transaction_bytes spec))"
proof -
  have dims: "dims_ok spec" and n: "int n = prod_list (radices spec)"
    using assms(1) unfolding total_addressable_transactions_def Let_def checked_product_eq radices_prod
    by (simp_all add: dims_ok_def Let_def bank_total_def mult.assoc)
  let ?d = "DecodedAddress_init" and ?e = "DecodedAddress_init\<lparr>pseudo_channel := 1\<rparr>"
  have range: "in_range spec ?d" "in_range spec ?e"
    using dims assms(4) by (simp_all add: in_range_def digit_ok_def DecodedAddress_init_def dims_ok_def Let_def)
  have img: "decode_line spec ` {line. int line < prod_list (radices spec)} = {d. in_range spec d}"
    using decode_line_bij [OF dims] by (simp add: bij_betw_def)
  obtain t where t: "int t < prod_list (radices spec)" "decode_line spec t = ?d"
    using range(1) img by (metis (mono_tags, lifting) imageE mem_Collect_eq)
  obtain u where u: "int u < prod_list (radices spec)" "decode_line spec u = ?e"
    using range(2) img by (metis (mono_tags, lifting) imageE mem_Collect_eq)
  have "t \<noteq> u" using t(2) u(2) by (auto simp: DecodedAddress_init_def)
  moreover have "decode spec (t * nat (transaction_bytes spec)) = decode spec (u * nat (transaction_bytes spec))"
    using assms(2,3) t(2) u(2) by (simp add: decode_eq_line apply_lpddr_efficiency_def DecodedAddress_init_def)
  moreover have "t < n" "u < n"
    using t(1) u(1) n by linarith+
  ultimately show ?thesis by blast
qed

end
