(* ===== verification/Dram_Semantics.thy ===== *)
theory Dram_Semantics
  imports Addr_Map
begin

text \<open>
  Command semantics of the DRAM controller (\<open>dram/semantics.hpp\<close>, \<open>dram/semantics.cpp\<close>,
  \<open>dram/state.hpp\<close>, \<open>dram/state.cpp\<close>): the metadata table every module consults to classify a
  command, the choice of the data command by row policy, the bank pair of a dual-bank refresh, and
  the state machine that says which command is legal in which bank state. The lemmas relate the
  table and the state machine, which the sources keep in two places.
\<close>

section \<open>Metadata\<close>

record CommandMeta =
  cm_name :: string
  cm_row_command :: bool
  cm_column_command :: bool
  cm_activate :: bool
  cm_precharge :: bool
  cm_cas :: bool
  cm_data :: bool
  cm_refresh :: bool
  cm_rfm :: bool
  cm_opening :: bool
  cm_closing :: bool
  cm_accessing :: bool
  cm_all_bank :: bool
  cm_auto_precharge :: bool
  cm_mode_register :: bool
  cm_training :: bool
  cm_power :: bool
  cm_ras :: bool

definition meta :: "string \<Rightarrow> bool \<Rightarrow> bool \<Rightarrow> bool \<Rightarrow> bool \<Rightarrow> bool \<Rightarrow> bool \<Rightarrow> bool \<Rightarrow> bool \<Rightarrow> bool \<Rightarrow> bool \<Rightarrow> bool \<Rightarrow> bool \<Rightarrow> bool \<Rightarrow> bool \<Rightarrow> bool \<Rightarrow> bool \<Rightarrow> bool \<Rightarrow> CommandMeta" where
  "meta n f1 f2 f3 f4 f5 f6 f7 f8 f9 f10 f11 f12 f13 f14 f15 f16 f17 = \<lparr>cm_name = n, cm_row_command = f1, cm_column_command = f2, cm_activate = f3, cm_precharge = f4, cm_cas = f5, cm_data = f6, cm_refresh = f7, cm_rfm = f8, cm_opening = f9, cm_closing = f10, cm_accessing = f11, cm_all_bank = f12, cm_auto_precharge = f13, cm_mode_register = f14, cm_training = f15, cm_power = f16, cm_ras = f17\<rparr>"

definition kMeta :: "CommandMeta list" where
  "kMeta =
    [meta ''ACT'' True False True False False False False False True False False False False False False False False,
     meta ''ACT1'' True False True False False False False False True False False False False False False False False,
     meta ''ACT2'' True False False False False False False False False False False False False False False False False,
     meta ''PRE'' True False False True False False False False False True False False False False False False False,
     meta ''PREpb'' True False False True False False False False False True False False False False False False False,
     meta ''PREab'' True False False True False False False False False True False True False False False False False,
     meta ''CAS_RD'' False True False False True False False False False False False False False False False False False,
     meta ''CAS_WR'' False True False False True False False False False False False False False False False False False,
     meta ''RD'' False True False False False True False False False False True False False False False False False,
     meta ''WR'' False True False False False True False False False False True False False False False False False,
     meta ''RDA'' False True False False False True False False False True True False True False False False False,
     meta ''WRA'' False True False False False True False False False True True False True False False False False,
     meta ''REFab'' True False False False False False True False False False False True False False False False False,
     meta ''REFpb'' True False False False False False True False False False False False False False False False False,
     meta ''REFdb'' True False False False False False True False False False False False False False False False False,
     meta ''RFMab'' True False False False False False False True False False False True False False False False False,
     meta ''RFMpb'' True False False False False False False True False False False False False False False False False,
     meta ''MRW'' True False False False False False False False False False False True False True False False False,
     meta ''MRR'' True False False False False False False False False False False True False True False False False,
     meta ''WCK_SYNC'' False True False False True False False False False False False False False False True False False,
     meta ''WCK_TRAIN'' True False False False False False False False False False False True False False True False False,
     meta ''DVFS'' True False False False False False False False False False False True False False False True False,
     meta ''PDE'' True False False False False False False False False False False True False False False True False,
     meta ''PDX'' True False False False False False False False False False False True False False False True False,
     meta ''SREFEN'' True False False False False False False False False False False True False False False True False,
     meta ''SREFEX'' True False False False False False False False False False False True False False False True False,
     meta ''ECC_SCRUB'' True False False False False False False False False False False True False False False False True,
     meta ''RAS_ERR'' True False False False False False False False False False False True False False False False True,
     meta ''NOP'' False False False False False False False False False False False False False False False False False]"

definition command_meta :: "Command \<Rightarrow> CommandMeta" where
  "command_meta cmd = kMeta ! command_index cmd"

definition read_command_for :: "RowPolicyKind \<Rightarrow> Command" where
  "read_command_for row_policy = (if row_policy = ClosedPage then RDA else RD)"

definition write_command_for :: "RowPolicyKind \<Rightarrow> Command" where
  "write_command_for row_policy = (if row_policy = ClosedPage then WRA else WR)"

definition lpddr_refdb_partner :: "DramSpec \<Rightarrow> DecodedAddress \<Rightarrow> DecodedAddress" where
  "lpddr_refdb_partner spec decoded =
     (let groups = max 1 (bank_groups (ds_org spec))
      in if groups < 2 then decoded
         else let g = bank_group decoded XOR 1
              in decoded\<lparr>bank_group := (if g \<ge> groups then bank_group decoded else g)\<rparr>)"

section \<open>The legality state machine\<close>

datatype BankProtocolState = BankClosed | BankActivating | BankOpened

record CommandStateSnapshot =
  ss_bank_state :: BankProtocolState
  ss_row_hit :: bool
  ss_wck_ready :: bool
  ss_any_bank_busy :: bool
  ss_split_activate :: bool
  ss_lpddr_family :: bool
  ss_maintenance :: bool
  ss_issued_first_activate :: bool
  ss_low_power_active :: bool
  ss_self_refresh_active :: bool
  ss_training_active :: bool
  ss_dvfs_transition_active :: bool
  ss_wck_training_required :: bool
  ss_ras_ecc_supported :: bool
  ss_link_retry_supported :: bool

definition check_command_state :: "CommandStateSnapshot \<Rightarrow> Command \<Rightarrow> bool \<times> string" where
  "check_command_state state cmd = (case cmd of
     ACT \<Rightarrow> (\<not> ss_split_activate state \<and> ss_bank_state state = BankClosed, ''ACT requires a closed non-split bank'')
   | ACT1 \<Rightarrow> (ss_split_activate state \<and> ss_bank_state state = BankClosed, ''ACT1 requires a closed split-activate bank'')
   | ACT2 \<Rightarrow> (ss_split_activate state \<and> ss_bank_state state = BankActivating \<and> ss_issued_first_activate state, ''ACT2 requires the owning ACT1 request'')
   | PRE \<Rightarrow> (ss_bank_state state = BankOpened, ''PREpb requires an opened bank'')
   | PREPB \<Rightarrow> (ss_bank_state state = BankOpened, ''PREpb requires an opened bank'')
   | PREAB \<Rightarrow> (ss_any_bank_busy state, ''PREab requires at least one busy bank'')
   | CASRD \<Rightarrow> (ss_lpddr_family state \<and> ss_bank_state state = BankOpened \<and> ss_row_hit state \<and> \<not> ss_wck_training_required state, ''CAS requires an opened LPDDR row and no pending WCK training'')
   | CASWR \<Rightarrow> (ss_lpddr_family state \<and> ss_bank_state state = BankOpened \<and> ss_row_hit state \<and> \<not> ss_wck_training_required state, ''CAS requires an opened LPDDR row and no pending WCK training'')
   | RD \<Rightarrow> (ss_bank_state state = BankOpened \<and> ss_row_hit state \<and> (\<not> ss_lpddr_family state \<or> (ss_wck_ready state \<and> \<not> ss_wck_training_required state)), ''RD/WR requires row hit and, for LPDDR, trained active WCK'')
   | WR \<Rightarrow> (ss_bank_state state = BankOpened \<and> ss_row_hit state \<and> (\<not> ss_lpddr_family state \<or> (ss_wck_ready state \<and> \<not> ss_wck_training_required state)), ''RD/WR requires row hit and, for LPDDR, trained active WCK'')
   | RDA \<Rightarrow> (ss_bank_state state = BankOpened \<and> ss_row_hit state \<and> (\<not> ss_lpddr_family state \<or> (ss_wck_ready state \<and> \<not> ss_wck_training_required state)), ''RD/WR requires row hit and, for LPDDR, trained active WCK'')
   | WRA \<Rightarrow> (ss_bank_state state = BankOpened \<and> ss_row_hit state \<and> (\<not> ss_lpddr_family state \<or> (ss_wck_ready state \<and> \<not> ss_wck_training_required state)), ''RD/WR requires row hit and, for LPDDR, trained active WCK'')
   | REFAB \<Rightarrow> (ss_maintenance state \<and> \<not> ss_any_bank_busy state, ''all-bank maintenance requires all banks idle'')
   | REFPB \<Rightarrow> (ss_maintenance state \<and> ss_bank_state state = BankClosed, ''per-bank maintenance requires a closed target bank'')
   | REFDB \<Rightarrow> (ss_maintenance state \<and> ss_bank_state state = BankClosed, ''per-bank maintenance requires a closed target bank'')
   | RFMAB \<Rightarrow> (ss_maintenance state \<and> \<not> ss_any_bank_busy state, ''all-bank maintenance requires all banks idle'')
   | RFMPB \<Rightarrow> (ss_maintenance state \<and> ss_bank_state state = BankClosed, ''per-bank maintenance requires a closed target bank'')
   | MRW \<Rightarrow> (ss_maintenance state \<and> \<not> ss_any_bank_busy state \<and> \<not> ss_low_power_active state \<and> \<not> ss_self_refresh_active state \<and> \<not> ss_training_active state \<and> \<not> ss_dvfs_transition_active state, ''mode register access requires an idle channel outside low-power/training/DVFS'')
   | MRR \<Rightarrow> (ss_maintenance state \<and> \<not> ss_any_bank_busy state \<and> \<not> ss_low_power_active state \<and> \<not> ss_self_refresh_active state \<and> \<not> ss_training_active state \<and> \<not> ss_dvfs_transition_active state, ''mode register access requires an idle channel outside low-power/training/DVFS'')
   | WCKSYNC \<Rightarrow> (ss_lpddr_family state \<and> \<not> ss_low_power_active state \<and> \<not> ss_self_refresh_active state \<and> \<not> ss_training_active state \<and> \<not> ss_dvfs_transition_active state \<and> \<not> ss_wck_training_required state, ''WCK sync requires LPDDR mode outside low-power/training/DVFS and no pending WCK training'')
   | WCKTRAIN \<Rightarrow> (ss_lpddr_family state \<and> ss_maintenance state \<and> \<not> ss_any_bank_busy state \<and> \<not> ss_low_power_active state \<and> \<not> ss_self_refresh_active state \<and> \<not> ss_dvfs_transition_active state, ''WCK training requires an idle LPDDR channel'')
   | DVFS \<Rightarrow> (ss_lpddr_family state \<and> ss_maintenance state \<and> \<not> ss_any_bank_busy state \<and> \<not> ss_low_power_active state \<and> \<not> ss_self_refresh_active state \<and> \<not> ss_training_active state, ''DVFS transition requires an idle LPDDR channel'')
   | PDE \<Rightarrow> (ss_maintenance state \<and> \<not> ss_any_bank_busy state \<and> \<not> ss_low_power_active state \<and> \<not> ss_self_refresh_active state \<and> \<not> ss_training_active state \<and> \<not> ss_dvfs_transition_active state, ''power-down entry requires an idle active channel'')
   | PDX \<Rightarrow> (ss_maintenance state \<and> ss_low_power_active state \<and> \<not> ss_self_refresh_active state, ''power-down exit requires power-down state'')
   | SREFEN \<Rightarrow> (ss_maintenance state \<and> \<not> ss_any_bank_busy state \<and> \<not> ss_self_refresh_active state \<and> \<not> ss_training_active state \<and> \<not> ss_dvfs_transition_active state, ''self-refresh entry requires an idle active channel'')
   | SREFEX \<Rightarrow> (ss_maintenance state \<and> ss_self_refresh_active state, ''self-refresh exit requires self-refresh state'')
   | ECCSCRUB \<Rightarrow> (ss_maintenance state \<and> ss_ras_ecc_supported state \<and> \<not> ss_any_bank_busy state \<and> \<not> ss_low_power_active state \<and> \<not> ss_self_refresh_active state, ''ECC scrub requires RAS/ECC support and an idle channel'')
   | RASERR \<Rightarrow> (ss_maintenance state \<and> (ss_ras_ecc_supported state \<or> ss_link_retry_supported state) \<and> \<not> ss_training_active state \<and> \<not> ss_dvfs_transition_active state, ''RAS/link recovery requires RAS/ECC or link retry support'')
   | NOP \<Rightarrow> (False, ''NOP is not issuable''))"

section \<open>Lemmas\<close>

lemma refdb_pairs:
  assumes "ds_lpddr_dual_bank_refresh spec" and "validate_spec fc spec = Inr ()"
  shows "2 \<le> bank_groups (ds_org spec)" "even (bank_groups (ds_org spec))"
  using assms by (auto simp: validate_spec_def validate_modes_def Let_def rbind_eq_Inr)

lemma refdb_partner_group:
  assumes "2 \<le> bank_groups (ds_org spec)" "even (bank_groups (ds_org spec))"
    and "digit_ok (bank_groups (ds_org spec)) (bank_group d)"
  shows "lpddr_refdb_partner spec d = d\<lparr>bank_group := (if even (bank_group d) then bank_group d + 1 else bank_group d - 1)\<rparr>"
proof -
  have "bank_group d XOR 1 = (if even (bank_group d) then bank_group d + 1 else bank_group d - 1)"
    by (simp add: xor_one_eq)
  moreover have "bank_group d + 1 < bank_groups (ds_org spec)" if "even (bank_group d)"
  proof -
    have "bank_group d + 1 \<noteq> bank_groups (ds_org spec)"
      using that assms(2) by presburger
    with assms(3) show ?thesis by (simp add: digit_ok_def)
  qed
  ultimately show ?thesis
    using assms by (auto simp: lpddr_refdb_partner_def Let_def digit_ok_def)
qed

lemma partner_in_range:
  assumes "validate_spec fc spec = Inr ()" and "ds_lpddr_dual_bank_refresh spec" and "in_range spec d"
  shows "in_range spec (lpddr_refdb_partner spec d)"
proof -
  note g = refdb_pairs [OF assms(2,1)]
  have ok: "digit_ok (bank_groups (ds_org spec)) (bank_group d)"
    using assms(3) by (simp add: in_range_def Let_def)
  have "bank_group d + 1 \<noteq> bank_groups (ds_org spec)" if "even (bank_group d)"
    using that g(2) by presburger
  moreover have "0 < bank_group d" if "odd (bank_group d)"
    using that ok by (metis digit_ok_def even_zero le_less)
  ultimately show ?thesis
    using ok assms(3) by (auto simp: refdb_partner_group [OF g ok] in_range_def digit_ok_def Let_def)
qed

section \<open>Properties\<close>

text \<open>
  A command the state machine calls legal respects the class the metadata table gives it: opening
  commands need a closed bank, closing and accessing commands of a single bank an opened one, data
  commands a row hit and, on LPDDR, a trained WCK, refresh and RFM commands a maintenance request
  with the target bank closed or, for their all-bank forms, every bank idle; and every legal command
  belongs to exactly one of the row and the column bus.
\<close>

theorem legal_command_respects_class:
  assumes "fst (check_command_state st cmd)"
  shows "(cm_opening (command_meta cmd) \<longrightarrow> ss_bank_state st = BankClosed)
    \<and> (cm_closing (command_meta cmd) \<and> \<not> cm_all_bank (command_meta cmd) \<longrightarrow> ss_bank_state st = BankOpened)
    \<and> (cm_accessing (command_meta cmd) \<longrightarrow> ss_bank_state st = BankOpened \<and> ss_row_hit st
         \<and> (ss_lpddr_family st \<longrightarrow> ss_wck_ready st \<and> \<not> ss_wck_training_required st))
    \<and> (cm_refresh (command_meta cmd) \<or> cm_rfm (command_meta cmd) \<longrightarrow> ss_maintenance st
         \<and> (if cm_all_bank (command_meta cmd) then \<not> ss_any_bank_busy st else ss_bank_state st = BankClosed))
    \<and> (cm_mode_register (command_meta cmd) \<or> cm_power (command_meta cmd) \<or> cm_ras (command_meta cmd) \<longrightarrow> ss_maintenance st)
    \<and> cm_row_command (command_meta cmd) \<noteq> cm_column_command (command_meta cmd)"
  using assms by (cases cmd) (simp_all add: command_meta_def kMeta_def meta_def check_command_state_def)

theorem legal_command_respects_class_witness:
  "cm_accessing (command_meta RDA) \<and> ss_bank_state \<lparr>ss_bank_state = BankOpened, ss_row_hit = True, ss_wck_ready = True,
     ss_any_bank_busy = True, ss_split_activate = False, ss_lpddr_family = False, ss_maintenance = False,
     ss_issued_first_activate = False, ss_low_power_active = False, ss_self_refresh_active = False,
     ss_training_active = False, ss_dvfs_transition_active = False, ss_wck_training_required = False,
     ss_ras_ecc_supported = False, ss_link_retry_supported = False\<rparr> = BankOpened"
  using legal_command_respects_class [of "\<lparr>ss_bank_state = BankOpened, ss_row_hit = True, ss_wck_ready = True,
     ss_any_bank_busy = True, ss_split_activate = False, ss_lpddr_family = False, ss_maintenance = False,
     ss_issued_first_activate = False, ss_low_power_active = False, ss_self_refresh_active = False,
     ss_training_active = False, ss_dvfs_transition_active = False, ss_wck_training_required = False,
     ss_ras_ecc_supported = False, ss_link_retry_supported = False\<rparr>" RDA]
  by (simp add: command_meta_def kMeta_def meta_def check_command_state_def)

text \<open>
  On a validated specification with dual-bank refresh, the two targets of a REFdb are two
  different banks of the device that differ only in the bank group, the pairing is symmetric, and the
  pair number with which the timing engine indexes its sweep is the same for both.
\<close>

theorem refdb_partner_pairs:
  assumes "validate_spec fc spec = Inr ()" and "ds_lpddr_dual_bank_refresh spec" and "in_range spec d"
  shows "in_range spec (lpddr_refdb_partner spec d) \<and> lpddr_refdb_partner spec (lpddr_refdb_partner spec d) = d
    \<and> bank_group (lpddr_refdb_partner spec d) \<noteq> bank_group d
    \<and> bank_group (lpddr_refdb_partner spec d) div 2 = bank_group d div 2
    \<and> lpddr_refdb_partner spec d = d\<lparr>bank_group := bank_group (lpddr_refdb_partner spec d)\<rparr>"
proof -
  note g = refdb_pairs [OF assms(2,1)]
  have ok: "digit_ok (bank_groups (ds_org spec)) (bank_group d)"
    using assms(3) by (simp add: in_range_def Let_def)
  note p = refdb_partner_group [OF g ok]
  note r' = partner_in_range [OF assms]
  have ok': "digit_ok (bank_groups (ds_org spec)) (bank_group (lpddr_refdb_partner spec d))"
    using r' by (simp add: in_range_def Let_def)
  have "lpddr_refdb_partner spec (lpddr_refdb_partner spec d) = d"
    unfolding refdb_partner_group [OF g ok'] unfolding p by simp
  moreover note r'
  moreover have "bank_group (lpddr_refdb_partner spec d) div 2 = bank_group d div 2"
    by (simp add: p) presburger
  ultimately show ?thesis
    by (simp add: p)
qed

definition lpddr6_demo :: DramSpec where
  "lpddr6_demo = DramSpec_init\<lparr>ds_standard := Lpddr6, ds_speed_bin_mbps := 6400, ds_lpddr_family := True,
     ds_split_activate := True, ds_lpddr_dual_bank_refresh := True, ds_lpddr_wck_ratio := 2\<rparr>"

definition demo_float :: FloatChecks where
  "demo_float = \<lparr>fc_positive = True, fc_density = (\<lambda>_ _. True), fc_tck = (\<lambda>_. True)\<rparr>"

lemma lpddr6_demo_valid: "validate_spec demo_float lpddr6_demo = Inr ()"
  by (simp add: validate_spec_def validate_geometry_def validate_clock_def validate_modes_def check_def
      non_negative_fields_def lpddr6_demo_def demo_float_def DramSpec_init_def Organization_init_def Timing_init_def
      addressable_capacity_bytes_def total_addressable_transactions_def checked_product_def transaction_bytes_def
      u64_max_def u64_mul_def Let_def)

theorem refdb_partner_pairs_witness:
  "bank_group (lpddr_refdb_partner lpddr6_demo (DecodedAddress_init\<lparr>bank_group := 2\<rparr>)) div 2 = 1"
  using refdb_partner_pairs [OF lpddr6_demo_valid, of "DecodedAddress_init\<lparr>bank_group := 2\<rparr>"]
  by (simp add: lpddr6_demo_def DramSpec_init_def in_range_def digit_ok_def Organization_init_def DecodedAddress_init_def
      Let_def)

end
