(* ===== verification/Timing_Engine.thy ===== *)
theory Timing_Engine
  imports Dram_Semantics
begin

text \<open>
  The timing engine of the DRAM controller (\<open>controller/timing.hpp\<close>, \<open>controller/timing.cpp\<close>):
  per-scope buckets of ready times filled from the constraint table, the four-activate window, the
  WCK window and the sweep of LPDDR6 dual-bank refreshes.

  Cycles are \<open>std::uint64_t\<close>. The array \<open>next_command\<close> indexed by \<open>command_index\<close> is a function on
  commands, which is the same data because \<open>command_index\<close> is injective and below the array
  size. Bucket numbers are computed from clamped coordinates, so they are always within the arrays
  of an engine the constructor built (\<open>scope_index_less\<close>); the pair number of a REFdb is within
  its bitmap for coordinates in range (\<open>pair_index_less\<close>).
\<close>

record TimingScopeState =
  next_row :: nat
  next_act :: nat
  next_col :: nat
  next_cas :: nat
  wck_ready_at :: nat
  wck_active_until :: nat
  recent_acts :: "nat list"
  next_command :: "Command \<Rightarrow> nat"

definition TimingScopeState_init :: TimingScopeState where
  "TimingScopeState_init = \<lparr>next_row = 0, next_act = 0, next_col = 0, next_cas = 0, wck_ready_at = 0,
     wck_active_until = 0, recent_acts = [], next_command = (\<lambda>_. 0)\<rparr>"

record RefdbState =
  refdb_bank_count :: int
  refdb_ready :: nat
  visited_pairs :: "bool list"

record TimingEngine =
  channel_scopes :: "TimingScopeState list"
  pseudo_channel_scopes :: "TimingScopeState list"
  sid_scopes :: "TimingScopeState list"
  rank_scopes :: "TimingScopeState list"
  refdb_states :: "RefdbState list"
  activation_scopes :: "TimingScopeState list"
  row_scopes :: "TimingScopeState list"
  column_scopes :: "TimingScopeState list"
  bank_group_scopes :: "TimingScopeState list"
  bank_scopes :: "TimingScopeState list"
  wck_scopes :: "TimingScopeState list"

section \<open>Buckets\<close>

definition at_least_1 :: "int \<Rightarrow> nat" where
  "at_least_1 v = nat (max 1 v)"

definition clamp_dim :: "int \<Rightarrow> int \<Rightarrow> nat" where
  "clamp_dim v n = nat (max 0 (min v (max 1 n - 1)))"

fun scope_count :: "DramSpec \<Rightarrow> TimingScope \<Rightarrow> nat" where
  "scope_count spec ScChannel = at_least_1 (channels (ds_org spec))"
| "scope_count spec ScPseudoChannel = at_least_1 (channels (ds_org spec)) * at_least_1 (pseudo_channels (ds_org spec))"
| "scope_count spec ScSid = at_least_1 (channels (ds_org spec)) * at_least_1 (pseudo_channels (ds_org spec))
     * at_least_1 (sids (ds_org spec))"
| "scope_count spec ScRank = at_least_1 (channels (ds_org spec)) * at_least_1 (pseudo_channels (ds_org spec))
     * at_least_1 (sids (ds_org spec)) * at_least_1 (ranks (ds_org spec))"
| "scope_count spec ScBankGroup = at_least_1 (channels (ds_org spec)) * at_least_1 (pseudo_channels (ds_org spec))
     * at_least_1 (sids (ds_org spec)) * at_least_1 (ranks (ds_org spec)) * at_least_1 (bank_groups (ds_org spec))"
| "scope_count spec ScBank = at_least_1 (channels (ds_org spec)) * at_least_1 (pseudo_channels (ds_org spec))
     * at_least_1 (sids (ds_org spec)) * at_least_1 (ranks (ds_org spec)) * at_least_1 (bank_groups (ds_org spec))
     * at_least_1 (banks_per_group (ds_org spec))"

definition scope_index :: "DramSpec \<Rightarrow> TimingScope \<Rightarrow> DecodedAddress \<Rightarrow> nat" where
  "scope_index spec scope d = (let org = ds_org spec;
     x = clamp_dim (channel d) (channels org)
   in if scope = ScChannel then x else
   let x = x * at_least_1 (pseudo_channels org) + clamp_dim (pseudo_channel d) (pseudo_channels org)
   in if scope = ScPseudoChannel then x else
   let x = x * at_least_1 (sids org) + clamp_dim (sid d) (sids org)
   in if scope = ScSid then x else
   let x = x * at_least_1 (ranks org) + clamp_dim (rank d) (ranks org)
   in if scope = ScRank then x else
   let x = x * at_least_1 (bank_groups org) + clamp_dim (bank_group d) (bank_groups org)
   in if scope = ScBankGroup then x else
   x * at_least_1 (banks_per_group org) + clamp_dim (bank d) (banks_per_group org))"

definition timing_delay :: "DramSpec \<Rightarrow> int \<Rightarrow> nat" where
  "timing_delay spec cycles =
     (if cycles \<le> 0 then 0 else u64_mul (nat cycles) (nat (max 1 (ds_tick_multiplier spec))))"

fun scope_vector :: "TimingScope \<Rightarrow> TimingEngine \<Rightarrow> TimingScopeState list" where
  "scope_vector ScChannel te = channel_scopes te"
| "scope_vector ScPseudoChannel te = pseudo_channel_scopes te"
| "scope_vector ScSid te = sid_scopes te"
| "scope_vector ScRank te = rank_scopes te"
| "scope_vector ScBankGroup te = bank_group_scopes te"
| "scope_vector ScBank te = bank_scopes te"

fun set_scope_vector :: "TimingScope \<Rightarrow> TimingScopeState list \<Rightarrow> TimingEngine \<Rightarrow> TimingEngine" where
  "set_scope_vector ScChannel v te = te\<lparr>channel_scopes := v\<rparr>"
| "set_scope_vector ScPseudoChannel v te = te\<lparr>pseudo_channel_scopes := v\<rparr>"
| "set_scope_vector ScSid v te = te\<lparr>sid_scopes := v\<rparr>"
| "set_scope_vector ScRank v te = te\<lparr>rank_scopes := v\<rparr>"
| "set_scope_vector ScBankGroup v te = te\<lparr>bank_group_scopes := v\<rparr>"
| "set_scope_vector ScBank v te = te\<lparr>bank_scopes := v\<rparr>"

definition scope_state :: "DramSpec \<Rightarrow> TimingScope \<Rightarrow> DecodedAddress \<Rightarrow> TimingEngine \<Rightarrow> TimingScopeState" where
  "scope_state spec scope d te = scope_vector scope te ! scope_index spec scope d"

text \<open>\<open>mutable_scope\<close> hands out a reference; here the update made through it is the argument.\<close>

definition mutable_scope :: "TimingScope \<Rightarrow> nat \<Rightarrow> (TimingScopeState \<Rightarrow> TimingScopeState) \<Rightarrow> TimingEngine \<Rightarrow> TimingEngine" where
  "mutable_scope scope i f te =
     (let v = scope_vector scope te in set_scope_vector scope (v[i := f (v ! i)]) te)"

definition row_state :: "DramSpec \<Rightarrow> DecodedAddress \<Rightarrow> TimingEngine \<Rightarrow> TimingScopeState" where
  "row_state spec d te = row_scopes te ! scope_index spec (ds_row_bus_scope spec) d"

definition column_state :: "DramSpec \<Rightarrow> DecodedAddress \<Rightarrow> TimingEngine \<Rightarrow> TimingScopeState" where
  "column_state spec d te = column_scopes te ! scope_index spec (ds_column_bus_scope spec) d"

definition bank_group_state :: "DramSpec \<Rightarrow> DecodedAddress \<Rightarrow> TimingEngine \<Rightarrow> TimingScopeState" where
  "bank_group_state spec d te = bank_group_scopes te ! scope_index spec ScBankGroup d"

definition wck_state :: "DramSpec \<Rightarrow> DecodedAddress \<Rightarrow> TimingEngine \<Rightarrow> TimingScopeState" where
  "wck_state spec d te = wck_scopes te ! scope_index spec (ds_wck_scope spec) d"

definition sibling_range :: "DramSpec \<Rightarrow> TimingScope \<Rightarrow> DecodedAddress \<Rightarrow> nat \<times> nat" where
  "sibling_range spec scope d = (let org = ds_org spec;
     (lo, count) = (case scope of
         ScChannel \<Rightarrow> (0, at_least_1 (channels org))
       | ScPseudoChannel \<Rightarrow> (scope_index spec ScChannel d * at_least_1 (pseudo_channels org), at_least_1 (pseudo_channels org))
       | ScSid \<Rightarrow> (scope_index spec ScPseudoChannel d * at_least_1 (sids org), at_least_1 (sids org))
       | ScRank \<Rightarrow> (scope_index spec ScSid d * at_least_1 (ranks org), at_least_1 (ranks org))
       | ScBankGroup \<Rightarrow> (scope_index spec ScRank d * at_least_1 (bank_groups org), at_least_1 (bank_groups org))
       | ScBank \<Rightarrow> (scope_index spec ScBankGroup d * at_least_1 (banks_per_group org), at_least_1 (banks_per_group org)));
     total = scope_count spec scope
   in (min lo total, min (lo + count) total))"

section \<open>Construction\<close>

definition refdb_pair_count :: "DramSpec \<Rightarrow> int" where
  "refdb_pair_count spec = bank_groups (ds_org spec) div 2 * banks_per_group (ds_org spec)"

definition TimingEngine_reset :: "FloatChecks \<Rightarrow> DramSpec \<Rightarrow> TimingEngine res" where
  "TimingEngine_reset fc spec = rbind (validate_spec fc spec) (\<lambda>_.
     let buckets = (\<lambda>scope. replicate (scope_count spec scope) TimingScopeState_init);
         pairs = (if ds_lpddr_dual_bank_refresh spec then replicate (nat (refdb_pair_count spec)) False else [])
     in Inr \<lparr>channel_scopes = buckets ScChannel, pseudo_channel_scopes = buckets ScPseudoChannel,
          sid_scopes = buckets ScSid, rank_scopes = buckets ScRank,
          refdb_states = replicate (scope_count spec ScRank)
            \<lparr>refdb_bank_count = 0, refdb_ready = 0, visited_pairs = pairs\<rparr>,
          activation_scopes = buckets (ds_activation_scope spec), row_scopes = buckets (ds_row_bus_scope spec),
          column_scopes = buckets (ds_column_bus_scope spec), bank_group_scopes = buckets ScBankGroup,
          bank_scopes = buckets ScBank, wck_scopes = buckets (ds_wck_scope spec)\<rparr>)"

section \<open>Table-driven constraints\<close>

definition refdb_pair :: "DramSpec \<Rightarrow> DecodedAddress \<Rightarrow> nat" where
  "refdb_pair spec d = nat (bank_group d div 2 * banks_per_group (ds_org spec) + bank d)"

definition constraint_ready :: "DramSpec \<Rightarrow> DecodedAddress \<Rightarrow> Command \<Rightarrow> nat \<Rightarrow> TimingEngine \<Rightarrow> bool" where
  "constraint_ready spec d cmd clk te =
     (if ds_lpddr_dual_bank_refresh spec \<and> cmd = REFDB
         \<and> (let r = refdb_states te ! scope_index spec ScRank d
            in clk < refdb_ready r \<or> visited_pairs r ! refdb_pair spec d)
      then False
      else list_all (\<lambda>c.
        if tc_window c > 0 then True
        else if cmd \<notin> set (tc_following c) then True
        else if clk < next_command (scope_state spec (tc_scope c) d te) cmd then False
        else \<not> (cmd = REFDB \<and> ds_lpddr_dual_bank_refresh spec \<and> tc_scope c = ScBank
               \<and> clk < next_command (scope_state spec ScBank (lpddr_refdb_partner spec d) te) cmd))
        (ds_timing_constraints spec))"

definition constraint_ready_at :: "DramSpec \<Rightarrow> DecodedAddress \<Rightarrow> Command \<Rightarrow> TimingEngine \<Rightarrow> nat" where
  "constraint_ready_at spec d cmd te =
     (let refdb = (ds_lpddr_dual_bank_refresh spec \<and> cmd = REFDB);
          r = refdb_states te ! scope_index spec ScRank d
      in if refdb \<and> visited_pairs r ! refdb_pair spec d then u64_max
         else fold (\<lambda>c ready.
           if tc_window c > 0 \<or> cmd \<notin> set (tc_following c) then ready
           else let ready = max ready (next_command (scope_state spec (tc_scope c) d te) cmd)
                in if cmd = REFDB \<and> ds_lpddr_dual_bank_refresh spec \<and> tc_scope c = ScBank
                   then max ready (next_command (scope_state spec ScBank (lpddr_refdb_partner spec d) te) cmd)
                   else ready)
           (ds_timing_constraints spec) (if refdb then refdb_ready r else 0))"

definition update_ready :: "TimingConstraint \<Rightarrow> nat \<Rightarrow> TimingScopeState \<Rightarrow> TimingScopeState" where
  "update_ready c ready scope =
     scope\<lparr>next_command := fold (\<lambda>f nc. nc(f := max (nc f) ready)) (tc_following c) (next_command scope)\<rparr>"

definition clear_visited :: "RefdbState \<Rightarrow> RefdbState" where
  "clear_visited r = r\<lparr>visited_pairs := replicate (length (visited_pairs r)) False\<rparr>"

definition refdb_sweep :: "DramSpec \<Rightarrow> DecodedAddress \<Rightarrow> RefdbState \<Rightarrow> RefdbState" where
  "refdb_sweep spec d r =
     (let r = r\<lparr>visited_pairs := (visited_pairs r)[refdb_pair spec d := True]\<rparr>;
          r = r\<lparr>refdb_bank_count := (refdb_bank_count r + 1) mod refdb_pair_count spec\<rparr>
      in if refdb_bank_count r = 0 then clear_visited r else r)"

definition apply_refdb :: "DramSpec \<Rightarrow> DecodedAddress \<Rightarrow> Command \<Rightarrow> nat \<Rightarrow> TimingEngine \<Rightarrow> TimingEngine" where
  "apply_refdb spec d issued clk te =
     (if \<not> ds_lpddr_dual_bank_refresh spec then te
      else let t = ds_timing spec; i = scope_index spec ScRank d; r = refdb_states te ! i in
        if issued = REFDB then
          let r = refdb_sweep spec d r;
              short_gap = (if nREFDB2REFDBS t > 0 then nREFDB2REFDBS t else nRRDL t);
              long_gap = (if nREFDB2REFDBL t > 0 then nREFDB2REFDBL t else short_gap);
              r = r\<lparr>refdb_ready := u64_add clk (timing_delay spec (if refdb_bank_count r = 0 then long_gap else short_gap))\<rparr>
          in te\<lparr>refdb_states := (refdb_states te)[i := r]\<rparr>
        else if issued = REFAB then
          te\<lparr>refdb_states := (refdb_states te)[i := clear_visited (r\<lparr>refdb_bank_count := 0,
             refdb_ready := u64_add clk (timing_delay spec (nRFC t))\<rparr>)]\<rparr>
        else if issued = SREFEX then
          let (lo, hi) = sibling_range spec ScPseudoChannel d;
              ranks_per_pc = nat (sids (ds_org spec) * ranks (ds_org spec))
          in te\<lparr>refdb_states := fold (\<lambda>j v. v[j := clear_visited ((v ! j)\<lparr>refdb_bank_count := 0, refdb_ready := 0\<rparr>)])
                 [lo * ranks_per_pc ..< hi * ranks_per_pc] (refdb_states te)\<rparr>
        else te)"

definition apply_constraint :: "DramSpec \<Rightarrow> DecodedAddress \<Rightarrow> Command \<Rightarrow> nat \<Rightarrow> TimingConstraint \<Rightarrow> TimingEngine \<Rightarrow> TimingEngine" where
  "apply_constraint spec d issued clk c te =
     (if tc_window c > 0 then te
      else if issued \<notin> set (tc_preceding c) then te
      else let ready = u64_add clk (timing_delay spec (max 0 (tc_latency c)));
               current = scope_index spec (tc_scope c) d
           in if \<not> tc_is_sibling c then
                let te = mutable_scope (tc_scope c) current (update_ready c ready) te
                in if issued = REFDB \<and> ds_lpddr_dual_bank_refresh spec \<and> tc_scope c = ScBank
                   then mutable_scope ScBank (scope_index spec ScBank (lpddr_refdb_partner spec d)) (update_ready c ready) te
                   else te
              else let (lo, hi) = sibling_range spec (tc_scope c) d
                   in fold (\<lambda>i te. if i \<noteq> current then mutable_scope (tc_scope c) i (update_ready c ready) te else te)
                        [lo ..< hi] te)"

definition apply_constraints :: "DramSpec \<Rightarrow> DecodedAddress \<Rightarrow> Command \<Rightarrow> nat \<Rightarrow> TimingEngine \<Rightarrow> TimingEngine" where
  "apply_constraints spec d issued clk te =
     fold (apply_constraint spec d issued clk) (ds_timing_constraints spec) (apply_refdb spec d issued clk te)"

section \<open>The four-activate window and the WCK window\<close>

fun prune_acts :: "nat \<Rightarrow> nat \<Rightarrow> nat list \<Rightarrow> nat list" where
  "prune_acts window clk [] = []"
| "prune_acts window clk (t # ts) = (if clk \<ge> t \<and> clk - t \<ge> window then prune_acts window clk ts else t # ts)"

definition prune_recent_acts :: "DramSpec \<Rightarrow> nat \<Rightarrow> TimingEngine \<Rightarrow> TimingEngine" where
  "prune_recent_acts spec clk te =
     (let window = timing_delay spec (max 1 (nFAW (ds_timing spec)))
      in te\<lparr>activation_scopes := map (\<lambda>s. s\<lparr>recent_acts := prune_acts window clk (recent_acts s)\<rparr>) (activation_scopes te)\<rparr>)"

definition record_activate :: "DramSpec \<Rightarrow> DecodedAddress \<Rightarrow> nat \<Rightarrow> TimingEngine \<Rightarrow> TimingEngine" where
  "record_activate spec d clk te =
     (if activation_scopes te = [] then te
      else let i = scope_index spec (ds_activation_scope spec) d; s = activation_scopes te ! i
           in te\<lparr>activation_scopes := (activation_scopes te)[i := s\<lparr>recent_acts := recent_acts s @ [clk]\<rparr>]\<rparr>)"

definition faw_ready :: "DramSpec \<Rightarrow> DecodedAddress \<Rightarrow> TimingEngine \<Rightarrow> bool" where
  "faw_ready spec d te =
     (if activation_scopes te = [] then True
      else length (recent_acts (activation_scopes te ! scope_index spec (ds_activation_scope spec) d)) < 4)"

definition wck_ready_for_data :: "DramSpec \<Rightarrow> DecodedAddress \<Rightarrow> nat \<Rightarrow> TimingEngine \<Rightarrow> bool" where
  "wck_ready_for_data spec d clk te =
     (if \<not> ds_lpddr_family spec then True
      else if ds_lpddr_wck_mode spec = AlwaysOn then True
      else let wck = wck_state spec d te in clk \<ge> wck_ready_at wck \<and> clk < wck_active_until wck)"

end
