(* ===== verification/Timing_Correct.thy ===== *)
theory Timing_Correct
  imports Timing_Engine
begin

text \<open>
  Correctness of the timing engine: every array access of the engine is within bounds; the
  bucket-based readiness test decides exactly the pairwise minimum distances of the constraint
  table, stated over coordinates; an accepted sequence of commands respects all of them; at most
  four activations fall into any window of nFAW; and the sweep bookkeeping of dual-bank refreshes
  visits every bank pair exactly once before it starts over.
\<close>

section \<open>Buckets and coordinates\<close>

lemma at_least_1_pos [simp]: "0 < at_least_1 v"
  by (simp add: at_least_1_def)

lemma at_least_1_eq: "0 < v \<Longrightarrow> at_least_1 v = nat v"
  by (simp add: at_least_1_def max_def)

lemma clamp_dim_less [simp]: "clamp_dim v n < at_least_1 n"
  by (simp add: clamp_dim_def at_least_1_def min_def max_def)

lemma clamp_dim_eq: "digit_ok n v \<Longrightarrow> clamp_dim v n = nat v"
  by (simp add: clamp_dim_def digit_ok_def)

lemma nat_radix_less: "x < m \<Longrightarrow> y < n \<Longrightarrow> x * n + y < m * (n :: nat)"
proof -
  assume "x < m" "y < n"
  then have "x * n + y < Suc x * n" by simp
  also have "\<dots> \<le> m * n" using \<open>x < m\<close> by (intro mult_le_mono1) simp
  finally show ?thesis .
qed

lemma nat_radix_inj: "y < n \<Longrightarrow> y' < n \<Longrightarrow> x * n + y = x' * n + y' \<longleftrightarrow> x = x' \<and> y = (y' :: nat)"
proof
  assume y: "y < n" "y' < n" and eq: "x * n + y = x' * n + y'"
  from y have "(x * n + y) div n = x" "(x' * n + y') div n = x'" by simp_all
  then have "x = x'" by (simp only: eq)
  with eq show "x = x' \<and> y = y'" by simp
qed simp

lemma scope_index_simps:
  "scope_index spec ScChannel d = clamp_dim (channel d) (channels (ds_org spec))"
  "scope_index spec ScPseudoChannel d = scope_index spec ScChannel d * at_least_1 (pseudo_channels (ds_org spec))
     + clamp_dim (pseudo_channel d) (pseudo_channels (ds_org spec))"
  "scope_index spec ScSid d = scope_index spec ScPseudoChannel d * at_least_1 (sids (ds_org spec))
     + clamp_dim (sid d) (sids (ds_org spec))"
  "scope_index spec ScRank d = scope_index spec ScSid d * at_least_1 (ranks (ds_org spec))
     + clamp_dim (rank d) (ranks (ds_org spec))"
  "scope_index spec ScBankGroup d = scope_index spec ScRank d * at_least_1 (bank_groups (ds_org spec))
     + clamp_dim (bank_group d) (bank_groups (ds_org spec))"
  "scope_index spec ScBank d = scope_index spec ScBankGroup d * at_least_1 (banks_per_group (ds_org spec))
     + clamp_dim (bank d) (banks_per_group (ds_org spec))"
  by (simp_all add: scope_index_def Let_def)

lemma scope_index_less [simp]: "scope_index spec scope d < scope_count spec scope"
  by (cases scope) (simp_all add: scope_index_simps nat_radix_less del: mult_less_cancel2)

definition same_scope :: "TimingScope \<Rightarrow> DecodedAddress \<Rightarrow> DecodedAddress \<Rightarrow> bool" where
  "same_scope scope d e \<longleftrightarrow> channel d = channel e \<and> (scope = ScChannel \<or> pseudo_channel d = pseudo_channel e
     \<and> (scope = ScPseudoChannel \<or> sid d = sid e \<and> (scope = ScSid \<or> rank d = rank e
     \<and> (scope = ScRank \<or> bank_group d = bank_group e \<and> (scope = ScBankGroup \<or> bank d = bank e)))))"

lemma same_scope_simps:
  "same_scope ScChannel d e \<longleftrightarrow> channel d = channel e"
  "same_scope ScPseudoChannel d e \<longleftrightarrow> same_scope ScChannel d e \<and> pseudo_channel d = pseudo_channel e"
  "same_scope ScSid d e \<longleftrightarrow> same_scope ScPseudoChannel d e \<and> sid d = sid e"
  "same_scope ScRank d e \<longleftrightarrow> same_scope ScSid d e \<and> rank d = rank e"
  "same_scope ScBankGroup d e \<longleftrightarrow> same_scope ScRank d e \<and> bank_group d = bank_group e"
  "same_scope ScBank d e \<longleftrightarrow> same_scope ScBankGroup d e \<and> bank d = bank e"
  by (auto simp: same_scope_def)

fun same_parent :: "TimingScope \<Rightarrow> DecodedAddress \<Rightarrow> DecodedAddress \<Rightarrow> bool" where
  "same_parent ScChannel d e \<longleftrightarrow> True"
| "same_parent ScPseudoChannel d e \<longleftrightarrow> same_scope ScChannel d e"
| "same_parent ScSid d e \<longleftrightarrow> same_scope ScPseudoChannel d e"
| "same_parent ScRank d e \<longleftrightarrow> same_scope ScSid d e"
| "same_parent ScBankGroup d e \<longleftrightarrow> same_scope ScRank d e"
| "same_parent ScBank d e \<longleftrightarrow> same_scope ScBankGroup d e"

lemma clamp_dim_inj:
  "digit_ok n v \<Longrightarrow> digit_ok n w \<Longrightarrow> clamp_dim v n = clamp_dim w n \<longleftrightarrow> v = w"
  by (auto simp: clamp_dim_eq digit_ok_def)

lemma scope_index_inj:
  assumes "in_range spec d" and "in_range spec e"
  shows "scope_index spec scope d = scope_index spec scope e \<longleftrightarrow> same_scope scope d e"
proof -
  note r = assms [unfolded in_range_def Let_def]
  have ch: "scope_index spec ScChannel d = scope_index spec ScChannel e \<longleftrightarrow> same_scope ScChannel d e"
    using r by (simp add: scope_index_simps same_scope_simps clamp_dim_inj)
  have pc: "scope_index spec ScPseudoChannel d = scope_index spec ScPseudoChannel e \<longleftrightarrow> same_scope ScPseudoChannel d e"
    using r ch by (simp add: scope_index_simps(2) same_scope_simps(2) nat_radix_inj clamp_dim_inj)
  have si: "scope_index spec ScSid d = scope_index spec ScSid e \<longleftrightarrow> same_scope ScSid d e"
    using r pc by (simp add: scope_index_simps(3) same_scope_simps(3) nat_radix_inj clamp_dim_inj)
  have ra: "scope_index spec ScRank d = scope_index spec ScRank e \<longleftrightarrow> same_scope ScRank d e"
    using r si by (simp add: scope_index_simps(4) same_scope_simps(4) nat_radix_inj clamp_dim_inj)
  have bg: "scope_index spec ScBankGroup d = scope_index spec ScBankGroup e \<longleftrightarrow> same_scope ScBankGroup d e"
    using r ra by (simp add: scope_index_simps(5) same_scope_simps(5) nat_radix_inj clamp_dim_inj)
  have ba: "scope_index spec ScBank d = scope_index spec ScBank e \<longleftrightarrow> same_scope ScBank d e"
    using r bg by (simp add: scope_index_simps(6) same_scope_simps(6) nat_radix_inj clamp_dim_inj)
  show ?thesis
    using ch pc si ra bg ba by (cases scope) simp_all
qed

lemma flat_scope:
  assumes "in_range spec e" and "in_range spec d"
  shows "nat (flat_bank spec e) = nat (flat_bank spec d) \<longleftrightarrow> same_scope ScBank e d"
  using flat_bank_range [OF assms(1)] flat_bank_range [OF assms(2)] flat_bank_inj [OF assms]
  by (auto simp: digit_ok_def same_bank_def same_scope_def)

lemma radix_block:
  fixes n :: nat
  assumes "x < m" and "y < n"
  shows "min (x' * n) (m * n) \<le> x * n + y \<and> x * n + y < min (x' * n + n) (m * n) \<longleftrightarrow> x = x'"
proof -
  have lt: "x * n + y < m * n" using assms by (rule nat_radix_less)
  have "x' * n \<le> x * n + y \<longleftrightarrow> x' \<le> x"
  proof
    assume "x' * n \<le> x * n + y"
    then have "x' * n < Suc x * n" using assms(2) by simp
    then show "x' \<le> x" by (metis less_Suc_eq_le mult_less_cancel2)
  next
    assume "x' \<le> x"
    then show "x' * n \<le> x * n + y" by (simp add: trans_le_add1)
  qed
  moreover have "x * n + y < x' * n + n \<longleftrightarrow> x \<le> x'"
  proof
    assume "x * n + y < x' * n + n"
    then have "x * n < Suc x' * n" by simp
    then show "x \<le> x'" by (metis less_Suc_eq_le mult_less_cancel2)
  next
    assume "x \<le> x'"
    then have "x * n \<le> x' * n" by (rule mult_le_mono1)
    with assms(2) show "x * n + y < x' * n + n" by linarith
  qed
  moreover have "x' < m" if "x = x'" using that assms(1) by simp
  ultimately show ?thesis
    using lt by auto
qed

lemma sibling_range_parent:
  assumes "in_range spec d" and "in_range spec e"
  shows "scope_index spec scope e \<in> {fst (sibling_range spec scope d)..<snd (sibling_range spec scope d)} \<longleftrightarrow> same_parent scope e d"
proof -
  note inj = scope_index_inj [OF assms(2,1), symmetric]
  have c: "clamp_dim (channel e) (channels (ds_org spec)) < at_least_1 (channels (ds_org spec))" by simp
  show ?thesis
  proof (cases scope)
    case ScChannel
    then show ?thesis by (simp add: sibling_range_def scope_index_simps Let_def)
  next
    case ScPseudoChannel
    with radix_block [OF scope_index_less [of spec ScChannel e] clamp_dim_less] show ?thesis
      by (simp add: sibling_range_def scope_index_simps(2) Let_def inj)
  next
    case ScSid
    with radix_block [OF scope_index_less [of spec ScPseudoChannel e] clamp_dim_less] show ?thesis
      by (simp add: sibling_range_def scope_index_simps(3) Let_def inj)
  next
    case ScRank
    with radix_block [OF scope_index_less [of spec ScSid e] clamp_dim_less] show ?thesis
      by (simp add: sibling_range_def scope_index_simps(4) Let_def inj)
  next
    case ScBankGroup
    with radix_block [OF scope_index_less [of spec ScRank e] clamp_dim_less] show ?thesis
      by (simp add: sibling_range_def scope_index_simps(5) Let_def inj)
  next
    case ScBank
    with radix_block [OF scope_index_less [of spec ScBankGroup e] clamp_dim_less] show ?thesis
      by (simp add: sibling_range_def scope_index_simps(6) Let_def inj)
  qed
qed

lemma sibling_range_bound: "snd (sibling_range spec scope d) \<le> scope_count spec scope"
  by (cases scope) (simp_all add: sibling_range_def Let_def)

lemma pair_index_less:
  assumes "in_range spec d" and "even (bank_groups (ds_org spec))"
  shows "refdb_pair spec d < nat (refdb_pair_count spec)"
proof -
  have b: "digit_ok (banks_per_group (ds_org spec)) (bank d)" and g: "digit_ok (bank_groups (ds_org spec)) (bank_group d)"
    using assms(1) by (simp_all add: in_range_def Let_def)
  have "digit_ok (bank_groups (ds_org spec) div 2) (bank_group d div 2)"
    using g assms(2) by (auto simp: digit_ok_def)
  from radix_step [OF b this] show ?thesis
    by (simp add: refdb_pair_def refdb_pair_count_def digit_ok_def)
qed

section \<open>Ready times after a command\<close>

definition ready_time :: "TimingEngine \<Rightarrow> TimingScope \<Rightarrow> nat \<Rightarrow> Command \<Rightarrow> nat" where
  "ready_time te scope i cmd = next_command (scope_vector scope te ! i) cmd"

definition engine_shape :: "DramSpec \<Rightarrow> TimingEngine \<Rightarrow> bool" where
  "engine_shape spec te \<longleftrightarrow> (\<forall>scope. length (scope_vector scope te) = scope_count spec scope)"

lemma scope_vector_set [simp]:
  "scope_vector s (set_scope_vector s' v te) = (if s = s' then v else scope_vector s te)"
  by (cases s; cases s') simp_all

lemma scope_vector_refdb [simp]: "scope_vector s (te\<lparr>refdb_states := r\<rparr>) = scope_vector s te"
  by (cases s) simp_all

lemma update_ready_next [simp]:
  "next_command (update_ready c ready s) cmd =
     (if cmd \<in> set (tc_following c) then max (next_command s cmd) ready else next_command s cmd)"
proof -
  have "fold (\<lambda>f nc. nc(f := max (nc f) ready)) fs nc cmd = (if cmd \<in> set fs then max (nc cmd) ready else nc cmd)" for fs nc
    by (induction fs arbitrary: nc) auto
  then show ?thesis by (simp add: update_ready_def)
qed

lemma length_mutable_scope [simp]:
  "length (scope_vector s (mutable_scope s' i f te)) = length (scope_vector s te)"
  by (simp add: mutable_scope_def Let_def)

lemma ready_mutable_scope:
  assumes "i < length (scope_vector s' te)"
  shows "ready_time (mutable_scope s' i (update_ready c ready) te) s j cmd =
    (if s = s' \<and> j = i \<and> cmd \<in> set (tc_following c) then max (ready_time te s j cmd) ready else ready_time te s j cmd)"
  using assms by (auto simp: ready_time_def mutable_scope_def Let_def nth_list_update)

lemma ready_mutable_fold:
  assumes "\<forall>i \<in> set is. i < length (scope_vector s' te)"
  shows "ready_time (fold (\<lambda>i te. if i \<noteq> cur then mutable_scope s' i (update_ready c ready) te else te) is te) s j cmd =
    (if s = s' \<and> j \<in> set is - {cur} \<and> cmd \<in> set (tc_following c) then max (ready_time te s j cmd) ready
     else ready_time te s j cmd)
   \<and> (\<forall>s. length (scope_vector s (fold (\<lambda>i te. if i \<noteq> cur then mutable_scope s' i (update_ready c ready) te else te) is te))
        = length (scope_vector s te))"
  using assms
proof (induction "is" arbitrary: te)
  case Nil
  then show ?case by simp
next
  case (Cons i "is")
  show ?case
  proof (cases "i = cur")
    case True
    then show ?thesis using Cons by auto
  next
    case False
    let ?te = "mutable_scope s' i (update_ready c ready) te"
    have "\<forall>k \<in> set is. k < length (scope_vector s' ?te)" using Cons.prems by simp
    note IH = Cons.IH [OF this]
    have step: "ready_time ?te s j cmd =
        (if s = s' \<and> j = i \<and> cmd \<in> set (tc_following c) then max (ready_time te s j cmd) ready else ready_time te s j cmd)"
      using Cons.prems by (intro ready_mutable_scope) simp
    let ?F = "\<lambda>i te. if i \<noteq> cur then mutable_scope s' i (update_ready c ready) te else te"
    have "fold ?F (i # is) te = fold ?F is ?te"
      using False by simp
    then show ?thesis
      unfolding conjunct1 [OF IH] step using conjunct2 [OF IH] False
      by (simp only: conjunct1 [OF IH] step) auto
  qed
qed

definition watched :: "DramSpec \<Rightarrow> TimingScope \<Rightarrow> Command \<Rightarrow> DecodedAddress \<Rightarrow> nat set" where
  "watched spec scope cmd d = insert (scope_index spec scope d)
     (if cmd = REFDB \<and> ds_lpddr_dual_bank_refresh spec \<and> scope = ScBank
      then {scope_index spec ScBank (lpddr_refdb_partner spec d)} else {})"

definition touched :: "DramSpec \<Rightarrow> TimingConstraint \<Rightarrow> Command \<Rightarrow> DecodedAddress \<Rightarrow> nat set" where
  "touched spec c cmd d =
     (if tc_is_sibling c
      then {fst (sibling_range spec (tc_scope c) d)..<snd (sibling_range spec (tc_scope c) d)} - {scope_index spec (tc_scope c) d}
      else watched spec (tc_scope c) cmd d)"

definition ready_at :: "DramSpec \<Rightarrow> TimingConstraint \<Rightarrow> nat \<Rightarrow> nat" where
  "ready_at spec c clk = u64_add clk (timing_delay spec (max 0 (tc_latency c)))"

definition restricts :: "DramSpec \<Rightarrow> TimingConstraint \<Rightarrow> Command \<Rightarrow> DecodedAddress \<Rightarrow> TimingScope \<Rightarrow> nat \<Rightarrow> Command \<Rightarrow> bool" where
  "restricts spec c p d scope j f \<longleftrightarrow> tc_window c \<le> 0 \<and> p \<in> set (tc_preceding c) \<and> f \<in> set (tc_following c)
     \<and> scope = tc_scope c \<and> j \<in> touched spec c p d"

lemma apply_constraint_ready:
  assumes "engine_shape spec te"
  shows "ready_time (apply_constraint spec d p clk c te) s j f =
      (if restricts spec c p d s j f then max (ready_time te s j f) (ready_at spec c clk) else ready_time te s j f)
    \<and> engine_shape spec (apply_constraint spec d p clk c te)"
proof (cases "tc_window c \<le> 0 \<and> p \<in> set (tc_preceding c)")
  case False
  then show ?thesis
    using assms by (auto simp: apply_constraint_def restricts_def)
next
  case act: True
  have len: "\<And>s. length (scope_vector s te) = scope_count spec s"
    using assms by (simp add: engine_shape_def)
  show ?thesis
  proof (cases "tc_is_sibling c")
    case False
    then show ?thesis
      using act len by (auto simp: apply_constraint_def restricts_def touched_def watched_def ready_at_def Let_def
          ready_mutable_scope engine_shape_def simp del: scope_vector.simps scope_count.simps)
  next
    case True
    let ?is = "[fst (sibling_range spec (tc_scope c) d)..<snd (sibling_range spec (tc_scope c) d)]"
    let ?r = "ready_at spec c clk"
    have eq: "apply_constraint spec d p clk c te = fold (\<lambda>i te. if i \<noteq> scope_index spec (tc_scope c) d
        then mutable_scope (tc_scope c) i (update_ready c ?r) te else te) ?is te"
      unfolding ready_at_def using act True by (simp add: apply_constraint_def Let_def case_prod_unfold)
    have b: "\<forall>i \<in> set ?is. i < length (scope_vector (tc_scope c) te)"
      using len sibling_range_bound [of spec "tc_scope c" d] by auto
    show ?thesis
      using ready_mutable_fold [OF b, of "scope_index spec (tc_scope c) d" c ?r s j f] act True len
      by (auto simp: eq restricts_def touched_def engine_shape_def)
  qed
qed

lemma apply_constraints_fold_ready:
  assumes "engine_shape spec te"
  shows "(ready_time (fold (apply_constraint spec d p clk) cs te) s j f \<le> t \<longleftrightarrow>
      ready_time te s j f \<le> t \<and> (\<forall>c \<in> set cs. restricts spec c p d s j f \<longrightarrow> ready_at spec c clk \<le> t))
    \<and> engine_shape spec (fold (apply_constraint spec d p clk) cs te)"
  using assms
proof (induction cs arbitrary: te)
  case Nil
  then show ?case by simp
next
  case (Cons c cs)
  note step = apply_constraint_ready [OF Cons.prems, of d p clk c s j f]
  show ?case
    using Cons.IH [OF conjunct2 [OF step]] step by auto
qed

lemma scope_vector_apply_refdb [simp]: "scope_vector s (apply_refdb spec d p clk te) = scope_vector s te"
  by (simp add: apply_refdb_def Let_def case_prod_unfold)

lemma apply_constraints_ready:
  assumes "engine_shape spec te"
  shows "ready_time (apply_constraints spec d p clk te) s j f \<le> t \<longleftrightarrow> ready_time te s j f \<le> t
      \<and> (\<forall>c \<in> set (ds_timing_constraints spec). restricts spec c p d s j f \<longrightarrow> ready_at spec c clk \<le> t)"
    and "engine_shape spec (apply_constraints spec d p clk te)"
proof -
  have sh: "engine_shape spec (apply_refdb spec d p clk te)"
    using assms by (simp add: engine_shape_def)
  have rt: "ready_time (apply_refdb spec d p clk te) s j f = ready_time te s j f"
    by (simp add: ready_time_def)
  show "ready_time (apply_constraints spec d p clk te) s j f \<le> t \<longleftrightarrow> ready_time te s j f \<le> t
      \<and> (\<forall>c \<in> set (ds_timing_constraints spec). restricts spec c p d s j f \<longrightarrow> ready_at spec c clk \<le> t)"
    and "engine_shape spec (apply_constraints spec d p clk te)"
    using apply_constraints_fold_ready [OF sh, of d p clk "ds_timing_constraints spec" s j f t]
    by (simp_all add: apply_constraints_def rt)
qed

section \<open>Histories\<close>

type_synonym issue = "Command \<times> DecodedAddress \<times> nat"

definition issue_one :: "DramSpec \<Rightarrow> issue \<Rightarrow> TimingEngine \<Rightarrow> TimingEngine" where
  "issue_one spec x te = (case x of (cmd, d, clk) \<Rightarrow> apply_constraints spec d cmd clk te)"

lemma history_ready:
  assumes "engine_shape spec te"
  shows "(ready_time (fold (issue_one spec) h te) s j f \<le> t \<longleftrightarrow> ready_time te s j f \<le> t
      \<and> (\<forall>(p, d, clk) \<in> set h. \<forall>c \<in> set (ds_timing_constraints spec).
           restricts spec c p d s j f \<longrightarrow> ready_at spec c clk \<le> t))
    \<and> engine_shape spec (fold (issue_one spec) h te)"
  using assms
proof (induction h arbitrary: te)
  case Nil
  then show ?case by simp
next
  case (Cons x h)
  obtain p d clk where x: "x = (p, d, clk)" by (cases x)
  note step = apply_constraints_ready [OF Cons.prems, of d p clk]
  show ?case
    using Cons.IH [OF step(2)] step(1) by (auto simp: x issue_one_def)
qed

lemma constraint_ready_watched:
  assumes "\<not> (ds_lpddr_dual_bank_refresh spec \<and> f = REFDB)"
  shows "constraint_ready spec d f clk te \<longleftrightarrow>
    (\<forall>c \<in> set (ds_timing_constraints spec). tc_window c \<le> 0 \<longrightarrow> f \<in> set (tc_following c) \<longrightarrow>
       ready_time te (tc_scope c) (scope_index spec (tc_scope c) d) f \<le> clk)"
  using assms by (auto simp: constraint_ready_def list_all_iff scope_state_def ready_time_def not_less split: if_splits)

lemma constraint_ready_sound:
  assumes "constraint_ready spec d f clk te" and "c \<in> set (ds_timing_constraints spec)" and "tc_window c \<le> 0"
    and "f \<in> set (tc_following c)" and "i \<in> watched spec (tc_scope c) f d"
  shows "ready_time te (tc_scope c) i f \<le> clk"
proof -
  have drop: "(if P then False else Q) \<Longrightarrow> Q" for P Q :: bool
    by (simp split: if_splits)
  have all: "list_all (\<lambda>c.
        if tc_window c > 0 then True
        else if f \<notin> set (tc_following c) then True
        else if clk < next_command (scope_state spec (tc_scope c) d te) f then False
        else \<not> (f = REFDB \<and> ds_lpddr_dual_bank_refresh spec \<and> tc_scope c = ScBank
               \<and> clk < next_command (scope_state spec ScBank (lpddr_refdb_partner spec d) te) f))
        (ds_timing_constraints spec)"
    by (rule drop [OF assms(1) [unfolded constraint_ready_def]])
  with assms(2) have "if tc_window c > 0 then True
        else if f \<notin> set (tc_following c) then True
        else if clk < next_command (scope_state spec (tc_scope c) d te) f then False
        else \<not> (f = REFDB \<and> ds_lpddr_dual_bank_refresh spec \<and> tc_scope c = ScBank
               \<and> clk < next_command (scope_state spec ScBank (lpddr_refdb_partner spec d) te) f)"
    unfolding list_all_iff by blast
  with assms(3-5) show ?thesis
    by (auto simp: watched_def scope_state_def ready_time_def split: if_splits)
qed

section \<open>The constraint table over coordinates\<close>

text \<open>
  A REFdb occupies its bank and the partner bank; every other command names one coordinate. A
  constraint binds a later command when both fall into one bucket of its scope, or, for a sibling
  constraint, into two different buckets with the same parent. The minimum distance is the latency
  in nCK times the ticks per nCK.
\<close>

definition targets :: "DramSpec \<Rightarrow> TimingScope \<Rightarrow> Command \<Rightarrow> DecodedAddress \<Rightarrow> DecodedAddress set" where
  "targets spec scope cmd d = insert d
     (if cmd = REFDB \<and> ds_lpddr_dual_bank_refresh spec \<and> scope = ScBank then {lpddr_refdb_partner spec d} else {})"

definition binds :: "DramSpec \<Rightarrow> TimingConstraint \<Rightarrow> Command \<Rightarrow> DecodedAddress \<Rightarrow> Command \<Rightarrow> DecodedAddress \<Rightarrow> bool" where
  "binds spec c p e f d \<longleftrightarrow> tc_window c \<le> 0 \<and> p \<in> set (tc_preceding c) \<and> f \<in> set (tc_following c)
     \<and> (\<exists>y \<in> targets spec (tc_scope c) f d.
          if tc_is_sibling c then same_parent (tc_scope c) y e \<and> \<not> same_scope (tc_scope c) y e
          else \<exists>x \<in> targets spec (tc_scope c) p e. same_scope (tc_scope c) y x)"

definition min_gap :: "DramSpec \<Rightarrow> TimingConstraint \<Rightarrow> nat" where
  "min_gap spec c = nat (max 0 (tc_latency c)) * nat (max 1 (ds_tick_multiplier spec))"

definition spec_ints :: "DramSpec \<Rightarrow> bool" where
  "spec_ints spec \<longleftrightarrow> int32 (ds_tick_multiplier spec) \<and> (\<forall>c \<in> set (ds_timing_constraints spec). int32 (tc_latency c))"

lemma nat_int32: "int32 x \<Longrightarrow> nat (max 0 x) < 2 ^ 31" "int32 x \<Longrightarrow> nat (max 1 x) < 2 ^ 31"
  by (auto simp: int32_def)

lemma timing_delay_exact:
  assumes "int32 cycles" and "int32 (ds_tick_multiplier spec)"
  shows "timing_delay spec cycles = nat (max 0 cycles) * nat (max 1 (ds_tick_multiplier spec))"
    and "timing_delay spec cycles < 2 ^ 62"
proof -
  have "nat (max 0 cycles) * nat (max 1 (ds_tick_multiplier spec)) < 2 ^ 31 * 2 ^ 31"
    using nat_int32 [OF assms(1)] nat_int32 [OF assms(2)] by (intro mult_strict_mono) auto
  then have b: "nat (max 0 cycles) * nat (max 1 (ds_tick_multiplier spec)) < 2 ^ 62" by simp
  then show "timing_delay spec cycles = nat (max 0 cycles) * nat (max 1 (ds_tick_multiplier spec))"
    by (auto simp: timing_delay_def max_def u64_mul_def)
  with b show "timing_delay spec cycles < 2 ^ 62" by simp
qed

lemma ready_at_exact:
  assumes "spec_ints spec" and "c \<in> set (ds_timing_constraints spec)" and "t < 2 ^ 63"
  shows "ready_at spec c t = t + min_gap spec c"
proof -
  have i: "int32 (max 0 (tc_latency c))" "int32 (ds_tick_multiplier spec)"
    using assms by (auto simp: spec_ints_def int32_def)
  have "timing_delay spec (max 0 (tc_latency c)) = min_gap spec c"
    using timing_delay_exact(1) [OF i] by (simp add: min_gap_def)
  moreover have "t + timing_delay spec (max 0 (tc_latency c)) < 2 ^ 64"
    using timing_delay_exact(2) [OF i] assms(3) by simp
  ultimately show ?thesis
    by (simp add: ready_at_def u64_add_exact)
qed

lemma watched_targets: "watched spec scope cmd d = scope_index spec scope ` targets spec scope cmd d"
  by (auto simp: watched_def targets_def)

lemma targets_in_range:
  assumes "validate_spec fc spec = Inr ()" and "in_range spec d" and "y \<in> targets spec scope cmd d"
  shows "in_range spec y"
proof (cases "y = d")
  case False
  then have "ds_lpddr_dual_bank_refresh spec" "y = lpddr_refdb_partner spec d"
    using assms(3) by (auto simp: targets_def split: if_splits)
  then show ?thesis
    using partner_in_range [OF assms(1) _ assms(2)] by simp
qed (use assms in simp)

lemma binds_restricts:
  assumes "validate_spec fc spec = Inr ()" and "in_range spec e" and "in_range spec d"
  shows "binds spec c p e f d \<longleftrightarrow> (\<exists>i \<in> watched spec (tc_scope c) f d. restricts spec c p e (tc_scope c) i f)"
proof -
  have y: "scope_index spec (tc_scope c) y \<in> touched spec c p e \<longleftrightarrow>
      (if tc_is_sibling c then same_parent (tc_scope c) y e \<and> \<not> same_scope (tc_scope c) y e
       else \<exists>x \<in> targets spec (tc_scope c) p e. same_scope (tc_scope c) y x)"
    if t: "y \<in> targets spec (tc_scope c) f d" for y
  proof -
    have ry: "in_range spec y"
      using targets_in_range [OF assms(1,3) t] .
    have "scope_index spec (tc_scope c) y = scope_index spec (tc_scope c) x \<longleftrightarrow> same_scope (tc_scope c) y x"
      if "x \<in> targets spec (tc_scope c) p e" for x
      using scope_index_inj [OF ry targets_in_range [OF assms(1,2) that]] .
    then show ?thesis
      using sibling_range_parent [OF assms(2) ry, of "tc_scope c"] scope_index_inj [OF ry assms(2), of "tc_scope c"]
      by (auto simp: touched_def watched_targets)
  qed
  have "binds spec c p e f d \<longleftrightarrow> tc_window c \<le> 0 \<and> p \<in> set (tc_preceding c) \<and> f \<in> set (tc_following c)
      \<and> (\<exists>y \<in> targets spec (tc_scope c) f d. scope_index spec (tc_scope c) y \<in> touched spec c p e)"
    unfolding binds_def by (simp only: y cong: bex_cong)
  then show ?thesis
    unfolding watched_targets restricts_def by auto
qed

lemma reset_engine:
  assumes "TimingEngine_reset fc spec = Inr te"
  shows "validate_spec fc spec = Inr ()" and "engine_shape spec te"
    and "i < scope_count spec scope \<Longrightarrow> ready_time te scope i f = 0"
proof -
  show v: "validate_spec fc spec = Inr ()"
    using assms by (auto simp: TimingEngine_reset_def rbind_eq_Inr)
  have vec: "scope_vector s te = replicate (scope_count spec s) TimingScopeState_init" for s
    using assms v by (cases s) (auto simp: TimingEngine_reset_def Let_def)
  show "engine_shape spec te"
    by (simp add: engine_shape_def vec)
  show "i < scope_count spec scope \<Longrightarrow> ready_time te scope i f = 0"
    by (simp add: ready_time_def vec TimingScopeState_init_def)
qed

fun accepted :: "DramSpec \<Rightarrow> TimingEngine \<Rightarrow> issue list \<Rightarrow> bool" where
  "accepted spec te [] \<longleftrightarrow> True"
| "accepted spec te ((cmd, d, clk) # h) \<longleftrightarrow> constraint_ready spec d cmd clk te \<and> accepted spec (issue_one spec (cmd, d, clk) te) h"

lemma accepted_nth:
  "accepted spec te h \<Longrightarrow> j < length h \<Longrightarrow> h ! j = (f, d, u) \<Longrightarrow> constraint_ready spec d f u (fold (issue_one spec) (take j h) te)"
proof (induction h arbitrary: te j)
  case (Cons x h)
  then show ?case by (cases x; cases j) auto
qed simp

lemma constraint_ready_history:
  assumes "TimingEngine_reset fc spec = Inr te" and "\<not> (ds_lpddr_dual_bank_refresh spec \<and> f = REFDB)"
  shows "constraint_ready spec d f clk (fold (issue_one spec) h te) \<longleftrightarrow>
    (\<forall>(p, e, t) \<in> set h. \<forall>c \<in> set (ds_timing_constraints spec).
      restricts spec c p e (tc_scope c) (scope_index spec (tc_scope c) d) f \<longrightarrow> ready_at spec c t \<le> clk)"
proof -
  note rs = reset_engine [OF assms(1)]
  have "constraint_ready spec d f clk (fold (issue_one spec) h te) \<longleftrightarrow>
      (\<forall>c \<in> set (ds_timing_constraints spec). tc_window c \<le> 0 \<longrightarrow> f \<in> set (tc_following c) \<longrightarrow>
        (\<forall>(p, e, t) \<in> set h. \<forall>c' \<in> set (ds_timing_constraints spec).
           restricts spec c' p e (tc_scope c) (scope_index spec (tc_scope c) d) f \<longrightarrow> ready_at spec c' t \<le> clk))"
    unfolding constraint_ready_watched [OF assms(2)] by (simp add: conjunct1 [OF history_ready [OF rs(2)]] rs(3))
  also have "\<dots> \<longleftrightarrow> (\<forall>(p, e, t) \<in> set h. \<forall>c \<in> set (ds_timing_constraints spec).
      restricts spec c p e (tc_scope c) (scope_index spec (tc_scope c) d) f \<longrightarrow> ready_at spec c t \<le> clk)"
    by (fastforce simp: restricts_def)
  finally show ?thesis .
qed

section \<open>The four-activate window\<close>

text \<open>
  The controller prunes the window at the current cycle, asks \<open>faw_ready\<close> and records the activation.
\<close>

definition faw_window :: "DramSpec \<Rightarrow> nat" where
  "faw_window spec = timing_delay spec (max 1 (nFAW (ds_timing spec)))"

definition activate_one :: "DramSpec \<Rightarrow> DecodedAddress \<times> nat \<Rightarrow> TimingEngine \<Rightarrow> TimingEngine" where
  "activate_one spec x te = record_activate spec (fst x) (snd x) (prune_recent_acts spec (snd x) te)"

fun faw_accepted :: "DramSpec \<Rightarrow> TimingEngine \<Rightarrow> (DecodedAddress \<times> nat) list \<Rightarrow> bool" where
  "faw_accepted spec te [] \<longleftrightarrow> True"
| "faw_accepted spec te (x # xs) \<longleftrightarrow>
     faw_ready spec (fst x) (prune_recent_acts spec (snd x) te) \<and> faw_accepted spec (activate_one spec x te) xs"

definition acts_of :: "DramSpec \<Rightarrow> nat \<Rightarrow> (DecodedAddress \<times> nat) list \<Rightarrow> nat list" where
  "acts_of spec i xs = map snd (filter (\<lambda>x. scope_index spec (ds_activation_scope spec) (fst x) = i) xs)"

lemma prune_acts_suffix: "\<exists>k. prune_acts w clk ts = drop k ts \<and> (\<forall>t \<in> set (take k ts). t + w \<le> clk)"
proof (induction ts)
  case (Cons t ts)
  then obtain k where k: "prune_acts w clk ts = drop k ts" "\<forall>t \<in> set (take k ts). t + w \<le> clk" by blast
  show ?case
  proof (cases "clk \<ge> t \<and> clk - t \<ge> w")
    case True
    then show ?thesis using k by (intro exI [of _ "Suc k"]) auto
  next
    case False
    then show ?thesis by (intro exI [of _ 0]) auto
  qed
qed simp

text \<open>
  What the engine keeps per bucket: a suffix of the activations of that bucket, and whatever it has
  dropped lies a full window before the latest cycle seen.
\<close>

definition faw_view :: "DramSpec \<Rightarrow> nat \<Rightarrow> (DecodedAddress \<times> nat) list \<Rightarrow> TimingEngine \<Rightarrow> bool" where
  "faw_view spec clk past te \<longleftrightarrow> length (activation_scopes te) = scope_count spec (ds_activation_scope spec)
     \<and> (\<forall>i < length (activation_scopes te). \<exists>k. recent_acts (activation_scopes te ! i) = drop k (acts_of spec i past)
          \<and> (\<forall>t \<in> set (take k (acts_of spec i past)). t + faw_window spec \<le> clk))"

lemma faw_view_prune:
  assumes "faw_view spec clk past te" and "clk \<le> clk'"
  shows "faw_view spec clk' past (prune_recent_acts spec clk' te)"
proof -
  let ?te = "prune_recent_acts spec clk' te"
  have "\<exists>k. recent_acts (activation_scopes ?te ! i) = drop k (acts_of spec i past)
      \<and> (\<forall>t \<in> set (take k (acts_of spec i past)). t + faw_window spec \<le> clk')"
    if i: "i < length (activation_scopes te)" for i
  proof -
    let ?a = "acts_of spec i past"
    obtain k where k: "recent_acts (activation_scopes te ! i) = drop k ?a" "\<forall>t \<in> set (take k ?a). t + faw_window spec \<le> clk"
      using assms(1) i by (auto simp: faw_view_def)
    obtain m where m: "prune_acts (faw_window spec) clk' (drop k ?a) = drop m (drop k ?a)"
      "\<forall>t \<in> set (take m (drop k ?a)). t + faw_window spec \<le> clk'"
      using prune_acts_suffix by blast
    have "take (m + k) ?a = take k ?a @ take m (drop k ?a)"
      by (metis add.commute take_add)
    moreover have "recent_acts (activation_scopes ?te ! i) = drop (m + k) ?a"
      using i k(1) m(1) by (simp add: prune_recent_acts_def Let_def faw_window_def)
    ultimately show ?thesis
      using k(2) m(2) assms(2) by (intro exI [of _ "m + k"]) fastforce
  qed
  moreover have "length (activation_scopes ?te) = length (activation_scopes te)"
    by (simp add: prune_recent_acts_def Let_def)
  ultimately show ?thesis
    using assms(1) by (simp add: faw_view_def)
qed

lemma faw_view_record:
  assumes "faw_view spec clk past te"
  shows "faw_view spec clk (past @ [(d, clk)]) (record_activate spec d clk te)"
proof -
  let ?n = "scope_index spec (ds_activation_scope spec) d"
  have len: "length (activation_scopes te) = scope_count spec (ds_activation_scope spec)"
    using assms by (simp add: faw_view_def)
  have n: "?n < length (activation_scopes te)" using len by simp
  then have ne: "activation_scopes te \<noteq> []" by auto
  have "\<exists>k. recent_acts (activation_scopes (record_activate spec d clk te) ! i) = drop k (acts_of spec i (past @ [(d, clk)]))
      \<and> (\<forall>t \<in> set (take k (acts_of spec i (past @ [(d, clk)]))). t + faw_window spec \<le> clk)"
    if i: "i < length (activation_scopes te)" for i
  proof -
    let ?a = "acts_of spec i past"
    obtain k where k: "recent_acts (activation_scopes te ! i) = drop k ?a" "\<forall>t \<in> set (take k ?a). t + faw_window spec \<le> clk"
      using assms i by (auto simp: faw_view_def)
    let ?k = "min k (length ?a)"
    have "recent_acts (activation_scopes te ! i) = drop ?k ?a" "take ?k ?a = take k ?a"
      using k(1) by (simp_all add: min_def)
    then show ?thesis
      using i n ne k(2) by (intro exI [of _ ?k]) (auto simp: record_activate_def Let_def nth_list_update acts_of_def)
  qed
  then show ?thesis
    using assms n ne by (simp add: faw_view_def record_activate_def Let_def)
qed

lemma faw_step:
  assumes "faw_view spec clk past te" and "clk \<le> u" and "faw_ready spec d (prune_recent_acts spec u te)"
  shows "length (acts_of spec (scope_index spec (ds_activation_scope spec) d) past) \<ge> 4 \<longrightarrow>
      acts_of spec (scope_index spec (ds_activation_scope spec) d) past
        ! (length (acts_of spec (scope_index spec (ds_activation_scope spec) d) past) - 4) + faw_window spec \<le> u"
proof
  let ?n = "scope_index spec (ds_activation_scope spec) d"
  let ?a = "acts_of spec ?n past" and ?te = "prune_recent_acts spec u te"
  assume four: "4 \<le> length ?a"
  have v: "faw_view spec u past ?te" using faw_view_prune [OF assms(1,2)] .
  then have n: "?n < length (activation_scopes ?te)" by (simp add: faw_view_def)
  then obtain k where k: "recent_acts (activation_scopes ?te ! ?n) = drop k ?a" "\<forall>t \<in> set (take k ?a). t + faw_window spec \<le> u"
    using v unfolding faw_view_def by blast
  have "activation_scopes ?te \<noteq> []" using n by auto
  with assms(3) have "length (drop k ?a) < 4"
    by (simp add: faw_ready_def k(1))
  then have lt: "length ?a - 4 < k" using four by auto
  then have "?a ! (length ?a - 4) \<in> set (take k ?a)"
    using four by (auto simp: in_set_conv_nth intro!: exI [of _ "length ?a - 4"])
  then show "?a ! (length ?a - 4) + faw_window spec \<le> u" using k(2) by blast
qed

lemma faw_accepted_spacing:
  assumes "faw_accepted spec te xs" and "faw_view spec clk past te" and "sorted (clk # map snd xs)"
    and "\<forall>m. m + 4 < length (acts_of spec i past) \<longrightarrow> acts_of spec i past ! m + faw_window spec \<le> acts_of spec i past ! (m + 4)"
    and "m + 4 < length (acts_of spec i (past @ xs))"
  shows "acts_of spec i (past @ xs) ! m + faw_window spec \<le> acts_of spec i (past @ xs) ! (m + 4)"
  using assms
proof (induction xs arbitrary: te clk past)
  case Nil
  then show ?case by simp
next
  case (Cons x xs)
  obtain d u where x: "x = (d, u)" by (cases x)
  have u: "clk \<le> u" and rdy: "faw_ready spec d (prune_recent_acts spec u te)"
    and acc: "faw_accepted spec (activate_one spec x te) xs"
    using Cons.prems(1,3) by (simp_all add: x)
  have view: "faw_view spec u (past @ [x]) (activate_one spec x te)"
    using faw_view_record [OF faw_view_prune [OF Cons.prems(2) u], of d] by (simp add: x activate_one_def)
  have "acts_of spec i (past @ [x]) ! m + faw_window spec \<le> acts_of spec i (past @ [x]) ! (m + 4)"
    if m: "m + 4 < length (acts_of spec i (past @ [x]))" for m
  proof (cases "m + 4 < length (acts_of spec i past)")
    case True
    then show ?thesis
      using Cons.prems(4) by (simp add: acts_of_def nth_append)
  next
    case False
    let ?a = "acts_of spec i past"
    have i: "scope_index spec (ds_activation_scope spec) d = i" and len: "length ?a = m + 4"
      using m False by (auto simp: x acts_of_def split: if_splits)
    have a: "acts_of spec i (past @ [x]) = ?a @ [u]"
      using i by (simp add: acts_of_def x)
    show ?thesis
      using faw_step [OF Cons.prems(2) u rdy] len by (simp add: a i nth_append)
  qed
  then show ?case
    using Cons.IH [OF acc view] Cons.prems(3,5) by (simp add: x)
qed

lemma faw_view_reset:
  assumes "TimingEngine_reset fc spec = Inr te"
  shows "faw_view spec 0 [] te"
  using assms by (auto simp: TimingEngine_reset_def rbind_eq_Inr Let_def faw_view_def acts_of_def TimingScopeState_init_def)

section \<open>Sweeps of dual-bank refreshes\<close>

text \<open>
  The pairs of a rank refreshed since its sweep began, newest first. A sweep ends with its last pair; an
  all-bank refresh of the rank and a self-refresh exit in its channel begin a new one early.
\<close>

definition swept_step :: "DramSpec \<Rightarrow> DecodedAddress \<Rightarrow> Command \<Rightarrow> DecodedAddress \<Rightarrow> nat list \<Rightarrow> nat list" where
  "swept_step spec d p e ps =
     (if p = REFDB \<and> same_scope ScRank d e
      then if Suc (length ps) = nat (refdb_pair_count spec) then [] else refdb_pair spec e # ps
      else if p = REFAB \<and> same_scope ScRank d e \<or> p = SREFEX \<and> same_scope ScChannel d e then []
      else ps)"

definition swept :: "DramSpec \<Rightarrow> DecodedAddress \<Rightarrow> (Command \<times> DecodedAddress \<times> nat) list \<Rightarrow> nat list" where
  "swept spec d h = fold (\<lambda>(p, e, t). swept_step spec d p e) h []"

definition sweep_rel :: "DramSpec \<Rightarrow> nat list \<Rightarrow> RefdbState \<Rightarrow> bool" where
  "sweep_rel spec ps r \<longleftrightarrow> (let n = nat (refdb_pair_count spec) in
     length (visited_pairs r) = n \<and> refdb_bank_count r = int (length ps) \<and> length ps < n \<and> distinct ps \<and> set ps \<subseteq> {..<n}
     \<and> (\<forall>j < n. visited_pairs r ! j \<longleftrightarrow> j \<in> set ps))"

lemma sweep_rel_ready [simp]: "sweep_rel spec ps (r\<lparr>refdb_ready := x\<rparr>) = sweep_rel spec ps r"
  by (simp add: sweep_rel_def Let_def)

lemma sweep_rel_clear: "sweep_rel spec ps r \<Longrightarrow> sweep_rel spec [] (clear_visited (r\<lparr>refdb_bank_count := 0, refdb_ready := x\<rparr>))"
  by (auto simp: sweep_rel_def clear_visited_def Let_def)

lemma refdb_sweep_rel:
  assumes "sweep_rel spec ps r" and "refdb_pair spec d < nat (refdb_pair_count spec)" and "refdb_pair spec d \<notin> set ps"
  shows "sweep_rel spec (if Suc (length ps) = nat (refdb_pair_count spec) then [] else refdb_pair spec d # ps) (refdb_sweep spec d r)"
proof -
  define n where "n = nat (refdb_pair_count spec)"
  have n: "refdb_pair_count spec = int n" using assms(2) by (simp add: n_def)
  have r: "length (visited_pairs r) = n" "refdb_bank_count r = int (length ps)" "length ps < n" "distinct ps" "set ps \<subseteq> {..<n}"
    "\<And>j. j < n \<Longrightarrow> visited_pairs r ! j \<longleftrightarrow> j \<in> set ps"
    using assms(1) by (simp_all add: sweep_rel_def n_def Let_def)
  have c: "(int (length ps) + 1) mod int n = (if Suc (length ps) = n then 0 else int (Suc (length ps)))"
  proof (cases "Suc (length ps) = n")
    case True
    then have "int (length ps) + 1 = int n" by linarith
    then show ?thesis using True by (simp only:) simp
  next
    case False
    then have "int (length ps) + 1 < int n" using r(3) by simp
    then show ?thesis using False by simp
  qed
  show ?thesis
    using r assms(2,3) unfolding n_def [symmetric]
    by (cases "Suc (length ps) = n")
      (auto simp: refdb_sweep_def sweep_rel_def clear_visited_def Let_def n c nth_list_update)
qed

lemma all_update: "\<forall>r \<in> set v. P r \<Longrightarrow> P x \<Longrightarrow> \<forall>r \<in> set (v[i := x]). P r"
  using set_update_subset_insert [of v i x] by blast

lemma fold_update_nth:
  "distinct js \<Longrightarrow> length (fold (\<lambda>j v. v[j := g (v ! j)]) js v) = length v
     \<and> (i < length v \<longrightarrow> fold (\<lambda>j v. v[j := g (v ! j)]) js v ! i = (if i \<in> set js then g (v ! i) else v ! i))"
proof (induction js arbitrary: v)
  case (Cons j js)
  from Cons.IH [of "v[j := g (v ! j)]"] Cons.prems show ?case
    by (cases "i = j") (auto simp: nth_list_update)
qed simp

lemma rank_in_channel:
  assumes "dims_ok spec" and "in_range spec d" and "in_range spec e" and "sibling_range spec ScPseudoChannel e = (lo, hi)"
  shows "scope_index spec ScRank d \<in> set [lo * nat (sids (ds_org spec) * ranks (ds_org spec))..<hi * nat (sids (ds_org spec) * ranks (ds_org spec))]
    \<longleftrightarrow> same_scope ScChannel d e"
proof -
  define m where "m = nat (sids (ds_org spec) * ranks (ds_org spec))"
  define x where "x = scope_index spec ScPseudoChannel d"
  define y where "y = clamp_dim (sid d) (sids (ds_org spec)) * at_least_1 (ranks (ds_org spec)) + clamp_dim (rank d) (ranks (ds_org spec))"
  have m: "m = at_least_1 (sids (ds_org spec)) * at_least_1 (ranks (ds_org spec))"
    using assms(1) by (simp add: m_def dims_ok_def at_least_1_def Let_def nat_mult_distrib)
  have y: "y < m" unfolding y_def m by (rule nat_radix_less) simp_all
  have idx: "scope_index spec ScRank d = x * m + y"
    by (simp add: x_def y_def m scope_index_simps algebra_simps)
  have lo: "lo * m \<le> x * m + y \<longleftrightarrow> lo \<le> x"
  proof
    assume "lo * m \<le> x * m + y"
    then have "lo * m < Suc x * m" using y by simp
    then show "lo \<le> x" by (metis less_Suc_eq_le mult_less_cancel2)
  qed (simp add: trans_le_add1)
  have hi: "x * m + y < hi * m \<longleftrightarrow> x < hi"
  proof
    assume "x * m + y < hi * m"
    then have "x * m < hi * m" by linarith
    then show "x < hi" by (metis mult_less_cancel2)
  next
    assume "x < hi"
    then show "x * m + y < hi * m" using y by (intro nat_radix_less)
  qed
  have "x \<in> {lo..<hi} \<longleftrightarrow> same_scope ScChannel d e"
    using sibling_range_parent [OF assms(3,2), of ScPseudoChannel] assms(4) by (simp add: x_def)
  then show ?thesis by (simp add: idx lo hi m_def [symmetric])
qed

lemma apply_refdb_rel:
  assumes rel: "sweep_rel spec ps (refdb_states te ! scope_index spec ScRank d)"
    and len: "length (refdb_states te) = scope_count spec ScRank" and dual: "ds_lpddr_dual_bank_refresh spec"
    and rng: "dims_ok spec" "in_range spec d" "in_range spec e"
    and new: "p = REFDB \<Longrightarrow> same_scope ScRank d e \<Longrightarrow> refdb_pair spec e < nat (refdb_pair_count spec) \<and> refdb_pair spec e \<notin> set ps"
  shows "sweep_rel spec (swept_step spec d p e ps) (refdb_states (apply_refdb spec e p clk te) ! scope_index spec ScRank d)"
proof -
  define i where "i = scope_index spec ScRank d"
  define j where "j = scope_index spec ScRank e"
  have i: "i < length (refdb_states te)" by (simp add: i_def len del: scope_count.simps)
  have ij: "same_scope ScRank d e \<longleftrightarrow> i = j" using scope_index_inj [OF rng(2,3), of ScRank] by (simp add: i_def j_def)
  consider (db) "p = REFDB" | (ab) "p = REFAB" | (ex) "p = SREFEX" | (other) "p \<notin> {REFDB, REFAB, SREFEX}" by blast
  then show ?thesis
  proof cases
    case db
    have "\<exists>y. apply_refdb spec e p clk te = te\<lparr>refdb_states := (refdb_states te)[j := (refdb_sweep spec e (refdb_states te ! j))\<lparr>refdb_ready := y\<rparr>]\<rparr>"
      using db dual by (simp add: apply_refdb_def Let_def j_def [symmetric]) blast
    then show ?thesis
      using rel refdb_sweep_rel [OF rel, of e] new [OF db] i db ij by (auto simp: swept_step_def i_def [symmetric])
  next
    case ab
    then show ?thesis
      using rel sweep_rel_clear [OF rel] i ij dual
      by (auto simp: swept_step_def apply_refdb_def Let_def i_def [symmetric] j_def [symmetric])
  next
    case ex
    obtain lo hi where r: "sibling_range spec ScPseudoChannel e = (lo, hi)" by fastforce
    let ?js = "[lo * nat (sids (ds_org spec) * ranks (ds_org spec))..<hi * nat (sids (ds_org spec) * ranks (ds_org spec))]"
    have "refdb_states (apply_refdb spec e p clk te) =
        fold (\<lambda>j v. v[j := clear_visited ((v ! j)\<lparr>refdb_bank_count := 0, refdb_ready := 0\<rparr>)]) ?js (refdb_states te)"
      using ex dual by (simp add: apply_refdb_def Let_def r)
    then have "refdb_states (apply_refdb spec e p clk te) ! i = (if i \<in> set ?js
        then clear_visited ((refdb_states te ! i)\<lparr>refdb_bank_count := 0, refdb_ready := 0\<rparr>) else refdb_states te ! i)"
      using fold_update_nth [of ?js "\<lambda>r. clear_visited (r\<lparr>refdb_bank_count := 0, refdb_ready := 0\<rparr>)" "refdb_states te" i] i
      by (simp del: set_upt)
    then show ?thesis
      using rel sweep_rel_clear [OF rel] ex unfolding rank_in_channel [OF rng r, folded i_def]
      by (simp add: swept_step_def i_def [symmetric])
  next
    case other
    then show ?thesis using rel by (simp add: apply_refdb_def Let_def swept_step_def)
  qed
qed

lemma refdb_states_set [simp]: "refdb_states (set_scope_vector s v te) = refdb_states te"
  by (cases s) simp_all

lemma refdb_states_mutable [simp]: "refdb_states (mutable_scope s i f te) = refdb_states te"
  by (simp add: mutable_scope_def Let_def)

lemma refdb_states_apply_constraint [simp]: "refdb_states (apply_constraint spec d p clk c te) = refdb_states te"
proof -
  have "refdb_states (fold (\<lambda>i te. if i \<noteq> cur then mutable_scope s i (f i) te else te) is te) = refdb_states te"
    for cur s f "is" te
    by (rule fold_keeps_eq) simp
  then show ?thesis
    by (simp add: apply_constraint_def Let_def case_prod_unfold)
qed

lemma refdb_states_apply_constraints [simp]:
  "refdb_states (apply_constraints spec d p clk te) = refdb_states (apply_refdb spec d p clk te)"
  unfolding apply_constraints_def by (rule fold_keeps_eq) simp

lemma length_refdb_states [simp]:
  "length (refdb_states (apply_refdb spec d p clk te)) = length (refdb_states te)"
proof -
  have "length (fold (\<lambda>j v. v[j := g v j]) js v) = length v" for g js and v :: "RefdbState list"
    by (rule fold_keeps_eq) simp
  then show ?thesis
    by (simp add: apply_refdb_def Let_def case_prod_unfold)
qed

lemma refdb_not_visited:
  "constraint_ready spec d REFDB clk te \<Longrightarrow> ds_lpddr_dual_bank_refresh spec \<Longrightarrow>
   \<not> visited_pairs (refdb_states te ! scope_index spec ScRank d) ! refdb_pair spec d"
  by (auto simp: constraint_ready_def Let_def split: if_splits)

lemma accepted_swept:
  assumes "accepted spec te h" and "\<forall>(p, e, t) \<in> set h. in_range spec e" and "even (bank_groups (ds_org spec))"
    and "ds_lpddr_dual_bank_refresh spec" and "dims_ok spec" and "in_range spec d"
    and "sweep_rel spec ps (refdb_states te ! scope_index spec ScRank d)" and "length (refdb_states te) = scope_count spec ScRank"
  shows "sweep_rel spec (fold (\<lambda>(p, e, t). swept_step spec d p e) h ps)
    (refdb_states (fold (issue_one spec) h te) ! scope_index spec ScRank d)"
  using assms
proof (induction h arbitrary: te ps)
  case (Cons x h)
  obtain p e t where x: "x = (p, e, t)" by (cases x)
  have rdy: "constraint_ready spec e p t te" and acc: "accepted spec (issue_one spec x te) h" and rng: "in_range spec e"
    using Cons.prems(1,2) by (simp_all add: x)
  have "refdb_pair spec e < nat (refdb_pair_count spec) \<and> refdb_pair spec e \<notin> set ps"
    if "p = REFDB" "same_scope ScRank d e"
  proof -
    have "scope_index spec ScRank d = scope_index spec ScRank e" using that(2) scope_index_inj [OF Cons.prems(6) rng] by simp
    then show ?thesis
      using refdb_not_visited [of spec e t te] rdy that(1) Cons.prems(4,7) pair_index_less [OF rng Cons.prems(3)]
      by (simp add: sweep_rel_def Let_def)
  qed
  from apply_refdb_rel [OF Cons.prems(7,8,4,5,6) rng this] have
    "sweep_rel spec (swept_step spec d p e ps) (refdb_states (issue_one spec x te) ! scope_index spec ScRank d)"
    by (simp add: x issue_one_def)
  moreover have "length (refdb_states (issue_one spec x te)) = scope_count spec ScRank"
    using Cons.prems(8) by (simp add: x issue_one_def)
  ultimately show ?case
    using Cons.IH [OF acc _ Cons.prems(3-6)] Cons.prems(2) by (simp add: x)
qed simp

section \<open>Properties\<close>

text \<open>
  C29: From a freshly reset engine, after any history of issued commands, the bucket-based readiness
  test of a command (other than the dual-bank refresh, whose sweep is treated separately) succeeds
  exactly when every earlier command that a table constraint relates to it, by the coordinates of the
  two commands, lies at least the minimum distance of the constraint in the past. No 64-bit cycle
  wraps for clocks below $2^{63}$ and 32-bit timing parameters.
\<close>

theorem constraint_ready_exact:
  assumes "TimingEngine_reset fc spec = Inr te" and "spec_ints spec" and "in_range spec d"
    and "\<forall>(p, e, t) \<in> set h. in_range spec e \<and> t < 2 ^ 63" and "\<not> (ds_lpddr_dual_bank_refresh spec \<and> f = REFDB)"
  shows "constraint_ready spec d f clk (fold (issue_one spec) h te) \<longleftrightarrow>
    (\<forall>(p, e, t) \<in> set h. \<forall>c \<in> set (ds_timing_constraints spec). binds spec c p e f d \<longrightarrow> t + min_gap spec c \<le> clk)"
proof -
  note rs = reset_engine [OF assms(1)]
  have w: "watched spec s f d = {scope_index spec s d}" for s
    using assms(5) by (auto simp: watched_def)
  have "constraint_ready spec d f clk (fold (issue_one spec) h te) \<longleftrightarrow> (\<forall>(p, e, t) \<in> set h. \<forall>c \<in> set (ds_timing_constraints spec).
      restricts spec c p e (tc_scope c) (scope_index spec (tc_scope c) d) f \<longrightarrow> ready_at spec c t \<le> clk)"
    by (rule constraint_ready_history [OF assms(1,5)])
  also have "\<dots> \<longleftrightarrow> (\<forall>(p, e, t) \<in> set h. \<forall>c \<in> set (ds_timing_constraints spec).
      binds spec c p e f d \<longrightarrow> t + min_gap spec c \<le> clk)"
    using assms(4) binds_restricts [OF rs(1) _ assms(3)] ready_at_exact [OF assms(2)] by (fastforce simp: w)
  finally show ?thesis .
qed

definition hbm_demo :: DramSpec where
  "hbm_demo = DramSpec_init\<lparr>ds_speed_bin_mbps := 6400, ds_stack_height := 4, ds_tick_multiplier := 2,
     ds_timing_constraints := make_hbm_constraints Timing_init\<rparr>"

lemma hbm_demo_valid: "validate_spec demo_float hbm_demo = Inr ()"
  by (simp add: validate_spec_def validate_geometry_def validate_clock_def validate_modes_def check_def
      non_negative_fields_def hbm_demo_def demo_float_def DramSpec_init_def Organization_init_def Timing_init_def
      addressable_capacity_bytes_def total_addressable_transactions_def checked_product_def transaction_bytes_def
      u64_max_def u64_mul_def Let_def)

lemma hbm_demo_dims: "dims_ok hbm_demo" "total_banks hbm_demo = Inr 16"
  using validate_spec_dims(1) [OF hbm_demo_valid]
  by (simp_all add: total_banks_def checked_product_def as_int_def hbm_demo_def
      DramSpec_init_def Organization_init_def Let_def u64_max_def u64_mul_def int_max_def)

lemma hbm_demo_reset: "\<exists>te. TimingEngine_reset demo_float hbm_demo = Inr te"
  by (simp add: TimingEngine_reset_def hbm_demo_valid Let_def)

lemma hbm_demo_ints: "spec_ints hbm_demo"
  by (simp add: spec_ints_def hbm_demo_def make_hbm_constraints_def Timing_init_def DramSpec_init_def tc_def tc_sibling_def
      int32_def Let_def)

lemma hbm_demo_range: "in_range hbm_demo DecodedAddress_init"
  by (simp add: in_range_def digit_ok_def hbm_demo_def DramSpec_init_def Organization_init_def DecodedAddress_init_def Let_def)

lemma hbm_demo_rc:
  "tc ScBank [ACT] [ACT] 62 ''nRC'' 0 [] \<in> set (ds_timing_constraints hbm_demo)"
  by (simp add: hbm_demo_def make_hbm_constraints_def Timing_init_def Let_def)

theorem constraint_ready_exact_witness:
  "\<exists>te. TimingEngine_reset demo_float hbm_demo = Inr te
     \<and> \<not> constraint_ready hbm_demo DecodedAddress_init ACT 133 (fold (issue_one hbm_demo) [(ACT, DecodedAddress_init, 10)] te)"
proof -
  obtain te where te: "TimingEngine_reset demo_float hbm_demo = Inr te"
    using hbm_demo_reset by blast
  have h: "\<forall>(p, e, t) \<in> set [(ACT, DecodedAddress_init, 10 :: nat)]. in_range hbm_demo e \<and> t < 2 ^ 63"
    by (simp add: hbm_demo_range)
  have n: "\<not> (ds_lpddr_dual_bank_refresh hbm_demo \<and> ACT = REFDB)" by simp
  have "binds hbm_demo (tc ScBank [ACT] [ACT] 62 ''nRC'' 0 []) ACT DecodedAddress_init ACT DecodedAddress_init"
    by (simp add: binds_def tc_def targets_def same_scope_def)
  moreover have "min_gap hbm_demo (tc ScBank [ACT] [ACT] 62 ''nRC'' 0 []) = 124"
    by (simp add: min_gap_def tc_def hbm_demo_def)
  ultimately show ?thesis
    using te constraint_ready_exact [OF te hbm_demo_ints hbm_demo_range h n, of 133] hbm_demo_rc by force
qed

text \<open>
  In a sequence of commands each of which the engine found ready when it was issued, any two
  commands that a constraint of the table relates are at least the minimum distance of that
  constraint apart, dual-bank refreshes and the banks they occupy included.
\<close>

theorem accepted_commands_respect_constraints:
  assumes "TimingEngine_reset fc spec = Inr te" and "spec_ints spec" and "accepted spec te h"
    and "\<forall>(p, e, t) \<in> set h. in_range spec e \<and> t < 2 ^ 63"
    and "i < j" and "j < length h" and "h ! i = (p, e, t)" and "h ! j = (f, d, u)"
    and "c \<in> set (ds_timing_constraints spec)" and "binds spec c p e f d"
  shows "t + min_gap spec c \<le> u"
proof -
  note rs = reset_engine [OF assms(1)]
  let ?te = "fold (issue_one spec) (take j h) te"
  have rdy: "constraint_ready spec d f u ?te"
    using accepted_nth [OF assms(3,6,8)] .
  have "take j h ! i = (p, e, t)" "i < length (take j h)"
    using assms(5-7) by simp_all
  then have mem: "(p, e, t) \<in> set (take j h)" "(p, e, t) \<in> set h" "(f, d, u) \<in> set h"
    using assms(6,8) by (metis nth_mem, metis nth_mem in_set_takeD, metis nth_mem)
  with assms(4) have r: "in_range spec e" "in_range spec d" "t < 2 ^ 63" by auto
  obtain x where x: "x \<in> watched spec (tc_scope c) f d" "restricts spec c p e (tc_scope c) x f"
    using binds_restricts [OF rs(1) r(1,2)] assms(10) by blast
  have b: "tc_window c \<le> 0" "f \<in> set (tc_following c)"
    using assms(10) by (simp_all add: binds_def)
  have "ready_time ?te (tc_scope c) x f \<le> u"
    by (rule constraint_ready_sound [OF rdy assms(9) b x(1)])
  then have "ready_at spec c t \<le> u"
    using conjunct1 [OF history_ready [OF rs(2)]] mem(1) assms(9) x(2) by fastforce
  then show ?thesis
    using ready_at_exact [OF assms(2,9) r(3)] by simp
qed

lemma hbm_demo_accepts:
  assumes "TimingEngine_reset demo_float hbm_demo = Inr te"
  shows "accepted hbm_demo te [(ACT, DecodedAddress_init, 10), (ACT, DecodedAddress_init, 134)]"
proof -
  have n: "\<not> (ds_lpddr_dual_bank_refresh hbm_demo \<and> ACT = REFDB)" by simp
  note hist = constraint_ready_history [OF assms n]
  have "constraint_ready hbm_demo DecodedAddress_init ACT 10 te"
    using hist [of DecodedAddress_init 10 "[]"] by simp
  moreover have "\<forall>c \<in> set (ds_timing_constraints hbm_demo).
      tc_window c \<le> 0 \<and> ACT \<in> set (tc_preceding c) \<and> ACT \<in> set (tc_following c) \<longrightarrow> ready_at hbm_demo c 10 \<le> 134"
    by (simp add: hbm_demo_def make_hbm_constraints_def Timing_init_def tc_def tc_sibling_def ready_at_def timing_delay_def
        u64_add_def u64_mul_def Let_def)
  then have "constraint_ready hbm_demo DecodedAddress_init ACT 134 (issue_one hbm_demo (ACT, DecodedAddress_init, 10) te)"
    using hist [of DecodedAddress_init 134 "[(ACT, DecodedAddress_init, 10)]"] by (simp add: restricts_def)
  ultimately show ?thesis by simp
qed

theorem accepted_commands_respect_constraints_witness:
  "\<exists>te. TimingEngine_reset demo_float hbm_demo = Inr te
     \<and> accepted hbm_demo te [(ACT, DecodedAddress_init, 10), (ACT, DecodedAddress_init, 134)]
     \<and> 10 + min_gap hbm_demo (tc ScBank [ACT] [ACT] 62 ''nRC'' 0 []) \<le> 134"
proof -
  obtain te where te: "TimingEngine_reset demo_float hbm_demo = Inr te"
    using hbm_demo_reset by blast
  have "binds hbm_demo (tc ScBank [ACT] [ACT] 62 ''nRC'' 0 []) ACT DecodedAddress_init ACT DecodedAddress_init"
    by (simp add: binds_def tc_def targets_def same_scope_def)
  from accepted_commands_respect_constraints [OF te hbm_demo_ints hbm_demo_accepts [OF te], of 0 1 ACT DecodedAddress_init 10
      ACT DecodedAddress_init 134, OF _ _ _ _ _ hbm_demo_rc this] te hbm_demo_accepts [OF te]
  show ?thesis by (auto simp: hbm_demo_range)
qed

text \<open>
  C33: In a sequence of activations at non-decreasing cycles, each recorded after the window was pruned
  and found to have room, the fourth activation after any given one in the same activation scope comes
  at least nFAW later: no window of nFAW holds more than four activations.
\<close>

theorem four_activate_window:
  assumes "TimingEngine_reset fc spec = Inr te" and "faw_accepted spec te xs" and "sorted (map snd xs)"
    and "m + 4 < length (acts_of spec i xs)"
  shows "acts_of spec i xs ! m + faw_window spec \<le> acts_of spec i xs ! (m + 4)"
  using faw_accepted_spacing [OF assms(2) faw_view_reset [OF assms(1)], of i m] assms(3,4)
  by (simp add: acts_of_def)

lemma faw_demo:
  assumes "TimingEngine_reset demo_float hbm_demo = Inr te"
  shows "faw_accepted hbm_demo te (map (Pair DecodedAddress_init) [0, 1, 2, 3, 32])"
proof -
  have "activation_scopes te = [TimingScopeState_init]"
    using assms by (auto simp: TimingEngine_reset_def rbind_eq_Inr Let_def hbm_demo_def DramSpec_init_def
        Organization_init_def at_least_1_def)
  then show ?thesis
    by (simp add: activate_one_def record_activate_def prune_recent_acts_def faw_ready_def Let_def TimingScopeState_init_def
        timing_delay_def hbm_demo_def DramSpec_init_def Timing_init_def u64_mul_def scope_index_simps clamp_dim_def
        DecodedAddress_init_def)
qed

theorem four_activate_window_witness:
  "\<exists>te. TimingEngine_reset demo_float hbm_demo = Inr te
     \<and> acts_of hbm_demo 0 (map (Pair DecodedAddress_init) [0, 1, 2, 3, 32]) ! 0 + faw_window hbm_demo
       \<le> acts_of hbm_demo 0 (map (Pair DecodedAddress_init) [0, 1, 2, 3, 32]) ! 4"
proof -
  obtain te where te: "TimingEngine_reset demo_float hbm_demo = Inr te"
    using hbm_demo_reset by blast
  have "length (acts_of hbm_demo 0 (map (Pair DecodedAddress_init) [0, 1, 2, 3, 32])) = 5"
    by (simp add: acts_of_def hbm_demo_def DramSpec_init_def scope_index_simps clamp_dim_def DecodedAddress_init_def)
  then show ?thesis
    using te four_activate_window [OF te faw_demo [OF te], of 0 0] by auto
qed

text \<open>
  C36: In an accepted sequence of commands on a device with dual-bank refresh, the state of every rank records
  exactly the bank pairs refreshed since its sweep began, and counts them. A sweep begins at reset, when the
  previous one has refreshed every pair, at an all-bank refresh of the rank and at a self-refresh exit in its
  channel. Within a sweep no pair is refreshed twice, at least one pair is always left to refresh, and the
  refresh that ends a sweep completes the set of all pairs.
\<close>

theorem refdb_sweep_exact:
  assumes "TimingEngine_reset fc spec = Inr te" and "ds_lpddr_dual_bank_refresh spec" and "accepted spec te h"
    and "\<forall>(p, e, t) \<in> set h. in_range spec e" and "in_range spec d"
    and "r = refdb_states (fold (issue_one spec) h te) ! scope_index spec ScRank d"
  shows "length (visited_pairs r) = nat (refdb_pair_count spec)
    \<and> (\<forall>j < nat (refdb_pair_count spec). visited_pairs r ! j \<longleftrightarrow> j \<in> set (swept spec d h))
    \<and> refdb_bank_count r = int (length (swept spec d h))
    \<and> distinct (swept spec d h) \<and> length (swept spec d h) < nat (refdb_pair_count spec)
    \<and> (\<forall>clk. constraint_ready spec d REFDB clk (fold (issue_one spec) h te) \<longrightarrow> refdb_pair spec d \<notin> set (swept spec d h)
         \<and> (Suc (length (swept spec d h)) = nat (refdb_pair_count spec) \<longrightarrow>
              insert (refdb_pair spec d) (set (swept spec d h)) = {..<nat (refdb_pair_count spec)}))"
proof -
  have v: "validate_spec fc spec = Inr ()" using reset_engine(1) [OF assms(1)] .
  note g = refdb_pairs [OF assms(2) v]
  have dims: "dims_ok spec" by (rule validate_spec_dims(1) [OF v])
  have pairs: "0 < refdb_pair_count spec"
    using g dims by (auto simp: refdb_pair_count_def dims_ok_def Let_def)
  have len: "length (refdb_states te) = scope_count spec ScRank"
    using assms(1) by (auto simp: TimingEngine_reset_def rbind_eq_Inr Let_def)
  have "scope_index spec ScRank d < scope_count spec ScRank" by (rule scope_index_less)
  then have "sweep_rel spec [] (refdb_states te ! scope_index spec ScRank d)"
    using assms(1,2) pairs by (auto simp: TimingEngine_reset_def rbind_eq_Inr Let_def sweep_rel_def simp del: scope_count.simps)
  from accepted_swept [OF assms(3,4) g(2) assms(2) dims assms(5) this len]
  have rel: "sweep_rel spec (swept spec d h) r" by (simp add: swept_def assms(6))
  note k = pair_index_less [OF assms(5) g(2)]
  have new: "refdb_pair spec d \<notin> set (swept spec d h)" if "constraint_ready spec d REFDB clk (fold (issue_one spec) h te)" for clk
    using refdb_not_visited [OF that assms(2)] rel k by (simp add: sweep_rel_def Let_def assms(6))
  have full: "insert (refdb_pair spec d) (set (swept spec d h)) = {..<nat (refdb_pair_count spec)}"
    if "refdb_pair spec d \<notin> set (swept spec d h)" "Suc (length (swept spec d h)) = nat (refdb_pair_count spec)"
  proof (rule card_subset_eq)
    show "insert (refdb_pair spec d) (set (swept spec d h)) \<subseteq> {..<nat (refdb_pair_count spec)}"
      using rel k by (simp add: sweep_rel_def Let_def)
    show "card (insert (refdb_pair spec d) (set (swept spec d h))) = card {..<nat (refdb_pair_count spec)}"
      using rel that by (simp add: sweep_rel_def Let_def distinct_card)
  qed simp
  show ?thesis
    using rel new full by (simp add: sweep_rel_def Let_def)
qed

theorem refdb_sweep_exact_witness:
  "\<exists>te. TimingEngine_reset demo_float lpddr6_demo = Inr te
     \<and> refdb_bank_count (refdb_states (fold (issue_one lpddr6_demo) [(REFDB, DecodedAddress_init, 10)] te) ! 0) = 1
     \<and> \<not> constraint_ready lpddr6_demo DecodedAddress_init REFDB 10000 (fold (issue_one lpddr6_demo) [(REFDB, DecodedAddress_init, 10)] te)"
proof -
  let ?d = DecodedAddress_init and ?h = "[(REFDB, DecodedAddress_init, 10)]"
  obtain te where te: "TimingEngine_reset demo_float lpddr6_demo = Inr te"
    by (simp add: TimingEngine_reset_def lpddr6_demo_valid Let_def)
  have one: "refdb_states te = [\<lparr>refdb_bank_count = 0, refdb_ready = 0, visited_pairs = replicate 8 False\<rparr>]"
    using te by (auto simp: TimingEngine_reset_def rbind_eq_Inr Let_def lpddr6_demo_def DramSpec_init_def
        Organization_init_def at_least_1_def refdb_pair_count_def)
  have acc: "accepted lpddr6_demo te ?h"
    by (simp add: constraint_ready_def one lpddr6_demo_def DramSpec_init_def scope_index_simps clamp_dim_def
        DecodedAddress_init_def refdb_pair_def Let_def)
  have rng: "in_range lpddr6_demo ?d"
    by (simp add: in_range_def digit_ok_def lpddr6_demo_def DramSpec_init_def Organization_init_def DecodedAddress_init_def
        Let_def)
  have dual: "ds_lpddr_dual_bank_refresh lpddr6_demo" and n: "nat (refdb_pair_count lpddr6_demo) = 8"
    by (simp_all add: lpddr6_demo_def refdb_pair_count_def DramSpec_init_def Organization_init_def)
  have idx: "scope_index lpddr6_demo ScRank ?d = 0"
    by (simp add: scope_index_simps clamp_dim_def DecodedAddress_init_def)
  have sw: "swept lpddr6_demo ?d ?h = [refdb_pair lpddr6_demo ?d]"
    by (simp add: swept_def swept_step_def n same_scope_def)
  from refdb_sweep_exact [OF te dual acc _ rng refl] te rng show ?thesis
    by (simp add: idx sw)
qed

end
