(* ===== verification/Refresh_Manager.thy ===== *)
theory Refresh_Manager
  imports Timing_Engine
begin

text \<open>
  The refresh manager of the DRAM controller (\<open>controller/refresh.hpp\<close>, \<open>controller/refresh.cpp\<close>):
  per-rank deadlines and obligation credit, postponement and pull-in, and the rotation of the
  refresh targets.

  The loop that crosses the deadlines compares wrapped 64-bit cycles and need not end for a clock
  near the end of the range; it is a partial function whose value \<open>None\<close> is a run that never
  returns. \<open>refresh_tick\<close> is therefore an option of a result: \<open>None\<close> if the loop does not end,
  \<open>Some (Inl e)\<close> if \<open>validate_spec\<close> throws.

  The cursors, the credit and the counts are \<open>int\<close> in the source and mathematical integers here. The
  credit grows by one per elapsed interval and shrinks by one per batch, so it leaves the 32-bit range
  only if $2^{31}$ intervals of a rank pass without a batch.
\<close>

record RankRefreshState =
  next_refresh_cycle :: nat
  sid_cursor :: int
  flat_bank_cursor :: int
  credit :: int
  postpone_count :: int
  pullin_count :: int

definition RankRefreshState_init :: RankRefreshState where
  "RankRefreshState_init = \<lparr>next_refresh_cycle = 0, sid_cursor = 0, flat_bank_cursor = 0, credit = 0,
     postpone_count = 0, pullin_count = 0\<rparr>"

record MaintenanceCommand =
  mc_command :: Command
  mc_decoded :: DecodedAddress

record RefreshTickResult =
  started_batch :: bool
  postponed :: bool
  pulled_in :: bool
  result_credit :: int
  commands :: "MaintenanceCommand list"

definition RefreshTickResult_init :: RefreshTickResult where
  "RefreshTickResult_init = \<lparr>started_batch = False, postponed = False, pulled_in = False, result_credit = 0, commands = []\<rparr>"

record RefreshManager =
  rank_states :: "RankRefreshState list"
  rank_cursor :: int

section \<open>Intervals\<close>

definition refresh_interval :: "DramSpec \<Rightarrow> int" where
  "refresh_interval spec =
     (let t = ds_timing spec;
          interval = (if ds_refresh_policy spec = AllBank then nREFI t
                      else if nREFIpb t > 0 then nREFIpb t else nREFI t)
      in if ds_refresh_temperature_mode spec \<noteq> TempNormal
         then max 1 (sgn interval * (\<bar>interval\<bar> div max 1 (ds_refresh_high_temp_multiplier spec)))
         else interval)"

definition refresh_delay :: "DramSpec \<Rightarrow> int \<Rightarrow> nat" where
  "refresh_delay spec cycles =
     (if cycles \<le> 0 then 0 else u64_mul (nat cycles) (nat (max 1 (ds_tick_multiplier spec))))"

definition rank_count :: "DramSpec \<Rightarrow> nat" where
  "rank_count spec = nat (max 1 (ranks (ds_org spec)))"

definition refresh_reset :: "FloatChecks \<Rightarrow> DramSpec \<Rightarrow> nat \<Rightarrow> RefreshManager res" where
  "refresh_reset fc spec clk = rbind (validate_spec fc spec) (\<lambda>_.
     Inr \<lparr>rank_states = replicate (rank_count spec)
            (RankRefreshState_init\<lparr>next_refresh_cycle := u64_add clk (refresh_delay spec (refresh_interval spec))\<rparr>),
          rank_cursor = 0\<rparr>)"

definition aggregate_credit :: "RankRefreshState list \<Rightarrow> int" where
  "aggregate_credit states = sum_list (map credit states)"

section \<open>Refresh targets\<close>

definition positions_per_sid :: "DramSpec \<Rightarrow> int" where
  "positions_per_sid spec =
     (let groups = max 1 (bank_groups (ds_org spec)); per_group = max 1 (banks_per_group (ds_org spec))
      in if ds_lpddr_dual_bank_refresh spec then max 1 (groups div 2) * per_group else groups * per_group)"

definition upto_dim :: "int \<Rightarrow> int list" where
  "upto_dim n = map int [0..<nat (max 1 n)]"

definition seed_refresh_batch :: "DramSpec \<Rightarrow> int \<Rightarrow> RankRefreshState \<Rightarrow> MaintenanceCommand list \<times> RankRefreshState" where
  "seed_refresh_batch spec rk state =
     (let org = ds_org spec in
      if ds_refresh_policy spec = AllBank then
        (concat (map (\<lambda>pc. map (\<lambda>s. \<lparr>mc_command = REFAB,
             mc_decoded = DecodedAddress_init\<lparr>pseudo_channel := pc, sid := s, rank := rk\<rparr>\<rparr>)
           (upto_dim (sids org))) (upto_dim (pseudo_channels org))), state)
      else
        let per_group = max 1 (banks_per_group org); positions = positions_per_sid spec;
            sid_count = max 1 (sids org);
            flat = flat_bank_cursor state mod positions; s = sid_cursor state mod sid_count;
            group = (if ds_lpddr_dual_bank_refresh spec then flat div per_group * 2 else flat div per_group);
            cmds = concat (map (\<lambda>ch. map (\<lambda>pc. \<lparr>mc_command = (if ds_lpddr_dual_bank_refresh spec then REFDB else REFPB),
                mc_decoded = DecodedAddress_init\<lparr>channel := ch, pseudo_channel := pc, sid := s, rank := rk,
                  bank_group := group, bank := flat mod per_group\<rparr>\<rparr>)
              (upto_dim (pseudo_channels org))) (upto_dim (channels org)));
            state = state\<lparr>flat_bank_cursor := flat_bank_cursor state + 1\<rparr>
        in (cmds, if flat_bank_cursor state \<ge> positions
                  then state\<lparr>flat_bank_cursor := 0, sid_cursor := (sid_cursor state + 1) mod sid_count\<rparr>
                  else state))"

section \<open>Deadlines\<close>

partial_function (option) cross_deadlines :: "nat \<Rightarrow> nat \<Rightarrow> RankRefreshState \<Rightarrow> bool \<Rightarrow> (RankRefreshState \<times> bool) option" where
  [code]: "cross_deadlines interval_ticks clk state newly_due =
     (if clk \<ge> next_refresh_cycle state
      then cross_deadlines interval_ticks clk
             (state\<lparr>credit := credit state + 1, next_refresh_cycle := u64_add (next_refresh_cycle state) interval_ticks\<rparr>) True
      else Some (state, newly_due))"

definition advance_rank :: "nat \<Rightarrow> nat \<Rightarrow> RankRefreshState \<Rightarrow> (RankRefreshState \<times> bool) option" where
  "advance_rank interval_ticks clk state =
     map_option (\<lambda>(state, due). (if credit state \<ge> 0 then state\<lparr>pullin_count := 0\<rparr> else state, due))
       (cross_deadlines interval_ticks clk state False)"

section \<open>One tick\<close>

definition rotation :: "RefreshManager \<Rightarrow> nat list" where
  "rotation m = (let n = length (rank_states m)
     in map (\<lambda>offset. nat ((rank_cursor m + int offset) mod int n)) [0..<n])"

definition after_rank :: "nat \<Rightarrow> RankRefreshState \<Rightarrow> RefreshManager \<Rightarrow> RefreshManager" where
  "after_rank rk state m =
     (let n = length (rank_states m)
      in m\<lparr>rank_states := (rank_states m)[rk := state], rank_cursor := (int rk + 1) mod int n\<rparr>)"

fun serve_due :: "DramSpec \<Rightarrow> bool \<Rightarrow> bool list \<Rightarrow> nat list \<Rightarrow> RefreshManager \<Rightarrow> (RefreshManager \<times> RefreshTickResult) option" where
  "serve_due spec prefer_postpone newly_due [] m = None"
| "serve_due spec prefer_postpone newly_due (rk # rks) m =
     (let state = rank_states m ! rk; credit_limit = max 0 (ds_refresh_credit_limit spec) in
      if credit state \<le> 0 then serve_due spec prefer_postpone newly_due rks m
      else if newly_due ! rk \<and> prefer_postpone \<and> ds_refresh_postpone_limit spec > 0
        \<and> postpone_count state < ds_refresh_postpone_limit spec \<and> (credit_limit = 0 \<or> credit state \<le> credit_limit)
      then let m = after_rank rk (state\<lparr>postpone_count := postpone_count state + 1\<rparr>) m
           in Some (m, RefreshTickResult_init\<lparr>postponed := True, result_credit := aggregate_credit (rank_states m)\<rparr>)
      else if prefer_postpone \<and> \<not> newly_due ! rk \<and> postpone_count state > 0
        \<and> postpone_count state < ds_refresh_postpone_limit spec
      then serve_due spec prefer_postpone newly_due rks m
      else let (cmds, state) = seed_refresh_batch spec (int rk) state;
               state = state\<lparr>credit := credit state - 1\<rparr>;
               state = (if credit state \<le> 0 then state\<lparr>postpone_count := 0\<rparr> else state);
               m = after_rank rk state m
           in Some (m, RefreshTickResult_init\<lparr>started_batch := True, commands := cmds,
                result_credit := aggregate_credit (rank_states m)\<rparr>))"

fun pull_in :: "DramSpec \<Rightarrow> nat \<Rightarrow> nat list \<Rightarrow> RefreshManager \<Rightarrow> (RefreshManager \<times> RefreshTickResult) option" where
  "pull_in spec clk [] m = None"
| "pull_in spec clk (rk # rks) m =
     (let state = rank_states m ! rk;
          in_window = (u64_add clk (refresh_delay spec (max 1 (refresh_interval spec div 2))) \<ge> next_refresh_cycle state) in
      if credit state = 0 \<and> in_window \<and> pullin_count state < ds_refresh_pullin_limit spec
      then let (cmds, state) = seed_refresh_batch spec (int rk) state;
               m = after_rank rk (state\<lparr>credit := credit state - 1, pullin_count := pullin_count state + 1\<rparr>) m
           in Some (m, RefreshTickResult_init\<lparr>started_batch := True, pulled_in := True, commands := cmds,
                result_credit := aggregate_credit (rank_states m)\<rparr>)
      else pull_in spec clk rks m)"

definition serve :: "DramSpec \<Rightarrow> nat \<Rightarrow> bool \<Rightarrow> bool \<Rightarrow> bool list \<Rightarrow> RefreshManager \<Rightarrow> RefreshManager \<times> RefreshTickResult" where
  "serve spec clk prefer_postpone allow_pull_in newly_due m =
     (case serve_due spec prefer_postpone newly_due (rotation m) m of
        Some r \<Rightarrow> r
      | None \<Rightarrow>
          (case (if allow_pull_in \<and> ds_refresh_pullin_limit spec > 0 then pull_in spec clk (rotation m) m else None) of
             Some r \<Rightarrow> r
           | None \<Rightarrow> (m, RefreshTickResult_init\<lparr>result_credit := aggregate_credit (rank_states m)\<rparr>)))"

definition refresh_tick :: "FloatChecks \<Rightarrow> DramSpec \<Rightarrow> nat \<Rightarrow> bool \<Rightarrow> bool \<Rightarrow> RefreshManager
    \<Rightarrow> (RefreshManager \<times> RefreshTickResult) res option" where
  "refresh_tick fc spec clk prefer_postpone allow_pull_in m =
     (let interval = refresh_interval spec in
      if \<not> ds_supports_refresh spec \<or> interval \<le> 0 then Some (Inr (m, RefreshTickResult_init))
      else case (if length (rank_states m) \<noteq> rank_count spec then refresh_reset fc spec clk else Inr m) of
        Inl e \<Rightarrow> Some (Inl e)
      | Inr m \<Rightarrow> map_option (\<lambda>advanced.
            Inr (serve spec clk prefer_postpone allow_pull_in (map snd advanced) (m\<lparr>rank_states := map fst advanced\<rparr>)))
          (those (map (advance_rank (refresh_delay spec interval) clk) (rank_states m))))"

end
