(* ===== verification/Refresh_Correct.thy ===== *)
theory Refresh_Correct
  imports Refresh_Manager
begin

text \<open>
  Correctness of the refresh manager: the deadline loop ends and crosses exactly the deadlines up to
  the clock; no obligation is lost or invented, so the credit is at every moment the number of
  deadlines less the number of batches; and the rotation of targets visits every bank position of
  every SID exactly once per round.
\<close>

section \<open>Deadlines\<close>

definition crossings :: "nat \<Rightarrow> nat \<Rightarrow> nat \<Rightarrow> nat" where
  "crossings interval clk next = (if next \<le> clk then (clk - next) div interval + 1 else 0)"

lemma crossings_step: "0 < i \<Longrightarrow> next \<le> clk \<Longrightarrow> crossings i clk next = crossings i clk (next + i) + 1"
proof -
  assume i: "0 < i" and le: "next \<le> clk"
  show ?thesis
  proof (cases "next + i \<le> clk")
    case True
    define q where "q = clk - (next + i)"
    have "clk - next = q + i" using True by (simp add: q_def)
    then have "(clk - next) div i = q div i + 1" using i by simp
    with True le q_def show ?thesis by (simp add: crossings_def)
  next
    case False
    then have "(clk - next) div i = 0" using le by simp
    with False le show ?thesis by (simp add: crossings_def)
  qed
qed

lemma cross_deadlines_terminates:
  assumes "0 < i" and "clk + i < 2 ^ 64"
  shows "cross_deadlines i clk s due =
    Some (s\<lparr>credit := credit s + int (crossings i clk (next_refresh_cycle s)),
            next_refresh_cycle := next_refresh_cycle s + crossings i clk (next_refresh_cycle s) * i\<rparr>,
          due \<or> 0 < crossings i clk (next_refresh_cycle s))"
proof (induction "Suc clk - next_refresh_cycle s" arbitrary: s due rule: less_induct)
  case less
  show ?case
  proof (cases "next_refresh_cycle s \<le> clk")
    case False
    then show ?thesis
      by (subst cross_deadlines.simps) (simp add: crossings_def)
  next
    case True
    let ?s = "s\<lparr>credit := credit s + 1, next_refresh_cycle := u64_add (next_refresh_cycle s) i\<rparr>"
    have add: "u64_add (next_refresh_cycle s) i = next_refresh_cycle s + i"
      using True assms(2) by (intro u64_add_exact) simp
    have "Suc clk - next_refresh_cycle ?s < Suc clk - next_refresh_cycle s"
      using True assms(1) by (simp add: add)
    note IH = less [OF this, of True]
    have "cross_deadlines i clk s due = cross_deadlines i clk ?s True"
      using True by (subst cross_deadlines.simps) simp
    then show ?thesis
      unfolding IH using crossings_step [OF assms(1) True] by (simp add: add algebra_simps)
  qed
qed

lemma next_after_crossings:
  assumes "0 < i" and "next = first + k * i" and "k \<le> crossings i clk first"
  shows "next + crossings i clk next * i = first + crossings i clk first * i"
proof -
  have "crossings i clk (first + k * i) + k = crossings i clk first"
    using assms(3)
  proof (induction k)
    case (Suc k)
    have "first + k * i \<le> clk"
    proof (rule ccontr)
      assume "\<not> ?thesis"
      with Suc show False by (simp add: crossings_def)
    qed
    from crossings_step [OF assms(1) this] Suc show ?case
      by (simp add: algebra_simps)
  qed simp
  then have "crossings i clk first * i = crossings i clk next * i + k * i"
    by (metis add_mult_distrib assms(2))
  with assms(2) show ?thesis by simp
qed

section \<open>Serving a tick\<close>

lemma rotation_less: "rk \<in> set (rotation m) \<Longrightarrow> rk < length (rank_states m)"
proof -
  assume "rk \<in> set (rotation m)"
  then obtain k where rk: "rk = nat ((rank_cursor m + int k) mod int (length (rank_states m)))" and k: "k < length (rank_states m)"
    by (auto simp: rotation_def Let_def)
  have "(rank_cursor m + int k) mod int (length (rank_states m)) < int (length (rank_states m))"
    using k by (intro pos_mod_bound) linarith
  then show ?thesis using k unfolding rk by linarith
qed

lemma seed_keeps:
  assumes "seed_refresh_batch spec rk s = (cmds, s')"
  shows "next_refresh_cycle s' = next_refresh_cycle s" "credit s' = credit s" "pullin_count s' = pullin_count s"
    "postpone_count s' = postpone_count s"
  using assms by (auto simp: seed_refresh_batch_def Let_def split: if_splits)

text \<open>What a tick may do to the ranks: change one of them, keep its deadline, and take a credit iff a batch starts.\<close>

definition serves :: "RefreshManager \<Rightarrow> RefreshManager \<Rightarrow> RefreshTickResult \<Rightarrow> bool" where
  "serves m m' r \<longleftrightarrow> map next_refresh_cycle (rank_states m') = map next_refresh_cycle (rank_states m)
     \<and> aggregate_credit (rank_states m') = aggregate_credit (rank_states m) - of_bool (started_batch r)
     \<and> result_credit r = aggregate_credit (rank_states m')"

lemma aggregate_update:
  "k < length v \<Longrightarrow> aggregate_credit (v[k := s]) = aggregate_credit v - credit (v ! k) + credit s"
proof -
  assume k: "k < length v"
  have v: "v = take k v @ v ! k # drop (Suc k) v" using k by (rule id_take_nth_drop)
  have "aggregate_credit v = aggregate_credit (take k v) + credit (v ! k) + aggregate_credit (drop (Suc k) v)"
    by (subst v) (simp add: aggregate_credit_def)
  moreover have "aggregate_credit (v[k := s]) = aggregate_credit (take k v) + credit s + aggregate_credit (drop (Suc k) v)"
    using k by (simp add: upd_conv_take_nth_drop aggregate_credit_def)
  ultimately show ?thesis by simp
qed

lemma after_rank_serves:
  assumes "rk < length (rank_states m)" and "next_refresh_cycle s = next_refresh_cycle (rank_states m ! rk)"
    and "credit s = credit (rank_states m ! rk) - of_bool (started_batch r)"
    and "result_credit r = aggregate_credit (rank_states (after_rank rk s m))"
  shows "serves m (after_rank rk s m) r"
proof -
  have "map next_refresh_cycle ((rank_states m)[rk := s]) = map next_refresh_cycle (rank_states m)"
    unfolding map_update assms(2) by (metis assms(1) list_update_id nth_map)
  then show ?thesis
    using assms by (simp add: serves_def after_rank_def Let_def aggregate_update)
qed

lemma serve_due_serves:
  "serve_due spec pp due rks m = Some (m', r) \<Longrightarrow> \<forall>rk \<in> set rks. rk < length (rank_states m) \<Longrightarrow> serves m m' r"
proof (induction rks)
  case (Cons rk rks)
  define s where "s = rank_states m ! rk"
  have rk: "rk < length (rank_states m)" using Cons.prems by simp
  obtain cmds s' where seed: "seed_refresh_batch spec (int rk) s = (cmds, s')" by (cases "seed_refresh_batch spec (int rk) s")
  note keep = seed_keeps [OF seed]
  show ?case
    using Cons.prems(1)
  proof (simp add: Let_def s_def [symmetric] seed split: if_splits, goal_cases)
    case 1
    then show ?case using Cons by simp
  next
    case 2
    then show ?case
      using rk by (auto intro!: after_rank_serves simp: s_def RefreshTickResult_init_def)
  next
    case 3
    then show ?case using Cons by simp
  next
    case 4
    then show ?case
      using rk keep by (auto intro!: after_rank_serves simp: s_def RefreshTickResult_init_def)
  next
    case 5
    then show ?case
      using rk keep by (auto intro!: after_rank_serves simp: s_def RefreshTickResult_init_def)
  qed
qed simp

lemma pull_in_serves:
  "pull_in spec clk rks m = Some (m', r) \<Longrightarrow> \<forall>rk \<in> set rks. rk < length (rank_states m) \<Longrightarrow> serves m m' r"
proof (induction rks)
  case (Cons rk rks)
  define s where "s = rank_states m ! rk"
  have rk: "rk < length (rank_states m)" using Cons.prems by simp
  obtain cmds s' where seed: "seed_refresh_batch spec (int rk) s = (cmds, s')" by (cases "seed_refresh_batch spec (int rk) s")
  note keep = seed_keeps [OF seed]
  show ?case
    using Cons.prems(1)
  proof (simp add: Let_def s_def [symmetric] seed split: if_splits, goal_cases)
    case 1
    then show ?case
      using rk keep by (auto intro!: after_rank_serves simp: s_def RefreshTickResult_init_def)
  next
    case 2
    then show ?case using Cons by simp
  qed
qed simp

lemma serve_serves: "serve spec clk pp ap due m = (m', r) \<Longrightarrow> serves m m' r"
proof -
  assume s: "serve spec clk pp ap due m = (m', r)"
  have rot: "\<forall>rk \<in> set (rotation m). rk < length (rank_states m)"
    using rotation_less by blast
  show ?thesis
  proof (cases "serve_due spec pp due (rotation m) m")
    case (Some x)
    then have "x = (m', r)" using s by (simp add: serve_def)
    with Some serve_due_serves [OF _ rot] show ?thesis by simp
  next
    case due: None
    show ?thesis
    proof (cases "if ap \<and> ds_refresh_pullin_limit spec > 0 then pull_in spec clk (rotation m) m else None")
      case None
      then show ?thesis
        using s due by (auto simp: serve_def serves_def RefreshTickResult_init_def)
    next
      case (Some x)
      then have "x = (m', r)" using s due by (simp add: serve_def)
      with Some have "pull_in spec clk (rotation m) m = Some (m', r)" by (simp split: if_splits)
      from pull_in_serves [OF this rot] show ?thesis .
    qed
  qed
qed

lemma those_map: "(\<And>x. x \<in> set xs \<Longrightarrow> f x = Some (g x)) \<Longrightarrow> those (map f xs) = Some (map g xs)"
  by (induction xs) auto

section \<open>Runs\<close>

definition advanced :: "nat \<Rightarrow> nat \<Rightarrow> RankRefreshState \<Rightarrow> RankRefreshState" where
  "advanced i clk s =
     (let k = crossings i clk (next_refresh_cycle s);
          s = s\<lparr>credit := credit s + int k, next_refresh_cycle := next_refresh_cycle s + k * i\<rparr>
      in if credit s \<ge> 0 then s\<lparr>pullin_count := 0\<rparr> else s)"

lemma advance_rank_eq:
  assumes "0 < i" and "clk + i < 2 ^ 64"
  shows "advance_rank i clk s = Some (advanced i clk s, 0 < crossings i clk (next_refresh_cycle s))"
  by (simp add: advance_rank_def cross_deadlines_terminates [OF assms] advanced_def Let_def)

lemma advanced_simps [simp]:
  "next_refresh_cycle (advanced i clk s) = next_refresh_cycle s + crossings i clk (next_refresh_cycle s) * i"
  "credit (advanced i clk s) = credit s + int (crossings i clk (next_refresh_cycle s))"
  by (simp_all add: advanced_def Let_def)

definition tick_ok :: "DramSpec \<Rightarrow> nat \<Rightarrow> bool" where
  "tick_ok spec clk \<longleftrightarrow> ds_supports_refresh spec \<and> 0 < refresh_interval spec
     \<and> clk + refresh_delay spec (refresh_interval spec) < 2 ^ 64"

lemma refresh_delay_pos:
  assumes "0 < cycles" and "int32 cycles" and "int32 (ds_tick_multiplier spec)"
  shows "0 < refresh_delay spec cycles"
proof -
  have b: "nat cycles < 2 ^ 31" "nat (max 1 (ds_tick_multiplier spec)) < 2 ^ 31"
    using assms by (auto simp: int32_def)
  have "nat cycles * nat (max 1 (ds_tick_multiplier spec)) < 2 ^ 31 * 2 ^ 31"
    using b by (intro mult_strict_mono) auto
  then have "refresh_delay spec cycles = nat cycles * nat (max 1 (ds_tick_multiplier spec))"
    using assms(1) by (simp add: refresh_delay_def u64_mul_def)
  with assms(1) show ?thesis by simp
qed

lemma refresh_delay_bound:
  assumes "int32 cycles" and "int32 (ds_tick_multiplier spec)"
  shows "refresh_delay spec cycles < 2 ^ 62"
proof -
  have b: "nat cycles < 2 ^ 31" "nat (max 1 (ds_tick_multiplier spec)) < 2 ^ 31"
    using assms by (auto simp: int32_def)
  have p: "nat cycles * nat (max 1 (ds_tick_multiplier spec)) < 2 ^ 31 * 2 ^ 31"
    using b by (intro mult_strict_mono) auto
  have "refresh_delay spec cycles \<le> nat cycles * nat (max 1 (ds_tick_multiplier spec))"
    by (simp add: refresh_delay_def u64_mul_def)
  with p show ?thesis by simp
qed

lemma refresh_tick_eq:
  assumes "tick_ok spec clk" and "0 < refresh_delay spec (refresh_interval spec)" and "length (rank_states m) = rank_count spec"
  defines "i \<equiv> refresh_delay spec (refresh_interval spec)"
  shows "refresh_tick fc spec clk pp ap m = Some (Inr (serve spec clk pp ap
      (map (\<lambda>s. 0 < crossings i clk (next_refresh_cycle s)) (rank_states m))
      (m\<lparr>rank_states := map (advanced i clk) (rank_states m)\<rparr>)))"
proof -
  have "those (map (advance_rank i clk) (rank_states m)) =
      Some (map (\<lambda>s. (advanced i clk s, 0 < crossings i clk (next_refresh_cycle s))) (rank_states m))"
    using assms(1,2) by (intro those_map advance_rank_eq) (simp_all add: tick_ok_def i_def)
  then show ?thesis
    using assms(1,3) by (simp add: refresh_tick_def Let_def tick_ok_def i_def [symmetric] comp_def)
qed

fun run_ticks :: "FloatChecks \<Rightarrow> DramSpec \<Rightarrow> (nat \<times> bool \<times> bool) list \<Rightarrow> RefreshManager \<Rightarrow> nat
    \<Rightarrow> (RefreshManager \<times> nat) res option" where
  "run_ticks fc spec [] m batches = Some (Inr (m, batches))"
| "run_ticks fc spec ((clk, pp, ap) # ts) m batches =
     (case refresh_tick fc spec clk pp ap m of
        None \<Rightarrow> None
      | Some (Inl e) \<Rightarrow> Some (Inl e)
      | Some (Inr (m', r)) \<Rightarrow> run_ticks fc spec ts m' (if started_batch r then Suc batches else batches))"

definition ledger :: "DramSpec \<Rightarrow> nat \<Rightarrow> nat \<Rightarrow> RefreshManager \<Rightarrow> nat \<Rightarrow> bool" where
  "ledger spec first k m batches \<longleftrightarrow> length (rank_states m) = rank_count spec
     \<and> (\<forall>s \<in> set (rank_states m). next_refresh_cycle s = first + k * refresh_delay spec (refresh_interval spec))
     \<and> aggregate_credit (rank_states m) + int batches = int (rank_count spec * k)"

lemma ledger_tick:
  assumes "ledger spec first k m batches" and "tick_ok spec clk" and "0 < refresh_delay spec (refresh_interval spec)"
    and "k \<le> crossings (refresh_delay spec (refresh_interval spec)) clk first"
  shows "\<exists>m' r. refresh_tick fc spec clk pp ap m = Some (Inr (m', r))
    \<and> ledger spec first (crossings (refresh_delay spec (refresh_interval spec)) clk first) m'
        (if started_batch r then Suc batches else batches)"
proof -
  define i where "i = refresh_delay spec (refresh_interval spec)"
  define a where "a = map (advanced i clk) (rank_states m)"
  have len: "length (rank_states m) = rank_count spec" and nx: "\<forall>s \<in> set (rank_states m). next_refresh_cycle s = first + k * i"
    and cr: "aggregate_credit (rank_states m) + int batches = int (rank_count spec * k)"
    using assms(1) by (simp_all add: ledger_def i_def)
  obtain m' r where sv: "serve spec clk pp ap (map (\<lambda>s. 0 < crossings i clk (next_refresh_cycle s)) (rank_states m))
      (m\<lparr>rank_states := a\<rparr>) = (m', r)" by fastforce
  note srv = serve_serves [OF sv, unfolded serves_def]
  have tick: "refresh_tick fc spec clk pp ap m = Some (Inr (m', r))"
    unfolding refresh_tick_eq [OF assms(2,3) len] using sv by (simp add: i_def a_def)
  let ?K = "crossings i clk first"
  have i: "0 < i" using assms(3) by (simp add: i_def)
  have jump: "crossings i clk (first + k * i) + k = ?K"
    using next_after_crossings [OF i refl, of k clk first] assms(4) i
    by (simp add: i_def [symmetric] add_mult_distrib [symmetric] flip: add.assoc)
  have nexts: "next_refresh_cycle (advanced i clk s) = first + ?K * i" if "s \<in> set (rank_states m)" for s
    using nx that jump [symmetric] by (simp add: algebra_simps)
  have sum: "aggregate_credit a = aggregate_credit (rank_states m) + int (rank_count spec * crossings i clk (first + k * i))"
  proof -
    have "aggregate_credit (map (advanced i clk) v) = aggregate_credit v + int (length v * crossings i clk (first + k * i))"
      if "\<forall>s \<in> set v. next_refresh_cycle s = first + k * i" for v
      using that by (induction v) (simp_all add: aggregate_credit_def algebra_simps)
    from this [OF nx] show ?thesis by (simp add: a_def len)
  qed
  have "aggregate_credit (rank_states m') + int (if started_batch r then Suc batches else batches) = int (rank_count spec * ?K)"
    using srv cr sum jump [symmetric] by (auto simp: algebra_simps)
  moreover have same: "map next_refresh_cycle (rank_states m') = map (\<lambda>s. first + ?K * i) (rank_states m)"
    using srv nexts by (simp add: a_def)
  moreover have "length (rank_states m') = rank_count spec"
    using same len by (metis length_map)
  moreover have "\<forall>s \<in> set (rank_states m'). next_refresh_cycle s = first + ?K * i"
  proof
    fix s assume "s \<in> set (rank_states m')"
    then have "next_refresh_cycle s \<in> set (map next_refresh_cycle (rank_states m'))" by simp
    then show "next_refresh_cycle s = first + ?K * i" unfolding same by auto
  qed
  ultimately show ?thesis
    using tick by (simp add: ledger_def i_def [symmetric])
qed

lemma crossings_mono: "clk \<le> clk' \<Longrightarrow> crossings i clk first \<le> crossings i clk' first"
  by (simp add: crossings_def div_le_mono)

lemma ledger_run:
  assumes "ledger spec first (crossings (refresh_delay spec (refresh_interval spec)) clk0 first) m batches"
    and "\<forall>(clk, pp, ap) \<in> set ts. tick_ok spec clk" and "sorted (clk0 # map fst ts)"
    and "0 < refresh_delay spec (refresh_interval spec)"
  shows "\<exists>m' b. run_ticks fc spec ts m batches = Some (Inr (m', b))
    \<and> ledger spec first (crossings (refresh_delay spec (refresh_interval spec)) (last (clk0 # map fst ts)) first) m' b"
  using assms
proof (induction ts arbitrary: clk0 m batches)
  case (Cons t ts)
  obtain clk pp ap where t: "t = (clk, pp, ap)" by (cases t)
  have ok: "tick_ok spec clk" and le: "clk0 \<le> clk" and ts: "sorted (clk # map fst ts)"
    using Cons.prems(2,3) by (simp_all add: t)
  obtain m' r where tick: "refresh_tick fc spec clk pp ap m = Some (Inr (m', r))"
    and led: "ledger spec first (crossings (refresh_delay spec (refresh_interval spec)) clk first) m'
        (if started_batch r then Suc batches else batches)"
    using ledger_tick [OF Cons.prems(1) ok Cons.prems(4) crossings_mono [OF le]] by blast
  from Cons.IH [OF led _ ts Cons.prems(4)] Cons.prems(2) show ?case
    by (simp add: t tick)
qed simp

section \<open>The rotation of the targets\<close>

definition nth_state :: "DramSpec \<Rightarrow> int \<Rightarrow> nat \<Rightarrow> RankRefreshState" where
  "nth_state spec rk n = ((\<lambda>s. snd (seed_refresh_batch spec rk s)) ^^ n) RankRefreshState_init"

definition nth_batch :: "DramSpec \<Rightarrow> int \<Rightarrow> nat \<Rightarrow> MaintenanceCommand list" where
  "nth_batch spec rk n = fst (seed_refresh_batch spec rk (nth_state spec rk n))"

lemma positions_pos [simp]: "0 < positions_per_sid spec"
  by (simp add: positions_per_sid_def Let_def)

lemma nth_state_cursors:
  assumes "ds_refresh_policy spec \<noteq> AllBank"
  shows "flat_bank_cursor (nth_state spec rk n) = int n mod positions_per_sid spec
    \<and> sid_cursor (nth_state spec rk n) = int n div positions_per_sid spec mod max 1 (sids (ds_org spec))"
proof (induction n)
  case 0
  then show ?case by (simp add: nth_state_def RankRefreshState_init_def)
next
  case (Suc n)
  let ?P = "positions_per_sid spec" and ?S = "max 1 (sids (ds_org spec))"
  define s where "s = nth_state spec rk n"
  have s: "flat_bank_cursor s = int n mod ?P" "sid_cursor s = int n div ?P mod ?S" using Suc by (simp_all add: s_def)
  have nx: "nth_state spec rk (Suc n) = snd (seed_refresh_batch spec rk s)"
    by (simp add: nth_state_def s_def)
  have P: "0 < ?P" by simp
  show ?case
  proof (cases "int n mod ?P + 1 = ?P")
    case True
    then have e: "int n + 1 = (int n div ?P + 1) * ?P"
      using div_mult_mod_eq [of "int n" ?P] distrib_right [of "int n div ?P" 1 ?P] by linarith
    have "(int n + 1) mod ?P = 0" "(int n + 1) div ?P = int n div ?P + 1"
      using P less_imp_neq [OF P] by (subst e, simp)+
    moreover have "(int n div ?P mod ?S + 1) mod ?S = (int n div ?P + 1) mod ?S"
      by (rule mod_add_left_eq)
    ultimately show ?thesis
      unfolding nx using assms s True by (simp add: seed_refresh_batch_def Let_def add.commute)
  next
    case False
    have lt: "int n mod ?P + 1 < ?P"
      using False pos_mod_bound [OF P, of "int n"] by linarith
    have "(int n + 1) mod ?P = int n mod ?P + 1"
    proof -
      have "(int n + 1) mod ?P = (int n mod ?P + 1) mod ?P" by (simp add: mod_add_left_eq)
      also have "\<dots> = int n mod ?P + 1"
        using lt pos_mod_sign [OF P, of "int n"] by (intro mod_pos_pos_trivial) linarith+
      finally show ?thesis .
    qed
    moreover from this have "(int n + 1) div ?P = int n div ?P"
    proof -
      have "(int n + 1) div ?P * ?P = int n div ?P * ?P"
        using div_mult_mod_eq [of "int n" ?P] div_mult_mod_eq [of "int n + 1" ?P] \<open>(int n + 1) mod ?P = _\<close> by linarith
      then show ?thesis using P by (simp only: mult_cancel_right) linarith
    qed
    ultimately show ?thesis
      unfolding nx using assms s lt by (simp add: seed_refresh_batch_def Let_def add.commute)
  qed
qed

definition batch_position :: "DramSpec \<Rightarrow> nat \<Rightarrow> int \<times> int \<times> int" where
  "batch_position spec n =
     (let flat = int n mod positions_per_sid spec; per_group = max 1 (banks_per_group (ds_org spec))
      in (int n div positions_per_sid spec mod max 1 (sids (ds_org spec)),
          (if ds_lpddr_dual_bank_refresh spec then flat div per_group * 2 else flat div per_group), flat mod per_group))"

lemma nth_batch_position:
  assumes "ds_refresh_policy spec \<noteq> AllBank" and "c \<in> set (nth_batch spec rk n)"
  shows "(sid (mc_decoded c), bank_group (mc_decoded c), bank (mc_decoded c)) = batch_position spec n"
proof -
  have "flat_bank_cursor (nth_state spec rk n) mod positions_per_sid spec = int n mod positions_per_sid spec"
    "sid_cursor (nth_state spec rk n) mod max 1 (sids (ds_org spec)) = int n div positions_per_sid spec mod max 1 (sids (ds_org spec))"
    using nth_state_cursors [OF assms(1), of rk n] by simp_all
  then show ?thesis
    using assms by (auto simp: nth_batch_def seed_refresh_batch_def batch_position_def Let_def)
qed

lemma upto_dim_range: "0 < n \<Longrightarrow> x \<in> set (upto_dim n) \<longleftrightarrow> digit_ok n x"
  by (force simp: upto_dim_def digit_ok_def image_iff intro: bexI [of _ "nat x"])

lemma upto_dim_zero: "0 \<in> set (upto_dim n)"
  by (force simp: upto_dim_def)

lemma nth_batch_nonempty:
  assumes "ds_refresh_policy spec \<noteq> AllBank"
  shows "set (nth_batch spec rk n) \<noteq> {}"
  using assms upto_dim_zero [of "channels (ds_org spec)"] upto_dim_zero [of "pseudo_channels (ds_org spec)"]
  by (auto simp: nth_batch_def seed_refresh_batch_def Let_def)

definition refresh_positions :: "DramSpec \<Rightarrow> (int \<times> int \<times> int) set" where
  "refresh_positions spec = {(s, g, b). digit_ok (sids (ds_org spec)) s \<and> digit_ok (bank_groups (ds_org spec)) g
     \<and> digit_ok (banks_per_group (ds_org spec)) b \<and> (ds_lpddr_dual_bank_refresh spec \<longrightarrow> even g)}"

lemma radix_split:
  assumes "0 < (n :: int)" and "digit_ok (m * n) x"
  shows "digit_ok m (x div n)" "digit_ok n (x mod n)"
proof -
  have "x div n * n \<le> x"
    using pos_mod_sign [OF assms(1), of x] div_mult_mod_eq [of x n] by linarith
  then have "x div n * n < m * n" using assms(2) by (simp add: digit_ok_def)
  then have "x div n < m" using assms(1) by simp
  then show "digit_ok m (x div n)" "digit_ok n (x mod n)"
    using assms by (simp_all add: digit_ok_def pos_imp_zdiv_nonneg_iff)
qed

lemma rotation_bij:
  assumes "0 < S" and "0 < B" and "f = (if dual then (\<lambda>g. g * 2) else (\<lambda>g :: int. g))"
  shows "bij_betw (\<lambda>n. (int n div (G * B) mod S, f (int n mod (G * B) div B), int n mod (G * B) mod B))
    {..<nat (S * (G * B))} {(s, g, b). digit_ok S s \<and> g \<in> f ` {x. digit_ok G x} \<and> digit_ok B b}"
    (is "bij_betw ?h _ _")
proof -
  have f: "inj f" using assms(3) by (auto simp: inj_def)
  have dig: "digit_ok (S * (G * B)) (int n)" if "n < nat (S * (G * B))" for n
    using that by (auto simp: digit_ok_def)
  have gb: "0 < G * B" if "n < nat (S * (G * B))" for n
  proof -
    have "0 < S * (G * B)" using that by linarith
    then show ?thesis using assms(1) by (simp add: zero_less_mult_iff)
  qed
  have parts: "digit_ok S (int n div (G * B))" "digit_ok G (int n mod (G * B) div B)" "digit_ok B (int n mod (G * B) mod B)"
    "int n div (G * B) mod S = int n div (G * B)" if n: "n < nat (S * (G * B))" for n
  proof -
    note d = radix_split [OF gb [OF n] dig [OF n]]
    show "digit_ok S (int n div (G * B))" by (rule d)
    then show "int n div (G * B) mod S = int n div (G * B)" by (simp add: digit_ok_def)
    show "digit_ok G (int n mod (G * B) div B)" "digit_ok B (int n mod (G * B) mod B)"
      using radix_split [OF assms(2) d(2)] by blast+
  qed
  show ?thesis
  proof (rule bij_betw_imageI)
    show "inj_on ?h {..<nat (S * (G * B))}"
    proof (rule inj_onI)
      fix x y
      assume x: "x \<in> {..<nat (S * (G * B))}" and y: "y \<in> {..<nat (S * (G * B))}" and eq: "?h x = ?h y"
      have "int x div (G * B) = int y div (G * B)"
        using eq parts(4) x y by auto
      moreover have "int x mod (G * B) = int y mod (G * B)"
        using eq inj_eq [OF f] by (metis div_mult_mod_eq prod.inject)
      ultimately show "x = y"
        by (metis div_mult_mod_eq of_nat_eq_iff)
    qed
    show "?h ` {..<nat (S * (G * B))} = {(s, g, b). digit_ok S s \<and> g \<in> f ` {x. digit_ok G x} \<and> digit_ok B b}"
    proof (intro equalityI subsetI)
      fix t assume "t \<in> ?h ` {..<nat (S * (G * B))}"
      then show "t \<in> {(s, g, b). digit_ok S s \<and> g \<in> f ` {x. digit_ok G x} \<and> digit_ok B b}"
        using parts by (auto simp del: of_nat_mod of_nat_div)
    next
      fix t assume "t \<in> {(s, g, b). digit_ok S s \<and> g \<in> f ` {x. digit_ok G x} \<and> digit_ok B b}"
      then obtain s' g b where t: "t = (s', f g, b)" and ok: "digit_ok S s'" "digit_ok G g" "digit_ok B b" by auto
      define x where "x = g * B + b"
      have x: "digit_ok (G * B) x" unfolding x_def using radix_step [OF ok(3,2)] .
      define n where "n = s' * (G * B) + x"
      have n: "digit_ok (S * (G * B)) n" unfolding n_def using radix_step [OF x ok(1)] .
      have dm: "n div (G * B) = s'" "n mod (G * B) = x" "x div B = g" "x mod B = b"
      proof -
        have e: "n div (G * B) * (G * B) + n mod (G * B) = s' * (G * B) + x" unfolding n_def by (rule div_mult_mod_eq)
        have "digit_ok (G * B) (n mod (G * B))"
          using x by (simp add: digit_ok_def)
        from radix_inj [OF this x] e show "n div (G * B) = s'" "n mod (G * B) = x" by blast+
        have e: "x div B * B + x mod B = g * B + b" unfolding x_def by (rule div_mult_mod_eq)
        have "digit_ok B (x mod B)"
          using assms(2) by (simp add: digit_ok_def)
        from radix_inj [OF this ok(3)] e show "x div B = g" "x mod B = b" by blast+
      qed
      have h: "?h (nat n) = t"
        using n ok by (simp add: digit_ok_def dm t)
      have "nat n \<in> {..<nat (S * (G * B))}" using n by (auto simp: digit_ok_def)
      from imageI [OF this, of ?h] show "t \<in> ?h ` {..<nat (S * (G * B))}" unfolding h .
    qed
  qed
qed

section \<open>Targets\<close>

text \<open>Whatever its state, the manager asks for refreshes of coordinates of the device only.\<close>

lemma seed_in_range:
  assumes v: "validate_spec fc spec = Inr ()" and rk: "digit_ok (ranks (ds_org spec)) rk"
    and c: "c \<in> set (fst (seed_refresh_batch spec rk state))"
  shows "in_range spec (mc_decoded c)"
proof -
  let ?org = "ds_org spec" and ?dual = "ds_lpddr_dual_bank_refresh spec"
  note dims = validate_spec_dims(1) [OF v, unfolded dims_ok_def Let_def]
  have up: "x \<in> set (upto_dim (channels ?org)) \<longleftrightarrow> digit_ok (channels ?org) x"
    "x \<in> set (upto_dim (pseudo_channels ?org)) \<longleftrightarrow> digit_ok (pseudo_channels ?org) x"
    "x \<in> set (upto_dim (sids ?org)) \<longleftrightarrow> digit_ok (sids ?org) x" for x
    using dims by (simp_all add: upto_dim_range)
  have zero: "digit_ok n 0" if "0 < n" for n :: int using that by (simp add: digit_ok_def)
  show ?thesis
  proof (cases "ds_refresh_policy spec = AllBank")
    case True
    then show ?thesis
      using c rk dims by (auto simp: seed_refresh_batch_def Let_def in_range_def DecodedAddress_init_def up zero)
  next
    case False
    define G where "G = (if ?dual then bank_groups ?org div 2 else bank_groups ?org)"
    have two: "2 \<le> bank_groups ?org" "even (bank_groups ?org)" if ?dual
      using refdb_pairs [OF that v] by blast+
    have P: "positions_per_sid spec = G * banks_per_group ?org"
      using dims two by (auto simp: positions_per_sid_def Let_def G_def max_def)
    have "digit_ok (G * banks_per_group ?org) (flat_bank_cursor state mod positions_per_sid spec)"
      using positions_pos [of spec] unfolding P by (simp add: digit_ok_def)
    note d = radix_split [OF _ this]
    have "digit_ok (bank_groups ?org) (if ?dual then flat_bank_cursor state mod positions_per_sid spec div banks_per_group ?org * 2
        else flat_bank_cursor state mod positions_per_sid spec div banks_per_group ?org)"
      using d(1) dims two(2) by (auto simp: digit_ok_def G_def split: if_splits)
    moreover have "digit_ok (sids ?org) (sid_cursor state mod sids ?org)"
      using dims by (simp add: digit_ok_def)
    ultimately show ?thesis
      using c rk dims d(2) False
      by (auto simp: seed_refresh_batch_def Let_def in_range_def DecodedAddress_init_def up zero max_def split: if_splits)
  qed
qed

lemma serve_commands:
  assumes "c \<in> set (commands (snd (serve spec clk pp ap due m)))"
  shows "\<exists>rk < length (rank_states m). \<exists>state. c \<in> set (fst (seed_refresh_batch spec (int rk) state))"
proof -
  have d: "\<exists>rk \<in> set rks. \<exists>state. c \<in> set (fst (seed_refresh_batch spec (int rk) state))"
    if "serve_due spec pp due rks m = Some r" "c \<in> set (commands (snd r))" for rks r
    using that by (induction rks) (auto simp: Let_def RefreshTickResult_init_def split: if_splits prod.splits dest!: fstI)
  have p: "\<exists>rk \<in> set rks. \<exists>state. c \<in> set (fst (seed_refresh_batch spec (int rk) state))"
    if "pull_in spec clk rks m = Some r" "c \<in> set (commands (snd r))" for rks r
    using that by (induction rks) (auto simp: Let_def RefreshTickResult_init_def split: if_splits prod.splits dest!: fstI)
  show ?thesis
    using assms d p rotation_less
    by (fastforce simp: serve_def RefreshTickResult_init_def split: option.splits if_splits)
qed

lemma those_map_length: "those (map f xs) = Some ys \<Longrightarrow> length ys = length xs"
  by (induction xs arbitrary: ys) (auto split: option.splits)

lemma refresh_targets_in_range:
  assumes v: "validate_spec fc spec = Inr ()" and t: "refresh_tick fc spec clk pp ap m = Some (Inr (m', r))"
    and c: "c \<in> set (commands r)"
  shows "in_range spec (mc_decoded c)"
proof -
  have "0 < ranks (ds_org spec)" using validate_spec_dims(1) [OF v] by (simp add: dims_ok_def Let_def)
  then have n: "int (rank_count spec) = ranks (ds_org spec)" by (simp add: rank_count_def)
  have "\<exists>rk < rank_count spec. \<exists>state. c \<in> set (fst (seed_refresh_batch spec (int rk) state))"
  proof (cases "\<not> ds_supports_refresh spec \<or> refresh_interval spec \<le> 0")
    case True
    then show ?thesis using t c by (auto simp: refresh_tick_def RefreshTickResult_init_def)
  next
    case False
    let ?i = "refresh_delay spec (refresh_interval spec)"
    define m0 where "m0 = (if length (rank_states m) \<noteq> rank_count spec
      then \<lparr>rank_states = replicate (rank_count spec) (RankRefreshState_init\<lparr>next_refresh_cycle := u64_add clk ?i\<rparr>), rank_cursor = 0\<rparr>
      else m)"
    have len: "length (rank_states m0) = rank_count spec" by (simp add: m0_def)
    have "(if length (rank_states m) \<noteq> rank_count spec then refresh_reset fc spec clk else Inr m) = Inr m0"
      using v by (simp add: refresh_reset_def m0_def)
    then obtain adv where adv: "those (map (advance_rank ?i clk) (rank_states m0)) = Some adv"
        "serve spec clk pp ap (map snd adv) (m0\<lparr>rank_states := map fst adv\<rparr>) = (m', r)"
      using t False by (auto simp: refresh_tick_def Let_def)
    have "length adv = rank_count spec" using those_map_length [OF adv(1)] len by simp
    then show ?thesis
      using serve_commands [of c spec clk pp ap "map snd adv" "m0\<lparr>rank_states := map fst adv\<rparr>"] c adv(2) by simp
  qed
  then obtain rk state where rk: "rk < rank_count spec" "c \<in> set (fst (seed_refresh_batch spec (int rk) state))" by blast
  have "digit_ok (ranks (ds_org spec)) (int rk)" using rk(1) n by (simp add: digit_ok_def)
  from seed_in_range [OF v this rk(2)] show ?thesis .
qed

section \<open>Properties\<close>

definition refresh_demo :: DramSpec where
  "refresh_demo = DramSpec_init\<lparr>ds_speed_bin_mbps := 6400, ds_stack_height := 4, ds_tick_multiplier := 2,
     ds_supports_refresh := True, ds_refresh_postpone_limit := 2, ds_refresh_pullin_limit := 2,
     ds_timing := Timing_init\<lparr>nREFI := 5000\<rparr>\<rparr>"

lemma refresh_demo_valid: "validate_spec demo_float refresh_demo = Inr ()"
  by (simp add: validate_spec_def validate_geometry_def validate_clock_def validate_modes_def check_def
      non_negative_fields_def refresh_demo_def demo_float_def DramSpec_init_def Organization_init_def Timing_init_def
      addressable_capacity_bytes_def total_addressable_transactions_def checked_product_def transaction_bytes_def
      u64_max_def u64_mul_def Let_def)

lemma refresh_demo_interval: "refresh_interval refresh_demo = 5000"
  by (simp add: refresh_interval_def refresh_demo_def DramSpec_init_def Timing_init_def Let_def)

lemma refresh_demo_tick: "ds_tick_multiplier refresh_demo = 2"
  by (simp add: refresh_demo_def)

lemma refresh_demo_supports: "ds_supports_refresh refresh_demo"
  by (simp add: refresh_demo_def)

lemma refresh_demo_delay: "refresh_delay refresh_demo 5000 = 10000"
  by (simp add: refresh_delay_def refresh_demo_tick u64_mul_def)

lemma refresh_demo_ranks: "rank_count refresh_demo = 1"
  by (simp add: rank_count_def refresh_demo_def DramSpec_init_def Organization_init_def)

lemma refresh_demo_reset:
  "refresh_reset demo_float refresh_demo 0 = Inr m \<longleftrightarrow>
     m = \<lparr>rank_states = [RankRefreshState_init\<lparr>next_refresh_cycle := 10000\<rparr>], rank_cursor = 0\<rparr>"
  by (auto simp: refresh_reset_def refresh_demo_valid refresh_demo_ranks refresh_demo_interval refresh_demo_delay u64_add_def)

text \<open>
  C34: A tick of the refresh manager always returns, whatever state the manager is in, on a validated
  specification with 32-bit timing parameters and a clock below $2^{63}$: the loop over the crossed
  deadlines, a partial function over wrapping cycles, ends and no exception is thrown.
\<close>

theorem refresh_tick_terminates:
  assumes "validate_spec fc spec = Inr ()" and "int32 (refresh_interval spec)" and "int32 (ds_tick_multiplier spec)"
    and "clk < 2 ^ 63"
  shows "\<exists>m' r. refresh_tick fc spec clk prefer_postpone allow_pull_in m = Some (Inr (m', r))"
proof (cases "ds_supports_refresh spec \<and> 0 < refresh_interval spec")
  case False
  then show ?thesis by (auto simp: refresh_tick_def Let_def)
next
  case True
  let ?i = "refresh_delay spec (refresh_interval spec)"
  define m0 where "m0 = (if length (rank_states m) \<noteq> rank_count spec
    then \<lparr>rank_states = replicate (rank_count spec) (RankRefreshState_init\<lparr>next_refresh_cycle := u64_add clk ?i\<rparr>), rank_cursor = 0\<rparr>
    else m)"
  have pos: "0 < ?i" using True assms(2,3) by (intro refresh_delay_pos) auto
  have fits: "clk + ?i < 2 ^ 64"
    using refresh_delay_bound [OF assms(2,3)] assms(4) by simp
  have "refresh_tick fc spec clk prefer_postpone allow_pull_in m = refresh_tick fc spec clk prefer_postpone allow_pull_in m0"
    using True assms(1) by (simp add: refresh_tick_def refresh_reset_def Let_def m0_def)
  moreover have "length (rank_states m0) = rank_count spec" by (simp add: m0_def)
  ultimately show ?thesis
    using refresh_tick_eq [of spec clk m0 fc prefer_postpone allow_pull_in] True pos fits
    by (metis surj_pair tick_ok_def)
qed

theorem refresh_tick_terminates_witness:
  "\<exists>m' r. refresh_tick demo_float refresh_demo 25000 False True \<lparr>rank_states = [], rank_cursor = 0\<rparr> = Some (Inr (m', r))"
  using refresh_tick_terminates [OF refresh_demo_valid, of 25000] by (simp add: refresh_demo_interval int32_def refresh_demo_tick)

text \<open>
  C30: No refresh obligation is lost or invented. After any sequence of ticks at non-decreasing clocks,
  with any choice of postponing and pulling in, the credit of all ranks together plus the number of
  batches started equals the number of ranks times the number of refresh intervals that have elapsed
  since the reset.
\<close>

theorem refresh_obligations_conserved:
  assumes "refresh_reset fc spec clk0 = Inr m0" and "ds_supports_refresh spec" and "0 < refresh_interval spec"
    and "int32 (refresh_interval spec)" and "int32 (ds_tick_multiplier spec)"
    and "sorted (clk0 # map fst ticks)" and "\<forall>(clk, pp, ap) \<in> set ticks. clk < 2 ^ 63" and "clk0 < 2 ^ 63"
  shows "\<exists>m batches. run_ticks fc spec ticks m0 0 = Some (Inr (m, batches))
    \<and> aggregate_credit (rank_states m) + int batches
        = int (rank_count spec * ((last (clk0 # map fst ticks) - clk0) div refresh_delay spec (refresh_interval spec)))"
proof -
  let ?i = "refresh_delay spec (refresh_interval spec)"
  have pos: "0 < ?i" using assms(3-5) by (rule refresh_delay_pos)
  note b = refresh_delay_bound [OF assms(4,5)]
  have first: "u64_add clk0 ?i = clk0 + ?i"
    using b assms(8) by (intro u64_add_exact) simp
  have none: "crossings ?i clk0 (clk0 + ?i) = 0" using pos by (simp add: crossings_def)
  have m0: "m0 = \<lparr>rank_states = replicate (rank_count spec) (RankRefreshState_init\<lparr>next_refresh_cycle := clk0 + ?i\<rparr>), rank_cursor = 0\<rparr>"
    using assms(1) first by (auto simp: refresh_reset_def rbind_eq_Inr)
  have led: "ledger spec (clk0 + ?i) (crossings ?i clk0 (clk0 + ?i)) m0 0"
    unfolding none by (simp add: ledger_def m0 aggregate_credit_def RankRefreshState_init_def sum_list_replicate)
  have ok: "\<forall>(clk, pp, ap) \<in> set ticks. tick_ok spec clk"
    using assms(2,3,7) b by (fastforce simp: tick_ok_def)
  obtain m batches where run: "run_ticks fc spec ticks m0 0 = Some (Inr (m, batches))"
    and l: "ledger spec (clk0 + ?i) (crossings ?i (last (clk0 # map fst ticks)) (clk0 + ?i)) m batches"
    using ledger_run [OF led ok assms(6) pos] by blast
  have le: "clk0 \<le> last (clk0 # map fst ticks)"
  proof -
    have "last (clk0 # map fst ticks) \<in> set (clk0 # map fst ticks)" by (rule last_in_set) simp
    with assms(6) show ?thesis by auto
  qed
  have "crossings ?i c (clk0 + ?i) = (c - clk0) div ?i" if "clk0 \<le> c" for c
  proof (cases "clk0 + ?i \<le> c")
    case True
    define q where "q = c - (clk0 + ?i)"
    have "c - clk0 = q + ?i" using True by (simp add: q_def)
    then have "(c - clk0) div ?i = q div ?i + 1" using pos by simp
    then show ?thesis using True by (simp add: crossings_def q_def)
  next
    case False
    then have "c - clk0 < ?i" using that by linarith
    with False show ?thesis by (simp add: crossings_def)
  qed
  with l le run show ?thesis by (auto simp: ledger_def)
qed

theorem refresh_obligations_conserved_witness:
  "\<exists>m batches. run_ticks demo_float refresh_demo [(25000, True, False), (25001, False, True)]
      \<lparr>rank_states = replicate 1 (RankRefreshState_init\<lparr>next_refresh_cycle := 10000\<rparr>), rank_cursor = 0\<rparr> 0 = Some (Inr (m, batches))
    \<and> aggregate_credit (rank_states m) + int batches = 2"
  using refresh_obligations_conserved [of demo_float refresh_demo 0 _ "[(25000, True, False), (25001, False, True)]"]
  by (simp add: refresh_demo_reset refresh_demo_interval refresh_demo_tick int32_def refresh_demo_delay refresh_demo_ranks
      refresh_demo_supports)

text \<open>
  C35: The rotation of per-bank and dual-bank refreshes is fair. The commands of the n-th batch of a rank
  all target one position, and over one round the positions of the batches run through every bank of
  every SID (every pair of banks for dual-bank refreshes, named by its even bank group) exactly once.
\<close>

theorem refresh_rotation_covers_banks:
  assumes "validate_spec fc spec = Inr ()" and "ds_refresh_policy spec = PerBank"
  shows "(\<forall>n. (\<lambda>c. (sid (mc_decoded c), bank_group (mc_decoded c), bank (mc_decoded c))) ` set (nth_batch spec rk n)
      = {batch_position spec n})
    \<and> bij_betw (batch_position spec) {..<nat (sids (ds_org spec) * positions_per_sid spec)} (refresh_positions spec)"
proof (intro conjI allI)
  fix n
  show "(\<lambda>c. (sid (mc_decoded c), bank_group (mc_decoded c), bank (mc_decoded c))) ` set (nth_batch spec rk n)
      = {batch_position spec n}" (is "?f ` _ = _")
  proof -
    have "?f ` set (nth_batch spec rk n) \<subseteq> {batch_position spec n}"
      using nth_batch_position [of spec _ rk n] assms(2) by auto
    moreover have "?f ` set (nth_batch spec rk n) \<noteq> {}"
      using nth_batch_nonempty [of spec rk n] assms(2) by simp
    ultimately show ?thesis unfolding subset_singleton_iff by satx
  qed
next
  let ?org = "ds_org spec" and ?dual = "ds_lpddr_dual_bank_refresh spec"
  note dims = validate_spec_dims(1) [OF assms(1), unfolded dims_ok_def Let_def]
  define G where "G = (if ?dual then bank_groups ?org div 2 else bank_groups ?org)"
  define f where "f = (if ?dual then (\<lambda>g. g * 2) else (\<lambda>g :: int. g))"
  have two: "2 \<le> bank_groups ?org" "even (bank_groups ?org)" if ?dual
    using refdb_pairs [OF that assms(1)] by blast+
  have P: "positions_per_sid spec = G * banks_per_group ?org"
    using dims two by (auto simp: positions_per_sid_def Let_def G_def max_def)
  have pos: "batch_position spec = (\<lambda>n. (int n div (G * banks_per_group ?org) mod sids ?org,
      f (int n mod (G * banks_per_group ?org) div banks_per_group ?org), int n mod (G * banks_per_group ?org) mod banks_per_group ?org))"
    using dims by (auto simp: batch_position_def P f_def Let_def max_def)
  have img: "f ` {x. digit_ok G x} = {g. digit_ok (bank_groups ?org) g \<and> (?dual \<longrightarrow> even g)}"
  proof (cases ?dual)
    case True
    have "g \<in> f ` {x. digit_ok G x}" if "digit_ok (bank_groups ?org) g" "even g" for g
      using that True two(2) by (intro image_eqI [of _ _ "g div 2"]) (auto simp: f_def G_def digit_ok_def)
    then show ?thesis
      using True two(2) by (auto simp: f_def G_def digit_ok_def)
  qed (simp add: f_def G_def)
  have "refresh_positions spec = {(s, g, b). digit_ok (sids ?org) s \<and> g \<in> f ` {x. digit_ok G x} \<and> digit_ok (banks_per_group ?org) b}"
    unfolding img by (auto simp: refresh_positions_def)
  then show "bij_betw (batch_position spec) {..<nat (sids ?org * positions_per_sid spec)} (refresh_positions spec)"
    unfolding P pos using rotation_bij [of "sids ?org" "banks_per_group ?org" f ?dual G] dims by (simp add: f_def)
qed

theorem refresh_rotation_covers_banks_witness:
  "bij_betw (batch_position lpddr6_demo) {..<nat (sids (ds_org lpddr6_demo) * positions_per_sid lpddr6_demo)}
     (refresh_positions lpddr6_demo)"
proof -
  have "ds_refresh_policy lpddr6_demo = PerBank" by (simp add: lpddr6_demo_def DramSpec_init_def)
  from refresh_rotation_covers_banks [OF lpddr6_demo_valid this] show ?thesis by (rule conjunct2)
qed

end
