(* ===== verification/Rfm_Manager.thy ===== *)
theory Rfm_Manager
  imports Timing_Correct
begin

text \<open>
  The refresh-management (RFM) counters of the DRAM controller (\<open>controller/rfm.hpp\<close>,
  \<open>controller/rfm.cpp\<close>): activations per bank, the pending flags that keep a request from being
  repeated, and the decrements when an RFM command is issued. The counters are of type \<open>int\<close> in the
  source and unbounded here; they stay below the number of activations. Array accesses are checked
  (\<open>arr_at\<close>, \<open>arr_put\<close>): outside the arrays their value is \<open>Undefined\<close>, which the lemmas
  exclude.
\<close>

record RfmManager =
  act_count_since_rfm :: "int list"
  rfm_pending_bank :: "bool list"
  rfm_pending_all_bank :: "bool list"

record RfmStats =
  rfm_events :: nat
  rfm_all_bank_events :: nat
  rfm_per_bank_events :: nat
  rfm_decrements :: nat

record RfmMaintenanceCommand =
  rm_command :: Command
  rm_decoded :: DecodedAddress

definition rfm_rank_count :: "DramSpec \<Rightarrow> nat" where
  "rfm_rank_count spec = nat (max 1 (channels (ds_org spec)) * max 1 (pseudo_channels (ds_org spec))
     * max 1 (sids (ds_org spec)) * max 1 (ranks (ds_org spec)))"

definition rfm_reset :: "FloatChecks \<Rightarrow> DramSpec \<Rightarrow> RfmManager res" where
  "rfm_reset fc spec = rbind (validate_spec fc spec) (\<lambda>_. rbind (total_banks spec) (\<lambda>n.
     Inr \<lparr>act_count_since_rfm = replicate (nat n) 0, rfm_pending_bank = replicate (nat n) False,
          rfm_pending_all_bank = replicate (rfm_rank_count spec) False\<rparr>))"

definition rfm_valid_bank :: "int \<Rightarrow> RfmManager \<Rightarrow> bool" where
  "rfm_valid_bank b m \<longleftrightarrow> b \<ge> 0 \<and> b < int (length (act_count_since_rfm m))"

definition decrement_value :: "DramSpec \<Rightarrow> int" where
  "decrement_value spec =
     (let fallback = (if ds_rfm_act_threshold spec > 0 then ds_rfm_act_threshold spec else 1)
      in max 1 (if ds_rfm_decrement spec > 0 then ds_rfm_decrement spec else fallback))"

definition clamp_int :: "int \<Rightarrow> int \<Rightarrow> int" where
  "clamp_int v n = max 0 (min v (max 1 n - 1))"

definition rank_index :: "DramSpec \<Rightarrow> DecodedAddress \<Rightarrow> int" where
  "rank_index spec d = (let org = ds_org spec;
     ch = clamp_int (channel d) (channels org); pc = clamp_int (pseudo_channel d) (pseudo_channels org);
     s = clamp_int (sid d) (sids org); r = clamp_int (rank d) (ranks org)
   in ((ch * max 1 (pseudo_channels org) + pc) * max 1 (sids org) + s) * max 1 (ranks org) + r)"

definition rank_bank_range :: "DramSpec \<Rightarrow> DecodedAddress \<Rightarrow> RfmManager \<Rightarrow> int \<times> int" where
  "rank_bank_range spec d m =
     (let banks_per_rank = max 1 (bank_groups (ds_org spec) * banks_per_group (ds_org spec));
          lo = rank_index spec d * banks_per_rank
      in (lo, min (int (length (act_count_since_rfm m))) (lo + banks_per_rank)))"

definition rfm_on_activate :: "DramSpec \<Rightarrow> DecodedAddress \<Rightarrow> RfmManager \<Rightarrow> RfmStats
    \<Rightarrow> (RfmMaintenanceCommand option \<times> RfmManager \<times> RfmStats) res" where
  "rfm_on_activate spec d m st =
     (if \<not> ds_supports_rfm spec \<or> ds_rfm_act_threshold spec \<le> 0 then Inr (None, m, st)
      else let flat = flat_bank spec d in
        if \<not> rfm_valid_bank flat m then Inr (None, m, st)
        else rbind (arr_at (act_count_since_rfm m) (nat flat)) (\<lambda>n.
             rbind (arr_put (nat flat) (n + 1) (act_count_since_rfm m)) (\<lambda>counts.
          let m = m\<lparr>act_count_since_rfm := counts\<rparr> in
          if n + 1 < ds_rfm_act_threshold spec then Inr (None, m, st)
          else if ds_rfm_policy spec = AllBank then
            let target = rank_index spec d in
            if target < 0 \<or> target \<ge> int (length (rfm_pending_all_bank m)) \<or> rfm_pending_all_bank m ! nat target
            then Inr (None, m, st)
            else Inr (Some \<lparr>rm_command = RFMAB, rm_decoded = d\<rparr>,
                 m\<lparr>rfm_pending_all_bank := (rfm_pending_all_bank m)[nat target := True]\<rparr>,
                 st\<lparr>rfm_events := rfm_events st + 1, rfm_all_bank_events := rfm_all_bank_events st + 1\<rparr>)
          else rbind (arr_at (rfm_pending_bank m) (nat flat)) (\<lambda>pending.
            if pending then Inr (None, m, st)
            else rbind (arr_put (nat flat) True (rfm_pending_bank m)) (\<lambda>flags.
              Inr (Some \<lparr>rm_command = RFMPB, rm_decoded = d\<rparr>, m\<lparr>rfm_pending_bank := flags\<rparr>,
                st\<lparr>rfm_events := rfm_events st + 1, rfm_per_bank_events := rfm_per_bank_events st + 1\<rparr>))))))"

definition decrement_bank :: "DramSpec \<Rightarrow> int \<Rightarrow> RfmManager \<Rightarrow> RfmManager res" where
  "decrement_bank spec flat m =
     rbind (arr_at (act_count_since_rfm m) (nat flat)) (\<lambda>n.
     rbind (arr_put (nat flat) (max 0 (n - decrement_value spec)) (act_count_since_rfm m)) (\<lambda>counts.
     rbind (arr_put (nat flat) False (rfm_pending_bank m)) (\<lambda>flags.
       Inr (m\<lparr>act_count_since_rfm := counts, rfm_pending_bank := flags\<rparr>))))"

definition rfm_on_rfmpb :: "DramSpec \<Rightarrow> DecodedAddress \<Rightarrow> RfmManager \<Rightarrow> RfmStats \<Rightarrow> (RfmManager \<times> RfmStats) res" where
  "rfm_on_rfmpb spec d m st =
     (let flat = flat_bank spec d in
      if \<not> rfm_valid_bank flat m then Inr (m, st)
      else rbind (decrement_bank spec flat m) (\<lambda>m. Inr (m, st\<lparr>rfm_decrements := rfm_decrements st + 1\<rparr>)))"

definition rfm_on_rfmab :: "DramSpec \<Rightarrow> DecodedAddress \<Rightarrow> RfmManager \<Rightarrow> RfmStats \<Rightarrow> (RfmManager \<times> RfmStats) res" where
  "rfm_on_rfmab spec d m st =
     (let (lo, hi) = rank_bank_range spec d m in
      rbind (rfold (decrement_bank spec) [lo..hi - 1] m) (\<lambda>m.
        let target = rank_index spec d;
            m = (if target \<ge> 0 \<and> target < int (length (rfm_pending_all_bank m))
                 then m\<lparr>rfm_pending_all_bank := (rfm_pending_all_bank m)[nat target := False]\<rparr> else m)
        in Inr (m, st\<lparr>rfm_decrements := rfm_decrements st + 1\<rparr>)))"

section \<open>Well-formedness\<close>

definition rfm_wf :: "DramSpec \<Rightarrow> RfmManager \<Rightarrow> bool" where
  "rfm_wf spec m \<longleftrightarrow> int (length (act_count_since_rfm m)) = bank_total spec
     \<and> length (rfm_pending_bank m) = length (act_count_since_rfm m)
     \<and> length (rfm_pending_all_bank m) = rfm_rank_count spec
     \<and> (\<forall>n \<in> set (act_count_since_rfm m). 0 \<le> n)"

lemma rank_index_scope: "rank_index spec d = int (scope_index spec ScRank d)"
  by (simp add: rank_index_def scope_index_simps clamp_int_def clamp_dim_def at_least_1_def Let_def)

lemma rfm_rank_count_scope: "rfm_rank_count spec = scope_count spec ScRank"
  by (simp add: rfm_rank_count_def at_least_1_def nat_mult_distrib)

lemma decrement_bank_ok:
  assumes "rfm_wf spec m" and "rfm_valid_bank b m"
  shows "\<exists>m'. decrement_bank spec b m = Inr m' \<and> rfm_wf spec m'
    \<and> act_count_since_rfm m' = (act_count_since_rfm m)[nat b := max 0 (act_count_since_rfm m ! nat b - decrement_value spec)]
    \<and> rfm_pending_bank m' = (rfm_pending_bank m)[nat b := False]"
proof -
  have b: "nat b < length (act_count_since_rfm m)" "nat b < length (rfm_pending_bank m)"
    using assms by (auto simp: rfm_wf_def rfm_valid_bank_def)
  then show ?thesis
    using assms(1) by (auto simp: decrement_bank_def arr_at_def arr_put_def rfm_wf_def dest: subsetD [OF set_update_subset_insert])
qed

lemma rank_range_flat:
  assumes "dims_ok spec" and "in_range spec d"
  shows "rank_index spec d = ((channel d * pseudo_channels (ds_org spec) + pseudo_channel d) * sids (ds_org spec) + sid d)
      * ranks (ds_org spec) + rank d"
proof -
  have c: "clamp_int v n = v" if "digit_ok n v" for v n
    using that by (auto simp: clamp_int_def digit_ok_def)
  show ?thesis
    using assms by (simp add: rank_index_def in_range_def dims_ok_def c Let_def max_def)
qed

lemma flat_bank_rank:
  assumes "dims_ok spec" and "in_range spec d"
  shows "flat_bank spec d = rank_index spec d * (bank_groups (ds_org spec) * banks_per_group (ds_org spec))
      + (bank_group d * banks_per_group (ds_org spec) + bank d)"
  by (simp add: rank_range_flat [OF assms] flat_bank_def Let_def algebra_simps)

definition rank_banks :: "DramSpec \<Rightarrow> int" where
  "rank_banks spec = bank_groups (ds_org spec) * banks_per_group (ds_org spec)"

lemma rank_banks_pos: "dims_ok spec \<Longrightarrow> 0 < rank_banks spec"
  by (simp add: dims_ok_def Let_def rank_banks_def)

lemma rank_block_total:
  assumes "dims_ok spec"
  shows "0 \<le> rank_index spec d * rank_banks spec" "rank_index spec d * rank_banks spec + rank_banks spec \<le> bank_total spec"
proof -
  note n = rank_banks_pos [OF assms]
  show "0 \<le> rank_index spec d * rank_banks spec"
    using n by (simp add: rank_index_scope)
  have "rank_index spec d < int (rfm_rank_count spec)"
    by (simp add: rank_index_scope rfm_rank_count_scope del: scope_count.simps)
  then have "rank_index spec d * rank_banks spec + rank_banks spec \<le> int (rfm_rank_count spec) * rank_banks spec"
    using n mult_right_mono [of "rank_index spec d + 1" "int (rfm_rank_count spec)" "rank_banks spec"]
    by (simp add: algebra_simps)
  also have "\<dots> = bank_total spec"
    using assms by (simp add: rfm_rank_count_def dims_ok_def bank_total_def rank_banks_def Let_def max_def)
  finally show "rank_index spec d * rank_banks spec + rank_banks spec \<le> bank_total spec" .
qed

lemma rank_block:
  assumes "dims_ok spec" and "in_range spec d" and "in_range spec e"
  shows "flat_bank spec e \<in> set [rank_index spec d * rank_banks spec..rank_index spec d * rank_banks spec + rank_banks spec - 1]
    \<longleftrightarrow> same_scope ScRank e d"
proof -
  define n where "n = rank_banks spec"
  define r where "r = rank_index spec d"
  have n: "0 < n" using rank_banks_pos [OF assms(1)] by (simp add: n_def)
  have y: "digit_ok n (bank_group e * banks_per_group (ds_org spec) + bank e)"
    unfolding n_def rank_banks_def using assms(3) by (intro radix_step) (simp_all add: in_range_def Let_def)
  have "flat_bank spec e = rank_index spec e * n + (bank_group e * banks_per_group (ds_org spec) + bank e)"
    using flat_bank_rank [OF assms(1,3)] by (simp add: n_def rank_banks_def)
  moreover have "r * n \<le> x * n + y \<and> x * n + y \<le> r * n + n - 1 \<longleftrightarrow> x = r" if "digit_ok n y" for x y
  proof
    assume "r * n \<le> x * n + y \<and> x * n + y \<le> r * n + n - 1"
    then have "r * n < (x + 1) * n" "x * n < (r + 1) * n" using that by (auto simp: digit_ok_def algebra_simps)
    then show "x = r" using n by (simp add: mult_less_cancel_right)
  qed (use that in \<open>simp add: digit_ok_def\<close>)
  ultimately have "r * n \<le> flat_bank spec e \<and> flat_bank spec e \<le> r * n + n - 1 \<longleftrightarrow> rank_index spec e = r"
    using y by simp
  also have "\<dots> \<longleftrightarrow> same_scope ScRank e d"
    by (simp add: r_def rank_index_scope scope_index_inj [OF assms(3,2)])
  finally show ?thesis by (simp add: n_def r_def)
qed

lemma rank_range_eq:
  assumes "dims_ok spec" and "rfm_wf spec m"
  shows "rank_bank_range spec d m =
    (rank_index spec d * rank_banks spec, rank_index spec d * rank_banks spec + rank_banks spec)"
proof -
  have "max 1 (bank_groups (ds_org spec) * banks_per_group (ds_org spec)) = rank_banks spec"
    using rank_banks_pos [OF assms(1)] by (simp add: rank_banks_def)
  then show ?thesis
    using assms(2) rank_block_total(2) [OF assms(1), of d] by (simp add: rank_bank_range_def rfm_wf_def Let_def)
qed

lemma decrement_fold:
  assumes "rfm_wf spec m" and "\<forall>b \<in> set bs. 0 \<le> b \<and> b < bank_total spec" and "distinct bs"
  shows "\<exists>m'. rfold (decrement_bank spec) bs m = Inr m' \<and> rfm_wf spec m'
    \<and> (\<forall>j < length (act_count_since_rfm m). act_count_since_rfm m' ! j =
         (if int j \<in> set bs then max 0 (act_count_since_rfm m ! j - decrement_value spec) else act_count_since_rfm m ! j)
       \<and> rfm_pending_bank m' ! j = (if int j \<in> set bs then False else rfm_pending_bank m ! j))"
  using assms
proof (induction bs arbitrary: m)
  case Nil
  then show ?case by simp
next
  case (Cons b bs)
  have wf: "int (length (act_count_since_rfm m)) = bank_total spec" "length (rfm_pending_bank m) = length (act_count_since_rfm m)"
    using Cons.prems(1) by (simp_all add: rfm_wf_def)
  have b: "rfm_valid_bank b m" using Cons.prems(2) wf by (simp add: rfm_valid_bank_def)
  obtain m1 where m1: "decrement_bank spec b m = Inr m1" "rfm_wf spec m1"
    "act_count_since_rfm m1 = (act_count_since_rfm m)[nat b := max 0 (act_count_since_rfm m ! nat b - decrement_value spec)]"
    "rfm_pending_bank m1 = (rfm_pending_bank m)[nat b := False]"
    using decrement_bank_ok [OF Cons.prems(1) b] by blast
  obtain m' where m': "rfold (decrement_bank spec) bs m1 = Inr m'" "rfm_wf spec m'"
    "\<forall>j < length (act_count_since_rfm m1). act_count_since_rfm m' ! j =
         (if int j \<in> set bs then max 0 (act_count_since_rfm m1 ! j - decrement_value spec) else act_count_since_rfm m1 ! j)
       \<and> rfm_pending_bank m' ! j = (if int j \<in> set bs then False else rfm_pending_bank m1 ! j)"
    using Cons.IH [OF m1(2)] Cons.prems(2,3) by auto
  have nb: "int (nat b) = b" using Cons.prems(2) by simp
  have jb: "nat b = j \<longleftrightarrow> int j = b" for j using nb by auto
  have step: "act_count_since_rfm m1 ! j = (if int j = b then max 0 (act_count_since_rfm m ! j - decrement_value spec)
      else act_count_since_rfm m ! j)" "rfm_pending_bank m1 ! j = (if int j = b then False else rfm_pending_bank m ! j)"
    if "j < length (act_count_since_rfm m)" for j
    using that wf(2) by (auto simp: m1(3,4) nth_list_update jb)
  have "length (act_count_since_rfm m1) = length (act_count_since_rfm m)" by (simp add: m1(3))
  then show ?case
    using m1(1) m' Cons.prems(3) by (auto simp: step)
qed

lemma rfm_reset_wf:
  assumes "rfm_reset fc spec = Inr m"
  shows "dims_ok spec" "rfm_wf spec m"
proof -
  from assms obtain n where v: "validate_spec fc spec = Inr ()" and n: "total_banks spec = Inr n"
    and m: "m = \<lparr>act_count_since_rfm = replicate (nat n) 0, rfm_pending_bank = replicate (nat n) False,
          rfm_pending_all_bank = replicate (rfm_rank_count spec) False\<rparr>"
    by (auto simp: rfm_reset_def rbind_eq_Inr)
  show d: "dims_ok spec" by (rule validate_spec_dims(1) [OF v])
  have "0 < bank_total spec" using d by (simp add: dims_ok_def bank_total_def Let_def)
  then show "rfm_wf spec m"
    using n by (simp add: rfm_wf_def m total_banks_eq [OF d])
qed

lemma rfm_on_activate_ok:
  assumes "dims_ok spec" and "rfm_wf spec m" and "in_range spec d"
  shows "\<exists>c m' st'. rfm_on_activate spec d m st = Inr (c, m', st') \<and> rfm_wf spec m'"
proof -
  define k where "k = nat (flat_bank spec d)"
  have f: "digit_ok (bank_total spec) (flat_bank spec d)" by (rule flat_bank_range [OF assms(3)])
  have k: "k < length (act_count_since_rfm m)" "k < length (rfm_pending_bank m)"
    using f assms(2) by (auto simp: rfm_wf_def digit_ok_def k_def)
  have pos: "0 \<le> act_count_since_rfm m ! k" using assms(2) k by (simp add: rfm_wf_def)
  have up: "\<forall>n \<in> set ((act_count_since_rfm m)[k := act_count_since_rfm m ! k + 1]). 0 \<le> n"
    using assms(2) pos by (intro all_update) (auto simp: rfm_wf_def)
  show ?thesis
    using k up assms(2) unfolding rfm_on_activate_def Let_def k_def [symmetric]
    by (simp add: arr_at_def arr_put_def rfm_wf_def)
qed

lemma rfm_on_rfmpb_ok:
  assumes "rfm_wf spec m"
  shows "\<exists>m' st'. rfm_on_rfmpb spec d m st = Inr (m', st') \<and> rfm_wf spec m'"
  using decrement_bank_ok [OF assms, of "flat_bank spec d"] assms by (auto simp: rfm_on_rfmpb_def Let_def)

text \<open>The flag that stands for an outstanding request of a bank, which depends on the policy.\<close>

definition rfm_flag :: "DramSpec \<Rightarrow> DecodedAddress \<Rightarrow> RfmManager \<Rightarrow> bool" where
  "rfm_flag spec e m \<longleftrightarrow> (if ds_rfm_policy spec = AllBank then rfm_pending_all_bank m ! nat (rank_index spec e)
     else rfm_pending_bank m ! nat (flat_bank spec e))"

definition rfm_scope :: "DramSpec \<Rightarrow> TimingScope" where
  "rfm_scope spec = (if ds_rfm_policy spec = AllBank then ScRank else ScBank)"

lemma flat_index:
  assumes "rfm_wf spec m" and "in_range spec e"
  shows "nat (flat_bank spec e) < length (act_count_since_rfm m)" "nat (flat_bank spec e) < length (rfm_pending_bank m)"
    "rfm_valid_bank (flat_bank spec e) m" "nat (rank_index spec e) < length (rfm_pending_all_bank m)"
  using flat_bank_range [OF assms(2)] assms(1)
  by (auto simp: rfm_wf_def digit_ok_def rfm_valid_bank_def rank_index_scope rfm_rank_count_scope simp del: scope_count.simps)

lemma decrement_fold_all: "rfold (decrement_bank spec) bs m = Inr m' \<Longrightarrow> rfm_pending_all_bank m' = rfm_pending_all_bank m"
  by (induction bs arbitrary: m) (auto simp: rbind_eq_Inr decrement_bank_def)

lemma rfm_activate_step:
  assumes wf: "rfm_wf spec m" and d: "in_range spec d" and on: "ds_supports_rfm spec" "0 < ds_rfm_act_threshold spec"
    and n: "n = act_count_since_rfm m ! nat (flat_bank spec d)"
    and c: "c = (if ds_rfm_act_threshold spec \<le> n + 1 \<and> \<not> rfm_flag spec d m
      then Some \<lparr>rm_command = (if ds_rfm_policy spec = AllBank then RFMAB else RFMPB), rm_decoded = d\<rparr> else None)"
  shows "\<exists>m' st'. rfm_on_activate spec d m st = Inr (c, m', st')
    \<and> act_count_since_rfm m' = (act_count_since_rfm m)[nat (flat_bank spec d) := n + 1]
    \<and> (\<forall>e. in_range spec e \<longrightarrow> rfm_flag spec e m' = (rfm_flag spec e m \<or> c \<noteq> None \<and> same_scope (rfm_scope spec) e d))"
proof (cases "ds_rfm_policy spec = AllBank")
  case True
  have "scope_index spec ScRank d < length (rfm_pending_all_bank m)"
    using flat_index(4) [OF wf d] by (simp add: rank_index_scope)
  moreover have "\<forall>e. in_range spec e \<longrightarrow> (scope_index spec ScRank d = scope_index spec ScRank e \<longleftrightarrow> same_scope ScRank e d)"
    using scope_index_inj [OF _ d, of _ ScRank] by metis
  ultimately show ?thesis
    using flat_index [OF wf d] on True unfolding c rfm_on_activate_def Let_def n
    by (simp add: arr_at_def arr_put_def rfm_flag_def rfm_scope_def rank_index_scope nth_list_update)
next
  case False
  have "\<forall>e. in_range spec e \<longrightarrow> (nat (flat_bank spec d) = nat (flat_bank spec e) \<longleftrightarrow> same_scope ScBank e d)"
    using flat_scope [OF _ d] by metis
  then show ?thesis
    using flat_index [OF wf d] on False unfolding c rfm_on_activate_def Let_def n
    by (simp add: arr_at_def arr_put_def rfm_flag_def rfm_scope_def nth_list_update)
qed

lemma rfm_rfmpb_step:
  assumes wf: "rfm_wf spec m" and d: "in_range spec d"
  shows "\<exists>m' st'. rfm_on_rfmpb spec d m st = Inr (m', st')
    \<and> act_count_since_rfm m' = (act_count_since_rfm m)[nat (flat_bank spec d) :=
         max 0 (act_count_since_rfm m ! nat (flat_bank spec d) - decrement_value spec)]
    \<and> (\<forall>e. in_range spec e \<longrightarrow> rfm_flag spec e m' =
         (\<not> (ds_rfm_policy spec \<noteq> AllBank \<and> same_scope ScBank e d) \<and> rfm_flag spec e m))"
proof -
  have "\<forall>e. in_range spec e \<longrightarrow> (nat (flat_bank spec d) = nat (flat_bank spec e) \<longleftrightarrow> same_scope ScBank e d)"
    using flat_scope [OF _ d] by metis
  then show ?thesis
    using flat_index [OF wf d]
    by (simp add: rfm_on_rfmpb_def decrement_bank_def arr_at_def arr_put_def rfm_flag_def nth_list_update Let_def)
qed

lemma rfm_on_rfmab_ok:
  assumes "dims_ok spec" and "rfm_wf spec m" and "in_range spec d"
  shows "\<exists>m' st'. rfm_on_rfmab spec d m st = Inr (m', st') \<and> rfm_wf spec m'
    \<and> (\<forall>e. in_range spec e \<longrightarrow> act_count_since_rfm m' ! nat (flat_bank spec e) =
         (if same_scope ScRank e d then max 0 (act_count_since_rfm m ! nat (flat_bank spec e) - decrement_value spec)
          else act_count_since_rfm m ! nat (flat_bank spec e))
       \<and> rfm_flag spec e m' = (\<not> same_scope ScRank e d \<and> rfm_flag spec e m))"
proof -
  define r where "r = rank_index spec d"
  let ?is = "[r * rank_banks spec..r * rank_banks spec + rank_banks spec - 1]"
  have range: "rank_bank_range spec d m = (r * rank_banks spec, r * rank_banks spec + rank_banks spec)"
    using rank_range_eq [OF assms(1,2)] by (simp add: r_def)
  have len: "int (length (act_count_since_rfm m)) = bank_total spec" using assms(2) by (simp add: rfm_wf_def)
  have "\<forall>b \<in> set ?is. 0 \<le> b \<and> b < bank_total spec"
    using rank_block_total [OF assms(1), of d] by (auto simp: r_def)
  then obtain m1 where m1: "rfold (decrement_bank spec) ?is m = Inr m1" "rfm_wf spec m1"
    and cnt: "\<forall>j < length (act_count_since_rfm m). act_count_since_rfm m1 ! j =
         (if int j \<in> set ?is then max 0 (act_count_since_rfm m ! j - decrement_value spec)
          else act_count_since_rfm m ! j)
       \<and> rfm_pending_bank m1 ! j = (if int j \<in> set ?is then False else rfm_pending_bank m ! j)"
    using decrement_fold [OF assms(2), of ?is] by auto
  have all: "rfm_pending_all_bank m1 = rfm_pending_all_bank m"
    using m1(1) by (rule decrement_fold_all)
  have iff: "int (nat (flat_bank spec e)) \<in> set ?is \<longleftrightarrow> same_scope ScRank e d"
    "nat (flat_bank spec e) < length (act_count_since_rfm m)" if e: "in_range spec e" for e
  proof -
    have f: "digit_ok (bank_total spec) (flat_bank spec e)" by (rule flat_bank_range [OF e])
    then show "nat (flat_bank spec e) < length (act_count_since_rfm m)" using len by (auto simp: digit_ok_def)
    show "int (nat (flat_bank spec e)) \<in> set ?is \<longleftrightarrow> same_scope ScRank e d"
      using rank_block [OF assms(1,3) e] f by (simp add: digit_ok_def r_def)
  qed
  have "rfm_on_rfmab spec d m st = Inr (m1\<lparr>rfm_pending_all_bank := (if r \<ge> 0 \<and> r < int (length (rfm_pending_all_bank m1))
      then (rfm_pending_all_bank m1)[nat r := False] else rfm_pending_all_bank m1)\<rparr>, st\<lparr>rfm_decrements := rfm_decrements st + 1\<rparr>)"
    using m1(1) by (simp add: rfm_on_rfmab_def range Let_def r_def [symmetric])
  then obtain m' st' where m': "rfm_on_rfmab spec d m st = Inr (m', st')"
    "act_count_since_rfm m' = act_count_since_rfm m1" "rfm_pending_bank m' = rfm_pending_bank m1"
    "rfm_pending_all_bank m' = (rfm_pending_all_bank m)[scope_index spec ScRank d := False]"
    using assms(2) by (auto simp: rfm_wf_def all r_def rank_index_scope rfm_rank_count_scope simp del: scope_count.simps)
  have flag: "rfm_flag spec e m' = (\<not> same_scope ScRank e d \<and> rfm_flag spec e m)" if e: "in_range spec e" for e
    using cnt iff [OF e] assms(2) scope_index_inj [OF e assms(3), of ScRank]
    by (auto simp: rfm_flag_def m'(3,4) rank_index_scope nth_list_update rfm_wf_def rfm_rank_count_scope simp del: scope_count.simps)
  have "rfm_wf spec m'" using m1(2) m'(2,3,4) by (simp add: rfm_wf_def all)
  with m' cnt iff flag show ?thesis
    by (intro exI [of _ m'] exI [of _ st']) auto
qed

section \<open>The activation ledger\<close>

text \<open>
  What the controller tells the manager, with the request the manager answered; from it, per bank, the
  activations not yet paid for by an RFM command and whether a request is outstanding. Under the all-bank
  policy requests concern a rank and are answered by all-bank commands only.
\<close>

datatype rfm_event = Activated DecodedAddress | RfmBank DecodedAddress | RfmRank DecodedAddress

fun rfm_event_step :: "DramSpec \<Rightarrow> rfm_event \<Rightarrow> RfmManager \<times> RfmStats \<Rightarrow> (RfmMaintenanceCommand option \<times> RfmManager \<times> RfmStats) res" where
  "rfm_event_step spec (Activated d) (m, st) = rfm_on_activate spec d m st"
| "rfm_event_step spec (RfmBank d) (m, st) = rbind (rfm_on_rfmpb spec d m st) (\<lambda>s. Inr (None, s))"
| "rfm_event_step spec (RfmRank d) (m, st) = rbind (rfm_on_rfmab spec d m st) (\<lambda>s. Inr (None, s))"

fun rfm_event_at :: "rfm_event \<Rightarrow> DecodedAddress" where
  "rfm_event_at (Activated d) = d"
| "rfm_event_at (RfmBank d) = d"
| "rfm_event_at (RfmRank d) = d"

type_synonym rfm_history = "(rfm_event \<times> RfmMaintenanceCommand option) list"

inductive rfm_runs :: "FloatChecks \<Rightarrow> DramSpec \<Rightarrow> rfm_history \<Rightarrow> RfmManager \<times> RfmStats \<Rightarrow> bool" for fc spec where
  reset: "rfm_reset fc spec = Inr m \<Longrightarrow> rfm_runs fc spec [] (m, st)"
| event: "rfm_runs fc spec h s \<Longrightarrow> in_range spec (rfm_event_at ev) \<Longrightarrow> rfm_event_step spec ev s = Inr (c, s') \<Longrightarrow>
    rfm_runs fc spec (h @ [(ev, c)]) s'"

definition rfm_count_step :: "DramSpec \<Rightarrow> DecodedAddress \<Rightarrow> rfm_event \<Rightarrow> int \<Rightarrow> int" where
  "rfm_count_step spec e ev n = (case ev of
     Activated d \<Rightarrow> if same_scope ScBank e d then n + 1 else n
   | RfmBank d \<Rightarrow> if same_scope ScBank e d then max 0 (n - decrement_value spec) else n
   | RfmRank d \<Rightarrow> if same_scope ScRank e d then max 0 (n - decrement_value spec) else n)"

definition rfm_count :: "DramSpec \<Rightarrow> DecodedAddress \<Rightarrow> rfm_history \<Rightarrow> int" where
  "rfm_count spec e h = fold (\<lambda>(ev, c). rfm_count_step spec e ev) h 0"

definition rfm_answers :: "DramSpec \<Rightarrow> rfm_event \<Rightarrow> DecodedAddress \<Rightarrow> bool" where
  "rfm_answers spec ev e \<longleftrightarrow> (case ev of Activated d \<Rightarrow> False
     | RfmBank d \<Rightarrow> ds_rfm_policy spec \<noteq> AllBank \<and> same_scope ScBank e d
     | RfmRank d \<Rightarrow> same_scope ScRank e d)"

definition rfm_open_step :: "DramSpec \<Rightarrow> DecodedAddress \<Rightarrow> rfm_event \<times> RfmMaintenanceCommand option \<Rightarrow> bool \<Rightarrow> bool" where
  "rfm_open_step spec e x b = (case x of (ev, c) \<Rightarrow> \<not> rfm_answers spec ev e
     \<and> (b \<or> (case c of None \<Rightarrow> False | Some k \<Rightarrow> same_scope (rfm_scope spec) e (rm_decoded k))))"

definition rfm_open :: "DramSpec \<Rightarrow> DecodedAddress \<Rightarrow> rfm_history \<Rightarrow> bool" where
  "rfm_open spec e h = fold (rfm_open_step spec e) h False"

definition rfm_request :: "DramSpec \<Rightarrow> DecodedAddress \<Rightarrow> rfm_history \<Rightarrow> RfmMaintenanceCommand option" where
  "rfm_request spec d h = (if ds_rfm_act_threshold spec \<le> rfm_count spec d h + 1 \<and> \<not> rfm_open spec d h
     then Some \<lparr>rm_command = (if ds_rfm_policy spec = AllBank then RFMAB else RFMPB), rm_decoded = d\<rparr> else None)"

definition rfm_rel :: "DramSpec \<Rightarrow> rfm_history \<Rightarrow> RfmManager \<Rightarrow> bool" where
  "rfm_rel spec h m \<longleftrightarrow> rfm_wf spec m \<and> (\<forall>e. in_range spec e \<longrightarrow>
     act_count_since_rfm m ! nat (flat_bank spec e) = rfm_count spec e h \<and> rfm_flag spec e m = rfm_open spec e h)"

lemma rfm_count_snoc: "rfm_count spec e (h @ [(ev, c)]) = rfm_count_step spec e ev (rfm_count spec e h)"
  by (simp add: rfm_count_def)

lemma rfm_open_snoc: "rfm_open spec e (h @ [x]) = rfm_open_step spec e x (rfm_open spec e h)"
  by (simp add: rfm_open_def)

lemma rfm_count_bounds: "0 \<le> rfm_count spec e h \<and> rfm_count spec e h \<le> int (length h)"
proof (induction h rule: rev_induct)
  case (snoc x h)
  moreover have "1 \<le> decrement_value spec" by (simp add: decrement_value_def Let_def)
  ultimately show ?case
    by (cases x) (auto simp: rfm_count_snoc rfm_count_step_def split: rfm_event.split)
qed (simp add: rfm_count_def)

lemma rfm_reset_rel:
  assumes "rfm_reset fc spec = Inr m"
  shows "rfm_rel spec [] m"
proof -
  note wf = rfm_reset_wf [OF assms]
  have "act_count_since_rfm m ! nat (flat_bank spec e) = 0 \<and> \<not> rfm_flag spec e m" if "in_range spec e" for e
    using assms flat_index [OF wf(2) that] by (auto simp: rfm_reset_def rbind_eq_Inr rfm_flag_def)
  then show ?thesis using wf(2) by (simp add: rfm_rel_def rfm_count_def rfm_open_def)
qed

lemma rfm_event_rel:
  assumes rel: "rfm_rel spec h m" and dims: "dims_ok spec" and on: "ds_supports_rfm spec" "0 < ds_rfm_act_threshold spec"
    and rng: "in_range spec (rfm_event_at ev)"
  shows "\<exists>c m' st'. rfm_event_step spec ev (m, st) = Inr (c, m', st') \<and> rfm_rel spec (h @ [(ev, c)]) m'
    \<and> (\<forall>d. ev = Activated d \<longrightarrow> c = rfm_request spec d h)"
proof (cases ev)
  case (Activated d)
  have d: "in_range spec d" and wf: "rfm_wf spec m" using rng rel Activated by (simp_all add: rfm_rel_def)
  have cnt: "act_count_since_rfm m ! nat (flat_bank spec e) = rfm_count spec e h" "rfm_flag spec e m = rfm_open spec e h"
    if "in_range spec e" for e using rel that by (simp_all add: rfm_rel_def)
  have c: "rfm_request spec d h = (if ds_rfm_act_threshold spec \<le> rfm_count spec d h + 1 \<and> \<not> rfm_flag spec d m
      then Some \<lparr>rm_command = (if ds_rfm_policy spec = AllBank then RFMAB else RFMPB), rm_decoded = d\<rparr> else None)"
    by (simp add: rfm_request_def cnt [OF d])
  from rfm_activate_step [OF wf d on cnt(1) [OF d, symmetric] c] obtain m' st' where m':
    "rfm_on_activate spec d m st = Inr (rfm_request spec d h, m', st')"
    "act_count_since_rfm m' = (act_count_since_rfm m)[nat (flat_bank spec d) := rfm_count spec d h + 1]"
    "\<And>e. in_range spec e \<Longrightarrow> rfm_flag spec e m' = (rfm_flag spec e m \<or> rfm_request spec d h \<noteq> None \<and> same_scope (rfm_scope spec) e d)"
    by blast
  have wf': "rfm_wf spec m'" using rfm_on_activate_ok [OF dims wf d, of st] m'(1) by auto
  have count: "act_count_since_rfm m' ! nat (flat_bank spec e) = rfm_count spec e (h @ [(ev, rfm_request spec d h)])"
    if e: "in_range spec e" for e
  proof (cases "same_scope ScBank e d")
    case True
    then have eq: "nat (flat_bank spec e) = nat (flat_bank spec d)" using flat_scope [OF e d] by simp
    have "rfm_count spec e h = rfm_count spec d h" using cnt(1) [OF e] cnt(1) [OF d] by (simp add: eq)
    then show ?thesis
      using True flat_index(1) [OF wf d] by (simp add: m'(2) eq rfm_count_snoc rfm_count_step_def Activated)
  next
    case False
    then have "nat (flat_bank spec d) \<noteq> nat (flat_bank spec e)" using flat_scope [OF e d] by simp
    then show ?thesis
      using False cnt(1) [OF e] by (simp add: m'(2) rfm_count_snoc rfm_count_step_def Activated)
  qed
  have flags: "rfm_flag spec e m' = rfm_open spec e (h @ [(ev, rfm_request spec d h)])" if e: "in_range spec e" for e
    using m'(3) [OF e] cnt(2) [OF e] by (auto simp: rfm_open_snoc rfm_open_step_def rfm_answers_def Activated rfm_request_def)
  show ?thesis using m'(1) wf' count flags by (simp add: rfm_rel_def Activated)
next
  case (RfmBank d)
  have d: "in_range spec d" and wf: "rfm_wf spec m" using rng rel RfmBank by (simp_all add: rfm_rel_def)
  from rfm_rfmpb_step [OF wf d, of st] obtain m' st' where m': "rfm_on_rfmpb spec d m st = Inr (m', st')"
    "act_count_since_rfm m' = (act_count_since_rfm m)[nat (flat_bank spec d) :=
         max 0 (act_count_since_rfm m ! nat (flat_bank spec d) - decrement_value spec)]"
    "\<And>e. in_range spec e \<Longrightarrow> rfm_flag spec e m' =
         (\<not> (ds_rfm_policy spec \<noteq> AllBank \<and> same_scope ScBank e d) \<and> rfm_flag spec e m)" by blast
  have wf': "rfm_wf spec m'" using rfm_on_rfmpb_ok [OF wf, of d st] m'(1) by auto
  have count: "act_count_since_rfm m' ! nat (flat_bank spec e) = rfm_count spec e (h @ [(ev, None)])" if e: "in_range spec e" for e
    using rel e flat_scope [OF e d] flat_index(1) [OF wf e]
    by (auto simp: m'(2) rfm_count_snoc rfm_count_step_def RfmBank rfm_rel_def nth_list_update)
  have flags: "rfm_flag spec e m' = rfm_open spec e (h @ [(ev, None)])" if e: "in_range spec e" for e
    using m'(3) [OF e] rel e by (auto simp: rfm_open_snoc rfm_open_step_def rfm_answers_def RfmBank rfm_rel_def)
  show ?thesis using m'(1) wf' count flags by (simp add: rfm_rel_def RfmBank)
next
  case (RfmRank d)
  have d: "in_range spec d" and wf: "rfm_wf spec m" using rng rel RfmRank by (simp_all add: rfm_rel_def)
  from rfm_on_rfmab_ok [OF dims wf d, of st] obtain m' st' where m': "rfm_on_rfmab spec d m st = Inr (m', st')" "rfm_wf spec m'"
    "\<And>e. in_range spec e \<Longrightarrow> act_count_since_rfm m' ! nat (flat_bank spec e) =
         (if same_scope ScRank e d then max 0 (act_count_since_rfm m ! nat (flat_bank spec e) - decrement_value spec)
          else act_count_since_rfm m ! nat (flat_bank spec e))
       \<and> rfm_flag spec e m' = (\<not> same_scope ScRank e d \<and> rfm_flag spec e m)" by blast
  have "act_count_since_rfm m' ! nat (flat_bank spec e) = rfm_count spec e (h @ [(ev, None)])
      \<and> rfm_flag spec e m' = rfm_open spec e (h @ [(ev, None)])" if e: "in_range spec e" for e
    using m'(3) [OF e] rel e
    by (auto simp: rfm_count_snoc rfm_count_step_def rfm_open_snoc rfm_open_step_def rfm_answers_def RfmRank rfm_rel_def)
  then show ?thesis using m'(1,2) by (simp add: rfm_rel_def RfmRank)
qed

lemma rfm_runs_rel:
  assumes "rfm_runs fc spec h s" and "ds_supports_rfm spec" and "0 < ds_rfm_act_threshold spec"
  shows "dims_ok spec \<and> rfm_rel spec h (fst s)"
  using assms(1)
proof (induction rule: rfm_runs.induct)
  case (reset m st)
  then show ?case using rfm_reset_wf(1) rfm_reset_rel by simp
next
  case (event h s ev c s')
  obtain m st where s: "s = (m, st)" by (cases s)
  from rfm_event_rel [OF _ _ assms(2,3) event.hyps(2), of h m st] event show ?case by (auto simp: s)
qed

section \<open>Properties\<close>

text \<open>
  C38: On a device with RFM, from reset on and for every sequence of activations and RFM commands, the counter of
  every bank is the number of its activations less the configured decrement for every RFM command that covers the
  bank, never below zero (and at most the number of events, so that the 32-bit counter does not overflow within
  $2^{31}$ of them). An activation asks for an RFM command exactly when it brings the count to the threshold and no
  request is outstanding for the bank, or under the all-bank policy for its rank; the request names the
  activated coordinate and the command of the policy. No operation indexes outside the arrays.
\<close>

theorem rfm_requests_exact:
  assumes "rfm_runs fc spec h (m, st)" and "ds_supports_rfm spec" and "0 < ds_rfm_act_threshold spec" and "in_range spec d"
  shows "act_count_since_rfm m ! nat (flat_bank spec d) = rfm_count spec d h
    \<and> 0 \<le> rfm_count spec d h \<and> rfm_count spec d h \<le> int (length h)
    \<and> (\<exists>m' st'. rfm_on_activate spec d m st = Inr (rfm_request spec d h, m', st'))
    \<and> (\<exists>m' st'. rfm_on_rfmpb spec d m st = Inr (m', st')) \<and> (\<exists>m' st'. rfm_on_rfmab spec d m st = Inr (m', st'))"
proof -
  have dims: "dims_ok spec" and rel: "rfm_rel spec h m" using rfm_runs_rel [OF assms(1-3)] by simp_all
  have wf: "rfm_wf spec m" using rel by (simp add: rfm_rel_def)
  have "\<exists>m' st'. rfm_on_activate spec d m st = Inr (rfm_request spec d h, m', st')"
    using rfm_event_rel [OF rel dims assms(2,3), of "Activated d" st] assms(4) by auto
  then show ?thesis
    using rel assms(4) rfm_count_bounds rfm_rfmpb_step [OF wf assms(4), of st] rfm_on_rfmab_ok [OF dims wf assms(4), of st]
    by (auto simp: rfm_rel_def)
qed

lemma hbm_demo_banks: "total_banks hbm_demo = Inr 16" "rfm_rank_count hbm_demo = 1"
  by (rule hbm_demo_dims(2)) (simp add: rfm_rank_count_def hbm_demo_def DramSpec_init_def Organization_init_def)

text \<open>A device that asks for a per-bank RFM at every second activation.\<close>

definition rfm_demo :: DramSpec where
  "rfm_demo = hbm_demo\<lparr>ds_supports_rfm := True, ds_rfm_act_threshold := 2, ds_rfm_decrement := 2\<rparr>"

lemma rfm_demo_valid: "validate_spec demo_float rfm_demo = Inr ()"
  by (simp add: validate_spec_def validate_geometry_def validate_clock_def validate_modes_def check_def
      non_negative_fields_def rfm_demo_def hbm_demo_def demo_float_def DramSpec_init_def Organization_init_def Timing_init_def
      addressable_capacity_bytes_def total_addressable_transactions_def checked_product_def transaction_bytes_def
      u64_max_def u64_mul_def Let_def)

lemma rfm_demo_banks: "total_banks rfm_demo = Inr 16" "rfm_rank_count rfm_demo = 1"
  using hbm_demo_banks by (simp_all add: rfm_demo_def total_banks_def rfm_rank_count_def)

theorem rfm_requests_exact_witness:
  "\<exists>m st m' st'. rfm_runs demo_float rfm_demo [(Activated DecodedAddress_init, None)] (m, st)
     \<and> rfm_on_activate rfm_demo DecodedAddress_init m st = Inr (Some \<lparr>rm_command = RFMPB, rm_decoded = DecodedAddress_init\<rparr>, m', st')"
proof -
  let ?d = DecodedAddress_init
  have on: "ds_supports_rfm rfm_demo" "0 < ds_rfm_act_threshold rfm_demo" by (simp_all add: rfm_demo_def)
  have rng: "in_range rfm_demo ?d" using hbm_demo_range by (simp add: rfm_demo_def in_range_def)
  have thr: "ds_rfm_act_threshold rfm_demo = 2" "ds_rfm_policy rfm_demo \<noteq> AllBank"
    by (simp_all add: rfm_demo_def hbm_demo_def DramSpec_init_def)
  obtain m0 where "rfm_reset demo_float rfm_demo = Inr m0" by (simp add: rfm_reset_def rfm_demo_valid rfm_demo_banks)
  then have r0: "rfm_runs demo_float rfm_demo [] (m0, s0)" for s0 by (rule rfm_runs.reset)
  have none: "rfm_request rfm_demo ?d [] = None" by (simp add: rfm_request_def rfm_count_def thr)
  obtain m st where a: "rfm_on_activate rfm_demo ?d m0 undefined = Inr (None, m, st)"
    using rfm_requests_exact [OF r0 on rng, of undefined] none by auto
  have r1: "rfm_runs demo_float rfm_demo [(Activated ?d, None)] (m, st)"
    using rfm_runs.event [OF r0, of "Activated ?d" undefined None "(m, st)"] a rng by simp
  have "rfm_request rfm_demo ?d [(Activated ?d, None)] = Some \<lparr>rm_command = RFMPB, rm_decoded = ?d\<rparr>"
    using thr by (simp add: rfm_request_def rfm_count_def rfm_count_step_def rfm_open_def rfm_open_step_def rfm_answers_def same_scope_def)
  with rfm_requests_exact [OF r1 on rng] r1 show ?thesis by auto
qed

end
