(* ===== verification/Request_Queues.thy ===== *)
theory Request_Queues
  imports Addr_Map
begin

text \<open>
  The request queues of the DRAM controller (\<open>controller/request_queues.hpp\<close>): four bounded queues
  and the per-bank count of active requests. Requests enter the read, write and priority queues by
  \<open>push_back\<close> on the queue the controller selects after \<open>has_space\<close>; the active queue changes only
  through \<open>promote\<close> and \<open>erase\<close>. A request has the fields the controller reads; the
  bookkeeping of the host side is left out.
\<close>

record Request =
  rq_id :: nat
  rq_address :: nat
  rq_target_stack :: int
  rq_target_channel :: int
  rq_qos_class :: int
  rq_type :: RequestType
  rq_decoded :: DecodedAddress
  rq_arrival :: nat
  rq_controller_sequence :: nat
  rq_inject_cycle :: nat
  rq_completion :: nat
  rq_issued_cycle :: nat
  rq_bypass_dram :: bool
  rq_transfer_bytes :: nat
  rq_payload :: "u8 list"
  rq_expected_payload :: "u8 list"
  rq_byte_mask :: "u8 list"
  rq_has_payload :: bool
  rq_has_expected_payload :: bool
  rq_has_byte_mask :: bool
  rq_data_committed :: bool
  rq_response_ecc_corrected :: bool
  rq_response_ecc_uncorrectable :: bool
  rq_issued_data_command :: Command
  rq_next :: Command
  rq_issued_first_activate :: bool
  rq_cas_sync_issued :: bool
  rq_row_status_counted :: bool

definition Request_init :: Request where
  "Request_init = \<lparr>rq_id = 0, rq_address = 0, rq_target_stack = -1, rq_target_channel = -1, rq_qos_class = 0,
     rq_type = ReqRead, rq_decoded = DecodedAddress_init, rq_arrival = 0, rq_controller_sequence = 0, rq_inject_cycle = 0,
     rq_completion = 0, rq_issued_cycle = 0, rq_bypass_dram = False, rq_transfer_bytes = 0,
     rq_payload = [], rq_expected_payload = [], rq_byte_mask = [], rq_has_payload = False, rq_has_expected_payload = False,
     rq_has_byte_mask = False, rq_data_committed = False, rq_response_ecc_corrected = False,
     rq_response_ecc_uncorrectable = False, rq_issued_data_command = NOP, rq_next = NOP, rq_issued_first_activate = False,
     rq_cas_sync_issued = False, rq_row_status_counted = False\<rparr>"

datatype RequestQueueKind = QActive | QPriority | QRead | QWrite

record RequestQueues =
  queue :: "RequestQueueKind \<Rightarrow> Request list"
  limit :: "RequestQueueKind \<Rightarrow> nat"
  active_counts :: "int list"

definition RequestQueues_new :: "nat \<Rightarrow> nat \<Rightarrow> nat \<Rightarrow> nat \<Rightarrow> RequestQueues res" where
  "RequestQueues_new banks priority reads writes =
     (if banks = 0 \<or> priority = 0 \<or> reads = 0 \<or> writes = 0
      then Inl (InvalidArgument ''request queue capacity must be positive'')
      else Inr \<lparr>queue = (\<lambda>_. []),
             limit = (\<lambda>k. case k of QActive \<Rightarrow> banks | QPriority \<Rightarrow> priority | QRead \<Rightarrow> reads | QWrite \<Rightarrow> writes),
             active_counts = replicate banks 0\<rparr>)"

definition has_space :: "RequestQueueKind \<Rightarrow> RequestQueues \<Rightarrow> bool" where
  "has_space kind q \<longleftrightarrow> length (queue q kind) < limit q kind"

definition queues_size :: "RequestQueues \<Rightarrow> nat" where
  "queues_size q = length (queue q QActive) + length (queue q QPriority) + length (queue q QRead) + length (queue q QWrite)"

definition drop_at :: "nat \<Rightarrow> 'a list \<Rightarrow> 'a list" where
  "drop_at i xs = take i xs @ drop (Suc i) xs"

text \<open>\<open>std::vector::at\<close> throws outside the vector.\<close>

definition count_at :: "int list \<Rightarrow> int \<Rightarrow> int res" where
  "count_at v i = (if 0 \<le> i \<and> i < int (length v) then Inr (v ! nat i) else Inl (OutOfRange ''vector::at''))"

definition queue_push :: "RequestQueueKind \<Rightarrow> Request \<Rightarrow> RequestQueues \<Rightarrow> RequestQueues" where
  "queue_push kind r q = q\<lparr>queue := (queue q)(kind := queue q kind @ [r])\<rparr>"

definition queue_erase :: "DramSpec \<Rightarrow> RequestQueueKind \<Rightarrow> nat \<Rightarrow> RequestQueues \<Rightarrow> RequestQueues res" where
  "queue_erase spec kind index q =
     (if index \<ge> length (queue q kind) then Inr q
      else rbind (if kind = QActive
                  then let b = flat_bank spec (rq_decoded (queue q kind ! index))
                       in rbind (count_at (active_counts q) b) (\<lambda>n.
                            if n \<le> 0 then Inl (LogicError ''active queue ownership underflow'')
                            else Inr (q\<lparr>active_counts := (active_counts q)[nat b := n - 1]\<rparr>))
                  else Inr q) (\<lambda>q.
             Inr (q\<lparr>queue := (queue q)(kind := drop_at index (queue q kind))\<rparr>)))"

definition queue_promote :: "DramSpec \<Rightarrow> RequestQueueKind \<Rightarrow> nat \<Rightarrow> RequestQueues \<Rightarrow> (bool \<times> RequestQueues) res" where
  "queue_promote spec kind index q =
     (if kind = QActive \<or> index \<ge> length (queue q kind) \<or> \<not> has_space QActive q then Inr (False, q)
      else let r = queue q kind ! index; b = flat_bank spec (rq_decoded r) in
        rbind (count_at (active_counts q) b) (\<lambda>n.
          let q = queue_push QActive r q;
              q = q\<lparr>active_counts := (active_counts q)[nat b := n + 1]\<rparr>
          in Inr (True, q\<lparr>queue := (queue q)(kind := drop_at index (queue q kind))\<rparr>)))"

section \<open>Ownership\<close>

definition owners :: "DramSpec \<Rightarrow> RequestQueues \<Rightarrow> int \<Rightarrow> nat" where
  "owners spec q b = length (filter (\<lambda>r. flat_bank spec (rq_decoded r) = b) (queue q QActive))"

definition queues_ok :: "DramSpec \<Rightarrow> RequestQueues \<Rightarrow> bool" where
  "queues_ok spec q \<longleftrightarrow> (\<forall>b. 0 \<le> b \<longrightarrow> b < int (length (active_counts q)) \<longrightarrow> active_counts q ! nat b = int (owners spec q b))
     \<and> (\<forall>k. \<forall>r \<in> set (queue q k). 0 \<le> flat_bank spec (rq_decoded r) \<and> flat_bank spec (rq_decoded r) < int (length (active_counts q)))
     \<and> (\<forall>k. length (queue q k) \<le> limit q k)"

lemma set_drop_at: "set (drop_at i xs) \<subseteq> set xs"
  by (auto simp: drop_at_def dest: in_set_takeD in_set_dropD)

lemma length_drop_at: "i < length xs \<Longrightarrow> length (drop_at i xs) = length xs - 1"
  by (simp add: drop_at_def)

lemma filter_drop_at:
  assumes "i < length xs"
  shows "length (filter P xs) = length (filter P (drop_at i xs)) + of_bool (P (xs ! i))"
proof -
  have xs: "xs = take i xs @ xs ! i # drop (Suc i) xs" using assms by (rule id_take_nth_drop)
  have "length (filter P xs) = length (filter P (take i xs @ xs ! i # drop (Suc i) xs))" using xs by simp
  then show ?thesis by (simp add: drop_at_def)
qed

lemma new_ok: "RequestQueues_new banks p r w = Inr q \<Longrightarrow> queues_ok spec q"
  by (auto simp: RequestQueues_new_def queues_ok_def owners_def split: if_splits)

lemma push_ok:
  assumes "queues_ok spec q" and "kind \<noteq> QActive" and "has_space kind q"
    and "0 \<le> flat_bank spec (rq_decoded r)" "flat_bank spec (rq_decoded r) < int (length (active_counts q))"
  shows "queues_ok spec (queue_push kind r q)"
  using assms by (auto simp: queues_ok_def queue_push_def owners_def has_space_def)

lemma erase_ok:
  assumes "queues_ok spec q"
  shows "\<exists>q'. queue_erase spec kind i q = Inr q' \<and> queues_ok spec q'
    \<and> (i < length (queue q kind) \<longrightarrow> queue q' = (queue q)(kind := drop_at i (queue q kind)))"
proof (cases "i < length (queue q kind)")
  case False
  then show ?thesis using assms by (simp add: queue_erase_def)
next
  case i: True
  let ?r = "queue q kind ! i"
  define b where "b = flat_bank spec (rq_decoded ?r)"
  have r: "?r \<in> set (queue q kind)" using i by simp
  then have b: "0 \<le> b" "b < int (length (active_counts q))" using assms unfolding b_def queues_ok_def by blast+
  have lim: "length (drop_at i (queue q kind)) \<le> limit q kind"
    using assms length_drop_at [OF i] unfolding queues_ok_def by (metis diff_le_self le_trans)
  show ?thesis
  proof (cases "kind = QActive")
    case False
    then show ?thesis
      using assms i lim set_drop_at [of i "queue q kind"] by (auto simp: queue_erase_def queues_ok_def owners_def)
  next
    case True
    have cnt: "active_counts q ! nat b = int (owners spec q b)" using assms b by (simp add: queues_ok_def)
    have drop: "owners spec q x = length (filter (\<lambda>r. flat_bank spec (rq_decoded r) = x) (drop_at i (queue q kind))) + of_bool (b = x)" for x
      using filter_drop_at [OF i, of "\<lambda>r. flat_bank spec (rq_decoded r) = x"] True by (simp add: owners_def b_def)
    then have pos: "0 < owners spec q b" by simp
    let ?q = "q\<lparr>active_counts := (active_counts q)[nat b := active_counts q ! nat b - 1],
      queue := (queue q)(kind := drop_at i (queue q kind))\<rparr>"
    have at: "flat_bank spec (rq_decoded (queue q QActive ! i)) = b" using True by (simp add: b_def)
    have eq: "queue_erase spec kind i q = Inr ?q"
      using i b True cnt pos by (simp add: queue_erase_def count_at_def Let_def at)
    have own: "owners spec ?q x = owners spec q x - of_bool (b = x)" for x
      using drop [of x] True by (simp add: owners_def)
    have "active_counts ?q ! nat x = int (owners spec ?q x)" if x: "0 \<le> x" "x < int (length (active_counts q))" for x
    proof (cases "x = b")
      case True
      then show ?thesis using b cnt pos own [of b] by (simp add: of_nat_diff)
    next
      case False
      then have "nat b \<noteq> nat x" using b(1) x(1) by auto
      then show ?thesis using own [of x] False assms x by (simp add: queues_ok_def)
    qed
    then have "queues_ok spec ?q"
      using assms lim set_drop_at [of i "queue q kind"] by (auto simp: queues_ok_def)
    with eq show ?thesis by simp
  qed
qed

lemma promote_ok:
  assumes "queues_ok spec q"
  shows "\<exists>ok q'. queue_promote spec kind i q = Inr (ok, q') \<and> queues_ok spec q'
    \<and> (ok \<longleftrightarrow> kind \<noteq> QActive \<and> i < length (queue q kind) \<and> has_space QActive q)
    \<and> queue q' = (if ok then (queue q)(QActive := queue q QActive @ [queue q kind ! i], kind := drop_at i (queue q kind)) else queue q)"
proof (cases "kind \<noteq> QActive \<and> i < length (queue q kind) \<and> has_space QActive q")
  case False
  then show ?thesis using assms by (auto simp: queue_promote_def)
next
  case True
  then have i: "i < length (queue q kind)" and k: "kind \<noteq> QActive" and sp: "has_space QActive q" by blast+
  let ?r = "queue q kind ! i"
  define b where "b = flat_bank spec (rq_decoded ?r)"
  have r: "?r \<in> set (queue q kind)" using i by simp
  then have b: "0 \<le> b" "b < int (length (active_counts q))" using assms unfolding b_def queues_ok_def by blast+
  have cnt: "active_counts q ! nat b = int (owners spec q b)" using assms b by (simp add: queues_ok_def)
  let ?q = "q\<lparr>active_counts := (active_counts q)[nat b := active_counts q ! nat b + 1],
      queue := (queue q)(QActive := queue q QActive @ [?r], kind := drop_at i (queue q kind))\<rparr>"
  have eq: "queue_promote spec kind i q = Inr (True, ?q)"
    using True b by (simp add: queue_promote_def count_at_def queue_push_def Let_def b_def [symmetric])
  have own: "owners spec ?q x = owners spec q x + of_bool (b = x)" for x
    using k by (simp add: owners_def b_def)
  have counts: "active_counts ?q ! nat x = int (owners spec ?q x)" if x: "0 \<le> x" "x < int (length (active_counts q))" for x
  proof (cases "x = b")
    case True
    then show ?thesis using b cnt own [of b] by simp
  next
    case False
    then have "nat b \<noteq> nat x" using b(1) x(1) by auto
    then show ?thesis using own [of x] False assms x by (simp add: queues_ok_def)
  qed
  have lim: "length (drop_at i (queue q kind)) \<le> limit q kind"
    using assms length_drop_at [OF i] unfolding queues_ok_def by (metis diff_le_self le_trans)
  have "queues_ok spec ?q"
    using counts assms lim set_drop_at [of i "queue q kind"] r sp unfolding queues_ok_def has_space_def by auto
  with eq True show ?thesis by auto
qed

section \<open>Properties\<close>

inductive queues_reach :: "DramSpec \<Rightarrow> RequestQueues \<Rightarrow> bool" for spec where
  new: "RequestQueues_new banks p r w = Inr q \<Longrightarrow> queues_reach spec q"
| push: "queues_reach spec q \<Longrightarrow> kind \<noteq> QActive \<Longrightarrow> has_space kind q \<Longrightarrow> 0 \<le> flat_bank spec (rq_decoded x) \<Longrightarrow>
    flat_bank spec (rq_decoded x) < int (length (active_counts q)) \<Longrightarrow> queues_reach spec (queue_push kind x q)"
| erase: "queues_reach spec q \<Longrightarrow> queue_erase spec kind i q = Inr q' \<Longrightarrow> queues_reach spec q'"
| promote: "queues_reach spec q \<Longrightarrow> queue_promote spec kind i q = Inr (ok, q') \<Longrightarrow> queues_reach spec q'"

lemma queues_reach_ok: "queues_reach spec q \<Longrightarrow> queues_ok spec q"
proof (induction rule: queues_reach.induct)
  case (new banks p r w q)
  then show ?case by (rule new_ok)
next
  case (push q kind x)
  then show ?case by (intro push_ok)
next
  case (erase q kind i q')
  then show ?case using erase_ok [of spec q kind i] by auto
next
  case (promote q kind i ok q')
  then show ?case using promote_ok [of spec q kind i] by auto
qed

text \<open>
  C37: In every reachable state of the request queues the count of a bank is the number of active requests
  that own it and no queue exceeds its capacity; erasing and promoting never throw (the underflow check of
  \<open>erase\<close> cannot fire), and a promotion moves the chosen request to the end of the active queue and
  keeps the total number of queued requests.
\<close>

theorem queue_ownership_exact:
  assumes "queues_reach spec q"
  shows "(0 \<le> b \<and> b < int (length (active_counts q)) \<longrightarrow> active_counts q ! nat b = int (owners spec q b))
    \<and> length (queue q kind) \<le> limit q kind
    \<and> (\<exists>q'. queue_erase spec kind i q = Inr q')
    \<and> (\<exists>ok q'. queue_promote spec kind i q = Inr (ok, q') \<and> queues_size q' = queues_size q
         \<and> (ok \<longrightarrow> queue q' QActive = queue q QActive @ [queue q kind ! i]))"
proof -
  have ok: "queues_ok spec q" using queues_reach_ok [OF assms] .
  obtain p q' where pr: "queue_promote spec kind i q = Inr (p, q')"
    "p \<longleftrightarrow> kind \<noteq> QActive \<and> i < length (queue q kind) \<and> has_space QActive q"
    "queue q' = (if p then (queue q)(QActive := queue q QActive @ [queue q kind ! i], kind := drop_at i (queue q kind)) else queue q)"
    using promote_ok [OF ok, of kind i] by blast
  have "queues_size q' = queues_size q"
    using pr(2,3) length_drop_at [of i "queue q kind"] by (cases kind) (auto simp: queues_size_def)
  moreover have "p \<longrightarrow> queue q' QActive = queue q QActive @ [queue q kind ! i]"
    using pr(2,3) by auto
  ultimately have "\<exists>ok q'. queue_promote spec kind i q = Inr (ok, q') \<and> queues_size q' = queues_size q
         \<and> (ok \<longrightarrow> queue q' QActive = queue q QActive @ [queue q kind ! i])"
    using pr(1) by blast
  moreover have "\<exists>q'. queue_erase spec kind i q = Inr q'" using erase_ok [OF ok] by blast
  moreover have "0 \<le> b \<and> b < int (length (active_counts q)) \<longrightarrow> active_counts q ! nat b = int (owners spec q b)"
    "length (queue q kind) \<le> limit q kind"
    using ok unfolding queues_ok_def by blast+
  ultimately show ?thesis by blast
qed

theorem queue_ownership_exact_witness:
  "\<exists>q. RequestQueues_new 16 4 8 8 = Inr q \<and> length (queue (queue_push QRead (Request_init\<lparr>rq_id := 1\<rparr>) q) QRead)
     \<le> limit (queue_push QRead (Request_init\<lparr>rq_id := 1\<rparr>) q) QRead"
proof -
  obtain q where q: "RequestQueues_new 16 4 8 8 = Inr q" by (simp add: RequestQueues_new_def)
  then have "queues_reach DramSpec_init (queue_push QRead (Request_init\<lparr>rq_id := 1\<rparr>) q)"
    by (intro queues_reach.push queues_reach.new [OF q])
      (auto simp: RequestQueues_new_def has_space_def flat_bank_def DecodedAddress_init_def Request_init_def Let_def)
  from queue_ownership_exact [OF this] q show ?thesis by blast
qed

end
