(* ===== verification/Command_Executor.thy ===== *)
theory Command_Executor
  imports Rfm_Manager Request_Queues
begin

text \<open>
  The command executor of the DRAM controller (\<open>controller/executor.hpp\<close>,
  \<open>controller/executor.cpp\<close>, \<open>dram/bank_state.hpp\<close>): the state transition of one issued command
  on the banks, the row, column, bank-group and WCK buckets of the timing engine, the RFM counters
  and the command statistics.

  The references the code takes into four different vectors of the timing engine are updates of
  those vectors here. \<open>banks_[i]\<close> is unchecked in the code; an index outside the vector is the error
  \<open>Undefined\<close>. The command counters of \<open>Stats\<close>, one field per command, are a function on
  commands. Cycles are 64-bit, sums of timing parameters are \<open>int\<close>.
\<close>

section \<open>State\<close>

record BankState =
  bs_open_row :: int
  bs_next_act :: nat
  bs_next_pre :: nat
  bs_next_rd :: nat
  bs_next_wr :: nat
  bs_next_any_col :: nat
  bs_next_act2 :: nat
  bs_act2_deadline :: nat
  bs_activating :: bool

definition BankState_init :: BankState where
  "BankState_init = \<lparr>bs_open_row = -1, bs_next_act = 0, bs_next_pre = 0, bs_next_rd = 0, bs_next_wr = 0,
     bs_next_any_col = 0, bs_next_act2 = 0, bs_act2_deadline = 0, bs_activating = False\<rparr>"

record CommandStats =
  cs_issued :: "Command \<Rightarrow> nat"
  cs_wck_syncs :: nat
  cs_wck_sync_skips :: nat
  cs_mode_register_ops :: nat
  cs_wck_training_events :: nat
  cs_dvfs_transitions :: nat
  cs_ras_ecc_events :: nat
  cs_rfm :: RfmStats

definition CommandStats_init :: CommandStats where
  "CommandStats_init = \<lparr>cs_issued = (\<lambda>_. 0), cs_wck_syncs = 0, cs_wck_sync_skips = 0, cs_mode_register_ops = 0,
     cs_wck_training_events = 0, cs_dvfs_transitions = 0, cs_ras_ecc_events = 0,
     cs_rfm = \<lparr>rfm_events = 0, rfm_all_bank_events = 0, rfm_per_bank_events = 0, rfm_decrements = 0\<rparr>\<rparr>"

record ExecState =
  ex_banks :: "BankState list"
  ex_timing :: TimingEngine
  ex_rfm :: RfmManager
  ex_stats :: CommandStats

definition at_bank :: "int \<Rightarrow> BankState list \<Rightarrow> BankState res" where
  "at_bank i banks =
     (if 0 \<le> i \<and> i < int (length banks) then Inr (banks ! nat i) else Inl (Undefined ''index out of bounds''))"

section \<open>Updates\<close>

definition put_bank :: "int \<Rightarrow> BankState \<Rightarrow> ExecState \<Rightarrow> ExecState" where
  "put_bank i b s = s\<lparr>ex_banks := (ex_banks s)[nat i := b]\<rparr>"

definition upd_row :: "DramSpec \<Rightarrow> DecodedAddress \<Rightarrow> (TimingScopeState \<Rightarrow> TimingScopeState) \<Rightarrow> ExecState \<Rightarrow> ExecState" where
  "upd_row spec d f s = (let te = ex_timing s; i = scope_index spec (ds_row_bus_scope spec) d
     in s\<lparr>ex_timing := te\<lparr>row_scopes := (row_scopes te)[i := f (row_scopes te ! i)]\<rparr>\<rparr>)"

definition upd_col :: "DramSpec \<Rightarrow> DecodedAddress \<Rightarrow> (TimingScopeState \<Rightarrow> TimingScopeState) \<Rightarrow> ExecState \<Rightarrow> ExecState" where
  "upd_col spec d f s = (let te = ex_timing s; i = scope_index spec (ds_column_bus_scope spec) d
     in s\<lparr>ex_timing := te\<lparr>column_scopes := (column_scopes te)[i := f (column_scopes te ! i)]\<rparr>\<rparr>)"

definition upd_bg :: "DramSpec \<Rightarrow> DecodedAddress \<Rightarrow> (TimingScopeState \<Rightarrow> TimingScopeState) \<Rightarrow> ExecState \<Rightarrow> ExecState" where
  "upd_bg spec d f s = (let te = ex_timing s; i = scope_index spec ScBankGroup d
     in s\<lparr>ex_timing := te\<lparr>bank_group_scopes := (bank_group_scopes te)[i := f (bank_group_scopes te ! i)]\<rparr>\<rparr>)"

definition upd_wck :: "DramSpec \<Rightarrow> DecodedAddress \<Rightarrow> (TimingScopeState \<Rightarrow> TimingScopeState) \<Rightarrow> ExecState \<Rightarrow> ExecState" where
  "upd_wck spec d f s = (let te = ex_timing s; i = scope_index spec (ds_wck_scope spec) d
     in s\<lparr>ex_timing := te\<lparr>wck_scopes := (wck_scopes te)[i := f (wck_scopes te ! i)]\<rparr>\<rparr>)"

definition count_command :: "Command \<Rightarrow> ExecState \<Rightarrow> ExecState" where
  "count_command c s = (let st = ex_stats s in s\<lparr>ex_stats := st\<lparr>cs_issued := (cs_issued st)(c := cs_issued st c + 1)\<rparr>\<rparr>)"

definition upd_stats :: "(CommandStats \<Rightarrow> CommandStats) \<Rightarrow> ExecState \<Rightarrow> ExecState" where
  "upd_stats f s = s\<lparr>ex_stats := f (ex_stats s)\<rparr>"

definition row_next :: "DramSpec \<Rightarrow> DecodedAddress \<Rightarrow> nat \<Rightarrow> ExecState \<Rightarrow> ExecState" where
  "row_next spec d t s = upd_row spec d (\<lambda>x. x\<lparr>next_row := t\<rparr>) s"

definition after :: "DramSpec \<Rightarrow> nat \<Rightarrow> int \<Rightarrow> nat" where
  "after spec clk cycles = u64_add clk (timing_delay spec cycles)"

section \<open>All banks of a rank\<close>

definition exec_rank_range :: "DramSpec \<Rightarrow> DecodedAddress \<Rightarrow> BankState list \<Rightarrow> int \<times> int" where
  "exec_rank_range spec d banks =
     (let banks_per_rank = max 1 (bank_groups (ds_org spec) * banks_per_group (ds_org spec));
          lo = rank_index spec d * banks_per_rank
      in (lo, min (int (length banks)) (lo + banks_per_rank)))"

definition each_rank_bank :: "DramSpec \<Rightarrow> DecodedAddress \<Rightarrow> (BankState \<Rightarrow> BankState) \<Rightarrow> BankState list \<Rightarrow> BankState list res" where
  "each_rank_bank spec d f banks =
     (let (lo, hi) = exec_rank_range spec d banks
      in rfold (\<lambda>i banks. rbind (at_bank i banks) (\<lambda>b. Inr (banks[nat i := f b]))) [lo..hi - 1] banks)"

definition close_rank_banks :: "DramSpec \<Rightarrow> DecodedAddress \<Rightarrow> nat \<Rightarrow> BankState list \<Rightarrow> BankState list res" where
  "close_rank_banks spec d clk banks =
     (let t = ds_timing spec; ready = after spec clk (if nRPab t > 0 then nRPab t else nRP t)
      in each_rank_bank spec d (\<lambda>b. b\<lparr>bs_open_row := -1, bs_activating := False, bs_next_act := max (bs_next_act b) ready\<rparr>) banks)"

definition gate_rank_banks_after :: "DramSpec \<Rightarrow> DecodedAddress \<Rightarrow> nat \<Rightarrow> BankState list \<Rightarrow> BankState list res" where
  "gate_rank_banks_after spec d ready banks =
     each_rank_bank spec d (\<lambda>b. b\<lparr>bs_next_act := max (bs_next_act b) ready\<rparr>) banks"

section \<open>One command\<close>

type_synonym exec_result = "(RfmMaintenanceCommand option \<times> Request \<times> ExecState) res"

definition exec_activate :: "DramSpec \<Rightarrow> Request \<Rightarrow> nat \<Rightarrow> Command \<Rightarrow> ExecState \<Rightarrow> exec_result" where
  "exec_activate spec req clk cmd s =
     (let d = rq_decoded req; t = ds_timing spec;
          s = upd_row spec d (\<lambda>x. x\<lparr>next_row := u64_add clk 1, next_act := after spec clk (nRRDS t)\<rparr>) s;
          s = upd_bg spec d (\<lambda>x. x\<lparr>next_act := after spec clk (nRRDL t)\<rparr>) s;
          s = s\<lparr>ex_timing := record_activate spec d clk (ex_timing s)\<rparr>
      in rbind (rfm_on_activate spec d (ex_rfm s) (cs_rfm (ex_stats s))) (\<lambda>(c, m, st).
           Inr (c, req, count_command cmd (upd_stats (\<lambda>x. x\<lparr>cs_rfm := st\<rparr>) (s\<lparr>ex_rfm := m\<rparr>)))))"

definition exec_data :: "DramSpec \<Rightarrow> Request \<Rightarrow> nat \<Rightarrow> Command \<Rightarrow> int \<Rightarrow> ExecState \<Rightarrow> exec_result" where
  "exec_data spec req clk cmd latency s =
     (let d = rq_decoded req; t = ds_timing spec;
          s = upd_col spec d (\<lambda>x. x\<lparr>next_col := after spec clk (nCCDS t)\<rparr>) s;
          s = upd_bg spec d (\<lambda>x. x\<lparr>next_col := after spec clk (nCCDL t)\<rparr>) s;
          (req, s) =
            (if ds_lpddr_family spec
             then let s = (if \<not> rq_cas_sync_issued req
                           then upd_stats (\<lambda>x. x\<lparr>cs_wck_sync_skips := cs_wck_sync_skips x + 1\<rparr>) s else s);
                      s = upd_wck spec d (\<lambda>x. x\<lparr>wck_active_until :=
                            max (wck_active_until x) (after spec clk (latency + nBL t + nWCKPST t))\<rparr>) s
                  in (req\<lparr>rq_cas_sync_issued := False\<rparr>, s)
             else (req, s))
      in Inr (None, req, count_command cmd s))"

definition exec_maintenance :: "DramSpec \<Rightarrow> Request \<Rightarrow> Command \<Rightarrow> nat \<Rightarrow> BankState \<Rightarrow> ExecState \<Rightarrow> exec_result" where
  "exec_maintenance spec req issued clk bk s =
     (let d = rq_decoded req; i = flat_bank spec d; t = ds_timing spec; soon = u64_add clk 1 in
      case issued of
        REFPB \<Rightarrow>
          let s = row_next spec d soon (put_bank i (bk\<lparr>bs_next_act := after spec clk (nRFCpb t)\<rparr>) s)
          in Inr (None, req, count_command REFPB (s\<lparr>ex_timing := record_activate spec d clk (ex_timing s)\<rparr>))
      | REFDB \<Rightarrow>
          let s = put_bank i (bk\<lparr>bs_next_act := after spec clk (nRFCpb t)\<rparr>) s;
              j = flat_bank spec (lpddr_refdb_partner spec d)
          in rbind (at_bank j (ex_banks s)) (\<lambda>partner.
             let s = put_bank j (partner\<lparr>bs_next_act := max (bs_next_act partner) (after spec clk (nRFCpb t))\<rparr>) s;
                 s = row_next spec d soon s
             in Inr (None, req, count_command REFDB (s\<lparr>ex_timing := record_activate spec d clk (ex_timing s)\<rparr>)))
      | RFMPB \<Rightarrow>
          let s = row_next spec d soon (put_bank i (bk\<lparr>bs_next_act :=
                    after spec clk (if nRFMpb t > 0 then nRFMpb t else nRFCpb t)\<rparr>) s)
          in rbind (rfm_on_rfmpb spec d (ex_rfm s) (cs_rfm (ex_stats s))) (\<lambda>(m, st).
               Inr (None, req, count_command RFMPB (upd_stats (\<lambda>x. x\<lparr>cs_rfm := st\<rparr>) (s\<lparr>ex_rfm := m\<rparr>))))
      | PREAB \<Rightarrow>
          rbind (close_rank_banks spec d clk (ex_banks s)) (\<lambda>banks.
            Inr (None, req, count_command PREAB (row_next spec d soon (s\<lparr>ex_banks := banks\<rparr>))))
      | REFAB \<Rightarrow>
          rbind (gate_rank_banks_after spec d (after spec clk (nRFC t)) (ex_banks s)) (\<lambda>banks.
            Inr (None, req, count_command REFAB (row_next spec d soon (s\<lparr>ex_banks := banks\<rparr>))))
      | RFMAB \<Rightarrow>
          rbind (gate_rank_banks_after spec d (after spec clk (if nRFMab t > 0 then nRFMab t else nRFC t)) (ex_banks s)) (\<lambda>banks.
          rbind (rfm_on_rfmab spec d (ex_rfm s) (cs_rfm (ex_stats s))) (\<lambda>(m, st).
            Inr (None, req, count_command RFMAB (row_next spec d soon
              (upd_stats (\<lambda>x. x\<lparr>cs_rfm := st\<rparr>) (s\<lparr>ex_banks := banks, ex_rfm := m\<rparr>))))))
      | _ \<Rightarrow> Inr (None, req, s))"

definition exec_control :: "DramSpec \<Rightarrow> Request \<Rightarrow> Command \<Rightarrow> nat \<Rightarrow> ExecState \<Rightarrow> exec_result" where
  "exec_control spec req issued clk s =
     (let d = rq_decoded req; t = ds_timing spec; soon = u64_add clk 1 in
      case issued of
        MRW \<Rightarrow> Inr (None, req, upd_stats (\<lambda>x. x\<lparr>cs_mode_register_ops := cs_mode_register_ops x + 1\<rparr>)
          (count_command MRW (row_next spec d (after spec clk (max 1 (nMRW t))) s)))
      | MRR \<Rightarrow> Inr (None, req, upd_stats (\<lambda>x. x\<lparr>cs_mode_register_ops := cs_mode_register_ops x + 1\<rparr>)
          (count_command MRR (row_next spec d (after spec clk (max 1 (nMRR t))) s)))
      | WCKSYNC \<Rightarrow> Inr (None, req, upd_stats (\<lambda>x. x\<lparr>cs_wck_syncs := cs_wck_syncs x + 1\<rparr>)
          (count_command WCKSYNC (upd_wck spec d (\<lambda>x. x\<lparr>next_cas := after spec clk (max 1 (nWCKSYNC t)),
            wck_ready_at := after spec clk (max 1 (nWCKSYNC t)),
            wck_active_until := max (wck_active_until x) (after spec clk (max (nWCKPST t) (nWCKSYNC t + 1)))\<rparr>)
            (upd_col spec d (\<lambda>x. x\<lparr>next_col := soon\<rparr>) s))))
      | WCKTRAIN \<Rightarrow>
          let ready = after spec clk (max 1 (nWCKTRAIN t)) in
          Inr (None, req, upd_stats (\<lambda>x. x\<lparr>cs_wck_training_events := cs_wck_training_events x + 1\<rparr>)
            (count_command WCKTRAIN (upd_wck spec d (\<lambda>x. x\<lparr>next_cas := ready, wck_ready_at := ready,
              wck_active_until := u64_add ready (timing_delay spec (max 1 (nWCKPST t)))\<rparr>) (row_next spec d ready s))))
      | DVFS \<Rightarrow>
          let ready = after spec clk (max 1 (nDVFS t)) in
          Inr (None, req, upd_stats (\<lambda>x. x\<lparr>cs_dvfs_transitions := cs_dvfs_transitions x + 1\<rparr>)
            (count_command DVFS (upd_wck spec d (\<lambda>x. x\<lparr>next_cas := ready\<rparr>)
              (upd_col spec d (\<lambda>x. x\<lparr>next_col := ready\<rparr>) (row_next spec d ready s)))))
      | PDE \<Rightarrow> Inr (None, req, count_command PDE (row_next spec d soon s))
      | PDX \<Rightarrow> Inr (None, req, count_command PDX (row_next spec d (after spec clk (max 1 (nPDEX t))) s))
      | SREFEN \<Rightarrow> Inr (None, req, count_command SREFEN (row_next spec d soon s))
      | SREFEX \<Rightarrow> Inr (None, req, count_command SREFEX (row_next spec d (after spec clk (max 1 (nSREFEX t))) s))
      | ECCSCRUB \<Rightarrow> Inr (None, req, upd_stats (\<lambda>x. x\<lparr>cs_ras_ecc_events := cs_ras_ecc_events x + 1\<rparr>)
          (count_command ECCSCRUB (row_next spec d (after spec clk (max 1 (nECCSCRUB t))) s)))
      | RASERR \<Rightarrow> Inr (None, req, upd_stats (\<lambda>x. x\<lparr>cs_ras_ecc_events := cs_ras_ecc_events x + 1\<rparr>)
          (count_command RASERR (upd_col spec d (\<lambda>x. x\<lparr>next_col := max (next_col x) (after spec clk (max 1 (nLINKRETRY t)))\<rparr>)
            (row_next spec d (after spec clk (max 1 (nRASERR t))) s))))
      | _ \<Rightarrow> Inr (None, req, s))"

definition exec_switch :: "DramSpec \<Rightarrow> Request \<Rightarrow> Command \<Rightarrow> nat \<Rightarrow> BankState \<Rightarrow> ExecState \<Rightarrow> exec_result" where
  "exec_switch spec req issued clk bk s =
     (let d = rq_decoded req; i = flat_bank spec d; t = ds_timing spec; soon = u64_add clk 1 in
      case issued of
        ACT \<Rightarrow>
          exec_activate spec req clk ACT (put_bank i (bk\<lparr>bs_open_row := row d, bs_next_rd := after spec clk (nRCDRD t),
            bs_next_wr := after spec clk (nRCDWR t), bs_next_pre := after spec clk (nRAS t),
            bs_next_act := after spec clk (nRC t)\<rparr>) s)
      | ACT1 \<Rightarrow>
          exec_activate spec (req\<lparr>rq_issued_first_activate := True\<rparr>) clk ACT1 (put_bank i (bk\<lparr>bs_activating := True,
            bs_next_act2 := after spec clk (max 1 (nAADMin t)), bs_act2_deadline := after spec clk (max (nAADMin t) (nAADMax t)),
            bs_next_rd := after spec clk (nRCDRD t), bs_next_wr := after spec clk (nRCDWR t),
            bs_next_act := after spec clk (nRC t), bs_next_pre := after spec clk (nRAS t)\<rparr>) s)
      | ACT2 \<Rightarrow>
          Inr (None, req, count_command ACT2 (row_next spec d soon (put_bank i (bk\<lparr>bs_activating := False,
            bs_open_row := row d, bs_next_act2 := 0, bs_act2_deadline := 0\<rparr>) s)))
      | PRE \<Rightarrow>
          Inr (None, req, count_command PRE (row_next spec d soon (put_bank i (bk\<lparr>bs_open_row := -1, bs_activating := False,
            bs_next_act := after spec clk (nRP t)\<rparr>) s)))
      | PREPB \<Rightarrow>
          Inr (None, req, count_command PREPB (row_next spec d soon (put_bank i (bk\<lparr>bs_open_row := -1, bs_activating := False,
            bs_next_act := after spec clk (nRP t)\<rparr>) s)))
      | CASRD \<Rightarrow> Inr (None, req\<lparr>rq_cas_sync_issued := True\<rparr>, upd_stats (\<lambda>x. x\<lparr>cs_wck_syncs := cs_wck_syncs x + 1\<rparr>)
          (count_command CASRD (upd_wck spec d (\<lambda>x. x\<lparr>next_cas := soon, wck_ready_at := after spec clk (max 1 (nWCK2CK t)),
            wck_active_until := after spec clk (max (nWCKPST t) (nWCK2CK t + 1))\<rparr>)
            (upd_col spec d (\<lambda>x. x\<lparr>next_col := soon\<rparr>) s))))
      | CASWR \<Rightarrow> Inr (None, req\<lparr>rq_cas_sync_issued := True\<rparr>, upd_stats (\<lambda>x. x\<lparr>cs_wck_syncs := cs_wck_syncs x + 1\<rparr>)
          (count_command CASWR (upd_wck spec d (\<lambda>x. x\<lparr>next_cas := soon, wck_ready_at := after spec clk (max 1 (nWCK2CK t)),
            wck_active_until := after spec clk (max (nWCKPST t) (nWCK2CK t + 1))\<rparr>)
            (upd_col spec d (\<lambda>x. x\<lparr>next_col := soon\<rparr>) s))))
      | RD \<Rightarrow>
          exec_data spec req clk RD (nCL t) (put_bank i (bk\<lparr>bs_next_any_col := after spec clk (nCCDL t),
            bs_next_rd := after spec clk (nCCDL t), bs_next_pre := max (bs_next_pre bk) (after spec clk (nRTP t))\<rparr>) s)
      | RDA \<Rightarrow>
          exec_data spec req clk RDA (nCL t) (put_bank i (bk\<lparr>bs_next_any_col := after spec clk (nCCDL t),
            bs_next_rd := after spec clk (nCCDL t), bs_next_pre := max (bs_next_pre bk) (after spec clk (nRTP t)),
            bs_open_row := -1,
            bs_next_act := max (bs_next_act bk) (u64_add (after spec clk (nRTP t)) (timing_delay spec (nRP t)))\<rparr>) s)
      | WR \<Rightarrow>
          exec_data spec req clk WR (nCWL t) (put_bank i (bk\<lparr>bs_next_any_col := after spec clk (nCCDL t),
            bs_next_wr := after spec clk (nCCDL t),
            bs_next_pre := max (bs_next_pre bk) (after spec clk (nCWL t + nBL t + nWR t))\<rparr>) s)
      | WRA \<Rightarrow>
          exec_data spec req clk WRA (nCWL t) (put_bank i (bk\<lparr>bs_next_any_col := after spec clk (nCCDL t),
            bs_next_wr := after spec clk (nCCDL t),
            bs_next_pre := max (bs_next_pre bk) (after spec clk (nCWL t + nBL t + nWR t)), bs_open_row := -1,
            bs_next_act := max (bs_next_act bk)
              (u64_add (after spec clk (nCWL t + nBL t + nWR t)) (timing_delay spec (nRP t)))\<rparr>) s)
      | REFPB \<Rightarrow> exec_maintenance spec req REFPB clk bk s
      | REFDB \<Rightarrow> exec_maintenance spec req REFDB clk bk s
      | RFMPB \<Rightarrow> exec_maintenance spec req RFMPB clk bk s
      | PREAB \<Rightarrow> exec_maintenance spec req PREAB clk bk s
      | REFAB \<Rightarrow> exec_maintenance spec req REFAB clk bk s
      | RFMAB \<Rightarrow> exec_maintenance spec req RFMAB clk bk s
      | MRW \<Rightarrow> exec_control spec req MRW clk s
      | MRR \<Rightarrow> exec_control spec req MRR clk s
      | WCKSYNC \<Rightarrow> exec_control spec req WCKSYNC clk s
      | WCKTRAIN \<Rightarrow> exec_control spec req WCKTRAIN clk s
      | DVFS \<Rightarrow> exec_control spec req DVFS clk s
      | PDE \<Rightarrow> exec_control spec req PDE clk s
      | PDX \<Rightarrow> exec_control spec req PDX clk s
      | SREFEN \<Rightarrow> exec_control spec req SREFEN clk s
      | SREFEX \<Rightarrow> exec_control spec req SREFEX clk s
      | ECCSCRUB \<Rightarrow> exec_control spec req ECCSCRUB clk s
      | RASERR \<Rightarrow> exec_control spec req RASERR clk s
      | NOP \<Rightarrow> Inr (None, req, s))"

definition executor_issue :: "DramSpec \<Rightarrow> Request \<Rightarrow> Command \<Rightarrow> nat \<Rightarrow> ExecState \<Rightarrow> exec_result" where
  "executor_issue spec req issued clk s =
     rbind (at_bank (flat_bank spec (rq_decoded req)) (ex_banks s)) (\<lambda>bk.
     rbind (exec_switch spec req issued clk bk s) (\<lambda>(c, req, s).
       Inr (c, req, s\<lparr>ex_timing := apply_constraints spec (rq_decoded req) issued clk (ex_timing s)\<rparr>)))"

text \<open>The branches of the switch, one equation per command.\<close>

lemmas exec_switch_simps =
  exec_switch_def [of _ _ ACT, unfolded Let_def Command.case exec_maintenance_def exec_control_def]
  exec_switch_def [of _ _ ACT1, unfolded Let_def Command.case exec_maintenance_def exec_control_def]
  exec_switch_def [of _ _ ACT2, unfolded Let_def Command.case exec_maintenance_def exec_control_def]
  exec_switch_def [of _ _ PRE, unfolded Let_def Command.case exec_maintenance_def exec_control_def]
  exec_switch_def [of _ _ PREPB, unfolded Let_def Command.case exec_maintenance_def exec_control_def]
  exec_switch_def [of _ _ PREAB, unfolded Let_def Command.case exec_maintenance_def exec_control_def]
  exec_switch_def [of _ _ CASRD, unfolded Let_def Command.case exec_maintenance_def exec_control_def]
  exec_switch_def [of _ _ CASWR, unfolded Let_def Command.case exec_maintenance_def exec_control_def]
  exec_switch_def [of _ _ RD, unfolded Let_def Command.case exec_maintenance_def exec_control_def]
  exec_switch_def [of _ _ WR, unfolded Let_def Command.case exec_maintenance_def exec_control_def]
  exec_switch_def [of _ _ RDA, unfolded Let_def Command.case exec_maintenance_def exec_control_def]
  exec_switch_def [of _ _ WRA, unfolded Let_def Command.case exec_maintenance_def exec_control_def]
  exec_switch_def [of _ _ REFAB, unfolded Let_def Command.case exec_maintenance_def exec_control_def]
  exec_switch_def [of _ _ REFPB, unfolded Let_def Command.case exec_maintenance_def exec_control_def]
  exec_switch_def [of _ _ REFDB, unfolded Let_def Command.case exec_maintenance_def exec_control_def]
  exec_switch_def [of _ _ RFMAB, unfolded Let_def Command.case exec_maintenance_def exec_control_def]
  exec_switch_def [of _ _ RFMPB, unfolded Let_def Command.case exec_maintenance_def exec_control_def]
  exec_switch_def [of _ _ MRW, unfolded Let_def Command.case exec_maintenance_def exec_control_def]
  exec_switch_def [of _ _ MRR, unfolded Let_def Command.case exec_maintenance_def exec_control_def]
  exec_switch_def [of _ _ WCKSYNC, unfolded Let_def Command.case exec_maintenance_def exec_control_def]
  exec_switch_def [of _ _ WCKTRAIN, unfolded Let_def Command.case exec_maintenance_def exec_control_def]
  exec_switch_def [of _ _ DVFS, unfolded Let_def Command.case exec_maintenance_def exec_control_def]
  exec_switch_def [of _ _ PDE, unfolded Let_def Command.case exec_maintenance_def exec_control_def]
  exec_switch_def [of _ _ PDX, unfolded Let_def Command.case exec_maintenance_def exec_control_def]
  exec_switch_def [of _ _ SREFEN, unfolded Let_def Command.case exec_maintenance_def exec_control_def]
  exec_switch_def [of _ _ SREFEX, unfolded Let_def Command.case exec_maintenance_def exec_control_def]
  exec_switch_def [of _ _ ECCSCRUB, unfolded Let_def Command.case exec_maintenance_def exec_control_def]
  exec_switch_def [of _ _ RASERR, unfolded Let_def Command.case exec_maintenance_def exec_control_def]
  exec_switch_def [of _ _ NOP, unfolded Let_def Command.case exec_maintenance_def exec_control_def]

end
