(* ===== verification/Controller_Gate.thy ===== *)
theory Controller_Gate
  imports Command_Executor
begin

text \<open>
  The decisions of the DRAM controller on a single command (\<open>controller/controller.hpp\<close> and the
  second half of \<open>controller/controller.cpp\<close>): which command a request needs next, whether the state
  machine and the timing gates allow it now, whether it fits the bus of the cycle, and whether it
  would close a bank that an active request owns.

  The record holds the members of \<open>Controller\<close> these functions read. \<open>std::vector\<close> accesses by
  \<open>operator[]\<close> outside the vector are the error \<open>Undefined\<close>; \<open>any_of\<close> over a range of banks is a test
  on the slice.
\<close>

section \<open>State\<close>

record RisingEdgeCommandInfo =
  re_command :: Command
  re_pseudo_channel :: int
  re_bank_key :: int
  re_next_pairing_falling_edge :: nat

definition RisingEdgeCommandInfo_init :: RisingEdgeCommandInfo where
  "RisingEdgeCommandInfo_init = \<lparr>re_command = NOP, re_pseudo_channel = -1, re_bank_key = -1, re_next_pairing_falling_edge = 0\<rparr>"

record Controller =
  ct_row_policy_kind :: RowPolicyKind
  ct_exec :: ExecState
  ct_queues :: RequestQueues
  ct_clk :: nat
  ct_rising_edge :: RisingEdgeCommandInfo
  ct_low_power_active :: bool
  ct_explicit_power_down_active :: bool
  ct_explicit_self_refresh_active :: bool
  ct_wck_retrain_required :: bool

abbreviation ct_banks :: "Controller \<Rightarrow> BankState list" where
  "ct_banks ct \<equiv> ex_banks (ct_exec ct)"

abbreviation ct_timing :: "Controller \<Rightarrow> TimingEngine" where
  "ct_timing ct \<equiv> ex_timing (ct_exec ct)"

section \<open>Classification\<close>

definition is_row_command :: "Command \<Rightarrow> bool" where
  "is_row_command cmd = cm_row_command (command_meta cmd)"

definition is_column_command :: "Command \<Rightarrow> bool" where
  "is_column_command cmd = cm_column_command (command_meta cmd)"

definition is_data_command :: "Command \<Rightarrow> bool" where
  "is_data_command cmd = cm_data (command_meta cmd)"

definition is_opening_command :: "Command \<Rightarrow> bool" where
  "is_opening_command cmd = cm_opening (command_meta cmd)"

definition is_maintenance_request :: "Request \<Rightarrow> bool" where
  "is_maintenance_request req \<longleftrightarrow> rq_type req = ReqMaintenance"

definition is_terminal_maintenance :: "Request \<Rightarrow> Command \<Rightarrow> bool" where
  "is_terminal_maintenance req cmd \<longleftrightarrow> is_maintenance_request req \<and> cmd = rq_next req"

definition is_all_bank_row_command :: "Command \<Rightarrow> bool" where
  "is_all_bank_row_command cmd = cm_all_bank (command_meta cmd)"

section \<open>Bank occupancy\<close>

definition bank_busy :: "BankState \<Rightarrow> bool" where
  "bank_busy b \<longleftrightarrow> bs_activating b \<or> bs_open_row b \<ge> 0"

definition slice :: "int \<Rightarrow> int \<Rightarrow> 'a list \<Rightarrow> 'a list" where
  "slice lo hi xs = take (nat (hi - lo)) (drop (nat lo) xs)"

definition any_bank_busy_in_channel :: "DramSpec \<Rightarrow> DecodedAddress \<Rightarrow> Controller \<Rightarrow> bool res" where
  "any_bank_busy_in_channel spec d ct =
     rbind (banks_per_channel spec) (\<lambda>n.
       let n = max 1 n; ch = clamp_int (channel d) (channels (ds_org spec)); lo = ch * n;
           hi = min (int (length (ct_banks ct))) (lo + n)
       in Inr (list_ex bank_busy (slice lo hi (ct_banks ct))))"

definition controller_rank_range :: "DramSpec \<Rightarrow> DecodedAddress \<Rightarrow> Controller \<Rightarrow> int \<times> int" where
  "controller_rank_range spec d ct =
     (let banks_per_rank = max 1 (bank_groups (ds_org spec) * banks_per_group (ds_org spec));
          lo = rank_index spec d * banks_per_rank
      in (lo, min (int (length (ct_banks ct))) (lo + banks_per_rank)))"

definition any_bank_busy_in_rank :: "DramSpec \<Rightarrow> DecodedAddress \<Rightarrow> Controller \<Rightarrow> bool" where
  "any_bank_busy_in_rank spec d ct =
     (let (lo, hi) = controller_rank_range spec d ct in list_ex bank_busy (slice lo hi (ct_banks ct)))"

definition any_bank_activating_in_rank :: "DramSpec \<Rightarrow> DecodedAddress \<Rightarrow> Controller \<Rightarrow> bool" where
  "any_bank_activating_in_rank spec d ct =
     (let (lo, hi) = controller_rank_range spec d ct in list_ex bs_activating (slice lo hi (ct_banks ct)))"

definition dual_bank_target_idle :: "DramSpec \<Rightarrow> DecodedAddress \<Rightarrow> Controller \<Rightarrow> bool res" where
  "dual_bank_target_idle spec d ct =
     rbind (at_bank (flat_bank spec d) (ct_banks ct)) (\<lambda>b.
       if bs_activating b \<or> bs_open_row b \<ge> 0 \<or> ct_clk ct < bs_next_act b then Inr False
       else rbind (at_bank (flat_bank spec (lpddr_refdb_partner spec d)) (ct_banks ct)) (\<lambda>p.
         Inr (\<not> bs_activating p \<and> bs_open_row p < 0 \<and> ct_clk ct \<ge> bs_next_act p)))"

definition controller_wck_ready :: "DramSpec \<Rightarrow> Request \<Rightarrow> Controller \<Rightarrow> bool" where
  "controller_wck_ready spec req ct = wck_ready_for_data spec (rq_decoded req) (ct_clk ct) (ct_timing ct)"

definition decoded_from_flat_bank :: "DramSpec \<Rightarrow> int \<Rightarrow> DecodedAddress" where
  "decoded_from_flat_bank spec flat =
     (let org = ds_org spec; x = max 0 flat;
          ba = max 1 (banks_per_group org); bg = max 1 (bank_groups org); ra = max 1 (ranks org);
          si = max 1 (sids org); pc = max 1 (pseudo_channels org);
          d = DecodedAddress_init\<lparr>bank := x mod ba\<rparr>; x = x div ba;
          d = d\<lparr>bank_group := x mod bg\<rparr>; x = x div bg;
          d = d\<lparr>rank := x mod ra\<rparr>; x = x div ra;
          d = d\<lparr>sid := x mod si\<rparr>; x = x div si;
          d = d\<lparr>pseudo_channel := x mod pc\<rparr>; x = x div pc
      in d\<lparr>channel := x\<rparr>)"

section \<open>The state machine\<close>

definition snapshot :: "DramSpec \<Rightarrow> Request \<Rightarrow> Command \<Rightarrow> bool \<Rightarrow> BankState \<Rightarrow> Controller \<Rightarrow> CommandStateSnapshot" where
  "snapshot spec req cmd any_busy b ct =
     \<lparr>ss_bank_state = (if bs_activating b then BankActivating else if bs_open_row b \<ge> 0 then BankOpened else BankClosed),
      ss_row_hit = (bs_open_row b = row (rq_decoded req)),
      ss_wck_ready = controller_wck_ready spec req ct,
      ss_any_bank_busy = any_busy,
      ss_split_activate = ds_split_activate spec,
      ss_lpddr_family = ds_lpddr_family spec,
      ss_maintenance = is_maintenance_request req,
      ss_issued_first_activate = rq_issued_first_activate req,
      ss_low_power_active = (ct_explicit_power_down_active ct
        \<or> (ct_low_power_active ct \<and> ds_low_power_mode spec \<noteq> SelfRefresh)),
      ss_self_refresh_active = (ct_explicit_self_refresh_active ct
        \<or> (ct_low_power_active ct \<and> ds_low_power_mode spec = SelfRefresh)),
      ss_training_active = False,
      ss_dvfs_transition_active = False,
      ss_wck_training_required = ct_wck_retrain_required ct,
      ss_ras_ecc_supported = (ds_supports_ecc spec \<or> ds_lpddr_link_ecc_enabled spec),
      ss_link_retry_supported = (ds_hbm_link_retry_enabled spec \<or> ds_lpddr_link_protection spec)\<rparr>"

definition state_ok :: "DramSpec \<Rightarrow> Request \<Rightarrow> Command \<Rightarrow> Controller \<Rightarrow> bool res" where
  "state_ok spec req cmd ct =
     rbind (at_bank (flat_bank spec (rq_decoded req)) (ct_banks ct)) (\<lambda>b.
     rbind (if cmd = PREAB \<or> cmd = REFAB \<or> cmd = RFMAB then Inr (any_bank_busy_in_rank spec (rq_decoded req) ct)
            else any_bank_busy_in_channel spec (rq_decoded req) ct) (\<lambda>any_busy.
       Inr (fst (check_command_state (snapshot spec req cmd any_busy b ct) cmd))))"

section \<open>Timing gates\<close>

definition constraint_timing_ok :: "DramSpec \<Rightarrow> Request \<Rightarrow> Command \<Rightarrow> Controller \<Rightarrow> bool" where
  "constraint_timing_ok spec req cmd ct = constraint_ready spec (rq_decoded req) cmd (ct_clk ct) (ct_timing ct)"

definition timing_switch :: "DramSpec \<Rightarrow> Request \<Rightarrow> Command \<Rightarrow> BankState \<Rightarrow> Controller \<Rightarrow> bool res" where
  "timing_switch spec req cmd b ct =
     (let d = rq_decoded req; te = ct_timing ct; clk = ct_clk ct;
          rw = row_state spec d te; col = column_state spec d te; bg = bank_group_state spec d te; wck = wck_state spec d te;
          read_ok = (bs_open_row b = row d \<and> clk \<ge> bs_next_rd b \<and> clk \<ge> bs_next_any_col b \<and> clk \<ge> next_col col
            \<and> clk \<ge> next_col bg \<and> (\<not> ds_lpddr_family spec \<or> controller_wck_ready spec req ct));
          write_ok = (bs_open_row b = row d \<and> clk \<ge> bs_next_wr b \<and> clk \<ge> bs_next_any_col b \<and> clk \<ge> next_col col
            \<and> clk \<ge> next_col bg \<and> (\<not> ds_lpddr_family spec \<or> controller_wck_ready spec req ct));
          pre_ok = (\<not> bs_activating b \<and> bs_open_row b \<ge> 0 \<and> clk \<ge> bs_next_pre b \<and> clk \<ge> next_row rw);
          cas_ok = (ds_lpddr_family spec \<and> bs_open_row b = row d \<and> clk \<ge> next_col col \<and> clk \<ge> next_cas wck);
          idle_channel = rbind (any_bank_busy_in_channel spec d ct) (\<lambda>busy. Inr (\<not> busy \<and> clk \<ge> next_row rw))
      in case cmd of
        ACT \<Rightarrow> Inr (\<not> bs_activating b \<and> clk \<ge> bs_next_act b \<and> clk \<ge> next_row rw \<and> clk \<ge> next_act rw
          \<and> clk \<ge> next_act bg \<and> faw_ready spec d te)
      | ACT1 \<Rightarrow> Inr (\<not> bs_activating b \<and> \<not> any_bank_activating_in_rank spec d ct \<and> clk \<ge> bs_next_act b
          \<and> clk \<ge> next_row rw \<and> clk \<ge> next_act rw \<and> clk \<ge> next_act bg \<and> faw_ready spec d te)
      | ACT2 \<Rightarrow> Inr (bs_activating b \<and> rq_issued_first_activate req \<and> clk \<ge> bs_next_act2 b \<and> clk \<ge> next_row rw)
      | PRE \<Rightarrow> Inr pre_ok
      | PREPB \<Rightarrow> Inr pre_ok
      | CASRD \<Rightarrow> Inr cas_ok
      | CASWR \<Rightarrow> Inr cas_ok
      | RD \<Rightarrow> Inr read_ok
      | RDA \<Rightarrow> Inr read_ok
      | WR \<Rightarrow> Inr write_ok
      | WRA \<Rightarrow> Inr write_ok
      | REFPB \<Rightarrow> Inr (\<not> bs_activating b \<and> bs_open_row b < 0 \<and> clk \<ge> bs_next_act b \<and> clk \<ge> next_row rw
          \<and> faw_ready spec d te)
      | REFDB \<Rightarrow> rbind (dual_bank_target_idle spec d ct) (\<lambda>idle.
          if \<not> idle \<or> clk < bs_next_act b then Inr False
          else rbind (at_bank (flat_bank spec (lpddr_refdb_partner spec d)) (ct_banks ct)) (\<lambda>p.
            Inr (clk \<ge> bs_next_act p \<and> clk \<ge> next_row rw \<and> faw_ready spec d te)))
      | RFMPB \<Rightarrow> Inr (\<not> bs_activating b \<and> bs_open_row b < 0 \<and> clk \<ge> bs_next_act b \<and> clk \<ge> next_row rw)
      | PREAB \<Rightarrow> Inr (clk \<ge> next_row rw)
      | REFAB \<Rightarrow> Inr (\<not> any_bank_busy_in_rank spec d ct \<and> clk \<ge> next_row rw)
      | RFMAB \<Rightarrow> Inr (\<not> any_bank_busy_in_rank spec d ct \<and> clk \<ge> next_row rw)
      | MRW \<Rightarrow> idle_channel
      | MRR \<Rightarrow> idle_channel
      | WCKTRAIN \<Rightarrow> idle_channel
      | DVFS \<Rightarrow> idle_channel
      | PDE \<Rightarrow> idle_channel
      | SREFEN \<Rightarrow> idle_channel
      | ECCSCRUB \<Rightarrow> idle_channel
      | WCKSYNC \<Rightarrow> Inr (ds_lpddr_family spec \<and> clk \<ge> next_col col \<and> clk \<ge> next_cas wck)
      | PDX \<Rightarrow> Inr (clk \<ge> next_row rw)
      | SREFEX \<Rightarrow> Inr (clk \<ge> next_row rw)
      | RASERR \<Rightarrow> Inr (clk \<ge> next_row rw)
      | NOP \<Rightarrow> Inr False)"

definition timing_ok :: "DramSpec \<Rightarrow> Request \<Rightarrow> Command \<Rightarrow> Controller \<Rightarrow> bool res" where
  "timing_ok spec req cmd ct =
     rbind (at_bank (flat_bank spec (rq_decoded req)) (ct_banks ct)) (\<lambda>b.
     rbind (state_ok spec req cmd ct) (\<lambda>ok.
       if \<not> ok then Inr False
       else if \<not> constraint_timing_ok spec req cmd ct then Inr False
       else timing_switch spec req cmd b ct))"

section \<open>The next command of a request\<close>

definition next_maintenance :: "DramSpec \<Rightarrow> Request \<Rightarrow> BankState \<Rightarrow> Controller \<Rightarrow> Command res" where
  "next_maintenance spec req b ct =
     (let d = rq_decoded req; nx = rq_next req in
      if (nx = REFAB \<or> nx = RFMAB) \<and> any_bank_busy_in_rank spec d ct then Inr PREAB
      else if (nx = REFPB \<or> nx = REFDB \<or> nx = RFMPB) \<and> (bs_activating b \<or> bs_open_row b \<ge> 0) then Inr PREPB
      else if nx = REFDB
      then rbind (dual_bank_target_idle spec d ct) (\<lambda>idle.
             if \<not> idle \<and> any_bank_busy_in_rank spec d ct then Inr PREAB else Inr nx)
      else Inr nx)"

definition next_row_hit :: "DramSpec \<Rightarrow> Request \<Rightarrow> BankState \<Rightarrow> Controller \<Rightarrow> Command option" where
  "next_row_hit spec req b ct =
     (let d = rq_decoded req; t = ds_timing spec; clk = ct_clk ct; te = ct_timing ct; reads = (rq_type req = ReqRead) in
      if ds_lpddr_family spec \<and> \<not> controller_wck_ready spec req ct
      then let wck = wck_state spec d te in
        if clk < wck_ready_at wck \<and> clk < wck_active_until wck then None
        else let data_gate = max (if reads then bs_next_rd b else bs_next_wr b)
                   (constraint_ready_at spec d (if reads then RD else WR) te);
                 cas_to_data = max (nCAS t) (nWCK2CK t);
                 prospective_ready = after spec clk (max 1 cas_to_data);
                 prospective_end = after spec clk (max (nWCKPST t) (nWCK2CK t + 1))
             in if max data_gate prospective_ready \<ge> prospective_end then None
                else Some (if reads then CASRD else CASWR)
      else Some (if reads then read_command_for (ct_row_policy_kind ct) else write_command_for (ct_row_policy_kind ct)))"

definition next_command_for :: "DramSpec \<Rightarrow> Request \<Rightarrow> Controller \<Rightarrow> Command option res" where
  "next_command_for spec req ct =
     rbind (at_bank (flat_bank spec (rq_decoded req)) (ct_banks ct)) (\<lambda>b.
       if is_maintenance_request req then rbind (next_maintenance spec req b ct) (\<lambda>c. Inr (Some c))
       else if bs_open_row b = row (rq_decoded req) then Inr (next_row_hit spec req b ct)
       else if bs_open_row b \<ge> 0 then Inr (Some PREPB)
       else if bs_activating b then Inr (if rq_issued_first_activate req then Some ACT2 else None)
       else if ds_split_activate spec then Inr (Some (if rq_issued_first_activate req then ACT2 else ACT1))
       else Inr (Some ACT))"

section \<open>Buses and ownership\<close>

definition is_rising_edge :: "Controller \<Rightarrow> bool" where
  "is_rising_edge ct \<longleftrightarrow> ct_clk ct mod 2 = 1"

definition bank_key :: "DramSpec \<Rightarrow> DecodedAddress \<Rightarrow> int" where
  "bank_key spec d = (sid d * bank_groups (ds_org spec) + bank_group d) * banks_per_group (ds_org spec) + bank d"

definition can_issue_falling_edge_pre :: "DramSpec \<Rightarrow> Request \<Rightarrow> Command \<Rightarrow> Controller \<Rightarrow> bool" where
  "can_issue_falling_edge_pre spec req cmd ct =
     (let e = ct_rising_edge ct in
      if ct_clk ct \<noteq> re_next_pairing_falling_edge e then True
      else if re_pseudo_channel e \<noteq> pseudo_channel (rq_decoded req) then True
      else if is_all_bank_row_command (re_command e) then False
      else cmd = PREPB \<and> bank_key spec (rq_decoded req) \<noteq> re_bank_key e)"

definition record_rising_row_command :: "DramSpec \<Rightarrow> Request \<Rightarrow> Command \<Rightarrow> Controller \<Rightarrow> Controller" where
  "record_rising_row_command spec req cmd ct =
     ct\<lparr>ct_rising_edge := \<lparr>re_command = cmd, re_pseudo_channel = pseudo_channel (rq_decoded req),
        re_bank_key = (if is_all_bank_row_command cmd then -1 else bank_key spec (rq_decoded req)),
        re_next_pairing_falling_edge = u64_add (ct_clk ct) (if cmd = ACT then 3 else 1)\<rparr>\<rparr>"

definition bus_matches :: "DramSpec \<Rightarrow> Request \<Rightarrow> Command \<Rightarrow> BusClass \<Rightarrow> Controller \<Rightarrow> bool" where
  "bus_matches spec req cmd bus ct =
     (if bus = UnifiedBus then True
      else if ds_hbm_edge_pairing spec \<and> \<not> is_rising_edge ct
      then if bus = ColumnBus then False
           else if cmd \<noteq> PREPB \<and> cmd \<noteq> PREAB then False
           else \<not> ds_hbm_strict_edge_pairing spec \<or> can_issue_falling_edge_pre spec req cmd ct
      else if is_row_command cmd then bus = RowBus
      else if is_column_command cmd then bus = ColumnBus
      else False)"

definition would_close_active :: "DramSpec \<Rightarrow> Request \<Rightarrow> Command \<Rightarrow> RequestQueueKind \<Rightarrow> Controller \<Rightarrow> bool res" where
  "would_close_active spec req cmd source ct =
     (let counts = active_counts (ct_queues ct) in
      if source = QActive then Inr False
      else if cmd \<notin> {PREPB, REFPB, REFDB, RFMPB, PREAB, REFAB, RFMAB} then Inr False
      else if is_all_bank_row_command cmd
      then let (lo, hi) = controller_rank_range spec (rq_decoded req) ct
           in Inr (list_ex (\<lambda>n. n > 0) (slice lo hi counts))
      else let i = flat_bank spec (rq_decoded req)
           in if 0 \<le> i \<and> i < int (length counts) then Inr (counts ! nat i > 0)
              else Inl (Undefined ''index out of bounds''))"

end
