(* ===== verification/Row_Policy.thy ===== *)
theory Row_Policy
  imports Timing_Correct
begin

text \<open>
  The row policy of the DRAM controller (\<open>controller/row_policy.hpp\<close>,
  \<open>controller/row_policy.cpp\<close>): per-bank counts of column accesses and pending precharges for the
  ClosedCAP policy. The main lemma says what the counter holds after any sequence of issued commands. The
  counters are of type \<open>int\<close> in the source and unbounded here; they stay below the number of commands.
\<close>

record RowPolicyEngine =
  rp_cap :: int
  column_accesses :: "int list"
  precharge_pending :: "bool list"

definition row_policy_reset :: "nat \<Rightarrow> int \<Rightarrow> RowPolicyEngine res" where
  "row_policy_reset bank_count cap =
     (if bank_count = 0 then Inl (InvalidArgument ''row-policy bank_count must be positive'')
      else if cap \<le> 0 then Inl (InvalidArgument ''closed-page cap must be positive'')
      else Inr \<lparr>rp_cap = cap, column_accesses = replicate bank_count 0, precharge_pending = replicate bank_count False\<rparr>)"

definition rp_valid_bank :: "int \<Rightarrow> RowPolicyEngine \<Rightarrow> bool" where
  "rp_valid_bank b e \<longleftrightarrow> b \<ge> 0 \<and> b < int (length (column_accesses e))"

definition should_schedule_precharge :: "RowPolicyKind \<Rightarrow> int \<Rightarrow> int \<Rightarrow> RowPolicyEngine \<Rightarrow> bool" where
  "should_schedule_precharge policy b active_requests e =
     (if policy \<noteq> ClosedCap \<or> \<not> rp_valid_bank b e then False
      else if active_requests > 0 \<or> precharge_pending e ! nat b then False
      else column_accesses e ! nat b \<ge> rp_cap e)"

definition should_auto_precharge :: "RowPolicyKind \<Rightarrow> int \<Rightarrow> RowPolicyEngine \<Rightarrow> bool" where
  "should_auto_precharge policy b e =
     (if policy \<noteq> ClosedCap \<or> \<not> rp_valid_bank b e then False else column_accesses e ! nat b \<ge> rp_cap e)"

definition mark_precharge_pending :: "int \<Rightarrow> RowPolicyEngine \<Rightarrow> RowPolicyEngine" where
  "mark_precharge_pending b e =
     (if rp_valid_bank b e then e\<lparr>precharge_pending := (precharge_pending e)[nat b := True]\<rparr> else e)"

definition rp_on_issue :: "RowPolicyKind \<Rightarrow> int \<Rightarrow> Command \<Rightarrow> RowPolicyEngine \<Rightarrow> RowPolicyEngine" where
  "rp_on_issue policy b issued e =
     (if policy \<noteq> ClosedCap then e
      else let m = command_meta issued in
        if cm_all_bank m \<and> cm_closing m
        then e\<lparr>column_accesses := map (\<lambda>_. 0) (column_accesses e), precharge_pending := map (\<lambda>_. False) (precharge_pending e)\<rparr>
        else if \<not> rp_valid_bank b e then e
        else if cm_closing m
        then e\<lparr>column_accesses := (column_accesses e)[nat b := 0], precharge_pending := (precharge_pending e)[nat b := False]\<rparr>
        else if cm_accessing m
        then e\<lparr>column_accesses := (column_accesses e)[nat b := column_accesses e ! nat b + 1]\<rparr>
        else e)"

section \<open>What the counter counts\<close>

text \<open>
  The events of the policy: a command issued to a coordinate, and the precharge of a bank put into the queue.
  The specification reads the history from the latest event back. The row of a bank is closed by its own closing
  commands and by an all-bank precharge of its rank (\<open>close_rank_banks\<close> of \<open>executor.cpp\<close>).
\<close>

datatype rp_event = Issued DecodedAddress Command | Marked int

definition closes_row :: "DecodedAddress \<Rightarrow> DecodedAddress \<Rightarrow> Command \<Rightarrow> bool" where
  "closes_row x d c \<longleftrightarrow> c = PREAB \<and> same_scope ScRank x d \<or> c \<in> {PRE, PREPB, RDA, WRA} \<and> same_scope ScBank x d"

fun accesses_since_close :: "DecodedAddress \<Rightarrow> rp_event list \<Rightarrow> int" where
  "accesses_since_close x [] = 0"
| "accesses_since_close x (Marked b # older) = accesses_since_close x older"
| "accesses_since_close x (Issued d c # older) =
     (if closes_row x d c then 0
      else if c \<in> {RD, WR} \<and> same_scope ScBank x d then accesses_since_close x older + 1
      else accesses_since_close x older)"

fun marked_since_close :: "DramSpec \<Rightarrow> DecodedAddress \<Rightarrow> rp_event list \<Rightarrow> bool" where
  "marked_since_close spec x [] = False"
| "marked_since_close spec x (Marked b # older) = (b = flat_bank spec x \<or> marked_since_close spec x older)"
| "marked_since_close spec x (Issued d c # older) = (\<not> closes_row x d c \<and> marked_since_close spec x older)"

text \<open>An all-bank precharge of another rank since the row was last closed.\<close>

fun other_rank_precharged :: "DecodedAddress \<Rightarrow> rp_event list \<Rightarrow> bool" where
  "other_rank_precharged x [] = False"
| "other_rank_precharged x (Marked b # older) = other_rank_precharged x older"
| "other_rank_precharged x (Issued d c # older) =
     (\<not> closes_row x d c \<and> (c = PREAB \<or> other_rank_precharged x older))"

lemma meta_closing: "cm_closing (command_meta c) \<longleftrightarrow> c \<in> {PRE, PREPB, PREAB, RDA, WRA}"
  by (cases c) (simp_all add: command_meta_def kMeta_def meta_def)

lemma meta_all_closing: "cm_all_bank (command_meta c) \<and> cm_closing (command_meta c) \<longleftrightarrow> c = PREAB"
  by (cases c) (simp_all add: command_meta_def kMeta_def meta_def)

lemma meta_accessing: "cm_accessing (command_meta c) \<longleftrightarrow> c \<in> {RD, WR, RDA, WRA}"
  by (cases c) (simp_all add: command_meta_def kMeta_def meta_def)

lemma on_issue_ClosedCap:
  "rp_on_issue ClosedCap b c e =
     (if c = PREAB then e\<lparr>column_accesses := map (\<lambda>_. 0) (column_accesses e), precharge_pending := map (\<lambda>_. False) (precharge_pending e)\<rparr>
      else if \<not> rp_valid_bank b e then e
      else if c \<in> {PRE, PREPB, RDA, WRA}
      then e\<lparr>column_accesses := (column_accesses e)[nat b := 0], precharge_pending := (precharge_pending e)[nat b := False]\<rparr>
      else if c \<in> {RD, WR} then e\<lparr>column_accesses := (column_accesses e)[nat b := column_accesses e ! nat b + 1]\<rparr>
      else e)"
  unfolding rp_on_issue_def Let_def meta_all_closing by (auto simp: meta_closing meta_accessing)

fun rp_event_step :: "DramSpec \<Rightarrow> rp_event \<Rightarrow> RowPolicyEngine \<Rightarrow> RowPolicyEngine" where
  "rp_event_step spec (Issued d c) e = rp_on_issue ClosedCap (flat_bank spec d) c e"
| "rp_event_step spec (Marked b) e = mark_precharge_pending b e"

definition rp_run :: "DramSpec \<Rightarrow> rp_event list \<Rightarrow> RowPolicyEngine \<Rightarrow> RowPolicyEngine" where
  "rp_run spec h e = fold (rp_event_step spec) h e"

definition rp_in_range :: "DramSpec \<Rightarrow> rp_event \<Rightarrow> bool" where
  "rp_in_range spec ev \<longleftrightarrow> (case ev of Issued d c \<Rightarrow> in_range spec d | Marked b \<Rightarrow> True)"

definition rp_shape :: "DramSpec \<Rightarrow> int \<Rightarrow> RowPolicyEngine \<Rightarrow> bool" where
  "rp_shape spec cap e \<longleftrightarrow> rp_cap e = cap \<and> int (length (column_accesses e)) = bank_total spec
     \<and> length (precharge_pending e) = length (column_accesses e)"

lemma rp_step_shape: "rp_shape spec cap e \<Longrightarrow> rp_shape spec cap (rp_event_step spec ev e)"
  by (cases ev) (simp_all add: rp_shape_def on_issue_ClosedCap mark_precharge_pending_def)

text \<open>The engine at a bank, in terms of the history.\<close>

definition rp_rel :: "DramSpec \<Rightarrow> DecodedAddress \<Rightarrow> rp_event list \<Rightarrow> RowPolicyEngine \<Rightarrow> bool" where
  "rp_rel spec x h e \<longleftrightarrow> (let n = column_accesses e ! nat (flat_bank spec x); p = precharge_pending e ! nat (flat_bank spec x) in
     0 \<le> n \<and> n \<le> accesses_since_close x h \<and> n \<le> int (length h) \<and> (p \<longrightarrow> marked_since_close spec x h)
     \<and> (\<not> other_rank_precharged x h \<longrightarrow> n = accesses_since_close x h \<and> p = marked_since_close spec x h))"

lemma rp_index:
  assumes "rp_shape spec cap e" and "in_range spec x"
  shows "nat (flat_bank spec x) < length (column_accesses e)" "nat (flat_bank spec x) < length (precharge_pending e)"
    "rp_valid_bank (flat_bank spec x) e"
  using flat_bank_range [OF assms(2)] assms(1) by (auto simp: rp_shape_def digit_ok_def rp_valid_bank_def)

lemma rp_step_rel:
  assumes rel: "rp_rel spec x h e" and sh: "rp_shape spec cap e" and x: "in_range spec x" and ev: "rp_in_range spec ev"
  shows "rp_rel spec x (ev # h) (rp_event_step spec ev e)"
proof (cases ev)
  case (Marked b)
  have "nat b = nat (flat_bank spec x) \<longleftrightarrow> b = flat_bank spec x" if "0 \<le> b"
    using that flat_bank_range [OF x] by (auto simp: digit_ok_def)
  moreover have "b = flat_bank spec x \<Longrightarrow> rp_valid_bank b e" using rp_index(3) [OF sh x] by simp
  ultimately show ?thesis
    using rel rp_index [OF sh x] unfolding Marked rp_rel_def
    by (auto simp: mark_precharge_pending_def rp_valid_bank_def nth_list_update Let_def)
next
  case (Issued d c)
  have d: "in_range spec d" using ev by (simp add: Issued rp_in_range_def)
  note i = rp_index [OF sh x] and j = rp_index [OF sh d]
  have eq: "nat (flat_bank spec d) = nat (flat_bank spec x) \<longleftrightarrow> same_scope ScBank x d"
    using flat_scope [OF x d] by auto
  have rk: "same_scope ScBank x d \<Longrightarrow> same_scope ScRank x d" by (simp add: same_scope_def)
  consider (ab) "c = PREAB" | (close) "c \<in> {PRE, PREPB, RDA, WRA}" | (access) "c \<in> {RD, WR}"
    | (other) "c \<notin> {PREAB, PRE, PREPB, RDA, WRA, RD, WR}" by blast
  then show ?thesis
  proof cases
    case ab
    then show ?thesis
      using rel i unfolding Issued rp_rel_def
      by (auto simp: on_issue_ClosedCap closes_row_def Let_def)
  next
    case close
    then show ?thesis
      using rel i j eq unfolding Issued rp_rel_def
      by (cases "same_scope ScBank x d") (auto simp: on_issue_ClosedCap closes_row_def nth_list_update Let_def)
  next
    case access
    then show ?thesis
      using rel i j eq unfolding Issued rp_rel_def
      by (cases "same_scope ScBank x d") (auto simp: on_issue_ClosedCap closes_row_def nth_list_update Let_def)
  next
    case other
    then show ?thesis
      using rel unfolding Issued rp_rel_def by (auto simp: on_issue_ClosedCap closes_row_def Let_def)
  qed
qed

lemma rp_run_rel:
  assumes "total_banks spec = Inr n" and "dims_ok spec" and "row_policy_reset (nat n) cap = Inr e" and "in_range spec x"
    and "list_all (rp_in_range spec) h"
  shows "rp_shape spec cap (rp_run spec h e) \<and> rp_rel spec x (rev h) (rp_run spec h e)"
  using assms(5)
proof (induction h rule: rev_induct)
  case Nil
  have e: "e = \<lparr>rp_cap = cap, column_accesses = replicate (nat n) 0, precharge_pending = replicate (nat n) False\<rparr>"
    using assms(3) by (auto simp: row_policy_reset_def split: if_splits)
  have n: "n = bank_total spec" using total_banks_eq [OF assms(2), of n] assms(1) by blast
  moreover have "0 < bank_total spec" using assms(2) by (simp add: dims_ok_def bank_total_def Let_def)
  ultimately have sh: "rp_shape spec cap e" by (simp add: e rp_shape_def)
  have "rp_rel spec x [] e"
    using rp_index [OF sh assms(4)] by (simp add: rp_rel_def e)
  then show ?case using sh by (simp add: rp_run_def)
next
  case (snoc ev h)
  then show ?case
    using rp_step_shape rp_step_rel [of spec x "rev h" "rp_run spec h e" cap ev] assms(4) by (simp add: rp_run_def)
qed

section \<open>Properties\<close>

text \<open>
  C40: Under the ClosedCAP policy the count of a bank never exceeds the number of reads and writes since its row was
  last closed, by its own precharge or auto-precharge access or by an all-bank precharge of its rank; so an access is
  turned into an auto-precharge, and an idle bank is precharged, only after cap accesses to the open row. If no
  all-bank precharge of another rank was issued since the row was closed (in particular on devices with one rank), the
  count is exact: an auto-precharge is proposed exactly when cap accesses have been made, and a precharge exactly when
  moreover the bank has no active request and no precharge of it is waiting already. An all-bank precharge of another
  rank resets the count although the row stays open. The count is at most the number of events.
\<close>

theorem closed_cap_counts_accesses:
  assumes "total_banks spec = Inr n" and "dims_ok spec" and "row_policy_reset (nat n) cap = Inr e"
    and "list_all (rp_in_range spec) h" and "in_range spec x"
  shows "(should_auto_precharge ClosedCap (flat_bank spec x) (rp_run spec h e) \<longrightarrow> cap \<le> accesses_since_close x (rev h))
    \<and> (\<not> other_rank_precharged x (rev h) \<longrightarrow>
        (should_auto_precharge ClosedCap (flat_bank spec x) (rp_run spec h e) \<longleftrightarrow> cap \<le> accesses_since_close x (rev h))
        \<and> (should_schedule_precharge ClosedCap (flat_bank spec x) active (rp_run spec h e) \<longleftrightarrow>
             active \<le> 0 \<and> \<not> marked_since_close spec x (rev h) \<and> cap \<le> accesses_since_close x (rev h)))
    \<and> (in_range spec d \<and> \<not> same_scope ScRank x d \<longrightarrow>
        accesses_since_close x (rev (h @ [Issued d PREAB])) = accesses_since_close x (rev h)
        \<and> \<not> should_auto_precharge ClosedCap (flat_bank spec x) (rp_run spec (h @ [Issued d PREAB]) e))
    \<and> column_accesses (rp_run spec h e) ! nat (flat_bank spec x) \<le> int (length h)"
proof -
  note run = rp_run_rel [OF assms(1-3) assms(5) assms(4)]
  have i: "rp_valid_bank (flat_bank spec x) (rp_run spec h e)" "nat (flat_bank spec x) < length (column_accesses (rp_run spec h e))"
    using rp_index [OF conjunct1 [OF run] assms(5)] by simp_all
  have cap: "rp_cap (rp_run spec h e) = cap" using run by (simp add: rp_shape_def)
  have "0 < cap" using assms(3) by (auto simp: row_policy_reset_def split: if_splits)
  then have reset: "\<not> should_auto_precharge ClosedCap (flat_bank spec x) (rp_run spec (h @ [Issued d PREAB]) e)"
    using i cap by (simp add: rp_run_def on_issue_ClosedCap should_auto_precharge_def rp_valid_bank_def)
  have open_row: "\<not> same_scope ScRank x d \<Longrightarrow> accesses_since_close x (rev (h @ [Issued d PREAB])) = accesses_since_close x (rev h)"
    by (simp add: closes_row_def)
  show ?thesis
    using run i cap reset open_row
    by (auto simp: rp_rel_def should_auto_precharge_def should_schedule_precharge_def Let_def)
qed

theorem closed_cap_counts_accesses_witness:
  "should_auto_precharge ClosedCap (flat_bank hbm_demo DecodedAddress_init)
     (rp_run hbm_demo [Issued DecodedAddress_init ACT, Issued DecodedAddress_init RD, Marked 3, Issued DecodedAddress_init WR]
       \<lparr>rp_cap = 2, column_accesses = replicate 16 0, precharge_pending = replicate 16 False\<rparr>)"
proof -
  let ?h = "[Issued DecodedAddress_init ACT, Issued DecodedAddress_init RD, Marked 3, Issued DecodedAddress_init WR]"
  let ?e = "\<lparr>rp_cap = 2, column_accesses = replicate 16 0, precharge_pending = replicate 16 False\<rparr>"
  have e: "row_policy_reset (nat 16) 2 = Inr ?e" by (simp add: row_policy_reset_def)
  have h: "list_all (rp_in_range hbm_demo) ?h" using hbm_demo_range by (simp add: rp_in_range_def)
  show ?thesis
    using closed_cap_counts_accesses [OF hbm_demo_dims(2,1) e h hbm_demo_range] by (simp add: closes_row_def same_scope_def)
qed

end
