(* ===== verification/Write_Buffer.thy ===== *)
theory Write_Buffer
  imports Request_Queues
begin

text \<open>
  The write buffer of the DRAM controller (\<open>controller/controller.cpp\<close>): writes accepted but not yet
  issued, their coalescing with later writes to the same address, the forwarding of their bytes to
  reads, and the tests that order overlapping requests; with the helpers of \<open>core/data.cpp\<close> they
  call.

  \<open>std::unordered_map\<close> is a partial function on addresses. Its iteration order is unspecified: the
  functions that iterate take the order as an argument, a list of the addresses. The contents of the
  memory image a forwarded read starts from are an argument.
\<close>

section \<open>Sizes and ranges\<close>

definition request_data_size :: "DramSpec \<Rightarrow> Request \<Rightarrow> nat" where
  "request_data_size spec req =
     (if rq_transfer_bytes req > 0 then rq_transfer_bytes req
      else if rq_has_expected_payload req \<and> rq_expected_payload req \<noteq> [] then length (rq_expected_payload req)
      else if rq_has_payload req \<and> rq_payload req \<noteq> [] then length (rq_payload req)
      else nat (max 1 (transaction_bytes spec)))"

definition range_end :: "nat \<Rightarrow> nat \<Rightarrow> nat" where
  "range_end start len = (if len > u64_max - start then u64_max else u64_add start len)"

definition ranges_overlap :: "nat \<Rightarrow> nat \<Rightarrow> nat \<Rightarrow> nat \<Rightarrow> bool" where
  "ranges_overlap a_start a_size b_start b_size =
     (if a_size = 0 \<or> b_size = 0 then False
      else a_start < range_end b_start b_size \<and> b_start < range_end a_start a_size)"

definition normalize_mask :: "u8 list \<Rightarrow> nat \<Rightarrow> u8 list" where
  "normalize_mask bmask len =
     (if bmask = [] then replicate len 0xFF
      else map (\<lambda>i. if i < length bmask \<and> bmask ! i \<noteq> 0 then 0xFF else 0) [0..<len])"

fun xorshift_bytes :: "u64 \<Rightarrow> nat \<Rightarrow> u8 list" where
  "xorshift_bytes state 0 = []"
| "xorshift_bytes state (Suc n) =
     (let state = state XOR drop_bit 12 state; state = state XOR push_bit 25 state; state = state XOR drop_bit 27 state
      in ucast (drop_bit 56 (state * 0x2545f4914f6cdd1d)) # xorshift_bytes state n)"

definition make_request_payload :: "nat \<Rightarrow> nat \<Rightarrow> nat \<Rightarrow> u8 list" where
  "make_request_payload address request_id len =
     xorshift_bytes (of_nat address XOR (of_nat request_id * 0x9e3779b97f4a7c15) XOR 0xd1b54a32d192ed03) len"

definition ensure_write_payload :: "DramSpec \<Rightarrow> Request \<Rightarrow> Request" where
  "ensure_write_payload spec req =
     (let req = (if \<not> rq_has_payload req \<or> rq_payload req = []
                 then req\<lparr>rq_payload := make_request_payload (rq_address req) (rq_id req) (request_data_size spec req),
                          rq_has_payload := True\<rparr> else req)
      in if rq_has_byte_mask req then req\<lparr>rq_byte_mask := normalize_mask (rq_byte_mask req) (length (rq_payload req))\<rparr> else req)"

section \<open>Buffered writes\<close>

record BufferedWriteState =
  bw_request :: Request
  bw_byte_sequence :: "nat list"

type_synonym write_map = "nat \<Rightarrow> BufferedWriteState option"

definition resize :: "nat \<Rightarrow> 'a \<Rightarrow> 'a list \<Rightarrow> 'a list" where
  "resize n x xs = take n xs @ replicate (n - length xs) x"

text \<open>The merge of a masked write into the buffered write of the same address, byte by byte.\<close>

definition merge_byte :: "Request \<Rightarrow> u8 list \<Rightarrow> nat \<Rightarrow> u8 list \<times> u8 list \<times> nat list \<Rightarrow> u8 list \<times> u8 list \<times> nat list" where
  "merge_byte req bmask i x =
     (case x of (p, m, q) \<Rightarrow> if bmask ! i \<noteq> 0
        then (p[i := rq_payload req ! i], m[i := 0xFF], q[i := rq_controller_sequence req]) else x)"

definition merge_write :: "DramSpec \<Rightarrow> Request \<Rightarrow> BufferedWriteState \<Rightarrow> BufferedWriteState" where
  "merge_write spec req st =
     (let merged = ensure_write_payload spec (bw_request st);
          bmask = normalize_mask (rq_byte_mask req) (length (rq_payload req));
          payload = (if length (rq_payload merged) < length (rq_payload req)
                     then resize (length (rq_payload req)) 0 (rq_payload merged) else rq_payload merged);
          merged_mask = resize (length payload) 0
            (if rq_has_byte_mask merged then normalize_mask (rq_byte_mask merged) (length payload)
             else replicate (length payload) 0xFF);
          sequence = resize (length payload) 0 (bw_byte_sequence st);
          (payload, merged_mask, sequence) =
            fold (merge_byte req bmask) [0..<length (rq_payload req)] (payload, merged_mask, sequence);
          has_mask = (\<not> list_all (\<lambda>b. b \<noteq> 0) merged_mask)
      in \<lparr>bw_request = merged\<lparr>rq_payload := payload, rq_has_payload := True, rq_has_byte_mask := has_mask,
            rq_byte_mask := (if has_mask then merged_mask else [])\<rparr>,
          bw_byte_sequence = sequence\<rparr>)"

definition coalesce_write :: "DramSpec \<Rightarrow> Request \<Rightarrow> write_map \<Rightarrow> write_map" where
  "coalesce_write spec req m =
     (case m (rq_address req) of
        Some st \<Rightarrow> if rq_has_byte_mask req then m(rq_address req \<mapsto> merge_write spec req st)
                   else m(rq_address req \<mapsto> \<lparr>bw_request = req,
                          bw_byte_sequence = replicate (length (rq_payload req)) (rq_controller_sequence req)\<rparr>)
      | None \<Rightarrow> m(rq_address req \<mapsto> \<lparr>bw_request = req,
                          bw_byte_sequence = replicate (length (rq_payload req)) (rq_controller_sequence req)\<rparr>))"

definition buffer_write :: "Request \<Rightarrow> write_map \<Rightarrow> write_map" where
  "buffer_write req m =
     (let n = length (rq_payload req);
          bmask = (if rq_has_byte_mask req then normalize_mask (rq_byte_mask req) n else replicate n 0xFF);
          sequence = map (\<lambda>i. if bmask ! i \<noteq> 0 then rq_controller_sequence req else 0) [0..<n]
      in m(rq_address req \<mapsto> \<lparr>bw_request = req, bw_byte_sequence = sequence\<rparr>))"

section \<open>Forwarding\<close>

text \<open>The entries of the map, in the order of an iteration that visits the addresses of \<open>order\<close>.\<close>

definition buffered_entries :: "nat list \<Rightarrow> write_map \<Rightarrow> (nat \<times> BufferedWriteState) list" where
  "buffered_entries order m = List.map_filter (\<lambda>a. map_option (Pair a) (m a)) order"

definition write_hits_read :: "DramSpec \<Rightarrow> Request \<Rightarrow> nat \<Rightarrow> BufferedWriteState \<Rightarrow> bool" where
  "write_hits_read spec req write_addr st =
     (let read_size = request_data_size spec req; write_req = bw_request st; write_size = request_data_size spec write_req in
      if \<not> ranges_overlap (rq_address req) read_size write_addr write_size then False
      else if \<not> rq_has_byte_mask write_req then True
      else let bmask = normalize_mask (rq_byte_mask write_req) write_size;
               lo = max (rq_address req) write_addr;
               hi = min (range_end (rq_address req) read_size) (range_end write_addr write_size)
           in list_ex (\<lambda>pos. pos - write_addr < length bmask \<and> bmask ! (pos - write_addr) \<noteq> 0) [lo..<hi])"

definition read_hits_buffered_write :: "DramSpec \<Rightarrow> Request \<Rightarrow> nat list \<Rightarrow> write_map \<Rightarrow> bool" where
  "read_hits_buffered_write spec req order m =
     list_ex (\<lambda>(write_addr, st). write_hits_read spec req write_addr st) (buffered_entries order m)"

type_synonym forward_state = "u8 list \<times> nat list \<times> u8 list"

definition forward_byte :: "Request \<Rightarrow> BufferedWriteState \<Rightarrow> u8 list \<Rightarrow> nat \<Rightarrow> forward_state \<Rightarrow> forward_state" where
  "forward_byte req st bmask pos x =
     (case x of (actual, newest, result_mask) \<Rightarrow>
      let w = bw_request st; src = pos - rq_address w; dst = pos - rq_address req;
          sequence = (if src < length (bw_byte_sequence st) then bw_byte_sequence st ! src else 0)
      in if src < length (rq_payload w) \<and> src < length bmask \<and> dst < length actual \<and> bmask ! src \<noteq> 0 \<and> sequence \<ge> newest ! dst
         then (actual[dst := rq_payload w ! src], newest[dst := sequence],
               if dst < length result_mask then result_mask[dst := 0xFF] else result_mask)
         else x)"

definition forward_write :: "DramSpec \<Rightarrow> Request \<Rightarrow> BufferedWriteState \<Rightarrow> forward_state \<Rightarrow> forward_state" where
  "forward_write spec req st x =
     (let w = bw_request st; len = request_data_size spec req; write_size = request_data_size spec w in
      if \<not> rq_has_payload w \<or> rq_payload w = [] then x
      else let bmask = (if rq_has_byte_mask w then normalize_mask (rq_byte_mask w) (length (rq_payload w))
                       else replicate (length (rq_payload w)) 0xFF);
               lo = max (rq_address req) (rq_address w);
               hi = min (range_end (rq_address req) len) (range_end (rq_address w) write_size)
           in fold (forward_byte req st bmask) [lo..<hi] x)"

definition read_forward_payload :: "DramSpec \<Rightarrow> Request \<Rightarrow> nat list \<Rightarrow> write_map \<Rightarrow> u8 list \<Rightarrow> u8 list \<Rightarrow> u8 list \<times> u8 list" where
  "read_forward_payload spec req order m actual result_mask =
     (let len = request_data_size spec req;
          writes = filter (\<lambda>(write_addr, st). ranges_overlap (rq_address req) len write_addr (request_data_size spec (bw_request st)))
            (buffered_entries order m);
          (actual, newest, result_mask) =
            fold (\<lambda>(_, st). forward_write spec req st) writes (actual, replicate (length actual) 0, result_mask)
      in (actual, result_mask))"

section \<open>Overlapping requests\<close>

definition queue_has_overlap :: "DramSpec \<Rightarrow> Request \<Rightarrow> nat \<Rightarrow> Request list \<Rightarrow> bool" where
  "queue_has_overlap spec write older_than =
     list_ex (\<lambda>c. rq_type c = ReqRead \<and> \<not> (older_than \<noteq> 0 \<and> rq_controller_sequence c \<ge> older_than)
       \<and> ranges_overlap (rq_address write) (request_data_size spec write) (rq_address c) (request_data_size spec c))"

definition has_unresolved_overlapping_read :: "DramSpec \<Rightarrow> Request \<Rightarrow> nat \<Rightarrow> RequestQueues \<Rightarrow> Request list \<Rightarrow> bool" where
  "has_unresolved_overlapping_read spec write older_than q pending \<longleftrightarrow>
     queue_has_overlap spec write older_than (queue q QRead) \<or> queue_has_overlap spec write older_than (queue q QActive)
     \<or> queue_has_overlap spec write older_than pending"

definition has_unresolved_overlapping_write :: "DramSpec \<Rightarrow> Request \<Rightarrow> Request list \<Rightarrow> bool" where
  "has_unresolved_overlapping_write spec read pending =
     list_ex (\<lambda>p. rq_type p = ReqWrite
       \<and> ranges_overlap (rq_address read) (request_data_size spec read) (rq_address p) (request_data_size spec p)) pending"

end
