(* ===== verification/Controller_Enqueue.thy ===== *)
theory Controller_Enqueue
  imports Controller_Gate Row_Policy Refresh_Manager Write_Buffer
begin

text \<open>
  The admission of requests by the DRAM controller (\<open>Controller::enqueue\<close> and
  \<open>schedule_maintenance\<close> of \<open>controller/controller.cpp\<close>): the checks on the request, the wake-up from low
  power, the forwarding of buffered writes to reads, the coalescing of writes, and the queues.

  The record extends that of the gates with the members the admission changes; of the statistics it has
  the counters \<open>enqueue\<close> updates. What the memory image answers is an argument: its capacity, and for
  a read the bytes, the mask of the initialised ones and the two ECC flags. \<open>order\<close> lists the addresses
  of the write buffer in the order the hash map iterates over them.
\<close>

record ControllerFront = Controller +
  cf_pending :: "Request list"
  cf_pending_maintenance :: "Request list"
  cf_buffered_write_addrs :: "nat set"
  cf_buffered_writes :: write_map
  cf_next_maintenance_id :: nat
  cf_next_controller_sequence :: nat
  cf_explicit_exit_pending :: "Command option"
  cf_low_power_exit_until :: nat
  cf_low_power_idle_since :: nat
  cf_row_policy :: RowPolicyEngine
  cf_refresh :: RefreshManager
  cf_write_mode :: bool
  cf_reads :: nat
  cf_writes :: nat
  cf_injected_requests :: nat
  cf_read_forwards :: nat
  cf_write_coalesces :: nat
  cf_maintenance_requests :: nat
  cf_low_power_exits :: nat

record ImageView =
  iv_capacity :: nat
  iv_read :: "Request \<Rightarrow> nat \<Rightarrow> u8 list \<times> u8 list \<times> bool \<times> bool"

section \<open>Checks\<close>

definition in_count :: "int \<Rightarrow> int \<Rightarrow> string \<Rightarrow> unit res" where
  "in_count v n name = (if v < 0 \<or> v \<ge> n
     then Inl (OutOfRange (''request decoded '' @ name @ '' is outside the DRAM organization'')) else Inr ())"

definition validate_request_decoded :: "DramSpec \<Rightarrow> DecodedAddress \<Rightarrow> unit res" where
  "validate_request_decoded spec d = (let org = ds_org spec in
     rbind (in_count (channel d) (channels org) ''channel'') (\<lambda>_.
     rbind (in_count (pseudo_channel d) (pseudo_channels org) ''pseudo_channel'') (\<lambda>_.
     rbind (in_count (sid d) (sids org) ''sid'') (\<lambda>_.
     rbind (in_count (rank d) (ranks org) ''rank'') (\<lambda>_.
     rbind (in_count (bank_group d) (bank_groups org) ''bank_group'') (\<lambda>_.
     rbind (in_count (bank d) (banks_per_group org) ''bank'') (\<lambda>_.
     rbind (in_count (row d) (rows org) ''row'') (\<lambda>_.
     in_count (column d) (columns org) ''column''))))))))"

definition check_request :: "DramSpec \<Rightarrow> ImageView \<Rightarrow> Request \<Rightarrow> unit res" where
  "check_request spec img req =
     rbind (validate_request_decoded spec (rq_decoded req)) (\<lambda>_.
       if rq_qos_class req < 0 \<or> rq_target_stack req < -1 \<or> rq_target_channel req < -1
       then Inl (InvalidArgument ''request qos/stack/channel selectors must be non-negative or unset'')
       else if rq_type req \<noteq> ReqMaintenance
            \<and> iv_capacity img \<noteq> 0
            \<and> (rq_address req \<ge> iv_capacity img \<or> request_data_size spec req > iv_capacity img - rq_address req)
       then Inl (OutOfRange ''request address range exceeds DRAM capacity'')
       else Inr ())"

section \<open>Maintenance and low power\<close>

definition maintenance_request :: "nat \<Rightarrow> nat \<Rightarrow> Command \<Rightarrow> DecodedAddress \<Rightarrow> Request" where
  "maintenance_request req_id clk cmd d = Request_init\<lparr>rq_id := req_id, rq_type := ReqMaintenance, rq_next := cmd,
     rq_address := 0, rq_decoded := d, rq_inject_cycle := clk, rq_arrival := clk\<rparr>"

definition schedule_maintenance :: "Command \<Rightarrow> DecodedAddress \<Rightarrow> ControllerFront \<Rightarrow> ControllerFront" where
  "schedule_maintenance cmd d ct =
     ct\<lparr>cf_next_maintenance_id := u64_add (cf_next_maintenance_id ct) 1,
        cf_pending_maintenance := cf_pending_maintenance ct @ [maintenance_request (cf_next_maintenance_id ct) (ct_clk ct) cmd d],
        cf_maintenance_requests := u64_add (cf_maintenance_requests ct) 1\<rparr>"

definition low_power_exit_latency :: "DramSpec \<Rightarrow> int" where
  "low_power_exit_latency spec =
     (if ds_low_power_mode spec = SelfRefresh \<and> ds_self_refresh_exit_cycles spec > 0
      then ds_self_refresh_exit_cycles spec else ds_low_power_exit_cycles spec)"

definition wake_for_request :: "DramSpec \<Rightarrow> Request \<Rightarrow> ControllerFront \<Rightarrow> ControllerFront" where
  "wake_for_request spec req ct =
     (if \<not> (ct_low_power_active ct \<and> rq_type req \<noteq> ReqMaintenance) then ct
      else if ct_explicit_power_down_active ct \<or> ct_explicit_self_refresh_active ct
      then let cmd = (if ct_explicit_self_refresh_active ct then SREFEX else PDX) in
           (if cf_explicit_exit_pending ct = None
            then (schedule_maintenance cmd (rq_decoded req) ct)\<lparr>cf_explicit_exit_pending := Some cmd\<rparr> else ct)
      else ct\<lparr>ct_low_power_active := False,
              cf_low_power_exit_until := max (cf_low_power_exit_until ct)
                (u64_add (ct_clk ct) (timing_delay spec (max 0 (low_power_exit_latency spec)))),
              cf_low_power_exits := u64_add (cf_low_power_exits ct) 1\<rparr>)"

section \<open>Admission\<close>

definition take_sequence :: "Request \<Rightarrow> ControllerFront \<Rightarrow> Request \<times> ControllerFront" where
  "take_sequence req ct = (req\<lparr>rq_controller_sequence := cf_next_controller_sequence ct\<rparr>,
     ct\<lparr>cf_next_controller_sequence := u64_add (cf_next_controller_sequence ct) 1\<rparr>)"

definition bypass :: "ControllerFront \<Rightarrow> Request \<Rightarrow> Request" where
  "bypass ct req = req\<lparr>rq_bypass_dram := True, rq_issued_cycle := ct_clk ct, rq_completion := u64_add (ct_clk ct) 1\<rparr>"

definition enqueue_read :: "DramSpec \<Rightarrow> ImageView \<Rightarrow> nat list \<Rightarrow> Request \<Rightarrow> ControllerFront \<Rightarrow> bool \<times> ControllerFront" where
  "enqueue_read spec img order req ct =
     (if read_hits_buffered_write spec req order (cf_buffered_writes ct)
      then let (req, ct) = take_sequence req ct;
               req = bypass ct req;
               ct = ct\<lparr>cf_reads := u64_add (cf_reads ct) 1, cf_injected_requests := u64_add (cf_injected_requests ct) 1,
                       cf_read_forwards := u64_add (cf_read_forwards ct) 1\<rparr>;
               (actual, image_mask, corrected, uncorrectable) = iv_read img req (request_data_size spec req);
               (payload, initialized_mask) = read_forward_payload spec req order (cf_buffered_writes ct) actual image_mask;
               req = req\<lparr>rq_payload := payload, rq_response_ecc_corrected := corrected,
                         rq_response_ecc_uncorrectable := uncorrectable, rq_has_payload := True,
                         rq_byte_mask := initialized_mask, rq_has_byte_mask := True\<rparr>
           in (True, ct\<lparr>cf_pending := cf_pending ct @ [req]\<rparr>)
      else if \<not> has_space QRead (ct_queues ct) then (False, ct)
      else let (req, ct) = take_sequence req ct
           in (True, ct\<lparr>cf_reads := u64_add (cf_reads ct) 1, cf_injected_requests := u64_add (cf_injected_requests ct) 1,
                        ct_queues := queue_push QRead req (ct_queues ct)\<rparr>))"

definition enqueue_write :: "DramSpec \<Rightarrow> Request \<Rightarrow> ControllerFront \<Rightarrow> bool \<times> ControllerFront" where
  "enqueue_write spec req ct =
     (let req = ensure_write_payload spec req in
      if rq_address req \<in> cf_buffered_write_addrs ct
      then if has_unresolved_overlapping_read spec req 0 (ct_queues ct) (cf_pending ct) then (False, ct)
           else let (req, ct) = take_sequence req ct;
                    req = bypass ct req
                in (True, ct\<lparr>cf_buffered_writes := coalesce_write spec req (cf_buffered_writes ct),
                             cf_writes := u64_add (cf_writes ct) 1, cf_injected_requests := u64_add (cf_injected_requests ct) 1,
                             cf_write_coalesces := u64_add (cf_write_coalesces ct) 1,
                             cf_pending := cf_pending ct @ [req]\<rparr>)
      else if \<not> has_space QWrite (ct_queues ct) then (False, ct)
      else let (req, ct) = take_sequence req ct
           in (True, ct\<lparr>cf_writes := u64_add (cf_writes ct) 1, cf_injected_requests := u64_add (cf_injected_requests ct) 1,
                        cf_buffered_write_addrs := insert (rq_address req) (cf_buffered_write_addrs ct),
                        cf_buffered_writes := buffer_write req (cf_buffered_writes ct),
                        ct_queues := queue_push QWrite req (ct_queues ct)\<rparr>))"

definition enqueue_maintenance :: "Request \<Rightarrow> ControllerFront \<Rightarrow> bool \<times> ControllerFront" where
  "enqueue_maintenance req ct =
     (if \<not> has_space QPriority (ct_queues ct) then (False, ct)
      else let (req, ct) = take_sequence req ct
           in (True, ct\<lparr>cf_maintenance_requests := u64_add (cf_maintenance_requests ct) 1,
                        ct_queues := queue_push QPriority req (ct_queues ct)\<rparr>))"

definition enqueue :: "DramSpec \<Rightarrow> ImageView \<Rightarrow> nat list \<Rightarrow> Request \<Rightarrow> ControllerFront \<Rightarrow> (bool \<times> ControllerFront) res" where
  "enqueue spec img order req ct =
     rbind (check_request spec img req) (\<lambda>_.
       let req = req\<lparr>rq_arrival := ct_clk ct\<rparr>;
           ct = wake_for_request spec req ct
       in Inr (case rq_type req of ReqRead \<Rightarrow> enqueue_read spec img order req ct
               | ReqWrite \<Rightarrow> enqueue_write spec req ct
               | ReqMaintenance \<Rightarrow> enqueue_maintenance req ct))"

section \<open>Pending maintenance\<close>

fun move_maintenance :: "Request list \<Rightarrow> RequestQueues \<Rightarrow> Request list \<times> RequestQueues" where
  "move_maintenance [] q = ([], q)"
| "move_maintenance (r # rs) q =
     (if has_space QPriority q then move_maintenance rs (queue_push QPriority r q) else (r # rs, q))"

definition service_pending_maintenance :: "ControllerFront \<Rightarrow> ControllerFront" where
  "service_pending_maintenance ct =
     (let (rest, q) = move_maintenance (cf_pending_maintenance ct) (ct_queues ct)
      in ct\<lparr>cf_pending_maintenance := rest, ct_queues := q\<rparr>)"

end
