(* ===== verification/Scheduler.thy ===== *)
theory Scheduler
  imports Dram_Spec
begin

text \<open>
  The request scheduler of the DRAM controller (\<open>controller/scheduler.hpp\<close>,
  \<open>controller/scheduler.cpp\<close>). The loop over the candidates keeps the oldest eligible and the oldest
  ready candidate; FCFS and FR-FCFS pick from these two. The exception for an unsupported kind is
  unreachable because the enumeration has only these two values.
\<close>

record SchedulerCandidateView =
  request_index :: nat
  arrival :: nat
  cv_command :: Command
  eligible :: bool
  timing_ready :: bool

definition scan_candidate :: "SchedulerCandidateView
    \<Rightarrow> SchedulerCandidateView option \<times> SchedulerCandidateView option
    \<Rightarrow> SchedulerCandidateView option \<times> SchedulerCandidateView option" where
  "scan_candidate candidate acc = (case acc of (first_eligible, first_ready) \<Rightarrow>
     if \<not> eligible candidate then acc
     else (if (case first_eligible of None \<Rightarrow> True | Some b \<Rightarrow> arrival candidate < arrival b)
           then Some candidate else first_eligible,
           if timing_ready candidate \<and> (case first_ready of None \<Rightarrow> True | Some b \<Rightarrow> arrival candidate < arrival b)
           then Some candidate else first_ready))"

definition select_scheduled_request :: "SchedulerKind \<Rightarrow> SchedulerCandidateView list \<Rightarrow> SchedulerCandidateView option" where
  "select_scheduled_request kind candidates =
     (let (first_eligible, first_ready) = fold scan_candidate candidates (None, None)
      in if kind = FCFS
         then (case first_eligible of None \<Rightarrow> None | Some c \<Rightarrow> if timing_ready c then Some c else None)
         else first_ready)"

section \<open>The oldest candidate\<close>

definition oldest :: "(SchedulerCandidateView \<Rightarrow> bool) \<Rightarrow> SchedulerCandidateView list \<Rightarrow> SchedulerCandidateView option" where
  "oldest P cs = find (\<lambda>c. P c \<and> list_all (\<lambda>d. P d \<longrightarrow> arrival c \<le> arrival d) cs) cs"

lemma find_append: "find P (xs @ ys) = (case find P xs of None \<Rightarrow> find P ys | Some x \<Rightarrow> Some x)"
  by (induction xs) auto

lemma find_cong_set: "(\<And>x. x \<in> set xs \<Longrightarrow> P x = Q x) \<Longrightarrow> find P xs = find Q xs"
  by (induction xs) auto

lemma oldest_None: "oldest P cs = None \<longleftrightarrow> (\<forall>c \<in> set cs. \<not> P c)"
proof
  assume none: "oldest P cs = None"
  show "\<forall>c \<in> set cs. \<not> P c"
  proof (rule ccontr)
    assume "\<not> ?thesis"
    then have "{c \<in> set cs. P c} \<noteq> {}" by blast
    then obtain c where "c \<in> {c \<in> set cs. P c}" "\<forall>d \<in> {c \<in> set cs. P c}. arrival c \<le> arrival d"
      using ex_min_if_finite [of "arrival ` {c \<in> set cs. P c}"] by (auto simp: not_less)
    then show False
      using none by (auto simp: oldest_def find_None_iff list_all_iff)
  qed
qed (auto simp: oldest_def find_None_iff)

lemma oldest_snoc:
  "oldest P (cs @ [c]) =
     (if P c \<and> (case oldest P cs of None \<Rightarrow> True | Some b \<Rightarrow> arrival c < arrival b) then Some c else oldest P cs)"
proof (cases "P c")
  case False
  have "oldest P (cs @ [c]) = find (\<lambda>d. P d \<and> list_all (\<lambda>e. P e \<longrightarrow> arrival d \<le> arrival e) cs) cs"
    unfolding oldest_def find_append using False by (simp add: option.case_eq_if)
  then show ?thesis using False by (simp add: oldest_def)
next
  case P: True
  show ?thesis
  proof (cases "oldest P cs")
    case None
    then have "find (\<lambda>d. P d \<and> list_all (\<lambda>e. P e \<longrightarrow> arrival d \<le> arrival e) (cs @ [c])) cs = None"
      by (auto simp: oldest_None find_None_iff)
    moreover have "list_all (\<lambda>e. P e \<longrightarrow> arrival c \<le> arrival e) (cs @ [c])"
      using None by (auto simp: oldest_None list_all_iff)
    ultimately show ?thesis
      unfolding None using P by (simp add: oldest_def [of P "cs @ [c]"] find_append del: list_all_append)
  next
    case (Some b)
    then have b: "P b" "b \<in> set cs" "\<forall>d \<in> set cs. P d \<longrightarrow> arrival b \<le> arrival d"
      by (auto simp: oldest_def find_Some_iff list_all_iff)
    show ?thesis
    proof (cases "arrival c < arrival b")
      case True
      then have "find (\<lambda>d. P d \<and> list_all (\<lambda>e. P e \<longrightarrow> arrival d \<le> arrival e) (cs @ [c])) cs = None"
        using P b by (fastforce simp: find_None_iff)
      then show ?thesis
        using P Some True b by (fastforce simp: oldest_def [of P "cs @ [c]"] find_append list_all_iff)
    next
      case False
      have "find (\<lambda>d. P d \<and> list_all (\<lambda>e. P e \<longrightarrow> arrival d \<le> arrival e) (cs @ [c])) cs = oldest P cs"
        unfolding oldest_def using False b by (intro find_cong_set) (fastforce simp: list_all_iff)
      then show ?thesis
        using Some False by (simp add: oldest_def [of P "cs @ [c]"] find_append)
    qed
  qed
qed

lemma scan_oldest:
  "fold scan_candidate cs (None, None) = (oldest eligible cs, oldest (\<lambda>c. eligible c \<and> timing_ready c) cs)"
proof (induction cs rule: rev_induct)
  case Nil
  then show ?case by (simp add: oldest_def)
next
  case (snoc c cs)
  then show ?case by (simp add: scan_candidate_def oldest_snoc)
qed

section \<open>Properties\<close>

text \<open>
  C39: The scheduler's single pass picks what the policies promise: FR-FCFS the earliest in the queue of the
  oldest candidates that are eligible and ready, FCFS the oldest eligible candidate if that one is ready and
  nothing otherwise, so FCFS never overtakes.
\<close>

theorem scheduler_picks_oldest:
  "select_scheduled_request kind cs =
     (case kind of
        FRFCFS \<Rightarrow> oldest (\<lambda>c. eligible c \<and> timing_ready c) cs
      | FCFS \<Rightarrow> (case oldest eligible cs of None \<Rightarrow> None | Some c \<Rightarrow> if timing_ready c then Some c else None))"
  by (cases kind) (simp_all add: select_scheduled_request_def scan_oldest)

end
