(* ===== verification/Controller_Schedule.thy ===== *)
theory Controller_Schedule
  imports Controller_Enqueue Scheduler
begin

text \<open>
  The command selection of the DRAM controller (\<open>choose\<close> and the functions it calls, in
  \<open>controller/controller.cpp\<close>), up to the candidate a command bus issues.

  What the memory PHY answers is an argument (\<open>PhyView\<close>): whether it is the behavioural one, whether it
  has room for a command or for data, and the completion cycle of submitted data. The write watermarks
  are products of doubles, so the two comparisons with them are members of the options, as is the test
  of the training policy string (\<open>lpddr_requires_wck_retrain_after_dvfs\<close>). Left out are the effects on components with their own state that these functions only notify: the command trace, the
  memory image, the PHY, and the statistics other than those of \<open>ControllerFront\<close>.
\<close>

record Candidate =
  cd_index :: nat
  cd_buffer :: RequestQueueKind
  cd_command :: Command
  cd_bus :: BusClass

record PhyView =
  pv_behavioral :: bool
  pv_can_accept_command :: "Command \<Rightarrow> bool"
  pv_can_accept_data :: "Command \<Rightarrow> bool"
  pv_submit_data :: "Request \<Rightarrow> Command \<Rightarrow> nat \<Rightarrow> nat"
  pv_idle :: bool

record ControllerOptions =
  co_scheduler :: SchedulerKind
  co_above_high_watermark :: "nat \<Rightarrow> bool"
  co_below_low_watermark :: "nat \<Rightarrow> bool"
  co_wck_retrain_after_dvfs :: bool

abbreviation gate :: "ControllerFront \<Rightarrow> Controller" where
  "gate ct \<equiv> Controller.truncate ct"

section \<open>Eligibility\<close>

definition candidate_eligible :: "DramSpec \<Rightarrow> PhyView \<Rightarrow> Request \<Rightarrow> Command \<Rightarrow> BusClass \<Rightarrow> RequestQueueKind \<Rightarrow> bool
    \<Rightarrow> ControllerFront \<Rightarrow> bool res" where
  "candidate_eligible spec phy req cmd bus kind avoid_active_close ct =
     (if pv_behavioral phy \<and> rq_type req = ReqRead \<and> is_data_command cmd
         \<and> has_unresolved_overlapping_write spec req (cf_pending ct) then Inr False
      else if rq_type req = ReqWrite
         \<and> has_unresolved_overlapping_read spec req (rq_controller_sequence req) (ct_queues ct) (cf_pending ct) then Inr False
      else if \<not> bus_matches spec req cmd bus (gate ct) then Inr False
      else if avoid_active_close then rbind (would_close_active spec req cmd kind (gate ct)) (\<lambda>c. Inr (\<not> c))
      else Inr True)"

definition phy_admission_ok :: "PhyView \<Rightarrow> Command \<Rightarrow> bool" where
  "phy_admission_ok phy cmd =
     (if \<not> pv_can_accept_command phy cmd then False
      else if is_data_command cmd \<and> \<not> pv_can_accept_data phy cmd then False
      else True)"

section \<open>Selection from one buffer\<close>

fun candidate_views :: "DramSpec \<Rightarrow> PhyView \<Rightarrow> RequestQueueKind \<Rightarrow> BusClass \<Rightarrow> bool \<Rightarrow> ControllerFront
    \<Rightarrow> nat \<Rightarrow> Request list \<Rightarrow> SchedulerCandidateView list res" where
  "candidate_views spec phy kind bus avoid ct i [] = Inr []"
| "candidate_views spec phy kind bus avoid ct i (req # rest) =
     rbind (next_command_for spec req (gate ct)) (\<lambda>next_cmd.
       case next_cmd of
         None \<Rightarrow> candidate_views spec phy kind bus avoid ct (Suc i) rest
       | Some cmd \<Rightarrow>
           rbind (candidate_eligible spec phy req cmd bus kind avoid ct) (\<lambda>ok.
           rbind (if ok then timing_ok spec req cmd (gate ct) else Inr False) (\<lambda>ready.
           rbind (candidate_views spec phy kind bus avoid ct (Suc i) rest) (\<lambda>views.
             Inr (\<lparr>request_index = i, arrival = rq_arrival req, cv_command = cmd,
                   eligible = (if ready then phy_admission_ok phy cmd else ok), timing_ready = ready\<rparr> # views)))))"

definition pick_best_ready_from :: "DramSpec \<Rightarrow> ControllerOptions \<Rightarrow> PhyView \<Rightarrow> RequestQueueKind \<Rightarrow> BusClass \<Rightarrow> bool
    \<Rightarrow> ControllerFront \<Rightarrow> Candidate option res" where
  "pick_best_ready_from spec opts phy kind bus avoid ct =
     rbind (candidate_views spec phy kind bus avoid ct 0 (queue (ct_queues ct) kind)) (\<lambda>views.
       Inr (map_option (\<lambda>c. \<lparr>cd_index = request_index c, cd_buffer = kind, cd_command = cv_command c, cd_bus = bus\<rparr>)
              (select_scheduled_request (co_scheduler opts) views)))"

section \<open>Overdue second activates\<close>

text \<open>The loop keeps the best candidate with its deadline and its arrival.\<close>

fun urgent_scan :: "DramSpec \<Rightarrow> PhyView \<Rightarrow> BusClass \<Rightarrow> ControllerFront \<Rightarrow> nat \<Rightarrow> Request list
    \<Rightarrow> (Candidate \<times> nat \<times> nat) option \<Rightarrow> (Candidate \<times> nat \<times> nat) option res" where
  "urgent_scan spec phy bus ct i [] best = Inr best"
| "urgent_scan spec phy bus ct i (req # rest) best =
     rbind (next_command_for spec req (gate ct)) (\<lambda>next_cmd.
       if next_cmd \<noteq> Some ACT2 then urgent_scan spec phy bus ct (Suc i) rest best
       else rbind (at_bank (flat_bank spec (rq_decoded req)) (ct_banks (gate ct))) (\<lambda>b.
         if ct_clk ct > bs_act2_deadline b then Inl (RuntimeError ''LPDDR ACT2 missed nAADMax deadline'')
         else if ct_clk ct < bs_act2_deadline b then urgent_scan spec phy bus ct (Suc i) rest best
         else rbind (candidate_eligible spec phy req ACT2 bus QActive False ct) (\<lambda>ok.
              rbind (if ok then timing_ok spec req ACT2 (gate ct) else Inr False) (\<lambda>ready.
                urgent_scan spec phy bus ct (Suc i) rest
                  (if ready \<and> phy_admission_ok phy ACT2
                      \<and> (case best of None \<Rightarrow> True | Some (_, deadline, arrived) \<Rightarrow>
                           bs_act2_deadline b < deadline \<or> bs_act2_deadline b = deadline \<and> rq_arrival req < arrived)
                   then Some (\<lparr>cd_index = i, cd_buffer = QActive, cd_command = ACT2, cd_bus = bus\<rparr>,
                              bs_act2_deadline b, rq_arrival req)
                   else best)))))"

definition pick_urgent_act2 :: "DramSpec \<Rightarrow> PhyView \<Rightarrow> BusClass \<Rightarrow> ControllerFront \<Rightarrow> Candidate option res" where
  "pick_urgent_act2 spec phy bus ct =
     (if \<not> ds_split_activate spec \<or> bus \<noteq> UnifiedBus \<and> bus \<noteq> RowBus then Inr None
      else rbind (urgent_scan spec phy bus ct 0 (queue (ct_queues ct) QActive) None) (\<lambda>best. Inr (map_option fst best)))"

section \<open>Maintenance and ordinary requests\<close>

text \<open>Maintenance precharges at the head of the priority queue whose bank is closed already are dropped.\<close>

fun drop_satisfied :: "DramSpec \<Rightarrow> ControllerFront \<Rightarrow> Request list \<Rightarrow> RowPolicyEngine \<Rightarrow> (Request list \<times> RowPolicyEngine) res" where
  "drop_satisfied spec ct [] e = Inr ([], e)"
| "drop_satisfied spec ct (r # rest) e =
     rbind (at_bank (flat_bank spec (rq_decoded r)) (ct_banks (gate ct))) (\<lambda>b.
       if rq_next r \<noteq> PREPB \<or> bs_activating b \<or> bs_open_row b \<ge> 0 then Inr (r # rest, e)
       else drop_satisfied spec ct rest (rp_on_issue (ct_row_policy_kind ct) (flat_bank spec (rq_decoded r)) PREPB e))"

definition set_queue :: "RequestQueueKind \<Rightarrow> Request list \<Rightarrow> ControllerFront \<Rightarrow> ControllerFront" where
  "set_queue kind rs ct = ct\<lparr>ct_queues := (ct_queues ct)\<lparr>queue := (queue (ct_queues ct))(kind := rs)\<rparr>\<rparr>"

definition pick_priority_if :: "DramSpec \<Rightarrow> PhyView \<Rightarrow> BusClass \<Rightarrow> ControllerFront \<Rightarrow> (Candidate option \<times> ControllerFront) res" where
  "pick_priority_if spec phy bus ct =
     rbind (drop_satisfied spec ct (queue (ct_queues ct) QPriority) (cf_row_policy ct)) (\<lambda>(rs, e).
       let ct = (set_queue QPriority rs ct)\<lparr>cf_row_policy := e\<rparr> in
       case rs of
         [] \<Rightarrow> Inr (None, ct)
       | req # _ \<Rightarrow>
           rbind (next_command_for spec req (gate ct)) (\<lambda>next_cmd.
             case next_cmd of
               None \<Rightarrow> Inr (None, ct)
             | Some cmd \<Rightarrow>
                 rbind (candidate_eligible spec phy req cmd bus QPriority True ct) (\<lambda>ok.
                 rbind (if ok then timing_ok spec req cmd (gate ct) else Inr False) (\<lambda>ready.
                   Inr (if ready \<and> phy_admission_ok phy cmd
                        then Some \<lparr>cd_index = 0, cd_buffer = QPriority, cd_command = cmd, cd_bus = bus\<rparr> else None, ct)))))"

definition set_write_mode :: "ControllerOptions \<Rightarrow> ControllerFront \<Rightarrow> ControllerFront" where
  "set_write_mode opts ct =
     (let writes = length (queue (ct_queues ct) QWrite); no_reads = (queue (ct_queues ct) QRead = []) in
      if \<not> cf_write_mode ct
      then (if co_above_high_watermark opts writes \<or> no_reads then ct\<lparr>cf_write_mode := True\<rparr> else ct)
      else (if co_below_low_watermark opts writes \<and> \<not> no_reads then ct\<lparr>cf_write_mode := False\<rparr> else ct))"

definition pick_rw_if :: "DramSpec \<Rightarrow> ControllerOptions \<Rightarrow> PhyView \<Rightarrow> BusClass \<Rightarrow> ControllerFront
    \<Rightarrow> (Candidate option \<times> ControllerFront) res" where
  "pick_rw_if spec opts phy bus ct =
     (let ct = set_write_mode opts ct in
      if cf_write_mode ct
      then rbind (pick_best_ready_from spec opts phy QWrite bus True ct) (\<lambda>w.
             case w of
               Some c \<Rightarrow> Inr (Some c, ct)
             | None \<Rightarrow>
                 if list_ex (\<lambda>req. has_unresolved_overlapping_read spec req (rq_controller_sequence req) (ct_queues ct) (cf_pending ct))
                      (queue (ct_queues ct) QWrite)
                 then rbind (pick_best_ready_from spec opts phy QRead bus True ct) (\<lambda>r. Inr (r, ct))
                 else Inr (None, ct))
      else rbind (pick_best_ready_from spec opts phy QRead bus True ct) (\<lambda>r. Inr (r, ct)))"

definition choose_command :: "DramSpec \<Rightarrow> ControllerOptions \<Rightarrow> PhyView \<Rightarrow> BusClass \<Rightarrow> ControllerFront
    \<Rightarrow> (Candidate option \<times> ControllerFront) res" where
  "choose_command spec opts phy bus ct =
     rbind (pick_urgent_act2 spec phy bus ct) (\<lambda>urgent.
     rbind (if urgent = None \<and> (bus = ColumnBus \<or> bus = UnifiedBus)
            then pick_best_ready_from spec opts phy QActive bus False ct else Inr urgent) (\<lambda>active.
     rbind (if active = None then pick_priority_if spec phy bus ct else Inr (active, ct)) (\<lambda>(cand, ct).
       if cand = None \<and> queue (ct_queues ct) QPriority = [] then pick_rw_if spec opts phy bus ct
       else Inr (cand, ct))))"

end
