(* ===== verification/Controller_Issue.thy ===== *)
theory Controller_Issue
  imports Controller_Schedule
begin

text \<open>
  What the DRAM controller does with a selected command (\<open>issue\<close>, \<open>retire_or_advance\<close> of
  \<open>controller/controller.cpp\<close>), and the work around it in a cycle: the refresh manager, the pending
  maintenance requests, the row policy, and the order in which a tick serves the command buses.

  \<open>retire_or_advance\<close> also returns the request of an issued data command, as it is handed to the memory
  image (direct path) or to the PHY (behavioural path).
\<close>

section \<open>Row policy\<close>

definition try_upgrade_row_policy_command :: "DramSpec \<Rightarrow> Candidate \<Rightarrow> ControllerFront \<Rightarrow> Candidate res" where
  "try_upgrade_row_policy_command spec cand ct =
     (if ct_row_policy_kind ct \<noteq> ClosedCap then Inr cand
      else if cd_command cand \<noteq> RD \<and> cd_command cand \<noteq> WR then Inr cand
      else let buffer = queue (ct_queues ct) (cd_buffer cand) in
        if cd_index cand \<ge> length buffer \<or> is_maintenance_request (buffer ! cd_index cand) then Inr cand
        else let req = buffer ! cd_index cand; b = flat_bank spec (rq_decoded req) in
          if \<not> should_auto_precharge (ct_row_policy_kind ct) b (cf_row_policy ct) then Inr cand
          else let upgraded = (if cd_command cand = RD then RDA else WRA) in
            if \<not> bus_matches spec req upgraded (cd_bus cand) (gate ct) then Inr cand
            else rbind (timing_ok spec req upgraded (gate ct)) (\<lambda>ok.
                   Inr (if ok then cand\<lparr>cd_command := upgraded\<rparr> else cand)))"

definition row_policy_precharge :: "DramSpec \<Rightarrow> nat \<Rightarrow> ControllerFront \<Rightarrow> ControllerFront res" where
  "row_policy_precharge spec b ct =
     rbind (if b < length (active_counts (ct_queues ct)) then Inr (active_counts (ct_queues ct) ! b)
            else Inl (Undefined ''index out of bounds'')) (\<lambda>active.
       if \<not> should_schedule_precharge (ct_row_policy_kind ct) (int b) active (cf_row_policy ct) then Inr ct
       else let req = maintenance_request (cf_next_maintenance_id ct) (ct_clk ct) PREPB (decoded_from_flat_bank spec (int b));
                ct = ct\<lparr>cf_next_maintenance_id := u64_add (cf_next_maintenance_id ct) 1\<rparr>
            in rbind (timing_ok spec req PREPB (gate ct)) (\<lambda>ok.
                 Inr (if \<not> ok \<or> \<not> has_space QPriority (ct_queues ct) then ct
                      else ct\<lparr>ct_queues := queue_push QPriority req (ct_queues ct),
                              cf_row_policy := mark_precharge_pending (int b) (cf_row_policy ct),
                              cf_maintenance_requests := u64_add (cf_maintenance_requests ct) 1\<rparr>)))"

definition apply_row_policy_pre_schedule :: "DramSpec \<Rightarrow> ControllerFront \<Rightarrow> ControllerFront res" where
  "apply_row_policy_pre_schedule spec ct =
     (if ct_row_policy_kind ct \<noteq> ClosedCap then Inr ct
      else rfold (row_policy_precharge spec) [0..<length (column_accesses (cf_row_policy ct))] ct)"

section \<open>Refresh\<close>

definition schedule_refresh :: "FloatChecks \<Rightarrow> DramSpec \<Rightarrow> ControllerFront \<Rightarrow> ControllerFront res option" where
  "schedule_refresh fc spec ct =
     (let q = queue (ct_queues ct);
          ordinary_work = (q QActive \<noteq> [] \<or> q QRead \<noteq> [] \<or> q QWrite \<noteq> []);
          allow_pull_in = (\<not> ordinary_work \<and> q QPriority = [] \<and> cf_pending_maintenance ct = [] \<and> cf_pending ct = [])
      in map_option (\<lambda>r. rbind r (\<lambda>(m, result).
             Inr (fold (\<lambda>c. schedule_maintenance (mc_command c) (mc_decoded c)) (commands result) (ct\<lparr>cf_refresh := m\<rparr>))))
           (refresh_tick fc spec (ct_clk ct) ordinary_work allow_pull_in (cf_refresh ct)))"

section \<open>Retiring\<close>

definition commit_write_data :: "DramSpec \<Rightarrow> Request \<Rightarrow> Request" where
  "commit_write_data spec req = (ensure_write_payload spec req)\<lparr>rq_data_committed := True\<rparr>"

text \<open>An issued write takes the merged data of its buffered entry along.\<close>

definition take_buffered :: "Request \<Rightarrow> write_map \<Rightarrow> Request" where
  "take_buffered req m =
     (case m (rq_address req) of
        None \<Rightarrow> req
      | Some st \<Rightarrow> let w = bw_request st in
          req\<lparr>rq_payload := rq_payload w, rq_expected_payload := rq_expected_payload w, rq_byte_mask := rq_byte_mask w,
              rq_has_payload := rq_has_payload w, rq_has_expected_payload := rq_has_expected_payload w,
              rq_has_byte_mask := rq_has_byte_mask w\<rparr>)"

definition data_completion :: "DramSpec \<Rightarrow> PhyView \<Rightarrow> Request \<Rightarrow> Command \<Rightarrow> nat \<Rightarrow> nat" where
  "data_completion spec phy req issued clk =
     (let t = ds_timing spec;
          done_at = (if pv_behavioral phy then pv_submit_data phy req issued clk
                     else if issued = RD \<or> issued = RDA then after spec clk (nCL t + nBL t) else u64_add clk 1)
      in if issued = RDA then max done_at (after spec clk (max 0 (nRTP t)))
         else if issued = WRA then max done_at (after spec clk (nCWL t + nBL t + nWR t))
         else done_at)"

definition retire_or_advance :: "DramSpec \<Rightarrow> PhyView \<Rightarrow> Candidate \<Rightarrow> Command \<Rightarrow> ControllerFront
    \<Rightarrow> (Request option \<times> ControllerFront) res" where
  "retire_or_advance spec phy cand issued ct =
     (let buffer = queue (ct_queues ct) (cd_buffer cand) in
      if cd_index cand \<ge> length buffer then Inr (None, ct)
      else let req = buffer ! cd_index cand in
        if is_terminal_maintenance req issued
        then rbind (queue_erase spec (cd_buffer cand) (cd_index cand) (ct_queues ct)) (\<lambda>q. Inr (None, ct\<lparr>ct_queues := q\<rparr>))
        else if is_opening_command issued \<and> \<not> is_maintenance_request req \<and> cd_buffer cand \<noteq> QActive
        then rbind (queue_promote spec (cd_buffer cand) (cd_index cand) (ct_queues ct)) (\<lambda>(_, q). Inr (None, ct\<lparr>ct_queues := q\<rparr>))
        else if \<not> is_data_command issued then Inr (None, ct)
        else
          let done_req = req\<lparr>rq_issued_data_command := issued, rq_issued_cycle := ct_clk ct\<rparr>;
              (done_req, ct) =
                (if rq_type done_req = ReqWrite
                 then let w = take_buffered done_req (cf_buffered_writes ct);
                          w = (if pv_behavioral phy then w else commit_write_data spec w)
                      in (w, ct\<lparr>cf_buffered_writes := (cf_buffered_writes ct)(rq_address w := None),
                               cf_buffered_write_addrs := cf_buffered_write_addrs ct - {rq_address w}\<rparr>)
                 else (done_req, ct));
              done_req = done_req\<lparr>rq_completion := data_completion spec phy done_req issued (ct_clk ct)\<rparr>;
              ct = ct\<lparr>cf_pending := cf_pending ct @ [done_req]\<rparr>
          in rbind (queue_erase spec (cd_buffer cand) (cd_index cand) (ct_queues ct)) (\<lambda>q.
               Inr (Some done_req, ct\<lparr>ct_queues := q\<rparr>)))"

section \<open>Issuing\<close>

definition low_power_command :: "Command \<Rightarrow> ControllerFront \<Rightarrow> ControllerFront" where
  "low_power_command issued ct =
     (if issued = PDE then ct\<lparr>ct_explicit_power_down_active := True, ct_low_power_active := True\<rparr>
      else if issued = PDX
      then ct\<lparr>ct_explicit_power_down_active := False,
              cf_explicit_exit_pending := (if cf_explicit_exit_pending ct = Some PDX then None else cf_explicit_exit_pending ct),
              ct_low_power_active := ct_explicit_self_refresh_active ct,
              cf_low_power_exits := u64_add (cf_low_power_exits ct) 1\<rparr>
      else if issued = SREFEN then ct\<lparr>ct_explicit_self_refresh_active := True, ct_low_power_active := True\<rparr>
      else if issued = SREFEX
      then ct\<lparr>ct_explicit_self_refresh_active := False,
              cf_explicit_exit_pending := (if cf_explicit_exit_pending ct = Some SREFEX then None else cf_explicit_exit_pending ct),
              ct_low_power_active := ct_explicit_power_down_active ct,
              cf_low_power_exits := u64_add (cf_low_power_exits ct) 1\<rparr>
      else ct)"

definition wck_training_command :: "ControllerOptions \<Rightarrow> Command \<Rightarrow> ControllerFront \<Rightarrow> ControllerFront" where
  "wck_training_command opts issued ct =
     (if issued = DVFS \<and> co_wck_retrain_after_dvfs opts then ct\<lparr>ct_wck_retrain_required := True\<rparr>
      else if issued = WCKTRAIN then ct\<lparr>ct_wck_retrain_required := False\<rparr> else ct)"

definition classify_row_status :: "Request \<Rightarrow> Request" where
  "classify_row_status req =
     (if rq_row_status_counted req \<or> is_maintenance_request req then req else req\<lparr>rq_row_status_counted := True\<rparr>)"

definition issue_command :: "DramSpec \<Rightarrow> ControllerOptions \<Rightarrow> PhyView \<Rightarrow> Candidate \<Rightarrow> ControllerFront \<Rightarrow> (Request option \<times> ControllerFront) res" where
  "issue_command spec opts phy cand ct =
     (let kind = cd_buffer cand; i = cd_index cand; buffer = queue (ct_queues ct) kind; issued = cd_command cand in
      if i \<ge> length buffer then Inr (None, ct)
      else rbind (executor_issue spec (classify_row_status (buffer ! i)) issued (ct_clk ct) (ct_exec ct)) (\<lambda>(rfm, req, ex).
        let ct = (set_queue kind (buffer[i := req]) ct)\<lparr>ct_exec := ex\<rparr>;
            ct = (case rfm of None \<Rightarrow> ct | Some c \<Rightarrow> schedule_maintenance (rm_command c) (rm_decoded c) ct);
            ct = low_power_command issued (wck_training_command opts issued ct);
            ct = ct\<lparr>cf_row_policy := rp_on_issue (ct_row_policy_kind ct) (flat_bank spec (rq_decoded req)) issued (cf_row_policy ct)\<rparr>;
            ct = (if ds_hbm_edge_pairing spec \<and> cd_bus cand = RowBus \<and> is_rising_edge (gate ct)
                  then ct\<lparr>ct_rising_edge := ct_rising_edge (record_rising_row_command spec req issued (gate ct))\<rparr> else ct)
        in retire_or_advance spec phy cand issued ct))"

section \<open>A cycle\<close>

definition serve_bus :: "DramSpec \<Rightarrow> ControllerOptions \<Rightarrow> PhyView \<Rightarrow> BusClass \<Rightarrow> ControllerFront
    \<Rightarrow> ((Candidate \<times> Request option) option \<times> ControllerFront) res" where
  "serve_bus spec opts phy bus ct =
     rbind (choose_command spec opts phy bus ct) (\<lambda>(cand, ct).
       case cand of
         None \<Rightarrow> Inr (None, ct)
       | Some c \<Rightarrow> rbind (try_upgrade_row_policy_command spec c ct) (\<lambda>c.
           rbind (issue_command spec opts phy c ct) (\<lambda>(data, ct). Inr (Some (c, data), ct))))"

definition serve_buses :: "DramSpec \<Rightarrow> ControllerOptions \<Rightarrow> PhyView \<Rightarrow> ControllerFront \<Rightarrow> ControllerFront res" where
  "serve_buses spec opts phy ct =
     (if ds_dual_command_bus spec
      then rbind (if \<not> ds_hbm_edge_pairing spec \<or> is_rising_edge (gate ct) then serve_bus spec opts phy ColumnBus ct else Inr (None, ct)) (\<lambda>(_, ct).
           rbind (serve_bus spec opts phy RowBus ct) (\<lambda>(_, ct). Inr ct))
      else rbind (serve_bus spec opts phy UnifiedBus ct) (\<lambda>(_, ct). Inr ct))"

text \<open>
  The idle policy at the end of \<open>tick\<close>; the subtraction of cycles is the wrapping one of 64-bit numbers.
  \<open>pv_idle\<close> is the PHY's \<open>idle\<close> at that time, after the commands of the cycle. The statistic \<open>low_power_entries\<close> is left out.
\<close>

definition controller_done :: "PhyView \<Rightarrow> ControllerFront \<Rightarrow> bool" where
  "controller_done phy ct \<longleftrightarrow> queue (ct_queues ct) QActive = [] \<and> queue (ct_queues ct) QPriority = []
     \<and> queue (ct_queues ct) QRead = [] \<and> queue (ct_queues ct) QWrite = []
     \<and> cf_pending_maintenance ct = [] \<and> cf_pending ct = [] \<and> pv_idle phy"

definition idle_low_power :: "DramSpec \<Rightarrow> PhyView \<Rightarrow> ControllerFront \<Rightarrow> ControllerFront" where
  "idle_low_power spec phy ct =
     (if ds_low_power_mode spec = LowPowerOff then ct
      else if \<not> controller_done phy ct then ct\<lparr>cf_low_power_idle_since := 0\<rparr>
      else let ct = (if cf_low_power_idle_since ct = 0 then ct\<lparr>cf_low_power_idle_since := ct_clk ct\<rparr> else ct) in
        if \<not> ct_low_power_active ct
           \<and> u64_add (ct_clk ct) (2 ^ 64 - cf_low_power_idle_since ct) \<ge> timing_delay spec (max 0 (ds_low_power_entry_cycles spec))
        then ct\<lparr>ct_low_power_active := True\<rparr> else ct)"

text \<open>The part of \<open>tick\<close> after the completions.\<close>

definition command_phase :: "FloatChecks \<Rightarrow> DramSpec \<Rightarrow> ControllerOptions \<Rightarrow> PhyView \<Rightarrow> ControllerFront \<Rightarrow> ControllerFront res option" where
  "command_phase fc spec opts phy ct =
     (if cf_low_power_exit_until ct > ct_clk ct then Some (Inr ct)
      else let ct = ct\<lparr>ct_exec := (ct_exec ct)\<lparr>ex_timing := prune_recent_acts spec (ct_clk ct) (ex_timing (ct_exec ct))\<rparr>\<rparr> in
        map_option (\<lambda>r. rbind r (\<lambda>ct.
            rbind (apply_row_policy_pre_schedule spec (service_pending_maintenance ct)) (\<lambda>ct.
            rbind (serve_buses spec opts phy ct) (\<lambda>ct. Inr (idle_low_power spec phy ct)))))
          (schedule_refresh fc spec ct))"

end
