(* ===== verification/Controller_Choice.thy ===== *)
theory Controller_Choice
  imports Controller_Issue
begin

text \<open>
  What \<open>choose\<close> promises of the candidate it returns, whichever of its four stages found it: the
  request is in the queue it names, the command is the next one of that request, it passes every gate in
  the state in which it will be issued, and its class respects the priorities of the queues.
\<close>

definition selectable :: "DramSpec \<Rightarrow> PhyView \<Rightarrow> Candidate \<Rightarrow> bool \<Rightarrow> ControllerFront \<Rightarrow> bool" where
  "selectable spec phy c avoid ct \<longleftrightarrow> cd_index c < length (queue (ct_queues ct) (cd_buffer c))
     \<and> (let req = queue (ct_queues ct) (cd_buffer c) ! cd_index c in
          next_command_for spec req (gate ct) = Inr (Some (cd_command c))
        \<and> candidate_eligible spec phy req (cd_command c) (cd_bus c) (cd_buffer c) avoid ct = Inr True
        \<and> timing_ok spec req (cd_command c) (gate ct) = Inr True
        \<and> phy_admission_ok phy (cd_command c))"

section \<open>One buffer\<close>

lemma candidate_views_sound:
  assumes "candidate_views spec phy kind bus avoid ct i rs = Inr vs" and "v \<in> set vs" and "eligible v" and "timing_ready v"
  shows "\<exists>j < length rs. request_index v = i + j \<and> next_command_for spec (rs ! j) (gate ct) = Inr (Some (cv_command v))
    \<and> candidate_eligible spec phy (rs ! j) (cv_command v) bus kind avoid ct = Inr True
    \<and> timing_ok spec (rs ! j) (cv_command v) (gate ct) = Inr True \<and> phy_admission_ok phy (cv_command v)"
  using assms(1,2)
proof (induction rs arbitrary: i vs)
  case (Cons r rs)
  from Cons.prems(1) obtain nc where nc: "next_command_for spec r (gate ct) = Inr nc"
    by (auto simp: rbind_eq_Inr)
  have later: ?case if "candidate_views spec phy kind bus avoid ct (Suc i) rs = Inr ws" "v \<in> set ws" for ws
  proof -
    from Cons.IH [OF that] obtain j where "j < length rs" "request_index v = Suc i + j"
        "next_command_for spec (rs ! j) (gate ct) = Inr (Some (cv_command v))
          \<and> candidate_eligible spec phy (rs ! j) (cv_command v) bus kind avoid ct = Inr True
          \<and> timing_ok spec (rs ! j) (cv_command v) (gate ct) = Inr True \<and> phy_admission_ok phy (cv_command v)"
      by (elim exE conjE) (rule that, simp_all)
    then show ?thesis by (intro exI [of _ "Suc j"]) simp
  qed
  show ?case
  proof (cases nc)
    case None
    then show ?thesis using Cons.prems nc later by simp
  next
    case (Some cmd)
    obtain ok ready ws where *: "candidate_eligible spec phy r cmd bus kind avoid ct = Inr ok"
        "(if ok then timing_ok spec r cmd (gate ct) else Inr False) = Inr ready"
        "candidate_views spec phy kind bus avoid ct (Suc i) rs = Inr ws"
        "vs = \<lparr>request_index = i, arrival = rq_arrival r, cv_command = cmd,
               eligible = (if ready then phy_admission_ok phy cmd else ok), timing_ready = ready\<rparr> # ws"
      using Cons.prems(1) nc Some by (auto simp: rbind_eq_Inr)
    show ?thesis
    proof (cases "v \<in> set ws")
      case True
      then show ?thesis using later *(3) by blast
    next
      case False
      then have v: "v = \<lparr>request_index = i, arrival = rq_arrival r, cv_command = cmd,
               eligible = (if ready then phy_admission_ok phy cmd else ok), timing_ready = ready\<rparr>"
        using Cons.prems(2) *(4) by simp
      then have "ready" using assms(4) by simp
      moreover have "phy_admission_ok phy cmd" using v assms(3) \<open>ready\<close> by simp
      moreover have "ok" using *(2) \<open>ready\<close> by (cases ok) simp_all
      ultimately show ?thesis using v nc Some * by (intro exI [of _ 0]) simp
    qed
  qed
qed simp

lemma oldest_member: "oldest P cs = Some c \<Longrightarrow> c \<in> set cs \<and> P c"
  by (auto simp: oldest_def find_Some_iff)

lemma selected_ready:
  assumes "select_scheduled_request kind cs = Some c"
  shows "c \<in> set cs" "eligible c" "timing_ready c"
  using assms oldest_member [of eligible cs c] oldest_member [of "\<lambda>c. eligible c \<and> timing_ready c" cs c]
  by (auto simp: select_scheduled_request_def scan_oldest split: if_splits option.splits dest!: oldest_member)

lemma pick_best_selectable:
  assumes "pick_best_ready_from spec opts phy kind bus avoid ct = Inr (Some c)"
  shows "selectable spec phy c avoid ct \<and> cd_buffer c = kind \<and> cd_bus c = bus"
proof -
  obtain vs v where vs: "candidate_views spec phy kind bus avoid ct 0 (queue (ct_queues ct) kind) = Inr vs"
      "select_scheduled_request (co_scheduler opts) vs = Some v"
      "c = \<lparr>cd_index = request_index v, cd_buffer = kind, cd_command = cv_command v, cd_bus = bus\<rparr>"
    using assms by (auto simp: pick_best_ready_from_def rbind_eq_Inr)
  from candidate_views_sound [OF vs(1) selected_ready [OF vs(2)]] show ?thesis
    unfolding selectable_def Let_def vs(3) by auto
qed

section \<open>Overdue activates\<close>

definition urgent_ok :: "DramSpec \<Rightarrow> PhyView \<Rightarrow> BusClass \<Rightarrow> ControllerFront \<Rightarrow> (Candidate \<times> nat \<times> nat) option \<Rightarrow> bool" where
  "urgent_ok spec phy bus ct best = (case best of None \<Rightarrow> True
     | Some (c, _) \<Rightarrow> selectable spec phy c False ct \<and> cd_buffer c = QActive \<and> cd_bus c = bus \<and> cd_command c = ACT2)"

lemma urgent_scan_selectable:
  assumes "urgent_scan spec phy bus ct i rs best = Inr best'" and "urgent_ok spec phy bus ct best"
    and "\<And>j. j < length rs \<Longrightarrow> i + j < length (queue (ct_queues ct) QActive) \<and> queue (ct_queues ct) QActive ! (i + j) = rs ! j"
  shows "urgent_ok spec phy bus ct best'"
  using assms
proof (induction rs arbitrary: i best)
  case (Cons r rs)
  have rest: "Suc i + j < length (queue (ct_queues ct) QActive) \<and> queue (ct_queues ct) QActive ! (Suc i + j) = rs ! j"
    if "j < length rs" for j
    using Cons.prems(3) [of "Suc j"] that by simp
  have here: "i < length (queue (ct_queues ct) QActive)" "queue (ct_queues ct) QActive ! i = r" using Cons.prems(3) [of 0] by simp_all
  obtain nc where nc: "next_command_for spec r (gate ct) = Inr nc" using Cons.prems(1) by (auto simp: rbind_eq_Inr)
  show ?case
  proof (cases "nc = Some ACT2")
    case False
    then show ?thesis using Cons.IH [OF _ Cons.prems(2) rest] Cons.prems(1) nc by simp
  next
    case True
    obtain b where b: "at_bank (flat_bank spec (rq_decoded r)) (ct_banks (gate ct)) = Inr b" "\<not> ct_clk ct > bs_act2_deadline b"
      using Cons.prems(1) nc True by (auto simp: rbind_eq_Inr split: if_splits)
    show ?thesis
    proof (cases "ct_clk ct < bs_act2_deadline b")
      case True
      then show ?thesis using Cons.IH [OF _ Cons.prems(2) rest] Cons.prems(1) nc \<open>nc = Some ACT2\<close> b by simp
    next
      case False
      let ?c = "\<lparr>cd_index = i, cd_buffer = QActive, cd_command = ACT2, cd_bus = bus\<rparr>"
      obtain ok ready x where *: "candidate_eligible spec phy r ACT2 bus QActive False ct = Inr ok"
          "(if ok then timing_ok spec r ACT2 (gate ct) else Inr False) = Inr ready"
          "urgent_scan spec phy bus ct (Suc i) rs x = Inr best'"
          "x = best \<or> ready \<and> phy_admission_ok phy ACT2 \<and> x = Some (?c, bs_act2_deadline b, rq_arrival r)"
        using Cons.prems(1) nc True b False by (auto simp: rbind_eq_Inr split: if_splits)
      have "urgent_ok spec phy bus ct (Some (?c, bs_act2_deadline b, rq_arrival r))" if "ready" "phy_admission_ok phy ACT2"
        using that *(1,2) here nc True by (cases ok) (simp_all add: urgent_ok_def selectable_def)
      then have "urgent_ok spec phy bus ct x" using *(4) Cons.prems(2) by blast
      then show ?thesis by (rule Cons.IH [OF *(3) _ rest])
    qed
  qed
qed simp

lemma pick_urgent_selectable:
  assumes "pick_urgent_act2 spec phy bus ct = Inr (Some c)"
  shows "selectable spec phy c False ct \<and> cd_buffer c = QActive \<and> cd_bus c = bus"
proof -
  obtain best where b: "urgent_scan spec phy bus ct 0 (queue (ct_queues ct) QActive) None = Inr best" "Some c = map_option fst best"
    using assms by (auto simp: pick_urgent_act2_def rbind_eq_Inr split: if_splits)
  have "urgent_ok spec phy bus ct best" by (rule urgent_scan_selectable [OF b(1)]) (simp_all add: urgent_ok_def)
  then show ?thesis using b(2) by (cases best) (auto simp: urgent_ok_def)
qed

section \<open>Maintenance and ordinary requests\<close>

lemma pick_priority_selectable:
  assumes "pick_priority_if spec phy bus ct = Inr (Some c, ct')"
  shows "selectable spec phy c True ct' \<and> cd_buffer c = QPriority \<and> cd_bus c = bus"
proof -
  obtain rs e where rs: "drop_satisfied spec ct (queue (ct_queues ct) QPriority) (cf_row_policy ct) = Inr (rs, e)"
    using assms by (auto simp: pick_priority_if_def rbind_eq_Inr)
  define ct1 where "ct1 = (set_queue QPriority rs ct)\<lparr>cf_row_policy := e\<rparr>"
  note run = assms [unfolded pick_priority_if_def rs rbind_Inr prod.case Let_def, folded ct1_def]
  obtain req rest where req: "rs = req # rest" using run by (cases rs) simp_all
  obtain cmd where cmd: "next_command_for spec req (gate ct1) = Inr (Some cmd)"
    using run req by (auto simp: rbind_eq_Inr split: option.splits)
  obtain ok ready where *: "candidate_eligible spec phy req cmd bus QPriority True ct1 = Inr ok"
      "(if ok then timing_ok spec req cmd (gate ct1) else Inr False) = Inr ready"
      "ready \<and> phy_admission_ok phy cmd" "c = \<lparr>cd_index = 0, cd_buffer = QPriority, cd_command = cmd, cd_bus = bus\<rparr>" "ct' = ct1"
  proof -
    have "rbind (candidate_eligible spec phy req cmd bus QPriority True ct1) (\<lambda>ok.
        rbind (if ok then timing_ok spec req cmd (gate ct1) else Inr False) (\<lambda>ready.
          Inr (if ready \<and> phy_admission_ok phy cmd
            then Some \<lparr>cd_index = 0, cd_buffer = QPriority, cd_command = cmd, cd_bus = bus\<rparr> else None, ct1))) = Inr (Some c, ct')"
      using run unfolding req by (simp only: list.case cmd rbind_Inr option.case)
    then show ?thesis by (elim rbind_eq_Inr [THEN iffD1, elim_format] exE conjE) (rule that, simp_all split: if_splits)
  qed
  have "queue (ct_queues ct1) QPriority = rs" by (simp add: ct1_def set_queue_def)
  then show ?thesis using * req cmd by (cases ok) (simp_all add: selectable_def)
qed

lemma pick_rw_selectable:
  assumes "pick_rw_if spec opts phy bus ct = Inr (Some c, ct')"
  shows "selectable spec phy c True ct' \<and> cd_buffer c \<in> {QRead, QWrite} \<and> cd_bus c = bus \<and> ct' = set_write_mode opts ct"
  using assms pick_best_selectable [of spec opts phy _ bus True "set_write_mode opts ct" c]
  by (auto simp: pick_rw_if_def Let_def rbind_eq_Inr split: if_splits option.splits)

lemma set_write_mode_queues [simp]: "ct_queues (set_write_mode opts ct) = ct_queues ct"
  by (simp add: set_write_mode_def Let_def)

lemma choose_selectable:
  assumes "choose_command spec opts phy bus ct = Inr (Some c, ct')"
  shows "selectable spec phy c (cd_buffer c \<noteq> QActive) ct' \<and> cd_bus c = bus
    \<and> (cd_buffer c \<in> {QRead, QWrite} \<longrightarrow> queue (ct_queues ct') QPriority = [])"
proof -
  obtain u a x ct1 where s: "pick_urgent_act2 spec phy bus ct = Inr u"
      "(if u = None \<and> (bus = ColumnBus \<or> bus = UnifiedBus) then pick_best_ready_from spec opts phy QActive bus False ct else Inr u) = Inr a"
      "(if a = None then pick_priority_if spec phy bus ct else Inr (a, ct)) = Inr (x, ct1)"
      "(if x = None \<and> queue (ct_queues ct1) QPriority = [] then pick_rw_if spec opts phy bus ct1 else Inr (x, ct1)) = Inr (Some c, ct')"
    using assms by (auto simp: choose_command_def rbind_eq_Inr)
  show ?thesis
  proof (cases "x = None")
    case True
    then have "pick_rw_if spec opts phy bus ct1 = Inr (Some c, ct')" "queue (ct_queues ct1) QPriority = []"
      using s(4) by (auto split: if_splits)
    then show ?thesis using pick_rw_selectable by fastforce
  next
    case False
    then have x: "x = Some c" "ct' = ct1" using s(4) by auto
    show ?thesis
    proof (cases "a = None")
      case True
      then show ?thesis using s(3) x pick_priority_selectable [of spec phy bus ct c ct'] by auto
    next
      case False
      then have "a = Some c" "ct1 = ct" using s(3) x by auto
      then show ?thesis
        using s(1,2) x pick_urgent_selectable [of spec phy bus ct c] pick_best_selectable [of spec opts phy QActive bus False ct c]
        by (auto split: if_splits)
    qed
  qed
qed

end
