(* ===== verification/Executor_Correct.thy ===== *)
theory Executor_Correct
  imports Controller_Gate
begin

text \<open>
  What the command executor does to the banks, when the controller lets a command through. The
  switch of \<open>CommandExecutor::issue\<close> is read bank by bank (\<open>bank_after\<close>), the gates of
  \<open>Controller::timing_ok\<close> likewise (\<open>bank_allows\<close>); a locale states once what it takes for a
  bank-local gate to enforce a minimum distance, and is interpreted for every gate of the code.
\<close>

section \<open>Banks by coordinate\<close>

definition bank_of :: "DramSpec \<Rightarrow> ExecState \<Rightarrow> DecodedAddress \<Rightarrow> BankState" where
  "bank_of spec s e = ex_banks s ! nat (flat_bank spec e)"

definition exec_wf :: "DramSpec \<Rightarrow> ExecState \<Rightarrow> bool" where
  "exec_wf spec s \<longleftrightarrow> int (length (ex_banks s)) = bank_total spec \<and> rfm_wf spec (ex_rfm s)"

lemma partner_range:
  assumes "dims_ok spec" and "in_range spec d"
  shows "in_range spec (lpddr_refdb_partner spec d)"
proof -
  have ok: "digit_ok (bank_groups (ds_org spec)) (bank_group d)"
    using assms(2) by (simp add: in_range_def Let_def)
  have "0 < bank_group d" if "odd (bank_group d)"
    using that ok by (metis digit_ok_def even_zero le_less)
  then show ?thesis
    using assms(2) ok by (auto simp: lpddr_refdb_partner_def Let_def xor_one_eq in_range_def digit_ok_def)
qed

lemma flat_ok:
  assumes "exec_wf spec s" and "in_range spec e"
  shows "0 \<le> flat_bank spec e" "flat_bank spec e < int (length (ex_banks s))" "nat (flat_bank spec e) < length (ex_banks s)"
  using flat_bank_range [OF assms(2)] assms(1) by (auto simp: digit_ok_def exec_wf_def)

lemma at_bank_of: "exec_wf spec s \<Longrightarrow> in_range spec e \<Longrightarrow> at_bank (flat_bank spec e) (ex_banks s) = Inr (bank_of spec s e)"
  using flat_ok [of spec s e] by (simp add: at_bank_def bank_of_def)

lemma flat_eq:
  assumes "in_range spec e" and "in_range spec d"
  shows "nat (flat_bank spec e) = nat (flat_bank spec d) \<longleftrightarrow> same_bank e d"
  using flat_bank_range [OF assms(1)] flat_bank_range [OF assms(2)] flat_bank_inj [OF assms] by (auto simp: digit_ok_def)

lemma bank_of_put:
  assumes "exec_wf spec s" and "in_range spec e" and "in_range spec d"
  shows "bank_of spec (put_bank (flat_bank spec d) b s) e = (if same_bank e d then b else bank_of spec s e)"
  using flat_ok [OF assms(1,2)] flat_eq [OF assms(2,3)] by (auto simp: bank_of_def put_bank_def nth_list_update)

lemma each_rank_bank_ok:
  assumes "dims_ok spec" and "int (length banks) = bank_total spec" and "in_range spec d"
  shows "\<exists>banks'. each_rank_bank spec d f banks = Inr banks' \<and> length banks' = length banks
    \<and> (\<forall>e. in_range spec e \<longrightarrow> banks' ! nat (flat_bank spec e) =
        (if same_scope ScRank e d then f (banks ! nat (flat_bank spec e)) else banks ! nat (flat_bank spec e)))"
proof -
  let ?is = "[rank_index spec d * rank_banks spec..rank_index spec d * rank_banks spec + rank_banks spec - 1]"
  let ?step = "\<lambda>i banks. rbind (at_bank i banks) (\<lambda>b. Inr (banks[nat i := f b]))"
  have "max 1 (bank_groups (ds_org spec) * banks_per_group (ds_org spec)) = rank_banks spec"
    using rank_banks_pos [OF assms(1)] by (simp add: rank_banks_def)
  then have range: "exec_rank_range spec d banks = (rank_index spec d * rank_banks spec, rank_index spec d * rank_banks spec + rank_banks spec)"
    using rank_block_total(2) [OF assms(1), of d] assms(2) by (simp add: exec_rank_range_def Let_def)
  have "\<exists>banks'. rfold ?step is banks = Inr banks' \<and> length banks' = length banks
      \<and> (\<forall>j < length banks. banks' ! j = (if int j \<in> set is then f (banks ! j) else banks ! j))"
    if "distinct is" "\<forall>i \<in> set is. 0 \<le> i \<and> i < int (length banks)" for "is" banks
    using that
  proof (induction "is" arbitrary: banks)
    case (Cons i "is")
    let ?b = "banks[nat i := f (banks ! nat i)]"
    have at: "at_bank i banks = Inr (banks ! nat i)" using Cons.prems(2) by (simp add: at_bank_def)
    obtain banks' where b: "rfold ?step is ?b = Inr banks'" "length banks' = length ?b"
      "\<forall>j < length ?b. banks' ! j = (if int j \<in> set is then f (?b ! j) else ?b ! j)"
      using Cons.IH [of ?b] Cons.prems by auto
    have i: "i \<notin> set is" "0 \<le> i" using Cons.prems by auto
    have "banks' ! x = (if int x \<in> set (i # is) then f (banks ! x) else banks ! x)" if x: "x < length banks" for x
    proof (cases "nat i = x")
      case True
      then show ?thesis using b(3) x i by auto
    next
      case False
      then have "int x \<noteq> i" using i(2) by auto
      then show ?thesis using b(3) x False by simp
    qed
    with at b(1,2) show ?case by auto
  qed auto
  from this [of ?is banks] rank_block_total [OF assms(1), of d] assms(2)
  obtain banks' where b: "rfold ?step ?is banks = Inr banks'" "length banks' = length banks"
    "\<forall>j < length banks. banks' ! j = (if int j \<in> set ?is then f (banks ! j) else banks ! j)"
    by auto
  have "banks' ! nat (flat_bank spec e) =
      (if same_scope ScRank e d then f (banks ! nat (flat_bank spec e)) else banks ! nat (flat_bank spec e))"
    if e: "in_range spec e" for e
  proof -
    have "0 \<le> flat_bank spec e" "nat (flat_bank spec e) < length banks"
      using flat_bank_range [OF e] assms(2) by (auto simp: digit_ok_def)
    with b(3) rank_block [OF assms(1,3) e] show ?thesis by simp
  qed
  with b(1,2) show ?thesis
    by (simp add: each_rank_bank_def range)
qed

section \<open>The effect on one bank\<close>

definition bank_after :: "DramSpec \<Rightarrow> Command \<Rightarrow> DecodedAddress \<Rightarrow> nat \<Rightarrow> DecodedAddress \<Rightarrow> BankState \<Rightarrow> BankState" where
  "bank_after spec cmd d clk e b =
     (let t = ds_timing spec; rec = nCWL t + nBL t + nWR t in
      if cmd = PREAB then (if same_scope ScRank e d then b\<lparr>bs_open_row := -1, bs_activating := False,
          bs_next_act := max (bs_next_act b) (after spec clk (if nRPab t > 0 then nRPab t else nRP t))\<rparr> else b)
      else if cmd = REFAB then (if same_scope ScRank e d then b\<lparr>bs_next_act := max (bs_next_act b) (after spec clk (nRFC t))\<rparr> else b)
      else if cmd = RFMAB then (if same_scope ScRank e d
          then b\<lparr>bs_next_act := max (bs_next_act b) (after spec clk (if nRFMab t > 0 then nRFMab t else nRFC t))\<rparr> else b)
      else if cmd = REFDB then
        (let b = (if same_bank e d then b\<lparr>bs_next_act := after spec clk (nRFCpb t)\<rparr> else b)
         in if same_bank e (lpddr_refdb_partner spec d) then b\<lparr>bs_next_act := max (bs_next_act b) (after spec clk (nRFCpb t))\<rparr> else b)
      else if \<not> same_bank e d then b
      else case cmd of
        ACT \<Rightarrow> b\<lparr>bs_open_row := row d, bs_next_rd := after spec clk (nRCDRD t), bs_next_wr := after spec clk (nRCDWR t),
          bs_next_pre := after spec clk (nRAS t), bs_next_act := after spec clk (nRC t)\<rparr>
      | ACT1 \<Rightarrow> b\<lparr>bs_activating := True, bs_next_act2 := after spec clk (max 1 (nAADMin t)),
          bs_act2_deadline := after spec clk (max (nAADMin t) (nAADMax t)), bs_next_rd := after spec clk (nRCDRD t),
          bs_next_wr := after spec clk (nRCDWR t), bs_next_act := after spec clk (nRC t), bs_next_pre := after spec clk (nRAS t)\<rparr>
      | ACT2 \<Rightarrow> b\<lparr>bs_activating := False, bs_open_row := row d, bs_next_act2 := 0, bs_act2_deadline := 0\<rparr>
      | PRE \<Rightarrow> b\<lparr>bs_open_row := -1, bs_activating := False, bs_next_act := after spec clk (nRP t)\<rparr>
      | PREPB \<Rightarrow> b\<lparr>bs_open_row := -1, bs_activating := False, bs_next_act := after spec clk (nRP t)\<rparr>
      | RD \<Rightarrow> b\<lparr>bs_next_any_col := after spec clk (nCCDL t), bs_next_rd := after spec clk (nCCDL t),
          bs_next_pre := max (bs_next_pre b) (after spec clk (nRTP t))\<rparr>
      | RDA \<Rightarrow> b\<lparr>bs_next_any_col := after spec clk (nCCDL t), bs_next_rd := after spec clk (nCCDL t),
          bs_next_pre := max (bs_next_pre b) (after spec clk (nRTP t)), bs_open_row := -1,
          bs_next_act := max (bs_next_act b) (u64_add (after spec clk (nRTP t)) (timing_delay spec (nRP t)))\<rparr>
      | WR \<Rightarrow> b\<lparr>bs_next_any_col := after spec clk (nCCDL t), bs_next_wr := after spec clk (nCCDL t),
          bs_next_pre := max (bs_next_pre b) (after spec clk rec)\<rparr>
      | WRA \<Rightarrow> b\<lparr>bs_next_any_col := after spec clk (nCCDL t), bs_next_wr := after spec clk (nCCDL t),
          bs_next_pre := max (bs_next_pre b) (after spec clk rec), bs_open_row := -1,
          bs_next_act := max (bs_next_act b) (u64_add (after spec clk rec) (timing_delay spec (nRP t)))\<rparr>
      | REFPB \<Rightarrow> b\<lparr>bs_next_act := after spec clk (nRFCpb t)\<rparr>
      | RFMPB \<Rightarrow> b\<lparr>bs_next_act := after spec clk (if nRFMpb t > 0 then nRFMpb t else nRFCpb t)\<rparr>
      | _ \<Rightarrow> b)"

lemma upd_simps [simp]:
  "ex_banks (upd_row spec d f s) = ex_banks s" "ex_rfm (upd_row spec d f s) = ex_rfm s" "ex_stats (upd_row spec d f s) = ex_stats s"
  "ex_banks (upd_col spec d f s) = ex_banks s" "ex_rfm (upd_col spec d f s) = ex_rfm s" "ex_stats (upd_col spec d f s) = ex_stats s"
  "ex_banks (upd_bg spec d f s) = ex_banks s" "ex_rfm (upd_bg spec d f s) = ex_rfm s" "ex_stats (upd_bg spec d f s) = ex_stats s"
  "ex_banks (upd_wck spec d f s) = ex_banks s" "ex_rfm (upd_wck spec d f s) = ex_rfm s" "ex_stats (upd_wck spec d f s) = ex_stats s"
  "ex_banks (row_next spec d t s) = ex_banks s" "ex_rfm (row_next spec d t s) = ex_rfm s" "ex_stats (row_next spec d t s) = ex_stats s"
  "ex_banks (count_command c s) = ex_banks s" "ex_rfm (count_command c s) = ex_rfm s"
  "ex_banks (upd_stats h s) = ex_banks s" "ex_rfm (upd_stats h s) = ex_rfm s"
  "ex_rfm (put_bank i b s) = ex_rfm s" "ex_banks (put_bank i b s) = (ex_banks s)[nat i := b]"
  by (simp_all add: upd_row_def upd_col_def upd_bg_def upd_wck_def row_next_def count_command_def upd_stats_def put_bank_def Let_def)

lemma exec_data_banks:
  "\<exists>req' s'. exec_data spec req clk cmd lat s = Inr (None, req', s') \<and> ex_banks s' = ex_banks s \<and> ex_rfm s' = ex_rfm s
    \<and> rq_decoded req' = rq_decoded req"
  by (simp add: exec_data_def Let_def)

lemma exec_activate_banks:
  assumes "dims_ok spec" and "rfm_wf spec (ex_rfm s)" and "in_range spec (rq_decoded req)"
  shows "\<exists>c s'. exec_activate spec req clk cmd s = Inr (c, req, s') \<and> ex_banks s' = ex_banks s \<and> rfm_wf spec (ex_rfm s')"
proof -
  obtain c m st where "rfm_on_activate spec (rq_decoded req) (ex_rfm s) (cs_rfm (ex_stats s)) = Inr (c, m, st)" "rfm_wf spec m"
    using rfm_on_activate_ok [OF assms] by blast
  then show ?thesis by (simp add: exec_activate_def Let_def)
qed

definition switch_spec :: "DramSpec \<Rightarrow> Request \<Rightarrow> Command \<Rightarrow> nat \<Rightarrow> ExecState \<Rightarrow> exec_result \<Rightarrow> bool" where
  "switch_spec spec req cmd clk s r \<longleftrightarrow> (\<exists>c req' s'. r = Inr (c, req', s') \<and> exec_wf spec s' \<and> rq_decoded req' = rq_decoded req
     \<and> (\<forall>e. in_range spec e \<longrightarrow> bank_of spec s' e = bank_after spec cmd (rq_decoded req) clk e (bank_of spec s e)))"

lemma switch_putI:
  assumes "exec_wf spec s" and "in_range spec (rq_decoded req)"
    and "r = Inr (c, req', s')" "ex_banks s' = (ex_banks s)[nat (flat_bank spec (rq_decoded req)) := b]"
      "rfm_wf spec (ex_rfm s')" "rq_decoded req' = rq_decoded req"
    and "b = bank_after spec cmd (rq_decoded req) clk (rq_decoded req) (bank_of spec s (rq_decoded req))"
    and "cmd \<notin> {PREAB, REFAB, RFMAB, REFDB}"
  shows "switch_spec spec req cmd clk s r"
proof -
  let ?d = "rq_decoded req"
  have wf: "exec_wf spec s'" using assms(1,4,5) by (simp add: exec_wf_def)
  have "bank_of spec s' e = bank_after spec cmd ?d clk e (bank_of spec s e)" if e: "in_range spec e" for e
  proof (cases "same_bank e ?d")
    case True
    then have "nat (flat_bank spec e) = nat (flat_bank spec ?d)" using flat_eq [OF e assms(2)] by simp
    moreover have "bank_after spec cmd ?d clk e = bank_after spec cmd ?d clk ?d"
      using True assms(8) by (intro ext) (simp add: bank_after_def same_bank_def Let_def)
    ultimately show ?thesis
      using flat_ok [OF assms(1,2)] assms(7) by (simp add: bank_of_def assms(4))
  next
    case False
    then have "nat (flat_bank spec ?d) \<noteq> nat (flat_bank spec e)" using flat_eq [OF e assms(2)] by metis
    then show ?thesis using False assms(8) by (simp add: bank_of_def assms(4) bank_after_def Let_def)
  qed
  with wf assms(3,6) show ?thesis by (auto simp: switch_spec_def)
qed

lemma switch_sameI:
  assumes "exec_wf spec s" and "r = Inr (c, req', s')" "ex_banks s' = ex_banks s" "ex_rfm s' = ex_rfm s" "rq_decoded req' = rq_decoded req"
    and "\<And>e. bank_after spec cmd (rq_decoded req) clk e = id"
  shows "switch_spec spec req cmd clk s r"
  using assms by (auto simp: switch_spec_def exec_wf_def bank_of_def)

lemma switch_rankI:
  assumes "dims_ok spec" "exec_wf spec s" "in_range spec (rq_decoded req)"
    and "each_rank_bank spec (rq_decoded req) f (ex_banks s) = Inr banks" and "r = Inr (c, req, s')" "ex_banks s' = banks"
      "rfm_wf spec (ex_rfm s')"
    and "\<And>e b. bank_after spec cmd (rq_decoded req) clk e b = (if same_scope ScRank e (rq_decoded req) then f b else b)"
  shows "switch_spec spec req cmd clk s r"
proof -
  have "int (length (ex_banks s)) = bank_total spec" using assms(2) by (simp add: exec_wf_def)
  from each_rank_bank_ok [OF assms(1) this assms(3), of f] show ?thesis
    using assms(2,4-8) by (auto simp: switch_spec_def exec_wf_def bank_of_def)
qed

lemma same_bank_refl [simp]: "same_bank d d"
  by (simp add: same_bank_def)

lemma exec_switch_ok:
  assumes "dims_ok spec" "exec_wf spec s" "in_range spec (rq_decoded req)"
  shows "switch_spec spec req cmd clk s (exec_switch spec req cmd clk (bank_of spec s (rq_decoded req)) s)"
proof -
  let ?d = "rq_decoded req" and ?b = "bank_of spec s (rq_decoded req)"
  have rfm: "rfm_wf spec (ex_rfm s)" using assms(2) by (simp add: exec_wf_def)
  have len: "int (length (ex_banks s)) = bank_total spec" using assms(2) by (simp add: exec_wf_def)
  have put: "exec_wf spec (put_bank (flat_bank spec ?d) b s)" for b
    using assms(2) by (simp add: exec_wf_def)
  consider "cmd \<in> {ACT, ACT1}" | "cmd \<in> {RD, RDA, WR, WRA}" | "cmd \<in> {ACT2, PRE, PREPB, REFPB}" | "cmd = RFMPB"
    | "cmd \<in> {PREAB, REFAB}" | "cmd = RFMAB" | "cmd = REFDB"
    | "cmd \<in> {CASRD, CASWR, MRW, MRR, WCKSYNC, WCKTRAIN, DVFS, PDE, PDX, SREFEN, SREFEX, ECCSCRUB, RASERR, NOP}"
    by (cases cmd) auto
  then show ?thesis
  proof cases
    case 1
    then obtain b req' where b: "exec_switch spec req cmd clk ?b s = exec_activate spec req' clk cmd (put_bank (flat_bank spec ?d) b s)"
      "rq_decoded req' = ?d" "b = bank_after spec cmd ?d clk ?d ?b"
      by (auto simp: exec_switch_simps bank_after_def Let_def)
    then show ?thesis
      using exec_activate_banks [OF assms(1), of "put_bank (flat_bank spec ?d) b s" req' clk cmd] rfm assms(3) 1
      by (auto intro!: switch_putI [OF assms(2,3)])
  next
    case 2
    then obtain b l where b: "exec_switch spec req cmd clk ?b s = exec_data spec req clk cmd l (put_bank (flat_bank spec ?d) b s)"
      "b = bank_after spec cmd ?d clk ?d ?b"
      by (auto simp: exec_switch_simps bank_after_def Let_def)
    obtain req' s' where "exec_data spec req clk cmd l (put_bank (flat_bank spec ?d) b s) = Inr (None, req', s')"
      "ex_banks s' = ex_banks (put_bank (flat_bank spec ?d) b s)" "ex_rfm s' = ex_rfm (put_bank (flat_bank spec ?d) b s)" "rq_decoded req' = ?d"
      using exec_data_banks by blast
    note r = this
    show ?thesis
      by (rule switch_putI [OF assms(2,3) trans [OF b(1) r(1)] _ _ r(4) b(2)]) (use r 2 rfm in auto)
  next
    case 3
    then obtain s' where s': "exec_switch spec req cmd clk ?b s = Inr (None, req, s')" "ex_rfm s' = ex_rfm s"
      "ex_banks s' = (ex_banks s)[nat (flat_bank spec ?d) := bank_after spec cmd ?d clk ?d ?b]"
      by (auto simp: exec_switch_simps bank_after_def Let_def)
    show ?thesis
      by (rule switch_putI [OF assms(2,3) s'(1,3) _ refl refl]) (use 3 rfm s'(2) in auto)
  next
    case 4
    obtain m st where m: "rfm_on_rfmpb spec ?d (ex_rfm s) (cs_rfm (ex_stats s)) = Inr (m, st)" "rfm_wf spec m"
      using rfm_on_rfmpb_ok [OF rfm] by blast
    with 4 obtain s' where s': "exec_switch spec req cmd clk ?b s = Inr (None, req, s')" "ex_rfm s' = m"
      "ex_banks s' = (ex_banks s)[nat (flat_bank spec ?d) := bank_after spec cmd ?d clk ?d ?b]"
      by (simp add: exec_switch_simps bank_after_def put_bank_def Let_def)
    show ?thesis
      by (rule switch_putI [OF assms(2,3) s'(1,3) _ refl refl]) (use 4 m s'(2) in auto)
  next
    case 8
    then obtain req' s' where s': "exec_switch spec req cmd clk ?b s = Inr (None, req', s')" "ex_banks s' = ex_banks s"
      "ex_rfm s' = ex_rfm s" "rq_decoded req' = ?d"
      by (auto simp: exec_switch_simps Let_def)
    show ?thesis
      by (rule switch_sameI [OF assms(2) s']) (use 8 in \<open>auto simp: bank_after_def Let_def\<close>)
  next
    case 5
    then obtain f where f: "exec_switch spec req cmd clk ?b s = rbind (each_rank_bank spec ?d f (ex_banks s)) (\<lambda>banks.
        Inr (None, req, count_command cmd (row_next spec ?d (u64_add clk 1) (s\<lparr>ex_banks := banks\<rparr>))))"
      "\<And>e b. bank_after spec cmd ?d clk e b = (if same_scope ScRank e ?d then f b else b)"
      by (auto simp: exec_switch_simps bank_after_def Let_def close_rank_banks_def gate_rank_banks_after_def)
    obtain banks where "each_rank_bank spec ?d f (ex_banks s) = Inr banks"
      using each_rank_bank_ok [OF assms(1) len assms(3)] by blast
    from switch_rankI [OF assms this, of _ None] f rfm this show ?thesis
      by simp
  next
    case 6
    let ?f = "\<lambda>b. b\<lparr>bs_next_act := max (bs_next_act b)
      (after spec clk (if nRFMab (ds_timing spec) > 0 then nRFMab (ds_timing spec) else nRFC (ds_timing spec)))\<rparr>"
    obtain banks where b: "each_rank_bank spec ?d ?f (ex_banks s) = Inr banks"
      using each_rank_bank_ok [OF assms(1) len assms(3)] by blast
    obtain m st where m: "rfm_on_rfmab spec ?d (ex_rfm s) (cs_rfm (ex_stats s)) = Inr (m, st)" "rfm_wf spec m"
      using rfm_on_rfmab_ok [OF assms(1) rfm assms(3)] by blast
    have f: "bank_after spec cmd ?d clk e = (\<lambda>b. if same_scope ScRank e ?d then ?f b else b)" for e
      using 6 by (intro ext) (simp add: bank_after_def Let_def)
    obtain s' where s': "exec_switch spec req cmd clk ?b s = Inr (None, req, s')" "ex_banks s' = banks" "ex_rfm s' = m"
      using 6 b m by (simp add: exec_switch_simps Let_def gate_rank_banks_after_def)
    show ?thesis
      by (rule switch_rankI [OF assms b s'(1,2)]) (simp_all add: s'(3) m(2) f)
  next
    case 7
    let ?p = "lpddr_refdb_partner spec ?d" and ?w = "after spec clk (nRFCpb (ds_timing spec))"
    let ?s1 = "put_bank (flat_bank spec ?d) (?b\<lparr>bs_next_act := ?w\<rparr>) s"
    have p: "in_range spec ?p" using partner_range [OF assms(1,3)] .
    let ?q = "bank_of spec ?s1 ?p"
    let ?s2 = "put_bank (flat_bank spec ?p) (?q\<lparr>bs_next_act := max (bs_next_act ?q) ?w\<rparr>) ?s1"
    have at: "at_bank (flat_bank spec ?p) (ex_banks ?s1) = Inr ?q" using at_bank_of [OF put p] .
    obtain s' where s': "exec_switch spec req cmd clk ?b s = Inr (None, req, s')" "ex_banks s' = ex_banks ?s2" "ex_rfm s' = ex_rfm s"
      using 7 at by (simp add: exec_switch_simps Let_def)
    have same: "bank_of spec s x = bank_of spec s y" if "same_bank x y" "in_range spec x" "in_range spec y" for x y
      using flat_eq [OF that(2,3)] that(1) by (simp add: bank_of_def)
    have "bank_of spec s' e = bank_after spec cmd ?d clk e (bank_of spec s e)" if e: "in_range spec e" for e
    proof -
      have "bank_of spec s' e = bank_of spec ?s2 e" using s'(2) by (simp add: bank_of_def)
      also have "\<dots> = (if same_bank e ?p then ?q\<lparr>bs_next_act := max (bs_next_act ?q) ?w\<rparr> else bank_of spec ?s1 e)"
        by (rule bank_of_put [OF put e p])
      finally show ?thesis
        using 7 same [OF _ e assms(3)] same [OF _ e p] unfolding bank_of_put [OF assms(2) e assms(3)] bank_of_put [OF assms(2) p assms(3)]
        by (auto simp: bank_after_def Let_def same_bank_def)
    qed
    with s' rfm put show ?thesis
      by (auto simp: switch_spec_def exec_wf_def)
  qed
qed

lemma executor_issue_banks:
  assumes "dims_ok spec" "exec_wf spec s" "in_range spec (rq_decoded req)"
  shows "\<exists>c req' s'. executor_issue spec req cmd clk s = Inr (c, req', s') \<and> exec_wf spec s' \<and> rq_decoded req' = rq_decoded req
    \<and> (\<forall>e. in_range spec e \<longrightarrow> bank_of spec s' e = bank_after spec cmd (rq_decoded req) clk e (bank_of spec s e))"
  using exec_switch_ok [OF assms, of cmd clk]
  by (auto simp: switch_spec_def executor_issue_def at_bank_of [OF assms(2,3)] exec_wf_def bank_of_def)

section \<open>What the gates require of a bank\<close>

definition bank_allows :: "DramSpec \<Rightarrow> Command \<Rightarrow> DecodedAddress \<Rightarrow> nat \<Rightarrow> DecodedAddress \<Rightarrow> BankState \<Rightarrow> bool" where
  "bank_allows spec cmd d clk e b \<longleftrightarrow>
     (same_bank e d \<longrightarrow>
        (cmd \<in> {ACT, ACT1, REFPB, REFDB, RFMPB} \<longrightarrow> \<not> bank_busy b \<and> bs_next_act b \<le> clk)
      \<and> (cmd = ACT2 \<longrightarrow> bs_activating b \<and> bs_next_act2 b \<le> clk)
      \<and> (cmd \<in> {PRE, PREPB} \<longrightarrow> \<not> bs_activating b \<and> 0 \<le> bs_open_row b \<and> bs_next_pre b \<le> clk)
      \<and> (cmd \<in> {RD, RDA} \<longrightarrow> bs_next_rd b \<le> clk)
      \<and> (cmd \<in> {WR, WRA} \<longrightarrow> bs_next_wr b \<le> clk)
      \<and> (cmd \<in> {RD, RDA, WR, WRA} \<longrightarrow> \<not> bs_activating b \<and> bs_open_row b = row d \<and> 0 \<le> bs_open_row b
           \<and> bs_next_any_col b \<le> clk))
   \<and> (cmd = REFDB \<and> same_bank e (lpddr_refdb_partner spec d) \<longrightarrow> \<not> bank_busy b \<and> bs_next_act b \<le> clk)
   \<and> (cmd \<in> {REFAB, RFMAB} \<and> same_scope ScRank e d \<longrightarrow> \<not> bank_busy b)"

lemma slice_mem:
  assumes "lo \<le> i" "i < hi" "0 \<le> lo" "hi \<le> int (length xs)"
  shows "xs ! nat i \<in> set (slice lo hi xs)"
proof -
  let ?k = "nat i - nat lo"
  have k: "?k < nat (hi - lo)" "nat lo + ?k = nat i" "nat lo \<le> length xs" "?k < length (slice lo hi xs)"
    using assms by (auto simp: slice_def)
  then have "slice lo hi xs ! ?k = xs ! nat i"
    by (simp add: slice_def)
  with k(4) show ?thesis by (metis nth_mem)
qed

lemma rank_idle:
  assumes "dims_ok spec" "exec_wf spec (ct_exec ct)" "in_range spec d" "in_range spec e" "same_scope ScRank e d"
    and "\<not> any_bank_busy_in_rank spec d ct"
  shows "\<not> bank_busy (bank_of spec (ct_exec ct) e)"
proof -
  let ?lo = "rank_index spec d * rank_banks spec" and ?hi = "rank_index spec d * rank_banks spec + rank_banks spec"
  have "max 1 (bank_groups (ds_org spec) * banks_per_group (ds_org spec)) = rank_banks spec"
    using rank_banks_pos [OF assms(1)] by (simp add: rank_banks_def)
  then have range: "controller_rank_range spec d ct = (?lo, ?hi)"
    using rank_block_total(2) [OF assms(1), of d] assms(2) by (simp add: controller_rank_range_def exec_wf_def Let_def)
  have "bank_of spec (ct_exec ct) e \<in> set (slice ?lo ?hi (ct_banks ct))"
    using rank_block [OF assms(1,3,4)] rank_block_total [OF assms(1), of d] assms(2,5)
    unfolding bank_of_def by (intro slice_mem) (auto simp: exec_wf_def)
  then show ?thesis
    using assms(6) by (auto simp: any_bank_busy_in_rank_def range list_ex_iff)
qed

lemma timing_ok_parts:
  assumes "exec_wf spec (ct_exec ct)" "in_range spec (rq_decoded req)" "timing_ok spec req cmd ct = Inr True"
  shows "timing_switch spec req cmd (bank_of spec (ct_exec ct) (rq_decoded req)) ct = Inr True"
    and "\<exists>any_busy. fst (check_command_state (snapshot spec req cmd any_busy (bank_of spec (ct_exec ct) (rq_decoded req)) ct) cmd)"
    and "constraint_ready spec (rq_decoded req) cmd (ct_clk ct) (ct_timing ct)"
  using assms(3) by (auto simp: timing_ok_def at_bank_of [OF assms(1,2)] rbind_eq_Inr state_ok_def constraint_timing_ok_def
      split: if_splits)

lemma timing_ok_allows:
  assumes "dims_ok spec" "exec_wf spec (ct_exec ct)" "in_range spec (rq_decoded req)" "in_range spec e"
    and "timing_ok spec req cmd ct = Inr True"
  shows "bank_allows spec cmd (rq_decoded req) (ct_clk ct) e (bank_of spec (ct_exec ct) e)"
proof -
  let ?d = "rq_decoded req" and ?s = "ct_exec ct"
  note t = timing_ok_parts [OF assms(2,3,5)]
  obtain any_busy where st: "fst (check_command_state (snapshot spec req cmd any_busy (bank_of spec ?s ?d) ct) cmd)"
    using t(2) by blast
  have same: "bank_of spec ?s e = bank_of spec ?s x" if "same_bank e x" "in_range spec x" for x
    using flat_eq [OF assms(4) that(2)] that(1) by (simp add: bank_of_def)
  have p: "in_range spec (lpddr_refdb_partner spec ?d)" using partner_range [OF assms(1,3)] .
  have local: "same_bank e ?d \<Longrightarrow> bank_of spec ?s e = bank_of spec ?s ?d" using same assms(3) by blast
  have rk: "\<not> bank_busy (bank_of spec ?s e)" if "cmd \<in> {REFAB, RFMAB}" "same_scope ScRank e ?d"
    using rank_idle [OF assms(1,2,3,4) that(2)] t(1) that(1) by (auto simp: timing_switch_def Let_def)
  have db: "\<not> bank_busy (bank_of spec ?s e) \<and> bs_next_act (bank_of spec ?s e) \<le> ct_clk ct"
    if "cmd = REFDB" "same_bank e ?d \<or> same_bank e (lpddr_refdb_partner spec ?d)"
    using that t(1) same [OF _ assms(3)] same [OF _ p] at_bank_of [OF assms(2,3)] at_bank_of [OF assms(2) p]
    by (auto simp: timing_switch_def dual_bank_target_idle_def rbind_eq_Inr bank_busy_def Let_def split: if_splits)
  show ?thesis
    unfolding bank_allows_def
    using rk db t(1) st local
    by (cases cmd) (auto simp: timing_switch_def check_command_state_def snapshot_def bank_busy_def Let_def split: if_splits)
qed

end
