(* ===== verification/Bank_Rules.thy ===== *)
theory Bank_Rules
  imports Executor_Correct
begin

text \<open>
  Command sequences of the DRAM controller. A history is any sequence of commands at non-decreasing
  cycles, each of which \<open>timing_ok\<close> accepted in the state left by the executor; queues, row policy,
  power flags and the choice of the request are arbitrary. The locale \<open>bank_gate\<close> says when a
  bank-local gate enforces a list of minimum distances; it is interpreted for the five gates of
  \<open>BankState\<close>.
\<close>

section \<open>Histories\<close>

definition ExecState_new :: "FloatChecks \<Rightarrow> DramSpec \<Rightarrow> ExecState res" where
  "ExecState_new fc spec =
     rbind (total_banks spec) (\<lambda>n.
     rbind (validate_spec fc spec) (\<lambda>_.
     rbind (rfm_reset fc spec) (\<lambda>m.
     rbind (TimingEngine_reset fc spec) (\<lambda>te.
       Inr \<lparr>ex_banks = replicate (nat n) BankState_init, ex_timing = te, ex_rfm = m, ex_stats = CommandStats_init\<rparr>))))"

inductive issues :: "FloatChecks \<Rightarrow> DramSpec \<Rightarrow> issue list \<Rightarrow> ExecState \<Rightarrow> bool" for fc spec where
  start: "ExecState_new fc spec = Inr s \<Longrightarrow> issues fc spec [] s"
| prune: "issues fc spec h s \<Longrightarrow> issues fc spec h (s\<lparr>ex_timing := prune_recent_acts spec clk (ex_timing s)\<rparr>)"
| issue: "issues fc spec h s \<Longrightarrow> ct_exec ct = s \<Longrightarrow> in_range spec (rq_decoded req) \<Longrightarrow>
    \<forall>(p, e, t) \<in> set h. t \<le> ct_clk ct \<Longrightarrow> ct_clk ct < 2 ^ 63 \<Longrightarrow> timing_ok spec req cmd ct = Inr True \<Longrightarrow>
    executor_issue spec req cmd (ct_clk ct) s = Inr (c, req', s') \<Longrightarrow>
    issues fc spec (h @ [(cmd, rq_decoded req, ct_clk ct)]) s'"

lemma new_wf:
  assumes "ExecState_new fc spec = Inr s"
  shows "dims_ok spec" "exec_wf spec s" "\<And>e. in_range spec e \<Longrightarrow> bank_of spec s e = BankState_init"
proof -
  from assms obtain n m te where s: "total_banks spec = Inr n" "rfm_reset fc spec = Inr m"
    "s = \<lparr>ex_banks = replicate (nat n) BankState_init, ex_timing = te, ex_rfm = m, ex_stats = CommandStats_init\<rparr>"
    by (auto simp: ExecState_new_def rbind_eq_Inr)
  show d: "dims_ok spec" using rfm_reset_wf(1) [OF s(2)] .
  have "0 < bank_total spec" using d by (simp add: dims_ok_def bank_total_def Let_def)
  then show wf: "exec_wf spec s"
    using s rfm_reset_wf(2) [OF s(2)] by (simp add: exec_wf_def total_banks_eq [OF d])
  show "bank_of spec s e = BankState_init" if "in_range spec e" for e
    using flat_ok [OF wf that] by (simp add: bank_of_def s(3))
qed

lemma issues_wf: "issues fc spec h s \<Longrightarrow> dims_ok spec \<and> exec_wf spec s"
proof (induction rule: issues.induct)
  case (start s)
  then show ?case using new_wf by blast
next
  case (prune h s clk)
  then show ?case by (simp add: exec_wf_def)
next
  case (issue h s ct req cmd c req' s')
  then show ?case using executor_issue_banks [of spec s req cmd "ct_clk ct"] by auto
qed

lemma issue_step:
  assumes "issues fc spec h s" "ct_exec ct = s" "in_range spec (rq_decoded req)" "timing_ok spec req cmd ct = Inr True"
    and "executor_issue spec req cmd (ct_clk ct) s = Inr (c, req', s')" and "in_range spec e"
  shows "bank_of spec s' e = bank_after spec cmd (rq_decoded req) (ct_clk ct) e (bank_of spec s e)"
    and "bank_allows spec cmd (rq_decoded req) (ct_clk ct) e (bank_of spec s e)"
  using issues_wf [OF assms(1)] executor_issue_banks [of spec s req cmd "ct_clk ct"] timing_ok_allows [of spec ct req e cmd] assms
  by auto

lemma issues_nth:
  assumes "issues fc spec h s" "j < length h" "h ! j = (f, d, u)"
  shows "\<exists>s' ct req. issues fc spec (take j h) s' \<and> ct_exec ct = s' \<and> rq_decoded req = d \<and> ct_clk ct = u
    \<and> timing_ok spec req f ct = Inr True \<and> in_range spec d \<and> u < 2 ^ 63 \<and> (\<forall>(p, e, t) \<in> set (take j h). t \<le> u)"
  using assms
proof (induction rule: issues.induct)
  case (issue h s ct req cmd c req' s')
  show ?case
  proof (cases "j < length h")
    case True
    then show ?thesis using issue by (auto simp: nth_append)
  next
    case False
    then have "j = length h" using issue.prems by simp
    then show ?thesis using issue by auto
  qed
qed simp_all

section \<open>Exact delays\<close>

definition nck :: "DramSpec \<Rightarrow> int \<Rightarrow> nat" where
  "nck spec cycles = nat (max 0 cycles) * nat (max 1 (ds_tick_multiplier spec))"

definition write_recovery :: "Timing \<Rightarrow> int" where
  "write_recovery t = nCWL t + nBL t + nWR t"

definition exec_ints :: "DramSpec \<Rightarrow> bool" where
  "exec_ints spec \<longleftrightarrow> (let t = ds_timing spec in int32 (ds_tick_multiplier spec)
     \<and> list_all int32 [nRCDRD t, nRCDWR t, nRAS t, nRC t, nRP t, nRPab t, nRTP t, write_recovery t, nRFCpb t, nRFMpb t,
          nRFC t, nRFMab t, nCCDL t])"

lemma delay_exact:
  assumes "int32 c" "int32 (ds_tick_multiplier spec)"
  shows "timing_delay spec c = nck spec c" "nck spec c < 2 ^ 62"
  using timing_delay_exact [OF assms] by (simp_all add: nck_def)

lemma after_exact:
  assumes "int32 c" "int32 (ds_tick_multiplier spec)" "clk < 2 ^ 63"
  shows "after spec clk c = clk + nck spec c"
  using delay_exact [OF assms(1,2)] assms(3) by (simp add: after_def u64_add_exact)

lemma after_twice_exact:
  assumes "int32 c" "int32 c'" "int32 (ds_tick_multiplier spec)" "clk < 2 ^ 63"
  shows "u64_add (after spec clk c) (timing_delay spec c') = clk + nck spec c + nck spec c'"
  using delay_exact [OF assms(1,3)] delay_exact [OF assms(2,3)] assms(4)
  by (simp add: after_exact [OF assms(1,3,4)] u64_add_exact)

lemma exec_intsD:
  assumes "exec_ints spec" "clk < 2 ^ 63"
  shows "after spec clk (nRCDRD (ds_timing spec)) = clk + nck spec (nRCDRD (ds_timing spec))"
    "after spec clk (nRCDWR (ds_timing spec)) = clk + nck spec (nRCDWR (ds_timing spec))"
    "after spec clk (nRAS (ds_timing spec)) = clk + nck spec (nRAS (ds_timing spec))"
    "after spec clk (nRC (ds_timing spec)) = clk + nck spec (nRC (ds_timing spec))"
    "after spec clk (nRP (ds_timing spec)) = clk + nck spec (nRP (ds_timing spec))"
    "after spec clk (nRPab (ds_timing spec)) = clk + nck spec (nRPab (ds_timing spec))"
    "after spec clk (nRTP (ds_timing spec)) = clk + nck spec (nRTP (ds_timing spec))"
    "after spec clk (nRFCpb (ds_timing spec)) = clk + nck spec (nRFCpb (ds_timing spec))"
    "after spec clk (nRFMpb (ds_timing spec)) = clk + nck spec (nRFMpb (ds_timing spec))"
    "after spec clk (nRFC (ds_timing spec)) = clk + nck spec (nRFC (ds_timing spec))"
    "after spec clk (nRFMab (ds_timing spec)) = clk + nck spec (nRFMab (ds_timing spec))"
    "after spec clk (nCCDL (ds_timing spec)) = clk + nck spec (nCCDL (ds_timing spec))"
    "u64_add (clk + nck spec (nRTP (ds_timing spec))) (timing_delay spec (nRP (ds_timing spec)))
       = clk + nck spec (nRTP (ds_timing spec)) + nck spec (nRP (ds_timing spec))"
    "u64_add (after spec clk (nCWL (ds_timing spec) + nBL (ds_timing spec) + nWR (ds_timing spec))) (timing_delay spec (nRP (ds_timing spec)))
       = clk + nck spec (write_recovery (ds_timing spec)) + nck spec (nRP (ds_timing spec))"
  using assms after_twice_exact [of "nRTP (ds_timing spec)" "nRP (ds_timing spec)" spec clk]
    after_twice_exact [of "write_recovery (ds_timing spec)" "nRP (ds_timing spec)" spec clk]
  by (simp_all add: after_exact exec_ints_def write_recovery_def Let_def)

section \<open>Gates that enforce minimum distances\<close>

type_synonym bank_rule = "TimingScope \<times> Command list \<times> Command list \<times> nat"

text \<open>The banks a command occupies: those of the scope, and the partner of a dual-bank refresh.\<close>

definition occupies :: "DramSpec \<Rightarrow> TimingScope \<Rightarrow> Command \<Rightarrow> DecodedAddress \<Rightarrow> DecodedAddress \<Rightarrow> bool" where
  "occupies spec scope cmd d e \<longleftrightarrow> same_scope scope e d \<or> cmd = REFDB \<and> same_scope ScBank e (lpddr_refdb_partner spec d)"

definition pending :: "(BankState \<Rightarrow> nat) \<Rightarrow> (BankState \<Rightarrow> bool) \<Rightarrow> nat \<Rightarrow> nat \<Rightarrow> BankState \<Rightarrow> bool" where
  "pending gate settled bound clk b \<longleftrightarrow> (bound \<le> gate b \<or> bound \<le> clk) \<and> (settled b \<longrightarrow> bound \<le> clk)"

locale bank_gate =
  fixes rules :: "DramSpec \<Rightarrow> bank_rule list"
    and gate :: "BankState \<Rightarrow> nat"
    and settled :: "BankState \<Rightarrow> bool"
  assumes arm: "(scope, ps, fs, gap) \<in> set (rules spec) \<Longrightarrow> exec_ints spec \<Longrightarrow> clk < 2 ^ 63 \<Longrightarrow> p \<in> set ps \<Longrightarrow>
      occupies spec scope p d e \<Longrightarrow> bank_allows spec p d clk e b \<Longrightarrow>
      clk + gap \<le> gate (bank_after spec p d clk e b) \<and> \<not> settled (bank_after spec p d clk e b)"
    and keep: "(scope, ps, fs, gap) \<in> set (rules spec) \<Longrightarrow> exec_ints spec \<Longrightarrow> clk < 2 ^ 63 \<Longrightarrow> t \<le> clk \<Longrightarrow>
      bank_allows spec cmd d clk e b \<Longrightarrow> pending gate settled (t + gap) clk b \<Longrightarrow>
      pending gate settled (t + gap) clk (bank_after spec cmd d clk e b)"
    and guard: "(scope, ps, fs, gap) \<in> set (rules spec) \<Longrightarrow> f \<in> set fs \<Longrightarrow> occupies spec ScBank f d e \<Longrightarrow>
      bank_allows spec f d clk e b \<Longrightarrow> gate b \<le> clk"
begin

lemma pending_run:
  assumes "issues fc spec h s" and "exec_ints spec" and "(scope, ps, fs, gap) \<in> set (rules spec)" and "p \<in> set ps"
    and "occupies spec scope p d e" and "in_range spec e"
    and "(p, d, t) \<in> set h" and "\<forall>(p, e, t) \<in> set h. t \<le> clk"
  shows "pending gate settled (t + gap) clk (bank_of spec s e)"
  using assms(1,7,8)
proof (induction arbitrary: clk rule: issues.induct)
  case (prune h s x)
  then show ?case by (simp add: bank_of_def)
next
  case (issue h s ct req cmd c req' s')
  note step = issue_step [OF issue.hyps(1-3,6,7) assms(6)]
  have later: "pending gate settled (t + gap) clk b" if "pending gate settled (t + gap) (ct_clk ct) b" for b
    using that issue.prems(2) by (auto simp: pending_def)
  show ?case
  proof (cases "(p, d, t) \<in> set h")
    case True
    then have t: "t \<le> ct_clk ct" using issue.hyps(4) by fastforce
    show ?thesis
      unfolding step(1) by (rule later, rule keep [OF assms(3,2) issue.hyps(5) t step(2)], rule issue.IH [OF True issue.hyps(4)])
  next
    case False
    then have "(p, d, t) = (cmd, rq_decoded req, ct_clk ct)" using issue.prems(1) by simp
    with arm [OF assms(3,2) issue.hyps(5) assms(4,5), of "bank_of spec s e"] step show ?thesis
      by (auto simp: pending_def)
  qed
qed simp

lemma rule_enforced:
  assumes "issues fc spec h s" and "exec_ints spec" and "(scope, ps, fs, gap) \<in> set (rules spec)"
    and "i < j" "j < length h" "h ! i = (p, d, t)" "h ! j = (f, d', u)" "p \<in> set ps" "f \<in> set fs"
    and "in_range spec e" "occupies spec scope p d e" "occupies spec ScBank f d' e"
  shows "t + gap \<le> u"
proof -
  obtain s' ct req where s': "issues fc spec (take j h) s'" "ct_exec ct = s'" "rq_decoded req = d'" "ct_clk ct = u"
    "timing_ok spec req f ct = Inr True" "in_range spec d'" "\<forall>(p, e, t) \<in> set (take j h). t \<le> u"
    using issues_nth [OF assms(1,5,7)] by blast
  have "take j h ! i = (p, d, t)" "i < length (take j h)" using assms(4-6) by simp_all
  then have "(p, d, t) \<in> set (take j h)" by (metis nth_mem)
  from pending_run [OF s'(1) assms(2,3,8,11,10) this s'(7)]
  have "pending gate settled (t + gap) u (bank_of spec s' e)" .
  moreover have "bank_allows spec f d' u e (bank_of spec s' e)"
    using issues_wf [OF s'(1)] timing_ok_allows [of spec ct req e f] s' assms(10) by auto
  then have "gate (bank_of spec s' e) \<le> u"
    by (rule guard [OF assms(3,9,12)])
  ultimately show ?thesis by (auto simp: pending_def)
qed

end

lemma same_bank_scope: "same_bank e d \<longleftrightarrow> same_scope ScBank e d"
  by (auto simp: same_bank_def same_scope_def)

section \<open>The gates of a bank\<close>

definition openers :: "Command list" where
  "openers = [ACT, ACT1, REFPB, REFDB, RFMPB]"

definition act_rules :: "DramSpec \<Rightarrow> bank_rule list" where
  "act_rules spec = (let t = ds_timing spec in
    [(ScBank, [PRE, PREPB], openers, nck spec (nRP t)),
     (ScBank, [RDA], openers, nck spec (nRTP t) + nck spec (nRP t)),
     (ScBank, [WRA], openers, nck spec (write_recovery t) + nck spec (nRP t)),
     (ScBank, [REFPB, REFDB], openers, nck spec (nRFCpb t)),
     (ScBank, [RFMPB], openers, nck spec (if nRFMpb t > 0 then nRFMpb t else nRFCpb t)),
     (ScRank, [PREAB], openers, nck spec (if nRPab t > 0 then nRPab t else nRP t)),
     (ScRank, [REFAB], openers, nck spec (nRFC t)),
     (ScRank, [RFMAB], openers, nck spec (if nRFMab t > 0 then nRFMab t else nRFC t))])"

definition rd_rules :: "DramSpec \<Rightarrow> bank_rule list" where
  "rd_rules spec = [(ScBank, [ACT, ACT1], [RD, RDA], nck spec (nRCDRD (ds_timing spec)))]"

definition wr_rules :: "DramSpec \<Rightarrow> bank_rule list" where
  "wr_rules spec = [(ScBank, [ACT, ACT1], [WR, WRA], nck spec (nRCDWR (ds_timing spec)))]"

definition pre_rules :: "DramSpec \<Rightarrow> bank_rule list" where
  "pre_rules spec = [(ScBank, [ACT, ACT1], [PRE, PREPB], nck spec (nRAS (ds_timing spec)))]"

definition col_rules :: "DramSpec \<Rightarrow> bank_rule list" where
  "col_rules spec = [(ScBank, [RD, RDA, WR, WRA], [RD, RDA, WR, WRA], nck spec (nCCDL (ds_timing spec)))]"

definition bank_rules :: "DramSpec \<Rightarrow> bank_rule list" where
  "bank_rules spec = act_rules spec @ rd_rules spec @ wr_rules spec @ pre_rules spec @ col_rules spec"

lemma next_rd_after:
  "bs_next_rd (bank_after spec cmd d clk e b) =
     (if same_bank e d \<and> cmd \<in> {ACT, ACT1} then after spec clk (nRCDRD (ds_timing spec))
      else if same_bank e d \<and> cmd \<in> {RD, RDA} then after spec clk (nCCDL (ds_timing spec)) else bs_next_rd b)"
  by (cases cmd) (simp_all add: bank_after_def Let_def)

lemma next_wr_after:
  "bs_next_wr (bank_after spec cmd d clk e b) =
     (if same_bank e d \<and> cmd \<in> {ACT, ACT1} then after spec clk (nRCDWR (ds_timing spec))
      else if same_bank e d \<and> cmd \<in> {WR, WRA} then after spec clk (nCCDL (ds_timing spec)) else bs_next_wr b)"
  by (cases cmd) (simp_all add: bank_after_def Let_def)

lemma next_pre_after:
  "bs_next_pre (bank_after spec cmd d clk e b) =
     (if same_bank e d \<and> cmd \<in> {ACT, ACT1} then after spec clk (nRAS (ds_timing spec))
      else if same_bank e d \<and> cmd \<in> {RD, RDA} then max (bs_next_pre b) (after spec clk (nRTP (ds_timing spec)))
      else if same_bank e d \<and> cmd \<in> {WR, WRA} then max (bs_next_pre b) (after spec clk (write_recovery (ds_timing spec)))
      else bs_next_pre b)"
  by (cases cmd) (simp_all add: bank_after_def Let_def write_recovery_def)

lemma next_any_col_after:
  "bs_next_any_col (bank_after spec cmd d clk e b) =
     (if same_bank e d \<and> cmd \<in> {RD, RDA, WR, WRA} then after spec clk (nCCDL (ds_timing spec)) else bs_next_any_col b)"
  by (cases cmd) (simp_all add: bank_after_def Let_def)

lemma next_act_after:
  "bs_next_act (bank_after spec cmd d clk e b) =
     (let t = ds_timing spec; same = same_bank e d; rnk = same_scope ScRank e d in
      if same \<and> cmd \<in> {ACT, ACT1} then after spec clk (nRC t)
      else if same \<and> cmd \<in> {PRE, PREPB} then after spec clk (nRP t)
      else if same \<and> cmd = RDA then max (bs_next_act b) (u64_add (after spec clk (nRTP t)) (timing_delay spec (nRP t)))
      else if same \<and> cmd = WRA then max (bs_next_act b) (u64_add (after spec clk (nCWL t + nBL t + nWR t)) (timing_delay spec (nRP t)))
      else if same \<and> cmd = REFPB then after spec clk (nRFCpb t)
      else if same \<and> cmd = RFMPB then after spec clk (if nRFMpb t > 0 then nRFMpb t else nRFCpb t)
      else if same \<and> cmd = REFDB then after spec clk (nRFCpb t)
      else if same_bank e (lpddr_refdb_partner spec d) \<and> cmd = REFDB then max (bs_next_act b) (after spec clk (nRFCpb t))
      else if rnk \<and> cmd = PREAB then max (bs_next_act b) (after spec clk (if nRPab t > 0 then nRPab t else nRP t))
      else if rnk \<and> cmd = REFAB then max (bs_next_act b) (after spec clk (nRFC t))
      else if rnk \<and> cmd = RFMAB then max (bs_next_act b) (after spec clk (if nRFMab t > 0 then nRFMab t else nRFC t))
      else bs_next_act b)"
  by (cases cmd) (simp_all add: bank_after_def Let_def)

lemma busy_after:
  assumes "bank_allows spec cmd d clk e b"
  shows "bank_busy (bank_after spec cmd d clk e b) \<longrightarrow> bank_busy b \<or> same_bank e d \<and> cmd \<in> {ACT, ACT1}"
    and "same_bank e d \<Longrightarrow> cmd \<in> {PRE, PREPB, RDA, WRA} \<Longrightarrow> \<not> bank_busy (bank_after spec cmd d clk e b)"
    and "same_scope ScRank e d \<Longrightarrow> cmd = PREAB \<Longrightarrow> \<not> bank_busy (bank_after spec cmd d clk e b)"
  using assms by (cases cmd; simp add: bank_after_def bank_allows_def bank_busy_def Let_def)+

lemma pending_keepI:
  assumes "pending gate (\<lambda>_. False) bound clk b" and "gate b \<le> gate b' \<or> bound \<le> gate b' \<or> gate b \<le> clk"
  shows "pending gate (\<lambda>_. False) bound clk b'"
  using assms by (auto simp: pending_def)

lemma allowsD:
  assumes "bank_allows spec cmd d clk e b"
  shows "same_bank e d \<Longrightarrow> cmd \<in> {RD, RDA} \<Longrightarrow> bs_next_rd b \<le> clk"
    and "same_bank e d \<Longrightarrow> cmd \<in> {WR, WRA} \<Longrightarrow> bs_next_wr b \<le> clk"
    and "same_bank e d \<Longrightarrow> cmd \<in> {PRE, PREPB} \<Longrightarrow> bs_next_pre b \<le> clk"
    and "same_bank e d \<Longrightarrow> cmd \<in> {RD, RDA, WR, WRA} \<Longrightarrow> bs_next_any_col b \<le> clk"
    and "same_bank e d \<or> cmd = REFDB \<and> same_bank e (lpddr_refdb_partner spec d) \<Longrightarrow>
      cmd \<in> {ACT, ACT1, REFPB, REFDB, RFMPB} \<Longrightarrow> bs_next_act b \<le> clk \<and> \<not> bank_busy b"
    and "same_bank e d \<Longrightarrow> cmd \<in> {PRE, PREPB, RD, RDA, WR, WRA} \<Longrightarrow> bank_busy b"
    and "same_scope ScRank e d \<Longrightarrow> cmd \<in> {REFAB, RFMAB} \<Longrightarrow> \<not> bank_busy b"
    and "same_bank e d \<Longrightarrow> cmd \<in> {RD, RDA, WR, WRA} \<Longrightarrow> \<not> bs_activating b \<and> bs_open_row b = row d \<and> 0 \<le> bs_open_row b"
  using assms by (auto simp: bank_allows_def bank_busy_def)

interpretation rd: bank_gate rd_rules bs_next_rd "\<lambda>_. False"
proof (unfold_locales, goal_cases)
  case (1 scope ps fs gap spec clk p d e b)
  then show ?case by (auto simp: rd_rules_def occupies_def next_rd_after same_bank_scope exec_intsD)
next
  case (2 scope ps fs gap spec clk t cmd d e b)
  show ?case
    by (rule pending_keepI [OF 2(6)]) (use 2(1-4) allowsD(1) [OF 2(5)] in \<open>auto simp: rd_rules_def next_rd_after exec_intsD\<close>)
next
  case (3 scope ps fs gap spec f d e clk b)
  then show ?case using allowsD(1) [OF 3(4)] by (auto simp: rd_rules_def occupies_def same_bank_scope)
qed

interpretation wr: bank_gate wr_rules bs_next_wr "\<lambda>_. False"
proof (unfold_locales, goal_cases)
  case (1 scope ps fs gap spec clk p d e b)
  then show ?case by (auto simp: wr_rules_def occupies_def next_wr_after same_bank_scope exec_intsD)
next
  case (2 scope ps fs gap spec clk t cmd d e b)
  show ?case
    by (rule pending_keepI [OF 2(6)]) (use 2(1-4) allowsD(2) [OF 2(5)] in \<open>auto simp: wr_rules_def next_wr_after exec_intsD\<close>)
next
  case (3 scope ps fs gap spec f d e clk b)
  then show ?case using allowsD(2) [OF 3(4)] by (auto simp: wr_rules_def occupies_def same_bank_scope)
qed

interpretation pre: bank_gate pre_rules bs_next_pre "\<lambda>_. False"
proof (unfold_locales, goal_cases)
  case (1 scope ps fs gap spec clk p d e b)
  then show ?case by (auto simp: pre_rules_def occupies_def next_pre_after same_bank_scope exec_intsD)
next
  case (2 scope ps fs gap spec clk t cmd d e b)
  show ?case
    by (rule pending_keepI [OF 2(6)]) (use 2(1-4) allowsD(3) [OF 2(5)] in \<open>auto simp: pre_rules_def next_pre_after exec_intsD\<close>)
next
  case (3 scope ps fs gap spec f d e clk b)
  then show ?case using allowsD(3) [OF 3(4)] by (auto simp: pre_rules_def occupies_def same_bank_scope)
qed

interpretation col: bank_gate col_rules bs_next_any_col "\<lambda>_. False"
proof (unfold_locales, goal_cases)
  case (1 scope ps fs gap spec clk p d e b)
  then show ?case by (auto simp: col_rules_def occupies_def next_any_col_after same_bank_scope exec_intsD)
next
  case (2 scope ps fs gap spec clk t cmd d e b)
  show ?case
    by (rule pending_keepI [OF 2(6)]) (use 2(1-4) allowsD(4) [OF 2(5)] in \<open>auto simp: col_rules_def next_any_col_after exec_intsD\<close>)
next
  case (3 scope ps fs gap spec f d e clk b)
  then show ?case using allowsD(4) [OF 3(4)] by (auto simp: col_rules_def occupies_def same_bank_scope)
qed

interpretation act: bank_gate act_rules bs_next_act bank_busy
proof (unfold_locales, goal_cases)
  case (1 scope ps fs gap spec clk p d e b)
  have occ: "same_scope scope e d \<or> p = REFDB \<and> same_bank e (lpddr_refdb_partner spec d)"
    using 1(5) by (simp add: occupies_def same_bank_scope)
  have p: "p \<in> set ps" by (rule 1(4))
  consider (close) "same_bank e d" "p \<in> {PRE, PREPB, RDA, WRA}" | (all) "same_scope ScRank e d" "p = PREAB"
    | (ref) "same_bank e d \<or> p = REFDB \<and> same_bank e (lpddr_refdb_partner spec d)" "p \<in> {REFPB, REFDB, RFMPB}"
    | (refall) "same_scope ScRank e d" "p \<in> {REFAB, RFMAB}"
    using 1(1,4) occ by (auto simp: act_rules_def same_bank_scope Let_def)
  then have "\<not> bank_busy (bank_after spec p d clk e b)"
  proof cases
    case close
    then show ?thesis using busy_after(2) [OF 1(6)] by blast
  next
    case all
    then show ?thesis using busy_after(3) [OF 1(6)] by blast
  next
    case ref
    then have "\<not> bank_busy b" "p \<notin> {ACT, ACT1}" using allowsD(5) [OF 1(6)] by auto
    then show ?thesis using busy_after(1) [OF 1(6)] by blast
  next
    case refall
    then have "\<not> bank_busy b" "p \<notin> {ACT, ACT1}" using allowsD(7) [OF 1(6)] by auto
    then show ?thesis using busy_after(1) [OF 1(6)] by blast
  qed
  moreover have "clk + gap \<le> bs_next_act (bank_after spec p d clk e b)"
  proof -
    note ints = exec_intsD [OF 1(2,3)]
    from 1(1) show ?thesis
      unfolding act_rules_def Let_def list.set
    proof (elim insertE)
      assume "(scope, ps, fs, gap) = (ScBank, [PRE, PREPB], openers, nck spec (nRP (ds_timing spec)))"
      then show ?thesis using 1(4) occ by (auto simp: next_act_after ints same_bank_scope Let_def)
    next
      assume "(scope, ps, fs, gap) = (ScBank, [REFPB, REFDB], openers, nck spec (nRFCpb (ds_timing spec)))"
      then show ?thesis using 1(4) occ by (auto simp: next_act_after ints same_bank_scope Let_def)
    qed (use 1(4) occ in \<open>simp_all add: next_act_after ints same_bank_scope Let_def max.coboundedI2\<close>)
  qed
  ultimately show ?case by blast
next
  case (2 scope ps fs gap spec clk t cmd d e b)
  have settled: "t + gap \<le> clk" if "bank_busy b" using 2(6) that by (simp add: pending_def)
  have gated: "t + gap \<le> clk" if "bs_next_act b \<le> clk" using 2(6) that by (auto simp: pending_def)
  show ?case
  proof (cases "t + gap \<le> clk")
    case True
    then show ?thesis by (simp add: pending_def)
  next
    case False
    then have idle: "\<not> bank_busy b" and late: "\<not> bs_next_act b \<le> clk" and gate: "t + gap \<le> bs_next_act b"
      using settled gated 2(6) by (auto simp: pending_def)
    have n: "\<not> (same_bank e d \<and> cmd \<in> {ACT, ACT1, PRE, PREPB, REFPB, RFMPB, REFDB})"
      using allowsD(5,6) [OF 2(5)] idle late by blast
    then have "bs_next_act b \<le> bs_next_act (bank_after spec cmd d clk e b)"
      unfolding next_act_after Let_def by auto
    moreover have "\<not> bank_busy (bank_after spec cmd d clk e b)"
      using busy_after(1) [OF 2(5)] idle n by blast
    ultimately show ?thesis using gate by (simp add: pending_def)
  qed
next
  case (3 scope ps fs gap spec f d e clk b)
  then show ?case using allowsD(5) [OF 3(4)] by (auto simp: act_rules_def openers_def occupies_def same_bank_scope Let_def)
qed

end
