(* ===== verification/Controller_Timing.thy ===== *)
theory Controller_Timing
  imports Bank_Rules
begin

text \<open>
  The executor and the timing engine together: the histories of \<open>Bank_Rules\<close> are accepted histories
  of the timing engine, so every theorem on the constraint table applies to them.
\<close>

section \<open>The part of the engine the table uses\<close>

definition view :: "TimingEngine \<Rightarrow> (TimingScope \<Rightarrow> (Command \<Rightarrow> nat) list) \<times> RefdbState list" where
  "view te = ((\<lambda>s. map next_command (scope_vector s te)), refdb_states te)"

lemma view_length: "view te = view te' \<Longrightarrow> length (scope_vector s te) = length (scope_vector s te')"
  unfolding view_def by (metis fst_conv length_map)

lemma view_shape: "view te = view te' \<Longrightarrow> engine_shape spec te \<longleftrightarrow> engine_shape spec te'"
  by (simp add: engine_shape_def view_length [of te te'])

lemma view_ready:
  assumes "view te = view te'" and "i < length (scope_vector s te)"
  shows "ready_time te s i f = ready_time te' s i f"
proof -
  have "map next_command (scope_vector s te) = map next_command (scope_vector s te')"
    using assms(1) unfolding view_def by (metis fst_conv)
  then have "map next_command (scope_vector s te) ! i = map next_command (scope_vector s te') ! i" by simp
  then show ?thesis
    using assms view_length [OF assms(1)] by (simp add: ready_time_def)
qed

lemma view_refdb: "view te = view te' \<Longrightarrow> refdb_states te = refdb_states te'"
  by (simp add: view_def)

lemma viewI:
  assumes "engine_shape spec te" "engine_shape spec te'" "refdb_states te = refdb_states te'"
    and "\<And>s i f. i < scope_count spec s \<Longrightarrow> ready_time te s i f = ready_time te' s i f"
  shows "view te = view te'"
proof -
  have "map next_command (scope_vector s te) = map next_command (scope_vector s te')" for s
    using assms by (intro nth_equalityI) (auto simp: engine_shape_def ready_time_def intro!: ext simp del: scope_count.simps)
  then show ?thesis using assms(3) by (simp add: view_def)
qed

lemma view_constraint_ready:
  assumes "view te = view te'" and "engine_shape spec te"
  shows "constraint_ready spec d f clk te = constraint_ready spec d f clk te'"
proof -
  have "next_command (scope_state spec s x te) f = next_command (scope_state spec s x te') f" for s x
    using view_ready [OF assms(1), of "scope_index spec s x" s f] assms(2)
    by (simp add: ready_time_def scope_state_def engine_shape_def del: scope_count.simps)
  then show ?thesis
    by (simp add: constraint_ready_def view_refdb [OF assms(1)])
qed

lemma view_apply_constraints:
  assumes "view te = view te'" and "engine_shape spec te"
  shows "view (apply_constraints spec d p clk te) = view (apply_constraints spec d p clk te')"
proof (rule viewI)
  have sh: "engine_shape spec te'" using view_shape [OF assms(1)] assms(2) by simp
  show "engine_shape spec (apply_constraints spec d p clk te)" "engine_shape spec (apply_constraints spec d p clk te')"
    using apply_constraints_ready(2) [OF assms(2)] apply_constraints_ready(2) [OF sh] by auto
  show "refdb_states (apply_constraints spec d p clk te) = refdb_states (apply_constraints spec d p clk te')"
    using view_refdb [OF assms(1)] by (simp add: apply_refdb_def Let_def case_prod_unfold)
  show "ready_time (apply_constraints spec d p clk te) s i f = ready_time (apply_constraints spec d p clk te') s i f"
    if "i < scope_count spec s" for s i f
  proof -
    have "ready_time te s i f = ready_time te' s i f"
      using view_ready [OF assms(1)] that assms(2) by (simp add: engine_shape_def del: scope_count.simps)
    then have "ready_time (apply_constraints spec d p clk te) s i f \<le> t \<longleftrightarrow> ready_time (apply_constraints spec d p clk te') s i f \<le> t" for t
      using apply_constraints_ready(1) [OF assms(2)] apply_constraints_ready(1) [OF sh] by simp
    then show ?thesis by (metis order_refl order_antisym)
  qed
qed

section \<open>What the executor adds\<close>

lemma scope_vector_other [simp]:
  "scope_vector s (te\<lparr>row_scopes := v\<rparr>) = scope_vector s te" "scope_vector s (te\<lparr>column_scopes := v\<rparr>) = scope_vector s te"
  "scope_vector s (te\<lparr>wck_scopes := v\<rparr>) = scope_vector s te" "scope_vector s (te\<lparr>activation_scopes := v\<rparr>) = scope_vector s te"
  by (cases s; simp)+

lemma view_upd [simp]:
  "view (ex_timing (upd_row spec d f s)) = view (ex_timing s)" "view (ex_timing (upd_col spec d f s)) = view (ex_timing s)"
  "view (ex_timing (upd_wck spec d f s)) = view (ex_timing s)" "view (ex_timing (row_next spec d t s)) = view (ex_timing s)"
  "view (ex_timing (count_command c s)) = view (ex_timing s)" "view (ex_timing (upd_stats g s)) = view (ex_timing s)"
  "view (ex_timing (put_bank i b s)) = view (ex_timing s)"
  "view (record_activate spec d clk te) = view te" "view (prune_recent_acts spec clk te) = view te"
  by (simp_all add: view_def upd_row_def upd_col_def upd_wck_def row_next_def count_command_def upd_stats_def put_bank_def
      record_activate_def prune_recent_acts_def Let_def)

lemma view_upd_bg:
  assumes "\<And>x. next_command (f x) = next_command x"
  shows "view (ex_timing (upd_bg spec d f s)) = view (ex_timing s)"
proof -
  have *: "map next_command (v[i := f (v ! i)]) = map next_command v" for v i
    using assms by (metis list_update_id map_update)
  have "map next_command (scope_vector sc (te\<lparr>bank_group_scopes := (bank_group_scopes te)[i := f (bank_group_scopes te ! i)]\<rparr>))
      = map next_command (scope_vector sc te)" for sc te i
    using * by (cases sc) simp_all
  then show ?thesis by (simp add: view_def upd_bg_def Let_def)
qed

lemma exec_switch_plain:
  assumes "cmd \<notin> {ACT, ACT1, RD, RDA, WR, WRA, RFMPB, PREAB, REFAB, RFMAB, REFDB}"
  shows "\<exists>x y z. exec_switch spec req cmd clk b s = Inr (x, y, z) \<and> view (ex_timing z) = view (ex_timing s)
    \<and> rq_decoded y = rq_decoded req"
  using assms by (cases cmd; simp add: exec_switch_simps)

lemma exec_switch_view:
  assumes "exec_switch spec req cmd clk b s = Inr (c, req', s')"
  shows "view (ex_timing s') = view (ex_timing s) \<and> rq_decoded req' = rq_decoded req"
proof -
  have act: "view (ex_timing s') = view (ex_timing s) \<and> req' = req"
    if "exec_activate spec req clk cmd s = Inr (c, req', s')" for req cmd s
    using that by (auto simp: exec_activate_def Let_def rbind_eq_Inr view_upd_bg)
  have dat: "view (ex_timing s') = view (ex_timing s) \<and> rq_decoded req' = rq_decoded req"
    if "exec_data spec req clk cmd l s = Inr (c, req', s')" for req cmd l s
    using that by (auto simp: exec_data_def Let_def view_upd_bg split: if_splits)
  consider "cmd \<in> {ACT, ACT1}" | "cmd \<in> {RD, RDA, WR, WRA}" | "cmd \<in> {RFMPB, PREAB, REFAB, RFMAB, REFDB}"
    | "cmd \<notin> {ACT, ACT1, RD, RDA, WR, WRA, RFMPB, PREAB, REFAB, RFMAB, REFDB}" by blast
  then show ?thesis
  proof cases
    case 1
    then show ?thesis using assms by (auto simp: exec_switch_simps Let_def dest!: act)
  next
    case 2
    then show ?thesis using assms by (auto simp: exec_switch_simps Let_def dest!: dat)
  next
    case 3
    then show ?thesis using assms by (auto simp: exec_switch_simps Let_def rbind_eq_Inr)
  next
    case 4
    then show ?thesis using exec_switch_plain [of cmd spec req clk b s] assms by auto
  qed
qed

section \<open>Composition\<close>

lemma accepted_snoc:
  "accepted spec te (h @ [(cmd, d, clk)]) \<longleftrightarrow> accepted spec te h \<and> constraint_ready spec d cmd clk (fold (issue_one spec) h te)"
proof (induction h arbitrary: te)
  case (Cons x h)
  then show ?case by (cases x) simp
qed simp

lemma issues_accepted:
  assumes "issues fc spec h s"
  shows "\<exists>te. TimingEngine_reset fc spec = Inr te \<and> accepted spec te h
    \<and> view (ex_timing s) = view (fold (issue_one spec) h te) \<and> engine_shape spec (fold (issue_one spec) h te)"
  using assms
proof (induction rule: issues.induct)
  case (start s)
  then obtain te where "TimingEngine_reset fc spec = Inr te" "ex_timing s = te"
    by (auto simp: ExecState_new_def rbind_eq_Inr)
  then show ?case using reset_engine(2) [of fc spec te] by auto
next
  case (prune h s clk)
  then show ?case by auto
next
  case (issue h s ct req cmd c req' s')
  let ?d = "rq_decoded req" and ?clk = "ct_clk ct"
  obtain te where te: "TimingEngine_reset fc spec = Inr te" "accepted spec te h"
    "view (ex_timing s) = view (fold (issue_one spec) h te)" "engine_shape spec (fold (issue_one spec) h te)"
    using issue.IH by blast
  have wf: "dims_ok spec" "exec_wf spec s" using issues_wf [OF issue.hyps(1)] by blast+
  have sh: "engine_shape spec (ex_timing s)" using view_shape [OF te(3)] te(4) by simp
  have "constraint_ready spec ?d cmd ?clk (ex_timing s)"
    using timing_ok_parts(3) [of spec ct req cmd] wf issue.hyps(2,3,6) by simp
  then have acc: "accepted spec te (h @ [(cmd, ?d, ?clk)])"
    using te(2) view_constraint_ready [OF te(3) sh] by (simp add: accepted_snoc)
  obtain x y s1 where x: "exec_switch spec req cmd ?clk (bank_of spec s ?d) s = Inr (x, y, s1)"
    "s' = s1\<lparr>ex_timing := apply_constraints spec (rq_decoded y) cmd ?clk (ex_timing s1)\<rparr>"
    using issue.hyps(7) at_bank_of [OF wf(2) issue.hyps(3)] by (auto simp: executor_issue_def rbind_eq_Inr)
  note s1 = conjunct1 [OF exec_switch_view [OF x(1)]] x(2) [unfolded conjunct2 [OF exec_switch_view [OF x(1)]]]
  have "engine_shape spec (ex_timing s1)" using view_shape [OF s1(1)] sh by simp
  then have "view (ex_timing s') = view (issue_one spec (cmd, ?d, ?clk) (fold (issue_one spec) h te))"
    using view_apply_constraints [of "ex_timing s1"] s1 te(3) by (simp add: issue_one_def)
  moreover have "engine_shape spec (issue_one spec (cmd, ?d, ?clk) (fold (issue_one spec) h te))"
    using apply_constraints_ready(2) [OF te(4)] by (simp add: issue_one_def)
  ultimately show ?case using te(1) acc by auto
qed

lemma issues_clocks: "issues fc spec h s \<Longrightarrow> \<forall>(p, e, t) \<in> set h. in_range spec e \<and> t < 2 ^ 63"
  by (induction rule: issues.induct) auto

section \<open>The bank protocol\<close>

datatype bank_proto = Idle | Opening | Active int

definition abs_bank :: "BankState \<Rightarrow> bank_proto" where
  "abs_bank b = (if bs_activating b then Opening else if bs_open_row b \<ge> 0 then Active (bs_open_row b) else Idle)"

definition proto_step :: "DecodedAddress \<Rightarrow> issue \<Rightarrow> bank_proto \<Rightarrow> bank_proto" where
  "proto_step e x p = (case x of (cmd, d, t) \<Rightarrow>
     if same_bank e d \<and> cmd \<in> {ACT, ACT2} then Active (row d)
     else if same_bank e d \<and> cmd = ACT1 then Opening
     else if same_bank e d \<and> cmd \<in> {PRE, PREPB, RDA, WRA} \<or> same_scope ScRank e d \<and> cmd = PREAB then Idle
     else p)"

lemma open_row_after:
  "bs_open_row (bank_after spec cmd d clk e b) =
     (if same_bank e d \<and> cmd \<in> {ACT, ACT2} then row d
      else if same_bank e d \<and> cmd \<in> {PRE, PREPB, RDA, WRA} \<or> same_scope ScRank e d \<and> cmd = PREAB then -1
      else bs_open_row b)"
  by (cases cmd) (simp_all add: bank_after_def Let_def)

lemma activating_after:
  "bs_activating (bank_after spec cmd d clk e b) =
     (if same_bank e d \<and> cmd = ACT1 then True
      else if same_bank e d \<and> cmd \<in> {ACT2, PRE, PREPB} \<or> same_scope ScRank e d \<and> cmd = PREAB then False
      else bs_activating b)"
  by (cases cmd) (simp_all add: bank_after_def Let_def)

lemma abs_bank_after:
  assumes "bank_allows spec cmd d clk e b" and "0 \<le> row d"
  shows "abs_bank (bank_after spec cmd d clk e b) = proto_step e (cmd, d, clk) (abs_bank b)"
proof -
  have "same_bank e d \<Longrightarrow> cmd \<in> {ACT, RDA, WRA} \<Longrightarrow> \<not> bs_activating b"
    using assms(1) by (auto simp: bank_allows_def bank_busy_def)
  then show ?thesis
    using assms(2) by (auto simp: abs_bank_def proto_step_def open_row_after activating_after)
qed

lemma issues_protocol:
  assumes "issues fc spec h s" and "in_range spec e"
  shows "abs_bank (bank_of spec s e) = fold (proto_step e) h Idle"
  using assms
proof (induction rule: issues.induct)
  case (start s)
  then show ?case using new_wf(3) [OF start(1,2)] by (simp add: abs_bank_def BankState_init_def)
next
  case (prune h s clk)
  then show ?case by (simp add: bank_of_def)
next
  case (issue h s ct req cmd c req' s')
  have "0 \<le> row (rq_decoded req)" using issue.hyps(3) by (simp add: in_range_def digit_ok_def Let_def)
  then show ?case
    using issue_step [OF issue.hyps(1-3,6,7) issue.prems] issue.IH issue.prems
    by (simp add: abs_bank_after)
qed

section \<open>A run on an HBM device\<close>

lemma other_scopes_set [simp]:
  "row_scopes (set_scope_vector s v te) = row_scopes te" "column_scopes (set_scope_vector s v te) = column_scopes te"
  "activation_scopes (set_scope_vector s v te) = activation_scopes te"
  by (cases s; simp)+

lemma update_ready_col [simp]: "next_col (update_ready c r x) = next_col x"
  by (simp add: update_ready_def)

lemma bg_fields_mutable:
  "map next_col (bank_group_scopes (mutable_scope s i (update_ready c r) te)) = map next_col (bank_group_scopes te)"
proof -
  have "map next_col (v[i := update_ready c r (v ! i)]) = map next_col v" for v
    by (metis list_update_id map_update update_ready_col)
  then show ?thesis by (cases s) (simp_all add: mutable_scope_def Let_def)
qed

definition gates :: "TimingEngine \<Rightarrow> TimingScopeState list \<times> TimingScopeState list \<times> TimingScopeState list \<times> nat list" where
  "gates te = (row_scopes te, column_scopes te, activation_scopes te, map next_col (bank_group_scopes te))"

lemma gates_mutable [simp]: "gates (mutable_scope s i (update_ready c r) te) = gates te"
  using bg_fields_mutable [of s i c r te] by (simp add: gates_def) (simp add: mutable_scope_def Let_def)

lemma gates_apply_constraint [simp]: "gates (apply_constraint spec d p clk c te) = gates te"
proof -
  have "gates (fold (\<lambda>i te. if i \<noteq> cur then mutable_scope s i (update_ready c r) te else te) is te) = gates te" for cur s r "is"
    by (induction "is" arbitrary: te) simp_all
  then show ?thesis by (simp add: apply_constraint_def Let_def case_prod_unfold)
qed

lemma gates_apply_constraints [simp]: "gates (apply_constraints spec d p clk te) = gates te"
proof -
  have "gates (fold (apply_constraint spec d p clk) cs te) = gates te" for cs te
    by (induction cs arbitrary: te) simp_all
  moreover have "gates (apply_refdb spec d p clk te) = gates te"
    by (simp add: gates_def apply_refdb_def Let_def case_prod_unfold)
  ultimately show ?thesis by (simp add: apply_constraints_def)
qed

definition demo_queues :: RequestQueues where
  "demo_queues = \<lparr>queue = (\<lambda>_. []), limit = (\<lambda>_. 16), active_counts = replicate 16 0\<rparr>"

definition demo_controller :: "nat \<Rightarrow> ExecState \<Rightarrow> Controller" where
  "demo_controller clk s = \<lparr>ct_row_policy_kind = OpenPage, ct_exec = s, ct_queues = demo_queues, ct_clk = clk,
     ct_rising_edge = RisingEdgeCommandInfo_init, ct_low_power_active = False, ct_explicit_power_down_active = False,
     ct_explicit_self_refresh_active = False, ct_wck_retrain_required = False\<rparr>"

lemma hbm_demo_new:
  "\<exists>s. ExecState_new demo_float hbm_demo = Inr s
     \<and> gates (ex_timing s) = ([TimingScopeState_init], [TimingScopeState_init], [TimingScopeState_init], [0, 0, 0, 0])
     \<and> bank_group_scopes (ex_timing s) ! 0 = TimingScopeState_init"
proof -
  have "\<exists>m. rfm_reset demo_float hbm_demo = Inr m" by (simp add: rfm_reset_def hbm_demo_valid hbm_demo_banks)
  moreover obtain te where te: "TimingEngine_reset demo_float hbm_demo = Inr te" using hbm_demo_reset by blast
  moreover have "gates te = ([TimingScopeState_init], [TimingScopeState_init], [TimingScopeState_init], [0, 0, 0, 0])
      \<and> bank_group_scopes te ! 0 = TimingScopeState_init"
    using te by (auto simp: TimingEngine_reset_def rbind_eq_Inr Let_def gates_def hbm_demo_def DramSpec_init_def Organization_init_def
        at_least_1_def TimingScopeState_init_def numeral_eq_Suc)
  ultimately show ?thesis by (auto simp: ExecState_new_def hbm_demo_valid hbm_demo_banks)
qed

lemma hbm_demo_org [simp]:
  "scope_index hbm_demo (ds_row_bus_scope hbm_demo) DecodedAddress_init = 0"
  "scope_index hbm_demo (ds_column_bus_scope hbm_demo) DecodedAddress_init = 0"
  "scope_index hbm_demo (ds_activation_scope hbm_demo) DecodedAddress_init = 0"
  "scope_index hbm_demo ScBankGroup DecodedAddress_init = 0"
  "ds_lpddr_family hbm_demo = False" "ds_split_activate hbm_demo = False" "ds_lpddr_dual_bank_refresh hbm_demo = False"
  "banks_per_channel hbm_demo = Inr 16"
  by (simp_all add: hbm_demo_def DramSpec_init_def Organization_init_def scope_index_simps clamp_dim_def at_least_1_def
      DecodedAddress_init_def banks_per_channel_def checked_product_def as_int_def u64_max_def u64_mul_def int_max_def Let_def)

lemma issues_constraint_ready:
  assumes "issues fc spec h s" and "\<not> (ds_lpddr_dual_bank_refresh spec \<and> f = REFDB)"
  shows "constraint_ready spec d f clk (ex_timing s) \<longleftrightarrow> (\<forall>(p, e, t) \<in> set h. \<forall>c \<in> set (ds_timing_constraints spec).
      restricts spec c p e (tc_scope c) (scope_index spec (tc_scope c) d) f \<longrightarrow> ready_at spec c t \<le> clk)"
proof -
  obtain te where te: "TimingEngine_reset fc spec = Inr te" "view (ex_timing s) = view (fold (issue_one spec) h te)"
    "engine_shape spec (fold (issue_one spec) h te)"
    using issues_accepted [OF assms(1)] by blast
  then have "engine_shape spec (ex_timing s)" using view_shape [OF te(2)] by simp
  then show ?thesis
    using view_constraint_ready [OF te(2)] constraint_ready_history [OF te(1) assms(2)] by simp
qed

lemma gates_activate:
  assumes "executor_issue spec req ACT clk s = Inr (c, req', s')"
  shows "row_scopes (ex_timing s') = (let i = scope_index spec (ds_row_bus_scope spec) (rq_decoded req); v = row_scopes (ex_timing s)
      in v[i := (v ! i)\<lparr>next_row := u64_add clk 1, next_act := after spec clk (nRRDS (ds_timing spec))\<rparr>])"
    and "column_scopes (ex_timing s') = column_scopes (ex_timing s)"
    and "map next_col (bank_group_scopes (ex_timing s')) = map next_col (bank_group_scopes (ex_timing s))"
proof -
  obtain b x y s1 where x: "exec_switch spec req ACT clk b s = Inr (x, y, s1)"
    "ex_timing s' = apply_constraints spec (rq_decoded y) ACT clk (ex_timing s1)"
    using assms by (auto simp: executor_issue_def rbind_eq_Inr)
  have g: "gates (ex_timing s') = gates (ex_timing s1)" by (simp add: x(2))
  have bg: "map next_col (v[i := (v ! i)\<lparr>next_act := t\<rparr>]) = map next_col v" for v i t
    by (metis (mono_tags, lifting) list_update_id map_update TimingScopeState.select_convs(3) TimingScopeState.surjective TimingScopeState.update_convs(2))
  have "row_scopes (ex_timing s1) = (let i = scope_index spec (ds_row_bus_scope spec) (rq_decoded req); v = row_scopes (ex_timing s)
      in v[i := (v ! i)\<lparr>next_row := u64_add clk 1, next_act := after spec clk (nRRDS (ds_timing spec))\<rparr>])
    \<and> column_scopes (ex_timing s1) = column_scopes (ex_timing s)
    \<and> map next_col (bank_group_scopes (ex_timing s1)) = map next_col (bank_group_scopes (ex_timing s))"
    using x(1) by (auto simp: exec_switch_simps exec_activate_def rbind_eq_Inr Let_def count_command_def upd_stats_def upd_row_def
        upd_bg_def put_bank_def record_activate_def bg)
  then show "row_scopes (ex_timing s') = (let i = scope_index spec (ds_row_bus_scope spec) (rq_decoded req); v = row_scopes (ex_timing s)
      in v[i := (v ! i)\<lparr>next_row := u64_add clk 1, next_act := after spec clk (nRRDS (ds_timing spec))\<rparr>])"
    "column_scopes (ex_timing s') = column_scopes (ex_timing s)"
    "map next_col (bank_group_scopes (ex_timing s')) = map next_col (bank_group_scopes (ex_timing s))"
    using g by (simp_all add: gates_def)
qed

lemma gates_read:
  assumes "executor_issue spec req RD clk s = Inr (c, req', s')"
  shows "row_scopes (ex_timing s') = row_scopes (ex_timing s)"
proof -
  obtain b x y s1 where x: "exec_switch spec req RD clk b s = Inr (x, y, s1)"
    "ex_timing s' = apply_constraints spec (rq_decoded y) RD clk (ex_timing s1)"
    using assms by (auto simp: executor_issue_def rbind_eq_Inr)
  have "row_scopes (ex_timing s1) = row_scopes (ex_timing s)"
    using x(1) by (auto simp: exec_switch_simps exec_data_def Let_def count_command_def upd_stats_def upd_col_def upd_wck_def
        upd_bg_def put_bank_def split: if_splits)
  moreover have "gates (ex_timing s') = gates (ex_timing s1)" by (simp add: x(2))
  ultimately show ?thesis by (simp add: gates_def)
qed

definition demo_refab :: Request where
  "demo_refab = Request_init\<lparr>rq_type := ReqMaintenance, rq_next := REFAB\<rparr>"

lemma demo_requests [simp]:
  "rq_decoded Request_init = DecodedAddress_init" "is_maintenance_request Request_init = False"
  "rq_decoded demo_refab = DecodedAddress_init" "is_maintenance_request demo_refab = True" "rq_next demo_refab = REFAB"
  "rq_type Request_init = ReqRead" "row DecodedAddress_init = 0"
  "rq_issued_first_activate Request_init = False" "rq_issued_first_activate demo_refab = False"
  by (simp_all add: Request_init_def demo_refab_def is_maintenance_request_def DecodedAddress_init_def)

lemma demo_controller_simps [simp]:
  "ct_exec (demo_controller clk s) = s" "ct_clk (demo_controller clk s) = clk" "ct_queues (demo_controller clk s) = demo_queues"
  "ct_wck_retrain_required (demo_controller clk s) = False"
  by (simp_all add: demo_controller_def)

lemma demo_busy_channel: "\<exists>x. any_bank_busy_in_channel hbm_demo DecodedAddress_init (demo_controller clk s) = Inr x"
  by (simp add: any_bank_busy_in_channel_def Let_def)

lemma hbm_demo_act: "after hbm_demo 10 (nRCDRD (ds_timing hbm_demo)) = 50"
  by (simp add: after_def timing_delay_def hbm_demo_def DramSpec_init_def Timing_init_def u64_add_def u64_mul_def)

lemma demo_act:
  "\<exists>s. issues demo_float hbm_demo [(ACT, DecodedAddress_init, 10)] s
     \<and> row_scopes (ex_timing s) = [TimingScopeState_init\<lparr>next_row := 11, next_act := after hbm_demo 10 (nRRDS (ds_timing hbm_demo))\<rparr>]
     \<and> column_scopes (ex_timing s) = [TimingScopeState_init] \<and> map next_col (bank_group_scopes (ex_timing s)) = [0, 0, 0, 0]
     \<and> bs_open_row (bank_of hbm_demo s DecodedAddress_init) = 0 \<and> \<not> bs_activating (bank_of hbm_demo s DecodedAddress_init)
     \<and> bs_next_rd (bank_of hbm_demo s DecodedAddress_init) = 50 \<and> bs_next_any_col (bank_of hbm_demo s DecodedAddress_init) = 0"
proof -
  let ?d = DecodedAddress_init
  obtain s where s: "ExecState_new demo_float hbm_demo = Inr s" "bank_group_scopes (ex_timing s) ! 0 = TimingScopeState_init"
    "gates (ex_timing s) = ([TimingScopeState_init], [TimingScopeState_init], [TimingScopeState_init], [0, 0, 0, 0])"
    using hbm_demo_new by blast
  have st: "issues demo_float hbm_demo [] s" using s(1) by (rule issues.start)
  note wf = new_wf [OF s(1)]
  let ?ct = "demo_controller 10 s"
  have init: "bank_of hbm_demo s ?d = BankState_init" by (rule wf(3) [OF hbm_demo_range])
  have cr: "constraint_ready hbm_demo ?d ACT 10 (ex_timing s)"
    using issues_constraint_ready [OF st, of ACT] by simp
  have ok: "timing_ok hbm_demo Request_init ACT ?ct = Inr True"
    using demo_busy_channel [of 10 s] s(2,3) cr
    by (auto simp: timing_ok_def state_ok_def at_bank_of [OF wf(2) hbm_demo_range] init check_command_state_def snapshot_def
        constraint_timing_ok_def timing_switch_def row_state_def bank_group_state_def faw_ready_def gates_def TimingScopeState_init_def
        BankState_init_def Let_def)
  obtain c r' s' where s': "executor_issue hbm_demo Request_init ACT 10 s = Inr (c, r', s')"
    "bank_of hbm_demo s' ?d = bank_after hbm_demo ACT ?d 10 ?d BankState_init"
    using executor_issue_banks [OF wf(1,2), of Request_init ACT 10] hbm_demo_range init by (metis demo_requests(1))
  have "issues demo_float hbm_demo ([] @ [(ACT, rq_decoded Request_init, ct_clk ?ct)]) s'"
    by (rule issues.issue [OF st]) (use ok s'(1) hbm_demo_range in simp_all)
  moreover have "bs_open_row (bank_of hbm_demo s' ?d) = 0" "\<not> bs_activating (bank_of hbm_demo s' ?d)"
    "bs_next_rd (bank_of hbm_demo s' ?d) = 50" "bs_next_any_col (bank_of hbm_demo s' ?d) = 0"
    by (simp_all add: s'(2) open_row_after activating_after next_rd_after next_any_col_after hbm_demo_act BankState_init_def)
  moreover have "row_scopes (ex_timing s') = [TimingScopeState_init\<lparr>next_row := 11, next_act := after hbm_demo 10 (nRRDS (ds_timing hbm_demo))\<rparr>]"
    "column_scopes (ex_timing s') = [TimingScopeState_init]" "map next_col (bank_group_scopes (ex_timing s')) = [0, 0, 0, 0]"
    using gates_activate [OF s'(1)] s(3) by (simp_all add: gates_def u64_add_def Let_def)
  ultimately show ?thesis by auto
qed

lemma demo_read:
  "\<exists>s. issues demo_float hbm_demo [(ACT, DecodedAddress_init, 10), (RD, DecodedAddress_init, 50)] s
     \<and> next_row (row_state hbm_demo DecodedAddress_init (ex_timing s)) = 11
     \<and> bank_busy (bank_of hbm_demo s DecodedAddress_init) \<and> bs_open_row (bank_of hbm_demo s DecodedAddress_init) = 0"
proof -
  let ?d = DecodedAddress_init
  obtain s where st: "issues demo_float hbm_demo [(ACT, ?d, 10)] s"
    and g: "row_scopes (ex_timing s) = [TimingScopeState_init\<lparr>next_row := 11, next_act := after hbm_demo 10 (nRRDS (ds_timing hbm_demo))\<rparr>]"
     "column_scopes (ex_timing s) = [TimingScopeState_init]" "map next_col (bank_group_scopes (ex_timing s)) = [0, 0, 0, 0]"
    and b: "bs_open_row (bank_of hbm_demo s ?d) = 0" "\<not> bs_activating (bank_of hbm_demo s ?d)"
     "bs_next_rd (bank_of hbm_demo s ?d) = 50" "bs_next_any_col (bank_of hbm_demo s ?d) = 0"
    using demo_act by (elim exE conjE) (rule that)
  have wf: "dims_ok hbm_demo" "exec_wf hbm_demo s" using issues_wf [OF st] by blast+
  have "bank_group_scopes (ex_timing s) \<noteq> []" "next_col (hd (bank_group_scopes (ex_timing s))) = 0"
    using g(3) by (cases "bank_group_scopes (ex_timing s)"; simp)+
  then have bg: "next_col (bank_group_scopes (ex_timing s) ! 0) = 0" by (simp add: hd_conv_nth)
  let ?ct = "demo_controller 50 s"
  have "\<forall>c \<in> set (ds_timing_constraints hbm_demo). tc_window c \<le> 0 \<and> ACT \<in> set (tc_preceding c) \<and> RD \<in> set (tc_following c)
      \<longrightarrow> ready_at hbm_demo c 10 \<le> 50"
    by (simp add: hbm_demo_def make_hbm_constraints_def Timing_init_def DramSpec_init_def tc_def tc_sibling_def ready_at_def
        timing_delay_def u64_add_def u64_mul_def Let_def)
  then have cr: "constraint_ready hbm_demo ?d RD 50 (ex_timing s)"
    using issues_constraint_ready [OF st, of RD] by (simp add: restricts_def)
  have ok: "timing_ok hbm_demo Request_init RD ?ct = Inr True"
    using demo_busy_channel [of 50 s] g b bg cr
    by (auto simp: timing_ok_def state_ok_def at_bank_of [OF wf(2) hbm_demo_range] check_command_state_def snapshot_def
        constraint_timing_ok_def timing_switch_def column_state_def bank_group_state_def TimingScopeState_init_def Let_def)
  obtain c r' s' where s': "executor_issue hbm_demo Request_init RD 50 s = Inr (c, r', s')"
    "bank_of hbm_demo s' ?d = bank_after hbm_demo RD ?d 50 ?d (bank_of hbm_demo s ?d)"
    using executor_issue_banks [OF wf, of Request_init RD 50] hbm_demo_range by (metis demo_requests(1))
  have "issues demo_float hbm_demo ([(ACT, ?d, 10)] @ [(RD, rq_decoded Request_init, ct_clk ?ct)]) s'"
    by (rule issues.issue [OF st]) (use ok s'(1) hbm_demo_range in simp_all)
  moreover have "next_row (row_state hbm_demo ?d (ex_timing s')) = 11"
    using gates_read [OF s'(1)] g(1) by (simp add: row_state_def)
  moreover have "bank_busy (bank_of hbm_demo s' ?d)" "bs_open_row (bank_of hbm_demo s' ?d) = 0"
    using b(1) by (simp_all add: s'(2) bank_busy_def open_row_after)
  ultimately show ?thesis by auto
qed

section \<open>Properties\<close>

text \<open>
  C9: In every sequence of commands that the controller's gates accept and the executor performs, from
  the constructed state on and whatever the queues, the scheduler and the power flags do, two commands
  keep the distances of the constraint table that relate their coordinates, and the following ones of a
  bank they share. Activate to read and write: nRCDRD, nRCDWR. Activate to PRE and PREpb: nRAS. Column
  command to column command: nCCDL. From these to a command that opens or refreshes the bank (ACT, ACT1,
  REFpb, REFdb, RFMpb): nRP after PRE and PREpb, the read or write recovery and nRP after RDA and WRA,
  nRPab (nRP where it is 0) after PREab of the rank, and the duration of a refresh or RFM command after
  REFpb, REFdb and RFMpb of the bank and REFab and RFMab of the rank. Outside the table nothing is claimed of
  an all-bank precharge that follows an activate or a column command, nor of REFab and RFMab after a
  precharge. Clocks are below $2^{63}$ and the timing parameters are 32-bit numbers.
\<close>

theorem issued_commands_respect_timing:
  assumes "issues fc spec h s" and "spec_ints spec" "exec_ints spec"
    and "i < j" "j < length h" "h ! i = (p, d, t)" "h ! j = (f, d', u)"
  shows "(\<forall>c \<in> set (ds_timing_constraints spec). binds spec c p d f d' \<longrightarrow> t + min_gap spec c \<le> u)
    \<and> (\<forall>(scope, ps, fs, gap) \<in> set (bank_rules spec). \<forall>e. p \<in> set ps \<and> f \<in> set fs \<and> in_range spec e
         \<and> occupies spec scope p d e \<and> occupies spec ScBank f d' e \<longrightarrow> t + gap \<le> u)"
proof (intro conjI)
  obtain te where te: "TimingEngine_reset fc spec = Inr te" "accepted spec te h"
    using issues_accepted [OF assms(1)] by blast
  show "\<forall>c \<in> set (ds_timing_constraints spec). binds spec c p d f d' \<longrightarrow> t + min_gap spec c \<le> u"
    using accepted_commands_respect_constraints [OF te(1) assms(2) te(2) issues_clocks [OF assms(1)] assms(4-7)] by blast
next
  have enforced: "t + gap \<le> u" if "(scope, ps, fs, gap) \<in> set (bank_rules spec)" "p \<in> set ps" "f \<in> set fs" "in_range spec e"
      "occupies spec scope p d e" "occupies spec ScBank f d' e" for scope ps fs gap e
    using that(1) act.rule_enforced [OF assms(1,3) _ assms(4-7) that(2-6)] rd.rule_enforced [OF assms(1,3) _ assms(4-7) that(2-6)]
      wr.rule_enforced [OF assms(1,3) _ assms(4-7) that(2-6)] pre.rule_enforced [OF assms(1,3) _ assms(4-7) that(2-6)]
      col.rule_enforced [OF assms(1,3) _ assms(4-7) that(2-6)]
    unfolding bank_rules_def set_append by blast
  show "\<forall>(scope, ps, fs, gap) \<in> set (bank_rules spec). \<forall>e. p \<in> set ps \<and> f \<in> set fs \<and> in_range spec e
         \<and> occupies spec scope p d e \<and> occupies spec ScBank f d' e \<longrightarrow> t + gap \<le> u"
    by (rule ballI, unfold split_paired_all prod.case, intro allI impI, elim conjE, rule enforced)
qed

lemma hbm_demo_exec_ints: "exec_ints hbm_demo"
  by (simp add: exec_ints_def hbm_demo_def DramSpec_init_def Timing_init_def int32_def write_recovery_def Let_def)

theorem issued_commands_respect_timing_witness:
  "\<exists>s. issues demo_float hbm_demo [(ACT, DecodedAddress_init, 10), (RD, DecodedAddress_init, 50)] s
     \<and> 10 + nck hbm_demo (nRCDRD (ds_timing hbm_demo)) \<le> 50"
proof -
  let ?d = DecodedAddress_init
  obtain s where s: "issues demo_float hbm_demo [(ACT, ?d, 10), (RD, ?d, 50)] s"
    using demo_read by blast
  have rule: "(ScBank, [ACT, ACT1], [RD, RDA], nck hbm_demo (nRCDRD (ds_timing hbm_demo))) \<in> set (bank_rules hbm_demo)"
    by (simp add: bank_rules_def rd_rules_def)
  have "occupies hbm_demo ScBank ACT ?d ?d" "occupies hbm_demo ScBank RD ?d ?d"
    by (simp_all add: occupies_def same_scope_def)
  with bspec [OF conjunct2 [OF issued_commands_respect_timing [OF s hbm_demo_ints hbm_demo_exec_ints,
      of 0 1 ACT ?d 10 RD ?d 50]] rule] hbm_demo_range s show ?thesis
    by auto
qed

lemma banks_follow_protocol:
  assumes "issues fc spec h s" and "in_range spec e"
  shows "abs_bank (bank_of spec s e) = fold (proto_step e) h Idle
    \<and> (\<forall>j < length h. \<forall>f d u. h ! j = (f, d, u) \<and> f \<in> {RD, RDA, WR, WRA} \<longrightarrow> fold (proto_step d) (take j h) Idle = Active (row d))"
proof (intro conjI allI impI)
  show "abs_bank (bank_of spec s e) = fold (proto_step e) h Idle" by (rule issues_protocol [OF assms])
  fix j f d u
  assume j: "j < length h" and f: "h ! j = (f, d, u) \<and> f \<in> {RD, RDA, WR, WRA}"
  obtain s' ct req where s': "issues fc spec (take j h) s'" "ct_exec ct = s'" "rq_decoded req = d" "ct_clk ct = u"
    "timing_ok spec req f ct = Inr True" "in_range spec d"
    using issues_nth [OF assms(1) j conjunct1 [OF f]] by blast
  have "bank_allows spec f d u d (bank_of spec s' d)"
    using issues_wf [OF s'(1)] timing_ok_allows [of spec ct req d f] s' by auto
  from allowsD(8) [OF this same_bank_refl conjunct2 [OF f]]
  have "abs_bank (bank_of spec s' d) = Active (row d)" by (simp add: abs_bank_def)
  then show "fold (proto_step d) (take j h) Idle = Active (row d)"
    using issues_protocol [OF s'(1,6)] by simp
qed

text \<open>
  C28: The minimum row-active time nRAS is not enforced for an all-bank precharge: on an HBM device with the
  default timing there is an accepted sequence that activates a row at cycle 10 and reads it at cycle
  50, after which the all-bank refresh at the head of the priority queue asks for PREab, no active
  request owns the bank, and the controller's gates accept PREab at cycle 52, although nRAS only ends at
  cycle 94.
\<close>

theorem preab_before_ras:
  "\<exists>s. issues demo_float hbm_demo [(ACT, DecodedAddress_init, 10), (RD, DecodedAddress_init, 50)] s
     \<and> next_command_for hbm_demo demo_refab (demo_controller 52 s) = Inr (Some PREAB)
     \<and> would_close_active hbm_demo demo_refab PREAB QPriority (demo_controller 52 s) = Inr False
     \<and> timing_ok hbm_demo demo_refab PREAB (demo_controller 52 s) = Inr True
     \<and> 52 < 10 + nck hbm_demo (nRAS (ds_timing hbm_demo))"
proof -
  let ?d = DecodedAddress_init
  obtain s where s: "issues demo_float hbm_demo [(ACT, ?d, 10), (RD, ?d, 50)] s"
    "next_row (row_state hbm_demo ?d (ex_timing s)) = 11" "bank_busy (bank_of hbm_demo s ?d)"
    using demo_read by (elim exE conjE) (rule that)
  have wf: "dims_ok hbm_demo" "exec_wf hbm_demo s" using issues_wf [OF s(1)] by blast+
  let ?ct = "demo_controller 52 s"
  have busy: "any_bank_busy_in_rank hbm_demo ?d ?ct"
    using rank_idle [of hbm_demo ?ct ?d ?d] wf s(3) hbm_demo_range by (auto simp: same_scope_def)
  note at = at_bank_of [OF wf(2) hbm_demo_range]
  have nxt: "next_command_for hbm_demo demo_refab ?ct = Inr (Some PREAB)"
    using busy by (simp add: next_command_for_def next_maintenance_def at Let_def)
  have own: "would_close_active hbm_demo demo_refab PREAB QPriority ?ct = Inr False"
    by (auto simp: would_close_active_def is_all_bank_row_command_def command_meta_def kMeta_def meta_def demo_queues_def
        list_ex_iff slice_def Let_def case_prod_unfold dest!: in_set_takeD in_set_dropD)
  have "\<forall>c \<in> set (ds_timing_constraints hbm_demo). (ACT \<in> set (tc_preceding c) \<or> RD \<in> set (tc_preceding c))
      \<longrightarrow> PREAB \<notin> set (tc_following c)"
    by (simp add: hbm_demo_def make_hbm_constraints_def tc_def tc_sibling_def Let_def)
  then have "constraint_ready hbm_demo ?d PREAB 52 (ex_timing s)"
    using issues_constraint_ready [OF s(1), of PREAB] by (auto simp: restricts_def)
  then have ok: "timing_ok hbm_demo demo_refab PREAB ?ct = Inr True"
    using busy s(2) by (simp add: timing_ok_def state_ok_def at check_command_state_def snapshot_def constraint_timing_ok_def
        timing_switch_def Let_def)
  have "nck hbm_demo (nRAS (ds_timing hbm_demo)) = 84"
    by (simp add: nck_def hbm_demo_def DramSpec_init_def Timing_init_def)
  then show ?thesis using s(1) nxt own ok by auto
qed

end
