(* ===== verification/Write_Buffer_Correct.thy ===== *)
theory Write_Buffer_Correct
  imports Write_Buffer
begin

text \<open>
  What the write buffer keeps of the writes put into it. A buffered entry is read as a partial function
  from the offset of a byte to its sequence number and value; coalescing a write of the same length
  overrides that function with the bytes the write covers, and forwarding picks for every byte of a
  read the newest entry that has it, in whatever order the hash map is traversed.
\<close>

section \<open>Bytes of a write and of an entry\<close>

definition effective_mask :: "Request \<Rightarrow> u8 list" where
  "effective_mask r = (if rq_has_byte_mask r then normalize_mask (rq_byte_mask r) (length (rq_payload r))
     else replicate (length (rq_payload r)) 0xFF)"

definition masked_byte :: "Request \<Rightarrow> nat \<Rightarrow> u8 option" where
  "masked_byte r i = (if i < length (rq_payload r) \<and> effective_mask r ! i \<noteq> 0 then Some (rq_payload r ! i) else None)"

definition stored_byte :: "BufferedWriteState \<Rightarrow> nat \<Rightarrow> (nat \<times> u8) option" where
  "stored_byte st i = map_option (Pair (bw_byte_sequence st ! i)) (masked_byte (bw_request st) i)"

definition entry_ok :: "DramSpec \<Rightarrow> nat \<Rightarrow> BufferedWriteState \<Rightarrow> bool" where
  "entry_ok spec a st \<longleftrightarrow> rq_address (bw_request st) = a \<and> rq_has_payload (bw_request st) \<and> rq_payload (bw_request st) \<noteq> []
     \<and> length (bw_byte_sequence st) = length (rq_payload (bw_request st))
     \<and> request_data_size spec (bw_request st) = length (rq_payload (bw_request st))
     \<and> a + length (rq_payload (bw_request st)) \<le> u64_max"

text \<open>The writes a client may put into the buffer: a payload of the size the request declares, inside
  the address space.\<close>

definition write_ok :: "DramSpec \<Rightarrow> Request \<Rightarrow> bool" where
  "write_ok spec r \<longleftrightarrow> rq_has_payload r \<and> rq_payload r \<noteq> [] \<and> request_data_size spec r = length (rq_payload r)
     \<and> rq_address r + length (rq_payload r) \<le> u64_max"

lemma length_normalize_mask [simp]: "length (normalize_mask bm n) = n"
  by (simp add: normalize_mask_def)

lemma normalize_mask_idem: "normalize_mask (normalize_mask bm n) n = normalize_mask bm n"
proof (cases "n = 0 \<or> bm = []")
  case True
  then show ?thesis by (auto simp: normalize_mask_def intro!: nth_equalityI)
next
  case False
  then have "normalize_mask bm n \<noteq> []" by (simp add: normalize_mask_def)
  moreover have "normalize_mask bm n ! i = (if i < length bm \<and> bm ! i \<noteq> 0 then 0xFF else 0)" if "i < n" for i
    using False that by (simp add: normalize_mask_def)
  ultimately show ?thesis by (intro nth_equalityI) (simp_all add: normalize_mask_def [of "normalize_mask bm n"])
qed

lemma length_effective_mask [simp]: "length (effective_mask r) = length (rq_payload r)"
  by (simp add: effective_mask_def)

lemma length_resize [simp]: "length (resize n x xs) = n"
  by (simp add: resize_def)

lemma resize_same: "length xs = n \<Longrightarrow> resize n x xs = xs"
  by (simp add: resize_def)

lemma ensure_write_payload_id:
  "write_ok spec r \<Longrightarrow> ensure_write_payload spec r =
     (if rq_has_byte_mask r then r\<lparr>rq_byte_mask := normalize_mask (rq_byte_mask r) (length (rq_payload r))\<rparr> else r)"
  by (simp add: write_ok_def ensure_write_payload_def)

section \<open>Coalescing\<close>

lemma merge_bytes:
  "n \<le> length p \<Longrightarrow> length m = length p \<Longrightarrow> length q = length p \<Longrightarrow>
   fold (merge_byte req bm) [0..<n] (p, m, q) =
     (map (\<lambda>i. if i < n \<and> bm ! i \<noteq> 0 then rq_payload req ! i else p ! i) [0..<length p],
      map (\<lambda>i. if i < n \<and> bm ! i \<noteq> 0 then 0xFF else m ! i) [0..<length p],
      map (\<lambda>i. if i < n \<and> bm ! i \<noteq> 0 then rq_controller_sequence req else q ! i) [0..<length p])"
proof (induction n)
  case 0
  then show ?case using map_nth [of p] map_nth [of m] map_nth [of q] by simp
next
  case (Suc n)
  have upd: "(map f [0..<length p])[n := y] = map (\<lambda>i. if i = n then y else f i) [0..<length p]" for f :: "nat \<Rightarrow> 'x" and y
    by (rule nth_equalityI) (simp_all add: nth_list_update)
  have IH: "fold (merge_byte req bm) [0..<n] (p, m, q) =
     (map (\<lambda>i. if i < n \<and> bm ! i \<noteq> 0 then rq_payload req ! i else p ! i) [0..<length p],
      map (\<lambda>i. if i < n \<and> bm ! i \<noteq> 0 then 0xFF else m ! i) [0..<length p],
      map (\<lambda>i. if i < n \<and> bm ! i \<noteq> 0 then rq_controller_sequence req else q ! i) [0..<length p])"
    using Suc by simp
  have "fold (merge_byte req bm) [0..<Suc n] (p, m, q) = merge_byte req bm n (fold (merge_byte req bm) [0..<n] (p, m, q))"
    by simp
  also have "\<dots> = (map (\<lambda>i. if i < Suc n \<and> bm ! i \<noteq> 0 then rq_payload req ! i else p ! i) [0..<length p],
      map (\<lambda>i. if i < Suc n \<and> bm ! i \<noteq> 0 then 0xFF else m ! i) [0..<length p],
      map (\<lambda>i. if i < Suc n \<and> bm ! i \<noteq> 0 then rq_controller_sequence req else q ! i) [0..<length p])"
    unfolding IH merge_byte_def prod.case upd by (cases "bm ! n = 0") (auto simp: less_Suc_eq)
  finally show ?case .
qed

lemma merge_write_eq:
  assumes "entry_ok spec a st" and "length (rq_payload req) = length (rq_payload (bw_request st))"
  defines "w \<equiv> bw_request st" and "bm \<equiv> normalize_mask (rq_byte_mask req) (length (rq_payload req))"
  defines "n \<equiv> length (rq_payload w)"
  defines "nm \<equiv> map (\<lambda>i. if bm ! i \<noteq> 0 then 0xFF else effective_mask w ! i) [0..<n]"
  shows "merge_write spec req st =
    \<lparr>bw_request = w\<lparr>rq_payload := map (\<lambda>i. if bm ! i \<noteq> 0 then rq_payload req ! i else rq_payload w ! i) [0..<n],
       rq_has_payload := True, rq_has_byte_mask := \<not> list_all (\<lambda>b. b \<noteq> 0) nm,
       rq_byte_mask := (if list_all (\<lambda>b. b \<noteq> 0) nm then [] else nm)\<rparr>,
     bw_byte_sequence = map (\<lambda>i. if bm ! i \<noteq> 0 then rq_controller_sequence req else bw_byte_sequence st ! i) [0..<n]\<rparr>"
proof -
  let ?e = "ensure_write_payload spec w"
  have hp: "rq_has_payload w" "rq_payload w \<noteq> []" and ls: "length (bw_byte_sequence st) = n"
    using assms(1) by (simp_all add: entry_ok_def w_def n_def)
  have len: "length (rq_payload req) = n" using assms(2) by (simp add: n_def w_def)
  have pe: "rq_payload ?e = rq_payload w" using hp by (simp add: ensure_write_payload_def)
  have me: "(if rq_has_byte_mask ?e then normalize_mask (rq_byte_mask ?e) n else replicate n 0xFF) = effective_mask w"
    using hp by (simp add: ensure_write_payload_def effective_mask_def n_def normalize_mask_idem)
  have upd: "?e\<lparr>rq_payload := x, rq_has_payload := True, rq_has_byte_mask := y, rq_byte_mask := z\<rparr>
      = w\<lparr>rq_payload := x, rq_has_payload := True, rq_has_byte_mask := y, rq_byte_mask := z\<rparr>" for x y z
    using hp by (simp add: ensure_write_payload_def)
  have lm: "length (effective_mask w) = n" by (simp add: n_def)
  have lp: "length (rq_payload w) = n" by (simp add: n_def)
  have fold_eq: "fold (merge_byte req bm) [0..<n] (rq_payload w, effective_mask w, bw_byte_sequence st) =
     (map (\<lambda>i. if bm ! i \<noteq> 0 then rq_payload req ! i else rq_payload w ! i) [0..<n], nm,
      map (\<lambda>i. if bm ! i \<noteq> 0 then rq_controller_sequence req else bw_byte_sequence st ! i) [0..<n])"
    using merge_bytes [of n "rq_payload w" "effective_mask w" "bw_byte_sequence st" req bm] ls
    by (simp add: n_def nm_def cong: map_cong)
  have bm: "normalize_mask (rq_byte_mask req) n = bm" by (simp add: bm_def len)
  show ?thesis
    unfolding merge_write_def w_def [symmetric] Let_def pe len lp bm me
    by (simp only: less_irrefl if_False lp me resize_same [OF ls] resize_same [OF lm] fold_eq prod.case upd) simp
qed

lemma nonzero_effective:
  assumes "length nm = length (rq_payload r)" and "i < length nm"
    and "rq_has_byte_mask r \<longleftrightarrow> \<not> list_all (\<lambda>b. b \<noteq> 0) nm" and "rq_has_byte_mask r \<Longrightarrow> rq_byte_mask r = nm"
  shows "effective_mask r ! i \<noteq> 0 \<longleftrightarrow> nm ! i \<noteq> 0"
proof (cases "rq_has_byte_mask r")
  case True
  then have "rq_byte_mask r = nm" and "nm \<noteq> []" using assms by auto
  then show ?thesis using assms True by (simp add: effective_mask_def normalize_mask_def)
next
  case False
  then show ?thesis using assms by (simp add: effective_mask_def list_all_length)
qed

lemma data_size_payload:
  "rq_has_payload w \<Longrightarrow> rq_payload w \<noteq> [] \<Longrightarrow> length p = length (rq_payload w) \<Longrightarrow>
   request_data_size spec (w\<lparr>rq_payload := p, rq_has_payload := True, rq_has_byte_mask := x, rq_byte_mask := y\<rparr>) = request_data_size spec w"
  by (cases p) (simp_all add: request_data_size_def)

lemma merge_write_entry:
  assumes ok: "entry_ok spec a st" and len: "length (rq_payload req) = length (rq_payload (bw_request st))"
    and "rq_has_byte_mask req"
  shows "entry_ok spec a (merge_write spec req st) \<and> length (rq_payload (bw_request (merge_write spec req st))) = length (rq_payload req)"
    and "stored_byte (merge_write spec req st) i =
      (case masked_byte req i of Some b \<Rightarrow> Some (rq_controller_sequence req, b) | None \<Rightarrow> stored_byte st i)"
proof -
  let ?w = "bw_request st" and ?n = "length (rq_payload req)"
  let ?bm = "normalize_mask (rq_byte_mask req) ?n"
  define nm where "nm = map (\<lambda>i. if ?bm ! i \<noteq> 0 then 0xFF else effective_mask ?w ! i) [0..<?n]"
  note eq = merge_write_eq [OF ok len, folded len, folded nm_def]
  have ne: "rq_payload req \<noteq> []" using ok len by (auto simp: entry_ok_def)
  have "request_data_size spec (bw_request (merge_write spec req st)) = request_data_size spec ?w"
    using ok len by (simp add: eq data_size_payload entry_ok_def)
  then show "entry_ok spec a (merge_write spec req st) \<and> length (rq_payload (bw_request (merge_write spec req st))) = ?n"
    using ok len ne by (simp add: eq entry_ok_def)
  have mask: "effective_mask (bw_request (merge_write spec req st)) ! i \<noteq> 0 \<longleftrightarrow> nm ! i \<noteq> 0" if "i < ?n"
    by (rule nonzero_effective) (use that in \<open>simp_all add: eq nm_def\<close>)
  have em: "effective_mask req = ?bm" using assms(3) by (simp add: effective_mask_def)
  show "stored_byte (merge_write spec req st) i =
      (case masked_byte req i of Some b \<Rightarrow> Some (rq_controller_sequence req, b) | None \<Rightarrow> stored_byte st i)"
  proof (cases "i < ?n")
    case True
    with mask have "effective_mask (bw_request (merge_write spec req st)) ! i \<noteq> 0 \<longleftrightarrow> ?bm ! i \<noteq> 0 \<or> effective_mask ?w ! i \<noteq> 0"
      by (simp add: nm_def)
    then show ?thesis using True len by (simp add: stored_byte_def masked_byte_def em) (simp add: eq)
  next
    case False
    then show ?thesis using len by (simp add: stored_byte_def masked_byte_def eq)
  qed
qed

lemma fresh_entry:
  assumes "write_ok spec r" and "length sq = length (rq_payload r)"
    and "\<And>i. i < length sq \<Longrightarrow> effective_mask r ! i \<noteq> 0 \<Longrightarrow> sq ! i = rq_controller_sequence r"
  shows "entry_ok spec (rq_address r) \<lparr>bw_request = r, bw_byte_sequence = sq\<rparr>"
    and "stored_byte \<lparr>bw_request = r, bw_byte_sequence = sq\<rparr> i = map_option (Pair (rq_controller_sequence r)) (masked_byte r i)"
  using assms by (auto simp: entry_ok_def write_ok_def stored_byte_def masked_byte_def)

definition store_write :: "DramSpec \<Rightarrow> Request \<Rightarrow> write_map \<Rightarrow> write_map" where
  "store_write spec r m = (if m (rq_address r) = None then buffer_write r m else coalesce_write spec r m)"

lemma store_write_entry:
  assumes r: "write_ok spec r"
    and st: "\<And>st. m (rq_address r) = Some st \<Longrightarrow> entry_ok spec (rq_address r) st \<and> length (rq_payload r) = length (rq_payload (bw_request st))"
  shows "\<exists>st'. store_write spec r m = m(rq_address r \<mapsto> st') \<and> entry_ok spec (rq_address r) st'
    \<and> length (rq_payload (bw_request st')) = length (rq_payload r)
    \<and> (\<forall>i. stored_byte st' i = (case masked_byte r i of Some b \<Rightarrow> Some (rq_controller_sequence r, b)
         | None \<Rightarrow> Option.bind (m (rq_address r)) (\<lambda>st. stored_byte st i)))"
proof (cases "m (rq_address r)")
  case None
  define sq where "sq = map (\<lambda>i. if effective_mask r ! i \<noteq> 0 then rq_controller_sequence r else 0) [0..<length (rq_payload r)]"
  have "store_write spec r m = m(rq_address r \<mapsto> \<lparr>bw_request = r, bw_byte_sequence = sq\<rparr>)"
    using None by (simp add: store_write_def buffer_write_def Let_def sq_def effective_mask_def [symmetric])
  moreover have "entry_ok spec (rq_address r) \<lparr>bw_request = r, bw_byte_sequence = sq\<rparr>"
    and "stored_byte \<lparr>bw_request = r, bw_byte_sequence = sq\<rparr> i = map_option (Pair (rq_controller_sequence r)) (masked_byte r i)" for i
    by (rule fresh_entry [OF r]; simp add: sq_def)+
  ultimately show ?thesis using None by (auto split: option.split)
next
  case (Some st)
  note ok = st [OF Some]
  show ?thesis
  proof (cases "rq_has_byte_mask r")
    case True
    then have "store_write spec r m = m(rq_address r \<mapsto> merge_write spec r st)"
      using Some by (simp add: store_write_def coalesce_write_def)
    then show ?thesis using merge_write_entry [OF _ _ True, of spec "rq_address r" st] ok Some
      by (intro exI [of _ "merge_write spec r st"]) (simp split: option.split)
  next
    case False
    define sq where "sq = replicate (length (rq_payload r)) (rq_controller_sequence r)"
    have "store_write spec r m = m(rq_address r \<mapsto> \<lparr>bw_request = r, bw_byte_sequence = sq\<rparr>)"
      using Some False by (simp add: store_write_def coalesce_write_def sq_def)
    moreover have "entry_ok spec (rq_address r) \<lparr>bw_request = r, bw_byte_sequence = sq\<rparr>"
      and "stored_byte \<lparr>bw_request = r, bw_byte_sequence = sq\<rparr> i = map_option (Pair (rq_controller_sequence r)) (masked_byte r i)" for i
      by (rule fresh_entry [OF r]; simp add: sq_def)+
    moreover have "map_option (Pair q) (masked_byte r i) =
        (case masked_byte r i of Some b \<Rightarrow> Some (q, b) | None \<Rightarrow> stored_byte st i)" for q i
      using ok False by (simp add: masked_byte_def stored_byte_def effective_mask_def)
    ultimately show ?thesis using Some
      by (intro exI [of _ "\<lparr>bw_request = r, bw_byte_sequence = sq\<rparr>"]) (simp split: option.split)
  qed
qed

section \<open>Histories\<close>

definition byte_of :: "Request \<Rightarrow> nat \<Rightarrow> u8 option" where
  "byte_of r pos = (if rq_address r \<le> pos then masked_byte r (pos - rq_address r) else None)"

definition last_byte :: "Request list \<Rightarrow> nat \<Rightarrow> u8 option" where
  "last_byte ws pos = fold (\<lambda>r acc. case byte_of r pos of Some b \<Rightarrow> Some b | None \<Rightarrow> acc) ws None"

definition entry_byte :: "nat \<Rightarrow> BufferedWriteState \<Rightarrow> nat \<Rightarrow> (nat \<times> u8) option" where
  "entry_byte a st pos = (if a \<le> pos then stored_byte st (pos - a) else None)"

definition candidates_at :: "write_map \<Rightarrow> nat \<Rightarrow> (nat \<times> u8) set" where
  "candidates_at m pos = {x. \<exists>a st. m a = Some st \<and> entry_byte a st pos = Some x}"

definition newest_in :: "(nat \<times> u8) set \<Rightarrow> u8 option \<Rightarrow> bool" where
  "newest_in C x = (case x of None \<Rightarrow> C = {}
     | Some b \<Rightarrow> \<exists>q. (q, b) \<in> C \<and> (\<forall>(q', b') \<in> C. q' < q \<or> (q', b') = (q, b)))"

definition last_pair :: "Request list \<Rightarrow> nat \<Rightarrow> (nat \<times> u8) option" where
  "last_pair ws pos = fold (\<lambda>r acc. case byte_of r pos of Some b \<Rightarrow> Some (rq_controller_sequence r, b) | None \<Rightarrow> acc) ws None"

text \<open>The buffer that the writes \<open>ws\<close>, in the order of their sequence numbers, have left behind.\<close>

definition entry_of :: "DramSpec \<Rightarrow> Request list \<Rightarrow> nat \<Rightarrow> BufferedWriteState option \<Rightarrow> bool" where
  "entry_of spec ws a x = (case x of
       None \<Rightarrow> a \<notin> rq_address ` set ws
     | Some st \<Rightarrow> entry_ok spec a st \<and> a \<in> rq_address ` set ws
         \<and> (\<forall>r \<in> set ws. rq_address r = a \<longrightarrow> length (rq_payload r) = length (rq_payload (bw_request st)))
         \<and> (\<forall>pos. entry_byte a st pos = last_pair (filter (\<lambda>r. rq_address r = a) ws) pos))"

definition buffer_of :: "DramSpec \<Rightarrow> Request list \<Rightarrow> nat \<Rightarrow> write_map \<Rightarrow> bool" where
  "buffer_of spec ws next_sequence m \<longleftrightarrow>
     sorted_wrt (<) (map rq_controller_sequence ws) \<and> (\<forall>r \<in> set ws. rq_controller_sequence r < next_sequence)
     \<and> (\<forall>a. entry_of spec ws a (m a))"

lemma last_byte_snoc: "last_byte (ws @ [r]) pos = (case byte_of r pos of Some b \<Rightarrow> Some b | None \<Rightarrow> last_byte ws pos)"
  by (simp add: last_byte_def split: option.split)

lemma last_pair_snoc:
  "last_pair (ws @ [r]) pos = (case byte_of r pos of Some b \<Rightarrow> Some (rq_controller_sequence r, b) | None \<Rightarrow> last_pair ws pos)"
  by (simp add: last_pair_def split: option.split)

lemma last_byte_pair: "last_byte ws pos = map_option snd (last_pair ws pos)"
  by (induction ws rule: rev_induct)
    (simp_all add: last_byte_snoc last_pair_snoc split: option.split, simp_all add: last_byte_def last_pair_def)

lemma last_pair_None: "last_pair ws pos = None \<longleftrightarrow> (\<forall>r \<in> set ws. byte_of r pos = None)"
  by (induction ws rule: rev_induct) (auto simp: last_pair_snoc split: option.split, simp_all add: last_pair_def)

lemma last_pair_newest:
  assumes "sorted_wrt (<) (map rq_controller_sequence ws)"
  shows "last_pair ws pos = Some (q, b) \<longleftrightarrow> (\<exists>r \<in> set ws. rq_controller_sequence r = q \<and> byte_of r pos = Some b
    \<and> (\<forall>r' \<in> set ws. byte_of r' pos \<noteq> None \<longrightarrow> rq_controller_sequence r' \<le> q))"
  using assms
proof (induction ws rule: rev_induct)
  case Nil
  then show ?case by (simp add: last_pair_def)
next
  case (snoc r ws)
  have less: "\<forall>r' \<in> set ws. rq_controller_sequence r' < rq_controller_sequence r" using snoc.prems by (simp add: sorted_wrt_append)
  have IH: "last_pair ws pos = Some (q, b) \<longleftrightarrow> (\<exists>r \<in> set ws. rq_controller_sequence r = q \<and> byte_of r pos = Some b
    \<and> (\<forall>r' \<in> set ws. byte_of r' pos \<noteq> None \<longrightarrow> rq_controller_sequence r' \<le> q))"
    using snoc by (simp add: sorted_wrt_append)
  show ?case
  proof (cases "byte_of r pos")
    case None
    then show ?thesis using IH by (simp add: last_pair_snoc)
  next
    case (Some c)
    then show ?thesis using less by (auto simp: last_pair_snoc order_less_imp_le)
  qed
qed

lemma buffer_of_empty: "buffer_of spec [] n (\<lambda>_. None)"
  by (simp add: buffer_of_def entry_of_def)

lemma buffer_of_entry_of: "buffer_of spec ws n m \<Longrightarrow> entry_of spec ws a (m a)"
  by (simp add: buffer_of_def)

lemma buffer_of_entry: "buffer_of spec ws n m \<Longrightarrow> m a = Some st \<Longrightarrow> entry_ok spec a st"
  by (drule buffer_of_entry_of [where a = a]) (simp add: entry_of_def)

lemma buffer_of_entry_byte:
  "buffer_of spec ws n m \<Longrightarrow> m a = Some st \<Longrightarrow> entry_byte a st pos = last_pair (filter (\<lambda>r. rq_address r = a) ws) pos"
  by (drule buffer_of_entry_of [where a = a]) (simp add: entry_of_def)

lemma buffer_of_dom: "buffer_of spec ws n m \<Longrightarrow> m a = None \<longleftrightarrow> a \<notin> rq_address ` set ws"
  by (drule buffer_of_entry_of [where a = a]) (simp add: entry_of_def split: option.splits)

lemma sorted_filter_sequence:
  "sorted_wrt (<) (map rq_controller_sequence ws) \<Longrightarrow> sorted_wrt (<) (map rq_controller_sequence (filter P ws))"
  by (induction ws) auto

lemma buffer_of_newest:
  assumes buf: "buffer_of spec ws n m"
  shows "newest_in (candidates_at m pos) (last_byte ws pos)"
proof -
  have srt: "sorted_wrt (<) (map rq_controller_sequence ws)" using buf by (simp add: buffer_of_def)
  have cand: "c \<in> candidates_at m pos \<longleftrightarrow> (\<exists>a. last_pair (filter (\<lambda>r. rq_address r = a) ws) pos = Some c)" for c
  proof
    assume "\<exists>a. last_pair (filter (\<lambda>r. rq_address r = a) ws) pos = Some c"
    then obtain a where a: "last_pair (filter (\<lambda>r. rq_address r = a) ws) pos = Some c" by blast
    then have "a \<in> rq_address ` set ws" using last_pair_None [of "filter (\<lambda>r. rq_address r = a) ws" pos] by force
    then have "m a \<noteq> None" using buffer_of_dom [OF buf, of a] by simp
    then obtain st where "m a = Some st" by blast
    then have "m a = Some st \<and> entry_byte a st pos = Some c" using buffer_of_entry_byte [OF buf] a by simp
    then show "c \<in> candidates_at m pos" unfolding candidates_at_def by blast
  qed (auto simp: candidates_at_def buffer_of_entry_byte [OF buf])
  have member: "\<exists>r \<in> set ws. rq_controller_sequence r = q \<and> byte_of r pos = Some b" if "(q, b) \<in> candidates_at m pos" for q b
    using that unfolding cand last_pair_newest [OF sorted_filter_sequence [OF srt]] by auto
  show ?thesis
  proof (cases "last_pair ws pos")
    case None
    then have "candidates_at m pos = {}" using member by (fastforce simp: last_pair_None)
    then show ?thesis using None by (simp add: newest_in_def last_byte_pair)
  next
    case (Some c)
    obtain q b where c: "c = (q, b)" by (cases c)
    obtain r where r: "r \<in> set ws" "rq_controller_sequence r = q" "byte_of r pos = Some b"
        "\<forall>r' \<in> set ws. byte_of r' pos \<noteq> None \<longrightarrow> rq_controller_sequence r' \<le> q"
      using Some unfolding c last_pair_newest [OF srt] by blast
    have "last_pair (filter (\<lambda>x. rq_address x = rq_address r) ws) pos = Some (q, b)"
      unfolding last_pair_newest [OF sorted_filter_sequence [OF srt]] using r by auto
    then have "(q, b) \<in> candidates_at m pos" using cand by blast
    moreover have "q' < q \<or> (q', b') = (q, b)" if q': "(q', b') \<in> candidates_at m pos" for q' b'
    proof -
      obtain r' where r': "r' \<in> set ws" "rq_controller_sequence r' = q'" "byte_of r' pos = Some b'" using member [OF q'] by blast
      then have "q' \<le> q" using r(4) by auto
      moreover have "r' = r" if "q' = q"
        using that r r' srt by (auto simp: in_set_conv_nth sorted_wrt_iff_nth_less) (metis linorder_neqE_nat nat_neq_iff)
      ultimately show ?thesis using r(3) r'(3) by fastforce
    qed
    ultimately show ?thesis using Some c by (auto simp: newest_in_def last_byte_pair)
  qed
qed

lemma buffer_of_store:
  assumes inv: "buffer_of spec ws n m" and r: "write_ok spec r" "rq_controller_sequence r = n"
    and sizes: "\<forall>r' \<in> set ws. rq_address r' = rq_address r \<longrightarrow> length (rq_payload r') = length (rq_payload r)"
  shows "buffer_of spec (ws @ [r]) (Suc n) (store_write spec r m)"
proof -
  have entry: "entry_of spec ws a (m a)" for a using inv by (simp add: buffer_of_def)
  have old: "entry_ok spec (rq_address r) st \<and> length (rq_payload r) = length (rq_payload (bw_request st))"
    if "m (rq_address r) = Some st" for st
    using entry [of "rq_address r"] that sizes by (auto simp: entry_of_def)
  obtain st' where st: "store_write spec r m = m(rq_address r \<mapsto> st')" "entry_ok spec (rq_address r) st'"
      "length (rq_payload (bw_request st')) = length (rq_payload r)"
      "\<And>i. stored_byte st' i = (case masked_byte r i of Some b \<Rightarrow> Some (rq_controller_sequence r, b)
         | None \<Rightarrow> Option.bind (m (rq_address r)) (\<lambda>st. stored_byte st i))"
    using store_write_entry [OF r(1) old] by blast
  have old_byte: "Option.bind (m (rq_address r)) (\<lambda>st. entry_byte (rq_address r) st pos)
      = last_pair (filter (\<lambda>x. rq_address x = rq_address r) ws) pos" for pos
  proof (cases "m (rq_address r)")
    case None
    then have "filter (\<lambda>x. rq_address x = rq_address r) ws = []"
      using buffer_of_dom [OF inv, of "rq_address r"] by (metis (mono_tags, lifting) filter_False image_eqI)
    then show ?thesis using None by (simp add: last_pair_def)
  next
    case (Some st)
    then show ?thesis using buffer_of_entry_byte [OF inv Some] by simp
  qed
  have new_byte: "entry_byte (rq_address r) st' pos = last_pair (filter (\<lambda>x. rq_address x = rq_address r) (ws @ [r])) pos" for pos
    using old_byte [of pos]
    by (cases "m (rq_address r)") (auto simp: last_pair_snoc entry_byte_def byte_of_def st(4) split: option.split)
  have "entry_of spec (ws @ [r]) a (store_write spec r m a)" for a
  proof (cases "a = rq_address r")
    case True
    then show ?thesis using st sizes new_byte by (simp add: entry_of_def)
  next
    case False
    then show ?thesis using entry [of a] st(1) by (auto simp: entry_of_def split: option.split)
  qed
  then show ?thesis using inv r(2) by (auto simp: buffer_of_def sorted_wrt_append less_SucI)
qed

lemma buffer_of_remove:
  assumes "buffer_of spec ws n m"
  shows "buffer_of spec (filter (\<lambda>r. rq_address r \<noteq> a) ws) n (m(a := None))"
proof -
  have "entry_of spec (filter (\<lambda>r. rq_address r \<noteq> a) ws) c ((m(a := None)) c)" for c
  proof (cases "c = a")
    case False
    have "filter (\<lambda>r. rq_address r = c) (filter (\<lambda>r. rq_address r \<noteq> a) ws) = filter (\<lambda>r. rq_address r = c) ws"
      using False by (induction ws) auto
    moreover have "entry_of spec ws c (m c)" using assms by (simp add: buffer_of_def)
    ultimately show ?thesis using False by (auto simp: entry_of_def split: option.splits)
  qed (auto simp: entry_of_def)
  then show ?thesis using assms by (auto simp: buffer_of_def sorted_filter_sequence)
qed

section \<open>Forwarding\<close>

definition lens :: "nat \<Rightarrow> forward_state \<Rightarrow> bool" where
  "lens n x = (case x of (a, s, k) \<Rightarrow> length a = n \<and> length s = n \<and> length k = n)"

definition byte_at :: "nat \<Rightarrow> forward_state \<Rightarrow> u8 \<times> nat \<times> u8" where
  "byte_at i x = (case x of (a, s, k) \<Rightarrow> (a ! i, s ! i, k ! i))"

definition pick :: "(nat \<times> u8) option \<Rightarrow> u8 \<times> nat \<times> u8 \<Rightarrow> u8 \<times> nat \<times> u8" where
  "pick c x = (case c of None \<Rightarrow> x | Some (q, b) \<Rightarrow> if q \<ge> fst (snd x) then (b, q, 0xFF) else x)"

lemma forward_byte_at:
  assumes "entry_ok spec a st" and "a \<le> pos" and "rq_address req \<le> pos" and "lens n x"
    and "pos < rq_address req + n"
  shows "lens n (forward_byte req st (effective_mask (bw_request st)) pos x)"
    and "i < n \<Longrightarrow> byte_at i (forward_byte req st (effective_mask (bw_request st)) pos x) =
      (if rq_address req + i = pos then pick (entry_byte a st pos) (byte_at i x) else byte_at i x)"
proof -
  obtain u s k where x: "x = (u, s, k)" by (cases x)
  let ?w = "bw_request st"
  have w: "rq_address ?w = a" "length (bw_byte_sequence st) = length (rq_payload ?w)" using assms(1) by (simp_all add: entry_ok_def)
  have l: "length u = n" "length s = n" "length k = n" using assms(4) by (simp_all add: lens_def x)
  show "lens n (forward_byte req st (effective_mask ?w) pos x)"
    by (simp add: forward_byte_def x w lens_def l Let_def)
  show "byte_at i (forward_byte req st (effective_mask ?w) pos x) =
      (if rq_address req + i = pos then pick (entry_byte a st pos) (byte_at i x) else byte_at i x)" if "i < n"
  proof (cases "rq_address req + i = pos")
    case True
    then have "pos - rq_address req = i" by simp
    then show ?thesis using True assms(2) that
      by (simp add: forward_byte_def x w byte_at_def l Let_def pick_def entry_byte_def stored_byte_def masked_byte_def)
  next
    case False
    then have "pos - rq_address req \<noteq> i" using assms(3) by simp
    then show ?thesis using False that by (simp add: forward_byte_def x w byte_at_def l Let_def)
  qed
qed

lemma forward_bytes_at:
  assumes "entry_ok spec a st" and "\<forall>pos \<in> set ps. a \<le> pos \<and> rq_address req \<le> pos \<and> pos < rq_address req + n"
    and "distinct ps" and "lens n x"
  shows "lens n (fold (forward_byte req st (effective_mask (bw_request st))) ps x)
    \<and> (i < n \<longrightarrow> byte_at i (fold (forward_byte req st (effective_mask (bw_request st))) ps x) =
        (if rq_address req + i \<in> set ps then pick (entry_byte a st (rq_address req + i)) (byte_at i x) else byte_at i x))"
  using assms(2-)
proof (induction ps arbitrary: x)
  case (Cons p ps)
  let ?y = "forward_byte req st (effective_mask (bw_request st)) p x"
  have p: "a \<le> p" "rq_address req \<le> p" "p < rq_address req + n" using Cons.prems(1) by simp_all
  note y = forward_byte_at [OF assms(1) p(1,2) Cons.prems(3) p(3)]
  have IH: "lens n (fold (forward_byte req st (effective_mask (bw_request st))) ps ?y)
    \<and> (i < n \<longrightarrow> byte_at i (fold (forward_byte req st (effective_mask (bw_request st))) ps ?y) =
        (if rq_address req + i \<in> set ps then pick (entry_byte a st (rq_address req + i)) (byte_at i ?y) else byte_at i ?y))"
    by (rule Cons.IH) (use Cons.prems y(1) in auto)
  show ?case
  proof (cases "rq_address req + i = p")
    case True
    then have "rq_address req + i \<notin> set ps" using Cons.prems(2) by simp
    then show ?thesis using IH y True by simp
  next
    case False
    then show ?thesis using IH y by simp
  qed
qed simp

lemma range_end_eq: "a + n \<le> u64_max \<Longrightarrow> range_end a n = a + n"
  by (auto simp: range_end_def u64_add_def u64_max_def)

lemma forward_write_at:
  assumes ok: "entry_ok spec a st" and n: "request_data_size spec req = n" "rq_address req + n \<le> u64_max" and x: "lens n x"
  shows "lens n (forward_write spec req st x)"
    and "i < n \<Longrightarrow> byte_at i (forward_write spec req st x) = pick (entry_byte a st (rq_address req + i)) (byte_at i x)"
proof -
  let ?w = "bw_request st" and ?r = "rq_address req"
  have w: "rq_address ?w = a" "rq_has_payload ?w" "rq_payload ?w \<noteq> []" "request_data_size spec ?w = length (rq_payload ?w)"
      "a + length (rq_payload ?w) \<le> u64_max"
    using ok by (simp_all add: entry_ok_def)
  let ?ps = "[max ?r a..<min (?r + n) (a + length (rq_payload ?w))]"
  have eq: "forward_write spec req st x = fold (forward_byte req st (effective_mask ?w)) ?ps x"
    unfolding forward_write_def Let_def w(1,4) n(1) range_end_eq [OF n(2)] range_end_eq [OF w(5)]
    using w(2,3) by (simp add: effective_mask_def)
  have "\<forall>pos \<in> set ?ps. a \<le> pos \<and> ?r \<le> pos \<and> pos < ?r + n" by simp
  note f = forward_bytes_at [OF ok this distinct_upt x]
  show "lens n (forward_write spec req st x)" unfolding eq using f by simp
  show "byte_at i (forward_write spec req st x) = pick (entry_byte a st (?r + i)) (byte_at i x)" if "i < n"
  proof (cases "?r + i \<in> set ?ps")
    case True
    then show ?thesis unfolding eq using f that by simp
  next
    case False
    then have "entry_byte a st (?r + i) = None"
      using that by (auto simp: entry_byte_def stored_byte_def masked_byte_def)
    then show ?thesis unfolding eq using f [of i] False that by (simp add: pick_def)
  qed
qed

lemma forward_writes_at:
  assumes "\<forall>(a, st) \<in> set es. entry_ok spec a st"
    and n: "request_data_size spec req = n" "rq_address req + n \<le> u64_max" and "lens n x"
  shows "lens n (fold (\<lambda>(_, st). forward_write spec req st) es x) \<and>
    (i < n \<longrightarrow> byte_at i (fold (\<lambda>(_, st). forward_write spec req st) es x) =
       fold pick (map (\<lambda>(a, st). entry_byte a st (rq_address req + i)) es) (byte_at i x))"
  using assms(1,4)
proof (induction es arbitrary: x)
  case (Cons e es)
  obtain a st where e: "e = (a, st)" by (cases e)
  note y = forward_write_at [OF _ n Cons.prems(2), of a st]
  show ?case using Cons.IH [of "forward_write spec req st x"] Cons.prems(1) y by (simp add: e)
qed simp

lemma fold_pick:
  assumes "newest_in {c. Some c \<in> set cs} v"
  shows "\<exists>q. fold pick cs (b0, 0, k0) = (case v of None \<Rightarrow> (b0, q, k0) | Some b \<Rightarrow> (b, q, 0xFF))"
proof (cases v)
  case None
  then have "Some c \<notin> set cs" for c using assms by (cases c) (simp add: newest_in_def)
  then have "\<forall>c \<in> set cs. c = None" by (metis not_None_eq)
  then have "fold pick cs x = x" for x by (induction cs) (simp_all add: pick_def)
  then show ?thesis using None by simp
next
  case (Some b)
  then obtain q where q: "Some (q, b) \<in> set cs" "\<And>q' b'. Some (q', b') \<in> set cs \<Longrightarrow> q' < q \<or> (q', b') = (q, b)"
    using assms by (auto simp: newest_in_def)
  have "fold pick cs x = (b, q, 0xFF)"
    if "\<And>q' b'. Some (q', b') \<in> set cs \<Longrightarrow> q' < q \<or> (q', b') = (q, b)"
      and "Some (q, b) \<in> set cs \<and> fst (snd x) \<le> q \<or> x = (b, q, 0xFF)" for cs x
    using that
  proof (induction cs arbitrary: x)
    case (Cons c cs)
    show ?case
    proof (cases c)
      case None
      then show ?thesis using Cons.IH [of x] Cons.prems by (simp add: pick_def)
    next
      case (Some p)
      obtain q' b' where p: "p = (q', b')" by (cases p)
      have le: "q' < q \<or> (q', b') = (q, b)" using Cons.prems(1) Some p by simp
      have "Some (q, b) \<in> set cs \<and> fst (snd (pick c x)) \<le> q \<or> pick c x = (b, q, 0xFF)"
        using le Cons.prems(2) Some p by (auto simp: pick_def)
      then show ?thesis using Cons.IH [of "pick c x"] Cons.prems(1) by simp
    qed
  qed simp
  from this [of cs "(b0, 0, k0)"] q Some show ?thesis by simp
qed

lemma set_buffered_entries: "set order = dom m \<Longrightarrow> set (buffered_entries order m) = {(a, st). m a = Some st}"
  by (force simp: buffered_entries_def List.map_filter_def)

lemma overlap_iff:
  assumes "a + n \<le> u64_max" and "b + k \<le> u64_max"
  shows "ranges_overlap a n b k \<longleftrightarrow> n \<noteq> 0 \<and> k \<noteq> 0 \<and> a < b + k \<and> b < a + n"
  using assms by (simp add: ranges_overlap_def range_end_eq)

lemma entry_byte_bounds: "entry_byte a st pos = Some c \<Longrightarrow> a \<le> pos \<and> pos < a + length (rq_payload (bw_request st))"
  by (auto simp: entry_byte_def stored_byte_def masked_byte_def split: if_splits)

lemma candidates_filter:
  assumes buf: "buffer_of spec ws n m" and order: "set order = dom m"
    and k: "request_data_size spec req = k" "rq_address req + k \<le> u64_max" and i: "i < k"
  defines "es \<equiv> filter (\<lambda>(a, st). ranges_overlap (rq_address req) k a (request_data_size spec (bw_request st))) (buffered_entries order m)"
  shows "{c. Some c \<in> set (map (\<lambda>(a, st). entry_byte a st (rq_address req + i)) es)} = candidates_at m (rq_address req + i)"
proof -
  have ov: "ranges_overlap (rq_address req) k a (request_data_size spec (bw_request st))"
    if "m a = Some st" "entry_byte a st (rq_address req + i) = Some c" for a st c
    using buffer_of_entry [OF buf that(1)] entry_byte_bounds [OF that(2)] k(2) i
    by (simp add: entry_ok_def overlap_iff)
  have es: "(a, st) \<in> set es \<longleftrightarrow> m a = Some st \<and> ranges_overlap (rq_address req) k a (request_data_size spec (bw_request st))" for a st
    using set_buffered_entries [OF order] by (simp add: es_def)
  have "Some c \<in> set (map (\<lambda>(a, st). entry_byte a st (rq_address req + i)) es) \<longleftrightarrow>
      (\<exists>a st. (a, st) \<in> set es \<and> entry_byte a st (rq_address req + i) = Some c)" for c
    by (force simp: image_iff)
  also have "\<And>c. (\<exists>a st. (a, st) \<in> set es \<and> entry_byte a st (rq_address req + i) = Some c) \<longleftrightarrow>
      (\<exists>a st. m a = Some st \<and> entry_byte a st (rq_address req + i) = Some c)"
    unfolding es using ov by blast
  finally show ?thesis by (simp only: candidates_at_def)
qed

theorem forward_newest:
  assumes buf: "buffer_of spec ws n m" and order: "set order = dom m"
    and k: "request_data_size spec req = k" "rq_address req + k \<le> u64_max" and l: "length actual = k" "length image_mask = k"
  shows "read_forward_payload spec req order m actual image_mask =
    (map (\<lambda>i. case last_byte ws (rq_address req + i) of None \<Rightarrow> actual ! i | Some b \<Rightarrow> b) [0..<k],
     map (\<lambda>i. case last_byte ws (rq_address req + i) of None \<Rightarrow> image_mask ! i | Some b \<Rightarrow> 0xFF) [0..<k])"
proof -
  define es where "es = filter (\<lambda>(a, st). ranges_overlap (rq_address req) k a (request_data_size spec (bw_request st))) (buffered_entries order m)"
  define y where "y = fold (\<lambda>(_, st). forward_write spec req st) es (actual, replicate k 0, image_mask)"
  obtain a' s' k' where y3: "y = (a', s', k')" by (cases y)
  have ok: "\<forall>(a, st) \<in> set es. entry_ok spec a st"
    using set_buffered_entries [OF order] buffer_of_entry [OF buf] by (auto simp: es_def)
  have l0: "lens k (actual, replicate k 0, image_mask)" by (simp add: lens_def l)
  note f = forward_writes_at [OF ok k l0, folded y_def]
  have y_at: "\<exists>q. byte_at i y = (case last_byte ws (rq_address req + i) of None \<Rightarrow> (actual ! i, q, image_mask ! i) | Some b \<Rightarrow> (b, q, 0xFF))"
    if "i < k" for i
  proof -
    have "newest_in (candidates_at m (rq_address req + i)) (last_byte ws (rq_address req + i))" by (rule buffer_of_newest [OF buf])
    then have "newest_in {c. Some c \<in> set (map (\<lambda>(a, st). entry_byte a st (rq_address req + i)) es)} (last_byte ws (rq_address req + i))"
      unfolding es_def candidates_filter [OF buf order k that] .
    from fold_pick [OF this, of "actual ! i" "image_mask ! i"] show ?thesis
      using f [of i] that by (simp add: byte_at_def)
  qed
  have "a' ! i = (case last_byte ws (rq_address req + i) of None \<Rightarrow> actual ! i | Some b \<Rightarrow> b)"
    "k' ! i = (case last_byte ws (rq_address req + i) of None \<Rightarrow> image_mask ! i | Some b \<Rightarrow> 0xFF)" if "i < k" for i
    using y_at [OF that] unfolding y3 byte_at_def by (auto split: option.splits)
  moreover have "length a' = k" "length k' = k" using f [of 0] by (simp_all add: lens_def y3)
  ultimately have "a' = map (\<lambda>i. case last_byte ws (rq_address req + i) of None \<Rightarrow> actual ! i | Some b \<Rightarrow> b) [0..<k]"
    "k' = map (\<lambda>i. case last_byte ws (rq_address req + i) of None \<Rightarrow> image_mask ! i | Some b \<Rightarrow> 0xFF) [0..<k]"
    by (simp_all add: list_eq_iff_nth_eq split: option.split)
  moreover have "read_forward_payload spec req order m actual image_mask = (a', k')"
    using y3 by (simp add: read_forward_payload_def Let_def k(1) l(1) es_def [symmetric] y_def)
  ultimately show ?thesis by simp
qed

lemma request_data_size_pos: "request_data_size spec req > 0"
  by (simp add: request_data_size_def less_max_iff_disj)

lemma write_hits_read_iff:
  assumes ok: "entry_ok spec a st" and k: "request_data_size spec req = k" "rq_address req + k \<le> u64_max"
  shows "write_hits_read spec req a st \<longleftrightarrow> (\<exists>i < k. entry_byte a st (rq_address req + i) \<noteq> None)"
proof -
  let ?w = "bw_request st" and ?r = "rq_address req"
  let ?n = "length (rq_payload ?w)"
  have w: "request_data_size spec ?w = ?n" "a + ?n \<le> u64_max" "?n > 0" using ok by (simp_all add: entry_ok_def)
  have "k > 0" using request_data_size_pos [of spec req] k(1) by simp
  have bytes: "(\<exists>i < k. entry_byte a st (?r + i) \<noteq> None) \<longleftrightarrow>
      (\<exists>pos. max ?r a \<le> pos \<and> pos < min (?r + k) (a + ?n) \<and> effective_mask ?w ! (pos - a) \<noteq> 0)" (is "?L \<longleftrightarrow> ?R")
  proof
    assume ?L
    then obtain i where "i < k" "entry_byte a st (?r + i) \<noteq> None" by blast
    then show ?R by (intro exI [of _ "?r + i"]) (auto simp: entry_byte_def stored_byte_def masked_byte_def split: if_splits)
  next
    assume ?R
    then obtain pos where "max ?r a \<le> pos" "pos < min (?r + k) (a + ?n)" "effective_mask ?w ! (pos - a) \<noteq> 0" by blast
    then show ?L by (intro exI [of _ "pos - ?r"]) (auto simp: entry_byte_def stored_byte_def masked_byte_def)
  qed
  show ?thesis
  proof (cases "rq_has_byte_mask ?w")
    case False
    then have "\<And>pos. pos < a + ?n \<Longrightarrow> a \<le> pos \<Longrightarrow> effective_mask ?w ! (pos - a) \<noteq> 0" by (simp add: effective_mask_def)
    then have "(\<exists>pos. max ?r a \<le> pos \<and> pos < min (?r + k) (a + ?n) \<and> effective_mask ?w ! (pos - a) \<noteq> 0)
        \<longleftrightarrow> max ?r a < min (?r + k) (a + ?n)" by (auto intro!: exI [of _ "max ?r a"])
    then show ?thesis unfolding bytes using False \<open>k > 0\<close> w k by (auto simp: write_hits_read_def overlap_iff)
  next
    case True
    then have em: "effective_mask ?w = normalize_mask (rq_byte_mask ?w) ?n" by (simp add: effective_mask_def)
    have "write_hits_read spec req a st \<longleftrightarrow> ranges_overlap ?r k a ?n
        \<and> (\<exists>pos \<in> {max ?r a..<min (?r + k) (a + ?n)}. pos - a < ?n \<and> effective_mask ?w ! (pos - a) \<noteq> 0)"
      unfolding write_hits_read_def Let_def k(1) w(1) range_end_eq [OF k(2)] range_end_eq [OF w(2)]
      using True by (simp add: list_ex_iff em)
    also have "\<dots> \<longleftrightarrow> (\<exists>pos. max ?r a \<le> pos \<and> pos < min (?r + k) (a + ?n) \<and> effective_mask ?w ! (pos - a) \<noteq> 0)"
      using w k(2) \<open>k > 0\<close> by (auto simp: overlap_iff Bex_def)
    finally show ?thesis unfolding bytes .
  qed
qed

lemma hits_iff_buffered:
  assumes buf: "buffer_of spec ws n m" and order: "set order = dom m"
    and k: "request_data_size spec req = k" "rq_address req + k \<le> u64_max"
  shows "read_hits_buffered_write spec req order m \<longleftrightarrow> (\<exists>i < k. last_byte ws (rq_address req + i) \<noteq> None)"
proof -
  have "read_hits_buffered_write spec req order m \<longleftrightarrow> (\<exists>a st. m a = Some st \<and> write_hits_read spec req a st)"
    unfolding read_hits_buffered_write_def list_ex_iff set_buffered_entries [OF order] by auto
  also have "\<dots> \<longleftrightarrow> (\<exists>a st. m a = Some st \<and> (\<exists>i < k. entry_byte a st (rq_address req + i) \<noteq> None))"
    using write_hits_read_iff [OF buffer_of_entry [OF buf] k] by (metis (no_types))
  also have "\<dots> \<longleftrightarrow> (\<exists>i < k. candidates_at m (rq_address req + i) \<noteq> {})"
    by (auto simp: candidates_at_def) blast+
  also have "\<dots> \<longleftrightarrow> (\<exists>i < k. last_byte ws (rq_address req + i) \<noteq> None)"
  proof -
    have "candidates_at m pos \<noteq> {} \<longleftrightarrow> last_byte ws pos \<noteq> None" for pos
      using buffer_of_newest [OF buf, of pos] by (auto simp: newest_in_def split: option.splits)
    then show ?thesis by simp
  qed
  finally show ?thesis .
qed

end
