(* ===== verification/Controller_Run.thy ===== *)
theory Controller_Run
  imports Controller_Choice Controller_Timing Write_Buffer_Correct "HOL-Library.Multiset"
begin

text \<open>
  The controller over time. A run interleaves, in any order, the admission of requests, the scheduling of
  maintenance, the service of the command buses, the passage of time and the completion of pending
  requests; it records the commands issued and the writes accepted whose data still waits in the
  buffer. The invariant ties the parts together: the commands form an accepted history of the
  executor, the write buffer holds what the recorded writes left, and every buffered address has exactly
  one write in the queues.
\<close>

section \<open>The requests in the queues\<close>

definition all_requests :: "RequestQueues \<Rightarrow> Request multiset" where
  "all_requests q = mset (queue q QActive) + mset (queue q QPriority) + mset (queue q QRead) + mset (queue q QWrite)"

definition write_addresses :: "RequestQueues \<Rightarrow> nat multiset" where
  "write_addresses q = image_mset rq_address (filter_mset (\<lambda>r. rq_type r = ReqWrite) (all_requests q))"

lemma in_all_requests: "r \<in> set (queue q k) \<Longrightarrow> r \<in># all_requests q"
  by (cases k) (simp_all add: all_requests_def)

lemma all_requests_push: "all_requests (queue_push k r q) = add_mset r (all_requests q)"
  by (cases k) (simp_all add: all_requests_def queue_push_def)

lemma all_requests_with:
  "all_requests (q\<lparr>queue := (queue q)(k := rs)\<rparr>) + mset (queue q k) = all_requests q + mset rs"
  by (cases k) (simp_all add: all_requests_def)

lemma mset_drop_at:
  assumes "i < length xs"
  shows "add_mset (xs ! i) (mset (drop_at i xs)) = mset xs"
proof -
  have "mset xs = mset (take i xs @ xs ! i # drop (Suc i) xs)" using id_take_nth_drop [OF assms] by simp
  then show ?thesis by (simp add: drop_at_def)
qed

lemma mset_move:
  assumes "X + M = A + N" and "add_mset x N = M"
  shows "add_mset x X = A"
proof -
  have "add_mset x X + N = A + N" using assms by auto
  then show ?thesis by (simp only: add_right_cancel)
qed

lemma mset_exchange:
  assumes "X + M = A + N" and "add_mset x N = add_mset y M"
  shows "add_mset x X = add_mset y A"
proof -
  have "add_mset x X + (M + N) = (X + M) + add_mset x N" by simp
  also have "\<dots> = (A + N) + add_mset y M" unfolding assms ..
  also have "\<dots> = add_mset y A + (M + N)" by (simp add: ac_simps)
  finally show ?thesis by (simp only: add_right_cancel)
qed

lemma all_requests_erase:
  assumes "queue_erase spec k i q = Inr q'" and "i < length (queue q k)"
  shows "all_requests q = add_mset (queue q k ! i) (all_requests q')"
proof -
  obtain q1 where q1: "q' = q1\<lparr>queue := (queue q1)(k := drop_at i (queue q1 k))\<rparr>" "queue q1 = queue q"
    using assms by (auto simp: queue_erase_def rbind_eq_Inr Let_def split: if_splits)
  have "all_requests q1 = all_requests q" by (simp add: all_requests_def q1(2))
  with all_requests_with [of q1 k "drop_at i (queue q1 k)"] mset_drop_at [OF assms(2)]
  have "all_requests q' + mset (queue q k) = all_requests q + mset (drop_at i (queue q k))"
    by (simp add: q1)
  from mset_move [OF this mset_drop_at [OF assms(2)]] show ?thesis by simp
qed

lemma all_requests_promote:
  assumes "queue_promote spec k i q = Inr (b, q')"
  shows "all_requests q' = all_requests q"
proof (cases "k = QActive \<or> i \<ge> length (queue q k) \<or> \<not> has_space QActive q")
  case True
  then show ?thesis using assms by (simp add: queue_promote_def)
next
  case False
  define r where "r = queue q k ! i"
  obtain q1 where q1: "q' = q1\<lparr>queue := (queue q1)(k := drop_at i (queue q1 k))\<rparr>" "queue q1 = queue (queue_push QActive r q)"
    using assms False by (auto simp: queue_promote_def rbind_eq_Inr Let_def r_def split: if_splits)
  have k: "queue q1 k = queue q k" using False by (simp add: q1(2) queue_push_def)
  have "all_requests q1 = add_mset r (all_requests q)"
    using all_requests_push [of QActive r q] by (simp add: all_requests_def q1(2))
  with all_requests_with [of q1 k "drop_at i (queue q1 k)", folded q1(1), unfolded k]
  have "all_requests q' + mset (queue q k) = add_mset r (all_requests q) + mset (drop_at i (queue q k))" by simp
  from mset_move [OF this mset_drop_at] show ?thesis using False by (simp add: r_def)
qed

lemma all_requests_update:
  assumes "i < length (queue q k)"
  shows "add_mset (queue q k ! i) (all_requests (q\<lparr>queue := (queue q)(k := (queue q k)[i := r])\<rparr>)) = add_mset r (all_requests q)"
proof -
  have "add_mset (queue q k ! i) (mset ((queue q k)[i := r])) = add_mset r (mset (queue q k))"
    using assms by (simp add: mset_update)
  from mset_exchange [OF all_requests_with this] show ?thesis .
qed

lemma write_addresses_add [simp]:
  assumes "all_requests q = add_mset r M"
  shows "write_addresses q = (if rq_type r = ReqWrite then {#rq_address r#} else {#}) + image_mset rq_address (filter_mset (\<lambda>r. rq_type r = ReqWrite) M)"
  using assms by (simp add: write_addresses_def)

section \<open>Ranges\<close>

lemma validated_in_range: "validate_request_decoded spec d = Inr () \<Longrightarrow> in_range spec d"
  by (auto simp: validate_request_decoded_def in_count_def in_range_def digit_ok_def Let_def rbind_eq_Inr split: if_splits)

lemma digit_mod: "0 < n \<Longrightarrow> digit_ok n (x mod n)"
  by (simp add: digit_ok_def)

lemma digit_div:
  assumes "digit_ok (m * n) x" and "0 < n"
  shows "digit_ok m (x div n)"
proof -
  have x: "0 \<le> x" "x < m * n" using assms(1) by (simp_all add: digit_ok_def)
  have "x div n * n \<le> x" using assms(2) by (simp add: minus_mod_eq_div_mult [symmetric])
  then have "x div n * n < m * n" using x by simp
  then show ?thesis using x assms(2) by (simp add: digit_ok_def pos_imp_zdiv_nonneg_iff)
qed

lemma decoded_flat_in_range:
  assumes "dims_ok spec" and "digit_ok (bank_total spec) b"
  shows "in_range spec (decoded_from_flat_bank spec b)"
proof -
  let ?o = "ds_org spec"
  have pos: "0 < channels ?o" "0 < pseudo_channels ?o" "0 < sids ?o" "0 < ranks ?o" "0 < bank_groups ?o" "0 < banks_per_group ?o"
      "0 < rows ?o" "0 < columns ?o"
    using assms(1) by (simp_all add: dims_ok_def Let_def)
  have "digit_ok (channels ?o) (b div banks_per_group ?o div bank_groups ?o div ranks ?o div sids ?o div pseudo_channels ?o)"
    using assms(2) pos unfolding bank_total_def Let_def by (intro digit_div) simp_all
  moreover have "max 0 b = b" using assms(2) by (simp add: digit_ok_def)
  moreover have "digit_ok (rows ?o) 0" "digit_ok (columns ?o) 0" using pos by (simp_all add: digit_ok_def)
  moreover have "max 1 n = n" if "0 < n" for n :: int using that by simp
  ultimately show ?thesis
    using pos by (simp add: in_range_def decoded_from_flat_bank_def DecodedAddress_init_def Let_def digit_mod)
qed

section \<open>What the executor changes of a request\<close>

definition same_request :: "Request \<Rightarrow> Request \<Rightarrow> bool" where
  "same_request r r' \<longleftrightarrow> (\<exists>x y z. r' = r\<lparr>rq_issued_first_activate := x, rq_cas_sync_issued := y, rq_row_status_counted := z\<rparr>)"

lemma same_requestI [simp]:
  "same_request r r" "same_request r (r\<lparr>rq_issued_first_activate := x\<rparr>)" "same_request r (r\<lparr>rq_cas_sync_issued := y\<rparr>)"
  "same_request r (r\<lparr>rq_row_status_counted := z\<rparr>)"
proof -
  have r: "r = r\<lparr>rq_issued_first_activate := rq_issued_first_activate r, rq_cas_sync_issued := rq_cas_sync_issued r,
    rq_row_status_counted := rq_row_status_counted r\<rparr>" by simp
  then show "same_request r r" unfolding same_request_def by blast
  show "same_request r (r\<lparr>rq_issued_first_activate := x\<rparr>)"
    unfolding same_request_def
    by (rule exI [of _ x], rule exI [of _ "rq_cas_sync_issued r"], rule exI [of _ "rq_row_status_counted r"]) simp
  show "same_request r (r\<lparr>rq_cas_sync_issued := y\<rparr>)"
    unfolding same_request_def
    by (rule exI [of _ "rq_issued_first_activate r"], rule exI [of _ y], rule exI [of _ "rq_row_status_counted r"]) simp
  show "same_request r (r\<lparr>rq_row_status_counted := z\<rparr>)"
    unfolding same_request_def
    by (rule exI [of _ "rq_issued_first_activate r"], rule exI [of _ "rq_cas_sync_issued r"], rule exI [of _ z]) simp
qed

lemma same_request_trans: "same_request r r' \<Longrightarrow> same_request r' r'' \<Longrightarrow> same_request r r''"
  by (auto simp: same_request_def) blast

lemma same_requestD:
  assumes "same_request r r'"
  shows "rq_decoded r' = rq_decoded r" "rq_type r' = rq_type r" "rq_address r' = rq_address r"
  using assms by (auto simp: same_request_def)

lemma exec_switch_request:
  assumes "exec_switch spec req cmd clk b s = Inr (c, req', s')"
  shows "same_request req req' \<and> (\<forall>k. c = Some k \<longrightarrow> rm_decoded k = rq_decoded req)"
proof -
  have rfm: "c = Some k \<Longrightarrow> rm_decoded k = d" if "rfm_on_activate spec d m st = Inr (c, m', st')" for d m st c m' st' k
    using that by (auto simp: rfm_on_activate_def Let_def rbind_eq_Inr split: if_splits)
  have act: "req' = req \<and> (\<forall>k. c = Some k \<longrightarrow> rm_decoded k = rq_decoded req)"
    if "exec_activate spec req clk cmd s = Inr (c, req', s')" for req cmd s c req' s'
    using that by (auto simp: exec_activate_def Let_def rbind_eq_Inr dest: rfm)
  have dat: "same_request req req' \<and> c = None"
    if "exec_data spec req clk cmd l s = Inr (c, req', s')" for req cmd l s c req' s'
    using that by (auto simp: exec_data_def Let_def split: if_splits)
  have plain: "\<exists>x y z. exec_switch spec req cmd clk b s = Inr (x, y, z) \<and> same_request req y \<and> x = None"
    if "cmd \<notin> {ACT, ACT1, RD, RDA, WR, WRA, RFMPB, PREAB, REFAB, RFMAB, REFDB}"
    using that by (cases cmd; simp add: exec_switch_simps)
  consider "cmd \<in> {ACT, ACT1}" | "cmd \<in> {RD, RDA, WR, WRA}" | "cmd \<in> {RFMPB, PREAB, REFAB, RFMAB, REFDB}"
    | "cmd \<notin> {ACT, ACT1, RD, RDA, WR, WRA, RFMPB, PREAB, REFAB, RFMAB, REFDB}" by blast
  then show ?thesis
  proof cases
    case 1
    then show ?thesis using assms by (elim insertE emptyE) (auto simp: exec_switch_simps Let_def dest!: act)
  next
    case 2
    then show ?thesis using assms by (auto simp: exec_switch_simps Let_def dest!: dat)
  next
    case 3
    then show ?thesis using assms by (auto simp: exec_switch_simps Let_def rbind_eq_Inr)
  next
    case 4
    then show ?thesis using plain assms by auto
  qed
qed

lemma executor_issue_request:
  assumes "executor_issue spec req cmd clk s = Inr (c, req', s')"
  shows "same_request req req'" "c = Some k \<Longrightarrow> rm_decoded k = rq_decoded req"
  using assms by (auto simp: executor_issue_def rbind_eq_Inr dest: exec_switch_request)

section \<open>The invariant\<close>

definition buffers_ok :: "DramSpec \<Rightarrow> Request list \<Rightarrow> ControllerFront \<Rightarrow> bool" where
  "buffers_ok spec ws ct \<longleftrightarrow> buffer_of spec ws (cf_next_controller_sequence ct) (cf_buffered_writes ct)
     \<and> cf_buffered_write_addrs ct = rq_address ` set ws
     \<and> write_addresses (ct_queues ct) = mset_set (rq_address ` set ws)"

definition requests_ok :: "DramSpec \<Rightarrow> ControllerFront \<Rightarrow> bool" where
  "requests_ok spec ct \<longleftrightarrow> (\<forall>r \<in># all_requests (ct_queues ct). in_range spec (rq_decoded r))
     \<and> (\<forall>r \<in> set (queue (ct_queues ct) QPriority) \<union> set (cf_pending_maintenance ct).
          in_range spec (rq_decoded r) \<and> rq_type r = ReqMaintenance)"

definition front_ok :: "FloatChecks \<Rightarrow> DramSpec \<Rightarrow> issue list \<Rightarrow> Request list \<Rightarrow> ControllerFront \<Rightarrow> bool" where
  "front_ok fc spec h ws ct \<longleftrightarrow> issues fc spec h (ct_exec ct) \<and> (\<forall>(p, e, t) \<in> set h. t \<le> ct_clk ct) \<and> ct_clk ct < 2 ^ 63
     \<and> requests_ok spec ct \<and> buffers_ok spec ws ct"

section \<open>Admission\<close>

lemma schedule_maintenance_simps [simp]:
  "ct_exec (schedule_maintenance cmd d ct) = ct_exec ct" "ct_clk (schedule_maintenance cmd d ct) = ct_clk ct"
  "ct_queues (schedule_maintenance cmd d ct) = ct_queues ct"
  "ct_row_policy_kind (schedule_maintenance cmd d ct) = ct_row_policy_kind ct"
  "cf_pending (schedule_maintenance cmd d ct) = cf_pending ct"
  "cf_buffered_writes (schedule_maintenance cmd d ct) = cf_buffered_writes ct"
  "cf_buffered_write_addrs (schedule_maintenance cmd d ct) = cf_buffered_write_addrs ct"
  "cf_next_controller_sequence (schedule_maintenance cmd d ct) = cf_next_controller_sequence ct"
  "cf_pending_maintenance (schedule_maintenance cmd d ct) =
     cf_pending_maintenance ct @ [maintenance_request (cf_next_maintenance_id ct) (ct_clk ct) cmd d]"
  by (simp_all add: schedule_maintenance_def)

lemma maintenance_request_simps [simp]:
  "rq_decoded (maintenance_request i clk cmd d) = d" "rq_type (maintenance_request i clk cmd d) = ReqMaintenance"
  by (simp_all add: maintenance_request_def)

lemma schedule_maintenance_ok:
  "front_ok fc spec h ws ct \<Longrightarrow> in_range spec d \<Longrightarrow> front_ok fc spec h ws (schedule_maintenance cmd d ct)"
  by (auto simp: front_ok_def requests_ok_def buffers_ok_def)

lemma wake_ok:
  assumes "front_ok fc spec h ws ct" and "in_range spec (rq_decoded req)"
  shows "front_ok fc spec h ws (wake_for_request spec req ct)"
proof -
  have "front_ok fc spec h ws (x\<lparr>cf_explicit_exit_pending := p\<rparr>) \<longleftrightarrow> front_ok fc spec h ws x"
    "front_ok fc spec h ws (x\<lparr>ct_low_power_active := a, cf_low_power_exit_until := b, cf_low_power_exits := e\<rparr>) \<longleftrightarrow> front_ok fc spec h ws x"
    for x p a b e
    by (simp_all add: front_ok_def requests_ok_def buffers_ok_def)
  then show ?thesis using assms by (simp add: wake_for_request_def Let_def schedule_maintenance_ok)
qed

lemma wake_simps [simp]:
  "ct_clk (wake_for_request spec req ct) = ct_clk ct" "ct_queues (wake_for_request spec req ct) = ct_queues ct"
  "cf_pending (wake_for_request spec req ct) = cf_pending ct"
  "cf_buffered_writes (wake_for_request spec req ct) = cf_buffered_writes ct"
  "cf_buffered_write_addrs (wake_for_request spec req ct) = cf_buffered_write_addrs ct"
  "cf_next_controller_sequence (wake_for_request spec req ct) = cf_next_controller_sequence ct"
  by (simp_all add: wake_for_request_def Let_def)

lemma enqueue_split:
  assumes "enqueue spec img order req ct = Inr (ok, ct')"
  defines "req1 \<equiv> req\<lparr>rq_arrival := ct_clk ct\<rparr>"
  defines "ct1 \<equiv> wake_for_request spec req1 ct"
  shows "in_range spec (rq_decoded req)"
    and "rq_type req = ReqRead \<Longrightarrow> enqueue_read spec img order req1 ct1 = (ok, ct')"
    and "rq_type req = ReqWrite \<Longrightarrow> enqueue_write spec req1 ct1 = (ok, ct')"
    and "rq_type req = ReqMaintenance \<Longrightarrow> enqueue_maintenance req1 ct1 = (ok, ct')"
  using assms by (auto simp: enqueue_def rbind_eq_Inr check_request_def Let_def validated_in_range)

lemma write_addresses_push:
  "write_addresses (queue_push k r q) =
     (if rq_type r = ReqWrite then add_mset (rq_address r) (write_addresses q) else write_addresses q)"
  by (simp add: write_addresses_def all_requests_push)

lemma queue_push_other: "k \<noteq> k' \<Longrightarrow> queue (queue_push k r q) k' = queue q k'"
  by (simp add: queue_push_def)

lemma queue_push_same: "queue (queue_push k r q) k = queue q k @ [r]"
  by (simp add: queue_push_def)

lemma requests_ok_push:
  assumes "requests_ok spec ct" and "in_range spec (rq_decoded r)" and "k = QPriority \<Longrightarrow> rq_type r = ReqMaintenance"
    and "ct_queues ct' = queue_push k r (ct_queues ct)" and "cf_pending_maintenance ct' = cf_pending_maintenance ct"
  shows "requests_ok spec ct'"
  using assms by (cases "k = QPriority") (auto simp: requests_ok_def all_requests_push queue_push_other queue_push_same)

lemma buffer_of_weaken: "buffer_of spec ws n m \<Longrightarrow> n \<le> n' \<Longrightarrow> buffer_of spec ws n' m"
  by (auto simp: buffer_of_def)

lemma enqueue_read_ok:
  assumes ok: "front_ok fc spec h ws ct" and e: "enqueue_read spec img order req ct = (ok, ct')" and t: "rq_type req = ReqRead"
    and "in_range spec (rq_decoded req)" and "cf_next_controller_sequence ct < u64_max"
  shows "front_ok fc spec h ws ct'"
proof -
  let ?n = "cf_next_controller_sequence ct"
  have n: "u64_add ?n 1 = Suc ?n" using assms(5) by (simp add: u64_add_def u64_max_def)
  let ?m = "cf_buffered_writes ct"
  have ct': "ct' = snd (enqueue_read spec img order req ct)" using e by simp
  note [simp] = take_sequence_def bypass_def Let_def case_prod_unfold
  have weak: "buffer_of spec ws ?n m \<Longrightarrow> buffer_of spec ws (Suc ?n) m" for m by (simp add: buffer_of_weaken)
  show ?thesis
  proof (cases "read_hits_buffered_write spec req order ?m")
    case True
    have "ct_exec ct' = ct_exec ct" "ct_clk ct' = ct_clk ct" "ct_queues ct' = ct_queues ct"
      "cf_pending_maintenance ct' = cf_pending_maintenance ct" "cf_buffered_writes ct' = ?m"
      "cf_buffered_write_addrs ct' = cf_buffered_write_addrs ct" "cf_next_controller_sequence ct' = Suc ?n"
      unfolding ct' enqueue_read_def using True n by simp_all
    then show ?thesis using ok weak by (simp add: front_ok_def requests_ok_def buffers_ok_def)
  next
    case False
    show ?thesis
    proof (cases "has_space QRead (ct_queues ct)")
      case full: False
      then show ?thesis using e False ok by (simp add: enqueue_read_def)
    next
      case True
      let ?r = "req\<lparr>rq_controller_sequence := ?n\<rparr>"
      have p: "ct_exec ct' = ct_exec ct" "ct_clk ct' = ct_clk ct" "ct_queues ct' = queue_push QRead ?r (ct_queues ct)"
        "cf_pending_maintenance ct' = cf_pending_maintenance ct" "cf_buffered_writes ct' = ?m"
        "cf_buffered_write_addrs ct' = cf_buffered_write_addrs ct" "cf_next_controller_sequence ct' = Suc ?n"
        unfolding ct' enqueue_read_def using True False n by simp_all
      have "requests_ok spec ct'"
        by (rule requests_ok_push [OF _ _ _ p(3,4)]) (use ok assms(4) in \<open>simp_all add: front_ok_def\<close>)
      then show ?thesis using p ok t weak by (simp add: front_ok_def buffers_ok_def write_addresses_push)
    qed
  qed
qed

lemma enqueue_maintenance_ok:
  assumes ok: "front_ok fc spec h ws ct" and e: "enqueue_maintenance req ct = (ok, ct')" and t: "rq_type req = ReqMaintenance"
    and "in_range spec (rq_decoded req)" and "cf_next_controller_sequence ct < u64_max"
  shows "front_ok fc spec h ws ct'"
proof (cases "has_space QPriority (ct_queues ct)")
  case False
  then show ?thesis using e ok by (simp add: enqueue_maintenance_def)
next
  case True
  let ?n = "cf_next_controller_sequence ct"
  have n: "u64_add ?n 1 = Suc ?n" using assms(5) by (simp add: u64_add_def u64_max_def)
  have ct': "ct' = ct\<lparr>cf_next_controller_sequence := Suc ?n, cf_maintenance_requests := u64_add (cf_maintenance_requests ct) 1,
      ct_queues := queue_push QPriority (fst (take_sequence req ct)) (ct_queues ct)\<rparr>"
    using e True n by (auto simp: enqueue_maintenance_def take_sequence_def)
  have "requests_ok spec ct'"
    by (rule requests_ok_push [where k = QPriority and r = "fst (take_sequence req ct)" and ct = ct])
      (use ok assms(3,4) in \<open>simp_all add: front_ok_def take_sequence_def ct'\<close>)
  then show ?thesis
    using ok t buffer_of_weaken [of spec ws ?n _ "Suc ?n"]
    by (simp add: front_ok_def buffers_ok_def write_addresses_push take_sequence_def ct')
qed

text \<open>The request the buffer stores differs from the client's in bookkeeping only.\<close>

definition same_write :: "Request \<Rightarrow> Request \<Rightarrow> bool" where
  "same_write r r' \<longleftrightarrow> rq_address r = rq_address r' \<and> rq_controller_sequence r = rq_controller_sequence r'
     \<and> length (rq_payload r) = length (rq_payload r') \<and> byte_of r = byte_of r'"

lemma last_pair_replace: "same_write r r' \<Longrightarrow> last_pair (ws @ [r]) = last_pair (ws @ [r'])"
  by (rule ext) (simp add: same_write_def last_pair_snoc split: option.split)

lemma buffer_of_replace:
  assumes "buffer_of spec (ws @ [r]) n m" and "same_write r r'"
  shows "buffer_of spec (ws @ [r']) n m"
proof -
  have "entry_of spec (ws @ [r']) a (m a)" for a
    using buffer_of_entry_of [OF assms(1), of a] last_pair_replace [OF assms(2)] assms(2)
    by (auto simp: entry_of_def same_write_def split: option.splits if_splits)
  then show ?thesis using assms by (auto simp: buffer_of_def same_write_def sorted_wrt_append)
qed

lemma effective_mask_normalized:
  "effective_mask (r\<lparr>rq_byte_mask := normalize_mask (rq_byte_mask r) (length (rq_payload r))\<rparr>) = effective_mask r"
  by (simp add: effective_mask_def normalize_mask_idem)

lemma data_size_bookkeeping [simp]:
  "request_data_size spec (r\<lparr>rq_byte_mask := bm\<rparr>) = request_data_size spec r"
  "request_data_size spec (r\<lparr>rq_controller_sequence := n\<rparr>) = request_data_size spec r"
  "request_data_size spec (r\<lparr>rq_arrival := n\<rparr>) = request_data_size spec r"
  "request_data_size spec (r\<lparr>rq_bypass_dram := b\<rparr>) = request_data_size spec r"
  "request_data_size spec (r\<lparr>rq_issued_cycle := n\<rparr>) = request_data_size spec r"
  "request_data_size spec (r\<lparr>rq_completion := n\<rparr>) = request_data_size spec r"
  by (simp_all add: request_data_size_def)

lemma effective_mask_bookkeeping [simp]:
  "effective_mask (r\<lparr>rq_controller_sequence := n\<rparr>) = effective_mask r"
  "effective_mask (r\<lparr>rq_arrival := n\<rparr>) = effective_mask r"
  "effective_mask (r\<lparr>rq_bypass_dram := b\<rparr>) = effective_mask r"
  "effective_mask (r\<lparr>rq_issued_cycle := n\<rparr>) = effective_mask r"
  "effective_mask (r\<lparr>rq_completion := n\<rparr>) = effective_mask r"
  by (simp_all add: effective_mask_def)

lemma ensured_write:
  assumes "write_ok spec req"
  shows "write_ok spec (ensure_write_payload spec req)" "rq_payload (ensure_write_payload spec req) = rq_payload req"
    "rq_address (ensure_write_payload spec req) = rq_address req" "rq_type (ensure_write_payload spec req) = rq_type req"
    "rq_decoded (ensure_write_payload spec req) = rq_decoded req"
    "effective_mask (ensure_write_payload spec req) = effective_mask req"
  using assms by (simp_all add: ensure_write_payload_id effective_mask_normalized) (simp add: write_ok_def)

lemma enqueue_write_ok:
  assumes ok: "front_ok fc spec h ws ct" and e: "enqueue_write spec req ct = (ok, ct')" and t: "rq_type req = ReqWrite"
    and "in_range spec (rq_decoded req)" and "cf_next_controller_sequence ct < u64_max" and w: "write_ok spec req"
    and sizes: "\<forall>r \<in> set ws. rq_address r = rq_address req \<longrightarrow> length (rq_payload r) = length (rq_payload req)"
  defines "n \<equiv> cf_next_controller_sequence ct"
  shows "front_ok fc spec h (if ok then ws @ [req\<lparr>rq_controller_sequence := n\<rparr>] else ws) ct'"
proof -
  let ?m = "cf_buffered_writes ct" and ?e = "ensure_write_payload spec req" and ?w = "req\<lparr>rq_controller_sequence := n\<rparr>"
  note [simp] = take_sequence_def bypass_def Let_def case_prod_unfold
  have n1: "u64_add n 1 = Suc n" using assms(5) by (simp add: u64_add_def u64_max_def n_def)
  note en = ensured_write [OF w]
  have ct': "ct' = snd (enqueue_write spec req ct)" and okv: "ok = fst (enqueue_write spec req ct)" using e by simp_all
  have buf: "buffer_of spec ws n ?m" and addrs: "cf_buffered_write_addrs ct = rq_address ` set ws"
    and qs: "write_addresses (ct_queues ct) = mset_set (rq_address ` set ws)"
    using ok by (simp_all add: front_ok_def buffers_ok_def n_def)
  have store: "buffer_of spec (ws @ [?w]) (Suc n) (store_write spec r ?m)"
    if "write_ok spec r" "rq_controller_sequence r = n" "rq_address r = rq_address req" "rq_payload r = rq_payload req"
      "effective_mask r = effective_mask req" for r
  proof (rule buffer_of_replace)
    show "buffer_of spec (ws @ [r]) (Suc n) (store_write spec r ?m)"
      by (rule buffer_of_store [OF buf that(1,2)]) (use sizes that in auto)
    show "same_write r ?w" using that by (auto simp: same_write_def byte_of_def masked_byte_def)
  qed
  show ?thesis
  proof (cases "rq_address req \<in> rq_address ` set ws")
    case True
    then have some: "?m (rq_address req) \<noteq> None" using buffer_of_dom [OF buf] by simp
    show ?thesis
    proof (cases "has_unresolved_overlapping_read spec ?e 0 (ct_queues ct) (cf_pending ct)")
      case over: True
      then show ?thesis using e True ok addrs en by (simp add: enqueue_write_def)
    next
      case False
      define r where "r = ?e\<lparr>rq_controller_sequence := n, rq_bypass_dram := True, rq_issued_cycle := ct_clk ct,
        rq_completion := u64_add (ct_clk ct) 1\<rparr>"
      have p: "ct_exec ct' = ct_exec ct" "ct_clk ct' = ct_clk ct" "ct_queues ct' = ct_queues ct"
        "cf_pending_maintenance ct' = cf_pending_maintenance ct" "cf_buffered_writes ct' = coalesce_write spec r ?m"
        "cf_buffered_write_addrs ct' = cf_buffered_write_addrs ct" "cf_next_controller_sequence ct' = Suc n" "ok"
        unfolding ct' okv enqueue_write_def using True False addrs en n1 by (simp_all add: r_def n_def)
      have r: "write_ok spec r" "rq_controller_sequence r = n" "rq_address r = rq_address req" "rq_payload r = rq_payload req"
        "effective_mask r = effective_mask req"
        using en w by (simp_all add: r_def write_ok_def)
      have "coalesce_write spec r ?m = store_write spec r ?m" using some r(3) by (auto simp: store_write_def)
      then have "buffers_ok spec (ws @ [?w]) ct'"
        using store [OF r] p addrs qs True by (simp add: buffers_ok_def insert_absorb)
      then show ?thesis using p ok by (simp add: front_ok_def requests_ok_def)
    qed
  next
    case False
    then have none: "?m (rq_address req) = None" using buffer_of_dom [OF buf] by simp
    show ?thesis
    proof (cases "has_space QWrite (ct_queues ct)")
      case full: False
      then show ?thesis using e False ok addrs en by (simp add: enqueue_write_def)
    next
      case True
      define r where "r = ?e\<lparr>rq_controller_sequence := n\<rparr>"
      have p: "ct_exec ct' = ct_exec ct" "ct_clk ct' = ct_clk ct" "ct_queues ct' = queue_push QWrite r (ct_queues ct)"
        "cf_pending_maintenance ct' = cf_pending_maintenance ct" "cf_buffered_writes ct' = buffer_write r ?m"
        "cf_buffered_write_addrs ct' = insert (rq_address req) (cf_buffered_write_addrs ct)" "cf_next_controller_sequence ct' = Suc n" "ok"
        unfolding ct' okv enqueue_write_def using True False addrs en n1 by (simp_all add: r_def n_def)
      have r: "write_ok spec r" "rq_controller_sequence r = n" "rq_address r = rq_address req" "rq_payload r = rq_payload req"
        "effective_mask r = effective_mask req" "rq_type r = ReqWrite" "rq_decoded r = rq_decoded req"
        using en w t by (simp_all add: r_def write_ok_def)
      have "buffer_write r ?m = store_write spec r ?m" using none r(3) by (simp add: store_write_def)
      moreover have "write_addresses (ct_queues ct') = mset_set (rq_address ` set (ws @ [?w]))"
        using qs False r by (simp add: p(3) write_addresses_push)
      ultimately have "buffers_ok spec (ws @ [?w]) ct'"
        using store [OF r(1-5)] p addrs by (simp add: buffers_ok_def)
      moreover have "requests_ok spec ct'"
        by (rule requests_ok_push [OF _ _ _ p(3,4)]) (use ok assms(4) r in \<open>simp_all add: front_ok_def\<close>)
      ultimately show ?thesis using p ok by (simp add: front_ok_def)
    qed
  qed
qed

section \<open>Selection\<close>

lemma drop_satisfied_suffix: "drop_satisfied spec ct rs e = Inr (rs', e') \<Longrightarrow> \<exists>ys. rs = ys @ rs'"
proof (induction rs arbitrary: e)
  case (Cons r rs)
  then show ?case by (fastforce simp: rbind_eq_Inr split: if_splits)
qed simp

lemma drop_priority_ok:
  assumes "front_ok fc spec h ws ct" and "queue (ct_queues ct) QPriority = ys @ rs"
  shows "front_ok fc spec h ws ((set_queue QPriority rs ct)\<lparr>cf_row_policy := e\<rparr>)"
proof -
  let ?q = "ct_queues ct" and ?q' = "(ct_queues ct)\<lparr>queue := (queue (ct_queues ct))(QPriority := rs)\<rparr>"
  have ok: "requests_ok spec ct" "write_addresses ?q = mset_set (rq_address ` set ws)"
    using assms(1) by (simp_all add: front_ok_def buffers_ok_def)
  have "all_requests ?q' + (mset ys + mset rs) = all_requests ?q + mset rs"
    using all_requests_with [of ?q QPriority rs] assms(2) by simp
  then have all: "all_requests ?q = all_requests ?q' + mset ys" by (metis add.assoc add.commute add_right_cancel)
  have "\<forall>r \<in> set ys. rq_type r = ReqMaintenance" using ok(1) assms(2) by (simp add: requests_ok_def)
  then have "filter_mset (\<lambda>r. rq_type r = ReqWrite) (mset ys) = {#}" by (induction ys) auto
  then have "write_addresses ?q' = write_addresses ?q" by (simp add: write_addresses_def all)
  moreover have "requests_ok spec (ct\<lparr>ct_queues := ?q'\<rparr>)" using ok(1) assms(2) by (auto simp: requests_ok_def all)
  ultimately show ?thesis using assms(1) ok by (simp add: front_ok_def buffers_ok_def requests_ok_def set_queue_def)
qed

lemma front_ok_simps [simp]:
  "front_ok fc spec h ws (ct\<lparr>cf_write_mode := b\<rparr>) \<longleftrightarrow> front_ok fc spec h ws ct"
  "front_ok fc spec h ws (ct\<lparr>cf_row_policy := e\<rparr>) \<longleftrightarrow> front_ok fc spec h ws ct"
  "front_ok fc spec h ws (ct\<lparr>cf_refresh := m\<rparr>) \<longleftrightarrow> front_ok fc spec h ws ct"
  "front_ok fc spec h ws (ct\<lparr>cf_pending := ps\<rparr>) \<longleftrightarrow> front_ok fc spec h ws ct"
  "front_ok fc spec h ws (ct\<lparr>ct_rising_edge := r\<rparr>) \<longleftrightarrow> front_ok fc spec h ws ct"
  by (simp_all add: front_ok_def requests_ok_def buffers_ok_def)

lemma set_write_mode_ok: "front_ok fc spec h ws (set_write_mode opts ct) \<longleftrightarrow> front_ok fc spec h ws ct"
  by (simp add: set_write_mode_def Let_def)

lemma pick_priority_ok:
  assumes "front_ok fc spec h ws ct" and "pick_priority_if spec phy bus ct = Inr (c, ct')"
  shows "front_ok fc spec h ws ct' \<and> ct_clk ct' = ct_clk ct"
proof -
  obtain rs e where rs: "drop_satisfied spec ct (queue (ct_queues ct) QPriority) (cf_row_policy ct) = Inr (rs, e)"
    using assms(2) by (auto simp: pick_priority_if_def rbind_eq_Inr)
  define ct1 where "ct1 = (set_queue QPriority rs ct)\<lparr>cf_row_policy := e\<rparr>"
  note run = assms(2) [unfolded pick_priority_if_def rs rbind_Inr prod.case Let_def, folded ct1_def]
  have "ct' = ct1" using run by (auto simp: rbind_eq_Inr split: list.splits option.splits)
  moreover have "ct_clk ct1 = ct_clk ct" by (simp add: ct1_def set_queue_def)
  ultimately show ?thesis using drop_satisfied_suffix [OF rs] drop_priority_ok [OF assms(1)] by (auto simp: ct1_def)
qed

lemma choose_ok:
  assumes "front_ok fc spec h ws ct" and "choose_command spec opts phy bus ct = Inr (c, ct')"
  shows "front_ok fc spec h ws ct' \<and> ct_clk ct' = ct_clk ct"
proof -
  obtain a x ct1 where s: "(if a = None then pick_priority_if spec phy bus ct else Inr (a, ct)) = Inr (x, ct1)"
      "(if x = None \<and> queue (ct_queues ct1) QPriority = [] then pick_rw_if spec opts phy bus ct1 else Inr (x, ct1)) = Inr (c, ct')"
    using assms(2) by (auto simp: choose_command_def rbind_eq_Inr)
  have 1: "front_ok fc spec h ws ct1 \<and> ct_clk ct1 = ct_clk ct"
    using s(1) assms(1) pick_priority_ok [OF assms(1)] by (auto split: if_splits)
  have "ct' = ct1 \<or> ct' = set_write_mode opts ct1"
    using s(2) by (auto simp: pick_rw_if_def Let_def rbind_eq_Inr split: if_splits option.splits)
  moreover have "ct_clk (set_write_mode opts ct1) = ct_clk ct1" by (simp add: set_write_mode_def Let_def)
  ultimately show ?thesis using 1 set_write_mode_ok by metis
qed

section \<open>Issuing\<close>

lemma gate_simps [simp]:
  "ct_exec (gate ct) = ct_exec ct" "ct_clk (gate ct) = ct_clk ct" "ct_queues (gate ct) = ct_queues ct"
  by (simp_all add: Controller.defs)

lemma gates_row_status [simp]:
  "snapshot spec (r\<lparr>rq_row_status_counted := z\<rparr>) cmd busy b ct = snapshot spec r cmd busy b ct"
  "constraint_timing_ok spec (r\<lparr>rq_row_status_counted := z\<rparr>) cmd ct = constraint_timing_ok spec r cmd ct"
  "timing_switch spec (r\<lparr>rq_row_status_counted := z\<rparr>) cmd b ct = timing_switch spec r cmd b ct"
  by (simp_all add: snapshot_def constraint_timing_ok_def is_maintenance_request_def controller_wck_ready_def Let_def)
    (cases cmd; simp add: timing_switch_def controller_wck_ready_def)

lemma timing_ok_classify: "timing_ok spec (classify_row_status req) cmd ct = timing_ok spec req cmd ct"
proof -
  have "timing_ok spec (req\<lparr>rq_row_status_counted := True\<rparr>) cmd ct = timing_ok spec req cmd ct"
    unfolding timing_ok_def state_ok_def gates_row_status by simp
  then show ?thesis by (simp add: classify_row_status_def)
qed

lemma same_request_classify: "same_request req (classify_row_status req)"
  by (simp add: classify_row_status_def)

definition writes_left :: "Request option \<Rightarrow> Request list \<Rightarrow> Request list" where
  "writes_left data ws = (case data of Some w \<Rightarrow> if rq_type w = ReqWrite then filter (\<lambda>r. rq_address r \<noteq> rq_address w) ws else ws
     | None \<Rightarrow> ws)"

lemma update_request_ok:
  assumes ok: "requests_ok spec ct" and i: "i < length (queue (ct_queues ct) k)" and r: "same_request (queue (ct_queues ct) k ! i) r"
  shows "requests_ok spec (set_queue k ((queue (ct_queues ct) k)[i := r]) ct)"
    and "write_addresses (ct_queues (set_queue k ((queue (ct_queues ct) k)[i := r]) ct)) = write_addresses (ct_queues ct)"
proof -
  let ?q = "ct_queues ct" and ?old = "queue (ct_queues ct) k ! i"
  let ?q' = "?q\<lparr>queue := (queue ?q)(k := (queue ?q k)[i := r])\<rparr>"
  note D = same_requestD [OF r]
  have all: "add_mset ?old (all_requests ?q') = add_mset r (all_requests ?q)" by (rule all_requests_update [OF i])
  from arg_cong [OF all, of "\<lambda>M. image_mset rq_address (filter_mset (\<lambda>r. rq_type r = ReqWrite) M)"]
  show "write_addresses (ct_queues (set_queue k ((queue ?q k)[i := r]) ct)) = write_addresses ?q"
    using D by (simp add: write_addresses_def set_queue_def split: if_splits)
  have old: "in_range spec (rq_decoded ?old)" using ok in_all_requests [of ?old ?q k] i by (simp add: requests_ok_def)
  have sub: "x \<in># all_requests ?q' \<Longrightarrow> x = r \<or> x \<in># all_requests ?q" for x using all by (metis insert_iff set_mset_add_mset_insert)
  have 1: "in_range spec (rq_decoded x)" if "x \<in># all_requests ?q'" for x
    using sub [OF that] ok old D by (auto simp: requests_ok_def)
  have pr: "in_range spec (rq_decoded x) \<and> rq_type x = ReqMaintenance" if x: "x \<in> set (queue ?q' QPriority)" for x
  proof (cases "k = QPriority")
    case True
    then have "?old \<in> set (queue ?q QPriority)" using i by simp
    moreover have "x = r \<or> x \<in> set (queue ?q QPriority)"
      using x True set_update_subset_insert [of "queue ?q k" i r] by auto
    ultimately show ?thesis using ok D by (auto simp: requests_ok_def)
  next
    case False
    then show ?thesis using x ok by (simp add: requests_ok_def)
  qed
  show "requests_ok spec (set_queue k ((queue ?q k)[i := r]) ct)"
    using 1 pr ok unfolding requests_ok_def by (simp add: set_queue_def ball_Un)
qed

lemma executor_ok:
  assumes ok: "front_ok fc spec h ws ct" and i: "i < length (queue (ct_queues ct) k)"
    and t: "timing_ok spec (queue (ct_queues ct) k ! i) cmd (gate ct) = Inr True"
    and x: "executor_issue spec (classify_row_status (queue (ct_queues ct) k ! i)) cmd (ct_clk ct) (ct_exec ct) = Inr (c, req, ex)"
  shows "front_ok fc spec (h @ [(cmd, rq_decoded (queue (ct_queues ct) k ! i), ct_clk ct)]) ws
      ((set_queue k ((queue (ct_queues ct) k)[i := req]) ct)\<lparr>ct_exec := ex\<rparr>)"
    and "same_request (queue (ct_queues ct) k ! i) req" and "in_range spec (rq_decoded req)"
    and "c = Some m \<Longrightarrow> in_range spec (rm_decoded m)"
proof -
  let ?r = "queue (ct_queues ct) k ! i"
  have d: "rq_decoded (classify_row_status ?r) = rq_decoded ?r" by (simp add: same_requestD [OF same_request_classify])
  have rng: "in_range spec (rq_decoded ?r)"
    using ok in_all_requests [of ?r "ct_queues ct" k] i by (simp add: front_ok_def requests_ok_def)
  show same: "same_request ?r req" using same_request_trans [OF same_request_classify executor_issue_request(1) [OF x]] .
  then show "in_range spec (rq_decoded req)" using rng by (simp add: same_requestD)
  show "in_range spec (rm_decoded m)" if "c = Some m" using executor_issue_request(2) [OF x that] rng d by simp
  have hist: "issues fc spec h (ct_exec ct)" "\<forall>(p, e, t) \<in> set h. t \<le> ct_clk ct" "ct_clk ct < 2 ^ 63"
    using ok by (simp_all add: front_ok_def)
  have "issues fc spec (h @ [(cmd, rq_decoded ?r, ct_clk ct)]) ex"
    using issues.issue [of fc spec h "ct_exec ct" "gate ct" "classify_row_status ?r" cmd c req ex] hist rng x t
    by (simp add: timing_ok_classify d)
  then show "front_ok fc spec (h @ [(cmd, rq_decoded ?r, ct_clk ct)]) ws
      ((set_queue k ((queue (ct_queues ct) k)[i := req]) ct)\<lparr>ct_exec := ex\<rparr>)"
    using ok hist update_request_ok [OF _ i same, of spec]
    by (simp add: front_ok_def buffers_ok_def requests_ok_def set_queue_def)
qed

lemma bytes_taken:
  assumes buf: "buffer_of spec ws n m" and st: "m (rq_address r) = Some st"
    and w_def: "w = (if behavioral then take_buffered r m else commit_write_data spec (take_buffered r m))"
  shows "byte_of w pos = last_byte (filter (\<lambda>x. rq_address x = rq_address r) ws) pos"
    and "rq_address w = rq_address r" and "rq_type w = rq_type r"
proof -
  have ok: "entry_ok spec (rq_address r) st" by (rule buffer_of_entry [OF buf st])
  then have p: "rq_has_payload (bw_request st)" "rq_payload (bw_request st) \<noteq> []" by (simp_all add: entry_ok_def)
  have w: "rq_address w = rq_address r" "rq_type w = rq_type r" "rq_payload w = rq_payload (bw_request st)"
      "effective_mask w = effective_mask (bw_request st)"
    using p st by (simp_all add: w_def take_buffered_def commit_write_data_def ensure_write_payload_def effective_mask_def
        normalize_mask_idem Let_def)
  then show "rq_address w = rq_address r" "rq_type w = rq_type r" by simp_all
  have "byte_of w pos = map_option snd (entry_byte (rq_address r) st pos)"
    by (simp add: byte_of_def entry_byte_def stored_byte_def masked_byte_def w)
  then show "byte_of w pos = last_byte (filter (\<lambda>x. rq_address x = rq_address r) ws) pos"
    using buffer_of_entry_byte [OF buf st] by (simp add: last_byte_pair)
qed

lemma erase_ok_front:
  assumes ok: "requests_ok spec ct" and e: "queue_erase spec k i (ct_queues ct) = Inr q" and i: "i < length (queue (ct_queues ct) k)"
  shows "requests_ok spec (ct\<lparr>ct_queues := q\<rparr>)"
    and "write_addresses (ct_queues ct) =
      (if rq_type (queue (ct_queues ct) k ! i) = ReqWrite then {#rq_address (queue (ct_queues ct) k ! i)#} else {#}) + write_addresses q"
proof -
  note all = all_requests_erase [OF e i]
  show "write_addresses (ct_queues ct) =
      (if rq_type (queue (ct_queues ct) k ! i) = ReqWrite then {#rq_address (queue (ct_queues ct) k ! i)#} else {#}) + write_addresses q"
    by (simp add: write_addresses_def all)
  have "set (queue q QPriority) \<subseteq> set (queue (ct_queues ct) QPriority)"
    using e i set_drop_at [of i "queue (ct_queues ct) k"]
    by (auto simp: queue_erase_def rbind_eq_Inr Let_def split: if_splits)
  then show "requests_ok spec (ct\<lparr>ct_queues := q\<rparr>)" using ok by (auto simp: requests_ok_def all)
qed

lemma promote_ok_front:
  assumes ok: "requests_ok spec ct" and e: "queue_promote spec k i (ct_queues ct) = Inr (b, q)"
  shows "requests_ok spec (ct\<lparr>ct_queues := q\<rparr>)" and "write_addresses q = write_addresses (ct_queues ct)"
proof -
  note all = all_requests_promote [OF e]
  show "write_addresses q = write_addresses (ct_queues ct)" by (simp add: write_addresses_def all)
  have "set (queue q QPriority) \<subseteq> set (queue (ct_queues ct) QPriority)"
    using e set_drop_at [of i "queue (ct_queues ct) k"]
    by (auto simp: queue_promote_def rbind_eq_Inr Let_def queue_push_def split: if_splits)
  then show "requests_ok spec (ct\<lparr>ct_queues := q\<rparr>)" using ok by (auto simp: requests_ok_def all)
qed

lemma mset_set_remove:
  assumes "finite A" and "mset_set A = {#a#} + M"
  shows "a \<in> A" "M = mset_set (A - {a})"
proof -
  have "a \<in># mset_set A" by (simp add: assms(2))
  then show "a \<in> A" using assms(1) by simp
  then show "M = mset_set (A - {a})" using assms by (simp add: mset_set.remove)
qed

lemma erased_write:
  assumes buf: "buffers_ok spec ws ct" and req: "requests_ok spec ct" and i: "i < length (queue (ct_queues ct) k)"
    and r: "rq_type (queue (ct_queues ct) k ! i) = ReqWrite" and a: "a = rq_address (queue (ct_queues ct) k ! i)"
    and q: "queue_erase spec k i (ct_queues ct) = Inr q"
  shows "a \<in> rq_address ` set ws" and "write_addresses q = mset_set (rq_address ` set ws - {a})"
  using mset_set_remove [of "rq_address ` set ws" a "write_addresses q"] erase_ok_front(2) [OF req q i] r a buf
  by (simp_all add: buffers_ok_def)

text \<open>The four outcomes of retiring: nothing, a finished maintenance request, a request that becomes active, and
  an issued data command, which for a write takes the buffered bytes along.\<close>

definition issued_write :: "DramSpec \<Rightarrow> PhyView \<Rightarrow> Request \<Rightarrow> ControllerFront \<Rightarrow> Request" where
  "issued_write spec phy r ct = (if pv_behavioral phy then take_buffered r (cf_buffered_writes ct)
     else commit_write_data spec (take_buffered r (cf_buffered_writes ct)))"

lemma issued_write_simps [simp]:
  "rq_address (issued_write spec phy r ct) = rq_address r" "rq_type (issued_write spec phy r ct) = rq_type r"
  by (auto simp: issued_write_def take_buffered_def commit_write_data_def ensure_write_payload_def Let_def split: option.split)

lemma retire_outcomes:
  assumes r: "retire_or_advance spec phy cand issued ct = Inr (data, ct')"
  defines "k \<equiv> cd_buffer cand" and "i \<equiv> cd_index cand"
  defines "req \<equiv> queue (ct_queues ct) k ! i"
  defines "r1 \<equiv> req\<lparr>rq_issued_data_command := issued, rq_issued_cycle := ct_clk ct\<rparr>"
  obtains (stay) "data = None" "ct' = ct"
    | (finish) q where "i < length (queue (ct_queues ct) k)" "queue_erase spec k i (ct_queues ct) = Inr q" "rq_type req = ReqMaintenance"
        "data = None" "ct' = ct\<lparr>ct_queues := q\<rparr>"
    | (activate) b q where "queue_promote spec k i (ct_queues ct) = Inr (b, q)" "data = None" "ct' = ct\<lparr>ct_queues := q\<rparr>"
    | (data) q d where "i < length (queue (ct_queues ct) k)" "queue_erase spec k i (ct_queues ct) = Inr q" "rq_type req \<noteq> ReqWrite"
        "rq_type d \<noteq> ReqWrite" "data = Some d" "ct' = ct\<lparr>cf_pending := cf_pending ct @ [d], ct_queues := q\<rparr>"
    | (write_data) q d c where "i < length (queue (ct_queues ct) k)" "queue_erase spec k i (ct_queues ct) = Inr q" "rq_type req = ReqWrite"
        "data = Some d" "d = (issued_write spec phy r1 ct)\<lparr>rq_completion := c\<rparr>"
        "ct' = ct\<lparr>cf_buffered_writes := (cf_buffered_writes ct)(rq_address req := None),
           cf_buffered_write_addrs := cf_buffered_write_addrs ct - {rq_address req},
           cf_pending := cf_pending ct @ [d], ct_queues := q\<rparr>"
proof -
  note run = r [unfolded retire_or_advance_def Let_def, folded k_def i_def, folded req_def, folded r1_def]
  have t: "rq_type r1 = rq_type req" "rq_address r1 = rq_address req" by (simp_all add: r1_def)
  show ?thesis
  proof (cases "i < length (queue (ct_queues ct) k)")
    case False
    then show ?thesis using run stay by auto
  next
    case i: True
    consider (terminal) "is_terminal_maintenance req issued"
      | (opens) "\<not> is_terminal_maintenance req issued" "is_opening_command issued \<and> \<not> is_maintenance_request req \<and> k \<noteq> QActive"
      | (other) "\<not> is_terminal_maintenance req issued" "\<not> (is_opening_command issued \<and> \<not> is_maintenance_request req \<and> k \<noteq> QActive)"
          "\<not> is_data_command issued"
      | (column) "\<not> is_terminal_maintenance req issued" "\<not> (is_opening_command issued \<and> \<not> is_maintenance_request req \<and> k \<noteq> QActive)"
          "is_data_command issued"
      by blast
    then show ?thesis
    proof cases
      case terminal
      then have "rq_type req = ReqMaintenance" by (simp add: is_terminal_maintenance_def is_maintenance_request_def)
      moreover obtain q where "queue_erase spec k i (ct_queues ct) = Inr q" "data = None" "ct' = ct\<lparr>ct_queues := q\<rparr>"
        using run i terminal by (auto simp: rbind_eq_Inr)
      ultimately show ?thesis using finish i by blast
    next
      case opens
      then obtain b q where "queue_promote spec k i (ct_queues ct) = Inr (b, q)" "data = None" "ct' = ct\<lparr>ct_queues := q\<rparr>"
        using run i by (auto simp: rbind_eq_Inr)
      then show ?thesis using activate by blast
    next
      case other
      then show ?thesis using stay run i by auto
    next
      case column
      show ?thesis
      proof (cases "rq_type req = ReqWrite")
        case False
        let ?d = "r1\<lparr>rq_completion := data_completion spec phy r1 issued (ct_clk ct)\<rparr>"
        have "rbind (queue_erase spec k i (ct_queues ct)) (\<lambda>q. Inr (Some ?d, ct\<lparr>cf_pending := cf_pending ct @ [?d], ct_queues := q\<rparr>))
            = Inr (data, ct')"
          using run i column t False by simp
        then obtain q where "queue_erase spec k i (ct_queues ct) = Inr q" "data = Some ?d"
            "ct' = ct\<lparr>cf_pending := cf_pending ct @ [?d], ct_queues := q\<rparr>"
          unfolding rbind_eq_Inr by blast
        moreover have "rq_type ?d \<noteq> ReqWrite" using False t by simp
        ultimately show ?thesis using data i False by blast
      next
        case True
        define w where "w = issued_write spec phy r1 ct"
        define d where "d = w\<lparr>rq_completion := data_completion spec phy w issued (ct_clk ct)\<rparr>"
        have wa: "rq_address w = rq_address req" by (simp add: w_def t)
        have "rbind (queue_erase spec k i (ct_queues ct)) (\<lambda>q. Inr (Some d,
            ct\<lparr>cf_buffered_writes := (cf_buffered_writes ct)(rq_address w := None),
               cf_buffered_write_addrs := cf_buffered_write_addrs ct - {rq_address w},
               cf_pending := cf_pending ct @ [d], ct_queues := q\<rparr>)) = Inr (data, ct')"
          using run i column t True unfolding d_def w_def issued_write_def by simp
        then obtain q where "queue_erase spec k i (ct_queues ct) = Inr q" "data = Some d"
            "ct' = ct\<lparr>cf_buffered_writes := (cf_buffered_writes ct)(rq_address req := None),
               cf_buffered_write_addrs := cf_buffered_write_addrs ct - {rq_address req},
               cf_pending := cf_pending ct @ [d], ct_queues := q\<rparr>"
          unfolding rbind_eq_Inr wa by blast
        then show ?thesis using write_data i True d_def [unfolded w_def] by blast
      qed
    qed
  qed
qed

lemma retire_ok:
  assumes ok: "front_ok fc spec h ws ct" and r: "retire_or_advance spec phy cand issued ct = Inr (data, ct')"
  shows "front_ok fc spec h (writes_left data ws) ct'"
proof -
  have parts: "requests_ok spec ct" "buffers_ok spec ws ct" using ok by (simp_all add: front_ok_def)
  have queues: "front_ok fc spec h ws (ct\<lparr>cf_pending := ps, ct_queues := q\<rparr>)"
    if "requests_ok spec (ct\<lparr>ct_queues := q\<rparr>)" "write_addresses q = write_addresses (ct_queues ct)" for ps q
    using ok that by (simp add: front_ok_def requests_ok_def buffers_ok_def)
  show ?thesis using r
  proof (cases rule: retire_outcomes)
    case stay
    then show ?thesis using ok by (simp add: writes_left_def)
  next
    case (finish q)
    then show ?thesis using queues [of q "cf_pending ct"] erase_ok_front [OF parts(1) finish(2,1)] by (simp add: writes_left_def)
  next
    case (activate b q)
    then show ?thesis using queues [of q "cf_pending ct"] promote_ok_front [OF parts(1) activate(1)] by (simp add: writes_left_def)
  next
    case (data q d)
    then show ?thesis using queues [of q] erase_ok_front [OF parts(1) data(2,1)] by (simp add: writes_left_def)
  next
    case (write_data q d c)
    define a where "a = rq_address (queue (ct_queues ct) (cd_buffer cand) ! cd_index cand)"
    have "rq_address ` set (filter (\<lambda>x. rq_address x \<noteq> a) ws) = rq_address ` set ws - {a}" by auto
    moreover have "buffer_of spec (filter (\<lambda>x. rq_address x \<noteq> a) ws) (cf_next_controller_sequence ct) ((cf_buffered_writes ct)(a := None))"
      using parts(2) buffer_of_remove by (simp add: buffers_ok_def)
    moreover note erased_write(2) [OF parts(2,1) write_data(1,3) a_def write_data(2)] erase_ok_front(1) [OF parts(1) write_data(2,1)]
    ultimately have "front_ok fc spec h (filter (\<lambda>x. rq_address x \<noteq> a) ws) ct'"
      using ok unfolding write_data(6) a_def [symmetric] by (simp add: front_ok_def requests_ok_def buffers_ok_def)
    moreover have "writes_left data ws = filter (\<lambda>x. rq_address x \<noteq> a) ws"
      using write_data(3) by (simp add: writes_left_def write_data(4,5) a_def)
    ultimately show ?thesis by simp
  qed
qed

lemma retire_bytes:
  assumes buf: "buffers_ok spec ws ct" and req: "requests_ok spec ct"
    and r: "retire_or_advance spec phy cand issued ct = Inr (Some w, ct')" and t: "rq_type w = ReqWrite"
  shows "byte_of w pos = last_byte (filter (\<lambda>x. rq_address x = rq_address w) ws) pos"
  using r
proof (cases rule: retire_outcomes)
  case (write_data q d c)
  let ?r = "queue (ct_queues ct) (cd_buffer cand) ! cd_index cand"
  let ?r1 = "?r\<lparr>rq_issued_data_command := issued, rq_issued_cycle := ct_clk ct\<rparr>"
  have b: "buffer_of spec ws (cf_next_controller_sequence ct) (cf_buffered_writes ct)" using buf by (simp add: buffers_ok_def)
  have "rq_address ?r1 \<in> rq_address ` set ws" using erased_write(1) [OF buf req write_data(1,3) refl write_data(2)] by simp
  then obtain st where st: "cf_buffered_writes ct (rq_address ?r1) = Some st" using buffer_of_dom [OF b] by fastforce
  have "byte_of (x\<lparr>rq_completion := c\<rparr>) = byte_of x" for x by (rule ext) (simp add: byte_of_def masked_byte_def)
  then show ?thesis using bytes_taken(1) [OF b st issued_write_def] write_data(4,5) by simp
qed (use t in auto)

lemma command_flags_ok [simp]:
  "front_ok fc spec h ws (low_power_command c ct) \<longleftrightarrow> front_ok fc spec h ws ct"
  "front_ok fc spec h ws (wck_training_command opts c ct) \<longleftrightarrow> front_ok fc spec h ws ct"
  by (simp_all add: low_power_command_def wck_training_command_def front_ok_def requests_ok_def buffers_ok_def)

lemma issue_retires:
  assumes i: "cd_index cand < length (queue (ct_queues ct) (cd_buffer cand))" and e: "issue_command spec opts phy cand ct = Inr (data, ct')"
  defines "k \<equiv> cd_buffer cand" and "i \<equiv> cd_index cand" and "c \<equiv> cd_command cand"
  obtains rfm req ex ct1 where
    "executor_issue spec (classify_row_status (queue (ct_queues ct) k ! i)) c (ct_clk ct) (ct_exec ct) = Inr (rfm, req, ex)"
    "retire_or_advance spec phy cand c ct1 = Inr (data, ct')"
    "\<And>fc h ws. (\<And>m. rfm = Some m \<Longrightarrow> in_range spec (rm_decoded m)) \<Longrightarrow>
       front_ok fc spec h ws ((set_queue k ((queue (ct_queues ct) k)[i := req]) ct)\<lparr>ct_exec := ex\<rparr>) \<Longrightarrow> front_ok fc spec h ws ct1"
    "\<And>ws. (\<And>m. rfm = Some m \<Longrightarrow> in_range spec (rm_decoded m)) \<Longrightarrow>
       buffers_ok spec ws (set_queue k ((queue (ct_queues ct) k)[i := req]) ct) \<Longrightarrow>
       requests_ok spec (set_queue k ((queue (ct_queues ct) k)[i := req]) ct) \<Longrightarrow> buffers_ok spec ws ct1 \<and> requests_ok spec ct1"
proof -
  obtain rfm req ex where x: "executor_issue spec (classify_row_status (queue (ct_queues ct) k ! i)) c (ct_clk ct) (ct_exec ct) = Inr (rfm, req, ex)"
    using e assms(1) by (auto simp: issue_command_def Let_def rbind_eq_Inr k_def i_def c_def)
  define ct1 where "ct1 = (set_queue k ((queue (ct_queues ct) k)[i := req]) ct)\<lparr>ct_exec := ex\<rparr>"
  define ct2 where "ct2 = (case rfm of None \<Rightarrow> ct1 | Some m \<Rightarrow> schedule_maintenance (rm_command m) (rm_decoded m) ct1)"
  define ct3 where "ct3 = low_power_command c (wck_training_command opts c ct2)"
  define ct4 where "ct4 = ct3\<lparr>cf_row_policy := rp_on_issue (ct_row_policy_kind ct3) (flat_bank spec (rq_decoded req)) c (cf_row_policy ct3)\<rparr>"
  define ct5 where "ct5 = (if ds_hbm_edge_pairing spec \<and> cd_bus cand = RowBus \<and> is_rising_edge (gate ct4)
    then ct4\<lparr>ct_rising_edge := ct_rising_edge (record_rising_row_command spec req c (gate ct4))\<rparr> else ct4)"
  have "issue_command spec opts phy cand ct = retire_or_advance spec phy cand c ct5"
    unfolding issue_command_def Let_def x [unfolded k_def i_def c_def] rbind_Inr prod.case ct5_def ct4_def ct3_def ct2_def ct1_def k_def i_def c_def
    using assms(1) by (intro if_not_P) simp
  then have 1: "retire_or_advance spec phy cand c ct5 = Inr (data, ct')" using e by simp
  have 2: "front_ok fc spec h ws ct5"
    if "\<And>m. rfm = Some m \<Longrightarrow> in_range spec (rm_decoded m)" "front_ok fc spec h ws ct1" for fc h ws
    using that by (auto simp: ct5_def ct4_def ct3_def ct2_def schedule_maintenance_ok split: option.split)
  have flags: "requests_ok spec ct5 \<longleftrightarrow> requests_ok spec ct2" "buffers_ok spec ws ct5 \<longleftrightarrow> buffers_ok spec ws ct2" for ws
    by (simp_all add: ct5_def ct4_def ct3_def low_power_command_def wck_training_command_def requests_ok_def buffers_ok_def)
  have 3: "buffers_ok spec ws ct5 \<and> requests_ok spec ct5"
    if "\<And>m. rfm = Some m \<Longrightarrow> in_range spec (rm_decoded m)" "buffers_ok spec ws (set_queue k ((queue (ct_queues ct) k)[i := req]) ct)"
      "requests_ok spec (set_queue k ((queue (ct_queues ct) k)[i := req]) ct)" for ws
    using that unfolding flags by (cases rfm) (auto simp: ct2_def ct1_def requests_ok_def buffers_ok_def)
  show ?thesis by (rule that [OF x 1 2 [unfolded ct1_def] 3])
qed

lemma issue_ok:
  assumes ok: "front_ok fc spec h ws ct" and i: "cd_index cand < length (queue (ct_queues ct) (cd_buffer cand))"
    and t: "timing_ok spec (queue (ct_queues ct) (cd_buffer cand) ! cd_index cand) (cd_command cand) (gate ct) = Inr True"
    and e: "issue_command spec opts phy cand ct = Inr (data, ct')"
  shows "front_ok fc spec (h @ [(cd_command cand, rq_decoded (queue (ct_queues ct) (cd_buffer cand) ! cd_index cand), ct_clk ct)])
      (writes_left data ws) ct'"
  using i e
proof (cases rule: issue_retires)
  case (1 rfm req ex ct1)
  note x = executor_ok [OF ok i t 1(1)]
  show ?thesis using retire_ok [OF 1(3) [OF x(4) x(1)] 1(2)] .
qed

lemma issue_bytes:
  assumes buf: "buffers_ok spec ws ct" and req: "requests_ok spec ct" and i: "cd_index cand < length (queue (ct_queues ct) (cd_buffer cand))"
    and e: "issue_command spec opts phy cand ct = Inr (Some w, ct')" and w: "rq_type w = ReqWrite"
  shows "byte_of w pos = last_byte (filter (\<lambda>x. rq_address x = rq_address w) ws) pos"
  using i e
proof (cases rule: issue_retires)
  case (1 rfm r ex ct1)
  let ?r = "queue (ct_queues ct) (cd_buffer cand) ! cd_index cand"
  have same: "same_request ?r r"
    using same_request_trans [OF same_request_classify executor_issue_request(1) [OF 1(1)]] .
  have rng: "in_range spec (rq_decoded ?r)" using req in_all_requests [of ?r "ct_queues ct" "cd_buffer cand"] i by (simp add: requests_ok_def)
  have rfm: "in_range spec (rm_decoded m)" if "rfm = Some m" for m
    using executor_issue_request(2) [OF 1(1) that] rng by (simp add: same_requestD [OF same_request_classify])
  note u = update_request_ok [OF req i same]
  have "buffers_ok spec ws (set_queue (cd_buffer cand) ((queue (ct_queues ct) (cd_buffer cand))[cd_index cand := r]) ct)"
    using buf u(2) by (simp add: buffers_ok_def set_queue_def)
  then show ?thesis using 1(4) [OF rfm _ u(1)] retire_bytes [OF _ _ 1(2) w] by blast
qed

lemma upgrade_timing:
  assumes "try_upgrade_row_policy_command spec c ct = Inr c'" and "selectable spec phy c avoid ct"
  shows "cd_index c' = cd_index c" "cd_buffer c' = cd_buffer c" "cd_bus c' = cd_bus c"
    "timing_ok spec (queue (ct_queues ct) (cd_buffer c) ! cd_index c) (cd_command c') (gate ct) = Inr True"
  using assms by (auto simp: try_upgrade_row_policy_command_def selectable_def Let_def rbind_eq_Inr split: if_splits)

section \<open>Maintenance\<close>

lemma move_maintenance_ok:
  assumes "front_ok fc spec h ws ct" and "cf_pending_maintenance ct = rs"
    and "move_maintenance rs (ct_queues ct) = (rest, q)"
  shows "front_ok fc spec h ws (ct\<lparr>cf_pending_maintenance := rest, ct_queues := q\<rparr>)"
  using assms
proof (induction rs arbitrary: ct)
  case Nil
  then have "ct = ct\<lparr>cf_pending_maintenance := rest, ct_queues := q\<rparr>" by (cases ct) simp
  then show ?case using Nil.prems(1) by simp
next
  case (Cons r rs)
  show ?case
  proof (cases "has_space QPriority (ct_queues ct)")
    case False
    then have "rest = cf_pending_maintenance ct" "q = ct_queues ct" using Cons.prems by simp_all
    then have "ct = ct\<lparr>cf_pending_maintenance := rest, ct_queues := q\<rparr>" by simp
    then show ?thesis using Cons.prems(1) by simp
  next
    case True
    let ?ct = "ct\<lparr>cf_pending_maintenance := rs, ct_queues := queue_push QPriority r (ct_queues ct)\<rparr>"
    have r: "in_range spec (rq_decoded r)" "rq_type r = ReqMaintenance"
      using Cons.prems(1,2) by (simp_all add: front_ok_def requests_ok_def)
    have "requests_ok spec (ct\<lparr>ct_queues := queue_push QPriority r (ct_queues ct)\<rparr>)"
      by (rule requests_ok_push [where ct = ct and k = QPriority and r = r]) (use Cons.prems(1) r in \<open>simp_all add: front_ok_def\<close>)
    then have "front_ok fc spec h ws ?ct"
      using Cons.prems(1,2) r by (simp add: front_ok_def requests_ok_def buffers_ok_def write_addresses_push)
    from Cons.IH [OF this] show ?thesis using Cons.prems True by simp
  qed
qed

lemma service_pending_ok: "front_ok fc spec h ws ct \<Longrightarrow> front_ok fc spec h ws (service_pending_maintenance ct)"
  using move_maintenance_ok [of fc spec h ws ct, OF _ refl]
  by (cases "move_maintenance (cf_pending_maintenance ct) (ct_queues ct)") (simp add: service_pending_maintenance_def)

lemma row_policy_precharge_ok:
  assumes ok: "front_ok fc spec h ws ct" and b: "int b < bank_total spec" and e: "row_policy_precharge spec b ct = Inr ct'"
  shows "front_ok fc spec h ws ct'"
proof -
  let ?r = "maintenance_request (cf_next_maintenance_id ct) (ct_clk ct) PREPB (decoded_from_flat_bank spec (int b))"
  define ct1 where "ct1 = ct\<lparr>cf_next_maintenance_id := u64_add (cf_next_maintenance_id ct) 1\<rparr>"
  define ct2 where "ct2 = ct1\<lparr>ct_queues := queue_push QPriority ?r (ct_queues ct1),
    cf_row_policy := mark_precharge_pending (int b) (cf_row_policy ct1), cf_maintenance_requests := u64_add (cf_maintenance_requests ct1) 1\<rparr>"
  have "dims_ok spec" using ok issues_wf by (auto simp: front_ok_def)
  then have rng: "in_range spec (decoded_from_flat_bank spec (int b))"
    using b by (intro decoded_flat_in_range) (simp_all add: digit_ok_def)
  have 1: "front_ok fc spec h ws ct1" using ok by (simp add: ct1_def front_ok_def requests_ok_def buffers_ok_def)
  have "requests_ok spec ct2"
    by (rule requests_ok_push [where ct = ct1 and k = QPriority and r = ?r]) (use 1 rng in \<open>simp_all add: front_ok_def ct2_def\<close>)
  then have 2: "front_ok fc spec h ws ct2"
    using 1 by (simp add: front_ok_def buffers_ok_def write_addresses_push ct2_def)
  have "ct' = ct \<or> ct' = ct1 \<or> ct' = ct2"
    using e by (auto simp: row_policy_precharge_def Let_def rbind_eq_Inr ct1_def ct2_def split: if_splits)
  then show ?thesis using ok 1 2 by blast
qed

end
