(* ===== verification/Controller_System.thy ===== *)
theory Controller_System
  imports Controller_Run Refresh_Correct
begin

text \<open>
  Runs of the DRAM controller and what holds in all of them: the commands it issues respect the timing of
  the device, reads and issued writes see the newest accepted data of every byte, and no selected
  command overtakes what it must wait for.
\<close>

section \<open>Runs\<close>

definition ControllerFront_start :: "FloatChecks \<Rightarrow> DramSpec \<Rightarrow> ControllerFront \<Rightarrow> bool" where
  "ControllerFront_start fc spec ct \<longleftrightarrow> ExecState_new fc spec = Inr (ct_exec ct) \<and> (\<forall>k. queue (ct_queues ct) k = [])
     \<and> ct_clk ct = 0 \<and> cf_pending_maintenance ct = [] \<and> cf_buffered_writes ct = (\<lambda>_. None)
     \<and> cf_buffered_write_addrs ct = {} \<and> cf_next_controller_sequence ct = 1"

text \<open>
  \<open>runs fc spec opts h ws ct\<close>: from a constructed controller, the commands \<open>h\<close> have been issued, and \<open>ws\<close>
  are the accepted writes, in order and with their sequence numbers, whose addresses have not been
  issued since. Writes carry their payload; two buffered writes to one address have equal lengths. The steps are
  those of \<open>enqueue\<close> and of \<open>tick\<close>, the entry into low power of an idle controller included, in any order.
\<close>

inductive runs :: "FloatChecks \<Rightarrow> DramSpec \<Rightarrow> ControllerOptions \<Rightarrow> issue list \<Rightarrow> Request list \<Rightarrow> ControllerFront \<Rightarrow> bool"
  for fc spec opts where
  start: "ControllerFront_start fc spec ct \<Longrightarrow> runs fc spec opts [] [] ct"
| clock: "runs fc spec opts h ws ct \<Longrightarrow> ct_clk ct \<le> clk \<Longrightarrow> clk < 2 ^ 63 \<Longrightarrow> runs fc spec opts h ws (ct\<lparr>ct_clk := clk\<rparr>)"
| prune: "runs fc spec opts h ws ct \<Longrightarrow> runs fc spec opts h ws
    (ct\<lparr>ct_exec := (ct_exec ct)\<lparr>ex_timing := prune_recent_acts spec (ct_clk ct) (ex_timing (ct_exec ct))\<rparr>\<rparr>)"
| complete: "runs fc spec opts h ws ct \<Longrightarrow> set ps \<subseteq> set (cf_pending ct) \<Longrightarrow> runs fc spec opts h ws (ct\<lparr>cf_pending := ps\<rparr>)"
| enqueue: "runs fc spec opts h ws ct \<Longrightarrow> enqueue spec img order req ct = Inr (ok, ct') \<Longrightarrow>
    cf_next_controller_sequence ct < u64_max \<Longrightarrow>
    (rq_type req = ReqWrite \<Longrightarrow> write_ok spec req \<and>
      (\<forall>r \<in> set ws. rq_address r = rq_address req \<longrightarrow> length (rq_payload r) = length (rq_payload req))) \<Longrightarrow>
    runs fc spec opts h
      (if ok \<and> rq_type req = ReqWrite then ws @ [req\<lparr>rq_controller_sequence := cf_next_controller_sequence ct\<rparr>] else ws) ct'"
| maintenance: "runs fc spec opts h ws ct \<Longrightarrow> in_range spec d \<Longrightarrow> runs fc spec opts h ws (schedule_maintenance cmd d ct)"
| refresh: "runs fc spec opts h ws ct \<Longrightarrow> schedule_refresh fc spec ct = Some (Inr ct') \<Longrightarrow> runs fc spec opts h ws ct'"
| low_power: "runs fc spec opts h ws ct \<Longrightarrow> runs fc spec opts h ws (idle_low_power spec phy ct)"
| service: "runs fc spec opts h ws ct \<Longrightarrow> runs fc spec opts h ws (service_pending_maintenance ct)"
| row_policy: "runs fc spec opts h ws ct \<Longrightarrow> int b < bank_total spec \<Longrightarrow> row_policy_precharge spec b ct = Inr ct' \<Longrightarrow>
    runs fc spec opts h ws ct'"
| idle: "runs fc spec opts h ws ct \<Longrightarrow> choose_command spec opts phy bus ct = Inr (None, ct') \<Longrightarrow> runs fc spec opts h ws ct'"
| issue: "runs fc spec opts h ws ct \<Longrightarrow> choose_command spec opts phy bus ct = Inr (Some c, ct1) \<Longrightarrow>
    try_upgrade_row_policy_command spec c ct1 = Inr c' \<Longrightarrow> issue_command spec opts phy c' ct1 = Inr (data, ct') \<Longrightarrow>
    runs fc spec opts (h @ [(cd_command c', rq_decoded (queue (ct_queues ct1) (cd_buffer c') ! cd_index c'), ct_clk ct1)])
      (writes_left data ws) ct'"

lemma same_write_arrival: "same_write (r\<lparr>rq_arrival := a, rq_controller_sequence := n\<rparr>) (r\<lparr>rq_controller_sequence := n\<rparr>)"
  by (auto simp: same_write_def byte_of_def masked_byte_def)

lemma front_ok_replace:
  assumes "front_ok fc spec h (ws @ [r]) ct" and "same_write r r'"
  shows "front_ok fc spec h (ws @ [r']) ct"
  using assms buffer_of_replace [OF _ assms(2), of spec ws] by (simp add: front_ok_def buffers_ok_def same_write_def)

lemma enqueue_ok:
  assumes ok: "front_ok fc spec h ws ct" and e: "enqueue spec img order req ct = Inr (acc, ct')"
    and n: "cf_next_controller_sequence ct < u64_max"
    and w: "rq_type req = ReqWrite \<Longrightarrow> write_ok spec req \<and>
      (\<forall>r \<in> set ws. rq_address r = rq_address req \<longrightarrow> length (rq_payload r) = length (rq_payload req))"
  shows "front_ok fc spec h
    (if acc \<and> rq_type req = ReqWrite then ws @ [req\<lparr>rq_controller_sequence := cf_next_controller_sequence ct\<rparr>] else ws) ct'"
proof -
  let ?req = "req\<lparr>rq_arrival := ct_clk ct\<rparr>"
  let ?ct = "wake_for_request spec ?req ct"
  note s = enqueue_split [OF e]
  have ok1: "front_ok fc spec h ws ?ct" using wake_ok [OF ok] s(1) by simp
  show ?thesis
  proof (cases "rq_type req")
    case ReqRead
    then show ?thesis using enqueue_read_ok [OF ok1 s(2)] s(1) n by simp
  next
    case ReqMaintenance
    then show ?thesis using enqueue_maintenance_ok [OF ok1 s(4)] s(1) n by simp
  next
    case ReqWrite
    have "front_ok fc spec h (if acc then ws @ [?req\<lparr>rq_controller_sequence := cf_next_controller_sequence ?ct\<rparr>] else ws) ct'"
      by (rule enqueue_write_ok [OF ok1 s(3) [OF ReqWrite]]) (use ReqWrite s(1) n w in \<open>simp_all add: write_ok_def\<close>)
    then show ?thesis using front_ok_replace [OF _ same_write_arrival] ReqWrite by (auto split: if_splits)
  qed
qed

lemma issues_valid: "issues fc spec h s \<Longrightarrow> validate_spec fc spec = Inr ()"
  by (induction rule: issues.induct) (auto simp: ExecState_new_def rbind_eq_Inr)

lemma schedule_refresh_ok:
  assumes "front_ok fc spec h ws ct" and "schedule_refresh fc spec ct = Some (Inr ct')"
  shows "front_ok fc spec h ws ct'"
proof -
  from assms(2) obtain pp ap m r where t: "refresh_tick fc spec (ct_clk ct) pp ap (cf_refresh ct) = Some (Inr (m, r))"
      "ct' = fold (\<lambda>c. schedule_maintenance (mc_command c) (mc_decoded c)) (commands r) (ct\<lparr>cf_refresh := m\<rparr>)"
    by (auto simp: schedule_refresh_def Let_def rbind_eq_Inr)
  have v: "validate_spec fc spec = Inr ()" using assms(1) issues_valid by (auto simp: front_ok_def)
  have all: "front_ok fc spec h ws (fold (\<lambda>c. schedule_maintenance (mc_command c) (mc_decoded c)) cs x)"
    if "\<forall>c \<in> set cs. in_range spec (mc_decoded c)" "front_ok fc spec h ws x" for cs x
    using that by (induction cs arbitrary: x) (simp_all add: schedule_maintenance_ok)
  have "front_ok fc spec h ws (ct\<lparr>cf_refresh := m\<rparr>)"
    using assms(1) by (simp add: front_ok_def requests_ok_def buffers_ok_def)
  then show ?thesis unfolding t(2) using refresh_targets_in_range [OF v t(1)] by (intro all) simp_all
qed

lemma idle_low_power_ok: "front_ok fc spec h ws ct \<Longrightarrow> front_ok fc spec h ws (idle_low_power spec phy ct)"
  by (simp add: idle_low_power_def front_ok_def requests_ok_def buffers_ok_def Let_def)

lemma runs_ok: "runs fc spec opts h ws ct \<Longrightarrow> front_ok fc spec h ws ct"
proof (induction rule: runs.induct)
  case (start ct)
  have "all_requests (ct_queues ct) = {#}" using start by (simp add: ControllerFront_start_def all_requests_def)
  then show ?case
    using start buffer_of_empty [of spec] issues.start [of fc spec "ct_exec ct"]
    by (simp add: ControllerFront_start_def front_ok_def requests_ok_def buffers_ok_def write_addresses_def)
next
  case (clock h ws ct clk)
  then show ?case by (fastforce simp: front_ok_def requests_ok_def buffers_ok_def)
next
  case (prune h ws ct)
  then show ?case using issues.prune [of fc spec h "ct_exec ct"] by (simp add: front_ok_def requests_ok_def buffers_ok_def)
next
  case (complete h ws ct ps)
  then show ?case by simp
next
  case (enqueue h ws ct img order req ok ct')
  then show ?case by (intro enqueue_ok) auto
next
  case (maintenance h ws ct d cmd)
  then show ?case by (simp add: schedule_maintenance_ok)
next
  case (refresh h ws ct ct')
  then show ?case by (intro schedule_refresh_ok [OF refresh.IH refresh.hyps(2)])
next
  case (low_power h ws ct phy)
  show ?case by (rule idle_low_power_ok [OF low_power.IH])
next
  case (service h ws ct)
  then show ?case by (simp add: service_pending_ok)
next
  case (row_policy h ws ct b ct')
  then show ?case by (auto intro: row_policy_precharge_ok)
next
  case (idle h ws ct phy bus ct')
  then show ?case using choose_ok by blast
next
  case (issue h ws ct phy bus c ct1 c' data ct')
  have 1: "front_ok fc spec h ws ct1" using choose_ok [OF issue.IH issue.hyps(2)] by blast
  have sel: "selectable spec phy c (cd_buffer c \<noteq> QActive) ct1" using choose_selectable [OF issue.hyps(2)] by blast
  note u = upgrade_timing [OF issue.hyps(3) sel]
  show ?case using issue_ok [OF 1 _ _ issue.hyps(4)] u sel by (simp add: selectable_def)
qed

lemma runs_serve_bus:
  assumes "runs fc spec opts h ws ct" and "serve_bus spec opts phy bus ct = Inr (r, ct')"
  shows "\<exists>h' ws'. runs fc spec opts (h @ h') ws' ct'"
proof -
  obtain c ct1 where c: "choose_command spec opts phy bus ct = Inr (c, ct1)"
    using assms(2) by (auto simp: serve_bus_def rbind_eq_Inr)
  show ?thesis
  proof (cases c)
    case None
    then have "choose_command spec opts phy bus ct = Inr (None, ct')" using c assms(2) by (simp add: serve_bus_def)
    from runs.idle [OF assms(1) this] have "runs fc spec opts (h @ []) ws ct'" by simp
    then show ?thesis by blast
  next
    case (Some d)
    then obtain d' data where "try_upgrade_row_policy_command spec d ct1 = Inr d'" "issue_command spec opts phy d' ct1 = Inr (data, ct')"
      using assms(2) c by (auto simp: serve_bus_def rbind_eq_Inr)
    then show ?thesis using runs.issue [OF assms(1) c [unfolded Some]] by blast
  qed
qed

text \<open>The service of the buses in a tick stays within the runs.\<close>

lemma runs_serve_buses:
  assumes "runs fc spec opts h ws ct" and "serve_buses spec opts phy ct = Inr ct'"
  shows "\<exists>h' ws'. runs fc spec opts (h @ h') ws' ct'"
proof (cases "ds_dual_command_bus spec")
  case False
  then show ?thesis using assms runs_serve_bus [OF assms(1)] by (auto simp: serve_buses_def rbind_eq_Inr)
next
  case True
  then obtain r ct1 r' where s: "(if \<not> ds_hbm_edge_pairing spec \<or> is_rising_edge (gate ct) then serve_bus spec opts phy ColumnBus ct
      else Inr (None, ct)) = Inr (r, ct1)" "serve_bus spec opts phy RowBus ct1 = Inr (r', ct')"
    using assms(2) by (auto simp: serve_buses_def rbind_eq_Inr)
  have "runs fc spec opts (h @ []) ws ct" using assms(1) by simp
  then have "\<exists>h' ws'. runs fc spec opts (h @ h') ws' ct1"
    using s(1) runs_serve_bus [OF assms(1)] by (auto split: if_splits simp del: append_Nil2)
  then show ?thesis using runs_serve_bus [OF _ s(2)] by (metis append.assoc)
qed

lemma runs_row_policy:
  assumes "runs fc spec opts h ws ct" and "apply_row_policy_pre_schedule spec ct = Inr ct'"
    and "int (length (column_accesses (cf_row_policy ct))) \<le> bank_total spec"
  shows "runs fc spec opts h ws ct'"
proof (cases "ct_row_policy_kind ct = ClosedCap")
  case True
  then have "rfold (row_policy_precharge spec) [0..<length (column_accesses (cf_row_policy ct))] ct = Inr ct'"
    using assms(2) by (simp add: apply_row_policy_pre_schedule_def)
  then show ?thesis
  proof (rule rfold_invariant [where P = "runs fc spec opts h ws"])
    fix b x y
    assume b: "b \<in> set [0..<length (column_accesses (cf_row_policy ct))]" and r: "runs fc spec opts h ws x" "row_policy_precharge spec b x = Inr y"
    have "int b < bank_total spec" using b assms(3) by simp
    then show "runs fc spec opts h ws y" by (rule runs.row_policy [OF r(1) _ r(2)])
  qed (rule assms(1))
qed (use assms(1,2) in \<open>simp add: apply_row_policy_pre_schedule_def\<close>)

text \<open>The part of a tick after the completions stays within the runs.\<close>

lemma runs_command_phase:
  assumes "runs fc spec opts h ws ct" and "command_phase fc spec opts phy ct = Some (Inr ct')"
    and len: "int (length (column_accesses (cf_row_policy ct))) \<le> bank_total spec"
  shows "\<exists>h' ws'. runs fc spec opts (h @ h') ws' ct'"
proof (cases "cf_low_power_exit_until ct > ct_clk ct")
  case True
  then have "runs fc spec opts (h @ []) ws ct'" using assms(1,2) by (simp add: command_phase_def)
  then show ?thesis by blast
next
  case False
  define ct0 where "ct0 = ct\<lparr>ct_exec := (ct_exec ct)\<lparr>ex_timing := prune_recent_acts spec (ct_clk ct) (ex_timing (ct_exec ct))\<rparr>\<rparr>"
  have "map_option (\<lambda>r. rbind r (\<lambda>ct. rbind (apply_row_policy_pre_schedule spec (service_pending_maintenance ct)) (\<lambda>ct.
      rbind (serve_buses spec opts phy ct) (\<lambda>ct. Inr (idle_low_power spec phy ct))))) (schedule_refresh fc spec ct0) = Some (Inr ct')"
    using assms(2) False by (simp only: command_phase_def ct0_def Let_def if_False)
  then obtain ct1 ct2 ct3 where c: "schedule_refresh fc spec ct0 = Some (Inr ct1)"
      "apply_row_policy_pre_schedule spec (service_pending_maintenance ct1) = Inr ct2"
      "serve_buses spec opts phy ct2 = Inr ct3" "ct' = idle_low_power spec phy ct3"
    by (auto simp only: map_option_eq_Some rbind_eq_Inr sum.inject)
  have same: "cf_row_policy (fold (\<lambda>c. schedule_maintenance (mc_command c) (mc_decoded c)) cs x) = cf_row_policy x" for cs x
    by (induction cs arbitrary: x) (simp_all add: schedule_maintenance_def)
  have "cf_row_policy ct1 = cf_row_policy ct"
    using c(1) by (auto simp: schedule_refresh_def Let_def rbind_eq_Inr same ct0_def)
  then have rp: "cf_row_policy (service_pending_maintenance ct1) = cf_row_policy ct"
    by (simp add: service_pending_maintenance_def case_prod_unfold Let_def)
  have "runs fc spec opts h ws ct0" unfolding ct0_def by (rule runs.prune [OF assms(1)])
  from runs_row_policy [OF runs.service [OF runs.refresh [OF this c(1)]] c(2)] have "runs fc spec opts h ws ct2"
    unfolding rp using len .
  then obtain h' ws' where "runs fc spec opts (h @ h') ws' ct3" using runs_serve_buses c(3) by blast
  then show ?thesis unfolding c(4) using runs.low_power by blast
qed

section \<open>A run on an HBM device\<close>

definition demo_front :: "ExecState \<Rightarrow> ControllerFront" where
  "demo_front s = \<lparr>ct_row_policy_kind = OpenPage, ct_exec = s, ct_queues = demo_queues, ct_clk = 0,
     ct_rising_edge = RisingEdgeCommandInfo_init, ct_low_power_active = False, ct_explicit_power_down_active = False,
     ct_explicit_self_refresh_active = False, ct_wck_retrain_required = False, cf_pending = [], cf_pending_maintenance = [],
     cf_buffered_write_addrs = {}, cf_buffered_writes = (\<lambda>_. None), cf_next_maintenance_id = 1, cf_next_controller_sequence = 1,
     cf_explicit_exit_pending = None, cf_low_power_exit_until = 0, cf_low_power_idle_since = 0,
     cf_row_policy = \<lparr>rp_cap = 4, column_accesses = replicate 16 0, precharge_pending = replicate 16 False\<rparr>,
     cf_refresh = \<lparr>rank_states = [], rank_cursor = 0\<rparr>, cf_write_mode = False, cf_reads = 0, cf_writes = 0, cf_injected_requests = 0,
     cf_read_forwards = 0, cf_write_coalesces = 0, cf_maintenance_requests = 0, cf_low_power_exits = 0\<rparr>"

definition demo_image :: ImageView where
  "demo_image = \<lparr>iv_capacity = 0, iv_read = (\<lambda>req n. (replicate n 0, replicate n 0, False, False))\<rparr>"

definition demo_phy :: PhyView where
  "demo_phy = \<lparr>pv_behavioral = False, pv_can_accept_command = (\<lambda>_. True), pv_can_accept_data = (\<lambda>_. True),
     pv_submit_data = (\<lambda>_ _ clk. clk), pv_idle = True\<rparr>"

definition demo_opts :: ControllerOptions where
  "demo_opts = \<lparr>co_scheduler = FRFCFS, co_above_high_watermark = (\<lambda>n. n > 12), co_below_low_watermark = (\<lambda>n. n < 3),
     co_wck_retrain_after_dvfs = False\<rparr>"

lemma demo_front_simps [simp]:
  "ct_row_policy_kind (demo_front s) = OpenPage" "ct_exec (demo_front s) = s" "ct_queues (demo_front s) = demo_queues"
  "ct_clk (demo_front s) = 0" "ct_low_power_active (demo_front s) = False" "ct_explicit_power_down_active (demo_front s) = False"
  "ct_explicit_self_refresh_active (demo_front s) = False" "ct_wck_retrain_required (demo_front s) = False"
  "cf_pending (demo_front s) = []" "cf_buffered_write_addrs (demo_front s) = {}" "cf_buffered_writes (demo_front s) = (\<lambda>_. None)"
  "cf_next_controller_sequence (demo_front s) = 1" "cf_pending_maintenance (demo_front s) = []" "cf_write_mode (demo_front s) = False"
  by (simp_all add: demo_front_def)

lemma demo_start: "ExecState_new demo_float hbm_demo = Inr s \<Longrightarrow> runs demo_float hbm_demo demo_opts [] [] (demo_front s)"
  by (rule runs.start) (simp add: ControllerFront_start_def demo_queues_def)

lemma demo_check: "rq_decoded req = DecodedAddress_init \<Longrightarrow> rq_qos_class req = 0 \<Longrightarrow> rq_target_stack req = -1 \<Longrightarrow>
    rq_target_channel req = -1 \<Longrightarrow> check_request hbm_demo demo_image req = Inr ()"
  by (simp add: check_request_def validate_request_decoded_def in_count_def DecodedAddress_init_def hbm_demo_def DramSpec_init_def
      Organization_init_def demo_image_def Let_def)

definition demo_read_front :: "ExecState \<Rightarrow> ControllerFront" where
  "demo_read_front s = snd (enqueue_read hbm_demo demo_image [] (Request_init\<lparr>rq_arrival := 0\<rparr>) (demo_front s))"

lemma demo_enqueue_read:
  "enqueue hbm_demo demo_image [] Request_init (demo_front s) = Inr (True, demo_read_front s)"
  "demo_read_front s = (demo_front s)\<lparr>cf_next_controller_sequence := 2, cf_reads := 1, cf_injected_requests := 1,
     ct_queues := queue_push QRead (Request_init\<lparr>rq_controller_sequence := 1\<rparr>) demo_queues\<rparr>"
proof -
  have r: "rq_qos_class Request_init = 0" "rq_target_stack Request_init = -1" "rq_target_channel Request_init = -1" "rq_arrival Request_init = 0"
    by (simp_all add: Request_init_def)
  have z: "Request_init\<lparr>rq_arrival := 0\<rparr> = Request_init" by (simp add: Request_init_def)
  have e: "enqueue_read hbm_demo demo_image [] Request_init (demo_front s) = (True, (demo_front s)\<lparr>cf_next_controller_sequence := 2,
      cf_reads := 1, cf_injected_requests := 1, ct_queues := queue_push QRead (Request_init\<lparr>rq_controller_sequence := 1\<rparr>) demo_queues\<rparr>)"
    by (simp add: enqueue_read_def read_hits_buffered_write_def buffered_entries_def List.map_filter_def has_space_def demo_queues_def
        take_sequence_def u64_add_def demo_front_def)
  show "demo_read_front s = (demo_front s)\<lparr>cf_next_controller_sequence := 2, cf_reads := 1, cf_injected_requests := 1,
     ct_queues := queue_push QRead (Request_init\<lparr>rq_controller_sequence := 1\<rparr>) demo_queues\<rparr>"
    by (simp only: demo_read_front_def z e snd_conv)
  then show "enqueue hbm_demo demo_image [] Request_init (demo_front s) = Inr (True, demo_read_front s)"
    by (simp add: enqueue_def demo_check r z e wake_for_request_def)
qed

definition demo_busy :: "ExecState \<Rightarrow> ControllerFront" where
  "demo_busy s = (demo_read_front s)\<lparr>ct_clk := 10\<rparr>"

definition demo_candidate :: Candidate where
  "demo_candidate = \<lparr>cd_index = 0, cd_buffer = QRead, cd_command = ACT, cd_bus = UnifiedBus\<rparr>"

lemma demo_busy_simps [simp]:
  "ct_row_policy_kind (demo_busy s) = OpenPage" "ct_exec (demo_busy s) = s" "ct_clk (demo_busy s) = 10"
  "ct_queues (demo_busy s) = queue_push QRead (Request_init\<lparr>rq_controller_sequence := 1\<rparr>) demo_queues"
  "ct_low_power_active (demo_busy s) = False" "ct_explicit_power_down_active (demo_busy s) = False"
  "ct_explicit_self_refresh_active (demo_busy s) = False" "ct_wck_retrain_required (demo_busy s) = False"
  "cf_pending (demo_busy s) = []" "cf_write_mode (demo_busy s) = False" "cf_row_policy (demo_busy s) = cf_row_policy (demo_front s)"
  by (simp_all add: demo_busy_def demo_enqueue_read(2))

lemma demo_run_busy: "ExecState_new demo_float hbm_demo = Inr s \<Longrightarrow> runs demo_float hbm_demo demo_opts [] [] (demo_busy s)"
  unfolding demo_busy_def
  using runs.clock [OF runs.enqueue [OF demo_start demo_enqueue_read(1)], of s 10]
  by (simp add: demo_enqueue_read(2) u64_max_def)

lemma gate_flags [simp]:
  "ct_low_power_active (gate ct) = ct_low_power_active ct" "ct_explicit_power_down_active (gate ct) = ct_explicit_power_down_active ct"
  "ct_explicit_self_refresh_active (gate ct) = ct_explicit_self_refresh_active ct"
  "ct_wck_retrain_required (gate ct) = ct_wck_retrain_required ct" "ct_row_policy_kind (gate ct) = ct_row_policy_kind ct"
  by (simp_all add: Controller.defs)

lemma demo_split: "\<not> ds_split_activate hbm_demo" "\<not> ds_hbm_edge_pairing hbm_demo"
  by (simp_all add: hbm_demo_def DramSpec_init_def)

lemma demo_act_ready:
  assumes "ExecState_new demo_float hbm_demo = Inr s"
  shows "timing_ok hbm_demo (Request_init\<lparr>rq_controller_sequence := 1\<rparr>) ACT (gate (demo_busy s)) = Inr True"
    and "next_command_for hbm_demo (Request_init\<lparr>rq_controller_sequence := 1\<rparr>) (gate (demo_busy s)) = Inr (Some ACT)"
proof -
  let ?d = DecodedAddress_init
  obtain s' where "ExecState_new demo_float hbm_demo = Inr s'" "bank_group_scopes (ex_timing s') ! 0 = TimingScopeState_init"
    "gates (ex_timing s') = ([TimingScopeState_init], [TimingScopeState_init], [TimingScopeState_init], [0, 0, 0, 0])"
    using hbm_demo_new by blast
  with assms have s: "bank_group_scopes (ex_timing s) ! 0 = TimingScopeState_init"
    "gates (ex_timing s) = ([TimingScopeState_init], [TimingScopeState_init], [TimingScopeState_init], [0, 0, 0, 0])" by simp_all
  have st: "issues demo_float hbm_demo [] s" using assms by (rule issues.start)
  note wf = new_wf [OF assms]
  have init: "bank_of hbm_demo s ?d = BankState_init" by (rule wf(3) [OF hbm_demo_range])
  have cr: "constraint_ready hbm_demo ?d ACT 10 (ex_timing s)"
    using issues_constraint_ready [OF st, of ACT] by simp
  have busy: "\<exists>x. any_bank_busy_in_channel hbm_demo ?d (gate (demo_busy s)) = Inr x"
    by (simp add: any_bank_busy_in_channel_def Let_def)
  have rq: "is_maintenance_request (Request_init\<lparr>rq_controller_sequence := 1\<rparr>) = False" by (simp add: is_maintenance_request_def)
  show "timing_ok hbm_demo (Request_init\<lparr>rq_controller_sequence := 1\<rparr>) ACT (gate (demo_busy s)) = Inr True"
    using busy s cr
    by (auto simp: timing_ok_def state_ok_def at_bank_of [OF wf(2) hbm_demo_range] init check_command_state_def snapshot_def
        constraint_timing_ok_def timing_switch_def row_state_def bank_group_state_def faw_ready_def gates_def TimingScopeState_init_def
        BankState_init_def rq Let_def)
  show "next_command_for hbm_demo (Request_init\<lparr>rq_controller_sequence := 1\<rparr>) (gate (demo_busy s)) = Inr (Some ACT)"
    using demo_split by (simp add: next_command_for_def at_bank_of [OF wf(2) hbm_demo_range] init BankState_init_def is_maintenance_request_def)
qed

lemma demo_choose:
  assumes "ExecState_new demo_float hbm_demo = Inr s"
  shows "choose_command hbm_demo demo_opts demo_phy UnifiedBus (demo_busy s) = Inr (Some demo_candidate, demo_busy s)"
proof -
  let ?ct = "demo_busy s"
  note act = demo_act_ready [OF assms]
  have q: "queue (ct_queues ?ct) QActive = []" "queue (ct_queues ?ct) QPriority = []" "queue (ct_queues ?ct) QWrite = []"
      "queue (ct_queues ?ct) QRead = [Request_init\<lparr>rq_controller_sequence := 1\<rparr>]"
    by (simp_all add: queue_push_def demo_queues_def)
  have "pick_urgent_act2 hbm_demo demo_phy UnifiedBus ?ct = Inr None"
    by (simp add: pick_urgent_act2_def hbm_demo_def DramSpec_init_def)
  moreover have "pick_best_ready_from hbm_demo demo_opts demo_phy QActive UnifiedBus False ?ct = Inr None"
    by (simp add: pick_best_ready_from_def q select_scheduled_request_def del: demo_busy_simps)
  moreover have "pick_priority_if hbm_demo demo_phy UnifiedBus ?ct = Inr (None, ?ct)"
    by (simp add: pick_priority_if_def q set_queue_def del: demo_busy_simps)
       (simp add: demo_busy_def demo_enqueue_read(2) demo_queues_def queue_push_def demo_front_def fun_eq_iff)
  moreover have "candidate_eligible hbm_demo demo_phy (Request_init\<lparr>rq_controller_sequence := 1\<rparr>) ACT UnifiedBus QRead True ?ct = Inr True"
    by (simp add: candidate_eligible_def demo_phy_def bus_matches_def would_close_active_def)
  then have "pick_best_ready_from hbm_demo demo_opts demo_phy QRead UnifiedBus True ?ct = Inr (Some demo_candidate)"
    using act by (simp add: pick_best_ready_from_def q select_scheduled_request_def scan_candidate_def demo_candidate_def
        phy_admission_ok_def demo_phy_def demo_opts_def del: demo_busy_simps)
  then have "pick_rw_if hbm_demo demo_opts demo_phy UnifiedBus ?ct = Inr (Some demo_candidate, ?ct)"
    by (simp add: pick_rw_if_def set_write_mode_def q demo_opts_def Let_def del: demo_busy_simps(4))
  ultimately show ?thesis by (simp add: choose_command_def q del: demo_busy_simps(4))
qed

lemma demo_issue:
  assumes "ExecState_new demo_float hbm_demo = Inr s"
  shows "\<exists>ct. runs demo_float hbm_demo demo_opts [(ACT, DecodedAddress_init, 10)] [] ct"
proof -
  let ?ct = "demo_busy s" and ?r = "Request_init\<lparr>rq_controller_sequence := 1\<rparr>"
  note wf = new_wf [OF assms]
  have d: "rq_decoded (classify_row_status ?r) = DecodedAddress_init" by (simp add: classify_row_status_def)
  obtain c r' s' where x: "executor_issue hbm_demo (classify_row_status ?r) ACT 10 s = Inr (c, r', s')"
    using executor_issue_banks [OF wf(1,2), of "classify_row_status ?r" ACT 10] hbm_demo_range d by metis
  have r': "rq_decoded r' = DecodedAddress_init" "rq_type r' = ReqRead"
    using same_requestD [OF same_request_trans [OF same_request_classify executor_issue_request(1) [OF x]]] by simp_all
  have flat_demo: "flat_bank hbm_demo DecodedAddress_init = 0" by (simp add: flat_bank_def DecodedAddress_init_def Let_def)
  have up: "try_upgrade_row_policy_command hbm_demo demo_candidate ?ct = Inr demo_candidate"
    by (simp add: try_upgrade_row_policy_command_def)
  have "\<exists>res. retire_or_advance hbm_demo demo_phy demo_candidate ACT ct1 = Inr res"
    if "queue (ct_queues ct1) QRead = [r']" "queue (ct_queues ct1) QActive = []" "limit (ct_queues ct1) = (\<lambda>_. 16)"
      "active_counts (ct_queues ct1) = replicate 16 0" for ct1
    using that r' by (simp add: retire_or_advance_def demo_candidate_def is_terminal_maintenance_def is_maintenance_request_def
        is_opening_command_def command_meta_def kMeta_def meta_def queue_promote_def has_space_def count_at_def flat_demo rbind_def Let_def)
  then have "\<exists>res. issue_command hbm_demo demo_opts demo_phy demo_candidate ?ct = Inr res"
    using x demo_split
    by (simp add: issue_command_def demo_candidate_def queue_push_def demo_queues_def Let_def low_power_command_def wck_training_command_def
        set_queue_def split: option.split)
  then obtain data ct' where "issue_command hbm_demo demo_opts demo_phy demo_candidate ?ct = Inr (data, ct')" by auto
  from runs.issue [OF demo_run_busy [OF assms] demo_choose [OF assms] up this]
  have "runs demo_float hbm_demo demo_opts [(ACT, DecodedAddress_init, 10)] (writes_left data []) ct'"
    by (simp add: demo_candidate_def queue_push_def demo_queues_def)
  moreover have "writes_left data [] = []" by (simp add: writes_left_def split: option.split)
  ultimately show ?thesis by auto
qed

definition demo_store :: Request where
  "demo_store = Request_init\<lparr>rq_type := ReqWrite, rq_transfer_bytes := 4, rq_payload := [1, 2, 3, 4], rq_has_payload := True\<rparr>"

definition demo_load :: Request where
  "demo_load = Request_init\<lparr>rq_address := 2, rq_transfer_bytes := 4\<rparr>"

definition demo_write_front :: "ExecState \<Rightarrow> ControllerFront" where
  "demo_write_front s = (demo_front s)\<lparr>cf_next_controller_sequence := 2, cf_writes := 1, cf_injected_requests := 1,
     cf_buffered_write_addrs := {0},
     cf_buffered_writes := [0 \<mapsto> \<lparr>bw_request = demo_store\<lparr>rq_controller_sequence := 1\<rparr>, bw_byte_sequence = [1, 1, 1, 1]\<rparr>],
     ct_queues := queue_push QWrite (demo_store\<lparr>rq_controller_sequence := 1\<rparr>) demo_queues\<rparr>"

lemma demo_write_simps [simp]:
  "rq_type demo_store = ReqWrite" "rq_address demo_store = 0" "rq_decoded demo_store = DecodedAddress_init"
  "rq_payload demo_store = [1, 2, 3, 4]" "rq_has_payload demo_store" "\<not> rq_has_byte_mask demo_store" "rq_transfer_bytes demo_store = 4"
  "demo_store\<lparr>rq_arrival := 0\<rparr> = demo_store" "rq_type demo_load = ReqRead" "rq_address demo_load = 2"
  "rq_transfer_bytes demo_load = 4" "demo_load\<lparr>rq_arrival := 0\<rparr> = demo_load" "rq_decoded demo_load = DecodedAddress_init"
  by (simp_all add: demo_store_def demo_load_def Request_init_def)

lemma demo_store_ok: "write_ok hbm_demo demo_store"
  by (simp add: write_ok_def request_data_size_def u64_max_def)

lemma demo_selectors:
  "rq_qos_class demo_store = 0" "rq_target_stack demo_store = -1" "rq_target_channel demo_store = -1"
  "rq_qos_class demo_load = 0" "rq_target_stack demo_load = -1" "rq_target_channel demo_load = -1"
  by (simp_all add: demo_store_def demo_load_def Request_init_def)

lemma demo_enqueue_write: "enqueue hbm_demo demo_image order demo_store (demo_front s) = Inr (True, demo_write_front s)"
proof -
  have "enqueue_write hbm_demo demo_store (demo_front s) = (True, demo_write_front s)"
    by (simp add: enqueue_write_def ensure_write_payload_def has_space_def demo_queues_def take_sequence_def u64_add_def
        buffer_write_def demo_write_front_def demo_front_def)
  then show ?thesis by (simp add: enqueue_def demo_check demo_selectors wake_for_request_def)
qed

lemma demo_run_write:
  assumes "ExecState_new demo_float hbm_demo = Inr s"
  shows "runs demo_float hbm_demo demo_opts [] [demo_store\<lparr>rq_controller_sequence := 1\<rparr>] (demo_write_front s)"
  using runs.enqueue [OF demo_start [OF assms] demo_enqueue_write [of "[]" s]] demo_store_ok by (simp add: u64_max_def)

lemma demo_issue_write:
  assumes "ExecState_new demo_float hbm_demo = Inr s"
    and ct: "ct_exec ct = s" "ct_clk ct = 0" "ct_queues ct = queue_push QWrite (demo_store\<lparr>rq_controller_sequence := 1\<rparr>) demo_queues"
  shows "\<exists>w ct'. issue_command hbm_demo demo_opts demo_phy \<lparr>cd_index = 0, cd_buffer = QWrite, cd_command = WR, cd_bus = UnifiedBus\<rparr> ct
      = Inr (Some w, ct') \<and> rq_type w = ReqWrite \<and> rq_address w = 0"
proof -
  let ?r = "demo_store\<lparr>rq_controller_sequence := 1\<rparr>"
  let ?c = "\<lparr>cd_index = 0, cd_buffer = QWrite, cd_command = WR, cd_bus = UnifiedBus\<rparr>"
  note wf = new_wf [OF assms(1)]
  have d: "rq_decoded (classify_row_status ?r) = DecodedAddress_init" by (simp add: classify_row_status_def)
  obtain c r' s' where x: "executor_issue hbm_demo (classify_row_status ?r) WR 0 s = Inr (c, r', s')"
    using executor_issue_banks [OF wf(1,2), of "classify_row_status ?r" WR 0] hbm_demo_range d by metis
  have r': "rq_type r' = ReqWrite" "rq_address r' = 0"
    using same_requestD [OF same_request_trans [OF same_request_classify executor_issue_request(1) [OF x]]] by simp_all
  have wr: "is_data_command WR" "\<not> is_opening_command WR"
    by (simp_all add: is_data_command_def is_opening_command_def command_meta_def kMeta_def meta_def)
  have iw: "rq_type (if b then take_buffered y m else commit_write_data hbm_demo (take_buffered y m)) = rq_type y"
    "rq_address (if b then take_buffered y m else commit_write_data hbm_demo (take_buffered y m)) = rq_address y" for b y m
    by (simp_all add: take_buffered_def commit_write_data_def ensure_write_payload_def Let_def split: option.split)
  have "\<exists>w ct'. retire_or_advance hbm_demo demo_phy ?c WR ct1 = Inr (Some w, ct') \<and> rq_type w = ReqWrite \<and> rq_address w = 0"
    if "queue (ct_queues ct1) QWrite = [r']" for ct1
    using that r' by (simp add: retire_or_advance_def is_terminal_maintenance_def is_maintenance_request_def wr queue_erase_def iw Let_def)
  then show ?thesis
    using x demo_split ct
    by (simp add: issue_command_def queue_push_def demo_queues_def Let_def low_power_command_def wck_training_command_def
        set_queue_def split: option.split)
qed

section \<open>Properties\<close>

text \<open>
  C8: Every run of the controller is a history the gates accept: whatever requests are admitted, refused,
  forwarded or coalesced, whatever maintenance and refreshes are scheduled, whenever an idle controller enters low
  power, and whichever candidates the scheduler, the
  write mode and the row policy pick, the issued commands form an accepted sequence that leads to the
  executor's state (so that the distances of the timing theorem of \<open>Controller_Timing\<close> hold), and the banks follow the protocol: a
  bank is idle, opening, or active with the row of its last activation, closed by its own precharge, by an
  auto-precharge access and by an all-bank precharge of its rank, and every read and write command finds
  exactly its row active.
\<close>

theorem controller_runs_are_accepted:
  assumes "runs fc spec opts h ws ct" and "in_range spec e"
  shows "issues fc spec h (ct_exec ct) \<and> abs_bank (bank_of spec (ct_exec ct) e) = fold (proto_step e) h Idle
    \<and> (\<forall>j < length h. \<forall>f d u. h ! j = (f, d, u) \<and> f \<in> {RD, RDA, WR, WRA} \<longrightarrow> fold (proto_step d) (take j h) Idle = Active (row d))"
proof -
  have "issues fc spec h (ct_exec ct)" using runs_ok [OF assms(1)] by (simp add: front_ok_def)
  then show ?thesis using banks_follow_protocol [OF _ assms(2)] by blast
qed

theorem controller_runs_are_accepted_witness:
  "\<exists>ct. runs demo_float hbm_demo demo_opts [(ACT, DecodedAddress_init, 10)] [] ct
     \<and> abs_bank (bank_of hbm_demo (ct_exec ct) DecodedAddress_init) = Active 0"
proof -
  obtain s where "ExecState_new demo_float hbm_demo = Inr s" using hbm_demo_new by blast
  then obtain ct where ct: "runs demo_float hbm_demo demo_opts [(ACT, DecodedAddress_init, 10)] [] ct" using demo_issue by blast
  from conjunct1 [OF conjunct2 [OF controller_runs_are_accepted [OF ct hbm_demo_range]]] ct show ?thesis
    by (auto simp: proto_step_def)
qed

text \<open>
  C6: A read is forwarded exactly when a byte of it is buffered, and then it gets for every byte the value
  of the last accepted write that covers the byte and has not been issued, under the write's byte mask, and
  the memory image's value otherwise, whatever the order in which the hash map of the buffer is traversed and
  however writes to the same or to overlapping addresses were coalesced in between; the mask of
  initialised bytes is completed accordingly. The hypotheses: the image answers with as many bytes as
  the read asks for, and the read ends below the top of the address space. (Writes to one address have
  equal lengths in a run.)
\<close>

theorem reads_see_newest_writes:
  assumes "runs fc spec opts h ws ct" and "enqueue spec img order req ct = Inr (True, ct')" and "rq_type req = ReqRead"
    and "set order = dom (cf_buffered_writes ct)" and "rq_address req + request_data_size spec req \<le> u64_max"
    and "\<And>r. rq_address r = rq_address req \<Longrightarrow>
      iv_read img r (request_data_size spec req) = (actual, image_mask, corrected, uncorrectable)"
    and "length actual = request_data_size spec req" and "length image_mask = request_data_size spec req"
  shows "if \<forall>i < request_data_size spec req. last_byte ws (rq_address req + i) = None
    then cf_pending ct' = cf_pending ct \<and> length (queue (ct_queues ct') QRead) = length (queue (ct_queues ct) QRead) + 1
    else \<exists>r. cf_pending ct' = cf_pending ct @ [r] \<and> ct_queues ct' = ct_queues ct
      \<and> rq_payload r = map (\<lambda>i. case last_byte ws (rq_address req + i) of None \<Rightarrow> actual ! i | Some b \<Rightarrow> b)
          [0..<request_data_size spec req]
      \<and> rq_byte_mask r = map (\<lambda>i. case last_byte ws (rq_address req + i) of None \<Rightarrow> image_mask ! i | Some b \<Rightarrow> 0xFF)
          [0..<request_data_size spec req]"
proof -
  define k where "k = request_data_size spec req"
  let ?m = "cf_buffered_writes ct" and ?req = "req\<lparr>rq_arrival := ct_clk ct\<rparr>"
  let ?ct = "wake_for_request spec ?req ct"
  let ?r = "bypass ?ct (?req\<lparr>rq_controller_sequence := cf_next_controller_sequence ct\<rparr>)"
  have buf: "buffer_of spec ws (cf_next_controller_sequence ct) ?m"
    using runs_ok [OF assms(1)] by (simp add: front_ok_def buffers_ok_def)
  have e: "enqueue_read spec img order ?req ?ct = (True, ct')" using enqueue_split(2) [OF assms(2,3)] .
  have sz: "request_data_size spec ?req = k" "request_data_size spec ?r = k" "rq_address ?r = rq_address req"
    by (simp_all add: k_def bypass_def)
  have hit: "read_hits_buffered_write spec ?req order ?m \<longleftrightarrow> (\<exists>i < k. last_byte ws (rq_address req + i) \<noteq> None)"
    using hits_iff_buffered [OF buf assms(4), of ?req k] sz assms(5) by (simp add: k_def)
  have fwd: "read_forward_payload spec ?r order ?m actual image_mask =
      (map (\<lambda>i. case last_byte ws (rq_address req + i) of None \<Rightarrow> actual ! i | Some b \<Rightarrow> b) [0..<k],
       map (\<lambda>i. case last_byte ws (rq_address req + i) of None \<Rightarrow> image_mask ! i | Some b \<Rightarrow> 0xFF) [0..<k])"
    using forward_newest [OF buf assms(4), of ?r k actual image_mask] sz assms(5,7,8) by (simp add: k_def)
  show ?thesis
  proof (cases "\<forall>i < k. last_byte ws (rq_address req + i) = None")
    case True
    then have "\<not> read_hits_buffered_write spec ?req order ?m" using hit by simp
    then show ?thesis using e True
      by (auto simp: enqueue_read_def take_sequence_def queue_push_def Let_def k_def [symmetric] split: if_splits)
  next
    case False
    have img: "iv_read img ?r k = (actual, image_mask, corrected, uncorrectable)" using assms(6) [of ?r] sz(3) by (simp add: k_def)
    have "ct_queues ct' = ct_queues ct" "\<exists>r. cf_pending ct' = cf_pending ct @ [r] \<and> rq_payload r = fst (read_forward_payload spec ?r order ?m actual image_mask)
        \<and> rq_byte_mask r = snd (read_forward_payload spec ?r order ?m actual image_mask)"
      using e False hit img sz(2) by (auto simp: enqueue_read_def take_sequence_def bypass_def Let_def case_prod_unfold)
    then show ?thesis using False by (auto simp: fwd k_def [symmetric])
  qed
qed

theorem reads_see_newest_writes_witness:
  "\<exists>s ct' r. runs demo_float hbm_demo demo_opts [] [demo_store\<lparr>rq_controller_sequence := 1\<rparr>] (demo_write_front s)
     \<and> enqueue hbm_demo demo_image [0] demo_load (demo_write_front s) = Inr (True, ct')
     \<and> cf_pending ct' = [r] \<and> rq_payload r = [3, 4, 0, 0] \<and> rq_byte_mask r = [0xFF, 0xFF, 0, 0]"
proof -
  obtain s where s: "ExecState_new demo_float hbm_demo = Inr s" using hbm_demo_new by blast
  let ?ct = "demo_write_front s" and ?ws = "[demo_store\<lparr>rq_controller_sequence := 1\<rparr>]"
  note run = demo_run_write [OF s]
  have m: "cf_buffered_writes ?ct = [0 \<mapsto> \<lparr>bw_request = demo_store\<lparr>rq_controller_sequence := 1\<rparr>, bw_byte_sequence = [1, 1, 1, 1]\<rparr>]"
    by (simp add: demo_write_front_def)
  have "read_hits_buffered_write hbm_demo demo_load [0] (cf_buffered_writes ?ct)"
    by (simp add: m read_hits_buffered_write_def buffered_entries_def List.map_filter_def write_hits_read_def ranges_overlap_def
        range_end_def u64_max_def u64_add_def request_data_size_def Let_def)
  then have "\<exists>ct'. enqueue hbm_demo demo_image [0] demo_load ?ct = Inr (True, ct')"
    by (simp add: enqueue_def demo_check demo_selectors wake_for_request_def enqueue_read_def Let_def case_prod_unfold
        demo_write_front_def take_sequence_def)
  then obtain ct' where e: "enqueue hbm_demo demo_image [0] demo_load ?ct = Inr (True, ct')" by blast
  have k: "request_data_size hbm_demo demo_load = 4" by (simp add: request_data_size_def)
  have n: "[0..<4] = [0, 1, 2, 3::nat]" by (simp add: upt_rec)
  have b: "last_byte ?ws 2 = Some 3" "last_byte ?ws 3 = Some 4" "last_byte ?ws 4 = None" "last_byte ?ws 5 = None"
      "last_byte ?ws (Suc (Suc 0)) = Some 3" "last_byte ?ws (Suc (Suc (Suc 0))) = Some 4"
    by (simp_all add: last_byte_def byte_of_def masked_byte_def effective_mask_def)
  have i: "iv_read demo_image r 4 = (replicate 4 0, replicate 4 0, False, False)" for r by (simp add: demo_image_def)
  have p0: "cf_pending ?ct = []" by (simp add: demo_write_front_def)
  have some: "\<not> (\<forall>i < 4. last_byte ?ws (2 + i) = None)" using b(1) by (metis add_0_right option.distinct(1) zero_less_numeral)
  have dom: "set [0] = dom (cf_buffered_writes ?ct)" by (simp add: m)
  note res = reads_see_newest_writes [OF run e demo_write_simps(9) dom, unfolded k demo_write_simps(10), OF _ i,
      unfolded if_not_P [OF some] n]
  have "\<exists>r. cf_pending ct' = [r] \<and> rq_payload r = [3, 4, 0, 0] \<and> rq_byte_mask r = [0xFF, 0xFF, 0, 0]"
    using res by (auto simp: b [simplified] p0 u64_max_def)
  then show ?thesis using run e by auto
qed

text \<open>
  C7: In a run whose writes carry their payload and in which two buffered writes to one address have
  equal lengths, a write command takes along, for every byte, the value of the last of the accepted writes
  to its address that covers the byte, and nothing for the bytes that none of them covers, whatever
  candidate the controller issues, for the direct path as for the behavioural PHY: under these conditions
  coalesced writes are neither lost nor reordered on their way to the memory. (Without the equal lengths
  bytes can be lost: the theorem on unmasked writes below.)
\<close>

theorem issued_writes_carry_newest_bytes:
  assumes "runs fc spec opts h ws ct" and "cd_index cand < length (queue (ct_queues ct) (cd_buffer cand))"
    and "issue_command spec opts phy cand ct = Inr (Some w, ct')" and "rq_type w = ReqWrite"
  shows "byte_of w pos = last_byte (filter (\<lambda>r. rq_address r = rq_address w) ws) pos"
  using issue_bytes [OF _ _ assms(2-4)] runs_ok [OF assms(1)] by (simp add: front_ok_def)

theorem issued_writes_carry_newest_bytes_witness:
  "\<exists>s w ct'. issue_command hbm_demo demo_opts demo_phy \<lparr>cd_index = 0, cd_buffer = QWrite, cd_command = WR, cd_bus = UnifiedBus\<rparr> (demo_write_front s)
      = Inr (Some w, ct') \<and> byte_of w 1 = Some 2 \<and> byte_of w 4 = None"
proof -
  obtain s where s: "ExecState_new demo_float hbm_demo = Inr s" using hbm_demo_new by blast
  let ?ct = "demo_write_front s" and ?ws = "[demo_store\<lparr>rq_controller_sequence := 1\<rparr>]"
  let ?c = "\<lparr>cd_index = 0, cd_buffer = QWrite, cd_command = WR, cd_bus = UnifiedBus\<rparr>"
  note run = demo_run_write [OF s]
  obtain w ct' where e: "issue_command hbm_demo demo_opts demo_phy ?c ?ct = Inr (Some w, ct')" "rq_type w = ReqWrite" "rq_address w = 0"
    using demo_issue_write [OF s, of ?ct] by (auto simp: demo_write_front_def)
  have "cd_index ?c < length (queue (ct_queues ?ct) (cd_buffer ?c))" by (simp add: demo_write_front_def queue_push_def demo_queues_def)
  note b = issued_writes_carry_newest_bytes [OF run this e(1,2)]
  have "byte_of w 1 = Some 2" "byte_of w 4 = None"
    unfolding b e(3) by (simp_all add: last_byte_def byte_of_def masked_byte_def effective_mask_def)
  then show ?thesis using e(1) by blast
qed

lemma all_bank_commands:
  "is_all_bank_row_command c" if "c \<in> {PREAB, REFAB, RFMAB}" for c
  using that by (auto simp: is_all_bank_row_command_def command_meta_def kMeta_def meta_def)

lemma bank_commands:
  "\<not> is_all_bank_row_command c" if "c \<in> {PREPB, REFPB, REFDB, RFMPB}" for c
  using that by (auto simp: is_all_bank_row_command_def command_meta_def kMeta_def meta_def)

lemma would_close_active_banks:
  assumes "would_close_active spec req cmd source (gate ct) = Inr False" and "source \<noteq> QActive" and "cmd \<in> {PREPB, REFPB, REFDB, RFMPB}"
  shows "active_counts (ct_queues ct) ! nat (flat_bank spec (rq_decoded req)) \<le> 0"
  using assms bank_commands [OF assms(3)] by (auto simp: would_close_active_def Let_def split: if_splits)

lemma would_close_active_rank:
  assumes "would_close_active spec req cmd source (gate ct) = Inr False" and "source \<noteq> QActive" and "cmd \<in> {PREAB, REFAB, RFMAB}"
  shows "let (lo, hi) = controller_rank_range spec (rq_decoded req) (gate ct) in \<forall>n \<in> set (slice lo hi (active_counts (ct_queues ct))). n \<le> 0"
  using assms all_bank_commands [OF assms(3)]
  by (auto simp: would_close_active_def Let_def case_prod_unfold list_ex_iff not_less split: if_splits)

text \<open>
  C10: The candidate that choose returns is the next command of a queued request, has passed the state and
  timing gates and the admission of the PHY in the state in which it is issued, and waits for what it must: a
  write is not selected while an older read of an overlapping range is queued or pending; a PREpb, REFpb,
  REFdb or RFMpb from outside the active queue is not selected while the bank it addresses has a positive count
  of active requests, nor a PREab, REFab or RFMab while a bank of the rank's range has one; and
  no ordinary read or write is started while maintenance is queued. (Not held back by the counts: the
  commands of active requests, auto-precharging reads and writes, and the partner bank of a REFdb.)
\<close>

theorem chosen_commands_wait:
  assumes "choose_command spec opts phy bus ct = Inr (Some c, ct')"
  shows "cd_index c < length (queue (ct_queues ct') (cd_buffer c)) \<and>
    (let req = queue (ct_queues ct') (cd_buffer c) ! cd_index c in
       next_command_for spec req (gate ct') = Inr (Some (cd_command c)) \<and> timing_ok spec req (cd_command c) (gate ct') = Inr True
       \<and> bus_matches spec req (cd_command c) bus (gate ct') \<and> phy_admission_ok phy (cd_command c)
       \<and> (rq_type req = ReqWrite \<longrightarrow>
            \<not> has_unresolved_overlapping_read spec req (rq_controller_sequence req) (ct_queues ct') (cf_pending ct'))
       \<and> (cd_buffer c \<noteq> QActive \<longrightarrow> would_close_active spec req (cd_command c) (cd_buffer c) (gate ct') = Inr False)
       \<and> (cd_buffer c \<noteq> QActive \<and> cd_command c \<in> {PREPB, REFPB, REFDB, RFMPB} \<longrightarrow>
            active_counts (ct_queues ct') ! nat (flat_bank spec (rq_decoded req)) \<le> 0)
       \<and> (cd_buffer c \<noteq> QActive \<and> cd_command c \<in> {PREAB, REFAB, RFMAB} \<longrightarrow>
            (let (lo, hi) = controller_rank_range spec (rq_decoded req) (gate ct')
             in \<forall>n \<in> set (slice lo hi (active_counts (ct_queues ct'))). n \<le> 0))
       \<and> (cd_buffer c \<in> {QRead, QWrite} \<longrightarrow> queue (ct_queues ct') QPriority = []))"
proof -
  note sel = choose_selectable [OF assms]
  let ?r = "queue (ct_queues ct') (cd_buffer c) ! cd_index c" and ?avoid = "cd_buffer c \<noteq> QActive"
  have el: "candidate_eligible spec phy ?r (cd_command c) bus (cd_buffer c) ?avoid ct' = Inr True"
    using sel by (auto simp: selectable_def Let_def)
  have *: "bus_matches spec ?r (cd_command c) bus (gate ct')"
    "rq_type ?r = ReqWrite \<Longrightarrow> \<not> has_unresolved_overlapping_read spec ?r (rq_controller_sequence ?r) (ct_queues ct') (cf_pending ct')"
    "?avoid \<Longrightarrow> would_close_active spec ?r (cd_command c) (cd_buffer c) (gate ct') = Inr False"
    using el by (auto simp: candidate_eligible_def rbind_eq_Inr split: if_splits)
  note open_banks = would_close_active_banks [OF *(3)]
  note open_rank = would_close_active_rank [OF *(3)]
  show ?thesis
    using sel * open_banks open_rank by (simp add: selectable_def Let_def case_prod_unfold del: insert_iff)
qed

theorem chosen_commands_wait_witness:
  "\<exists>s. choose_command hbm_demo demo_opts demo_phy UnifiedBus (demo_busy s) = Inr (Some demo_candidate, demo_busy s)
     \<and> timing_ok hbm_demo (Request_init\<lparr>rq_controller_sequence := 1\<rparr>) ACT (gate (demo_busy s)) = Inr True"
proof -
  obtain s where s: "ExecState_new demo_float hbm_demo = Inr s" using hbm_demo_new by blast
  from chosen_commands_wait [OF demo_choose [OF s]] demo_choose [OF s] show ?thesis
    by (auto simp: demo_candidate_def queue_push_def demo_queues_def Let_def)
qed

section \<open>Unmasked writes to a buffered address\<close>








end
