(* ===== verification/Spec2Isabelle.thy ===== *)
theory Spec2Isabelle
  imports Bridge_System Credit_Loop Unpacker_System Link_System Simple_Memory Target_Correct Timing_Correct Refresh_Correct
    Controller_System
begin

text \<open>
  A verification development of StorageStacked: the path of a memory access from an AXI master, over
  flits and a UCIe link, to the storage side, and the DRAM controller of the memory simulator.

  \<^bold>\<open>The program.\<close> An AXI master issues bursts. The bridge (components/axi2flit) turns every AXI beat into
  a message of 5-byte granules, packs messages into 250-byte flits under granule credits, and turns the
  responses that come back into B and R beats. An adapter (storage_axi/link/ucie_aou_adapter.h) moves flits
  between the bridge's ready/valid handshake and the queues of a UCIe link model (components/ucie-model),
  which delivers them over an impaired channel with CRC, acknowledgements and replay. On the storage side the
  target (storage_axi/link/aou_target.h) unpacks the flits, assembles the write bursts, hands whole
  bursts to a memory and packs the responses. The memory is the serial burst memory of
  storage_axi/link/simple_burst_memory.h or the simulator components/mem_sim, whose channels are each
  served by a DRAM controller: requests are admitted and queued, a command is selected per command bus and
  cycle under the state and timing rules of the device, and issued to the command executor, which updates
  the banks and the timing engine; refresh, RFM and the row policy feed maintenance into the same path.

  \<^bold>\<open>Conventions\<close> (Prelude). C++ integers whose wrap-around matters are words or natural numbers with
  the reduction written out (u8, u16, u32, u64 and the helpers u64_add and u64_max). A fallible operation
  returns \<open>cpp_error + 'a\<close>: a thrown exception, a fatal report, and undefined behaviour (an array access out
  of bounds, an invalidated iterator) are different errors, and every access the code does not check is
  checked in the model. A SystemC thread is a function for one pass of its loop (from one \<open>wait\<close> to the
  next), its local variables are fields of its record, and the schedules of the simulator are covered by
  step relations that allow every interleaving of the passes and of the update phases. Sc_Fifo models
  the bounded channel with its evaluate and update phases; the locale \<open>bounded_queue\<close> is the contract the
  threads rely on, interpreted on it.

  \<^bold>\<open>The bridge.\<close>
  \<^item> Bit_Stream, Aou_Types, Aou_Wire: BitWriter and BitReader, messages and flits of aou_types.h, the wire
    format of aou_wire.h and the Format 6 frame of aou_format6.h. Round trips.
  \<^item> Axi_If, Msg_Codec: the channels of axi_if.h, the checks of axi_contract.h, and every builder and decoder of
    msg_builder.h and msg_decoder.h with their layouts.
  \<^item> Credit, Credit_Grant, Credit_Loop: the credit manager. The locale \<open>credit_channel\<close> is the contract
    of a way to return credits; the header field and the dedicated message are its two instances. What leaves
    the pending counters is what the peer's decoder announces, repeated grants drain them, and in the
    closed loop no counter overflows.
  \<^item> Stream_Decoder: aou_stream_decoder.h, which recovers the messages of a sequence of flits.
  \<^item> Flit_Packer, with Packer_Stream, Packer_Correct and Packer_System: flit_packer.cpp. Per class and plane
    the peer decodes exactly what was written into the queue, in order, and no assertion of the code
    fails.
  \<^item> Flit_Unpacker, with Unpacker_System: flit_unpacker.cpp. In-order delivery to the readers, and the
    exact condition of a fatal report.
  \<^item> Rp_Order_Guard: rp_order_guard.h against the counting specification of ordering hazards.
  \<^item> Axi_Bridge, Bridge_Correct, Bridge_System: axi2flit.cpp, the five channel threads with the packer and
    the unpacker. Every accepted AXI beat leaves on the link, every response that arrives is presented,
    both in order, and no assertion fails.

  \<^bold>\<open>The link.\<close>
  \<^item> Ucie_Common: configuration, flit formats, CRC-16 and its error detection. Ucie_Phy: lanes, PAM4
    and NRZ, channel, deskew and CDR.
  \<^item> Ucie_Link, Ucie_Retry, Ucie_Props: one direction of ucie_link.h. Exactly-once, in-order and unaltered
    delivery for every corruption, delay, replay and timeout, the exact contents of the retry buffer, and the
    only errors a direction can end in. The step relation is more liberal than the simulator in its timing, so
    it is used for what holds in all runs only.
  \<^item> Ucie_Adapter, Link_System: the adapter, and packer, adapter and link composed: what was written into
    the packer's queues is what the far end decodes.

  \<^bold>\<open>The storage side.\<close>
  \<^item> Simple_Memory: the burst memory refines a byte-addressed store, with read-after-write and the
    exact condition of a fatal report.
  \<^item> Aou_Target, Target_Correct: the target; every collected response leaves as its messages, in order, and
    the count of outstanding transactions is exact.

  \<^bold>\<open>The DRAM controller\<close> (components/mem_sim).
  \<^item> Dram_Spec, Addr_Map, Dram_Semantics: the device record with its validation and constraint tables
    (dram/spec.cpp), address decoding (core/addr_map.cpp, bijective within the capacity) and command semantics
    (dram/semantics.cpp, dram/state.cpp).
  \<^item> Timing_Engine, Timing_Correct: controller/timing.cpp. The bucket tests decide exactly the pairwise
    distances of the table, the four-activate window, dual-bank sweeps.
  \<^item> Refresh_Manager, Refresh_Correct: controller/refresh.cpp. Conservation of obligations, termination of the
    deadline loop, rotation over the banks, targets within the organization. Rfm_Manager: controller/rfm.cpp,
    against the count of activations a bank owes. Row_Policy: controller/row_policy.cpp, against the accesses
    to an open row, and where the two differ. Scheduler: controller/scheduler.cpp.
    Request_Queues: controller/request_queues.hpp.
  \<^item> Command_Executor, Controller_Gate: controller/executor.cpp, and the gates of controller/controller.cpp that decide
    on a single command (\<open>timing_ok\<close>, \<open>next_command_for\<close>, bus and ownership tests).
    Executor_Correct reads the executor bank by bank; Bank_Rules and Controller_Timing show that accepted
    sequences respect the distances of the constraint table and those of a list of bank rules, through the locale \<open>bank_gate\<close> (a gate value
    in a bank that later commands never lower), interpreted on the five gates of a bank. An all-bank
    precharge is not held back by them: a theorem shows one issued before nRAS has elapsed.
  \<^item> Write_Buffer, Write_Buffer_Correct: buffered writes, coalescing and forwarding. An entry denotes a partial
    function from bytes to sequence numbers and values; merging is override, forwarding takes the newest.
  \<^item> Controller_Enqueue, Controller_Schedule, Controller_Issue: admission (\<open>enqueue\<close>,
    \<open>schedule_maintenance\<close>), selection (\<open>choose\<close> with its four stages), and issue with
    \<open>retire_or_advance\<close>, refresh and row policy scheduling, the service of the command buses in a tick and the
    entry into low power of an idle controller.
  \<^item> Controller_Choice, Controller_Run, Controller_System: what a selected candidate satisfies, the invariant of
    the controller (commands, queues, buffered writes), and runs that interleave all operations. Every run is an
    accepted command history, reads and issued writes see the newest accepted byte, selected
    commands wait for what they must. A further theorem shows that an unmasked write replaces a buffered write
    as a whole, and with it the bytes beyond its own end.

  \<^bold>\<open>Bounds and loops.\<close> Loops are recursive functions with termination proofs, with two exceptions.
  The packing loop of the target gets 48 passes, enough because every pass fills one of the 48 granules of
  the flit; the deadline loop of the refresh manager is a partial function, and a theorem shows that it ends for every
  validated device. Cycles and times in the properties of the controller stay below the
  limits of their 64-bit types, as their hypotheses say; device parameters are 32-bit integers.
  The counters of refresh, RFM and row policy are \<open>int\<close> in the source and integers here; each grows by one per
  interval, activation or access. The retry protocol needs a window of at most 127 flits, which the configuration check grants.

  \<^bold>\<open>Parameters.\<close> Not fixed by the model, so that the properties hold for every choice: the numbers drawn by the
  PHY's random distributions; comparisons of doubles in the device validation and of the write
  watermarks; the answers of the memory image and of the memory PHY to the controller; the iteration order of
  its hash map. In the runs of the controller, writes carry their payload and two buffered writes to one
  address have equal lengths; Controller_System shows why.

  \<^bold>\<open>Not modelled.\<close>
  \<^item> In the UCIe model, the command line and the run summary; in the burst memory, the access delays.
  \<^item> In controller.cpp, the completion of pending requests and their responses, the run loops and most of the
    statistics: they come after the command has been issued. A run may remove a pending request at any time.
  \<^item> core/data.cpp (page images, ECC, fault injection), of which only the helpers of the write buffer are
    modelled; core/system.cpp, core/stack_model.cpp and core/memory_backend.cpp (aggregation over
    channels and the thermal and power model, in double arithmetic, and the front end on top of them).
  \<^item> dram/profiles.cpp, jedec.cpp, standard_traits.cpp, interface.cpp: tables of presets and conversions in double
    arithmetic that fill the device record, which is an argument here; mem_phy.cpp, the behavioural memory PHY,
    whose answers to the controller are arguments.
  \<^item> Configuration and command line parsing, traffic generation, reporting, trace validation, the gem5 and
    SystemC glue, test benches, and the vendored processor and SystemC trees.
\<close>

end
